(* ===== verification/Och_Prelude.thy ===== *)
theory Och_Prelude
  imports "HOL-Library.Word" "HOL-Library.List_Lexorder"
begin

text \<open>
  Shared vocabulary of the development: the Rust integer types as machine words, the
  \<open>Result\<close> plumbing (the \<open>?\<close> operator, \<open>map_err\<close>, \<open>ok_or\<close>), checked arithmetic, slices,
  in-place writes into fixed byte arrays, and big-endian integer encodings.  The target is
  a 64-bit platform: a Rust \<open>usize\<close> is a natural number bounded by \<open>usize_max\<close>.
\<close>

section \<open>Integer types\<close>

type_synonym u8 = "8 word"
type_synonym u16 = "16 word"
type_synonym u32 = "32 word"
type_synonym u64 = "64 word"
type_synonym u128 = "128 word"
type_synonym i64 = "64 word"
type_synonym bytes = "u8 list"

definition usize_max :: nat where
  "usize_max = 2 ^ 64 - 1"

lemma usize_max_eq [simp]: "usize_max = 18446744073709551615"
  by (simp add: usize_max_def)

definition checked_add :: "'a::len word \<Rightarrow> 'a word \<Rightarrow> 'a word option" where
  "checked_add a b = (if unat a + unat b < 2 ^ LENGTH('a) then Some (a + b) else None)"

definition checked_sub :: "'a::len word \<Rightarrow> 'a word \<Rightarrow> 'a word option" where
  "checked_sub a b = (if b \<le> a then Some (a - b) else None)"

definition checked_mul :: "'a::len word \<Rightarrow> 'a word \<Rightarrow> 'a word option" where
  "checked_mul a b = (if unat a * unat b < 2 ^ LENGTH('a) then Some (a * b) else None)"

definition usize_checked_add :: "nat \<Rightarrow> nat \<Rightarrow> nat option" where
  "usize_checked_add a b = (if a + b \<le> usize_max then Some (a + b) else None)"

definition usize_saturating_add :: "nat \<Rightarrow> nat \<Rightarrow> nat" where
  "usize_saturating_add a b = min (a + b) usize_max"

lemma unat_less_2p: "unat (w::'a::len word) < 2 ^ LENGTH('a)"
  by (rule unsigned_less)

lemma checked_add_unat:
  "checked_add a b = Some c \<Longrightarrow> unat c = unat a + unat b"
  by (auto simp: checked_add_def unat_word_ariths split: if_splits)

lemma checked_mul_unat:
  "checked_mul a b = Some c \<Longrightarrow> unat c = unat a * unat b"
  by (auto simp: checked_mul_def unat_word_ariths split: if_splits)

lemma checked_sub_unat:
  "checked_sub a b = Some c \<Longrightarrow> unat c = unat a - unat b \<and> unat b \<le> unat a"
  by (auto simp: checked_sub_def unat_sub word_le_nat_alt split: if_splits)

lemma checked_add_iff: "checked_add a b = Some c \<longleftrightarrow> unat c = unat a + unat b" for a :: "'a::len word"
proof
  assume "checked_add a b = Some c"
  then show "unat c = unat a + unat b" by (rule checked_add_unat)
next
  assume eq: "unat c = unat a + unat b"
  then have "unat a + unat b < 2 ^ LENGTH('a)" using unat_less_2p [of c] by simp
  moreover from eq have "a + b = c" by (metis of_nat_add of_nat_unat ucast_id)
  ultimately show "checked_add a b = Some c" by (simp add: checked_add_def)
qed

lemma checked_succ_iff: "checked_add a 1 = Some c \<longleftrightarrow> unat c = unat a + 1" for a :: "'a::len word"
  by (simp add: checked_add_iff)

lemma checked_sub_iff: "checked_sub a b = Some c \<longleftrightarrow> unat c + unat b = unat a"
proof
  assume "checked_sub a b = Some c"
  then show "unat c + unat b = unat a" using checked_sub_unat [of a b c] by simp
next
  assume eq: "unat c + unat b = unat a"
  then have "b \<le> a" by (simp add: word_le_nat_alt)
  moreover from eq have "c + b = a" by (metis of_nat_add of_nat_unat ucast_id)
  ultimately show "checked_sub a b = Some c" by (auto simp: checked_sub_def)
qed

lemma usize_saturating_add_assoc:
  "usize_saturating_add (usize_saturating_add n a) b = usize_saturating_add n (a + b)"
  by (simp add: usize_saturating_add_def min_def)

section \<open>Results and the \<open>?\<close> operator\<close>

type_synonym ('e, 'a) result = "'e + 'a"

definition and_then :: "('e, 'a) result \<Rightarrow> ('a \<Rightarrow> ('e, 'b) result) \<Rightarrow> ('e, 'b) result" where
  "and_then m k = (case m of Inl e \<Rightarrow> Inl e | Inr x \<Rightarrow> k x)"

definition map_err :: "('e \<Rightarrow> 'f) \<Rightarrow> ('e, 'a) result \<Rightarrow> ('f, 'a) result" where
  "map_err f m = (case m of Inl e \<Rightarrow> Inl (f e) | Inr x \<Rightarrow> Inr x)"

definition map_ok :: "('a \<Rightarrow> 'b) \<Rightarrow> ('e, 'a) result \<Rightarrow> ('e, 'b) result" where
  "map_ok f m = (case m of Inl e \<Rightarrow> Inl e | Inr x \<Rightarrow> Inr (f x))"

definition ok_or :: "'e \<Rightarrow> 'a option \<Rightarrow> ('e, 'a) result" where
  "ok_or e v = (case v of None \<Rightarrow> Inl e | Some x \<Rightarrow> Inr x)"

definition is_ok :: "('e, 'a) result \<Rightarrow> bool" where
  "is_ok m = (case m of Inl _ \<Rightarrow> False | Inr _ \<Rightarrow> True)"

definition is_some_and :: "('a \<Rightarrow> bool) \<Rightarrow> 'a option \<Rightarrow> bool" where
  "is_some_and p v = (case v of None \<Rightarrow> False | Some x \<Rightarrow> p x)"

named_theorems result_simps "evaluation of the result plumbing"

lemma and_then_simps [simp, result_simps]:
  "and_then (Inl e) k = Inl e"
  "and_then (Inr x) k = k x"
  by (simp_all add: and_then_def)

lemma map_err_simps [simp, result_simps]:
  "map_err f (Inl e) = Inl (f e)"
  "map_err f (Inr x) = Inr x"
  by (simp_all add: map_err_def)

lemma map_ok_simps [simp, result_simps]:
  "map_ok g (Inl e) = Inl e"
  "map_ok g (Inr x) = Inr (g x)"
  by (simp_all add: map_ok_def)

lemma ok_or_simps [simp, result_simps]:
  "ok_or e None = Inl e"
  "ok_or e (Some x) = Inr x"
  by (simp_all add: ok_or_def)

lemma is_ok_simps [simp, result_simps]:
  "is_ok (Inl e) = False"
  "is_ok (Inr x) = True"
  by (simp_all add: is_ok_def)

lemma is_some_and_simps [simp, result_simps]:
  "is_some_and p None = False"
  "is_some_and p (Some x) = p x"
  by (simp_all add: is_some_and_def)

lemma and_then_Inr_conv:
  "and_then m k = Inr y \<longleftrightarrow> (\<exists>x. m = Inr x \<and> k x = Inr y)"
  by (cases m) auto

lemma map_err_Inr_conv: "map_err f m = Inr x \<longleftrightarrow> m = Inr x"
  by (cases m) auto

lemma map_ok_Inr_conv: "map_ok f m = Inr y \<longleftrightarrow> (\<exists>x. m = Inr x \<and> y = f x)"
  by (cases m) auto

lemma ok_or_Inr_conv: "ok_or e v = Inr x \<longleftrightarrow> v = Some x"
  by (cases v) auto

lemma if_Inl_Inr_conv: "(if b then Inl e else m) = Inr x \<longleftrightarrow> \<not> b \<and> m = Inr x"
  by simp

lemmas result_convs = and_then_Inr_conv map_err_Inr_conv map_ok_Inr_conv ok_or_Inr_conv
  if_Inl_Inr_conv

section \<open>Slices and fixed arrays\<close>

definition slice :: "nat \<Rightarrow> nat \<Rightarrow> 'a list \<Rightarrow> 'a list" where
  "slice i j xs = take (j - i) (drop i xs)"

text \<open>\<open>bytes[i..i+n].copy_from_slice(src)\<close> for \<open>n = src.len()\<close>.\<close>

definition write_at :: "nat \<Rightarrow> 'a list \<Rightarrow> 'a list \<Rightarrow> 'a list" where
  "write_at i src dst = take i dst @ src @ drop (i + length src) dst"

lemma length_slice [simp]: "length (slice i j xs) = min (j - i) (length xs - i)"
  by (simp add: slice_def)

lemma length_write_at [simp]:
  "i + length src \<le> length dst \<Longrightarrow> length (write_at i src dst) = length dst"
  by (simp add: write_at_def)

lemma slice_append_right:
  "length xs \<le> i \<Longrightarrow> slice i j (xs @ ys) = slice (i - length xs) (j - length xs) ys"
  by (simp add: slice_def)

lemma slice_append_left:
  "i \<le> j \<Longrightarrow> j \<le> length xs \<Longrightarrow> slice i j (xs @ ys) = slice i j xs"
  by (simp add: slice_def)

lemma slice_full: "j = length xs \<Longrightarrow> slice 0 j xs = xs"
  by (simp add: slice_def)

lemma slice_join: "i \<le> j \<Longrightarrow> j \<le> k \<Longrightarrow> slice i j xs @ slice j k xs = slice i k xs"
proof -
  assume "i \<le> j" "j \<le> k"
  then have "k - i = (j - i) + (k - j)" by simp
  then have "take (k - i) (drop i xs) = take (j - i) (drop i xs) @ take (k - j) (drop (j - i) (drop i xs))"
    by (simp only: take_add)
  with \<open>i \<le> j\<close> show ?thesis by (simp add: slice_def)
qed

lemma slice_pair: "i + 2 \<le> length xs \<Longrightarrow> slice i (i + 2) xs = [xs ! i, xs ! (i + 1)]"
  by (simp add: slice_def Cons_nth_drop_Suc [symmetric] take_Suc_conv_app_nth numeral_2_eq_2)

lemma slice_single: "i < length xs \<Longrightarrow> slice i (i + 1) xs = [xs ! i]"
  by (simp add: slice_def Cons_nth_drop_Suc [symmetric])

lemma write_at_padding:
  "length xs = i \<Longrightarrow> length src \<le> n \<Longrightarrow>
   write_at i src (xs @ replicate n z) = (xs @ src) @ replicate (n - length src) z"
  by (simp add: write_at_def drop_replicate)

section \<open>Big-endian integers\<close>

fun be_encode :: "nat \<Rightarrow> nat \<Rightarrow> bytes" where
  "be_encode 0 v = []"
| "be_encode (Suc n) v = be_encode n (v div 256) @ [of_nat v]"

fun be_decode_from :: "nat \<Rightarrow> bytes \<Rightarrow> nat" where
  "be_decode_from acc [] = acc"
| "be_decode_from acc (b # bs) = be_decode_from (acc * 256 + unat b) bs"

definition be_decode :: "bytes \<Rightarrow> nat" where
  "be_decode bs = be_decode_from 0 bs"

lemma length_be_encode [simp]: "length (be_encode n v) = n"
  by (induction n arbitrary: v) auto

lemma be_decode_from_append:
  "be_decode_from acc (bs @ [b]) = be_decode_from acc bs * 256 + unat b"
  by (induction bs arbitrary: acc) auto

lemma be_decode_snoc: "be_decode (bs @ [b]) = be_decode bs * 256 + unat b"
  by (simp add: be_decode_def be_decode_from_append)

lemma unat_of_nat_u8: "unat (of_nat v :: u8) = v mod 256"
  by (simp add: unat_of_nat)

lemma be_decode_encode: "v < 256 ^ n \<Longrightarrow> be_decode (be_encode n v) = v"
proof (induction n arbitrary: v)
  case 0
  then show ?case by (simp add: be_decode_def)
next
  case (Suc n)
  then have "v div 256 < 256 ^ n"
    by (simp add: less_mult_imp_div_less mult.commute)
  with Suc.IH show ?case
    by (simp add: be_decode_snoc unat_of_nat_u8)
qed

lemma be_decode_bound: "be_decode bs < 256 ^ length bs"
proof (induction bs rule: rev_induct)
  case Nil
  then show ?case by (simp add: be_decode_def)
next
  case (snoc b bs)
  have "unat b < 256" using unsigned_less [of b] by simp
  with snoc show ?case by (simp add: be_decode_snoc)
qed

lemma be_encode_decode: "n = length bs \<Longrightarrow> be_encode n (be_decode bs) = bs"
proof (induction bs arbitrary: n rule: rev_induct)
  case Nil
  then show ?case by simp
next
  case (snoc b bs)
  have "unat b < 256" using unsigned_less [of b] by simp
  then have "(be_decode bs * 256 + unat b) div 256 = be_decode bs" by simp
  moreover have "(of_nat (be_decode bs * 256 + unat b) :: u8) = b"
    using \<open>unat b < 256\<close> by (intro word_unat_eq_iff [THEN iffD2]) (simp only: unat_of_nat_u8, simp)
  ultimately show ?case using snoc by (simp add: be_decode_snoc)
qed

end
