(* ===== verification/Och_Model_Error.thy ===== *)
theory Och_Model_Error
  imports Och_Prelude
begin

text \<open>
  The closed model-validation failure of \<^verbatim>\<open>och-core/src/error.rs\<close> and its sanitized
  display text.  Every constructor of the core data model that refuses its input returns
  one of these values.
\<close>

datatype (plugins only: code size) ModelError =
    InvalidIdentity
  | InvalidExactText
  | InvalidPortableToken
  | InvalidContentFormat
  | InvalidRetryKey
  | InvalidCanonicalDecimal
  | InvalidNanosecond
  | InexactUnixMilliseconds
  | UnixMillisecondsOverflow
  | EmptyTimeInterval
  | EmptyGap
  | TooManyNativeStatusTokens
  | TooManyObservations
  | TooManyGaps
  | EmptyObservedEvidence
  | DuplicateObservationId
  | MixedProducerPositions
  | MisorderedProducerPositions
  | MisorderedGaps
  | OverlappingGaps
  | ObservationInsideGap
  | MissingObservationInterval
  | UnexpectedObservationInterval
  | InvalidNoChangeMode
  | InvalidDeclarationReference
  | InvalidDeclarationRevision
  | RegistrySeriesCapacityExceeded
  | RegistryRevisionCapacityExceeded
  | SeriesAlreadyRegistered
  | SeriesNotFound
  | SeriesRetired
  | StaleDeclarationRevision
  | DeclarationUnchanged
  | SeriesMetadataMismatch
  | ObservationValueFamilyMismatch
  | InvalidSourceSchemaVersion
  | CaptureRunTimeOrder
  | SourceEndpointSystemMismatch
  | CaptureRunEndpointMismatch
  | SourceSnapshotRunMismatch
  | SourceProjectionRequired
  | SourceIntervalMismatch
  | SourceLifecycleBindingMismatch
  | AdmissionRetryScopeMismatch
  | TooManySourceObservationContexts
  | SourceObservationCountMismatch
  | SourceObservationAssociationMismatch
  | TooManySourceGapContexts
  | SourceGapCountMismatch
  | MisorderedSourceRecordOrdinals
  | DuplicateSourceEvidenceId
  | SourceRawSnapshotMismatch
  | SourceNormalizedRawMismatch
  | SourceNormalizedObservationMismatch
  | SourceRawIdempotencyMismatch
  | SourceInterpretationMismatch
  | SourceGapMismatch

primrec model_error_display :: "ModelError \<Rightarrow> string" where
  "model_error_display InvalidIdentity = ''invalid canonical UUIDv7 identity''"
| "model_error_display InvalidExactText = ''exact text exceeds its bound''"
| "model_error_display InvalidPortableToken = ''invalid bounded printable-ASCII token''"
| "model_error_display InvalidContentFormat = ''invalid bounded lowercase content format''"
| "model_error_display InvalidRetryKey = ''invalid bounded retry key''"
| "model_error_display InvalidCanonicalDecimal = ''invalid canonical unsigned decimal''"
| "model_error_display InvalidNanosecond = ''invalid normalized nanosecond fraction''"
| "model_error_display InexactUnixMilliseconds = ''timestamp is not an exact Unix millisecond''"
| "model_error_display UnixMillisecondsOverflow = ''Unix millisecond conversion overflowed''"
| "model_error_display EmptyTimeInterval = ''time interval must be non-empty and half-open''"
| "model_error_display EmptyGap = ''gap must be non-empty and half-open''"
| "model_error_display TooManyNativeStatusTokens = ''native status token bound exceeded''"
| "model_error_display TooManyObservations = ''observation bound exceeded''"
| "model_error_display TooManyGaps = ''gap bound exceeded''"
| "model_error_display EmptyObservedEvidence = ''observed evidence is empty''"
| "model_error_display DuplicateObservationId = ''duplicate observation identity''"
| "model_error_display MixedProducerPositions = ''mixed producer-position presence''"
| "model_error_display MisorderedProducerPositions = ''producer positions are misordered''"
| "model_error_display MisorderedGaps = ''gaps are misordered''"
| "model_error_display OverlappingGaps = ''gaps overlap''"
| "model_error_display ObservationInsideGap = ''observation position falls inside a gap''"
| "model_error_display MissingObservationInterval = ''interval-mode observation lacks an interval''"
| "model_error_display UnexpectedObservationInterval = ''non-interval-mode observation has an interval''"
| "model_error_display InvalidNoChangeMode = ''no-change evidence requires change-only mode''"
| "model_error_display InvalidDeclarationReference = ''invalid bounded declaration reference''"
| "model_error_display InvalidDeclarationRevision = ''invalid declaration revision''"
| "model_error_display RegistrySeriesCapacityExceeded = ''series registry capacity exceeded''"
| "model_error_display RegistryRevisionCapacityExceeded = ''declaration revision capacity exceeded''"
| "model_error_display SeriesAlreadyRegistered = ''series identity is already registered''"
| "model_error_display SeriesNotFound = ''series identity is not registered''"
| "model_error_display SeriesRetired = ''series is terminally retired''"
| "model_error_display StaleDeclarationRevision = ''declaration revision is stale''"
| "model_error_display DeclarationUnchanged = ''declaration payload is unchanged''"
| "model_error_display SeriesMetadataMismatch = ''envelope series metadata mismatch''"
| "model_error_display ObservationValueFamilyMismatch = ''observation value family mismatch''"
| "model_error_display InvalidSourceSchemaVersion = ''invalid source schema version''"
| "model_error_display CaptureRunTimeOrder = ''capture completion precedes capture start''"
| "model_error_display SourceEndpointSystemMismatch = ''source endpoint system link mismatch''"
| "model_error_display CaptureRunEndpointMismatch = ''capture run endpoint link mismatch''"
| "model_error_display SourceSnapshotRunMismatch = ''source snapshot run link mismatch''"
| "model_error_display SourceProjectionRequired = ''source projection is required''"
| "model_error_display SourceIntervalMismatch = ''source interval classification mismatch''"
| "model_error_display SourceLifecycleBindingMismatch = ''source lifecycle binding mismatch''"
| "model_error_display AdmissionRetryScopeMismatch = ''admission retry scope mismatch''"
| "model_error_display TooManySourceObservationContexts = ''source observation context bound exceeded''"
| "model_error_display SourceObservationCountMismatch = ''source observation count mismatch''"
| "model_error_display SourceObservationAssociationMismatch = ''source observation association mismatch''"
| "model_error_display TooManySourceGapContexts = ''source gap context bound exceeded''"
| "model_error_display SourceGapCountMismatch = ''source gap count mismatch''"
| "model_error_display MisorderedSourceRecordOrdinals = ''source record ordinals are misordered''"
| "model_error_display DuplicateSourceEvidenceId = ''duplicate source evidence identity''"
| "model_error_display SourceRawSnapshotMismatch = ''source raw record snapshot link mismatch''"
| "model_error_display SourceNormalizedRawMismatch = ''normalized record raw link mismatch''"
| "model_error_display SourceNormalizedObservationMismatch = ''normalized record observation link mismatch''"
| "model_error_display SourceRawIdempotencyMismatch = ''source raw idempotency content mismatch''"
| "model_error_display SourceInterpretationMismatch = ''source interpretation context mismatch''"
| "model_error_display SourceGapMismatch = ''source gap evidence mismatch''"

end
