(* ===== verification/Och_Str.thy ===== *)
theory Och_Str
  imports Och_Prelude
begin

text \<open>
  The parts of Rust's \<open>str\<close> the repository relies on.  A \<open>String\<close> is its byte sequence with
  the invariant that the bytes are valid UTF-8 (\<open>utf8_valid\<close>, the check of
  \<open>core::str::from_utf8\<close>); \<open>chars\<close> is the sequence of Unicode scalar values.
\<close>

type_synonym rust_string = bytes

definition lit :: "string \<Rightarrow> bytes" where
  "lit s = map of_char s"

definition is_cont :: "u8 \<Rightarrow> bool" where
  "is_cont b \<longleftrightarrow> 0x80 \<le> b \<and> b \<le> 0xBF"

definition low6 :: "u8 \<Rightarrow> nat" where
  "low6 b = unat b - 0x80"

text \<open>One scalar value off the front, with the well-formedness table of UTF-8.\<close>

definition utf8_next :: "bytes \<Rightarrow> (nat \<times> bytes) option" where
  "utf8_next bs = (case bs of [] \<Rightarrow> None | b0 # r \<Rightarrow>
     if b0 \<le> 0x7F then Some (unat b0, r)
     else if 0xC2 \<le> b0 \<and> b0 \<le> 0xDF then
       (case r of b1 # r' \<Rightarrow>
          if is_cont b1 then Some ((unat b0 - 0xC0) * 64 + low6 b1, r') else None
        | _ \<Rightarrow> None)
     else if 0xE0 \<le> b0 \<and> b0 \<le> 0xEF then
       (case r of b1 # b2 # r' \<Rightarrow>
          if is_cont b1 \<and> is_cont b2 \<and> (b0 = 0xE0 \<longrightarrow> 0xA0 \<le> b1) \<and> (b0 = 0xED \<longrightarrow> b1 \<le> 0x9F)
          then Some ((unat b0 - 0xE0) * 4096 + low6 b1 * 64 + low6 b2, r') else None
        | _ \<Rightarrow> None)
     else if 0xF0 \<le> b0 \<and> b0 \<le> 0xF4 then
       (case r of b1 # b2 # b3 # r' \<Rightarrow>
          if is_cont b1 \<and> is_cont b2 \<and> is_cont b3 \<and>
             (b0 = 0xF0 \<longrightarrow> 0x90 \<le> b1) \<and> (b0 = 0xF4 \<longrightarrow> b1 \<le> 0x8F)
          then Some ((unat b0 - 0xF0) * 262144 + low6 b1 * 4096 + low6 b2 * 64 + low6 b3, r')
          else None
        | _ \<Rightarrow> None)
     else None)"

definition is_scalar :: "nat \<Rightarrow> bool" where
  "is_scalar c \<longleftrightarrow> c < 0xD800 \<or> (0xDFFF < c \<and> c \<le> 0x10FFFF)"

lemma utf8_next_size:
  "utf8_next bs = Some (c, r) \<Longrightarrow> length r < length bs \<and> length bs \<le> length r + 4"
  by (auto simp: utf8_next_def split: list.splits if_splits)

lemma utf8_next_ascii: "b \<le> 0x7F \<Longrightarrow> utf8_next (b # r) = Some (unat b, r)"
  by (simp add: utf8_next_def)

lemma low6_lt: "is_cont b \<Longrightarrow> low6 b < 64"
  by (auto simp: is_cont_def low6_def word_le_nat_alt)

lemma scalar1: "b \<le> (0x7F::u8) \<Longrightarrow> is_scalar (unat b)"
  by (simp add: is_scalar_def word_le_nat_alt)

lemma scalar2:
  assumes "0xC2 \<le> b" "b \<le> (0xDF::u8)" "q < 64"
  shows "is_scalar ((unat b - 0xC0) * 64 + q)"
  using assms by (auto simp: is_scalar_def word_le_nat_alt)

lemma scalar3:
  assumes b: "0xE0 \<le> b" "b \<le> (0xEF::u8)" and p: "is_cont b1" "b = 0xED \<longrightarrow> b1 \<le> 0x9F"
    and q: "q < 64"
  shows "is_scalar ((unat b - 0xE0) * 4096 + low6 b1 * 64 + q)"
proof -
  have n: "low6 b1 < 64" "unat b = 0xED \<longrightarrow> low6 b1 < 32" "unat b \<le> 0xEF"
    using low6_lt [OF p(1)] p b by (auto simp: low6_def word_le_nat_alt word_unat_eq_iff)
  consider "unat b < 0xED" | "unat b = 0xED" | "0xEE \<le> unat b" by linarith
  then show ?thesis
  proof cases
    case 1
    with n q have "(unat b - 0xE0) * 4096 + low6 b1 * 64 + q < 0xD800" by linarith
    then show ?thesis by (simp add: is_scalar_def)
  next
    case 2
    with n q show ?thesis by (simp add: is_scalar_def)
  next
    case 3
    with n q have "0xDFFF < (unat b - 0xE0) * 4096 + low6 b1 * 64 + q"
      "(unat b - 0xE0) * 4096 + low6 b1 * 64 + q \<le> 0x10FFFF" by linarith+
    then show ?thesis by (simp add: is_scalar_def)
  qed
qed

lemma scalar4:
  assumes b: "0xF0 \<le> b" "b \<le> (0xF4::u8)" and c: "is_cont b1"
    and lo: "b = 0xF0 \<longrightarrow> 0x90 \<le> b1" and hi: "b = 0xF4 \<longrightarrow> b1 \<le> 0x8F"
    and q: "q < 4096"
  shows "is_scalar ((unat b - 0xF0) * 262144 + low6 b1 * 4096 + q)"
proof -
  have n: "low6 b1 < 64" "unat b = 0xF0 \<longrightarrow> 16 \<le> low6 b1" "unat b = 0xF4 \<longrightarrow> low6 b1 < 16"
    "unat b \<le> 0xF4" "0xF0 \<le> unat b"
    using low6_lt [OF c] lo hi b by (auto simp: low6_def word_le_nat_alt word_unat_eq_iff)
  then have "0xDFFF < (unat b - 0xF0) * 262144 + low6 b1 * 4096 + q"
    by (cases "unat b = 0xF0") auto
  moreover have "(unat b - 0xF0) * 262144 + low6 b1 * 4096 + q \<le> 0x10FFFF"
    using n q by (cases "unat b = 0xF4") auto
  ultimately show ?thesis by (simp add: is_scalar_def)
qed

lemma low6_pair_lt: "is_cont b \<Longrightarrow> is_cont c \<Longrightarrow> low6 b * 64 + low6 c < 4096"
  using low6_lt [of b] low6_lt [of c] by linarith

lemmas scalar4' = scalar4 [where q = "low6 x * 64 + low6 y" for x y, folded add.assoc]

lemma utf8_next_scalar: "utf8_next bs = Some (c, r) \<Longrightarrow> is_scalar c"
  by (cases bs)
     (auto simp: utf8_next_def scalar1 scalar2 scalar3 scalar4' low6_lt low6_pair_lt
        split: list.split_asm if_split_asm)

function utf8_decode :: "bytes \<Rightarrow> nat list option" where
  "utf8_decode bs = (case bs of [] \<Rightarrow> Some [] | _ \<Rightarrow>
     (case utf8_next bs of None \<Rightarrow> None
      | Some (c, r) \<Rightarrow> map_option (Cons c) (utf8_decode r)))"
  by pat_completeness auto
termination
  by (relation "measure length") (auto dest: utf8_next_size)

declare utf8_decode.simps [simp del]

definition utf8_valid :: "bytes \<Rightarrow> bool" where
  "utf8_valid bs \<longleftrightarrow> utf8_decode bs \<noteq> None"

definition str_chars :: "rust_string \<Rightarrow> nat list" where
  "str_chars s = (case utf8_decode s of None \<Rightarrow> [] | Some cs \<Rightarrow> cs)"

text \<open>\<open>char::is_control\<close>: the Unicode general category Cc.\<close>

definition is_control :: "nat \<Rightarrow> bool" where
  "is_control c \<longleftrightarrow> c \<le> 0x1F \<or> (0x7F \<le> c \<and> c \<le> 0x9F)"

lemma utf8_decode_Nil [simp]: "utf8_decode [] = Some []"
  by (simp add: utf8_decode.simps)

lemma utf8_decode_Cons:
  "utf8_decode (b # bs) = (case utf8_next (b # bs) of None \<Rightarrow> None
      | Some (c, r) \<Rightarrow> map_option (Cons c) (utf8_decode r))"
  by (simp add: utf8_decode.simps [of "b # bs"])

lemma utf8_decode_length:
  "utf8_decode bs = Some cs \<Longrightarrow> length cs \<le> length bs \<and> length bs \<le> 4 * length cs"
proof (induction bs arbitrary: cs rule: utf8_decode.induct)
  case (1 bs)
  show ?case
  proof (cases bs)
    case Nil
    then show ?thesis using "1.prems" by simp
  next
    case (Cons b bs')
    with "1.prems" obtain c r ds where n: "utf8_next bs = Some (c, r)"
      and d: "utf8_decode r = Some ds" and cs: "cs = c # ds"
      by (auto simp: utf8_decode_Cons split: option.splits)
    from "1.IH" [OF Cons n refl d] utf8_next_size [OF n] cs show ?thesis by simp
  qed
qed

lemma utf8_decode_scalar:
  "utf8_decode bs = Some cs \<Longrightarrow> c \<in> set cs \<Longrightarrow> is_scalar c"
proof (induction bs arbitrary: cs rule: utf8_decode.induct)
  case (1 bs)
  show ?case
  proof (cases bs)
    case Nil
    then show ?thesis using "1.prems" by simp
  next
    case (Cons b bs')
    with "1.prems" obtain d r ds where n: "utf8_next bs = Some (d, r)"
      and d: "utf8_decode r = Some ds" and cs: "cs = d # ds"
      by (auto simp: utf8_decode_Cons split: option.splits)
    from "1.IH" [OF Cons n refl d] utf8_next_scalar [OF n] "1.prems" cs show ?thesis by auto
  qed
qed

lemma utf8_decode_ascii:
  "list_all (\<lambda>b. b \<le> 0x7F) bs \<Longrightarrow> utf8_decode bs = Some (map unat bs)"
  by (induction bs) (simp_all add: utf8_decode_Cons utf8_next_ascii)

lemma utf8_valid_ascii: "list_all (\<lambda>b. b \<le> 0x7F) bs \<Longrightarrow> utf8_valid bs"
  by (simp add: utf8_valid_def utf8_decode_ascii)

lemma str_chars_length:
  "utf8_valid s \<Longrightarrow> length s \<le> 4 * length (str_chars s)"
  by (auto simp: utf8_valid_def str_chars_def dest: utf8_decode_length)

lemma str_chars_length_le: "length (str_chars s) \<le> length s"
  by (auto simp: str_chars_def split: option.splits dest: utf8_decode_length)

lemma str_chars_scalar: "c \<in> set (str_chars s) \<Longrightarrow> is_scalar c"
  by (cases "utf8_decode s") (auto simp: str_chars_def dest: utf8_decode_scalar)

lemma str_chars_empty_iff: "utf8_valid s \<Longrightarrow> str_chars s = [] \<longleftrightarrow> s = []"
  using str_chars_length [of s] by (auto simp: str_chars_def)

end
