(* ===== verification/Och_Identity.thy ===== *)
theory Och_Identity
  imports Och_Model_Error Och_Str
begin

text \<open>
  Nominal, parse-only UUIDv7 identities (\<^verbatim>\<open>och-core/src/identity.rs\<close>).  The six identity
  types generated by the macro \<open>identity_type!\<close> are one datatype with a phantom kind; the
  derived byte order is lexicographic.
\<close>

unbundle bit_operations_syntax

definition decode_lower_hex :: "u8 \<Rightarrow> (ModelError, u8) result" where
  "decode_lower_hex value =
     (if 0x30 \<le> value \<and> value \<le> 0x39 then Inr (value - 0x30)
      else if 0x61 \<le> value \<and> value \<le> 0x66 then Inr (value - 0x61 + 10)
      else Inl InvalidIdentity)"

definition validate_uuid_v7 :: "bytes \<Rightarrow> (ModelError, bytes) result" where
  "validate_uuid_v7 bs =
     (if drop_bit 4 (bs ! 6) \<noteq> 7 \<or> (bs ! 8) AND 0xC0 \<noteq> 0x80
      then Inl InvalidIdentity else Inr bs)"

text \<open>The inner \<open>while\<close> loop that steps over the separators.\<close>

function skip_separators :: "nat \<Rightarrow> nat" where
  "skip_separators i =
     (if i = 8 \<or> i = 13 \<or> i = 18 \<or> i = 23 then skip_separators (i + 1) else i)"
  by pat_completeness auto
termination
  by (relation "measure (\<lambda>i. 24 - i)") auto

declare skip_separators.simps [simp del]

text \<open>The loop over the remaining \<open>n\<close> destination bytes.\<close>

fun parse_uuid_loop :: "bytes \<Rightarrow> nat \<Rightarrow> nat \<Rightarrow> (ModelError, bytes) result" where
  "parse_uuid_loop source 0 source_index = Inr []"
| "parse_uuid_loop source (Suc n) source_index =
     (let i = skip_separators source_index in
      and_then (decode_lower_hex (source ! i)) (\<lambda>high.
      and_then (decode_lower_hex (source ! (i + 1))) (\<lambda>low.
      map_ok (Cons (push_bit 4 high OR low)) (parse_uuid_loop source n (i + 2)))))"

definition parse_uuid_v7 :: "rust_string \<Rightarrow> (ModelError, bytes) result" where
  "parse_uuid_v7 source =
     (if length source \<noteq> 36 \<or> source ! 8 \<noteq> 0x2D \<or> source ! 13 \<noteq> 0x2D \<or> source ! 18 \<noteq> 0x2D
         \<or> source ! 23 \<noteq> 0x2D
      then Inl InvalidIdentity
      else and_then (parse_uuid_loop source 16 0) validate_uuid_v7)"

definition hex_digit :: "u8 \<Rightarrow> u8" where
  "hex_digit n = (if n < 10 then 0x30 + n else 0x61 + (n - 10))"

definition display_byte :: "nat \<Rightarrow> u8 \<Rightarrow> rust_string" where
  "display_byte index b =
     (if index = 4 \<or> index = 6 \<or> index = 8 \<or> index = 10 then [0x2D] else []) @
     [hex_digit (drop_bit 4 b), hex_digit (b AND 15)]"

fun display_uuid_from :: "nat \<Rightarrow> bytes \<Rightarrow> rust_string" where
  "display_uuid_from index [] = []"
| "display_uuid_from index (b # bs) = display_byte index b @ display_uuid_from (index + 1) bs"

definition display_uuid :: "bytes \<Rightarrow> rust_string" where
  "display_uuid bs = display_uuid_from 0 bs"

section \<open>The nominal identity types\<close>

datatype (dead 'k) identity = Identity (id_bytes: bytes)

datatype store_id_kind = StoreIdKind
datatype series_id_kind = SeriesIdKind
datatype producer_id_kind = ProducerIdKind
datatype observation_id_kind = ObservationIdKind
datatype artifact_id_kind = ArtifactIdKind
datatype evidence_id_kind = EvidenceIdKind

type_synonym StoreId = "store_id_kind identity"
type_synonym SeriesId = "series_id_kind identity"
type_synonym ProducerId = "producer_id_kind identity"
type_synonym ObservationId = "observation_id_kind identity"
type_synonym ArtifactId = "artifact_id_kind identity"
type_synonym EvidenceId = "evidence_id_kind identity"

definition identity_parse :: "rust_string \<Rightarrow> (ModelError, 'k identity) result" where
  "identity_parse text = map_ok Identity (parse_uuid_v7 text)"

definition identity_from_bytes :: "bytes \<Rightarrow> (ModelError, 'k identity) result" where
  "identity_from_bytes bs = map_ok Identity (validate_uuid_v7 bs)"

definition identity_display :: "'k identity \<Rightarrow> rust_string" where
  "identity_display i = display_uuid (id_bytes i)"

definition identity_ok :: "'k identity \<Rightarrow> bool" where
  "identity_ok i \<longleftrightarrow> length (id_bytes i) = 16 \<and> validate_uuid_v7 (id_bytes i) = Inr (id_bytes i)"

instantiation identity :: (type) linorder
begin

definition less_eq_identity :: "'a identity \<Rightarrow> 'a identity \<Rightarrow> bool" where
  "less_eq_identity a b \<longleftrightarrow> id_bytes a \<le> id_bytes b"

definition less_identity :: "'a identity \<Rightarrow> 'a identity \<Rightarrow> bool" where
  "less_identity a b \<longleftrightarrow> id_bytes a < id_bytes b"

instance
  by standard
    (auto simp: less_eq_identity_def less_identity_def less_le_not_le intro: identity.expand)

end

lemma identity_from_bytes_iff:
  "length bs = 16 \<Longrightarrow> identity_from_bytes bs = Inr i \<longleftrightarrow> id_bytes i = bs \<and> identity_ok i"
  by (cases i) (auto simp: identity_from_bytes_def identity_ok_def validate_uuid_v7_def)

section \<open>Text round trip\<close>

lemma decode_hex_digit: "n < 16 \<Longrightarrow> decode_lower_hex (hex_digit n) = Inr n"
  by (auto simp: decode_lower_hex_def hex_digit_def word_le_nat_alt word_less_nat_alt
      unat_word_ariths unat_sub_if')

lemma decode_lower_hex_Inr:
  "decode_lower_hex c = Inr n \<Longrightarrow> n < 16 \<and> hex_digit n = c"
  by (auto simp: decode_lower_hex_def hex_digit_def word_le_nat_alt word_less_nat_alt
      word_unat_eq_iff unat_word_ariths unat_sub_if' split: if_splits)

lemma unat_lt2p_u8: "unat (b::u8) < 256"
  using unat_less_2p [of b] by simp

lemma mask4_u8: "(15::u8) = mask 4"
  by (simp add: mask_eq_exp_minus_1)

lemma nibble_bit: "l < 16 \<Longrightarrow> bit (l::u8) n \<Longrightarrow> n < 4"
  using less_mask_eq [of l 4] bit_take_bit_iff [of 4 l n] by (simp add: take_bit_eq_mask)

lemma nibbles_join: "push_bit 4 (drop_bit 4 b) OR (b AND 15) = (b::u8)"
  by (rule bit_word_eqI) (auto simp: bit_simps mask4_u8)

lemma nibble_high: "h < 16 \<Longrightarrow> l < 16 \<Longrightarrow> drop_bit 4 (push_bit 4 h OR l) = (h::u8)"
  by (rule bit_word_eqI) (auto simp: bit_simps dest: nibble_bit)

lemma nibble_low: "l < 16 \<Longrightarrow> (push_bit 4 h OR l) AND 15 = (l::u8)"
  by (rule bit_word_eqI) (auto simp: bit_simps mask4_u8 dest: nibble_bit)

lemma drop_bit_4_lt: "drop_bit 4 (b::u8) < 16"
  using unat_lt2p_u8 [of b]
  by (simp add: word_less_nat_alt unat_drop_bit_eq unat_div drop_bit_eq_div)

lemma and_15_lt: "(b::u8) AND 15 < 16"
  using and_mask_less_size [of 4 b] by (simp add: mask4_u8 word_size)

lemma decode_display_byte:
  "and_then (decode_lower_hex (hex_digit (drop_bit 4 b))) (\<lambda>high.
   and_then (decode_lower_hex (hex_digit (b AND 15))) (\<lambda>low. f (push_bit 4 high OR low))) = f b"
  by (simp add: decode_hex_digit drop_bit_4_lt and_15_lt nibbles_join)

lemma list_16E:
  assumes "length bs = 16"
  obtains a b c d e f g h i j k l m n p q
    where "bs = [a, b, c, d, e, f, g, h, i, j, k, l, m, n, p, q]"
  using assms by (auto simp: numeral_eq_Suc length_Suc_conv)

lemma skip_separators_eval:
  "skip_separators 0 = 0" "skip_separators 2 = 2" "skip_separators 4 = 4" "skip_separators 6 = 6"
  "skip_separators 8 = 9" "skip_separators 11 = 11" "skip_separators 13 = 14"
  "skip_separators 16 = 16" "skip_separators 18 = 19" "skip_separators 21 = 21"
  "skip_separators 23 = 24" "skip_separators 26 = 26" "skip_separators 28 = 28"
  "skip_separators 30 = 30" "skip_separators 32 = 32" "skip_separators 34 = 34"
  by (simp_all add: skip_separators.simps)

lemma parse_uuid_loop_numeral:
  "parse_uuid_loop source (numeral k) source_index =
     (and_then (decode_lower_hex (source ! skip_separators source_index)) (\<lambda>high.
      and_then (decode_lower_hex (source ! (skip_separators source_index + 1))) (\<lambda>low.
      map_ok (Cons (push_bit 4 high OR low))
        (parse_uuid_loop source (pred_numeral k) (skip_separators source_index + 2)))))"
  by (simp add: numeral_eq_Suc Let_def)

lemma parse_uuid_loop_display:
  assumes "length bs = 16"
  shows "parse_uuid_loop (display_uuid bs) 16 0 = Inr bs"
  using assms
  by (elim list_16E) (simp add: display_uuid_def display_byte_def parse_uuid_loop_numeral
      skip_separators_eval decode_hex_digit drop_bit_4_lt and_15_lt nibbles_join
      del: add_2_eq_Suc' add_2_eq_Suc)

lemma display_uuid_shape:
  assumes "length bs = 16"
  shows "length (display_uuid bs) = 36 \<and> display_uuid bs ! 8 = 0x2D \<and> display_uuid bs ! 13 = 0x2D
     \<and> display_uuid bs ! 18 = 0x2D \<and> display_uuid bs ! 23 = 0x2D"
  using assms by (elim list_16E) (simp add: display_uuid_def display_byte_def)

lemma parse_display_uuid:
  assumes "length bs = 16"
  shows "parse_uuid_v7 (display_uuid bs) = validate_uuid_v7 bs"
  using display_uuid_shape [OF assms] parse_uuid_loop_display [OF assms]
  by (simp add: parse_uuid_v7_def)

lemma decode_pair_Inr:
  "and_then (decode_lower_hex c) (\<lambda>high. and_then (decode_lower_hex d) (\<lambda>low.
     map_ok (Cons (push_bit 4 high OR low)) m)) = Inr bs \<Longrightarrow>
   \<exists>b cs. bs = b # cs \<and> m = Inr cs \<and> c = hex_digit (drop_bit 4 b) \<and> d = hex_digit (b AND 15)"
  by (auto simp: result_convs nibble_high nibble_low simp del: drop_bit_or
      dest!: decode_lower_hex_Inr)

text \<open>The source positions of the high digits, in the order the loop visits them.\<close>

fun hex_positions :: "nat \<Rightarrow> nat \<Rightarrow> nat list" where
  "hex_positions 0 i = []"
| "hex_positions (Suc n) i = skip_separators i # hex_positions n (skip_separators i + 2)"

lemma parse_uuid_loop_positions:
  "parse_uuid_loop source n i = Inr bs \<Longrightarrow>
   list_all2 (\<lambda>p b. source ! p = hex_digit (drop_bit 4 b) \<and> source ! (p + 1) = hex_digit (b AND 15))
     (hex_positions n i) bs"
proof (induction n arbitrary: i bs)
  case 0
  then show ?case by simp
next
  case (Suc n)
  then show ?case
    using decode_pair_Inr [of "source ! skip_separators i" "source ! (skip_separators i + 1)"]
    by (fastforce simp: Let_def)
qed

lemma hex_positions_numeral:
  "hex_positions (numeral k) i =
     skip_separators i # hex_positions (pred_numeral k) (skip_separators i + 2)"
  by (simp add: numeral_eq_Suc)

lemma hex_positions_16:
  "hex_positions 16 0 = [0, 2, 4, 6, 9, 11, 14, 16, 19, 21, 24, 26, 28, 30, 32, 34]"
  by (simp add: hex_positions_numeral skip_separators_eval del: add_2_eq_Suc' add_2_eq_Suc)

lemma upt_36: "[0..<36] = [0, 1, 2, 3, 4, 5, 6, 7, 8, 9, 10, 11, 12, 13, 14, 15, 16, 17, 18, 19,
    20, 21, 22, 23, 24, 25, 26, 27, 28, 29, 30, 31, 32, 33, 34, 35::nat]"
  by code_simp

lemma display_of_positions:
  assumes "list_all2 (\<lambda>p b. t ! p = hex_digit (drop_bit 4 b) \<and> t ! (p + 1) = hex_digit (b AND 15))
      [0, 2, 4, 6, 9, 11, 14, 16, 19, 21, 24, 26, 28, 30, 32, 34] bs"
    and "t ! 8 = 0x2D" "t ! 13 = 0x2D" "t ! 18 = 0x2D" "t ! 23 = 0x2D"
  shows "length bs = 16 \<and> display_uuid bs = map (nth t) [0..<36]"
  using assms unfolding list_all2_Cons1 upt_36
  by (elim exE conjE) (simp add: display_uuid_def display_byte_def)

lemma parse_uuid_v7_display:
  assumes "parse_uuid_v7 t = Inr bs"
  shows "length bs = 16 \<and> display_uuid bs = t"
proof -
  from assms have t: "length t = 36" "t ! 8 = 0x2D" "t ! 13 = 0x2D" "t ! 18 = 0x2D" "t ! 23 = 0x2D"
    and loop: "parse_uuid_loop t 16 0 = Inr bs"
    by (auto simp: parse_uuid_v7_def validate_uuid_v7_def result_convs split: if_splits)
  have "length bs = 16 \<and> display_uuid bs = map (nth t) [0..<36]"
    using display_of_positions [OF _ t(2-5)] parse_uuid_loop_positions [OF loop]
    by (simp only: hex_positions_16)
  with t(1) map_nth [of t] show ?thesis by (simp only:)
qed

section \<open>Text form of identities\<close>

text \<open>Parsing and displaying identities are inverse: a text parses to an identity exactly when
  the identity is a valid UUIDv7 whose canonical display is that text.  Upper case digits, missing
  separators and other versions or variants are therefore refused.\<close>
theorem identity_text_exact:
  "identity_parse t = Inr i \<longleftrightarrow> identity_ok i \<and> identity_display i = t"
proof
  assume "identity_parse t = Inr i"
  then have p: "parse_uuid_v7 t = Inr (id_bytes i)" by (auto simp: identity_parse_def result_convs)
  then have "length (id_bytes i) = 16 \<and> display_uuid (id_bytes i) = t" by (rule parse_uuid_v7_display)
  moreover from this p have "validate_uuid_v7 (id_bytes i) = Inr (id_bytes i)"
    using parse_display_uuid [of "id_bytes i"] by simp
  ultimately show "identity_ok i \<and> identity_display i = t"
    by (simp add: identity_ok_def identity_display_def)
next
  assume "identity_ok i \<and> identity_display i = t"
  then show "identity_parse t = Inr i"
    using parse_display_uuid [of "id_bytes i"]
    by (auto simp: identity_ok_def identity_display_def identity_parse_def)
qed

end
