(* ===== verification/Och_Crc32c.thy ===== *)
theory Och_Crc32c
  imports Och_Prelude
begin

text \<open>
  The bitwise reflected CRC-32C of \<^verbatim>\<open>och-store/src/codec.rs\<close> (\<open>crc32c\<close>).  The round function is a
  linear injection on 32-bit states, so no change confined to four consecutive bytes of the
  covered region can leave the checksum unchanged.
\<close>

unbundle bit_operations_syntax

definition crc_round :: "u32 \<Rightarrow> u32" where
  "crc_round crc = (let mask = 0 - (crc AND 1) in drop_bit 1 crc XOR (0x82F63B78 AND mask))"

definition crc_byte :: "u32 \<Rightarrow> u8 \<Rightarrow> u32" where
  "crc_byte crc byte = (crc_round ^^ 8) (crc XOR ucast byte)"

definition crc32c :: "bytes \<Rightarrow> u32" where
  "crc32c bs = NOT (foldl crc_byte 0xFFFFFFFF bs)"

section \<open>The round function\<close>

lemma and_1_word: "(w::u32) AND 1 = (if bit w 0 then 1 else 0)"
  by (simp add: and_one_eq bit_0 mod_2_eq_odd)

lemma xor_cancel: "u XOR v = u XOR w \<Longrightarrow> v = (w::u32)"
  by (metis xor.assoc xor.left_neutral xor_self_eq)

lemma xor_zero: "v XOR w = 0 \<Longrightarrow> v = (w::u32)"
  using xor_cancel [of w v w] by (simp add: xor.commute)

lemma crc_round_alt:
  "crc_round w = (if bit w 0 then drop_bit 1 w XOR 0x82F63B78 else drop_bit 1 w)"
  by (auto simp: crc_round_def Let_def and_1_word)

lemma poly_top: "bit (0x82F63B78 :: u32) 31"
  by (simp add: bit_iff_odd drop_bit_eq_div)

lemma crc_round_top: "bit (crc_round w) 31 \<longleftrightarrow> bit w 0"
  using poly_top by (auto simp: crc_round_alt bit_simps dest: bit_imp_le_length)

lemma crc_round_xor: "crc_round (v XOR w) = crc_round v XOR crc_round w"
  by (rule bit_word_eqI) (auto simp: crc_round_alt bit_simps)

lemma crc_round_zero: "crc_round w = 0 \<Longrightarrow> w = 0"
proof (rule bit_word_eqI)
  fix n :: nat
  assume z: "crc_round w = 0" and n: "n < LENGTH(32)"
  have b0: "\<not> bit w 0" using crc_round_top [of w] z by simp
  then have "drop_bit 1 w = 0" using z by (simp add: crc_round_alt)
  then have "\<not> bit w (Suc m)" for m
    using bit_drop_bit_eq [of 1 w] by (metis bit_0_eq bot_apply comp_def plus_1_eq_Suc bot_bool_def)
  with b0 show "bit w n = bit 0 n" by (cases n) auto
qed

lemma crc_rounds_xor: "(crc_round ^^ k) (v XOR w) = (crc_round ^^ k) v XOR (crc_round ^^ k) w"
  by (induction k) (simp_all add: crc_round_xor)

lemma crc_rounds_zero: "(crc_round ^^ k) w = 0 \<Longrightarrow> w = 0"
  by (induction k) (auto dest: crc_round_zero)

lemma crc_rounds_inj: "(crc_round ^^ k) v = (crc_round ^^ k) w \<Longrightarrow> v = w"
  using crc_rounds_zero [of k "v XOR w"] by (simp add: crc_rounds_xor xor_zero)

section \<open>Runs of bytes\<close>

lemma crc_byte_inj: "crc_byte v b = crc_byte w b \<Longrightarrow> v = w"
  unfolding crc_byte_def by (drule crc_rounds_inj) (metis xor.commute xor_cancel)

lemma crc_bytes_inj: "foldl crc_byte v bs = foldl crc_byte w bs \<Longrightarrow> v = w"
  by (induction bs arbitrary: v w) (auto dest: crc_byte_inj)

text \<open>The little-endian word of up to four bytes.\<close>

fun le_word :: "bytes \<Rightarrow> u32" where
  "le_word [] = 0"
| "le_word (b # bs) = ucast b XOR push_bit 8 (le_word bs)"

lemma drop_push_bit:
  assumes "\<And>n. bit w n \<Longrightarrow> n + Suc k < 32"
  shows "drop_bit 1 (push_bit (Suc k) w) = push_bit k (w::u32)"
proof (rule bit_word_eqI)
  fix n :: nat
  assume n: "n < LENGTH(32)"
  show "bit (drop_bit 1 (push_bit (Suc k) w)) n = bit (push_bit k w) n"
    using assms [of "n - k"] n by (auto simp: bit_simps simp del: push_bit_Suc)
qed

lemma crc_rounds_shift:
  assumes "\<And>n. bit w n \<Longrightarrow> n + k < 32"
  shows "(crc_round ^^ k) (push_bit k w) = w"
  using assms
proof (induction k)
  case 0
  then show ?case by simp
next
  case (Suc k)
  have "\<not> bit (push_bit (Suc k) w) 0" by (simp add: bit_simps del: push_bit_Suc)
  then have "crc_round (push_bit (Suc k) w) = push_bit k w"
    using drop_push_bit [OF Suc.prems] by (simp add: crc_round_alt del: push_bit_Suc)
  then have "(crc_round ^^ Suc k) (push_bit (Suc k) w) = (crc_round ^^ k) (push_bit k w)"
    unfolding funpow_Suc_right comp_apply by (rule arg_cong)
  also have "\<dots> = w" by (rule Suc.IH) (use Suc.prems in fastforce)
  finally show ?case .
qed

lemma le_word_bit: "bit (le_word bs) n \<Longrightarrow> n < 8 * length bs"
proof (induction bs arbitrary: n)
  case Nil
  then show ?case by simp
next
  case (Cons b bs)
  then have "n < 8 \<or> bit (le_word bs) (n - 8)"
    by (auto simp: bit_simps dest: bit_imp_le_length)
  with Cons.IH [of "n - 8"] show ?case by auto
qed

lemma crc_bytes_word:
  assumes "length bs \<le> 4"
  shows "foldl crc_byte s bs = (crc_round ^^ (8 * length bs)) (s XOR le_word bs)"
  using assms
proof (induction bs arbitrary: s)
  case Nil
  then show ?case by simp
next
  case (Cons b bs)
  have "n + 8 < 32" if "bit (le_word bs) n" for n
    using le_word_bit [OF that] Cons.prems by simp
  then have sh: "(crc_round ^^ 8) (push_bit 8 (le_word bs)) = le_word bs"
    by (rule crc_rounds_shift)
  have "foldl crc_byte s (b # bs) =
      (crc_round ^^ (8 * length bs)) ((crc_round ^^ 8) (s XOR ucast b) XOR (crc_round ^^ 8) (push_bit 8 (le_word bs)))"
    using Cons by (simp add: sh) (simp add: crc_byte_def)
  also have "\<dots> = (crc_round ^^ (8 * length bs + 8)) (s XOR le_word (b # bs))"
    by (simp add: funpow_add crc_rounds_xor [symmetric] xor.assoc)
  finally show ?case by (simp add: ac_simps)
qed

lemma le_word_inj:
  "length u = length v \<Longrightarrow> length u \<le> 4 \<Longrightarrow> le_word u = le_word v \<Longrightarrow> u = v"
proof (induction u v rule: list_induct2)
  case Nil
  then show ?case by simp
next
  case (Cons a u b v)
  have low: "bit a n = bit b n" if "n < 8" for n
    using arg_cong [OF Cons.prems(2), of "\<lambda>w. bit w n"] that by (auto simp: bit_simps)
  then have "a = b" by (auto intro: bit_word_eqI)
  moreover have "bit (le_word u) n = bit (le_word v) n" for n
  proof (cases "n < 24")
    case True
    then show ?thesis
      using arg_cong [OF Cons.prems(2), of "\<lambda>w. bit w (n + 8)"] by (auto simp: bit_simps dest: bit_imp_le_length)
  next
    case False
    then show ?thesis
      using le_word_bit [of u n] le_word_bit [of v n] Cons.prems(1) Cons.hyps by auto
  qed
  then have "le_word u = le_word v" by (auto intro: bit_word_eqI)
  ultimately show ?case using Cons by simp
qed

lemma crc32c_burst:
  assumes "length u = length v" "length u \<le> 4" "u \<noteq> v"
  shows "crc32c (p @ u @ q) \<noteq> crc32c (p @ v @ q)"
proof
  assume "crc32c (p @ u @ q) = crc32c (p @ v @ q)"
  then have "foldl crc_byte (foldl crc_byte 0xFFFFFFFF p) u = foldl crc_byte (foldl crc_byte 0xFFFFFFFF p) v"
    by (auto simp: crc32c_def dest: crc_bytes_inj)
  then have "foldl crc_byte 0xFFFFFFFF p XOR le_word u = foldl crc_byte 0xFFFFFFFF p XOR le_word v"
    using assms crc_rounds_inj by (simp add: crc_bytes_word)
  then have "le_word u = le_word v" by (rule xor_cancel)
  with assms le_word_inj show False by blast
qed

section \<open>Properties\<close>

text \<open>The check value of the standard input \<open>123456789\<close>.\<close>

lemma crc_steps:
  "crc_byte 0xFFFFFFFF 0x31 = 0x6F0A661C" "crc_byte 0x6F0A661C 0x32 = 0x8CAA3B9F"
  "crc_byte 0x8CAA3B9F 0x33 = 0xEF84D04D" "crc_byte 0xEF84D04D 0x34 = 0x9C50B11"
  "crc_byte 0x9C50B11 0x35 = 0xE72EDCCA" "crc_byte 0xE72EDCCA 0x36 = 0xBECA8E79"
  "crc_byte 0xBECA8E79 0x37 = 0xEDBD6815" "crc_byte 0xEDBD6815 0x38 = 0x9F787F65"
  "crc_byte 0x9F787F65 0x39 = 0x1CF96D7C"
  by code_simp+

lemma crc32c_check_value: "crc32c [0x31, 0x32, 0x33, 0x34, 0x35, 0x36, 0x37, 0x38, 0x39] = 0xE3069283"
  by (simp add: crc32c_def crc_steps)

end
