(* ===== verification/Och_Artifact.thy ===== *)
theory Och_Artifact
  imports Och_Crc32c
begin

text \<open>
  What the fixed binary artifacts of \<^verbatim>\<open>och-store\<close> share: zeroed buffers filled from the front,
  big-endian fields read at an offset, and the CRC-32C trailer.  The locale states what a decoder
  that checks the trailer promises against damage; every decoder of the development interprets it.
\<close>

section \<open>Zeroed buffers\<close>

text \<open>A buffer of \<open>n\<close> bytes whose first bytes are written and whose rest is still zero.\<close>

definition pad :: "nat \<Rightarrow> bytes \<Rightarrow> bytes" where
  "pad n xs = xs @ replicate (n - length xs) 0"

lemma pad_empty: "replicate n (0::u8) = pad n []"
  by (simp add: pad_def)

lemma length_pad: "length xs \<le> n \<Longrightarrow> length (pad n xs) = n"
  by (simp add: pad_def)

lemma pad_write:
  "length xs = i \<Longrightarrow> i + length src \<le> n \<Longrightarrow> write_at i src (pad n xs) = pad n (xs @ src)"
  by (auto simp: pad_def write_at_padding)

lemma pad_update: "length xs = i \<Longrightarrow> i < n \<Longrightarrow> (pad n xs)[i := v] = pad n (xs @ [v])"
proof -
  assume a: "length xs = i" "i < n"
  then obtain k where k: "n - length xs = Suc k" by (metis Suc_diff_Suc)
  with a have "n - length (xs @ [v]) = k" by simp
  with a k show ?thesis by (simp add: pad_def list_update_append)
qed

lemma pad_zeros: "length xs + k \<le> n \<Longrightarrow> pad n xs = pad n (xs @ replicate k 0)"
  by (simp add: pad_def replicate_add [symmetric])

lemma pad_skip:
  "length xs + k = i \<Longrightarrow> i + length src \<le> n \<Longrightarrow>
   write_at i src (pad n xs) = pad n (xs @ replicate k 0 @ src)"
  using pad_write [of "xs @ replicate k 0" i src n] pad_zeros [of xs k n] by simp

lemma pad_slice: "length xs + k = j \<Longrightarrow> j \<le> n \<Longrightarrow> slice 0 j (pad n xs) = xs @ replicate k 0"
  by (simp add: pad_def slice_def)

lemma pad_full: "length xs = n \<Longrightarrow> pad n xs = xs"
  by (simp add: pad_def)

section \<open>Fields at an offset\<close>

definition read_u16 :: "nat \<Rightarrow> bytes \<Rightarrow> u16" where
  "read_u16 i bs = of_nat (be_decode (slice i (i + 2) bs))"

definition read_u32 :: "nat \<Rightarrow> bytes \<Rightarrow> u32" where
  "read_u32 i bs = of_nat (be_decode (slice i (i + 4) bs))"

definition read_u64 :: "nat \<Rightarrow> bytes \<Rightarrow> u64" where
  "read_u64 i bs = of_nat (be_decode (slice i (i + 8) bs))"

lemma be_field:
  "of_nat (be_decode (be_encode 8 (unat (w::u64)))) = w" "of_nat (be_decode (be_encode 4 (unat (v::u32)))) = v"
  "of_nat (be_decode (be_encode 2 (unat (x::u16)))) = x"
  using be_decode_encode [of "unat w" 8] be_decode_encode [of "unat v" 4] be_decode_encode [of "unat x" 2]
    unat_less_2p [of w] unat_less_2p [of v] unat_less_2p [of x]
  by simp_all

lemma be_field_inv:
  "length bs = 8 \<Longrightarrow> be_encode 8 (unat (of_nat (be_decode bs) :: u64)) = bs"
  "length bs = 4 \<Longrightarrow> be_encode 4 (unat (of_nat (be_decode bs) :: u32)) = bs"
  "length bs = 2 \<Longrightarrow> be_encode 2 (unat (of_nat (be_decode bs) :: u16)) = bs"
  using be_decode_bound [of bs] be_encode_decode [of _ bs] by (simp_all add: unat_of_nat)

lemma read_fields:
  "i + 8 \<le> length bs \<Longrightarrow> read_u64 i bs = w \<longleftrightarrow> slice i (i + 8) bs = be_encode 8 (unat w)"
  "i + 4 \<le> length bs \<Longrightarrow> read_u32 i bs = v \<longleftrightarrow> slice i (i + 4) bs = be_encode 4 (unat v)"
  "i + 2 \<le> length bs \<Longrightarrow> read_u16 i bs = x \<longleftrightarrow> slice i (i + 2) bs = be_encode 2 (unat x)"
  unfolding read_u64_def read_u32_def read_u16_def
  using be_field_inv [of "slice i (i + 8) bs"] be_field_inv [of "slice i (i + 4) bs"]
    be_field_inv [of "slice i (i + 2) bs"]
  by (auto simp: be_field)

text \<open>A part of a concatenation, read relative to where it starts.\<close>

lemma slice_shift:
  "length p = k \<Longrightarrow> j \<le> length x \<Longrightarrow> slice (k + i) (k + j) (p @ x @ q) = slice i j x"
  by (auto simp: slice_def)

lemma read_shift:
  assumes "length p = k"
  shows "i + 8 \<le> length x \<Longrightarrow> read_u64 (k + i) (p @ x @ q) = read_u64 i x"
    and "i + 4 \<le> length x \<Longrightarrow> read_u32 (k + i) (p @ x @ q) = read_u32 i x"
    and "i + 2 \<le> length x \<Longrightarrow> read_u16 (k + i) (p @ x @ q) = read_u16 i x"
  using slice_shift [OF assms, of "i + 8" x i q] slice_shift [OF assms, of "i + 4" x i q]
    slice_shift [OF assms, of "i + 2" x i q]
  by (simp_all add: read_u64_def read_u32_def read_u16_def add.assoc)

section \<open>The checksum trailer\<close>

definition seal :: "bytes \<Rightarrow> bytes" where
  "seal body = body @ be_encode 4 (unat (crc32c body))"

lemma length_seal [simp]: "length (seal body) = length body + 4"
  by (simp add: seal_def)

lemma take_seal [simp]: "take (length body) (seal body) = body"
  by (simp add: seal_def)

lemma be_encode_inj: "m < 256 ^ n \<Longrightarrow> k < 256 ^ n \<Longrightarrow> be_encode n m = be_encode n k \<Longrightarrow> m = k"
  by (metis be_decode_encode)

lemma crc_bytes_eq: "be_encode 4 (unat (c::u32)) = be_encode 4 (unat d) \<Longrightarrow> c = d"
  using be_encode_inj [of "unat c" 4 "unat d"] unat_less_2p [of c] unat_less_2p [of d]
  by (simp add: word_unat_eq_iff)

lemma split_trailer:
  assumes "x @ t = y @ be_encode n k" "length t = n"
  shows "y = x" "t = be_encode n k"
  using append_eq_append_conv [of t "be_encode n k" x y] assms by auto

lemma seal_split: "length t = 4 \<Longrightarrow> b @ t = seal body \<longleftrightarrow> body = b \<and> t = be_encode 4 (unat (crc32c b))"
  by (auto simp: seal_def)

text \<open>The trailer test of the decoders, on any buffer of at least four bytes.\<close>

lemma trailer_test:
  assumes "length bs = n + 4"
  shows "crc32c (slice 0 n bs) = read_u32 n bs \<longleftrightarrow> (\<exists>body. bs = seal body)"
proof -
  have bs: "bs = slice 0 n bs @ slice n (n + 4) bs"
    using assms slice_join [of 0 n "n + 4" bs] slice_full [of "n + 4" bs] by simp
  have "crc32c (slice 0 n bs) = read_u32 n bs \<longleftrightarrow> slice n (n + 4) bs = be_encode 4 (unat (crc32c (slice 0 n bs)))"
    using read_fields(2) [of n bs "crc32c (slice 0 n bs)"] assms by auto
  also have "\<dots> \<longleftrightarrow> (\<exists>body. slice 0 n bs @ slice n (n + 4) bs = seal body)"
    using seal_split [of "slice n (n + 4) bs" "slice 0 n bs"] assms by auto
  finally show ?thesis using bs by simp
qed

text \<open>A decoder whose accepted inputs are sealed.\<close>

locale checksummed =
  fixes accepts :: "bytes \<Rightarrow> bool"
  assumes sealed: "accepts bs \<Longrightarrow> \<exists>body. bs = seal body"
begin

lemma burst_refused:
  assumes "accepts (p @ u @ q @ t)" "length t = 4" "length v = length u" "length u \<le> 4" "v \<noteq> u"
  shows "\<not> accepts (p @ v @ q @ t)"
proof
  assume bad: "accepts (p @ v @ q @ t)"
  have "t = be_encode 4 (unat (crc32c (p @ u @ q)))" "t = be_encode 4 (unat (crc32c (p @ v @ q)))"
    using sealed [OF assms(1)] sealed [OF bad] seal_split [OF assms(2), of "p @ u @ q"]
      seal_split [OF assms(2), of "p @ v @ q"] by auto
  then have "crc32c (p @ u @ q) = crc32c (p @ v @ q)" by (intro crc_bytes_eq) simp
  with crc32c_burst [of u v p q] assms show False by simp
qed

lemma trailer_refused:
  assumes "accepts (b @ t)" "length t = 4" "length t' = 4" "t' \<noteq> t"
  shows "\<not> accepts (b @ t')"
  using sealed [OF assms(1)] sealed [of "b @ t'"] seal_split [OF assms(2), of b] seal_split [OF assms(3), of b] assms(4)
  by auto

end

end
