(* ===== verification/Och_Recovery.thy ===== *)
theory Och_Recovery
  imports Och_Identity Och_Artifact
begin

text \<open>
  Recovery State V1 (\<^verbatim>\<open>och-store/src/recovery.rs\<close>): the report of one terminal-suffix recovery, its
  validation and its fixed 128-byte artifact.  The decoder accepts exactly the encodings of
  valid reports of the expected store.
\<close>

definition RECOVERY_STATE_MAGIC :: bytes where
  "RECOVERY_STATE_MAGIC = [0x4F, 0x43, 0x48, 0x52, 0x43, 0x56, 0x30, 0x31]"
definition RECOVERY_STATE_VERSION :: u16 where "RECOVERY_STATE_VERSION = 1"
definition RECOVERY_STATE_LEN :: nat where "RECOVERY_STATE_LEN = 128"
definition RECOVERY_STATE_LEN_U16 :: u16 where "RECOVERY_STATE_LEN_U16 = 128"
definition RECOVERY_JOURNAL_HEADER_LEN :: u64 where "RECOVERY_JOURNAL_HEADER_LEN = 28"
definition MAX_ACTIVE_JOURNAL_BYTES :: u64 where "MAX_ACTIVE_JOURNAL_BYTES = 512 * 1024 * 1024"

datatype RecoveryClassification = ShortFramePrefix | InvalidFramePrefix | TruncatedDeclaredFrame
  | InvalidCompleteFrame

primrec classification_tag :: "RecoveryClassification \<Rightarrow> u8" where
  "classification_tag ShortFramePrefix = 1"
| "classification_tag InvalidFramePrefix = 2"
| "classification_tag TruncatedDeclaredFrame = 3"
| "classification_tag InvalidCompleteFrame = 4"

definition classification_from_tag :: "u8 \<Rightarrow> RecoveryClassification option" where
  "classification_from_tag tag =
     (if tag = 1 then Some ShortFramePrefix else if tag = 2 then Some InvalidFramePrefix
      else if tag = 3 then Some TruncatedDeclaredFrame else if tag = 4 then Some InvalidCompleteFrame
      else None)"

datatype RecoveryAction = TruncateToCommittedRoot

primrec action_tag :: "RecoveryAction \<Rightarrow> u8" where
  "action_tag TruncateToCommittedRoot = 1"

definition action_from_tag :: "u8 \<Rightarrow> RecoveryAction option" where
  "action_from_tag tag = (if tag = 1 then Some TruncateToCommittedRoot else None)"

record JournalIdentity =
  ji_store_id :: StoreId
  ji_generation :: u64

record DurableCutoff =
  cut_journal :: JournalIdentity
  cut_checkpoint_generation :: u64
  cut_append_sequence :: u64
  cut_end_offset :: u64

definition cutoff_from_manifest :: "StoreId \<Rightarrow> u64 \<Rightarrow> u64 \<Rightarrow> u64 \<Rightarrow> u64 \<Rightarrow> DurableCutoff" where
  "cutoff_from_manifest store_id journal_generation checkpoint_generation append_sequence end_offset =
     \<lparr>cut_journal = \<lparr>ji_store_id = store_id, ji_generation = journal_generation\<rparr>,
      cut_checkpoint_generation = checkpoint_generation, cut_append_sequence = append_sequence,
      cut_end_offset = end_offset\<rparr>"

record RecoveryReport =
  rep_store_id :: StoreId
  rep_report_generation :: u64
  rep_source_manifest_generation :: u64
  rep_committing_manifest_generation :: u64
  rep_source_manifest_checksum :: u32
  rep_active_generation :: u64
  rep_sequence_floor :: u64
  rep_checkpoint_generation :: u64
  rep_append_sequence :: u64
  rep_committed_end_offset :: u64
  rep_original_journal_length :: u64
  rep_removed_bytes :: u64
  rep_classification :: RecoveryClassification
  rep_action :: RecoveryAction

datatype RecoveryCodecError = RecoveryInvalid | RecoveryStoreMismatch

definition validate_report :: "RecoveryReport \<Rightarrow> (RecoveryCodecError, unit) result" where
  "validate_report r =
     (if rep_report_generation r = 0
         \<or> rep_source_manifest_generation r = 0
         \<or> checked_add (rep_source_manifest_generation r) 1 \<noteq> Some (rep_committing_manifest_generation r)
         \<or> rep_active_generation r = 0
         \<or> rep_checkpoint_generation r = 0
         \<or> rep_append_sequence r < rep_sequence_floor r
         \<or> (rep_append_sequence r = rep_sequence_floor r)
             \<noteq> (rep_committed_end_offset r = RECOVERY_JOURNAL_HEADER_LEN)
         \<or> rep_committed_end_offset r < RECOVERY_JOURNAL_HEADER_LEN
         \<or> rep_original_journal_length r \<le> rep_committed_end_offset r
         \<or> rep_original_journal_length r > MAX_ACTIVE_JOURNAL_BYTES
         \<or> checked_sub (rep_original_journal_length r) (rep_committed_end_offset r)
             \<noteq> Some (rep_removed_bytes r)
         \<or> rep_removed_bytes r = 0
         \<or> rep_action r \<noteq> TruncateToCommittedRoot
      then Inl RecoveryInvalid else Inr ())"

definition recovery_report_new ::
  "StoreId \<Rightarrow> u64 \<Rightarrow> u64 \<Rightarrow> u32 \<Rightarrow> DurableCutoff \<Rightarrow> u64 \<Rightarrow> u64 \<Rightarrow> RecoveryClassification \<Rightarrow>
   (RecoveryCodecError, RecoveryReport) result" where
  "recovery_report_new store_id report_generation source_manifest_generation source_manifest_checksum
       cutoff sequence_floor original_journal_length classification =
     and_then (ok_or RecoveryInvalid (checked_add source_manifest_generation 1)) (\<lambda>committing.
     and_then (ok_or RecoveryInvalid
        (case checked_sub original_journal_length (cut_end_offset cutoff) of
           None \<Rightarrow> None | Some removed \<Rightarrow> if removed > 0 then Some removed else None)) (\<lambda>removed_bytes.
     let report = \<lparr>rep_store_id = store_id, rep_report_generation = report_generation,
           rep_source_manifest_generation = source_manifest_generation,
           rep_committing_manifest_generation = committing,
           rep_source_manifest_checksum = source_manifest_checksum,
           rep_active_generation = ji_generation (cut_journal cutoff),
           rep_sequence_floor = sequence_floor,
           rep_checkpoint_generation = cut_checkpoint_generation cutoff,
           rep_append_sequence = cut_append_sequence cutoff,
           rep_committed_end_offset = cut_end_offset cutoff,
           rep_original_journal_length = original_journal_length,
           rep_removed_bytes = removed_bytes, rep_classification = classification,
           rep_action = TruncateToCommittedRoot\<rparr>
     in and_then (validate_report report) (\<lambda>_. Inr report)))"

definition report_cutoff :: "RecoveryReport \<Rightarrow> DurableCutoff" where
  "report_cutoff r = cutoff_from_manifest (rep_store_id r) (rep_active_generation r)
     (rep_checkpoint_generation r) (rep_append_sequence r) (rep_committed_end_offset r)"

definition encode_recovery_state :: "RecoveryReport \<Rightarrow> (RecoveryCodecError, bytes) result" where
  "encode_recovery_state report =
     and_then (validate_report report) (\<lambda>_.
     let b0 = replicate RECOVERY_STATE_LEN (0::u8);
         b1 = write_at 0 RECOVERY_STATE_MAGIC b0;
         b2 = write_at 8 (be_encode 2 (unat RECOVERY_STATE_VERSION)) b1;
         b3 = write_at 10 (be_encode 2 (unat RECOVERY_STATE_LEN_U16)) b2;
         b4 = write_at 12 (id_bytes (rep_store_id report)) b3;
         b5 = write_at 28 (be_encode 8 (unat (rep_report_generation report))) b4;
         b6 = write_at 36 (be_encode 8 (unat (rep_source_manifest_generation report))) b5;
         b7 = write_at 44 (be_encode 8 (unat (rep_committing_manifest_generation report))) b6;
         b8 = write_at 52 (be_encode 4 (unat (rep_source_manifest_checksum report))) b7;
         b9 = write_at 56 (be_encode 8 (unat (rep_active_generation report))) b8;
         b10 = write_at 64 (be_encode 8 (unat (rep_sequence_floor report))) b9;
         b11 = write_at 72 (be_encode 8 (unat (rep_checkpoint_generation report))) b10;
         b12 = write_at 80 (be_encode 8 (unat (rep_append_sequence report))) b11;
         b13 = write_at 88 (be_encode 8 (unat (rep_committed_end_offset report))) b12;
         b14 = write_at 96 (be_encode 8 (unat (rep_original_journal_length report))) b13;
         b15 = write_at 104 (be_encode 8 (unat (rep_removed_bytes report))) b14;
         b16 = b15[112 := classification_tag (rep_classification report)];
         b17 = b16[113 := action_tag (rep_action report)];
         checksum = crc32c (slice 0 124 b17)
     in Inr (write_at 124 (be_encode 4 (unat checksum)) b17))"

definition decode_recovery_state :: "bytes \<Rightarrow> StoreId \<Rightarrow> (RecoveryCodecError, RecoveryReport) result" where
  "decode_recovery_state bs expected_store =
     (if length bs \<noteq> RECOVERY_STATE_LEN
         \<or> slice 0 8 bs \<noteq> RECOVERY_STATE_MAGIC
         \<or> (of_nat (be_decode (slice 8 10 bs)) :: u16) \<noteq> RECOVERY_STATE_VERSION
         \<or> (of_nat (be_decode (slice 10 12 bs)) :: u16) \<noteq> RECOVERY_STATE_LEN_U16
         \<or> list_ex (\<lambda>b. b \<noteq> 0) (slice 114 124 bs)
         \<or> crc32c (slice 0 124 bs) \<noteq> of_nat (be_decode (slice 124 128 bs))
      then Inl RecoveryInvalid
      else and_then (map_err (\<lambda>_. RecoveryInvalid) (identity_from_bytes (slice 12 28 bs))) (\<lambda>store_id.
        if store_id \<noteq> expected_store then Inl RecoveryStoreMismatch
        else and_then (ok_or RecoveryInvalid (classification_from_tag (bs ! 112))) (\<lambda>classification.
        and_then (ok_or RecoveryInvalid (action_from_tag (bs ! 113))) (\<lambda>action.
        let report = \<lparr>rep_store_id = store_id, rep_report_generation = read_u64 28 bs,
              rep_source_manifest_generation = read_u64 36 bs,
              rep_committing_manifest_generation = read_u64 44 bs,
              rep_source_manifest_checksum = of_nat (be_decode (slice 52 56 bs)),
              rep_active_generation = read_u64 56 bs, rep_sequence_floor = read_u64 64 bs,
              rep_checkpoint_generation = read_u64 72 bs, rep_append_sequence = read_u64 80 bs,
              rep_committed_end_offset = read_u64 88 bs, rep_original_journal_length = read_u64 96 bs,
              rep_removed_bytes = read_u64 104 bs, rep_classification = classification,
              rep_action = action\<rparr>
        in and_then (validate_report report) (\<lambda>_.
           and_then (encode_recovery_state report) (\<lambda>encoded.
           if encoded \<noteq> bs then Inl RecoveryInvalid else Inr report))))))"

section \<open>The layout\<close>

definition recovery_body :: "RecoveryReport \<Rightarrow> bytes" where
  "recovery_body r = RECOVERY_STATE_MAGIC @ be_encode 2 1 @ be_encode 2 128 @ id_bytes (rep_store_id r)
     @ be_encode 8 (unat (rep_report_generation r)) @ be_encode 8 (unat (rep_source_manifest_generation r))
     @ be_encode 8 (unat (rep_committing_manifest_generation r)) @ be_encode 4 (unat (rep_source_manifest_checksum r))
     @ be_encode 8 (unat (rep_active_generation r)) @ be_encode 8 (unat (rep_sequence_floor r))
     @ be_encode 8 (unat (rep_checkpoint_generation r)) @ be_encode 8 (unat (rep_append_sequence r))
     @ be_encode 8 (unat (rep_committed_end_offset r)) @ be_encode 8 (unat (rep_original_journal_length r))
     @ be_encode 8 (unat (rep_removed_bytes r))
     @ [classification_tag (rep_classification r), action_tag (rep_action r)] @ replicate 10 0"

definition recovery_layout :: "RecoveryReport \<Rightarrow> bytes" where
  "recovery_layout r = recovery_body r @ be_encode 4 (unat (crc32c (recovery_body r)))"

lemma encode_recovery_layout:
  assumes "validate_report r = Inr ()" "length (id_bytes (rep_store_id r)) = 16"
  shows "encode_recovery_state r = Inr (recovery_layout r)"
proof -
  have start: "replicate RECOVERY_STATE_LEN (0::u8) = pad 128 []"
    by (simp add: pad_def RECOVERY_STATE_LEN_def)
  show ?thesis
    unfolding encode_recovery_state_def assms(1) and_then_simps Let_def start
    using assms(2)
    by (simp add: pad_write pad_update pad_slice [where k = 10] pad_skip [where k = 10] pad_full recovery_layout_def recovery_body_def RECOVERY_STATE_MAGIC_def
        RECOVERY_STATE_VERSION_def RECOVERY_STATE_LEN_U16_def)
qed

section \<open>The decoder accepts exactly the layouts of valid reports\<close>

lemma from_tags:
  "classification_from_tag (classification_tag c) = Some c" "action_from_tag (action_tag a) = Some a"
  by (cases c; simp add: classification_from_tag_def) (cases a; simp add: action_from_tag_def)

lemma decode_recovery_layout:
  assumes ok: "validate_report r = Inr ()" and i: "identity_ok (rep_store_id r)"
  shows "decode_recovery_state (recovery_layout r) (rep_store_id r) = Inr r"
proof -
  have len: "length (id_bytes (rep_store_id r)) = 16" using i by (simp add: identity_ok_def)
  let ?b = "recovery_layout r"
  have total: "length ?b = 128"
    by (simp add: recovery_layout_def recovery_body_def RECOVERY_STATE_MAGIC_def len)
  have body: "slice 0 124 ?b = recovery_body r"
    by (simp add: recovery_layout_def slice_def, simp add: recovery_body_def RECOVERY_STATE_MAGIC_def len)
  have crc: "slice 124 128 ?b = be_encode 4 (unat (crc32c (recovery_body r)))"
  proof -
    have "length (recovery_body r) = 124" by (simp add: recovery_body_def RECOVERY_STATE_MAGIC_def len)
    then show ?thesis by (simp add: recovery_layout_def slice_def)
  qed
  have parts: "slice 0 8 ?b = RECOVERY_STATE_MAGIC" "slice 8 10 ?b = be_encode 2 1" "slice 10 12 ?b = be_encode 2 128"
    "slice 12 28 ?b = id_bytes (rep_store_id r)" "slice 28 36 ?b = be_encode 8 (unat (rep_report_generation r))"
    "slice 36 44 ?b = be_encode 8 (unat (rep_source_manifest_generation r))"
    "slice 44 52 ?b = be_encode 8 (unat (rep_committing_manifest_generation r))"
    "slice 52 56 ?b = be_encode 4 (unat (rep_source_manifest_checksum r))"
    "slice 56 64 ?b = be_encode 8 (unat (rep_active_generation r))"
    "slice 64 72 ?b = be_encode 8 (unat (rep_sequence_floor r))"
    "slice 72 80 ?b = be_encode 8 (unat (rep_checkpoint_generation r))"
    "slice 80 88 ?b = be_encode 8 (unat (rep_append_sequence r))"
    "slice 88 96 ?b = be_encode 8 (unat (rep_committed_end_offset r))"
    "slice 96 104 ?b = be_encode 8 (unat (rep_original_journal_length r))"
    "slice 104 112 ?b = be_encode 8 (unat (rep_removed_bytes r))"
    "slice 114 124 ?b = replicate 10 0"
    "?b ! 112 = classification_tag (rep_classification r)" "?b ! 113 = action_tag (rep_action r)"
    unfolding recovery_layout_def recovery_body_def
    by (simp_all add: slice_def nth_append RECOVERY_STATE_MAGIC_def len)
  have id: "identity_from_bytes (id_bytes (rep_store_id r)) = Inr (rep_store_id r)"
    using i len by (simp add: identity_from_bytes_iff)
  have fixed: "(of_nat (be_decode (be_encode 2 1)) :: u16) = RECOVERY_STATE_VERSION"
    "(of_nat (be_decode (be_encode 2 128)) :: u16) = RECOVERY_STATE_LEN_U16"
    using be_decode_encode [of 1 2] be_decode_encode [of 128 2]
    by (simp_all add: RECOVERY_STATE_VERSION_def RECOVERY_STATE_LEN_U16_def)
  have words: "read_u64 28 ?b = rep_report_generation r" "read_u64 36 ?b = rep_source_manifest_generation r"
    "read_u64 44 ?b = rep_committing_manifest_generation r" "read_u64 56 ?b = rep_active_generation r"
    "read_u64 64 ?b = rep_sequence_floor r" "read_u64 72 ?b = rep_checkpoint_generation r"
    "read_u64 80 ?b = rep_append_sequence r" "read_u64 88 ?b = rep_committed_end_offset r"
    "read_u64 96 ?b = rep_original_journal_length r" "read_u64 104 ?b = rep_removed_bytes r"
    by (simp_all add: read_u64_def parts be_field)
  have zeros: "\<not> list_ex (\<lambda>b. b \<noteq> 0) (replicate 10 (0::u8))" by (simp add: list_ex_iff)
  have surj: "\<lparr>rep_store_id = rep_store_id r, rep_report_generation = rep_report_generation r,
      rep_source_manifest_generation = rep_source_manifest_generation r,
      rep_committing_manifest_generation = rep_committing_manifest_generation r,
      rep_source_manifest_checksum = rep_source_manifest_checksum r,
      rep_active_generation = rep_active_generation r, rep_sequence_floor = rep_sequence_floor r,
      rep_checkpoint_generation = rep_checkpoint_generation r, rep_append_sequence = rep_append_sequence r,
      rep_committed_end_offset = rep_committed_end_offset r,
      rep_original_journal_length = rep_original_journal_length r, rep_removed_bytes = rep_removed_bytes r,
      rep_classification = rep_classification r, rep_action = rep_action r\<rparr> = r"
    by simp
  show ?thesis
    unfolding decode_recovery_state_def parts words body crc fixed be_field from_tags id
    using zeros ok encode_recovery_layout [OF ok len] by (simp add: total RECOVERY_STATE_LEN_def surj)
qed

lemma decode_recovery_iff:
  "decode_recovery_state bs store = Inr r \<longleftrightarrow>
   identity_ok store \<and> rep_store_id r = store \<and> validate_report r = Inr () \<and> bs = recovery_layout r"
proof
  assume L: "decode_recovery_state bs store = Inr r"
  then have len: "length bs = 128"
    by (auto simp: decode_recovery_state_def RECOVERY_STATE_LEN_def split: if_splits)
  from L have "identity_from_bytes (slice 12 28 bs) = Inr store" and rs: "rep_store_id r = store"
    and v: "validate_report r = Inr ()" and e: "encode_recovery_state r = Inr bs"
    by (auto simp: decode_recovery_state_def Let_def result_convs)
  then have "identity_ok store" using len by (simp add: identity_from_bytes_iff)
  moreover have "bs = recovery_layout r"
    using encode_recovery_layout [OF v] e \<open>identity_ok store\<close> by (simp add: rs identity_ok_def)
  ultimately show "identity_ok store \<and> rep_store_id r = store \<and> validate_report r = Inr () \<and> bs = recovery_layout r"
    using rs v by simp
next
  assume "identity_ok store \<and> rep_store_id r = store \<and> validate_report r = Inr () \<and> bs = recovery_layout r"
  then show "decode_recovery_state bs store = Inr r" using decode_recovery_layout [of r] by auto
qed

section \<open>Properties\<close>

text \<open>(C27) Recovery State V1 is canonical: the decoder returns a report of the expected store exactly when the
  128 bytes are what the encoder writes for that report.\<close>
theorem recovery_state_exact:
  "decode_recovery_state bs store = Inr r \<longleftrightarrow>
   identity_ok store \<and> rep_store_id r = store \<and> encode_recovery_state r = Inr bs"
proof (cases "validate_report r")
  case (Inl e)
  then show ?thesis by (simp add: decode_recovery_iff encode_recovery_state_def)
next
  case (Inr u)
  then have v: "validate_report r = Inr ()" by simp
  show ?thesis
    using encode_recovery_layout [OF v] by (auto simp: decode_recovery_iff v identity_ok_def)
qed

text \<open>A recovery report accounts for every byte and never gives up committed data: the committed end is that
  of the durable cutoff, the removed suffix is nonempty, the two add up to the original journal
  length without overflow, the committing manifest is the successor of the source manifest, the
  report's own cutoff is the one it was made from, and the report encodes.\<close>
theorem recovery_report_accounts:
  assumes "recovery_report_new store generation manifest checksum cutoff sequence_floor original class = Inr r"
    and "ji_store_id (cut_journal cutoff) = store"
  shows "report_cutoff r = cutoff \<and>
    unat (rep_removed_bytes r) + unat (cut_end_offset cutoff) = unat original \<and> 0 < rep_removed_bytes r \<and>
    unat (rep_committing_manifest_generation r) = unat manifest + 1 \<and>
    sequence_floor \<le> cut_append_sequence cutoff \<and> RECOVERY_JOURNAL_HEADER_LEN \<le> cut_end_offset cutoff \<and>
    original \<le> MAX_ACTIVE_JOURNAL_BYTES \<and> (\<exists>bs. encode_recovery_state r = Inr bs)"
proof -
  from assms(1) have v: "validate_report r = Inr ()"
    and r: "rep_store_id r = store" "rep_active_generation r = ji_generation (cut_journal cutoff)"
      "rep_checkpoint_generation r = cut_checkpoint_generation cutoff"
      "rep_append_sequence r = cut_append_sequence cutoff" "rep_committed_end_offset r = cut_end_offset cutoff"
      "rep_sequence_floor r = sequence_floor" "rep_original_journal_length r = original"
    and s: "checked_add manifest 1 = Some (rep_committing_manifest_generation r)"
    and d: "checked_sub original (cut_end_offset cutoff) = Some (rep_removed_bytes r)"
      "0 < rep_removed_bytes r"
    by (auto simp: recovery_report_new_def result_convs Let_def split: option.splits if_splits)
  have "report_cutoff r = cutoff"
    using assms(2) by (cases cutoff) (auto simp: report_cutoff_def cutoff_from_manifest_def r)
  moreover have "unat (rep_removed_bytes r) + unat (cut_end_offset cutoff) = unat original"
    using d(1) by (simp add: checked_sub_iff)
  moreover have "unat (rep_committing_manifest_generation r) = unat manifest + 1"
    using s by (simp add: checked_succ_iff)
  moreover have "sequence_floor \<le> cut_append_sequence cutoff \<and> RECOVERY_JOURNAL_HEADER_LEN \<le> cut_end_offset cutoff \<and>
      original \<le> MAX_ACTIVE_JOURNAL_BYTES"
    using v by (auto simp: validate_report_def r not_less not_le split: if_splits)
  moreover have "\<exists>bs. encode_recovery_state r = Inr bs"
    by (simp add: encode_recovery_state_def v Let_def)
  ultimately show ?thesis using d(2) by simp
qed

text \<open>Witness: a journal of 160 bytes with a committed end at 100.\<close>

definition witness_store :: StoreId where
  "witness_store = Identity [1, 0x8F, 0, 0, 0, 0, 0x70, 0, 0x80, 0, 0, 0, 0, 0, 0, 1]"

definition witness_cutoff :: DurableCutoff where
  "witness_cutoff = cutoff_from_manifest (witness_store) 3 4 7 100"

theorem recovery_report_accounts_witness:
  "\<exists>r. recovery_report_new (witness_store) 1 5 0 witness_cutoff 2 160 ShortFramePrefix = Inr r \<and>
     report_cutoff r = witness_cutoff \<and> unat (rep_removed_bytes r) + 100 = 160"
proof -
  obtain r where r: "recovery_report_new (witness_store) 1 5 0 witness_cutoff 2 160 ShortFramePrefix = Inr r"
    by (simp add: recovery_report_new_def witness_cutoff_def cutoff_from_manifest_def checked_add_def checked_sub_def
        validate_report_def RECOVERY_JOURNAL_HEADER_LEN_def MAX_ACTIVE_JOURNAL_BYTES_def Let_def)
  then show ?thesis
    using recovery_report_accounts [OF r] by (simp add: witness_cutoff_def cutoff_from_manifest_def)
qed

end
