(* ===== verification/Och_Bounded.thy ===== *)
theory Och_Bounded
  imports Och_Model_Error Och_Str
begin

text \<open>
  Bounded exact text and portable token primitives (\<^verbatim>\<open>och-core/src/bounded.rs\<close>).  The four
  nominal token types that the macro \<open>portable_token!\<close> generates are one datatype with a
  phantom kind, so that the kinds stay distinct types as in the source.  The compaction of
  spare capacity is invisible here: a string is its contents.
\<close>

definition MAX_TEXT_SCALARS :: nat where "MAX_TEXT_SCALARS = 4096"
definition MAX_PORTABLE_TOKEN_BYTES :: nat where "MAX_PORTABLE_TOKEN_BYTES = 256"
definition MAX_CONTENT_FORMAT_BYTES :: nat where "MAX_CONTENT_FORMAT_BYTES = 64"
definition MAX_RETRY_KEY_BYTES :: nat where "MAX_RETRY_KEY_BYTES = 128"

lemmas bounded_limits = MAX_TEXT_SCALARS_def MAX_PORTABLE_TOKEN_BYTES_def
  MAX_CONTENT_FORMAT_BYTES_def MAX_RETRY_KEY_BYTES_def

definition validate_printable_ascii :: "rust_string \<Rightarrow> nat \<Rightarrow> bool" where
  "validate_printable_ascii value maximum \<longleftrightarrow>
     value \<noteq> [] \<and> length value \<le> maximum \<and> list_all (\<lambda>b. 0x20 \<le> b \<and> b \<le> 0x7E) value"

datatype (dead 'k) portable_token = PortableToken (token_str: rust_string)

datatype state_class_kind = StateClassKind
datatype state_member_kind = StateMemberKind
datatype native_status_kind = NativeStatusKind
datatype unavailable_reason_kind = UnavailableReasonKind

type_synonym StateClass = "state_class_kind portable_token"
type_synonym StateMember = "state_member_kind portable_token"
type_synonym NativeStatusToken = "native_status_kind portable_token"
type_synonym UnavailableReason = "unavailable_reason_kind portable_token"

definition portable_token_new :: "rust_string \<Rightarrow> (ModelError, 'k portable_token) result" where
  "portable_token_new value =
     (if \<not> validate_printable_ascii value MAX_PORTABLE_TOKEN_BYTES
      then Inl InvalidPortableToken else Inr (PortableToken value))"

datatype ExactText = ExactText (exact_text_str: rust_string)

definition exact_text_new :: "rust_string \<Rightarrow> (ModelError, ExactText) result" where
  "exact_text_new value =
     (if length (take (MAX_TEXT_SCALARS + 1) (str_chars value)) > MAX_TEXT_SCALARS
      then Inl InvalidExactText else Inr (ExactText value))"

datatype ContentFormat = ContentFormat (content_format_str: rust_string)

definition is_ascii_uppercase :: "u8 \<Rightarrow> bool" where
  "is_ascii_uppercase b \<longleftrightarrow> 0x41 \<le> b \<and> b \<le> 0x5A"

definition content_format_new :: "rust_string \<Rightarrow> (ModelError, ContentFormat) result" where
  "content_format_new value =
     (let valid = (value \<noteq> [] \<and> length value \<le> MAX_CONTENT_FORMAT_BYTES \<and>
        list_all (\<lambda>b. (0x21 \<le> b \<and> b \<le> 0x7E) \<and> \<not> is_ascii_uppercase b) value)
      in if \<not> valid then Inl InvalidContentFormat else Inr (ContentFormat value))"

datatype RetryKey = RetryKey (retry_key_str: rust_string)

definition retry_key_new :: "rust_string \<Rightarrow> (ModelError, RetryKey) result" where
  "retry_key_new value =
     (if \<not> validate_printable_ascii value MAX_RETRY_KEY_BYTES
      then Inl InvalidRetryKey else Inr (RetryKey value))"

section \<open>The invariants the constructors establish\<close>

definition portable_token_ok :: "'k portable_token \<Rightarrow> bool" where
  "portable_token_ok t \<longleftrightarrow> validate_printable_ascii (token_str t) MAX_PORTABLE_TOKEN_BYTES"

definition exact_text_ok :: "ExactText \<Rightarrow> bool" where
  "exact_text_ok t \<longleftrightarrow> utf8_valid (exact_text_str t) \<and>
     length (str_chars (exact_text_str t)) \<le> MAX_TEXT_SCALARS"

definition content_format_ok :: "ContentFormat \<Rightarrow> bool" where
  "content_format_ok f \<longleftrightarrow> content_format_new (content_format_str f) = Inr f"

definition retry_key_ok :: "RetryKey \<Rightarrow> bool" where
  "retry_key_ok k \<longleftrightarrow> validate_printable_ascii (retry_key_str k) MAX_RETRY_KEY_BYTES"

lemma portable_token_new_iff:
  "portable_token_new s = Inr t \<longleftrightarrow> token_str t = s \<and> portable_token_ok t"
  by (cases t) (auto simp: portable_token_new_def portable_token_ok_def)

lemma exact_text_new_iff:
  "utf8_valid s \<Longrightarrow> exact_text_new s = Inr t \<longleftrightarrow> exact_text_str t = s \<and> exact_text_ok t"
  by (cases t) (auto simp: exact_text_new_def exact_text_ok_def)

lemma retry_key_new_iff: "retry_key_new s = Inr k \<longleftrightarrow> retry_key_str k = s \<and> retry_key_ok k"
  by (cases k) (auto simp: retry_key_new_def retry_key_ok_def)

lemma content_format_new_iff:
  "content_format_new s = Inr f \<longleftrightarrow> content_format_str f = s \<and> content_format_ok f"
  by (cases f) (auto simp: content_format_new_def content_format_ok_def Let_def)

lemma validate_printable_ascii_utf8: "validate_printable_ascii s n \<Longrightarrow> utf8_valid s"
  by (rule utf8_valid_ascii)
     (auto simp: validate_printable_ascii_def list_all_iff word_le_nat_alt)

lemma content_format_utf8: "content_format_ok f \<Longrightarrow> utf8_valid (content_format_str f)"
  by (rule utf8_valid_ascii)
     (auto simp: content_format_ok_def content_format_new_def Let_def list_all_iff word_le_nat_alt
       split: if_splits)

lemma exact_text_bytes: "exact_text_ok t \<Longrightarrow> length (exact_text_str t) \<le> 4 * MAX_TEXT_SCALARS"
  using str_chars_length [of "exact_text_str t"] by (simp add: exact_text_ok_def)

lemma content_format_bytes:
  "content_format_ok f \<Longrightarrow> length (content_format_str f) \<le> MAX_CONTENT_FORMAT_BYTES"
  by (auto simp: content_format_ok_def content_format_new_def Let_def split: if_splits)

end
