(* ===== verification/Och_Position.thy ===== *)
theory Och_Position
  imports Och_Model_Error Och_Str
begin

text \<open>
  Producer epochs, sequences and positions with their canonical decimal text
  (\<^verbatim>\<open>och-core/src/position.rs\<close>).  The macro \<open>producer_number!\<close> yields two nominal types over
  \<open>u128\<close>; here one datatype with a phantom kind.
\<close>

section \<open>Canonical unsigned decimal\<close>

definition is_ascii_digit :: "u8 \<Rightarrow> bool" where
  "is_ascii_digit b \<longleftrightarrow> 0x30 \<le> b \<and> b \<le> 0x39"

fun parse_u128_loop :: "u128 \<Rightarrow> bytes \<Rightarrow> (ModelError, u128) result" where
  "parse_u128_loop value [] = Inr value"
| "parse_u128_loop value (digit # rest) =
     and_then (ok_or InvalidCanonicalDecimal
        (Option.bind (checked_mul value 10) (\<lambda>current. checked_add current (ucast (digit - 0x30)))))
       (\<lambda>value'. parse_u128_loop value' rest)"

definition parse_canonical_u128 :: "rust_string \<Rightarrow> (ModelError, u128) result" where
  "parse_canonical_u128 bs =
     (if bs = [] \<or> length bs > 39 \<or> (length bs > 1 \<and> bs ! 0 = 0x30) \<or> \<not> list_all is_ascii_digit bs
      then Inl InvalidCanonicalDecimal else parse_u128_loop 0 bs)"

text \<open>\<open>u128::fmt\<close>: the decimal digits without leading zeros.\<close>

fun decimal_digits :: "nat \<Rightarrow> bytes" where
  "decimal_digits n =
     (if n < 10 then [0x30 + of_nat n] else decimal_digits (n div 10) @ [0x30 + of_nat (n mod 10)])"

declare decimal_digits.simps [simp del]

definition display_u128 :: "u128 \<Rightarrow> rust_string" where
  "display_u128 v = decimal_digits (unat v)"

section \<open>Producer numbers and positions\<close>

datatype (dead 'k) producer_number = ProducerNumber (number_get: u128)

datatype producer_epoch_kind = ProducerEpochKind
datatype producer_sequence_kind = ProducerSequenceKind

type_synonym ProducerEpoch = "producer_epoch_kind producer_number"
type_synonym ProducerSequence = "producer_sequence_kind producer_number"

definition producer_number_parse :: "rust_string \<Rightarrow> (ModelError, 'k producer_number) result" where
  "producer_number_parse text = map_ok ProducerNumber (parse_canonical_u128 text)"

definition producer_number_display :: "'k producer_number \<Rightarrow> rust_string" where
  "producer_number_display n = display_u128 (number_get n)"

instantiation producer_number :: (type) linorder
begin

definition less_eq_producer_number :: "'a producer_number \<Rightarrow> 'a producer_number \<Rightarrow> bool" where
  "less_eq_producer_number a b \<longleftrightarrow> number_get a \<le> number_get b"

definition less_producer_number :: "'a producer_number \<Rightarrow> 'a producer_number \<Rightarrow> bool" where
  "less_producer_number a b \<longleftrightarrow> number_get a < number_get b"

instance
  by standard
    (auto simp: less_eq_producer_number_def less_producer_number_def intro: producer_number.expand)

end

datatype ProducerPosition = ProducerPosition (epoch: ProducerEpoch) (sequence: ProducerSequence)

instantiation ProducerPosition :: linorder
begin

definition less_ProducerPosition :: "ProducerPosition \<Rightarrow> ProducerPosition \<Rightarrow> bool" where
  "less_ProducerPosition a b \<longleftrightarrow>
     epoch a < epoch b \<or> (epoch a = epoch b \<and> sequence a < sequence b)"

definition less_eq_ProducerPosition :: "ProducerPosition \<Rightarrow> ProducerPosition \<Rightarrow> bool" where
  "less_eq_ProducerPosition a b \<longleftrightarrow>
     epoch a < epoch b \<or> (epoch a = epoch b \<and> sequence a \<le> sequence b)"

instance
  by standard
    (auto simp: less_eq_ProducerPosition_def less_ProducerPosition_def intro: ProducerPosition.expand)

end

section \<open>Decimal round trip\<close>

definition digits_value :: "bytes \<Rightarrow> nat" where
  "digits_value bs = foldl (\<lambda>a b. a * 10 + (unat b - 0x30)) 0 bs"

lemma digits_value_snoc: "digits_value (bs @ [b]) = digits_value bs * 10 + (unat b - 0x30)"
  by (simp add: digits_value_def)

lemma unat_ucast_u128: "unat (ucast (b::u8) :: u128) = unat b"
  by (simp add: unsigned_ucast_eq take_bit_nat_eq_self_iff less_trans [OF unsigned_less])

lemma digit_ucast: "is_ascii_digit b \<Longrightarrow> unat (ucast (b - 0x30) :: u128) = unat b - 0x30"
  by (auto simp: is_ascii_digit_def unat_ucast_u128 word_le_nat_alt unat_sub_if')

lemma parse_u128_step:
  assumes "is_ascii_digit b"
  shows "Option.bind (checked_mul (v::u128) 10) (\<lambda>c. checked_add c (ucast (b - 0x30))) =
     (if unat v * 10 + (unat b - 0x30) < 2 ^ 128
      then Some (of_nat (unat v * 10 + (unat b - 0x30))) else None)"
proof (cases "unat v * 10 < 2 ^ 128")
  case True
  have d: "(ucast (b - 0x30) :: u128) = of_nat (unat b - 0x30)"
    using digit_ucast [OF assms] by (metis of_nat_unat ucast_id)
  have m: "unat (v * 10) = unat v * 10" using True by (simp add: unat_word_ariths)
  have "checked_add (v * 10) (ucast (b - 0x30)) =
     (if unat v * 10 + (unat b - 0x30) < 2 ^ 128 then Some (v * 10 + ucast (b - 0x30)) else None)"
    unfolding checked_add_def m digit_ucast [OF assms] by simp
  moreover have "0x30 \<le> unat b" using assms by (simp add: is_ascii_digit_def word_le_nat_alt)
  ultimately show ?thesis using True by (simp add: checked_mul_def d)
next
  case False
  then show ?thesis by (simp add: checked_mul_def)
qed

lemma foldl_digits_ge: "acc \<le> foldl (\<lambda>a b. a * 10 + (unat b - 0x30)) (acc::nat) (bs::bytes)"
proof (induction bs arbitrary: acc)
  case Nil
  then show ?case by simp
next
  case (Cons b bs)
  show ?case using Cons.IH [of "acc * 10 + (unat b - 0x30)"] by simp
qed

lemma parse_u128_loop_value:
  "list_all is_ascii_digit bs \<Longrightarrow>
   parse_u128_loop v bs =
     (let n = foldl (\<lambda>a b. a * 10 + (unat b - 0x30)) (unat v) bs in
      if n < 2 ^ 128 then Inr (of_nat n) else Inl InvalidCanonicalDecimal)"
proof (induction bs arbitrary: v)
  case Nil
  then show ?case using unat_less_2p [of v] by (simp add: Let_def)
next
  case (Cons b bs)
  let ?n = "unat v * 10 + (unat b - 0x30)"
  show ?case
  proof (cases "?n < 2 ^ 128")
    case True
    then have "unat (of_nat ?n :: u128) = ?n"
      by (simp add: unat_of_nat del: of_nat_add of_nat_mult)
    with True Cons show ?thesis
      by (simp add: parse_u128_step Let_def del: of_nat_add of_nat_mult)
  next
    case False
    with foldl_digits_ge [of ?n bs] Cons.prems show ?thesis
      by (auto simp: parse_u128_step Let_def)
  qed
qed

lemma decimal_digits_value: "digits_value (decimal_digits n) = n"
proof (induction n rule: decimal_digits.induct)
  case (1 n)
  show ?case
  proof (cases "n < 10")
    case True
    then show ?thesis
      by (subst decimal_digits.simps) (simp add: digits_value_def unat_word_ariths unat_of_nat)
  next
    case False
    with 1 have "digits_value (decimal_digits (n div 10)) = n div 10" by simp
    with False show ?thesis
      by (subst decimal_digits.simps)
         (simp add: digits_value_snoc unat_word_ariths unat_of_nat del: of_nat_mod)
  qed
qed

lemma digit_of_nat: "n < 10 \<Longrightarrow> is_ascii_digit (0x30 + of_nat n)"
  by (simp add: is_ascii_digit_def word_le_nat_alt unat_word_ariths unat_of_nat)

lemma decimal_digits_digits: "list_all is_ascii_digit (decimal_digits n)"
proof (induction n rule: decimal_digits.induct)
  case (1 n)
  then show ?case
    by (subst decimal_digits.simps) (auto simp: digit_of_nat simp del: of_nat_mod)
qed

lemma decimal_digits_head: "decimal_digits n \<noteq> [] \<and> (n \<noteq> 0 \<longrightarrow> hd (decimal_digits n) \<noteq> 0x30)"
proof (induction n rule: decimal_digits.induct)
  case (1 n)
  show ?case
  proof (cases "n < 10")
    case True
    then show ?thesis
      by (subst (1 2) decimal_digits.simps) (auto simp: word_unat_eq_iff unat_word_ariths unat_of_nat)
  next
    case False
    with 1 have "decimal_digits (n div 10) \<noteq> [] \<and> hd (decimal_digits (n div 10)) \<noteq> 0x30" by simp
    with False show ?thesis by (subst (1 2) decimal_digits.simps) simp
  qed
qed

lemma decimal_digits_length: "n < 10 ^ k \<Longrightarrow> 0 < k \<Longrightarrow> length (decimal_digits n) \<le> k"
proof (induction n arbitrary: k rule: decimal_digits.induct)
  case (1 n)
  show ?case
  proof (cases "n < 10")
    case True
    with "1.prems" show ?thesis by (subst decimal_digits.simps) simp
  next
    case False
    then have "k \<noteq> 1" using "1.prems" by auto
    then obtain j where j: "k = Suc j" "0 < j" using "1.prems" by (cases k) auto
    have "n div 10 < 10 ^ j" using "1.prems" j by (simp add: less_mult_imp_div_less mult.commute)
    from "1.IH" [OF False this j(2)] False j show ?thesis by (subst decimal_digits.simps) simp
  qed
qed

lemma decimal_digits_unique:
  "list_all is_ascii_digit bs \<Longrightarrow> bs \<noteq> [] \<Longrightarrow> (length bs > 1 \<longrightarrow> bs ! 0 \<noteq> 0x30) \<Longrightarrow>
   decimal_digits (digits_value bs) = bs"
proof (induction bs rule: rev_induct)
  case Nil
  then show ?case by simp
next
  case (snoc b bs)
  have b: "0x30 \<le> unat b" "unat b \<le> 0x39"
    using snoc.prems by (auto simp: is_ascii_digit_def word_le_nat_alt)
  have last: "0x30 + of_nat (unat b - 0x30) = b"
    using b by (simp add: word_unat_eq_iff unat_word_ariths unat_of_nat)
  show ?case
  proof (cases "bs = []")
    case True
    from b have "unat b - 0x30 < 10" by simp
    with True last show ?thesis
      by (subst decimal_digits.simps) (simp add: digits_value_def)
  next
    case False
    have h: "bs ! 0 \<noteq> 0x30" using snoc.prems False by (auto simp: nth_append)
    have IH: "decimal_digits (digits_value bs) = bs"
      using snoc False h by simp
    have "digits_value bs \<noteq> 0"
    proof
      assume "digits_value bs = 0"
      with IH have "bs = decimal_digits 0" by simp
      with h show False by (simp add: decimal_digits.simps)
    qed
    moreover define d where "d = unat b - 0x30"
    moreover have "d < 10" using b by (simp add: d_def)
    ultimately have v: "digits_value (bs @ [b]) = digits_value bs * 10 + d" "d < 10"
      "\<not> digits_value bs * 10 + d < 10" "(digits_value bs * 10 + d) div 10 = digits_value bs"
      "(digits_value bs * 10 + d) mod 10 = d" "0x30 + of_nat d = b"
      using last by (simp_all add: digits_value_snoc)
    show ?thesis
      unfolding v(1) by (subst decimal_digits.simps) (simp only: v(3-6) IH if_False)
  qed
qed

lemma parse_display_u128: "parse_canonical_u128 (display_u128 v) = Inr v"
proof -
  let ?ds = "decimal_digits (unat v)"
  have "unat v < 10 ^ 39" using unat_less_2p [of v] by simp
  then have len: "length ?ds \<le> 39" by (rule decimal_digits_length) simp
  have hd: "\<not> (length ?ds > 1 \<and> ?ds ! 0 = 0x30)"
  proof (cases "unat v = 0")
    case True
    then show ?thesis by (simp add: decimal_digits.simps)
  next
    case False
    with decimal_digits_head [of "unat v"] show ?thesis by (auto simp: hd_conv_nth)
  qed
  have "parse_u128_loop 0 ?ds = Inr (of_nat (digits_value ?ds))"
    using parse_u128_loop_value [OF decimal_digits_digits, of 0 "unat v"] decimal_digits_value [of "unat v"]
      unat_less_2p [of v] by (simp add: digits_value_def Let_def)
  with len hd decimal_digits_head [of "unat v"] show ?thesis
    by (simp add: parse_canonical_u128_def display_u128_def decimal_digits_digits decimal_digits_value)
qed

lemma display_parse_u128:
  assumes "parse_canonical_u128 t = Inr v"
  shows "display_u128 v = t"
proof -
  from assms have ok: "list_all is_ascii_digit t" "t \<noteq> []" "length t > 1 \<longrightarrow> t ! 0 \<noteq> 0x30"
    and p: "parse_u128_loop 0 t = Inr v"
    by (auto simp: parse_canonical_u128_def split: if_splits)
  have "digits_value t < 2 ^ 128" "v = of_nat (digits_value t)"
    using p parse_u128_loop_value [OF ok(1), of 0]
    by (auto simp: Let_def digits_value_def split: if_splits)
  then have "unat v = digits_value t" by (simp add: unat_of_nat)
  with decimal_digits_unique [OF ok] show ?thesis by (simp add: display_u128_def)
qed

section \<open>Text form of producer numbers\<close>

text \<open>The canonical decimal text of a 128-bit producer number is unique: a text parses to a number
  exactly when it is the displayed form of that number, so signs, leading zeros and values of
  \<open>2 ^ 128\<close> and above are refused and every number is parsed back.\<close>
lemma producer_number_text_exact:
  "producer_number_parse t = Inr n \<longleftrightarrow> producer_number_display n = t"
proof -
  have "parse_canonical_u128 t = Inr v \<longleftrightarrow> display_u128 v = t" for v
    using display_parse_u128 [of t v] parse_display_u128 [of v] by auto
  then show ?thesis
    by (cases n) (auto simp: producer_number_parse_def producer_number_display_def result_convs)
qed

end
