(* ===== verification/Och_Value.thy ===== *)
theory Och_Value
  imports Och_Bounded Och_Identity Och_Position
begin

text \<open>
  Exact observation values and externally supplied content identity
  (\<^verbatim>\<open>och-core/src/value.rs\<close>) and the content-qualified retry comparison
  (\<^verbatim>\<open>och-core/src/retry.rs\<close>).  A real value is only ever its 64 bits.
\<close>

datatype RealBits = RealBits (real_to_bits: u64)

datatype ContentVersion = ContentVersion (version_get: u128)

definition content_version_parse :: "rust_string \<Rightarrow> (ModelError, ContentVersion) result" where
  "content_version_parse text = map_ok ContentVersion (parse_canonical_u128 text)"

definition content_version_display :: "ContentVersion \<Rightarrow> rust_string" where
  "content_version_display v = display_u128 (version_get v)"

record ContentIdentity =
  content_format :: ContentFormat
  content_version :: ContentVersion
  content_sha256 :: bytes

record ArtifactReference =
  artifact_id :: ArtifactId
  artifact_content :: ContentIdentity

record StateValue =
  state_class :: StateClass
  state_member :: StateMember

record Unavailable =
  unavailable_reason :: "UnavailableReason option"

definition unavailable_without_reason :: Unavailable where
  "unavailable_without_reason = \<lparr>unavailable_reason = None\<rparr>"

datatype ExactValue =
    Real RealBits
  | Signed i64
  | Unsigned u64
  | Boolean bool
  | State StateValue
  | Text ExactText
  | Artifact ArtifactReference
  | UnavailableValue Unavailable

section \<open>Type invariants\<close>

definition content_ok :: "ContentIdentity \<Rightarrow> bool" where
  "content_ok c \<longleftrightarrow> content_format_ok (content_format c) \<and> length (content_sha256 c) = 32"

definition artifact_ok :: "ArtifactReference \<Rightarrow> bool" where
  "artifact_ok a \<longleftrightarrow> identity_ok (artifact_id a) \<and> content_ok (artifact_content a)"

fun exact_value_ok :: "ExactValue \<Rightarrow> bool" where
  "exact_value_ok (State s) = (portable_token_ok (state_class s) \<and> portable_token_ok (state_member s))"
| "exact_value_ok (Text t) = exact_text_ok t"
| "exact_value_ok (Artifact a) = artifact_ok a"
| "exact_value_ok (UnavailableValue u) = pred_option portable_token_ok (unavailable_reason u)"
| "exact_value_ok _ = True"

section \<open>Retry qualification\<close>

datatype RetryClassification = Equivalent | Conflict | Distinct

record RetryQualification =
  rq_series_id :: SeriesId
  rq_producer_id :: ProducerId
  rq_key :: RetryKey
  rq_content :: ContentIdentity

definition retry_classify :: "RetryQualification \<Rightarrow> RetryQualification \<Rightarrow> RetryClassification" where
  "retry_classify self other =
     (if rq_series_id self \<noteq> rq_series_id other \<or> rq_producer_id self \<noteq> rq_producer_id other
         \<or> rq_key self \<noteq> rq_key other
      then Distinct
      else if rq_content self = rq_content other then Equivalent else Conflict)"

definition retry_ok :: "RetryQualification \<Rightarrow> bool" where
  "retry_ok r \<longleftrightarrow> identity_ok (rq_series_id r) \<and> identity_ok (rq_producer_id r) \<and>
     retry_key_ok (rq_key r) \<and> content_ok (rq_content r)"

text \<open>The scope of a retry key: series, producer and key.\<close>

definition retry_scope :: "RetryQualification \<Rightarrow> SeriesId \<times> ProducerId \<times> RetryKey" where
  "retry_scope r = (rq_series_id r, rq_producer_id r, rq_key r)"

lemma retry_classify_equivalent: "retry_classify a b = Equivalent \<longleftrightarrow> a = b"
  by (cases a; cases b) (auto simp: retry_classify_def)

lemma retry_classify_distinct: "retry_classify a b = Distinct \<longleftrightarrow> retry_scope a \<noteq> retry_scope b"
  by (auto simp: retry_classify_def retry_scope_def)

lemma retry_classify_conflict:
  "retry_classify a b = Conflict \<longleftrightarrow> retry_scope a = retry_scope b \<and> rq_content a \<noteq> rq_content b"
  by (auto simp: retry_classify_def retry_scope_def)

lemma retry_classify_sym: "retry_classify a b = retry_classify b a"
  by (auto simp: retry_classify_def)

end
