(* ===== verification/Och_Time.thy ===== *)
theory Och_Time
  imports Och_Model_Error
begin

text \<open>
  Normalized timestamps and half-open intervals (\<^verbatim>\<open>och-core/src/time.rs\<close>).  Seconds are an
  \<open>i64\<close>: a 64-bit word read through \<open>sint\<close>; the derived order compares signed seconds first
  and unsigned nanoseconds second.
\<close>

datatype Timestamp = Timestamp (unix_seconds: i64) (nanosecond: u32)

definition NANOS_PER_SECOND :: u32 where "NANOS_PER_SECOND = 1000000000"

definition timestamp_new :: "i64 \<Rightarrow> u32 \<Rightarrow> (ModelError, Timestamp) result" where
  "timestamp_new seconds nanos =
     (if nanos \<ge> NANOS_PER_SECOND then Inl InvalidNanosecond else Inr (Timestamp seconds nanos))"

text \<open>\<open>div_euclid\<close> and \<open>rem_euclid\<close> by a positive divisor are the floor quotient and remainder.\<close>

definition from_unix_milliseconds :: "i64 \<Rightarrow> Timestamp" where
  "from_unix_milliseconds milliseconds =
     (let seconds = word_of_int (sint milliseconds div 1000);
          millisecond_fraction = sint milliseconds mod 1000;
          nanos = word_of_int millisecond_fraction * 1000000
      in Timestamp seconds nanos)"

definition to_unix_milliseconds :: "Timestamp \<Rightarrow> (ModelError, i64) result" where
  "to_unix_milliseconds t =
     (if nanosecond t mod 1000000 \<noteq> 0 then Inl InexactUnixMilliseconds
      else let milliseconds = sint (unix_seconds t) * 1000 + int (unat (nanosecond t div 1000000))
           in if - (2 ^ 63) \<le> milliseconds \<and> milliseconds < 2 ^ 63
              then Inr (word_of_int milliseconds) else Inl UnixMillisecondsOverflow)"

lemma sint_i64_eq: "sint (x::i64) = sint y \<longleftrightarrow> x = y"
  by (auto intro: signed_word_eqI)

instantiation Timestamp :: linorder
begin

definition less_Timestamp :: "Timestamp \<Rightarrow> Timestamp \<Rightarrow> bool" where
  "less_Timestamp a b \<longleftrightarrow> sint (unix_seconds a) < sint (unix_seconds b) \<or>
     (unix_seconds a = unix_seconds b \<and> nanosecond a < nanosecond b)"

definition less_eq_Timestamp :: "Timestamp \<Rightarrow> Timestamp \<Rightarrow> bool" where
  "less_eq_Timestamp a b \<longleftrightarrow> sint (unix_seconds a) < sint (unix_seconds b) \<or>
     (unix_seconds a = unix_seconds b \<and> nanosecond a \<le> nanosecond b)"

instance
proof
  fix a b c :: Timestamp
  show "a < b \<longleftrightarrow> a \<le> b \<and> \<not> b \<le> a" and "a \<le> a"
    by (auto simp: less_Timestamp_def less_eq_Timestamp_def)
  show "a \<le> b \<Longrightarrow> b \<le> c \<Longrightarrow> a \<le> c"
    by (auto simp: less_eq_Timestamp_def)
  show "a \<le> b \<Longrightarrow> b \<le> a \<Longrightarrow> a = b"
    by (auto simp: less_eq_Timestamp_def intro: Timestamp.expand)
  show "a \<le> b \<or> b \<le> a"
    using sint_i64_eq [of "unix_seconds a" "unix_seconds b"] by (auto simp: less_eq_Timestamp_def)
qed

end

definition timestamp_ok :: "Timestamp \<Rightarrow> bool" where
  "timestamp_ok t \<longleftrightarrow> nanosecond t < NANOS_PER_SECOND"

record ObservationTimes =
  times_source :: "Timestamp option"
  times_receive :: Timestamp
  times_effective :: Timestamp

definition observation_times_ok :: "ObservationTimes \<Rightarrow> bool" where
  "observation_times_ok t \<longleftrightarrow> pred_option timestamp_ok (times_source t) \<and>
     timestamp_ok (times_receive t) \<and> timestamp_ok (times_effective t)"

record TimeInterval =
  interval_start :: Timestamp
  interval_end :: Timestamp

definition time_interval_new :: "Timestamp \<Rightarrow> Timestamp \<Rightarrow> (ModelError, TimeInterval) result" where
  "time_interval_new start stop =
     (if start \<ge> stop then Inl EmptyTimeInterval
      else Inr \<lparr>interval_start = start, interval_end = stop\<rparr>)"

definition time_interval_contains :: "TimeInterval \<Rightarrow> Timestamp \<Rightarrow> bool" where
  "time_interval_contains i t \<longleftrightarrow> interval_start i \<le> t \<and> t < interval_end i"

definition time_interval_ok :: "TimeInterval \<Rightarrow> bool" where
  "time_interval_ok i \<longleftrightarrow> timestamp_ok (interval_start i) \<and> timestamp_ok (interval_end i) \<and>
     interval_start i < interval_end i"

section \<open>Constructors and conversions\<close>

lemma timestamp_new_iff:
  "timestamp_new s n = Inr t \<longleftrightarrow> unix_seconds t = s \<and> nanosecond t = n \<and> timestamp_ok t"
  by (cases t) (auto simp: timestamp_new_def timestamp_ok_def)

lemma time_interval_new_iff:
  "time_interval_new a b = Inr i \<longleftrightarrow> interval_start i = a \<and> interval_end i = b \<and> a < b"
  by (cases i) (auto simp: time_interval_new_def)

lemma time_interval_nonempty:
  "time_interval_new a b = Inr i \<Longrightarrow> time_interval_contains i a \<and> \<not> time_interval_contains i b"
  by (auto simp: time_interval_new_iff time_interval_contains_def)

definition ns_of :: "Timestamp \<Rightarrow> int" where
  "ns_of t = sint (unix_seconds t) * 1000000000 + int (unat (nanosecond t))"

lemma timestamp_less_ns:
  assumes "timestamp_ok a" "timestamp_ok b"
  shows "a < b \<longleftrightarrow> ns_of a < ns_of b"
proof -
  have n: "0 \<le> uint (nanosecond a)" "uint (nanosecond a) < 1000000000"
    "0 \<le> uint (nanosecond b)" "uint (nanosecond b) < 1000000000"
    using assms by (simp_all add: timestamp_ok_def NANOS_PER_SECOND_def word_less_def)
  have eq: "unix_seconds a = unix_seconds b \<longleftrightarrow> sint (unix_seconds a) = sint (unix_seconds b)"
    by (simp add: sint_i64_eq)
  show ?thesis
    unfolding less_Timestamp_def ns_of_def word_less_def eq of_nat_unat using n by linarith
qed

lemma sint_i64_of_int:
  "- (2 ^ 63) \<le> x \<Longrightarrow> x < 2 ^ 63 \<Longrightarrow> sint (word_of_int x :: i64) = x"
  by (simp add: signed_of_int signed_take_bit_int_eq_self)

lemma sint_i64_bounds: "- (2 ^ 63) \<le> sint (m::i64) \<and> sint m < 2 ^ 63"
  using sint_ge [of m] sint_lt [of m] by simp

lemma from_unix_milliseconds_parts:
  "sint (unix_seconds (from_unix_milliseconds m)) = sint m div 1000"
  "unat (nanosecond (from_unix_milliseconds m)) = nat (sint m mod 1000) * 1000000"
proof -
  have "- (2 ^ 63) \<le> sint m div 1000 \<and> sint m div 1000 < 2 ^ 63"
    using sint_i64_bounds [of m] by auto
  then show "sint (unix_seconds (from_unix_milliseconds m)) = sint m div 1000"
    by (simp add: from_unix_milliseconds_def Let_def sint_i64_of_int del: power_numeral)
  have "0 \<le> sint m mod 1000" "sint m mod 1000 < 1000" by simp_all
  then have "unat (word_of_int (sint m mod 1000) :: u32) = nat (sint m mod 1000)"
    "nat (sint m mod 1000) < 1000"
    by (auto simp: unsigned_of_int nat_take_bit_eq take_bit_nat_eq_self)
  then show "unat (nanosecond (from_unix_milliseconds m)) = nat (sint m mod 1000) * 1000000"
    by (simp add: from_unix_milliseconds_def Let_def unat_word_ariths)
qed

lemma from_unix_milliseconds_ok: "timestamp_ok (from_unix_milliseconds m)"
proof -
  have "nat (sint m mod 1000) < 1000" by simp
  then show ?thesis
    by (simp add: timestamp_ok_def NANOS_PER_SECOND_def word_less_nat_alt
        from_unix_milliseconds_parts(2))
qed

lemma from_unix_milliseconds_ns: "ns_of (from_unix_milliseconds m) = sint m * 1000000"
proof -
  have "ns_of (from_unix_milliseconds m) = sint m div 1000 * 1000000000 + sint m mod 1000 * 1000000"
    unfolding ns_of_def from_unix_milliseconds_parts by simp
  then show ?thesis using div_mult_mod_eq [of "sint m" 1000] by linarith
qed

lemma to_from_unix_milliseconds: "to_unix_milliseconds (from_unix_milliseconds m) = Inr m"
proof -
  let ?t = "from_unix_milliseconds m"
  have exact: "nanosecond ?t mod 1000000 = 0"
    by (simp add: word_unat_eq_iff unat_mod from_unix_milliseconds_parts(2))
  have "int (unat (nanosecond ?t div 1000000)) = sint m mod 1000"
    by (simp add: unat_div from_unix_milliseconds_parts(2) del: of_nat_unat)
  then have "sint (unix_seconds ?t) * 1000 + int (unat (nanosecond ?t div 1000000)) = sint m"
    unfolding from_unix_milliseconds_parts by simp
  with exact sint_i64_bounds [of m] show ?thesis
    by (simp add: to_unix_milliseconds_def Let_def del: of_nat_unat power_numeral)
qed

lemma from_to_unix_milliseconds:
  assumes "timestamp_ok t" and "to_unix_milliseconds t = Inr m"
  shows "from_unix_milliseconds m = t"
proof -
  define k where "k = unat (nanosecond t) div 1000000"
  have n: "unat (nanosecond t) = k * 1000000" "k < 1000"
    using assms
    by (auto simp: to_unix_milliseconds_def k_def word_unat_eq_iff unat_mod timestamp_ok_def
        NANOS_PER_SECOND_def word_less_nat_alt Let_def split: if_splits)
  have "unat (nanosecond t div 1000000) = k" by (simp add: unat_div k_def)
  then have m: "sint m = sint (unix_seconds t) * 1000 + int k"
    using assms(2) sint_i64_of_int [of "sint (unix_seconds t) * 1000 + int k"]
    by (simp add: to_unix_milliseconds_def Let_def del: of_nat_unat split: if_splits)
  have "sint (unix_seconds (from_unix_milliseconds m)) = sint (unix_seconds t)"
    "unat (nanosecond (from_unix_milliseconds m)) = unat (nanosecond t)"
    unfolding from_unix_milliseconds_parts m n using n(2) by simp_all
  then show ?thesis by (auto simp: sint_i64_eq word_unat_eq_iff intro!: Timestamp.expand)
qed

section \<open>Properties\<close>

text \<open>Unix milliseconds convert without loss: every \<open>i64\<close> millisecond count becomes a normalized
  timestamp that converts back to it, and the exact conversion of a normalized timestamp to
  milliseconds succeeds only with the count from which the timestamp is rebuilt.\<close>
lemma unix_milliseconds_exact:
  "timestamp_ok t \<and> to_unix_milliseconds t = Inr m \<longleftrightarrow> from_unix_milliseconds m = t"
  using from_to_unix_milliseconds [of t m] to_from_unix_milliseconds [of m] from_unix_milliseconds_ok [of m]
  by auto

text \<open>The derived field-wise order of normalized timestamps is chronological: it compares the
  signed nanosecond counts since the epoch, before and after the epoch alike.\<close>
lemma timestamp_order_chronological:
  "timestamp_ok a \<Longrightarrow> timestamp_ok b \<Longrightarrow> a < b \<longleftrightarrow> ns_of a < ns_of b"
  by (rule timestamp_less_ns)

text \<open>Witness: one nanosecond before the epoch and the epoch itself.\<close>
theorem timestamp_order_witness:
  "Timestamp (- 1) 999999999 < Timestamp 0 0 \<longleftrightarrow> ns_of (Timestamp (- 1) 999999999) < ns_of (Timestamp 0 0)"
  by (rule timestamp_order_chronological) (simp_all add: timestamp_ok_def NANOS_PER_SECOND_def)

end
