(* ===== verification/Och_Quality.thy ===== *)
theory Och_Quality
  imports Och_Bounded
begin

text \<open>
  Closed normalized quality and opaque native status (\<^verbatim>\<open>och-core/src/quality.rs\<close>).  The six
  flags are bits of one byte; the setters and getters are the bit operations of the source.
\<close>

unbundle bit_operations_syntax

definition MAX_NATIVE_STATUS_TOKENS :: nat where "MAX_NATIVE_STATUS_TOKENS = 16"

datatype QualityLevel = QualityUnknown | Good | Uncertain | Bad | NotEvaluated

datatype QualityFlags = QualityFlags (flag_bits: u8)

definition STALE :: u8 where "STALE = push_bit 0 1"
definition INVALID :: u8 where "INVALID = push_bit 1 1"
definition SUBSTITUTED :: u8 where "SUBSTITUTED = push_bit 2 1"
definition OVERRIDDEN :: u8 where "OVERRIDDEN = push_bit 3 1"
definition OUT_OF_SERVICE :: u8 where "OUT_OF_SERVICE = push_bit 4 1"
definition COMMUNICATION_FAILURE :: u8 where "COMMUNICATION_FAILURE = push_bit 5 1"

lemmas flag_defs = STALE_def INVALID_def SUBSTITUTED_def OVERRIDDEN_def OUT_OF_SERVICE_def
  COMMUNICATION_FAILURE_def

definition flags_none :: QualityFlags where "flags_none = QualityFlags 0"

definition flags_set :: "u8 \<Rightarrow> bool \<Rightarrow> QualityFlags \<Rightarrow> QualityFlags" where
  "flags_set flag enabled q =
     QualityFlags (if enabled then flag_bits q OR flag else flag_bits q AND NOT flag)"

definition with_stale :: "bool \<Rightarrow> QualityFlags \<Rightarrow> QualityFlags" where
  "with_stale = flags_set STALE"
definition with_invalid :: "bool \<Rightarrow> QualityFlags \<Rightarrow> QualityFlags" where
  "with_invalid = flags_set INVALID"
definition with_substituted :: "bool \<Rightarrow> QualityFlags \<Rightarrow> QualityFlags" where
  "with_substituted = flags_set SUBSTITUTED"
definition with_overridden :: "bool \<Rightarrow> QualityFlags \<Rightarrow> QualityFlags" where
  "with_overridden = flags_set OVERRIDDEN"
definition with_out_of_service :: "bool \<Rightarrow> QualityFlags \<Rightarrow> QualityFlags" where
  "with_out_of_service = flags_set OUT_OF_SERVICE"
definition with_communication_failure :: "bool \<Rightarrow> QualityFlags \<Rightarrow> QualityFlags" where
  "with_communication_failure = flags_set COMMUNICATION_FAILURE"

definition stale :: "QualityFlags \<Rightarrow> bool" where
  "stale q \<longleftrightarrow> flag_bits q AND STALE \<noteq> 0"
definition invalid :: "QualityFlags \<Rightarrow> bool" where
  "invalid q \<longleftrightarrow> flag_bits q AND INVALID \<noteq> 0"
definition substituted :: "QualityFlags \<Rightarrow> bool" where
  "substituted q \<longleftrightarrow> flag_bits q AND SUBSTITUTED \<noteq> 0"
definition overridden :: "QualityFlags \<Rightarrow> bool" where
  "overridden q \<longleftrightarrow> flag_bits q AND OVERRIDDEN \<noteq> 0"
definition out_of_service :: "QualityFlags \<Rightarrow> bool" where
  "out_of_service q \<longleftrightarrow> flag_bits q AND OUT_OF_SERVICE \<noteq> 0"
definition communication_failure :: "QualityFlags \<Rightarrow> bool" where
  "communication_failure q \<longleftrightarrow> flag_bits q AND COMMUNICATION_FAILURE \<noteq> 0"

lemmas with_defs = with_stale_def with_invalid_def with_substituted_def with_overridden_def
  with_out_of_service_def with_communication_failure_def
lemmas get_defs = stale_def invalid_def substituted_def overridden_def out_of_service_def
  communication_failure_def

record Quality =
  quality_level :: QualityLevel
  quality_flags :: QualityFlags

datatype NativeStatus = NativeStatus (native_tokens: "NativeStatusToken list")

definition native_status_new :: "NativeStatusToken list \<Rightarrow> (ModelError, NativeStatus) result" where
  "native_status_new tokens =
     (if length tokens > MAX_NATIVE_STATUS_TOKENS then Inl TooManyNativeStatusTokens
      else Inr (NativeStatus tokens))"

definition native_status_absent :: NativeStatus where "native_status_absent = NativeStatus []"

definition native_status_is_absent :: "NativeStatus \<Rightarrow> bool" where
  "native_status_is_absent s \<longleftrightarrow> native_tokens s = []"

section \<open>Flags are six independent bits\<close>

text \<open>Reachable flag bytes use only the six low bits.\<close>

definition flags_ok :: "QualityFlags \<Rightarrow> bool" where
  "flags_ok q \<longleftrightarrow> flag_bits q AND NOT 0x3F = 0"

definition native_status_ok :: "NativeStatus \<Rightarrow> bool" where
  "native_status_ok s \<longleftrightarrow> length (native_tokens s) \<le> MAX_NATIVE_STATUS_TOKENS \<and>
     list_all portable_token_ok (native_tokens s)"

lemma and_single_bit: "(w AND push_bit n 1 \<noteq> 0) \<longleftrightarrow> bit w n" if "n < 8" for w :: u8
proof
  assume "w AND push_bit n 1 \<noteq> 0"
  then obtain m where "bit (w AND push_bit n 1) m" by (auto simp: bit_eq_iff)
  then show "bit w n" by (auto simp: bit_simps)
next
  assume "bit w n"
  then have "bit (w AND push_bit n 1) n" using that by (simp add: bit_simps)
  then show "w AND push_bit n 1 \<noteq> 0" by auto
qed

lemma bit_flags_set:
  "n < 8 \<Longrightarrow> bit (flag_bits (flags_set (push_bit m 1) b q)) n = (if m = n then b else bit (flag_bits q) n)"
  by (auto simp: flags_set_def bit_simps)

lemma mask6_u8: "(0x3F::u8) = mask 6"
  by (simp add: mask_eq_exp_minus_1)

lemma flags_ok_bit: "flags_ok q \<Longrightarrow> bit (flag_bits q) n \<Longrightarrow> n < 6"
proof (rule ccontr)
  assume a: "flags_ok q" "bit (flag_bits q) n" "\<not> n < 6"
  then have "bit (flag_bits q AND NOT 0x3F) n"
    by (auto simp: bit_simps mask6_u8 dest: bit_imp_le_length)
  with a(1) show False by (simp add: flags_ok_def)
qed

lemma flag_bits_getters:
  "stale q = bit (flag_bits q) 0" "invalid q = bit (flag_bits q) 1"
  "substituted q = bit (flag_bits q) 2" "overridden q = bit (flag_bits q) 3"
  "out_of_service q = bit (flag_bits q) 4" "communication_failure q = bit (flag_bits q) 5"
  unfolding get_defs flag_defs by (simp_all only: and_single_bit)

lemma flags_eqI:
  assumes "flags_ok p" "flags_ok q"
    and "stale p = stale q" "invalid p = invalid q" "substituted p = substituted q"
    "overridden p = overridden q" "out_of_service p = out_of_service q"
    "communication_failure p = communication_failure q"
  shows "p = q"
proof (rule QualityFlags.expand, rule bit_word_eqI)
  fix n :: nat
  have six: "n < 6 \<Longrightarrow> n \<in> {0, 1, 2, 3, 4, 5}" by auto
  show "bit (flag_bits p) n = bit (flag_bits q) n"
  proof (cases "n < 6")
    case True
    with six assms show ?thesis by (auto simp: flag_bits_getters)
  next
    case False
    with assms show ?thesis by (auto dest: flags_ok_bit)
  qed
qed

lemma native_status_new_iff:
  "native_status_new ts = Inr s \<longleftrightarrow>
   native_tokens s = ts \<and> length ts \<le> MAX_NATIVE_STATUS_TOKENS"
  by (cases s) (auto simp: native_status_new_def)

section \<open>The byte refines a record of six booleans\<close>

definition flag_view :: "QualityFlags \<Rightarrow> bool list" where
  "flag_view q = [stale q, invalid q, substituted q, overridden q, out_of_service q, communication_failure q]"

lemma flag_view_set:
  "m < 6 \<Longrightarrow> flag_view (flags_set (push_bit m 1) b q) = (flag_view q)[m := b]"
  by (auto simp: flag_view_def flag_bits_getters bit_flags_set less_Suc_eq numeral_eq_Suc simp del: push_bit_of_1)

lemma flags_ok_iff: "flags_ok q \<longleftrightarrow> \<not> bit (flag_bits q) 6 \<and> \<not> bit (flag_bits q) 7"
proof -
  have "flags_ok q \<longleftrightarrow> (\<forall>n < 8. bit (flag_bits q) n \<longrightarrow> n < 6)"
    by (auto simp: flags_ok_def bit_eq_iff bit_simps mask6_u8)
  also have "\<dots> \<longleftrightarrow> \<not> bit (flag_bits q) 6 \<and> \<not> bit (flag_bits q) 7"
    by (auto simp: less_Suc_eq numeral_eq_Suc)
  finally show ?thesis .
qed

lemma flags_ok_set: "m < 6 \<Longrightarrow> flags_ok (flags_set (push_bit m 1) b q) = flags_ok q"
  by (simp add: flags_ok_iff bit_flags_set del: push_bit_of_1)

text \<open>The flag byte refines six independent booleans: each setter changes its own flag to the given
  value and leaves the other five as they were, no setter reaches a bit outside the six, and the
  empty set has every flag down.\<close>
lemma quality_flags_refine:
  "flag_view (with_stale b q) = (flag_view q)[0 := b] \<and>
   flag_view (with_invalid b q) = (flag_view q)[1 := b] \<and>
   flag_view (with_substituted b q) = (flag_view q)[2 := b] \<and>
   flag_view (with_overridden b q) = (flag_view q)[3 := b] \<and>
   flag_view (with_out_of_service b q) = (flag_view q)[4 := b] \<and>
   flag_view (with_communication_failure b q) = (flag_view q)[5 := b] \<and>
   flags_ok (with_stale b q) = flags_ok q \<and> flags_ok (with_invalid b q) = flags_ok q \<and>
   flags_ok (with_substituted b q) = flags_ok q \<and> flags_ok (with_overridden b q) = flags_ok q \<and>
   flags_ok (with_out_of_service b q) = flags_ok q \<and> flags_ok (with_communication_failure b q) = flags_ok q \<and>
   flag_view flags_none = replicate 6 False \<and> flags_ok flags_none"
proof -
  have "flag_view flags_none = replicate 6 False \<and> flags_ok flags_none"
    by (simp add: flag_view_def flag_bits_getters flags_none_def flags_ok_def numeral_eq_Suc)
  then show ?thesis
    unfolding with_defs flag_defs by (simp only: flag_view_set flags_ok_set)
qed

end
