(* ===== verification/Och_Observation.thy ===== *)
theory Och_Observation
  imports Och_Value Och_Time Och_Quality
begin

text \<open>
  Series metadata, exact observations and the deterministic raw order key
  (\<^verbatim>\<open>och-core/src/observation.rs\<close>).
\<close>

datatype CollectionMode = Sampled | ChangeOnly | Cumulative | Interval | Event

record SeriesMetadata =
  md_series_id :: SeriesId
  md_producer_id :: ProducerId
  md_collection_mode :: CollectionMode

record Observation =
  obs_id :: ObservationId
  obs_value :: ExactValue
  obs_times :: ObservationTimes
  obs_quality :: Quality
  obs_native_status :: NativeStatus
  obs_producer_position :: "ProducerPosition option"
  obs_interval :: "TimeInterval option"

datatype RawObservationOrderKey =
  RawObservationOrderKey (key_effective: Timestamp) (key_receive: Timestamp)
    (key_observation_id: ObservationId)

definition raw_order_key :: "Observation \<Rightarrow> RawObservationOrderKey" where
  "raw_order_key ob =
     RawObservationOrderKey (times_effective (obs_times ob)) (times_receive (obs_times ob)) (obs_id ob)"

instantiation RawObservationOrderKey :: linorder
begin

definition less_RawObservationOrderKey :: "RawObservationOrderKey \<Rightarrow> RawObservationOrderKey \<Rightarrow> bool" where
  "less_RawObservationOrderKey a b \<longleftrightarrow>
     key_effective a < key_effective b \<or> (key_effective a = key_effective b \<and>
       (key_receive a < key_receive b \<or> (key_receive a = key_receive b \<and>
          key_observation_id a < key_observation_id b)))"

definition less_eq_RawObservationOrderKey :: "RawObservationOrderKey \<Rightarrow> RawObservationOrderKey \<Rightarrow> bool" where
  "less_eq_RawObservationOrderKey a b \<longleftrightarrow>
     key_effective a < key_effective b \<or> (key_effective a = key_effective b \<and>
       (key_receive a < key_receive b \<or> (key_receive a = key_receive b \<and>
          key_observation_id a \<le> key_observation_id b)))"

instance
  by standard
    (auto simp: less_RawObservationOrderKey_def less_eq_RawObservationOrderKey_def
      intro: RawObservationOrderKey.expand)

end

definition metadata_ok :: "SeriesMetadata \<Rightarrow> bool" where
  "metadata_ok m \<longleftrightarrow> identity_ok (md_series_id m) \<and> identity_ok (md_producer_id m)"

definition observation_ok :: "Observation \<Rightarrow> bool" where
  "observation_ok ob \<longleftrightarrow> identity_ok (obs_id ob) \<and> exact_value_ok (obs_value ob) \<and>
     observation_times_ok (obs_times ob) \<and> flags_ok (quality_flags (obs_quality ob)) \<and>
     native_status_ok (obs_native_status ob) \<and> pred_option time_interval_ok (obs_interval ob)"

end
