(* ===== verification/Och_Collection.thy ===== *)
theory Och_Collection
  imports Och_Observation
begin

text \<open>
  Atomic bounded collection evidence and its cross-item validation
  (\<^verbatim>\<open>och-core/src/collection.rs\<close>).  The executable validator is proved equivalent to the
  declarative predicate \<open>observed_spec\<close>; the merge loop that places observations outside gaps
  is proved equivalent to the quadratic definition.
\<close>

definition MAX_OBSERVATIONS :: nat where "MAX_OBSERVATIONS = 256"
definition MAX_GAPS :: nat where "MAX_GAPS = 64"

datatype GapReason = GapUnknown | GapProducerRestart | GapBufferOverflow | GapCommunicationFailure
  | GapSourceDataLoss | GapAdministrativeExclusion

record Gap =
  gap_epoch :: ProducerEpoch
  gap_start :: ProducerSequence
  gap_end :: ProducerSequence
  gap_reason :: GapReason

definition gap_new ::
  "ProducerEpoch \<Rightarrow> ProducerSequence \<Rightarrow> ProducerSequence \<Rightarrow> GapReason \<Rightarrow> (ModelError, Gap) result" where
  "gap_new ep start stop reason =
     (if start \<ge> stop then Inl EmptyGap
      else Inr \<lparr>gap_epoch = ep, gap_start = start, gap_end = stop, gap_reason = reason\<rparr>)"

definition gap_contains :: "Gap \<Rightarrow> ProducerEpoch \<Rightarrow> ProducerSequence \<Rightarrow> bool" where
  "gap_contains g ep sq \<longleftrightarrow> gap_epoch g = ep \<and> gap_start g \<le> sq \<and> sq < gap_end g"

record NoChange =
  no_change_interval :: TimeInterval

datatype EvidenceKind = EvidenceObserved | EvidenceNoChange

datatype Evidence =
    ObservedEvidence (evidence_observations: "Observation list") (evidence_gaps: "Gap list")
  | NoChangeEvidence NoChange

record CollectionEnvelope =
  env_series :: SeriesMetadata
  env_evidence :: Evidence

section \<open>Validation\<close>

text \<open>\<open>slice::windows(2)\<close>.\<close>

fun windows2 :: "'a list \<Rightarrow> ('a \<times> 'a) list" where
  "windows2 (x # y # xs) = (x, y) # windows2 (y # xs)"
| "windows2 _ = []"

fun validate_items ::
  "CollectionMode \<Rightarrow> ObservationId set \<Rightarrow> Observation list \<Rightarrow> (ModelError, unit) result" where
  "validate_items mode identities [] = Inr ()"
| "validate_items mode identities (ob # obs) =
     and_then
       (case (mode, obs_interval ob) of
          (Interval, None) \<Rightarrow> Inl MissingObservationInterval
        | (Interval, Some _) \<Rightarrow> Inr ()
        | (_, None) \<Rightarrow> Inr ()
        | (_, Some _) \<Rightarrow> Inl UnexpectedObservationInterval)
       (\<lambda>_. if obs_id ob \<in> identities then Inl DuplicateObservationId
            else validate_items mode (insert (obs_id ob) identities) obs)"

definition has_position :: "Observation \<Rightarrow> bool" where
  "has_position ob \<longleftrightarrow> obs_producer_position ob \<noteq> None"

fun validate_positions :: "(Observation \<times> Observation) list \<Rightarrow> (ModelError, unit) result" where
  "validate_positions [] = Inr ()"
| "validate_positions ((a, b) # pairs) =
     (case (obs_producer_position a, obs_producer_position b) of
        (Some previous, Some current) \<Rightarrow>
          if previous \<ge> current then Inl MisorderedProducerPositions else validate_positions pairs
      | _ \<Rightarrow> Inl MixedProducerPositions)"

fun validate_gap_order :: "(Gap \<times> Gap) list \<Rightarrow> (ModelError, unit) result" where
  "validate_gap_order [] = Inr ()"
| "validate_gap_order ((previous, current) # pairs) =
     (if gap_epoch current < gap_epoch previous
         \<or> (gap_epoch current = gap_epoch previous \<and> gap_start current < gap_start previous)
      then Inl MisorderedGaps
      else if gap_epoch current = gap_epoch previous \<and> gap_start current < gap_end previous
      then Inl OverlappingGaps
      else validate_gap_order pairs)"

text \<open>The \<open>while let\<close> that moves the gap cursor past every gap lying before the position.\<close>

definition gap_behind :: "Gap \<Rightarrow> ProducerPosition \<Rightarrow> bool" where
  "gap_behind g p \<longleftrightarrow>
     gap_epoch g < epoch p \<or> (gap_epoch g = epoch p \<and> gap_end g \<le> sequence p)"

function advance_gap :: "Gap list \<Rightarrow> nat \<Rightarrow> ProducerPosition \<Rightarrow> nat" where
  "advance_gap gaps i p =
     (if i < length gaps \<and> gap_behind (gaps ! i) p then advance_gap gaps (i + 1) p else i)"
  by pat_completeness auto
termination
  by (relation "measure (\<lambda>(gaps, i, p). length gaps - i)") auto

declare advance_gap.simps [simp del]

fun outside_gaps_loop :: "Gap list \<Rightarrow> nat \<Rightarrow> Observation list \<Rightarrow> (ModelError, unit) result" where
  "outside_gaps_loop gaps gap_index [] = Inr ()"
| "outside_gaps_loop gaps gap_index (ob # obs) =
     (case obs_producer_position ob of
        None \<Rightarrow> Inl MixedProducerPositions
      | Some p \<Rightarrow>
          (let i = advance_gap gaps gap_index p in
           if i < length gaps \<and> gap_contains (gaps ! i) (epoch p) (sequence p)
           then Inl ObservationInsideGap
           else outside_gaps_loop gaps i obs))"

definition validate_observations_outside_gaps ::
  "Observation list \<Rightarrow> Gap list \<Rightarrow> (ModelError, unit) result" where
  "validate_observations_outside_gaps obs gaps = outside_gaps_loop gaps 0 obs"

definition validate_observed ::
  "CollectionMode \<Rightarrow> Observation list \<Rightarrow> Gap list \<Rightarrow> (ModelError, unit) result" where
  "validate_observed mode obs gaps =
     (if length obs > MAX_OBSERVATIONS then Inl TooManyObservations
      else if length gaps > MAX_GAPS then Inl TooManyGaps
      else if obs = [] \<and> gaps = [] then Inl EmptyObservedEvidence
      else and_then (validate_items mode {} obs) (\<lambda>_.
        let first_position_presence = (case obs of [] \<Rightarrow> None | ob # _ \<Rightarrow> Some (has_position ob)) in
        if is_some_and (\<lambda>presence. list_ex (\<lambda>ob. has_position ob \<noteq> presence) obs) first_position_presence
        then Inl MixedProducerPositions
        else and_then
          (if first_position_presence = Some True then validate_positions (windows2 obs) else Inr ())
          (\<lambda>_. and_then (validate_gap_order (windows2 gaps)) (\<lambda>_.
             if first_position_presence = Some True
             then validate_observations_outside_gaps obs gaps else Inr ()))))"

definition envelope_observed ::
  "SeriesMetadata \<Rightarrow> Observation list \<Rightarrow> Gap list \<Rightarrow> (ModelError, CollectionEnvelope) result" where
  "envelope_observed series obs gaps =
     and_then (validate_observed (md_collection_mode series) obs gaps) (\<lambda>_.
       Inr \<lparr>env_series = series, env_evidence = ObservedEvidence obs gaps\<rparr>)"

definition envelope_no_change ::
  "SeriesMetadata \<Rightarrow> NoChange \<Rightarrow> (ModelError, CollectionEnvelope) result" where
  "envelope_no_change series nc =
     (if md_collection_mode series \<noteq> ChangeOnly then Inl InvalidNoChangeMode
      else Inr \<lparr>env_series = series, env_evidence = NoChangeEvidence nc\<rparr>)"

definition env_evidence_kind :: "CollectionEnvelope \<Rightarrow> EvidenceKind" where
  "env_evidence_kind e = (case env_evidence e of
     ObservedEvidence _ _ \<Rightarrow> EvidenceObserved | NoChangeEvidence _ \<Rightarrow> EvidenceNoChange)"

definition env_observations :: "CollectionEnvelope \<Rightarrow> Observation list" where
  "env_observations e = (case env_evidence e of
     ObservedEvidence obs _ \<Rightarrow> obs | NoChangeEvidence _ \<Rightarrow> [])"

definition env_gaps :: "CollectionEnvelope \<Rightarrow> Gap list" where
  "env_gaps e = (case env_evidence e of
     ObservedEvidence _ gaps \<Rightarrow> gaps | NoChangeEvidence _ \<Rightarrow> [])"

definition env_no_change :: "CollectionEnvelope \<Rightarrow> NoChange option" where
  "env_no_change e = (case env_evidence e of
     ObservedEvidence _ _ \<Rightarrow> None | NoChangeEvidence nc \<Rightarrow> Some nc)"

section \<open>The declarative contract\<close>

definition gap_ok :: "Gap \<Rightarrow> bool" where
  "gap_ok g \<longleftrightarrow> gap_start g < gap_end g"

definition gap_before :: "Gap \<Rightarrow> Gap \<Rightarrow> bool" where
  "gap_before g h \<longleftrightarrow>
     gap_epoch g < gap_epoch h \<or> (gap_epoch g = gap_epoch h \<and> gap_end g \<le> gap_start h)"

definition positions_increasing :: "Observation list \<Rightarrow> bool" where
  "positions_increasing obs \<longleftrightarrow>
     sorted_wrt (\<lambda>a b. the (obs_producer_position a) < the (obs_producer_position b)) obs"

definition outside_gaps :: "Observation list \<Rightarrow> Gap list \<Rightarrow> bool" where
  "outside_gaps obs gaps \<longleftrightarrow>
     (\<forall>ob \<in> set obs. \<forall>p. obs_producer_position ob = Some p \<longrightarrow>
        (\<forall>g \<in> set gaps. \<not> gap_contains g (epoch p) (sequence p)))"

definition observed_spec :: "CollectionMode \<Rightarrow> Observation list \<Rightarrow> Gap list \<Rightarrow> bool" where
  "observed_spec mode obs gaps \<longleftrightarrow>
     length obs \<le> MAX_OBSERVATIONS \<and> length gaps \<le> MAX_GAPS \<and> \<not> (obs = [] \<and> gaps = []) \<and>
     (\<forall>ob \<in> set obs. (obs_interval ob \<noteq> None) = (mode = Interval)) \<and>
     distinct (map obs_id obs) \<and>
     ((\<forall>ob \<in> set obs. has_position ob) \<and> positions_increasing obs \<or>
      (\<forall>ob \<in> set obs. \<not> has_position ob)) \<and>
     sorted_wrt gap_before gaps \<and> outside_gaps obs gaps"

section \<open>The validator decides the contract\<close>

lemma gap_new_iff:
  "gap_new e a b r = Inr g \<longleftrightarrow>
   gap_epoch g = e \<and> gap_start g = a \<and> gap_end g = b \<and> gap_reason g = r \<and> gap_ok g"
  by (cases g) (auto simp: gap_new_def gap_ok_def)

lemma gap_before_trans:
  "gap_ok h \<Longrightarrow> gap_before g h \<Longrightarrow> gap_before h k \<Longrightarrow> gap_before g k"
  by (auto simp: gap_before_def gap_ok_def)

lemma successively_windows2: "successively P xs \<longleftrightarrow> list_all (\<lambda>(a, b). P a b) (windows2 xs)"
  by (induction xs rule: windows2.induct) auto

lemma sorted_wrt_windows2:
  assumes "\<And>x y z. y \<in> set xs \<Longrightarrow> P x y \<Longrightarrow> P y z \<Longrightarrow> P x z"
  shows "sorted_wrt P xs \<longleftrightarrow> list_all (\<lambda>(a, b). P a b) (windows2 xs)"
  using assms
proof (induction xs rule: windows2.induct)
  case (1 x y xs)
  then have IH: "sorted_wrt P (y # xs) \<longleftrightarrow> list_all (\<lambda>(a, b). P a b) (windows2 (y # xs))"
    by (meson list.set_intros(2))
  show ?case
    using IH "1.prems" [of y x] by (auto simp: list_all_iff)
qed simp_all

lemma validate_items_iff:
  "validate_items mode S obs = Inr () \<longleftrightarrow>
   (\<forall>ob \<in> set obs. (obs_interval ob \<noteq> None) = (mode = Interval)) \<and> distinct (map obs_id obs) \<and>
   S \<inter> obs_id ` set obs = {}"
proof (induction obs arbitrary: S)
  case Nil
  then show ?case by simp
next
  case (Cons ob obs)
  then show ?case
    by (cases mode; cases "obs_interval ob") auto
qed

lemma validate_positions_iff:
  "\<forall>(a, b) \<in> set ps. has_position a \<and> has_position b \<Longrightarrow>
   validate_positions ps = Inr () \<longleftrightarrow>
   list_all (\<lambda>(a, b). the (obs_producer_position a) < the (obs_producer_position b)) ps"
  by (induction ps rule: validate_positions.induct)
     (auto simp: has_position_def not_le split: option.splits)

lemma set_windows2: "(a, b) \<in> set (windows2 xs) \<Longrightarrow> a \<in> set xs \<and> b \<in> set xs"
  by (induction xs rule: windows2.induct) auto

lemma validate_positions_windows2:
  assumes "\<forall>ob \<in> set obs. has_position ob"
  shows "validate_positions (windows2 obs) = Inr () \<longleftrightarrow> positions_increasing obs"
  unfolding positions_increasing_def
  by (subst sorted_wrt_windows2)
     (auto intro!: validate_positions_iff dest: set_windows2 simp: assms)

lemma validate_gap_order_iff:
  "\<forall>(a, b) \<in> set ps. gap_ok a \<and> gap_ok b \<Longrightarrow>
   validate_gap_order ps = Inr () \<longleftrightarrow> list_all (\<lambda>(a, b). gap_before a b) ps"
  by (induction ps rule: validate_gap_order.induct)
     (auto simp: gap_before_def gap_ok_def not_less)

lemma validate_gap_order_windows2:
  assumes "list_all gap_ok gaps"
  shows "validate_gap_order (windows2 gaps) = Inr () \<longleftrightarrow> sorted_wrt gap_before gaps"
proof -
  have "sorted_wrt gap_before gaps \<longleftrightarrow> list_all (\<lambda>(a, b). gap_before a b) (windows2 gaps)"
    using assms by (intro sorted_wrt_windows2) (auto simp: list_all_iff intro: gap_before_trans)
  with assms validate_gap_order_iff [of "windows2 gaps"] show ?thesis
    by (auto simp: list_all_iff dest: set_windows2)
qed

section \<open>The merge loop equals the quadratic check\<close>

lemma advance_gap_spec:
  "i \<le> length gaps \<Longrightarrow> \<forall>j < i. gap_behind (gaps ! j) p \<Longrightarrow>
   (let k = advance_gap gaps i p in i \<le> k \<and> k \<le> length gaps \<and> (\<forall>j < k. gap_behind (gaps ! j) p) \<and>
      (k < length gaps \<longrightarrow> \<not> gap_behind (gaps ! k) p))"
proof (induction gaps i p rule: advance_gap.induct)
  case (1 gaps i p)
  show ?case
  proof (cases "i < length gaps \<and> gap_behind (gaps ! i) p")
    case True
    with 1 have "let k = advance_gap gaps (i + 1) p in i + 1 \<le> k \<and> k \<le> length gaps \<and>
        (\<forall>j < k. gap_behind (gaps ! j) p) \<and> (k < length gaps \<longrightarrow> \<not> gap_behind (gaps ! k) p)"
      by (auto simp: less_Suc_eq)
    with True show ?thesis by (auto simp: advance_gap.simps [of gaps i] Let_def)
  next
    case False
    with "1.prems" show ?thesis by (auto simp: advance_gap.simps [of gaps i] Let_def)
  qed
qed

lemma gap_behind_mono: "gap_behind g p \<Longrightarrow> p \<le> q \<Longrightarrow> gap_behind g q"
  by (auto simp: gap_behind_def less_eq_ProducerPosition_def)

lemma gap_behind_not_contains: "gap_behind g p \<Longrightarrow> \<not> gap_contains g (epoch p) (sequence p)"
  by (auto simp: gap_behind_def gap_contains_def)

lemma gap_ahead_not_contains:
  "\<not> gap_behind g p \<Longrightarrow> \<not> gap_contains g (epoch p) (sequence p) \<Longrightarrow> gap_before g h \<Longrightarrow> gap_ok g \<Longrightarrow>
   \<not> gap_contains h (epoch p) (sequence p)"
  unfolding gap_behind_def gap_contains_def gap_before_def gap_ok_def
  by (metis leD le_less_linear less_asym less_le_trans)

lemma only_cursor_gap_can_contain:
  assumes sorted: "sorted_wrt gap_before gaps" and ok: "list_all gap_ok gaps"
    and k: "k \<le> length gaps" "\<forall>j < k. gap_behind (gaps ! j) p"
    "k < length gaps \<longrightarrow> \<not> gap_behind (gaps ! k) p"
  shows "(\<exists>g \<in> set gaps. gap_contains g (epoch p) (sequence p)) \<longleftrightarrow>
     k < length gaps \<and> gap_contains (gaps ! k) (epoch p) (sequence p)"
proof -
  have unique: "j = k" if j: "j < length gaps" and c: "gap_contains (gaps ! j) (epoch p) (sequence p)" for j
  proof (rule ccontr)
    assume "j \<noteq> k"
    then consider "j < k" | "k < j" by linarith
    then show False
    proof cases
      case 1
      with k c show False by (auto dest: gap_behind_not_contains)
    next
      case 2
      with sorted j have before: "gap_before (gaps ! k) (gaps ! j)" by (simp add: sorted_wrt_iff_nth_less)
      have nb: "\<not> gap_behind (gaps ! k) p" and gk: "gap_ok (gaps ! k)"
        using 2 j k ok by (auto simp: list_all_length)
      show False
      proof (cases "gap_contains (gaps ! k) (epoch p) (sequence p)")
        case True
        with before c show False by (auto simp: gap_contains_def gap_before_def)
      next
        case False
        with gap_ahead_not_contains [OF nb _ before gk] c show False by blast
      qed
    qed
  qed
  show ?thesis
  proof
    assume "\<exists>g \<in> set gaps. gap_contains g (epoch p) (sequence p)"
    then obtain j where "j < length gaps" "gap_contains (gaps ! j) (epoch p) (sequence p)"
      by (metis in_set_conv_nth)
    with unique show "k < length gaps \<and> gap_contains (gaps ! k) (epoch p) (sequence p)" by blast
  next
    assume "k < length gaps \<and> gap_contains (gaps ! k) (epoch p) (sequence p)"
    then show "\<exists>g \<in> set gaps. gap_contains g (epoch p) (sequence p)" by (blast intro: nth_mem)
  qed
qed

lemma outside_gaps_loop_iff:
  assumes "sorted_wrt gap_before gaps" "list_all gap_ok gaps"
  shows "i \<le> length gaps \<Longrightarrow> \<forall>ob \<in> set obs. has_position ob \<Longrightarrow> positions_increasing obs \<Longrightarrow>
    (\<forall>j < i. \<forall>ob \<in> set obs. gap_behind (gaps ! j) (the (obs_producer_position ob))) \<Longrightarrow>
    outside_gaps_loop gaps i obs = Inr () \<longleftrightarrow> outside_gaps obs gaps"
proof (induction obs arbitrary: i)
  case Nil
  then show ?case by (simp add: outside_gaps_def)
next
  case (Cons ob obs)
  from Cons.prems obtain p where p: "obs_producer_position ob = Some p"
    by (auto simp: has_position_def)
  define k where "k = advance_gap gaps i p"
  have k: "k \<le> length gaps" "\<forall>j < k. gap_behind (gaps ! j) p"
    "k < length gaps \<longrightarrow> \<not> gap_behind (gaps ! k) p"
    using advance_gap_spec [of i gaps p] Cons.prems p by (auto simp: k_def Let_def)
  have later: "p \<le> the (obs_producer_position x)" if "x \<in> set obs" for x
    using Cons.prems(3) that p by (auto simp: positions_increasing_def)
  have IH: "outside_gaps_loop gaps k obs = Inr () \<longleftrightarrow> outside_gaps obs gaps"
    using Cons.prems k later
    by (intro Cons.IH) (auto simp: positions_increasing_def intro: gap_behind_mono)
  show ?case
    using only_cursor_gap_can_contain [OF assms k] IH p
    by (auto simp: outside_gaps_def Let_def simp flip: k_def)
qed

lemma validate_outside_gaps_iff:
  assumes "sorted_wrt gap_before gaps" "list_all gap_ok gaps"
    and "\<forall>ob \<in> set obs. has_position ob" "positions_increasing obs"
  shows "validate_observations_outside_gaps obs gaps = Inr () \<longleftrightarrow> outside_gaps obs gaps"
  unfolding validate_observations_outside_gaps_def
  using outside_gaps_loop_iff [OF assms(1,2)] assms(3,4) by simp

lemma presence_none_outside: "\<forall>ob \<in> set obs. \<not> has_position ob \<Longrightarrow> outside_gaps obs gaps"
  by (auto simp: outside_gaps_def has_position_def)

lemma validate_observed_iff:
  assumes ok: "list_all gap_ok gaps"
  shows "validate_observed mode obs gaps = Inr () \<longleftrightarrow> observed_spec mode obs gaps"
proof (cases obs)
  case Nil
  then show ?thesis
    by (auto simp: validate_observed_def observed_spec_def result_convs validate_gap_order_windows2 [OF ok]
        outside_gaps_def positions_increasing_def Let_def)
next
  case (Cons ob rest)
  show ?thesis
  proof (cases "has_position ob")
    case True
    have "validate_observed mode obs gaps = Inr () \<longleftrightarrow>
      length obs \<le> MAX_OBSERVATIONS \<and> length gaps \<le> MAX_GAPS \<and> validate_items mode {} obs = Inr () \<and>
      (\<forall>ob \<in> set obs. has_position ob) \<and> validate_positions (windows2 obs) = Inr () \<and>
      sorted_wrt gap_before gaps \<and> validate_observations_outside_gaps obs gaps = Inr ()"
      using Cons True by (auto simp: validate_observed_def result_convs list_ex_iff Let_def
          validate_gap_order_windows2 [OF ok])
    moreover have "obs \<noteq> []" "\<not> (\<forall>ob \<in> set obs. \<not> has_position ob)"
      using Cons True by auto
    ultimately show ?thesis
      using validate_outside_gaps_iff [OF _ ok, of obs] validate_positions_windows2 [of obs]
      unfolding observed_spec_def validate_items_iff by blast
  next
    case False
    have "validate_observed mode obs gaps = Inr () \<longleftrightarrow>
      length obs \<le> MAX_OBSERVATIONS \<and> length gaps \<le> MAX_GAPS \<and> validate_items mode {} obs = Inr () \<and>
      (\<forall>ob \<in> set obs. \<not> has_position ob) \<and> sorted_wrt gap_before gaps"
      using Cons False by (auto simp: validate_observed_def result_convs list_ex_iff Let_def
          validate_gap_order_windows2 [OF ok] simp del: validate_items.simps)
    moreover have "obs \<noteq> []" "\<not> (\<forall>ob \<in> set obs. has_position ob)"
      using Cons False by auto
    ultimately show ?thesis
      using presence_none_outside [of obs gaps] unfolding observed_spec_def validate_items_iff by blast
  qed
qed

section \<open>Properties\<close>

text \<open>(C20) The collection validator decides its declarative contract: bounded and nonempty evidence, an
  interval on every observation exactly in interval mode, distinct observation identities, producer
  positions on all observations in strictly increasing order or on none, ordered disjoint gaps, and
  no positioned observation inside any gap.\<close>
theorem observed_validation_exact:
  "list_all gap_ok gaps \<Longrightarrow> validate_observed mode obs gaps = Inr () \<longleftrightarrow> observed_spec mode obs gaps"
  by (rule validate_observed_iff)

text \<open>Witness: two adjacent gaps are accepted, one inside the other is not.\<close>

definition witness_gap :: "u128 \<Rightarrow> u128 \<Rightarrow> Gap" where
  "witness_gap a b = \<lparr>gap_epoch = ProducerNumber 1, gap_start = ProducerNumber a, gap_end = ProducerNumber b,
     gap_reason = GapUnknown\<rparr>"

theorem observed_validation_witness:
  "observed_spec Sampled [] [witness_gap 1 3, witness_gap 3 5] \<and>
   \<not> observed_spec Sampled [] [witness_gap 1 9, witness_gap 3 5]"
proof -
  have ok: "list_all gap_ok [witness_gap 1 3, witness_gap 3 5]" "list_all gap_ok [witness_gap 1 9, witness_gap 3 5]"
    by (simp_all add: gap_ok_def witness_gap_def less_producer_number_def)
  have "validate_observed Sampled [] [witness_gap 1 3, witness_gap 3 5] = Inr ()"
    "validate_observed Sampled [] [witness_gap 1 9, witness_gap 3 5] = Inl OverlappingGaps"
    by code_simp+
  then show ?thesis
    using observed_validation_exact [OF ok(1), of Sampled "[]"] observed_validation_exact [OF ok(2), of Sampled "[]"]
    by simp
qed

end
