(* ===== verification/Och_BTreeMap.thy ===== *)
theory Och_BTreeMap
  imports Och_Prelude
begin

text \<open>
  The ordered-map interface that \<open>std::collections::BTreeMap\<close> provides to the repository, as a
  locale, and its interpretation on the sorted association lists the model uses.  Iteration
  order is ascending key order.
\<close>

locale ordered_map =
  fixes empty :: "'m"
    and get :: "'m \<Rightarrow> 'k::linorder \<Rightarrow> 'v option"
    and insert_map :: "'k \<Rightarrow> 'v \<Rightarrow> 'm \<Rightarrow> 'm"
    and len :: "'m \<Rightarrow> nat"
    and keys :: "'m \<Rightarrow> 'k list"
    and vals :: "'m \<Rightarrow> 'v list"
    and invar :: "'m \<Rightarrow> bool"
  assumes invar_empty: "invar empty"
    and get_empty: "get empty k = None"
    and len_empty: "len empty = 0"
    and vals_empty: "vals empty = []"
    and invar_insert: "invar m \<Longrightarrow> invar (insert_map k v m)"
    and get_insert: "invar m \<Longrightarrow> get (insert_map k v m) k' = (if k' = k then Some v else get m k')"
    and len_insert: "invar m \<Longrightarrow> len (insert_map k v m) = (if get m k = None then len m + 1 else len m)"
    and keys_sorted: "invar m \<Longrightarrow> sorted (keys m) \<and> distinct (keys m)"
    and keys_dom: "invar m \<Longrightarrow> set (keys m) = dom (get m)"
    and vals_total: "invar m \<Longrightarrow>
      sum_list (map f (vals (insert_map k v m))) + (case get m k of None \<Rightarrow> 0 | Some w \<Rightarrow> f w) =
      sum_list (map f (vals m)) + (f v :: nat)"
begin

lemma all_insert:
  "invar m \<Longrightarrow> (\<And>k v. get m k = Some v \<Longrightarrow> P k v) \<Longrightarrow> P k v \<Longrightarrow>
   get (insert_map k v m) k' = Some v' \<Longrightarrow> P k' v'"
  by (auto simp: get_insert split: if_splits)

lemma total_fresh:
  "invar m \<Longrightarrow> get m k = None \<Longrightarrow>
   sum_list (map f (vals (insert_map k v m))) = sum_list (map f (vals m)) + (f v :: nat)"
  using vals_total [of m f k v] by simp

lemma total_replace:
  "invar m \<Longrightarrow> get m k = Some w \<Longrightarrow> f v = f w + (d::nat) \<Longrightarrow>
   sum_list (map f (vals (insert_map k v m))) = sum_list (map f (vals m)) + d"
  using vals_total [of m f k v] by simp

lemma get_Some_key: "invar m \<Longrightarrow> get m k = Some v \<Longrightarrow> k \<in> set (keys m)"
  using keys_dom by auto

end

section \<open>Sorted association lists\<close>

type_synonym ('k, 'v) btree_map = "('k \<times> 'v) list"

definition bt_get :: "('k, 'v) btree_map \<Rightarrow> 'k \<Rightarrow> 'v option" where
  "bt_get m k = map_of m k"

fun bt_insert :: "'k::linorder \<Rightarrow> 'v \<Rightarrow> ('k, 'v) btree_map \<Rightarrow> ('k, 'v) btree_map" where
  "bt_insert k v [] = [(k, v)]"
| "bt_insert k v ((j, w) # m) =
     (if k < j then (k, v) # (j, w) # m
      else if k = j then (k, v) # m
      else (j, w) # bt_insert k v m)"

definition bt_len :: "('k, 'v) btree_map \<Rightarrow> nat" where "bt_len m = length m"
definition bt_keys :: "('k, 'v) btree_map \<Rightarrow> 'k list" where "bt_keys m = map fst m"
definition bt_values :: "('k, 'v) btree_map \<Rightarrow> 'v list" where "bt_values m = map snd m"
definition bt_ok :: "('k::linorder, 'v) btree_map \<Rightarrow> bool" where
  "bt_ok m \<longleftrightarrow> sorted_wrt (<) (map fst m)"

lemma bt_insert_keys: "fst ` set (bt_insert k v m) = insert k (fst ` set m)"
  by (induction k v m rule: bt_insert.induct) auto

lemma bt_get_insert: "bt_get (bt_insert k v m) k' = (if k' = k then Some v else bt_get m k')"
  by (induction k v m rule: bt_insert.induct) (auto simp: bt_get_def)

lemma bt_ok_insert: "bt_ok m \<Longrightarrow> bt_ok (bt_insert k v m)"
proof (induction k v m rule: bt_insert.induct)
  case (2 k v j w m)
  then show ?case
    using bt_insert_keys [of k v m] by (auto simp: bt_ok_def)
qed (simp add: bt_ok_def)

lemma bt_get_below: "bt_ok ((j, w) # m) \<Longrightarrow> k < j \<Longrightarrow> bt_get ((j, w) # m) k = None"
  by (auto simp: bt_ok_def bt_get_def map_of_eq_None_iff)

lemma bt_len_insert:
  "bt_ok m \<Longrightarrow> bt_len (bt_insert k v m) = (if bt_get m k = None then bt_len m + 1 else bt_len m)"
proof (induction k v m rule: bt_insert.induct)
  case (2 k v j w m)
  then show ?case
    using bt_get_below [of j w m k] by (auto simp: bt_ok_def bt_len_def bt_get_def)
qed (simp add: bt_len_def bt_get_def)

lemma bt_total_insert:
  "bt_ok m \<Longrightarrow>
   sum_list (map f (bt_values (bt_insert k v m))) + (case bt_get m k of None \<Rightarrow> 0 | Some w \<Rightarrow> f w) =
   sum_list (map f (bt_values m)) + (f v :: nat)"
proof (induction k v m rule: bt_insert.induct)
  case (2 k v j w m)
  then show ?case
    using bt_get_below [of j w m k]
    by (auto simp: bt_ok_def bt_values_def bt_get_def split: option.splits)
qed (simp add: bt_values_def bt_get_def)

interpretation bt: ordered_map "[]" bt_get bt_insert bt_len bt_keys bt_values bt_ok
proof unfold_locales
  fix m :: "('k::linorder, 'v) btree_map" and k :: 'k and k' :: 'k and v :: 'v and f :: "'v \<Rightarrow> nat"
  show "bt_ok ([] :: ('k, 'v) btree_map)" by (simp add: bt_ok_def)
  show "bt_get ([] :: ('k, 'v) btree_map) k = None" by (simp add: bt_get_def)
  show "bt_len ([] :: ('k, 'v) btree_map) = 0" by (simp add: bt_len_def)
  show "bt_values ([] :: ('k, 'v) btree_map) = []" by (simp add: bt_values_def)
  assume ok: "bt_ok m"
  then show "bt_ok (bt_insert k v m)" by (rule bt_ok_insert)
  show "bt_get (bt_insert k v m) k' = (if k' = k then Some v else bt_get m k')"
    by (rule bt_get_insert)
  show "bt_len (bt_insert k v m) = (if bt_get m k = None then bt_len m + 1 else bt_len m)"
    using ok by (rule bt_len_insert)
  show "sorted (bt_keys m) \<and> distinct (bt_keys m)"
    using ok by (simp add: bt_ok_def bt_keys_def strict_sorted_iff)
  show "set (bt_keys m) = dom (bt_get m)"
    using dom_map_of_conv_image_fst [of m] by (simp add: bt_keys_def bt_get_def dom_def)
  show "sum_list (map f (bt_values (bt_insert k v m))) +
      (case bt_get m k of None \<Rightarrow> 0 | Some w \<Rightarrow> f w) = sum_list (map f (bt_values m)) + f v"
    using ok by (rule bt_total_insert)
qed

end
