(* ===== verification/Och_Series.thy ===== *)
theory Och_Series
  imports Och_Collection Och_BTreeMap
begin

text \<open>
  Series declarations, revisions, retirement and envelope binding
  (\<^verbatim>\<open>och-core/src/series.rs\<close>).  The registry is a record; each mutating operation takes the
  registry and returns its result together with the next registry, on every branch.
\<close>

section \<open>Declaration data\<close>

definition MAX_DECLARATION_REFERENCE_SCALARS :: nat where
  "MAX_DECLARATION_REFERENCE_SCALARS = 1024"

datatype DeclarationReference = DeclarationReference (reference_str: rust_string)

text \<open>The scan over the first 1,025 scalars: the running count and validity.\<close>

fun scan_reference :: "nat \<Rightarrow> bool \<Rightarrow> nat list \<Rightarrow> nat \<times> bool" where
  "scan_reference scalar_count valid [] = (scalar_count, valid)"
| "scan_reference scalar_count valid (c # cs) =
     scan_reference (scalar_count + 1) (valid \<and> \<not> is_control c) cs"

definition declaration_reference_new ::
  "rust_string \<Rightarrow> (ModelError, DeclarationReference) result" where
  "declaration_reference_new value =
     (let (scalar_count, valid) = scan_reference 0 (value \<noteq> [])
            (take (MAX_DECLARATION_REFERENCE_SCALARS + 1) (str_chars value));
          valid' = (valid \<and> scalar_count \<le> MAX_DECLARATION_REFERENCE_SCALARS)
      in if \<not> valid' then Inl InvalidDeclarationReference else Inr (DeclarationReference value))"

datatype SourceProjection = SourceProjection (projection_reference: DeclarationReference)

definition source_projection_new :: "rust_string \<Rightarrow> (ModelError, SourceProjection) result" where
  "source_projection_new value = map_ok SourceProjection (declaration_reference_new value)"

record SourceReference =
  src_provider :: DeclarationReference
  src_projection :: "SourceProjection option"
  src_locator :: DeclarationReference

definition source_reference_new ::
  "DeclarationReference \<Rightarrow> DeclarationReference \<Rightarrow> SourceReference" where
  "source_reference_new provider locator =
     \<lparr>src_provider = provider, src_projection = None, src_locator = locator\<rparr>"

definition source_reference_with_projection ::
  "DeclarationReference \<Rightarrow> SourceProjection \<Rightarrow> DeclarationReference \<Rightarrow> SourceReference" where
  "source_reference_with_projection provider projection locator =
     \<lparr>src_provider = provider, src_projection = Some projection, src_locator = locator\<rparr>"

record SeriesBinding =
  binding_source :: SourceReference

datatype ValueFamily = FamilyReal | FamilySigned | FamilyUnsigned | FamilyBoolean | FamilyState
  | FamilyText | FamilyArtifact

definition admits :: "ValueFamily \<Rightarrow> ExactValue \<Rightarrow> bool" where
  "admits family v =
     (case v of UnavailableValue _ \<Rightarrow> True
      | Real _ \<Rightarrow> family = FamilyReal
      | Signed _ \<Rightarrow> family = FamilySigned
      | Unsigned _ \<Rightarrow> family = FamilyUnsigned
      | Boolean _ \<Rightarrow> family = FamilyBoolean
      | State _ \<Rightarrow> family = FamilyState
      | Text _ \<Rightarrow> family = FamilyText
      | Artifact _ \<Rightarrow> family = FamilyArtifact)"

datatype QuantityEvidence = QuantityAbsent | QuantityResolved DeclarationReference
  | QuantityUnresolved DeclarationReference

datatype UnitEvidence = UnitAbsent | UnitResolved DeclarationReference
  | UnitUnresolved DeclarationReference

record SeriesDeclarationPayload =
  pl_producer_id :: ProducerId
  pl_collection_mode :: CollectionMode
  pl_value_family :: ValueFamily
  pl_quantity :: QuantityEvidence
  pl_unit :: UnitEvidence
  pl_application :: "DeclarationReference option"

definition payload_series_metadata :: "SeriesDeclarationPayload \<Rightarrow> SeriesId \<Rightarrow> SeriesMetadata" where
  "payload_series_metadata payload series_id =
     \<lparr>md_series_id = series_id, md_producer_id = pl_producer_id payload,
      md_collection_mode = pl_collection_mode payload\<rparr>"

record DeclarationEvidence =
  de_effective_at :: Timestamp
  de_artifact :: "ArtifactReference option"

datatype DeclarationRevision = DeclarationRevision (revision_get: u128)

definition REVISION_FIRST :: DeclarationRevision where
  "REVISION_FIRST = DeclarationRevision 1"

definition declaration_revision_new :: "u128 \<Rightarrow> (ModelError, DeclarationRevision) result" where
  "declaration_revision_new value =
     (if value = 0 then Inl InvalidDeclarationRevision else Inr (DeclarationRevision value))"

definition revision_next :: "DeclarationRevision \<Rightarrow> DeclarationRevision" where
  "revision_next r = DeclarationRevision (revision_get r + 1)"

record SeriesDeclaration =
  decl_store_id :: StoreId
  decl_series_id :: SeriesId
  decl_revision :: DeclarationRevision
  decl_previous_revision :: "DeclarationRevision option"
  decl_binding :: SeriesBinding
  decl_payload :: SeriesDeclarationPayload
  decl_evidence :: DeclarationEvidence

record SeriesRetirement =
  ret_declaration_revision :: DeclarationRevision
  ret_evidence :: DeclarationEvidence

datatype SeriesLifecycle = Active | Retired

record SeriesHistory =
  hist_series_id :: SeriesId
  hist_binding :: SeriesBinding
  hist_declarations :: "SeriesDeclaration list"
  hist_retirement :: "SeriesRetirement option"

definition latest_declaration :: "SeriesHistory \<Rightarrow> SeriesDeclaration option" where
  "latest_declaration h =
     (if hist_declarations h = [] then None else Some (last (hist_declarations h)))"

definition creation_evidence :: "SeriesHistory \<Rightarrow> DeclarationEvidence option" where
  "creation_evidence h = (case hist_declarations h of [] \<Rightarrow> None | d # _ \<Rightarrow> Some (decl_evidence d))"

definition lifecycle :: "SeriesHistory \<Rightarrow> SeriesLifecycle" where
  "lifecycle h = (if hist_retirement h \<noteq> None then Retired else Active)"

section \<open>The registry\<close>

record SeriesRegistryLimits =
  max_series :: nat
  max_declaration_revisions :: nat

record SeriesRegistrySnapshot =
  snap_store_id :: StoreId
  snap_limits :: SeriesRegistryLimits
  snap_declaration_revision_count :: nat
  snap_series :: "SeriesHistory list"

record SeriesRegistry =
  reg_store_id :: StoreId
  reg_limits :: SeriesRegistryLimits
  reg_declaration_revision_count :: nat
  reg_series :: "(SeriesId, SeriesHistory) btree_map"

definition registry_new :: "StoreId \<Rightarrow> SeriesRegistryLimits \<Rightarrow> SeriesRegistry" where
  "registry_new store_id limits =
     \<lparr>reg_store_id = store_id, reg_limits = limits, reg_declaration_revision_count = 0,
      reg_series = []\<rparr>"

definition series_count :: "SeriesRegistry \<Rightarrow> nat" where
  "series_count reg = bt_len (reg_series reg)"

definition series_ids :: "SeriesRegistry \<Rightarrow> SeriesId list" where
  "series_ids reg = bt_keys (reg_series reg)"

definition history :: "SeriesRegistry \<Rightarrow> SeriesId \<Rightarrow> SeriesHistory option" where
  "history reg series_id = bt_get (reg_series reg) series_id"

definition resolve :: "SeriesRegistry \<Rightarrow> SeriesId \<Rightarrow> DeclarationRevision \<Rightarrow> SeriesDeclaration option" where
  "resolve reg series_id revision =
     Option.bind (bt_get (reg_series reg) series_id) (\<lambda>h.
       find (\<lambda>d. decl_revision d = revision) (hist_declarations h))"

definition registry_snapshot :: "SeriesRegistry \<Rightarrow> SeriesRegistrySnapshot" where
  "registry_snapshot reg =
     \<lparr>snap_store_id = reg_store_id reg, snap_limits = reg_limits reg,
      snap_declaration_revision_count = reg_declaration_revision_count reg,
      snap_series = bt_values (reg_series reg)\<rparr>"

definition register ::
  "SeriesId \<Rightarrow> SeriesBinding \<Rightarrow> SeriesDeclarationPayload \<Rightarrow> DeclarationEvidence \<Rightarrow> SeriesRegistry \<Rightarrow>
   (ModelError, SeriesDeclaration) result \<times> SeriesRegistry" where
  "register series_id binding payload evidence reg =
     (case bt_get (reg_series reg) series_id of
        Some h \<Rightarrow>
          if hist_retirement h \<noteq> None then (Inl SeriesRetired, reg)
          else (case hist_declarations h of
              [] \<Rightarrow> (Inl SeriesNotFound, reg)
            | initial # _ \<Rightarrow>
                if length (hist_declarations h) = 1 \<and> hist_binding h = binding
                   \<and> decl_payload initial = payload \<and> decl_evidence initial = evidence
                then (Inr initial, reg)
                else (Inl SeriesAlreadyRegistered, reg))
      | None \<Rightarrow>
          if bt_len (reg_series reg) \<ge> max_series (reg_limits reg)
          then (Inl RegistrySeriesCapacityExceeded, reg)
          else if reg_declaration_revision_count reg \<ge> max_declaration_revisions (reg_limits reg)
          then (Inl RegistryRevisionCapacityExceeded, reg)
          else
            let declaration = \<lparr>decl_store_id = reg_store_id reg, decl_series_id = series_id,
                  decl_revision = REVISION_FIRST, decl_previous_revision = None,
                  decl_binding = binding, decl_payload = payload, decl_evidence = evidence\<rparr>;
                h = \<lparr>hist_series_id = series_id, hist_binding = binding,
                  hist_declarations = [declaration], hist_retirement = None\<rparr>
            in (Inr declaration,
                reg\<lparr>reg_series := bt_insert series_id h (reg_series reg),
                    reg_declaration_revision_count := reg_declaration_revision_count reg + 1\<rparr>))"

definition revise ::
  "SeriesId \<Rightarrow> DeclarationRevision \<Rightarrow> SeriesDeclarationPayload \<Rightarrow> DeclarationEvidence \<Rightarrow> SeriesRegistry \<Rightarrow>
   (ModelError, SeriesDeclaration) result \<times> SeriesRegistry" where
  "revise series_id expected_revision payload evidence reg =
     (case bt_get (reg_series reg) series_id of
        None \<Rightarrow> (Inl SeriesNotFound, reg)
      | Some h \<Rightarrow>
          if hist_retirement h \<noteq> None then (Inl SeriesRetired, reg)
          else (case latest_declaration h of
              None \<Rightarrow> (Inl SeriesNotFound, reg)
            | Some current \<Rightarrow>
                if decl_previous_revision current = Some expected_revision
                   \<and> decl_payload current = payload \<and> decl_evidence current = evidence
                then (Inr current, reg)
                else if decl_revision current \<noteq> expected_revision
                then (Inl StaleDeclarationRevision, reg)
                else if decl_payload current = payload
                then (Inl DeclarationUnchanged, reg)
                else if reg_declaration_revision_count reg \<ge> max_declaration_revisions (reg_limits reg)
                then (Inl RegistryRevisionCapacityExceeded, reg)
                else
                  let declaration = \<lparr>decl_store_id = reg_store_id reg, decl_series_id = series_id,
                        decl_revision = revision_next (decl_revision current),
                        decl_previous_revision = Some expected_revision,
                        decl_binding = hist_binding h, decl_payload = payload,
                        decl_evidence = evidence\<rparr>;
                      h' = h\<lparr>hist_declarations := hist_declarations h @ [declaration]\<rparr>
                  in (Inr declaration,
                      reg\<lparr>reg_series := bt_insert series_id h' (reg_series reg),
                          reg_declaration_revision_count := reg_declaration_revision_count reg + 1\<rparr>)))"

definition retire ::
  "SeriesId \<Rightarrow> DeclarationRevision \<Rightarrow> DeclarationEvidence \<Rightarrow> SeriesRegistry \<Rightarrow>
   (ModelError, SeriesRetirement) result \<times> SeriesRegistry" where
  "retire series_id expected_revision evidence reg =
     (case bt_get (reg_series reg) series_id of
        None \<Rightarrow> (Inl SeriesNotFound, reg)
      | Some h \<Rightarrow>
          (case hist_retirement h of
             Some retirement \<Rightarrow>
               if ret_declaration_revision retirement = expected_revision
                  \<and> ret_evidence retirement = evidence
               then (Inr retirement, reg)
               else (Inl SeriesRetired, reg)
           | None \<Rightarrow>
               (case latest_declaration h of
                  None \<Rightarrow> (Inl SeriesNotFound, reg)
                | Some current \<Rightarrow>
                    if decl_revision current \<noteq> expected_revision
                    then (Inl StaleDeclarationRevision, reg)
                    else
                      let retirement = \<lparr>ret_declaration_revision = expected_revision,
                            ret_evidence = evidence\<rparr>
                      in (Inr retirement,
                          reg\<lparr>reg_series := bt_insert series_id
                                (h\<lparr>hist_retirement := Some retirement\<rparr>) (reg_series reg)\<rparr>))))"

record DeclaredCollectionEnvelope =
  dce_store_id :: StoreId
  dce_declaration :: SeriesDeclaration
  dce_envelope :: CollectionEnvelope

definition registry_bind ::
  "CollectionEnvelope \<Rightarrow> SeriesRegistry \<Rightarrow> (ModelError, DeclaredCollectionEnvelope) result" where
  "registry_bind envelope reg =
     (let series_id = md_series_id (env_series envelope) in
      and_then (ok_or SeriesNotFound (bt_get (reg_series reg) series_id)) (\<lambda>h.
      if hist_retirement h \<noteq> None then Inl SeriesRetired
      else and_then (ok_or SeriesNotFound (latest_declaration h)) (\<lambda>declaration.
        if env_series envelope \<noteq> payload_series_metadata (decl_payload declaration) series_id
        then Inl SeriesMetadataMismatch
        else if list_ex (\<lambda>ob. \<not> admits (pl_value_family (decl_payload declaration)) (obs_value ob))
                  (env_observations envelope)
        then Inl ObservationValueFamilyMismatch
        else Inr \<lparr>dce_store_id = reg_store_id reg, dce_declaration = declaration,
                  dce_envelope = envelope\<rparr>)))"

end
