(* ===== verification/Och_Registry.thy ===== *)
theory Och_Registry
  imports Och_Series "HOL-Library.Sublist"
begin

text \<open>
  Correctness of the series registry: the structural invariant, the contract shared by every
  mutating operation (locale \<open>registry_op\<close>, interpreted on \<open>register\<close>, \<open>revise\<close> and \<open>retire\<close>),
  the step relation with its reachable states, and the type invariant of retained
  declarations.
\<close>

section \<open>The structural invariant\<close>

definition revision_of :: "nat \<Rightarrow> DeclarationRevision" where
  "revision_of n = DeclarationRevision (of_nat n)"

definition declaration_at_ok :: "StoreId \<Rightarrow> SeriesId \<Rightarrow> SeriesBinding \<Rightarrow> nat \<Rightarrow> SeriesDeclaration \<Rightarrow> bool" where
  "declaration_at_ok store k binding i d \<longleftrightarrow>
     decl_store_id d = store \<and> decl_series_id d = k \<and> decl_binding d = binding \<and>
     decl_revision d = revision_of (i + 1) \<and>
     decl_previous_revision d = (if i = 0 then None else Some (revision_of i))"

definition history_ok :: "StoreId \<Rightarrow> SeriesId \<Rightarrow> SeriesHistory \<Rightarrow> bool" where
  "history_ok store k h \<longleftrightarrow>
     hist_series_id h = k \<and> hist_declarations h \<noteq> [] \<and>
     (\<forall>i < length (hist_declarations h).
        declaration_at_ok store k (hist_binding h) i (hist_declarations h ! i)) \<and>
     (\<forall>i. Suc i < length (hist_declarations h) \<longrightarrow>
        decl_payload (hist_declarations h ! i) \<noteq> decl_payload (hist_declarations h ! Suc i)) \<and>
     (\<forall>r. hist_retirement h = Some r \<longrightarrow>
        ret_declaration_revision r = decl_revision (last (hist_declarations h)))"

definition registry_ok :: "SeriesRegistry \<Rightarrow> bool" where
  "registry_ok reg \<longleftrightarrow>
     bt_ok (reg_series reg) \<and>
     (\<forall>k h. bt_get (reg_series reg) k = Some h \<longrightarrow> history_ok (reg_store_id reg) k h) \<and>
     reg_declaration_revision_count reg =
       sum_list (map (\<lambda>h. length (hist_declarations h)) (bt_values (reg_series reg))) \<and>
     reg_declaration_revision_count reg \<le> max_declaration_revisions (reg_limits reg) \<and>
     bt_len (reg_series reg) \<le> max_series (reg_limits reg)"

lemma registry_new_ok: "registry_ok (registry_new store limits)"
  by (simp add: registry_ok_def registry_new_def bt.invar_empty bt.get_empty bt.vals_empty bt.len_empty)

lemma history_ok_last:
  assumes "history_ok store k h"
  shows "decl_revision (last (hist_declarations h)) = revision_of (length (hist_declarations h))"
    and "latest_declaration h = Some (last (hist_declarations h))"
proof -
  have ne: "hist_declarations h \<noteq> []" using assms by (simp add: history_ok_def)
  then show "latest_declaration h = Some (last (hist_declarations h))"
    by (simp add: latest_declaration_def)
  have "declaration_at_ok store k (hist_binding h) (length (hist_declarations h) - 1)
      (last (hist_declarations h))"
    using assms ne by (simp add: history_ok_def last_conv_nth)
  with ne show "decl_revision (last (hist_declarations h)) = revision_of (length (hist_declarations h))"
    by (simp add: declaration_at_ok_def)
qed

lemma revision_next_of: "revision_next (revision_of n) = revision_of (n + 1)"
  by (simp add: revision_next_def revision_of_def)

lemma history_ok_revise:
  assumes h: "history_ok store k h" and active: "hist_retirement h = None"
    and d: "declaration_at_ok store k (hist_binding h) (length (hist_declarations h)) d"
    and p: "decl_payload d \<noteq> decl_payload (last (hist_declarations h))"
  shows "history_ok store k (h\<lparr>hist_declarations := hist_declarations h @ [d]\<rparr>)"
proof -
  have "decl_payload ((hist_declarations h @ [d]) ! i) \<noteq> decl_payload ((hist_declarations h @ [d]) ! Suc i)"
    if "Suc i < length (hist_declarations h @ [d])" for i
  proof (cases "Suc i < length (hist_declarations h)")
    case True
    with h show ?thesis by (simp add: history_ok_def nth_append)
  next
    case False
    with that have "i = length (hist_declarations h) - 1" "hist_declarations h \<noteq> []"
      using h by (auto simp: history_ok_def)
    with p show ?thesis by (auto simp: nth_append last_conv_nth)
  qed
  then show ?thesis
    using h active d by (auto simp: history_ok_def nth_append less_Suc_eq)
qed

section \<open>Extension of registries\<close>

definition history_extends :: "SeriesHistory \<Rightarrow> SeriesHistory \<Rightarrow> bool" where
  "history_extends h h' \<longleftrightarrow>
     hist_series_id h' = hist_series_id h \<and> hist_binding h' = hist_binding h \<and>
     prefix (hist_declarations h) (hist_declarations h') \<and>
     (hist_retirement h \<noteq> None \<longrightarrow> h' = h)"

definition registry_extends :: "SeriesRegistry \<Rightarrow> SeriesRegistry \<Rightarrow> bool" where
  "registry_extends reg reg' \<longleftrightarrow>
     reg_store_id reg' = reg_store_id reg \<and> reg_limits reg' = reg_limits reg \<and>
     (\<forall>k h. bt_get (reg_series reg) k = Some h \<longrightarrow>
        (\<exists>h'. bt_get (reg_series reg') k = Some h' \<and> history_extends h h'))"

lemma history_extends_refl [simp]: "history_extends h h"
  by (simp add: history_extends_def)

lemma history_extends_trans:
  "history_extends a b \<Longrightarrow> history_extends b c \<Longrightarrow> history_extends a c"
  by (auto simp: history_extends_def intro: prefix_order.trans)

lemma registry_extends_refl [simp]: "registry_extends reg reg"
  by (simp add: registry_extends_def)

lemma registry_extends_trans:
  "registry_extends a b \<Longrightarrow> registry_extends b c \<Longrightarrow> registry_extends a c"
  unfolding registry_extends_def by (metis history_extends_trans)

lemma registry_extends_insert:
  assumes "bt_ok (reg_series reg)"
    and "\<And>h. bt_get (reg_series reg) k = Some h \<Longrightarrow> history_extends h h'"
    and "reg_series reg' = bt_insert k h' (reg_series reg)"
    and "reg_store_id reg' = reg_store_id reg" "reg_limits reg' = reg_limits reg"
  shows "registry_extends reg reg'"
  using assms by (auto simp: registry_extends_def bt.get_insert)

lemma find_prefix: "find P xs = Some x \<Longrightarrow> find P (xs @ ys) = Some x"
  by (induction xs) auto

lemma resolve_extends:
  assumes "registry_extends reg reg'" and "resolve reg sid rv = Some d"
  shows "resolve reg' sid rv = Some d"
proof -
  from assms(2) obtain h where h: "bt_get (reg_series reg) sid = Some h"
    and f: "find (\<lambda>d. decl_revision d = rv) (hist_declarations h) = Some d"
    by (auto simp: resolve_def bind_eq_Some_conv)
  from assms(1) h obtain h' where h': "bt_get (reg_series reg') sid = Some h'"
    and e: "history_extends h h'"
    by (auto simp: registry_extends_def)
  from e obtain ds where "hist_declarations h' = hist_declarations h @ ds"
    by (auto simp: history_extends_def prefix_def)
  with f have "find (\<lambda>d. decl_revision d = rv) (hist_declarations h') = Some d"
    by (simp add: find_prefix)
  with h' show ?thesis by (simp add: resolve_def)
qed

lemma retired_extends:
  assumes "registry_extends reg reg'" and "history reg sid = Some h" and "hist_retirement h \<noteq> None"
  shows "history reg' sid = Some h"
  using assms by (force simp: registry_extends_def history_extends_def history_def)

section \<open>The contract of a mutating operation\<close>

locale registry_op =
  fixes run :: "SeriesRegistry \<Rightarrow> (ModelError, 'a) result \<times> SeriesRegistry"
  assumes refusal: "run reg = (Inl e, reg') \<Longrightarrow> reg' = reg"
    and preserves: "registry_ok reg \<Longrightarrow> registry_ok (snd (run reg))"
    and extends: "registry_ok reg \<Longrightarrow> registry_extends reg (snd (run reg))"
begin

lemma keeps_resolution:
  "registry_ok reg \<Longrightarrow> resolve reg sid rv = Some d \<Longrightarrow> resolve (snd (run reg)) sid rv = Some d"
  using extends resolve_extends by blast

lemma keeps_retirement:
  "registry_ok reg \<Longrightarrow> history reg sid = Some h \<Longrightarrow> hist_retirement h \<noteq> None \<Longrightarrow>
   history (snd (run reg)) sid = Some h"
  using extends retired_extends by blast

lemma keeps_authority:
  "registry_ok reg \<Longrightarrow>
   reg_store_id (snd (run reg)) = reg_store_id reg \<and> reg_limits (snd (run reg)) = reg_limits reg"
  using extends by (simp add: registry_extends_def)

end

section \<open>The operations meet the contract\<close>

lemma registry_ok_fresh:
  assumes ok: "registry_ok reg" and fresh: "bt_get (reg_series reg) k = None"
    and h: "history_ok (reg_store_id reg) k h" "length (hist_declarations h) = 1"
    and room: "bt_len (reg_series reg) < max_series (reg_limits reg)"
      "reg_declaration_revision_count reg < max_declaration_revisions (reg_limits reg)"
  shows "registry_ok (reg\<lparr>reg_series := bt_insert k h (reg_series reg),
    reg_declaration_revision_count := reg_declaration_revision_count reg + 1\<rparr>)"
proof -
  have bt: "bt_ok (reg_series reg)" using ok by (simp add: registry_ok_def)
  show ?thesis
    using ok h fresh room
    by (auto simp: registry_ok_def bt.get_insert [OF bt] bt.len_insert [OF bt] bt.invar_insert
        bt.total_fresh [OF bt fresh] split: if_splits)
qed

lemma registry_ok_replace:
  assumes ok: "registry_ok reg" and old: "bt_get (reg_series reg) k = Some h"
    and h': "history_ok (reg_store_id reg) k h'"
    and grow: "length (hist_declarations h') = length (hist_declarations h) + d"
    and room: "reg_declaration_revision_count reg + d \<le> max_declaration_revisions (reg_limits reg)"
  shows "registry_ok (reg\<lparr>reg_series := bt_insert k h' (reg_series reg),
    reg_declaration_revision_count := reg_declaration_revision_count reg + d\<rparr>)"
proof -
  have bt: "bt_ok (reg_series reg)" using ok by (simp add: registry_ok_def)
  show ?thesis
    using ok h' old room
    by (auto simp: registry_ok_def bt.get_insert [OF bt] bt.len_insert [OF bt] bt.invar_insert
        bt.total_replace [OF bt old, of "\<lambda>h. length (hist_declarations h)", OF grow] split: if_splits)
qed

lemmas registry_splits = option.splits if_splits list.splits

lemma register_refusal: "register sid b p e reg = (Inl err, reg') \<Longrightarrow> reg' = reg"
  by (auto simp: register_def Let_def split: registry_splits)

lemma revise_refusal: "revise sid r p e reg = (Inl err, reg') \<Longrightarrow> reg' = reg"
  by (auto simp: revise_def Let_def split: registry_splits)

lemma retire_refusal: "retire sid r e reg = (Inl err, reg') \<Longrightarrow> reg' = reg"
  by (auto simp: retire_def Let_def split: registry_splits)

lemma register_cases:
  assumes "register sid b p e reg = (res, reg')"
  obtains (same) "reg' = reg"
      "\<And>d. res = Inr d \<Longrightarrow> \<exists>h. bt_get (reg_series reg) sid = Some h \<and> hist_retirement h = None \<and>
         hist_declarations h = [d] \<and> hist_binding h = b \<and> decl_payload d = p \<and> decl_evidence d = e"
  | (fresh) d where "bt_get (reg_series reg) sid = None"
      "bt_len (reg_series reg) < max_series (reg_limits reg)"
      "reg_declaration_revision_count reg < max_declaration_revisions (reg_limits reg)"
      "d = \<lparr>decl_store_id = reg_store_id reg, decl_series_id = sid, decl_revision = REVISION_FIRST,
            decl_previous_revision = None, decl_binding = b, decl_payload = p, decl_evidence = e\<rparr>"
      "res = Inr d"
      "reg' = reg\<lparr>reg_series := bt_insert sid \<lparr>hist_series_id = sid, hist_binding = b,
                    hist_declarations = [d], hist_retirement = None\<rparr> (reg_series reg),
                 reg_declaration_revision_count := reg_declaration_revision_count reg + 1\<rparr>"
proof (cases "bt_get (reg_series reg) sid = None \<and> bt_len (reg_series reg) < max_series (reg_limits reg)
    \<and> reg_declaration_revision_count reg < max_declaration_revisions (reg_limits reg)")
  case True
  with assms show ?thesis by (intro fresh) (auto simp: register_def Let_def)
next
  case False
  with assms show ?thesis
    by (intro same) (auto simp: register_def length_Suc_conv split: registry_splits)
qed

lemma register_preserves:
  assumes ok: "registry_ok reg"
  shows "registry_ok (snd (register sid b p e reg))"
proof -
  obtain res reg' where run: "register sid b p e reg = (res, reg')" by fastforce
  then show ?thesis
  proof (cases rule: register_cases)
    case same
    with ok run show ?thesis by simp
  next
    case (fresh d)
    have "history_ok (reg_store_id reg) sid \<lparr>hist_series_id = sid, hist_binding = b,
        hist_declarations = [d], hist_retirement = None\<rparr>"
      by (simp add: history_ok_def declaration_at_ok_def fresh(4) revision_of_def REVISION_FIRST_def)
    then show ?thesis
      using registry_ok_fresh [OF ok fresh(1)] fresh(2,3,6) run by simp
  qed
qed

lemma registry_ok_history:
  "registry_ok reg \<Longrightarrow> bt_get (reg_series reg) k = Some h \<Longrightarrow> history_ok (reg_store_id reg) k h"
  by (simp add: registry_ok_def)

text \<open>What a revise that really appends a declaration does.\<close>

lemma revise_cases:
  assumes "revise sid r p e reg = (res, reg')"
  obtains (same) "reg' = reg"
      "\<And>d. res = Inr d \<Longrightarrow> \<exists>h. bt_get (reg_series reg) sid = Some h \<and> hist_retirement h = None \<and>
         latest_declaration h = Some d \<and> decl_previous_revision d = Some r \<and> decl_payload d = p \<and>
         decl_evidence d = e"
  | (append) h d where "bt_get (reg_series reg) sid = Some h" "hist_retirement h = None"
      "hist_declarations h \<noteq> []" "decl_revision (last (hist_declarations h)) = r"
      "decl_payload (last (hist_declarations h)) \<noteq> p"
      "reg_declaration_revision_count reg < max_declaration_revisions (reg_limits reg)"
      "d = \<lparr>decl_store_id = reg_store_id reg, decl_series_id = sid, decl_revision = revision_next r,
            decl_previous_revision = Some r, decl_binding = hist_binding h, decl_payload = p,
            decl_evidence = e\<rparr>"
      "res = Inr d"
      "reg' = reg\<lparr>reg_series := bt_insert sid (h\<lparr>hist_declarations := hist_declarations h @ [d]\<rparr>) (reg_series reg),
                 reg_declaration_revision_count := reg_declaration_revision_count reg + 1\<rparr>"
proof (cases "bt_get (reg_series reg) sid")
  case None
  with assms show ?thesis by (intro same) (auto simp: revise_def)
next
  case (Some h)
  let ?cur = "last (hist_declarations h)"
  show ?thesis
  proof (cases "hist_retirement h = None \<and> hist_declarations h \<noteq> [] \<and> decl_revision ?cur = r \<and>
      decl_payload ?cur \<noteq> p \<and> reg_declaration_revision_count reg < max_declaration_revisions (reg_limits reg)")
    case True
    with assms Some show ?thesis
      by (intro append [OF Some]) (auto simp: revise_def Let_def latest_declaration_def)
  next
    case False
    with assms Some show ?thesis
      by (intro same) (auto simp: revise_def latest_declaration_def split: if_splits)
  qed
qed

lemma retire_cases:
  assumes "retire sid r e reg = (res, reg')"
  obtains (same) "reg' = reg"
      "\<And>t. res = Inr t \<Longrightarrow> \<exists>h. bt_get (reg_series reg) sid = Some h \<and> hist_retirement h = Some t \<and>
         t = \<lparr>ret_declaration_revision = r, ret_evidence = e\<rparr>"
  | (close) h t where "bt_get (reg_series reg) sid = Some h" "hist_retirement h = None"
      "hist_declarations h \<noteq> []" "decl_revision (last (hist_declarations h)) = r"
      "t = \<lparr>ret_declaration_revision = r, ret_evidence = e\<rparr>" "res = Inr t"
      "reg' = reg\<lparr>reg_series := bt_insert sid (h\<lparr>hist_retirement := Some t\<rparr>) (reg_series reg)\<rparr>"
proof (cases "bt_get (reg_series reg) sid")
  case None
  with assms show ?thesis by (intro same) (auto simp: retire_def)
next
  case (Some h)
  show ?thesis
  proof (cases "hist_retirement h = None \<and> hist_declarations h \<noteq> [] \<and>
      decl_revision (last (hist_declarations h)) = r")
    case True
    with assms Some show ?thesis
      by (intro close [OF Some]) (auto simp: retire_def Let_def latest_declaration_def)
  next
    case False
    with assms Some show ?thesis
      by (intro same) (auto simp: retire_def latest_declaration_def split: option.splits if_splits)
  qed
qed

lemma revise_preserves:
  assumes ok: "registry_ok reg"
  shows "registry_ok (snd (revise sid r p e reg))"
proof -
  obtain res reg' where run: "revise sid r p e reg = (res, reg')" by fastforce
  then show ?thesis
  proof (cases rule: revise_cases)
    case same
    with ok run show ?thesis by simp
  next
    case (append h d)
    have h: "history_ok (reg_store_id reg) sid h" using ok append(1) by (rule registry_ok_history)
    have r: "r = revision_of (length (hist_declarations h))"
      using history_ok_last(1) [OF h] append(4) by simp
    have "declaration_at_ok (reg_store_id reg) sid (hist_binding h) (length (hist_declarations h)) d"
      using append(3) r by (simp add: append(7) declaration_at_ok_def revision_next_of)
    then have "history_ok (reg_store_id reg) sid (h\<lparr>hist_declarations := hist_declarations h @ [d]\<rparr>)"
      using history_ok_revise [OF h append(2)] append(5) by (simp add: append(7))
    then show ?thesis
      using registry_ok_replace [OF ok append(1), of _ 1] append(6) run append(9) by simp
  qed
qed

lemma retire_preserves:
  assumes ok: "registry_ok reg"
  shows "registry_ok (snd (retire sid r e reg))"
proof -
  obtain res reg' where run: "retire sid r e reg = (res, reg')" by fastforce
  then show ?thesis
  proof (cases rule: retire_cases)
    case same
    with ok run show ?thesis by simp
  next
    case (close h t)
    have h: "history_ok (reg_store_id reg) sid h" using ok close(1) by (rule registry_ok_history)
    then have "history_ok (reg_store_id reg) sid (h\<lparr>hist_retirement := Some t\<rparr>)"
      using close by (simp add: history_ok_def)
    then show ?thesis
      using registry_ok_replace [OF ok close(1), of _ 0] run close(7) ok by (simp add: registry_ok_def)
  qed
qed

lemma registry_ok_map: "registry_ok reg \<Longrightarrow> bt_ok (reg_series reg)"
  by (simp add: registry_ok_def)

lemma register_extends:
  assumes ok: "registry_ok reg"
  shows "registry_extends reg (snd (register sid b p e reg))"
proof -
  obtain res reg' where run: "register sid b p e reg = (res, reg')" by fastforce
  then show ?thesis
  proof (cases rule: register_cases)
    case (fresh d)
    with run show ?thesis
      by (auto intro!: registry_extends_insert [OF registry_ok_map [OF ok]])
  qed (simp add: run)
qed

lemma revise_extends:
  assumes ok: "registry_ok reg"
  shows "registry_extends reg (snd (revise sid r p e reg))"
proof -
  obtain res reg' where run: "revise sid r p e reg = (res, reg')" by fastforce
  then show ?thesis
  proof (cases rule: revise_cases)
    case (append h d)
    then have "history_extends h (h\<lparr>hist_declarations := hist_declarations h @ [d]\<rparr>)"
      by (simp add: history_extends_def)
    with run append(1,9) show ?thesis
      by (auto intro!: registry_extends_insert [OF registry_ok_map [OF ok]])
  qed (simp add: run)
qed

lemma retire_extends:
  assumes ok: "registry_ok reg"
  shows "registry_extends reg (snd (retire sid r e reg))"
proof -
  obtain res reg' where run: "retire sid r e reg = (res, reg')" by fastforce
  then show ?thesis
  proof (cases rule: retire_cases)
    case (close h t)
    then have "history_extends h (h\<lparr>hist_retirement := Some t\<rparr>)"
      by (simp add: history_extends_def)
    with run close(1,7) show ?thesis
      by (auto intro!: registry_extends_insert [OF registry_ok_map [OF ok]])
  qed (simp add: run)
qed

interpretation register_op: registry_op "register sid b p e" for sid b p e
  by unfold_locales (rule register_refusal register_preserves register_extends; assumption)+

interpretation revise_op: registry_op "revise sid r p e" for sid r p e
  by unfold_locales (rule revise_refusal revise_preserves revise_extends; assumption)+

interpretation retire_op: registry_op "retire sid r e" for sid r e
  by unfold_locales (rule retire_refusal retire_preserves retire_extends; assumption)+

section \<open>Functional behaviour\<close>

text \<open>Revision numbers are dense: position \<open>i\<close> of a history carries revision \<open>i + 1\<close>, and the
  128-bit counter never wraps because a history is no longer than the registry's limit.\<close>

lemma sum_list_member: "bt_get m k = Some h \<Longrightarrow> f h \<le> sum_list (map f (bt_values m))"
  for f :: "'b \<Rightarrow> nat"
  by (auto simp: bt_get_def bt_values_def image_image intro!: member_le_sum_list
      dest!: map_of_SomeD) (force simp: image_iff)

lemma history_length_bound:
  assumes "registry_ok reg" "history reg sid = Some h"
  shows "length (hist_declarations h) \<le> max_declaration_revisions (reg_limits reg)"
proof -
  have "length (hist_declarations h) \<le> reg_declaration_revision_count reg"
    using assms sum_list_member [of "reg_series reg" sid h "\<lambda>h. length (hist_declarations h)"]
    by (simp add: registry_ok_def history_def)
  with assms show ?thesis by (simp add: registry_ok_def)
qed

lemma revision_of_get: "n \<le> usize_max \<Longrightarrow> unat (revision_get (revision_of n)) = n"
  by (simp add: revision_of_def unat_of_nat)

lemma revision_of_inj: "m \<le> usize_max \<Longrightarrow> n \<le> usize_max \<Longrightarrow> revision_of m = revision_of n \<longleftrightarrow> m = n"
  using revision_of_get by metis

lemma history_declaration:
  assumes "history_ok store k h" "i < length (hist_declarations h)"
  shows "declaration_at_ok store k (hist_binding h) i (hist_declarations h ! i)"
  using assms by (simp add: history_ok_def)

lemma find_nth_unique:
  assumes "i < length xs" "P (xs ! i)" "\<And>j. j < i \<Longrightarrow> \<not> P (xs ! j)"
  shows "find P xs = Some (xs ! i)"
  using assms by (auto simp: find_Some_iff)

lemma resolve_nth:
  assumes ok: "registry_ok reg" and lim: "max_declaration_revisions (reg_limits reg) \<le> usize_max"
    and h: "history reg sid = Some h" and i: "i < length (hist_declarations h)"
  shows "resolve reg sid (revision_of (i + 1)) = Some (hist_declarations h ! i)"
proof -
  have len: "length (hist_declarations h) \<le> usize_max"
    using history_length_bound [OF ok h] lim by simp
  have at: "decl_revision (hist_declarations h ! j) = revision_of (j + 1)"
    if "j < length (hist_declarations h)" for j
    using history_declaration [OF registry_ok_history [OF ok], of sid h j] h that
    by (simp add: history_def declaration_at_ok_def)
  have "find (\<lambda>d. decl_revision d = revision_of (i + 1)) (hist_declarations h) =
      Some (hist_declarations h ! i)"
  proof (rule find_nth_unique [OF i])
    show "decl_revision (hist_declarations h ! i) = revision_of (i + 1)" using at [OF i] .
    fix j assume "j < i"
    with i len show "decl_revision (hist_declarations h ! j) \<noteq> revision_of (i + 1)"
      using at [of j] revision_of_inj [of "j + 1" "i + 1"] by simp
  qed
  with h show ?thesis by (simp add: resolve_def history_def)
qed

lemma resolve_latest:
  assumes ok: "registry_ok reg" and lim: "max_declaration_revisions (reg_limits reg) \<le> usize_max"
    and h: "history reg sid = Some h" and d: "latest_declaration h = Some d"
  shows "resolve reg sid (decl_revision d) = Some d"
proof -
  define i where "i = length (hist_declarations h) - 1"
  have i: "i < length (hist_declarations h)" "d = hist_declarations h ! i"
    using d by (auto simp: latest_declaration_def last_conv_nth i_def split: if_splits)
  moreover have "decl_revision (hist_declarations h ! i) = revision_of (i + 1)"
    using history_declaration [OF registry_ok_history [OF ok] i(1)] h
    by (simp add: history_def declaration_at_ok_def)
  ultimately show ?thesis using resolve_nth [OF ok lim h i(1)] by simp
qed

text \<open>A repeated command is answered with the retained record and changes nothing.\<close>

lemma register_replay:
  assumes ok: "registry_ok reg" and run: "register sid b p e reg = (Inr d, reg')"
  shows "register sid b p e reg' = (Inr d, reg')"
  using run
proof (cases rule: register_cases)
  case same
  with run show ?thesis by simp
next
  case (fresh d')
  have bt: "bt_ok (reg_series reg)" using ok by (rule registry_ok_map)
  from fresh(5) have "d' = d" by simp
  with fresh(4,6) show ?thesis by (simp add: register_def bt.get_insert [OF bt])
qed

lemma revise_replay:
  assumes ok: "registry_ok reg" and run: "revise sid r p e reg = (Inr d, reg')"
  shows "revise sid r p e reg' = (Inr d, reg')"
  using run
proof (cases rule: revise_cases)
  case same
  with run show ?thesis by simp
next
  case (append h d')
  have bt: "bt_ok (reg_series reg)" using ok by (rule registry_ok_map)
  from append(8) have "d' = d" by simp
  with append(2,7,9) show ?thesis
    by (simp add: revise_def bt.get_insert [OF bt] latest_declaration_def)
qed

lemma retire_replay:
  assumes ok: "registry_ok reg" and run: "retire sid r e reg = (Inr t, reg')"
  shows "retire sid r e reg' = (Inr t, reg')"
  using run
proof (cases rule: retire_cases)
  case same
  with run show ?thesis by simp
next
  case (close h t')
  have bt: "bt_ok (reg_series reg)" using ok by (rule registry_ok_map)
  from close(6) have "t' = t" by simp
  with close(5,7) show ?thesis by (simp add: retire_def bt.get_insert [OF bt])
qed

text \<open>An operation that answers its own repetition with the same result; the registry then settles after
  one run, whatever the outcome.\<close>

locale replayable_op = registry_op run
  for run :: "SeriesRegistry \<Rightarrow> (ModelError, 'a) result \<times> SeriesRegistry" +
  assumes replay: "registry_ok reg \<Longrightarrow> run reg = (Inr x, reg') \<Longrightarrow> run reg' = (Inr x, reg')"
begin

lemma rerun:
  assumes "registry_ok reg"
  shows "run (snd (run reg)) = run reg"
proof (cases "run reg")
  case (Pair res reg')
  show ?thesis
  proof (cases res)
    case (Inl e)
    with Pair refusal [of reg e reg'] show ?thesis by simp
  next
    case (Inr x)
    with Pair replay [OF assms, of x reg'] show ?thesis by simp
  qed
qed

end

interpretation register_replayable: replayable_op "register sid b p e" for sid b p e
  by unfold_locales (rule register_replay; assumption)

interpretation revise_replayable: replayable_op "revise sid r p e" for sid r p e
  by unfold_locales (rule revise_replay; assumption)

interpretation retire_replayable: replayable_op "retire sid r e" for sid r e
  by unfold_locales (rule retire_replay; assumption)

text \<open>What a successful command leaves behind.\<close>

lemma register_latest:
  assumes ok: "registry_ok reg" and run: "register sid b p e reg = (Inr d, reg')"
  shows "\<exists>h. history reg' sid = Some h \<and> hist_declarations h = [d] \<and> lifecycle h = Active \<and>
    hist_binding h = b \<and> decl_payload d = p \<and> decl_evidence d = e"
  using run
proof (cases rule: register_cases)
  case same
  then show ?thesis by (force simp: history_def lifecycle_def)
next
  case (fresh d')
  then show ?thesis
    using bt.get_insert [OF registry_ok_map [OF ok]]
    by (simp add: history_def lifecycle_def)
qed

lemma revise_latest:
  assumes ok: "registry_ok reg" and run: "revise sid r p e reg = (Inr d, reg')"
  shows "\<exists>h. history reg' sid = Some h \<and> latest_declaration h = Some d \<and> lifecycle h = Active \<and>
    decl_previous_revision d = Some r \<and> decl_payload d = p \<and> decl_evidence d = e"
  using run
proof (cases rule: revise_cases)
  case same
  then show ?thesis by (force simp: history_def lifecycle_def)
next
  case (append h d')
  then show ?thesis
    using bt.get_insert [OF registry_ok_map [OF ok]]
    by (simp add: history_def lifecycle_def latest_declaration_def)
qed

lemma retire_closes:
  assumes ok: "registry_ok reg" and run: "retire sid r e reg = (Inr t, reg')"
  shows "\<exists>h. history reg' sid = Some h \<and> hist_retirement h = Some t \<and> lifecycle h = Retired \<and>
    t = \<lparr>ret_declaration_revision = r, ret_evidence = e\<rparr>"
  using run
proof (cases rule: retire_cases)
  case same
  then show ?thesis by (force simp: history_def lifecycle_def)
next
  case (close h t')
  then show ?thesis
    using bt.get_insert [OF registry_ok_map [OF ok]]
    by (simp add: history_def lifecycle_def)
qed

text \<open>A retired series refuses every later command but the identical retirement.\<close>

lemma retired_refuses:
  assumes "history reg sid = Some h" "hist_retirement h = Some t"
  shows "register sid b p e reg = (Inl SeriesRetired, reg)"
    and "revise sid r p e reg = (Inl SeriesRetired, reg)"
    and "md_series_id (env_series envelope) = sid \<Longrightarrow> registry_bind envelope reg = Inl SeriesRetired"
    and "t \<noteq> \<lparr>ret_declaration_revision = r, ret_evidence = e\<rparr> \<Longrightarrow>
      retire sid r e reg = (Inl SeriesRetired, reg)"
  using assms
  by (auto simp: history_def register_def revise_def registry_bind_def retire_def)

lemma retired_replay:
  assumes "history reg sid = Some h" "hist_retirement h = Some t"
  shows "retire sid (ret_declaration_revision t) (ret_evidence t) reg = (Inr t, reg)"
  using assms by (simp add: history_def retire_def)

text \<open>Binding succeeds exactly on an active series whose latest declaration authorizes the envelope.\<close>

lemma registry_bind_iff:
  "registry_bind envelope reg = Inr bound \<longleftrightarrow>
   (\<exists>h d. history reg (md_series_id (env_series envelope)) = Some h \<and> lifecycle h = Active \<and>
      latest_declaration h = Some d \<and>
      env_series envelope = payload_series_metadata (decl_payload d) (md_series_id (env_series envelope)) \<and>
      (\<forall>ob \<in> set (env_observations envelope). admits (pl_value_family (decl_payload d)) (obs_value ob)) \<and>
      bound = \<lparr>dce_store_id = reg_store_id reg, dce_declaration = d, dce_envelope = envelope\<rparr>)"
  by (auto simp: registry_bind_def history_def lifecycle_def Let_def result_convs list_ex_iff
      split: if_splits)

section \<open>Commands and reachable registries\<close>

datatype RegistryCommand =
    Register SeriesId SeriesBinding SeriesDeclarationPayload DeclarationEvidence
  | Revise SeriesId DeclarationRevision SeriesDeclarationPayload DeclarationEvidence
  | Retire SeriesId DeclarationRevision DeclarationEvidence

fun reg_run :: "RegistryCommand \<Rightarrow> SeriesRegistry \<Rightarrow> SeriesRegistry" where
  "reg_run (Register sid b p e) reg = snd (register sid b p e reg)"
| "reg_run (Revise sid r p e) reg = snd (revise sid r p e reg)"
| "reg_run (Retire sid r e) reg = snd (retire sid r e reg)"

inductive reg_step :: "SeriesRegistry \<Rightarrow> SeriesRegistry \<Rightarrow> bool" where
  step_register: "register sid b p e reg = (res, reg') \<Longrightarrow> reg_step reg reg'"
| step_revise: "revise sid r p e reg = (res, reg') \<Longrightarrow> reg_step reg reg'"
| step_retire: "retire sid r e reg = (res, reg') \<Longrightarrow> reg_step reg reg'"

inductive_cases reg_stepE: "reg_step reg reg'"

inductive reg_reachable :: "SeriesRegistry \<Rightarrow> SeriesRegistry \<Rightarrow> bool" where
  reach_refl: "reg_reachable reg reg"
| reach_step: "reg_reachable reg reg' \<Longrightarrow> reg_step reg' reg'' \<Longrightarrow> reg_reachable reg reg''"

lemma reg_step_contract:
  assumes "reg_step reg reg'" "registry_ok reg"
  shows "registry_ok reg' \<and> registry_extends reg reg'"
  using assms
proof (cases rule: reg_step.cases)
  case (step_register sid b p e res)
  with assms show ?thesis
    using register_op.preserves [of reg sid b p e] register_op.extends [of reg sid b p e] by simp
next
  case (step_revise sid r p e res)
  with assms show ?thesis
    using revise_op.preserves [of reg sid r p e] revise_op.extends [of reg sid r p e] by simp
next
  case (step_retire sid r e res)
  with assms show ?thesis
    using retire_op.preserves [of reg sid r e] retire_op.extends [of reg sid r e] by simp
qed

lemma reg_reachable_contract:
  assumes "reg_reachable reg reg'" "registry_ok reg"
  shows "registry_ok reg' \<and> registry_extends reg reg'"
  using assms
  by induction (auto dest: reg_step_contract intro: registry_extends_trans)

lemma reg_run_step: "reg_step reg (reg_run c reg)"
  by (cases c) (auto intro: reg_step.intros simp: prod_eq_iff)

lemma reg_run_reachable: "reg_reachable reg (fold reg_run cs reg)"
proof (induction cs rule: rev_induct)
  case Nil
  then show ?case by (simp add: reach_refl)
next
  case (snoc c cs)
  then show ?case using reach_step [OF snoc reg_run_step] by simp
qed

lemma reg_run_idempotent: "registry_ok reg \<Longrightarrow> reg_run c (reg_run c reg) = reg_run c reg"
  by (cases c) (simp_all add: register_replayable.rerun revise_replayable.rerun retire_replayable.rerun)

section \<open>Type invariants of declaration data\<close>

definition reference_ok :: "DeclarationReference \<Rightarrow> bool" where
  "reference_ok r \<longleftrightarrow> utf8_valid (reference_str r) \<and> reference_str r \<noteq> [] \<and>
     length (str_chars (reference_str r)) \<le> MAX_DECLARATION_REFERENCE_SCALARS \<and>
     list_all (\<lambda>c. \<not> is_control c) (str_chars (reference_str r))"

lemma scan_reference_eq:
  "scan_reference n v cs = (n + length cs, v \<and> list_all (\<lambda>c. \<not> is_control c) cs)"
  by (induction cs arbitrary: n v) auto

lemma declaration_reference_new_iff:
  assumes "utf8_valid s"
  shows "declaration_reference_new s = Inr r \<longleftrightarrow> reference_str r = s \<and> reference_ok r"
  using assms
  by (cases r) (auto simp: declaration_reference_new_def scan_reference_eq reference_ok_def Let_def
      min_def split: if_splits)

lemma reference_bytes:
  "reference_ok r \<Longrightarrow> length (reference_str r) \<le> 4 * MAX_DECLARATION_REFERENCE_SCALARS"
  using str_chars_length [of "reference_str r"] by (simp add: reference_ok_def)

definition projection_ok :: "SourceProjection \<Rightarrow> bool" where
  "projection_ok p \<longleftrightarrow> reference_ok (projection_reference p)"

definition source_reference_ok :: "SourceReference \<Rightarrow> bool" where
  "source_reference_ok s \<longleftrightarrow> reference_ok (src_provider s) \<and> pred_option projection_ok (src_projection s) \<and>
     reference_ok (src_locator s)"

definition binding_ok :: "SeriesBinding \<Rightarrow> bool" where
  "binding_ok b \<longleftrightarrow> source_reference_ok (binding_source b)"

fun quantity_ok :: "QuantityEvidence \<Rightarrow> bool" where
  "quantity_ok QuantityAbsent = True"
| "quantity_ok (QuantityResolved r) = reference_ok r"
| "quantity_ok (QuantityUnresolved r) = reference_ok r"

fun unit_ok :: "UnitEvidence \<Rightarrow> bool" where
  "unit_ok UnitAbsent = True"
| "unit_ok (UnitResolved r) = reference_ok r"
| "unit_ok (UnitUnresolved r) = reference_ok r"

definition payload_ok :: "SeriesDeclarationPayload \<Rightarrow> bool" where
  "payload_ok p \<longleftrightarrow> identity_ok (pl_producer_id p) \<and> quantity_ok (pl_quantity p) \<and>
     unit_ok (pl_unit p) \<and> pred_option reference_ok (pl_application p)"

definition declaration_evidence_ok :: "DeclarationEvidence \<Rightarrow> bool" where
  "declaration_evidence_ok e \<longleftrightarrow> timestamp_ok (de_effective_at e) \<and> pred_option artifact_ok (de_artifact e)"

definition declaration_ok :: "SeriesDeclaration \<Rightarrow> bool" where
  "declaration_ok d \<longleftrightarrow> identity_ok (decl_store_id d) \<and> identity_ok (decl_series_id d) \<and>
     revision_get (decl_revision d) \<noteq> 0 \<and>
     (\<forall>r. decl_previous_revision d = Some r \<longrightarrow> revision_get r \<noteq> 0 \<and>
        checked_add (revision_get r) 1 = Some (revision_get (decl_revision d))) \<and>
     (decl_previous_revision d = None \<longleftrightarrow> decl_revision d = REVISION_FIRST) \<and>
     binding_ok (decl_binding d) \<and> payload_ok (decl_payload d) \<and> declaration_evidence_ok (decl_evidence d)"

fun command_ok :: "RegistryCommand \<Rightarrow> bool" where
  "command_ok (Register sid b p e) \<longleftrightarrow>
     identity_ok sid \<and> binding_ok b \<and> payload_ok p \<and> declaration_evidence_ok e"
| "command_ok (Revise sid r p e) \<longleftrightarrow> payload_ok p \<and> declaration_evidence_ok e"
| "command_ok (Retire sid r e) \<longleftrightarrow> declaration_evidence_ok e"

definition history_content_ok :: "SeriesHistory \<Rightarrow> bool" where
  "history_content_ok h \<longleftrightarrow> identity_ok (hist_series_id h) \<and> binding_ok (hist_binding h) \<and>
     list_all (\<lambda>d. payload_ok (decl_payload d) \<and> declaration_evidence_ok (decl_evidence d))
       (hist_declarations h) \<and>
     pred_option (\<lambda>t. declaration_evidence_ok (ret_evidence t)) (hist_retirement h)"

definition registry_content_ok :: "SeriesRegistry \<Rightarrow> bool" where
  "registry_content_ok reg \<longleftrightarrow> identity_ok (reg_store_id reg) \<and>
     (\<forall>k h. bt_get (reg_series reg) k = Some h \<longrightarrow> history_content_ok h)"

lemma registry_content_insert:
  assumes "bt_ok (reg_series reg)" "registry_content_ok reg" "history_content_ok h"
    and "reg_store_id reg' = reg_store_id reg" "reg_series reg' = bt_insert k h (reg_series reg)"
  shows "registry_content_ok reg'"
  using assms by (auto simp: registry_content_ok_def bt.get_insert)

lemma register_content:
  assumes ok: "registry_ok reg" "registry_content_ok reg" and c: "command_ok (Register sid b p e)"
  shows "registry_content_ok (snd (register sid b p e reg))"
proof -
  obtain res reg' where run: "register sid b p e reg = (res, reg')" by fastforce
  then show ?thesis
  proof (cases rule: register_cases)
    case (fresh d)
    then have "history_content_ok \<lparr>hist_series_id = sid, hist_binding = b,
                    hist_declarations = [d], hist_retirement = None\<rparr>"
      using c by (simp add: history_content_ok_def)
    with run fresh(6) show ?thesis
      using registry_content_insert [OF registry_ok_map [OF ok(1)] ok(2)] by simp
  qed (simp add: run ok)
qed

lemma revise_content:
  assumes ok: "registry_ok reg" "registry_content_ok reg" and c: "command_ok (Revise sid r p e)"
  shows "registry_content_ok (snd (revise sid r p e reg))"
proof -
  obtain res reg' where run: "revise sid r p e reg = (res, reg')" by fastforce
  then show ?thesis
  proof (cases rule: revise_cases)
    case (append h d)
    then have "history_content_ok (h\<lparr>hist_declarations := hist_declarations h @ [d]\<rparr>)"
      using c ok(2) by (auto simp: history_content_ok_def registry_content_ok_def)
    with run append(9) show ?thesis
      using registry_content_insert [OF registry_ok_map [OF ok(1)] ok(2)] by simp
  qed (simp add: run ok)
qed

lemma retire_content:
  assumes ok: "registry_ok reg" "registry_content_ok reg" and c: "command_ok (Retire sid r e)"
  shows "registry_content_ok (snd (retire sid r e reg))"
proof -
  obtain res reg' where run: "retire sid r e reg = (res, reg')" by fastforce
  then show ?thesis
  proof (cases rule: retire_cases)
    case (close h t)
    then have "history_content_ok (h\<lparr>hist_retirement := Some t\<rparr>)"
      using ok(2) c by (auto simp: history_content_ok_def registry_content_ok_def)
    with run close(7) show ?thesis
      using registry_content_insert [OF registry_ok_map [OF ok(1)] ok(2)] by simp
  qed (simp add: run ok)
qed

lemma reg_run_content:
  "command_ok c \<Longrightarrow> registry_ok reg \<Longrightarrow> registry_content_ok reg \<Longrightarrow> registry_content_ok (reg_run c reg)"
  using register_content revise_content retire_content by (cases c) auto

text \<open>The sound states: registries built from an empty one by well-formed commands.\<close>

definition registry_sound :: "SeriesRegistry \<Rightarrow> bool" where
  "registry_sound reg \<longleftrightarrow> registry_ok reg \<and> registry_content_ok reg \<and>
     max_declaration_revisions (reg_limits reg) \<le> usize_max"

lemma registry_sound_new:
  "identity_ok store \<Longrightarrow> max_declaration_revisions limits \<le> usize_max \<Longrightarrow>
   registry_sound (registry_new store limits)"
  using registry_new_ok [of store limits]
  by (simp add: registry_sound_def registry_content_ok_def registry_new_def bt.get_empty)

lemma registry_sound_run: "command_ok c \<Longrightarrow> registry_sound reg \<Longrightarrow> registry_sound (reg_run c reg)"
  using reg_step_contract [OF reg_run_step, of reg c] reg_run_content [of c reg]
  by (auto simp: registry_sound_def registry_extends_def)

lemma registry_sound_fold:
  "list_all command_ok cs \<Longrightarrow> registry_sound reg \<Longrightarrow> registry_sound (fold reg_run cs reg)"
  by (induction cs arbitrary: reg) (auto intro: registry_sound_run)

lemma revision_of_nonzero: "0 < n \<Longrightarrow> n \<le> usize_max \<Longrightarrow> revision_get (revision_of n) \<noteq> 0"
  using revision_of_get [of n] by (metis less_numeral_extra(3) unat_0)

lemma revision_of_succ:
  "n < usize_max \<Longrightarrow>
   checked_add (revision_get (revision_of n)) 1 = Some (revision_get (revision_of (n + 1)))"
  by (simp add: checked_add_def revision_of_get) (simp add: revision_of_def)

lemma registry_sound_declaration:
  assumes sound: "registry_sound reg" and h: "history reg sid = Some h"
    and i: "i < length (hist_declarations h)"
  shows "declaration_ok (hist_declarations h ! i)"
proof -
  have at: "declaration_at_ok (reg_store_id reg) sid (hist_binding h) i (hist_declarations h ! i)"
    using history_declaration [OF registry_ok_history] sound h i
    by (auto simp: registry_sound_def history_def)
  have "hist_series_id h = sid"
    using registry_ok_history sound h by (auto simp: registry_sound_def history_def history_ok_def)
  then have c: "identity_ok (reg_store_id reg)" "identity_ok sid" "binding_ok (hist_binding h)"
    "payload_ok (decl_payload (hist_declarations h ! i))"
    "declaration_evidence_ok (decl_evidence (hist_declarations h ! i))"
    using sound h i
    by (auto simp: registry_sound_def registry_content_ok_def history_content_ok_def history_def list_all_length)
  have len: "length (hist_declarations h) \<le> usize_max"
    using history_length_bound [of reg sid h] sound h by (simp add: registry_sound_def)
  have first: "i \<noteq> 0 \<Longrightarrow> revision_of (i + 1) \<noteq> REVISION_FIRST"
    using len i revision_of_inj [of "i + 1" 1] by (simp add: revision_of_def REVISION_FIRST_def)
  show ?thesis
    using at c len i first revision_of_nonzero [of "i + 1"] revision_of_nonzero [of i] revision_of_succ [of i]
    by (auto simp: declaration_ok_def declaration_at_ok_def REVISION_FIRST_def revision_of_def)
qed

end
