(* ===== verification/Och_Source.thy ===== *)
theory Och_Source
  imports Och_Registry
begin

text \<open>
  Source and capture provenance and the declaration-authorized canonical admission
  (\<^verbatim>\<open>och-core/src/source.rs\<close>): the retained evidence records, the capture lifecycle, the
  admission validators in the order the code runs them, and the contract an admission
  satisfies once constructed.
\<close>

definition MAX_SOURCE_OBSERVATION_CONTEXTS :: nat where
  "MAX_SOURCE_OBSERVATION_CONTEXTS = MAX_OBSERVATIONS"
definition MAX_SOURCE_GAP_CONTEXTS :: nat where
  "MAX_SOURCE_GAP_CONTEXTS = MAX_GAPS"

section \<open>Evidence records\<close>

datatype SourceSchemaIdentity = SourceSchemaIdentity (schema_reference: DeclarationReference)

definition source_schema_identity_new :: "rust_string \<Rightarrow> (ModelError, SourceSchemaIdentity) result" where
  "source_schema_identity_new value = map_ok SourceSchemaIdentity (declaration_reference_new value)"

datatype SourceSchemaVersion = SourceSchemaVersion (schema_version_get: u128)

definition source_schema_version_new :: "u128 \<Rightarrow> (ModelError, SourceSchemaVersion) result" where
  "source_schema_version_new value =
     (if value = 0 then Inl InvalidSourceSchemaVersion else Inr (SourceSchemaVersion value))"

datatype SourceIntervalKind = SourceObserved | SourceNoChange

record SourceBatchMetadata =
  batch_schema :: SourceSchemaIdentity
  batch_version :: SourceSchemaVersion
  batch_interval :: SourceIntervalKind

record SourceSystemEvidence =
  sys_evidence_id :: EvidenceId
  sys_provider :: DeclarationReference
  sys_projection :: SourceProjection

record SourceEndpointEvidence =
  ep_evidence_id :: EvidenceId
  ep_system_id :: EvidenceId
  ep_locator :: DeclarationReference

record CaptureRunEvidence =
  run_evidence_id :: EvidenceId
  run_endpoint_id :: EvidenceId
  run_started_at :: Timestamp
  run_completed_at :: "Timestamp option"

definition capture_run_new ::
  "EvidenceId \<Rightarrow> EvidenceId \<Rightarrow> Timestamp \<Rightarrow> Timestamp option \<Rightarrow> (ModelError, CaptureRunEvidence) result" where
  "capture_run_new evidence_id endpoint_id started_at completed_at =
     (if is_some_and (\<lambda>completed. completed < started_at) completed_at then Inl CaptureRunTimeOrder
      else Inr \<lparr>run_evidence_id = evidence_id, run_endpoint_id = endpoint_id,
                run_started_at = started_at, run_completed_at = completed_at\<rparr>)"

record SourceSnapshotEvidence =
  snapshot_evidence_id :: EvidenceId
  snapshot_run_id :: EvidenceId
  snapshot_artifact :: ArtifactReference

record CaptureLifecycle =
  lc_system :: SourceSystemEvidence
  lc_endpoint :: SourceEndpointEvidence
  lc_run :: CaptureRunEvidence
  lc_snapshot :: SourceSnapshotEvidence

definition capture_lifecycle_new ::
  "SourceSystemEvidence \<Rightarrow> SourceEndpointEvidence \<Rightarrow> CaptureRunEvidence \<Rightarrow> SourceSnapshotEvidence \<Rightarrow>
   (ModelError, CaptureLifecycle) result" where
  "capture_lifecycle_new system endpoint run snapshot =
     (if ep_system_id endpoint \<noteq> sys_evidence_id system then Inl SourceEndpointSystemMismatch
      else if run_endpoint_id run \<noteq> ep_evidence_id endpoint then Inl CaptureRunEndpointMismatch
      else if snapshot_run_id snapshot \<noteq> run_evidence_id run then Inl SourceSnapshotRunMismatch
      else Inr \<lparr>lc_system = system, lc_endpoint = endpoint, lc_run = run, lc_snapshot = snapshot\<rparr>)"

record SourceIdempotency =
  idem_key :: RetryKey
  idem_content :: ContentIdentity

datatype SourceTransport = New | Redelivered

record SourceInterpretation =
  interp_source :: SourceReference
  interp_application :: "DeclarationReference option"
  interp_quantity :: QuantityEvidence
  interp_unit :: UnitEvidence

record SourceObservationEvidence =
  so_evidence_id :: EvidenceId
  so_provenance_artifact :: "ArtifactReference option"
  so_transport :: SourceTransport
  so_idempotency :: "SourceIdempotency option"

record RawRecordEvidence =
  raw_evidence_id :: EvidenceId
  raw_snapshot_id :: EvidenceId
  raw_artifact :: ArtifactReference
  raw_idempotency :: "SourceIdempotency option"

record NormalizedRecordEvidence =
  norm_evidence_id :: EvidenceId
  norm_raw_record_id :: EvidenceId
  norm_content :: ContentIdentity
  norm_observation_evidence_id :: EvidenceId

record SourceObservationContext =
  ctx_ordinal :: u8
  ctx_canonical_observation_id :: ObservationId
  ctx_interpretation :: SourceInterpretation
  ctx_observation :: SourceObservationEvidence
  ctx_raw :: RawRecordEvidence
  ctx_normalized :: NormalizedRecordEvidence

record SourceObservationLineage =
  lin_ordinal :: u8
  lin_canonical_observation_id :: ObservationId
  lin_observation :: SourceObservationEvidence
  lin_raw :: RawRecordEvidence
  lin_normalized :: NormalizedRecordEvidence

datatype SourceGapReason = SourceGapCommunicationFailure | SourceGapSourceUnavailable
  | SourceGapProducerReset | SourceGapFiltered | SourceGapUnknown

record SourceGapEvidence =
  sg_epoch :: ProducerEpoch
  sg_start :: ProducerSequence
  sg_end :: ProducerSequence
  sg_reason :: SourceGapReason

definition source_gap_new ::
  "ProducerEpoch \<Rightarrow> ProducerSequence \<Rightarrow> ProducerSequence \<Rightarrow> SourceGapReason \<Rightarrow>
   (ModelError, SourceGapEvidence) result" where
  "source_gap_new ep start stop reason =
     (if start \<ge> stop then Inl EmptyGap
      else Inr \<lparr>sg_epoch = ep, sg_start = start, sg_end = stop, sg_reason = reason\<rparr>)"

datatype AdmissionEvidence =
    AdmissionObserved "SourceObservationLineage list" "SourceGapEvidence list"
  | AdmissionNoChange

record CanonicalAdmission =
  adm_store_id :: StoreId
  adm_declaration :: SeriesDeclaration
  adm_envelope :: CollectionEnvelope
  adm_retry :: RetryQualification
  adm_batch :: SourceBatchMetadata
  adm_lifecycle :: CaptureLifecycle
  adm_evidence :: AdmissionEvidence

section \<open>Validation\<close>

definition interval_of_evidence :: "EvidenceKind \<Rightarrow> SourceIntervalKind" where
  "interval_of_evidence k = (case k of
     EvidenceObserved \<Rightarrow> SourceObserved | EvidenceNoChange \<Rightarrow> SourceNoChange)"

definition validate_common ::
  "DeclaredCollectionEnvelope \<Rightarrow> RetryQualification \<Rightarrow> SourceBatchMetadata \<Rightarrow> CaptureLifecycle \<Rightarrow>
   SourceIntervalKind \<Rightarrow> (ModelError, unit) result" where
  "validate_common declared retry batch lc expected_interval =
     (let declaration = dce_declaration declared;
          envelope = dce_envelope declared in
      if rq_series_id retry \<noteq> md_series_id (env_series envelope)
         \<or> rq_producer_id retry \<noteq> md_producer_id (env_series envelope)
      then Inl AdmissionRetryScopeMismatch
      else
        let envelope_interval = interval_of_evidence (env_evidence_kind envelope) in
        if batch_interval batch \<noteq> expected_interval \<or> envelope_interval \<noteq> expected_interval
        then Inl SourceIntervalMismatch
        else
          let source = binding_source (decl_binding declaration) in
          and_then (ok_or SourceProjectionRequired (src_projection source)) (\<lambda>projection.
          if sys_provider (lc_system lc) \<noteq> src_provider source
             \<or> sys_projection (lc_system lc) \<noteq> projection
             \<or> ep_locator (lc_endpoint lc) \<noteq> src_locator source
          then Inl SourceLifecycleBindingMismatch
          else Inr ()))"

text \<open>The loops that insert identities into the \<open>HashSet\<close>, refusing a repeated one.\<close>

fun insert_evidence_ids ::
  "EvidenceId list \<Rightarrow> EvidenceId set \<Rightarrow> (ModelError, EvidenceId set) result" where
  "insert_evidence_ids [] identities = Inr identities"
| "insert_evidence_ids (evidence_id # rest) identities =
     (if evidence_id \<in> identities then Inl DuplicateSourceEvidenceId
      else insert_evidence_ids rest (insert evidence_id identities))"

definition lifecycle_ids :: "CaptureLifecycle \<Rightarrow> EvidenceId list" where
  "lifecycle_ids lc = [sys_evidence_id (lc_system lc), ep_evidence_id (lc_endpoint lc),
     run_evidence_id (lc_run lc), snapshot_evidence_id (lc_snapshot lc)]"

definition lifecycle_evidence_ids :: "CaptureLifecycle \<Rightarrow> (ModelError, EvidenceId set) result" where
  "lifecycle_evidence_ids lc = insert_evidence_ids (lifecycle_ids lc) {}"

fun validate_observations ::
  "SeriesDeclaration \<Rightarrow> CaptureLifecycle \<Rightarrow> u8 option \<Rightarrow> EvidenceId set \<Rightarrow>
   (SourceObservationContext \<times> Observation) list \<Rightarrow> (ModelError, unit) result" where
  "validate_observations declaration lc previous_ordinal evidence_ids [] = Inr ()"
| "validate_observations declaration lc previous_ordinal evidence_ids ((context, canonical) # rest) =
     (let declaration_source = binding_source (decl_binding declaration);
          payload = decl_payload declaration in
      if ctx_canonical_observation_id context \<noteq> obs_id canonical
      then Inl SourceObservationAssociationMismatch
      else if is_some_and (\<lambda>previous. previous \<ge> ctx_ordinal context) previous_ordinal
      then Inl MisorderedSourceRecordOrdinals
      else if interp_source (ctx_interpretation context) \<noteq> declaration_source
        \<or> interp_application (ctx_interpretation context) \<noteq> pl_application payload
        \<or> interp_quantity (ctx_interpretation context) \<noteq> pl_quantity payload
        \<or> interp_unit (ctx_interpretation context) \<noteq> pl_unit payload
      then Inl SourceInterpretationMismatch
      else and_then (insert_evidence_ids [so_evidence_id (ctx_observation context),
             raw_evidence_id (ctx_raw context), norm_evidence_id (ctx_normalized context)] evidence_ids)
        (\<lambda>evidence_ids'.
        if raw_snapshot_id (ctx_raw context) \<noteq> snapshot_evidence_id (lc_snapshot lc)
        then Inl SourceRawSnapshotMismatch
        else if norm_raw_record_id (ctx_normalized context) \<noteq> raw_evidence_id (ctx_raw context)
        then Inl SourceNormalizedRawMismatch
        else if norm_observation_evidence_id (ctx_normalized context)
          \<noteq> so_evidence_id (ctx_observation context)
        then Inl SourceNormalizedObservationMismatch
        else if is_some_and (\<lambda>idempotency. idem_content idempotency
             \<noteq> artifact_content (raw_artifact (ctx_raw context))) (raw_idempotency (ctx_raw context))
        then Inl SourceRawIdempotencyMismatch
        else validate_observations declaration lc (Some (ctx_ordinal context)) evidence_ids' rest))"

definition gap_range_differs :: "Gap \<Rightarrow> SourceGapEvidence \<Rightarrow> bool" where
  "gap_range_differs canonical source \<longleftrightarrow> gap_epoch canonical \<noteq> sg_epoch source
     \<or> gap_start canonical \<noteq> sg_start source \<or> gap_end canonical \<noteq> sg_end source"

definition validate_gaps ::
  "CollectionEnvelope \<Rightarrow> SourceGapEvidence list \<Rightarrow> (ModelError, unit) result" where
  "validate_gaps envelope gaps =
     (if list_ex (\<lambda>(canonical, source). gap_range_differs canonical source) (zip (env_gaps envelope) gaps)
      then Inl SourceGapMismatch else Inr ())"

definition retain_lineage :: "SourceObservationContext \<Rightarrow> SourceObservationLineage" where
  "retain_lineage context =
     \<lparr>lin_ordinal = ctx_ordinal context,
      lin_canonical_observation_id = ctx_canonical_observation_id context,
      lin_observation = ctx_observation context, lin_raw = ctx_raw context,
      lin_normalized = ctx_normalized context\<rparr>"

definition admission_observed ::
  "DeclaredCollectionEnvelope \<Rightarrow> RetryQualification \<Rightarrow> SourceBatchMetadata \<Rightarrow> CaptureLifecycle \<Rightarrow>
   SourceObservationContext list \<Rightarrow> SourceGapEvidence list \<Rightarrow> (ModelError, CanonicalAdmission) result" where
  "admission_observed declared retry batch lc observations gaps =
     and_then (validate_common declared retry batch lc SourceObserved) (\<lambda>_.
       let envelope = dce_envelope declared in
       if length observations > MAX_SOURCE_OBSERVATION_CONTEXTS then Inl TooManySourceObservationContexts
       else if length observations \<noteq> length (env_observations envelope)
       then Inl SourceObservationCountMismatch
       else if length gaps > MAX_SOURCE_GAP_CONTEXTS then Inl TooManySourceGapContexts
       else if length gaps \<noteq> length (env_gaps envelope) then Inl SourceGapCountMismatch
       else and_then (lifecycle_evidence_ids lc) (\<lambda>evidence_ids.
         and_then (validate_observations (dce_declaration declared) lc None evidence_ids
             (zip observations (env_observations envelope))) (\<lambda>_.
         and_then (validate_gaps envelope gaps) (\<lambda>_.
         Inr \<lparr>adm_store_id = dce_store_id declared, adm_declaration = dce_declaration declared,
              adm_envelope = envelope, adm_retry = retry, adm_batch = batch, adm_lifecycle = lc,
              adm_evidence = AdmissionObserved (map retain_lineage observations) gaps\<rparr>))))"

definition admission_no_change ::
  "DeclaredCollectionEnvelope \<Rightarrow> RetryQualification \<Rightarrow> SourceBatchMetadata \<Rightarrow> CaptureLifecycle \<Rightarrow>
   (ModelError, CanonicalAdmission) result" where
  "admission_no_change declared retry batch lc =
     and_then (validate_common declared retry batch lc SourceNoChange) (\<lambda>_.
     and_then (lifecycle_evidence_ids lc) (\<lambda>_.
     Inr \<lparr>adm_store_id = dce_store_id declared, adm_declaration = dce_declaration declared,
          adm_envelope = dce_envelope declared, adm_retry = retry, adm_batch = batch,
          adm_lifecycle = lc, adm_evidence = AdmissionNoChange\<rparr>))"

definition adm_evidence_kind :: "CanonicalAdmission \<Rightarrow> SourceIntervalKind" where
  "adm_evidence_kind a = (case adm_evidence a of
     AdmissionObserved _ _ \<Rightarrow> SourceObserved | AdmissionNoChange \<Rightarrow> SourceNoChange)"

definition adm_observations :: "CanonicalAdmission \<Rightarrow> SourceObservationLineage list" where
  "adm_observations a = (case adm_evidence a of
     AdmissionObserved observations _ \<Rightarrow> observations | AdmissionNoChange \<Rightarrow> [])"

definition adm_gaps :: "CanonicalAdmission \<Rightarrow> SourceGapEvidence list" where
  "adm_gaps a = (case adm_evidence a of
     AdmissionObserved _ gaps \<Rightarrow> gaps | AdmissionNoChange \<Rightarrow> [])"

section \<open>The declarative contract of an admission\<close>

definition context_ids :: "SourceObservationContext \<Rightarrow> EvidenceId list" where
  "context_ids c = [so_evidence_id (ctx_observation c), raw_evidence_id (ctx_raw c),
     norm_evidence_id (ctx_normalized c)]"

definition lineage_ids :: "SourceObservationLineage \<Rightarrow> EvidenceId list" where
  "lineage_ids l = [so_evidence_id (lin_observation l), raw_evidence_id (lin_raw l),
     norm_evidence_id (lin_normalized l)]"

definition interpretation_matches :: "SeriesDeclaration \<Rightarrow> SourceInterpretation \<Rightarrow> bool" where
  "interpretation_matches d i \<longleftrightarrow>
     i = \<lparr>interp_source = binding_source (decl_binding d),
          interp_application = pl_application (decl_payload d),
          interp_quantity = pl_quantity (decl_payload d), interp_unit = pl_unit (decl_payload d)\<rparr>"

definition lineage_linked :: "CaptureLifecycle \<Rightarrow> SourceObservationLineage \<Rightarrow> bool" where
  "lineage_linked lc l \<longleftrightarrow>
     raw_snapshot_id (lin_raw l) = snapshot_evidence_id (lc_snapshot lc) \<and>
     norm_raw_record_id (lin_normalized l) = raw_evidence_id (lin_raw l) \<and>
     norm_observation_evidence_id (lin_normalized l) = so_evidence_id (lin_observation l) \<and>
     (\<forall>i. raw_idempotency (lin_raw l) = Some i \<longrightarrow> idem_content i = artifact_content (raw_artifact (lin_raw l)))"

text \<open>The relations between the parts of an admission, as one predicate over the finished value.\<close>

definition admission_related :: "CanonicalAdmission \<Rightarrow> bool" where
  "admission_related a \<longleftrightarrow>
     (let d = adm_declaration a; env = adm_envelope a; lc = adm_lifecycle a;
          source = binding_source (decl_binding d) in
      adm_store_id a = decl_store_id d \<and>
      env_series env = payload_series_metadata (decl_payload d) (decl_series_id d) \<and>
      (\<forall>ob \<in> set (env_observations env). admits (pl_value_family (decl_payload d)) (obs_value ob)) \<and>
      rq_series_id (adm_retry a) = decl_series_id d \<and>
      rq_producer_id (adm_retry a) = pl_producer_id (decl_payload d) \<and>
      batch_interval (adm_batch a) = adm_evidence_kind a \<and>
      interval_of_evidence (env_evidence_kind env) = adm_evidence_kind a \<and>
      src_provider source = sys_provider (lc_system lc) \<and>
      src_projection source = Some (sys_projection (lc_system lc)) \<and>
      src_locator source = ep_locator (lc_endpoint lc) \<and>
      map lin_canonical_observation_id (adm_observations a) = map obs_id (env_observations env) \<and>
      sorted_wrt (<) (map lin_ordinal (adm_observations a)) \<and>
      list_all (lineage_linked lc) (adm_observations a) \<and>
      list_all2 (\<lambda>g s. \<not> gap_range_differs g s) (env_gaps env) (adm_gaps a) \<and>
      distinct (lifecycle_ids lc @ concat (map lineage_ids (adm_observations a))))"

section \<open>The validators decide the contract\<close>

lemma insert_evidence_ids_iff:
  "insert_evidence_ids xs S = Inr T \<longleftrightarrow> distinct xs \<and> set xs \<inter> S = {} \<and> T = S \<union> set xs"
  by (induction xs arbitrary: S) auto

lemma validate_common_iff:
  "validate_common declared retry batch lc k = Inr () \<longleftrightarrow>
   rq_series_id retry = md_series_id (env_series (dce_envelope declared)) \<and>
   rq_producer_id retry = md_producer_id (env_series (dce_envelope declared)) \<and>
   batch_interval batch = k \<and> interval_of_evidence (env_evidence_kind (dce_envelope declared)) = k \<and>
   (let source = binding_source (decl_binding (dce_declaration declared)) in
    src_provider source = sys_provider (lc_system lc) \<and>
    src_projection source = Some (sys_projection (lc_system lc)) \<and>
    src_locator source = ep_locator (lc_endpoint lc))"
  by (auto simp: validate_common_def Let_def result_convs)

lemma interpretation_matches_iff:
  "interpretation_matches d i \<longleftrightarrow>
     interp_source i = binding_source (decl_binding d) \<and>
     interp_application i = pl_application (decl_payload d) \<and>
     interp_quantity i = pl_quantity (decl_payload d) \<and> interp_unit i = pl_unit (decl_payload d)"
  by (cases i) (auto simp: interpretation_matches_def)

definition context_valid ::
  "SeriesDeclaration \<Rightarrow> CaptureLifecycle \<Rightarrow> SourceObservationContext \<times> Observation \<Rightarrow> bool" where
  "context_valid d lc p \<longleftrightarrow> ctx_canonical_observation_id (fst p) = obs_id (snd p) \<and>
     interpretation_matches d (ctx_interpretation (fst p)) \<and> lineage_linked lc (retain_lineage (fst p))"

lemma validate_observations_Cons_iff:
  "validate_observations d lc prev S ((c, ob) # rest) = Inr () \<longleftrightarrow>
   context_valid d lc (c, ob) \<and> (\<forall>p. prev = Some p \<longrightarrow> p < ctx_ordinal c) \<and>
   distinct (context_ids c) \<and> set (context_ids c) \<inter> S = {} \<and>
   validate_observations d lc (Some (ctx_ordinal c)) (S \<union> set (context_ids c)) rest = Inr ()"
proof -
  have i: "insert_evidence_ids [so_evidence_id (ctx_observation c), raw_evidence_id (ctx_raw c),
      norm_evidence_id (ctx_normalized c)] S = insert_evidence_ids (context_ids c) S"
    by (simp only: context_ids_def)
  show ?thesis
    unfolding validate_observations.simps i Let_def context_valid_def interpretation_matches_iff
      lineage_linked_def retain_lineage_def
    by (cases prev; cases "raw_idempotency (ctx_raw c)")
      (auto simp: result_convs insert_evidence_ids_iff not_le)
qed

lemma validate_observations_iff:
  "validate_observations d lc prev S ps = Inr () \<longleftrightarrow>
   list_all (context_valid d lc) ps \<and>
   sorted_wrt (<) (map (ctx_ordinal \<circ> fst) ps) \<and>
   (\<forall>p. prev = Some p \<longrightarrow> (\<forall>q \<in> set ps. p < ctx_ordinal (fst q))) \<and>
   distinct (concat (map (context_ids \<circ> fst) ps)) \<and>
   set (concat (map (context_ids \<circ> fst) ps)) \<inter> S = {}"
proof (induction ps arbitrary: prev S)
  case Nil
  then show ?case by simp
next
  case (Cons q ps)
  obtain c ob where q: "q = (c, ob)" by (cases q)
  let ?ids = "concat (map (context_ids \<circ> fst) ps)"
  have step: "validate_observations d lc prev S (q # ps) = Inr () \<longleftrightarrow>
    context_valid d lc q \<and> (\<forall>p. prev = Some p \<longrightarrow> p < ctx_ordinal c) \<and>
    distinct (context_ids c) \<and> set (context_ids c) \<inter> S = {} \<and>
    list_all (context_valid d lc) ps \<and> sorted_wrt (<) (map (ctx_ordinal \<circ> fst) ps) \<and>
    (\<forall>r \<in> set ps. ctx_ordinal c < ctx_ordinal (fst r)) \<and>
    distinct ?ids \<and> set ?ids \<inter> (S \<union> set (context_ids c)) = {}"
    unfolding q validate_observations_Cons_iff Cons.IH by auto
  have prevs: "(\<forall>p. prev = Some p \<longrightarrow> p < ctx_ordinal c) \<and> (\<forall>r \<in> set ps. ctx_ordinal c < ctx_ordinal (fst r)) \<longleftrightarrow>
    (\<forall>r \<in> set ps. ctx_ordinal c < ctx_ordinal (fst r)) \<and>
    (\<forall>p. prev = Some p \<longrightarrow> (\<forall>r \<in> set (q # ps). p < ctx_ordinal (fst r)))"
    using less_trans [of _ "ctx_ordinal c"] by (auto simp: q)
  have disj: "set (context_ids c) \<inter> S = {} \<and> set ?ids \<inter> (S \<union> set (context_ids c)) = {} \<longleftrightarrow>
      set (context_ids c) \<inter> set ?ids = {} \<and> (set (context_ids c) \<union> set ?ids) \<inter> S = {}"
    by blast
  have sorted: "sorted_wrt (<) (map (ctx_ordinal \<circ> fst) (q # ps)) \<longleftrightarrow>
      (\<forall>r \<in> set ps. ctx_ordinal c < ctx_ordinal (fst r)) \<and> sorted_wrt (<) (map (ctx_ordinal \<circ> fst) ps)"
    by (auto simp: q)
  have ids: "concat (map (context_ids \<circ> fst) (q # ps)) = context_ids c @ ?ids"
    by (simp add: q)
  show ?case
    unfolding step sorted ids distinct_append set_append list.pred_inject
    using prevs disj by argo
qed

lemma retain_lineage_ids: "lineage_ids (retain_lineage c) = context_ids c"
  by (simp add: lineage_ids_def context_ids_def retain_lineage_def)

lemma validate_gaps_iff:
  "length gaps = length (env_gaps env) \<Longrightarrow>
   validate_gaps env gaps = Inr () \<longleftrightarrow> list_all2 (\<lambda>g s. \<not> gap_range_differs g s) (env_gaps env) gaps"
  by (auto simp: validate_gaps_def list_ex_iff list_all2_iff)

lemma lifecycle_evidence_ids_iff:
  "lifecycle_evidence_ids lc = Inr S \<longleftrightarrow> distinct (lifecycle_ids lc) \<and> S = set (lifecycle_ids lc)"
  by (auto simp: lifecycle_evidence_ids_def insert_evidence_ids_iff)

text \<open>Acceptance of observed evidence is exactly the declarative conjunction.\<close>

definition contexts_spec ::
  "SeriesDeclaration \<Rightarrow> CaptureLifecycle \<Rightarrow> SourceObservationContext list \<Rightarrow> Observation list \<Rightarrow> bool" where
  "contexts_spec d lc ctxs obs \<longleftrightarrow>
     map ctx_canonical_observation_id ctxs = map obs_id obs \<and>
     sorted_wrt (<) (map ctx_ordinal ctxs) \<and>
     (\<forall>c \<in> set ctxs. interpretation_matches d (ctx_interpretation c) \<and> lineage_linked lc (retain_lineage c)) \<and>
     distinct (lifecycle_ids lc @ concat (map context_ids ctxs))"

lemma context_valid_zip:
  assumes "length ctxs = length obs"
  shows "list_all (context_valid d lc) (zip ctxs obs) \<longleftrightarrow>
    map ctx_canonical_observation_id ctxs = map obs_id obs \<and>
    (\<forall>c \<in> set ctxs. interpretation_matches d (ctx_interpretation c) \<and> lineage_linked lc (retain_lineage c))"
  using assms by (induction ctxs obs rule: list_induct2) (auto simp: context_valid_def)

lemma validate_contexts_iff:
  assumes "length ctxs = length obs" "distinct (lifecycle_ids lc)"
  shows "validate_observations d lc None (set (lifecycle_ids lc)) (zip ctxs obs) = Inr () \<longleftrightarrow>
    contexts_spec d lc ctxs obs"
proof -
  have f: "map (f \<circ> fst) (zip ctxs obs) = map f ctxs" for f :: "SourceObservationContext \<Rightarrow> 'x"
    using assms(1) map_fst_zip [of ctxs obs] by (simp flip: map_map)
  have "validate_observations d lc None (set (lifecycle_ids lc)) (zip ctxs obs) = Inr () \<longleftrightarrow>
    list_all (context_valid d lc) (zip ctxs obs) \<and> sorted_wrt (<) (map ctx_ordinal ctxs) \<and>
    distinct (concat (map context_ids ctxs)) \<and>
    set (concat (map context_ids ctxs)) \<inter> set (lifecycle_ids lc) = {}"
    unfolding validate_observations_iff f by simp
  then show ?thesis
    unfolding contexts_spec_def context_valid_zip [OF assms(1)] distinct_append
    using assms(2) by blast
qed

lemma admission_observed_iff:
  "admission_observed declared retry batch lc ctxs gaps = Inr a \<longleftrightarrow>
   validate_common declared retry batch lc SourceObserved = Inr () \<and>
   length ctxs \<le> MAX_SOURCE_OBSERVATION_CONTEXTS \<and> length gaps \<le> MAX_SOURCE_GAP_CONTEXTS \<and>
   contexts_spec (dce_declaration declared) lc ctxs (env_observations (dce_envelope declared)) \<and>
   list_all2 (\<lambda>g s. \<not> gap_range_differs g s) (env_gaps (dce_envelope declared)) gaps \<and>
   a = \<lparr>adm_store_id = dce_store_id declared, adm_declaration = dce_declaration declared,
        adm_envelope = dce_envelope declared, adm_retry = retry, adm_batch = batch, adm_lifecycle = lc,
        adm_evidence = AdmissionObserved (map retain_lineage ctxs) gaps\<rparr>"
  (is "?L \<longleftrightarrow> ?R")
proof
  assume L: ?L
  then have len: "length ctxs = length (env_observations (dce_envelope declared))"
      "length gaps = length (env_gaps (dce_envelope declared))"
    and d: "distinct (lifecycle_ids lc)"
    by (auto simp: admission_observed_def Let_def result_convs lifecycle_evidence_ids_iff)
  from L show ?R
    unfolding validate_contexts_iff [OF len(1) d, symmetric] validate_gaps_iff [OF len(2), symmetric]
    by (auto simp: admission_observed_def Let_def result_convs lifecycle_evidence_ids_iff not_less)
next
  assume R: ?R
  then have len: "length ctxs = length (env_observations (dce_envelope declared))"
      "length gaps = length (env_gaps (dce_envelope declared))"
    and d: "distinct (lifecycle_ids lc)"
    by (auto simp: contexts_spec_def dest: map_eq_imp_length_eq list_all2_lengthD)
  have ids: "lifecycle_evidence_ids lc = Inr (set (lifecycle_ids lc))"
    using d by (simp add: lifecycle_evidence_ids_iff)
  from R show ?L
    unfolding validate_contexts_iff [OF len(1) d, symmetric] validate_gaps_iff [OF len(2), symmetric]
    using len by (simp add: admission_observed_def ids)
qed

lemma admission_no_change_iff:
  "admission_no_change declared retry batch lc = Inr a \<longleftrightarrow>
   validate_common declared retry batch lc SourceNoChange = Inr () \<and> distinct (lifecycle_ids lc) \<and>
   a = \<lparr>adm_store_id = dce_store_id declared, adm_declaration = dce_declaration declared,
        adm_envelope = dce_envelope declared, adm_retry = retry, adm_batch = batch,
        adm_lifecycle = lc, adm_evidence = AdmissionNoChange\<rparr>"
  by (auto simp: admission_no_change_def result_convs lifecycle_evidence_ids_iff)

section \<open>Type invariants of source evidence\<close>

definition batch_ok :: "SourceBatchMetadata \<Rightarrow> bool" where
  "batch_ok b \<longleftrightarrow> reference_ok (schema_reference (batch_schema b)) \<and> schema_version_get (batch_version b) \<noteq> 0"

definition run_ok :: "CaptureRunEvidence \<Rightarrow> bool" where
  "run_ok r \<longleftrightarrow> identity_ok (run_evidence_id r) \<and> identity_ok (run_endpoint_id r) \<and>
     timestamp_ok (run_started_at r) \<and>
     pred_option (\<lambda>t. timestamp_ok t \<and> run_started_at r \<le> t) (run_completed_at r)"

definition lifecycle_ok :: "CaptureLifecycle \<Rightarrow> bool" where
  "lifecycle_ok lc \<longleftrightarrow>
     identity_ok (sys_evidence_id (lc_system lc)) \<and> reference_ok (sys_provider (lc_system lc)) \<and>
     projection_ok (sys_projection (lc_system lc)) \<and>
     identity_ok (ep_evidence_id (lc_endpoint lc)) \<and> reference_ok (ep_locator (lc_endpoint lc)) \<and>
     run_ok (lc_run lc) \<and>
     identity_ok (snapshot_evidence_id (lc_snapshot lc)) \<and> artifact_ok (snapshot_artifact (lc_snapshot lc)) \<and>
     ep_system_id (lc_endpoint lc) = sys_evidence_id (lc_system lc) \<and>
     run_endpoint_id (lc_run lc) = ep_evidence_id (lc_endpoint lc) \<and>
     snapshot_run_id (lc_snapshot lc) = run_evidence_id (lc_run lc)"

definition idempotency_ok :: "SourceIdempotency \<Rightarrow> bool" where
  "idempotency_ok i \<longleftrightarrow> retry_key_ok (idem_key i) \<and> content_ok (idem_content i)"

definition source_observation_ok :: "SourceObservationEvidence \<Rightarrow> bool" where
  "source_observation_ok o' \<longleftrightarrow> identity_ok (so_evidence_id o') \<and>
     pred_option artifact_ok (so_provenance_artifact o') \<and> pred_option idempotency_ok (so_idempotency o')"

definition raw_record_ok :: "RawRecordEvidence \<Rightarrow> bool" where
  "raw_record_ok r \<longleftrightarrow> identity_ok (raw_evidence_id r) \<and> identity_ok (raw_snapshot_id r) \<and>
     artifact_ok (raw_artifact r) \<and> pred_option idempotency_ok (raw_idempotency r)"

definition normalized_record_ok :: "NormalizedRecordEvidence \<Rightarrow> bool" where
  "normalized_record_ok n \<longleftrightarrow> identity_ok (norm_evidence_id n) \<and> identity_ok (norm_raw_record_id n) \<and>
     content_ok (norm_content n) \<and> identity_ok (norm_observation_evidence_id n)"

definition lineage_ok :: "SourceObservationLineage \<Rightarrow> bool" where
  "lineage_ok l \<longleftrightarrow> identity_ok (lin_canonical_observation_id l) \<and>
     source_observation_ok (lin_observation l) \<and> raw_record_ok (lin_raw l) \<and>
     normalized_record_ok (lin_normalized l)"

definition source_gap_ok :: "SourceGapEvidence \<Rightarrow> bool" where
  "source_gap_ok g \<longleftrightarrow> sg_start g < sg_end g"

definition envelope_ok :: "CollectionEnvelope \<Rightarrow> bool" where
  "envelope_ok e \<longleftrightarrow> metadata_ok (env_series e) \<and>
     (case env_evidence e of
        ObservedEvidence obs gaps \<Rightarrow> list_all observation_ok obs \<and> list_all gap_ok gaps \<and>
          observed_spec (md_collection_mode (env_series e)) obs gaps
      | NoChangeEvidence nc \<Rightarrow> md_collection_mode (env_series e) = ChangeOnly \<and>
          time_interval_ok (no_change_interval nc))"

lemma envelope_observed_ok:
  "envelope_observed md obs gaps = Inr e \<Longrightarrow> metadata_ok md \<Longrightarrow> list_all observation_ok obs \<Longrightarrow>
   list_all gap_ok gaps \<Longrightarrow> envelope_ok e"
  by (auto simp: envelope_observed_def envelope_ok_def result_convs validate_observed_iff)

lemma envelope_no_change_ok:
  "envelope_no_change md nc = Inr e \<Longrightarrow> metadata_ok md \<Longrightarrow> time_interval_ok (no_change_interval nc) \<Longrightarrow>
   envelope_ok e"
  by (auto simp: envelope_no_change_def envelope_ok_def result_convs)

lemma capture_run_new_iff:
  "capture_run_new e p s c = Inr r \<longleftrightarrow>
   r = \<lparr>run_evidence_id = e, run_endpoint_id = p, run_started_at = s, run_completed_at = c\<rparr> \<and>
   pred_option (\<lambda>t. s \<le> t) c"
  by (cases c) (auto simp: capture_run_new_def)

lemma capture_lifecycle_new_iff:
  "capture_lifecycle_new sys ep run snap = Inr lc \<longleftrightarrow>
   lc = \<lparr>lc_system = sys, lc_endpoint = ep, lc_run = run, lc_snapshot = snap\<rparr> \<and>
   ep_system_id ep = sys_evidence_id sys \<and> run_endpoint_id run = ep_evidence_id ep \<and>
   snapshot_run_id snap = run_evidence_id run"
  by (auto simp: capture_lifecycle_new_def)

lemma source_gap_new_iff:
  "source_gap_new e a b r = Inr g \<longleftrightarrow>
   g = \<lparr>sg_epoch = e, sg_start = a, sg_end = b, sg_reason = r\<rparr> \<and> source_gap_ok g"
  by (auto simp: source_gap_new_def source_gap_ok_def)

definition admission_ok :: "CanonicalAdmission \<Rightarrow> bool" where
  "admission_ok a \<longleftrightarrow> identity_ok (adm_store_id a) \<and> declaration_ok (adm_declaration a) \<and>
     envelope_ok (adm_envelope a) \<and> retry_ok (adm_retry a) \<and> batch_ok (adm_batch a) \<and>
     lifecycle_ok (adm_lifecycle a) \<and> list_all lineage_ok (adm_observations a) \<and>
     list_all source_gap_ok (adm_gaps a) \<and> admission_related a"

text \<open>The sanctioned route to an admission: a sound registry binds a valid envelope.\<close>

lemma registry_bind_declaration:
  assumes "registry_sound reg" "registry_bind env reg = Inr declared"
  shows "declaration_ok (dce_declaration declared)"
    and "dce_store_id declared = decl_store_id (dce_declaration declared)"
    and "decl_series_id (dce_declaration declared) = md_series_id (env_series env)"
    and "dce_envelope declared = env"
    and "env_series env = payload_series_metadata (decl_payload (dce_declaration declared)) (decl_series_id (dce_declaration declared))"
    and "\<forall>ob \<in> set (env_observations env). admits (pl_value_family (decl_payload (dce_declaration declared))) (obs_value ob)"
proof -
  obtain h d where h: "history reg (md_series_id (env_series env)) = Some h"
    and d: "latest_declaration h = Some d"
    and m: "env_series env = payload_series_metadata (decl_payload d) (md_series_id (env_series env))"
    and v: "\<forall>ob \<in> set (env_observations env). admits (pl_value_family (decl_payload d)) (obs_value ob)"
    and b: "declared = \<lparr>dce_store_id = reg_store_id reg, dce_declaration = d, dce_envelope = env\<rparr>"
    using assms(2) unfolding registry_bind_iff by blast
  have ne: "hist_declarations h \<noteq> []" and dl: "d = last (hist_declarations h)"
    using d by (auto simp: latest_declaration_def split: if_splits)
  define i where "i = length (hist_declarations h) - 1"
  have i: "i < length (hist_declarations h)" "d = hist_declarations h ! i"
    using ne dl by (auto simp: i_def last_conv_nth)
  have ok: "registry_ok reg" using assms(1) by (simp add: registry_sound_def)
  have at: "declaration_at_ok (reg_store_id reg) (md_series_id (env_series env)) (hist_binding h) i d"
    using history_declaration [OF registry_ok_history [OF ok]] h i by (simp add: history_def)
  show "declaration_ok (dce_declaration declared)"
    using registry_sound_declaration [OF assms(1) h i(1)] by (simp add: b i(2))
  show "dce_store_id declared = decl_store_id (dce_declaration declared)"
    "decl_series_id (dce_declaration declared) = md_series_id (env_series env)"
    "dce_envelope declared = env"
    using at by (simp_all add: b declaration_at_ok_def)
  show "env_series env = payload_series_metadata (decl_payload (dce_declaration declared)) (decl_series_id (dce_declaration declared))"
    using m at by (simp add: b declaration_at_ok_def)
  show "\<forall>ob \<in> set (env_observations env). admits (pl_value_family (decl_payload (dce_declaration declared))) (obs_value ob)"
    using v by (simp add: b)
qed

definition context_ok :: "SourceObservationContext \<Rightarrow> bool" where
  "context_ok c \<longleftrightarrow> lineage_ok (retain_lineage c)"

lemma admission_observed_ok:
  assumes reg: "registry_sound reg" and bind: "registry_bind env reg = Inr declared"
    and env: "envelope_ok env" and parts: "retry_ok retry" "batch_ok batch" "lifecycle_ok lc"
    and items: "list_all context_ok ctxs" "list_all source_gap_ok gaps"
    and adm: "admission_observed declared retry batch lc ctxs gaps = Inr a"
  shows "admission_ok a"
proof -
  note b = registry_bind_declaration [OF reg bind]
  have a: "a = \<lparr>adm_store_id = dce_store_id declared, adm_declaration = dce_declaration declared,
        adm_envelope = env, adm_retry = retry, adm_batch = batch, adm_lifecycle = lc,
        adm_evidence = AdmissionObserved (map retain_lineage ctxs) gaps\<rparr>"
    and c: "validate_common declared retry batch lc SourceObserved = Inr ()"
    and k: "contexts_spec (dce_declaration declared) lc ctxs (env_observations env)"
    and g: "list_all2 (\<lambda>g s. \<not> gap_range_differs g s) (env_gaps env) gaps"
    using adm b(4) by (auto simp: admission_observed_iff)
  have ids: "map lineage_ids (map retain_lineage ctxs) = map context_ids ctxs"
    "map lin_ordinal (map retain_lineage ctxs) = map ctx_ordinal ctxs"
    "map lin_canonical_observation_id (map retain_lineage ctxs) = map ctx_canonical_observation_id ctxs"
    by (auto simp: retain_lineage_ids) (auto simp: retain_lineage_def)
  have rel: "admission_related a"
    using c k g b(2,4,5,6) unfolding admission_related_def contexts_spec_def validate_common_iff Let_def
    by (simp add: a adm_evidence_kind_def adm_observations_def adm_gaps_def ids list_all_iff
        payload_series_metadata_def del: map_map)
  have "identity_ok (adm_store_id a)"
    using b(1,2) by (simp add: a declaration_ok_def)
  then show ?thesis
    using rel b(1) env parts items
    by (simp add: admission_ok_def a adm_observations_def adm_gaps_def list_all_iff context_ok_def)
qed

lemma admission_no_change_ok:
  assumes reg: "registry_sound reg" and bind: "registry_bind env reg = Inr declared"
    and env: "envelope_ok env" and parts: "retry_ok retry" "batch_ok batch" "lifecycle_ok lc"
    and adm: "admission_no_change declared retry batch lc = Inr a"
  shows "admission_ok a"
proof -
  note b = registry_bind_declaration [OF reg bind]
  have a: "a = \<lparr>adm_store_id = dce_store_id declared, adm_declaration = dce_declaration declared,
        adm_envelope = env, adm_retry = retry, adm_batch = batch, adm_lifecycle = lc,
        adm_evidence = AdmissionNoChange\<rparr>"
    and c: "validate_common declared retry batch lc SourceNoChange = Inr ()"
    and k: "distinct (lifecycle_ids lc)"
    using adm b(4) by (auto simp: admission_no_change_iff)
  have e: "env_observations env = []" "env_gaps env = []"
    using c b(4)
    by (auto simp: validate_common_iff env_evidence_kind_def interval_of_evidence_def
        env_observations_def env_gaps_def split: Evidence.splits)
  have rel: "admission_related a"
    using c k b(2,4,5,6) e unfolding admission_related_def validate_common_iff Let_def
    by (simp add: a adm_evidence_kind_def adm_observations_def adm_gaps_def payload_series_metadata_def)
  have "identity_ok (adm_store_id a)"
    using b(1,2) by (simp add: a declaration_ok_def)
  then show ?thesis
    using rel b(1) env parts
    by (simp add: admission_ok_def a adm_observations_def adm_gaps_def)
qed

end
