(* ===== verification/Och_Wire.thy ===== *)
theory Och_Wire
  imports Och_Str
begin

text \<open>
  The Journal V1 byte primitives (\<^verbatim>\<open>och-store/src/codec.rs\<close>, \<open>Encoder\<close> and \<open>Cursor\<close>, and
  \<^verbatim>\<open>och-store/src/error.rs\<close>), with the calculus the codec proofs use: \<open>emits\<close> says which bytes
  an encoding step appends, \<open>decodes\<close> says exactly which byte prefixes a decoding step accepts
  and what it returns for them.  The locale \<open>wire_codec\<close> is the contract of one
  encoder/decoder pair against a byte layout.
\<close>

section \<open>Errors\<close>

datatype JournalV1Error = InvalidHeaderMagic | UnsupportedHeaderVersion | InvalidHeaderLength
  | InvalidFrameMagic | UnsupportedFrameVersion | UnsupportedFrameKind | InvalidFrameFlags
  | InvalidAppendSequence | NonMonotonicAppendSequence | AppendSequenceOverflow | PayloadTooLarge
  | Truncated | TrailingBytes | ChecksumMismatch | UnknownTag | InvalidCount | InvalidLength
  | InvalidUtf8 | InvalidIdentity | InvalidCanonicalData

primrec journal_v1_error_display :: "JournalV1Error \<Rightarrow> string" where
  "journal_v1_error_display InvalidHeaderMagic = ''invalid Journal V1 header magic''"
| "journal_v1_error_display UnsupportedHeaderVersion = ''unsupported Journal header version''"
| "journal_v1_error_display InvalidHeaderLength = ''invalid Journal V1 header length''"
| "journal_v1_error_display InvalidFrameMagic = ''invalid Journal V1 frame magic''"
| "journal_v1_error_display UnsupportedFrameVersion = ''unsupported Journal frame version''"
| "journal_v1_error_display UnsupportedFrameKind = ''unsupported Journal V1 frame kind''"
| "journal_v1_error_display InvalidFrameFlags = ''invalid Journal V1 frame flags''"
| "journal_v1_error_display InvalidAppendSequence = ''invalid Journal V1 append sequence''"
| "journal_v1_error_display NonMonotonicAppendSequence = ''non-monotonic Journal V1 append sequence''"
| "journal_v1_error_display AppendSequenceOverflow = ''Journal V1 append sequence overflow''"
| "journal_v1_error_display PayloadTooLarge = ''Journal V1 payload exceeds its bound''"
| "journal_v1_error_display Truncated = ''truncated Journal V1 bytes''"
| "journal_v1_error_display TrailingBytes = ''trailing Journal V1 bytes''"
| "journal_v1_error_display ChecksumMismatch = ''Journal V1 checksum mismatch''"
| "journal_v1_error_display UnknownTag = ''unknown Journal V1 semantic tag''"
| "journal_v1_error_display InvalidCount = ''invalid Journal V1 collection count''"
| "journal_v1_error_display InvalidLength = ''invalid Journal V1 field length''"
| "journal_v1_error_display InvalidUtf8 = ''invalid Journal V1 UTF-8''"
| "journal_v1_error_display InvalidIdentity = ''invalid Journal V1 identity''"
| "journal_v1_error_display InvalidCanonicalData = ''invalid Journal V1 canonical structure''"

section \<open>The encoder\<close>

text \<open>An encoder holds the bytes written so far, or only their saturating count.\<close>

datatype Encoder = EncoderBytes bytes | EncoderCount nat

definition encoder_new :: Encoder where "encoder_new = EncoderBytes []"
definition encoder_counting :: Encoder where "encoder_counting = EncoderCount 0"

fun encoder_len :: "Encoder \<Rightarrow> nat" where
  "encoder_len (EncoderBytes bs) = length bs"
| "encoder_len (EncoderCount n) = n"

fun encoder_finish :: "Encoder \<Rightarrow> bytes" where
  "encoder_finish (EncoderBytes bs) = bs"
| "encoder_finish (EncoderCount n) = []"

fun enc_bytes :: "bytes \<Rightarrow> Encoder \<Rightarrow> Encoder" where
  "enc_bytes bs (EncoderBytes output) = EncoderBytes (output @ bs)"
| "enc_bytes bs (EncoderCount n) = EncoderCount (usize_saturating_add n (length bs))"

definition enc_u8 :: "u8 \<Rightarrow> Encoder \<Rightarrow> Encoder" where
  "enc_u8 v = enc_bytes [v]"
definition enc_u32 :: "u32 \<Rightarrow> Encoder \<Rightarrow> Encoder" where
  "enc_u32 v = enc_bytes (be_encode 4 (unat v))"
definition enc_u64 :: "u64 \<Rightarrow> Encoder \<Rightarrow> Encoder" where
  "enc_u64 v = enc_bytes (be_encode 8 (unat v))"
definition enc_u128 :: "u128 \<Rightarrow> Encoder \<Rightarrow> Encoder" where
  "enc_u128 v = enc_bytes (be_encode 16 (unat v))"
definition enc_i64 :: "i64 \<Rightarrow> Encoder \<Rightarrow> Encoder" where
  "enc_i64 v = enc_bytes (be_encode 8 (unat v))"

text \<open>A fallible encoding step, and the sequencing of steps by the \<open>?\<close> operator.\<close>

type_synonym enc_step = "Encoder \<Rightarrow> (JournalV1Error, Encoder) result"

definition enc_ok :: "(Encoder \<Rightarrow> Encoder) \<Rightarrow> enc_step" where
  "enc_ok f e = Inr (f e)"

fun enc_seq :: "enc_step list \<Rightarrow> enc_step" where
  "enc_seq [] e = Inr e"
| "enc_seq (f # fs) e = and_then (f e) (enc_seq fs)"

definition enc_string :: "rust_string \<Rightarrow> enc_step" where
  "enc_string value =
     (if length value < 2 ^ 32
      then enc_seq [enc_ok (enc_u32 (of_nat (length value))), enc_ok (enc_bytes value)]
      else (\<lambda>_. Inl InvalidLength))"

definition enc_count :: "nat \<Rightarrow> enc_step" where
  "enc_count value =
     (if value < 2 ^ 32 then enc_ok (enc_u32 (of_nat value)) else (\<lambda>_. Inl InvalidCount))"

definition enc_each :: "('a \<Rightarrow> enc_step) \<Rightarrow> 'a list \<Rightarrow> enc_step" where
  "enc_each f xs = enc_seq (map f xs)"

section \<open>The cursor\<close>

record Cursor =
  cur_bytes :: bytes
  cur_offset :: nat

type_synonym ('e, 'a) decoder_with = "Cursor \<Rightarrow> ('e, 'a \<times> Cursor) result"
type_synonym 'a decoder = "(JournalV1Error, 'a) decoder_with"

definition cursor_new :: "bytes \<Rightarrow> Cursor" where
  "cursor_new bs = \<lparr>cur_bytes = bs, cur_offset = 0\<rparr>"

definition cur_bind :: "('e, 'a) decoder_with \<Rightarrow> ('a \<Rightarrow> ('e, 'b) decoder_with) \<Rightarrow> ('e, 'b) decoder_with" where
  "cur_bind m k c = and_then (m c) (\<lambda>(x, c'). k x c')"

definition cur_return :: "'a \<Rightarrow> ('e, 'a) decoder_with" where
  "cur_return x c = Inr (x, c)"

definition cur_fail :: "'e \<Rightarrow> ('e, 'a) decoder_with" where
  "cur_fail e c = Inl e"

text \<open>A \<open>Result\<close> computed without reading, under the \<open>?\<close> operator.\<close>

definition cur_lift :: "('e, 'a) result \<Rightarrow> ('e, 'a) decoder_with" where
  "cur_lift r c = map_ok (\<lambda>x. (x, c)) r"

text \<open>A read under \<open>map_err(f)?\<close>.\<close>

definition cur_err :: "('e \<Rightarrow> 'f) \<Rightarrow> ('e, 'a) decoder_with \<Rightarrow> ('f, 'a) decoder_with" where
  "cur_err f d c = map_err f (d c)"

definition cur_take :: "nat \<Rightarrow> bytes decoder" where
  "cur_take n c =
     and_then (ok_or InvalidLength (usize_checked_add (cur_offset c) n)) (\<lambda>stop.
       if stop \<le> length (cur_bytes c)
       then Inr (slice (cur_offset c) stop (cur_bytes c), c\<lparr>cur_offset := stop\<rparr>)
       else Inl Truncated)"

definition cur_array :: "nat \<Rightarrow> bytes decoder" where
  "cur_array n = cur_bind (cur_take n) (\<lambda>bs. if length bs = n then cur_return bs else cur_fail Truncated)"

definition cur_u8 :: "u8 decoder" where
  "cur_u8 = cur_bind (cur_array 1) (\<lambda>bs. cur_return (bs ! 0))"
definition cur_u32 :: "u32 decoder" where
  "cur_u32 = cur_bind (cur_array 4) (\<lambda>bs. cur_return (of_nat (be_decode bs)))"
definition cur_u64 :: "u64 decoder" where
  "cur_u64 = cur_bind (cur_array 8) (\<lambda>bs. cur_return (of_nat (be_decode bs)))"
definition cur_u128 :: "u128 decoder" where
  "cur_u128 = cur_bind (cur_array 16) (\<lambda>bs. cur_return (of_nat (be_decode bs)))"
definition cur_i64 :: "i64 decoder" where
  "cur_i64 = cur_bind (cur_array 8) (\<lambda>bs. cur_return (of_nat (be_decode bs)))"

definition cur_string :: "nat \<Rightarrow> rust_string decoder" where
  "cur_string maximum = cur_bind cur_u32 (\<lambda>n.
     if unat n > maximum then cur_fail InvalidLength
     else cur_bind (cur_take (unat n)) (\<lambda>bs.
       if utf8_valid bs then cur_return bs else cur_fail InvalidUtf8))"

definition cur_count :: "nat \<Rightarrow> nat decoder" where
  "cur_count maximum = cur_bind cur_u32 (\<lambda>n.
     if unat n > maximum then cur_fail InvalidCount else cur_return (unat n))"

definition cur_option :: "bool decoder" where
  "cur_option = cur_bind cur_u8 (\<lambda>b.
     if b = 0 then cur_return False else if b = 1 then cur_return True else cur_fail UnknownTag)"

definition cursor_finish :: "Cursor \<Rightarrow> (JournalV1Error, unit) result" where
  "cursor_finish c = (if cur_offset c = length (cur_bytes c) then Inr () else Inl TrailingBytes)"

text \<open>The shape \<open>if cursor.option()? { Some(d) } else { None }\<close> and the counted push loops.\<close>

definition cur_optional :: "'a decoder \<Rightarrow> 'a option decoder" where
  "cur_optional d = cur_bind cur_option (\<lambda>present.
     if present then cur_bind d (\<lambda>x. cur_return (Some x)) else cur_return None)"

fun cur_repeat :: "nat \<Rightarrow> ('e, 'a) decoder_with \<Rightarrow> ('e, 'a list) decoder_with" where
  "cur_repeat 0 d = cur_return []"
| "cur_repeat (Suc n) d = cur_bind d (\<lambda>x. cur_bind (cur_repeat n d) (\<lambda>xs. cur_return (x # xs)))"

section \<open>What an encoding step appends\<close>

fun encoder_ok :: "Encoder \<Rightarrow> bool" where
  "encoder_ok (EncoderBytes bs) = True"
| "encoder_ok (EncoderCount n) = (n \<le> usize_max)"

lemma enc_bytes_compose [simp]: "enc_bytes b (enc_bytes a e) = enc_bytes (a @ b) e"
  by (cases e) (simp_all add: usize_saturating_add_assoc)

lemma enc_bytes_ok [simp]: "encoder_ok e \<Longrightarrow> encoder_ok (enc_bytes a e)"
  by (cases e) (simp_all add: usize_saturating_add_def)

lemma enc_bytes_Nil [simp]: "encoder_ok e \<Longrightarrow> enc_bytes [] e = e"
  by (cases e) (simp_all add: usize_saturating_add_def)

definition emits :: "enc_step \<Rightarrow> bytes \<Rightarrow> bool" where
  "emits f bs \<longleftrightarrow> (\<forall>e. encoder_ok e \<longrightarrow> f e = Inr (enc_bytes bs e))"

named_theorems enc_simps "what each encoding step appends, as rewrite rules"

lemma emitsD: "emits f bs \<Longrightarrow> encoder_ok e \<Longrightarrow> f e = Inr (enc_bytes bs e)"
  by (simp add: emits_def)

lemma enc_primitives [enc_simps]:
  "enc_ok f e = Inr (f e)"
  "enc_u8 b e = enc_bytes [b] e"
  "enc_u32 v e = enc_bytes (be_encode 4 (unat v)) e"
  "enc_u64 w e = enc_bytes (be_encode 8 (unat w)) e"
  "enc_u128 x e = enc_bytes (be_encode 16 (unat x)) e"
  "enc_i64 z e = enc_bytes (be_encode 8 (unat z)) e"
  by (simp_all add: enc_ok_def enc_u8_def enc_u32_def enc_u64_def enc_u128_def enc_i64_def)

definition wire_string :: "rust_string \<Rightarrow> bytes" where
  "wire_string s = be_encode 4 (length s) @ s"

lemma unat_of_nat_u32: "n < 2 ^ 32 \<Longrightarrow> unat (of_nat n :: u32) = n"
  by (simp add: unat_of_nat)

lemma enc_string_wire [enc_simps]:
  "encoder_ok e \<Longrightarrow> length s < 2 ^ 32 \<Longrightarrow> enc_string s e = Inr (enc_bytes (wire_string s) e)"
  by (simp add: enc_string_def enc_simps wire_string_def unat_of_nat_u32)

lemma enc_count_wire [enc_simps]:
  "encoder_ok e \<Longrightarrow> n < 2 ^ 32 \<Longrightarrow> enc_count n e = Inr (enc_bytes (be_encode 4 n) e)"
  by (simp add: enc_count_def enc_simps unat_of_nat_u32)

lemma enc_each_wire:
  assumes "\<And>x e. x \<in> set xs \<Longrightarrow> encoder_ok e \<Longrightarrow> f x e = Inr (enc_bytes (w x) e)" "encoder_ok e"
  shows "enc_each f xs e = Inr (enc_bytes (concat (map w xs)) e)"
  using assms unfolding enc_each_def
  by (induction xs arbitrary: e) auto

section \<open>What a decoding step accepts\<close>

definition remaining :: "Cursor \<Rightarrow> bytes" where
  "remaining c = drop (cur_offset c) (cur_bytes c)"

definition advance :: "nat \<Rightarrow> Cursor \<Rightarrow> Cursor" where
  "advance n c = c\<lparr>cur_offset := cur_offset c + n\<rparr>"

definition cursor_ok :: "Cursor \<Rightarrow> bool" where
  "cursor_ok c \<longleftrightarrow> cur_offset c \<le> length (cur_bytes c) \<and> length (cur_bytes c) \<le> usize_max"

lemma remaining_advance [simp]: "remaining (advance n c) = drop n (remaining c)"
  by (simp add: remaining_def advance_def ac_simps)

lemma cursor_ok_advance: "cursor_ok c \<Longrightarrow> n \<le> length (remaining c) \<Longrightarrow> cursor_ok (advance n c)"
  by (auto simp: cursor_ok_def advance_def remaining_def)

lemma advance_advance [simp]: "advance m (advance n c) = advance (n + m) c"
  by (simp add: advance_def ac_simps)

lemma advance_0 [simp]: "advance 0 c = c"
  by (simp add: advance_def)

text \<open>\<open>decodes d R\<close>: on every cursor, \<open>d\<close> succeeds with \<open>x\<close> exactly when some \<open>bs\<close> with
  \<open>R x bs\<close> lies next, and it then consumes exactly \<open>bs\<close>.\<close>

definition decodes :: "('e, 'a) decoder_with \<Rightarrow> ('a \<Rightarrow> bytes \<Rightarrow> bool) \<Rightarrow> bool" where
  "decodes d R \<longleftrightarrow> (\<forall>c. cursor_ok c \<longrightarrow> (\<forall>x c'. d c = Inr (x, c') \<longleftrightarrow>
     (\<exists>bs rest. R x bs \<and> remaining c = bs @ rest \<and> c' = advance (length bs) c)))"

named_theorems decodes_intros "what each decoding step accepts"

lemma decodesI:
  assumes "\<And>c x c'. cursor_ok c \<Longrightarrow> d c = Inr (x, c') \<longleftrightarrow>
     (\<exists>bs rest. R x bs \<and> remaining c = bs @ rest \<and> c' = advance (length bs) c)"
  shows "decodes d R"
  using assms by (simp add: decodes_def)

lemma decodesD:
  "decodes d R \<Longrightarrow> cursor_ok c \<Longrightarrow> d c = Inr (x, c') \<longleftrightarrow>
     (\<exists>bs rest. R x bs \<and> remaining c = bs @ rest \<and> c' = advance (length bs) c)"
  by (simp add: decodes_def)

lemma decodes_eq: "decodes d R \<Longrightarrow> (\<And>x bs. R x bs \<longleftrightarrow> R' x bs) \<Longrightarrow> decodes d R'"
  by (simp add: decodes_def)

lemma decodes_return [decodes_intros]: "decodes (cur_return y) (\<lambda>x bs. x = y \<and> bs = [])"
  by (auto simp: decodes_def cur_return_def)

lemma decodes_fail [decodes_intros]: "decodes (cur_fail e) (\<lambda>x bs. False)"
  by (simp add: decodes_def cur_fail_def)

lemma decodes_lift [decodes_intros]: "decodes (cur_lift r) (\<lambda>x bs. r = Inr x \<and> bs = [])"
  by (auto simp: decodes_def cur_lift_def map_ok_Inr_conv)

lemma decodes_err [decodes_intros]: "decodes d R \<Longrightarrow> decodes (cur_err f d) R"
  by (simp add: decodes_def cur_err_def map_err_Inr_conv)

lemma decodes_bind [decodes_intros]:
  assumes m: "decodes m R" and k: "\<And>x. decodes (k x) (S x)"
  shows "decodes (cur_bind m k) (\<lambda>y bs. \<exists>x b1 b2. R x b1 \<and> S x y b2 \<and> bs = b1 @ b2)"
proof (rule decodesI)
  fix c :: Cursor and y c''
  assume c: "cursor_ok c"
  have adv: "cursor_ok (advance (length b1) c)" if "remaining c = b1 @ r" for b1 r
    using c that by (simp add: cursor_ok_advance)
  have step: "k x (advance (length b1) c) = Inr (y, c'') \<longleftrightarrow>
      (\<exists>b2 r2. S x y b2 \<and> r1 = b2 @ r2 \<and> c'' = advance (length b1 + length b2) c)"
    if "remaining c = b1 @ r1" for x b1 r1
    using decodesD [OF k adv [OF that], of x y c''] that by simp
  have "cur_bind m k c = Inr (y, c'') \<longleftrightarrow>
    (\<exists>x b1 r1. R x b1 \<and> remaining c = b1 @ r1 \<and> k x (advance (length b1) c) = Inr (y, c''))"
    using decodesD [OF m c] by (auto simp: cur_bind_def and_then_Inr_conv split_paired_Ex)
  also have "\<dots> \<longleftrightarrow> (\<exists>x b1 r1 b2 r2. R x b1 \<and> remaining c = b1 @ r1 \<and> S x y b2 \<and> r1 = b2 @ r2 \<and>
      c'' = advance (length b1 + length b2) c)"
    using step by blast
  also have "\<dots> \<longleftrightarrow> (\<exists>bs rest. (\<exists>x b1 b2. R x b1 \<and> S x y b2 \<and> bs = b1 @ b2) \<and>
      remaining c = bs @ rest \<and> c'' = advance (length bs) c)"
    by (auto simp: ac_simps) (metis append.assoc length_append)+
  finally show "cur_bind m k c = Inr (y, c'') \<longleftrightarrow>
    (\<exists>bs rest. (\<exists>x b1 b2. R x b1 \<and> S x y b2 \<and> bs = b1 @ b2) \<and>
      remaining c = bs @ rest \<and> c'' = advance (length bs) c)" .
qed

lemma decodes_if [decodes_intros]:
  "decodes d R \<Longrightarrow> decodes d' R' \<Longrightarrow>
   decodes (if b then d else d') (\<lambda>x bs. b \<and> R x bs \<or> \<not> b \<and> R' x bs)"
  by simp

lemma decodes_take [decodes_intros]: "decodes (cur_take n) (\<lambda>x bs. x = bs \<and> length bs = n)"
proof (rule decodesI)
  fix c :: Cursor and x c'
  assume c: "cursor_ok c"
  have "cur_take n c = Inr (x, c') \<longleftrightarrow> n \<le> length (remaining c) \<and> x = take n (remaining c) \<and> c' = advance n c"
    using c by (auto simp: cur_take_def result_convs usize_checked_add_def cursor_ok_def remaining_def
        slice_def advance_def ok_or_def split: if_splits)
  then show "cur_take n c = Inr (x, c') \<longleftrightarrow>
    (\<exists>bs rest. (x = bs \<and> length bs = n) \<and> remaining c = bs @ rest \<and> c' = advance (length bs) c)"
    by (auto intro: exI [of _ "drop n (remaining c)"])
qed

lemma decodes_array [decodes_intros]: "decodes (cur_array n) (\<lambda>x bs. x = bs \<and> length bs = n)"
  unfolding cur_array_def
  by (rule decodes_eq, (rule decodes_intros)+) (auto split: if_splits)

lemma decodes_u8 [decodes_intros]: "decodes cur_u8 (\<lambda>x bs. bs = [x])"
  unfolding cur_u8_def
  by (rule decodes_eq, (rule decodes_intros)+) (auto simp: length_Suc_conv)

lemma be_word_iff:
  assumes "256 ^ n = (2::nat) ^ LENGTH('a)"
  shows "(x :: 'a::len word) = of_nat (be_decode bs) \<and> length bs = n \<longleftrightarrow> bs = be_encode n (unat x)"
proof
  assume "x = of_nat (be_decode bs) \<and> length bs = n"
  then show "bs = be_encode n (unat x)"
    using be_decode_bound [of bs] assms by (simp add: unat_of_nat be_encode_decode)
next
  assume "bs = be_encode n (unat x)"
  then show "x = of_nat (be_decode bs) \<and> length bs = n"
    using be_decode_encode [of "unat x" n] unat_less_2p [of x] assms by simp
qed

lemma decodes_u32 [decodes_intros]: "decodes cur_u32 (\<lambda>x bs. bs = be_encode 4 (unat x))"
  unfolding cur_u32_def
  by (rule decodes_eq, (rule decodes_intros)+) (use be_word_iff [where ?'a = 32, of 4] in auto)

lemma decodes_u64 [decodes_intros]: "decodes cur_u64 (\<lambda>x bs. bs = be_encode 8 (unat x))"
  unfolding cur_u64_def
  by (rule decodes_eq, (rule decodes_intros)+) (use be_word_iff [where ?'a = 64, of 8] in auto)

lemma decodes_u128 [decodes_intros]: "decodes cur_u128 (\<lambda>x bs. bs = be_encode 16 (unat x))"
  unfolding cur_u128_def
  by (rule decodes_eq, (rule decodes_intros)+) (use be_word_iff [where ?'a = 128, of 16] in auto)

lemma decodes_i64 [decodes_intros]: "decodes cur_i64 (\<lambda>x bs. bs = be_encode 8 (unat x))"
  unfolding cur_i64_def
  by (rule decodes_eq, (rule decodes_intros)+) (use be_word_iff [where ?'a = 64, of 8] in auto)

lemma decodes_count:
  assumes "m < 2 ^ 32"
  shows "decodes (cur_count m) (\<lambda>n bs. n \<le> m \<and> bs = be_encode 4 n)"
  unfolding cur_count_def
  apply (rule decodes_eq, (rule decodes_intros)+)
  subgoal for n bs
    using assms by (auto simp: not_less unat_of_nat_u32 intro!: exI [of _ "of_nat n :: u32"])
  done

lemma decodes_string:
  assumes "m < 2 ^ 32"
  shows "decodes (cur_string m) (\<lambda>s bs. length s \<le> m \<and> utf8_valid s \<and> bs = wire_string s)"
  unfolding cur_string_def
  apply (rule decodes_eq, (rule decodes_intros)+)
  subgoal for s bs
    using assms
    by (auto simp: not_less unat_of_nat_u32 wire_string_def intro!: exI [of _ "of_nat (length s) :: u32"])
  done

lemma decodes_option [decodes_intros]: "decodes cur_option (\<lambda>b bs. bs = [if b then 1 else 0])"
  unfolding cur_option_def
  by (rule decodes_eq, (rule decodes_intros)+) auto

fun wire_option :: "('a \<Rightarrow> bytes) \<Rightarrow> 'a option \<Rightarrow> bytes" where
  "wire_option w None = [0]"
| "wire_option w (Some x) = 1 # w x"

lemma decodes_optional [decodes_intros]:
  assumes "decodes d (\<lambda>x bs. P x \<and> bs = w x)"
  shows "decodes (cur_optional d) (\<lambda>v bs. pred_option P v \<and> bs = wire_option w v)"
  unfolding cur_optional_def
  apply (rule decodes_eq, (rule decodes_intros assms)+)
  subgoal for v bs by (cases v) auto
  done

lemma decodes_repeat [decodes_intros]:
  assumes "decodes d (\<lambda>x bs. P x \<and> bs = w x)"
  shows "decodes (cur_repeat n d) (\<lambda>xs bs. length xs = n \<and> list_all P xs \<and> bs = concat (map w xs))"
proof (induction n)
  case 0
  show ?case
    by (rule decodes_eq, simp, rule decodes_intros) auto
next
  case (Suc n)
  show ?case
    by (rule decodes_eq, simp, (rule decodes_intros assms Suc)+) (auto simp: length_Suc_conv)
qed

section \<open>The contract of an encoder/decoder pair\<close>

text \<open>The layout \<open>wire\<close> of the values satisfying \<open>valid\<close> is what the encoder appends and exactly
  what the decoder accepts.\<close>

locale wire_codec =
  fixes encode :: "'a \<Rightarrow> enc_step"
    and decode :: "'b decoder"
    and view :: "'a \<Rightarrow> 'b"
    and valid :: "'b \<Rightarrow> bool"
    and wire :: "'b \<Rightarrow> bytes"
  assumes encode_wire: "valid (view x) \<Longrightarrow> emits (encode x) (wire (view x))"
    and decode_wire: "decodes decode (\<lambda>y bs. valid y \<and> bs = wire y)"
begin

lemma decode_prefix:
  assumes "valid y" "length (pre @ wire y @ post) \<le> usize_max"
  shows "decode \<lparr>cur_bytes = pre @ wire y @ post, cur_offset = length pre\<rparr> =
    Inr (y, \<lparr>cur_bytes = pre @ wire y @ post, cur_offset = length pre + length (wire y)\<rparr>)"
  using assms
  by (subst decodesD [OF decode_wire]) (auto simp: cursor_ok_def remaining_def advance_def)

lemma round_trip:
  assumes "valid (view x)" "encode x encoder_new = Inr e" "length (encoder_finish e) \<le> usize_max"
  shows "decode (cursor_new (encoder_finish e)) =
    Inr (view x, \<lparr>cur_bytes = encoder_finish e, cur_offset = length (encoder_finish e)\<rparr>)"
proof -
  have "e = EncoderBytes (wire (view x))"
    using emitsD [OF encode_wire [OF assms(1)], of encoder_new] assms(2) by (simp add: encoder_new_def)
  with decode_prefix [OF assms(1), of "[]" "[]"] assms(3) show ?thesis by (simp add: cursor_new_def)
qed

lemma canonical:
  assumes "cursor_ok c" "decode c = Inr (view x, c')"
  shows "encode x encoder_new = Inr (EncoderBytes (slice (cur_offset c) (cur_offset c') (cur_bytes c)))"
proof -
  from assms obtain rest where v: "valid (view x)" and r: "remaining c = wire (view x) @ rest"
    and c': "c' = advance (length (wire (view x))) c"
    by (auto simp: decodesD [OF decode_wire])
  have "slice (cur_offset c) (cur_offset c') (cur_bytes c) = wire (view x)"
    using r c' by (simp add: slice_def remaining_def advance_def)
  with emitsD [OF encode_wire [OF v], of encoder_new] show ?thesis by (simp add: encoder_new_def)
qed

lemma unambiguous:
  assumes "valid y" "valid z" "wire y @ r = wire z @ s" "length (wire y @ r) \<le> usize_max"
  shows "y = z \<and> r = s"
proof -
  have "decode (cursor_new (wire y @ r)) = Inr (y, \<lparr>cur_bytes = wire y @ r, cur_offset = length (wire y)\<rparr>)"
    using decode_prefix [OF assms(1), of "[]" r] assms(4) by (simp add: cursor_new_def)
  moreover have "decode (cursor_new (wire y @ r)) = Inr (z, \<lparr>cur_bytes = wire y @ r, cur_offset = length (wire z)\<rparr>)"
    using decode_prefix [OF assms(2), of "[]" s] assms(3,4) by (simp add: cursor_new_def)
  ultimately show ?thesis using assms(3) by simp
qed

end

end
