(* ===== verification/Och_Encode.thy ===== *)
theory Och_Encode
  imports Och_Source Och_Wire
begin

text \<open>
  The canonical-admission encoders of \<^verbatim>\<open>och-store/src/codec.rs\<close> and the inspection records of
  \<^verbatim>\<open>och-store/src/decoded.rs\<close>.  Each \<open>encode_x\<close> is followed by its byte layout \<open>wire_x\<close> and the
  lemma that it appends exactly that layout to either kind of encoder output.
\<close>

section \<open>Inspection records\<close>

record DecodedDeclarationV1 =
  dd_store_id :: StoreId
  dd_series_id :: SeriesId
  dd_revision :: DeclarationRevision
  dd_previous_revision :: "DeclarationRevision option"
  dd_binding :: SeriesBinding
  dd_payload :: SeriesDeclarationPayload
  dd_evidence :: DeclarationEvidence

record DecodedObservationLineageV1 =
  dl_ordinal :: u8
  dl_canonical_observation_id :: ObservationId
  dl_observation :: SourceObservationEvidence
  dl_raw :: RawRecordEvidence
  dl_normalized :: NormalizedRecordEvidence

datatype DecodedEvidenceV1 =
    DecodedObserved "DecodedObservationLineageV1 list" "SourceGapEvidence list"
  | DecodedNoChange

record DecodedAdmissionV1 =
  da_append_sequence :: u64
  da_store_id :: StoreId
  da_declaration :: DecodedDeclarationV1
  da_envelope :: CollectionEnvelope
  da_retry :: RetryQualification
  da_batch :: SourceBatchMetadata
  da_lifecycle :: CaptureLifecycle
  da_evidence :: DecodedEvidenceV1

definition da_evidence_kind :: "DecodedAdmissionV1 \<Rightarrow> SourceIntervalKind" where
  "da_evidence_kind a = (case da_evidence a of
     DecodedObserved _ _ \<Rightarrow> SourceObserved | DecodedNoChange \<Rightarrow> SourceNoChange)"

definition da_observations :: "DecodedAdmissionV1 \<Rightarrow> DecodedObservationLineageV1 list" where
  "da_observations a = (case da_evidence a of
     DecodedObserved observations _ \<Rightarrow> observations | DecodedNoChange \<Rightarrow> [])"

definition da_gaps :: "DecodedAdmissionV1 \<Rightarrow> SourceGapEvidence list" where
  "da_gaps a = (case da_evidence a of
     DecodedObserved _ gaps \<Rightarrow> gaps | DecodedNoChange \<Rightarrow> [])"

definition all_evidence_ids :: "DecodedAdmissionV1 \<Rightarrow> EvidenceId list" where
  "all_evidence_ids a =
     [sys_evidence_id (lc_system (da_lifecycle a)), ep_evidence_id (lc_endpoint (da_lifecycle a)),
      run_evidence_id (lc_run (da_lifecycle a)), snapshot_evidence_id (lc_snapshot (da_lifecycle a))]
     @ concat (map (\<lambda>lineage. [so_evidence_id (dl_observation lineage), raw_evidence_id (dl_raw lineage),
         norm_evidence_id (dl_normalized lineage)]) (da_observations a))"

section \<open>String bounds\<close>

lemma token_bounds:
  assumes "portable_token_ok t"
  shows "length (token_str t) \<le> 256" "length (token_str t) < 4294967296" "utf8_valid (token_str t)"
  using assms validate_printable_ascii_utf8
  by (auto simp: portable_token_ok_def validate_printable_ascii_def MAX_PORTABLE_TOKEN_BYTES_def)

lemma retry_key_bounds:
  assumes "retry_key_ok k"
  shows "length (retry_key_str k) \<le> 128" "length (retry_key_str k) < 4294967296" "utf8_valid (retry_key_str k)"
  using assms validate_printable_ascii_utf8
  by (auto simp: retry_key_ok_def validate_printable_ascii_def MAX_RETRY_KEY_BYTES_def)

lemma exact_text_bounds:
  assumes "exact_text_ok t"
  shows "length (exact_text_str t) \<le> 16384" "length (exact_text_str t) < 4294967296" "utf8_valid (exact_text_str t)"
  using exact_text_bytes [OF assms] assms by (auto simp: MAX_TEXT_SCALARS_def exact_text_ok_def)

lemma content_format_bounds:
  assumes "content_format_ok f"
  shows "length (content_format_str f) \<le> 64" "length (content_format_str f) < 4294967296" "utf8_valid (content_format_str f)"
  using content_format_bytes [OF assms] content_format_utf8 [OF assms] by (auto simp: MAX_CONTENT_FORMAT_BYTES_def)

lemma reference_bounds:
  assumes "reference_ok r"
  shows "length (reference_str r) \<le> 4096" "length (reference_str r) < 4294967296" "utf8_valid (reference_str r)"
  using reference_bytes [OF assms] assms by (auto simp: MAX_DECLARATION_REFERENCE_SCALARS_def reference_ok_def)

lemmas wire_bounds = token_bounds retry_key_bounds exact_text_bounds content_format_bounds reference_bounds

section \<open>Leaf encoders\<close>

text \<open>\<open>encode_store_id\<close>, \<open>encode_series_id\<close>, \<open>encode_producer_id\<close>, \<open>encode_observation_id\<close>,
  \<open>encode_artifact_id\<close> and \<open>encode_evidence_id\<close>, one definition over the identity kind.\<close>

definition encode_identity :: "'k identity \<Rightarrow> Encoder \<Rightarrow> Encoder" where
  "encode_identity i = enc_bytes (id_bytes i)"

lemma encode_identity_wire [enc_simps]: "encode_identity i e = enc_bytes (id_bytes i) e"
  by (simp add: encode_identity_def)

definition encode_timestamp :: "Timestamp \<Rightarrow> Encoder \<Rightarrow> Encoder" where
  "encode_timestamp t e = enc_u32 (nanosecond t) (enc_i64 (unix_seconds t) e)"

definition wire_timestamp :: "Timestamp \<Rightarrow> bytes" where
  "wire_timestamp t = be_encode 8 (unat (unix_seconds t)) @ be_encode 4 (unat (nanosecond t))"

lemma encode_timestamp_wire [enc_simps]: "encode_timestamp t e = enc_bytes (wire_timestamp t) e"
  by (simp add: encode_timestamp_def wire_timestamp_def enc_simps)

definition encode_time_interval :: "TimeInterval \<Rightarrow> Encoder \<Rightarrow> Encoder" where
  "encode_time_interval i e = encode_timestamp (interval_end i) (encode_timestamp (interval_start i) e)"

definition wire_time_interval :: "TimeInterval \<Rightarrow> bytes" where
  "wire_time_interval i = wire_timestamp (interval_start i) @ wire_timestamp (interval_end i)"

lemma encode_time_interval_wire [enc_simps]: "encode_time_interval i e = enc_bytes (wire_time_interval i) e"
  by (simp add: encode_time_interval_def wire_time_interval_def enc_simps)

fun encode_optional_timestamp :: "Timestamp option \<Rightarrow> Encoder \<Rightarrow> Encoder" where
  "encode_optional_timestamp (Some t) e = encode_timestamp t (enc_u8 1 e)"
| "encode_optional_timestamp None e = enc_u8 0 e"

lemma encode_optional_timestamp_wire [enc_simps]:
  "encode_optional_timestamp v e = enc_bytes (wire_option wire_timestamp v) e"
  by (cases v) (simp_all add: enc_simps)

fun encode_optional_interval :: "TimeInterval option \<Rightarrow> Encoder \<Rightarrow> Encoder" where
  "encode_optional_interval (Some i) e = encode_time_interval i (enc_u8 1 e)"
| "encode_optional_interval None e = enc_u8 0 e"

lemma encode_optional_interval_wire [enc_simps]:
  "encode_optional_interval v e = enc_bytes (wire_option wire_time_interval v) e"
  by (cases v) (simp_all add: enc_simps)

fun encode_optional_position :: "ProducerPosition option \<Rightarrow> Encoder \<Rightarrow> Encoder" where
  "encode_optional_position (Some p) e =
     enc_u128 (number_get (sequence p)) (enc_u128 (number_get (epoch p)) (enc_u8 1 e))"
| "encode_optional_position None e = enc_u8 0 e"

definition wire_position :: "ProducerPosition \<Rightarrow> bytes" where
  "wire_position p = be_encode 16 (unat (number_get (epoch p))) @ be_encode 16 (unat (number_get (sequence p)))"

lemma encode_optional_position_wire [enc_simps]:
  "encode_optional_position v e = enc_bytes (wire_option wire_position v) e"
  by (cases v) (simp_all add: enc_simps wire_position_def)

primrec collection_mode_tag :: "CollectionMode \<Rightarrow> u8" where
  "collection_mode_tag Sampled = 1"
| "collection_mode_tag ChangeOnly = 2"
| "collection_mode_tag Cumulative = 3"
| "collection_mode_tag Interval = 4"
| "collection_mode_tag Event = 5"

definition encode_collection_mode :: "CollectionMode \<Rightarrow> Encoder \<Rightarrow> Encoder" where
  "encode_collection_mode mode = enc_u8 (collection_mode_tag mode)"

primrec value_family_tag :: "ValueFamily \<Rightarrow> u8" where
  "value_family_tag FamilyReal = 1"
| "value_family_tag FamilySigned = 2"
| "value_family_tag FamilyUnsigned = 3"
| "value_family_tag FamilyBoolean = 4"
| "value_family_tag FamilyState = 5"
| "value_family_tag FamilyText = 6"
| "value_family_tag FamilyArtifact = 7"

definition encode_value_family :: "ValueFamily \<Rightarrow> Encoder \<Rightarrow> Encoder" where
  "encode_value_family family = enc_u8 (value_family_tag family)"

primrec source_interval_kind_tag :: "SourceIntervalKind \<Rightarrow> u8" where
  "source_interval_kind_tag SourceObserved = 1"
| "source_interval_kind_tag SourceNoChange = 2"

definition encode_source_interval_kind :: "SourceIntervalKind \<Rightarrow> Encoder \<Rightarrow> Encoder" where
  "encode_source_interval_kind kind = enc_u8 (source_interval_kind_tag kind)"

primrec quality_level_tag :: "QualityLevel \<Rightarrow> u8" where
  "quality_level_tag QualityUnknown = 1"
| "quality_level_tag Good = 2"
| "quality_level_tag Uncertain = 3"
| "quality_level_tag Bad = 4"
| "quality_level_tag NotEvaluated = 5"

primrec gap_reason_tag :: "GapReason \<Rightarrow> u8" where
  "gap_reason_tag GapUnknown = 1"
| "gap_reason_tag GapProducerRestart = 2"
| "gap_reason_tag GapBufferOverflow = 3"
| "gap_reason_tag GapCommunicationFailure = 4"
| "gap_reason_tag GapSourceDataLoss = 5"
| "gap_reason_tag GapAdministrativeExclusion = 6"

primrec source_gap_reason_tag :: "SourceGapReason \<Rightarrow> u8" where
  "source_gap_reason_tag SourceGapCommunicationFailure = 1"
| "source_gap_reason_tag SourceGapSourceUnavailable = 2"
| "source_gap_reason_tag SourceGapProducerReset = 3"
| "source_gap_reason_tag SourceGapFiltered = 4"
| "source_gap_reason_tag SourceGapUnknown = 5"

primrec source_transport_tag :: "SourceTransport \<Rightarrow> u8" where
  "source_transport_tag New = 1"
| "source_transport_tag Redelivered = 2"

lemma encode_tags_wire [enc_simps]:
  "encode_collection_mode m e = enc_bytes [collection_mode_tag m] e"
  "encode_value_family f e = enc_bytes [value_family_tag f] e"
  "encode_source_interval_kind k e = enc_bytes [source_interval_kind_tag k] e"
  by (simp_all add: encode_collection_mode_def encode_value_family_def
      encode_source_interval_kind_def enc_simps)

section \<open>Content, artifacts and references\<close>

definition encode_content :: "ContentIdentity \<Rightarrow> enc_step" where
  "encode_content c = enc_seq
     [enc_string (content_format_str (content_format c)),
      enc_ok (enc_u128 (version_get (content_version c))),
      enc_ok (enc_bytes (content_sha256 c))]"

definition wire_content :: "ContentIdentity \<Rightarrow> bytes" where
  "wire_content c = wire_string (content_format_str (content_format c))
     @ be_encode 16 (unat (version_get (content_version c))) @ content_sha256 c"

lemma encode_content_wire [enc_simps]:
  "encoder_ok e \<Longrightarrow> content_ok x \<Longrightarrow> encode_content x e = Inr (enc_bytes (wire_content x) e)"
  by (simp add: encode_content_def wire_content_def content_ok_def enc_simps wire_bounds)

definition encode_artifact :: "ArtifactReference \<Rightarrow> enc_step" where
  "encode_artifact a = enc_seq [enc_ok (encode_identity (artifact_id a)), encode_content (artifact_content a)]"

definition wire_artifact :: "ArtifactReference \<Rightarrow> bytes" where
  "wire_artifact a = id_bytes (artifact_id a) @ wire_content (artifact_content a)"

lemma encode_artifact_wire [enc_simps]:
  "encoder_ok e \<Longrightarrow> artifact_ok x \<Longrightarrow> encode_artifact x e = Inr (enc_bytes (wire_artifact x) e)"
  by (simp add: encode_artifact_def wire_artifact_def artifact_ok_def enc_simps)

fun encode_optional_artifact :: "ArtifactReference option \<Rightarrow> enc_step" where
  "encode_optional_artifact (Some a) = enc_seq [enc_ok (enc_u8 1), encode_artifact a]"
| "encode_optional_artifact None = enc_ok (enc_u8 0)"

lemma encode_optional_artifact_wire [enc_simps]:
  "encoder_ok e \<Longrightarrow> pred_option artifact_ok v \<Longrightarrow>
   encode_optional_artifact v e = Inr (enc_bytes (wire_option wire_artifact v) e)"
  by (cases v) (simp_all add: enc_simps)

fun encode_optional_declaration_reference :: "DeclarationReference option \<Rightarrow> enc_step" where
  "encode_optional_declaration_reference (Some r) =
     enc_seq [enc_ok (enc_u8 1), enc_string (reference_str r)]"
| "encode_optional_declaration_reference None = enc_ok (enc_u8 0)"

definition wire_reference :: "DeclarationReference \<Rightarrow> bytes" where
  "wire_reference r = wire_string (reference_str r)"

lemma enc_reference_wire [enc_simps]:
  "encoder_ok e \<Longrightarrow> reference_ok r \<Longrightarrow> enc_string (reference_str r) e = Inr (enc_bytes (wire_reference r) e)"
  by (simp add: wire_reference_def enc_simps wire_bounds)

lemma encode_optional_reference_wire [enc_simps]:
  "encoder_ok e \<Longrightarrow> pred_option reference_ok v \<Longrightarrow>
   encode_optional_declaration_reference v e = Inr (enc_bytes (wire_option wire_reference v) e)"
  by (cases v) (simp_all add: enc_simps)

fun encode_quantity :: "QuantityEvidence \<Rightarrow> enc_step" where
  "encode_quantity QuantityAbsent = enc_ok (enc_u8 0)"
| "encode_quantity (QuantityResolved r) = enc_seq [enc_ok (enc_u8 1), enc_string (reference_str r)]"
| "encode_quantity (QuantityUnresolved r) = enc_seq [enc_ok (enc_u8 2), enc_string (reference_str r)]"

fun wire_quantity :: "QuantityEvidence \<Rightarrow> bytes" where
  "wire_quantity QuantityAbsent = [0]"
| "wire_quantity (QuantityResolved r) = 1 # wire_reference r"
| "wire_quantity (QuantityUnresolved r) = 2 # wire_reference r"

lemma encode_quantity_wire [enc_simps]:
  "encoder_ok e \<Longrightarrow> quantity_ok x \<Longrightarrow> encode_quantity x e = Inr (enc_bytes (wire_quantity x) e)"
  by (cases x) (simp_all add: enc_simps)

fun encode_unit :: "UnitEvidence \<Rightarrow> enc_step" where
  "encode_unit UnitAbsent = enc_ok (enc_u8 0)"
| "encode_unit (UnitResolved r) = enc_seq [enc_ok (enc_u8 1), enc_string (reference_str r)]"
| "encode_unit (UnitUnresolved r) = enc_seq [enc_ok (enc_u8 2), enc_string (reference_str r)]"

fun wire_unit :: "UnitEvidence \<Rightarrow> bytes" where
  "wire_unit UnitAbsent = [0]"
| "wire_unit (UnitResolved r) = 1 # wire_reference r"
| "wire_unit (UnitUnresolved r) = 2 # wire_reference r"

lemma encode_unit_wire [enc_simps]:
  "encoder_ok e \<Longrightarrow> unit_ok x \<Longrightarrow> encode_unit x e = Inr (enc_bytes (wire_unit x) e)"
  by (cases x) (simp_all add: enc_simps)

section \<open>Declarations\<close>

fun encode_optional_revision :: "DeclarationRevision option \<Rightarrow> Encoder \<Rightarrow> Encoder" where
  "encode_optional_revision (Some revision) e = enc_u128 (revision_get revision) (enc_u8 1 e)"
| "encode_optional_revision None e = enc_u8 0 e"

definition wire_revision :: "DeclarationRevision \<Rightarrow> bytes" where
  "wire_revision r = be_encode 16 (unat (revision_get r))"

lemma encode_optional_revision_wire [enc_simps]:
  "encode_optional_revision v e = enc_bytes (wire_option wire_revision v) e"
  by (cases v) (simp_all add: enc_simps wire_revision_def)

definition encode_source_reference :: "SourceReference \<Rightarrow> enc_step" where
  "encode_source_reference source = enc_seq
     [enc_string (reference_str (src_provider source)),
      (case src_projection source of
         Some projection \<Rightarrow>
           enc_seq [enc_ok (enc_u8 1), enc_string (reference_str (projection_reference projection))]
       | None \<Rightarrow> enc_ok (enc_u8 0)),
      enc_string (reference_str (src_locator source))]"

definition wire_projection :: "SourceProjection \<Rightarrow> bytes" where
  "wire_projection p = wire_reference (projection_reference p)"

definition wire_source_reference :: "SourceReference \<Rightarrow> bytes" where
  "wire_source_reference s = wire_reference (src_provider s) @ wire_option wire_projection (src_projection s)
     @ wire_reference (src_locator s)"

lemma encode_source_reference_wire [enc_simps]:
  "encoder_ok e \<Longrightarrow> source_reference_ok x \<Longrightarrow>
   encode_source_reference x e = Inr (enc_bytes (wire_source_reference x) e)"
  by (cases "src_projection x")
    (simp_all add: encode_source_reference_def wire_source_reference_def wire_projection_def
      source_reference_ok_def projection_ok_def enc_simps)

definition encode_binding :: "SeriesBinding \<Rightarrow> enc_step" where
  "encode_binding binding = encode_source_reference (binding_source binding)"

definition wire_binding :: "SeriesBinding \<Rightarrow> bytes" where
  "wire_binding b = wire_source_reference (binding_source b)"

lemma encode_binding_wire [enc_simps]:
  "encoder_ok e \<Longrightarrow> binding_ok x \<Longrightarrow> encode_binding x e = Inr (enc_bytes (wire_binding x) e)"
  by (simp add: encode_binding_def wire_binding_def binding_ok_def enc_simps)

definition encode_declaration_payload :: "SeriesDeclarationPayload \<Rightarrow> enc_step" where
  "encode_declaration_payload payload = enc_seq
     [enc_ok (encode_identity (pl_producer_id payload)),
      enc_ok (encode_collection_mode (pl_collection_mode payload)),
      enc_ok (encode_value_family (pl_value_family payload)),
      encode_quantity (pl_quantity payload),
      encode_unit (pl_unit payload),
      encode_optional_declaration_reference (pl_application payload)]"

definition wire_declaration_payload :: "SeriesDeclarationPayload \<Rightarrow> bytes" where
  "wire_declaration_payload p = id_bytes (pl_producer_id p) @ [collection_mode_tag (pl_collection_mode p)]
     @ [value_family_tag (pl_value_family p)] @ wire_quantity (pl_quantity p) @ wire_unit (pl_unit p)
     @ wire_option wire_reference (pl_application p)"

lemma encode_declaration_payload_wire [enc_simps]:
  "encoder_ok e \<Longrightarrow> payload_ok x \<Longrightarrow>
   encode_declaration_payload x e = Inr (enc_bytes (wire_declaration_payload x) e)"
  by (simp add: encode_declaration_payload_def wire_declaration_payload_def payload_ok_def enc_simps)

definition encode_declaration_evidence :: "DeclarationEvidence \<Rightarrow> enc_step" where
  "encode_declaration_evidence evidence = enc_seq
     [enc_ok (encode_timestamp (de_effective_at evidence)),
      encode_optional_artifact (de_artifact evidence)]"

definition wire_declaration_evidence :: "DeclarationEvidence \<Rightarrow> bytes" where
  "wire_declaration_evidence e = wire_timestamp (de_effective_at e) @ wire_option wire_artifact (de_artifact e)"

lemma encode_declaration_evidence_wire [enc_simps]:
  "encoder_ok e \<Longrightarrow> declaration_evidence_ok x \<Longrightarrow>
   encode_declaration_evidence x e = Inr (enc_bytes (wire_declaration_evidence x) e)"
  by (simp add: encode_declaration_evidence_def wire_declaration_evidence_def declaration_evidence_ok_def enc_simps)

definition encode_declaration :: "SeriesDeclaration \<Rightarrow> enc_step" where
  "encode_declaration declaration = enc_seq
     [enc_ok (encode_identity (decl_store_id declaration)),
      enc_ok (encode_identity (decl_series_id declaration)),
      enc_ok (enc_u128 (revision_get (decl_revision declaration))),
      enc_ok (encode_optional_revision (decl_previous_revision declaration)),
      encode_binding (decl_binding declaration),
      encode_declaration_payload (decl_payload declaration),
      encode_declaration_evidence (decl_evidence declaration)]"

definition encode_decoded_declaration :: "DecodedDeclarationV1 \<Rightarrow> enc_step" where
  "encode_decoded_declaration declaration = enc_seq
     [enc_ok (encode_identity (dd_store_id declaration)),
      enc_ok (encode_identity (dd_series_id declaration)),
      enc_ok (enc_u128 (revision_get (dd_revision declaration))),
      enc_ok (encode_optional_revision (dd_previous_revision declaration)),
      encode_binding (dd_binding declaration),
      encode_declaration_payload (dd_payload declaration),
      encode_declaration_evidence (dd_evidence declaration)]"

definition wire_declaration :: "DecodedDeclarationV1 \<Rightarrow> bytes" where
  "wire_declaration d = id_bytes (dd_store_id d) @ id_bytes (dd_series_id d) @ wire_revision (dd_revision d)
     @ wire_option wire_revision (dd_previous_revision d) @ wire_binding (dd_binding d)
     @ wire_declaration_payload (dd_payload d) @ wire_declaration_evidence (dd_evidence d)"

text \<open>What the decoder establishes of a declaration on its own, before cross-field checks.\<close>

definition revision_ok :: "DeclarationRevision \<Rightarrow> bool" where
  "revision_ok r \<longleftrightarrow> revision_get r \<noteq> 0"

definition decoded_declaration_ok :: "DecodedDeclarationV1 \<Rightarrow> bool" where
  "decoded_declaration_ok d \<longleftrightarrow> identity_ok (dd_store_id d) \<and> identity_ok (dd_series_id d) \<and>
     revision_ok (dd_revision d) \<and> pred_option revision_ok (dd_previous_revision d) \<and>
     binding_ok (dd_binding d) \<and> payload_ok (dd_payload d) \<and> declaration_evidence_ok (dd_evidence d)"

text \<open>The inspection view of an authorized declaration.\<close>

definition view_declaration :: "SeriesDeclaration \<Rightarrow> DecodedDeclarationV1" where
  "view_declaration d =
     \<lparr>dd_store_id = decl_store_id d, dd_series_id = decl_series_id d, dd_revision = decl_revision d,
      dd_previous_revision = decl_previous_revision d, dd_binding = decl_binding d,
      dd_payload = decl_payload d, dd_evidence = decl_evidence d\<rparr>"

lemma encode_decoded_declaration_wire [enc_simps]:
  "encoder_ok e \<Longrightarrow> decoded_declaration_ok x \<Longrightarrow>
   encode_decoded_declaration x e = Inr (enc_bytes (wire_declaration x) e)"
  by (simp add: encode_decoded_declaration_def wire_declaration_def decoded_declaration_ok_def
      wire_revision_def enc_simps)

lemma encode_declaration_view: "encode_declaration d = encode_decoded_declaration (view_declaration d)"
  by (simp add: encode_declaration_def encode_decoded_declaration_def view_declaration_def)

section \<open>Observations and envelopes\<close>

definition encode_series_metadata :: "SeriesMetadata \<Rightarrow> Encoder \<Rightarrow> Encoder" where
  "encode_series_metadata metadata e =
     encode_collection_mode (md_collection_mode metadata)
       (encode_identity (md_producer_id metadata) (encode_identity (md_series_id metadata) e))"

definition wire_series_metadata :: "SeriesMetadata \<Rightarrow> bytes" where
  "wire_series_metadata m = id_bytes (md_series_id m) @ id_bytes (md_producer_id m)
     @ [collection_mode_tag (md_collection_mode m)]"

lemma encode_series_metadata_wire [enc_simps]:
  "encode_series_metadata x e = enc_bytes (wire_series_metadata x) e"
  by (simp add: encode_series_metadata_def wire_series_metadata_def enc_simps)

fun encode_exact_value :: "ExactValue \<Rightarrow> enc_step" where
  "encode_exact_value (Real v) = enc_seq [enc_ok (enc_u8 1), enc_ok (enc_u64 (real_to_bits v))]"
| "encode_exact_value (Signed v) = enc_seq [enc_ok (enc_u8 2), enc_ok (enc_i64 v)]"
| "encode_exact_value (Unsigned v) = enc_seq [enc_ok (enc_u8 3), enc_ok (enc_u64 v)]"
| "encode_exact_value (Boolean v) = enc_seq [enc_ok (enc_u8 4), enc_ok (enc_u8 (if v then 1 else 0))]"
| "encode_exact_value (State v) = enc_seq [enc_ok (enc_u8 5), enc_string (token_str (state_class v)),
     enc_string (token_str (state_member v))]"
| "encode_exact_value (Text v) = enc_seq [enc_ok (enc_u8 6), enc_string (exact_text_str v)]"
| "encode_exact_value (Artifact v) = enc_seq [enc_ok (enc_u8 7), encode_artifact v]"
| "encode_exact_value (UnavailableValue v) = enc_seq [enc_ok (enc_u8 8),
     (case unavailable_reason v of
        Some reason \<Rightarrow> enc_seq [enc_ok (enc_u8 1), enc_string (token_str reason)]
      | None \<Rightarrow> enc_ok (enc_u8 0))]"

definition wire_token :: "'k portable_token \<Rightarrow> bytes" where
  "wire_token t = wire_string (token_str t)"

fun wire_exact_value :: "ExactValue \<Rightarrow> bytes" where
  "wire_exact_value (Real v) = 1 # be_encode 8 (unat (real_to_bits v))"
| "wire_exact_value (Signed v) = 2 # be_encode 8 (unat v)"
| "wire_exact_value (Unsigned v) = 3 # be_encode 8 (unat v)"
| "wire_exact_value (Boolean v) = [4, if v then 1 else 0]"
| "wire_exact_value (State v) = 5 # wire_token (state_class v) @ wire_token (state_member v)"
| "wire_exact_value (Text v) = 6 # wire_string (exact_text_str v)"
| "wire_exact_value (Artifact v) = 7 # wire_artifact v"
| "wire_exact_value (UnavailableValue v) = 8 # wire_option wire_token (unavailable_reason v)"

lemma encode_exact_value_wire [enc_simps]:
  "encoder_ok e \<Longrightarrow> exact_value_ok x \<Longrightarrow> encode_exact_value x e = Inr (enc_bytes (wire_exact_value x) e)"
  by (cases x) (auto simp: enc_simps wire_bounds wire_token_def split: option.split)

definition encode_observation_times :: "ObservationTimes \<Rightarrow> Encoder \<Rightarrow> Encoder" where
  "encode_observation_times tms e =
     encode_timestamp (times_effective tms) (encode_timestamp (times_receive tms)
       (encode_optional_timestamp (times_source tms) e))"

definition wire_observation_times :: "ObservationTimes \<Rightarrow> bytes" where
  "wire_observation_times t = wire_option wire_timestamp (times_source t)
     @ wire_timestamp (times_receive t) @ wire_timestamp (times_effective t)"

lemma encode_observation_times_wire [enc_simps]:
  "encode_observation_times x e = enc_bytes (wire_observation_times x) e"
  by (simp add: encode_observation_times_def wire_observation_times_def enc_simps)

definition quality_bits :: "QualityFlags \<Rightarrow> u8" where
  "quality_bits flags = of_bool (stale flags) OR push_bit 1 (of_bool (invalid flags))
     OR push_bit 2 (of_bool (substituted flags)) OR push_bit 3 (of_bool (overridden flags))
     OR push_bit 4 (of_bool (out_of_service flags)) OR push_bit 5 (of_bool (communication_failure flags))"

definition encode_quality :: "Quality \<Rightarrow> Encoder \<Rightarrow> Encoder" where
  "encode_quality quality e =
     enc_u8 (quality_bits (quality_flags quality)) (enc_u8 (quality_level_tag (quality_level quality)) e)"

definition wire_quality :: "Quality \<Rightarrow> bytes" where
  "wire_quality q = [quality_level_tag (quality_level q), quality_bits (quality_flags q)]"

lemma encode_quality_wire [enc_simps]: "encode_quality x e = enc_bytes (wire_quality x) e"
  by (simp add: encode_quality_def wire_quality_def enc_simps)

text \<open>On reachable flag bytes the bits written are the flag byte itself.\<close>

lemma quality_bits_flag_bits: "flags_ok q \<Longrightarrow> quality_bits q = flag_bits q"
proof (rule bit_word_eqI)
  fix n :: nat
  assume q: "flags_ok q" and "n < LENGTH(8)"
  then have "n = 0 \<or> n = 1 \<or> n = 2 \<or> n = 3 \<or> n = 4 \<or> n = 5 \<or> n = 6 \<or> n = 7"
    by auto
  then have "bit (quality_bits q) n \<longleftrightarrow> n < 6 \<and> bit (flag_bits q) n"
    by (elim disjE) (simp_all add: quality_bits_def flag_bits_getters bit_simps)
  then show "bit (quality_bits q) n = bit (flag_bits q) n"
    using flags_ok_bit [OF q] by blast
qed

definition encode_native_status :: "NativeStatus \<Rightarrow> enc_step" where
  "encode_native_status status = enc_seq
     [enc_count (length (native_tokens status)),
      enc_each (\<lambda>token. enc_string (token_str token)) (native_tokens status)]"

definition wire_list :: "('a \<Rightarrow> bytes) \<Rightarrow> 'a list \<Rightarrow> bytes" where
  "wire_list w xs = be_encode 4 (length xs) @ concat (map w xs)"

definition wire_native_status :: "NativeStatus \<Rightarrow> bytes" where
  "wire_native_status s = wire_list wire_token (native_tokens s)"

lemma encode_native_status_wire [enc_simps]:
  assumes "encoder_ok e" "native_status_ok x"
  shows "encode_native_status x e = Inr (enc_bytes (wire_native_status x) e)"
proof -
  have "enc_each (\<lambda>token. enc_string (token_str token)) (native_tokens x) f =
      Inr (enc_bytes (concat (map wire_token (native_tokens x))) f)" if "encoder_ok f" for f
    using assms(2) that
    by (intro enc_each_wire) (auto simp: native_status_ok_def list_all_iff wire_token_def enc_simps wire_bounds)
  with assms show ?thesis
    by (simp add: encode_native_status_def wire_native_status_def wire_list_def native_status_ok_def
        MAX_NATIVE_STATUS_TOKENS_def enc_simps)
qed

definition encode_observation :: "Observation \<Rightarrow> enc_step" where
  "encode_observation observation = enc_seq
     [enc_ok (encode_identity (obs_id observation)),
      encode_exact_value (obs_value observation),
      enc_ok (encode_observation_times (obs_times observation)),
      enc_ok (encode_quality (obs_quality observation)),
      encode_native_status (obs_native_status observation),
      enc_ok (encode_optional_position (obs_producer_position observation)),
      enc_ok (encode_optional_interval (obs_interval observation))]"

definition wire_observation :: "Observation \<Rightarrow> bytes" where
  "wire_observation ob = id_bytes (obs_id ob) @ wire_exact_value (obs_value ob)
     @ wire_observation_times (obs_times ob) @ wire_quality (obs_quality ob)
     @ wire_native_status (obs_native_status ob) @ wire_option wire_position (obs_producer_position ob)
     @ wire_option wire_time_interval (obs_interval ob)"

lemma encode_observation_wire [enc_simps]:
  "encoder_ok e \<Longrightarrow> observation_ok x \<Longrightarrow> encode_observation x e = Inr (enc_bytes (wire_observation x) e)"
  by (simp add: encode_observation_def wire_observation_def observation_ok_def enc_simps)

definition encode_gap :: "Gap \<Rightarrow> Encoder \<Rightarrow> Encoder" where
  "encode_gap gap e =
     enc_u8 (gap_reason_tag (gap_reason gap)) (enc_u128 (number_get (gap_end gap))
       (enc_u128 (number_get (gap_start gap)) (enc_u128 (number_get (gap_epoch gap)) e)))"

definition wire_gap :: "Gap \<Rightarrow> bytes" where
  "wire_gap g = be_encode 16 (unat (number_get (gap_epoch g))) @ be_encode 16 (unat (number_get (gap_start g)))
     @ be_encode 16 (unat (number_get (gap_end g))) @ [gap_reason_tag (gap_reason g)]"

lemma encode_gap_wire [enc_simps]: "encode_gap x e = enc_bytes (wire_gap x) e"
  by (simp add: encode_gap_def wire_gap_def enc_simps)

definition encode_envelope :: "CollectionEnvelope \<Rightarrow> enc_step" where
  "encode_envelope envelope = enc_seq
     [enc_ok (encode_series_metadata (env_series envelope)),
      (case env_evidence_kind envelope of
         EvidenceObserved \<Rightarrow> enc_seq
           [enc_ok (enc_u8 1),
            enc_count (length (env_observations envelope)),
            enc_each encode_observation (env_observations envelope),
            enc_count (length (env_gaps envelope)),
            enc_each (\<lambda>gap. enc_ok (encode_gap gap)) (env_gaps envelope)]
       | EvidenceNoChange \<Rightarrow> enc_seq
           [enc_ok (enc_u8 2),
            (case env_no_change envelope of
               None \<Rightarrow> (\<lambda>_. Inl InvalidCanonicalData)
             | Some no_change \<Rightarrow> enc_ok (encode_time_interval (no_change_interval no_change)))])]"

definition wire_envelope :: "CollectionEnvelope \<Rightarrow> bytes" where
  "wire_envelope env = wire_series_metadata (env_series env) @
     (case env_evidence env of
        ObservedEvidence obs gaps \<Rightarrow> 1 # wire_list wire_observation obs @ wire_list wire_gap gaps
      | NoChangeEvidence nc \<Rightarrow> 2 # wire_time_interval (no_change_interval nc))"

lemma enc_list_wire:
  assumes "length xs < 2 ^ 32" "encoder_ok e"
    and "\<And>x e. x \<in> set xs \<Longrightarrow> encoder_ok e \<Longrightarrow> f x e = Inr (enc_bytes (w x) e)"
  shows "enc_seq (enc_count (length xs) # enc_each f xs # rest) e = enc_seq rest (enc_bytes (wire_list w xs) e)"
proof -
  have "enc_each f xs (enc_bytes (be_encode 4 (length xs)) e) =
      Inr (enc_bytes (wire_list w xs) e)"
    using enc_each_wire [of xs f w "enc_bytes (be_encode 4 (length xs)) e", OF assms(3)] assms(2)
    by (simp add: wire_list_def)
  with assms(1,2) show ?thesis by (simp add: enc_count_wire)
qed

lemma envelope_counts:
  assumes "envelope_ok env"
  shows "length (env_observations env) \<le> 256" "length (env_gaps env) \<le> 64"
  using assms
  by (auto simp: envelope_ok_def observed_spec_def env_observations_def env_gaps_def MAX_OBSERVATIONS_def
      MAX_GAPS_def split: Evidence.splits)

lemma encode_envelope_wire [enc_simps]:
  assumes "encoder_ok e" "envelope_ok x"
  shows "encode_envelope x e = Inr (enc_bytes (wire_envelope x) e)"
proof (cases "env_evidence x")
  case (ObservedEvidence obs gaps)
  then have k: "env_evidence_kind x = EvidenceObserved" "env_observations x = obs" "env_gaps x = gaps"
    by (simp_all add: env_evidence_kind_def env_observations_def env_gaps_def)
  have obs: "list_all observation_ok obs" "length obs < 2 ^ 32" "length gaps < 2 ^ 32"
    using assms(2) envelope_counts [OF assms(2)] k ObservedEvidence by (auto simp: envelope_ok_def)
  have "enc_seq [enc_count (length obs), enc_each encode_observation obs, enc_count (length gaps),
      enc_each (\<lambda>gap. enc_ok (encode_gap gap)) gaps] f =
      Inr (enc_bytes (wire_list wire_observation obs @ wire_list wire_gap gaps) f)" if "encoder_ok f" for f
    using obs that
    by (subst enc_list_wire [where w = wire_observation])
      (auto simp: list_all_iff enc_simps enc_list_wire [where w = wire_gap] simp del: enc_seq.simps(2))
  with assms(1) show ?thesis
    by (simp add: encode_envelope_def wire_envelope_def k ObservedEvidence enc_primitives encode_series_metadata_wire)
next
  case (NoChangeEvidence nc)
  with assms show ?thesis
    by (simp add: encode_envelope_def wire_envelope_def env_evidence_kind_def env_no_change_def enc_simps)
qed

section \<open>Source evidence\<close>

definition encode_retry :: "RetryQualification \<Rightarrow> enc_step" where
  "encode_retry retry = enc_seq
     [enc_ok (encode_identity (rq_series_id retry)), enc_ok (encode_identity (rq_producer_id retry)),
      enc_string (retry_key_str (rq_key retry)), encode_content (rq_content retry)]"

definition wire_retry :: "RetryQualification \<Rightarrow> bytes" where
  "wire_retry r = id_bytes (rq_series_id r) @ id_bytes (rq_producer_id r)
     @ wire_string (retry_key_str (rq_key r)) @ wire_content (rq_content r)"

lemma encode_retry_wire [enc_simps]:
  "encoder_ok e \<Longrightarrow> retry_ok x \<Longrightarrow> encode_retry x e = Inr (enc_bytes (wire_retry x) e)"
  by (simp add: encode_retry_def wire_retry_def retry_ok_def enc_simps wire_bounds)

definition encode_batch :: "SourceBatchMetadata \<Rightarrow> enc_step" where
  "encode_batch batch = enc_seq
     [enc_string (reference_str (schema_reference (batch_schema batch))),
      enc_ok (enc_u128 (schema_version_get (batch_version batch))),
      enc_ok (encode_source_interval_kind (batch_interval batch))]"

definition wire_batch :: "SourceBatchMetadata \<Rightarrow> bytes" where
  "wire_batch b = wire_reference (schema_reference (batch_schema b))
     @ be_encode 16 (unat (schema_version_get (batch_version b)))
     @ [source_interval_kind_tag (batch_interval b)]"

lemma encode_batch_wire [enc_simps]:
  "encoder_ok e \<Longrightarrow> batch_ok x \<Longrightarrow> encode_batch x e = Inr (enc_bytes (wire_batch x) e)"
  by (simp add: encode_batch_def wire_batch_def batch_ok_def enc_simps)

definition encode_lifecycle :: "CaptureLifecycle \<Rightarrow> enc_step" where
  "encode_lifecycle lc =
     (let system = lc_system lc; endpoint = lc_endpoint lc; run = lc_run lc; snapshot = lc_snapshot lc in
      enc_seq
       [enc_ok (encode_identity (sys_evidence_id system)),
        enc_string (reference_str (sys_provider system)),
        enc_string (reference_str (projection_reference (sys_projection system))),
        enc_ok (encode_identity (ep_evidence_id endpoint)),
        enc_ok (encode_identity (ep_system_id endpoint)),
        enc_string (reference_str (ep_locator endpoint)),
        enc_ok (encode_identity (run_evidence_id run)),
        enc_ok (encode_identity (run_endpoint_id run)),
        enc_ok (encode_timestamp (run_started_at run)),
        enc_ok (encode_optional_timestamp (run_completed_at run)),
        enc_ok (encode_identity (snapshot_evidence_id snapshot)),
        enc_ok (encode_identity (snapshot_run_id snapshot)),
        encode_artifact (snapshot_artifact snapshot)])"

definition wire_system :: "SourceSystemEvidence \<Rightarrow> bytes" where
  "wire_system s = id_bytes (sys_evidence_id s) @ wire_reference (sys_provider s) @ wire_projection (sys_projection s)"

definition wire_endpoint :: "SourceEndpointEvidence \<Rightarrow> bytes" where
  "wire_endpoint p = id_bytes (ep_evidence_id p) @ id_bytes (ep_system_id p) @ wire_reference (ep_locator p)"

definition wire_run :: "CaptureRunEvidence \<Rightarrow> bytes" where
  "wire_run r = id_bytes (run_evidence_id r) @ id_bytes (run_endpoint_id r) @ wire_timestamp (run_started_at r)
     @ wire_option wire_timestamp (run_completed_at r)"

definition wire_snapshot :: "SourceSnapshotEvidence \<Rightarrow> bytes" where
  "wire_snapshot s = id_bytes (snapshot_evidence_id s) @ id_bytes (snapshot_run_id s)
     @ wire_artifact (snapshot_artifact s)"

definition wire_lifecycle :: "CaptureLifecycle \<Rightarrow> bytes" where
  "wire_lifecycle lc = wire_system (lc_system lc) @ wire_endpoint (lc_endpoint lc) @ wire_run (lc_run lc)
     @ wire_snapshot (lc_snapshot lc)"

lemma encode_lifecycle_wire [enc_simps]:
  "encoder_ok e \<Longrightarrow> lifecycle_ok x \<Longrightarrow> encode_lifecycle x e = Inr (enc_bytes (wire_lifecycle x) e)"
  by (simp add: encode_lifecycle_def wire_lifecycle_def lifecycle_ok_def projection_ok_def run_ok_def
      wire_system_def wire_endpoint_def wire_run_def wire_snapshot_def wire_projection_def Let_def enc_simps)

fun encode_optional_idempotency :: "SourceIdempotency option \<Rightarrow> enc_step" where
  "encode_optional_idempotency (Some evidence) = enc_seq
     [enc_ok (enc_u8 1), enc_string (retry_key_str (idem_key evidence)), encode_content (idem_content evidence)]"
| "encode_optional_idempotency None = enc_ok (enc_u8 0)"

definition wire_idempotency :: "SourceIdempotency \<Rightarrow> bytes" where
  "wire_idempotency i = wire_string (retry_key_str (idem_key i)) @ wire_content (idem_content i)"

lemma encode_optional_idempotency_wire [enc_simps]:
  "encoder_ok e \<Longrightarrow> pred_option idempotency_ok v \<Longrightarrow>
   encode_optional_idempotency v e = Inr (enc_bytes (wire_option wire_idempotency v) e)"
  by (cases v) (simp_all add: idempotency_ok_def wire_idempotency_def enc_simps wire_bounds)

definition encode_source_observation :: "SourceObservationEvidence \<Rightarrow> enc_step" where
  "encode_source_observation evidence = enc_seq
     [enc_ok (encode_identity (so_evidence_id evidence)),
      encode_optional_artifact (so_provenance_artifact evidence),
      enc_ok (enc_u8 (source_transport_tag (so_transport evidence))),
      encode_optional_idempotency (so_idempotency evidence)]"

definition wire_source_observation :: "SourceObservationEvidence \<Rightarrow> bytes" where
  "wire_source_observation x = id_bytes (so_evidence_id x) @ wire_option wire_artifact (so_provenance_artifact x)
     @ [source_transport_tag (so_transport x)] @ wire_option wire_idempotency (so_idempotency x)"

lemma encode_source_observation_wire [enc_simps]:
  "encoder_ok e \<Longrightarrow> source_observation_ok x \<Longrightarrow>
   encode_source_observation x e = Inr (enc_bytes (wire_source_observation x) e)"
  by (simp add: encode_source_observation_def wire_source_observation_def source_observation_ok_def enc_simps)

definition encode_raw_record :: "RawRecordEvidence \<Rightarrow> enc_step" where
  "encode_raw_record evidence = enc_seq
     [enc_ok (encode_identity (raw_evidence_id evidence)),
      enc_ok (encode_identity (raw_snapshot_id evidence)),
      encode_artifact (raw_artifact evidence),
      encode_optional_idempotency (raw_idempotency evidence)]"

definition wire_raw_record :: "RawRecordEvidence \<Rightarrow> bytes" where
  "wire_raw_record x = id_bytes (raw_evidence_id x) @ id_bytes (raw_snapshot_id x)
     @ wire_artifact (raw_artifact x) @ wire_option wire_idempotency (raw_idempotency x)"

lemma encode_raw_record_wire [enc_simps]:
  "encoder_ok e \<Longrightarrow> raw_record_ok x \<Longrightarrow> encode_raw_record x e = Inr (enc_bytes (wire_raw_record x) e)"
  by (simp add: encode_raw_record_def wire_raw_record_def raw_record_ok_def enc_simps)

definition encode_normalized_record :: "NormalizedRecordEvidence \<Rightarrow> enc_step" where
  "encode_normalized_record evidence = enc_seq
     [enc_ok (encode_identity (norm_evidence_id evidence)),
      enc_ok (encode_identity (norm_raw_record_id evidence)),
      encode_content (norm_content evidence),
      enc_ok (encode_identity (norm_observation_evidence_id evidence))]"

definition wire_normalized_record :: "NormalizedRecordEvidence \<Rightarrow> bytes" where
  "wire_normalized_record x = id_bytes (norm_evidence_id x) @ id_bytes (norm_raw_record_id x)
     @ wire_content (norm_content x) @ id_bytes (norm_observation_evidence_id x)"

lemma encode_normalized_record_wire [enc_simps]:
  "encoder_ok e \<Longrightarrow> normalized_record_ok x \<Longrightarrow>
   encode_normalized_record x e = Inr (enc_bytes (wire_normalized_record x) e)"
  by (simp add: encode_normalized_record_def wire_normalized_record_def normalized_record_ok_def enc_simps)

definition encode_lineage :: "SourceObservationLineage \<Rightarrow> enc_step" where
  "encode_lineage lineage = enc_seq
     [enc_ok (enc_u8 (lin_ordinal lineage)),
      enc_ok (encode_identity (lin_canonical_observation_id lineage)),
      encode_source_observation (lin_observation lineage),
      encode_raw_record (lin_raw lineage),
      encode_normalized_record (lin_normalized lineage)]"

definition encode_decoded_lineage :: "DecodedObservationLineageV1 \<Rightarrow> enc_step" where
  "encode_decoded_lineage lineage = enc_seq
     [enc_ok (enc_u8 (dl_ordinal lineage)),
      enc_ok (encode_identity (dl_canonical_observation_id lineage)),
      encode_source_observation (dl_observation lineage),
      encode_raw_record (dl_raw lineage),
      encode_normalized_record (dl_normalized lineage)]"

definition wire_lineage :: "DecodedObservationLineageV1 \<Rightarrow> bytes" where
  "wire_lineage l = [dl_ordinal l] @ id_bytes (dl_canonical_observation_id l)
     @ wire_source_observation (dl_observation l) @ wire_raw_record (dl_raw l)
     @ wire_normalized_record (dl_normalized l)"

definition decoded_lineage_ok :: "DecodedObservationLineageV1 \<Rightarrow> bool" where
  "decoded_lineage_ok l \<longleftrightarrow> identity_ok (dl_canonical_observation_id l) \<and>
     source_observation_ok (dl_observation l) \<and> raw_record_ok (dl_raw l) \<and>
     normalized_record_ok (dl_normalized l)"

definition view_lineage :: "SourceObservationLineage \<Rightarrow> DecodedObservationLineageV1" where
  "view_lineage l =
     \<lparr>dl_ordinal = lin_ordinal l, dl_canonical_observation_id = lin_canonical_observation_id l,
      dl_observation = lin_observation l, dl_raw = lin_raw l, dl_normalized = lin_normalized l\<rparr>"

lemma encode_decoded_lineage_wire [enc_simps]:
  "encoder_ok e \<Longrightarrow> decoded_lineage_ok x \<Longrightarrow>
   encode_decoded_lineage x e = Inr (enc_bytes (wire_lineage x) e)"
  by (simp add: encode_decoded_lineage_def wire_lineage_def decoded_lineage_ok_def enc_simps)

lemma encode_lineage_view: "encode_lineage l = encode_decoded_lineage (view_lineage l)"
  by (simp add: encode_lineage_def encode_decoded_lineage_def view_lineage_def)

definition encode_source_gap :: "SourceGapEvidence \<Rightarrow> Encoder \<Rightarrow> Encoder" where
  "encode_source_gap gap e =
     enc_u8 (source_gap_reason_tag (sg_reason gap)) (enc_u128 (number_get (sg_end gap))
       (enc_u128 (number_get (sg_start gap)) (enc_u128 (number_get (sg_epoch gap)) e)))"

definition wire_source_gap :: "SourceGapEvidence \<Rightarrow> bytes" where
  "wire_source_gap g = be_encode 16 (unat (number_get (sg_epoch g))) @ be_encode 16 (unat (number_get (sg_start g)))
     @ be_encode 16 (unat (number_get (sg_end g))) @ [source_gap_reason_tag (sg_reason g)]"

lemma encode_source_gap_wire [enc_simps]: "encode_source_gap x e = enc_bytes (wire_source_gap x) e"
  by (simp add: encode_source_gap_def wire_source_gap_def enc_simps)

section \<open>The admission payload\<close>

definition encode_canonical_payload :: "CanonicalAdmission \<Rightarrow> enc_step" where
  "encode_canonical_payload admission = enc_seq
     [enc_ok (encode_identity (adm_store_id admission)),
      encode_declaration (adm_declaration admission),
      encode_envelope (adm_envelope admission),
      encode_retry (adm_retry admission),
      encode_batch (adm_batch admission),
      encode_lifecycle (adm_lifecycle admission),
      enc_ok (encode_source_interval_kind (adm_evidence_kind admission)),
      (case adm_evidence_kind admission of
         SourceObserved \<Rightarrow> enc_seq
           [enc_count (length (adm_observations admission)),
            enc_each encode_lineage (adm_observations admission),
            enc_count (length (adm_gaps admission)),
            enc_each (\<lambda>gap. enc_ok (encode_source_gap gap)) (adm_gaps admission)]
       | SourceNoChange \<Rightarrow> enc_seq [])]"

definition encode_decoded_payload :: "DecodedAdmissionV1 \<Rightarrow> enc_step" where
  "encode_decoded_payload admission = enc_seq
     [enc_ok (encode_identity (da_store_id admission)),
      encode_decoded_declaration (da_declaration admission),
      encode_envelope (da_envelope admission),
      encode_retry (da_retry admission),
      encode_batch (da_batch admission),
      encode_lifecycle (da_lifecycle admission),
      enc_ok (encode_source_interval_kind (da_evidence_kind admission)),
      (case da_evidence admission of
         DecodedObserved observations gaps \<Rightarrow> enc_seq
           [enc_count (length observations),
            enc_each encode_decoded_lineage observations,
            enc_count (length gaps),
            enc_each (\<lambda>gap. enc_ok (encode_source_gap gap)) gaps]
       | DecodedNoChange \<Rightarrow> enc_seq [])]"

fun wire_evidence :: "DecodedEvidenceV1 \<Rightarrow> bytes" where
  "wire_evidence (DecodedObserved observations gaps) =
     1 # wire_list wire_lineage observations @ wire_list wire_source_gap gaps"
| "wire_evidence DecodedNoChange = [2]"

definition wire_payload :: "DecodedAdmissionV1 \<Rightarrow> bytes" where
  "wire_payload a = id_bytes (da_store_id a) @ wire_declaration (da_declaration a) @ wire_envelope (da_envelope a)
     @ wire_retry (da_retry a) @ wire_batch (da_batch a) @ wire_lifecycle (da_lifecycle a)
     @ wire_evidence (da_evidence a)"

fun decoded_evidence_ok :: "DecodedEvidenceV1 \<Rightarrow> bool" where
  "decoded_evidence_ok (DecodedObserved observations gaps) \<longleftrightarrow>
     length observations \<le> 256 \<and> list_all decoded_lineage_ok observations \<and>
     length gaps \<le> 64 \<and> list_all source_gap_ok gaps"
| "decoded_evidence_ok DecodedNoChange \<longleftrightarrow> True"

text \<open>The field-level validity the payload decoder establishes.\<close>

definition decoded_payload_ok :: "DecodedAdmissionV1 \<Rightarrow> bool" where
  "decoded_payload_ok a \<longleftrightarrow> identity_ok (da_store_id a) \<and> decoded_declaration_ok (da_declaration a) \<and>
     envelope_ok (da_envelope a) \<and> retry_ok (da_retry a) \<and> batch_ok (da_batch a) \<and>
     lifecycle_ok (da_lifecycle a) \<and> decoded_evidence_ok (da_evidence a)"

lemma encode_evidence_wire:
  assumes "decoded_evidence_ok ev" "encoder_ok e"
  shows "enc_seq [case ev of DecodedObserved observations gaps \<Rightarrow> enc_seq
           [enc_count (length observations), enc_each encode_decoded_lineage observations,
            enc_count (length gaps), enc_each (\<lambda>gap. enc_ok (encode_source_gap gap)) gaps]
         | DecodedNoChange \<Rightarrow> enc_seq []] e = Inr (enc_bytes (tl (wire_evidence ev)) e)"
proof (cases ev)
  case (DecodedObserved observations gaps)
  have "enc_seq [enc_count (length observations), enc_each encode_decoded_lineage observations,
      enc_count (length gaps), enc_each (\<lambda>gap. enc_ok (encode_source_gap gap)) gaps] e =
      Inr (enc_bytes (wire_list wire_lineage observations @ wire_list wire_source_gap gaps) e)"
    using assms DecodedObserved
    by (subst enc_list_wire [where w = wire_lineage])
      (auto simp: list_all_iff enc_simps enc_list_wire [where w = wire_source_gap] simp del: enc_seq.simps(2))
  with assms DecodedObserved show ?thesis by simp
next
  case DecodedNoChange
  with assms show ?thesis by simp
qed

lemma encode_decoded_payload_wire [enc_simps]:
  assumes "encoder_ok e" "decoded_payload_ok x"
  shows "encode_decoded_payload x e = Inr (enc_bytes (wire_payload x) e)"
proof -
  have "wire_evidence (da_evidence x) = source_interval_kind_tag (da_evidence_kind x) # tl (wire_evidence (da_evidence x))"
    by (cases "da_evidence x") (simp_all add: da_evidence_kind_def)
  then have "wire_payload x = (id_bytes (da_store_id x) @ wire_declaration (da_declaration x)
      @ wire_envelope (da_envelope x) @ wire_retry (da_retry x) @ wire_batch (da_batch x)
      @ wire_lifecycle (da_lifecycle x) @ [source_interval_kind_tag (da_evidence_kind x)])
      @ tl (wire_evidence (da_evidence x))"
    by (simp add: wire_payload_def)
  moreover have "decoded_evidence_ok (da_evidence x)" using assms by (simp add: decoded_payload_ok_def)
  ultimately show ?thesis
    using assms encode_evidence_wire [of "da_evidence x"]
    unfolding encode_decoded_payload_def enc_seq.simps(2) [of "enc_ok (encode_identity i)" for i]
    by (simp add: decoded_payload_ok_def enc_simps)
qed

text \<open>An authorized admission encodes through its inspection view.\<close>

definition view_admission :: "u64 \<Rightarrow> CanonicalAdmission \<Rightarrow> DecodedAdmissionV1" where
  "view_admission sq a =
     \<lparr>da_append_sequence = sq, da_store_id = adm_store_id a,
      da_declaration = view_declaration (adm_declaration a), da_envelope = adm_envelope a,
      da_retry = adm_retry a, da_batch = adm_batch a, da_lifecycle = adm_lifecycle a,
      da_evidence = (case adm_evidence a of
         AdmissionObserved observations gaps \<Rightarrow> DecodedObserved (map view_lineage observations) gaps
       | AdmissionNoChange \<Rightarrow> DecodedNoChange)\<rparr>"

lemma enc_each_view: "enc_each f (map g xs) = enc_each (\<lambda>x. f (g x)) xs"
  by (simp add: enc_each_def comp_def)

lemma encode_canonical_payload_view:
  "encode_canonical_payload a = encode_decoded_payload (view_admission sq a)"
  by (cases "adm_evidence a")
    (simp_all add: encode_canonical_payload_def encode_decoded_payload_def view_admission_def
      encode_declaration_view encode_lineage_view [abs_def] adm_evidence_kind_def adm_observations_def
      adm_gaps_def da_evidence_kind_def enc_each_view)

end
