(* ===== verification/Och_Decode.thy ===== *)
theory Och_Decode
  imports Och_Encode
begin

text \<open>
  The payload decoders of \<^verbatim>\<open>och-store/src/codec.rs\<close>.  Each \<open>decode_x\<close> is proved to accept exactly
  the layouts \<open>wire_x\<close> of valid values, consuming exactly those bytes; the locale \<open>wire_codec\<close> is
  interpreted on the encoder/decoder pairs.
\<close>

section \<open>Bounds\<close>

definition MAX_DECLARATION_REFERENCE_BYTES :: nat where "MAX_DECLARATION_REFERENCE_BYTES = 4 * 1024"
definition MAX_EXACT_TEXT_BYTES :: nat where "MAX_EXACT_TEXT_BYTES = 4 * 4096"

lemmas bound_defs = MAX_DECLARATION_REFERENCE_BYTES_def MAX_EXACT_TEXT_BYTES_def
  MAX_PORTABLE_TOKEN_BYTES_def MAX_CONTENT_FORMAT_BYTES_def MAX_RETRY_KEY_BYTES_def
  MAX_OBSERVATIONS_def MAX_GAPS_def MAX_NATIVE_STATUS_TOKENS_def

lemma decodes_bounded [decodes_intros]:
  "decodes (cur_string MAX_DECLARATION_REFERENCE_BYTES)
     (\<lambda>s bs. length s \<le> 4096 \<and> utf8_valid s \<and> bs = wire_string s)"
  "decodes (cur_string MAX_EXACT_TEXT_BYTES)
     (\<lambda>s bs. length s \<le> 16384 \<and> utf8_valid s \<and> bs = wire_string s)"
  "decodes (cur_string MAX_PORTABLE_TOKEN_BYTES)
     (\<lambda>s bs. length s \<le> 256 \<and> utf8_valid s \<and> bs = wire_string s)"
  "decodes (cur_string MAX_CONTENT_FORMAT_BYTES)
     (\<lambda>s bs. length s \<le> 64 \<and> utf8_valid s \<and> bs = wire_string s)"
  "decodes (cur_string MAX_RETRY_KEY_BYTES)
     (\<lambda>s bs. length s \<le> 128 \<and> utf8_valid s \<and> bs = wire_string s)"
  "decodes (cur_count MAX_OBSERVATIONS) (\<lambda>n bs. n \<le> 256 \<and> bs = be_encode 4 n)"
  "decodes (cur_count MAX_GAPS) (\<lambda>n bs. n \<le> 64 \<and> bs = be_encode 4 n)"
  "decodes (cur_count MAX_NATIVE_STATUS_TOKENS) (\<lambda>n bs. n \<le> 16 \<and> bs = be_encode 4 n)"
  using decodes_string [of 4096] decodes_string [of 16384] decodes_string [of 256] decodes_string [of 64]
    decodes_string [of 128] decodes_count [of 256] decodes_count [of 64] decodes_count [of 16]
  by (simp_all add: bound_defs)

section \<open>Leaf decoders\<close>

definition invalid_model :: "ModelError \<Rightarrow> JournalV1Error" where
  "invalid_model e = InvalidCanonicalData"

definition decode_identity_bytes :: "bytes decoder" where
  "decode_identity_bytes = cur_array 16"

text \<open>\<open>decode_store_id\<close> and its five siblings, one definition over the identity kind.\<close>

definition decode_identity :: "'k identity decoder" where
  "decode_identity = cur_bind decode_identity_bytes (\<lambda>bs.
     cur_lift (map_err (\<lambda>_. InvalidIdentity) (identity_from_bytes bs)))"

lemma identity_ok_length: "identity_ok i \<Longrightarrow> length (id_bytes i) = 16"
  by (simp add: identity_ok_def)

lemma decodes_identity [decodes_intros]:
  "decodes decode_identity (\<lambda>x bs. identity_ok x \<and> bs = id_bytes x)"
  unfolding decode_identity_def decode_identity_bytes_def
  by (rule decodes_eq, (rule decodes_intros)+)
    (auto simp: map_err_Inr_conv identity_from_bytes_iff identity_ok_length)

definition decode_timestamp :: "Timestamp decoder" where
  "decode_timestamp = cur_bind cur_i64 (\<lambda>s. cur_bind cur_u32 (\<lambda>n.
     cur_lift (map_err invalid_model (timestamp_new s n))))"

lemma decodes_timestamp [decodes_intros]:
  "decodes decode_timestamp (\<lambda>x bs. timestamp_ok x \<and> bs = wire_timestamp x)"
  unfolding decode_timestamp_def
  by (rule decodes_eq, (rule decodes_intros)+)
    (auto simp: map_err_Inr_conv timestamp_new_iff wire_timestamp_def)

definition decode_time_interval :: "TimeInterval decoder" where
  "decode_time_interval = cur_bind decode_timestamp (\<lambda>a. cur_bind decode_timestamp (\<lambda>b.
     cur_lift (map_err invalid_model (time_interval_new a b))))"

lemma decodes_time_interval [decodes_intros]:
  "decodes decode_time_interval (\<lambda>x bs. time_interval_ok x \<and> bs = wire_time_interval x)"
  unfolding decode_time_interval_def
  by (rule decodes_eq, (rule decodes_intros)+)
    (auto simp: map_err_Inr_conv time_interval_new_iff wire_time_interval_def time_interval_ok_def)

definition decode_optional_timestamp :: "Timestamp option decoder" where
  "decode_optional_timestamp = cur_optional decode_timestamp"

definition decode_optional_interval :: "TimeInterval option decoder" where
  "decode_optional_interval = cur_optional decode_time_interval"

definition decode_optional_position :: "ProducerPosition option decoder" where
  "decode_optional_position = cur_optional (cur_bind cur_u128 (\<lambda>e. cur_bind cur_u128 (\<lambda>s.
     cur_return (ProducerPosition (ProducerNumber e) (ProducerNumber s)))))"

lemma decodes_optional_timestamp [decodes_intros]:
  "decodes decode_optional_timestamp (\<lambda>v bs. pred_option timestamp_ok v \<and> bs = wire_option wire_timestamp v)"
  unfolding decode_optional_timestamp_def by (intro decodes_intros)

lemma decodes_optional_interval [decodes_intros]:
  "decodes decode_optional_interval (\<lambda>v bs. pred_option time_interval_ok v \<and> bs = wire_option wire_time_interval v)"
  unfolding decode_optional_interval_def by (intro decodes_intros)

lemma decodes_optional_position [decodes_intros]:
  "decodes decode_optional_position (\<lambda>v bs. pred_option (\<lambda>_. True) v \<and> bs = wire_option wire_position v)"
  unfolding decode_optional_position_def
  apply (rule decodes_optional, rule decodes_eq, (rule decodes_intros)+)
  subgoal for p bs by (cases p; cases "epoch p"; cases "sequence p") (auto simp: wire_position_def)
  done

text \<open>A one-byte tag decoded through a table.\<close>

definition cur_tag :: "(u8 \<rightharpoonup> 'a) \<Rightarrow> 'a decoder" where
  "cur_tag f = cur_bind cur_u8 (\<lambda>b. case f b of None \<Rightarrow> cur_fail UnknownTag | Some x \<Rightarrow> cur_return x)"

lemma decodes_tag:
  assumes "\<And>b x. f b = Some x \<longleftrightarrow> b = tag x"
  shows "decodes (cur_tag f) (\<lambda>x bs. bs = [tag x])"
  unfolding cur_tag_def
proof (rule decodesI)
  fix c x c'
  assume c: "cursor_ok c"
  have "cur_bind cur_u8 (\<lambda>b. case f b of None \<Rightarrow> cur_fail UnknownTag | Some x \<Rightarrow> cur_return x) c = Inr (x, c') \<longleftrightarrow>
    cur_u8 c = Inr (tag x, c')"
  proof (cases "cur_u8 c")
    case (Inr p)
    obtain b c1 where p: "p = (b, c1)" by (cases p)
    show ?thesis
      using assms [of b x] by (cases "f b") (auto simp: cur_bind_def Inr p cur_fail_def cur_return_def)
  qed (simp add: cur_bind_def)
  then show "cur_bind cur_u8 (\<lambda>b. case f b of None \<Rightarrow> cur_fail UnknownTag | Some x \<Rightarrow> cur_return x) c = Inr (x, c') \<longleftrightarrow>
    (\<exists>bs rest. bs = [tag x] \<and> remaining c = bs @ rest \<and> c' = advance (length bs) c)"
    using decodesD [OF decodes_u8 c] by simp
qed

definition collection_mode_of_tag :: "u8 \<Rightarrow> CollectionMode option" where
  "collection_mode_of_tag b = (if b = 1 then Some Sampled else if b = 2 then Some ChangeOnly
     else if b = 3 then Some Cumulative else if b = 4 then Some Interval
     else if b = 5 then Some Event else None)"

definition decode_collection_mode :: "CollectionMode decoder" where
  "decode_collection_mode = cur_tag collection_mode_of_tag"

definition value_family_of_tag :: "u8 \<Rightarrow> ValueFamily option" where
  "value_family_of_tag b = (if b = 1 then Some FamilyReal else if b = 2 then Some FamilySigned
     else if b = 3 then Some FamilyUnsigned else if b = 4 then Some FamilyBoolean
     else if b = 5 then Some FamilyState else if b = 6 then Some FamilyText
     else if b = 7 then Some FamilyArtifact else None)"

definition decode_value_family :: "ValueFamily decoder" where
  "decode_value_family = cur_tag value_family_of_tag"

definition source_interval_kind_of_tag :: "u8 \<Rightarrow> SourceIntervalKind option" where
  "source_interval_kind_of_tag b =
     (if b = 1 then Some SourceObserved else if b = 2 then Some SourceNoChange else None)"

definition decode_source_interval_kind :: "SourceIntervalKind decoder" where
  "decode_source_interval_kind = cur_tag source_interval_kind_of_tag"

definition quality_level_of_tag :: "u8 \<Rightarrow> QualityLevel option" where
  "quality_level_of_tag b = (if b = 1 then Some QualityUnknown else if b = 2 then Some Good
     else if b = 3 then Some Uncertain else if b = 4 then Some Bad
     else if b = 5 then Some NotEvaluated else None)"

definition gap_reason_of_tag :: "u8 \<Rightarrow> GapReason option" where
  "gap_reason_of_tag b = (if b = 1 then Some GapUnknown else if b = 2 then Some GapProducerRestart
     else if b = 3 then Some GapBufferOverflow else if b = 4 then Some GapCommunicationFailure
     else if b = 5 then Some GapSourceDataLoss else if b = 6 then Some GapAdministrativeExclusion else None)"

definition source_gap_reason_of_tag :: "u8 \<Rightarrow> SourceGapReason option" where
  "source_gap_reason_of_tag b =
     (if b = 1 then Some SourceGapCommunicationFailure else if b = 2 then Some SourceGapSourceUnavailable
      else if b = 3 then Some SourceGapProducerReset else if b = 4 then Some SourceGapFiltered
      else if b = 5 then Some SourceGapUnknown else None)"

definition source_transport_of_tag :: "u8 \<Rightarrow> SourceTransport option" where
  "source_transport_of_tag b = (if b = 1 then Some New else if b = 2 then Some Redelivered else None)"

lemma tag_tables:
  "collection_mode_of_tag b = Some m \<longleftrightarrow> b = collection_mode_tag m"
  "value_family_of_tag b = Some f \<longleftrightarrow> b = value_family_tag f"
  "source_interval_kind_of_tag b = Some k \<longleftrightarrow> b = source_interval_kind_tag k"
  "quality_level_of_tag b = Some l \<longleftrightarrow> b = quality_level_tag l"
  "gap_reason_of_tag b = Some g \<longleftrightarrow> b = gap_reason_tag g"
  "source_gap_reason_of_tag b = Some s \<longleftrightarrow> b = source_gap_reason_tag s"
  "source_transport_of_tag b = Some t \<longleftrightarrow> b = source_transport_tag t"
  subgoal by (cases m) (auto simp: collection_mode_of_tag_def)
  subgoal by (cases f) (auto simp: value_family_of_tag_def)
  subgoal by (cases k) (auto simp: source_interval_kind_of_tag_def)
  subgoal by (cases l) (auto simp: quality_level_of_tag_def)
  subgoal by (cases g) (auto simp: gap_reason_of_tag_def)
  subgoal by (cases s) (auto simp: source_gap_reason_of_tag_def)
  subgoal by (cases t) (auto simp: source_transport_of_tag_def)
  done

lemma decodes_tags [decodes_intros]:
  "decodes decode_collection_mode (\<lambda>x bs. bs = [collection_mode_tag x])"
  "decodes decode_value_family (\<lambda>x bs. bs = [value_family_tag x])"
  "decodes decode_source_interval_kind (\<lambda>x bs. bs = [source_interval_kind_tag x])"
  "decodes (cur_tag quality_level_of_tag) (\<lambda>x bs. bs = [quality_level_tag x])"
  "decodes (cur_tag gap_reason_of_tag) (\<lambda>x bs. bs = [gap_reason_tag x])"
  "decodes (cur_tag source_gap_reason_of_tag) (\<lambda>x bs. bs = [source_gap_reason_tag x])"
  "decodes (cur_tag source_transport_of_tag) (\<lambda>x bs. bs = [source_transport_tag x])"
  unfolding decode_collection_mode_def decode_value_family_def decode_source_interval_kind_def
  by (intro decodes_tag tag_tables)+

section \<open>Content, artifacts and references\<close>

text \<open>A bounded string handed to a model constructor, the constructor's error collapsed.\<close>

definition decode_token :: "'k portable_token decoder" where
  "decode_token = cur_bind (cur_string MAX_PORTABLE_TOKEN_BYTES) (\<lambda>s.
     cur_lift (map_err invalid_model (portable_token_new s)))"

lemma decodes_token [decodes_intros]:
  "decodes decode_token (\<lambda>x bs. portable_token_ok x \<and> bs = wire_token x)"
  unfolding decode_token_def
  by (rule decodes_eq, (rule decodes_intros)+)
    (auto simp: map_err_Inr_conv portable_token_new_iff wire_token_def wire_bounds)

definition decode_exact_text :: "ExactText decoder" where
  "decode_exact_text = cur_bind (cur_string MAX_EXACT_TEXT_BYTES) (\<lambda>s.
     cur_lift (map_err invalid_model (exact_text_new s)))"

lemma decodes_exact_text [decodes_intros]:
  "decodes decode_exact_text (\<lambda>x bs. exact_text_ok x \<and> bs = wire_string (exact_text_str x))"
  unfolding decode_exact_text_def
  by (rule decodes_eq, (rule decodes_intros)+)
    (auto simp: map_err_Inr_conv exact_text_new_iff wire_bounds cong: conj_cong)

definition decode_retry_key :: "RetryKey decoder" where
  "decode_retry_key = cur_bind (cur_string MAX_RETRY_KEY_BYTES) (\<lambda>s.
     cur_lift (map_err invalid_model (retry_key_new s)))"

lemma decodes_retry_key [decodes_intros]:
  "decodes decode_retry_key (\<lambda>x bs. retry_key_ok x \<and> bs = wire_string (retry_key_str x))"
  unfolding decode_retry_key_def
  by (rule decodes_eq, (rule decodes_intros)+)
    (auto simp: map_err_Inr_conv retry_key_new_iff wire_bounds)

definition decode_declaration_reference :: "DeclarationReference decoder" where
  "decode_declaration_reference = cur_bind (cur_string MAX_DECLARATION_REFERENCE_BYTES) (\<lambda>s.
     cur_lift (map_err invalid_model (declaration_reference_new s)))"

lemma decodes_declaration_reference [decodes_intros]:
  "decodes decode_declaration_reference (\<lambda>x bs. reference_ok x \<and> bs = wire_reference x)"
  unfolding decode_declaration_reference_def
  by (rule decodes_eq, (rule decodes_intros)+)
    (auto simp: map_err_Inr_conv declaration_reference_new_iff wire_reference_def wire_bounds
      cong: conj_cong)

definition decode_source_projection :: "SourceProjection decoder" where
  "decode_source_projection = cur_bind (cur_string MAX_DECLARATION_REFERENCE_BYTES) (\<lambda>s.
     cur_lift (map_err invalid_model (source_projection_new s)))"

lemma source_projection_new_iff:
  "utf8_valid s \<Longrightarrow> source_projection_new s = Inr p \<longleftrightarrow>
   reference_str (projection_reference p) = s \<and> projection_ok p"
  by (cases p) (auto simp: source_projection_new_def map_ok_Inr_conv declaration_reference_new_iff projection_ok_def)

lemma decodes_source_projection [decodes_intros]:
  "decodes decode_source_projection (\<lambda>x bs. projection_ok x \<and> bs = wire_projection x)"
  unfolding decode_source_projection_def
  by (rule decodes_eq, (rule decodes_intros)+)
    (auto simp: map_err_Inr_conv source_projection_new_iff wire_projection_def wire_reference_def
      projection_ok_def wire_bounds cong: conj_cong)

definition decode_content :: "ContentIdentity decoder" where
  "decode_content =
     cur_bind (cur_bind (cur_string MAX_CONTENT_FORMAT_BYTES) (\<lambda>s.
       cur_lift (map_err invalid_model (content_format_new s)))) (\<lambda>format.
     cur_bind cur_u128 (\<lambda>version.
     cur_bind (cur_array 32) (\<lambda>sha256.
     cur_return \<lparr>content_format = format, content_version = ContentVersion version,
                 content_sha256 = sha256\<rparr>)))"

lemma decodes_content [decodes_intros]:
  "decodes decode_content (\<lambda>x bs. content_ok x \<and> bs = wire_content x)"
  unfolding decode_content_def
  apply (rule decodes_eq, (rule decodes_intros)+)
  subgoal for x bs
    by (cases x; cases "content_version x")
      (auto simp: map_err_Inr_conv content_format_new_iff wire_content_def content_ok_def wire_bounds)
  done

definition decode_artifact :: "ArtifactReference decoder" where
  "decode_artifact = cur_bind decode_identity (\<lambda>i. cur_bind decode_content (\<lambda>c.
     cur_return \<lparr>artifact_id = i, artifact_content = c\<rparr>))"

lemma decodes_artifact [decodes_intros]:
  "decodes decode_artifact (\<lambda>x bs. artifact_ok x \<and> bs = wire_artifact x)"
  unfolding decode_artifact_def
  apply (rule decodes_eq, (rule decodes_intros)+)
  subgoal for x bs by (cases x) (auto simp: wire_artifact_def artifact_ok_def)
  done

definition decode_optional_artifact :: "ArtifactReference option decoder" where
  "decode_optional_artifact = cur_optional decode_artifact"

lemma decodes_optional_artifact [decodes_intros]:
  "decodes decode_optional_artifact (\<lambda>v bs. pred_option artifact_ok v \<and> bs = wire_option wire_artifact v)"
  unfolding decode_optional_artifact_def by (intro decodes_intros)

definition decode_quantity :: "QuantityEvidence decoder" where
  "decode_quantity = cur_bind cur_u8 (\<lambda>b.
     if b = 0 then cur_return QuantityAbsent
     else if b = 1 then cur_bind decode_declaration_reference (\<lambda>r. cur_return (QuantityResolved r))
     else if b = 2 then cur_bind decode_declaration_reference (\<lambda>r. cur_return (QuantityUnresolved r))
     else cur_fail UnknownTag)"

lemma decodes_quantity [decodes_intros]:
  "decodes decode_quantity (\<lambda>x bs. quantity_ok x \<and> bs = wire_quantity x)"
  unfolding decode_quantity_def
  apply (rule decodes_eq, (rule decodes_intros)+)
  subgoal for x bs by (cases x) auto
  done

definition decode_unit :: "UnitEvidence decoder" where
  "decode_unit = cur_bind cur_u8 (\<lambda>b.
     if b = 0 then cur_return UnitAbsent
     else if b = 1 then cur_bind decode_declaration_reference (\<lambda>r. cur_return (UnitResolved r))
     else if b = 2 then cur_bind decode_declaration_reference (\<lambda>r. cur_return (UnitUnresolved r))
     else cur_fail UnknownTag)"

lemma decodes_unit [decodes_intros]:
  "decodes decode_unit (\<lambda>x bs. unit_ok x \<and> bs = wire_unit x)"
  unfolding decode_unit_def
  apply (rule decodes_eq, (rule decodes_intros)+)
  subgoal for x bs by (cases x) auto
  done

section \<open>Declarations\<close>

definition decode_source_reference :: "SourceReference decoder" where
  "decode_source_reference =
     cur_bind decode_declaration_reference (\<lambda>provider.
     cur_bind (cur_optional decode_source_projection) (\<lambda>projection.
     cur_bind decode_declaration_reference (\<lambda>locator.
     cur_return (case projection of
         Some p \<Rightarrow> source_reference_with_projection provider p locator
       | None \<Rightarrow> source_reference_new provider locator))))"

lemma source_reference_cases:
  "(case projection of Some p \<Rightarrow> source_reference_with_projection provider p locator
     | None \<Rightarrow> source_reference_new provider locator) =
   \<lparr>src_provider = provider, src_projection = projection, src_locator = locator\<rparr>"
  by (cases projection) (simp_all add: source_reference_with_projection_def source_reference_new_def)

lemma decodes_source_reference [decodes_intros]:
  "decodes decode_source_reference (\<lambda>x bs. source_reference_ok x \<and> bs = wire_source_reference x)"
  unfolding decode_source_reference_def source_reference_cases
  apply (rule decodes_eq, (rule decodes_intros)+)
  subgoal for x bs by (cases x) (auto simp: wire_source_reference_def source_reference_ok_def)
  done

definition decode_binding :: "SeriesBinding decoder" where
  "decode_binding = cur_bind decode_source_reference (\<lambda>s. cur_return \<lparr>binding_source = s\<rparr>)"

lemma decodes_binding [decodes_intros]:
  "decodes decode_binding (\<lambda>x bs. binding_ok x \<and> bs = wire_binding x)"
  unfolding decode_binding_def
  apply (rule decodes_eq, (rule decodes_intros)+)
  subgoal for x bs by (cases x) (auto simp: wire_binding_def binding_ok_def)
  done

definition decode_declaration_payload :: "SeriesDeclarationPayload decoder" where
  "decode_declaration_payload =
     cur_bind decode_identity (\<lambda>producer_id.
     cur_bind decode_collection_mode (\<lambda>mode.
     cur_bind decode_value_family (\<lambda>family.
     cur_bind decode_quantity (\<lambda>quantity.
     cur_bind decode_unit (\<lambda>unit_evidence.
     cur_bind (cur_optional decode_declaration_reference) (\<lambda>application.
     cur_return \<lparr>pl_producer_id = producer_id, pl_collection_mode = mode, pl_value_family = family,
                 pl_quantity = quantity, pl_unit = unit_evidence, pl_application = application\<rparr>))))))"

lemma decodes_declaration_payload [decodes_intros]:
  "decodes decode_declaration_payload (\<lambda>x bs. payload_ok x \<and> bs = wire_declaration_payload x)"
  unfolding decode_declaration_payload_def
  apply (rule decodes_eq, (rule decodes_intros)+)
  subgoal for x bs by (cases x) (auto simp: wire_declaration_payload_def payload_ok_def)
  done

definition decode_declaration_evidence :: "DeclarationEvidence decoder" where
  "decode_declaration_evidence =
     cur_bind decode_timestamp (\<lambda>effective_at.
     cur_bind decode_optional_artifact (\<lambda>artifact.
     cur_return \<lparr>de_effective_at = effective_at, de_artifact = artifact\<rparr>))"

lemma decodes_declaration_evidence [decodes_intros]:
  "decodes decode_declaration_evidence (\<lambda>x bs. declaration_evidence_ok x \<and> bs = wire_declaration_evidence x)"
  unfolding decode_declaration_evidence_def
  apply (rule decodes_eq, (rule decodes_intros)+)
  subgoal for x bs by (cases x) (auto simp: wire_declaration_evidence_def declaration_evidence_ok_def)
  done

definition decode_revision :: "DeclarationRevision decoder" where
  "decode_revision = cur_bind cur_u128 (\<lambda>v. cur_lift (map_err invalid_model (declaration_revision_new v)))"

lemma decodes_revision [decodes_intros]:
  "decodes decode_revision (\<lambda>x bs. revision_ok x \<and> bs = wire_revision x)"
  unfolding decode_revision_def
  apply (rule decodes_eq, (rule decodes_intros)+)
  subgoal for x bs
    by (cases x) (auto simp: map_err_Inr_conv declaration_revision_new_def revision_ok_def wire_revision_def)
  done

definition decode_declaration :: "DecodedDeclarationV1 decoder" where
  "decode_declaration =
     cur_bind decode_identity (\<lambda>store_id.
     cur_bind decode_identity (\<lambda>series_id.
     cur_bind decode_revision (\<lambda>revision.
     cur_bind (cur_optional decode_revision) (\<lambda>previous_revision.
     cur_bind decode_binding (\<lambda>binding.
     cur_bind decode_declaration_payload (\<lambda>payload.
     cur_bind decode_declaration_evidence (\<lambda>evidence.
     cur_return \<lparr>dd_store_id = store_id, dd_series_id = series_id, dd_revision = revision,
                 dd_previous_revision = previous_revision, dd_binding = binding,
                 dd_payload = payload, dd_evidence = evidence\<rparr>)))))))"

lemma decodes_declaration [decodes_intros]:
  "decodes decode_declaration (\<lambda>x bs. decoded_declaration_ok x \<and> bs = wire_declaration x)"
  unfolding decode_declaration_def
  apply (rule decodes_eq, (rule decodes_intros)+)
  subgoal for x bs by (cases x) (auto simp: wire_declaration_def decoded_declaration_ok_def)
  done

section \<open>Observations and envelopes\<close>

text \<open>A count bounded by \<open>maximum\<close> followed by that many items pushed in order.\<close>

definition cur_counted :: "nat \<Rightarrow> 'a decoder \<Rightarrow> 'a list decoder" where
  "cur_counted maximum d = cur_bind (cur_count maximum) (\<lambda>n. cur_repeat n d)"

lemma decodes_counted:
  assumes d: "decodes d (\<lambda>x bs. P x \<and> bs = w x)"
    and n: "decodes (cur_count m) (\<lambda>n bs. n \<le> k \<and> bs = be_encode 4 n)"
  shows "decodes (cur_counted m d) (\<lambda>xs bs. (length xs \<le> k \<and> list_all P xs) \<and> bs = wire_list w xs)"
  unfolding cur_counted_def
  by (rule decodes_eq, rule decodes_bind [OF n], rule decodes_repeat [OF d]) (auto simp: wire_list_def)

definition decode_series_metadata :: "SeriesMetadata decoder" where
  "decode_series_metadata =
     cur_bind decode_identity (\<lambda>series_id.
     cur_bind decode_identity (\<lambda>producer_id.
     cur_bind decode_collection_mode (\<lambda>mode.
     cur_return \<lparr>md_series_id = series_id, md_producer_id = producer_id, md_collection_mode = mode\<rparr>)))"

lemma decodes_series_metadata [decodes_intros]:
  "decodes decode_series_metadata (\<lambda>x bs. metadata_ok x \<and> bs = wire_series_metadata x)"
  unfolding decode_series_metadata_def
  apply (rule decodes_eq, (rule decodes_intros)+)
  subgoal for x bs by (cases x) (auto simp: wire_series_metadata_def metadata_ok_def)
  done

definition decode_exact_value :: "ExactValue decoder" where
  "decode_exact_value = cur_bind cur_u8 (\<lambda>b.
     if b = 1 then cur_bind cur_u64 (\<lambda>v. cur_return (Real (RealBits v)))
     else if b = 2 then cur_bind cur_i64 (\<lambda>v. cur_return (Signed v))
     else if b = 3 then cur_bind cur_u64 (\<lambda>v. cur_return (Unsigned v))
     else if b = 4 then cur_bind cur_u8 (\<lambda>v.
       if v = 0 then cur_return (Boolean False)
       else if v = 1 then cur_return (Boolean True) else cur_fail UnknownTag)
     else if b = 5 then cur_bind decode_token (\<lambda>c. cur_bind decode_token (\<lambda>m.
       cur_return (State \<lparr>state_class = c, state_member = m\<rparr>)))
     else if b = 6 then cur_bind decode_exact_text (\<lambda>t. cur_return (Text t))
     else if b = 7 then cur_bind decode_artifact (\<lambda>a. cur_return (Artifact a))
     else if b = 8 then cur_bind (cur_optional decode_token) (\<lambda>reason.
       cur_return (UnavailableValue \<lparr>unavailable_reason = reason\<rparr>))
     else cur_fail UnknownTag)"

lemma exact_value_records:
  "s = \<lparr>state_class = c, state_member = m\<rparr> \<longleftrightarrow> c = state_class s \<and> m = state_member s"
  "u = \<lparr>unavailable_reason = r\<rparr> \<longleftrightarrow> r = unavailable_reason u"
  "v = RealBits n \<longleftrightarrow> n = real_to_bits v"
  by (cases s; auto) (cases u; auto; fail | cases v; auto)+

lemma decodes_exact_value [decodes_intros]:
  "decodes decode_exact_value (\<lambda>x bs. exact_value_ok x \<and> bs = wire_exact_value x)"
  unfolding decode_exact_value_def
  apply (rule decodes_eq, (rule decodes_intros)+)
  subgoal for x bs by (cases x) (auto simp: exact_value_records)
  done

definition decode_observation_times :: "ObservationTimes decoder" where
  "decode_observation_times =
     cur_bind decode_optional_timestamp (\<lambda>source.
     cur_bind decode_timestamp (\<lambda>receive.
     cur_bind decode_timestamp (\<lambda>effective.
     cur_return \<lparr>times_source = source, times_receive = receive, times_effective = effective\<rparr>)))"

lemma decodes_observation_times [decodes_intros]:
  "decodes decode_observation_times (\<lambda>x bs. observation_times_ok x \<and> bs = wire_observation_times x)"
  unfolding decode_observation_times_def
  apply (rule decodes_eq, (rule decodes_intros)+)
  subgoal for x bs by (cases x) (auto simp: wire_observation_times_def observation_times_ok_def)
  done

definition flags_of_bits :: "u8 \<Rightarrow> QualityFlags" where
  "flags_of_bits bits =
     with_communication_failure (bits AND 32 \<noteq> 0) (with_out_of_service (bits AND 16 \<noteq> 0)
     (with_overridden (bits AND 8 \<noteq> 0) (with_substituted (bits AND 4 \<noteq> 0)
     (with_invalid (bits AND 2 \<noteq> 0) (with_stale (bits AND 1 \<noteq> 0) flags_none)))))"

definition decode_quality :: "Quality decoder" where
  "decode_quality =
     cur_bind (cur_tag quality_level_of_tag) (\<lambda>level.
     cur_bind cur_u8 (\<lambda>bits.
     if bits AND NOT 0x3F \<noteq> 0 then cur_fail UnknownTag
     else cur_return \<lparr>quality_level = level, quality_flags = flags_of_bits bits\<rparr>))"

lemma and_powers:
  "(w AND 1 \<noteq> 0) = bit w 0" "(w AND 2 \<noteq> 0) = bit w 1" "(w AND 4 \<noteq> 0) = bit w 2"
  "(w AND 8 \<noteq> 0) = bit w 3" "(w AND 16 \<noteq> 0) = bit w 4" "(w AND 32 \<noteq> 0) = bit w 5" for w :: u8
  using and_single_bit [of 0 w] and_single_bit [of 1 w] and_single_bit [of 2 w] and_single_bit [of 3 w]
    and_single_bit [of 4 w] and_single_bit [of 5 w]
  by (simp_all add: push_bit_eq_mult)

lemma flags_of_bits_eq:
  assumes "bits AND NOT 0x3F = 0"
  shows "flags_of_bits bits = QualityFlags bits"
proof (rule QualityFlags.expand, rule bit_word_eqI)
  fix n :: nat
  assume n: "n < LENGTH(8)"
  have f: "flags_ok (QualityFlags bits)" using assms by (simp add: flags_ok_def)
  have "bit (flag_bits (flags_of_bits bits)) n \<longleftrightarrow> n < 6 \<and> bit bits n"
  proof -
    from n have "n = 0 \<or> n = 1 \<or> n = 2 \<or> n = 3 \<or> n = 4 \<or> n = 5 \<or> n = 6 \<or> n = 7" by auto
    then show ?thesis
      unfolding flags_of_bits_def with_defs flag_defs bit_flags_set [OF n [simplified]] and_powers
      by (elim disjE) (simp_all add: flags_none_def)
  qed
  with flags_ok_bit [OF f] show "bit (flag_bits (flags_of_bits bits)) n = bit (flag_bits (QualityFlags bits)) n"
    by auto
qed

lemma decodes_quality [decodes_intros]:
  "decodes decode_quality (\<lambda>x bs. flags_ok (quality_flags x) \<and> bs = wire_quality x)"
  unfolding decode_quality_def
  apply (rule decodes_eq, (rule decodes_intros)+)
  subgoal for x bs
    by (cases x; cases "quality_flags x")
      (auto simp: wire_quality_def flags_of_bits_eq quality_bits_flag_bits flags_ok_def)
  done

definition decode_native_status :: "NativeStatus decoder" where
  "decode_native_status =
     cur_bind (cur_counted MAX_NATIVE_STATUS_TOKENS decode_token) (\<lambda>tokens.
     cur_lift (map_err invalid_model (native_status_new tokens)))"

lemmas decodes_counted_tokens [decodes_intros] = decodes_counted [OF decodes_token decodes_bounded(8)]

lemma decodes_native_status [decodes_intros]:
  "decodes decode_native_status (\<lambda>x bs. native_status_ok x \<and> bs = wire_native_status x)"
  unfolding decode_native_status_def
  by (rule decodes_eq, (rule decodes_intros)+)
    (auto simp: map_err_Inr_conv native_status_new_iff native_status_ok_def wire_native_status_def
      MAX_NATIVE_STATUS_TOKENS_def)

definition decode_observation :: "Observation decoder" where
  "decode_observation =
     cur_bind decode_identity (\<lambda>observation_id.
     cur_bind decode_exact_value (\<lambda>value.
     cur_bind decode_observation_times (\<lambda>tms.
     cur_bind decode_quality (\<lambda>quality.
     cur_bind decode_native_status (\<lambda>native_status.
     cur_bind decode_optional_position (\<lambda>position.
     cur_bind decode_optional_interval (\<lambda>interval.
     cur_return \<lparr>obs_id = observation_id, obs_value = value, obs_times = tms, obs_quality = quality,
       obs_native_status = native_status, obs_producer_position = position, obs_interval = interval\<rparr>)))))))"

lemma decodes_observation [decodes_intros]:
  "decodes decode_observation (\<lambda>x bs. observation_ok x \<and> bs = wire_observation x)"
  unfolding decode_observation_def
  apply (rule decodes_eq, (rule decodes_intros)+)
  subgoal for x bs by (cases x) (auto simp: wire_observation_def observation_ok_def option.pred_True)
  done

definition decode_gap :: "Gap decoder" where
  "decode_gap =
     cur_bind cur_u128 (\<lambda>ep. cur_bind cur_u128 (\<lambda>start. cur_bind cur_u128 (\<lambda>stop.
     cur_bind (cur_tag gap_reason_of_tag) (\<lambda>reason.
     cur_lift (map_err invalid_model
       (gap_new (ProducerNumber ep) (ProducerNumber start) (ProducerNumber stop) reason))))))"

lemma number_get_iff: "n = ProducerNumber v \<longleftrightarrow> v = number_get n"
  by (cases n) auto

lemma decodes_gap [decodes_intros]: "decodes decode_gap (\<lambda>x bs. gap_ok x \<and> bs = wire_gap x)"
  unfolding decode_gap_def
  by (rule decodes_eq, (rule decodes_intros)+)
    (auto simp: map_err_Inr_conv gap_new_iff wire_gap_def number_get_iff)

definition decode_envelope :: "CollectionEnvelope decoder" where
  "decode_envelope =
     cur_bind decode_series_metadata (\<lambda>metadata.
     cur_bind cur_u8 (\<lambda>b.
     if b = 1 then
       cur_bind (cur_counted MAX_OBSERVATIONS decode_observation) (\<lambda>observations.
       cur_bind (cur_counted MAX_GAPS decode_gap) (\<lambda>gaps.
       cur_lift (map_err invalid_model (envelope_observed metadata observations gaps))))
     else if b = 2 then
       cur_bind decode_time_interval (\<lambda>interval.
       cur_lift (map_err invalid_model (envelope_no_change metadata \<lparr>no_change_interval = interval\<rparr>)))
     else cur_fail UnknownTag))"

lemmas decodes_counted_observations [decodes_intros] = decodes_counted [OF decodes_observation decodes_bounded(6)]
lemmas decodes_counted_gaps [decodes_intros] = decodes_counted [OF decodes_gap decodes_bounded(7)]

lemma envelope_observed_iff:
  "list_all gap_ok gaps \<Longrightarrow> envelope_observed md obs gaps = Inr e \<longleftrightarrow>
   e = \<lparr>env_series = md, env_evidence = ObservedEvidence obs gaps\<rparr> \<and> observed_spec (md_collection_mode md) obs gaps"
  by (auto simp: envelope_observed_def and_then_Inr_conv validate_observed_iff)

lemma envelope_no_change_iff:
  "envelope_no_change md nc = Inr e \<longleftrightarrow>
   e = \<lparr>env_series = md, env_evidence = NoChangeEvidence nc\<rparr> \<and> md_collection_mode md = ChangeOnly"
  by (auto simp: envelope_no_change_def)

lemma observed_spec_counts: "observed_spec m obs gaps \<Longrightarrow> length obs \<le> 256 \<and> length gaps \<le> 64"
  by (simp add: observed_spec_def MAX_OBSERVATIONS_def MAX_GAPS_def)

lemma decodes_envelope [decodes_intros]:
  "decodes decode_envelope (\<lambda>x bs. envelope_ok x \<and> bs = wire_envelope x)"
  unfolding decode_envelope_def
  apply (rule decodes_eq, (rule decodes_intros)+)
  subgoal for x bs
    apply (cases x; cases "env_evidence x")
    subgoal by (auto simp: map_err_Inr_conv envelope_observed_iff envelope_no_change_iff envelope_ok_def
          wire_envelope_def dest: observed_spec_counts cong: conj_cong)
    subgoal for md ev nc
      by (cases nc) (auto simp: map_err_Inr_conv envelope_observed_iff envelope_no_change_iff envelope_ok_def
          wire_envelope_def cong: conj_cong)
    done
  done

section \<open>Source evidence\<close>

definition decode_retry :: "RetryQualification decoder" where
  "decode_retry =
     cur_bind decode_identity (\<lambda>series_id.
     cur_bind decode_identity (\<lambda>producer_id.
     cur_bind decode_retry_key (\<lambda>key.
     cur_bind decode_content (\<lambda>content.
     cur_return \<lparr>rq_series_id = series_id, rq_producer_id = producer_id, rq_key = key,
                 rq_content = content\<rparr>))))"

lemma decodes_retry [decodes_intros]:
  "decodes decode_retry (\<lambda>x bs. retry_ok x \<and> bs = wire_retry x)"
  unfolding decode_retry_def
  apply (rule decodes_eq, (rule decodes_intros)+)
  subgoal for x bs by (cases x) (auto simp: wire_retry_def retry_ok_def)
  done

definition decode_batch :: "SourceBatchMetadata decoder" where
  "decode_batch =
     cur_bind (cur_bind (cur_string MAX_DECLARATION_REFERENCE_BYTES) (\<lambda>s.
       cur_lift (map_err invalid_model (source_schema_identity_new s)))) (\<lambda>schema.
     cur_bind (cur_bind cur_u128 (\<lambda>v.
       cur_lift (map_err invalid_model (source_schema_version_new v)))) (\<lambda>version.
     cur_bind decode_source_interval_kind (\<lambda>interval.
     cur_return \<lparr>batch_schema = schema, batch_version = version, batch_interval = interval\<rparr>)))"

lemma source_schema_identity_new_iff:
  "utf8_valid s \<Longrightarrow> source_schema_identity_new s = Inr i \<longleftrightarrow>
   s = reference_str (schema_reference i) \<and> reference_ok (schema_reference i)"
  by (cases i) (auto simp: source_schema_identity_new_def map_ok_Inr_conv declaration_reference_new_iff)

lemma source_schema_version_new_iff:
  "source_schema_version_new v = Inr x \<longleftrightarrow> v = schema_version_get x \<and> schema_version_get x \<noteq> 0"
  by (cases x) (auto simp: source_schema_version_new_def)

lemma decodes_batch [decodes_intros]:
  "decodes decode_batch (\<lambda>x bs. batch_ok x \<and> bs = wire_batch x)"
  unfolding decode_batch_def
  apply (rule decodes_eq, (rule decodes_intros)+)
  subgoal for x bs
    by (cases x) (auto simp: map_err_Inr_conv source_schema_identity_new_iff source_schema_version_new_iff
        wire_batch_def batch_ok_def wire_reference_def wire_bounds cong: conj_cong)
  done

definition decode_lifecycle :: "CaptureLifecycle decoder" where
  "decode_lifecycle =
     cur_bind (cur_bind decode_identity (\<lambda>i. cur_bind decode_declaration_reference (\<lambda>p.
       cur_bind decode_source_projection (\<lambda>j.
       cur_return \<lparr>sys_evidence_id = i, sys_provider = p, sys_projection = j\<rparr>)))) (\<lambda>system.
     cur_bind (cur_bind decode_identity (\<lambda>i. cur_bind decode_identity (\<lambda>s.
       cur_bind decode_declaration_reference (\<lambda>l.
       cur_return \<lparr>ep_evidence_id = i, ep_system_id = s, ep_locator = l\<rparr>)))) (\<lambda>endpoint.
     cur_bind (cur_bind decode_identity (\<lambda>i. cur_bind decode_identity (\<lambda>p.
       cur_bind decode_timestamp (\<lambda>s. cur_bind decode_optional_timestamp (\<lambda>c.
       cur_lift (map_err invalid_model (capture_run_new i p s c))))))) (\<lambda>run.
     cur_bind (cur_bind decode_identity (\<lambda>i. cur_bind decode_identity (\<lambda>r.
       cur_bind decode_artifact (\<lambda>a.
       cur_return \<lparr>snapshot_evidence_id = i, snapshot_run_id = r, snapshot_artifact = a\<rparr>)))) (\<lambda>snapshot.
     cur_lift (map_err invalid_model (capture_lifecycle_new system endpoint run snapshot))))))"

definition system_ok :: "SourceSystemEvidence \<Rightarrow> bool" where
  "system_ok s \<longleftrightarrow> identity_ok (sys_evidence_id s) \<and> reference_ok (sys_provider s) \<and> projection_ok (sys_projection s)"

definition endpoint_ok :: "SourceEndpointEvidence \<Rightarrow> bool" where
  "endpoint_ok p \<longleftrightarrow> identity_ok (ep_evidence_id p) \<and> identity_ok (ep_system_id p) \<and> reference_ok (ep_locator p)"

definition snapshot_ok :: "SourceSnapshotEvidence \<Rightarrow> bool" where
  "snapshot_ok s \<longleftrightarrow> identity_ok (snapshot_evidence_id s) \<and> identity_ok (snapshot_run_id s) \<and>
     artifact_ok (snapshot_artifact s)"

lemma decodes_system:
  "decodes (cur_bind decode_identity (\<lambda>i. cur_bind decode_declaration_reference (\<lambda>p.
     cur_bind decode_source_projection (\<lambda>j.
     cur_return \<lparr>sys_evidence_id = i, sys_provider = p, sys_projection = j\<rparr>))))
   (\<lambda>x bs. system_ok x \<and> bs = wire_system x)"
  apply (rule decodes_eq, (rule decodes_intros)+)
  subgoal for x bs by (cases x) (auto simp: wire_system_def system_ok_def)
  done

lemma decodes_endpoint:
  "decodes (cur_bind decode_identity (\<lambda>i. cur_bind decode_identity (\<lambda>s.
     cur_bind decode_declaration_reference (\<lambda>l.
     cur_return \<lparr>ep_evidence_id = i, ep_system_id = s, ep_locator = l\<rparr>))))
   (\<lambda>x bs. endpoint_ok x \<and> bs = wire_endpoint x)"
  apply (rule decodes_eq, (rule decodes_intros)+)
  subgoal for x bs by (cases x) (auto simp: wire_endpoint_def endpoint_ok_def)
  done

lemma decodes_run:
  "decodes (cur_bind decode_identity (\<lambda>i. cur_bind decode_identity (\<lambda>p.
     cur_bind decode_timestamp (\<lambda>s. cur_bind decode_optional_timestamp (\<lambda>c.
     cur_lift (map_err invalid_model (capture_run_new i p s c)))))))
   (\<lambda>x bs. run_ok x \<and> bs = wire_run x)"
  apply (rule decodes_eq, (rule decodes_intros)+)
  subgoal for x bs
    by (cases x) (auto simp: wire_run_def run_ok_def map_err_Inr_conv capture_run_new_iff option.pred_set)
  done

lemma decodes_snapshot:
  "decodes (cur_bind decode_identity (\<lambda>i. cur_bind decode_identity (\<lambda>r.
     cur_bind decode_artifact (\<lambda>a.
     cur_return \<lparr>snapshot_evidence_id = i, snapshot_run_id = r, snapshot_artifact = a\<rparr>))))
   (\<lambda>x bs. snapshot_ok x \<and> bs = wire_snapshot x)"
  apply (rule decodes_eq, (rule decodes_intros)+)
  subgoal for x bs by (cases x) (auto simp: wire_snapshot_def snapshot_ok_def)
  done

lemma lifecycle_ok_parts:
  "lifecycle_ok lc \<longleftrightarrow> system_ok (lc_system lc) \<and> endpoint_ok (lc_endpoint lc) \<and> run_ok (lc_run lc) \<and>
     snapshot_ok (lc_snapshot lc) \<and> ep_system_id (lc_endpoint lc) = sys_evidence_id (lc_system lc) \<and>
     run_endpoint_id (lc_run lc) = ep_evidence_id (lc_endpoint lc) \<and>
     snapshot_run_id (lc_snapshot lc) = run_evidence_id (lc_run lc)"
  by (auto simp: lifecycle_ok_def system_ok_def endpoint_ok_def run_ok_def snapshot_ok_def)

lemma decodes_lifecycle [decodes_intros]:
  "decodes decode_lifecycle (\<lambda>x bs. lifecycle_ok x \<and> bs = wire_lifecycle x)"
  unfolding decode_lifecycle_def
  apply (rule decodes_eq, rule decodes_bind, rule decodes_system, rule decodes_bind, rule decodes_endpoint,
      rule decodes_bind, rule decodes_run, rule decodes_bind, rule decodes_snapshot, rule decodes_lift)
  subgoal for x bs
    by (cases x) (auto simp: wire_lifecycle_def lifecycle_ok_parts map_err_Inr_conv capture_lifecycle_new_iff)
  done

definition decode_optional_idempotency :: "SourceIdempotency option decoder" where
  "decode_optional_idempotency = cur_optional (cur_bind decode_retry_key (\<lambda>key.
     cur_bind decode_content (\<lambda>content. cur_return \<lparr>idem_key = key, idem_content = content\<rparr>)))"

lemma decodes_optional_idempotency [decodes_intros]:
  "decodes decode_optional_idempotency (\<lambda>v bs. pred_option idempotency_ok v \<and> bs = wire_option wire_idempotency v)"
  unfolding decode_optional_idempotency_def
  apply (rule decodes_optional, rule decodes_eq, (rule decodes_intros)+)
  subgoal for x bs by (cases x) (auto simp: wire_idempotency_def idempotency_ok_def)
  done

definition decode_source_observation :: "SourceObservationEvidence decoder" where
  "decode_source_observation =
     cur_bind decode_identity (\<lambda>i.
     cur_bind decode_optional_artifact (\<lambda>a.
     cur_bind (cur_tag source_transport_of_tag) (\<lambda>t.
     cur_bind decode_optional_idempotency (\<lambda>d.
     cur_return \<lparr>so_evidence_id = i, so_provenance_artifact = a, so_transport = t, so_idempotency = d\<rparr>))))"

lemma decodes_source_observation [decodes_intros]:
  "decodes decode_source_observation (\<lambda>x bs. source_observation_ok x \<and> bs = wire_source_observation x)"
  unfolding decode_source_observation_def
  apply (rule decodes_eq, (rule decodes_intros)+)
  subgoal for x bs by (cases x) (auto simp: wire_source_observation_def source_observation_ok_def)
  done

definition decode_raw_record :: "RawRecordEvidence decoder" where
  "decode_raw_record =
     cur_bind decode_identity (\<lambda>i. cur_bind decode_identity (\<lambda>s.
     cur_bind decode_artifact (\<lambda>a. cur_bind decode_optional_idempotency (\<lambda>d.
     cur_return \<lparr>raw_evidence_id = i, raw_snapshot_id = s, raw_artifact = a, raw_idempotency = d\<rparr>))))"

lemma decodes_raw_record [decodes_intros]:
  "decodes decode_raw_record (\<lambda>x bs. raw_record_ok x \<and> bs = wire_raw_record x)"
  unfolding decode_raw_record_def
  apply (rule decodes_eq, (rule decodes_intros)+)
  subgoal for x bs by (cases x) (auto simp: wire_raw_record_def raw_record_ok_def)
  done

definition decode_normalized_record :: "NormalizedRecordEvidence decoder" where
  "decode_normalized_record =
     cur_bind decode_identity (\<lambda>i. cur_bind decode_identity (\<lambda>r.
     cur_bind decode_content (\<lambda>c. cur_bind decode_identity (\<lambda>ob.
     cur_return \<lparr>norm_evidence_id = i, norm_raw_record_id = r, norm_content = c,
                 norm_observation_evidence_id = ob\<rparr>))))"

lemma decodes_normalized_record [decodes_intros]:
  "decodes decode_normalized_record (\<lambda>x bs. normalized_record_ok x \<and> bs = wire_normalized_record x)"
  unfolding decode_normalized_record_def
  apply (rule decodes_eq, (rule decodes_intros)+)
  subgoal for x bs by (cases x) (auto simp: wire_normalized_record_def normalized_record_ok_def)
  done

definition decode_lineage :: "DecodedObservationLineageV1 decoder" where
  "decode_lineage =
     cur_bind cur_u8 (\<lambda>ordinal.
     cur_bind decode_identity (\<lambda>i.
     cur_bind decode_source_observation (\<lambda>ob.
     cur_bind decode_raw_record (\<lambda>raw.
     cur_bind decode_normalized_record (\<lambda>normalized.
     cur_return \<lparr>dl_ordinal = ordinal, dl_canonical_observation_id = i, dl_observation = ob,
                 dl_raw = raw, dl_normalized = normalized\<rparr>)))))"

lemma decodes_lineage [decodes_intros]:
  "decodes decode_lineage (\<lambda>x bs. decoded_lineage_ok x \<and> bs = wire_lineage x)"
  unfolding decode_lineage_def
  apply (rule decodes_eq, (rule decodes_intros)+)
  subgoal for x bs by (cases x) (auto simp: wire_lineage_def decoded_lineage_ok_def)
  done

definition decode_source_gap :: "SourceGapEvidence decoder" where
  "decode_source_gap =
     cur_bind cur_u128 (\<lambda>ep. cur_bind cur_u128 (\<lambda>start. cur_bind cur_u128 (\<lambda>stop.
     cur_bind (cur_tag source_gap_reason_of_tag) (\<lambda>reason.
     cur_lift (map_err invalid_model
       (source_gap_new (ProducerNumber ep) (ProducerNumber start) (ProducerNumber stop) reason))))))"

lemma decodes_source_gap [decodes_intros]:
  "decodes decode_source_gap (\<lambda>x bs. source_gap_ok x \<and> bs = wire_source_gap x)"
  unfolding decode_source_gap_def
  apply (rule decodes_eq, (rule decodes_intros)+)
  subgoal for x bs
    by (cases x) (auto simp: map_err_Inr_conv source_gap_new_iff wire_source_gap_def number_get_iff)
  done

section \<open>The admission payload\<close>

definition decode_evidence :: "DecodedEvidenceV1 decoder" where
  "decode_evidence = cur_bind decode_source_interval_kind (\<lambda>kind.
     if kind = SourceObserved then
       cur_bind (cur_counted MAX_OBSERVATIONS decode_lineage) (\<lambda>observations.
       cur_bind (cur_counted MAX_GAPS decode_source_gap) (\<lambda>gaps.
       cur_return (DecodedObserved observations gaps)))
     else cur_return DecodedNoChange)"

lemmas decodes_counted_lineages [decodes_intros] = decodes_counted [OF decodes_lineage decodes_bounded(6)]
lemmas decodes_counted_source_gaps [decodes_intros] = decodes_counted [OF decodes_source_gap decodes_bounded(7)]

lemma not_observed: "k \<noteq> SourceObserved \<longleftrightarrow> k = SourceNoChange"
  by (cases k) auto

lemma decodes_evidence [decodes_intros]:
  "decodes decode_evidence (\<lambda>x bs. decoded_evidence_ok x \<and> bs = wire_evidence x)"
  unfolding decode_evidence_def
  apply (rule decodes_eq, (rule decodes_intros)+)
  subgoal for x bs by (cases x) (auto simp: not_observed)
  done

definition decode_payload :: "u64 \<Rightarrow> DecodedAdmissionV1 decoder" where
  "decode_payload append_sequence =
     cur_bind decode_identity (\<lambda>store_id.
     cur_bind decode_declaration (\<lambda>declaration.
     cur_bind decode_envelope (\<lambda>envelope.
     cur_bind decode_retry (\<lambda>retry.
     cur_bind decode_batch (\<lambda>batch.
     cur_bind decode_lifecycle (\<lambda>lc.
     cur_bind decode_evidence (\<lambda>evidence.
     cur_return \<lparr>da_append_sequence = append_sequence, da_store_id = store_id,
       da_declaration = declaration, da_envelope = envelope, da_retry = retry, da_batch = batch,
       da_lifecycle = lc, da_evidence = evidence\<rparr>)))))))"

lemma decodes_payload [decodes_intros]:
  "decodes (decode_payload sq) (\<lambda>x bs. (decoded_payload_ok x \<and> da_append_sequence x = sq) \<and> bs = wire_payload x)"
  unfolding decode_payload_def
  apply (rule decodes_eq, (rule decodes_intros)+)
  subgoal for x bs by (cases x) (auto simp: wire_payload_def decoded_payload_ok_def)
  done

section \<open>The codec pairs\<close>

lemma emitsI: "(\<And>e. encoder_ok e \<Longrightarrow> f e = Inr (enc_bytes bs e)) \<Longrightarrow> emits f bs"
  by (simp add: emits_def)

interpretation content_codec: wire_codec encode_content decode_content "\<lambda>x. x" content_ok wire_content
  by unfold_locales (auto intro: emitsI decodes_intros simp: enc_simps)

interpretation retry_codec: wire_codec encode_retry decode_retry "\<lambda>x. x" retry_ok wire_retry
  by unfold_locales (auto intro: emitsI decodes_intros simp: enc_simps)

interpretation declaration_codec: wire_codec encode_declaration decode_declaration view_declaration
  decoded_declaration_ok wire_declaration
  by unfold_locales (auto intro: emitsI decodes_intros simp: enc_simps encode_declaration_view)

interpretation envelope_codec: wire_codec encode_envelope decode_envelope "\<lambda>x. x" envelope_ok wire_envelope
  by unfold_locales (auto intro: emitsI decodes_intros simp: enc_simps)

interpretation lifecycle_codec: wire_codec encode_lifecycle decode_lifecycle "\<lambda>x. x" lifecycle_ok wire_lifecycle
  by unfold_locales (auto intro: emitsI decodes_intros simp: enc_simps)

interpretation lineage_codec: wire_codec encode_lineage decode_lineage view_lineage decoded_lineage_ok wire_lineage
  by unfold_locales (auto intro: emitsI decodes_intros simp: enc_simps encode_lineage_view)

interpretation canonical_payload_codec: wire_codec encode_canonical_payload "decode_payload sq" "view_admission sq"
  "\<lambda>x. decoded_payload_ok x \<and> da_append_sequence x = sq" wire_payload for sq
  by (unfold_locales; (rule decodes_payload)?)
    (auto intro: emitsI simp: enc_simps encode_canonical_payload_view [of _ sq])

interpretation decoded_payload_codec: wire_codec encode_decoded_payload "decode_payload sq" "\<lambda>x. x"
  "\<lambda>x. decoded_payload_ok x \<and> da_append_sequence x = sq" wire_payload for sq
  by (unfold_locales; (rule decodes_payload)?) (auto intro: emitsI simp: enc_simps)

end
