(* ===== verification/Och_Frame.thy ===== *)
theory Och_Frame
  imports Och_Decode Och_Crc32c
begin

text \<open>
  Journal V1 headers and admission frames (\<^verbatim>\<open>och-store/src/codec.rs\<close> and the constants of
  \<^verbatim>\<open>och-store/src/lib.rs\<close>): sequencing, framing with the CRC-32C trailer, the counting pass and
  the prepared-admission protocol, the frame decoder with its cross-field validation.
\<close>

section \<open>Constants and small types\<close>

definition JOURNAL_V1_VERSION :: u16 where "JOURNAL_V1_VERSION = 1"
definition JOURNAL_V1_HEADER_LEN :: nat where "JOURNAL_V1_HEADER_LEN = 28"
definition JOURNAL_V1_FRAME_PREFIX_LEN :: nat where "JOURNAL_V1_FRAME_PREFIX_LEN = 20"
definition JOURNAL_V1_FRAME_CRC_LEN :: nat where "JOURNAL_V1_FRAME_CRC_LEN = 4"
definition MAX_ADMISSION_PAYLOAD_V1 :: nat where "MAX_ADMISSION_PAYLOAD_V1 = 8 * 1024 * 1024"
definition JOURNAL_V1_HEADER_MAGIC :: bytes where
  "JOURNAL_V1_HEADER_MAGIC = [0x4F, 0x43, 0x48, 0x4A, 0x4E, 0x4C, 0x30, 0x31]"
definition JOURNAL_V1_FRAME_MAGIC :: bytes where
  "JOURNAL_V1_FRAME_MAGIC = [0x4F, 0x43, 0x48, 0x46]"
definition FRAME_KIND_ADMISSION :: u8 where "FRAME_KIND_ADMISSION = 1"
definition FRAME_FLAGS_NONE :: u8 where "FRAME_FLAGS_NONE = 0"

lemmas frame_consts = JOURNAL_V1_VERSION_def JOURNAL_V1_HEADER_LEN_def JOURNAL_V1_FRAME_PREFIX_LEN_def
  JOURNAL_V1_FRAME_CRC_LEN_def MAX_ADMISSION_PAYLOAD_V1_def JOURNAL_V1_HEADER_MAGIC_def
  JOURNAL_V1_FRAME_MAGIC_def FRAME_KIND_ADMISSION_def FRAME_FLAGS_NONE_def

datatype AppendSequenceV1 = AppendSequenceV1 (append_get: u64)

definition append_sequence_new :: "u64 \<Rightarrow> (JournalV1Error, AppendSequenceV1) result" where
  "append_sequence_new value =
     (if value = 0 then Inl InvalidAppendSequence else Inr (AppendSequenceV1 value))"

definition append_successor :: "AppendSequenceV1 \<Rightarrow> (JournalV1Error, AppendSequenceV1) result" where
  "append_successor s = map_ok AppendSequenceV1 (ok_or AppendSequenceOverflow (checked_add (append_get s) 1))"

record DecodeLimitsV1 =
  max_payload_len :: nat

definition decode_limits_new :: "nat \<Rightarrow> (JournalV1Error, DecodeLimitsV1) result" where
  "decode_limits_new n =
     (if n > MAX_ADMISSION_PAYLOAD_V1 then Inl PayloadTooLarge else Inr \<lparr>max_payload_len = n\<rparr>)"

definition decode_limits_maximum :: DecodeLimitsV1 where
  "decode_limits_maximum = \<lparr>max_payload_len = MAX_ADMISSION_PAYLOAD_V1\<rparr>"

section \<open>The file header\<close>

definition encode_header :: "StoreId \<Rightarrow> bytes" where
  "encode_header store_id =
     write_at 12 (id_bytes store_id)
       (write_at 10 (be_encode 2 28)
       (write_at 8 (be_encode 2 (unat JOURNAL_V1_VERSION))
       (write_at 0 JOURNAL_V1_HEADER_MAGIC (replicate JOURNAL_V1_HEADER_LEN 0))))"

definition decode_header :: "bytes \<Rightarrow> (JournalV1Error, StoreId) result" where
  "decode_header bs =
     (if length bs < JOURNAL_V1_HEADER_LEN then Inl Truncated
      else if length bs > JOURNAL_V1_HEADER_LEN then Inl TrailingBytes
      else if slice 0 8 bs \<noteq> JOURNAL_V1_HEADER_MAGIC then Inl InvalidHeaderMagic
      else if (of_nat (be_decode [bs ! 8, bs ! 9]) :: u16) \<noteq> JOURNAL_V1_VERSION
      then Inl UnsupportedHeaderVersion
      else if (of_nat (be_decode [bs ! 10, bs ! 11]) :: u16) \<noteq> of_nat JOURNAL_V1_HEADER_LEN
      then Inl InvalidHeaderLength
      else map_err (\<lambda>_. InvalidIdentity) (identity_from_bytes (slice 12 28 bs)))"

record JournalHeaderV1 =
  header_store_id :: StoreId

definition header_encode :: "JournalHeaderV1 \<Rightarrow> bytes" where
  "header_encode h = encode_header (header_store_id h)"

definition header_decode :: "bytes \<Rightarrow> (JournalV1Error, JournalHeaderV1) result" where
  "header_decode bs = map_ok (\<lambda>store_id. \<lparr>header_store_id = store_id\<rparr>) (decode_header bs)"

section \<open>Framing\<close>

definition frame_bytes :: "AppendSequenceV1 \<Rightarrow> bytes \<Rightarrow> (JournalV1Error, bytes) result" where
  "frame_bytes append_sequence payload =
     (if length payload > MAX_ADMISSION_PAYLOAD_V1 then Inl PayloadTooLarge
      else if \<not> length payload < 2 ^ 32 then Inl PayloadTooLarge
      else
        let payload_len = (of_nat (length payload) :: u32) in
        and_then (ok_or PayloadTooLarge
          (Option.bind (usize_checked_add JOURNAL_V1_FRAME_PREFIX_LEN (length payload))
            (\<lambda>value. usize_checked_add value JOURNAL_V1_FRAME_CRC_LEN))) (\<lambda>capacity.
        let original_len = length payload;
            b0 = payload @ replicate (capacity - original_len) 0;
            b1 = write_at JOURNAL_V1_FRAME_PREFIX_LEN (slice 0 original_len b0) b0;
            b2 = write_at 0 JOURNAL_V1_FRAME_MAGIC b1;
            b3 = write_at 4 (be_encode 2 (unat JOURNAL_V1_VERSION)) b2;
            b4 = b3[6 := FRAME_KIND_ADMISSION];
            b5 = b4[7 := FRAME_FLAGS_NONE];
            b6 = write_at 8 (be_encode 8 (unat (append_get append_sequence))) b5;
            b7 = write_at 16 (be_encode 4 (unat payload_len)) b6;
            checksum_offset = JOURNAL_V1_FRAME_PREFIX_LEN + original_len;
            crc = crc32c (slice 0 checksum_offset b7)
        in Inr (write_at checksum_offset (be_encode 4 (unat crc)) b7)))"

definition encode_admission_frame_v1 ::
  "AppendSequenceV1 \<Rightarrow> CanonicalAdmission \<Rightarrow> (JournalV1Error, bytes) result" where
  "encode_admission_frame_v1 append_sequence admission =
     and_then (encode_canonical_payload admission encoder_new) (\<lambda>encoder.
       frame_bytes append_sequence (encoder_finish encoder))"

definition admission_frame_len_v1 :: "CanonicalAdmission \<Rightarrow> (JournalV1Error, nat) result" where
  "admission_frame_len_v1 admission =
     and_then (encode_canonical_payload admission encoder_counting) (\<lambda>encoder.
       let payload_len = encoder_len encoder in
       if payload_len > MAX_ADMISSION_PAYLOAD_V1 then Inl PayloadTooLarge
       else ok_or PayloadTooLarge
         (Option.bind (usize_checked_add JOURNAL_V1_FRAME_PREFIX_LEN payload_len)
           (\<lambda>n. usize_checked_add n JOURNAL_V1_FRAME_CRC_LEN)))"

record PreparedAdmissionV1 =
  pa_admission :: CanonicalAdmission
  pa_payload :: bytes
  pa_frame_len :: nat

record PrepareAdmissionError =
  pe_error :: JournalV1Error
  pe_admission :: CanonicalAdmission

record PreparedFrameV1 =
  pf_admission :: CanonicalAdmission
  pf_append_sequence :: AppendSequenceV1
  pf_bytes :: bytes

definition prepared_admission_new ::
  "CanonicalAdmission \<Rightarrow> (PrepareAdmissionError, PreparedAdmissionV1) result" where
  "prepared_admission_new admission =
     and_then (map_err (\<lambda>e. \<lparr>pe_error = e, pe_admission = admission\<rparr>) (admission_frame_len_v1 admission))
       (\<lambda>frame_len.
     and_then (map_err (\<lambda>e. \<lparr>pe_error = e, pe_admission = admission\<rparr>)
         (encode_canonical_payload admission encoder_new)) (\<lambda>encoder.
       let payload = encoder_finish encoder;
           actual = JOURNAL_V1_FRAME_PREFIX_LEN + length payload + JOURNAL_V1_FRAME_CRC_LEN in
       if actual \<noteq> frame_len then Inl \<lparr>pe_error = InvalidCanonicalData, pe_admission = admission\<rparr>
       else Inr \<lparr>pa_admission = admission, pa_payload = payload, pa_frame_len = frame_len\<rparr>))"

definition into_frame ::
  "PreparedAdmissionV1 \<Rightarrow> AppendSequenceV1 \<Rightarrow> (PrepareAdmissionError, PreparedFrameV1) result" where
  "into_frame prepared append_sequence =
     (case frame_bytes append_sequence (pa_payload prepared) of
        Inr bs \<Rightarrow>
          if length bs = pa_frame_len prepared
          then Inr \<lparr>pf_admission = pa_admission prepared, pf_append_sequence = append_sequence, pf_bytes = bs\<rparr>
          else Inl \<lparr>pe_error = InvalidCanonicalData, pe_admission = pa_admission prepared\<rparr>
      | Inl e \<Rightarrow> Inl \<lparr>pe_error = e, pe_admission = pa_admission prepared\<rparr>)"

definition encode_decoded_admission_frame_v1 :: "DecodedAdmissionV1 \<Rightarrow> (JournalV1Error, bytes) result" where
  "encode_decoded_admission_frame_v1 admission =
     and_then (encode_decoded_payload admission encoder_new) (\<lambda>encoder.
       frame_bytes (AppendSequenceV1 (da_append_sequence admission)) (encoder_finish encoder))"

section \<open>Cross-field validation\<close>

fun validate_decoded_lineages ::
  "EvidenceId \<Rightarrow> u8 option \<Rightarrow> (DecodedObservationLineageV1 \<times> Observation) list \<Rightarrow> (JournalV1Error, unit) result" where
  "validate_decoded_lineages snapshot_id previous_ordinal [] = Inr ()"
| "validate_decoded_lineages snapshot_id previous_ordinal ((lineage, canonical) # rest) =
     (if dl_canonical_observation_id lineage \<noteq> obs_id canonical
         \<or> is_some_and (\<lambda>previous. previous \<ge> dl_ordinal lineage) previous_ordinal
         \<or> raw_snapshot_id (dl_raw lineage) \<noteq> snapshot_id
         \<or> norm_raw_record_id (dl_normalized lineage) \<noteq> raw_evidence_id (dl_raw lineage)
         \<or> norm_observation_evidence_id (dl_normalized lineage) \<noteq> so_evidence_id (dl_observation lineage)
         \<or> is_some_and (\<lambda>idempotency. idem_content idempotency
              \<noteq> artifact_content (raw_artifact (dl_raw lineage))) (raw_idempotency (dl_raw lineage))
      then Inl InvalidCanonicalData
      else validate_decoded_lineages snapshot_id (Some (dl_ordinal lineage)) rest)"

definition validate_decoded :: "DecodedAdmissionV1 \<Rightarrow> (JournalV1Error, unit) result" where
  "validate_decoded admission =
     (let d = da_declaration admission;
          envelope = da_envelope admission;
          metadata = env_series envelope;
          payload = dd_payload d;
          lc = da_lifecycle admission in
      if da_store_id admission \<noteq> dd_store_id d
         \<or> dd_series_id d \<noteq> md_series_id metadata
         \<or> pl_producer_id payload \<noteq> md_producer_id metadata
         \<or> pl_collection_mode payload \<noteq> md_collection_mode metadata
         \<or> rq_series_id (da_retry admission) \<noteq> md_series_id metadata
         \<or> rq_producer_id (da_retry admission) \<noteq> md_producer_id metadata
      then Inl InvalidCanonicalData
      else
        let revision = revision_get (dd_revision d) in
        and_then
          (if revision = revision_get REVISION_FIRST then Inr None
           else map_ok Some (map_err (\<lambda>_. InvalidCanonicalData) (declaration_revision_new (revision - 1))))
          (\<lambda>expected_previous.
        if dd_previous_revision d \<noteq> expected_previous then Inl InvalidCanonicalData
        else
          let expected_interval = interval_of_evidence (env_evidence_kind envelope) in
          if batch_interval (da_batch admission) \<noteq> expected_interval
             \<or> da_evidence_kind admission \<noteq> expected_interval
          then Inl InvalidCanonicalData
          else
            let source = binding_source (dd_binding d) in
            case src_projection source of
              None \<Rightarrow> Inl InvalidCanonicalData
            | Some projection \<Rightarrow>
                if sys_provider (lc_system lc) \<noteq> src_provider source
                   \<or> sys_projection (lc_system lc) \<noteq> projection
                   \<or> ep_locator (lc_endpoint lc) \<noteq> src_locator source
                then Inl InvalidCanonicalData
                else if list_ex (\<lambda>ob. \<not> admits (pl_value_family payload) (obs_value ob)) (env_observations envelope)
                then Inl InvalidCanonicalData
                else and_then
                  (case da_evidence admission of
                     DecodedObserved observations gaps \<Rightarrow>
                       if length observations \<noteq> length (env_observations envelope)
                          \<or> length gaps \<noteq> length (env_gaps envelope)
                       then Inl InvalidCanonicalData
                       else and_then
                         (validate_decoded_lineages (snapshot_evidence_id (lc_snapshot lc)) None
                            (zip observations (env_observations envelope)))
                         (\<lambda>_. if list_ex (\<lambda>(source_gap, gap). gap_range_differs gap source_gap)
                                  (zip gaps (env_gaps envelope))
                              then Inl InvalidCanonicalData else Inr ())
                   | DecodedNoChange \<Rightarrow> Inr ())
                  (\<lambda>_. let evidence_ids = all_evidence_ids admission in
                       if list_ex (\<lambda>index. evidence_ids ! index \<in> set (take index evidence_ids))
                            [0..<length evidence_ids]
                       then Inl InvalidCanonicalData else Inr ())))"

section \<open>Decoding a frame\<close>

definition frame_payload_len :: "bytes \<Rightarrow> nat" where
  "frame_payload_len bs = unat (of_nat (be_decode (slice 16 20 bs)) :: u32)"

definition decode_admission_frame_v1 ::
  "bytes \<Rightarrow> DecodeLimitsV1 \<Rightarrow> AppendSequenceV1 option \<Rightarrow> (JournalV1Error, DecodedAdmissionV1) result" where
  "decode_admission_frame_v1 bs limits previous_append_sequence =
     (if length bs < JOURNAL_V1_FRAME_PREFIX_LEN + JOURNAL_V1_FRAME_CRC_LEN then Inl Truncated
      else if slice 0 4 bs \<noteq> JOURNAL_V1_FRAME_MAGIC then Inl InvalidFrameMagic
      else if (of_nat (be_decode [bs ! 4, bs ! 5]) :: u16) \<noteq> JOURNAL_V1_VERSION
      then Inl UnsupportedFrameVersion
      else if bs ! 6 \<noteq> FRAME_KIND_ADMISSION then Inl UnsupportedFrameKind
      else if bs ! 7 \<noteq> FRAME_FLAGS_NONE then Inl InvalidFrameFlags
      else and_then (append_sequence_new (of_nat (be_decode (slice 8 16 bs)))) (\<lambda>append_sequence.
        and_then
          (case previous_append_sequence of
             None \<Rightarrow> Inr ()
           | Some previous \<Rightarrow> and_then (append_successor previous) (\<lambda>expected.
               if append_sequence \<noteq> expected then Inl NonMonotonicAppendSequence else Inr ()))
          (\<lambda>_.
        let payload_len = frame_payload_len bs in
        if payload_len > MAX_ADMISSION_PAYLOAD_V1 \<or> payload_len > max_payload_len limits
        then Inl PayloadTooLarge
        else and_then (ok_or InvalidLength (usize_checked_add JOURNAL_V1_FRAME_PREFIX_LEN payload_len))
          (\<lambda>checksum_offset.
        and_then (ok_or InvalidLength (usize_checked_add checksum_offset JOURNAL_V1_FRAME_CRC_LEN))
          (\<lambda>expected_len.
        if length bs < expected_len then Inl Truncated
        else if length bs > expected_len then Inl TrailingBytes
        else if crc32c (slice 0 checksum_offset bs) \<noteq> of_nat (be_decode (slice checksum_offset expected_len bs))
        then Inl ChecksumMismatch
        else and_then (decode_payload (append_get append_sequence)
               (cursor_new (slice JOURNAL_V1_FRAME_PREFIX_LEN checksum_offset bs))) (\<lambda>(decoded, cursor).
        and_then (cursor_finish cursor) (\<lambda>_.
        and_then (validate_decoded decoded) (\<lambda>_. Inr decoded))))))))"

definition frame_len_from_prefix_v1 :: "bytes \<Rightarrow> DecodeLimitsV1 \<Rightarrow> (JournalV1Error, nat) result" where
  "frame_len_from_prefix_v1 prefix_bytes limits =
     (if length prefix_bytes \<noteq> JOURNAL_V1_FRAME_PREFIX_LEN then Inl Truncated
      else if slice 0 4 prefix_bytes \<noteq> JOURNAL_V1_FRAME_MAGIC then Inl InvalidFrameMagic
      else if (of_nat (be_decode [prefix_bytes ! 4, prefix_bytes ! 5]) :: u16) \<noteq> JOURNAL_V1_VERSION
      then Inl UnsupportedFrameVersion
      else if prefix_bytes ! 6 \<noteq> FRAME_KIND_ADMISSION then Inl UnsupportedFrameKind
      else if prefix_bytes ! 7 \<noteq> FRAME_FLAGS_NONE then Inl InvalidFrameFlags
      else and_then (append_sequence_new (of_nat (be_decode (slice 8 16 prefix_bytes)))) (\<lambda>_.
        let payload_len = frame_payload_len prefix_bytes in
        if payload_len > MAX_ADMISSION_PAYLOAD_V1 \<or> payload_len > max_payload_len limits
        then Inl PayloadTooLarge
        else ok_or InvalidLength
          (Option.bind (usize_checked_add JOURNAL_V1_FRAME_PREFIX_LEN payload_len)
            (\<lambda>n. usize_checked_add n JOURNAL_V1_FRAME_CRC_LEN))))"

end
