(* ===== verification/Och_Generation.thy ===== *)
theory Och_Generation
  imports Och_Frame Och_Recovery
begin

text \<open>
  The generation catalog, the rotation intent and the names of sealed journals
  (\<^verbatim>\<open>och-store/src/generation.rs\<close>).  A catalog is the ordered list of sealed journal generations; it
  only grows, its ranges partition the sealed append sequences, and its artifact is canonical.
\<close>

section \<open>Constants and records\<close>

definition MAX_SEALED_GENERATIONS :: nat where "MAX_SEALED_GENERATIONS = 64"
definition CATALOG_MAGIC :: bytes where
  "CATALOG_MAGIC = [0x4F, 0x43, 0x48, 0x43, 0x41, 0x54, 0x30, 0x31]"
definition CATALOG_VERSION :: u16 where "CATALOG_VERSION = 1"
definition CATALOG_HEADER_LEN :: nat where "CATALOG_HEADER_LEN = 64"
definition CATALOG_HEADER_LEN_U16 :: u16 where "CATALOG_HEADER_LEN_U16 = 64"
definition CATALOG_ENTRY_LEN :: nat where "CATALOG_ENTRY_LEN = 64"
definition MAX_GENERATION_CATALOG_BYTES :: nat where
  "MAX_GENERATION_CATALOG_BYTES = CATALOG_HEADER_LEN + CATALOG_ENTRY_LEN * MAX_SEALED_GENERATIONS + 4"
definition SEALED_FORMAT_RAW_JOURNAL_V1 :: u16 where "SEALED_FORMAT_RAW_JOURNAL_V1 = 1"
definition ROTATION_INTENT_MAGIC :: bytes where
  "ROTATION_INTENT_MAGIC = [0x4F, 0x43, 0x48, 0x52, 0x4F, 0x54, 0x30, 0x31]"
definition ROTATION_INTENT_VERSION :: u16 where "ROTATION_INTENT_VERSION = 1"
definition ROTATION_INTENT_LEN :: nat where "ROTATION_INTENT_LEN = 96"
definition ROTATION_INTENT_LEN_U16 :: u16 where "ROTATION_INTENT_LEN_U16 = 96"

lemmas catalog_consts = MAX_SEALED_GENERATIONS_def CATALOG_MAGIC_def CATALOG_VERSION_def CATALOG_HEADER_LEN_def
  CATALOG_HEADER_LEN_U16_def CATALOG_ENTRY_LEN_def MAX_GENERATION_CATALOG_BYTES_def SEALED_FORMAT_RAW_JOURNAL_V1_def

lemmas intent_consts = ROTATION_INTENT_MAGIC_def ROTATION_INTENT_VERSION_def ROTATION_INTENT_LEN_def
  ROTATION_INTENT_LEN_U16_def

record GenerationCatalogReference =
  gcr_slot :: u8
  gcr_generation :: u64
  gcr_length :: u64
  gcr_checksum :: u32

record SealedGeneration =
  sealed_journal_generation :: u64
  sealed_sequence_floor :: u64
  sealed_sequence_cutoff :: u64
  sealed_end_offset :: u64
  sealed_registry_generation :: u64
  sealed_artifact_length :: u64
  sealed_artifact_checksum :: u32

record GenerationCatalogSnapshot =
  cat_store_id :: StoreId
  cat_reference :: "GenerationCatalogReference option"
  cat_entries :: "SealedGeneration list"

datatype GenerationCodecError = GenerationInvalid | GenerationStoreMismatch

section \<open>Operations on snapshots\<close>

definition catalog_empty :: "StoreId \<Rightarrow> GenerationCatalogSnapshot" where
  "catalog_empty store_id = \<lparr>cat_store_id = store_id, cat_reference = None, cat_entries = []\<rparr>"

text \<open>The entry conditions, which \<open>advance\<close> and \<open>decode_catalog\<close> both test.\<close>

definition entry_refused :: "SealedGeneration list \<Rightarrow> SealedGeneration \<Rightarrow> bool" where
  "entry_refused entries entry \<longleftrightarrow>
     is_some_and (\<lambda>prior. checked_add (sealed_journal_generation prior) 1 \<noteq> Some (sealed_journal_generation entry)
         \<or> sealed_sequence_cutoff prior \<noteq> sealed_sequence_floor entry)
       (if entries = [] then None else Some (last entries))
     \<or> (entries = [] \<and> (sealed_journal_generation entry \<noteq> 1 \<or> sealed_sequence_floor entry \<noteq> 0))
     \<or> sealed_sequence_cutoff entry \<le> sealed_sequence_floor entry
     \<or> sealed_end_offset entry \<le> of_nat JOURNAL_V1_HEADER_LEN
     \<or> sealed_artifact_length entry \<noteq> sealed_end_offset entry
     \<or> sealed_artifact_length entry > MAX_ACTIVE_JOURNAL_BYTES
     \<or> sealed_registry_generation entry = 0"

definition catalog_advance ::
  "GenerationCatalogReference \<Rightarrow> SealedGeneration \<Rightarrow> GenerationCatalogSnapshot \<Rightarrow>
   (GenerationCodecError, GenerationCatalogSnapshot) result" where
  "catalog_advance reference entry self =
     (let expected_generation = (case cat_reference self of
            Some prior \<Rightarrow> checked_add (gcr_generation prior) 1 | None \<Rightarrow> Some 1) in
      if length (cat_entries self) \<ge> MAX_SEALED_GENERATIONS
         \<or> gcr_slot reference \<ge> 3
         \<or> gcr_generation reference = 0
         \<or> Some (gcr_generation reference) \<noteq> expected_generation
         \<or> is_some_and (\<lambda>prior. gcr_slot prior = gcr_slot reference) (cat_reference self)
         \<or> entry_refused (cat_entries self) entry
      then Inl GenerationInvalid
      else Inr \<lparr>cat_store_id = cat_store_id self, cat_reference = Some reference,
                cat_entries = cat_entries self @ [entry]\<rparr>)"

definition catalog_with_reference ::
  "GenerationCatalogReference \<Rightarrow> GenerationCatalogSnapshot \<Rightarrow>
   (GenerationCodecError, GenerationCatalogSnapshot) result" where
  "catalog_with_reference reference self =
     (if (case cat_reference self of None \<Rightarrow> True
          | Some current \<Rightarrow> gcr_slot current \<noteq> gcr_slot reference \<or> gcr_generation current \<noteq> gcr_generation reference)
         \<or> gcr_slot reference \<ge> 3 \<or> gcr_generation reference = 0 \<or> gcr_length reference = 0
      then Inl GenerationInvalid else Inr (self\<lparr>cat_reference := Some reference\<rparr>))"

definition covers_entry :: "u64 \<Rightarrow> u64 \<Rightarrow> u64 \<Rightarrow> SealedGeneration \<Rightarrow> bool" where
  "covers_entry journal_generation append_seq end_offset entry \<longleftrightarrow>
     sealed_journal_generation entry = journal_generation
     \<and> append_seq > sealed_sequence_floor entry \<and> append_seq \<le> sealed_sequence_cutoff entry
     \<and> end_offset > of_nat JOURNAL_V1_HEADER_LEN \<and> end_offset \<le> sealed_end_offset entry"

definition covers_commit :: "GenerationCatalogSnapshot \<Rightarrow> u64 \<Rightarrow> u64 \<Rightarrow> u64 \<Rightarrow> bool" where
  "covers_commit self journal_generation append_seq end_offset =
     list_ex (covers_entry journal_generation append_seq end_offset) (cat_entries self)"

record GenerationInventory =
  inv_active_generation :: u64
  inv_sealed_count :: nat
  inv_covered_sequence_floor :: u64
  inv_covered_sequence_cutoff :: u64
  inv_sealed_bytes :: u64

definition u64_saturating_add :: "u64 \<Rightarrow> u64 \<Rightarrow> u64" where
  "u64_saturating_add a b = (case checked_add a b of Some c \<Rightarrow> c | None \<Rightarrow> - 1)"

definition inventory_from_catalog :: "u64 \<Rightarrow> GenerationCatalogSnapshot \<Rightarrow> GenerationInventory" where
  "inventory_from_catalog active_generation catalog =
     \<lparr>inv_active_generation = active_generation, inv_sealed_count = length (cat_entries catalog),
      inv_covered_sequence_floor = (case cat_entries catalog of [] \<Rightarrow> 0 | e # _ \<Rightarrow> sealed_sequence_floor e),
      inv_covered_sequence_cutoff =
        (if cat_entries catalog = [] then 0 else sealed_sequence_cutoff (last (cat_entries catalog))),
      inv_sealed_bytes = foldl (\<lambda>total e. u64_saturating_add total (sealed_artifact_length e)) 0 (cat_entries catalog)\<rparr>"

section \<open>The catalog artifact\<close>

definition write_entry :: "nat \<Rightarrow> SealedGeneration \<Rightarrow> bytes \<Rightarrow> bytes" where
  "write_entry offset entry b0 =
     (let b1 = write_at offset (be_encode 8 (unat (sealed_journal_generation entry))) b0;
          b2 = write_at (offset + 8) (be_encode 8 (unat (sealed_sequence_floor entry))) b1;
          b3 = write_at (offset + 16) (be_encode 8 (unat (sealed_sequence_cutoff entry))) b2;
          b4 = write_at (offset + 24) (be_encode 8 (unat (sealed_end_offset entry))) b3;
          b5 = write_at (offset + 32) (be_encode 8 (unat (sealed_registry_generation entry))) b4;
          b6 = write_at (offset + 40) (be_encode 8 (unat (sealed_artifact_length entry))) b5;
          b7 = write_at (offset + 48) (be_encode 4 (unat (sealed_artifact_checksum entry))) b6
      in write_at (offset + 52) (be_encode 2 (unat SEALED_FORMAT_RAW_JOURNAL_V1)) b7)"

fun write_entries :: "nat \<Rightarrow> SealedGeneration list \<Rightarrow> bytes \<Rightarrow> bytes" where
  "write_entries index [] bs = bs"
| "write_entries index (entry # entries) bs =
     write_entries (index + 1) entries (write_entry (CATALOG_HEADER_LEN + index * CATALOG_ENTRY_LEN) entry bs)"

definition encode_catalog :: "GenerationCatalogSnapshot \<Rightarrow> (GenerationCodecError, bytes) result" where
  "encode_catalog snapshot =
     and_then (ok_or GenerationInvalid (cat_reference snapshot)) (\<lambda>reference.
     if gcr_slot reference \<ge> 3 \<or> gcr_generation reference = 0 \<or> cat_entries snapshot = []
        \<or> length (cat_entries snapshot) > MAX_SEALED_GENERATIONS
     then Inl GenerationInvalid
     else
       let payload_len = length (cat_entries snapshot) * CATALOG_ENTRY_LEN;
           total = CATALOG_HEADER_LEN + payload_len + 4 in
       if total > MAX_GENERATION_CATALOG_BYTES then Inl GenerationInvalid
       else
         let b0 = replicate total (0::u8);
             b1 = write_at 0 CATALOG_MAGIC b0;
             b2 = write_at 8 (be_encode 2 (unat CATALOG_VERSION)) b1;
             b3 = write_at 10 (be_encode 2 (unat CATALOG_HEADER_LEN_U16)) b2;
             b4 = write_at 12 (id_bytes (cat_store_id snapshot)) b3;
             b5 = write_at 28 (be_encode 8 (unat (gcr_generation reference))) b4;
             b6 = write_at 36 (be_encode 4 (length (cat_entries snapshot))) b5;
             b7 = write_at 40 (be_encode 8 payload_len) b6;
             b8 = write_entries 0 (cat_entries snapshot) b7;
             checksum_offset = length b8 - 4;
             checksum = crc32c (slice 0 checksum_offset b8)
         in Inr (write_at checksum_offset (be_encode 4 (unat checksum)) b8))"

definition read_entry :: "nat \<Rightarrow> bytes \<Rightarrow> SealedGeneration" where
  "read_entry offset bs =
     \<lparr>sealed_journal_generation = read_u64 offset bs, sealed_sequence_floor = read_u64 (offset + 8) bs,
      sealed_sequence_cutoff = read_u64 (offset + 16) bs, sealed_end_offset = read_u64 (offset + 24) bs,
      sealed_registry_generation = read_u64 (offset + 32) bs, sealed_artifact_length = read_u64 (offset + 40) bs,
      sealed_artifact_checksum = read_u32 (offset + 48) bs\<rparr>"

fun decode_entries ::
  "bytes \<Rightarrow> nat \<Rightarrow> nat \<Rightarrow> SealedGeneration list \<Rightarrow> (GenerationCodecError, SealedGeneration list) result" where
  "decode_entries bs index 0 entries = Inr entries"
| "decode_entries bs index (Suc n) entries =
     (let offset = CATALOG_HEADER_LEN + index * CATALOG_ENTRY_LEN in
      if list_ex (\<lambda>b. b \<noteq> 0) (slice (offset + 54) (offset + 64) bs)
         \<or> read_u16 (offset + 52) bs \<noteq> SEALED_FORMAT_RAW_JOURNAL_V1
      then Inl GenerationInvalid
      else if entry_refused entries (read_entry offset bs) then Inl GenerationInvalid
      else decode_entries bs (index + 1) n (entries @ [read_entry offset bs]))"

definition decode_catalog ::
  "bytes \<Rightarrow> u8 \<Rightarrow> StoreId \<Rightarrow> (GenerationCodecError, GenerationCatalogSnapshot) result" where
  "decode_catalog bs slot expected_store =
     (if slot \<ge> 3
         \<or> length bs < CATALOG_HEADER_LEN + CATALOG_ENTRY_LEN + 4
         \<or> length bs > MAX_GENERATION_CATALOG_BYTES
         \<or> slice 0 8 bs \<noteq> CATALOG_MAGIC
         \<or> read_u16 8 bs \<noteq> CATALOG_VERSION
         \<or> read_u16 10 bs \<noteq> CATALOG_HEADER_LEN_U16
         \<or> list_ex (\<lambda>b. b \<noteq> 0) (slice 48 64 bs)
      then Inl GenerationInvalid
      else
        let checksum_offset = length bs - 4 in
        if crc32c (slice 0 checksum_offset bs) \<noteq> read_u32 checksum_offset bs then Inl GenerationInvalid
        else and_then (map_err (\<lambda>_. GenerationInvalid) (identity_from_bytes (slice 12 28 bs))) (\<lambda>store_id.
          if store_id \<noteq> expected_store then Inl GenerationStoreMismatch
          else
            let generation = read_u64 28 bs;
                count = unat (read_u32 36 bs);
                payload_len = unat (read_u64 40 bs) in
            if generation = 0 \<or> count = 0 \<or> count > MAX_SEALED_GENERATIONS
               \<or> count * CATALOG_ENTRY_LEN \<noteq> payload_len
               \<or> usize_checked_add CATALOG_HEADER_LEN payload_len \<noteq> Some checksum_offset
            then Inl GenerationInvalid
            else and_then (decode_entries bs 0 count []) (\<lambda>entries.
              if unat generation \<noteq> count then Inl GenerationInvalid
              else
                let snapshot = \<lparr>cat_store_id = store_id,
                      cat_reference = Some \<lparr>gcr_slot = slot, gcr_generation = generation,
                        gcr_length = of_nat (length bs), gcr_checksum = crc32c bs\<rparr>,
                      cat_entries = entries\<rparr>
                in and_then (encode_catalog snapshot) (\<lambda>encoded.
                   if encoded \<noteq> bs then Inl GenerationInvalid else Inr snapshot))))"

section \<open>The rotation intent\<close>

record RotationIntent =
  ri_store_id :: StoreId
  ri_source_generation :: u64
  ri_successor_generation :: u64
  ri_sequence_cutoff :: u64
  ri_source_end_offset :: u64
  ri_registry_generation :: u64
  ri_catalog_generation :: u64
  ri_source_checkpoint_generation :: u64

definition encode_rotation_intent :: "RotationIntent \<Rightarrow> bytes" where
  "encode_rotation_intent intent =
     (let b0 = replicate ROTATION_INTENT_LEN (0::u8);
          b1 = write_at 0 ROTATION_INTENT_MAGIC b0;
          b2 = write_at 8 (be_encode 2 (unat ROTATION_INTENT_VERSION)) b1;
          b3 = write_at 10 (be_encode 2 (unat ROTATION_INTENT_LEN_U16)) b2;
          b4 = write_at 12 (id_bytes (ri_store_id intent)) b3;
          b5 = write_at 28 (be_encode 8 (unat (ri_source_generation intent))) b4;
          b6 = write_at 36 (be_encode 8 (unat (ri_successor_generation intent))) b5;
          b7 = write_at 44 (be_encode 8 (unat (ri_sequence_cutoff intent))) b6;
          b8 = write_at 52 (be_encode 8 (unat (ri_source_end_offset intent))) b7;
          b9 = write_at 60 (be_encode 8 (unat (ri_registry_generation intent))) b8;
          b10 = write_at 68 (be_encode 8 (unat (ri_catalog_generation intent))) b9;
          b11 = write_at 76 (be_encode 8 (unat (ri_source_checkpoint_generation intent))) b10;
          checksum = crc32c (slice 0 92 b11)
      in write_at 92 (be_encode 4 (unat checksum)) b11)"

definition decode_rotation_intent :: "bytes \<Rightarrow> StoreId \<Rightarrow> (GenerationCodecError, RotationIntent) result" where
  "decode_rotation_intent bs expected_store =
     (if length bs \<noteq> ROTATION_INTENT_LEN
         \<or> slice 0 8 bs \<noteq> ROTATION_INTENT_MAGIC
         \<or> read_u16 8 bs \<noteq> ROTATION_INTENT_VERSION
         \<or> read_u16 10 bs \<noteq> ROTATION_INTENT_LEN_U16
         \<or> list_ex (\<lambda>b. b \<noteq> 0) (slice 84 92 bs)
         \<or> crc32c (slice 0 92 bs) \<noteq> read_u32 92 bs
      then Inl GenerationInvalid
      else and_then (map_err (\<lambda>_. GenerationInvalid) (identity_from_bytes (slice 12 28 bs))) (\<lambda>store_id.
        if store_id \<noteq> expected_store then Inl GenerationStoreMismatch
        else
          let intent = \<lparr>ri_store_id = store_id, ri_source_generation = read_u64 28 bs,
                ri_successor_generation = read_u64 36 bs, ri_sequence_cutoff = read_u64 44 bs,
                ri_source_end_offset = read_u64 52 bs, ri_registry_generation = read_u64 60 bs,
                ri_catalog_generation = read_u64 68 bs, ri_source_checkpoint_generation = read_u64 76 bs\<rparr>
          in if ri_source_generation intent = 0
                \<or> checked_add (ri_source_generation intent) 1 \<noteq> Some (ri_successor_generation intent)
                \<or> ri_sequence_cutoff intent = 0
                \<or> ri_source_end_offset intent \<le> of_nat JOURNAL_V1_HEADER_LEN
                \<or> ri_registry_generation intent = 0
                \<or> ri_catalog_generation intent = 0
                \<or> ri_source_checkpoint_generation intent = 0
             then Inl GenerationInvalid else Inr intent))"

section \<open>The streaming checksum\<close>

datatype StreamingCrc32c = StreamingCrc32c (stream_state: u32)

definition stream_new :: StreamingCrc32c where "stream_new = StreamingCrc32c 0xFFFFFFFF"

definition stream_update :: "bytes \<Rightarrow> StreamingCrc32c \<Rightarrow> StreamingCrc32c" where
  "stream_update bs s = StreamingCrc32c (foldl crc_byte (stream_state s) bs)"

definition stream_finish :: "StreamingCrc32c \<Rightarrow> u32" where
  "stream_finish s = not (stream_state s)"

section \<open>File names\<close>

text \<open>\<open>format!("{generation:020}")\<close>: decimal digits padded with zeros to twenty places.\<close>

definition format_020 :: "u64 \<Rightarrow> rust_string" where
  "format_020 g = (let ds = decimal_digits (unat g) in replicate (20 - length ds) 0x30 @ ds)"

definition strip_prefix :: "rust_string \<Rightarrow> rust_string \<Rightarrow> rust_string option" where
  "strip_prefix p s = (if take (length p) s = p then Some (drop (length p) s) else None)"

definition strip_suffix :: "rust_string \<Rightarrow> rust_string \<Rightarrow> rust_string option" where
  "strip_suffix p s =
     (if length p \<le> length s \<and> drop (length s - length p) s = p then Some (take (length s - length p) s) else None)"

definition ACTIVE_PREFIX :: rust_string where "ACTIVE_PREFIX = lit ''active-journal-v1-g''"
definition SEALED_PREFIX :: rust_string where "SEALED_PREFIX = lit ''sealed-journal-v1-g''"
definition OCH_SUFFIX :: rust_string where "OCH_SUFFIX = lit ''.och''"
definition CHECKPOINT_SUFFIX :: rust_string where "CHECKPOINT_SUFFIX = lit ''.checkpoint''"

definition sealed_journal_file_name :: "u64 \<Rightarrow> rust_string" where
  "sealed_journal_file_name generation = SEALED_PREFIX @ format_020 generation @ OCH_SUFFIX"

definition parse_generation_name :: "rust_string \<Rightarrow> rust_string \<Rightarrow> rust_string \<Rightarrow> u64 \<Rightarrow> u64 option" where
  "parse_generation_name name name_prefix name_suffix minimum =
     Option.bind (strip_prefix name_prefix name) (\<lambda>rest.
     Option.bind (strip_suffix name_suffix rest) (\<lambda>digits.
       if length digits \<noteq> 20 \<or> \<not> list_all is_ascii_digit digits then None
       else if digits_value digits < 2 ^ 64
       then (let generation = of_nat (digits_value digits) in
             if generation \<ge> minimum \<and> format_020 generation = digits then Some generation else None)
       else None))"

definition parse_active_journal_generation_name :: "rust_string \<Rightarrow> u64 option" where
  "parse_active_journal_generation_name name = parse_generation_name name ACTIVE_PREFIX OCH_SUFFIX 2"

definition parse_active_checkpoint_generation_name :: "rust_string \<Rightarrow> u64 option" where
  "parse_active_checkpoint_generation_name name = parse_generation_name name ACTIVE_PREFIX CHECKPOINT_SUFFIX 2"

definition parse_sealed_generation_name :: "rust_string \<Rightarrow> u64 option" where
  "parse_sealed_generation_name name = parse_generation_name name SEALED_PREFIX OCH_SUFFIX 1"

end
