(* ===== verification/Och_Catalog.thy ===== *)
theory Och_Catalog
  imports Och_Generation
begin

text \<open>
  Correctness of the generation catalog: the chain invariant and its reachable snapshots, the
  partition of the sealed sequence range, exactness of the inventory, and the canonical artifacts.
\<close>

section \<open>The chain invariant\<close>

definition sealed_ok :: "SealedGeneration \<Rightarrow> bool" where
  "sealed_ok e \<longleftrightarrow> sealed_sequence_floor e < sealed_sequence_cutoff e \<and> of_nat JOURNAL_V1_HEADER_LEN < sealed_end_offset e \<and>
     sealed_artifact_length e = sealed_end_offset e \<and> sealed_artifact_length e \<le> MAX_ACTIVE_JOURNAL_BYTES \<and>
     sealed_registry_generation e \<noteq> 0"

definition covered_cutoff :: "SealedGeneration list \<Rightarrow> u64" where
  "covered_cutoff es = (if es = [] then 0 else sealed_sequence_cutoff (last es))"

fun catalog_chain :: "SealedGeneration list \<Rightarrow> bool" where
  "catalog_chain es \<longleftrightarrow> (\<forall>i < length es. sealed_ok (es ! i) \<and> unat (sealed_journal_generation (es ! i)) = i + 1 \<and>
     sealed_sequence_floor (es ! i) = covered_cutoff (take i es))"

declare catalog_chain.simps [simp del]

definition reference_valid :: "GenerationCatalogReference \<Rightarrow> SealedGeneration list \<Rightarrow> bool" where
  "reference_valid r es \<longleftrightarrow> gcr_slot r < 3 \<and> unat (gcr_generation r) = length es"

definition catalog_ok :: "GenerationCatalogSnapshot \<Rightarrow> bool" where
  "catalog_ok s \<longleftrightarrow> catalog_chain (cat_entries s) \<and> length (cat_entries s) \<le> MAX_SEALED_GENERATIONS \<and>
     (case cat_reference s of None \<Rightarrow> cat_entries s = []
      | Some r \<Rightarrow> cat_entries s \<noteq> [] \<and> reference_valid r (cat_entries s))"

lemma catalog_chain_snoc:
  "catalog_chain (es @ [e]) \<longleftrightarrow> catalog_chain es \<and> sealed_ok e \<and>
   unat (sealed_journal_generation e) = length es + 1 \<and> sealed_sequence_floor e = covered_cutoff es"
  by (auto simp: catalog_chain.simps nth_append less_Suc_eq)

lemma catalog_chain_Nil [simp]: "catalog_chain []"
  by (simp add: catalog_chain.simps)

lemma entry_refused_iff:
  assumes "catalog_chain es"
  shows "\<not> entry_refused es e \<longleftrightarrow> catalog_chain (es @ [e])"
proof (cases es rule: rev_cases)
  case Nil
  have "sealed_journal_generation e = 1 \<longleftrightarrow> unat (sealed_journal_generation e) = 1"
    by (auto simp: word_unat_eq_iff)
  with Nil show ?thesis
    using catalog_chain_snoc [of "[]" e]
    by (auto simp: entry_refused_def sealed_ok_def covered_cutoff_def not_le word_neq_0_conv)
next
  case (snoc fs f)
  then have "unat (sealed_journal_generation f) = length fs + 1" using assms by (simp add: catalog_chain_snoc)
  then show ?thesis
    unfolding catalog_chain_snoc [of es e] using assms
    by (auto simp: snoc entry_refused_def sealed_ok_def covered_cutoff_def not_le checked_succ_iff)
qed

lemma catalog_advance_iff:
  assumes "catalog_ok s"
  shows "catalog_advance r e s = Inr s' \<longleftrightarrow>
    s' = s\<lparr>cat_reference := Some r, cat_entries := cat_entries s @ [e]\<rparr> \<and> catalog_ok s' \<and>
    (\<forall>prior. cat_reference s = Some prior \<longrightarrow> gcr_slot prior \<noteq> gcr_slot r)"
proof -
  have chain: "catalog_chain (cat_entries s)" using assms by (simp add: catalog_ok_def)
  have gen: "gcr_generation r \<noteq> 0 \<and> Some (gcr_generation r) = (case cat_reference s of
        Some prior \<Rightarrow> checked_add (gcr_generation prior) 1 | None \<Rightarrow> Some 1) \<longleftrightarrow>
      unat (gcr_generation r) = length (cat_entries s) + 1"
  proof (cases "cat_reference s")
    case None
    then show ?thesis using assms by (auto simp: catalog_ok_def word_unat_eq_iff)
  next
    case (Some prior)
    then have p: "unat (gcr_generation prior) = length (cat_entries s)"
      using assms by (simp add: catalog_ok_def reference_valid_def)
    have "Some (gcr_generation r) = checked_add (gcr_generation prior) 1 \<longleftrightarrow>
        unat (gcr_generation r) = length (cat_entries s) + 1"
      using checked_succ_iff [of "gcr_generation prior" "gcr_generation r"] p by auto
    with Some show ?thesis by auto
  qed
  have s': "\<lparr>cat_store_id = cat_store_id s, cat_reference = Some r, cat_entries = cat_entries s @ [e]\<rparr> =
      s\<lparr>cat_reference := Some r, cat_entries := cat_entries s @ [e]\<rparr>"
    by simp
  have slot: "is_some_and (\<lambda>prior. gcr_slot prior = gcr_slot r) (cat_reference s) \<longleftrightarrow>
      \<not> (\<forall>prior. cat_reference s = Some prior \<longrightarrow> gcr_slot prior \<noteq> gcr_slot r)"
    by (cases "cat_reference s") auto
  have "catalog_advance r e s = Inr s' \<longleftrightarrow>
     (length (cat_entries s) < MAX_SEALED_GENERATIONS \<and> gcr_slot r < 3 \<and>
      (gcr_generation r \<noteq> 0 \<and> Some (gcr_generation r) = (case cat_reference s of
        Some prior \<Rightarrow> checked_add (gcr_generation prior) 1 | None \<Rightarrow> Some 1)) \<and>
      (\<forall>prior. cat_reference s = Some prior \<longrightarrow> gcr_slot prior \<noteq> gcr_slot r) \<and>
      \<not> entry_refused (cat_entries s) e) \<and>
     s' = s\<lparr>cat_reference := Some r, cat_entries := cat_entries s @ [e]\<rparr>"
    unfolding catalog_advance_def Let_def s' slot by (auto simp: not_le)
  then show ?thesis
    unfolding gen entry_refused_iff [OF chain]
    by (auto simp: catalog_ok_def reference_valid_def MAX_SEALED_GENERATIONS_def)
qed

lemma catalog_with_reference_ok:
  assumes "catalog_ok s" "catalog_with_reference r s = Inr s'"
  shows "catalog_ok s' \<and> cat_entries s' = cat_entries s \<and> cat_store_id s' = cat_store_id s"
  using assms
  by (auto simp: catalog_with_reference_def catalog_ok_def reference_valid_def not_le split: option.splits if_splits)

inductive catalog_reachable :: "StoreId \<Rightarrow> GenerationCatalogSnapshot \<Rightarrow> bool" for store where
  catalog_start: "catalog_reachable store (catalog_empty store)"
| catalog_step: "catalog_reachable store s \<Longrightarrow> catalog_advance r e s = Inr s' \<Longrightarrow> catalog_reachable store s'"
| catalog_named: "catalog_reachable store s \<Longrightarrow> catalog_with_reference r s = Inr s' \<Longrightarrow> catalog_reachable store s'"

lemma catalog_reachable_ok: "catalog_reachable store s \<Longrightarrow> catalog_ok s \<and> cat_store_id s = store"
proof (induction rule: catalog_reachable.induct)
  case catalog_start
  then show ?case by (simp add: catalog_ok_def catalog_empty_def)
next
  case (catalog_step s r e s')
  then show ?case using catalog_advance_iff [of s r e s'] by auto
next
  case (catalog_named s r s')
  then show ?case using catalog_with_reference_ok by metis
qed

section \<open>The sealed ranges partition the sealed sequences\<close>

definition in_range :: "u64 \<Rightarrow> SealedGeneration \<Rightarrow> bool" where
  "in_range q e \<longleftrightarrow> sealed_sequence_floor e < q \<and> q \<le> sealed_sequence_cutoff e"

lemma catalog_chain_cutoffs: "catalog_chain es \<Longrightarrow> e \<in> set es \<Longrightarrow> sealed_sequence_cutoff e \<le> covered_cutoff es"
proof (induction es rule: rev_induct)
  case Nil
  then show ?case by simp
next
  case (snoc f es)
  then have "sealed_sequence_floor f \<le> sealed_sequence_cutoff f" "sealed_sequence_floor f = covered_cutoff es"
    by (auto simp: catalog_chain_snoc sealed_ok_def)
  then have "covered_cutoff es \<le> covered_cutoff (es @ [f])" by (simp add: covered_cutoff_def)
  with snoc show ?case by (auto simp: catalog_chain_snoc covered_cutoff_def intro: order_trans)
qed

lemma catalog_partition:
  "catalog_chain es \<Longrightarrow> 0 < q \<and> q \<le> covered_cutoff es \<longleftrightarrow> (\<exists>e \<in> set es. in_range q e)"
proof (induction es rule: rev_induct)
  case Nil
  then show ?case by (auto simp: covered_cutoff_def)
next
  case (snoc f es)
  let ?c = "covered_cutoff es"
  have f: "sealed_sequence_floor f = ?c" and c: "catalog_chain es"
    and lt: "sealed_sequence_floor f < sealed_sequence_cutoff f"
    using snoc.prems unfolding catalog_chain_snoc sealed_ok_def by blast+
  have split: "0 < q \<and> q \<le> ?c \<or> ?c < q \<and> q \<le> sealed_sequence_cutoff f \<longleftrightarrow> 0 < q \<and> q \<le> sealed_sequence_cutoff f"
    using lt f by (auto simp: word_less_nat_alt word_le_nat_alt)
  have "(\<exists>e \<in> set (es @ [f]). in_range q e) \<longleftrightarrow> (\<exists>e \<in> set es. in_range q e) \<or> in_range q f" by auto
  also have "\<dots> \<longleftrightarrow> 0 < q \<and> q \<le> ?c \<or> ?c < q \<and> q \<le> sealed_sequence_cutoff f"
    using snoc.IH [OF c] unfolding in_range_def f(1) by (simp only:)
  finally show ?case unfolding split by (simp add: covered_cutoff_def)
qed

lemma catalog_disjoint:
  assumes "catalog_chain es" "i < length es" "j < length es" "in_range q (es ! i)" "in_range q (es ! j)"
  shows "i = j"
proof -
  have less: False if "a < b" "b < length es" "in_range q (es ! a)" "in_range q (es ! b)" for a b
  proof -
    have t: "catalog_chain (take b es)"
      using assms(1) that(2) by (auto simp: catalog_chain.simps min_def)
    have "sealed_sequence_cutoff (es ! a) \<le> covered_cutoff (take b es)"
      using catalog_chain_cutoffs [OF t, of "es ! a"] that(1,2) by (force simp: in_set_conv_nth)
    also have "\<dots> = sealed_sequence_floor (es ! b)" using assms(1) that(2) by (simp add: catalog_chain.simps)
    finally show False using that(3,4) by (auto simp: in_range_def)
  qed
  show ?thesis using less [of i j] less [of j i] assms by (cases i j rule: linorder_cases) auto
qed

section \<open>The inventory is exact\<close>

lemma saturating_exact: "unat a + unat b < 2 ^ 64 \<Longrightarrow> unat (u64_saturating_add a b) = unat a + unat b"
  by (simp add: u64_saturating_add_def checked_add_def unat_word_ariths)

lemma sealed_bytes_exact:
  "list_all sealed_ok es \<Longrightarrow> unat acc + length es * 536870912 < 2 ^ 64 \<Longrightarrow>
   unat (foldl (\<lambda>total e. u64_saturating_add total (sealed_artifact_length e)) acc es) =
     unat acc + sum_list (map (\<lambda>e. unat (sealed_artifact_length e)) es)"
proof (induction es arbitrary: acc)
  case Nil
  then show ?case by simp
next
  case (Cons e es)
  have b: "unat (sealed_artifact_length e) \<le> 536870912"
    using Cons.prems(1) by (auto simp: sealed_ok_def MAX_ACTIVE_JOURNAL_BYTES_def word_le_nat_alt)
  then have s: "unat (u64_saturating_add acc (sealed_artifact_length e)) = unat acc + unat (sealed_artifact_length e)"
    using Cons.prems by (intro saturating_exact) simp
  have "unat (u64_saturating_add acc (sealed_artifact_length e)) + length es * 536870912 < 2 ^ 64"
    using s b Cons.prems(2) by simp
  with Cons.IH [of "u64_saturating_add acc (sealed_artifact_length e)"] Cons.prems(1) s show ?case by simp
qed

lemma catalog_chain_ok: "catalog_chain es \<Longrightarrow> list_all sealed_ok es"
  by (simp add: catalog_chain.simps list_all_length)

section \<open>The catalog artifact is canonical\<close>

definition wire_entry :: "SealedGeneration \<Rightarrow> bytes" where
  "wire_entry e = be_encode 8 (unat (sealed_journal_generation e)) @ be_encode 8 (unat (sealed_sequence_floor e))
     @ be_encode 8 (unat (sealed_sequence_cutoff e)) @ be_encode 8 (unat (sealed_end_offset e))
     @ be_encode 8 (unat (sealed_registry_generation e)) @ be_encode 8 (unat (sealed_artifact_length e))
     @ be_encode 4 (unat (sealed_artifact_checksum e)) @ be_encode 2 1 @ replicate 10 0"

definition catalog_header :: "GenerationCatalogSnapshot \<Rightarrow> GenerationCatalogReference \<Rightarrow> bytes" where
  "catalog_header s r = CATALOG_MAGIC @ be_encode 2 1 @ be_encode 2 64 @ id_bytes (cat_store_id s)
     @ be_encode 8 (unat (gcr_generation r)) @ be_encode 4 (length (cat_entries s))
     @ be_encode 8 (length (cat_entries s) * 64) @ replicate 16 0"

definition catalog_layout :: "GenerationCatalogSnapshot \<Rightarrow> GenerationCatalogReference \<Rightarrow> bytes" where
  "catalog_layout s r = seal (catalog_header s r @ concat (map wire_entry (cat_entries s)))"

lemma length_wire_entry [simp]: "length (wire_entry e) = 64"
  by (simp add: wire_entry_def)

lemma length_wire_entries [simp]: "length (concat (map wire_entry es)) = length es * 64"
  by (induction es) simp_all

lemma length_catalog_header: "length (id_bytes (cat_store_id s)) = 16 \<Longrightarrow> length (catalog_header s r) = 64"
  by (simp add: catalog_header_def CATALOG_MAGIC_def)

lemma write_entry_pad:
  assumes "length xs = o'" "o' + 64 \<le> n"
  shows "write_entry o' e (pad n xs) = pad n (xs @ wire_entry e)"
proof -
  let ?w = "be_encode 8 (unat (sealed_journal_generation e)) @ be_encode 8 (unat (sealed_sequence_floor e))
     @ be_encode 8 (unat (sealed_sequence_cutoff e)) @ be_encode 8 (unat (sealed_end_offset e))
     @ be_encode 8 (unat (sealed_registry_generation e)) @ be_encode 8 (unat (sealed_artifact_length e))
     @ be_encode 4 (unat (sealed_artifact_checksum e)) @ be_encode 2 1"
  have "write_entry o' e (pad n xs) = pad n (xs @ ?w)"
    using assms by (simp add: write_entry_def Let_def pad_write SEALED_FORMAT_RAW_JOURNAL_V1_def)
  also have "\<dots> = pad n ((xs @ ?w) @ replicate 10 0)"
    using assms by (intro pad_zeros) simp
  finally show ?thesis by (simp add: wire_entry_def)
qed

lemma write_entries_pad:
  "length xs = 64 + index * 64 \<Longrightarrow> length xs + length es * 64 \<le> n \<Longrightarrow>
   write_entries index es (pad n xs) = pad n (xs @ concat (map wire_entry es))"
proof (induction es arbitrary: index xs)
  case Nil
  then show ?case by simp
next
  case (Cons e es)
  then show ?case
    using Cons.IH [of "xs @ wire_entry e" "index + 1"]
    by (simp add: write_entry_pad CATALOG_HEADER_LEN_def CATALOG_ENTRY_LEN_def)
qed

definition catalog_encodable :: "GenerationCatalogSnapshot \<Rightarrow> GenerationCatalogReference \<Rightarrow> bool" where
  "catalog_encodable s r \<longleftrightarrow> cat_reference s = Some r \<and> gcr_slot r < 3 \<and> gcr_generation r \<noteq> 0 \<and> cat_entries s \<noteq> [] \<and>
     length (cat_entries s) \<le> MAX_SEALED_GENERATIONS"

lemma encode_catalog_layout:
  assumes "length (id_bytes (cat_store_id s)) = 16" "catalog_encodable s r"
  shows "encode_catalog s = Inr (catalog_layout s r)"
proof -
  let ?es = "cat_entries s" and ?t = "64 + length (cat_entries s) * 64 + 4"
  have c: "cat_reference s = Some r" "gcr_slot r < 3" "gcr_generation r \<noteq> 0" "?es \<noteq> []" "length ?es \<le> 64"
    using assms(2) by (simp_all add: catalog_encodable_def MAX_SEALED_GENERATIONS_def)
  define H where "H = CATALOG_MAGIC @ be_encode 2 1 @ be_encode 2 64 @ id_bytes (cat_store_id s)
     @ be_encode 8 (unat (gcr_generation r)) @ be_encode 4 (length ?es) @ be_encode 8 (length ?es * 64)"
  have H: "length H = 48" by (simp add: H_def CATALOG_MAGIC_def assms)
  have hdr: "catalog_header s r = H @ replicate 16 0" by (simp add: catalog_header_def H_def)
  have head: "write_at 40 (be_encode 8 (length ?es * 64)) (write_at 36 (be_encode 4 (length ?es))
     (write_at 28 (be_encode 8 (unat (gcr_generation r))) (write_at 12 (id_bytes (cat_store_id s))
     (write_at 10 (be_encode 2 64) (write_at 8 (be_encode 2 1) (write_at 0 CATALOG_MAGIC (replicate ?t 0))))))) =
     pad ?t (catalog_header s r)" (is "?writes = _")
  proof -
    have "?writes = pad ?t H"
      unfolding pad_empty using assms(1) by (simp add: pad_write H_def CATALOG_MAGIC_def)
    also have "\<dots> = pad ?t (H @ replicate 16 0)" using H by (intro pad_zeros) simp
    finally show ?thesis unfolding hdr .
  qed
  let ?body = "catalog_header s r @ concat (map wire_entry ?es)"
  have body: "length ?body = ?t - 4" by (simp add: length_catalog_header assms)
  have entries: "write_entries 0 ?es (pad ?t (catalog_header s r)) = pad ?t ?body"
    by (rule write_entries_pad) (simp_all add: length_catalog_header assms)
  have len: "length (pad ?t ?body) - 4 = length ?body" using body by (simp add: length_pad)
  have fin: "write_at (length ?body) (be_encode 4 (unat (crc32c (slice 0 (length ?body) (pad ?t ?body))))) (pad ?t ?body) =
      catalog_layout s r"
  proof -
    have "slice 0 (length ?body) (pad ?t ?body) = ?body"
      using pad_slice [of ?body 0 "length ?body" ?t] body by simp
    then show ?thesis
      using body by (simp only:) (subst pad_write, simp_all add: pad_full catalog_layout_def seal_def)
  qed
  show ?thesis
    using c head entries len fin
    by (simp add: encode_catalog_def Let_def catalog_consts not_le del: append_assoc)
qed


subsection \<open>Decoding the layout\<close>

lemma wire_entry_fields:
  "read_u64 0 (wire_entry e) = sealed_journal_generation e" "read_u64 8 (wire_entry e) = sealed_sequence_floor e"
  "read_u64 16 (wire_entry e) = sealed_sequence_cutoff e" "read_u64 24 (wire_entry e) = sealed_end_offset e"
  "read_u64 32 (wire_entry e) = sealed_registry_generation e" "read_u64 40 (wire_entry e) = sealed_artifact_length e"
  "read_u32 48 (wire_entry e) = sealed_artifact_checksum e" "read_u16 52 (wire_entry e) = 1"
  "slice 54 64 (wire_entry e) = replicate 10 0"
proof -
  have one: "be_encode 2 1 = be_encode 2 (unat (1::u16))" by simp
  show "read_u64 0 (wire_entry e) = sealed_journal_generation e" "read_u64 8 (wire_entry e) = sealed_sequence_floor e"
    "read_u64 16 (wire_entry e) = sealed_sequence_cutoff e" "read_u64 24 (wire_entry e) = sealed_end_offset e"
    "read_u64 32 (wire_entry e) = sealed_registry_generation e" "read_u64 40 (wire_entry e) = sealed_artifact_length e"
    "read_u32 48 (wire_entry e) = sealed_artifact_checksum e" "read_u16 52 (wire_entry e) = 1"
    "slice 54 64 (wire_entry e) = replicate 10 0"
    unfolding wire_entry_def one
    by (simp_all add: read_u64_def read_u32_def read_u16_def slice_def be_field be_decode_encode)
qed

lemma read_entry_layout:
  assumes "length p = o'"
  shows "read_entry o' (p @ wire_entry e @ q) = e" "read_u16 (o' + 52) (p @ wire_entry e @ q) = 1"
    "slice (o' + 54) (o' + 64) (p @ wire_entry e @ q) = replicate 10 0"
proof -
  note r = read_shift [OF assms, where x = "wire_entry e" and q = q]
  have "read_u64 o' (p @ wire_entry e @ q) = read_u64 0 (wire_entry e)" using r(1) [of 0] by simp
  then show "read_entry o' (p @ wire_entry e @ q) = e"
    by (simp add: read_entry_def r wire_entry_fields)
  show "read_u16 (o' + 52) (p @ wire_entry e @ q) = 1" by (simp add: r wire_entry_fields)
  show "slice (o' + 54) (o' + 64) (p @ wire_entry e @ q) = replicate 10 0"
    using slice_shift [OF assms, of 64 "wire_entry e" 54 q] by (simp add: wire_entry_fields)
qed

lemma decode_entries_chain:
  "decode_entries bs index n es = Inr es' \<Longrightarrow> catalog_chain es \<Longrightarrow> catalog_chain es' \<and> length es' = length es + n"
proof (induction bs index n es rule: decode_entries.induct)
  case (2 bs index n es)
  then show ?case by (auto simp: Let_def entry_refused_iff split: if_splits)
qed simp

lemma catalog_chain_prefix: "catalog_chain (es @ fs) \<Longrightarrow> catalog_chain es"
  by (induction fs rule: rev_induct) (auto simp: catalog_chain_snoc simp flip: append_assoc)

lemma decode_entries_layout:
  "length p = 64 + index * 64 \<Longrightarrow> catalog_chain (es @ fs) \<Longrightarrow>
   decode_entries (p @ concat (map wire_entry fs) @ q) index (length fs) es = Inr (es @ fs)"
proof (induction fs arbitrary: p index es)
  case Nil
  then show ?case by simp
next
  case (Cons f fs)
  have c: "catalog_chain es" "catalog_chain (es @ [f])"
    using Cons.prems(2) catalog_chain_prefix [of es "f # fs"] catalog_chain_prefix [of "es @ [f]" fs] by simp_all
  then have "\<not> entry_refused es f" by (simp add: entry_refused_iff)
  moreover have "decode_entries ((p @ wire_entry f) @ concat (map wire_entry fs) @ q) (index + 1) (length fs) (es @ [f]) =
      Inr ((es @ [f]) @ fs)"
    using Cons.prems by (intro Cons.IH) simp_all
  ultimately show ?case
    using read_entry_layout [OF Cons.prems(1), of f "concat (map wire_entry fs) @ q"]
    by (simp add: Let_def CATALOG_HEADER_LEN_def CATALOG_ENTRY_LEN_def SEALED_FORMAT_RAW_JOURNAL_V1_def list_ex_iff)
qed

lemma catalog_header_fields:
  assumes "length (id_bytes (cat_store_id s)) = 16" "length (cat_entries s) \<le> 64" "h = catalog_header s r"
  shows "slice 0 8 h = CATALOG_MAGIC" "read_u16 8 h = 1" "read_u16 10 h = 64"
    "slice 12 28 h = id_bytes (cat_store_id s)" "read_u64 28 h = gcr_generation r"
    "unat (read_u32 36 h) = length (cat_entries s)" "unat (read_u64 40 h) = length (cat_entries s) * 64"
    "slice 48 64 h = replicate 16 0"
proof -
  let ?n = "length (cat_entries s)"
  have w: "be_encode 2 1 = be_encode 2 (unat (1::u16))" "be_encode 2 64 = be_encode 2 (unat (64::u16))"
    "be_encode 4 ?n = be_encode 4 (unat (of_nat ?n :: u32))"
    "be_encode 8 (?n * 64) = be_encode 8 (unat (of_nat (?n * 64) :: u64))"
    using assms(2) by (simp_all add: unat_of_nat del: of_nat_mult)
  have f: "read_u32 36 h = of_nat ?n" "read_u64 40 h = of_nat (?n * 64)"
    unfolding assms(3) catalog_header_def w
    by (simp_all add: read_u64_def read_u32_def slice_def be_field CATALOG_MAGIC_def assms(1) del: of_nat_mult)
  show "unat (read_u32 36 h) = length (cat_entries s)" "unat (read_u64 40 h) = length (cat_entries s) * 64"
    using assms(2) by (simp_all add: f unat_of_nat del: of_nat_mult)
  show "slice 0 8 h = CATALOG_MAGIC" "read_u16 8 h = 1" "read_u16 10 h = 64"
    "slice 12 28 h = id_bytes (cat_store_id s)" "read_u64 28 h = gcr_generation r"
    "slice 48 64 h = replicate 16 0"
    unfolding assms(3) catalog_header_def w
    by (simp_all add: read_u64_def read_u16_def slice_def be_field be_decode_encode CATALOG_MAGIC_def assms(1))
qed


definition catalog_reference_of :: "u8 \<Rightarrow> u64 \<Rightarrow> bytes \<Rightarrow> GenerationCatalogReference" where
  "catalog_reference_of slot generation bs = \<lparr>gcr_slot = slot, gcr_generation = generation,
     gcr_length = of_nat (length bs), gcr_checksum = crc32c bs\<rparr>"

lemma decode_catalog_layout:
  assumes i: "identity_ok (cat_store_id s)" and ok: "catalog_ok s" and r: "cat_reference s = Some r"
    and bs: "bs = catalog_layout s r" and ref: "r = catalog_reference_of slot (gcr_generation r) bs"
  shows "decode_catalog bs slot (cat_store_id s) = Inr s"
proof -
  let ?es = "cat_entries s" and ?h = "catalog_header s r"
  have len: "length (id_bytes (cat_store_id s)) = 16" using i by (simp add: identity_ok_def)
  have n: "?es \<noteq> []" "length ?es \<le> 64" "unat (gcr_generation r) = length ?es" "catalog_chain ?es" "gcr_slot r < 3"
    using ok r by (simp_all add: catalog_ok_def MAX_SEALED_GENERATIONS_def reference_valid_def)
  have slot: "gcr_slot r = slot" using ref by (metis GenerationCatalogReference.simps(1) catalog_reference_of_def)
  have g: "gcr_generation r \<noteq> 0" using n(1,3) by auto
  obtain t where t: "bs = ?h @ concat (map wire_entry ?es) @ t" "length t = 4"
    by (simp add: bs catalog_layout_def seal_def)
  have h: "length ?h = 64" by (simp add: length_catalog_header len)
  have total: "length bs = 64 + length ?es * 64 + 4" by (simp add: t h)
  then have off: "length bs - 4 = 64 + length ?es * 64" by simp
  have sl: "slice a b bs = slice a b ?h" if "a \<le> b" "b \<le> 64" for a b
    using that by (simp add: t slice_append_left h)
  have rd: "read_u16 8 bs = read_u16 8 ?h" "read_u16 10 bs = read_u16 10 ?h" "read_u64 28 bs = read_u64 28 ?h"
    "read_u32 36 bs = read_u32 36 ?h" "read_u64 40 bs = read_u64 40 ?h"
    by (simp_all add: read_u16_def read_u32_def read_u64_def sl)
  note f = catalog_header_fields [OF len n(2) refl, of r]
  have crc: "crc32c (slice 0 (length bs - 4) bs) = read_u32 (length bs - 4) bs"
    using trailer_test [of bs "length bs - 4"] total by (auto simp: bs catalog_layout_def)
  have e: "decode_entries bs 0 (length ?es) [] = Inr ?es"
    using decode_entries_layout [of ?h 0 "[]" ?es t] h n(4) by (simp add: t)
  have enc: "encode_catalog s = Inr bs"
    using encode_catalog_layout [OF len, of r] n g by (simp add: catalog_encodable_def r MAX_SEALED_GENERATIONS_def bs)
  have s: "\<lparr>cat_store_id = cat_store_id s, cat_reference = Some \<lparr>gcr_slot = slot, gcr_generation = gcr_generation r,
       gcr_length = of_nat (length bs), gcr_checksum = crc32c bs\<rparr>, cat_entries = ?es\<rparr> = s"
    using ref r by (simp add: catalog_reference_of_def [symmetric])
  have id: "identity_from_bytes (id_bytes (cat_store_id s)) = Inr (cat_store_id s)"
    using i len by (simp add: identity_from_bytes_iff)
  have "1 \<le> length ?es" using n(1) by (cases ?es) auto
  then have range: "64 + 64 + 4 \<le> length bs" "length bs \<le> 4164" using total n(2) by simp_all
  have head: "slice 0 8 bs = CATALOG_MAGIC" "read_u16 8 bs = CATALOG_VERSION" "read_u16 10 bs = CATALOG_HEADER_LEN_U16"
    "\<not> list_ex (\<lambda>b. b \<noteq> 0) (slice 48 64 bs)" "identity_from_bytes (slice 12 28 bs) = Inr (cat_store_id s)"
    "read_u64 28 bs = gcr_generation r" "unat (read_u32 36 bs) = length ?es" "unat (read_u64 40 bs) = length ?es * 64"
    by (simp_all add: rd sl f id CATALOG_VERSION_def CATALOG_HEADER_LEN_U16_def list_ex_iff)
  have fit: "usize_checked_add 64 (length ?es * 64) = Some (64 + length ?es * 64)"
    using n(2) by (simp add: usize_checked_add_def)
  have lt: "slot < 3" using n(5) slot by simp
  show ?thesis
    unfolding decode_catalog_def Let_def head crc
    using lt range n g e enc off fit head(4)
    by (simp add: s not_le CATALOG_HEADER_LEN_def CATALOG_ENTRY_LEN_def MAX_GENERATION_CATALOG_BYTES_def
        MAX_SEALED_GENERATIONS_def)
qed

lemma decode_catalog_iff:
  "decode_catalog bs slot store = Inr s \<longleftrightarrow>
   identity_ok store \<and> cat_store_id s = store \<and> catalog_ok s \<and> encode_catalog s = Inr bs \<and>
   (\<exists>g. cat_reference s = Some (catalog_reference_of slot g bs))"
proof
  assume L: "decode_catalog bs slot store = Inr s"
  then have len: "132 \<le> length bs"
    by (auto simp: decode_catalog_def CATALOG_HEADER_LEN_def CATALOG_ENTRY_LEN_def split: if_splits)
  from L obtain g es where id: "identity_from_bytes (slice 12 28 bs) = Inr store"
    and s: "s = \<lparr>cat_store_id = store, cat_reference = Some (catalog_reference_of slot g bs), cat_entries = es\<rparr>"
    and es: "decode_entries bs 0 (unat (read_u32 36 bs)) [] = Inr es" "unat g = unat (read_u32 36 bs)"
    and c: "unat (read_u32 36 bs) \<noteq> 0" "unat (read_u32 36 bs) \<le> MAX_SEALED_GENERATIONS" "slot < 3"
    and e: "encode_catalog s = Inr bs"
    by (auto simp: decode_catalog_def Let_def result_convs not_le not_less catalog_reference_of_def)
  have "identity_ok store" using id len by (simp add: identity_from_bytes_iff)
  moreover have "catalog_chain es" "length es = unat (read_u32 36 bs)" using decode_entries_chain [OF es(1)] by simp_all
  then have "catalog_ok s" using c es by (auto simp: s catalog_ok_def reference_valid_def catalog_reference_of_def)
  ultimately show "identity_ok store \<and> cat_store_id s = store \<and> catalog_ok s \<and> encode_catalog s = Inr bs \<and>
    (\<exists>g. cat_reference s = Some (catalog_reference_of slot g bs))"
    using e s by auto
next
  assume R: "identity_ok store \<and> cat_store_id s = store \<and> catalog_ok s \<and> encode_catalog s = Inr bs \<and>
    (\<exists>g. cat_reference s = Some (catalog_reference_of slot g bs))"
  then obtain g where g: "cat_reference s = Some (catalog_reference_of slot g bs)" by blast
  let ?r = "catalog_reference_of slot g bs"
  have "catalog_encodable s ?r"
    using R g by (auto simp: catalog_encodable_def catalog_ok_def reference_valid_def)
  with R have "bs = catalog_layout s ?r"
    using encode_catalog_layout [of s ?r] by (simp add: identity_ok_def)
  moreover have "?r = catalog_reference_of slot (gcr_generation ?r) bs" by (simp add: catalog_reference_of_def)
  ultimately show "decode_catalog bs slot store = Inr s" using decode_catalog_layout R g by blast
qed


interpretation catalog: checksummed "\<lambda>bs. \<exists>s. decode_catalog bs slot store = Inr s"
proof unfold_locales
  fix bs
  assume "\<exists>s. decode_catalog bs slot store = Inr s"
  then obtain s g where d: "identity_ok (cat_store_id s)" "catalog_ok s" "encode_catalog s = Inr bs"
    and r: "cat_reference s = Some (catalog_reference_of slot g bs)" by (auto simp: decode_catalog_iff)
  have "catalog_encodable s (catalog_reference_of slot g bs)"
    using d(2) r unfolding catalog_encodable_def catalog_ok_def reference_valid_def by auto
  then have "encode_catalog s = Inr (catalog_layout s (catalog_reference_of slot g bs))"
    using d(1) by (intro encode_catalog_layout) (simp_all add: identity_ok_def)
  then show "\<exists>body. bs = seal body" using d(3) by (auto simp: catalog_layout_def)
qed

section \<open>Properties\<close>

text \<open>(C21) The sealed generations of every reachable catalog partition the sealed append sequences: each sequence from
  one to the last cutoff lies in the range of exactly one sealed generation and no other sequence
  lies in any, generation numbers are the positions counted from one, and a commit is covered
  exactly when the generation that owns its sequence is the one it names and its end offset lies in
  the sealed file.\<close>
theorem catalog_ranges_partition:
  assumes "catalog_reachable store s"
  shows "(0 < q \<and> q \<le> inv_covered_sequence_cutoff (inventory_from_catalog active s) \<longleftrightarrow>
      (\<exists>!i. i < length (cat_entries s) \<and> sealed_sequence_floor (cat_entries s ! i) < q \<and>
         q \<le> sealed_sequence_cutoff (cat_entries s ! i))) \<and>
    (covers_commit s j q off \<longleftrightarrow> (\<exists>i < length (cat_entries s). unat j = i + 1 \<and>
       sealed_sequence_floor (cat_entries s ! i) < q \<and> q \<le> sealed_sequence_cutoff (cat_entries s ! i) \<and>
       of_nat JOURNAL_V1_HEADER_LEN < off \<and> off \<le> sealed_end_offset (cat_entries s ! i)))"
proof
  let ?es = "cat_entries s"
  have chain: "catalog_chain ?es" using catalog_reachable_ok [OF assms] by (simp add: catalog_ok_def)
  have cut: "inv_covered_sequence_cutoff (inventory_from_catalog active s) = covered_cutoff ?es"
    by (simp add: inventory_from_catalog_def covered_cutoff_def)
  have "0 < q \<and> q \<le> covered_cutoff ?es \<longleftrightarrow> (\<exists>i < length ?es. in_range q (?es ! i))"
    using catalog_partition [OF chain, of q] by (simp add: set_conv_nth Bex_def) blast
  also have "\<dots> \<longleftrightarrow> (\<exists>!i. i < length ?es \<and> in_range q (?es ! i))"
    using catalog_disjoint [OF chain, of _ _ q] by blast
  finally show "0 < q \<and> q \<le> inv_covered_sequence_cutoff (inventory_from_catalog active s) \<longleftrightarrow>
      (\<exists>!i. i < length ?es \<and> sealed_sequence_floor (?es ! i) < q \<and> q \<le> sealed_sequence_cutoff (?es ! i))"
    unfolding cut in_range_def .
  have own: "sealed_journal_generation (?es ! i) = j \<longleftrightarrow> unat j = i + 1" if "i < length ?es" for i
    using chain that by (auto simp: catalog_chain.simps word_unat_eq_iff)
  show "covers_commit s j q off \<longleftrightarrow> (\<exists>i < length ?es. unat j = i + 1 \<and>
       sealed_sequence_floor (?es ! i) < q \<and> q \<le> sealed_sequence_cutoff (?es ! i) \<and>
       of_nat JOURNAL_V1_HEADER_LEN < off \<and> off \<le> sealed_end_offset (?es ! i))"
    unfolding covers_commit_def list_ex_length covers_entry_def using own by blast
qed

text \<open>The inventory of every reachable catalog is exact: the sealed byte count is the true sum of the artifact
  lengths (the saturating additions never saturate), at most sixty-four generations are counted, and
  the covered range starts at zero.\<close>
lemma inventory_exact:
  assumes "catalog_reachable store s"
  shows "unat (inv_sealed_bytes (inventory_from_catalog active s)) =
      sum_list (map (\<lambda>e. unat (sealed_artifact_length e)) (cat_entries s)) \<and>
    inv_sealed_count (inventory_from_catalog active s) \<le> 64 \<and>
    inv_covered_sequence_floor (inventory_from_catalog active s) = 0"
proof -
  let ?es = "cat_entries s"
  have c: "catalog_chain ?es" "length ?es \<le> 64"
    using catalog_reachable_ok [OF assms] by (simp_all add: catalog_ok_def MAX_SEALED_GENERATIONS_def)
  have "unat (0::u64) + length ?es * 536870912 < 2 ^ 64" using c(2) by simp
  then have "unat (inv_sealed_bytes (inventory_from_catalog active s)) =
      sum_list (map (\<lambda>e. unat (sealed_artifact_length e)) ?es)"
    using sealed_bytes_exact [OF catalog_chain_ok [OF c(1)], of 0] by (simp add: inventory_from_catalog_def)
  moreover have "inv_covered_sequence_floor (inventory_from_catalog active s) = 0"
    using c(1) by (cases ?es) (auto simp: inventory_from_catalog_def catalog_chain.simps covered_cutoff_def)
  ultimately show ?thesis using c(2) by (simp add: inventory_from_catalog_def)
qed

text \<open>The catalog artifact is canonical: bytes decode in a slot to a snapshot of the expected store exactly when
  that snapshot satisfies the chain invariant, the encoder writes exactly these bytes for it, and its
  reference records the slot and the length and checksum of the bytes.\<close>
theorem catalog_artifact_exact:
  "decode_catalog bs slot store = Inr s \<longleftrightarrow>
   identity_ok store \<and> cat_store_id s = store \<and> catalog_ok s \<and> encode_catalog s = Inr bs \<and>
   (\<exists>g. cat_reference s = Some \<lparr>gcr_slot = slot, gcr_generation = g, gcr_length = of_nat (length bs),
      gcr_checksum = crc32c bs\<rparr>)"
  unfolding decode_catalog_iff catalog_reference_of_def ..

text \<open>Witness: two rotations, which seal the sequences one to five and six to nine.\<close>

definition sample_sealed :: "u64 \<Rightarrow> u64 \<Rightarrow> u64 \<Rightarrow> SealedGeneration" where
  "sample_sealed g lo hi = \<lparr>sealed_journal_generation = g, sealed_sequence_floor = lo, sealed_sequence_cutoff = hi,
     sealed_end_offset = 500, sealed_registry_generation = 1, sealed_artifact_length = 500, sealed_artifact_checksum = 7\<rparr>"

definition sample_catalog_reference :: "u8 \<Rightarrow> u64 \<Rightarrow> GenerationCatalogReference" where
  "sample_catalog_reference slot g = \<lparr>gcr_slot = slot, gcr_generation = g, gcr_length = 132, gcr_checksum = 0\<rparr>"

definition sample_catalog :: GenerationCatalogSnapshot where
  "sample_catalog = \<lparr>cat_store_id = witness_store, cat_reference = Some (sample_catalog_reference 1 2),
     cat_entries = [sample_sealed 1 0 5, sample_sealed 2 5 9]\<rparr>"

lemmas sample_catalog_defs = sample_sealed_def sample_catalog_reference_def sample_catalog_def catalog_advance_def
  entry_refused_def catalog_empty_def checked_add_def MAX_SEALED_GENERATIONS_def MAX_ACTIVE_JOURNAL_BYTES_def
  JOURNAL_V1_HEADER_LEN_def word_le_nat_alt

lemma sample_catalog_reachable: "catalog_reachable witness_store sample_catalog"
proof -
  let ?c = "\<lparr>cat_store_id = witness_store, cat_reference = Some (sample_catalog_reference 0 1), cat_entries = [sample_sealed 1 0 5]\<rparr>"
  have "catalog_advance (sample_catalog_reference 0 1) (sample_sealed 1 0 5) (catalog_empty witness_store) = Inr ?c"
    by (simp add: sample_catalog_defs)
  then have "catalog_reachable witness_store ?c" by (rule catalog_step [OF catalog_start])
  moreover have "catalog_advance (sample_catalog_reference 1 2) (sample_sealed 2 5 9) ?c = Inr sample_catalog"
    by (simp add: sample_catalog_defs)
  ultimately show ?thesis by (rule catalog_step)
qed

theorem catalog_ranges_partition_witness:
  "catalog_reachable witness_store sample_catalog \<and>
   (\<exists>!i. i < length (cat_entries sample_catalog) \<and> sealed_sequence_floor (cat_entries sample_catalog ! i) < 6 \<and>
         6 \<le> sealed_sequence_cutoff (cat_entries sample_catalog ! i))"
proof -
  have "(0::u64) < 6 \<and> 6 \<le> inv_covered_sequence_cutoff (inventory_from_catalog 3 sample_catalog)"
    by (simp add: inventory_from_catalog_def sample_catalog_def sample_sealed_def)
  then show ?thesis
    using catalog_ranges_partition [OF sample_catalog_reachable, of 6 3] sample_catalog_reachable by blast
qed

theorem inventory_exact_witness:
  "catalog_reachable witness_store sample_catalog \<and>
   unat (inv_sealed_bytes (inventory_from_catalog 3 sample_catalog)) = 1000"
  using inventory_exact [OF sample_catalog_reachable, of 3] sample_catalog_reachable
  by (simp add: sample_catalog_def sample_sealed_def)

end
