(* ===== verification/Och_Rotation.thy ===== *)
theory Och_Rotation
  imports Och_Generation
begin

text \<open>
  Journal rotation (\<^verbatim>\<open>och-store/src/generation.rs\<close>): the rotation intent is decoded exactly from its own
  encoding, the streaming checksum is the checksum of the whole stream however it is cut into
  chunks, and a generation is parsed from a file name exactly when the name is the one written for it.
\<close>

section \<open>The rotation intent\<close>

definition intent_ok :: "RotationIntent \<Rightarrow> bool" where
  "intent_ok i \<longleftrightarrow> ri_source_generation i \<noteq> 0 \<and>
     unat (ri_successor_generation i) = unat (ri_source_generation i) + 1 \<and> ri_sequence_cutoff i \<noteq> 0 \<and>
     of_nat JOURNAL_V1_HEADER_LEN < ri_source_end_offset i \<and> ri_registry_generation i \<noteq> 0 \<and>
     ri_catalog_generation i \<noteq> 0 \<and> ri_source_checkpoint_generation i \<noteq> 0"

definition intent_body :: "RotationIntent \<Rightarrow> bytes" where
  "intent_body i = ROTATION_INTENT_MAGIC @ be_encode 2 1 @ be_encode 2 96 @ id_bytes (ri_store_id i)
     @ be_encode 8 (unat (ri_source_generation i)) @ be_encode 8 (unat (ri_successor_generation i))
     @ be_encode 8 (unat (ri_sequence_cutoff i)) @ be_encode 8 (unat (ri_source_end_offset i))
     @ be_encode 8 (unat (ri_registry_generation i)) @ be_encode 8 (unat (ri_catalog_generation i))
     @ be_encode 8 (unat (ri_source_checkpoint_generation i)) @ replicate 8 0"

lemma encode_intent_layout:
  assumes "length (id_bytes (ri_store_id i)) = 16"
  shows "encode_rotation_intent i = seal (intent_body i)"
proof -
  have start: "replicate ROTATION_INTENT_LEN (0::u8) = pad 96 []" by (simp add: pad_def ROTATION_INTENT_LEN_def)
  show ?thesis
    unfolding encode_rotation_intent_def Let_def start
    using assms by (simp add: pad_write pad_slice [where k = 8] pad_skip [where k = 8] pad_full seal_def intent_body_def
        ROTATION_INTENT_MAGIC_def ROTATION_INTENT_VERSION_def ROTATION_INTENT_LEN_U16_def)
qed

lemma length_intent_body: "length (id_bytes (ri_store_id i)) = 16 \<Longrightarrow> length (intent_body i) = 92"
  by (simp add: intent_body_def ROTATION_INTENT_MAGIC_def)

text \<open>The ninety-two bytes before the checksum are the body of an intent exactly when every field reads as it.\<close>

lemma cut_fields:
  "length x = length a \<Longrightarrow> x @ y = a @ b \<longleftrightarrow> x = a \<and> y = b"
  by simp

lemma intent_body_fields:
  assumes "length body = 92" "length (id_bytes (ri_store_id i)) = 16"
  shows "body = intent_body i \<longleftrightarrow>
    slice 0 8 body = ROTATION_INTENT_MAGIC \<and> read_u16 8 body = ROTATION_INTENT_VERSION \<and>
    read_u16 10 body = ROTATION_INTENT_LEN_U16 \<and> slice 12 28 body = id_bytes (ri_store_id i) \<and>
    read_u64 28 body = ri_source_generation i \<and> read_u64 36 body = ri_successor_generation i \<and>
    read_u64 44 body = ri_sequence_cutoff i \<and> read_u64 52 body = ri_source_end_offset i \<and>
    read_u64 60 body = ri_registry_generation i \<and> read_u64 68 body = ri_catalog_generation i \<and>
    read_u64 76 body = ri_source_checkpoint_generation i \<and> \<not> list_ex (\<lambda>b. b \<noteq> 0) (slice 84 92 body)"
proof -
  have zeros: "\<not> list_ex (\<lambda>b. b \<noteq> 0) (slice 84 92 body) \<longleftrightarrow> slice 84 92 body = replicate 8 0"
    using assms(1) by (auto simp: list_ex_iff intro!: replicate_eqI)
  have body: "body = slice 0 8 body @ slice 8 10 body @ slice 10 12 body @ slice 12 28 body @ slice 28 36 body @ slice 36 44 body
     @ slice 44 52 body @ slice 52 60 body @ slice 60 68 body @ slice 68 76 body @ slice 76 84 body @ slice 84 92 body"
    using slice_full [of 92 body] assms(1) by (simp add: slice_join)
  have m: "length ROTATION_INTENT_MAGIC = 8" by (simp add: ROTATION_INTENT_MAGIC_def)
  show ?thesis
    unfolding zeros
    by (subst body)
       (simp add: intent_body_def cut_fields assms m read_fields ROTATION_INTENT_VERSION_def ROTATION_INTENT_LEN_U16_def
         del: append_assoc)
qed


lemma decode_intent_iff:
  "decode_rotation_intent bs store = Inr i \<longleftrightarrow>
   identity_ok store \<and> ri_store_id i = store \<and> intent_ok i \<and> bs = seal (intent_body i)"
proof (cases "length bs = 96")
  case False
  then show ?thesis by (auto simp: decode_rotation_intent_def ROTATION_INTENT_LEN_def identity_ok_def length_intent_body)
next
  case True
  define body where "body = slice 0 92 bs"
  have lb: "length body = 92" using True by (simp add: body_def)
  have bs: "bs = body @ slice 92 96 bs" "length (slice 92 96 bs) = 4"
    using True slice_join [of 0 92 96 bs] slice_full [of 96 bs] by (simp_all add: body_def)
  have sl: "slice a b bs = slice a b body" if "a \<le> b" "b \<le> 92" for a b
    using that lb by (subst bs(1)) (simp add: slice_append_left)
  have rd: "read_u16 8 bs = read_u16 8 body" "read_u16 10 bs = read_u16 10 body" "read_u64 28 bs = read_u64 28 body"
    "read_u64 36 bs = read_u64 36 body" "read_u64 44 bs = read_u64 44 body" "read_u64 52 bs = read_u64 52 body"
    "read_u64 60 bs = read_u64 60 body" "read_u64 68 bs = read_u64 68 body" "read_u64 76 bs = read_u64 76 body"
    by (simp_all add: read_u16_def read_u64_def sl)
  have crc: "crc32c (slice 0 92 bs) = read_u32 92 bs \<longleftrightarrow> bs = seal body"
    using trailer_test [of bs 92] True seal_split [OF bs(2), of body] bs(1) by auto
  have seal: "bs = seal (intent_body i) \<longleftrightarrow> body = intent_body i \<and> bs = seal body"
    using bs seal_split [OF bs(2), of body "intent_body i"] seal_split [OF bs(2), of body body] by auto
  have id: "identity_from_bytes (slice 12 28 body) = Inr store \<longleftrightarrow> id_bytes store = slice 12 28 body \<and> identity_ok store"
    using lb by (simp add: identity_from_bytes_iff)
  have rec: "i = \<lparr>ri_store_id = st, ri_source_generation = a, ri_successor_generation = b, ri_sequence_cutoff = c,
       ri_source_end_offset = d, ri_registry_generation = e, ri_catalog_generation = f,
       ri_source_checkpoint_generation = g\<rparr> \<longleftrightarrow>
     st = ri_store_id i \<and> a = ri_source_generation i \<and> b = ri_successor_generation i \<and> c = ri_sequence_cutoff i \<and>
     d = ri_source_end_offset i \<and> e = ri_registry_generation i \<and> f = ri_catalog_generation i \<and>
     g = ri_source_checkpoint_generation i" for st a b c d e f g
    by (cases i) auto
  have "decode_rotation_intent bs store = Inr i \<longleftrightarrow>
     slice 0 8 body = ROTATION_INTENT_MAGIC \<and> read_u16 8 body = ROTATION_INTENT_VERSION \<and>
     read_u16 10 body = ROTATION_INTENT_LEN_U16 \<and> \<not> list_ex (\<lambda>b. b \<noteq> 0) (slice 84 92 body) \<and> bs = seal body \<and>
     identity_from_bytes (slice 12 28 body) = Inr store \<and> intent_ok i \<and>
     i = \<lparr>ri_store_id = store, ri_source_generation = read_u64 28 body, ri_successor_generation = read_u64 36 body,
       ri_sequence_cutoff = read_u64 44 body, ri_source_end_offset = read_u64 52 body,
       ri_registry_generation = read_u64 60 body, ri_catalog_generation = read_u64 68 body,
       ri_source_checkpoint_generation = read_u64 76 body\<rparr>"
    unfolding decode_rotation_intent_def crc
    by (auto simp: True ROTATION_INTENT_LEN_def sl rd crc Let_def result_convs intent_ok_def checked_succ_iff not_le
        split: if_splits)
  also have "\<dots> \<longleftrightarrow> identity_ok store \<and> ri_store_id i = store \<and> intent_ok i \<and> bs = seal (intent_body i)"
    unfolding seal id rec using intent_body_fields [OF lb, of i] by (auto simp: identity_ok_def)
  finally show ?thesis .
qed

interpretation intent: checksummed "\<lambda>bs. \<exists>i. decode_rotation_intent bs store = Inr i"
  by unfold_locales (auto simp: decode_intent_iff)

section \<open>The streaming checksum\<close>

lemma stream_chunks:
  "stream_state (foldl (\<lambda>s chunk. stream_update chunk s) s chunks) = foldl crc_byte (stream_state s) (concat chunks)"
  by (induction chunks arbitrary: s) (simp_all add: stream_update_def)

section \<open>File names\<close>

lemma strip_prefix_iff: "strip_prefix p s = Some t \<longleftrightarrow> s = p @ t"
  by (auto simp: strip_prefix_def) (metis append_take_drop_id)

lemma strip_suffix_iff: "strip_suffix p s = Some t \<longleftrightarrow> s = t @ p"
  by (auto simp: strip_suffix_def) (metis append_take_drop_id)

lemma digits_value_zeros: "digits_value (replicate k 0x30 @ ds) = digits_value ds"
proof -
  have "foldl (\<lambda>a b. a * 10 + (unat b - 0x30)) 0 (replicate k (0x30::u8)) = 0" by (induction k) simp_all
  then show ?thesis by (simp add: digits_value_def)
qed

lemma format_020_digits:
  "length (format_020 g) = 20 \<and> list_all is_ascii_digit (format_020 g) \<and> digits_value (format_020 g) = unat g"
proof -
  have "unat g < 10 ^ 20" using unat_less_2p [of g] by simp
  then have "length (decimal_digits (unat g)) \<le> 20" by (intro decimal_digits_length) simp_all
  then show ?thesis
    using decimal_digits_digits [of "unat g"]
    by (simp add: format_020_def Let_def digits_value_zeros decimal_digits_value list_all_append)
       (simp add: list_all_iff is_ascii_digit_def)
qed

lemma parse_generation_iff:
  "parse_generation_name name p q m = Some g \<longleftrightarrow> name = p @ format_020 g @ q \<and> m \<le> g"
proof
  assume "parse_generation_name name p q m = Some g"
  then show "name = p @ format_020 g @ q \<and> m \<le> g"
    by (auto simp: parse_generation_name_def bind_eq_Some_conv strip_prefix_iff strip_suffix_iff Let_def split: if_splits)
next
  assume R: "name = p @ format_020 g @ q \<and> m \<le> g"
  then have s: "strip_prefix p name = Some (format_020 g @ q)" "strip_suffix q (format_020 g @ q) = Some (format_020 g)"
    by (simp_all add: strip_prefix_iff strip_suffix_iff)
  have "unat g < 2 ^ 64" using unat_less_2p [of g] by simp
  then show "parse_generation_name name p q m = Some g"
    unfolding parse_generation_name_def s(1) bind.bind_lunit s(2) using R format_020_digits [of g] by (simp add: Let_def)
qed

lemma format_020_inj: "format_020 g = format_020 h \<Longrightarrow> g = h"
  using format_020_digits [of g] format_020_digits [of h] by (simp add: word_unat_eq_iff)


lemmas parse_name_iffs = parse_sealed_generation_name_def parse_active_journal_generation_name_def
  parse_active_checkpoint_generation_name_def parse_generation_iff

lemma name_families_differ:
  "SEALED_PREFIX @ x \<noteq> ACTIVE_PREFIX @ y"
  "length (format_020 g) = length (format_020 h) \<Longrightarrow> format_020 g @ OCH_SUFFIX \<noteq> format_020 h @ CHECKPOINT_SUFFIX"
  by (simp_all add: SEALED_PREFIX_def ACTIVE_PREFIX_def OCH_SUFFIX_def CHECKPOINT_SUFFIX_def lit_def)

section \<open>Properties\<close>

text \<open>The rotation intent is canonical although its decoder does not encode again: bytes decode to an intent of
  the expected store exactly when the intent is valid (successor one above the source without
  wrap-around, every counter nonzero, an end beyond the journal header) and the bytes are what the
  encoder writes for it.\<close>
theorem rotation_intent_exact:
  "decode_rotation_intent bs store = Inr i \<longleftrightarrow>
   identity_ok store \<and> ri_store_id i = store \<and> intent_ok i \<and> bs = encode_rotation_intent i"
  using encode_intent_layout [of i] by (auto simp: decode_intent_iff identity_ok_def)

text \<open>The streaming checksum does not depend on how a file is cut into chunks: feeding any sequence of chunks
  gives the checksum of their concatenation, so a sealed journal read piecewise is compared with the
  same CRC-32C that a whole-buffer reader would compute.\<close>
lemma streaming_checksum_whole:
  "stream_finish (foldl (\<lambda>s chunk. stream_update chunk s) stream_new chunks) = crc32c (concat chunks)"
  by (simp add: stream_finish_def stream_chunks stream_new_def crc32c_def)

text \<open>File names of generations are canonical and never confused: a sealed journal's name parses to a generation
  exactly when it is the name written for that nonzero generation, distinct generations have distinct
  names, and no name belongs to two of the three families of sealed journals, active journals and
  active checkpoints.\<close>
lemma generation_names_exact:
  "(parse_sealed_generation_name name = Some g \<longleftrightarrow> name = sealed_journal_file_name g \<and> 1 \<le> g) \<and>
   (sealed_journal_file_name g = sealed_journal_file_name h \<longleftrightarrow> g = h) \<and>
   \<not> (parse_sealed_generation_name name \<noteq> None \<and> parse_active_journal_generation_name name \<noteq> None) \<and>
   \<not> (parse_sealed_generation_name name \<noteq> None \<and> parse_active_checkpoint_generation_name name \<noteq> None) \<and>
   \<not> (parse_active_journal_generation_name name \<noteq> None \<and> parse_active_checkpoint_generation_name name \<noteq> None)"
proof -
  have "sealed_journal_file_name g = sealed_journal_file_name h \<longleftrightarrow> g = h"
    using format_020_inj [of g h] by (auto simp: sealed_journal_file_name_def)
  moreover have "\<not> (name = SEALED_PREFIX @ x \<and> name = ACTIVE_PREFIX @ y)" for x y
    using name_families_differ(1) [of x y] by auto
  moreover have "\<not> (name = ACTIVE_PREFIX @ format_020 a @ OCH_SUFFIX \<and> name = ACTIVE_PREFIX @ format_020 b @ CHECKPOINT_SUFFIX)"
    for a b
    using format_020_digits [of a] format_020_digits [of b] name_families_differ(2) [of a b] by auto
  ultimately show ?thesis
    unfolding not_None_eq parse_name_iffs sealed_journal_file_name_def by blast
qed

end
