(* ===== verification/Och_Retry_State.thy ===== *)
theory Och_Retry_State
  imports Och_Generation
begin

text \<open>
  The durable retry projection (\<^verbatim>\<open>och-store/src/retry.rs\<close>): a bounded replay tier and a bounded guard tier
  of retry outcomes, its validation, its transition when a batch is committed, and its artifact.  The
  manifest commit that a transition is made under is the struct of \<^verbatim>\<open>manifest.rs\<close>.
\<close>

section \<open>Data\<close>

definition MAX_PERSISTED_RETRY_ENTRIES :: nat where "MAX_PERSISTED_RETRY_ENTRIES = 4096"
definition MAX_RETRY_STATE_BYTES :: nat where "MAX_RETRY_STATE_BYTES = 2 * 1024 * 1024"
definition RETRY_MAGIC :: bytes where "RETRY_MAGIC = [0x4F, 0x43, 0x48, 0x52, 0x45, 0x54, 0x30, 0x31]"
definition RETRY_VERSION :: u16 where "RETRY_VERSION = 1"
definition RETRY_HEADER_LEN :: nat where "RETRY_HEADER_LEN = 64"
definition RETRY_HEADER_LEN_U16 :: u16 where "RETRY_HEADER_LEN_U16 = 64"
definition RETRY_CRC_LEN :: nat where "RETRY_CRC_LEN = 4"
definition ACTIVE_JOURNAL_GENERATION :: u64 where "ACTIVE_JOURNAL_GENERATION = 1"

datatype RetryOptionsError = RetryOptionsError

record RetryPersistenceOptions =
  replay_capacity :: nat
  guard_capacity :: nat

definition retry_options_new :: "nat \<Rightarrow> nat \<Rightarrow> (RetryOptionsError, RetryPersistenceOptions) result" where
  "retry_options_new replays guards =
     (if replays = 0 \<or> guards = 0 \<or> replays > MAX_PERSISTED_RETRY_ENTRIES
         \<or> guards > MAX_PERSISTED_RETRY_ENTRIES - replays
      then Inl RetryOptionsError
      else Inr \<lparr>replay_capacity = replays, guard_capacity = guards\<rparr>)"

definition retry_options_default :: RetryPersistenceOptions where
  "retry_options_default = \<lparr>replay_capacity = 256, guard_capacity = 256\<rparr>"

record RetryStateReference =
  rsr_slot :: u8
  rsr_generation :: u64

record ManifestCommit =
  mc_manifest_generation :: u64
  mc_registry_generation :: u64
  mc_registry_slot :: u8
  mc_durable_cutoff :: DurableCutoff
  mc_retry_state :: RetryStateReference
  mc_sequence_floor :: u64
  mc_catalog :: "GenerationCatalogReference option"

record PendingRetryOutcome =
  pro_qualification :: RetryQualification
  pro_append_sequence :: u64
  pro_end_offset :: u64

record RetryReplayOutcome =
  rro_qualification :: RetryQualification
  rro_append_sequence :: u64
  rro_end_offset :: u64
  rro_committed :: ManifestCommit

record RetryGuardEntry =
  rge_qualification :: RetryQualification
  rge_append_sequence :: u64

datatype RetryStateMatch = MatchReplay RetryReplayOutcome | MatchExpired | MatchConflict | MatchFresh

record RetryStateSnapshot =
  rss_store_id :: StoreId
  rss_options :: RetryPersistenceOptions
  rss_reference :: "RetryStateReference option"
  rss_replay :: "RetryReplayOutcome list"
  rss_guard :: "RetryGuardEntry list"

datatype RetryStateCodecError = RetryInvalid | RetryStoreMismatch | RetryOptionsMismatch

record RetryArtifactReference =
  rar_public :: RetryStateReference
  rar_length :: u64
  rar_checksum :: u32

abbreviation "commit_journal_generation c \<equiv> ji_generation (cut_journal (mc_durable_cutoff c))"
abbreviation "commit_store c \<equiv> ji_store_id (cut_journal (mc_durable_cutoff c))"

section \<open>Empty snapshots and classification\<close>

definition retry_empty :: "StoreId \<Rightarrow> RetryPersistenceOptions \<Rightarrow> RetryStateSnapshot" where
  "retry_empty store_id options = \<lparr>rss_store_id = store_id, rss_options = options, rss_reference = None,
     rss_replay = [], rss_guard = []\<rparr>"

definition retry_empty_persisted ::
  "StoreId \<Rightarrow> RetryPersistenceOptions \<Rightarrow> RetryStateReference \<Rightarrow> RetryStateSnapshot" where
  "retry_empty_persisted store_id options reference = \<lparr>rss_store_id = store_id, rss_options = options,
     rss_reference = Some reference, rss_replay = [], rss_guard = []\<rparr>"

fun classify_guards :: "RetryQualification \<Rightarrow> RetryGuardEntry list \<Rightarrow> RetryStateMatch" where
  "classify_guards q [] = MatchFresh"
| "classify_guards q (g # gs) = (case retry_classify (rge_qualification g) q of
     Equivalent \<Rightarrow> MatchExpired | Conflict \<Rightarrow> MatchConflict | Distinct \<Rightarrow> classify_guards q gs)"

fun classify_replays :: "RetryQualification \<Rightarrow> RetryReplayOutcome list \<Rightarrow> RetryStateMatch \<Rightarrow> RetryStateMatch" where
  "classify_replays q [] rest = rest"
| "classify_replays q (r # rs) rest = (case retry_classify (rro_qualification r) q of
     Equivalent \<Rightarrow> MatchReplay r | Conflict \<Rightarrow> MatchConflict | Distinct \<Rightarrow> classify_replays q rs rest)"

definition state_classify :: "RetryStateSnapshot \<Rightarrow> RetryQualification \<Rightarrow> RetryStateMatch" where
  "state_classify self q = classify_replays q (rss_replay self) (classify_guards q (rss_guard self))"

section \<open>Validation of a snapshot\<close>

text \<open>The two loops of \<open>validate_state\<close> over guards and outcomes; the second carries the eight
  \<open>previous\<close> variables of the source.\<close>

fun check_guards :: "u64 \<Rightarrow> RetryGuardEntry list \<Rightarrow> (RetryStateCodecError, u64) result" where
  "check_guards previous [] = Inr previous"
| "check_guards previous (g # gs) =
     (if rge_append_sequence g = 0 \<or> rge_append_sequence g \<le> previous then Inl RetryInvalid
      else check_guards (rge_append_sequence g) gs)"

record ReplayScan =
  sc_previous :: u64
  sc_end :: u64
  sc_journal :: u64
  sc_manifest :: u64
  sc_registry :: u64
  sc_checkpoint :: u64
  sc_cutoff_sequence :: u64
  sc_retry_generation :: u64

definition outcome_refused :: "RetryReplayOutcome \<Rightarrow> u64 \<Rightarrow> bool" where
  "outcome_refused o' previous \<longleftrightarrow>
     rro_append_sequence o' = 0
     \<or> rro_append_sequence o' \<le> previous
     \<or> rro_end_offset o' = 0
     \<or> mc_manifest_generation (rro_committed o') = 0
     \<or> mc_registry_generation (rro_committed o') = 0
     \<or> mc_registry_slot (rro_committed o') \<ge> 3"

definition outcome_commit_refused ::
  "StoreId \<Rightarrow> RetryStateReference option \<Rightarrow> ReplayScan \<Rightarrow> RetryReplayOutcome \<Rightarrow> bool" where
  "outcome_commit_refused store_id current sc o' \<longleftrightarrow>
     (let committed = rro_committed o'; cutoff = mc_durable_cutoff committed; retry = mc_retry_state committed;
          journal = ji_generation (cut_journal cutoff) in
      ji_store_id (cut_journal cutoff) \<noteq> store_id
      \<or> journal = 0
      \<or> cut_checkpoint_generation cutoff = 0
      \<or> cut_append_sequence cutoff = 0
      \<or> cut_end_offset cutoff = 0
      \<or> rro_append_sequence o' > cut_append_sequence cutoff
      \<or> rro_end_offset o' > cut_end_offset cutoff
      \<or> (rro_append_sequence o' = cut_append_sequence cutoff \<and> rro_end_offset o' \<noteq> cut_end_offset cutoff)
      \<or> (rro_append_sequence o' < cut_append_sequence cutoff \<and> rro_end_offset o' \<ge> cut_end_offset cutoff)
      \<or> rsr_slot retry \<ge> 3
      \<or> rsr_generation retry = 0
      \<or> mc_manifest_generation committed < mc_registry_generation committed
      \<or> mc_manifest_generation committed < rsr_generation retry
      \<or> (journal = sc_journal sc \<and> rro_end_offset o' \<le> sc_end sc)
      \<or> journal < sc_journal sc
      \<or> mc_manifest_generation committed < sc_manifest sc
      \<or> mc_registry_generation committed < sc_registry sc
      \<or> (journal = sc_journal sc \<and> cut_checkpoint_generation cutoff < sc_checkpoint sc)
      \<or> cut_append_sequence cutoff < sc_cutoff_sequence sc
      \<or> rsr_generation retry < sc_retry_generation sc
      \<or> is_some_and (\<lambda>c. rsr_generation retry > rsr_generation c) current)"

definition outcome_generation_refused :: "RetryReplayOutcome \<Rightarrow> bool" where
  "outcome_generation_refused o' \<longleftrightarrow>
     (let committed = rro_committed o'; cutoff = mc_durable_cutoff committed in
      if ji_generation (cut_journal cutoff) = ACTIVE_JOURNAL_GENERATION
      then mc_sequence_floor committed \<noteq> 0 \<or> mc_catalog committed \<noteq> None
      else mc_sequence_floor committed = 0 \<or> mc_catalog committed = None
         \<or> cut_append_sequence cutoff < mc_sequence_floor committed)"

fun check_replays ::
  "StoreId \<Rightarrow> RetryStateReference option \<Rightarrow> ReplayScan \<Rightarrow> RetryReplayOutcome list \<Rightarrow>
   (RetryStateCodecError, unit) result" where
  "check_replays store_id current sc [] = Inr ()"
| "check_replays store_id current sc (o' # os) =
     (if outcome_refused o' (sc_previous sc) then Inl RetryInvalid
      else if outcome_commit_refused store_id current sc o' then Inl RetryInvalid
      else if outcome_generation_refused o' then Inl RetryInvalid
      else check_replays store_id current
        \<lparr>sc_previous = rro_append_sequence o', sc_end = rro_end_offset o',
         sc_journal = commit_journal_generation (rro_committed o'),
         sc_manifest = mc_manifest_generation (rro_committed o'),
         sc_registry = mc_registry_generation (rro_committed o'),
         sc_checkpoint = cut_checkpoint_generation (mc_durable_cutoff (rro_committed o')),
         sc_cutoff_sequence = cut_append_sequence (mc_durable_cutoff (rro_committed o')),
         sc_retry_generation = rsr_generation (mc_retry_state (rro_committed o'))\<rparr> os)"

fun check_distinct ::
  "RetryQualification list \<Rightarrow> RetryQualification list \<Rightarrow> (RetryStateCodecError, unit) result" where
  "check_distinct retained [] = Inr ()"
| "check_distinct retained (q # qs) =
     (if list_ex (\<lambda>prior. retry_classify prior q \<noteq> Distinct) retained then Inl RetryInvalid
      else check_distinct (retained @ [q]) qs)"

definition validate_state :: "RetryStateSnapshot \<Rightarrow> (RetryStateCodecError, unit) result" where
  "validate_state snapshot =
     (if length (rss_replay snapshot) > replay_capacity (rss_options snapshot)
         \<or> length (rss_guard snapshot) > guard_capacity (rss_options snapshot)
         \<or> usize_saturating_add (length (rss_replay snapshot)) (length (rss_guard snapshot)) > MAX_PERSISTED_RETRY_ENTRIES
         \<or> is_some_and (\<lambda>r. rsr_slot r \<ge> 3 \<or> rsr_generation r = 0) (rss_reference snapshot)
      then Inl RetryInvalid
      else and_then (check_guards 0 (rss_guard snapshot)) (\<lambda>previous.
        and_then (check_replays (rss_store_id snapshot) (rss_reference snapshot)
          \<lparr>sc_previous = previous, sc_end = 0, sc_journal = 0, sc_manifest = 0, sc_registry = 0, sc_checkpoint = 0,
           sc_cutoff_sequence = 0, sc_retry_generation = 0\<rparr> (rss_replay snapshot)) (\<lambda>_.
        check_distinct [] (map rro_qualification (rss_replay snapshot) @ map rge_qualification (rss_guard snapshot)))))"

section \<open>Validation against a root\<close>

definition validate_commit_progression :: "ManifestCommit \<Rightarrow> ManifestCommit \<Rightarrow> (RetryStateCodecError, unit) result" where
  "validate_commit_progression prior current =
     (let prior_reference = mc_retry_state prior; current_reference = mc_retry_state current in
      if rsr_generation current_reference = rsr_generation prior_reference
      then (if current = prior then Inr () else Inl RetryInvalid)
      else
        let prior_cutoff = mc_durable_cutoff prior; current_cutoff = mc_durable_cutoff current;
            crosses_generation = ji_generation (cut_journal current_cutoff) \<noteq> ji_generation (cut_journal prior_cutoff) in
        if checked_add (rsr_generation prior_reference) 1 \<noteq> Some (rsr_generation current_reference)
           \<or> rsr_slot current_reference = rsr_slot prior_reference
           \<or> mc_manifest_generation current \<le> mc_manifest_generation prior
           \<or> cut_append_sequence current_cutoff \<le> cut_append_sequence prior_cutoff
           \<or> (\<not> crosses_generation
              \<and> (checked_add (cut_checkpoint_generation prior_cutoff) 1 \<noteq> Some (cut_checkpoint_generation current_cutoff)
                 \<or> cut_end_offset current_cutoff \<le> cut_end_offset prior_cutoff))
           \<or> (crosses_generation
              \<and> (checked_add (ji_generation (cut_journal prior_cutoff)) 1 \<noteq> Some (ji_generation (cut_journal current_cutoff))
                 \<or> mc_sequence_floor current \<noteq> cut_append_sequence prior_cutoff
                 \<or> mc_catalog current = None))
           \<or> mc_registry_generation current < mc_registry_generation prior
           \<or> (mc_registry_generation current = mc_registry_generation prior
              \<and> mc_registry_slot current \<noteq> mc_registry_slot prior)
        then Inl RetryInvalid else Inr ())"

fun check_chronology :: "u64 \<Rightarrow> u64 \<Rightarrow> u64 list \<Rightarrow> (RetryStateCodecError, unit) result" where
  "check_chronology cutoff previous_sequence [] = Inr ()"
| "check_chronology cutoff previous_sequence (q # qs) =
     (if checked_add previous_sequence 1 \<noteq> Some q \<or> q > cutoff then Inl RetryInvalid
      else check_chronology cutoff q qs)"

definition root_commit_refused ::
  "ManifestCommit \<Rightarrow> GenerationCatalogSnapshot option \<Rightarrow> RetryReplayOutcome \<Rightarrow> bool" where
  "root_commit_refused root catalog o' \<longleftrightarrow>
     (let commit = rro_committed o'; cutoff = mc_durable_cutoff commit; reference = mc_retry_state commit;
          root_cutoff = mc_durable_cutoff root;
          journal = ji_generation (cut_journal cutoff); root_journal = ji_generation (cut_journal root_cutoff) in
      mc_manifest_generation commit > mc_manifest_generation root
      \<or> mc_registry_generation commit > mc_registry_generation root
      \<or> (mc_registry_generation commit = mc_registry_generation root \<and> mc_registry_slot commit \<noteq> mc_registry_slot root)
      \<or> ji_store_id (cut_journal cutoff) \<noteq> ji_store_id (cut_journal root_cutoff)
      \<or> journal > root_journal
      \<or> (journal = root_journal \<and> cut_checkpoint_generation cutoff > cut_checkpoint_generation root_cutoff)
      \<or> cut_append_sequence cutoff > cut_append_sequence root_cutoff
      \<or> (journal = root_journal \<and> cut_end_offset cutoff > cut_end_offset root_cutoff)
      \<or> (journal < root_journal
         \<and> (case catalog of None \<Rightarrow> mc_catalog root = None
            | Some c \<Rightarrow> \<not> covers_commit c journal (rro_append_sequence o') (rro_end_offset o')))
      \<or> rsr_generation reference > rsr_generation (mc_retry_state root)
      \<or> (mc_manifest_generation commit = mc_manifest_generation root \<and> commit \<noteq> root))"

fun check_commits ::
  "ManifestCommit \<Rightarrow> GenerationCatalogSnapshot option \<Rightarrow> ManifestCommit option \<Rightarrow> RetryReplayOutcome list \<Rightarrow>
   (RetryStateCodecError, unit) result" where
  "check_commits root catalog prior_commit [] = Inr ()"
| "check_commits root catalog prior_commit (o' # os) =
     (let commit = rro_committed o'; cutoff = mc_durable_cutoff commit in
      if root_commit_refused root catalog o' then Inl RetryInvalid
      else and_then (case prior_commit of None \<Rightarrow> Inr () | Some prior \<Rightarrow> validate_commit_progression prior commit) (\<lambda>_.
        let group_ends = (case os of [] \<Rightarrow> True | next # _ \<Rightarrow> mc_retry_state (rro_committed next) \<noteq> mc_retry_state commit) in
        if group_ends \<and> (rro_append_sequence o' \<noteq> cut_append_sequence cutoff \<or> rro_end_offset o' \<noteq> cut_end_offset cutoff)
        then Inl RetryInvalid
        else check_commits root catalog (Some commit) os))"

definition root_shape_refused ::
  "RetryStateSnapshot \<Rightarrow> ManifestCommit \<Rightarrow> GenerationCatalogSnapshot option \<Rightarrow> bool" where
  "root_shape_refused snapshot root catalog \<longleftrightarrow>
     (let root_cutoff = mc_durable_cutoff root; root_journal = ji_generation (cut_journal root_cutoff) in
      rss_reference snapshot \<noteq> Some (mc_retry_state root)
      \<or> rss_store_id snapshot \<noteq> ji_store_id (cut_journal root_cutoff)
      \<or> (root_journal = ACTIVE_JOURNAL_GENERATION \<and> (mc_sequence_floor root \<noteq> 0 \<or> mc_catalog root \<noteq> None))
      \<or> (root_journal > ACTIVE_JOURNAL_GENERATION
         \<and> (mc_sequence_floor root = 0 \<or> mc_catalog root = None
            \<or> cut_append_sequence root_cutoff < mc_sequence_floor root))
      \<or> is_some_and (\<lambda>c. cat_reference c \<noteq> mc_catalog root) catalog)"

definition newest_covered ::
  "ManifestCommit \<Rightarrow> GenerationCatalogSnapshot option \<Rightarrow> RetryReplayOutcome \<Rightarrow> bool" where
  "newest_covered root catalog newest \<longleftrightarrow>
     (let root_cutoff = mc_durable_cutoff root; root_journal = ji_generation (cut_journal root_cutoff);
          newest_generation = commit_journal_generation (rro_committed newest) in
      if newest_generation = root_journal then rro_end_offset newest = cut_end_offset root_cutoff
      else cut_append_sequence root_cutoff = mc_sequence_floor root
         \<and> newest_generation < root_journal
         \<and> (case catalog of None \<Rightarrow> mc_catalog root \<noteq> None
            | Some c \<Rightarrow> covers_commit c newest_generation (rro_append_sequence newest) (rro_end_offset newest)))"

definition validate_root ::
  "RetryStateSnapshot \<Rightarrow> ManifestCommit \<Rightarrow> GenerationCatalogSnapshot option \<Rightarrow> (RetryStateCodecError, unit) result" where
  "validate_root snapshot root catalog =
     and_then (validate_state snapshot) (\<lambda>_.
     if root_shape_refused snapshot root catalog then Inl RetryInvalid
     else if rss_replay snapshot = []
     then (if rss_guard snapshot = [] \<and> rsr_generation (mc_retry_state root) = 1 then Inr () else Inl RetryInvalid)
     else
       let newest = last (rss_replay snapshot); root_cutoff = mc_durable_cutoff root in
       if (rss_guard snapshot \<noteq> [] \<and> length (rss_replay snapshot) \<noteq> replay_capacity (rss_options snapshot))
          \<or> rro_append_sequence newest \<noteq> cut_append_sequence root_cutoff
          \<or> \<not> newest_covered root catalog newest
          \<or> mc_retry_state (rro_committed newest) \<noteq> mc_retry_state root
       then Inl RetryInvalid
       else
         and_then (case map rge_append_sequence (rss_guard snapshot) @ map rro_append_sequence (rss_replay snapshot) of
             [] \<Rightarrow> Inl RetryInvalid
           | q # qs \<Rightarrow> if q > cut_append_sequence root_cutoff then Inl RetryInvalid
               else check_chronology (cut_append_sequence root_cutoff) q qs) (\<lambda>_.
         check_commits root catalog None (rss_replay snapshot)))"

definition validates_root_with_catalog :: "RetryStateSnapshot \<Rightarrow> ManifestCommit \<Rightarrow> GenerationCatalogSnapshot \<Rightarrow> bool" where
  "validates_root_with_catalog self root catalog = is_ok (validate_root self root (Some catalog))"

section \<open>The transition\<close>

definition validate_transition_preflight ::
  "RetryStateSnapshot \<Rightarrow> RetryStateReference \<Rightarrow> PendingRetryOutcome list \<Rightarrow> ManifestCommit \<Rightarrow>
   (RetryStateCodecError, unit) result" where
  "validate_transition_preflight snapshot reference pending committed =
     (let cutoff = mc_durable_cutoff committed in
      and_then (if length pending < 2 ^ 64 then Inr (of_nat (length pending) :: u64) else Inl RetryInvalid) (\<lambda>pending_len.
      and_then (ok_or RetryInvalid (if pending = [] then None else Some (hd pending))) (\<lambda>first.
      and_then (ok_or RetryInvalid (if pending = [] then None else Some (last pending))) (\<lambda>last'.
      and_then (ok_or RetryInvalid (checked_sub pending_len 1)) (\<lambda>back.
      and_then (ok_or RetryInvalid (checked_sub (cut_append_sequence cutoff) back)) (\<lambda>expected_first.
      if mc_retry_state committed \<noteq> reference
         \<or> length pending > MAX_PERSISTED_RETRY_ENTRIES
         \<or> ji_store_id (cut_journal cutoff) \<noteq> rss_store_id snapshot
         \<or> pro_append_sequence first \<noteq> expected_first
         \<or> pro_append_sequence last' \<noteq> cut_append_sequence cutoff
         \<or> pro_end_offset last' \<noteq> cut_end_offset cutoff
      then Inl RetryInvalid
      else if rss_replay snapshot \<noteq> []
         \<and> checked_sub (cut_append_sequence cutoff)
             (cut_append_sequence (mc_durable_cutoff (rro_committed (last (rss_replay snapshot))))) \<noteq> Some pending_len
      then Inl RetryInvalid
      else Inr ()))))))"

definition entry_conflicts :: "RetryStateSnapshot \<Rightarrow> RetryReplayOutcome list \<Rightarrow> RetryGuardEntry list \<Rightarrow> u64 \<Rightarrow>
   PendingRetryOutcome \<Rightarrow> bool" where
  "entry_conflicts self replay guard previous entry \<longleftrightarrow>
     pro_append_sequence entry = 0
     \<or> pro_append_sequence entry \<le> previous
     \<or> pro_end_offset entry = 0
     \<or> state_classify self (pro_qualification entry) \<noteq> MatchFresh
     \<or> list_ex (\<lambda>r. retry_classify (rro_qualification r) (pro_qualification entry) \<noteq> Distinct) replay
     \<or> list_ex (\<lambda>g. retry_classify (rge_qualification g) (pro_qualification entry) \<noteq> Distinct) guard"

definition replay_of :: "ManifestCommit \<Rightarrow> PendingRetryOutcome \<Rightarrow> RetryReplayOutcome" where
  "replay_of committed entry = \<lparr>rro_qualification = pro_qualification entry,
     rro_append_sequence = pro_append_sequence entry, rro_end_offset = pro_end_offset entry, rro_committed = committed\<rparr>"

definition guard_of :: "RetryReplayOutcome \<Rightarrow> RetryGuardEntry" where
  "guard_of promoted = \<lparr>rge_qualification = rro_qualification promoted, rge_append_sequence = rro_append_sequence promoted\<rparr>"

fun advance_loop ::
  "RetryStateSnapshot \<Rightarrow> ManifestCommit \<Rightarrow> u64 \<Rightarrow> RetryReplayOutcome list \<Rightarrow> RetryGuardEntry list \<Rightarrow>
   PendingRetryOutcome list \<Rightarrow> (RetryStateCodecError, RetryReplayOutcome list \<times> RetryGuardEntry list) result" where
  "advance_loop self committed previous replay guard [] = Inr (replay, guard)"
| "advance_loop self committed previous replay guard (entry # pending) =
     (if entry_conflicts self replay guard previous entry then Inl RetryInvalid
      else
        let pushed = replay @ [replay_of committed entry] in
        if length pushed > replay_capacity (rss_options self)
        then
          let guarded = guard @ [guard_of (hd pushed)] in
          advance_loop self committed (pro_append_sequence entry) (tl pushed)
            (if length guarded > guard_capacity (rss_options self) then tl guarded else guarded) pending
        else advance_loop self committed (pro_append_sequence entry) pushed guard pending)"

definition state_advance ::
  "RetryStateSnapshot \<Rightarrow> RetryStateReference \<Rightarrow> PendingRetryOutcome list \<Rightarrow> ManifestCommit \<Rightarrow>
   (RetryStateCodecError, RetryStateSnapshot) result" where
  "state_advance self reference pending committed =
     and_then (validate_transition_preflight self reference pending committed) (\<lambda>_.
     let previous = (if rss_replay self \<noteq> [] then rro_append_sequence (last (rss_replay self))
           else if rss_guard self \<noteq> [] then rge_append_sequence (last (rss_guard self)) else 0) in
     and_then (advance_loop self committed previous (rss_replay self) (rss_guard self) pending) (\<lambda>(replay, guard).
     let candidate = \<lparr>rss_store_id = rss_store_id self, rss_options = rss_options self,
           rss_reference = Some reference, rss_replay = replay, rss_guard = guard\<rparr> in
     and_then (validate_state candidate) (\<lambda>_.
     and_then (validate_root candidate committed None) (\<lambda>_. Inr candidate))))"

definition verifies_transition ::
  "RetryStateSnapshot \<Rightarrow> RetryStateSnapshot \<Rightarrow> PendingRetryOutcome list \<Rightarrow> ManifestCommit \<Rightarrow> bool" where
  "verifies_transition self candidate pending committed =
     (case rss_reference candidate of None \<Rightarrow> False
      | Some reference \<Rightarrow> (case state_advance self reference pending committed of
          Inl _ \<Rightarrow> False | Inr expected \<Rightarrow> expected = candidate))"

end
