(* ===== verification/Och_Retry_Codec.thy ===== *)
theory Och_Retry_Codec
  imports Och_Retry_State
begin

text \<open>
  The Retry State V1 artifact (\<^verbatim>\<open>och-store/src/retry.rs\<close>, \<open>encode_retry_state\<close>, \<open>encode_payload\<close> and
  \<open>decode_retry_state_at_slot\<close>).  Every valid snapshot has an artifact within two mebibytes, and the
  decoder accepts exactly these artifacts.
\<close>

section \<open>Encoding\<close>

definition invalid_journal :: "JournalV1Error \<Rightarrow> RetryStateCodecError" where
  "invalid_journal e = RetryInvalid"

definition encode_catalog_field :: "GenerationCatalogReference option \<Rightarrow> enc_step" where
  "encode_catalog_field c = (case c of
     Some catalog \<Rightarrow> enc_seq [enc_ok (enc_u8 1), enc_ok (enc_u8 (gcr_slot catalog)), enc_ok (enc_bytes (replicate 6 0)),
       enc_ok (enc_u64 (gcr_generation catalog)), enc_ok (enc_u64 (gcr_length catalog)),
       enc_ok (enc_u32 (gcr_checksum catalog)), enc_ok (enc_bytes (replicate 12 0))]
   | None \<Rightarrow> enc_ok (enc_bytes (replicate 40 0)))"

definition encode_replay_outcome :: "RetryReplayOutcome \<Rightarrow> enc_step" where
  "encode_replay_outcome o' =
     (let commit = rro_committed o'; cutoff = mc_durable_cutoff commit; retry = mc_retry_state commit in
      enc_seq [encode_retry (rro_qualification o'), enc_ok (enc_u64 (rro_append_sequence o')),
        enc_ok (enc_u64 (rro_end_offset o')), enc_ok (enc_u64 (mc_manifest_generation commit)),
        enc_ok (enc_u8 (mc_registry_slot commit)), enc_ok (enc_bytes (replicate 7 0)),
        enc_ok (enc_u64 (mc_registry_generation commit)), enc_ok (enc_u64 (ji_generation (cut_journal cutoff))),
        enc_ok (enc_u64 (cut_checkpoint_generation cutoff)), enc_ok (enc_u64 (cut_append_sequence cutoff)),
        enc_ok (enc_u64 (cut_end_offset cutoff)), enc_ok (enc_u8 (rsr_slot retry)), enc_ok (enc_bytes (replicate 7 0)),
        enc_ok (enc_u64 (rsr_generation retry)), enc_ok (enc_u64 (mc_sequence_floor commit)),
        encode_catalog_field (mc_catalog commit)])"

definition encode_guard_entry :: "RetryGuardEntry \<Rightarrow> enc_step" where
  "encode_guard_entry g = enc_seq [encode_retry (rge_qualification g), enc_ok (enc_u64 (rge_append_sequence g))]"

text \<open>Only \<open>encode_retry\<close> can fail, and always under \<open>map_err(invalid_journal)\<close>.\<close>

definition encode_retry_payload :: "RetryStateSnapshot \<Rightarrow> Encoder \<Rightarrow> (RetryStateCodecError, Encoder) result" where
  "encode_retry_payload snapshot encoder = map_err invalid_journal
     (enc_seq [enc_each encode_replay_outcome (rss_replay snapshot), enc_each encode_guard_entry (rss_guard snapshot)] encoder)"

definition u32_try_from :: "nat \<Rightarrow> (RetryStateCodecError, u32) result" where
  "u32_try_from n = (if n < 2 ^ 32 then Inr (of_nat n) else Inl RetryInvalid)"

definition u64_try_from :: "nat \<Rightarrow> (RetryStateCodecError, u64) result" where
  "u64_try_from n = (if n < 2 ^ 64 then Inr (of_nat n) else Inl RetryInvalid)"

definition encode_retry_state_with_limit ::
  "RetryStateSnapshot \<Rightarrow> nat \<Rightarrow> (RetryStateCodecError, bytes) result" where
  "encode_retry_state_with_limit snapshot maximum =
     and_then (validate_state snapshot) (\<lambda>_.
     and_then (ok_or RetryInvalid (rss_reference snapshot)) (\<lambda>reference.
     and_then (encode_retry_payload snapshot encoder_counting) (\<lambda>counter.
     let payload_len = encoder_len counter in
     and_then (ok_or RetryInvalid (Option.bind (usize_checked_add RETRY_HEADER_LEN payload_len)
        (\<lambda>n. usize_checked_add n RETRY_CRC_LEN))) (\<lambda>total.
     if total > maximum \<or> total > MAX_RETRY_STATE_BYTES then Inl RetryInvalid
     else and_then (encode_retry_payload snapshot encoder_new) (\<lambda>encoder.
       let payload = encoder_finish encoder in
       if length payload \<noteq> payload_len then Inl RetryInvalid
       else
         and_then (u32_try_from (replay_capacity (rss_options snapshot))) (\<lambda>replays.
         and_then (u32_try_from (guard_capacity (rss_options snapshot))) (\<lambda>guards.
         and_then (u32_try_from (length (rss_replay snapshot))) (\<lambda>replay_count.
         and_then (u32_try_from (length (rss_guard snapshot))) (\<lambda>guard_count.
         and_then (u64_try_from payload_len) (\<lambda>payload_size.
         let b0 = replicate total (0::u8);
             b1 = write_at 0 RETRY_MAGIC b0;
             b2 = write_at 8 (be_encode 2 (unat RETRY_VERSION)) b1;
             b3 = write_at 10 (be_encode 2 (unat RETRY_HEADER_LEN_U16)) b2;
             b4 = write_at 12 (id_bytes (rss_store_id snapshot)) b3;
             b5 = write_at 28 (be_encode 8 (unat (rsr_generation reference))) b4;
             b6 = write_at 36 (be_encode 4 (unat replays)) b5;
             b7 = write_at 40 (be_encode 4 (unat guards)) b6;
             b8 = write_at 44 (be_encode 4 (unat replay_count)) b7;
             b9 = write_at 48 (be_encode 4 (unat guard_count)) b8;
             b10 = write_at 52 (be_encode 8 (unat payload_size)) b9;
             b11 = write_at RETRY_HEADER_LEN payload b10;
             checksum_offset = total - RETRY_CRC_LEN;
             checksum = crc32c (slice 0 checksum_offset b11)
         in Inr (write_at checksum_offset (be_encode 4 (unat checksum)) b11))))))))))) "

definition encode_retry_state :: "RetryStateSnapshot \<Rightarrow> (RetryStateCodecError, bytes) result" where
  "encode_retry_state snapshot = encode_retry_state_with_limit snapshot MAX_RETRY_STATE_BYTES"

section \<open>Decoding\<close>

type_synonym 'a retry_decoder = "(RetryStateCodecError, 'a) decoder_with"

abbreviation retry_read :: "'a decoder \<Rightarrow> 'a retry_decoder" where
  "retry_read \<equiv> cur_err invalid_journal"

definition cur_reserved :: "nat \<Rightarrow> unit retry_decoder" where
  "cur_reserved n = cur_bind (retry_read (cur_take n)) (\<lambda>bs.
     if list_ex (\<lambda>b. b \<noteq> 0) bs then cur_fail RetryInvalid else cur_return ())"

definition decode_catalog_field :: "GenerationCatalogReference option retry_decoder" where
  "decode_catalog_field =
     cur_bind (retry_read cur_u8) (\<lambda>present.
     cur_bind (retry_read cur_u8) (\<lambda>catalog_slot.
     cur_bind (cur_reserved 6) (\<lambda>_.
     cur_bind (retry_read cur_u64) (\<lambda>catalog_generation.
     cur_bind (retry_read cur_u64) (\<lambda>catalog_length.
     cur_bind (retry_read cur_u32) (\<lambda>catalog_checksum.
     cur_bind (cur_reserved 12) (\<lambda>_.
     if present = 0 \<and> catalog_slot = 0 \<and> catalog_generation = 0 \<and> catalog_length = 0 \<and> catalog_checksum = 0
     then cur_return None
     else if present = 1 \<and> catalog_slot < 3 \<and> catalog_generation > 0 \<and> catalog_length > 0
     then cur_return (Some \<lparr>gcr_slot = catalog_slot, gcr_generation = catalog_generation,
       gcr_length = catalog_length, gcr_checksum = catalog_checksum\<rparr>)
     else cur_fail RetryInvalid)))))))"

definition decode_replay_outcome :: "StoreId \<Rightarrow> RetryReplayOutcome retry_decoder" where
  "decode_replay_outcome store_id =
     cur_bind (retry_read decode_retry) (\<lambda>qualification.
     cur_bind (retry_read cur_u64) (\<lambda>append_sequence.
     cur_bind (retry_read cur_u64) (\<lambda>end_offset.
     cur_bind (retry_read cur_u64) (\<lambda>manifest_generation.
     cur_bind (retry_read cur_u8) (\<lambda>registry_slot.
     cur_bind (cur_reserved 7) (\<lambda>_.
     cur_bind (retry_read cur_u64) (\<lambda>registry_generation.
     cur_bind (retry_read cur_u64) (\<lambda>journal_generation.
     cur_bind (retry_read cur_u64) (\<lambda>checkpoint_generation.
     cur_bind (retry_read cur_u64) (\<lambda>cutoff_sequence.
     cur_bind (retry_read cur_u64) (\<lambda>cutoff_end.
     cur_bind (retry_read cur_u8) (\<lambda>retry_slot.
     cur_bind (cur_reserved 7) (\<lambda>_.
     cur_bind (retry_read cur_u64) (\<lambda>retry_generation.
     cur_bind (retry_read cur_u64) (\<lambda>sequence_floor.
     cur_bind decode_catalog_field (\<lambda>catalog.
     cur_return \<lparr>rro_qualification = qualification, rro_append_sequence = append_sequence, rro_end_offset = end_offset,
       rro_committed = \<lparr>mc_manifest_generation = manifest_generation, mc_registry_generation = registry_generation,
         mc_registry_slot = registry_slot,
         mc_durable_cutoff = cutoff_from_manifest store_id journal_generation checkpoint_generation cutoff_sequence cutoff_end,
         mc_retry_state = \<lparr>rsr_slot = retry_slot, rsr_generation = retry_generation\<rparr>,
         mc_sequence_floor = sequence_floor, mc_catalog = catalog\<rparr>\<rparr>))))))))))))))))"

definition decode_guard_entry :: "RetryGuardEntry retry_decoder" where
  "decode_guard_entry =
     cur_bind (retry_read decode_retry) (\<lambda>qualification.
     cur_bind (retry_read cur_u64) (\<lambda>append_sequence.
     cur_return \<lparr>rge_qualification = qualification, rge_append_sequence = append_sequence\<rparr>))"

definition decode_tiers ::
  "StoreId \<Rightarrow> nat \<Rightarrow> nat \<Rightarrow> (RetryReplayOutcome list \<times> RetryGuardEntry list) retry_decoder" where
  "decode_tiers store_id replay_count guard_count =
     cur_bind (cur_repeat replay_count (decode_replay_outcome store_id)) (\<lambda>replay.
     cur_bind (cur_repeat guard_count decode_guard_entry) (\<lambda>guard.
     cur_return (replay, guard)))"

definition decode_retry_state_at_slot ::
  "bytes \<Rightarrow> u8 \<Rightarrow> StoreId \<Rightarrow> RetryPersistenceOptions \<Rightarrow>
   (RetryStateCodecError, RetryArtifactReference \<times> RetryStateSnapshot) result" where
  "decode_retry_state_at_slot bs slot expected_store expected_options =
     (if slot \<ge> 3
         \<or> length bs < RETRY_HEADER_LEN + RETRY_CRC_LEN
         \<or> length bs > MAX_RETRY_STATE_BYTES
         \<or> slice 0 8 bs \<noteq> RETRY_MAGIC
         \<or> read_u16 10 bs \<noteq> RETRY_HEADER_LEN_U16
         \<or> list_ex (\<lambda>b. b \<noteq> 0) (slice 60 64 bs)
      then Inl RetryInvalid
      else if read_u16 8 bs \<noteq> RETRY_VERSION then Inl RetryInvalid
      else
        let checksum_offset = length bs - RETRY_CRC_LEN in
        if crc32c (slice 0 checksum_offset bs) \<noteq> read_u32 checksum_offset bs then Inl RetryInvalid
        else and_then (map_err (\<lambda>_. RetryInvalid) (identity_from_bytes (slice 12 28 bs))) (\<lambda>store_id.
          if store_id \<noteq> expected_store then Inl RetryStoreMismatch
          else
            let generation = read_u64 28 bs in
            and_then (map_err (\<lambda>_. RetryInvalid)
              (retry_options_new (unat (read_u32 36 bs)) (unat (read_u32 40 bs)))) (\<lambda>options.
            if options \<noteq> expected_options then Inl RetryOptionsMismatch
            else
              let replay_count = unat (read_u32 44 bs); guard_count = unat (read_u32 48 bs);
                  payload_len = unat (read_u64 52 bs) in
              if generation = 0
                 \<or> replay_count > replay_capacity options
                 \<or> guard_count > guard_capacity options
                 \<or> usize_saturating_add replay_count guard_count > MAX_PERSISTED_RETRY_ENTRIES
                 \<or> usize_checked_add RETRY_HEADER_LEN payload_len \<noteq> Some checksum_offset
              then Inl RetryInvalid
              else
                let reference = \<lparr>rsr_slot = slot, rsr_generation = generation\<rparr> in
                and_then (decode_tiers store_id replay_count guard_count
                    (cursor_new (slice RETRY_HEADER_LEN checksum_offset bs))) (\<lambda>((replay, guard), cursor).
                and_then (map_err invalid_journal (cursor_finish cursor)) (\<lambda>_.
                let snapshot = \<lparr>rss_store_id = store_id, rss_options = options, rss_reference = Some reference,
                      rss_replay = replay, rss_guard = guard\<rparr> in
                and_then (validate_state snapshot) (\<lambda>_.
                and_then (encode_retry_state snapshot) (\<lambda>encoded.
                if encoded \<noteq> bs then Inl RetryInvalid
                else and_then (u64_try_from (length bs)) (\<lambda>len.
                  Inr (\<lparr>rar_public = reference, rar_length = len, rar_checksum = crc32c bs\<rparr>, snapshot)))))))))"

end
