(* ===== verification/Och_Samples.thy ===== *)
theory Och_Samples
  imports Och_Source
begin

text \<open>
  Concrete values: a store with one sampled real-valued series, an envelope with one observation
  and one gap, its source evidence and the admission they authorize.  They witness that the
  hypotheses of the properties hold together.
\<close>

section \<open>Values\<close>

definition sample_id :: "u8 \<Rightarrow> 'k identity" where
  "sample_id n = Identity [1, 0x8F, 0, 0, 0, 0, 0x70, 0, 0x80, 0, 0, 0, 0, 0, 0, n]"

definition sample_reference :: "u8 \<Rightarrow> DeclarationReference" where
  "sample_reference n = DeclarationReference [n]"

definition sample_content :: ContentIdentity where
  "sample_content = \<lparr>content_format = ContentFormat [0x72, 0x61, 0x77], content_version = ContentVersion 1,
     content_sha256 = replicate 32 0xAB\<rparr>"

definition sample_artifact :: ArtifactReference where
  "sample_artifact = \<lparr>artifact_id = sample_id 40, artifact_content = sample_content\<rparr>"

definition sample_source :: SourceReference where
  "sample_source = \<lparr>src_provider = sample_reference 0x70,
     src_projection = Some (SourceProjection (sample_reference 0x71)), src_locator = sample_reference 0x6C\<rparr>"

definition sample_binding :: SeriesBinding where
  "sample_binding = \<lparr>binding_source = sample_source\<rparr>"

definition sample_payload :: "UnitEvidence \<Rightarrow> SeriesDeclarationPayload" where
  "sample_payload unit = \<lparr>pl_producer_id = sample_id 3, pl_collection_mode = Sampled, pl_value_family = FamilyReal,
     pl_quantity = QuantityAbsent, pl_unit = unit, pl_application = None\<rparr>"

definition sample_evidence :: DeclarationEvidence where
  "sample_evidence = \<lparr>de_effective_at = Timestamp 100 0, de_artifact = None\<rparr>"

definition sample_limits :: SeriesRegistryLimits where
  "sample_limits = \<lparr>max_series = 4, max_declaration_revisions = 8\<rparr>"

definition sample_unit :: UnitEvidence where "sample_unit = UnitResolved (sample_reference 0x43)"

definition sample_commands :: "RegistryCommand list" where
  "sample_commands =
     [Register (sample_id 2) sample_binding (sample_payload UnitAbsent) sample_evidence,
      Revise (sample_id 2) (DeclarationRevision 1) (sample_payload sample_unit) sample_evidence]"

definition sample_empty :: SeriesRegistry where
  "sample_empty = registry_new (sample_id 1) sample_limits"

definition sample_first :: SeriesDeclaration where
  "sample_first = \<lparr>decl_store_id = sample_id 1, decl_series_id = sample_id 2,
     decl_revision = DeclarationRevision 1, decl_previous_revision = None, decl_binding = sample_binding,
     decl_payload = sample_payload UnitAbsent, decl_evidence = sample_evidence\<rparr>"

definition sample_declaration :: SeriesDeclaration where
  "sample_declaration = \<lparr>decl_store_id = sample_id 1, decl_series_id = sample_id 2,
     decl_revision = DeclarationRevision 2, decl_previous_revision = Some (DeclarationRevision 1),
     decl_binding = sample_binding, decl_payload = sample_payload sample_unit, decl_evidence = sample_evidence\<rparr>"

definition sample_history :: SeriesHistory where
  "sample_history = \<lparr>hist_series_id = sample_id 2, hist_binding = sample_binding,
     hist_declarations = [sample_first, sample_declaration], hist_retirement = None\<rparr>"

definition sample_registered :: SeriesRegistry where
  "sample_registered = \<lparr>reg_store_id = sample_id 1, reg_limits = sample_limits, reg_declaration_revision_count = 1,
     reg_series = [(sample_id 2, sample_history\<lparr>hist_declarations := [sample_first]\<rparr>)]\<rparr>"

definition sample_registry :: SeriesRegistry where
  "sample_registry = \<lparr>reg_store_id = sample_id 1, reg_limits = sample_limits,
     reg_declaration_revision_count = 2, reg_series = [(sample_id 2, sample_history)]\<rparr>"

definition sample_retirement :: SeriesRetirement where
  "sample_retirement = \<lparr>ret_declaration_revision = DeclarationRevision 2, ret_evidence = sample_evidence\<rparr>"

definition sample_retired :: SeriesRegistry where
  "sample_retired = \<lparr>reg_store_id = sample_id 1, reg_limits = sample_limits,
     reg_declaration_revision_count = 2,
     reg_series = [(sample_id 2, sample_history\<lparr>hist_retirement := Some sample_retirement\<rparr>)]\<rparr>"

definition sample_metadata :: SeriesMetadata where
  "sample_metadata = \<lparr>md_series_id = sample_id 2, md_producer_id = sample_id 3, md_collection_mode = Sampled\<rparr>"

definition sample_observation :: Observation where
  "sample_observation = \<lparr>obs_id = sample_id 9, obs_value = Real (RealBits 0x4034000000000000),
     obs_times = \<lparr>times_source = None, times_receive = Timestamp 101 5, times_effective = Timestamp 101 0\<rparr>,
     obs_quality = \<lparr>quality_level = Good, quality_flags = QualityFlags 0\<rparr>,
     obs_native_status = NativeStatus [PortableToken [0x6F, 0x6B]],
     obs_producer_position = Some (ProducerPosition (ProducerNumber 1) (ProducerNumber 7)),
     obs_interval = None\<rparr>"

definition sample_gap :: Gap where
  "sample_gap = \<lparr>gap_epoch = ProducerNumber 1, gap_start = ProducerNumber 8, gap_end = ProducerNumber 10,
     gap_reason = GapCommunicationFailure\<rparr>"

definition sample_envelope :: CollectionEnvelope where
  "sample_envelope = \<lparr>env_series = sample_metadata,
     env_evidence = ObservedEvidence [sample_observation] [sample_gap]\<rparr>"

definition sample_declared :: DeclaredCollectionEnvelope where
  "sample_declared = \<lparr>dce_store_id = sample_id 1, dce_declaration = sample_declaration,
     dce_envelope = sample_envelope\<rparr>"

definition sample_retry :: RetryQualification where
  "sample_retry = \<lparr>rq_series_id = sample_id 2, rq_producer_id = sample_id 3, rq_key = RetryKey [0x6B],
     rq_content = sample_content\<rparr>"

definition sample_batch :: SourceBatchMetadata where
  "sample_batch = \<lparr>batch_schema = SourceSchemaIdentity (sample_reference 0x73),
     batch_version = SourceSchemaVersion 1, batch_interval = SourceObserved\<rparr>"

definition sample_lifecycle :: CaptureLifecycle where
  "sample_lifecycle = \<lparr>
     lc_system = \<lparr>sys_evidence_id = sample_id 10, sys_provider = sample_reference 0x70,
       sys_projection = SourceProjection (sample_reference 0x71)\<rparr>,
     lc_endpoint = \<lparr>ep_evidence_id = sample_id 11, ep_system_id = sample_id 10, ep_locator = sample_reference 0x6C\<rparr>,
     lc_run = \<lparr>run_evidence_id = sample_id 12, run_endpoint_id = sample_id 11, run_started_at = Timestamp 100 0,
       run_completed_at = None\<rparr>,
     lc_snapshot = \<lparr>snapshot_evidence_id = sample_id 13, snapshot_run_id = sample_id 12,
       snapshot_artifact = sample_artifact\<rparr>\<rparr>"

definition sample_context :: SourceObservationContext where
  "sample_context = \<lparr>ctx_ordinal = 0, ctx_canonical_observation_id = sample_id 9,
     ctx_interpretation = \<lparr>interp_source = sample_source, interp_application = None,
       interp_quantity = QuantityAbsent, interp_unit = sample_unit\<rparr>,
     ctx_observation = \<lparr>so_evidence_id = sample_id 20, so_provenance_artifact = None, so_transport = New,
       so_idempotency = None\<rparr>,
     ctx_raw = \<lparr>raw_evidence_id = sample_id 21, raw_snapshot_id = sample_id 13, raw_artifact = sample_artifact,
       raw_idempotency = Some \<lparr>idem_key = RetryKey [0x69], idem_content = sample_content\<rparr>\<rparr>,
     ctx_normalized = \<lparr>norm_evidence_id = sample_id 22, norm_raw_record_id = sample_id 21,
       norm_content = sample_content, norm_observation_evidence_id = sample_id 20\<rparr>\<rparr>"

definition sample_source_gap :: SourceGapEvidence where
  "sample_source_gap = \<lparr>sg_epoch = ProducerNumber 1, sg_start = ProducerNumber 8, sg_end = ProducerNumber 10,
     sg_reason = SourceGapCommunicationFailure\<rparr>"

definition sample_admission :: CanonicalAdmission where
  "sample_admission = \<lparr>adm_store_id = sample_id 1, adm_declaration = sample_declaration,
     adm_envelope = sample_envelope, adm_retry = sample_retry, adm_batch = sample_batch,
     adm_lifecycle = sample_lifecycle,
     adm_evidence = AdmissionObserved [retain_lineage sample_context] [sample_source_gap]\<rparr>"

text \<open>A change-only series in which nothing changed.\<close>

definition sample_quiet_payload :: SeriesDeclarationPayload where
  "sample_quiet_payload = (sample_payload UnitAbsent)\<lparr>pl_collection_mode := ChangeOnly\<rparr>"

definition sample_quiet_registry :: SeriesRegistry where
  "sample_quiet_registry = snd (register (sample_id 2) sample_binding sample_quiet_payload sample_evidence sample_empty)"

definition sample_quiet_envelope :: CollectionEnvelope where
  "sample_quiet_envelope = \<lparr>env_series = sample_metadata\<lparr>md_collection_mode := ChangeOnly\<rparr>,
     env_evidence = NoChangeEvidence \<lparr>no_change_interval =
       \<lparr>interval_start = Timestamp 100 0, interval_end = Timestamp 101 0\<rparr>\<rparr>\<rparr>"

definition sample_quiet_declared :: DeclaredCollectionEnvelope where
  "sample_quiet_declared = \<lparr>dce_store_id = sample_id 1,
     dce_declaration = sample_first\<lparr>decl_payload := sample_quiet_payload\<rparr>, dce_envelope = sample_quiet_envelope\<rparr>"

definition sample_quiet_batch :: SourceBatchMetadata where
  "sample_quiet_batch = sample_batch\<lparr>batch_interval := SourceNoChange\<rparr>"

section \<open>They are valid\<close>

lemma sample_id_ok [simp]: "identity_ok (sample_id n)"
  by (simp add: identity_ok_def sample_id_def validate_uuid_v7_def)

lemma sample_id_eq [simp]: "sample_id m = sample_id n \<longleftrightarrow> m = n"
  by (simp add: sample_id_def)

lemma sample_reference_ok [simp]:
  "reference_ok (sample_reference 0x70)" "reference_ok (sample_reference 0x71)"
  "reference_ok (sample_reference 0x6C)" "reference_ok (sample_reference 0x73)"
  "reference_ok (sample_reference 0x43)"
  by code_simp+

lemmas sample_values = sample_content_def sample_artifact_def sample_source_def sample_binding_def
  sample_payload_def sample_evidence_def sample_limits_def sample_unit_def sample_first_def
  sample_declaration_def sample_history_def sample_metadata_def sample_observation_def sample_gap_def
  sample_envelope_def sample_retry_def sample_batch_def sample_lifecycle_def sample_context_def
  sample_source_gap_def

lemma sample_parts_ok [simp]:
  "content_ok sample_content" "timestamp_ok (Timestamp 100 0)" "timestamp_ok (Timestamp 101 5)"
  "timestamp_ok (Timestamp 101 0)" "retry_key_ok (RetryKey [0x6B])" "retry_key_ok (RetryKey [0x69])"
  "native_status_ok (NativeStatus [PortableToken [0x6F, 0x6B]])" "flags_ok (QualityFlags 0)"
  by code_simp+

lemma sample_artifact_ok [simp]: "artifact_ok sample_artifact"
  by (simp add: artifact_ok_def sample_artifact_def)

lemma sample_source_ok [simp]: "source_reference_ok sample_source"
  by (simp add: source_reference_ok_def sample_source_def projection_ok_def)

lemma sample_commands_ok [simp]: "list_all command_ok sample_commands"
  by (simp add: sample_commands_def binding_ok_def sample_binding_def payload_ok_def sample_payload_def
      declaration_evidence_ok_def sample_evidence_def sample_unit_def)

lemma sample_registers:
  "register (sample_id 2) sample_binding (sample_payload UnitAbsent) sample_evidence sample_empty =
    (Inr sample_first, sample_registered)"
  by (simp add: register_def Let_def sample_registered_def sample_empty_def registry_new_def bt_get_def bt_len_def sample_limits_def
      sample_first_def sample_history_def REVISION_FIRST_def)

lemma sample_revises:
  "revise (sample_id 2) (DeclarationRevision 1) (sample_payload sample_unit) sample_evidence
     sample_registered =
    (Inr sample_declaration, sample_registry)"
  by (simp add: revise_def Let_def sample_registered_def bt_get_def sample_limits_def sample_first_def sample_history_def latest_declaration_def
      sample_declaration_def sample_registry_def revision_next_def sample_payload_def sample_unit_def)

lemma sample_reached: "fold reg_run sample_commands sample_empty = sample_registry"
  by (simp add: sample_commands_def sample_registers sample_revises)

lemma sample_registry_sound: "registry_sound sample_registry"
proof -
  have "registry_sound sample_empty"
    unfolding sample_empty_def by (rule registry_sound_new) (simp_all add: sample_limits_def)
  then show ?thesis
    using registry_sound_fold [OF sample_commands_ok] sample_reached by metis
qed

lemma sample_registered_ok: "registry_ok sample_registered"
  using register_op.preserves [OF registry_new_ok] sample_registers unfolding sample_empty_def by (metis snd_conv)

lemma sample_registry_history: "history sample_registry (sample_id 2) = Some sample_history"
  by (simp add: history_def sample_registry_def bt_get_def)

lemma sample_retires:
  "retire (sample_id 2) (DeclarationRevision 2) sample_evidence sample_registry =
    (Inr sample_retirement, sample_retired)"
  by (simp add: retire_def Let_def sample_registry_def sample_retired_def sample_retirement_def bt_get_def
      sample_history_def latest_declaration_def sample_declaration_def)

lemma sample_observed_ok [simp]: "observation_ok sample_observation" "gap_ok sample_gap" "metadata_ok sample_metadata"
  by (simp_all add: observation_ok_def sample_observation_def observation_times_ok_def gap_ok_def sample_gap_def
      less_producer_number_def metadata_ok_def sample_metadata_def)

lemma sample_enveloped: "envelope_observed sample_metadata [sample_observation] [sample_gap] = Inr sample_envelope"
proof -
  have "validate_observed Sampled [sample_observation] [sample_gap] = Inr ()"
    by code_simp
  then show ?thesis by (simp add: envelope_observed_def sample_envelope_def sample_metadata_def)
qed

lemma sample_bound: "registry_bind sample_envelope sample_registry = Inr sample_declared"
  by (simp add: registry_bind_def Let_def sample_envelope_def sample_metadata_def sample_registry_def bt_get_def
      sample_history_def latest_declaration_def sample_declaration_def payload_series_metadata_def
      sample_payload_def env_observations_def sample_observation_def admits_def sample_declared_def)

lemma sample_admission_parts_ok [simp]: "retry_ok sample_retry" "batch_ok sample_batch" "lifecycle_ok sample_lifecycle"
  "context_ok sample_context" "source_gap_ok sample_source_gap"
  by (simp_all add: retry_ok_def sample_retry_def batch_ok_def sample_batch_def lifecycle_ok_def sample_lifecycle_def
      projection_ok_def run_ok_def context_ok_def lineage_ok_def retain_lineage_def sample_context_def
      source_observation_ok_def raw_record_ok_def idempotency_ok_def normalized_record_ok_def
      source_gap_ok_def sample_source_gap_def less_producer_number_def)

lemma sample_admitted:
  "admission_observed sample_declared sample_retry sample_batch sample_lifecycle [sample_context] [sample_source_gap] =
   Inr sample_admission"
  by code_simp

lemma sample_admission_ok [simp]: "admission_ok sample_admission"
proof -
  have "envelope_ok sample_envelope"
    by (rule envelope_observed_ok [OF sample_enveloped]) simp_all
  then show ?thesis
    by (intro admission_observed_ok [OF sample_registry_sound sample_bound _ _ _ _ _ _ sample_admitted]) simp_all
qed

lemma sample_quiet_sound: "registry_sound sample_quiet_registry"
proof -
  have "registry_sound sample_empty"
    unfolding sample_empty_def by (rule registry_sound_new) (simp_all add: sample_limits_def)
  then have "registry_sound (reg_run (Register (sample_id 2) sample_binding sample_quiet_payload sample_evidence) sample_empty)"
    by (rule registry_sound_run [rotated])
      (simp add: binding_ok_def sample_binding_def payload_ok_def sample_quiet_payload_def sample_payload_def
        declaration_evidence_ok_def sample_evidence_def)
  then show ?thesis by (simp add: sample_quiet_registry_def)
qed

lemma sample_quiet_bound: "registry_bind sample_quiet_envelope sample_quiet_registry = Inr sample_quiet_declared"
  by code_simp

lemma sample_quiet_parts_ok [simp]: "envelope_ok sample_quiet_envelope" "batch_ok sample_quiet_batch"
  by (simp_all add: envelope_ok_def sample_quiet_envelope_def metadata_ok_def sample_metadata_def
      time_interval_ok_def less_Timestamp_def batch_ok_def sample_quiet_batch_def sample_batch_def)

lemma sample_quiet_admitted:
  "\<exists>a. admission_no_change sample_quiet_declared sample_retry sample_quiet_batch sample_lifecycle = Inr a"
proof -
  have "validate_common sample_quiet_declared sample_retry sample_quiet_batch sample_lifecycle SourceNoChange = Inr ()"
    "distinct (lifecycle_ids sample_lifecycle)"
    by code_simp+
  then show ?thesis by (simp add: admission_no_change_iff)
qed

end
