(* ===== verification/Och_Retry_Window.thy ===== *)
theory Och_Retry_Window
  imports Och_Retry_State Och_Samples
begin

text \<open>
  Correctness of the retry projection.  Abstractly it is a bounded queue cut into two tiers: the
  newest outcomes replay, the older ones only guard, the oldest are forgotten.
\<close>

section \<open>The newest elements of a list\<close>

definition keep :: "nat \<Rightarrow> 'a list \<Rightarrow> 'a list" where
  "keep n xs = drop (length xs - n) xs"

lemma keep_short: "length xs \<le> n \<Longrightarrow> keep n xs = xs"
  by (simp add: keep_def)

lemma length_keep [simp]: "length (keep n xs) = min n (length xs)"
  by (simp add: keep_def min_def)

lemma keep_keep: "keep n (keep n xs @ ys) = keep n (xs @ ys)"
  by (cases "length xs \<le> n") (auto simp: keep_def min_def add.commute)

lemma keep_tl: "length xs = Suc n \<Longrightarrow> tl xs = keep n xs"
  by (simp add: keep_def drop_Suc)

lemma set_keep: "set (keep n xs) \<subseteq> set xs"
  by (simp add: keep_def set_drop_subset)

lemma keep_nth: "i < length xs \<Longrightarrow> length xs - i \<le> n \<Longrightarrow> xs ! i \<in> set (keep n xs)"
proof -
  assume a: "i < length xs" "length xs - i \<le> n"
  then have "keep n xs ! (i - (length xs - n)) = xs ! i" "i - (length xs - n) < length (keep n xs)"
    by (auto simp: keep_def)
  then show ?thesis by (metis nth_mem)
qed

section \<open>The bounded queue\<close>

text \<open>The abstract transition: both tiers keep their newest entries, and what leaves the replay tier
  enters the guard tier.\<close>

definition replay_after :: "nat \<Rightarrow> RetryReplayOutcome list \<Rightarrow> RetryReplayOutcome list \<Rightarrow> RetryReplayOutcome list" where
  "replay_after cap replay new = keep cap (replay @ new)"

definition guard_after ::
  "nat \<Rightarrow> nat \<Rightarrow> RetryReplayOutcome list \<Rightarrow> RetryGuardEntry list \<Rightarrow> RetryReplayOutcome list \<Rightarrow> RetryGuardEntry list" where
  "guard_after rcap gcap replay guard new =
     keep gcap (guard @ map guard_of (take (length (replay @ new) - rcap) (replay @ new)))"

lemma advance_loop_queue:
  assumes "advance_loop self committed previous replay guard pending = Inr (replay', guard')"
    and "length replay \<le> replay_capacity (rss_options self)" "length guard \<le> guard_capacity (rss_options self)"
  shows "replay' = replay_after (replay_capacity (rss_options self)) replay (map (replay_of committed) pending) \<and>
    guard' = guard_after (replay_capacity (rss_options self)) (guard_capacity (rss_options self)) replay guard
      (map (replay_of committed) pending)"
  using assms
proof (induction pending arbitrary: previous replay guard)
  case Nil
  then show ?case by (simp add: replay_after_def guard_after_def keep_short)
next
  case (Cons p pending)
  let ?rc = "replay_capacity (rss_options self)" and ?gc = "guard_capacity (rss_options self)"
  let ?r = "replay_of committed p" and ?rest = "map (replay_of committed) pending"
  have free: "\<not> entry_conflicts self replay guard previous p" using Cons.prems(1) by (auto split: if_splits)
  show ?case
  proof (cases "length replay < ?rc")
    case True
    then have "advance_loop self committed (pro_append_sequence p) (replay @ [?r]) guard pending = Inr (replay', guard')"
      using Cons.prems(1) free by (simp add: Let_def split: if_splits)
    with Cons.IH [OF this] True Cons.prems(3) show ?thesis by (simp add: replay_after_def guard_after_def)
  next
    case False
    then have full: "length replay = ?rc" using Cons.prems(2) by simp
    obtain h t where ht: "replay @ [?r] = h # t" by (cases "replay @ [?r]") auto
    have t: "length t = ?rc" using full arg_cong [OF ht, of length] by simp
    let ?g = "guard @ [guard_of h]"
    let ?g' = "if length ?g > ?gc then tl ?g else ?g"
    have g': "?g' = keep ?gc ?g"
    proof (cases "length ?g > ?gc")
      case True
      then have "length ?g = Suc ?gc" using Cons.prems(3) by simp
      with True show ?thesis by (simp add: keep_tl)
    qed (simp add: keep_short)
    have "advance_loop self committed (pro_append_sequence p) t ?g' pending = Inr (replay', guard')"
      using Cons.prems(1) free t unfolding advance_loop.simps Let_def ht list.sel by (simp del: advance_loop.simps)
    then have ih: "replay' = replay_after ?rc t ?rest" "guard' = guard_after ?rc ?gc t (keep ?gc ?g) ?rest"
      using Cons.IH [of "pro_append_sequence p" t "keep ?gc ?g"] t unfolding g' by simp_all
    have all: "replay @ map (replay_of committed) (p # pending) = h # t @ ?rest" using ht by simp
    have "replay' = replay_after ?rc replay (map (replay_of committed) (p # pending))"
      unfolding replay_after_def all ih(1) by (simp add: keep_def t)
    moreover have "guard' = guard_after ?rc ?gc replay guard (map (replay_of committed) (p # pending))"
      unfolding guard_after_def all ih(2) keep_keep by (simp add: t)
    ultimately show ?thesis by simp
  qed
qed

lemma validate_state_capacity:
  "validate_state s = Inr () \<Longrightarrow> length (rss_replay s) \<le> replay_capacity (rss_options s) \<and>
   length (rss_guard s) \<le> guard_capacity (rss_options s)"
  by (auto simp: validate_state_def not_less split: if_splits)

lemma state_advance_parts:
  assumes "state_advance s ref pending c = Inr s'"
  shows "validate_transition_preflight s ref pending c = Inr ()" "validate_state s' = Inr ()"
    "validate_root s' c None = Inr ()"
    "rss_store_id s' = rss_store_id s" "rss_options s' = rss_options s" "rss_reference s' = Some ref"
    "\<exists>previous. advance_loop s c previous (rss_replay s) (rss_guard s) pending = Inr (rss_replay s', rss_guard s')"
  using assms by (auto simp: state_advance_def result_convs Let_def)

section \<open>Distinct scopes and classification\<close>

definition retained :: "RetryStateSnapshot \<Rightarrow> RetryQualification list" where
  "retained s = map rro_qualification (rss_replay s) @ map rge_qualification (rss_guard s)"

lemma check_distinct_iff:
  "check_distinct xs qs = Inr () \<longleftrightarrow> distinct (map retry_scope qs) \<and> set (map retry_scope xs) \<inter> set (map retry_scope qs) = {}"
proof (induction xs qs rule: check_distinct.induct)
  case (2 xs q qs)
  have "list_ex (\<lambda>prior. retry_classify prior q \<noteq> Distinct) xs \<longleftrightarrow> retry_scope q \<in> set (map retry_scope xs)"
    by (auto simp: list_ex_iff retry_classify_distinct image_iff) metis
  with 2 show ?case by auto
qed simp

lemma validate_state_distinct: "validate_state s = Inr () \<Longrightarrow> distinct (map retry_scope (retained s))"
  by (auto simp: validate_state_def result_convs check_distinct_iff retained_def split: if_splits)

lemma find_by_key:
  "distinct (map f xs) \<Longrightarrow> find (\<lambda>x. f x = k) xs = Some x \<longleftrightarrow> x \<in> set xs \<and> f x = k"
  by (induction xs) (auto simp: image_iff)

lemma classify_guards_find:
  "classify_guards q gs = (case find (\<lambda>g. retry_scope (rge_qualification g) = retry_scope q) gs of
     None \<Rightarrow> MatchFresh | Some g \<Rightarrow> if rge_qualification g = q then MatchExpired else MatchConflict)"
  by (induction gs) (auto simp: retry_classify_equivalent retry_classify_distinct split: RetryClassification.split
      dest: retry_classify_conflict [THEN iffD1] retry_classify_equivalent [THEN iffD1] retry_classify_distinct [THEN iffD1])

lemma classify_replays_find:
  "classify_replays q rs rest = (case find (\<lambda>r. retry_scope (rro_qualification r) = retry_scope q) rs of
     None \<Rightarrow> rest | Some r \<Rightarrow> if rro_qualification r = q then MatchReplay r else MatchConflict)"
  by (induction rs) (auto simp: retry_classify_equivalent retry_classify_distinct split: RetryClassification.split
      dest: retry_classify_conflict [THEN iffD1] retry_classify_equivalent [THEN iffD1] retry_classify_distinct [THEN iffD1])

lemma state_classify_cases:
  assumes "distinct (map retry_scope (retained s))"
  shows "r \<in> set (rss_replay s) \<Longrightarrow> retry_scope (rro_qualification r) = retry_scope q \<Longrightarrow>
      state_classify s q = (if rro_qualification r = q then MatchReplay r else MatchConflict)"
    and "g \<in> set (rss_guard s) \<Longrightarrow> retry_scope (rge_qualification g) = retry_scope q \<Longrightarrow>
      state_classify s q = (if rge_qualification g = q then MatchExpired else MatchConflict)"
    and "retry_scope q \<notin> set (map retry_scope (retained s)) \<Longrightarrow> state_classify s q = MatchFresh"
proof -
  let ?fr = "find (\<lambda>r. retry_scope (rro_qualification r) = retry_scope q) (rss_replay s)"
  let ?fg = "find (\<lambda>g. retry_scope (rge_qualification g) = retry_scope q) (rss_guard s)"
  have d: "distinct (map (\<lambda>r. retry_scope (rro_qualification r)) (rss_replay s))"
    "distinct (map (\<lambda>g. retry_scope (rge_qualification g)) (rss_guard s))"
    "\<And>r g. r \<in> set (rss_replay s) \<Longrightarrow> g \<in> set (rss_guard s) \<Longrightarrow>
      retry_scope (rro_qualification r) \<noteq> retry_scope (rge_qualification g)"
    using assms by (auto simp: retained_def comp_def)
  note fr = find_by_key [OF d(1), of "retry_scope q"] and fg = find_by_key [OF d(2), of "retry_scope q"]
  show "state_classify s q = (if rro_qualification r = q then MatchReplay r else MatchConflict)"
    if "r \<in> set (rss_replay s)" "retry_scope (rro_qualification r) = retry_scope q"
    using fr [of r] that by (simp add: state_classify_def classify_replays_find)
  show "state_classify s q = (if rge_qualification g = q then MatchExpired else MatchConflict)"
    if "g \<in> set (rss_guard s)" "retry_scope (rge_qualification g) = retry_scope q"
  proof -
    have "?fr = None" using d(3) [OF _ that(1)] that(2) by (force simp: find_None_iff)
    moreover have "?fg = Some g" using fg [of g] that by simp
    ultimately show ?thesis by (simp add: state_classify_def classify_replays_find classify_guards_find)
  qed
  show "state_classify s q = MatchFresh" if "retry_scope q \<notin> set (map retry_scope (retained s))"
  proof -
    have "?fr = None" "?fg = None" using that by (auto simp: find_None_iff retained_def image_iff)
    then show ?thesis by (simp add: state_classify_def classify_replays_find classify_guards_find)
  qed
qed

section \<open>Dense sequences\<close>

definition tracked :: "RetryStateSnapshot \<Rightarrow> u64 list" where
  "tracked s = map rge_append_sequence (rss_guard s) @ map rro_append_sequence (rss_replay s)"

lemma check_chronology_dense:
  "check_chronology cutoff q qs = Inr () \<Longrightarrow> map unat (q # qs) = [unat q ..< unat q + length (q # qs)]"
proof (induction cutoff q qs rule: check_chronology.induct)
  case (2 cutoff p q qs)
  then have n: "unat q = unat p + 1" and r: "check_chronology cutoff q qs = Inr ()"
    by (auto simp: checked_succ_iff split: if_splits)
  have "map unat (q # qs) = [unat q ..< unat q + length (q # qs)]" using 2 r n by (auto simp: checked_succ_iff split: if_splits)
  moreover have "[unat p ..< unat p + length (p # q # qs)] = unat p # [unat q ..< unat q + length (q # qs)]"
    using n by (subst upt_conv_Cons) simp_all
  ultimately show ?case by (simp only: list.map)
qed simp

lemma validate_root_dense:
  assumes "validate_root s root catalog = Inr ()" "rss_replay s \<noteq> []"
  shows "map unat (tracked s) = [unat (cut_append_sequence (mc_durable_cutoff root)) + 1 - length (tracked s) ..<
      unat (cut_append_sequence (mc_durable_cutoff root)) + 1]"
    and "last (tracked s) = cut_append_sequence (mc_durable_cutoff root)"
proof -
  let ?c = "cut_append_sequence (mc_durable_cutoff root)"
  obtain q qs where t: "tracked s = q # qs" using assms(2) by (cases "tracked s") (auto simp: tracked_def)
  have newest: "rro_append_sequence (last (rss_replay s)) = ?c" and "check_chronology ?c q qs = Inr ()"
    using assms t by (auto simp: validate_root_def result_convs Let_def tracked_def split: if_splits)
  then have d: "map unat (tracked s) = [unat q ..< unat q + length (tracked s)]"
    using check_chronology_dense t by auto
  show l: "last (tracked s) = ?c" using newest assms(2) by (simp add: tracked_def last_map)
  have "unat (last (tracked s)) = last (map unat (tracked s))" using t by (simp add: last_map)
  also have "\<dots> = unat q + length (tracked s) - 1" unfolding d by (simp add: t)
  finally have "unat ?c + 1 = unat q + length (tracked s)" using l t by simp
  then show "map unat (tracked s) = [unat ?c + 1 - length (tracked s) ..< unat ?c + 1]"
    using d by simp
qed


section \<open>Reachable projections\<close>

text \<open>From an installed empty snapshot under options that \<open>RetryPersistenceOptions::new\<close> accepts, by accepted
  transitions; the third argument is the last commit.\<close>

inductive retry_reachable :: "StoreId \<Rightarrow> RetryPersistenceOptions \<Rightarrow> ManifestCommit option \<Rightarrow> RetryStateSnapshot \<Rightarrow> bool"
  for store options where
  retry_installed: "retry_options_new a b = Inr options \<Longrightarrow> rsr_slot r < 3 \<Longrightarrow> rsr_generation r \<noteq> 0 \<Longrightarrow>
    retry_reachable store options None (retry_empty_persisted store options r)"
| retry_committed: "retry_reachable store options root s \<Longrightarrow> state_advance s r pending c = Inr s' \<Longrightarrow>
    retry_reachable store options (Some c) s'"

definition options_ok :: "RetryPersistenceOptions \<Rightarrow> bool" where
  "options_ok o' \<longleftrightarrow> 0 < replay_capacity o' \<and> 0 < guard_capacity o' \<and>
     replay_capacity o' + guard_capacity o' \<le> MAX_PERSISTED_RETRY_ENTRIES"

lemma retry_options_new_iff:
  "retry_options_new a b = Inr o' \<longleftrightarrow> o' = \<lparr>replay_capacity = a, guard_capacity = b\<rparr> \<and> options_ok o'"
  by (auto simp: retry_options_new_def options_ok_def split: if_splits)

lemma state_advance_queue:
  assumes "state_advance s r pending c = Inr s'" "validate_state s = Inr ()"
  shows "rss_replay s' = replay_after (replay_capacity (rss_options s)) (rss_replay s) (map (replay_of c) pending)"
    and "rss_guard s' = guard_after (replay_capacity (rss_options s)) (guard_capacity (rss_options s))
      (rss_replay s) (rss_guard s) (map (replay_of c) pending)"
  using state_advance_parts(7) [OF assms(1)] validate_state_capacity [OF assms(2)] advance_loop_queue by blast+

lemma state_advance_pending: "state_advance s r pending c = Inr s' \<Longrightarrow> pending \<noteq> []"
  using state_advance_parts(1) [of s r pending c s']
  by (auto simp: validate_transition_preflight_def result_convs Let_def split: if_splits)

lemma retry_reachable_valid:
  "retry_reachable store options root s \<Longrightarrow>
   validate_state s = Inr () \<and> rss_store_id s = store \<and> rss_options s = options \<and> options_ok options \<and>
   (case root of None \<Rightarrow> tracked s = []
    | Some c \<Rightarrow> validate_root s c None = Inr () \<and> rss_replay s \<noteq> [])"
proof (induction rule: retry_reachable.induct)
  case (retry_installed a b r)
  then show ?case
    by (auto simp: validate_state_def retry_empty_persisted_def tracked_def usize_saturating_add_def not_le retry_options_new_iff)
next
  case (retry_committed root s r pending c s')
  note parts = state_advance_parts [OF retry_committed.hyps(2)]
  have "length (rss_replay s') = min (replay_capacity options) (length (rss_replay s) + length pending)"
    using state_advance_queue [OF retry_committed.hyps(2)] retry_committed.IH by (simp add: replay_after_def)
  then have "rss_replay s' \<noteq> []"
    using state_advance_pending [OF retry_committed.hyps(2)] retry_committed.IH
    by (auto simp: options_ok_def min_def split: if_splits)
  then show ?case using parts retry_committed.IH by simp
qed

section \<open>Properties\<close>

text \<open>(C29) An accepted transition refines a bounded two-tier queue: the replay tier becomes the newest
  outcomes of the old tier followed by the pending ones, the guard tier becomes the newest entries of
  the old guards followed by exactly what left the replay tier, store and capacities stay, and the new
  snapshot passes its own validation.\<close>
theorem retry_advance_refines_queue:
  assumes "validate_state s = Inr ()" "state_advance s r pending c = Inr s'"
  shows "rss_replay s' = keep (replay_capacity (rss_options s)) (rss_replay s @ map (replay_of c) pending) \<and>
    rss_guard s' = keep (guard_capacity (rss_options s)) (rss_guard s @ map guard_of
      (take (length (rss_replay s) + length pending - replay_capacity (rss_options s))
        (rss_replay s @ map (replay_of c) pending))) \<and>
    rss_store_id s' = rss_store_id s \<and> rss_options s' = rss_options s \<and> rss_reference s' = Some r \<and>
    validate_state s' = Inr ()"
  using state_advance_queue [OF assms(2,1)] state_advance_parts [OF assms(2)]
  by (simp add: replay_after_def guard_after_def)

text \<open>(C14) In every reachable projection the tracked append sequences, guards before outcomes, are consecutive
  and end at the sequence of the last commit's durable cutoff; so the projection always covers an
  unbroken window of the newest appends, never more than the configured capacities.\<close>
theorem retry_window_dense:
  assumes "retry_reachable store options (Some c) s"
  shows "map unat (tracked s) = [unat (cut_append_sequence (mc_durable_cutoff c)) + 1 - length (tracked s) ..<
      unat (cut_append_sequence (mc_durable_cutoff c)) + 1] \<and>
    length (rss_replay s) \<le> replay_capacity options \<and> length (rss_guard s) \<le> guard_capacity options \<and>
    length (tracked s) \<le> MAX_PERSISTED_RETRY_ENTRIES"
proof -
  have v: "validate_state s = Inr ()" "rss_options s = options" "options_ok options"
    "validate_root s c None = Inr ()" "rss_replay s \<noteq> []"
    using retry_reachable_valid [OF assms] by simp_all
  then show ?thesis
    using validate_root_dense(1) [OF v(4,5)] validate_state_capacity [OF v(1)] by (auto simp: options_ok_def tracked_def)
qed

text \<open>(C30) Classification against a valid projection is exact lookup by scope: an outcome replays exactly for its own
  qualification, a guarded qualification has expired, a retained scope with another content conflicts,
  and a scope is fresh exactly when no tier retains it.\<close>
theorem state_classify_exact:
  assumes "validate_state s = Inr ()"
  shows "(state_classify s q = MatchReplay r \<longleftrightarrow> r \<in> set (rss_replay s) \<and> rro_qualification r = q) \<and>
    (state_classify s q = MatchExpired \<longleftrightarrow> q \<in> rge_qualification ` set (rss_guard s)) \<and>
    (state_classify s q = MatchConflict \<longleftrightarrow>
      q \<notin> set (retained s) \<and> retry_scope q \<in> retry_scope ` set (retained s)) \<and>
    (state_classify s q = MatchFresh \<longleftrightarrow> retry_scope q \<notin> retry_scope ` set (retained s))"
proof -
  note d = validate_state_distinct [OF assms]
  have own: "x = y" if "x \<in> set (retained s)" "y \<in> set (retained s)" "retry_scope x = retry_scope y" for x y
    using d that by (auto simp: distinct_map inj_on_def)
  have rep: "r = r'" if "r \<in> set (rss_replay s)" "r' \<in> set (rss_replay s)" "rro_qualification r = rro_qualification r'"
    for r'
    using d that by (auto simp: retained_def distinct_map inj_on_def)
  have tiers: "rro_qualification r' \<noteq> rge_qualification g" if "r' \<in> set (rss_replay s)" "g \<in> set (rss_guard s)" for r' g
    using d that by (auto simp: retained_def)
  have mem: "rro_qualification r' \<in> set (retained s)" "rge_qualification g \<in> set (retained s)"
    if "r' \<in> set (rss_replay s)" "g \<in> set (rss_guard s)" for r' g
    using that by (simp_all add: retained_def)
  consider (replay) r' where "r' \<in> set (rss_replay s)" "retry_scope (rro_qualification r') = retry_scope q"
    | (guard) g where "g \<in> set (rss_guard s)" "retry_scope (rge_qualification g) = retry_scope q"
    | (fresh) "retry_scope q \<notin> set (map retry_scope (retained s))"
    by (force simp: retained_def)
  then show ?thesis
  proof cases
    case (replay r')
    have q': "rro_qualification r' \<in> set (retained s)" using replay by (simp add: retained_def)
    have "q \<in> set (retained s) \<longleftrightarrow> rro_qualification r' = q" using own [OF q'] q' replay(2) by blast
    moreover have "q \<in> rge_qualification ` set (rss_guard s) \<longleftrightarrow> False"
      using tiers replay own [OF q'] mem by (metis image_iff)
    moreover have "r \<in> set (rss_replay s) \<and> rro_qualification r = q \<longleftrightarrow> rro_qualification r' = q \<and> r = r'"
    proof -
      have "rro_qualification r' = q" if "r \<in> set (rss_replay s)" "rro_qualification r = q"
        using own [OF q', of q] replay(2) that by (force simp: retained_def)
      then show ?thesis using rep [of r'] replay(1) by metis
    qed
    moreover have "retry_scope q \<in> retry_scope ` set (retained s)" using q' replay(2) by (metis image_eqI)
    ultimately show ?thesis using state_classify_cases(1) [OF d replay] by auto
  next
    case (guard g)
    have q': "rge_qualification g \<in> set (retained s)" using guard by (simp add: retained_def)
    have "q \<in> set (retained s) \<longleftrightarrow> rge_qualification g = q" using own [OF q'] q' guard(2) by blast
    moreover have "q \<in> rge_qualification ` set (rss_guard s) \<longleftrightarrow> rge_qualification g = q"
      using guard own [OF q'] by (auto simp: retained_def)
    moreover have "r \<in> set (rss_replay s) \<and> rro_qualification r = q \<longleftrightarrow> False"
      using tiers guard own [OF q'] by (metis mem(1))
    moreover have "retry_scope q \<in> retry_scope ` set (retained s)" using q' guard(2) by (metis image_eqI)
    ultimately show ?thesis using state_classify_cases(2) [OF d guard] by auto
  next
    case fresh
    then have "q \<notin> set (retained s)" "retry_scope q \<notin> retry_scope ` set (retained s)" by auto
    then show ?thesis using state_classify_cases(3) [OF d fresh] by (auto simp: retained_def)
  qed
qed


section \<open>Witness\<close>

text \<open>One replay place and two guard places; two batches of two appends each, so that the oldest entry is forgotten.\<close>

definition sample_qualification :: "u8 \<Rightarrow> RetryQualification" where
  "sample_qualification k = sample_retry\<lparr>rq_key := RetryKey [k]\<rparr>"

definition sample_pending :: "u8 \<Rightarrow> u64 \<Rightarrow> u64 \<Rightarrow> PendingRetryOutcome" where
  "sample_pending k q e = \<lparr>pro_qualification = sample_qualification k, pro_append_sequence = q, pro_end_offset = e\<rparr>"

definition sample_commit :: "u64 \<Rightarrow> u8 \<Rightarrow> u64 \<Rightarrow> u64 \<Rightarrow> ManifestCommit" where
  "sample_commit g slot q e = \<lparr>mc_manifest_generation = g, mc_registry_generation = 1, mc_registry_slot = 0,
     mc_durable_cutoff = cutoff_from_manifest (sample_id 1) 1 g q e,
     mc_retry_state = \<lparr>rsr_slot = slot, rsr_generation = g\<rparr>, mc_sequence_floor = 0, mc_catalog = None\<rparr>"

definition sample_options :: RetryPersistenceOptions where
  "sample_options = \<lparr>replay_capacity = 1, guard_capacity = 2\<rparr>"

definition sample_installed :: RetryStateSnapshot where
  "sample_installed = retry_empty_persisted (sample_id 1) sample_options \<lparr>rsr_slot = 0, rsr_generation = 1\<rparr>"

definition sample_batch_one :: "PendingRetryOutcome list" where
  "sample_batch_one = [sample_pending 0x61 1 100, sample_pending 0x62 2 200]"

definition sample_batch_two :: "PendingRetryOutcome list" where
  "sample_batch_two = [sample_pending 0x63 3 300, sample_pending 0x64 4 400]"

definition sample_first_commit :: RetryStateSnapshot where
  "sample_first_commit = \<lparr>rss_store_id = sample_id 1, rss_options = sample_options,
     rss_reference = Some \<lparr>rsr_slot = 1, rsr_generation = 2\<rparr>,
     rss_replay = [replay_of (sample_commit 2 1 2 200) (sample_pending 0x62 2 200)],
     rss_guard = [guard_of (replay_of (sample_commit 2 1 2 200) (sample_pending 0x61 1 100))]\<rparr>"

definition sample_second_commit :: RetryStateSnapshot where
  "sample_second_commit = \<lparr>rss_store_id = sample_id 1, rss_options = sample_options,
     rss_reference = Some \<lparr>rsr_slot = 2, rsr_generation = 3\<rparr>,
     rss_replay = [replay_of (sample_commit 3 2 4 400) (sample_pending 0x64 4 400)],
     rss_guard = [guard_of (replay_of (sample_commit 2 1 2 200) (sample_pending 0x62 2 200)),
       guard_of (replay_of (sample_commit 3 2 4 400) (sample_pending 0x63 3 300))]\<rparr>"

lemmas sample_run_defs = sample_installed_def sample_first_commit_def sample_second_commit_def sample_batch_one_def
  sample_batch_two_def sample_pending_def sample_commit_def sample_options_def sample_qualification_def sample_retry_def
  retry_empty_persisted_def cutoff_from_manifest_def state_advance_def validate_transition_preflight_def
  MAX_PERSISTED_RETRY_ENTRIES_def checked_sub_def checked_add_def entry_conflicts_def state_classify_def retry_classify_def
  replay_of_def guard_of_def validate_state_def validate_root_def root_shape_refused_def newest_covered_def
  outcome_refused_def outcome_commit_refused_def outcome_generation_refused_def root_commit_refused_def
  ACTIVE_JOURNAL_GENERATION_def usize_saturating_add_def word_le_nat_alt Let_def

lemma sample_commits:
  "state_advance sample_installed \<lparr>rsr_slot = 1, rsr_generation = 2\<rparr> sample_batch_one (sample_commit 2 1 2 200) =
     Inr sample_first_commit"
  "state_advance sample_first_commit \<lparr>rsr_slot = 2, rsr_generation = 3\<rparr> sample_batch_two (sample_commit 3 2 4 400) =
     Inr sample_second_commit"
  by (simp_all add: sample_run_defs)

lemma sample_second_reachable:
  "retry_reachable (sample_id 1) sample_options (Some (sample_commit 3 2 4 400)) sample_second_commit"
proof -
  have "retry_options_new 1 2 = Inr sample_options"
    by (simp add: retry_options_new_def sample_options_def MAX_PERSISTED_RETRY_ENTRIES_def)
  then have "retry_reachable (sample_id 1) sample_options None sample_installed"
    unfolding sample_installed_def by (rule retry_installed) simp_all
  then show ?thesis using sample_commits by (blast intro: retry_committed)
qed

lemma sample_valid: "validate_state sample_first_commit = Inr ()" "validate_state sample_second_commit = Inr ()"
  using sample_commits state_advance_parts(2) by blast+

theorem retry_advance_refines_queue_witness:
  "rss_replay sample_second_commit = keep 1 (rss_replay sample_first_commit @ map (replay_of (sample_commit 3 2 4 400)) sample_batch_two)"
  using retry_advance_refines_queue [OF sample_valid(1) sample_commits(2)]
  by (simp add: sample_first_commit_def sample_options_def)

theorem retry_window_dense_witness: "map unat (tracked sample_second_commit) = [2, 3, 4]"
  using retry_window_dense [OF sample_second_reachable]
  by (simp add: sample_commit_def cutoff_from_manifest_def tracked_def sample_second_commit_def guard_of_def replay_of_def
      sample_pending_def)

theorem state_classify_exact_witness:
  "state_classify sample_second_commit (sample_qualification 0x61) = MatchFresh \<and>
   state_classify sample_second_commit (sample_qualification 0x62) = MatchExpired"
  using state_classify_exact [OF sample_valid(2)]
  by (simp add: sample_second_commit_def retained_def guard_of_def replay_of_def sample_pending_def sample_qualification_def
      retry_scope_def sample_retry_def)

end
