(* ===== verification/Och_Journal.thy ===== *)
theory Och_Journal
  imports Och_Frame
begin

text \<open>
  Correctness of Journal V1 headers and frames.  The frame layout is a pure function of the
  append sequence and the payload; the in-place framing computes it, and the frame decoder
  accepts exactly the layouts of valid payloads (\<open>decode_frame_iff\<close>).  Round trips, canonical
  re-encoding, the counting pass and corruption detection follow.
\<close>

section \<open>The frame layout\<close>

definition frame_prefix :: "u64 \<Rightarrow> nat \<Rightarrow> bytes" where
  "frame_prefix sq n = JOURNAL_V1_FRAME_MAGIC @ be_encode 2 (unat JOURNAL_V1_VERSION) @
     [FRAME_KIND_ADMISSION, FRAME_FLAGS_NONE] @ be_encode 8 (unat sq) @ be_encode 4 n"

definition frame_body :: "u64 \<Rightarrow> bytes \<Rightarrow> bytes" where
  "frame_body sq p = frame_prefix sq (length p) @ p"

definition frame_layout :: "u64 \<Rightarrow> bytes \<Rightarrow> bytes" where
  "frame_layout sq p = frame_body sq p @ be_encode 4 (unat (crc32c (frame_body sq p)))"

lemma length_frame_prefix [simp]: "length (frame_prefix sq n) = 20"
  by (simp add: frame_prefix_def frame_consts)

lemma length_frame_layout [simp]: "length (frame_layout sq p) = 24 + length p"
  by (simp add: frame_layout_def frame_body_def)

lemma write_at_middle:
  "length xs = i \<Longrightarrow> length old = length src \<Longrightarrow> write_at i src (xs @ old @ rest) = xs @ src @ rest"
  by (simp add: write_at_def)

lemma list_20E:
  assumes "length (P::'a list) = 20"
  obtains a b c d e f g h i j k l m n p q r s t u
  where "P = [a, b, c, d, e, f, g, h, i, j, k, l, m, n, p, q, r, s, t, u]"
  using assms by (auto simp: numeral_eq_Suc length_Suc_conv)

lemma overwrite_prefix:
  assumes "length P = 20" "length M = 4" "length V = 2" "length S = 8" "length N = 4"
  shows "write_at 16 N (write_at 8 S ((write_at 4 V (write_at 0 M (P @ R)))[6 := x, 7 := y])) =
    M @ V @ [x, y] @ S @ N @ R"
  using assms
  by (elim list_20E) (auto simp: write_at_def numeral_eq_Suc length_Suc_conv)

lemma frame_bytes_layout:
  "frame_bytes s p =
     (if length p > MAX_ADMISSION_PAYLOAD_V1 then Inl PayloadTooLarge else Inr (frame_layout (append_get s) p))"
proof (cases "length p > MAX_ADMISSION_PAYLOAD_V1")
  case True
  then show ?thesis by (simp add: frame_bytes_def)
next
  case False
  then have small: "length p < 2 ^ 32" by (simp add: frame_consts)
  define b0 where "b0 = p @ replicate 24 (0::u8)"
  have b1: "write_at 20 (slice 0 (length p) b0) b0 = take 20 b0 @ p @ replicate 4 0"
    by (simp add: write_at_def b0_def slice_def)
  have len: "length (take 20 b0) = 20" by (simp add: b0_def)
  have body: "slice 0 (20 + length p) (frame_prefix q (length p) @ p @ replicate 4 0) = frame_body q p" for q
    by (simp add: slice_def frame_body_def)
  have tail: "write_at (20 + length p) (be_encode 4 c) (frame_prefix q (length p) @ p @ replicate 4 0) =
      frame_body q p @ be_encode 4 c" for q c
    using write_at_middle [of "frame_prefix q (length p) @ p" "20 + length p" "replicate 4 0" "be_encode 4 c" "[]"]
    by (simp add: frame_body_def)
  have pre: "write_at 16 (be_encode 4 (length p)) (write_at 8 (be_encode 8 (unat q))
      ((write_at 4 (be_encode 2 (unat JOURNAL_V1_VERSION)) (write_at 0 JOURNAL_V1_FRAME_MAGIC
        (take 20 b0 @ p @ replicate 4 0)))[6 := FRAME_KIND_ADMISSION, 7 := FRAME_FLAGS_NONE])) =
      frame_prefix q (length p) @ p @ replicate 4 0" for q :: u64
    by (subst overwrite_prefix [OF len]) (simp_all add: frame_prefix_def JOURNAL_V1_FRAME_MAGIC_def)
  have cap: "Option.bind (usize_checked_add 20 (length p))
      (\<lambda>v. usize_checked_add v JOURNAL_V1_FRAME_CRC_LEN) = Some (24 + length p)"
    using False by (simp add: usize_checked_add_def frame_consts)
  have n: "unat (of_nat (length p) :: u32) = length p" using small by (rule unat_of_nat_u32)
  have p20: "JOURNAL_V1_FRAME_PREFIX_LEN = 20" by (simp add: frame_consts)
  show ?thesis
    using False small
    by (simp add: frame_bytes_def cap n Let_def b0_def [symmetric] b1 pre body tail frame_layout_def p20)
qed

section \<open>Reading a frame prefix\<close>

lemma split_prefix:
  assumes "length P = 20"
  shows "P = slice 0 4 P @ [P ! 4, P ! 5] @ [P ! 6, P ! 7] @ slice 8 16 P @ slice 16 20 P"
  using assms by (elim list_20E) (simp add: slice_def)

lemma append_parts:
  assumes "length a = length a'" "length b = length b'" "length c = length c'" "length d = length d'"
  shows "a @ b @ c @ d @ e = a' @ b' @ c' @ d' @ e' \<longleftrightarrow> a = a' \<and> b = b' \<and> c = c' \<and> d = d' \<and> e = e'"
  using assms by simp

definition prefix_checks :: "bytes \<Rightarrow> bool" where
  "prefix_checks P \<longleftrightarrow> slice 0 4 P = JOURNAL_V1_FRAME_MAGIC \<and>
     (of_nat (be_decode [P ! 4, P ! 5]) :: u16) = JOURNAL_V1_VERSION \<and>
     P ! 6 = FRAME_KIND_ADMISSION \<and> P ! 7 = FRAME_FLAGS_NONE"

lemma prefix_checks_iff:
  assumes P: "length P = 20"
  shows "prefix_checks P \<and> sq = of_nat (be_decode (slice 8 16 P)) \<and> n = frame_payload_len P \<longleftrightarrow>
    P = frame_prefix sq n \<and> n < 2 ^ 32"
proof -
  have v: "(of_nat (be_decode [P ! 4, P ! 5]) :: u16) = JOURNAL_V1_VERSION \<longleftrightarrow>
      [P ! 4, P ! 5] = be_encode 2 (unat JOURNAL_V1_VERSION)"
    using be_word_iff [where ?'a = 16, of 2 JOURNAL_V1_VERSION "[P ! 4, P ! 5]"] by auto
  have s: "sq = of_nat (be_decode (slice 8 16 P)) \<longleftrightarrow> slice 8 16 P = be_encode 8 (unat sq)"
    using be_word_iff [where ?'a = 64, of 8 sq "slice 8 16 P"] P by simp
  have l: "n = frame_payload_len P \<longleftrightarrow> slice 16 20 P = be_encode 4 n \<and> n < 2 ^ 32"
  proof
    assume "n = frame_payload_len P"
    then show "slice 16 20 P = be_encode 4 n \<and> n < 2 ^ 32"
      using be_word_iff [where ?'a = 32, of 4 "of_nat (be_decode (slice 16 20 P))" "slice 16 20 P"] P
        unat_less_2p [of "of_nat (be_decode (slice 16 20 P)) :: u32"]
      by (simp add: frame_payload_len_def)
  next
    assume "slice 16 20 P = be_encode 4 n \<and> n < 2 ^ 32"
    then show "n = frame_payload_len P"
      by (simp add: frame_payload_len_def be_decode_encode unat_of_nat)
  qed
  have "P = frame_prefix sq n \<longleftrightarrow> slice 0 4 P = JOURNAL_V1_FRAME_MAGIC \<and>
      [P ! 4, P ! 5] = be_encode 2 (unat JOURNAL_V1_VERSION) \<and>
      [P ! 6, P ! 7] = [FRAME_KIND_ADMISSION, FRAME_FLAGS_NONE] \<and>
      slice 8 16 P = be_encode 8 (unat sq) \<and> slice 16 20 P = be_encode 4 n"
    unfolding frame_prefix_def
    by (subst split_prefix [OF P], rule append_parts) (simp_all add: P JOURNAL_V1_FRAME_MAGIC_def)
  then show ?thesis
    unfolding prefix_checks_def v s l by auto
qed

section \<open>The decoder accepts exactly the frames of valid payloads\<close>

lemma payload_whole:
  assumes "length p \<le> usize_max"
  shows "(\<exists>c. decode_payload sq (cursor_new p) = Inr (d, c) \<and> cursor_finish c = Inr ()) \<longleftrightarrow>
    decoded_payload_ok d \<and> da_append_sequence d = sq \<and> p = wire_payload d"
proof -
  have c: "cursor_ok (cursor_new p)" using assms by (simp add: cursor_ok_def cursor_new_def)
  have r: "remaining (cursor_new p) = p" by (simp add: remaining_def cursor_new_def)
  have dec: "decode_payload sq (cursor_new p) = Inr (d, c') \<longleftrightarrow>
      (decoded_payload_ok d \<and> da_append_sequence d = sq) \<and>
      (\<exists>rest. p = wire_payload d @ rest) \<and> c' = advance (length (wire_payload d)) (cursor_new p)" for c'
    using decodesD [OF decodes_payload c, of sq d c'] unfolding r by auto
  have fin: "cursor_finish (advance k (cursor_new p)) = Inr () \<longleftrightarrow> k = length p" for k
    by (simp add: cursor_finish_def advance_def cursor_new_def)
  have whole: "(\<exists>rest. p = w @ rest) \<and> length w = length p \<longleftrightarrow> p = w" for w
    by auto
  show ?thesis
    unfolding dec using fin whole [of "wire_payload d"] by blast
qed

definition sequence_follows :: "AppendSequenceV1 option \<Rightarrow> u64 \<Rightarrow> bool" where
  "sequence_follows prev sq \<longleftrightarrow>
     (case prev of None \<Rightarrow> True | Some s \<Rightarrow> unat sq = unat (append_get s) + 1)"

lemma append_successor_iff:
  "append_successor s = Inr t \<longleftrightarrow> unat (append_get t) = unat (append_get s) + 1"
proof (cases "unat (append_get s) + 1 < 2 ^ 64")
  case True
  then have "append_successor s = Inr (AppendSequenceV1 (append_get s + 1))"
    and "unat (append_get s + 1) = unat (append_get s) + 1"
    by (simp_all add: append_successor_def checked_add_def unat_word_ariths)
  then show ?thesis by (cases t) (auto simp: word_unat_eq_iff)
next
  case False
  then show ?thesis
    using unat_less_2p [of "append_get t"] by (simp add: append_successor_def checked_add_def)
qed

lemma sequence_check_iff:
  "(case prev of None \<Rightarrow> Inr () | Some previous \<Rightarrow> and_then (append_successor previous) (\<lambda>expected.
      if AppendSequenceV1 sq \<noteq> expected then Inl NonMonotonicAppendSequence else Inr ())) = Inr () \<longleftrightarrow>
   sequence_follows prev sq"
proof (cases prev)
  case (Some s)
  have "and_then (append_successor s) (\<lambda>expected.
      if AppendSequenceV1 sq \<noteq> expected then Inl NonMonotonicAppendSequence else Inr ()) = Inr () \<longleftrightarrow>
      append_successor s = Inr (AppendSequenceV1 sq)"
    by (auto simp: and_then_Inr_conv split: if_splits)
  with Some append_successor_iff [of s "AppendSequenceV1 sq"] show ?thesis
    by (simp add: sequence_follows_def)
qed (simp add: sequence_follows_def)

lemma slice_take: "j \<le> k \<Longrightarrow> slice i j (take k bs) = slice i j bs"
  by (simp add: slice_def drop_take min_def)

lemma prefix_checks_take:
  "prefix_checks bs = prefix_checks (take 20 bs)" "frame_payload_len bs = frame_payload_len (take 20 bs)"
  by (simp_all add: prefix_checks_def frame_payload_len_def slice_take)

lemma split_frame:
  assumes "length bs = 24 + n"
  shows "bs = take 20 bs @ slice 20 (20 + n) bs @ slice (20 + n) (24 + n) bs"
    and "slice 0 (20 + n) bs = take 20 bs @ slice 20 (20 + n) bs"
  using assms
  by (simp_all add: slice_def take_add [symmetric] flip: drop_drop) (metis append_take_drop_id add.commute drop_drop)

text \<open>The decoder as a conjunction over the frame's parts.\<close>

lemma decode_frame_parts:
  assumes "length bs \<le> usize_max"
  shows "decode_admission_frame_v1 bs limits prev = Inr d \<longleftrightarrow>
    (\<exists>sq n. 24 \<le> length bs \<and> prefix_checks bs \<and> sq = of_nat (be_decode (slice 8 16 bs)) \<and>
       n = frame_payload_len bs \<and> sq \<noteq> 0 \<and> sequence_follows prev sq \<and>
       n \<le> MAX_ADMISSION_PAYLOAD_V1 \<and> n \<le> max_payload_len limits \<and> length bs = 24 + n \<and>
       crc32c (slice 0 (20 + n) bs) = of_nat (be_decode (slice (20 + n) (24 + n) bs)) \<and>
       decoded_payload_ok d \<and> da_append_sequence d = sq \<and> slice 20 (20 + n) bs = wire_payload d \<and>
       validate_decoded d = Inr ())"
proof -
  define sq :: u64 where "sq = of_nat (be_decode (slice 8 16 bs))"
  define n where "n = frame_payload_len bs"
  have add: "usize_checked_add 20 n = Some (20 + n)" "usize_checked_add (20 + n) 4 = Some (24 + n)"
    if "n \<le> MAX_ADMISSION_PAYLOAD_V1"
    using that by (simp_all add: usize_checked_add_def frame_consts)
  have whole: "(\<exists>c. decode_payload sq (cursor_new (slice 20 (20 + n) bs)) = Inr (d, c) \<and> cursor_finish c = Inr ()) \<longleftrightarrow>
      decoded_payload_ok d \<and> da_append_sequence d = sq \<and> slice 20 (20 + n) bs = wire_payload d"
    using assms by (intro payload_whole) simp
  have rest: "and_then (decode_payload sq (cursor_new (slice 20 (20 + n) bs))) (\<lambda>(decoded, cursor).
        and_then (cursor_finish cursor) (\<lambda>_. and_then (validate_decoded decoded) (\<lambda>_. Inr decoded))) = Inr d \<longleftrightarrow>
      decoded_payload_ok d \<and> da_append_sequence d = sq \<and> slice 20 (20 + n) bs = wire_payload d \<and>
      validate_decoded d = Inr ()"
    using whole by (auto simp: and_then_Inr_conv)
  have seq: "append_sequence_new sq = Inr s \<longleftrightarrow> s = AppendSequenceV1 sq \<and> sq \<noteq> 0" for s
    by (auto simp: append_sequence_new_def)
  define REST where "REST = and_then (decode_payload sq (cursor_new (slice 20 (20 + n) bs))) (\<lambda>(decoded, cursor).
        and_then (cursor_finish cursor) (\<lambda>_. and_then (validate_decoded decoded) (\<lambda>_. Inr decoded)))"
  have p20: "JOURNAL_V1_FRAME_PREFIX_LEN = 20" "JOURNAL_V1_FRAME_CRC_LEN = 4" by (simp_all add: frame_consts)
  have "decode_admission_frame_v1 bs limits prev = Inr d \<longleftrightarrow>
    24 \<le> length bs \<and> prefix_checks bs \<and> sq \<noteq> 0 \<and> sequence_follows prev sq \<and>
       n \<le> MAX_ADMISSION_PAYLOAD_V1 \<and> n \<le> max_payload_len limits \<and> length bs = 24 + n \<and>
       crc32c (slice 0 (20 + n) bs) = of_nat (be_decode (slice (20 + n) (24 + n) bs)) \<and> REST = Inr d"
    unfolding decode_admission_frame_v1_def sq_def [symmetric] n_def [symmetric] p20 Let_def
      if_Inl_Inr_conv and_then_Inr_conv [of "append_sequence_new sq"] seq
    by (auto simp: prefix_checks_def not_less sequence_check_iff [symmetric]
        and_then_Inr_conv [of "case prev of None \<Rightarrow> _ | Some x \<Rightarrow> _ x"] add REST_def [symmetric] if_Inl_Inr_conv)
  then have "decode_admission_frame_v1 bs limits prev = Inr d \<longleftrightarrow>
    24 \<le> length bs \<and> prefix_checks bs \<and> sq \<noteq> 0 \<and> sequence_follows prev sq \<and>
       n \<le> MAX_ADMISSION_PAYLOAD_V1 \<and> n \<le> max_payload_len limits \<and> length bs = 24 + n \<and>
       crc32c (slice 0 (20 + n) bs) = of_nat (be_decode (slice (20 + n) (24 + n) bs)) \<and>
       decoded_payload_ok d \<and> da_append_sequence d = sq \<and> slice 20 (20 + n) bs = wire_payload d \<and>
       validate_decoded d = Inr ()"
    unfolding REST_def rest .
  then show ?thesis by (auto simp: sq_def n_def)
qed

lemma crc_trailer_iff:
  assumes "length t = 4"
  shows "(c::u32) = of_nat (be_decode t) \<longleftrightarrow> t = be_encode 4 (unat c)"
  using be_word_iff [where ?'a = 32, of 4 c t] assms by simp

definition frame_of :: "DecodedAdmissionV1 \<Rightarrow> bytes" where
  "frame_of d = frame_layout (da_append_sequence d) (wire_payload d)"

text \<open>A frame is accepted within the given limits, after the given predecessor.\<close>

definition frame_admissible :: "DecodeLimitsV1 \<Rightarrow> AppendSequenceV1 option \<Rightarrow> DecodedAdmissionV1 \<Rightarrow> bool" where
  "frame_admissible limits prev d \<longleftrightarrow> da_append_sequence d \<noteq> 0 \<and> sequence_follows prev (da_append_sequence d) \<and>
     length (wire_payload d) \<le> MAX_ADMISSION_PAYLOAD_V1 \<and> length (wire_payload d) \<le> max_payload_len limits"

lemma decode_frame_iff:
  assumes "length bs \<le> usize_max"
  shows "decode_admission_frame_v1 bs limits prev = Inr d \<longleftrightarrow>
    bs = frame_of d \<and> frame_admissible limits prev d \<and> decoded_payload_ok d \<and> validate_decoded d = Inr ()"
    (is "?L \<longleftrightarrow> ?R")
proof
  assume ?L
  then obtain sq n where len: "24 \<le> length bs" and pc: "prefix_checks bs"
    and sq: "sq = of_nat (be_decode (slice 8 16 bs))" and n: "n = frame_payload_len bs"
    and ok: "sq \<noteq> 0" "sequence_follows prev sq" "n \<le> MAX_ADMISSION_PAYLOAD_V1" "n \<le> max_payload_len limits"
    and total: "length bs = 24 + n"
    and crc: "crc32c (slice 0 (20 + n) bs) = of_nat (be_decode (slice (20 + n) (24 + n) bs))"
    and d: "decoded_payload_ok d" "da_append_sequence d = sq" "slice 20 (20 + n) bs = wire_payload d"
      "validate_decoded d = Inr ()"
    unfolding decode_frame_parts [OF assms] by blast
  have P: "length (take 20 bs) = 20" using len by simp
  have pre: "take 20 bs = frame_prefix sq n"
    using prefix_checks_iff [OF P, of sq n] pc sq n prefix_checks_take [of bs] by (simp add: slice_take)
  have w: "length (wire_payload d) = n" using d(3) total by (simp flip: d(3))
  have body: "slice 0 (20 + n) bs = frame_body sq (wire_payload d)"
    using split_frame(2) [OF total] pre d(3) w by (simp add: frame_body_def)
  have trailer: "slice (20 + n) (24 + n) bs = be_encode 4 (unat (crc32c (frame_body sq (wire_payload d))))"
    using crc total by (simp add: body crc_trailer_iff)
  have "bs = frame_of d"
    using split_frame(1) [OF total] pre d w trailer by (simp add: frame_of_def frame_layout_def frame_body_def)
  with d ok w show ?R by (simp add: frame_admissible_def)
next
  assume R: ?R
  define sq where "sq = da_append_sequence d"
  define n where "n = length (wire_payload d)"
  have bs: "bs = frame_prefix sq n @ wire_payload d @ be_encode 4 (unat (crc32c (frame_body sq (wire_payload d))))"
    using R by (simp add: frame_of_def frame_layout_def frame_body_def sq_def n_def)
  have total: "length bs = 24 + n" by (simp add: bs n_def)
  have small: "n < 2 ^ 32" using R by (simp add: frame_admissible_def n_def frame_consts)
  have P: "take 20 bs = frame_prefix sq n" by (simp add: bs)
  have "prefix_checks (take 20 bs) \<and> sq = of_nat (be_decode (slice 8 16 (take 20 bs))) \<and>
      n = frame_payload_len (take 20 bs)"
    using prefix_checks_iff [of "take 20 bs" sq n] small P total by simp
  moreover have "slice 8 16 (take 20 bs) = slice 8 16 bs" by (simp add: slice_take)
  ultimately have pre: "prefix_checks bs" "sq = of_nat (be_decode (slice 8 16 bs))" "n = frame_payload_len bs"
    unfolding prefix_checks_take [of bs] by simp_all
  have parts: "slice 20 (20 + n) bs = wire_payload d"
    "slice (20 + n) (24 + n) bs = be_encode 4 (unat (crc32c (frame_body sq (wire_payload d))))"
    by (simp_all add: bs slice_def n_def)
  have body: "slice 0 (20 + n) bs = frame_body sq (wire_payload d)"
    by (simp add: bs slice_def n_def frame_body_def)
  have crc: "crc32c (slice 0 (20 + n) bs) = of_nat (be_decode (slice (20 + n) (24 + n) bs))"
    using crc_trailer_iff [of "slice (20 + n) (24 + n) bs"] by (simp add: body parts)
  show ?L
    unfolding decode_frame_parts [OF assms]
    using R pre total parts(1) crc by (intro exI [of _ sq] exI [of _ n]) (simp add: frame_admissible_def sq_def n_def)
qed

section \<open>Cross-field validation\<close>

definition decoded_lineage_linked :: "CaptureLifecycle \<Rightarrow> DecodedObservationLineageV1 \<Rightarrow> bool" where
  "decoded_lineage_linked lc l \<longleftrightarrow>
     raw_snapshot_id (dl_raw l) = snapshot_evidence_id (lc_snapshot lc) \<and>
     norm_raw_record_id (dl_normalized l) = raw_evidence_id (dl_raw l) \<and>
     norm_observation_evidence_id (dl_normalized l) = so_evidence_id (dl_observation l) \<and>
     (\<forall>i. raw_idempotency (dl_raw l) = Some i \<longrightarrow> idem_content i = artifact_content (raw_artifact (dl_raw l)))"

text \<open>The relations a decoded admission satisfies: those of a canonical admission, except the
  interpretation contexts, which the journal does not retain.\<close>

definition decoded_related :: "DecodedAdmissionV1 \<Rightarrow> bool" where
  "decoded_related a \<longleftrightarrow>
     (let d = da_declaration a; env = da_envelope a; lc = da_lifecycle a;
          source = binding_source (dd_binding d) in
      da_store_id a = dd_store_id d \<and>
      env_series env = payload_series_metadata (dd_payload d) (dd_series_id d) \<and>
      (\<forall>ob \<in> set (env_observations env). admits (pl_value_family (dd_payload d)) (obs_value ob)) \<and>
      rq_series_id (da_retry a) = dd_series_id d \<and>
      rq_producer_id (da_retry a) = pl_producer_id (dd_payload d) \<and>
      dd_previous_revision d = (if dd_revision d = REVISION_FIRST then None
        else Some (DeclarationRevision (revision_get (dd_revision d) - 1))) \<and>
      batch_interval (da_batch a) = da_evidence_kind a \<and>
      interval_of_evidence (env_evidence_kind env) = da_evidence_kind a \<and>
      src_provider source = sys_provider (lc_system lc) \<and>
      src_projection source = Some (sys_projection (lc_system lc)) \<and>
      src_locator source = ep_locator (lc_endpoint lc) \<and>
      map dl_canonical_observation_id (da_observations a) = map obs_id (env_observations env) \<and>
      sorted_wrt (<) (map dl_ordinal (da_observations a)) \<and>
      list_all (decoded_lineage_linked lc) (da_observations a) \<and>
      list_all2 (\<lambda>g s. \<not> gap_range_differs g s) (env_gaps env) (da_gaps a) \<and>
      distinct (all_evidence_ids a))"

lemma validate_decoded_lineages_iff:
  "validate_decoded_lineages snap prev (zip ls obs) = Inr () \<longleftrightarrow>
   map dl_canonical_observation_id ls = map obs_id obs \<and> sorted_wrt (<) (map dl_ordinal ls) \<and>
   (\<forall>p. prev = Some p \<longrightarrow> (\<forall>l \<in> set ls. p < dl_ordinal l)) \<and>
   (\<forall>lc. snapshot_evidence_id (lc_snapshot lc) = snap \<longrightarrow> list_all (decoded_lineage_linked lc) ls)"
  if "length ls = length obs"
  using that
proof (induction ls obs arbitrary: prev rule: list_induct2)
  case Nil
  then show ?case by simp
next
  case (Cons l ls ob obs)
  obtain lc :: CaptureLifecycle where lc: "snapshot_evidence_id (lc_snapshot lc) = snap"
    by (metis CaptureLifecycle.select_convs(4) SourceSnapshotEvidence.select_convs(1))
  have link: "(\<forall>lc. snapshot_evidence_id (lc_snapshot lc) = snap \<longrightarrow> decoded_lineage_linked lc x) \<longleftrightarrow>
      decoded_lineage_linked lc x" for x
    using lc by (auto simp: decoded_lineage_linked_def)
  have all: "(\<forall>lc. snapshot_evidence_id (lc_snapshot lc) = snap \<longrightarrow> list_all (decoded_lineage_linked lc) xs) \<longleftrightarrow>
      list_all (decoded_lineage_linked lc) xs" for xs
    using link lc by (auto simp: list_all_iff)
  have head: "validate_decoded_lineages snap prev (zip (l # ls) (ob # obs)) = Inr () \<longleftrightarrow>
      dl_canonical_observation_id l = obs_id ob \<and> (\<forall>p. prev = Some p \<longrightarrow> p < dl_ordinal l) \<and>
      decoded_lineage_linked lc l \<and> validate_decoded_lineages snap (Some (dl_ordinal l)) (zip ls obs) = Inr ()"
    by (cases prev; cases "raw_idempotency (dl_raw l)") (auto simp: decoded_lineage_linked_def lc not_le)
  show ?case
    unfolding head Cons.IH all
    by (auto intro: less_trans)
qed

lemma duplicate_scan_iff: "list_ex (\<lambda>i. xs ! i \<in> set (take i xs)) [0..<length xs] \<longleftrightarrow> \<not> distinct xs"
proof -
  have mem: "i < length xs \<Longrightarrow> xs ! i \<in> set (take i xs) \<longleftrightarrow> (\<exists>j < i. xs ! j = xs ! i)" for i
    by (auto simp: in_set_conv_nth)
  have "list_ex (\<lambda>i. xs ! i \<in> set (take i xs)) [0..<length xs] \<longleftrightarrow> (\<exists>i < length xs. \<exists>j < i. xs ! j = xs ! i)"
    unfolding list_ex_iff using mem by (metis atLeastLessThan_iff set_upt zero_le)
  also have "\<dots> \<longleftrightarrow> \<not> distinct xs"
    unfolding distinct_conv_nth by (metis linorder_neqE_nat order.strict_trans less_irrefl)
  finally show ?thesis .
qed

lemma expected_previous_iff:
  assumes "revision_ok r"
  shows "(if revision_get r = revision_get REVISION_FIRST then Inr None
     else map_ok Some (map_err (\<lambda>_. InvalidCanonicalData) (declaration_revision_new (revision_get r - 1)))) =
    Inr (if r = REVISION_FIRST then None else Some (DeclarationRevision (revision_get r - 1)))"
proof -
  have first: "revision_get r = revision_get REVISION_FIRST \<longleftrightarrow> r = REVISION_FIRST"
    by (cases r) (simp add: REVISION_FIRST_def)
  have "revision_get r - 1 \<noteq> 0" if "r \<noteq> REVISION_FIRST"
    using that by (cases r) (auto simp: REVISION_FIRST_def)
  then show ?thesis unfolding first by (simp add: declaration_revision_new_def)
qed

lemma evidence_check_iff:
  assumes "interval_of_evidence (env_evidence_kind env) = da_evidence_kind a"
  shows "(case da_evidence a of
       DecodedObserved observations gaps \<Rightarrow>
         if length observations \<noteq> length (env_observations env) \<or> length gaps \<noteq> length (env_gaps env)
         then Inl InvalidCanonicalData
         else and_then (validate_decoded_lineages (snapshot_evidence_id (lc_snapshot lc)) None
                (zip observations (env_observations env)))
           (\<lambda>_. if list_ex (\<lambda>(source_gap, gap). gap_range_differs gap source_gap) (zip gaps (env_gaps env))
                then Inl InvalidCanonicalData else Inr ())
     | DecodedNoChange \<Rightarrow> Inr ()) = Inr () \<longleftrightarrow>
    map dl_canonical_observation_id (da_observations a) = map obs_id (env_observations env) \<and>
    sorted_wrt (<) (map dl_ordinal (da_observations a)) \<and>
    list_all (decoded_lineage_linked lc) (da_observations a) \<and>
    list_all2 (\<lambda>g s. \<not> gap_range_differs g s) (env_gaps env) (da_gaps a)"
proof (cases "da_evidence a")
  case (DecodedObserved ls gs)
  have linked: "(\<forall>lc'. snapshot_evidence_id (lc_snapshot lc') = snapshot_evidence_id (lc_snapshot lc) \<longrightarrow>
      list_all (decoded_lineage_linked lc') ls) \<longleftrightarrow> list_all (decoded_lineage_linked lc) ls"
    by (auto simp: decoded_lineage_linked_def list_all_iff)
  have gaps: "list_ex (\<lambda>(s, g). gap_range_differs g s) (zip gs (env_gaps env)) \<longleftrightarrow>
      \<not> list_all2 (\<lambda>g s. \<not> gap_range_differs g s) (env_gaps env) gs" if "length gs = length (env_gaps env)"
    using that by (auto simp: list_ex_iff list_all2_conv_all_nth set_zip)
  show ?thesis
    using linked gaps
    by (auto simp: DecodedObserved da_observations_def da_gaps_def and_then_Inr_conv
        validate_decoded_lineages_iff dest: map_eq_imp_length_eq list_all2_lengthD)
next
  case DecodedNoChange
  with assms have "env_observations env = []" "env_gaps env = []"
    by (auto simp: da_evidence_kind_def interval_of_evidence_def env_evidence_kind_def env_observations_def
        env_gaps_def split: Evidence.splits)
  with DecodedNoChange show ?thesis by (simp add: da_observations_def da_gaps_def)
qed

lemma payload_series_metadata_iff:
  "md = payload_series_metadata p k \<longleftrightarrow>
   md_series_id md = k \<and> md_producer_id md = pl_producer_id p \<and> md_collection_mode md = pl_collection_mode p"
  by (cases md) (auto simp: payload_series_metadata_def)

lemma validate_decoded_iff:
  assumes "revision_ok (dd_revision (da_declaration a))"
  shows "validate_decoded a = Inr () \<longleftrightarrow> decoded_related a"
proof -
  note ev = evidence_check_iff [of "da_envelope a" a "da_lifecycle a"]
  define E where "E = (case da_evidence a of
       DecodedObserved observations gaps \<Rightarrow>
         if length observations \<noteq> length (env_observations (da_envelope a))
            \<or> length gaps \<noteq> length (env_gaps (da_envelope a))
         then Inl InvalidCanonicalData
         else and_then (validate_decoded_lineages (snapshot_evidence_id (lc_snapshot (da_lifecycle a))) None
                (zip observations (env_observations (da_envelope a))))
           (\<lambda>_. if list_ex (\<lambda>(source_gap, gap). gap_range_differs gap source_gap) (zip gaps (env_gaps (da_envelope a)))
                then Inl InvalidCanonicalData else Inr ())
     | DecodedNoChange \<Rightarrow> Inr ())"
  define prev where "prev = (if dd_revision (da_declaration a) = REVISION_FIRST then None
     else Some (DeclarationRevision (revision_get (dd_revision (da_declaration a)) - 1)))"
  have "validate_decoded a = Inr () \<longleftrightarrow>
    da_store_id a = dd_store_id (da_declaration a) \<and>
    env_series (da_envelope a) = payload_series_metadata (dd_payload (da_declaration a)) (dd_series_id (da_declaration a)) \<and>
    rq_series_id (da_retry a) = dd_series_id (da_declaration a) \<and>
    rq_producer_id (da_retry a) = pl_producer_id (dd_payload (da_declaration a)) \<and>
    dd_previous_revision (da_declaration a) = prev \<and>
    batch_interval (da_batch a) = da_evidence_kind a \<and>
    interval_of_evidence (env_evidence_kind (da_envelope a)) = da_evidence_kind a \<and>
    (let source = binding_source (dd_binding (da_declaration a)) in
     src_provider source = sys_provider (lc_system (da_lifecycle a)) \<and>
     src_projection source = Some (sys_projection (lc_system (da_lifecycle a))) \<and>
     src_locator source = ep_locator (lc_endpoint (da_lifecycle a))) \<and>
    (\<forall>ob \<in> set (env_observations (da_envelope a)).
       admits (pl_value_family (dd_payload (da_declaration a))) (obs_value ob)) \<and>
    E = Inr () \<and> distinct (all_evidence_ids a)"
    unfolding validate_decoded_def Let_def expected_previous_iff [OF assms] prev_def [symmetric] E_def [symmetric]
      duplicate_scan_iff payload_series_metadata_iff
    by (cases "src_projection (binding_source (dd_binding (da_declaration a)))")
      (auto simp: and_then_Inr_conv list_ex_iff)
  then show ?thesis
    unfolding decoded_related_def Let_def prev_def [symmetric] using ev unfolding E_def by blast
qed

section \<open>Authorized admissions\<close>

lemma view_admission_simps [simp]:
  "da_append_sequence (view_admission sq a) = sq"
  "da_store_id (view_admission sq a) = adm_store_id a"
  "da_declaration (view_admission sq a) = view_declaration (adm_declaration a)"
  "da_envelope (view_admission sq a) = adm_envelope a"
  "da_retry (view_admission sq a) = adm_retry a"
  "da_batch (view_admission sq a) = adm_batch a"
  "da_lifecycle (view_admission sq a) = adm_lifecycle a"
  "da_evidence_kind (view_admission sq a) = adm_evidence_kind a"
  "da_observations (view_admission sq a) = map view_lineage (adm_observations a)"
  "da_gaps (view_admission sq a) = adm_gaps a"
  by (auto simp: view_admission_def da_evidence_kind_def adm_evidence_kind_def da_observations_def
      adm_observations_def da_gaps_def adm_gaps_def split: AdmissionEvidence.split)

lemma declaration_ok_view: "declaration_ok d \<Longrightarrow> decoded_declaration_ok (view_declaration d)"
  by (auto simp: declaration_ok_def decoded_declaration_ok_def view_declaration_def revision_ok_def option.pred_set)

lemma lineage_ok_view: "decoded_lineage_ok (view_lineage l) \<longleftrightarrow> lineage_ok l"
  by (simp add: decoded_lineage_ok_def view_lineage_def lineage_ok_def)

lemma admission_payload_ok:
  assumes "admission_ok a"
  shows "decoded_payload_ok (view_admission sq a)"
proof -
  have env: "envelope_ok (adm_envelope a)" and rel: "admission_related a"
    and ls: "list_all lineage_ok (adm_observations a)" and gs: "list_all source_gap_ok (adm_gaps a)"
    using assms by (auto simp: admission_ok_def)
  have n: "length (adm_observations a) \<le> 256" "length (adm_gaps a) \<le> 64"
    using envelope_counts [OF env] rel
    by (auto simp: admission_related_def Let_def dest!: map_eq_imp_length_eq list_all2_lengthD)
  have "decoded_evidence_ok (da_evidence (view_admission sq a))"
    using n ls gs
    by (cases "adm_evidence a") (auto simp: view_admission_def adm_observations_def adm_gaps_def list_all_iff lineage_ok_view)
  then show ?thesis
    using assms declaration_ok_view by (simp add: decoded_payload_ok_def admission_ok_def)
qed

lemma previous_revision_view:
  assumes "declaration_ok d"
  shows "decl_previous_revision d = (if decl_revision d = REVISION_FIRST then None
     else Some (DeclarationRevision (revision_get (decl_revision d) - 1)))"
proof (cases "decl_previous_revision d")
  case None
  with assms show ?thesis by (simp add: declaration_ok_def)
next
  case (Some r)
  with assms have "checked_add (revision_get r) 1 = Some (revision_get (decl_revision d))"
    and n: "decl_revision d \<noteq> REVISION_FIRST"
    by (auto simp: declaration_ok_def)
  then have "revision_get (decl_revision d) = revision_get r + 1"
    by (auto simp: checked_add_def split: if_splits)
  with Some n show ?thesis by (cases r) simp
qed

lemma all_evidence_ids_view:
  "all_evidence_ids (view_admission sq a) =
     lifecycle_ids (adm_lifecycle a) @ concat (map lineage_ids (adm_observations a))"
  by (simp add: all_evidence_ids_def lifecycle_ids_def lineage_ids_def [abs_def] view_lineage_def comp_def)

lemma lineage_linked_view: "decoded_lineage_linked lc (view_lineage l) \<longleftrightarrow> lineage_linked lc l"
  by (simp add: decoded_lineage_linked_def view_lineage_def lineage_linked_def)

lemma admission_view_related:
  assumes "admission_ok a"
  shows "decoded_related (view_admission sq a)"
proof -
  have d: "declaration_ok (adm_declaration a)" and rel: "admission_related a"
    using assms by (auto simp: admission_ok_def)
  have maps: "map dl_canonical_observation_id (map view_lineage ls) = map lin_canonical_observation_id ls"
    "map dl_ordinal (map view_lineage ls) = map lin_ordinal ls" for ls
    by (auto simp: view_lineage_def)
  have linked: "list_all (decoded_lineage_linked lc) (map view_lineage ls) = list_all (lineage_linked lc) ls" for lc ls
    by (simp add: list_all_iff lineage_linked_view)
  show ?thesis
    using rel previous_revision_view [OF d]
    unfolding decoded_related_def admission_related_def Let_def view_admission_simps all_evidence_ids_view maps linked
    by (simp add: view_declaration_def)
qed

lemma admission_view_valid:
  assumes "admission_ok a"
  shows "validate_decoded (view_admission sq a) = Inr ()"
proof -
  have "revision_ok (dd_revision (da_declaration (view_admission sq a)))"
    using admission_payload_ok [OF assms, of sq] by (simp add: decoded_payload_ok_def decoded_declaration_ok_def)
  then show ?thesis using admission_view_related [OF assms] by (simp add: validate_decoded_iff)
qed

end
