(* ===== verification/Och_Bounds.thy ===== *)
theory Och_Bounds
  imports Och_Journal
begin

text \<open>
  Size bounds of the wire layouts.  The field limits of the canonical model imply that every
  valid payload fits the 8 MiB Journal V1 maximum, so framing a valid admission never refuses.
\<close>

named_theorems wire_lengths "length bounds of the layouts of valid values"

lemma wire_list_bound:
  assumes "\<And>x. x \<in> set xs \<Longrightarrow> length (w x) \<le> n" "length xs \<le> k"
  shows "length (wire_list w xs) \<le> 4 + n * k"
proof -
  have "length (concat (map w xs)) \<le> n * length xs"
    using assms(1) by (induction xs) (auto, fastforce)
  also have "\<dots> \<le> n * k" using assms(2) by simp
  finally show ?thesis by (simp add: wire_list_def)
qed

lemma wire_leaf_bounds [wire_lengths]:
  "length (wire_timestamp t) = 12"
  "length (wire_time_interval i) = 24"
  "length (wire_position p) = 32"
  "length (wire_quality q) = 2"
  "length (wire_gap g) = 49"
  "length (wire_source_gap s) = 49"
  "length (wire_revision r) = 16"
  by (simp_all add: wire_timestamp_def wire_time_interval_def wire_position_def wire_quality_def
      wire_gap_def wire_source_gap_def wire_revision_def)

lemma wire_string_bounds [wire_lengths]:
  "portable_token_ok t \<Longrightarrow> length (wire_token t) \<le> 260"
  "exact_text_ok x \<Longrightarrow> length (wire_string (exact_text_str x)) \<le> 16388"
  "retry_key_ok k \<Longrightarrow> length (wire_string (retry_key_str k)) \<le> 132"
  "content_format_ok f \<Longrightarrow> length (wire_string (content_format_str f)) \<le> 68"
  "reference_ok r \<Longrightarrow> length (wire_reference r) \<le> 4100"
  "projection_ok p \<Longrightarrow> length (wire_projection p) \<le> 4100"
  using wire_bounds(1) [of t] wire_bounds(4) [of k] wire_bounds(7) [of x] wire_bounds(10) [of f]
    wire_bounds(13) [of r] wire_bounds(13) [of "projection_reference p"]
  by (simp_all add: wire_token_def wire_string_def wire_reference_def wire_projection_def projection_ok_def)

lemma optional_leaf_bounds [wire_lengths]:
  "length (wire_option wire_timestamp v1) \<le> 13"
  "length (wire_option wire_position v2) \<le> 33"
  "length (wire_option wire_time_interval v3) \<le> 25"
  "length (wire_option wire_revision v4) \<le> 17"
  subgoal by (cases v1) (simp_all add: wire_lengths)
  subgoal by (cases v2) (simp_all add: wire_lengths)
  subgoal by (cases v3) (simp_all add: wire_lengths)
  subgoal by (cases v4) (simp_all add: wire_lengths)
  done

lemma wire_content_bound: "content_ok c \<Longrightarrow> length (wire_content c) \<le> 116"
  using wire_string_bounds(4) [of "content_format c"] by (simp add: wire_content_def content_ok_def)

lemma wire_artifact_bound: "artifact_ok a \<Longrightarrow> length (wire_artifact a) \<le> 132"
  using wire_content_bound [of "artifact_content a"]
  by (simp add: wire_artifact_def artifact_ok_def identity_ok_length)

lemma wire_idempotency_bound: "idempotency_ok i \<Longrightarrow> length (wire_idempotency i) \<le> 248"
  using wire_content_bound [of "idem_content i"] wire_string_bounds(3) [of "idem_key i"]
  by (simp add: wire_idempotency_def idempotency_ok_def)

lemma wire_optional_bounds:
  "pred_option artifact_ok v1 \<Longrightarrow> length (wire_option wire_artifact v1) \<le> 133"
  "pred_option idempotency_ok v2 \<Longrightarrow> length (wire_option wire_idempotency v2) \<le> 249"
  "pred_option reference_ok v3 \<Longrightarrow> length (wire_option wire_reference v3) \<le> 4101"
  "pred_option projection_ok v4 \<Longrightarrow> length (wire_option wire_projection v4) \<le> 4101"
  "pred_option portable_token_ok v5 \<Longrightarrow> length (wire_option wire_token v5) \<le> 261"
  subgoal by (cases v1) (auto dest: wire_artifact_bound)
  subgoal by (cases v2) (auto dest: wire_idempotency_bound)
  subgoal by (cases v3) (auto dest: wire_string_bounds(5))
  subgoal by (cases v4) (auto dest: wire_string_bounds(6))
  subgoal by (cases v5) (auto dest: wire_string_bounds(1))
  done

lemma wire_exact_value_bound: "exact_value_ok v \<Longrightarrow> length (wire_exact_value v) \<le> 16389"
proof (cases v)
  case (State s)
  assume "exact_value_ok v"
  with State show ?thesis
    using wire_string_bounds(1) [of "state_class s"] wire_string_bounds(1) [of "state_member s"] by simp
next
  case (Text t)
  assume "exact_value_ok v"
  with Text show ?thesis using wire_string_bounds(2) [of t] by simp
next
  case (Artifact a)
  assume "exact_value_ok v"
  with Artifact show ?thesis using wire_artifact_bound [of a] by simp
next
  case (UnavailableValue u)
  assume "exact_value_ok v"
  with UnavailableValue show ?thesis using wire_optional_bounds(5) [of "unavailable_reason u"] by simp
qed simp_all

lemma wire_native_status_bound: "native_status_ok s \<Longrightarrow> length (wire_native_status s) \<le> 4164"
  unfolding wire_native_status_def
  by (rule order_trans [OF wire_list_bound, of _ _ 260 16])
    (auto simp: native_status_ok_def MAX_NATIVE_STATUS_TOKENS_def list_all_iff intro: wire_string_bounds)

lemma wire_observation_bound: "observation_ok ob \<Longrightarrow> length (wire_observation ob) \<le> 20666"
  using wire_exact_value_bound [of "obs_value ob"] wire_native_status_bound [of "obs_native_status ob"]
    optional_leaf_bounds(1) [of "times_source (obs_times ob)"]
    optional_leaf_bounds(2) [of "obs_producer_position ob"] optional_leaf_bounds(3) [of "obs_interval ob"]
  by (simp add: wire_observation_def observation_ok_def wire_observation_times_def wire_leaf_bounds identity_ok_length)

lemma wire_envelope_bound: "envelope_ok e \<Longrightarrow> length (wire_envelope e) \<le> 5293674"
proof (cases "env_evidence e")
  case (ObservedEvidence obs gaps)
  assume e: "envelope_ok e"
  with ObservedEvidence have ok: "list_all observation_ok obs" "metadata_ok (env_series e)"
    and n: "length obs \<le> 256" "length gaps \<le> 64"
    using observed_spec_counts by (auto simp: envelope_ok_def)
  have "length (wire_list wire_observation obs) \<le> 4 + 20666 * 256"
    using ok wire_observation_bound by (intro wire_list_bound [OF _ n(1)]) (auto simp: list_all_iff)
  moreover have "length (wire_list wire_gap gaps) \<le> 4 + 49 * 64"
    by (intro wire_list_bound [OF _ n(2)]) (simp add: wire_leaf_bounds)
  ultimately show ?thesis
    using ok ObservedEvidence
    by (simp add: wire_envelope_def wire_series_metadata_def metadata_ok_def identity_ok_length)
next
  case (NoChangeEvidence nc)
  assume "envelope_ok e"
  with NoChangeEvidence show ?thesis
    by (simp add: wire_envelope_def envelope_ok_def wire_series_metadata_def metadata_ok_def identity_ok_length
        wire_leaf_bounds)
qed

lemma wire_quantity_unit_bounds:
  "quantity_ok q \<Longrightarrow> length (wire_quantity q) \<le> 4101"
  "unit_ok u \<Longrightarrow> length (wire_unit u) \<le> 4101"
  subgoal by (cases q) (auto dest: wire_string_bounds(5))
  subgoal by (cases u) (auto dest: wire_string_bounds(5))
  done

lemma wire_declaration_bound: "decoded_declaration_ok d \<Longrightarrow> length (wire_declaration d) \<le> 24832"
proof -
  assume d: "decoded_declaration_ok d"
  let ?b = "dd_binding d" and ?p = "dd_payload d" and ?e = "dd_evidence d"
  have "length (wire_binding ?b) \<le> 12301"
    using d wire_string_bounds(5) [of "src_provider (binding_source ?b)"]
      wire_string_bounds(5) [of "src_locator (binding_source ?b)"]
      wire_optional_bounds(4) [of "src_projection (binding_source ?b)"]
    by (simp add: decoded_declaration_ok_def binding_ok_def source_reference_ok_def wire_binding_def
        wire_source_reference_def)
  moreover have "length (wire_declaration_payload ?p) \<le> 12321"
    using d wire_quantity_unit_bounds(1) [of "pl_quantity ?p"] wire_quantity_unit_bounds(2) [of "pl_unit ?p"] wire_optional_bounds(3) [of "pl_application ?p"]
    by (simp add: decoded_declaration_ok_def payload_ok_def wire_declaration_payload_def identity_ok_length)
  moreover have "length (wire_declaration_evidence ?e) \<le> 145"
    using d wire_optional_bounds(1) [of "de_artifact ?e"]
    by (simp add: decoded_declaration_ok_def declaration_evidence_ok_def wire_declaration_evidence_def wire_leaf_bounds)
  ultimately show ?thesis
    using d optional_leaf_bounds(4) [of "dd_previous_revision d"]
    by (simp add: wire_declaration_def decoded_declaration_ok_def identity_ok_length wire_leaf_bounds)
qed

lemma wire_retry_batch_bounds:
  "retry_ok r \<Longrightarrow> length (wire_retry r) \<le> 280"
  "batch_ok b \<Longrightarrow> length (wire_batch b) \<le> 4117"
  using wire_content_bound [of "rq_content r"] wire_string_bounds(3) [of "rq_key r"]
    wire_string_bounds(5) [of "schema_reference (batch_schema b)"]
  by (simp_all add: wire_retry_def retry_ok_def wire_batch_def batch_ok_def identity_ok_length)

lemma wire_lifecycle_bound: "lifecycle_ok lc \<Longrightarrow> length (wire_lifecycle lc) \<le> 12569"
  using wire_string_bounds(5) [of "sys_provider (lc_system lc)"] wire_string_bounds(6) [of "sys_projection (lc_system lc)"]
    wire_string_bounds(5) [of "ep_locator (lc_endpoint lc)"] wire_artifact_bound [of "snapshot_artifact (lc_snapshot lc)"]
    optional_leaf_bounds(1) [of "run_completed_at (lc_run lc)"]
  by (simp add: wire_lifecycle_def lifecycle_ok_parts system_ok_def endpoint_ok_def run_ok_def snapshot_ok_def
      wire_system_def wire_endpoint_def wire_run_def wire_snapshot_def identity_ok_length wire_leaf_bounds)

lemma wire_lineage_bound: "decoded_lineage_ok l \<Longrightarrow> length (wire_lineage l) \<le> 993"
  using wire_optional_bounds(1) [of "so_provenance_artifact (dl_observation l)"]
    wire_optional_bounds(2) [of "so_idempotency (dl_observation l)"]
    wire_optional_bounds(2) [of "raw_idempotency (dl_raw l)"] wire_artifact_bound [of "raw_artifact (dl_raw l)"]
    wire_content_bound [of "norm_content (dl_normalized l)"]
  by (simp add: wire_lineage_def decoded_lineage_ok_def source_observation_ok_def raw_record_ok_def
      normalized_record_ok_def wire_source_observation_def wire_raw_record_def wire_normalized_record_def
      identity_ok_length)

lemma wire_evidence_bound: "decoded_evidence_ok ev \<Longrightarrow> length (wire_evidence ev) \<le> 257353"
proof (cases ev)
  case (DecodedObserved ls gs)
  assume ev: "decoded_evidence_ok ev"
  with DecodedObserved have ls: "length ls \<le> 256" "list_all decoded_lineage_ok ls" and gs: "length gs \<le> 64"
    by auto
  have "length (wire_list wire_lineage ls) \<le> 4 + 993 * 256"
    using ls(2) wire_lineage_bound by (intro wire_list_bound [OF _ ls(1)]) (auto simp: list_all_iff)
  moreover have "length (wire_list wire_source_gap gs) \<le> 4 + 49 * 64"
    by (intro wire_list_bound [OF _ gs]) (simp add: wire_leaf_bounds)
  ultimately show ?thesis using DecodedObserved by simp
qed simp

theorem wire_payload_bound: "decoded_payload_ok d \<Longrightarrow> length (wire_payload d) \<le> MAX_ADMISSION_PAYLOAD_V1"
  using wire_declaration_bound [of "da_declaration d"] wire_envelope_bound [of "da_envelope d"]
    wire_retry_batch_bounds(1) [of "da_retry d"] wire_retry_batch_bounds(2) [of "da_batch d"] wire_lifecycle_bound [of "da_lifecycle d"]
    wire_evidence_bound [of "da_evidence d"]
  by (simp add: decoded_payload_ok_def wire_payload_def identity_ok_length MAX_ADMISSION_PAYLOAD_V1_def)

end
