(* ===== verification/Och_Retry_Artifact.thy ===== *)
theory Och_Retry_Artifact
  imports Och_Retry_Codec Och_Retry_Window Och_Bounds
begin

text \<open>
  The Retry State V1 artifact is total on valid snapshots and canonical: every valid snapshot has an
  artifact within its limit, and the decoder accepts exactly those artifacts.
\<close>

section \<open>Wire forms\<close>

definition catalog_field_ok :: "GenerationCatalogReference option \<Rightarrow> bool" where
  "catalog_field_ok c \<longleftrightarrow> pred_option (\<lambda>r. gcr_slot r < 3 \<and> gcr_generation r > 0 \<and> gcr_length r > 0) c"

definition wire_catalog_field :: "GenerationCatalogReference option \<Rightarrow> bytes" where
  "wire_catalog_field c = (case c of None \<Rightarrow> replicate 40 0
   | Some r \<Rightarrow> [1, gcr_slot r] @ replicate 6 0 @ be_encode 8 (unat (gcr_generation r)) @ be_encode 8 (unat (gcr_length r))
       @ be_encode 4 (unat (gcr_checksum r)) @ replicate 12 0)"

definition wire_replay :: "RetryReplayOutcome \<Rightarrow> bytes" where
  "wire_replay o' = (let commit = rro_committed o'; cutoff = mc_durable_cutoff commit; retry = mc_retry_state commit in
     wire_retry (rro_qualification o') @ be_encode 8 (unat (rro_append_sequence o')) @ be_encode 8 (unat (rro_end_offset o'))
     @ be_encode 8 (unat (mc_manifest_generation commit)) @ [mc_registry_slot commit] @ replicate 7 0
     @ be_encode 8 (unat (mc_registry_generation commit)) @ be_encode 8 (unat (ji_generation (cut_journal cutoff)))
     @ be_encode 8 (unat (cut_checkpoint_generation cutoff)) @ be_encode 8 (unat (cut_append_sequence cutoff))
     @ be_encode 8 (unat (cut_end_offset cutoff)) @ [rsr_slot retry] @ replicate 7 0
     @ be_encode 8 (unat (rsr_generation retry)) @ be_encode 8 (unat (mc_sequence_floor commit))
     @ wire_catalog_field (mc_catalog commit))"

definition wire_guard :: "RetryGuardEntry \<Rightarrow> bytes" where
  "wire_guard g = wire_retry (rge_qualification g) @ be_encode 8 (unat (rge_append_sequence g))"

definition replay_wire_ok :: "StoreId \<Rightarrow> RetryReplayOutcome \<Rightarrow> bool" where
  "replay_wire_ok store o' \<longleftrightarrow> retry_ok (rro_qualification o') \<and> commit_store (rro_committed o') = store \<and>
     catalog_field_ok (mc_catalog (rro_committed o'))"

definition guard_wire_ok :: "RetryGuardEntry \<Rightarrow> bool" where
  "guard_wire_ok g \<longleftrightarrow> retry_ok (rge_qualification g)"

definition retry_payload :: "RetryStateSnapshot \<Rightarrow> bytes" where
  "retry_payload s = concat (map wire_replay (rss_replay s)) @ concat (map wire_guard (rss_guard s))"

lemma encode_catalog_field_wire [enc_simps]:
  "encoder_ok e \<Longrightarrow> encode_catalog_field c e = Inr (enc_bytes (wire_catalog_field c) e)"
  by (cases c) (simp_all add: encode_catalog_field_def wire_catalog_field_def enc_simps)

lemma encode_replay_wire [enc_simps]:
  "encoder_ok e \<Longrightarrow> retry_ok (rro_qualification o') \<Longrightarrow> encode_replay_outcome o' e = Inr (enc_bytes (wire_replay o') e)"
  by (simp add: encode_replay_outcome_def wire_replay_def Let_def enc_simps)

lemma encode_guard_wire [enc_simps]:
  "encoder_ok e \<Longrightarrow> retry_ok (rge_qualification g) \<Longrightarrow> encode_guard_entry g e = Inr (enc_bytes (wire_guard g) e)"
  by (simp add: encode_guard_entry_def wire_guard_def enc_simps)

lemma encode_retry_payload_wire:
  assumes "list_all retry_ok (retained s)" "encoder_ok e"
  shows "encode_retry_payload s e = Inr (enc_bytes (retry_payload s) e)"
proof -
  have "enc_each encode_replay_outcome (rss_replay s) e = Inr (enc_bytes (concat (map wire_replay (rss_replay s))) e)"
    using assms by (intro enc_each_wire encode_replay_wire) (auto simp: retained_def list_all_iff)
  moreover have "enc_each encode_guard_entry (rss_guard s) e' = Inr (enc_bytes (concat (map wire_guard (rss_guard s))) e')"
    if "encoder_ok e'" for e'
    using assms that by (intro enc_each_wire encode_guard_wire) (auto simp: retained_def list_all_iff)
  ultimately show ?thesis using assms(2) by (simp add: encode_retry_payload_def retry_payload_def)
qed

section \<open>Sizes\<close>

lemma length_wire_catalog_field [simp]: "length (wire_catalog_field c) = 40"
  by (cases c) (simp_all add: wire_catalog_field_def)

lemma wire_entry_bounds:
  "retry_ok (rro_qualification o') \<Longrightarrow> length (wire_replay o') \<le> 416"
  "retry_ok (rge_qualification g) \<Longrightarrow> length (wire_guard g) \<le> 416"
  using wire_retry_batch_bounds(1) [of "rro_qualification o'"] wire_retry_batch_bounds(1) [of "rge_qualification g"]
  by (simp_all add: wire_replay_def wire_guard_def Let_def)

lemma length_concat_bound: "list_all (\<lambda>x. length (w x) \<le> k) xs \<Longrightarrow> length (concat (map w xs)) \<le> length xs * k"
  by (induction xs) auto

lemma validate_state_count: "validate_state s = Inr () \<Longrightarrow> length (rss_replay s) + length (rss_guard s) \<le> 4096"
  by (auto simp: validate_state_def usize_saturating_add_def MAX_PERSISTED_RETRY_ENTRIES_def usize_max_eq split: if_splits)

lemma retry_payload_bound:
  assumes "validate_state s = Inr ()" "list_all retry_ok (retained s)"
  shows "length (retry_payload s) \<le> 1703936"
proof -
  have "list_all (\<lambda>o'. length (wire_replay o') \<le> 416) (rss_replay s)" "list_all (\<lambda>g. length (wire_guard g) \<le> 416) (rss_guard s)"
    using assms(2) wire_entry_bounds by (auto simp: retained_def list_all_iff)
  then have "length (retry_payload s) \<le> length (rss_replay s) * 416 + length (rss_guard s) * 416"
    using length_concat_bound [of wire_replay 416] length_concat_bound [of wire_guard 416]
    unfolding retry_payload_def by (fastforce intro: add_mono)
  then show ?thesis using validate_state_count [OF assms(1)] by simp
qed

section \<open>Decoding the tiers\<close>

lemma decodes_reserved [decodes_intros]: "decodes (cur_reserved n) (\<lambda>x bs. bs = replicate n 0)"
  unfolding cur_reserved_def
  by (rule decodes_eq, (rule decodes_intros)+) (auto simp: list_ex_iff intro!: replicate_eqI)

lemma zero_field_bytes:
  "replicate 40 (0::u8) = 0 # 0 # replicate 6 0 @ be_encode 8 0 @ be_encode 8 0 @ be_encode 4 0 @ replicate 12 0"
  by code_simp

lemma decodes_catalog_field [decodes_intros]:
  "decodes decode_catalog_field (\<lambda>c bs. catalog_field_ok c \<and> bs = wire_catalog_field c)"
  unfolding decode_catalog_field_def
  apply (rule decodes_eq, (rule decodes_intros)+)
  subgoal for c bs
  proof (cases c)
    case None
    then show ?thesis by (auto simp: catalog_field_ok_def wire_catalog_field_def zero_field_bytes)
  next
    case (Some r)
    then show ?thesis by (cases r) (auto simp: catalog_field_ok_def wire_catalog_field_def)
  qed
  done

lemma decodes_replay_outcome [decodes_intros]:
  "decodes (decode_replay_outcome store) (\<lambda>o' bs. replay_wire_ok store o' \<and> bs = wire_replay o')"
  unfolding decode_replay_outcome_def
  apply (rule decodes_eq, (rule decodes_intros)+)
  subgoal for o' bs
    by (cases o'; cases "rro_committed o'"; cases "mc_durable_cutoff (rro_committed o')";
        cases "cut_journal (mc_durable_cutoff (rro_committed o'))"; cases "mc_retry_state (rro_committed o')")
      (auto simp: replay_wire_ok_def wire_replay_def cutoff_from_manifest_def)
  done

lemma decodes_guard_entry [decodes_intros]:
  "decodes decode_guard_entry (\<lambda>g bs. guard_wire_ok g \<and> bs = wire_guard g)"
  unfolding decode_guard_entry_def
  apply (rule decodes_eq, (rule decodes_intros)+)
  subgoal for g bs by (cases g) (auto simp: guard_wire_ok_def wire_guard_def)
  done


lemma decodes_tiers:
  "decodes (decode_tiers store n k) (\<lambda>x bs. length (fst x) = n \<and> length (snd x) = k \<and>
     list_all (replay_wire_ok store) (fst x) \<and> list_all guard_wire_ok (snd x) \<and>
     bs = concat (map wire_replay (fst x)) @ concat (map wire_guard (snd x)))"
  unfolding decode_tiers_def
  apply (rule decodes_eq, (rule decodes_intros)+)
  subgoal for x bs by (cases x) auto
  done

section \<open>The layout\<close>

definition retry_header :: "RetryStateSnapshot \<Rightarrow> RetryStateReference \<Rightarrow> bytes" where
  "retry_header s r = RETRY_MAGIC @ be_encode 2 1 @ be_encode 2 64 @ id_bytes (rss_store_id s)
     @ be_encode 8 (unat (rsr_generation r)) @ be_encode 4 (replay_capacity (rss_options s))
     @ be_encode 4 (guard_capacity (rss_options s)) @ be_encode 4 (length (rss_replay s))
     @ be_encode 4 (length (rss_guard s)) @ be_encode 8 (length (retry_payload s)) @ replicate 4 0"

definition retry_layout :: "RetryStateSnapshot \<Rightarrow> RetryStateReference \<Rightarrow> bytes" where
  "retry_layout s r = seal (retry_header s r @ retry_payload s)"

text \<open>What the constructors of its parts ensure of a snapshot, beside what \<open>validate_state\<close> tests.\<close>

definition retry_snapshot_ok :: "RetryStateSnapshot \<Rightarrow> bool" where
  "retry_snapshot_ok s \<longleftrightarrow> identity_ok (rss_store_id s) \<and> options_ok (rss_options s) \<and> list_all retry_ok (retained s) \<and>
     list_all (\<lambda>o'. catalog_field_ok (mc_catalog (rro_committed o'))) (rss_replay s)"

lemma length_retry_header: "identity_ok (rss_store_id s) \<Longrightarrow> length (retry_header s r) = 64"
  by (simp add: retry_header_def RETRY_MAGIC_def identity_ok_def)

lemma retry_counts:
  assumes "retry_snapshot_ok s" "validate_state s = Inr ()"
  shows "replay_capacity (rss_options s) < 4294967296" "guard_capacity (rss_options s) < 4294967296"
    "length (rss_replay s) < 4294967296" "length (rss_guard s) < 4294967296" "length (retry_payload s) \<le> 1703936"
  using assms validate_state_count [OF assms(2)] retry_payload_bound [OF assms(2)]
  by (auto simp: retry_snapshot_ok_def options_ok_def MAX_PERSISTED_RETRY_ENTRIES_def)

lemma encode_retry_layout:
  assumes ok: "retry_snapshot_ok s" and v: "validate_state s = Inr ()" and r: "rss_reference s = Some r"
  shows "encode_retry_state s = Inr (retry_layout s r)"
proof -
  let ?p = "retry_payload s" and ?t = "64 + length (retry_payload s) + 4"
  note c = retry_counts [OF ok v]
  have id: "length (id_bytes (rss_store_id s)) = 16" using ok by (simp add: retry_snapshot_ok_def identity_ok_def)
  have q: "list_all retry_ok (retained s)" using ok by (simp add: retry_snapshot_ok_def)
  have pay: "encode_retry_payload s encoder_counting = Inr (EncoderCount (length ?p))"
    "encode_retry_payload s encoder_new = Inr (EncoderBytes ?p)"
    using encode_retry_payload_wire [OF q, of encoder_counting] encode_retry_payload_wire [OF q, of encoder_new] c(5)
    by (simp_all add: encoder_counting_def encoder_new_def usize_saturating_add_def usize_max_eq)
  have total: "Option.bind (usize_checked_add 64 (length ?p)) (\<lambda>n. usize_checked_add n 4) = Some ?t"
    using c(5) by (simp add: usize_checked_add_def usize_max_eq)
  have tries: "u32_try_from (replay_capacity (rss_options s)) = Inr (of_nat (replay_capacity (rss_options s)))"
    "u32_try_from (guard_capacity (rss_options s)) = Inr (of_nat (guard_capacity (rss_options s)))"
    "u32_try_from (length (rss_replay s)) = Inr (of_nat (length (rss_replay s)))"
    "u32_try_from (length (rss_guard s)) = Inr (of_nat (length (rss_guard s)))"
    "u64_try_from (length ?p) = Inr (of_nat (length ?p))"
    using c by (simp_all add: u32_try_from_def u64_try_from_def)
  have unats: "unat (of_nat (replay_capacity (rss_options s)) :: u32) = replay_capacity (rss_options s)"
    "unat (of_nat (guard_capacity (rss_options s)) :: u32) = guard_capacity (rss_options s)"
    "unat (of_nat (length (rss_replay s)) :: u32) = length (rss_replay s)"
    "unat (of_nat (length (rss_guard s)) :: u32) = length (rss_guard s)"
    "unat (of_nat (length ?p) :: u64) = length ?p"
    using c by (simp_all add: unat_of_nat)
  define H where "H = RETRY_MAGIC @ be_encode 2 1 @ be_encode 2 64 @ id_bytes (rss_store_id s)
     @ be_encode 8 (unat (rsr_generation r)) @ be_encode 4 (replay_capacity (rss_options s))
     @ be_encode 4 (guard_capacity (rss_options s)) @ be_encode 4 (length (rss_replay s))
     @ be_encode 4 (length (rss_guard s)) @ be_encode 8 (length ?p)"
  have H: "length H = 60" by (simp add: H_def RETRY_MAGIC_def id)
  have hdr: "retry_header s r = H @ replicate 4 0" by (simp add: retry_header_def H_def)
  have head: "write_at 52 (be_encode 8 (length ?p)) (write_at 48 (be_encode 4 (length (rss_guard s)))
     (write_at 44 (be_encode 4 (length (rss_replay s))) (write_at 40 (be_encode 4 (guard_capacity (rss_options s)))
     (write_at 36 (be_encode 4 (replay_capacity (rss_options s))) (write_at 28 (be_encode 8 (unat (rsr_generation r)))
     (write_at 12 (id_bytes (rss_store_id s)) (write_at 10 (be_encode 2 64) (write_at 8 (be_encode 2 1)
     (write_at 0 RETRY_MAGIC (replicate ?t 0)))))))))) = pad ?t H"
    unfolding pad_empty using id by (simp add: pad_write H_def RETRY_MAGIC_def)
  have body: "write_at 64 ?p (pad ?t H) = pad ?t (retry_header s r @ ?p)"
    using pad_skip [of H 4 64 ?p ?t] H by (simp add: hdr)
  have lb: "length (retry_header s r @ ?p) = 64 + length ?p" using H by (simp add: hdr)
  have "slice 0 (64 + length ?p) (pad ?t (retry_header s r @ ?p)) = retry_header s r @ ?p"
    using pad_slice [of "retry_header s r @ ?p" 0 "64 + length ?p" ?t] lb by simp
  moreover have "write_at (64 + length ?p) (be_encode 4 (unat (crc32c (retry_header s r @ ?p)))) (pad ?t (retry_header s r @ ?p))
      = retry_layout s r"
    using lb by (subst pad_write) (simp_all add: pad_full retry_layout_def seal_def)
  ultimately show ?thesis
    unfolding encode_retry_state_def encode_retry_state_with_limit_def
    using c(5) total head body
    by (simp add: v r pay tries unats Let_def RETRY_HEADER_LEN_def RETRY_CRC_LEN_def MAX_RETRY_STATE_BYTES_def
        RETRY_VERSION_def RETRY_HEADER_LEN_U16_def del: append_assoc)
qed


section \<open>The decoder accepts exactly the layouts\<close>

lemma retry_header_fields:
  assumes "retry_snapshot_ok s" "validate_state s = Inr ()" "h = retry_header s r"
  shows "slice 0 8 h = RETRY_MAGIC" "read_u16 8 h = 1" "read_u16 10 h = 64" "slice 12 28 h = id_bytes (rss_store_id s)"
    "read_u64 28 h = rsr_generation r" "unat (read_u32 36 h) = replay_capacity (rss_options s)"
    "unat (read_u32 40 h) = guard_capacity (rss_options s)" "unat (read_u32 44 h) = length (rss_replay s)"
    "unat (read_u32 48 h) = length (rss_guard s)" "unat (read_u64 52 h) = length (retry_payload s)"
    "slice 60 64 h = replicate 4 0"
proof -
  note c = retry_counts [OF assms(1,2)]
  have id: "length (id_bytes (rss_store_id s)) = 16" using assms(1) by (simp add: retry_snapshot_ok_def identity_ok_def)
  show "slice 0 8 h = RETRY_MAGIC" "read_u16 8 h = 1" "read_u16 10 h = 64" "slice 12 28 h = id_bytes (rss_store_id s)"
    "read_u64 28 h = rsr_generation r" "unat (read_u32 36 h) = replay_capacity (rss_options s)"
    "unat (read_u32 40 h) = guard_capacity (rss_options s)" "unat (read_u32 44 h) = length (rss_replay s)"
    "unat (read_u32 48 h) = length (rss_guard s)" "unat (read_u64 52 h) = length (retry_payload s)"
    "slice 60 64 h = replicate 4 0"
    unfolding assms(3) retry_header_def using c
    by (simp_all add: read_u64_def read_u32_def read_u16_def slice_def be_field be_decode_encode unat_of_nat RETRY_MAGIC_def id)
qed

definition artifact_of :: "RetryStateReference \<Rightarrow> bytes \<Rightarrow> RetryArtifactReference" where
  "artifact_of r bs = \<lparr>rar_public = r, rar_length = of_nat (length bs), rar_checksum = crc32c bs\<rparr>"

lemma validate_state_stores:
  "check_replays store current sc os = Inr () \<Longrightarrow> list_all (\<lambda>o'. commit_store (rro_committed o') = store) os"
  by (induction store current sc os rule: check_replays.induct)
    (auto simp: outcome_commit_refused_def Let_def split: if_splits)

lemma snapshot_tiers:
  assumes "retry_snapshot_ok s" "validate_state s = Inr ()"
  shows "list_all (replay_wire_ok (rss_store_id s)) (rss_replay s)" "list_all guard_wire_ok (rss_guard s)"
proof -
  have "list_all (\<lambda>o'. commit_store (rro_committed o') = rss_store_id s) (rss_replay s)"
    using assms(2) validate_state_stores by (auto simp: validate_state_def result_convs split: if_splits)
  then show "list_all (replay_wire_ok (rss_store_id s)) (rss_replay s)" "list_all guard_wire_ok (rss_guard s)"
    using assms(1) by (auto simp: list_all_iff replay_wire_ok_def guard_wire_ok_def retry_snapshot_ok_def retained_def)
qed

lemma decode_tiers_layout:
  assumes "retry_snapshot_ok s" "validate_state s = Inr ()"
  shows "decode_tiers (rss_store_id s) (length (rss_replay s)) (length (rss_guard s)) (cursor_new (retry_payload s)) =
    Inr ((rss_replay s, rss_guard s), advance (length (retry_payload s)) (cursor_new (retry_payload s)))"
proof -
  have "cursor_ok (cursor_new (retry_payload s))"
    using retry_counts(5) [OF assms] by (simp add: cursor_ok_def cursor_new_def usize_max_eq)
  then show ?thesis
    using snapshot_tiers [OF assms]
    by (subst decodesD [OF decodes_tiers]) (auto simp: retry_payload_def remaining_def cursor_new_def)
qed

lemma decode_retry_layout:
  assumes ok: "retry_snapshot_ok s" and v: "validate_state s = Inr ()" and r: "rss_reference s = Some r"
  shows "decode_retry_state_at_slot (retry_layout s r) (rsr_slot r) (rss_store_id s) (rss_options s) =
    Inr (artifact_of r (retry_layout s r), s)"
proof -
  let ?b = "retry_layout s r" and ?h = "retry_header s r" and ?p = "retry_payload s"
  have i: "identity_ok (rss_store_id s)" and o': "options_ok (rss_options s)" using ok by (simp_all add: retry_snapshot_ok_def)
  have h: "length ?h = 64" by (rule length_retry_header [OF i])
  note c = retry_counts [OF ok v] and f = retry_header_fields [OF ok v refl, of r]
  obtain t where t: "?b = ?h @ ?p @ t" "length t = 4" by (simp add: retry_layout_def seal_def)
  have total: "length ?b = 64 + length ?p + 4" by (simp add: t h)
  then have off: "length ?b - 4 = 64 + length ?p" by simp
  have sl: "slice x y ?b = slice x y ?h" if "x \<le> y" "y \<le> 64" for x y
    using that by (simp add: t slice_append_left h)
  have rd: "read_u16 8 ?b = 1" "read_u16 10 ?b = 64" "read_u64 28 ?b = rsr_generation r"
    "unat (read_u32 36 ?b) = replay_capacity (rss_options s)" "unat (read_u32 40 ?b) = guard_capacity (rss_options s)"
    "unat (read_u32 44 ?b) = length (rss_replay s)" "unat (read_u32 48 ?b) = length (rss_guard s)"
    "unat (read_u64 52 ?b) = length ?p"
    using f by (simp_all add: read_u16_def read_u32_def read_u64_def sl)
  have pay: "slice 64 (64 + length ?p) ?b = ?p"
    using slice_shift [OF h, of "length ?p" ?p 0 t] by (simp add: t slice_full)
  have crc: "crc32c (slice 0 (length ?b - 4) ?b) = read_u32 (length ?b - 4) ?b"
    using trailer_test [of ?b "length ?b - 4"] total by (auto simp: retry_layout_def)
  have id: "identity_from_bytes (slice 12 28 ?b) = Inr (rss_store_id s)"
    using i by (simp add: sl f identity_from_bytes_iff identity_ok_def)
  have opt: "retry_options_new (replay_capacity (rss_options s)) (guard_capacity (rss_options s)) = Inr (rss_options s)"
    using o' by (simp add: retry_options_new_iff)
  have ref: "rsr_slot r < 3" "rsr_generation r \<noteq> 0" using v r by (auto simp: validate_state_def not_le split: if_splits)
  have cap: "length (rss_replay s) \<le> replay_capacity (rss_options s)" "length (rss_guard s) \<le> guard_capacity (rss_options s)"
    "usize_saturating_add (length (rss_replay s)) (length (rss_guard s)) \<le> MAX_PERSISTED_RETRY_ENTRIES"
    using v by (auto simp: validate_state_def not_less split: if_splits)
  have fin: "cursor_finish (advance (length ?p) (cursor_new ?p)) = Inr ()"
    by (simp add: cursor_finish_def advance_def cursor_new_def)
  have s: "\<lparr>rss_store_id = rss_store_id s, rss_options = rss_options s,
      rss_reference = Some \<lparr>rsr_slot = rsr_slot r, rsr_generation = rsr_generation r\<rparr>,
      rss_replay = rss_replay s, rss_guard = rss_guard s\<rparr> = s" using r by simp
  have fit: "usize_checked_add 64 (length ?p) = Some (64 + length ?p)" using c(5) by (simp add: usize_checked_add_def usize_max_eq)
  have len: "u64_try_from (length ?b) = Inr (of_nat (length ?b))" "length ?b \<le> 2097152"
    using c(5) total by (simp_all add: u64_try_from_def)
  have zero: "\<not> list_ex (\<lambda>b. b \<noteq> 0) (slice 60 64 ?b)" by (simp add: sl f list_ex_iff)
  show ?thesis
    unfolding decode_retry_state_at_slot_def Let_def rd id RETRY_CRC_LEN_def crc opt map_err_simps and_then_simps
    using ref cap zero fit len total pay
    by (simp add: sl f off RETRY_HEADER_LEN_def RETRY_VERSION_def RETRY_HEADER_LEN_U16_def MAX_RETRY_STATE_BYTES_def not_le not_less
        decode_tiers_layout [OF ok v] fin s v encode_retry_layout [OF ok v r] artifact_of_def)
qed


lemma decode_retry_iff:
  "decode_retry_state_at_slot bs slot store opts = Inr (a, s) \<longleftrightarrow>
   retry_snapshot_ok s \<and> rss_store_id s = store \<and> rss_options s = opts \<and> encode_retry_state s = Inr bs \<and>
   (\<exists>g. rss_reference s = Some \<lparr>rsr_slot = slot, rsr_generation = g\<rparr> \<and>
      a = artifact_of \<lparr>rsr_slot = slot, rsr_generation = g\<rparr> bs)"
proof
  assume L: "decode_retry_state_at_slot bs slot store opts = Inr (a, s)"
  then have len: "68 \<le> length bs" "length bs \<le> 2097152"
    by (auto simp: decode_retry_state_at_slot_def RETRY_HEADER_LEN_def RETRY_CRC_LEN_def MAX_RETRY_STATE_BYTES_def split: if_splits)
  let ?c = "cursor_new (slice RETRY_HEADER_LEN (length bs - RETRY_CRC_LEN) bs)"
  from L obtain g os gs n k c where id: "identity_from_bytes (slice 12 28 bs) = Inr store"
    and o': "retry_options_new (unat (read_u32 36 bs)) (unat (read_u32 40 bs)) = Inr opts"
    and t: "decode_tiers store n k ?c = Inr ((os, gs), c)"
    and s: "s = \<lparr>rss_store_id = store, rss_options = opts, rss_reference = Some \<lparr>rsr_slot = slot, rsr_generation = g\<rparr>,
        rss_replay = os, rss_guard = gs\<rparr>"
    and e: "encode_retry_state s = Inr bs"
    and a: "\<exists>m. u64_try_from (length bs) = Inr m \<and>
        a = \<lparr>rar_public = \<lparr>rsr_slot = slot, rsr_generation = g\<rparr>, rar_length = m, rar_checksum = crc32c bs\<rparr>"
    by (auto simp: decode_retry_state_at_slot_def Let_def result_convs)
  have "cursor_ok ?c" using len by (auto simp: cursor_ok_def cursor_new_def usize_max_eq min_def)
  then have "list_all (replay_wire_ok store) os" "list_all guard_wire_ok gs"
    using t by (auto simp: decodesD [OF decodes_tiers])
  moreover have "identity_ok store" using id len by (simp add: identity_from_bytes_iff)
  moreover have "options_ok opts" using o' unfolding retry_options_new_iff by blast
  ultimately have "retry_snapshot_ok s"
    by (auto simp: s retry_snapshot_ok_def retained_def replay_wire_ok_def guard_wire_ok_def list_all_iff)
  moreover have "a = artifact_of \<lparr>rsr_slot = slot, rsr_generation = g\<rparr> bs"
    using a len by (auto simp: artifact_of_def u64_try_from_def)
  ultimately show "retry_snapshot_ok s \<and> rss_store_id s = store \<and> rss_options s = opts \<and> encode_retry_state s = Inr bs \<and>
    (\<exists>g. rss_reference s = Some \<lparr>rsr_slot = slot, rsr_generation = g\<rparr> \<and>
      a = artifact_of \<lparr>rsr_slot = slot, rsr_generation = g\<rparr> bs)"
    using e s by simp
next
  assume R: "retry_snapshot_ok s \<and> rss_store_id s = store \<and> rss_options s = opts \<and> encode_retry_state s = Inr bs \<and>
    (\<exists>g. rss_reference s = Some \<lparr>rsr_slot = slot, rsr_generation = g\<rparr> \<and>
      a = artifact_of \<lparr>rsr_slot = slot, rsr_generation = g\<rparr> bs)"
  then obtain g where g: "rss_reference s = Some \<lparr>rsr_slot = slot, rsr_generation = g\<rparr>"
    "a = artifact_of \<lparr>rsr_slot = slot, rsr_generation = g\<rparr> bs" by blast
  have v: "validate_state s = Inr ()"
    using R by (auto simp: encode_retry_state_def encode_retry_state_with_limit_def result_convs)
  have "bs = retry_layout s \<lparr>rsr_slot = slot, rsr_generation = g\<rparr>" using encode_retry_layout [OF _ v g(1)] R by simp
  then show "decode_retry_state_at_slot bs slot store opts = Inr (a, s)"
    using decode_retry_layout [OF _ v g(1)] R g(2) by auto
qed

interpretation retry: checksummed "\<lambda>bs. \<exists>a s. decode_retry_state_at_slot bs slot store opts = Inr (a, s)"
proof unfold_locales
  fix bs
  assume "\<exists>a s. decode_retry_state_at_slot bs slot store opts = Inr (a, s)"
  then obtain s r where d: "retry_snapshot_ok s" "encode_retry_state s = Inr bs" "rss_reference s = Some r"
    by (auto simp: decode_retry_iff)
  then have "validate_state s = Inr ()"
    by (auto simp: encode_retry_state_def encode_retry_state_with_limit_def result_convs)
  then show "\<exists>body. bs = seal body" using encode_retry_layout [OF d(1) _ d(3)] d(2) by (auto simp: retry_layout_def)
qed

section \<open>Properties\<close>

text \<open>(C22) The Retry State V1 artifact is canonical: bytes decode at a slot to a snapshot of the expected store and
  options exactly when the snapshot is well formed and the encoder, which validates it, writes exactly
  these bytes for it; the returned artifact reference records slot, generation, length and checksum.\<close>
theorem retry_artifact_exact:
  "decode_retry_state_at_slot bs slot store opts = Inr (a, s) \<longleftrightarrow>
   retry_snapshot_ok s \<and> rss_store_id s = store \<and> rss_options s = opts \<and> encode_retry_state s = Inr bs \<and>
   (\<exists>g. rss_reference s = Some \<lparr>rsr_slot = slot, rsr_generation = g\<rparr> \<and>
      a = \<lparr>rar_public = \<lparr>rsr_slot = slot, rsr_generation = g\<rparr>, rar_length = of_nat (length bs), rar_checksum = crc32c bs\<rparr>)"
  unfolding decode_retry_iff artifact_of_def ..

text \<open>A committed retry transition always becomes durable and comes back: from a well-formed snapshot and
  well-formed pending outcomes, an accepted transition has an artifact, the artifact keeps to the two
  mebibyte limit for every configuration of the capacities, and decoding it gives the snapshot again.\<close>
theorem retry_commit_durable:
  assumes "retry_snapshot_ok s" "validate_state s = Inr ()" "state_advance s r pending c = Inr s'"
    and "list_all (\<lambda>p. retry_ok (pro_qualification p)) pending" "catalog_field_ok (mc_catalog c)"
  shows "\<exists>bs. encode_retry_state s' = Inr bs \<and> length bs \<le> MAX_RETRY_STATE_BYTES \<and>
    (\<exists>a. decode_retry_state_at_slot bs (rsr_slot r) (rss_store_id s) (rss_options s) = Inr (a, s'))"
proof -
  note parts = state_advance_parts [OF assms(3)]
  let ?all = "rss_replay s @ map (replay_of c) pending"
  have rep: "set (rss_replay s') \<subseteq> set ?all"
    using state_advance_queue(1) [OF assms(3,2)] set_keep [of _ ?all] by (simp add: replay_after_def)
  have grd: "set (rss_guard s') \<subseteq> set (rss_guard s) \<union> guard_of ` set ?all"
    using state_advance_queue(2) [OF assms(3,2)] set_keep set_take_subset
    by (fastforce simp: guard_after_def dest: in_set_takeD)
  have all: "retry_ok (rro_qualification o') \<and> catalog_field_ok (mc_catalog (rro_committed o'))" if "o' \<in> set ?all" for o'
    using that assms(1,4,5) by (auto simp: retry_snapshot_ok_def retained_def list_all_iff replay_of_def)
  have "retry_snapshot_ok s'"
    using assms(1) rep grd all parts
    by (auto simp: retry_snapshot_ok_def retained_def list_all_iff guard_of_def)
  note ok = this and enc = encode_retry_layout [OF this parts(2,6)]
  have "length (retry_layout s' r) = 68 + length (retry_payload s')"
    using ok by (simp add: retry_layout_def length_retry_header retry_snapshot_ok_def)
  then have "length (retry_layout s' r) \<le> MAX_RETRY_STATE_BYTES"
    using retry_counts(5) [OF ok parts(2)] by (simp add: MAX_RETRY_STATE_BYTES_def)
  then show ?thesis using enc decode_retry_layout [OF ok parts(2,6)] parts(4,5) by auto
qed

theorem retry_commit_durable_witness:
  "\<exists>bs a. encode_retry_state sample_second_commit = Inr bs \<and>
     decode_retry_state_at_slot bs 2 (sample_id 1) sample_options = Inr (a, sample_second_commit)"
proof -
  have q: "retry_ok (sample_qualification k)" if "k \<in> {0x61, 0x62, 0x63, 0x64}" for k
    using that sample_admission_parts_ok(1)
    by (auto simp: sample_qualification_def sample_retry_def retry_ok_def retry_key_ok_def validate_printable_ascii_def)
  have "retry_snapshot_ok sample_first_commit"
    using q [of "0x61"] q [of "0x62"]
    by (simp add: retry_snapshot_ok_def sample_first_commit_def sample_options_def options_ok_def retained_def
        replay_of_def guard_of_def sample_pending_def sample_commit_def catalog_field_ok_def MAX_PERSISTED_RETRY_ENTRIES_def)
  moreover have "list_all (\<lambda>p. retry_ok (pro_qualification p)) sample_batch_two"
    using q [of "0x63"] q [of "0x64"] by (simp add: sample_batch_two_def sample_pending_def)
  moreover have "catalog_field_ok (mc_catalog (sample_commit 3 2 4 400))" by (simp add: sample_commit_def catalog_field_ok_def)
  ultimately show ?thesis
    using retry_commit_durable [OF _ sample_valid(1) sample_commits(2)]
    by (auto simp: sample_first_commit_def)
qed

end
