(* ===== verification/Och_Fixed_Queue.thy ===== *)
theory Och_Fixed_Queue
  imports Och_Prelude
begin

text \<open>
  The fixed-capacity FIFO of slot indices of the ingress (\<^verbatim>\<open>och-runtime/src/ingress.rs\<close>, \<open>FixedQueue\<close>), a ring
  over sixteen entries.  The locale states what its user relies on: it behaves as a list.
\<close>

section \<open>The interface\<close>

locale fifo_queue =
  fixes empty :: "'q" and can_push :: "'q \<Rightarrow> bool" and push :: "'a \<Rightarrow> 'q \<Rightarrow> 'q"
    and pop :: "'q \<Rightarrow> 'a option \<times> 'q"
    and ok :: "'q \<Rightarrow> bool" and contents :: "'q \<Rightarrow> 'a list" and capacity :: nat
  assumes empty_ok: "ok empty" and empty_contents: "contents empty = []"
    and can_push_iff: "ok q \<Longrightarrow> can_push q \<longleftrightarrow> length (contents q) < capacity"
    and push_ok: "ok q \<Longrightarrow> can_push q \<Longrightarrow> ok (push x q)"
    and push_contents: "ok q \<Longrightarrow> can_push q \<Longrightarrow> contents (push x q) = contents q @ [x]"
    and pop_ok: "ok q \<Longrightarrow> ok (snd (pop q))"
    and pop_contents: "ok q \<Longrightarrow> pop q = (case contents q of [] \<Rightarrow> (None, q) | x # xs \<Rightarrow> (Some x, snd (pop q)))"
    and pop_rest: "ok q \<Longrightarrow> contents (snd (pop q)) = tl (contents q)"
begin

text \<open>Pushing a list and popping as often gives the same list back, after what was there before.\<close>

fun drain :: "nat \<Rightarrow> 'q \<Rightarrow> 'a list" where
  "drain 0 q = []"
| "drain (Suc n) q = (case pop q of (None, q') \<Rightarrow> [] | (Some x, q') \<Rightarrow> x # drain n q')"

lemma drain_contents: "ok q \<Longrightarrow> drain n q = take n (contents q)"
proof (induction n arbitrary: q)
  case (Suc n)
  show ?case
  proof (cases "contents q")
    case Nil
    then show ?thesis using pop_contents [OF Suc.prems] by simp
  next
    case (Cons x xs)
    then have "pop q = (Some x, snd (pop q))" using pop_contents [OF Suc.prems] by simp
    then have "drain (Suc n) q = x # drain n (snd (pop q))" by (metis drain.simps(2) case_prod_conv option.simps(5))
    also have "drain n (snd (pop q)) = take n xs"
      using Suc.IH [OF pop_ok [OF Suc.prems]] pop_rest [OF Suc.prems] Cons by simp
    finally show ?thesis using Cons by simp
  qed
qed simp

lemma push_all:
  "ok q \<Longrightarrow> length (contents q) + length xs \<le> capacity \<Longrightarrow>
   ok (fold push xs q) \<and> contents (fold push xs q) = contents q @ xs"
proof (induction xs arbitrary: q)
  case (Cons x xs)
  have c: "can_push q" using Cons.prems by (simp add: can_push_iff)
  then show ?case
    using Cons.IH [of "push x q"] push_ok [OF Cons.prems(1) c] push_contents [OF Cons.prems(1) c] Cons.prems(2) by simp
qed simp

lemma fifo_order:
  assumes "length xs \<le> capacity"
  shows "drain (length xs) (fold push xs empty) = xs"
  using push_all [OF empty_ok, of xs] drain_contents [of "fold push xs empty" "length xs"] assms
  by (simp add: empty_contents)

end

section \<open>The ring\<close>

definition MAX_OUTSTANDING_COMMANDS :: nat where "MAX_OUTSTANDING_COMMANDS = 16"

record FixedQueue =
  fq_entries :: "nat option list"
  fq_head :: nat
  fq_len :: nat

definition fixed_queue_new :: FixedQueue where
  "fixed_queue_new = \<lparr>fq_entries = replicate MAX_OUTSTANDING_COMMANDS None, fq_head = 0, fq_len = 0\<rparr>"

definition fixed_queue_can_push :: "FixedQueue \<Rightarrow> bool" where
  "fixed_queue_can_push q \<longleftrightarrow> fq_len q < MAX_OUTSTANDING_COMMANDS
     \<and> fq_entries q ! ((fq_head q + fq_len q) mod MAX_OUTSTANDING_COMMANDS) = None"

definition fixed_queue_push :: "nat \<Rightarrow> FixedQueue \<Rightarrow> FixedQueue" where
  "fixed_queue_push slot_index q =
     (let tail = (fq_head q + fq_len q) mod MAX_OUTSTANDING_COMMANDS in
      q\<lparr>fq_entries := (fq_entries q)[tail := Some slot_index], fq_len := fq_len q + 1\<rparr>)"

definition fixed_queue_pop :: "FixedQueue \<Rightarrow> nat option \<times> FixedQueue" where
  "fixed_queue_pop q =
     (if fq_len q = 0 then (None, q)
      else (fq_entries q ! fq_head q,
        \<lparr>fq_entries = (fq_entries q)[fq_head q := None],
         fq_head = (fq_head q + 1) mod MAX_OUTSTANDING_COMMANDS, fq_len = fq_len q - 1\<rparr>))"

definition fixed_queue_clear :: "FixedQueue \<Rightarrow> FixedQueue" where
  "fixed_queue_clear q = \<lparr>fq_entries = replicate MAX_OUTSTANDING_COMMANDS None, fq_head = 0, fq_len = 0\<rparr>"

section \<open>The ring is a bounded list\<close>

definition ring_index :: "FixedQueue \<Rightarrow> nat \<Rightarrow> nat" where
  "ring_index q i = (fq_head q + i) mod 16"

definition ring_contents :: "FixedQueue \<Rightarrow> nat list" where
  "ring_contents q = map (\<lambda>i. the (fq_entries q ! ring_index q i)) [0..<fq_len q]"

definition ring_ok :: "FixedQueue \<Rightarrow> bool" where
  "ring_ok q \<longleftrightarrow> length (fq_entries q) = 16 \<and> fq_head q < 16 \<and> fq_len q \<le> 16 \<and>
     (\<forall>i < 16. (fq_entries q ! ring_index q i \<noteq> None) = (i < fq_len q))"

lemma ring_index_inj:
  assumes "fq_head q < 16" "i < 16" "j < 16"
  shows "ring_index q i = ring_index q j \<longleftrightarrow> i = j"
proof -
  have "ring_index q k = (if fq_head q + k < 16 then fq_head q + k else fq_head q + k - 16)" if "k < 16" for k
    using that assms(1) by (simp add: ring_index_def mod_if)
  then show ?thesis using assms by auto
qed

lemma ring_index_lt: "ring_index q i < 16"
  by (simp add: ring_index_def)

lemma ring_can_push: "ring_ok q \<Longrightarrow> fixed_queue_can_push q \<longleftrightarrow> fq_len q < 16"
  unfolding ring_ok_def fixed_queue_can_push_def MAX_OUTSTANDING_COMMANDS_def ring_index_def by (metis less_irrefl)

lemma ring_push:
  assumes "ring_ok q" "fixed_queue_can_push q"
  shows "ring_ok (fixed_queue_push x q)" "ring_contents (fixed_queue_push x q) = ring_contents q @ [x]"
proof -
  let ?q = "fixed_queue_push x q" and ?n = "fq_len q"
  have n: "?n < 16" using assms by (simp add: ring_can_push)
  have idx: "ring_index ?q i = ring_index q i" for i
    by (simp add: fixed_queue_push_def Let_def ring_index_def)
  have q': "fq_entries ?q = (fq_entries q)[ring_index q ?n := Some x]" "fq_len ?q = ?n + 1" "fq_head ?q = fq_head q"
    by (simp_all add: fixed_queue_push_def Let_def ring_index_def MAX_OUTSTANDING_COMMANDS_def)
  have len: "length (fq_entries q) = 16" and hd: "fq_head q < 16" using assms(1) by (simp_all add: ring_ok_def)
  have upd: "fq_entries ?q ! ring_index q i = (if i = ?n then Some x else fq_entries q ! ring_index q i)" if "i < 16" for i
    using that n len hd ring_index_lt [of q i] ring_index_lt [of q ?n]
    by (cases "i = ?n") (simp_all add: q' nth_list_update ring_index_inj)
  show "ring_ok ?q"
    using assms(1) n upd by (auto simp: ring_ok_def q' idx less_Suc_eq)
  have "map (\<lambda>i. the (fq_entries ?q ! ring_index q i)) [0..<?n] = ring_contents q"
    using n upd by (auto simp: ring_contents_def)
  then show "ring_contents ?q = ring_contents q @ [x]"
    using n upd [of ?n] by (simp add: ring_contents_def idx q'(2))
qed

lemma ring_pop:
  assumes "ring_ok q" "fq_len q \<noteq> 0"
  shows "fst (fixed_queue_pop q) = Some (hd (ring_contents q))" "ring_ok (snd (fixed_queue_pop q))"
    "ring_contents (snd (fixed_queue_pop q)) = tl (ring_contents q)"
proof -
  let ?q = "snd (fixed_queue_pop q)" and ?n = "fq_len q"
  have len: "length (fq_entries q) = 16" "fq_head q < 16" "?n \<le> 16"
    and full: "\<And>i. i < 16 \<Longrightarrow> (fq_entries q ! ring_index q i \<noteq> None) = (i < ?n)"
    using assms(1) by (auto simp: ring_ok_def)
  have h: "ring_index q 0 = fq_head q" using len by (simp add: ring_index_def)
  have q': "fq_entries ?q = (fq_entries q)[ring_index q 0 := None]" "fq_len ?q = ?n - 1" "fq_head ?q = (fq_head q + 1) mod 16"
    using assms(2) h by (simp_all add: fixed_queue_pop_def MAX_OUTSTANDING_COMMANDS_def)
  have idx: "ring_index ?q i = ring_index q (Suc i)" for i
    unfolding ring_index_def q' by (simp add: mod_simps)
  have wrap: "ring_index q 16 = ring_index q 0" by (simp add: ring_index_def)
  have upd: "fq_entries ?q ! ring_index q (Suc i) = (if i = 15 then None else fq_entries q ! ring_index q (Suc i))" if "i < 16" for i
  proof (cases "i = 15")
    case True
    then show ?thesis using len ring_index_lt [of q 0] wrap by (simp add: q')
  next
    case False
    then have "ring_index q (Suc i) \<noteq> ring_index q 0" using that len(2) False by (simp add: ring_index_inj)
    then show ?thesis using False by (simp add: q')
  qed
  show "ring_ok ?q"
    unfolding ring_ok_def
  proof (intro conjI allI impI)
    fix i :: nat
    assume "i < 16"
    then show "(fq_entries ?q ! ring_index ?q i \<noteq> None) = (i < fq_len ?q)"
      unfolding idx using upd [of i] full [of "Suc i"] len(3) assms(2) by (auto simp: q'(2))
  qed (use len q' in auto)
  have c: "ring_contents q = the (fq_entries q ! ring_index q 0) # map (\<lambda>i. the (fq_entries q ! ring_index q (Suc i))) [0..<?n - 1]"
  proof -
    obtain m where m: "?n = Suc m" using assms(2) by (cases ?n) auto
    have "[0..<Suc m] = 0 # map Suc [0..<m]" by (simp only: map_Suc_upt) (simp add: upt_conv_Cons)
    then show ?thesis unfolding ring_contents_def m by (simp add: comp_def del: upt_Suc)
  qed
  then show "fst (fixed_queue_pop q) = Some (hd (ring_contents q))"
    using full [of 0] assms(2) h by (auto simp: fixed_queue_pop_def)
  show "ring_contents ?q = tl (ring_contents q)"
    unfolding c list.sel unfolding ring_contents_def idx using upd len(3) assms(2) by (auto simp: q'(2))
qed

interpretation ring: fifo_queue fixed_queue_new fixed_queue_can_push fixed_queue_push fixed_queue_pop ring_ok ring_contents 16
proof unfold_locales
  show "ring_ok fixed_queue_new" "ring_contents fixed_queue_new = []"
    by (simp_all add: ring_ok_def fixed_queue_new_def ring_contents_def ring_index_def MAX_OUTSTANDING_COMMANDS_def)
next
  fix q x
  assume q: "ring_ok q"
  show "fixed_queue_can_push q \<longleftrightarrow> length (ring_contents q) < 16" using ring_can_push [OF q] by (simp add: ring_contents_def)
  show "ring_ok (fixed_queue_push x q)" "ring_contents (fixed_queue_push x q) = ring_contents q @ [x]"
    if "fixed_queue_can_push q" using ring_push [OF q that] by auto
  show "ring_ok (snd (fixed_queue_pop q))"
    using ring_pop(2) [OF q] q by (cases "fq_len q = 0") (auto simp: fixed_queue_pop_def)
  show "ring_contents (snd (fixed_queue_pop q)) = tl (ring_contents q)"
    using ring_pop(3) [OF q] by (cases "fq_len q = 0") (auto simp: fixed_queue_pop_def ring_contents_def)
  show "fixed_queue_pop q = (case ring_contents q of [] \<Rightarrow> (None, q) | x # xs \<Rightarrow> (Some x, snd (fixed_queue_pop q)))"
  proof (cases "fq_len q = 0")
    case True
    then show ?thesis by (simp add: fixed_queue_pop_def ring_contents_def)
  next
    case False
    then obtain y ys where "ring_contents q = y # ys" by (cases "ring_contents q") (auto simp: ring_contents_def)
    then show ?thesis using ring_pop(1) [OF q False] by (cases "fixed_queue_pop q") simp
  qed
qed

section \<open>Properties\<close>

text \<open>The ring of slot indices is a bounded first-in-first-out queue: up to sixteen indices pushed on an empty
  ring come out in the order they went in, and a ring that holds sixteen refuses another.\<close>
lemma fixed_queue_fifo:
  assumes "length xs \<le> 16"
  shows "ring.drain (length xs) (fold fixed_queue_push xs fixed_queue_new) = xs \<and>
    (fixed_queue_can_push (fold fixed_queue_push xs fixed_queue_new) \<longleftrightarrow> length xs < 16)"
  using ring.fifo_order [OF assms] ring.push_all [OF ring.empty_ok, of xs] ring.can_push_iff assms
  by (simp add: ring.empty_contents)

end
