(* ===== verification/Och_Latest.thy ===== *)
theory Och_Latest
  imports Och_Collection
begin

text \<open>
  The volatile latest registry of the runtime (\<^verbatim>\<open>och-runtime/src/latest.rs\<close>): immutable snapshots shared by
  reference, a publication planned against one snapshot, staged, and committed only if that snapshot
  is still the current one.  A snapshot's entries live behind an \<open>Arc\<close>, whose identity the code compares;
  the model names each allocation by a number.
\<close>

section \<open>Data\<close>

definition MAX_PUBLISHED_SERIES :: nat where "MAX_PUBLISHED_SERIES = 16"

record PublishedObservation =
  pub_series :: SeriesMetadata
  pub_observation :: Observation
  pub_position :: ProducerPosition

record LatestSnapshot =
  ls_store_id :: StoreId
  ls_arc :: nat
  ls_entries :: "PublishedObservation list"

definition snapshot_empty :: "StoreId \<Rightarrow> LatestSnapshot" where
  "snapshot_empty store_id = \<lparr>ls_store_id = store_id, ls_arc = 0, ls_entries = []\<rparr>"

definition snapshot_from_entries :: "StoreId \<Rightarrow> nat \<Rightarrow> PublishedObservation list \<Rightarrow> LatestSnapshot" where
  "snapshot_from_entries store_id arc entries =
     \<lparr>ls_store_id = store_id, ls_arc = arc, ls_entries = entries\<rparr>"

definition shares_entries_with :: "LatestSnapshot \<Rightarrow> LatestSnapshot \<Rightarrow> bool" where
  "shares_entries_with self other \<longleftrightarrow> ls_store_id self = ls_store_id other \<and> ls_arc self = ls_arc other"

definition snapshot_get :: "LatestSnapshot \<Rightarrow> SeriesId \<Rightarrow> PublishedObservation option" where
  "snapshot_get self series_id = find (\<lambda>entry. md_series_id (pub_series entry) = series_id) (ls_entries self)"

datatype LatestReadError = LatestReadError

record LatestState =
  lat_current :: "LatestSnapshot option"
  lat_sealed :: bool

record PlannedAdvance =
  plan_base :: LatestSnapshot
  plan_index :: "nat option"
  plan_candidate :: PublishedObservation

datatype PublicationPlan = PlanNoChange | PlanAdvance PlannedAdvance

datatype PreparedPublication = PreparedNoChange
  | PreparedAdvance (prep_base: LatestSnapshot) (prep_next: LatestSnapshot)

datatype PublicationFault = PublicationFault

section \<open>Operations\<close>

definition latest_new :: "StoreId \<Rightarrow> LatestState" where
  "latest_new store_id = \<lparr>lat_current = Some (snapshot_empty store_id), lat_sealed = False\<rparr>"

text \<open>\<open>iter().enumerate().find(..)\<close>: the first position that satisfies the predicate, with its element.\<close>

fun find_index :: "('a \<Rightarrow> bool) \<Rightarrow> nat \<Rightarrow> 'a list \<Rightarrow> (nat \<times> 'a) option" where
  "find_index p i [] = None"
| "find_index p i (x # xs) = (if p x then Some (i, x) else find_index p (i + 1) xs)"

definition latest_plan ::
  "LatestState \<Rightarrow> PublishedObservation option \<Rightarrow> (PublicationFault, PublicationPlan) result" where
  "latest_plan self candidate =
     (case (if lat_sealed self then None else lat_current self) of
        None \<Rightarrow> Inl PublicationFault
      | Some current \<Rightarrow>
          (case candidate of
             None \<Rightarrow> Inr PlanNoChange
           | Some candidate \<Rightarrow>
               (case find_index (\<lambda>entry. md_series_id (pub_series entry) = md_series_id (pub_series candidate)) 0
                       (ls_entries current) of
                  Some (index, published) \<Rightarrow>
                    if pub_series published \<noteq> pub_series candidate then Inl PublicationFault
                    else if pub_position candidate > pub_position published
                    then Inr (PlanAdvance \<lparr>plan_base = current, plan_index = Some index, plan_candidate = candidate\<rparr>)
                    else if pub_position candidate < pub_position published then Inr PlanNoChange
                    else if pub_observation candidate = pub_observation published then Inr PlanNoChange
                    else Inl PublicationFault
                | None \<Rightarrow>
                    if length (ls_entries current) \<ge> MAX_PUBLISHED_SERIES then Inl PublicationFault
                    else Inr (PlanAdvance \<lparr>plan_base = current, plan_index = None, plan_candidate = candidate\<rparr>))))"

definition stage_entries :: "PlannedAdvance \<Rightarrow> PublishedObservation list" where
  "stage_entries advance = (case plan_index advance of
     Some index \<Rightarrow> (ls_entries (plan_base advance))[index := plan_candidate advance]
   | None \<Rightarrow> ls_entries (plan_base advance) @ [plan_candidate advance])"

text \<open>\<open>stage\<close> allocates the new entries; \<open>arc\<close> is the name of the allocation.\<close>

definition plan_stage :: "nat \<Rightarrow> PublicationPlan \<Rightarrow> PreparedPublication" where
  "plan_stage arc plan = (case plan of
     PlanNoChange \<Rightarrow> PreparedNoChange
   | PlanAdvance advance \<Rightarrow> PreparedAdvance (plan_base advance)
       (snapshot_from_entries (ls_store_id (plan_base advance)) arc (stage_entries advance)))"

definition latest_can_complete :: "LatestState \<Rightarrow> PreparedPublication \<Rightarrow> bool" where
  "latest_can_complete self preparation =
     (if lat_sealed self \<or> lat_current self = None then False
      else (case preparation of PreparedNoChange \<Rightarrow> True
        | PreparedAdvance base _ \<Rightarrow> is_some_and (\<lambda>current. shares_entries_with current base) (lat_current self)))"

definition latest_commit :: "PreparedPublication \<Rightarrow> LatestState \<Rightarrow> LatestState" where
  "latest_commit preparation self = (case preparation of
     PreparedAdvance _ next \<Rightarrow> self\<lparr>lat_current := Some next\<rparr> | PreparedNoChange \<Rightarrow> self)"

definition latest_seal :: "LatestState \<Rightarrow> bool \<times> LatestState" where
  "latest_seal self = (if lat_current self = None \<or> lat_sealed self then (False, self) else (True, self\<lparr>lat_sealed := True\<rparr>))"

definition latest_make_unavailable :: "LatestState \<Rightarrow> LatestState" where
  "latest_make_unavailable self = self\<lparr>lat_current := None, lat_sealed := True\<rparr>"

definition latest_snapshot_read :: "LatestState \<Rightarrow> (LatestReadError, LatestSnapshot) result" where
  "latest_snapshot_read self = ok_or LatestReadError (lat_current self)"

section \<open>The invariant of a snapshot\<close>

definition entry_series :: "PublishedObservation \<Rightarrow> SeriesId" where
  "entry_series e = md_series_id (pub_series e)"

definition latest_snapshot_ok :: "LatestSnapshot \<Rightarrow> bool" where
  "latest_snapshot_ok s \<longleftrightarrow> distinct (map entry_series (ls_entries s)) \<and> length (ls_entries s) \<le> MAX_PUBLISHED_SERIES"

text \<open>A later snapshot keeps every series with its metadata and never moves a position back; at an equal
  position the observation is the same.\<close>

definition snapshot_grows :: "LatestSnapshot \<Rightarrow> LatestSnapshot \<Rightarrow> bool" where
  "snapshot_grows s t \<longleftrightarrow> (\<forall>e \<in> set (ls_entries s). \<exists>f \<in> set (ls_entries t).
     pub_series f = pub_series e \<and> (pub_position e < pub_position f \<or> f = e))"

lemma snapshot_grows_refl: "snapshot_grows s s"
  by (auto simp: snapshot_grows_def)

lemma snapshot_grows_trans: "snapshot_grows s t \<Longrightarrow> snapshot_grows t u \<Longrightarrow> snapshot_grows s u"
  unfolding snapshot_grows_def by (metis less_trans)

lemma find_index_some:
  "find_index p i xs = Some (j, x) \<Longrightarrow> i \<le> j \<and> j - i < length xs \<and> xs ! (j - i) = x \<and> p x"
proof (induction xs arbitrary: i)
  case (Cons y ys)
  show ?case
  proof (cases "p y")
    case False
    then have "i + 1 \<le> j \<and> j - (i + 1) < length ys \<and> ys ! (j - (i + 1)) = x \<and> p x" using Cons by simp
    then show ?thesis by (simp add: nth_Cons') linarith
  qed (use Cons in auto)
qed simp

lemma find_index_none: "find_index p i xs = None \<longleftrightarrow> (\<forall>x \<in> set xs. \<not> p x)"
  by (induction xs arbitrary: i) auto

lemma plan_stage_ok:
  assumes "latest_plan l c = Inr plan" "plan_stage arc plan = PreparedAdvance base next'" "latest_snapshot_ok base"
  shows "lat_current l = Some base \<and> \<not> lat_sealed l \<and> latest_snapshot_ok next' \<and> snapshot_grows base next' \<and>
    ls_store_id next' = ls_store_id base \<and> ls_arc next' = arc"
proof -
  from assms(2) obtain adv where plan: "plan = PlanAdvance adv" and base: "base = plan_base adv"
    and n: "next' = snapshot_from_entries (ls_store_id base) arc (stage_entries adv)"
    by (auto simp: plan_stage_def split: PublicationPlan.splits)
  let ?es = "ls_entries base"
  from assms(1) obtain x where cur: "lat_current l = Some base" "\<not> lat_sealed l" and cand: "c = Some x" "plan_candidate adv = x"
    and idx: "(\<exists>i y. find_index (\<lambda>e. md_series_id (pub_series e) = md_series_id (pub_series x)) 0 ?es = Some (i, y) \<and>
        plan_index adv = Some i \<and> pub_series y = pub_series x \<and> pub_position y < pub_position x) \<or>
      (find_index (\<lambda>e. md_series_id (pub_series e) = md_series_id (pub_series x)) 0 ?es = None \<and>
        plan_index adv = None \<and> length ?es < MAX_PUBLISHED_SERIES)"
    unfolding plan latest_plan_def base by (auto split: option.splits if_splits)
  from idx have "latest_snapshot_ok next' \<and> snapshot_grows base next'"
  proof (elim disjE exE conjE)
    fix i y
    assume f: "find_index (\<lambda>e. md_series_id (pub_series e) = md_series_id (pub_series x)) 0 ?es = Some (i, y)"
      and i: "plan_index adv = Some i" and y: "pub_series y = pub_series x" "pub_position y < pub_position x"
    have iy: "i < length ?es" "?es ! i = y" using find_index_some [OF f] by auto
    have es: "ls_entries next' = ?es[i := x]" using n i cand(2) base by (simp add: snapshot_from_entries_def stage_entries_def)
    have "map entry_series (?es[i := x]) = map entry_series ?es"
      using iy y by (intro nth_equalityI) (auto simp: nth_list_update entry_series_def)
    then have "latest_snapshot_ok next'" using assms(3) es by (simp add: latest_snapshot_ok_def)
    moreover have "snapshot_grows base next'"
      unfolding snapshot_grows_def es
    proof
      fix e
      assume "e \<in> set ?es"
      then obtain k where k: "k < length ?es" "?es ! k = e" by (auto simp: in_set_conv_nth)
      show "\<exists>f \<in> set (?es[i := x]). pub_series f = pub_series e \<and> (pub_position e < pub_position f \<or> f = e)"
      proof (cases "k = i")
        case True
        then show ?thesis using iy y k by (intro bexI [of _ x]) (auto simp: set_update_memI)
      next
        case False
        then have "?es[i := x] ! k = e" using k by simp
        then show ?thesis using k by (metis length_list_update nth_mem)
      qed
    qed
    ultimately show ?thesis by simp
  next
    assume f: "find_index (\<lambda>e. md_series_id (pub_series e) = md_series_id (pub_series x)) 0 ?es = None"
      and i: "plan_index adv = None" and len: "length ?es < MAX_PUBLISHED_SERIES"
    have es: "ls_entries next' = ?es @ [x]" using n i cand(2) base by (simp add: snapshot_from_entries_def stage_entries_def)
    have "entry_series x \<notin> entry_series ` set ?es" using f by (auto simp: find_index_none entry_series_def)
    then show ?thesis using assms(3) len es by (auto simp: latest_snapshot_ok_def snapshot_grows_def)
  qed
  then show ?thesis using cur n by (simp add: snapshot_from_entries_def)
qed

end
