(* ===== verification/Och_Ingress.thy ===== *)
theory Och_Ingress
  imports Och_Fixed_Queue Och_Latest Och_Retry_State Och_Frame
begin

text \<open>
  The bounded ingress of the runtime (\<^verbatim>\<open>och-runtime/src/ingress.rs\<close>).  Every operation holds the ingress mutex
  once and is one step of the model; \<open>try_submit\<close> holds it three times and is three steps.  A receipt is
  shared by reference between its slot and its holders: receipts live in a list, and a receipt is its
  index.  The mutex is poisoned by a panic of some holder; every later holder then stops the ingress.
  Wake-ups have no effect on the state and are not modelled.
\<close>

section \<open>Reservation limits and commands\<close>

datatype AdmissionPriority = PriorityProtected | PriorityNormal | PriorityBulk
datatype BarrierDemand = BarrierGroup | BarrierImmediate
datatype ReservationOptionsError = ReservationOptionsError

record ByteReservationLimits =
  brl_total :: nat
  brl_protected_reserve :: nat
  brl_normal_reserve :: nat

definition byte_limits_new :: "nat \<Rightarrow> nat \<Rightarrow> nat \<Rightarrow> (ReservationOptionsError, ByteReservationLimits) result" where
  "byte_limits_new max_outstanding_bytes protected_reserved_bytes normal_reserved_bytes =
     (if max_outstanding_bytes = 0
         \<or> protected_reserved_bytes > max_outstanding_bytes
         \<or> normal_reserved_bytes > max_outstanding_bytes - protected_reserved_bytes
      then Inl ReservationOptionsError
      else Inr \<lparr>brl_total = max_outstanding_bytes, brl_protected_reserve = protected_reserved_bytes,
                brl_normal_reserve = normal_reserved_bytes\<rparr>)"

definition class_ceiling :: "ByteReservationLimits \<Rightarrow> AdmissionPriority \<Rightarrow> nat" where
  "class_ceiling self priority = (case priority of
     PriorityProtected \<Rightarrow> brl_total self
   | PriorityNormal \<Rightarrow> brl_total self - brl_protected_reserve self
   | PriorityBulk \<Rightarrow> brl_total self - brl_protected_reserve self - brl_normal_reserve self)"

record IngressCommand =
  cmd_admission :: CanonicalAdmission
  cmd_priority :: AdmissionPriority
  cmd_barrier :: BarrierDemand

definition command_with_policy :: "CanonicalAdmission \<Rightarrow> AdmissionPriority \<Rightarrow> BarrierDemand \<Rightarrow> IngressCommand" where
  "command_with_policy admission priority barrier =
     \<lparr>cmd_admission = admission, cmd_priority = priority, cmd_barrier = barrier\<rparr>"

definition command_new :: "CanonicalAdmission \<Rightarrow> IngressCommand" where
  "command_new admission = command_with_policy admission PriorityNormal BarrierGroup"

section \<open>Receipts\<close>

record AppendIdentity =
  ai_journal :: JournalIdentity
  ai_append_sequence :: u64
  ai_end_offset :: u64

datatype HandledOutcome = WriterHandled AppendIdentity | HandledStopped

record DurableCommit =
  dc_append :: AppendIdentity
  dc_committed :: ManifestCommit

datatype DurableOutcome = Durable DurableCommit | DurableStopped

record ReceiptState =
  rcp_handled :: "HandledOutcome option"
  rcp_durable :: "DurableOutcome option"

definition receipt_new :: ReceiptState where
  "receipt_new = \<lparr>rcp_handled = None, rcp_durable = None\<rparr>"

definition resolve_handled :: "AppendIdentity \<Rightarrow> ReceiptState \<Rightarrow> bool \<times> ReceiptState" where
  "resolve_handled appended r =
     (if rcp_handled r \<noteq> None then (False, r) else (True, r\<lparr>rcp_handled := Some (WriterHandled appended)\<rparr>))"

definition resolve_durable :: "DurableCommit \<Rightarrow> ReceiptState \<Rightarrow> bool \<times> ReceiptState" where
  "resolve_durable commit r =
     (if rcp_durable r \<noteq> None then (False, r) else (True, r\<lparr>rcp_durable := Some (Durable commit)\<rparr>))"

definition resolve_stopped :: "ReceiptState \<Rightarrow> bool \<times> ReceiptState" where
  "resolve_stopped r =
     (let changed = rcp_handled r = None \<or> rcp_durable r = None in
      (changed, \<lparr>rcp_handled = (case rcp_handled r of None \<Rightarrow> Some HandledStopped | Some h \<Rightarrow> Some h),
                 rcp_durable = (case rcp_durable r of None \<Rightarrow> Some DurableStopped | Some d \<Rightarrow> Some d)\<rparr>))"

section \<open>The ingress state\<close>

datatype SlotPhase = Preparing | SlotQueued | InFlight | AwaitingDurability

record Slot =
  slot_qualification :: RetryQualification
  slot_prepared :: "PreparedAdmissionV1 option"
  slot_retained_admission :: "CanonicalAdmission option"
  slot_terminal :: nat
  slot_phase :: SlotPhase
  slot_reservation :: nat
  slot_priority :: AdmissionPriority
  slot_barrier :: BarrierDemand
  slot_append :: "AppendIdentity option"

text \<open>\<open>ing_receipts\<close> is the heap of receipts, \<open>ing_next_arc\<close> names the next snapshot allocation.\<close>

record Ingress =
  ing_store_id :: StoreId
  ing_poisoned :: bool
  ing_closed :: bool
  ing_slots :: "Slot option list"
  ing_queue :: FixedQueue
  ing_latest :: LatestState
  ing_byte_limits :: ByteReservationLimits
  ing_reserved_bytes :: nat
  ing_barrier_requested :: bool
  ing_retry :: RetryStateSnapshot
  ing_receipts :: "ReceiptState list"
  ing_next_arc :: nat

definition ingress_new :: "StoreId \<Rightarrow> ByteReservationLimits \<Rightarrow> RetryPersistenceOptions \<Rightarrow> Ingress" where
  "ingress_new store_id byte_limits retry_options =
     \<lparr>ing_store_id = store_id, ing_poisoned = False, ing_closed = False,
      ing_slots = replicate MAX_OUTSTANDING_COMMANDS None, ing_queue = fixed_queue_new,
      ing_latest = latest_new store_id, ing_byte_limits = byte_limits, ing_reserved_bytes = 0,
      ing_barrier_requested = False, ing_retry = retry_empty store_id retry_options,
      ing_receipts = [], ing_next_arc = 1\<rparr>"

definition active_count :: "Ingress \<Rightarrow> nat" where
  "active_count st = length (filter (\<lambda>s. s \<noteq> None) (ing_slots st))"

definition can_reserve :: "Ingress \<Rightarrow> AdmissionPriority \<Rightarrow> nat \<Rightarrow> bool" where
  "can_reserve st priority n =
     is_some_and (\<lambda>total. total \<le> class_ceiling (ing_byte_limits st) priority)
       (usize_checked_add (ing_reserved_bytes st) n)"

fun stop_slots :: "Slot option list \<Rightarrow> ReceiptState list \<Rightarrow> ReceiptState list" where
  "stop_slots [] heap = heap"
| "stop_slots (None # slots) heap = stop_slots slots heap"
| "stop_slots (Some s # slots) heap =
     stop_slots slots (heap[slot_terminal s := snd (resolve_stopped (heap ! slot_terminal s))])"

definition stop_all :: "Ingress \<Rightarrow> Ingress" where
  "stop_all st = st\<lparr>ing_closed := True, ing_latest := latest_make_unavailable (ing_latest st),
     ing_queue := fixed_queue_clear (ing_queue st), ing_reserved_bytes := 0,
     ing_slots := map (\<lambda>_. None) (ing_slots st),
     ing_receipts := stop_slots (ing_slots st) (ing_receipts st)\<rparr>"

text \<open>\<open>slots.get(i).and_then(Option::as_ref)\<close>.\<close>

definition slot_at :: "Ingress \<Rightarrow> nat \<Rightarrow> Slot option" where
  "slot_at st i = (if i < length (ing_slots st) then ing_slots st ! i else None)"

definition in_phase :: "Ingress \<Rightarrow> nat \<Rightarrow> SlotPhase \<Rightarrow> bool" where
  "in_phase st i phase = is_some_and (\<lambda>s. slot_phase s = phase) (slot_at st i)"

section \<open>Submission\<close>

datatype SubmissionDisposition = DispositionQueued | DispositionCoalesced | DispositionReplayed

record Submission =
  sub_disposition :: SubmissionDisposition
  sub_receipt :: nat

datatype TrySubmitErrorKind = SubmitClosed | SubmitStoreMismatch | SubmitEncoding | SubmitByteCapacity
  | SubmitFull | SubmitRetryConflict | SubmitRetryExpired

record TrySubmitError =
  tse_kind :: TrySubmitErrorKind
  tse_encoding :: "JournalV1Error option"
  tse_command :: IngressCommand

definition submit_error :: "TrySubmitErrorKind \<Rightarrow> IngressCommand \<Rightarrow> TrySubmitError" where
  "submit_error kind command = \<lparr>tse_kind = kind, tse_encoding = None, tse_command = command\<rparr>"

definition submit_encoding_error :: "JournalV1Error \<Rightarrow> IngressCommand \<Rightarrow> TrySubmitError" where
  "submit_encoding_error e command = \<lparr>tse_kind = SubmitEncoding, tse_encoding = Some e, tse_command = command\<rparr>"

type_synonym submit_result = "(TrySubmitError, Submission) result"

text \<open>The first critical section: precedence of the closed and store refusals over measuring.\<close>

definition submit_precheck :: "IngressCommand \<Rightarrow> Ingress \<Rightarrow> (TrySubmitError, unit) result \<times> Ingress" where
  "submit_precheck command st =
     (if ing_poisoned st then (Inl (submit_error SubmitClosed command), stop_all st)
      else if ing_closed st then (Inl (submit_error SubmitClosed command), st)
      else if adm_store_id (cmd_admission command) \<noteq> ing_store_id st
      then (Inl (submit_error SubmitStoreMismatch command), st)
      else (Inr (), st))"

datatype SlotScan = ScanEquivalent nat | ScanConflict | ScanDistinct

fun scan_slots :: "RetryQualification \<Rightarrow> Slot option list \<Rightarrow> SlotScan" where
  "scan_slots q [] = ScanDistinct"
| "scan_slots q (None # slots) = scan_slots q slots"
| "scan_slots q (Some s # slots) = (case retry_classify (slot_qualification s) q of
     Equivalent \<Rightarrow> ScanEquivalent (slot_terminal s) | Conflict \<Rightarrow> ScanConflict | Distinct \<Rightarrow> scan_slots q slots)"

fun first_free :: "nat \<Rightarrow> Slot option list \<Rightarrow> nat option" where
  "first_free i [] = None"
| "first_free i (s # slots) = (if s = None then Some i else first_free (i + 1) slots)"

datatype ReserveOutcome = ReserveDone submit_result | Reserved (res_slot: nat) (res_frame_len: nat) (res_terminal: nat)

definition replay_append :: "RetryReplayOutcome \<Rightarrow> AppendIdentity" where
  "replay_append o' = \<lparr>ai_journal = cut_journal (mc_durable_cutoff (rro_committed o')),
     ai_append_sequence = rro_append_sequence o', ai_end_offset = rro_end_offset o'\<rparr>"

definition submit_replay :: "IngressCommand \<Rightarrow> RetryReplayOutcome \<Rightarrow> Ingress \<Rightarrow> submit_result \<times> Ingress" where
  "submit_replay command outcome st =
     (let appended = replay_append outcome;
          committed = \<lparr>dc_append = appended, dc_committed = rro_committed outcome\<rparr>;
          terminal = length (ing_receipts st);
          (handled_ok, r1) = resolve_handled appended receipt_new;
          (durable_ok, r2) = resolve_durable committed r1 in
      if \<not> handled_ok \<or> \<not> durable_ok then (Inl (submit_error SubmitClosed command), st)
      else (Inr \<lparr>sub_disposition = DispositionReplayed, sub_receipt = terminal\<rparr>,
            st\<lparr>ing_receipts := ing_receipts st @ [r2]\<rparr>))"

text \<open>The second critical section: refusals, coalescing, replay, and the reservation of a slot.\<close>

definition submit_reserve ::
  "(JournalV1Error, nat) result \<Rightarrow> IngressCommand \<Rightarrow> Ingress \<Rightarrow> ReserveOutcome \<times> Ingress" where
  "submit_reserve measured command st =
     (let refuse = (\<lambda>kind. (ReserveDone (Inl (submit_error kind command)), st));
          retry = adm_retry (cmd_admission command) in
      if ing_poisoned st then (ReserveDone (Inl (submit_error SubmitClosed command)), stop_all st)
      else if ing_closed st then refuse SubmitClosed
      else if adm_store_id (cmd_admission command) \<noteq> ing_store_id st then refuse SubmitStoreMismatch
      else case measured of
        Inl e \<Rightarrow> (ReserveDone (Inl (submit_encoding_error e command)), st)
      | Inr frame_len \<Rightarrow>
        (case scan_slots retry (ing_slots st) of
           ScanEquivalent terminal \<Rightarrow>
             (ReserveDone (Inr \<lparr>sub_disposition = DispositionCoalesced, sub_receipt = terminal\<rparr>), st)
         | ScanConflict \<Rightarrow> refuse SubmitRetryConflict
         | ScanDistinct \<Rightarrow>
           (case state_classify (ing_retry st) retry of
              MatchReplay outcome \<Rightarrow> (case submit_replay command outcome st of (r, st') \<Rightarrow> (ReserveDone r, st'))
            | MatchExpired \<Rightarrow> refuse SubmitRetryExpired
            | MatchConflict \<Rightarrow> refuse SubmitRetryConflict
            | MatchFresh \<Rightarrow>
              if active_count st = MAX_OUTSTANDING_COMMANDS then refuse SubmitFull
              else if \<not> can_reserve st (cmd_priority command) frame_len then refuse SubmitByteCapacity
              else case first_free 0 (ing_slots st) of
                None \<Rightarrow> refuse SubmitClosed
              | Some slot_index \<Rightarrow>
                let terminal = length (ing_receipts st);
                    slot = \<lparr>slot_qualification = retry, slot_prepared = None, slot_retained_admission = None,
                      slot_terminal = terminal, slot_phase = Preparing, slot_reservation = frame_len,
                      slot_priority = cmd_priority command, slot_barrier = cmd_barrier command, slot_append = None\<rparr>
                in (Reserved slot_index frame_len terminal,
                    st\<lparr>ing_reserved_bytes := ing_reserved_bytes st + frame_len,
                       ing_slots := (ing_slots st)[slot_index := Some slot],
                       ing_receipts := ing_receipts st @ [receipt_new]\<rparr>))))"

text \<open>The third critical section, after encoding outside the lock: the slot becomes queued.\<close>

definition submit_enqueue ::
  "nat \<Rightarrow> nat \<Rightarrow> PreparedAdmissionV1 \<Rightarrow> AdmissionPriority \<Rightarrow> BarrierDemand \<Rightarrow> Ingress \<Rightarrow> submit_result \<times> Ingress" where
  "submit_enqueue slot_index terminal prepared priority barrier st =
     (let command = command_with_policy (pa_admission prepared) priority barrier in
      if ing_poisoned st then (Inl (submit_error SubmitClosed command), stop_all st)
      else if \<not> in_phase st slot_index Preparing \<or> \<not> fixed_queue_can_push (ing_queue st)
      then (Inl (submit_error SubmitClosed command), stop_all st)
      else
        let slot = the (slot_at st slot_index) in
        (Inr \<lparr>sub_disposition = DispositionQueued, sub_receipt = terminal\<rparr>,
         st\<lparr>ing_slots := (ing_slots st)[slot_index := Some (slot\<lparr>slot_prepared := Some prepared, slot_phase := SlotQueued\<rparr>)],
            ing_queue := fixed_queue_push slot_index (ing_queue st)\<rparr>))"

text \<open>The receipt is resolved after the lock is released; nobody else can resolve it any more.\<close>

definition rollback_preparation :: "nat \<Rightarrow> Ingress \<Rightarrow> Ingress" where
  "rollback_preparation slot_index st =
     (if ing_poisoned st then stop_all st
      else case slot_at st slot_index of
        None \<Rightarrow> st
      | Some slot \<Rightarrow>
          st\<lparr>ing_slots := (ing_slots st)[slot_index := None],
             ing_reserved_bytes := ing_reserved_bytes st - slot_reservation slot,
             ing_receipts := (ing_receipts st)[slot_terminal slot :=
               snd (resolve_stopped (ing_receipts st ! slot_terminal slot))]\<rparr>)"

text \<open>What follows a reservation: encode, then enqueue or roll back.\<close>

definition submit_finish :: "nat \<Rightarrow> nat \<Rightarrow> nat \<Rightarrow> IngressCommand \<Rightarrow> Ingress \<Rightarrow> submit_result \<times> Ingress" where
  "submit_finish slot_index frame_len terminal command st =
     (let priority = cmd_priority command; barrier = cmd_barrier command in
      case prepared_admission_new (cmd_admission command) of
        Inr prepared \<Rightarrow>
          if pa_frame_len prepared = frame_len
          then submit_enqueue slot_index terminal prepared priority barrier st
          else (Inl (submit_encoding_error InvalidCanonicalData
                  (command_with_policy (pa_admission prepared) priority barrier)),
                rollback_preparation slot_index st)
      | Inl e \<Rightarrow>
          (Inl (submit_encoding_error (pe_error e) (command_with_policy (pe_admission e) priority barrier)),
           rollback_preparation slot_index st))"

text \<open>A submission that no other step interrupts.\<close>

definition try_submit :: "IngressCommand \<Rightarrow> Ingress \<Rightarrow> submit_result \<times> Ingress" where
  "try_submit command st =
     (case submit_precheck command st of
        (Inl e, st1) \<Rightarrow> (Inl e, st1)
      | (Inr _, st1) \<Rightarrow>
          (case submit_reserve (admission_frame_len_v1 (cmd_admission command)) command st1 of
             (ReserveDone r, st2) \<Rightarrow> (r, st2)
           | (Reserved slot_index frame_len terminal, st2) \<Rightarrow> submit_finish slot_index frame_len terminal command st2))"

section \<open>Closing, stopping and opening\<close>

definition close_admission :: "Ingress \<Rightarrow> Ingress" where
  "close_admission st = (if ing_poisoned st then stop_all st else st\<lparr>ing_closed := True\<rparr>)"

definition ingress_stop :: "Ingress \<Rightarrow> Ingress" where
  "ingress_stop st = stop_all st"

definition install_opened_retry :: "RetryStateSnapshot \<Rightarrow> Ingress \<Rightarrow> bool \<times> Ingress" where
  "install_opened_retry retry st =
     (if ing_poisoned st then (False, st)
      else if active_count st \<noteq> 0 \<or> rss_store_id retry \<noteq> ing_store_id st
         \<or> rss_options retry \<noteq> rss_options (ing_retry st)
      then (False, st)
      else (True, st\<lparr>ing_retry := retry\<rparr>))"

section \<open>The writer's side\<close>

datatype NextWork = NextTaken (work_prepared: PreparedAdmissionV1) (work_slot: nat) (work_priority: AdmissionPriority)
    (work_barrier: BarrierDemand)
  | NextBarrierRequired | NextEmpty | NextDrained | NextFailed

definition take_next :: "Ingress \<Rightarrow> NextWork \<times> Ingress" where
  "take_next st =
     (if ing_poisoned st then (NextFailed, stop_all st)
      else case fixed_queue_pop (ing_queue st) of
        (Some slot_index, queue) \<Rightarrow>
          (let st1 = st\<lparr>ing_queue := queue\<rparr> in
           case slot_at st1 slot_index of
             None \<Rightarrow> (NextFailed, st1)
           | Some slot \<Rightarrow>
               if slot_phase slot \<noteq> SlotQueued then (NextFailed, st1)
               else case slot_prepared slot of
                 None \<Rightarrow> (NextFailed, st1)
               | Some prepared \<Rightarrow>
                   (NextTaken prepared slot_index (slot_priority slot) (slot_barrier slot),
                    st1\<lparr>ing_slots := (ing_slots st1)[slot_index :=
                      Some (slot\<lparr>slot_prepared := None, slot_phase := InFlight\<rparr>)]\<rparr>))
      | (None, queue) \<Rightarrow>
          (let st1 = st\<lparr>ing_queue := queue\<rparr> in
           if ing_closed st1 \<and> active_count st1 = 0
           then (case latest_seal (ing_latest st1) of (ok, latest) \<Rightarrow>
             (if ok then NextDrained else NextFailed, st1\<lparr>ing_latest := latest\<rparr>))
           else if ing_closed st1 \<and> \<not> ing_barrier_requested st1
           then (NextBarrierRequired, st1\<lparr>ing_barrier_requested := True\<rparr>)
           else (NextEmpty, st1)))"

definition ingress_latest_snapshot :: "Ingress \<Rightarrow> (LatestReadError, LatestSnapshot) result \<times> Ingress" where
  "ingress_latest_snapshot st =
     (if ing_poisoned st then (Inl LatestReadError, stop_all st) else (latest_snapshot_read (ing_latest st), st))"

text \<open>The publication candidate of an admission: its last observation, if it is positioned.\<close>

definition publication_candidate :: "CanonicalAdmission \<Rightarrow> PublishedObservation option" where
  "publication_candidate admission =
     (let envelope = adm_envelope admission; observations = env_observations envelope in
      if observations = [] then None
      else map_option (\<lambda>position. \<lparr>pub_series = env_series envelope, pub_observation = last observations,
             pub_position = position\<rparr>) (obs_producer_position (last observations)))"

definition prepare_publication ::
  "nat \<Rightarrow> PublishedObservation option \<Rightarrow> Ingress \<Rightarrow> (PublicationFault, PreparedPublication) result \<times> Ingress" where
  "prepare_publication slot_index candidate st =
     (if ing_poisoned st then (Inl PublicationFault, stop_all st)
      else if \<not> in_phase st slot_index InFlight then (Inl PublicationFault, st)
      else (map_ok (plan_stage (ing_next_arc st)) (latest_plan (ing_latest st) candidate),
            st\<lparr>ing_next_arc := ing_next_arc st + 1\<rparr>))"

datatype CompletionFaultInjection = FaultNone | FaultBeforeSwap | FaultAfterSwap

definition complete_handled ::
  "nat \<Rightarrow> CanonicalAdmission \<Rightarrow> AppendIdentity \<Rightarrow> PreparedPublication \<Rightarrow> CompletionFaultInjection \<Rightarrow> Ingress \<Rightarrow>
   bool \<times> Ingress" where
  "complete_handled slot_index admission appended preparation fault st =
     (if ing_poisoned st then (False, stop_all st)
      else if \<not> in_phase st slot_index InFlight \<or> \<not> latest_can_complete (ing_latest st) preparation
         \<or> fault = FaultBeforeSwap
      then (False, stop_all st)
      else
        let st1 = st\<lparr>ing_latest := latest_commit preparation (ing_latest st)\<rparr> in
        if fault = FaultAfterSwap then (False, stop_all st1)
        else
          let slot = (the (slot_at st1 slot_index))\<lparr>slot_retained_admission := Some admission,
                slot_append := Some appended, slot_phase := AwaitingDurability\<rparr>;
              (ok, receipt) = resolve_handled appended (ing_receipts st1 ! slot_terminal slot);
              st2 = st1\<lparr>ing_slots := (ing_slots st1)[slot_index := Some slot],
                ing_receipts := (ing_receipts st1)[slot_terminal slot := receipt]\<rparr> in
          if \<not> ok then (False, stop_all st2) else (True, st2))"

record DurableBatchEntry =
  dbe_slot :: nat
  dbe_qualification :: RetryQualification
  dbe_append :: AppendIdentity

definition batch_transition :: "DurableBatchEntry list \<Rightarrow> PendingRetryOutcome list" where
  "batch_transition entries = map (\<lambda>e. \<lparr>pro_qualification = dbe_qualification e,
     pro_append_sequence = ai_append_sequence (dbe_append e), pro_end_offset = ai_end_offset (dbe_append e)\<rparr>) entries"

definition batch_entry_ok :: "Ingress \<Rightarrow> ManifestCommit \<Rightarrow> DurableBatchEntry \<Rightarrow> bool" where
  "batch_entry_ok st committed entry \<longleftrightarrow>
     (let cutoff = mc_durable_cutoff committed in
      case slot_at st (dbe_slot entry) of
        None \<Rightarrow> False
      | Some slot \<Rightarrow>
          (case slot_append slot of
             None \<Rightarrow> False
           | Some appended \<Rightarrow>
               \<not> (slot_phase slot \<noteq> AwaitingDurability
                 \<or> appended \<noteq> dbe_append entry
                 \<or> slot_qualification slot \<noteq> dbe_qualification entry
                 \<or> ai_journal appended \<noteq> cut_journal cutoff
                 \<or> ai_append_sequence appended > cut_append_sequence cutoff
                 \<or> ai_end_offset appended > cut_end_offset cutoff
                 \<or> rcp_durable (ing_receipts st ! slot_terminal slot) \<noteq> None)))"

text \<open>The committing loop; a missing slot or a receipt that is already durable stops everything.\<close>

fun commit_batch :: "ManifestCommit \<Rightarrow> DurableBatchEntry list \<Rightarrow> Ingress \<Rightarrow> bool \<times> Ingress" where
  "commit_batch committed [] st = (True, st)"
| "commit_batch committed (entry # entries) st =
     (case slot_at st (dbe_slot entry) of
        None \<Rightarrow> (False, stop_all st)
      | Some slot \<Rightarrow>
          let appended = the (slot_append slot);
              (ok, receipt) = resolve_durable \<lparr>dc_append = appended, dc_committed = committed\<rparr>
                (ing_receipts st ! slot_terminal slot);
              st1 = st\<lparr>ing_slots := (ing_slots st)[dbe_slot entry := None],
                ing_reserved_bytes := ing_reserved_bytes st - slot_reservation slot,
                ing_receipts := (ing_receipts st)[slot_terminal slot := receipt]\<rparr> in
          if \<not> ok then (False, stop_all st1) else commit_batch committed entries st1)"

definition complete_durable_batch ::
  "DurableBatchEntry list \<Rightarrow> ManifestCommit \<Rightarrow> RetryStateSnapshot \<Rightarrow> Ingress \<Rightarrow> bool \<times> Ingress" where
  "complete_durable_batch entries committed retry st =
     (if ing_poisoned st then (False, stop_all st)
      else if entries = [] \<or> rss_store_id retry \<noteq> ing_store_id st
         \<or> rss_options retry \<noteq> rss_options (ing_retry st)
         \<or> rss_reference retry \<noteq> Some (mc_retry_state committed)
      then (False, stop_all st)
      else if \<not> verifies_transition (ing_retry st) retry (batch_transition entries) committed
      then (False, stop_all st)
      else if \<not> list_all (batch_entry_ok st committed) entries then (False, stop_all st)
      else commit_batch committed entries (st\<lparr>ing_retry := retry\<rparr>))"

definition pending_counts :: "Ingress \<Rightarrow> nat \<times> nat" where
  "pending_counts st = (if ing_poisoned st then (0, 0) else (active_count st, ing_reserved_bytes st))"

text \<open>Dropping an in-flight command that was not finished stops the ingress.\<close>

definition drop_in_flight :: "Ingress \<Rightarrow> Ingress" where
  "drop_in_flight st = ingress_stop st"

end
