(* ===== verification/Och_Ingress_Slots.thy ===== *)
theory Och_Ingress_Slots
  imports Och_Ingress Och_Retry_Window
begin

text \<open>
  The slot table of the ingress together with the heap of receipts: what holds of every table, and that
  the four ways the code changes a table (fill a free slot, update a slot in place, free a slot, stop)
  keep it.
\<close>

section \<open>Receipts are written once\<close>

definition resolved :: "ReceiptState \<Rightarrow> bool" where
  "resolved r \<longleftrightarrow> rcp_handled r \<noteq> None \<and> rcp_durable r \<noteq> None"

definition receipt_extends :: "ReceiptState \<Rightarrow> ReceiptState \<Rightarrow> bool" where
  "receipt_extends r r' \<longleftrightarrow> (rcp_handled r = None \<or> rcp_handled r' = rcp_handled r) \<and>
     (rcp_durable r = None \<or> rcp_durable r' = rcp_durable r)"

definition heap_extends :: "ReceiptState list \<Rightarrow> ReceiptState list \<Rightarrow> bool" where
  "heap_extends h h' \<longleftrightarrow> length h \<le> length h' \<and> (\<forall>t < length h. receipt_extends (h ! t) (h' ! t))"

lemma receipt_extends_refl [simp]: "receipt_extends r r"
  by (simp add: receipt_extends_def)

lemma heap_extends_refl [simp]: "heap_extends h h"
  by (simp add: heap_extends_def)

lemma heap_extends_trans: "heap_extends a b \<Longrightarrow> heap_extends b c \<Longrightarrow> heap_extends a c"
  unfolding heap_extends_def receipt_extends_def by (metis (no_types, lifting) dual_order.trans order_less_le_trans)

lemma heap_extends_append [simp]: "heap_extends h (h @ xs)"
  by (simp add: heap_extends_def nth_append)

lemma heap_extends_update: "receipt_extends (h ! t) r \<Longrightarrow> heap_extends h (h[t := r])"
  unfolding heap_extends_def by (metis length_list_update nth_list_update_eq nth_list_update_neq order_refl receipt_extends_refl)

lemma resolve_stopped_resolved [simp]: "resolved (snd (resolve_stopped r))" "receipt_extends r (snd (resolve_stopped r))"
  by (auto simp: resolved_def resolve_stopped_def receipt_extends_def Let_def split: option.splits)

lemma resolve_stopped_idem [simp]: "snd (resolve_stopped (snd (resolve_stopped r))) = snd (resolve_stopped r)"
  by (auto simp: resolve_stopped_def Let_def split: option.splits)

lemma resolve_stopped_of_resolved: "resolved r \<Longrightarrow> snd (resolve_stopped r) = r"
  by (auto simp: resolved_def resolve_stopped_def Let_def split: option.splits)

section \<open>The invariant\<close>

definition slot_inv :: "ReceiptState list \<Rightarrow> (SeriesId \<times> ProducerId \<times> RetryKey) set \<Rightarrow> Slot \<Rightarrow> bool" where
  "slot_inv heap taken s \<longleftrightarrow> slot_terminal s < length heap \<and> retry_scope (slot_qualification s) \<notin> taken \<and>
     (case slot_phase s of
        Preparing \<Rightarrow> slot_prepared s = None \<and> slot_append s = None \<and> heap ! slot_terminal s = receipt_new
      | SlotQueued \<Rightarrow> slot_prepared s \<noteq> None \<and> slot_append s = None \<and> heap ! slot_terminal s = receipt_new
      | InFlight \<Rightarrow> slot_prepared s = None \<and> slot_append s = None \<and> heap ! slot_terminal s = receipt_new
      | AwaitingDurability \<Rightarrow> slot_retained_admission s \<noteq> None \<and>
          (\<exists>a. slot_append s = Some a \<and> heap ! slot_terminal s = \<lparr>rcp_handled = Some (WriterHandled a), rcp_durable = None\<rparr>))"

definition slots_apart :: "Slot \<Rightarrow> Slot \<Rightarrow> bool" where
  "slots_apart s t \<longleftrightarrow> retry_scope (slot_qualification s) \<noteq> retry_scope (slot_qualification t) \<and> slot_terminal s \<noteq> slot_terminal t"

text \<open>The table is read as a map from indices to the slots in use.\<close>

definition slots_inv ::
  "(nat \<Rightarrow> Slot option) \<Rightarrow> ReceiptState list \<Rightarrow> (SeriesId \<times> ProducerId \<times> RetryKey) set \<Rightarrow> bool" where
  "slots_inv tab heap taken \<longleftrightarrow>
     (\<forall>i s. tab i = Some s \<longrightarrow> slot_inv heap taken s) \<and>
     (\<forall>i j s t. tab i = Some s \<longrightarrow> tab j = Some t \<longrightarrow> i \<noteq> j \<longrightarrow> slots_apart s t) \<and>
     (\<forall>n < length heap. resolved (heap ! n) \<or> (\<exists>i s. tab i = Some s \<and> slot_terminal s = n))"

lemma slots_invD:
  assumes "slots_inv tab heap taken"
  shows "tab i = Some s \<Longrightarrow> slot_inv heap taken s"
    and "tab i = Some s \<Longrightarrow> tab j = Some t \<Longrightarrow> i \<noteq> j \<Longrightarrow> slots_apart s t"
    and "n < length heap \<Longrightarrow> resolved (heap ! n) \<or> (\<exists>i s. tab i = Some s \<and> slot_terminal s = n)"
  using assms unfolding slots_inv_def by blast+

lemma slots_invI:
  assumes "\<And>i s. tab i = Some s \<Longrightarrow> slot_inv heap taken s"
    and "\<And>i j s t. tab i = Some s \<Longrightarrow> tab j = Some t \<Longrightarrow> i \<noteq> j \<Longrightarrow> slots_apart s t"
    and "\<And>n. n < length heap \<Longrightarrow> \<not> resolved (heap ! n) \<Longrightarrow> \<exists>i s. tab i = Some s \<and> slot_terminal s = n"
  shows "slots_inv tab heap taken"
  using assms unfolding slots_inv_def by blast

lemma slot_inv_frame:
  "slot_inv heap taken s \<Longrightarrow> length heap \<le> length heap' \<Longrightarrow> heap' ! slot_terminal s = heap ! slot_terminal s \<Longrightarrow>
   slot_inv heap' taken s"
  by (auto simp: slot_inv_def split: SlotPhase.splits)

lemma slot_not_resolved: "slot_inv heap taken s \<Longrightarrow> \<not> resolved (heap ! slot_terminal s)"
  by (auto simp: slot_inv_def resolved_def receipt_new_def split: SlotPhase.splits)

lemma slots_inv_other:
  assumes "slots_inv tab heap taken" "tab i = Some s" "tab j = Some u" "j \<noteq> i"
  shows "slot_inv (heap[slot_terminal s := r]) taken u"
  using slots_invD(1) [OF assms(1,3)] slots_invD(2) [OF assms(1,3,2,4)]
  by (auto simp: slots_apart_def intro: slot_inv_frame)

section \<open>Filling, updating and freeing a slot\<close>

lemma slots_inv_fill:
  assumes inv: "slots_inv tab heap taken" and i: "tab i = None"
    and s: "slot_inv (heap @ [receipt_new]) taken s" "slot_terminal s = length heap"
    and fresh: "\<And>j t. tab j = Some t \<Longrightarrow> retry_scope (slot_qualification t) \<noteq> retry_scope (slot_qualification s)"
  shows "slots_inv (tab(i := Some s)) (heap @ [receipt_new]) taken"
proof (rule slots_invI)
  have old: "slot_inv (heap @ [receipt_new]) taken t" "slot_terminal t < length heap" if "tab j = Some t" for j t
    using slots_invD(1) [OF inv that] slot_inv_frame [of heap taken t "heap @ [receipt_new]"]
    by (auto simp: slot_inv_def nth_append)
  have apart: "slots_apart s t" "slots_apart t s" if "tab j = Some t" for j t
    using fresh [OF that] old(2) [OF that] s(2) by (auto simp: slots_apart_def)
  show "slot_inv (heap @ [receipt_new]) taken t" if "(tab(i := Some s)) j = Some t" for j t
    using that old(1) s(1) by (auto split: if_splits)
  show "slots_apart u v" if "(tab(i := Some s)) j = Some u" "(tab(i := Some s)) k = Some v" "j \<noteq> k" for j k u v
    using that apart slots_invD(2) [OF inv] by (auto split: if_splits)
  show "\<exists>j u. (tab(i := Some s)) j = Some u \<and> slot_terminal u = n"
    if bad: "n < length (heap @ [receipt_new])" "\<not> resolved ((heap @ [receipt_new]) ! n)" for n
  proof (cases "n = length heap")
    case True
    then show ?thesis using s(2) by auto
  next
    case False
    then obtain j u where "tab j = Some u" "slot_terminal u = n"
      using slots_invD(3) [OF inv, of n] bad by (auto simp: nth_append)
    then show ?thesis using i by (intro exI [of _ j]) auto
  qed
qed

lemma slots_inv_update:
  assumes inv: "slots_inv tab heap taken" and i: "tab i = Some s"
    and s': "slot_inv (heap[slot_terminal s := r]) taken s'" "slot_terminal s' = slot_terminal s"
      "slot_qualification s' = slot_qualification s"
  shows "slots_inv (tab(i := Some s')) (heap[slot_terminal s := r]) taken"
proof (rule slots_invI)
  have same: "slots_apart s' t = slots_apart s t" "slots_apart t s' = slots_apart t s" for t
    using s' by (simp_all add: slots_apart_def)
  show "slot_inv (heap[slot_terminal s := r]) taken t" if "(tab(i := Some s')) j = Some t" for j t
    using that s'(1) slots_inv_other [OF inv i] by (auto split: if_splits)
  show "slots_apart u v" if "(tab(i := Some s')) j = Some u" "(tab(i := Some s')) k = Some v" "j \<noteq> k" for j k u v
    using that same i slots_invD(2) [OF inv] by (auto split: if_splits)
  show "\<exists>j u. (tab(i := Some s')) j = Some u \<and> slot_terminal u = n"
    if bad: "n < length (heap[slot_terminal s := r])" "\<not> resolved (heap[slot_terminal s := r] ! n)" for n
  proof (cases "n = slot_terminal s")
    case True
    then show ?thesis using s'(2) by auto
  next
    case False
    then obtain j u where "tab j = Some u" "slot_terminal u = n" using slots_invD(3) [OF inv, of n] bad by auto
    then show ?thesis using i False by (intro exI [of _ j]) auto
  qed
qed

lemma slots_inv_free:
  assumes inv: "slots_inv tab heap taken" and i: "tab i = Some s" and r: "resolved r"
  shows "slots_inv (tab(i := None)) (heap[slot_terminal s := r]) taken"
proof (rule slots_invI)
  show "slot_inv (heap[slot_terminal s := r]) taken t" if "(tab(i := None)) j = Some t" for j t
    using that slots_inv_other [OF inv i] by (auto split: if_splits)
  show "slots_apart u v" if "(tab(i := None)) j = Some u" "(tab(i := None)) k = Some v" "j \<noteq> k" for j k u v
    using that slots_invD(2) [OF inv] by (auto split: if_splits)
  show "\<exists>j u. (tab(i := None)) j = Some u \<and> slot_terminal u = n"
    if bad: "n < length (heap[slot_terminal s := r])" "\<not> resolved (heap[slot_terminal s := r] ! n)" for n
  proof -
    have "n \<noteq> slot_terminal s" using bad r by auto
    then obtain j u where "tab j = Some u" "slot_terminal u = n" using slots_invD(3) [OF inv, of n] bad by auto
    then show ?thesis using i \<open>n \<noteq> slot_terminal s\<close> by (intro exI [of _ j]) auto
  qed
qed

lemma slots_inv_replayed: "slots_inv tab heap taken \<Longrightarrow> resolved r \<Longrightarrow> slots_inv tab (heap @ [r]) taken"
proof (rule slots_invI)
  assume inv: "slots_inv tab heap taken" and r: "resolved r"
  show "slot_inv (heap @ [r]) taken s" if "tab i = Some s" for i s
  proof -
    have "slot_terminal s < length heap" using slots_invD(1) [OF inv that] unfolding slot_inv_def by blast
    then show ?thesis by (intro slot_inv_frame [OF slots_invD(1) [OF inv that]]) (simp_all add: nth_append)
  qed
  show "slots_apart s t" if "tab i = Some s" "tab j = Some t" "i \<noteq> j" for i j s t
    by (rule slots_invD(2) [OF inv that])
  show "\<exists>i s. tab i = Some s \<and> slot_terminal s = n" if "n < length (heap @ [r])" "\<not> resolved ((heap @ [r]) ! n)" for n
  proof -
    have "n < length heap \<and> \<not> resolved (heap ! n)" using that r by (cases "n = length heap") (simp_all add: nth_append)
    then show ?thesis using slots_invD(3) [OF inv] by blast
  qed
qed

lemma slots_inv_taken:
  "slots_inv tab heap taken \<Longrightarrow> (\<And>i s. tab i = Some s \<Longrightarrow> retry_scope (slot_qualification s) \<notin> taken') \<Longrightarrow>
   slots_inv tab heap taken'"
  unfolding slots_inv_def slot_inv_def by blast

section \<open>Stopping\<close>

lemma length_stop_slots [simp]: "length (stop_slots slots heap) = length heap"
  by (induction slots heap rule: stop_slots.induct) simp_all

lemma stop_slots_nth:
  "t < length heap \<Longrightarrow> stop_slots slots heap ! t =
   (if \<exists>s. Some s \<in> set slots \<and> slot_terminal s = t then snd (resolve_stopped (heap ! t)) else heap ! t)"
proof (induction slots heap rule: stop_slots.induct)
  case (3 s slots heap)
  have "stop_slots (Some s # slots) heap ! t =
     (if \<exists>u. Some u \<in> set slots \<and> slot_terminal u = t
      then snd (resolve_stopped (heap[slot_terminal s := snd (resolve_stopped (heap ! slot_terminal s))] ! t))
      else heap[slot_terminal s := snd (resolve_stopped (heap ! slot_terminal s))] ! t)"
    using 3 by simp
  also have "\<dots> = (if \<exists>u. Some u \<in> set (Some s # slots) \<and> slot_terminal u = t then snd (resolve_stopped (heap ! t)) else heap ! t)"
    using "3.prems" by (cases "slot_terminal s = t") auto
  finally show ?case .
qed auto

lemma stop_slots_extends: "heap_extends heap (stop_slots slots heap)"
  by (simp add: heap_extends_def stop_slots_nth)

definition slot_table :: "Slot option list \<Rightarrow> nat \<Rightarrow> Slot option" where
  "slot_table slots i = (if i < length slots then slots ! i else None)"

lemma slot_table_update: "i < length slots \<Longrightarrow> slot_table (slots[i := x]) = (slot_table slots)(i := x)"
  by (auto simp: slot_table_def fun_eq_iff)

lemma slot_table_none: "slot_table (map (\<lambda>_. None) slots) = (\<lambda>_. None)"
  by (simp add: slot_table_def fun_eq_iff)

lemma slot_table_set: "slot_table slots i = Some s \<Longrightarrow> Some s \<in> set slots"
  by (auto simp: slot_table_def split: if_splits) (metis nth_mem)

lemma stop_slots_resolved:
  assumes "slots_inv (slot_table slots) heap taken" "n < length heap"
  shows "resolved (stop_slots slots heap ! n)"
proof (cases "resolved (heap ! n)")
  case True
  then show ?thesis using assms(2) by (simp add: stop_slots_nth resolve_stopped_of_resolved)
next
  case False
  then obtain i s where "slot_table slots i = Some s" "slot_terminal s = n" using slots_invD(3) [OF assms] by blast
  then have "\<exists>s. Some s \<in> set slots \<and> slot_terminal s = n" using slot_table_set by blast
  then show ?thesis using assms(2) by (simp add: stop_slots_nth)
qed

lemma slots_inv_stopped:
  assumes "slots_inv (slot_table slots) heap taken"
  shows "slots_inv (slot_table (map (\<lambda>_. None) slots)) (stop_slots slots heap) taken'"
  using stop_slots_resolved [OF assms] by (intro slots_invI) (auto simp: slot_table_none)

section \<open>Reserved bytes\<close>

definition slot_sum :: "(Slot \<Rightarrow> nat) \<Rightarrow> Slot option list \<Rightarrow> nat" where
  "slot_sum f slots = sum_list (map (\<lambda>s. case s of None \<Rightarrow> 0 | Some x \<Rightarrow> f x) slots)"

lemma slot_sum_update:
  "i < length slots \<Longrightarrow> slot_sum f (slots[i := x]) + (case slots ! i of None \<Rightarrow> 0 | Some s \<Rightarrow> f s) =
   slot_sum f slots + (case x of None \<Rightarrow> 0 | Some s \<Rightarrow> f s)"
proof (induction slots arbitrary: i)
  case (Cons y ys)
  then show ?case by (cases i) (auto simp: slot_sum_def)
qed simp

lemma slot_sum_none [simp]: "slot_sum f (map (\<lambda>_. None) slots) = 0"
  by (induction slots) (simp_all add: slot_sum_def)

lemma slot_sum_mono: "(\<And>s. f s \<le> g s) \<Longrightarrow> slot_sum f slots \<le> slot_sum g slots"
  unfolding slot_sum_def by (intro sum_list_mono) (auto split: option.splits)

end
