(* ===== verification/Och_Ingress_Inv.thy ===== *)
theory Och_Ingress_Inv
  imports Och_Ingress_Slots
begin

text \<open>
  The invariant of the ingress and its preservation by every operation: exact byte accounting under the
  class reservation law, one slot per retry scope and none that is already committed, a queue that
  holds exactly the queued slots, and receipts that are either owned by a slot or fully resolved.
\<close>

section \<open>The invariant\<close>

definition limits_ok :: "ByteReservationLimits \<Rightarrow> bool" where
  "limits_ok l \<longleftrightarrow> brl_protected_reserve l + brl_normal_reserve l \<le> brl_total l"

definition bulk_bytes :: "Slot \<Rightarrow> nat" where
  "bulk_bytes s = (if slot_priority s = PriorityBulk then slot_reservation s else 0)"

definition lower_bytes :: "Slot \<Rightarrow> nat" where
  "lower_bytes s = (if slot_priority s = PriorityProtected then 0 else slot_reservation s)"

definition bytes_inv :: "ByteReservationLimits \<Rightarrow> Slot option list \<Rightarrow> nat \<Rightarrow> bool" where
  "bytes_inv l slots reserved \<longleftrightarrow> reserved = slot_sum slot_reservation slots \<and> reserved \<le> brl_total l \<and>
     slot_sum lower_bytes slots \<le> class_ceiling l PriorityNormal \<and> slot_sum bulk_bytes slots \<le> class_ceiling l PriorityBulk"

definition queue_inv :: "(nat \<Rightarrow> Slot option) \<Rightarrow> FixedQueue \<Rightarrow> bool" where
  "queue_inv tab q \<longleftrightarrow> ring_ok q \<and> distinct (ring_contents q) \<and>
     (\<forall>i. i \<in> set (ring_contents q) \<longleftrightarrow> (\<exists>s. tab i = Some s \<and> slot_phase s = SlotQueued))"

definition taken_scopes :: "Ingress \<Rightarrow> (SeriesId \<times> ProducerId \<times> RetryKey) set" where
  "taken_scopes st = retry_scope ` set (retained (ing_retry st))"

definition latest_inv :: "Ingress \<Rightarrow> bool" where
  "latest_inv st \<longleftrightarrow> pred_option (\<lambda>s. latest_snapshot_ok s \<and> ls_store_id s = ing_store_id st \<and> ls_arc s < ing_next_arc st)
     (lat_current (ing_latest st))"

definition ing_ok :: "Ingress \<Rightarrow> bool" where
  "ing_ok st \<longleftrightarrow> length (ing_slots st) = 16 \<and> slots_inv (slot_at st) (ing_receipts st) (taken_scopes st) \<and>
     queue_inv (slot_at st) (ing_queue st) \<and> bytes_inv (ing_byte_limits st) (ing_slots st) (ing_reserved_bytes st) \<and>
     validate_state (ing_retry st) = Inr () \<and> latest_inv st"

lemma ing_okD:
  assumes "ing_ok st"
  shows "length (ing_slots st) = 16" "slots_inv (slot_at st) (ing_receipts st) (taken_scopes st)"
    "queue_inv (slot_at st) (ing_queue st)" "bytes_inv (ing_byte_limits st) (ing_slots st) (ing_reserved_bytes st)"
    "validate_state (ing_retry st) = Inr ()" "latest_inv st"
  using assms by (simp_all add: ing_ok_def)

lemma slot_at_table: "slot_at st = slot_table (ing_slots st)"
  by (simp add: fun_eq_iff slot_at_def slot_table_def)

lemma in_phase_iff: "in_phase st i phase \<longleftrightarrow> (\<exists>s. slot_at st i = Some s \<and> slot_phase s = phase)"
  by (cases "slot_at st i") (auto simp: in_phase_def)

lemma slot_at_lt: "slot_at st i = Some s \<Longrightarrow> i < length (ing_slots st)"
  by (auto simp: slot_at_def split: if_splits)

section \<open>How a state may evolve\<close>

definition latest_evolves :: "LatestState \<Rightarrow> LatestState \<Rightarrow> bool" where
  "latest_evolves l l' \<longleftrightarrow> (lat_current l' = None \<or>
     (\<exists>s s'. lat_current l = Some s \<and> lat_current l' = Some s' \<and> snapshot_grows s s')) \<and> (lat_sealed l \<longrightarrow> lat_sealed l')"

definition ing_evolves :: "Ingress \<Rightarrow> Ingress \<Rightarrow> bool" where
  "ing_evolves st st' \<longleftrightarrow> heap_extends (ing_receipts st) (ing_receipts st') \<and> latest_evolves (ing_latest st) (ing_latest st') \<and>
     ing_store_id st' = ing_store_id st \<and> ing_byte_limits st' = ing_byte_limits st \<and>
     rss_options (ing_retry st') = rss_options (ing_retry st) \<and> (ing_closed st \<longrightarrow> ing_closed st') \<and>
     (ing_poisoned st \<longrightarrow> ing_poisoned st') \<and> ing_next_arc st \<le> ing_next_arc st'"

lemma latest_evolves_refl [simp]: "latest_evolves l l"
  by (cases "lat_current l") (auto simp: latest_evolves_def snapshot_grows_refl)

lemma latest_evolves_trans: "latest_evolves a b \<Longrightarrow> latest_evolves b c \<Longrightarrow> latest_evolves a c"
  unfolding latest_evolves_def using snapshot_grows_trans by fastforce

lemma ing_evolves_refl [simp]: "ing_evolves st st"
  by (simp add: ing_evolves_def)

lemma ing_evolves_trans: "ing_evolves a b \<Longrightarrow> ing_evolves b c \<Longrightarrow> ing_evolves a c"
  using heap_extends_trans [of "ing_receipts a" "ing_receipts b" "ing_receipts c"]
    latest_evolves_trans [of "ing_latest a" "ing_latest b" "ing_latest c"]
  by (simp add: ing_evolves_def)

section \<open>The contract of an operation\<close>

text \<open>What every operation of the ingress promises, on states where its precondition holds.\<close>

locale ingress_op =
  fixes op :: "Ingress \<Rightarrow> 'a \<times> Ingress" and pre :: "Ingress \<Rightarrow> bool"
  assumes keeps: "ing_ok st \<Longrightarrow> pre st \<Longrightarrow> ing_ok (snd (op st))"
    and evolves: "ing_ok st \<Longrightarrow> pre st \<Longrightarrow> ing_evolves st (snd (op st))"
begin

lemma receipt_final:
  assumes "ing_ok st" "pre st" "n < length (ing_receipts st)" "resolved (ing_receipts st ! n)"
  shows "ing_receipts (snd (op st)) ! n = ing_receipts st ! n"
proof -
  have "receipt_extends (ing_receipts st ! n) (ing_receipts (snd (op st)) ! n)"
    using evolves [OF assms(1,2)] assms(3) by (simp add: ing_evolves_def heap_extends_def)
  with assms(4) show ?thesis
    by (intro ReceiptState.equality) (auto simp: receipt_extends_def resolved_def)
qed

lemma not_reopened: "ing_ok st \<Longrightarrow> pre st \<Longrightarrow> ing_closed st \<Longrightarrow> ing_closed (snd (op st))"
  using evolves [of st] by (simp add: ing_evolves_def)

end

section \<open>Stopping and closing\<close>

lemma fixed_queue_clear_new: "fixed_queue_clear q = fixed_queue_new"
  by (simp add: fixed_queue_clear_def fixed_queue_new_def)

lemma queue_inv_new: "(\<And>i s. tab i = Some s \<Longrightarrow> slot_phase s \<noteq> SlotQueued) \<Longrightarrow> queue_inv tab fixed_queue_new"
  using ring.empty_ok ring.empty_contents by (auto simp: queue_inv_def)

lemma stop_all_ok: "ing_ok st \<Longrightarrow> ing_ok (stop_all st)"
proof -
  assume ok: "ing_ok st"
  let ?st = "stop_all st"
  have none: "slot_at ?st = (\<lambda>_. None)" by (simp add: slot_at_table stop_all_def slot_table_none)
  have "slots_inv (slot_table (ing_slots ?st)) (ing_receipts ?st) (taken_scopes ?st)"
    using ok slots_inv_stopped [of "ing_slots st" "ing_receipts st" "taken_scopes st" "taken_scopes ?st"]
    by (simp add: ing_ok_def slot_at_table) (simp add: stop_all_def)
  moreover have "queue_inv (slot_at ?st) (ing_queue ?st)"
    unfolding none using queue_inv_new [of "\<lambda>_. None"] by (simp add: stop_all_def fixed_queue_clear_new)
  moreover have "bytes_inv (ing_byte_limits ?st) (ing_slots ?st) (ing_reserved_bytes ?st)"
    by (simp add: bytes_inv_def stop_all_def)
  ultimately show ?thesis
    using ok by (simp add: ing_ok_def slot_at_table [symmetric] latest_inv_def)
      (simp add: stop_all_def latest_make_unavailable_def)
qed

lemma stop_all_evolves: "ing_evolves st (stop_all st)"
  by (simp add: ing_evolves_def stop_all_def stop_slots_extends latest_evolves_def latest_make_unavailable_def)

lemma stop_all_resolved: "ing_ok st \<Longrightarrow> n < length (ing_receipts st) \<Longrightarrow> resolved (ing_receipts (stop_all st) ! n)"
  using stop_slots_resolved [of "ing_slots st"] by (auto simp: ing_ok_def stop_all_def slot_at_table)

lemma ing_ok_frame:
  assumes "ing_ok st" "ing_slots st' = ing_slots st" "ing_receipts st' = ing_receipts st" "ing_queue st' = ing_queue st"
    "ing_byte_limits st' = ing_byte_limits st" "ing_reserved_bytes st' = ing_reserved_bytes st" "ing_retry st' = ing_retry st"
    "latest_inv st'"
  shows "ing_ok st'"
  using assms by (simp add: ing_ok_def taken_scopes_def slot_at_table)

interpretation stop: ingress_op "\<lambda>st. ((), ingress_stop st)" "\<lambda>_. True"
  by unfold_locales (simp_all add: ingress_stop_def stop_all_ok stop_all_evolves)

interpretation drop_in_flight: ingress_op "\<lambda>st. ((), drop_in_flight st)" "\<lambda>_. True"
  by unfold_locales (simp_all add: drop_in_flight_def ingress_stop_def stop_all_ok stop_all_evolves)

lemma closed_ok: "ing_ok st \<Longrightarrow> ing_ok (st\<lparr>ing_closed := True\<rparr>)"
  by (rule ing_ok_frame) (simp_all add: ing_ok_def latest_inv_def)

lemma closed_evolves: "ing_evolves st (st\<lparr>ing_closed := True\<rparr>)"
  by (simp add: ing_evolves_def)

interpretation close: ingress_op "\<lambda>st. ((), close_admission st)" "\<lambda>_. True"
  by unfold_locales (simp_all add: close_admission_def stop_all_ok stop_all_evolves closed_ok closed_evolves)

interpretation latest_read: ingress_op ingress_latest_snapshot "\<lambda>_. True"
  by unfold_locales (simp_all add: ingress_latest_snapshot_def stop_all_ok stop_all_evolves)

interpretation precheck: ingress_op "submit_precheck command" "\<lambda>_. True"
  by unfold_locales (simp_all add: submit_precheck_def stop_all_ok stop_all_evolves)


section \<open>Submission\<close>

lemma scan_slots_distinct: "scan_slots q slots = ScanDistinct \<Longrightarrow> Some s \<in> set slots \<Longrightarrow>
   retry_scope (slot_qualification s) \<noteq> retry_scope q"
  by (induction q slots rule: scan_slots.induct) (auto simp: retry_classify_distinct split: RetryClassification.splits)

lemma scan_slots_terminal: "scan_slots q slots = ScanEquivalent n \<Longrightarrow>
   \<exists>s. Some s \<in> set slots \<and> slot_qualification s = q \<and> slot_terminal s = n"
  by (induction q slots rule: scan_slots.induct) (auto simp: retry_classify_equivalent split: RetryClassification.splits)

lemma first_free_some: "first_free k slots = Some i \<Longrightarrow> k \<le> i \<and> i < k + length slots \<and> slots ! (i - k) = None"
proof (induction k slots rule: first_free.induct)
  case (2 k s slots)
  show ?case
  proof (cases "s = None")
    case False
    then have "k + 1 \<le> i \<and> i < k + 1 + length slots \<and> slots ! (i - (k + 1)) = None" using "2.IH" "2.prems" by auto
    moreover have "i - k = Suc (i - (k + 1))" if "k + 1 \<le> i" using that by simp
    ultimately show ?thesis by simp
  qed (use 2 in auto)
qed simp

lemma first_free_none: "first_free k slots = None \<Longrightarrow> None \<notin> set slots"
  by (induction k slots rule: first_free.induct) (auto split: if_splits)

lemma bytes_inv_fill:
  assumes "bytes_inv l slots reserved" "i < length slots" "slots ! i = None"
    "reserved + slot_reservation s \<le> class_ceiling l (slot_priority s)"
  shows "bytes_inv l (slots[i := Some s]) (reserved + slot_reservation s)"
proof -
  have sums: "slot_sum f (slots[i := Some s]) = slot_sum f slots + f s" for f
    using slot_sum_update [OF assms(2), of f "Some s"] assms(3) by simp
  have le: "slot_sum lower_bytes slots \<le> reserved" "slot_sum bulk_bytes slots \<le> reserved"
    using assms(1) slot_sum_mono [of lower_bytes slot_reservation slots] slot_sum_mono [of bulk_bytes slot_reservation slots]
    by (auto simp: bytes_inv_def lower_bytes_def bulk_bytes_def)
  show ?thesis
    using assms(1,4) le by (cases "slot_priority s") (auto simp: bytes_inv_def sums class_ceiling_def lower_bytes_def bulk_bytes_def)
qed

lemma bytes_inv_free:
  assumes "bytes_inv l slots reserved" "i < length slots" "slots ! i = Some s"
  shows "bytes_inv l (slots[i := None]) (reserved - slot_reservation s)"
proof -
  have "slot_sum f (slots[i := None]) + f s = slot_sum f slots" for f
    using slot_sum_update [OF assms(2), of f None] assms(3) by simp
  from this [of slot_reservation] this [of lower_bytes] this [of bulk_bytes]
  show ?thesis using assms(1) by (auto simp: bytes_inv_def)
qed

lemma bytes_inv_update:
  assumes "bytes_inv l slots reserved" "i < length slots" "slots ! i = Some s"
    "slot_reservation s' = slot_reservation s" "slot_priority s' = slot_priority s"
  shows "bytes_inv l (slots[i := Some s']) reserved"
proof -
  have "slot_sum f (slots[i := Some s']) = slot_sum f slots" if "f s' = f s" for f
    using slot_sum_update [OF assms(2), of f "Some s'"] assms(3) that by simp
  then show ?thesis using assms(1,4,5) by (simp add: bytes_inv_def lower_bytes_def bulk_bytes_def)
qed

lemma queue_inv_phase:
  assumes "queue_inv tab q" "(\<exists>s. tab i = Some s \<and> slot_phase s = SlotQueued) = (\<exists>s. x = Some s \<and> slot_phase s = SlotQueued)"
  shows "queue_inv (tab(i := x)) q"
  using assms unfolding queue_inv_def by (metis fun_upd_apply)

lemma queue_lt: "queue_inv (slot_at st) q \<Longrightarrow> i \<in> set (ring_contents q) \<Longrightarrow> i < length (ing_slots st)"
  unfolding queue_inv_def using slot_at_lt by blast

lemma can_push_preparing:
  assumes "ing_ok st" "slot_at st i = Some s" "slot_phase s \<noteq> SlotQueued"
  shows "fixed_queue_can_push (ing_queue st)"
proof -
  let ?c = "ring_contents (ing_queue st)"
  have q: "queue_inv (slot_at st) (ing_queue st)" and n: "length (ing_slots st) = 16" using assms(1) by (simp_all add: ing_ok_def)
  have "i \<notin> set ?c" using q assms(2,3) by (auto simp: queue_inv_def)
  moreover have "set ?c \<subseteq> {..<16}" using queue_lt [OF q] n by auto
  ultimately have "set ?c \<subset> {..<16}" using slot_at_lt [OF assms(2)] n by auto
  then have "card (set ?c) < 16" using psubset_card_mono [of "{..<16::nat}" "set ?c"] by simp
  then have "length ?c < 16" using q distinct_card by (fastforce simp: queue_inv_def)
  then show ?thesis using ring.can_push_iff q by (simp add: queue_inv_def)
qed

lemma can_reserve_iff:
  "can_reserve st p n \<Longrightarrow> ing_reserved_bytes st + n \<le> class_ceiling (ing_byte_limits st) p"
  by (auto simp: can_reserve_def usize_checked_add_def split: if_splits)

lemma state_fresh_taken:
  assumes "validate_state r = Inr ()" "state_classify r q = MatchFresh"
  shows "retry_scope q \<notin> retry_scope ` set (retained r)"
proof
  note c = state_classify_cases [OF validate_state_distinct [OF assms(1)]]
  assume "retry_scope q \<in> retry_scope ` set (retained r)"
  then consider x where "x \<in> set (rss_replay r)" "retry_scope (rro_qualification x) = retry_scope q"
    | g where "g \<in> set (rss_guard r)" "retry_scope (rge_qualification g) = retry_scope q"
    by (auto simp: retained_def)
  then show False
  proof cases
    case (1 x)
    then show ?thesis using c(1) [OF 1] assms(2) by (simp split: if_splits)
  next
    case (2 g)
    then show ?thesis using c(2) [OF 2] assms(2) by (simp split: if_splits)
  qed
qed


lemma latest_inv_frame:
  "ing_latest st' = ing_latest st \<Longrightarrow> ing_store_id st' = ing_store_id st \<Longrightarrow> ing_next_arc st' = ing_next_arc st \<Longrightarrow>
   latest_inv st' = latest_inv st"
  by (simp add: latest_inv_def)

lemma submit_replay_ok:
  assumes "ing_ok st"
  shows "ing_ok (snd (submit_replay command outcome st))" "ing_evolves st (snd (submit_replay command outcome st))"
proof -
  obtain r where st': "snd (submit_replay command outcome st) = st\<lparr>ing_receipts := ing_receipts st @ [r]\<rparr>" and r: "resolved r"
    by (simp add: submit_replay_def resolve_handled_def resolve_durable_def receipt_new_def Let_def resolved_def)
  show "ing_ok (snd (submit_replay command outcome st))"
    unfolding st' using assms slots_inv_replayed [OF _ r]
    by (simp add: ing_ok_def slot_at_table taken_scopes_def latest_inv_def)
  show "ing_evolves st (snd (submit_replay command outcome st))" unfolding st' by (simp add: ing_evolves_def)
qed

definition new_slot :: "IngressCommand \<Rightarrow> nat \<Rightarrow> nat \<Rightarrow> Slot" where
  "new_slot command frame_len terminal = \<lparr>slot_qualification = adm_retry (cmd_admission command), slot_prepared = None,
     slot_retained_admission = None, slot_terminal = terminal, slot_phase = Preparing, slot_reservation = frame_len,
     slot_priority = cmd_priority command, slot_barrier = cmd_barrier command, slot_append = None\<rparr>"

lemma submit_reserve_cases:
  obtains (stopped) r where "ing_poisoned st" "submit_reserve measured command st = (ReserveDone r, stop_all st)"
  | (unchanged) r where "submit_reserve measured command st = (ReserveDone r, st)"
  | (replayed) r outcome where "submit_reserve measured command st = (ReserveDone r, snd (submit_replay command outcome st))"
  | (reserved) i n where "submit_reserve measured command st = (Reserved i n (length (ing_receipts st)),
        st\<lparr>ing_reserved_bytes := ing_reserved_bytes st + n,
           ing_slots := (ing_slots st)[i := Some (new_slot command n (length (ing_receipts st)))],
           ing_receipts := ing_receipts st @ [receipt_new]\<rparr>)"
      "measured = Inr n" "first_free 0 (ing_slots st) = Some i" "can_reserve st (cmd_priority command) n"
      "scan_slots (adm_retry (cmd_admission command)) (ing_slots st) = ScanDistinct"
      "state_classify (ing_retry st) (adm_retry (cmd_admission command)) = MatchFresh"
      "\<not> ing_closed st" "\<not> ing_poisoned st"
proof (cases "submit_reserve measured command st")
  case (Pair r st')
  then show ?thesis
    using that unfolding submit_reserve_def Let_def new_slot_def
    by (auto split: if_splits sum.splits SlotScan.splits RetryStateMatch.splits option.splits prod.splits) (metis snd_conv)+
qed

lemma reserve_ok:
  assumes ok: "ing_ok st" and f: "first_free 0 (ing_slots st) = Some i" and c: "can_reserve st (cmd_priority command) n"
    and scan: "scan_slots (adm_retry (cmd_admission command)) (ing_slots st) = ScanDistinct"
    and fresh: "state_classify (ing_retry st) (adm_retry (cmd_admission command)) = MatchFresh"
  shows "ing_ok (st\<lparr>ing_reserved_bytes := ing_reserved_bytes st + n,
           ing_slots := (ing_slots st)[i := Some (new_slot command n (length (ing_receipts st)))],
           ing_receipts := ing_receipts st @ [receipt_new]\<rparr>)" (is "ing_ok ?st")
proof -
  let ?s = "new_slot command n (length (ing_receipts st))"
  have i: "i < length (ing_slots st)" "ing_slots st ! i = None" using first_free_some [OF f] by simp_all
  then have free: "slot_at st i = None" by (simp add: slot_at_def)
  have at: "slot_at ?st = (slot_at st)(i := Some ?s)" using i by (simp add: slot_at_table slot_table_update)
  have "retry_scope (slot_qualification ?s) \<notin> taken_scopes st"
    using state_fresh_taken [OF _ fresh] ok by (simp add: ing_ok_def taken_scopes_def new_slot_def)
  then have "slot_inv (ing_receipts st @ [receipt_new]) (taken_scopes st) ?s"
    by (simp add: slot_inv_def new_slot_def)
  moreover have "retry_scope (slot_qualification t) \<noteq> retry_scope (slot_qualification ?s)" if "slot_at st j = Some t" for j t
    using scan_slots_distinct [OF scan, of t] slot_table_set that by (simp add: slot_at_table new_slot_def)
  ultimately have "slots_inv (slot_at ?st) (ing_receipts ?st) (taken_scopes ?st)"
    using ok slots_inv_fill [of "slot_at st" "ing_receipts st" "taken_scopes st" i ?s] free
    unfolding at by (simp add: ing_ok_def new_slot_def taken_scopes_def)
  moreover have "queue_inv (slot_at ?st) (ing_queue ?st)"
    unfolding at using ok free by (simp add: ing_ok_def queue_inv_phase new_slot_def)
  moreover have "bytes_inv (ing_byte_limits ?st) (ing_slots ?st) (ing_reserved_bytes ?st)"
    using bytes_inv_fill [of "ing_byte_limits st" "ing_slots st" "ing_reserved_bytes st" i ?s] ok i can_reserve_iff [OF c]
    by (simp add: ing_ok_def new_slot_def)
  ultimately show ?thesis using ok by (simp add: ing_ok_def latest_inv_def)
qed

lemma reserve_evolves:
  "ing_evolves st (st\<lparr>ing_reserved_bytes := b, ing_slots := slots, ing_receipts := ing_receipts st @ rs\<rparr>)"
  by (simp add: ing_evolves_def)

interpretation reserve: ingress_op "submit_reserve measured command" "\<lambda>_. True"
proof unfold_locales
  fix st
  assume ok: "ing_ok st"
  show "ing_ok (snd (submit_reserve measured command st))"
    by (cases rule: submit_reserve_cases [of st measured command]) (simp_all add: ok stop_all_ok submit_replay_ok reserve_ok)
  show "ing_evolves st (snd (submit_reserve measured command st))"
    by (cases rule: submit_reserve_cases [of st measured command])
      (simp_all add: ok stop_all_evolves submit_replay_ok reserve_evolves)
qed

text \<open>A step that replaces one slot by another with the same scope, receipt and reservation.\<close>

lemma update_slot_ok:
  assumes ok: "ing_ok st" and i: "slot_at st i = Some s"
    and same: "slot_terminal s' = slot_terminal s" "slot_qualification s' = slot_qualification s"
      "slot_reservation s' = slot_reservation s" "slot_priority s' = slot_priority s"
    and inv: "slot_inv ((ing_receipts st)[slot_terminal s := r]) (taken_scopes st) s'"
    and q: "queue_inv ((slot_at st)(i := Some s')) q"
  shows "ing_ok (st\<lparr>ing_slots := (ing_slots st)[i := Some s'], ing_receipts := (ing_receipts st)[slot_terminal s := r],
     ing_queue := q\<rparr>)" (is "ing_ok ?st")
proof -
  have lt: "i < length (ing_slots st)" "ing_slots st ! i = Some s" using i by (auto simp: slot_at_def split: if_splits)
  have at: "slot_at ?st = (slot_at st)(i := Some s')" using lt by (simp add: slot_at_table slot_table_update)
  have "slots_inv (slot_at ?st) (ing_receipts ?st) (taken_scopes ?st)"
    unfolding at using slots_inv_update [OF ing_okD(2) [OF ok] i inv same(1,2)] by (simp add: taken_scopes_def)
  moreover have "bytes_inv (ing_byte_limits ?st) (ing_slots ?st) (ing_reserved_bytes ?st)"
    using bytes_inv_update [OF _ lt same(3,4)] ok by (simp add: ing_ok_def)
  ultimately show ?thesis using ok q unfolding ing_ok_def at by (simp add: latest_inv_def)
qed

lemma free_slot_ok:
  assumes ok: "ing_ok st" and i: "slot_at st i = Some s" and r: "resolved r" and p: "slot_phase s \<noteq> SlotQueued"
  shows "ing_ok (st\<lparr>ing_slots := (ing_slots st)[i := None], ing_reserved_bytes := ing_reserved_bytes st - slot_reservation s,
     ing_receipts := (ing_receipts st)[slot_terminal s := r]\<rparr>)" (is "ing_ok ?st")
proof -
  have lt: "i < length (ing_slots st)" "ing_slots st ! i = Some s" using i by (auto simp: slot_at_def split: if_splits)
  have at: "slot_at ?st = (slot_at st)(i := None)" using lt by (simp add: slot_at_table slot_table_update)
  have "slots_inv (slot_at ?st) (ing_receipts ?st) (taken_scopes ?st)"
    unfolding at using slots_inv_free [OF ing_okD(2) [OF ok] i r] by (simp add: taken_scopes_def)
  moreover have "bytes_inv (ing_byte_limits ?st) (ing_slots ?st) (ing_reserved_bytes ?st)"
    using bytes_inv_free [OF _ lt] ok by (simp add: ing_ok_def)
  moreover have "queue_inv (slot_at ?st) (ing_queue ?st)"
    unfolding at using ok i p by (simp add: ing_ok_def queue_inv_phase)
  ultimately show ?thesis using ok by (simp add: ing_ok_def latest_inv_def)
qed


lemma update_evolves:
  "receipt_extends (ing_receipts st ! n) r \<Longrightarrow>
   ing_evolves st (st\<lparr>ing_slots := slots, ing_receipts := (ing_receipts st)[n := r], ing_queue := q\<rparr>)"
  by (simp add: ing_evolves_def heap_extends_update)

lemma free_evolves:
  "receipt_extends (ing_receipts st ! n) r \<Longrightarrow>
   ing_evolves st (st\<lparr>ing_slots := slots, ing_reserved_bytes := b, ing_receipts := (ing_receipts st)[n := r]\<rparr>)"
  by (simp add: ing_evolves_def heap_extends_update)

lemma slot_receipt:
  assumes "ing_ok st" "slot_at st i = Some s"
  shows "slot_inv (ing_receipts st) (taken_scopes st) s" "slot_terminal s < length (ing_receipts st)"
  using slots_invD(1) [OF ing_okD(2) [OF assms(1)] assms(2)] by (simp_all add: slot_inv_def)

lemma same_receipt: "(st::Ingress)\<lparr>ing_slots := slots, ing_queue := q\<rparr> =
    st\<lparr>ing_slots := slots, ing_receipts := (ing_receipts st)[n := ing_receipts st ! n], ing_queue := q\<rparr>"
  by simp

lemma enqueue_ok:
  assumes ok: "ing_ok st" and i: "slot_at st i = Some s" and p: "slot_phase s = Preparing"
  shows "ing_ok (st\<lparr>ing_slots := (ing_slots st)[i := Some (s\<lparr>slot_prepared := Some prepared, slot_phase := SlotQueued\<rparr>)],
      ing_queue := fixed_queue_push i (ing_queue st)\<rparr>)"
proof -
  let ?s = "s\<lparr>slot_prepared := Some prepared, slot_phase := SlotQueued\<rparr>"
  have push: "fixed_queue_can_push (ing_queue st)" using can_push_preparing [OF ok i] p by simp
  note q = ing_okD(3) [OF ok]
  have r: "ring_ok (ing_queue st)" using q by (simp add: queue_inv_def)
  have "i \<notin> set (ring_contents (ing_queue st))" using q i p by (auto simp: queue_inv_def)
  then have "queue_inv ((slot_at st)(i := Some ?s)) (fixed_queue_push i (ing_queue st))"
    using q ring.push_ok [OF r push] ring.push_contents [OF r push] by (auto simp: queue_inv_def)
  moreover have "slot_inv ((ing_receipts st)[slot_terminal s := ing_receipts st ! slot_terminal s]) (taken_scopes st) ?s"
    using slot_receipt(1) [OF ok i] p by (simp add: slot_inv_def)
  ultimately show ?thesis
    unfolding same_receipt [where st = st and n = "slot_terminal s"] by (intro update_slot_ok [OF ok i]) simp_all
qed

lemma submit_enqueue_ok:
  assumes "ing_ok st"
  shows "ing_ok (snd (submit_enqueue i n prepared priority barrier st))"
    "ing_evolves st (snd (submit_enqueue i n prepared priority barrier st))"
  using assms enqueue_ok [OF assms, of i]
  by (auto simp: submit_enqueue_def Let_def stop_all_ok stop_all_evolves in_phase_iff ing_evolves_def [of st "ing_slots_update _ _"])
     (auto simp: ing_evolves_def)

lemma rollback_ok:
  assumes "ing_ok st" "\<And>s. slot_at st i = Some s \<Longrightarrow> slot_phase s = Preparing"
  shows "ing_ok (rollback_preparation i st)" "ing_evolves st (rollback_preparation i st)"
  using assms free_slot_ok [OF assms(1), of i]
  by (auto simp: rollback_preparation_def stop_all_ok stop_all_evolves free_evolves split: option.split)

text \<open>A submission finishes on a slot it reserved itself, or on one that a stop has freed.\<close>

interpretation finish: ingress_op "submit_finish i frame_len n command" "\<lambda>st. slot_at st i = None \<or> in_phase st i Preparing"
proof unfold_locales
  fix st
  assume ok: "ing_ok st" and pre: "slot_at st i = None \<or> in_phase st i Preparing"
  have p: "slot_phase s = Preparing" if "slot_at st i = Some s" for s using pre that by (auto simp: in_phase_iff)
  show "ing_ok (snd (submit_finish i frame_len n command st))"
    using submit_enqueue_ok(1) [OF ok] rollback_ok(1) [OF ok p] by (simp add: submit_finish_def Let_def split: sum.split)
  show "ing_evolves st (snd (submit_finish i frame_len n command st))"
    using submit_enqueue_ok(2) [OF ok] rollback_ok(2) [OF ok p] by (simp add: submit_finish_def Let_def split: sum.split)
qed

section \<open>The writer\<close>

lemma take_next_pop:
  assumes ok: "ing_ok st" and q: "ring_contents (ing_queue st) = i # rest" and np: "\<not> ing_poisoned st"
  shows "\<exists>s prepared. slot_at st i = Some s \<and> slot_phase s = SlotQueued \<and> slot_prepared s = Some prepared \<and>
    take_next st = (NextTaken prepared i (slot_priority s) (slot_barrier s),
      st\<lparr>ing_slots := (ing_slots st)[i := Some (s\<lparr>slot_prepared := None, slot_phase := InFlight\<rparr>)],
         ing_queue := snd (fixed_queue_pop (ing_queue st))\<rparr>)"
proof -
  note inv = ing_okD(3) [OF ok]
  have r: "ring_ok (ing_queue st)" using inv by (simp add: queue_inv_def)
  have pop: "fixed_queue_pop (ing_queue st) = (Some i, snd (fixed_queue_pop (ing_queue st)))"
    using ring.pop_contents [OF r] q by simp
  obtain s where s: "slot_at st i = Some s" "slot_phase s = SlotQueued"
    using inv q unfolding queue_inv_def by (metis list.set_intros(1))
  then obtain prepared where pr: "slot_prepared s = Some prepared"
    using slot_receipt(1) [OF ok s(1)] by (auto simp: slot_inv_def)
  have at: "slot_at (st\<lparr>ing_queue := x\<rparr>) = slot_at st" for x by (simp add: slot_at_table)
  have "take_next st = (NextTaken prepared i (slot_priority s) (slot_barrier s),
      st\<lparr>ing_slots := (ing_slots st)[i := Some (s\<lparr>slot_prepared := None, slot_phase := InFlight\<rparr>)],
         ing_queue := snd (fixed_queue_pop (ing_queue st))\<rparr>)"
    unfolding take_next_def by (subst pop) (simp add: np at s pr Let_def)
  then show ?thesis using s pr by blast
qed

lemma take_next_empty:
  assumes ok: "ing_ok st" and q: "ring_contents (ing_queue st) = []" and np: "\<not> ing_poisoned st"
  shows "snd (take_next st) \<in> {st, st\<lparr>ing_barrier_requested := True\<rparr>, st\<lparr>ing_latest := snd (latest_seal (ing_latest st))\<rparr>}"
proof -
  have "ring_ok (ing_queue st)" using ing_okD(3) [OF ok] by (simp add: queue_inv_def)
  then have "fixed_queue_pop (ing_queue st) = (None, ing_queue st)" using ring.pop_contents [of "ing_queue st"] q by simp
  then show ?thesis using np by (auto simp: take_next_def Let_def split: prod.split)
qed

lemma latest_seal_inv:
  "latest_inv st \<Longrightarrow> latest_inv (st\<lparr>ing_latest := snd (latest_seal (ing_latest st))\<rparr>)"
  "latest_evolves l (snd (latest_seal l))"
  by (auto simp: latest_inv_def latest_seal_def latest_evolves_def snapshot_grows_refl)


lemma take_slot_ok:
  assumes ok: "ing_ok st" and q: "ring_contents (ing_queue st) = i # rest"
    and s: "slot_at st i = Some s" "slot_phase s = SlotQueued"
  shows "ing_ok (st\<lparr>ing_slots := (ing_slots st)[i := Some (s\<lparr>slot_prepared := None, slot_phase := InFlight\<rparr>)],
     ing_queue := snd (fixed_queue_pop (ing_queue st))\<rparr>)"
proof -
  let ?s = "s\<lparr>slot_prepared := None, slot_phase := InFlight\<rparr>"
  note inv = ing_okD(3) [OF ok]
  have r: "ring_ok (ing_queue st)" using inv by (simp add: queue_inv_def)
  have rest: "ring_contents (snd (fixed_queue_pop (ing_queue st))) = rest" using ring.pop_rest [OF r] q by simp
  have "i \<notin> set rest" using inv q by (auto simp: queue_inv_def)
  then have "queue_inv ((slot_at st)(i := Some ?s)) (snd (fixed_queue_pop (ing_queue st)))"
    using inv q ring.pop_ok [OF r] unfolding queue_inv_def rest by (auto simp: distinct_tl)
  moreover have "slot_inv ((ing_receipts st)[slot_terminal s := ing_receipts st ! slot_terminal s]) (taken_scopes st) ?s"
    using slot_receipt(1) [OF ok s(1)] s(2) by (simp add: slot_inv_def)
  ultimately show ?thesis
    unfolding same_receipt [where st = st and n = "slot_terminal s"] by (intro update_slot_ok [OF ok s(1)]) simp_all
qed

interpretation take: ingress_op take_next "\<lambda>_. True"
proof unfold_locales
  fix st
  assume ok: "ing_ok st"
  have "ing_ok (snd (take_next st)) \<and> ing_evolves st (snd (take_next st))"
  proof (cases "ing_poisoned st")
    case True
    then show ?thesis using ok by (simp add: take_next_def stop_all_ok stop_all_evolves)
  next
    case np: False
    show ?thesis
    proof (cases "ring_contents (ing_queue st)")
      case Nil
      have "ing_ok (st\<lparr>ing_latest := snd (latest_seal (ing_latest st))\<rparr>)"
        by (rule ing_ok_frame [OF ok]) (simp_all add: latest_seal_inv ing_okD(6) [OF ok])
      moreover have "ing_ok (st\<lparr>ing_barrier_requested := True\<rparr>)"
        by (rule ing_ok_frame [OF ok]) (use ing_okD(6) [OF ok] in \<open>simp_all add: latest_inv_def\<close>)
      ultimately show ?thesis
        using take_next_empty [OF ok Nil np] ok latest_seal_inv(2) by (auto simp: ing_evolves_def)
    next
      case (Cons i rest)
      then obtain s prepared where s: "slot_at st i = Some s" "slot_phase s = SlotQueued"
        and t: "take_next st = (NextTaken prepared i (slot_priority s) (slot_barrier s),
          st\<lparr>ing_slots := (ing_slots st)[i := Some (s\<lparr>slot_prepared := None, slot_phase := InFlight\<rparr>)],
             ing_queue := snd (fixed_queue_pop (ing_queue st))\<rparr>)"
        using take_next_pop [OF ok Cons np] by blast
      then show ?thesis using take_slot_ok [OF ok Cons s] by (simp add: ing_evolves_def)
    qed
  qed
  then show "ing_ok (snd (take_next st))" "ing_evolves st (snd (take_next st))" by simp_all
qed

lemma no_slots:
  assumes "active_count st = 0"
  shows "slot_at st i = None"
  using assms nth_mem [of i "ing_slots st"] by (auto simp: active_count_def slot_at_def filter_empty_conv simp del: nth_mem)

interpretation install: ingress_op "install_opened_retry retry" "\<lambda>_. validate_state retry = Inr ()"
proof unfold_locales
  fix st
  assume ok: "ing_ok st" and v: "validate_state retry = Inr ()"
  show "ing_ok (snd (install_opened_retry retry st))"
  proof (cases "snd (install_opened_retry retry st) = st")
    case False
    then have st': "snd (install_opened_retry retry st) = st\<lparr>ing_retry := retry\<rparr>" and a: "active_count st = 0"
      by (auto simp: install_opened_retry_def split: if_splits)
    have at: "slot_at (st\<lparr>ing_retry := retry\<rparr>) = slot_at st" by (simp add: slot_at_table)
    have "slots_inv (slot_at st) (ing_receipts st) (taken_scopes (st\<lparr>ing_retry := retry\<rparr>))"
      using slots_inv_taken [OF ing_okD(2) [OF ok]] no_slots [OF a] by simp
    then show ?thesis unfolding st' using ok v by (simp add: ing_ok_def at latest_inv_def)
  qed (simp add: ok)
  show "ing_evolves st (snd (install_opened_retry retry st))"
    by (simp add: install_opened_retry_def ing_evolves_def)
qed

interpretation prepare: ingress_op "prepare_publication i candidate" "\<lambda>_. True"
proof unfold_locales
  fix st
  assume ok: "ing_ok st"
  have "ing_ok (st\<lparr>ing_next_arc := ing_next_arc st + 1\<rparr>)"
    by (rule ing_ok_frame [OF ok]) (use ing_okD(6) [OF ok] in \<open>auto simp: latest_inv_def option.pred_set\<close>)
  then show "ing_ok (snd (prepare_publication i candidate st))"
    using ok by (simp add: prepare_publication_def stop_all_ok)
  show "ing_evolves st (snd (prepare_publication i candidate st))"
    by (simp add: prepare_publication_def stop_all_evolves) (simp add: ing_evolves_def)
qed

text \<open>What is known of a staged publication when it is completed: it extends its base, and if its base is
  still current by reference it is the current snapshot.\<close>

definition publication_fits :: "PreparedPublication \<Rightarrow> Ingress \<Rightarrow> bool" where
  "publication_fits p st \<longleftrightarrow> (case p of PreparedNoChange \<Rightarrow> True
   | PreparedAdvance base next' \<Rightarrow> latest_snapshot_ok next' \<and> snapshot_grows base next' \<and>
       ls_store_id next' = ing_store_id st \<and> ls_arc next' < ing_next_arc st \<and>
       (\<forall>current. lat_current (ing_latest st) = Some current \<longrightarrow> shares_entries_with current base \<longrightarrow> current = base))"

lemma commit_latest_ok:
  assumes ok: "ing_ok st" and fits: "publication_fits p st" and can: "latest_can_complete (ing_latest st) p"
  shows "ing_ok (st\<lparr>ing_latest := latest_commit p (ing_latest st)\<rparr>)"
    and "latest_evolves (ing_latest st) (latest_commit p (ing_latest st))"
proof -
  have "latest_inv (st\<lparr>ing_latest := latest_commit p (ing_latest st)\<rparr>)"
    using ing_okD(6) [OF ok] fits by (cases p) (auto simp: latest_inv_def latest_commit_def publication_fits_def)
  then show "ing_ok (st\<lparr>ing_latest := latest_commit p (ing_latest st)\<rparr>)" by (intro ing_ok_frame [OF ok]) simp_all
  show "latest_evolves (ing_latest st) (latest_commit p (ing_latest st))"
  proof (cases p)
    case (PreparedAdvance base next')
    then obtain current where c: "lat_current (ing_latest st) = Some current" "shares_entries_with current base"
      using can by (auto simp: latest_can_complete_def split: if_splits)
    then have "snapshot_grows current next'" using fits PreparedAdvance by (auto simp: publication_fits_def)
    then show ?thesis using c PreparedAdvance by (simp add: latest_evolves_def latest_commit_def)
  qed (simp add: latest_commit_def)
qed

end
