(* ===== verification/Och_Ingress_Commit.thy ===== *)
theory Och_Ingress_Commit
  imports Och_Ingress_Inv
begin

text \<open>
  Completion of handled work and of durable batches: both keep the invariant of the ingress, and a
  verified batch never fails half way.
\<close>

section \<open>Handled work\<close>

definition handled_slot :: "CanonicalAdmission \<Rightarrow> AppendIdentity \<Rightarrow> Slot \<Rightarrow> Slot" where
  "handled_slot admission a s =
     s\<lparr>slot_retained_admission := Some admission, slot_append := Some a, slot_phase := AwaitingDurability\<rparr>"

definition handled_receipt :: "AppendIdentity \<Rightarrow> ReceiptState \<Rightarrow> ReceiptState" where
  "handled_receipt a r = r\<lparr>rcp_handled := Some (WriterHandled a)\<rparr>"

lemma handled_slot_ok:
  assumes ok: "ing_ok st" and s: "slot_at st i = Some s" "slot_phase s = InFlight"
  shows "ing_ok (st\<lparr>ing_slots := (ing_slots st)[i := Some (handled_slot admission a s)], ing_receipts := (ing_receipts st)[slot_terminal s := handled_receipt a (ing_receipts st ! slot_terminal s)]\<rparr>)"
    and "rcp_handled (ing_receipts st ! slot_terminal s) = None"
proof -
  have new: "ing_receipts st ! slot_terminal s = receipt_new" using slot_receipt(1) [OF ok s(1)] s(2) by (simp add: slot_inv_def)
  then show "rcp_handled (ing_receipts st ! slot_terminal s) = None" by (simp add: receipt_new_def)
  have "slot_inv ((ing_receipts st)[slot_terminal s := handled_receipt a (ing_receipts st ! slot_terminal s)]) (taken_scopes st) (handled_slot admission a s)"
    using slot_receipt [OF ok s(1)] new by (simp add: slot_inv_def handled_slot_def handled_receipt_def receipt_new_def)
  moreover have "queue_inv ((slot_at st)(i := Some (handled_slot admission a s))) (ing_queue st)"
    using ing_okD(3) [OF ok] s by (intro queue_inv_phase) (simp_all add: handled_slot_def)
  ultimately have "ing_ok (st\<lparr>ing_slots := (ing_slots st)[i := Some (handled_slot admission a s)],
      ing_receipts := (ing_receipts st)[slot_terminal s := handled_receipt a (ing_receipts st ! slot_terminal s)], ing_queue := ing_queue st\<rparr>)"
    by (intro update_slot_ok [OF ok s(1)]) (simp_all add: handled_slot_def)
  then show "ing_ok (st\<lparr>ing_slots := (ing_slots st)[i := Some (handled_slot admission a s)], ing_receipts := (ing_receipts st)[slot_terminal s := handled_receipt a (ing_receipts st ! slot_terminal s)]\<rparr>)"
    by simp
qed

lemma complete_handled_success:
  assumes ok: "ing_ok st" and np: "\<not> ing_poisoned st" and s: "slot_at st i = Some s" "slot_phase s = InFlight"
    and can: "latest_can_complete (ing_latest st) p" and fits: "publication_fits p st"
  shows "complete_handled i admission a p FaultNone st =
     (True, st\<lparr>ing_latest := latest_commit p (ing_latest st), ing_slots := (ing_slots st)[i := Some (handled_slot admission a s)],
        ing_receipts := (ing_receipts st)[slot_terminal s := handled_receipt a (ing_receipts st ! slot_terminal s)]\<rparr>)"
proof -
  let ?st = "st\<lparr>ing_latest := latest_commit p (ing_latest st)\<rparr>"
  have at: "slot_at ?st = slot_at st" by (simp add: slot_at_table)
  have "rcp_handled (ing_receipts st ! slot_terminal s) = None" by (rule handled_slot_ok(2) [OF ok s])
  then show ?thesis
    using np s can by (simp add: complete_handled_def in_phase_iff at Let_def resolve_handled_def handled_slot_def handled_receipt_def)
qed

lemma complete_handled_result:
  assumes ok: "ing_ok st" and fits: "publication_fits p st"
  shows "ing_ok (snd (complete_handled i admission a p fault st)) \<and> ing_evolves st (snd (complete_handled i admission a p fault st))"
proof (cases "ing_poisoned st \<or> \<not> in_phase st i InFlight \<or> \<not> latest_can_complete (ing_latest st) p \<or> fault = FaultBeforeSwap")
  case True
  then have "snd (complete_handled i admission a p fault st) = stop_all st" by (auto simp: complete_handled_def)
  then show ?thesis using ok by (simp add: stop_all_ok stop_all_evolves)
next
  case False
  then obtain s where s: "slot_at st i = Some s" "slot_phase s = InFlight" by (auto simp: in_phase_iff)
  let ?st = "st\<lparr>ing_latest := latest_commit p (ing_latest st)\<rparr>"
  have ok1: "ing_ok ?st" and ev1: "ing_evolves st ?st"
    using commit_latest_ok [OF ok fits] False by (auto simp: ing_evolves_def)
  show ?thesis
  proof (cases "fault = FaultAfterSwap")
    case True
    then have "snd (complete_handled i admission a p fault st) = stop_all ?st" using False by (simp add: complete_handled_def)
    then show ?thesis using stop_all_ok [OF ok1] stop_all_evolves [of ?st] ing_evolves_trans [OF ev1] by simp
  next
    case no_fault: False
    then have none: "fault = FaultNone" using False by (cases fault) auto
    have at: "slot_at ?st = slot_at st" by (simp add: slot_at_table)
    have s1: "slot_at ?st i = Some s" using s(1) at by simp
    let ?r = "handled_receipt a (ing_receipts ?st ! slot_terminal s)"
    have eq: "complete_handled i admission a p fault st = (True, ?st\<lparr>ing_slots := (ing_slots ?st)[i :=
        Some (handled_slot admission a s)],
        ing_receipts := (ing_receipts ?st)[slot_terminal s := ?r]\<rparr>)"
      unfolding none using complete_handled_success [OF ok _ s, of p admission a] False fits by simp
    have "receipt_extends (ing_receipts ?st ! slot_terminal s) ?r"
      using handled_slot_ok(2) [OF ok1 s1 s(2)] by (simp add: receipt_extends_def handled_receipt_def)
    then have "ing_evolves ?st (snd (complete_handled i admission a p fault st))"
      unfolding eq by (simp add: ing_evolves_def heap_extends_update)
    then show ?thesis using handled_slot_ok(1) [OF ok1 s1 s(2)] ing_evolves_trans [OF ev1] unfolding eq by simp
  qed
qed

interpretation handled: ingress_op "complete_handled i admission a p fault" "publication_fits p"
  by unfold_locales (use complete_handled_result in blast)+

section \<open>Durable batches\<close>

lemma batch_entry_slot:
  assumes "batch_entry_ok st c e"
  obtains s where "slot_at st (dbe_slot e) = Some s" "slot_phase s = AwaitingDurability" "slot_append s = Some (dbe_append e)"
    "slot_qualification s = dbe_qualification e" "ai_journal (dbe_append e) = cut_journal (mc_durable_cutoff c)"
    "ai_append_sequence (dbe_append e) \<le> cut_append_sequence (mc_durable_cutoff c)"
    "rcp_durable (ing_receipts st ! slot_terminal s) = None"
  using assms by (auto simp: batch_entry_ok_def Let_def not_less split: option.splits)

definition committed_slot :: "ManifestCommit \<Rightarrow> DurableBatchEntry \<Rightarrow> Slot \<Rightarrow> Ingress \<Rightarrow> Ingress" where
  "committed_slot c e s st = st\<lparr>ing_slots := (ing_slots st)[dbe_slot e := None],
     ing_reserved_bytes := ing_reserved_bytes st - slot_reservation s,
     ing_receipts := (ing_receipts st)[slot_terminal s := (ing_receipts st ! slot_terminal s)\<lparr>rcp_durable :=
       Some (Durable \<lparr>dc_append = dbe_append e, dc_committed = c\<rparr>)\<rparr>]\<rparr>"

lemma commit_batch_step:
  assumes ok: "ing_ok st" and e: "batch_entry_ok st c e"
  obtains s where "slot_at st (dbe_slot e) = Some s" "slot_qualification s = dbe_qualification e"
    "commit_batch c (e # es) st = commit_batch c es (committed_slot c e s st)"
    "ing_ok (committed_slot c e s st)" "ing_evolves st (committed_slot c e s st)"
    "slot_at (committed_slot c e s st) = (slot_at st)(dbe_slot e := None)"
    "slot_terminal s < length (ing_receipts st)"
proof -
  obtain s where s: "slot_at st (dbe_slot e) = Some s" "slot_phase s = AwaitingDurability" "slot_append s = Some (dbe_append e)"
    "slot_qualification s = dbe_qualification e" "rcp_durable (ing_receipts st ! slot_terminal s) = None"
    using batch_entry_slot [OF e] by metis
  let ?r = "(ing_receipts st ! slot_terminal s)\<lparr>rcp_durable := Some (Durable \<lparr>dc_append = dbe_append e, dc_committed = c\<rparr>)\<rparr>"
  have h: "rcp_handled (ing_receipts st ! slot_terminal s) \<noteq> None"
    using slot_receipt(1) [OF ok s(1)] s(2) by (auto simp: slot_inv_def)
  then have r: "resolved ?r" "receipt_extends (ing_receipts st ! slot_terminal s) ?r"
    using s(5) by (simp_all add: resolved_def receipt_extends_def)
  have "ing_ok (committed_slot c e s st)"
    unfolding committed_slot_def using free_slot_ok [OF ok s(1) r(1)] s(2) by simp
  moreover have "ing_evolves st (committed_slot c e s st)"
    unfolding committed_slot_def by (rule free_evolves [OF r(2)])
  moreover have "commit_batch c (e # es) st = commit_batch c es (committed_slot c e s st)"
    using s by (simp add: resolve_durable_def committed_slot_def Let_def)
  moreover have "slot_at (committed_slot c e s st) = (slot_at st)(dbe_slot e := None)"
    using slot_at_lt [OF s(1)] by (simp add: committed_slot_def slot_at_table slot_table_update)
  ultimately show ?thesis using that s(1,4) slot_receipt(2) [OF ok s(1)] by blast
qed

lemma batch_entry_kept:
  assumes ok: "ing_ok st" and e: "batch_entry_ok st c e" and s: "slot_at st i = Some s" and ne: "dbe_slot e \<noteq> i"
    and st': "slot_at st' (dbe_slot e) = slot_at st (dbe_slot e)"
    and r: "\<And>n. n \<noteq> slot_terminal s \<Longrightarrow> ing_receipts st' ! n = ing_receipts st ! n"
  shows "batch_entry_ok st' c e"
proof -
  obtain t where t: "slot_at st (dbe_slot e) = Some t" using batch_entry_slot [OF e] by metis
  have "slots_apart t s" by (rule slots_invD(2) [OF ing_okD(2) [OF ok] t s ne])
  then have "ing_receipts st' ! slot_terminal t = ing_receipts st ! slot_terminal t" using r by (simp add: slots_apart_def)
  then show ?thesis using e t st' by (simp add: batch_entry_ok_def Let_def split: option.splits)
qed

lemma commit_batch_all:
  assumes "ing_ok st" "list_all (batch_entry_ok st c) es" "distinct (map dbe_slot es)"
  shows "\<exists>st'. commit_batch c es st = (True, st') \<and> ing_ok st' \<and> ing_evolves st st' \<and> ing_retry st' = ing_retry st \<and>
    slot_at st' = (\<lambda>i. if i \<in> dbe_slot ` set es then None else slot_at st i) \<and>
    (\<forall>e \<in> set es. \<exists>s. slot_at st (dbe_slot e) = Some s \<and>
       rcp_durable (ing_receipts st' ! slot_terminal s) = Some (Durable \<lparr>dc_append = dbe_append e, dc_committed = c\<rparr>))"
  using assms
proof (induction es arbitrary: st)
  case Nil
  then show ?case by simp
next
  case (Cons e es)
  have e: "batch_entry_ok st c e" using Cons.prems(2) by simp
  obtain s where s: "slot_at st (dbe_slot e) = Some s" and step: "commit_batch c (e # es) st = commit_batch c es (committed_slot c e s st)"
    and ok1: "ing_ok (committed_slot c e s st)" and ev1: "ing_evolves st (committed_slot c e s st)"
    and at1: "slot_at (committed_slot c e s st) = (slot_at st)(dbe_slot e := None)"
    and t: "slot_terminal s < length (ing_receipts st)"
    using commit_batch_step [OF Cons.prems(1) e] by metis
  let ?st = "committed_slot c e s st"
  have other: "dbe_slot f \<noteq> dbe_slot e" if "f \<in> set es" for f
    using Cons.prems(3) that by (metis distinct.simps(2) image_eqI list.set_map list.simps(9))
  have kept: "batch_entry_ok ?st c f" if f: "f \<in> set es" for f
  proof (rule batch_entry_kept [OF Cons.prems(1) _ s])
    show "batch_entry_ok st c f" using Cons.prems(2) f by (simp add: list_all_iff)
    show "dbe_slot f \<noteq> dbe_slot e" by (rule other [OF f])
    then show "slot_at ?st (dbe_slot f) = slot_at st (dbe_slot f)" unfolding at1 by simp
    show "ing_receipts ?st ! n = ing_receipts st ! n" if "n \<noteq> slot_terminal s" for n using that by (simp add: committed_slot_def)
  qed
  obtain st' where IH: "commit_batch c es ?st = (True, st')" "ing_ok st'" "ing_evolves ?st st'" "ing_retry st' = ing_retry ?st"
    "slot_at st' = (\<lambda>i. if i \<in> dbe_slot ` set es then None else slot_at ?st i)"
    "\<forall>f \<in> set es. \<exists>u. slot_at ?st (dbe_slot f) = Some u \<and>
       rcp_durable (ing_receipts st' ! slot_terminal u) = Some (Durable \<lparr>dc_append = dbe_append f, dc_committed = c\<rparr>)"
    using Cons.IH [OF ok1] kept Cons.prems(3) by (auto simp: list_all_iff)
  have "rcp_durable (ing_receipts ?st ! slot_terminal s) = Some (Durable \<lparr>dc_append = dbe_append e, dc_committed = c\<rparr>)"
    using t by (simp add: committed_slot_def)
  then have own: "rcp_durable (ing_receipts st' ! slot_terminal s) = Some (Durable \<lparr>dc_append = dbe_append e, dc_committed = c\<rparr>)"
    using IH(3) t by (auto simp: ing_evolves_def heap_extends_def receipt_extends_def committed_slot_def)
  have others: "\<exists>u. slot_at st (dbe_slot f) = Some u \<and>
       rcp_durable (ing_receipts st' ! slot_terminal u) = Some (Durable \<lparr>dc_append = dbe_append f, dc_committed = c\<rparr>)"
    if "f \<in> set es" for f
    using IH(6) that unfolding at1 by (metis fun_upd_apply option.distinct(1))
  have "slot_at st' = (\<lambda>i. if i \<in> dbe_slot ` set (e # es) then None else slot_at st i)"
    unfolding IH(5) at1 by (auto simp: fun_eq_iff)
  moreover have "ing_retry st' = ing_retry st" using IH(4) by (simp add: committed_slot_def)
  ultimately show ?case
    unfolding step using IH(1,2) ing_evolves_trans [OF ev1 IH(3)] own others s by auto
qed


text \<open>The retry projection is installed before the loop, which does not read it.\<close>

lemma slot_at_retry [simp]: "slot_at (st\<lparr>ing_retry := r\<rparr>) = slot_at st"
  by (simp add: slot_at_table)

lemma stop_all_retry: "stop_all (st\<lparr>ing_retry := r\<rparr>) = (stop_all st)\<lparr>ing_retry := r\<rparr>"
  by (simp add: stop_all_def)

lemma commit_batch_retry:
  "commit_batch c es (st\<lparr>ing_retry := r\<rparr>) = map_prod id (\<lambda>st'. st'\<lparr>ing_retry := r\<rparr>) (commit_batch c es st)"
proof (induction es arbitrary: st)
  case (Cons e es)
  have swap: "(st\<lparr>ing_retry := r\<rparr>)\<lparr>ing_slots := x, ing_reserved_bytes := b, ing_receipts := h\<rparr> =
      (st\<lparr>ing_slots := x, ing_reserved_bytes := b, ing_receipts := h\<rparr>)\<lparr>ing_retry := r\<rparr>" for x b h
    by simp
  show ?case
  proof (cases "slot_at st (dbe_slot e)")
    case None
    then show ?thesis by (simp add: stop_all_retry)
  next
    case (Some s)
    then show ?thesis
      by (simp add: Let_def swap Cons.IH stop_all_retry split: prod.split del: Ingress.update_convs)
  qed
qed simp

lemma advance_loop_sequences:
  "advance_loop self c previous replay guard pending = Inr x \<Longrightarrow>
   sorted_wrt (<) (previous # map pro_append_sequence pending)"
proof (induction pending arbitrary: previous replay guard)
  case (Cons p pending)
  have lt: "previous < pro_append_sequence p"
    using Cons.prems by (auto simp: entry_conflicts_def not_le split: if_splits)
  have "sorted_wrt (<) (pro_append_sequence p # map pro_append_sequence pending)"
    using Cons.prems Cons.IH by (auto simp: Let_def split: if_splits)
  then show ?case using lt by (auto intro: less_trans)
qed simp

lemma transition_sequences:
  assumes "state_advance s r pending c = Inr s'"
  shows "distinct (map pro_append_sequence pending)"
proof -
  obtain previous where "advance_loop s c previous (rss_replay s) (rss_guard s) pending = Inr (rss_replay s', rss_guard s')"
    using state_advance_parts(7) [OF assms] by blast
  then have "sorted_wrt (<) (map pro_append_sequence pending)" using advance_loop_sequences by fastforce
  then show ?thesis by (simp add: strict_sorted_iff)
qed

lemma transition_retained:
  assumes "state_advance s r pending c = Inr s'" "validate_state s = Inr ()"
  shows "set (retained s') \<subseteq> set (retained s) \<union> pro_qualification ` set pending"
proof -
  let ?all = "rss_replay s @ map (replay_of c) pending"
  have rep: "set (rss_replay s') \<subseteq> set ?all"
    using state_advance_queue(1) [OF assms] set_keep [of _ ?all] by (simp add: replay_after_def)
  have grd: "set (rss_guard s') \<subseteq> set (rss_guard s) \<union> guard_of ` set ?all"
    using state_advance_queue(2) [OF assms] set_keep set_take_subset
    by (fastforce simp: guard_after_def dest: in_set_takeD)
  have all: "rro_qualification ` set ?all = rro_qualification ` set (rss_replay s) \<union> pro_qualification ` set pending"
    by (simp add: image_Un image_image replay_of_def)
  have "rge_qualification ` guard_of ` set ?all = rro_qualification ` set ?all"
    unfolding image_image guard_of_def by simp
  then have "rge_qualification ` set (rss_guard s') \<subseteq> rge_qualification ` set (rss_guard s) \<union> rro_qualification ` set ?all"
    using image_mono [OF grd, of rge_qualification] unfolding image_Un by simp
  moreover have "rro_qualification ` set (rss_replay s') \<subseteq> rro_qualification ` set ?all" by (rule image_mono [OF rep])
  ultimately show ?thesis unfolding all by (auto simp: retained_def)
qed

lemma batch_slots_distinct:
  assumes "list_all (batch_entry_ok st c) es" "distinct (map pro_append_sequence (batch_transition es))"
  shows "distinct (map dbe_slot es)"
proof -
  have "inj_on dbe_slot (set es)"
  proof (rule inj_onI)
    fix e f
    assume e: "e \<in> set es" and f: "f \<in> set es" and same: "dbe_slot e = dbe_slot f"
    have "batch_entry_ok st c e" "batch_entry_ok st c f" using assms(1) e f by (auto simp: list_all_iff)
    then have "dbe_append e = dbe_append f" using same by (metis batch_entry_slot option.inject)
    then have "ai_append_sequence (dbe_append e) = ai_append_sequence (dbe_append f)" by simp
    moreover have "inj_on (\<lambda>e. ai_append_sequence (dbe_append e)) (set es)"
      using assms(2) by (simp add: batch_transition_def comp_def distinct_map)
    ultimately show "e = f" using e f by (auto dest: inj_onD)
  qed
  moreover have "distinct es" using assms(2) by (auto simp: batch_transition_def distinct_map)
  ultimately show ?thesis by (simp add: distinct_map)
qed

lemma set_batch_transition: "pro_qualification ` set (batch_transition es) = dbe_qualification ` set es"
  by (simp add: batch_transition_def image_image)

lemma verifies_transitionD:
  assumes "verifies_transition s s' pending c"
  obtains r where "state_advance s r pending c = Inr s'"
  using assms by (auto simp: verifies_transition_def split: option.splits sum.splits)

text \<open>The conditions under which a batch is committed.\<close>

definition batch_accepted :: "DurableBatchEntry list \<Rightarrow> ManifestCommit \<Rightarrow> RetryStateSnapshot \<Rightarrow> Ingress \<Rightarrow> bool" where
  "batch_accepted entries c retry st \<longleftrightarrow> \<not> ing_poisoned st \<and> entries \<noteq> [] \<and> rss_store_id retry = ing_store_id st \<and>
     rss_options retry = rss_options (ing_retry st) \<and> rss_reference retry = Some (mc_retry_state c) \<and>
     verifies_transition (ing_retry st) retry (batch_transition entries) c \<and> list_all (batch_entry_ok st c) entries"

lemma batch_refused: "\<not> batch_accepted es c retry st \<Longrightarrow> complete_durable_batch es c retry st = (False, stop_all st)"
  by (auto simp: batch_accepted_def complete_durable_batch_def)

lemma batch_committed:
  assumes ok: "ing_ok st" and acc: "batch_accepted es c retry st"
  shows "\<exists>st'. complete_durable_batch es c retry st = (True, st') \<and> ing_ok st' \<and> ing_evolves st st' \<and> ing_retry st' = retry \<and>
    slot_at st' = (\<lambda>i. if i \<in> dbe_slot ` set es then None else slot_at st i) \<and>
    (\<forall>e \<in> set es. \<exists>s. slot_at st (dbe_slot e) = Some s \<and>
       rcp_durable (ing_receipts st' ! slot_terminal s) = Some (Durable \<lparr>dc_append = dbe_append e, dc_committed = c\<rparr>))"
proof -
  have all: "list_all (batch_entry_ok st c) es" using acc by (simp add: batch_accepted_def)
  obtain r where adv: "state_advance (ing_retry st) r (batch_transition es) c = Inr retry"
    using acc verifies_transitionD unfolding batch_accepted_def by blast
  have "distinct (map dbe_slot es)" by (rule batch_slots_distinct [OF all transition_sequences [OF adv]])
  then obtain st1 where st1: "commit_batch c es st = (True, st1)" "ing_ok st1" "ing_evolves st st1" "ing_retry st1 = ing_retry st"
    "slot_at st1 = (\<lambda>i. if i \<in> dbe_slot ` set es then None else slot_at st i)"
    "\<forall>e \<in> set es. \<exists>s. slot_at st (dbe_slot e) = Some s \<and>
       rcp_durable (ing_receipts st1 ! slot_terminal s) = Some (Durable \<lparr>dc_append = dbe_append e, dc_committed = c\<rparr>)"
    using commit_batch_all [OF ok all] by blast
  let ?st = "st1\<lparr>ing_retry := retry\<rparr>"
  have eq: "complete_durable_batch es c retry st = (True, ?st)"
    using acc st1(1) by (simp add: batch_accepted_def complete_durable_batch_def commit_batch_retry)
  have "retry_scope (slot_qualification s) \<notin> taken_scopes ?st" if i: "slot_at st1 i = Some s" for i s
  proof -
    have s: "slot_at st i = Some s" "i \<notin> dbe_slot ` set es" using i unfolding st1(5) by (simp_all split: if_splits)
    have "retry_scope (slot_qualification s) \<notin> taken_scopes st" using slot_receipt(1) [OF ok s(1)] by (simp add: slot_inv_def)
    moreover have "retry_scope (slot_qualification s) \<noteq> retry_scope (dbe_qualification e)" if e: "e \<in> set es" for e
    proof -
      have "batch_entry_ok st c e" using all e by (simp add: list_all_iff)
      then obtain t where t: "slot_at st (dbe_slot e) = Some t" "slot_qualification t = dbe_qualification e"
        using batch_entry_slot by metis
      have "i \<noteq> dbe_slot e" using s(2) e by blast
      then show ?thesis using slots_invD(2) [OF ing_okD(2) [OF ok] s(1) t(1)] t(2) by (simp add: slots_apart_def)
    qed
    moreover have "taken_scopes ?st \<subseteq> taken_scopes st \<union> retry_scope ` dbe_qualification ` set es"
      using image_mono [OF transition_retained [OF adv ing_okD(5) [OF ok]], of retry_scope]
      unfolding set_batch_transition image_Un by (simp add: taken_scopes_def)
    ultimately show ?thesis by blast
  qed
  then have "slots_inv (slot_at ?st) (ing_receipts ?st) (taken_scopes ?st)"
    using slots_inv_taken [OF ing_okD(2) [OF st1(2)]] by simp
  then have "ing_ok ?st" using st1(2) state_advance_parts(2) [OF adv] by (simp add: ing_ok_def latest_inv_def)
  moreover have "ing_evolves st ?st" using st1(3) acc by (simp add: ing_evolves_def batch_accepted_def)
  ultimately show ?thesis using eq st1(5,6) by auto
qed

interpretation durable: ingress_op "complete_durable_batch es c retry" "\<lambda>_. True"
proof unfold_locales
  fix st
  assume ok: "ing_ok st"
  have "ing_ok (snd (complete_durable_batch es c retry st)) \<and> ing_evolves st (snd (complete_durable_batch es c retry st))"
    using batch_committed [OF ok] batch_refused stop_all_ok [OF ok] stop_all_evolves by (metis snd_conv)
  then show "ing_ok (snd (complete_durable_batch es c retry st))" "ing_evolves st (snd (complete_durable_batch es c retry st))"
    by simp_all
qed

end
