(* ===== verification/Och_Ingress_System.thy ===== *)
theory Och_Ingress_System
  imports Och_Ingress_Commit
begin

text \<open>
  The ingress under concurrent use: any number of submitting threads, the writer, and a holder that may
  panic.  A step is one critical section.  A submitting thread between its second and third critical
  section is a context that remembers what it reserved; a publication between staging and completion
  is remembered too.
\<close>

section \<open>Steps\<close>

record SubmitContext =
  ctx_slot :: nat
  ctx_frame_len :: nat
  ctx_terminal :: nat
  ctx_command :: IngressCommand

record System =
  sys_ing :: Ingress
  sys_submits :: "SubmitContext list"
  sys_staged :: "PreparedPublication list"

definition system_new :: "StoreId \<Rightarrow> ByteReservationLimits \<Rightarrow> RetryPersistenceOptions \<Rightarrow> System" where
  "system_new store limits options = \<lparr>sys_ing = ingress_new store limits options, sys_submits = [], sys_staged = []\<rparr>"

inductive sys_step :: "System \<Rightarrow> System \<Rightarrow> bool" where
  precheck: "sys_step s (s\<lparr>sys_ing := snd (submit_precheck command (sys_ing s))\<rparr>)"
| submit_done: "submit_reserve (admission_frame_len_v1 (cmd_admission command)) command (sys_ing s) = (ReserveDone r, st)
    \<Longrightarrow> sys_step s (s\<lparr>sys_ing := st\<rparr>)"
| submit_reserved: "submit_reserve (admission_frame_len_v1 (cmd_admission command)) command (sys_ing s) = (Reserved i n t, st)
    \<Longrightarrow> sys_step s (s\<lparr>sys_ing := st, sys_submits := \<lparr>ctx_slot = i, ctx_frame_len = n, ctx_terminal = t, ctx_command = command\<rparr>
        # sys_submits s\<rparr>)"
| submit_finished: "ctx \<in> set (sys_submits s)
    \<Longrightarrow> sys_step s (s\<lparr>sys_ing := snd (submit_finish (ctx_slot ctx) (ctx_frame_len ctx) (ctx_terminal ctx) (ctx_command ctx) (sys_ing s)),
        sys_submits := remove1 ctx (sys_submits s)\<rparr>)"
| closed: "sys_step s (s\<lparr>sys_ing := close_admission (sys_ing s)\<rparr>)"
| stopped: "sys_step s (s\<lparr>sys_ing := ingress_stop (sys_ing s)\<rparr>)"
| dropped: "sys_step s (s\<lparr>sys_ing := drop_in_flight (sys_ing s)\<rparr>)"
| poisoned: "sys_step s (s\<lparr>sys_ing := (sys_ing s)\<lparr>ing_poisoned := True\<rparr>\<rparr>)"
| opened: "validate_state retry = Inr () \<Longrightarrow> sys_step s (s\<lparr>sys_ing := snd (install_opened_retry retry (sys_ing s))\<rparr>)"
| taken: "sys_step s (s\<lparr>sys_ing := snd (take_next (sys_ing s))\<rparr>)"
| read: "sys_step s (s\<lparr>sys_ing := snd (ingress_latest_snapshot (sys_ing s))\<rparr>)"
| staged: "prepare_publication i candidate (sys_ing s) = (Inr p, st)
    \<Longrightarrow> sys_step s (s\<lparr>sys_ing := st, sys_staged := p # sys_staged s\<rparr>)"
| not_staged: "prepare_publication i candidate (sys_ing s) = (Inl e, st) \<Longrightarrow> sys_step s (s\<lparr>sys_ing := st\<rparr>)"
| handled: "p \<in> set (sys_staged s)
    \<Longrightarrow> sys_step s (s\<lparr>sys_ing := snd (complete_handled i admission a p fault (sys_ing s))\<rparr>)"
| committed: "sys_step s (s\<lparr>sys_ing := snd (complete_durable_batch es c retry (sys_ing s))\<rparr>)"

abbreviation sys_steps :: "System \<Rightarrow> System \<Rightarrow> bool" where
  "sys_steps \<equiv> sys_step\<^sup>*\<^sup>*"

section \<open>Operations that leave preparing slots alone\<close>

text \<open>A slot that is being prepared belongs to the submitting thread: the other operations keep it, or
  free every slot while closing the ingress for good.  Of the latest registry they may only install a
  snapshot that was offered to them.\<close>

definition leaves_preparing :: "Ingress \<Rightarrow> Ingress \<Rightarrow> bool" where
  "leaves_preparing st st' \<longleftrightarrow>
     (\<forall>i. in_phase st i Preparing \<longrightarrow> slot_at st' i = slot_at st i \<or> slot_at st' i = None \<and> ing_closed st') \<and>
     (\<forall>i. ing_closed st \<longrightarrow> slot_at st i = None \<longrightarrow> slot_at st' i = None)"

definition current_from :: "LatestSnapshot set \<Rightarrow> Ingress \<Rightarrow> Ingress \<Rightarrow> bool" where
  "current_from offered st st' \<longleftrightarrow>
     set_option (lat_current (ing_latest st')) \<subseteq> set_option (lat_current (ing_latest st)) \<union> offered"

locale bystander_op = ingress_op +
  fixes offered :: "LatestSnapshot set"
  assumes preparing: "ing_ok st \<Longrightarrow> pre st \<Longrightarrow> leaves_preparing st (snd (op st))"
    and current: "ing_ok st \<Longrightarrow> pre st \<Longrightarrow> current_from offered st (snd (op st))"
begin

lemma context_kept:
  assumes "ing_ok st" "pre st" "slot_at st i = None \<Longrightarrow> ing_closed st" "\<And>s. slot_at st i = Some s \<Longrightarrow> slot_phase s = Preparing"
  shows "slot_at (snd (op st)) i = slot_at st i \<or> slot_at (snd (op st)) i = None \<and> ing_closed (snd (op st))"
  using preparing [OF assms(1,2)] assms(3,4) not_reopened [OF assms(1,2)]
  by (cases "slot_at st i") (auto simp: leaves_preparing_def in_phase_iff)

end

lemma leaves_same [simp]: "slot_at st' = slot_at st \<Longrightarrow> leaves_preparing st st'"
  by (simp add: leaves_preparing_def)

lemma slot_at_stop_all [simp]: "slot_at (stop_all st) i = None"
  by (simp add: slot_at_table stop_all_def slot_table_none)

lemma stop_all_leaves [simp]: "leaves_preparing st (stop_all st)" "current_from offered st (stop_all st)"
  "leaves_preparing st (stop_all st')" "current_from offered st (stop_all st')"
  by (simp_all add: leaves_preparing_def current_from_def) (simp_all add: stop_all_def latest_make_unavailable_def)

lemma current_same [simp]: "ing_latest st' = ing_latest st \<Longrightarrow> current_from offered st st'"
  by (simp add: current_from_def)

lemma leaves_update:
  assumes "slot_at st i = Some s" "slot_phase s \<noteq> Preparing" "slot_at st' = (slot_at st)(i := x)"
  shows "leaves_preparing st st'"
  using assms by (auto simp: leaves_preparing_def in_phase_iff)

interpretation stop_by: bystander_op "\<lambda>st. ((), ingress_stop st)" "\<lambda>_. True" "{}"
  by unfold_locales (simp_all add: ingress_stop_def)

interpretation drop_by: bystander_op "\<lambda>st. ((), drop_in_flight st)" "\<lambda>_. True" "{}"
  by unfold_locales (simp_all add: drop_in_flight_def ingress_stop_def)

interpretation close_by: bystander_op "\<lambda>st. ((), close_admission st)" "\<lambda>_. True" "{}"
  by unfold_locales (simp_all add: close_admission_def slot_at_table)

interpretation read_by: bystander_op ingress_latest_snapshot "\<lambda>_. True" "{}"
  by unfold_locales (simp_all add: ingress_latest_snapshot_def)

interpretation precheck_by: bystander_op "submit_precheck command" "\<lambda>_. True" "{}"
  by unfold_locales (simp_all add: submit_precheck_def)

interpretation install_by: bystander_op "install_opened_retry retry" "\<lambda>_. validate_state retry = Inr ()" "{}"
  by unfold_locales (simp_all add: install_opened_retry_def slot_at_table)

interpretation prepare_by: bystander_op "prepare_publication i candidate" "\<lambda>_. True" "{}"
  by unfold_locales (simp_all add: prepare_publication_def slot_at_table)

lemma latest_seal_current [simp]: "lat_current (snd (latest_seal l)) = lat_current l"
  by (simp add: latest_seal_def)

interpretation take_by: bystander_op take_next "\<lambda>_. True" "{}"
proof unfold_locales
  fix st
  assume ok: "ing_ok st"
  have "leaves_preparing st (snd (take_next st)) \<and> current_from {} st (snd (take_next st))"
  proof (cases "ing_poisoned st")
    case True
    then show ?thesis by (simp add: take_next_def)
  next
    case np: False
    show ?thesis
    proof (cases "ring_contents (ing_queue st)")
      case Nil
      then show ?thesis
        using take_next_empty [OF ok Nil np] by (auto simp: slot_at_table current_from_def)
    next
      case (Cons i rest)
      then obtain s prepared where s: "slot_at st i = Some s" "slot_phase s = SlotQueued"
        and t: "take_next st = (NextTaken prepared i (slot_priority s) (slot_barrier s),
          st\<lparr>ing_slots := (ing_slots st)[i := Some (s\<lparr>slot_prepared := None, slot_phase := InFlight\<rparr>)],
             ing_queue := snd (fixed_queue_pop (ing_queue st))\<rparr>)"
        using take_next_pop [OF ok Cons np] by blast
      then show ?thesis
        using slot_at_lt [OF s(1)] by (auto intro!: leaves_update [OF s(1)] simp: slot_at_table slot_table_update)
    qed
  qed
  then show "leaves_preparing st (snd (take_next st))" "current_from {} st (snd (take_next st))" by simp_all
qed

definition offered_by :: "PreparedPublication \<Rightarrow> LatestSnapshot set" where
  "offered_by p = (case p of PreparedNoChange \<Rightarrow> {} | PreparedAdvance base next' \<Rightarrow> {next'})"

interpretation handled_by: bystander_op "complete_handled i admission a p fault" "publication_fits p" "offered_by p"
proof unfold_locales
  fix st
  assume ok: "ing_ok st" and fits: "publication_fits p st"
  have "leaves_preparing st (snd (complete_handled i admission a p fault st)) \<and>
    current_from (offered_by p) st (snd (complete_handled i admission a p fault st))"
  proof (cases "ing_poisoned st \<or> \<not> in_phase st i InFlight \<or> \<not> latest_can_complete (ing_latest st) p \<or> fault \<noteq> FaultNone")
    case True
    then have "\<exists>st'. snd (complete_handled i admission a p fault st) = stop_all st'"
      by (cases fault) (auto simp: complete_handled_def Let_def)
    then show ?thesis by fastforce
  next
    case False
    then obtain s where s: "slot_at st i = Some s" "slot_phase s = InFlight" by (auto simp: in_phase_iff)
    have eq: "snd (complete_handled i admission a p fault st) = st\<lparr>ing_latest := latest_commit p (ing_latest st),
        ing_slots := (ing_slots st)[i := Some (handled_slot admission a s)],
        ing_receipts := (ing_receipts st)[slot_terminal s := handled_receipt a (ing_receipts st ! slot_terminal s)]\<rparr>"
      using complete_handled_success [OF ok _ s _ fits, of admission a] False by simp
    have "leaves_preparing st (snd (complete_handled i admission a p fault st))"
      unfolding eq using slot_at_lt [OF s(1)] s(2) by (intro leaves_update [OF s(1)]) (simp_all add: slot_at_table slot_table_update)
    moreover have "current_from (offered_by p) st (snd (complete_handled i admission a p fault st))"
      unfolding eq by (cases p) (simp_all add: current_from_def offered_by_def latest_commit_def)
    ultimately show ?thesis by simp
  qed
  then show "leaves_preparing st (snd (complete_handled i admission a p fault st))"
    "current_from (offered_by p) st (snd (complete_handled i admission a p fault st))" by simp_all
qed

lemma commit_batch_latest:
  "commit_batch c es st = (True, st') \<Longrightarrow> ing_latest st' = ing_latest st"
  by (induction c es st rule: commit_batch.induct) (auto simp: Let_def split: option.splits prod.splits if_splits)

interpretation durable_by: bystander_op "complete_durable_batch es c retry" "\<lambda>_. True" "{}"
proof unfold_locales
  fix st
  assume ok: "ing_ok st"
  have "leaves_preparing st (snd (complete_durable_batch es c retry st)) \<and>
    current_from {} st (snd (complete_durable_batch es c retry st))"
  proof (cases "batch_accepted es c retry st")
    case True
    then obtain st' where st': "complete_durable_batch es c retry st = (True, st')"
      "slot_at st' = (\<lambda>i. if i \<in> dbe_slot ` set es then None else slot_at st i)"
      using batch_committed [OF ok] by blast
    have awaiting: "\<not> in_phase st (dbe_slot e) Preparing" if "e \<in> set es" for e
    proof -
      have "batch_entry_ok st c e" using True that by (simp add: batch_accepted_def list_all_iff)
      then show ?thesis by (elim batch_entry_slot) (simp add: in_phase_iff)
    qed
    have "commit_batch c es (st\<lparr>ing_retry := retry\<rparr>) = (True, st')"
      using st'(1) True by (simp add: complete_durable_batch_def batch_accepted_def)
    from commit_batch_latest [OF this] show ?thesis
      using st' awaiting by (auto simp: leaves_preparing_def)
  qed (simp add: batch_refused)
  then show "leaves_preparing st (snd (complete_durable_batch es c retry st))"
    "current_from {} st (snd (complete_durable_batch es c retry st))" by simp_all
qed

section \<open>The invariant of the system\<close>

definition snapshots_of :: "PreparedPublication \<Rightarrow> LatestSnapshot set" where
  "snapshots_of p = (case p of PreparedNoChange \<Rightarrow> {} | PreparedAdvance base next' \<Rightarrow> {base, next'})"

text \<open>Every snapshot that a later step may still reach.\<close>

definition live :: "System \<Rightarrow> LatestSnapshot set" where
  "live s = set_option (lat_current (ing_latest (sys_ing s))) \<union> (\<Union>p \<in> set (sys_staged s). snapshots_of p)"

definition live_inv :: "LatestSnapshot set \<Rightarrow> Ingress \<Rightarrow> bool" where
  "live_inv ls st \<longleftrightarrow> (\<forall>x \<in> ls. latest_snapshot_ok x \<and> ls_store_id x = ing_store_id st \<and> ls_arc x < ing_next_arc st) \<and> inj_on ls_arc ls"

definition staged_inv :: "PreparedPublication \<Rightarrow> bool" where
  "staged_inv p \<longleftrightarrow> (case p of PreparedNoChange \<Rightarrow> True | PreparedAdvance base next' \<Rightarrow> snapshot_grows base next')"

text \<open>A submitting thread still owns the slot it reserved, or the ingress was stopped meanwhile.\<close>

definition context_inv :: "Ingress \<Rightarrow> SubmitContext \<Rightarrow> bool" where
  "context_inv st ctx \<longleftrightarrow> admission_frame_len_v1 (cmd_admission (ctx_command ctx)) = Inr (ctx_frame_len ctx) \<and>
     (case slot_at st (ctx_slot ctx) of
        None \<Rightarrow> ing_closed st
      | Some slot \<Rightarrow> slot_phase slot = Preparing \<and> slot_terminal slot = ctx_terminal ctx)"

definition sys_ok :: "System \<Rightarrow> bool" where
  "sys_ok s \<longleftrightarrow> ing_ok (sys_ing s) \<and> distinct (map ctx_slot (sys_submits s)) \<and>
     (\<forall>ctx \<in> set (sys_submits s). context_inv (sys_ing s) ctx) \<and>
     live_inv (live s) (sys_ing s) \<and> (\<forall>p \<in> set (sys_staged s). staged_inv p)"

lemma sys_okD:
  assumes "sys_ok s"
  shows "ing_ok (sys_ing s)" "distinct (map ctx_slot (sys_submits s))"
    "ctx \<in> set (sys_submits s) \<Longrightarrow> context_inv (sys_ing s) ctx" "live_inv (live s) (sys_ing s)"
    "p \<in> set (sys_staged s) \<Longrightarrow> staged_inv p"
  using assms by (simp_all add: sys_ok_def)

lemma staged_fits:
  assumes "sys_ok s" "p \<in> set (sys_staged s)"
  shows "publication_fits p (sys_ing s)"
proof (cases p)
  case (PreparedAdvance base next')
  have inv: "live_inv (live s) (sys_ing s)" "staged_inv p" using sys_okD [OF assms(1)] assms(2) by simp_all
  have "snapshots_of p \<subseteq> live s" using assms(2) unfolding live_def by blast
  then have "base \<in> live s" "next' \<in> live s" using PreparedAdvance by (simp_all add: snapshots_of_def)
  moreover have "current \<in> live s" if "lat_current (ing_latest (sys_ing s)) = Some current" for current
    using that by (simp add: live_def)
  ultimately show ?thesis
    using inv PreparedAdvance
    by (auto simp: publication_fits_def live_inv_def staged_inv_def shares_entries_with_def dest: inj_onD)
qed (simp add: publication_fits_def)

section \<open>Every step keeps the invariant\<close>

lemma live_inv_mono:
  assumes "live_inv ls st" "ls' \<subseteq> ls" "ing_store_id st' = ing_store_id st" "ing_next_arc st \<le> ing_next_arc st'"
  shows "live_inv ls' st'"
  using assms inj_on_subset [of ls_arc ls ls'] unfolding live_inv_def by (metis less_le_trans subsetD)

lemma context_inv_step:
  assumes "context_inv st ctx" "ing_closed st \<Longrightarrow> ing_closed st'"
    "slot_at st' (ctx_slot ctx) = slot_at st (ctx_slot ctx) \<or> slot_at st' (ctx_slot ctx) = None \<and> ing_closed st'"
  shows "context_inv st' ctx"
  using assms by (auto simp: context_inv_def split: option.splits)

context bystander_op
begin

lemma system_kept:
  assumes ok: "sys_ok s" and pre: "pre (sys_ing s)" and offered: "offered \<subseteq> live s"
  shows "sys_ok (s\<lparr>sys_ing := snd (op (sys_ing s))\<rparr>)"
proof -
  let ?st = "sys_ing s" and ?st' = "snd (op (sys_ing s))"
  note inv = sys_okD [OF ok]
  have ev: "ing_evolves ?st ?st'" by (rule evolves [OF inv(1) pre])
  have "context_inv ?st' ctx" if "ctx \<in> set (sys_submits s)" for ctx
  proof (rule context_inv_step [OF inv(3) [OF that]])
    show "slot_at ?st' (ctx_slot ctx) = slot_at ?st (ctx_slot ctx) \<or> slot_at ?st' (ctx_slot ctx) = None \<and> ing_closed ?st'"
      using inv(3) [OF that] by (intro context_kept [OF inv(1) pre]) (simp_all add: context_inv_def)
  qed (use ev in \<open>simp add: ing_evolves_def\<close>)
  moreover have "live (s\<lparr>sys_ing := ?st'\<rparr>) \<subseteq> live s"
    using current [OF inv(1) pre] offered by (auto simp: live_def current_from_def)
  then have "live_inv (live (s\<lparr>sys_ing := ?st'\<rparr>)) ?st'"
    using ev by (intro live_inv_mono [OF inv(4)]) (simp_all add: ing_evolves_def)
  ultimately show ?thesis using ok keeps [OF inv(1) pre] by (simp add: sys_ok_def)
qed

end

lemma ing_poisoned_simps [simp]: "slot_at (st\<lparr>ing_poisoned := b\<rparr>) = slot_at st"
  by (simp add: slot_at_table)

interpretation reserve_by: bystander_op "submit_reserve measured command"
  "\<lambda>st. \<exists>r st'. submit_reserve measured command st = (ReserveDone r, st')" "{}"
proof unfold_locales
  fix st
  assume ok: "ing_ok st" and d: "\<exists>r st'. submit_reserve measured command st = (ReserveDone r, st')"
  show "ing_ok (snd (submit_reserve measured command st))" by (rule reserve.keeps [OF ok]) simp
  show "ing_evolves st (snd (submit_reserve measured command st))" by (rule reserve.evolves [OF ok]) simp
  have "slot_at (snd (submit_replay command outcome st)) = slot_at st \<and>
      ing_latest (snd (submit_replay command outcome st)) = ing_latest st" for outcome
    by (simp add: submit_replay_def resolve_handled_def resolve_durable_def receipt_new_def Let_def slot_at_table)
  then show "leaves_preparing st (snd (submit_reserve measured command st))" "current_from {} st (snd (submit_reserve measured command st))"
    using d by (cases rule: submit_reserve_cases [of st measured command]; simp)+
qed

lemma reserved_step:
  assumes ok: "sys_ok s"
    and r: "submit_reserve (admission_frame_len_v1 (cmd_admission command)) command (sys_ing s) = (Reserved i n t, st)"
  shows "sys_ok (s\<lparr>sys_ing := st, sys_submits := \<lparr>ctx_slot = i, ctx_frame_len = n, ctx_terminal = t, ctx_command = command\<rparr>
        # sys_submits s\<rparr>)"
proof -
  let ?new = "new_slot command n t"
  note inv = sys_okD [OF ok]
  have st: "st = (sys_ing s)\<lparr>ing_reserved_bytes := ing_reserved_bytes (sys_ing s) + n,
           ing_slots := (ing_slots (sys_ing s))[i := Some ?new], ing_receipts := ing_receipts (sys_ing s) @ [receipt_new]\<rparr>"
    and f: "first_free 0 (ing_slots (sys_ing s)) = Some i" and open': "\<not> ing_closed (sys_ing s)"
    and len: "admission_frame_len_v1 (cmd_admission command) = Inr n"
    using r by (cases rule: submit_reserve_cases [of "sys_ing s" "admission_frame_len_v1 (cmd_admission command)" command]; simp)+
  have free: "slot_at (sys_ing s) i = None" and at: "slot_at st = (slot_at (sys_ing s))(i := Some ?new)"
    using first_free_some [OF f] by (simp_all add: st slot_at_table slot_table_update) (simp add: slot_table_def)
  have other: "ctx_slot ctx \<noteq> i" if "ctx \<in> set (sys_submits s)" for ctx
    using inv(3) [OF that] free open' by (auto simp: context_inv_def)
  have "context_inv st ctx" if "ctx \<in> set (sys_submits s)" for ctx
    by (rule context_inv_step [OF inv(3) [OF that]]) (simp_all add: st [symmetric] at other [OF that], simp add: st)
  moreover have "context_inv st \<lparr>ctx_slot = i, ctx_frame_len = n, ctx_terminal = t, ctx_command = command\<rparr>"
    by (simp add: context_inv_def at new_slot_def len)
  moreover have "ing_ok st" using reserve.keeps [OF inv(1), of "admission_frame_len_v1 (cmd_admission command)" command] r by simp
  moreover have "i \<notin> ctx_slot ` set (sys_submits s)" using other by blast
  moreover have "live (s\<lparr>sys_ing := st, sys_submits := x\<rparr>) = live s" for x by (simp add: live_def st)
  moreover have "live_inv (live s) st" using inv(4) by (simp add: live_inv_def st)
  ultimately show ?thesis using ok by (simp add: sys_ok_def)
qed

lemma finish_slots:
  assumes "j \<noteq> i"
  shows "slot_at (snd (submit_finish i n t command st)) j = slot_at st j \<or>
    slot_at (snd (submit_finish i n t command st)) j = None \<and> ing_closed (snd (submit_finish i n t command st))"
proof -
  have closed: "ing_closed (stop_all st)" by (simp add: stop_all_def)
  have same: "slot_at (st\<lparr>ing_slots := (ing_slots st)[i := x], ing_queue := q, ing_reserved_bytes := b, ing_receipts := h\<rparr>) j = slot_at st j" for x q b h
    using assms by (simp add: slot_at_def)
  have enq: "slot_at (snd (submit_enqueue i t prepared priority barrier st)) j = slot_at st j \<or>
      snd (submit_enqueue i t prepared priority barrier st) = stop_all st" for prepared priority barrier
    using assms by (auto simp: submit_enqueue_def Let_def slot_at_def)
  have roll: "slot_at (rollback_preparation i st) j = slot_at st j \<or> rollback_preparation i st = stop_all st"
    using assms by (auto simp: rollback_preparation_def slot_at_def split: option.split)
  have "slot_at (snd (submit_finish i n t command st)) j = slot_at st j \<or> snd (submit_finish i n t command st) = stop_all st"
    using enq roll by (auto simp: submit_finish_def Let_def split: sum.split)
  then show ?thesis using closed by auto
qed

lemma finish_latest:
  "snd (submit_finish i n t command st) = stop_all st \<or> ing_latest (snd (submit_finish i n t command st)) = ing_latest st"
  by (auto simp: submit_finish_def submit_enqueue_def rollback_preparation_def Let_def split: sum.split option.split)

lemma finish_current: "current_from {} st (snd (submit_finish i n t command st))"
  using finish_latest [of i n t command st] by (metis current_same stop_all_leaves(2))

lemma finished_step:
  assumes ok: "sys_ok s" and ctx: "ctx \<in> set (sys_submits s)"
  shows "sys_ok (s\<lparr>sys_ing := snd (submit_finish (ctx_slot ctx) n t command (sys_ing s)),
        sys_submits := remove1 ctx (sys_submits s)\<rparr>)" (is "sys_ok (s\<lparr>sys_ing := ?st, sys_submits := _\<rparr>)")
proof -
  note inv = sys_okD [OF ok]
  have pre: "slot_at (sys_ing s) (ctx_slot ctx) = None \<or> in_phase (sys_ing s) (ctx_slot ctx) Preparing"
    using inv(3) [OF ctx] by (auto simp: context_inv_def in_phase_iff split: option.splits)
  have ing: "ing_ok ?st" "ing_evolves (sys_ing s) ?st"
    using finish.keeps [OF inv(1)] finish.evolves [OF inv(1)] pre by simp_all
  have d: "distinct (sys_submits s)" using inv(2) by (simp add: distinct_map)
  have "context_inv ?st other" if o: "other \<in> set (remove1 ctx (sys_submits s))" for other
  proof -
    have other: "other \<in> set (sys_submits s)" "other \<noteq> ctx" using o d by simp_all
    then have "ctx_slot other \<noteq> ctx_slot ctx" using inv(2) ctx by (auto simp: distinct_map dest: inj_onD)
    then show ?thesis
      using ing(2) by (intro context_inv_step [OF inv(3) [OF other(1)]] finish_slots) (simp_all add: ing_evolves_def)
  qed
  moreover have "distinct (map ctx_slot (remove1 ctx (sys_submits s)))"
    using inv(2) d by (simp add: distinct_map inj_on_diff)
  moreover have "live (s\<lparr>sys_ing := ?st, sys_submits := x\<rparr>) \<subseteq> live s" for x
    using finish_current [of "sys_ing s" "ctx_slot ctx" n t command] by (auto simp: live_def current_from_def)
  then have "live_inv (live (s\<lparr>sys_ing := ?st, sys_submits := remove1 ctx (sys_submits s)\<rparr>)) ?st"
    using ing(2) by (intro live_inv_mono [OF inv(4)]) (simp_all add: ing_evolves_def)
  ultimately show ?thesis using ok ing(1) by (simp add: sys_ok_def)
qed

lemma staged_step:
  assumes ok: "sys_ok s" and p: "prepare_publication i candidate (sys_ing s) = (Inr p, st)"
  shows "sys_ok (s\<lparr>sys_ing := st, sys_staged := p # sys_staged s\<rparr>)"
proof -
  note inv = sys_okD [OF ok]
  obtain plan where plan: "latest_plan (ing_latest (sys_ing s)) candidate = Inr plan" "p = plan_stage (ing_next_arc (sys_ing s)) plan"
    and st: "st = (sys_ing s)\<lparr>ing_next_arc := ing_next_arc (sys_ing s) + 1\<rparr>"
    using p by (auto simp: prepare_publication_def map_ok_def split: if_splits sum.splits)
  have ok1: "sys_ok (s\<lparr>sys_ing := st\<rparr>)"
    using prepare_by.system_kept [OF ok, of i candidate] p by simp
  show ?thesis
  proof (cases p)
    case PreparedNoChange
    then show ?thesis using ok1 by (simp add: sys_ok_def staged_inv_def live_def snapshots_of_def)
  next
    case (PreparedAdvance base next')
    have "lat_current (ing_latest (sys_ing s)) = Some base"
      using plan PreparedAdvance
      by (auto simp: latest_plan_def plan_stage_def split: PublicationPlan.splits option.splits if_splits)
    then have base: "base \<in> live s" "latest_snapshot_ok base" using inv(4) by (auto simp: live_def live_inv_def)
    note stage = plan_stage_ok [OF plan(1) plan(2) [unfolded PreparedAdvance, symmetric] base(2)]
    have next': "latest_snapshot_ok next'" "snapshot_grows base next'" "ls_store_id next' = ls_store_id base"
      "ls_arc next' = ing_next_arc (sys_ing s)"
      using stage by simp_all
    have live: "live (s\<lparr>sys_ing := st, sys_staged := p # sys_staged s\<rparr>) = insert next' (live s)"
      using PreparedAdvance base(1) by (auto simp: live_def snapshots_of_def st)
    have "\<forall>x \<in> live s. ls_arc x < ing_next_arc (sys_ing s)" "ls_store_id base = ing_store_id (sys_ing s)"
      using inv(4) base(1) by (auto simp: live_inv_def)
    then have "live_inv (insert next' (live s)) st"
      using inv(4) next' by (auto simp: live_inv_def st less_Suc_eq)
    then show ?thesis
      using ok1 next'(2) PreparedAdvance live by (simp add: sys_ok_def staged_inv_def)
  qed
qed

lemma sys_step_ok: "sys_step s s' \<Longrightarrow> sys_ok s \<Longrightarrow> sys_ok s'"
proof (induction rule: sys_step.induct)
  case (precheck s command)
  then show ?case using precheck_by.system_kept by simp
next
  case (submit_done command s r st)
  then show ?case using reserve_by.system_kept [of s "admission_frame_len_v1 (cmd_admission command)" command] by simp
next
  case (submit_reserved command s i n t st)
  then show ?case using reserved_step by blast
next
  case (submit_finished ctx s)
  then show ?case using finished_step by blast
next
  case (closed s)
  then show ?case using close_by.system_kept by simp
next
  case (stopped s)
  then show ?case using stop_by.system_kept by simp
next
  case (dropped s)
  then show ?case using drop_by.system_kept by simp
next
  case (poisoned s)
  have "ing_ok ((sys_ing s)\<lparr>ing_poisoned := True\<rparr>)"
    using sys_okD(1,4) [OF poisoned] by (intro ing_ok_frame [OF sys_okD(1) [OF poisoned]]) (simp_all add: ing_ok_def latest_inv_def)
  then show ?case using poisoned by (simp add: sys_ok_def live_def live_inv_def context_inv_def cong: option.case_cong)
next
  case (opened retry s)
  then show ?case using install_by.system_kept by simp
next
  case (taken s)
  then show ?case using take_by.system_kept by simp
next
  case (read s)
  then show ?case using read_by.system_kept by simp
next
  case (staged i candidate s p st)
  then show ?case using staged_step by blast
next
  case (not_staged i candidate s e st)
  then show ?case using prepare_by.system_kept [of s i candidate] by simp
next
  case (handled p s i admission a fault)
  have "offered_by p \<subseteq> snapshots_of p" by (cases p) (simp_all add: offered_by_def snapshots_of_def)
  then have "offered_by p \<subseteq> live s" using handled(1) unfolding live_def by blast
  then show ?case using handled_by.system_kept staged_fits handled by blast
next
  case (committed s es c retry)
  then show ?case using durable_by.system_kept by simp
qed

section \<open>Reachable states\<close>

text \<open>From the state of \<open>Ingress::new\<close> under options that the constructors accept; sizes are \<open>usize\<close> values.\<close>

inductive sys_reachable :: "System \<Rightarrow> bool" where
  started: "a \<le> usize_max \<Longrightarrow> byte_limits_new a b c = Inr limits \<Longrightarrow> retry_options_new x y = Inr options \<Longrightarrow>
    sys_reachable (system_new store limits options)"
| stepped: "sys_reachable s \<Longrightarrow> sys_step s s' \<Longrightarrow> sys_reachable s'"

lemma sys_reachable_steps: "sys_steps s s' \<Longrightarrow> sys_reachable s \<Longrightarrow> sys_reachable s'"
  by (induction rule: rtranclp_induct) (auto intro: stepped)

lemma slot_table_new: "slot_at (ingress_new store limits options) = (\<lambda>_. None)"
  by (simp add: slot_at_def ingress_new_def fun_eq_iff)

lemma ingress_new_ok:
  assumes "retry_options_new x y = Inr options"
  shows "ing_ok (ingress_new store limits options)"
proof -
  have "slots_inv (\<lambda>_. None) [] taken" for taken by (rule slots_invI) simp_all
  moreover have "queue_inv (\<lambda>_. None) fixed_queue_new" by (rule queue_inv_new) simp
  moreover have "slot_sum f (replicate k None) = 0" for f k by (induction k) (simp_all add: slot_sum_def)
  moreover have "validate_state (retry_empty store options) = Inr ()"
    using assms by (auto simp: validate_state_def retry_empty_def usize_saturating_add_def not_le retry_options_new_iff options_ok_def)
  ultimately show ?thesis
    unfolding ing_ok_def slot_table_new
    by (simp add: ingress_new_def MAX_OUTSTANDING_COMMANDS_def bytes_inv_def latest_inv_def latest_new_def snapshot_empty_def
        latest_snapshot_ok_def)
qed

lemma system_new_ok: "retry_options_new x y = Inr options \<Longrightarrow> sys_ok (system_new store limits options)"
  using ingress_new_ok
  by (simp add: sys_ok_def system_new_def live_def live_inv_def ingress_new_def latest_new_def snapshot_empty_def latest_snapshot_ok_def)

definition usize_limits :: "ByteReservationLimits \<Rightarrow> bool" where
  "usize_limits l \<longleftrightarrow> limits_ok l \<and> brl_total l \<le> usize_max"

lemma sys_step_evolves: "sys_step s s' \<Longrightarrow> sys_ok s \<Longrightarrow> ing_evolves (sys_ing s) (sys_ing s')"
proof (induction rule: sys_step.induct)
  case (submit_done command s r st)
  then show ?case using reserve.evolves [OF sys_okD(1)] by (metis System.select_convs(1) System.surjective System.update_convs(1) snd_conv)
next
  case (submit_reserved command s i n t st)
  then show ?case
    using reserve.evolves [OF sys_okD(1) [OF submit_reserved(2)], of "admission_frame_len_v1 (cmd_admission command)" command] by simp
next
  case (submit_finished ctx s)
  have "slot_at (sys_ing s) (ctx_slot ctx) = None \<or> in_phase (sys_ing s) (ctx_slot ctx) Preparing"
    using sys_okD(3) [OF submit_finished(2,1)] by (auto simp: context_inv_def in_phase_iff split: option.splits)
  then show ?case using finish.evolves [OF sys_okD(1) [OF submit_finished(2)]] by simp
next
  case (poisoned s)
  then show ?case by (simp add: ing_evolves_def)
next
  case (staged i candidate s p st)
  then show ?case using prepare.evolves [OF sys_okD(1) [OF staged(2)], of i candidate] by simp
next
  case (not_staged i candidate s e st)
  then show ?case using prepare.evolves [OF sys_okD(1) [OF not_staged(2)], of i candidate] by simp
next
  case (handled p s i admission a fault)
  then show ?case using handled.evolves [OF sys_okD(1) staged_fits] by simp
qed (simp_all add: sys_okD(1) precheck.evolves close.evolves [simplified] stop.evolves [simplified] drop_in_flight.evolves [simplified] install.evolves take.evolves
  latest_read.evolves durable.evolves)

lemma sys_reachable_ok: "sys_reachable s \<Longrightarrow> sys_ok s \<and> usize_limits (ing_byte_limits (sys_ing s))"
proof (induction rule: sys_reachable.induct)
  case (started a b c limits x y options store)
  have "usize_limits limits" using started(1,2) by (auto simp: byte_limits_new_def usize_limits_def limits_ok_def split: if_splits)
  then show ?case using system_new_ok [OF started(3)] by (simp add: system_new_def ingress_new_def)
next
  case (stepped s s')
  then show ?case using sys_step_ok sys_step_evolves by (simp add: ing_evolves_def)
qed

lemma sys_steps_evolves: "sys_steps s s' \<Longrightarrow> sys_reachable s \<Longrightarrow> ing_evolves (sys_ing s) (sys_ing s')"
proof (induction rule: rtranclp_induct)
  case (step t u)
  have "sys_ok t" using sys_reachable_ok sys_reachable_steps [OF step(1,4)] by blast
  then show ?case using ing_evolves_trans [OF step(3) [OF step(4)]] sys_step_evolves [OF step(2)] by blast
qed simp

lemmas reachable_ingD = ing_okD [OF sys_okD(1) [OF conjunct1 [OF sys_reachable_ok]]]

end
