(* ===== verification/Och_Admission_Frame.thy ===== *)
theory Och_Admission_Frame
  imports Och_Bounds Och_Artifact
begin

text \<open>
  The Journal V1 contract for authorized admissions: framing is total on valid admissions, the
  counting pass predicts the frame length, the prepared path produces the same bytes, and a
  frame altered within four consecutive bytes is refused.  The file header round-trips in both
  directions.
\<close>

section \<open>Framing is total on valid admissions\<close>

lemma encode_payload_bytes:
  assumes "admission_ok a"
  shows "encode_canonical_payload a encoder_new = Inr (EncoderBytes (wire_payload (view_admission sq a)))"
    and "encode_canonical_payload a encoder_counting = Inr (EncoderCount (length (wire_payload (view_admission sq a))))"
proof -
  have ok: "decoded_payload_ok (view_admission sq a)" using assms by (rule admission_payload_ok)
  have small: "length (wire_payload (view_admission sq a)) \<le> usize_max"
    using wire_payload_bound [OF ok] by (simp add: frame_consts)
  show "encode_canonical_payload a encoder_new = Inr (EncoderBytes (wire_payload (view_admission sq a)))"
    using encode_decoded_payload_wire [of encoder_new, OF _ ok]
    by (simp add: encode_canonical_payload_view [of a sq] encoder_new_def)
  show "encode_canonical_payload a encoder_counting = Inr (EncoderCount (length (wire_payload (view_admission sq a))))"
    using encode_decoded_payload_wire [of encoder_counting, OF _ ok] small
    by (simp add: encode_canonical_payload_view [of a sq] encoder_counting_def usize_saturating_add_def)
qed

lemma encode_frame_valid:
  assumes "admission_ok a"
  shows "encode_admission_frame_v1 s a = Inr (frame_of (view_admission (append_get s) a))"
  using encode_payload_bytes(1) [OF assms, of "append_get s"]
    wire_payload_bound [OF admission_payload_ok [OF assms, of "append_get s"]]
  by (simp add: encode_admission_frame_v1_def frame_bytes_layout frame_of_def)

lemma frame_length_independent: "wire_payload (view_admission sq a) = wire_payload (view_admission sq' a)"
  by (simp add: wire_payload_def view_admission_def)

lemma length_frame_of: "length (frame_of d) = 24 + length (wire_payload d)"
  by (simp add: frame_of_def)

lemma admission_frame_len_valid:
  assumes "admission_ok a"
  shows "admission_frame_len_v1 a = Inr (length (frame_of (view_admission sq a)))"
  using encode_payload_bytes(2) [OF assms, of sq] wire_payload_bound [OF admission_payload_ok [OF assms, of sq]]
  by (simp add: admission_frame_len_v1_def Let_def usize_checked_add_def frame_consts length_frame_of)

lemma prepared_admission_valid:
  assumes "admission_ok a"
  shows "prepared_admission_new a = Inr \<lparr>pa_admission = a, pa_payload = wire_payload (view_admission sq a),
     pa_frame_len = length (frame_of (view_admission sq a))\<rparr>"
  using encode_payload_bytes(1) [OF assms, of sq] admission_frame_len_valid [OF assms, of sq]
  by (simp add: prepared_admission_new_def frame_consts length_frame_of Let_def)

lemma into_frame_valid:
  assumes "admission_ok a" "prepared_admission_new a = Inr p"
  shows "into_frame p s = Inr \<lparr>pf_admission = a, pf_append_sequence = s,
     pf_bytes = frame_of (view_admission (append_get s) a)\<rparr>"
proof -
  have p: "p = \<lparr>pa_admission = a, pa_payload = wire_payload (view_admission (append_get s) a),
     pa_frame_len = length (frame_of (view_admission (append_get s) a))\<rparr>"
    using prepared_admission_valid [OF assms(1), of "append_get s"] assms(2) by simp
  show ?thesis
    using wire_payload_bound [OF admission_payload_ok [OF assms(1), of "append_get s"]]
    by (simp add: into_frame_def p frame_bytes_layout frame_of_def)
qed

text \<open>A refused preparation hands the admission back.\<close>

lemma prepare_error_returns_admission:
  "prepared_admission_new a = Inl e \<Longrightarrow> pe_admission e = a"
  by (auto simp: prepared_admission_new_def and_then_def map_err_def Let_def split: sum.splits if_splits)

section \<open>Decoding\<close>

lemma frame_of_fits:
  assumes "decoded_payload_ok d"
  shows "length (frame_of d) \<le> usize_max"
  using wire_payload_bound [OF assms] by (simp add: length_frame_of frame_consts)

lemma decode_frame_valid:
  assumes "admission_ok a" "sq \<noteq> 0" "sequence_follows prev sq"
    "length (wire_payload (view_admission sq a)) \<le> max_payload_len limits"
  shows "decode_admission_frame_v1 (frame_of (view_admission sq a)) limits prev = Inr (view_admission sq a)"
proof -
  have ok: "decoded_payload_ok (view_admission sq a)" using assms(1) by (rule admission_payload_ok)
  show ?thesis
    unfolding decode_frame_iff [OF frame_of_fits [OF ok]]
    using ok assms admission_view_valid [OF assms(1)] wire_payload_bound [OF ok]
    by (simp add: frame_admissible_def)
qed

lemma encode_decoded_frame_of:
  "decoded_payload_ok d \<Longrightarrow> encode_decoded_admission_frame_v1 d = Inr (frame_of d)"
  using encode_decoded_payload_wire [of encoder_new d] wire_payload_bound [of d]
  by (simp add: encode_decoded_admission_frame_v1_def encoder_new_def frame_bytes_layout frame_of_def)

lemma decoded_frame_related:
  assumes "length bs \<le> usize_max" "decode_admission_frame_v1 bs limits prev = Inr d"
  shows "decoded_related d \<and> decoded_payload_ok d"
proof -
  have ok: "decoded_payload_ok d" "validate_decoded d = Inr ()"
    using assms by (auto simp: decode_frame_iff)
  then have "revision_ok (dd_revision (da_declaration d))"
    by (simp add: decoded_payload_ok_def decoded_declaration_ok_def)
  with ok show ?thesis by (simp add: validate_decoded_iff)
qed

section \<open>Corruption\<close>

definition frame_accepted :: "bytes \<Rightarrow> bool" where
  "frame_accepted bs \<longleftrightarrow> length bs \<le> usize_max \<and>
     (\<exists>limits prev d. decode_admission_frame_v1 bs limits prev = Inr d)"

interpretation frame: checksummed frame_accepted
  by unfold_locales (auto simp: frame_accepted_def decode_frame_iff frame_of_def frame_layout_def seal_def)

lemma frame_acceptedI:
  "decode_admission_frame_v1 bs limits prev = Inr d \<Longrightarrow> length bs \<le> usize_max \<Longrightarrow> frame_accepted bs"
  by (auto simp: frame_accepted_def)

lemma frame_not_accepted:
  "\<not> frame_accepted bs \<Longrightarrow> length bs \<le> usize_max \<Longrightarrow> \<exists>e. decode_admission_frame_v1 bs limits prev = Inl e"
  by (cases "decode_admission_frame_v1 bs limits prev") (auto simp: frame_accepted_def)

lemma corrupted_body_refused:
  assumes good: "decode_admission_frame_v1 (p @ u @ q @ t) limits prev = Inr d"
    and lens: "length (p @ u @ q @ t) \<le> usize_max" "length t = 4" "length v = length u" "length u \<le> 4"
    and differ: "v \<noteq> u"
  shows "\<exists>e. decode_admission_frame_v1 (p @ v @ q @ t) limits' prev' = Inl e"
  using frame.burst_refused [OF frame_acceptedI [OF good lens(1)] lens(2-4) differ] lens
  by (intro frame_not_accepted) simp_all

lemma corrupted_trailer_refused:
  assumes good: "decode_admission_frame_v1 (b @ t) limits prev = Inr d"
    and lens: "length (b @ t) \<le> usize_max" "length t = 4" "length t' = 4" and differ: "t' \<noteq> t"
  shows "\<exists>e. decode_admission_frame_v1 (b @ t') limits' prev' = Inl e"
  using frame.trailer_refused [OF frame_acceptedI [OF good lens(1)] lens(2,3) differ] lens
  by (intro frame_not_accepted) simp_all

text \<open>Truncation and extension are refused: a frame determines its own length.\<close>

lemma frame_prefix_free:
  assumes "length (f @ g) \<le> usize_max" "decode_admission_frame_v1 f limits prev = Inr d"
    "decode_admission_frame_v1 (f @ g) limits' prev' = Inr d'"
  shows "g = []"
proof -
  have f: "f = frame_of d" and ok: "decoded_payload_ok d"
    using assms by (auto simp: decode_frame_iff)
  have g: "f @ g = frame_of d'" and ok': "decoded_payload_ok d'"
    using assms by (auto simp: decode_frame_iff)
  have "take 20 (frame_of d) = take 20 (f @ g)" by (simp add: f length_frame_of)
  then have "take 20 (frame_of d) = take 20 (frame_of d')" by (simp add: g)
  then have "frame_prefix (da_append_sequence d) (length (wire_payload d)) =
      frame_prefix (da_append_sequence d') (length (wire_payload d'))"
    by (simp add: frame_of_def frame_layout_def frame_body_def)
  then have "be_encode 4 (length (wire_payload d)) = be_encode 4 (length (wire_payload d'))"
    by (simp add: frame_prefix_def)
  then have "length (wire_payload d) = length (wire_payload d')"
    using be_encode_inj [of _ 4] wire_payload_bound [OF ok] wire_payload_bound [OF ok'] by (simp add: frame_consts)
  then have "length (f @ g) = length f" using f g by (simp add: length_frame_of)
  then show ?thesis by simp
qed

lemma frame_len_from_prefix:
  assumes "length bs \<le> usize_max" "decode_admission_frame_v1 bs limits prev = Inr d"
  shows "frame_len_from_prefix_v1 (take 20 bs) limits = Inr (length bs)"
proof -
  have bs: "bs = frame_of d" and ok: "decoded_payload_ok d" and adm: "frame_admissible limits prev d"
    using assms by (auto simp: decode_frame_iff)
  define P where "P = take 20 bs"
  have P: "P = frame_prefix (da_append_sequence d) (length (wire_payload d))"
    by (simp add: P_def bs frame_of_def frame_layout_def frame_body_def)
  have n: "length (wire_payload d) < 2 ^ 32" using wire_payload_bound [OF ok] by (simp add: frame_consts)
  have "length P = 20" by (simp add: P)
  then have "prefix_checks P" "of_nat (be_decode (slice 8 16 P)) = da_append_sequence d"
    "frame_payload_len P = length (wire_payload d)"
    using prefix_checks_iff [of P "da_append_sequence d" "length (wire_payload d)"] P n by simp_all
  then show ?thesis
    unfolding P_def [symmetric]
    using adm \<open>length P = 20\<close>
    by (simp add: frame_len_from_prefix_v1_def prefix_checks_def append_sequence_new_def Let_def frame_admissible_def
        usize_checked_add_def frame_consts bs length_frame_of)
qed

section \<open>The file header\<close>

definition header_layout :: "StoreId \<Rightarrow> bytes" where
  "header_layout i = JOURNAL_V1_HEADER_MAGIC @ be_encode 2 1 @ be_encode 2 28 @ id_bytes i"

lemma encode_header_layout: "length (id_bytes i) = 16 \<Longrightarrow> encode_header i = header_layout i"
  by (simp add: encode_header_def header_layout_def write_at_def frame_consts)

lemma decode_header_iff: "decode_header bs = Inr i \<longleftrightarrow> identity_ok i \<and> bs = header_layout i"
proof (cases "length bs = 28")
  case False
  then show ?thesis
    by (auto simp: decode_header_def header_layout_def frame_consts identity_ok_def)
next
  case True
  have split: "bs = slice 0 8 bs @ [bs ! 8, bs ! 9] @ [bs ! 10, bs ! 11] @ slice 12 28 bs"
    using True slice_join [of 0 8 28 bs] slice_join [of 8 10 28 bs] slice_join [of 10 12 28 bs]
      slice_pair [of 8 bs] slice_pair [of 10 bs] slice_full [of 28 bs]
    by simp
  have v: "(of_nat (be_decode [x, y]) :: u16) = w \<longleftrightarrow> [x, y] = be_encode 2 (unat w)" for x y w
    using be_word_iff [where ?'a = 16, of 2 w "[x, y]"] by auto
  have "decode_header bs = Inr i \<longleftrightarrow> slice 0 8 bs = JOURNAL_V1_HEADER_MAGIC \<and> [bs ! 8, bs ! 9] = be_encode 2 1 \<and>
      [bs ! 10, bs ! 11] = be_encode 2 28 \<and> id_bytes i = slice 12 28 bs \<and> identity_ok i"
    using True
    by (auto simp: decode_header_def JOURNAL_V1_HEADER_LEN_def JOURNAL_V1_VERSION_def v map_err_Inr_conv identity_from_bytes_iff
        simp del: be_encode.simps)
  also have "\<dots> \<longleftrightarrow> identity_ok i \<and> bs = header_layout i"
    unfolding header_layout_def
    using append_parts [of "slice 0 8 bs" JOURNAL_V1_HEADER_MAGIC "[bs ! 8, bs ! 9]" "be_encode 2 1"
        "[bs ! 10, bs ! 11]" "be_encode 2 28" "[]" "[]" "slice 12 28 bs" "id_bytes i"] True split
    by (auto simp: JOURNAL_V1_HEADER_MAGIC_def)
  finally show ?thesis .
qed

end
