(* ===== verification/Och_Sample_Frame.thy ===== *)
theory Och_Sample_Frame
  imports Och_Admission_Frame Och_Samples
begin

text \<open>
  The journal frame of the sample admission of \<^verbatim>\<open>Och_Samples\<close>, for the properties that speak of
  accepted frames.
\<close>

section \<open>The frame of the sample admission\<close>

definition sample_decoded :: DecodedAdmissionV1 where
  "sample_decoded = view_admission 5 sample_admission"

definition sample_frame :: bytes where
  "sample_frame = frame_of sample_decoded"

lemma sample_decoded_ok: "decoded_payload_ok sample_decoded"
  unfolding sample_decoded_def by (rule admission_payload_ok [OF sample_admission_ok])

lemma sample_decoded_related: "decoded_related sample_decoded"
  unfolding sample_decoded_def using admission_view_related [OF sample_admission_ok] by simp

lemma sample_decoded_admissible: "frame_admissible decode_limits_maximum None sample_decoded"
  using wire_payload_bound [OF sample_decoded_ok]
  by (simp add: frame_admissible_def sequence_follows_def decode_limits_maximum_def sample_decoded_def)

lemma sample_frame_fits: "length sample_frame \<le> usize_max"
  unfolding sample_frame_def by (rule frame_of_fits [OF sample_decoded_ok])

lemma sample_frame_decodes:
  "decode_admission_frame_v1 sample_frame decode_limits_maximum None = Inr sample_decoded"
  unfolding sample_frame_def sample_decoded_def
  using wire_payload_bound [OF sample_decoded_ok]
  by (intro decode_frame_valid) (simp_all add: sequence_follows_def decode_limits_maximum_def sample_decoded_def)

lemma sample_frame_split: "\<exists>q t. length t = 4 \<and> sample_frame = 0x4F # q @ t"
proof -
  let ?b = "frame_body (da_append_sequence sample_decoded) (wire_payload sample_decoded)"
  obtain q where "?b = 0x4F # q"
    by (simp add: frame_body_def frame_prefix_def JOURNAL_V1_FRAME_MAGIC_def)
  then have "sample_frame = 0x4F # q @ be_encode 4 (unat (crc32c ?b))"
    by (simp add: sample_frame_def frame_of_def frame_layout_def)
  then show ?thesis by force
qed

end
