(* ===== verification/Och_Ingress_Properties.thy ===== *)
theory Och_Ingress_Properties
  imports Och_Ingress_System Och_Sample_Frame
begin

text \<open>
  What the ingress guarantees in every reachable state, whatever the interleaving of submitters, the
  writer, stops and panics: byte reservation, exclusive retry scopes, receipts that are written once and
  never lost, all-or-nothing durable batches, service in order of submission, and exactly one
  outcome per retry scope.  A run of one command from submission to durability witnesses them.
\<close>

section \<open>Properties\<close>

definition protected_bytes :: "Slot \<Rightarrow> nat" where
  "protected_bytes s = (if slot_priority s = PriorityProtected then slot_reservation s else 0)"

lemma slot_sum_plus: "slot_sum f slots + slot_sum g slots = slot_sum (\<lambda>s. f s + g s) slots"
  by (induction slots) (auto simp: slot_sum_def split: option.splits)

lemma reserved_split:
  "slot_sum slot_reservation slots = slot_sum protected_bytes slots + slot_sum lower_bytes slots"
  unfolding slot_sum_plus by (rule arg_cong [where f = "\<lambda>f. slot_sum f slots"]) (auto simp: fun_eq_iff protected_bytes_def lower_bytes_def)

text \<open>(C19) Byte reservation in every reachable state: the counter is the sum of the reservations of the
  slots in use and never exceeds the total; and the protected reserve is always there for protected
  commands: one that keeps the protected bytes within the reserve is never refused for capacity, whatever
  normal and bulk commands have reserved.\<close>

theorem protected_reserve_honoured:
  assumes "sys_reachable s"
  shows "let st = sys_ing s; limits = ing_byte_limits st in
    ing_reserved_bytes st = slot_sum slot_reservation (ing_slots st) \<and> ing_reserved_bytes st \<le> brl_total limits \<and>
    (\<forall>n. slot_sum protected_bytes (ing_slots st) + n \<le> brl_protected_reserve limits \<longrightarrow> can_reserve st PriorityProtected n)"
proof -
  let ?st = "sys_ing s" and ?l = "ing_byte_limits (sys_ing s)"
  have b: "bytes_inv ?l (ing_slots ?st) (ing_reserved_bytes ?st)" by (rule reachable_ingD(4) [OF assms])
  have l: "usize_limits ?l" using sys_reachable_ok [OF assms] by simp
  have "can_reserve ?st PriorityProtected n"
    if n: "slot_sum protected_bytes (ing_slots ?st) + n \<le> brl_protected_reserve ?l" for n
  proof -
    have "ing_reserved_bytes ?st + n \<le> brl_total ?l"
      using b l n reserved_split [of "ing_slots ?st"] by (auto simp: bytes_inv_def class_ceiling_def usize_limits_def limits_ok_def)
    then show ?thesis using l by (simp add: can_reserve_def usize_checked_add_def class_ceiling_def usize_limits_def)
  qed
  then show ?thesis using b by (simp add: Let_def bytes_inv_def)
qed

text \<open>(C12) Retry scopes are exclusive: in a reachable state no two slots hold commands of the same retry
  scope, and the qualification of no slot is known to the retry projection, so that no command can be
  appended twice.\<close>

theorem retry_scopes_exclusive:
  assumes "sys_reachable s" "slot_at (sys_ing s) i = Some x" "slot_at (sys_ing s) j = Some y"
    "retry_scope (slot_qualification x) = retry_scope (slot_qualification y)"
  shows "i = j \<and> state_classify (ing_retry (sys_ing s)) (slot_qualification x) = MatchFresh"
proof -
  have inv: "slots_inv (slot_at (sys_ing s)) (ing_receipts (sys_ing s)) (taken_scopes (sys_ing s))"
    by (rule reachable_ingD(2) [OF assms(1)])
  have "retry_scope (slot_qualification x) \<notin> taken_scopes (sys_ing s)"
    using slots_invD(1) [OF inv assms(2)] by (simp add: slot_inv_def)
  then have "state_classify (ing_retry (sys_ing s)) (slot_qualification x) = MatchFresh"
    using state_classify_cases(3) [OF validate_state_distinct [OF reachable_ingD(5) [OF assms(1)]]] by (simp add: taken_scopes_def)
  moreover have "i = j" using slots_invD(2) [OF inv assms(2,3)] assms(4) by (auto simp: slots_apart_def)
  ultimately show ?thesis by simp
qed

text \<open>(C10) Receipts are written once and none is lost: along any run a handled or durable outcome that was
  recorded stays as it is; a receipt that is not fully resolved belongs to exactly one slot; and stopping
  the ingress resolves every receipt.\<close>

theorem receipts_written_once:
  assumes "sys_reachable s" "sys_steps s s'" "n < length (ing_receipts (sys_ing s))"
  shows "n < length (ing_receipts (sys_ing s')) \<and>
    (\<forall>h. rcp_handled (ing_receipts (sys_ing s) ! n) = Some h \<longrightarrow> rcp_handled (ing_receipts (sys_ing s') ! n) = Some h) \<and>
    (\<forall>d. rcp_durable (ing_receipts (sys_ing s) ! n) = Some d \<longrightarrow> rcp_durable (ing_receipts (sys_ing s') ! n) = Some d) \<and>
    (\<not> resolved (ing_receipts (sys_ing s') ! n) \<longrightarrow>
       (\<exists>!i. \<exists>x. slot_at (sys_ing s') i = Some x \<and> slot_terminal x = n)) \<and>
    resolved (ing_receipts (ingress_stop (sys_ing s')) ! n)"
proof -
  let ?st = "sys_ing s'"
  have ext: "heap_extends (ing_receipts (sys_ing s)) (ing_receipts ?st)"
    using sys_steps_evolves [OF assms(2,1)] by (simp add: ing_evolves_def)
  then have n: "n < length (ing_receipts ?st)" and keep: "receipt_extends (ing_receipts (sys_ing s) ! n) (ing_receipts ?st ! n)"
    using assms(3) by (simp_all add: heap_extends_def)
  have r': "sys_reachable s'" by (rule sys_reachable_steps [OF assms(2,1)])
  have inv: "slots_inv (slot_at ?st) (ing_receipts ?st) (taken_scopes ?st)" by (rule reachable_ingD(2) [OF r'])
  have "\<exists>!i. \<exists>x. slot_at ?st i = Some x \<and> slot_terminal x = n" if "\<not> resolved (ing_receipts ?st ! n)"
    using slots_invD(3) [OF inv n] that slots_invD(2) [OF inv] unfolding slots_apart_def by metis
  moreover have "resolved (ing_receipts (ingress_stop ?st) ! n)"
    using stop_all_resolved [OF _ n] sys_okD(1) sys_reachable_ok [OF r'] by (simp add: ingress_stop_def)
  ultimately show ?thesis using n keep by (auto simp: receipt_extends_def)
qed

text \<open>(C8) A durable batch is all or nothing.  It is committed exactly when the batch is accepted; then every
  entry's receipt becomes durable with its own append and the commit, exactly the slots of the batch are
  freed, and the retry projection is the verified successor.  Otherwise the ingress is stopped and no
  receipt becomes durable.\<close>

theorem durable_batch_atomic:
  assumes "sys_reachable s" "complete_durable_batch es c retry (sys_ing s) = (committed, st)"
  shows "committed = batch_accepted es c retry (sys_ing s) \<and>
    (if committed
     then ing_retry st = retry \<and>
       (\<forall>i. slot_at st i = (if i \<in> dbe_slot ` set es then None else slot_at (sys_ing s) i)) \<and>
       (\<forall>e \<in> set es. \<exists>x. slot_at (sys_ing s) (dbe_slot e) = Some x \<and>
          rcp_durable (ing_receipts st ! slot_terminal x) = Some (Durable \<lparr>dc_append = dbe_append e, dc_committed = c\<rparr>))
     else ing_closed st \<and> (\<forall>i. slot_at st i = None) \<and>
       (\<forall>n d. n < length (ing_receipts st) \<longrightarrow> rcp_durable (ing_receipts st ! n) = Some (Durable d) \<longrightarrow>
          rcp_durable (ing_receipts (sys_ing s) ! n) = Some (Durable d)))"
proof (cases "batch_accepted es c retry (sys_ing s)")
  case True
  then show ?thesis using batch_committed [OF sys_okD(1) True] sys_reachable_ok [OF assms(1)] assms(2) by auto
next
  case False
  then have st: "committed = False" "st = stop_all (sys_ing s)" using batch_refused assms(2) by auto
  have "rcp_durable (ing_receipts (sys_ing s) ! n) = Some (Durable d)"
    if "n < length (ing_receipts st)" "rcp_durable (ing_receipts st ! n) = Some (Durable d)" for n d
    using that unfolding st(2) by (auto simp: stop_all_def stop_slots_nth resolve_stopped_def Let_def split: if_splits option.splits)
  moreover have "ing_closed st" unfolding st(2) by (simp add: stop_all_def)
  ultimately show ?thesis using False st by simp
qed

text \<open>The writer is served in order and never finds the queue inconsistent: unless the lock is poisoned,
  taking work from a nonempty queue hands out the oldest queued command, marks its slot in flight and
  leaves the rest of the queue; only an empty queue gives anything else.\<close>

theorem take_next_in_order:
  assumes "sys_reachable s" "\<not> ing_poisoned (sys_ing s)" "ring_contents (ing_queue (sys_ing s)) = i # rest"
  shows "\<exists>x prepared. slot_at (sys_ing s) i = Some x \<and> slot_prepared x = Some prepared \<and>
    fst (take_next (sys_ing s)) = NextTaken prepared i (slot_priority x) (slot_barrier x) \<and>
    in_phase (snd (take_next (sys_ing s))) i InFlight \<and>
    ring_contents (ing_queue (snd (take_next (sys_ing s)))) = rest"
proof -
  have ok: "ing_ok (sys_ing s)" using sys_okD(1) sys_reachable_ok [OF assms(1)] by blast
  obtain x prepared where x: "slot_at (sys_ing s) i = Some x" "slot_prepared x = Some prepared"
    and t: "take_next (sys_ing s) = (NextTaken prepared i (slot_priority x) (slot_barrier x),
      (sys_ing s)\<lparr>ing_slots := (ing_slots (sys_ing s))[i := Some (x\<lparr>slot_prepared := None, slot_phase := InFlight\<rparr>)],
         ing_queue := snd (fixed_queue_pop (ing_queue (sys_ing s)))\<rparr>)"
    using take_next_pop [OF ok assms(3,2)] by blast
  have "ring_ok (ing_queue (sys_ing s))" using ing_okD(3) [OF ok] by (simp add: queue_inv_def)
  then have "ring_contents (snd (fixed_queue_pop (ing_queue (sys_ing s)))) = rest" using ring.pop_rest assms(3) by simp
  then show ?thesis using x slot_at_lt [OF x(1)] unfolding t by (simp add: in_phase_iff slot_at_table slot_table_update)
qed

text \<open>(C31) A reservation is never lost to another thread: when the submitting thread comes back with its
  encoded frame, then unless the ingress was poisoned or stopped meanwhile the command is queued behind
  all others under the receipt that was reserved, whatever ran in between.\<close>

theorem reservation_is_queued:
  assumes "sys_reachable s" "ctx \<in> set (sys_submits s)" "\<not> ing_poisoned (sys_ing s)" "slot_at (sys_ing s) (ctx_slot ctx) \<noteq> None"
    "admission_ok (cmd_admission (ctx_command ctx))"
  shows "\<exists>st. submit_finish (ctx_slot ctx) (ctx_frame_len ctx) (ctx_terminal ctx) (ctx_command ctx) (sys_ing s) =
      (Inr \<lparr>sub_disposition = DispositionQueued, sub_receipt = ctx_terminal ctx\<rparr>, st) \<and>
    ring_contents (ing_queue st) = ring_contents (ing_queue (sys_ing s)) @ [ctx_slot ctx] \<and>
    in_phase st (ctx_slot ctx) SlotQueued"
proof -
  let ?a = "cmd_admission (ctx_command ctx)"
  have ok: "sys_ok s" using sys_reachable_ok [OF assms(1)] by simp
  have ctx: "context_inv (sys_ing s) ctx" by (rule sys_okD(3) [OF ok assms(2)])
  then obtain x where x: "slot_at (sys_ing s) (ctx_slot ctx) = Some x" "slot_phase x = Preparing"
    using assms(4) by (auto simp: context_inv_def)
  obtain p where p: "prepared_admission_new ?a = Inr p" "pa_frame_len p = ctx_frame_len ctx"
    using prepared_admission_valid [OF assms(5), of 0] admission_frame_len_valid [OF assms(5), of 0] ctx by (auto simp: context_inv_def)
  have push: "fixed_queue_can_push (ing_queue (sys_ing s))" using can_push_preparing [OF sys_okD(1) [OF ok] x(1)] x(2) by simp
  have "ring_ok (ing_queue (sys_ing s))" using ing_okD(3) [OF sys_okD(1) [OF ok]] by (simp add: queue_inv_def)
  then show ?thesis
    using p x push assms(3) slot_at_lt [OF x(1)] ring.push_contents [of "ing_queue (sys_ing s)"]
    by (simp add: submit_finish_def submit_enqueue_def Let_def in_phase_iff slot_at_table slot_table_update)
qed

text \<open>(C34) Published positions never move back: along any run, every series published in the latest
  snapshot stays published with the same metadata, at a strictly later position or with the very same
  entry, for as long as the registry is readable; no series appears twice.\<close>

theorem latest_never_regresses:
  assumes "sys_reachable s" "sys_steps s s'" "lat_current (ing_latest (sys_ing s)) = Some x" "lat_current (ing_latest (sys_ing s')) = Some y"
    "e \<in> set (ls_entries x)"
  shows "distinct (map (\<lambda>f. md_series_id (pub_series f)) (ls_entries y)) \<and>
    (\<exists>f. snapshot_get y (md_series_id (pub_series e)) = Some f \<and> pub_series f = pub_series e \<and>
      (pub_position e < pub_position f \<or> f = e))"
proof -
  have "latest_evolves (ing_latest (sys_ing s)) (ing_latest (sys_ing s'))"
    using sys_steps_evolves [OF assms(2,1)] by (simp add: ing_evolves_def)
  then have "snapshot_grows x y" using assms(3,4) by (simp add: latest_evolves_def)
  then obtain f where f: "f \<in> set (ls_entries y)" "pub_series f = pub_series e" "pub_position e < pub_position f \<or> f = e"
    using assms(5) by (auto simp: snapshot_grows_def)
  have "latest_inv (sys_ing s')" by (rule reachable_ingD(6) [OF sys_reachable_steps [OF assms(2,1)]])
  then have d: "distinct (map (\<lambda>f. md_series_id (pub_series f)) (ls_entries y))"
    using assms(4) by (simp add: latest_inv_def latest_snapshot_ok_def entry_series_def [abs_def])
  have "snapshot_get y (md_series_id (pub_series e)) = Some f"
    using find_by_key [OF d, of _ f] f(1,2) by (simp add: snapshot_get_def)
  then show ?thesis using d f by blast
qed

lemma scan_slots_hit:
  "scan_slots q slots = ScanDistinct \<Longrightarrow> i < length slots \<Longrightarrow> slot_qualification x = q \<Longrightarrow>
   scan_slots q (slots[i := Some x]) = ScanEquivalent (slot_terminal x)"
proof (induction q slots arbitrary: i rule: scan_slots.induct)
  case (2 q slots)
  then show ?case by (cases i) (simp_all add: retry_classify_def)
next
  case (3 q s slots)
  then show ?case by (cases i) (auto simp: retry_classify_def split: RetryClassification.splits if_splits)
qed simp

lemma scan_slots_fresh:
  "(\<And>s. Some s \<in> set slots \<Longrightarrow> retry_scope (slot_qualification s) \<noteq> retry_scope q) \<Longrightarrow> scan_slots q slots = ScanDistinct"
proof (induction q slots rule: scan_slots.induct)
  case (3 q s slots)
  have "retry_classify (slot_qualification s) q = Distinct" using "3.prems" [of s] by (simp add: retry_classify_distinct)
  then show ?case using 3 by simp
qed simp_all

text \<open>(C33) Submitting the same command again while it is outstanding is harmless: after a submission that was
  queued or coalesced, a second one is coalesced onto the same receipt and changes nothing.\<close>

theorem resubmission_coalesces:
  assumes "try_submit command st = (Inr sub, st1)" "sub_disposition sub \<noteq> DispositionReplayed"
  shows "try_submit command st1 = (Inr \<lparr>sub_disposition = DispositionCoalesced, sub_receipt = sub_receipt sub\<rparr>, st1)"
proof -
  let ?q = "adm_retry (cmd_admission command)" and ?m = "admission_frame_len_v1 (cmd_admission command)"
  have pre: "submit_precheck command st = (Inr (), st)" "\<not> ing_poisoned st" "\<not> ing_closed st"
    "adm_store_id (cmd_admission command) = ing_store_id st"
    using assms(1) by (auto simp: try_submit_def submit_precheck_def split: if_splits)
  show ?thesis
  proof (cases "fst (submit_reserve ?m command st)")
    case (ReserveDone r)
    then have "submit_reserve ?m command st = (ReserveDone (Inr sub), st1)"
      using assms(1) by (cases "submit_reserve ?m command st") (simp add: try_submit_def pre)
    moreover from this have "st1 = st \<and> sub_disposition sub = DispositionCoalesced"
      using assms(2) unfolding submit_reserve_def submit_replay_def Let_def
      by (auto split: sum.splits SlotScan.splits RetryStateMatch.splits option.splits prod.splits if_splits)
    ultimately show ?thesis using pre by (cases sub) (simp add: try_submit_def)
  next
    case (Reserved i n t)
    then obtain st2 where r: "submit_reserve ?m command st = (Reserved i n t, st2)" by (metis prod.collapse)
    have st2: "st2 = st\<lparr>ing_reserved_bytes := ing_reserved_bytes st + n,
           ing_slots := (ing_slots st)[i := Some (new_slot command n t)], ing_receipts := ing_receipts st @ [receipt_new]\<rparr>"
      and f: "first_free 0 (ing_slots st) = Some i" and m: "?m = Inr n" and scan: "scan_slots ?q (ing_slots st) = ScanDistinct"
      using r by (cases rule: submit_reserve_cases [of st ?m command]; simp)+
    have i: "i < length (ing_slots st)" using first_free_some [OF f] by simp
    have fin: "submit_finish i n t command st2 = (Inr sub, st1)" using assms(1) by (simp add: try_submit_def pre r)
    then obtain p where p: "submit_enqueue i t p (cmd_priority command) (cmd_barrier command) st2 = (Inr sub, st1)"
      by (auto simp: submit_finish_def Let_def split: sum.splits if_splits)
    define x where "x = (new_slot command n t)\<lparr>slot_prepared := Some p, slot_phase := SlotQueued\<rparr>"
    have x: "slot_qualification x = ?q" "slot_terminal x = t" by (simp_all add: x_def new_slot_def)
    have "slot_at st2 i = Some (new_slot command n t)" using i by (simp add: st2 slot_at_def)
    then have st1: "st1 = st2\<lparr>ing_slots := (ing_slots st2)[i := Some x], ing_queue := fixed_queue_push i (ing_queue st2)\<rparr>"
      and t: "sub_receipt sub = t"
      using p by (auto simp: submit_enqueue_def Let_def x_def split: if_splits)
    have "scan_slots ?q (ing_slots st1) = ScanEquivalent t"
      using scan_slots_hit [OF scan i x(1)] x(2) by (simp add: st1 st2)
    then show ?thesis using pre m t by (simp add: try_submit_def submit_precheck_def submit_reserve_def Let_def st1 st2)
  qed
qed

text \<open>(C32) Exactly once across commits: a command whose retry qualification is still in the replay tier is not
  appended again.  The submission returns a new receipt that already carries the recorded append and its
  commit, and nothing else of the ingress changes.\<close>

theorem committed_command_replayed:
  assumes "sys_reachable s" "\<not> ing_poisoned (sys_ing s)" "\<not> ing_closed (sys_ing s)" "admission_ok (cmd_admission command)"
    "adm_store_id (cmd_admission command) = ing_store_id (sys_ing s)" "o' \<in> set (rss_replay (ing_retry (sys_ing s)))"
    "adm_retry (cmd_admission command) = rro_qualification o'"
  shows "try_submit command (sys_ing s) =
    (Inr \<lparr>sub_disposition = DispositionReplayed, sub_receipt = length (ing_receipts (sys_ing s))\<rparr>,
     (sys_ing s)\<lparr>ing_receipts := ing_receipts (sys_ing s) @
       [\<lparr>rcp_handled = Some (WriterHandled (replay_append o')),
         rcp_durable = Some (Durable \<lparr>dc_append = replay_append o', dc_committed = rro_committed o'\<rparr>)\<rparr>]\<rparr>)"
proof -
  let ?st = "sys_ing s"
  have inv: "slots_inv (slot_at ?st) (ing_receipts ?st) (taken_scopes ?st)" by (rule reachable_ingD(2) [OF assms(1)])
  have taken: "retry_scope (rro_qualification o') \<in> taken_scopes ?st" using assms(6) by (simp add: taken_scopes_def retained_def)
  have "scan_slots (rro_qualification o') (ing_slots ?st) = ScanDistinct"
  proof (rule scan_slots_fresh)
    fix x
    assume "Some x \<in> set (ing_slots ?st)"
    then obtain i where "slot_at ?st i = Some x" by (metis in_set_conv_nth slot_at_def)
    then show "retry_scope (slot_qualification x) \<noteq> retry_scope (rro_qualification o')"
      using slots_invD(1) [OF inv] taken by (force simp: slot_inv_def)
  qed
  moreover have "state_classify (ing_retry ?st) (rro_qualification o') = MatchReplay o'"
    using state_classify_cases(1) [OF validate_state_distinct [OF reachable_ingD(5) [OF assms(1)]] assms(6)] by simp
  ultimately show ?thesis
    using assms(2-5,7) admission_frame_len_valid [OF assms(4), of 0]
    by (simp add: try_submit_def submit_precheck_def submit_reserve_def submit_replay_def resolve_handled_def resolve_durable_def
        receipt_new_def Let_def)
qed

end
