(* ===== verification/Och_Sample_Run.thy ===== *)
theory Och_Sample_Run
  imports Och_Ingress_Properties
begin

text \<open>
  One run of the ingress: a retry projection is installed, the sample command is submitted, taken by the
  writer, published, handled and made durable.  The states of the run witness the properties of the ingress.
\<close>

section \<open>The run\<close>

definition sample_command :: IngressCommand where
  "sample_command = command_new sample_admission"

definition sample_reservation :: ByteReservationLimits where
  "sample_reservation = \<lparr>brl_total = 25165896, brl_protected_reserve = 8388632, brl_normal_reserve = 8388632\<rparr>"

definition sample_prepared :: PreparedAdmissionV1 where
  "sample_prepared = \<lparr>pa_admission = sample_admission, pa_payload = wire_payload sample_decoded, pa_frame_len = length sample_frame\<rparr>"

definition sample_append :: AppendIdentity where
  "sample_append = \<lparr>ai_journal = cut_journal (mc_durable_cutoff (sample_commit 2 1 1 100)), ai_append_sequence = 1, ai_end_offset = 100\<rparr>"

definition sample_slot :: Slot where
  "sample_slot = new_slot sample_command (length sample_frame) 0"

definition sample_ctx :: SubmitContext where
  "sample_ctx = \<lparr>ctx_slot = 0, ctx_frame_len = length sample_frame, ctx_terminal = 0, ctx_command = sample_command\<rparr>"

definition sample_ing :: "Slot option \<Rightarrow> FixedQueue \<Rightarrow> LatestState \<Rightarrow> nat \<Rightarrow> RetryStateSnapshot \<Rightarrow> ReceiptState list \<Rightarrow> nat \<Rightarrow> Ingress" where
  "sample_ing slot queue latest reserved retry receipts arc =
     \<lparr>ing_store_id = sample_id 1, ing_poisoned = False, ing_closed = False, ing_slots = slot # replicate 15 None,
      ing_queue = queue, ing_latest = latest, ing_byte_limits = sample_reservation, ing_reserved_bytes = reserved,
      ing_barrier_requested = False, ing_retry = retry, ing_receipts = receipts, ing_next_arc = arc\<rparr>"

definition sample_queued :: FixedQueue where
  "sample_queued = fixed_queue_push 0 fixed_queue_new"

definition sample_taken :: FixedQueue where
  "sample_taken = snd (fixed_queue_pop sample_queued)"

definition sample_base :: LatestSnapshot where
  "sample_base = snapshot_empty (sample_id 1)"

definition sample_published :: PublishedObservation where
  "sample_published = the (publication_candidate sample_admission)"

definition sample_next :: LatestSnapshot where
  "sample_next = snapshot_from_entries (sample_id 1) 1 [sample_published]"

definition sample_entry :: DurableBatchEntry where
  "sample_entry = \<lparr>dbe_slot = 0, dbe_qualification = sample_retry, dbe_append = sample_append\<rparr>"

definition sample_durable_retry :: RetryStateSnapshot where
  "sample_durable_retry = \<lparr>rss_store_id = sample_id 1, rss_options = sample_options,
     rss_reference = Some \<lparr>rsr_slot = 1, rsr_generation = 2\<rparr>,
     rss_replay = [replay_of (sample_commit 2 1 1 100) \<lparr>pro_qualification = sample_retry, pro_append_sequence = 1, pro_end_offset = 100\<rparr>],
     rss_guard = []\<rparr>"

definition run_opened :: System where
  "run_opened = \<lparr>sys_ing = sample_ing None fixed_queue_new (latest_new (sample_id 1)) 0 sample_installed [] 1,
     sys_submits = [], sys_staged = []\<rparr>"

definition run_reserved :: System where
  "run_reserved = \<lparr>sys_ing = sample_ing (Some sample_slot) fixed_queue_new (latest_new (sample_id 1)) (length sample_frame)
     sample_installed [receipt_new] 1, sys_submits = [sample_ctx], sys_staged = []\<rparr>"

definition run_queued :: System where
  "run_queued = \<lparr>sys_ing = sample_ing (Some (sample_slot\<lparr>slot_prepared := Some sample_prepared, slot_phase := SlotQueued\<rparr>)) sample_queued
     (latest_new (sample_id 1)) (length sample_frame) sample_installed [receipt_new] 1, sys_submits = [], sys_staged = []\<rparr>"

definition run_taken :: System where
  "run_taken = \<lparr>sys_ing = sample_ing (Some (sample_slot\<lparr>slot_phase := InFlight\<rparr>)) sample_taken
     (latest_new (sample_id 1)) (length sample_frame) sample_installed [receipt_new] 1, sys_submits = [], sys_staged = []\<rparr>"

definition run_staged :: System where
  "run_staged = \<lparr>sys_ing = sample_ing (Some (sample_slot\<lparr>slot_phase := InFlight\<rparr>)) sample_taken
     (latest_new (sample_id 1)) (length sample_frame) sample_installed [receipt_new] 2, sys_submits = [],
     sys_staged = [PreparedAdvance sample_base sample_next]\<rparr>"

definition run_handled :: System where
  "run_handled = \<lparr>sys_ing = sample_ing (Some (handled_slot sample_admission sample_append (sample_slot\<lparr>slot_phase := InFlight\<rparr>))) sample_taken
     \<lparr>lat_current = Some sample_next, lat_sealed = False\<rparr> (length sample_frame) sample_installed
     [handled_receipt sample_append receipt_new] 2, sys_submits = [],
     sys_staged = [PreparedAdvance sample_base sample_next]\<rparr>"

definition run_durable :: System where
  "run_durable = \<lparr>sys_ing = sample_ing None sample_taken \<lparr>lat_current = Some sample_next, lat_sealed = False\<rparr> 0 sample_durable_retry
     [\<lparr>rcp_handled = Some (WriterHandled sample_append),
       rcp_durable = Some (Durable \<lparr>dc_append = sample_append, dc_committed = sample_commit 2 1 1 100\<rparr>)\<rparr>] 2,
     sys_submits = [], sys_staged = [PreparedAdvance sample_base sample_next]\<rparr>"

lemmas run_defs = run_opened_def run_reserved_def run_queued_def run_taken_def run_staged_def run_handled_def run_durable_def sample_ing_def

section \<open>Its steps\<close>

lemma sample_command_parts [simp]:
  "cmd_admission sample_command = sample_admission" "cmd_priority sample_command = PriorityNormal" "cmd_barrier sample_command = BarrierGroup"
  "adm_retry sample_admission = sample_retry" "adm_store_id sample_admission = sample_id 1"
  by (simp_all add: sample_command_def command_new_def command_with_policy_def sample_admission_def)

lemma sample_frame_len [simp]:
  "admission_frame_len_v1 sample_admission = Inr (length sample_frame)" "length sample_frame \<le> 8388632"
  "prepared_admission_new sample_admission = Inr sample_prepared"
  using admission_frame_len_valid [OF sample_admission_ok] prepared_admission_valid [OF sample_admission_ok]
    wire_payload_bound [OF sample_decoded_ok]
  by (simp_all add: sample_prepared_def sample_frame_def sample_decoded_def length_frame_of frame_consts)

lemma sample_started: "sys_reachable (system_new (sample_id 1) sample_reservation sample_options)"
  by (rule started [of 25165896 8388632 8388632 _ 1 2])
    (simp_all add: byte_limits_new_def sample_reservation_def retry_options_new_def sample_options_def MAX_PERSISTED_RETRY_ENTRIES_def)

lemma replicate_16: "replicate 16 x = x # replicate 15 x"
  by (simp add: numeral_eq_Suc)

lemma sample_opens: "sys_reachable run_opened"
proof -
  have v: "validate_state sample_installed = Inr ()"
    using retry_reachable_valid sample_second_reachable by (simp add: sample_run_defs)
  have "sys_ing run_opened = snd (install_opened_retry sample_installed (ingress_new (sample_id 1) sample_reservation sample_options))"
    by (simp add: install_opened_retry_def ingress_new_def active_count_def MAX_OUTSTANDING_COMMANDS_def run_defs replicate_16
        sample_installed_def retry_empty_persisted_def retry_empty_def)
  then show ?thesis
    using stepped [OF sample_started sys_step.opened [OF v]] by (simp add: system_new_def run_defs)
qed

lemma sample_scan [simp]: "scan_slots q (replicate n None) = ScanDistinct"
  by (induction n) simp_all

lemma sample_reserves:
  "submit_reserve (admission_frame_len_v1 (cmd_admission sample_command)) sample_command (sys_ing run_opened) =
    (Reserved 0 (length sample_frame) 0, sys_ing run_reserved)"
proof -
  have "state_classify sample_installed sample_retry = MatchFresh"
    by (simp add: sample_installed_def retry_empty_persisted_def state_classify_def)
  moreover have "length sample_frame \<le> usize_max" by (rule sample_frame_fits)
  ultimately show ?thesis
    using sample_frame_len(2)
    by (simp add: submit_reserve_def run_defs Let_def active_count_def MAX_OUTSTANDING_COMMANDS_def can_reserve_def
        usize_checked_add_def class_ceiling_def sample_reservation_def sample_slot_def new_slot_def del: sample_frame_len(2))
qed

lemma sample_reserved_reachable: "sys_reachable run_reserved"
  using stepped [OF sample_opens sys_step.submit_reserved [OF sample_reserves]] by (simp add: run_defs sample_ctx_def)

lemma sample_queues:
  "submit_finish 0 (length sample_frame) 0 sample_command (sys_ing run_reserved) =
    (Inr \<lparr>sub_disposition = DispositionQueued, sub_receipt = 0\<rparr>, sys_ing run_queued)"
  using sample_frame_len(3)
  by (simp add: submit_finish_def submit_enqueue_def run_defs Let_def sample_prepared_def in_phase_def slot_at_def sample_slot_def new_slot_def
      fixed_queue_can_push_def fixed_queue_new_def MAX_OUTSTANDING_COMMANDS_def sample_queued_def)

lemma sample_queued_reachable: "sys_reachable run_queued"
proof -
  have "sample_ctx \<in> set (sys_submits run_reserved)" by (simp add: run_reserved_def)
  from stepped [OF sample_reserved_reachable sys_step.submit_finished [OF this]] show ?thesis
    using sample_queues by (simp add: sample_ctx_def) (simp add: run_reserved_def run_queued_def sample_ctx_def)
qed

lemma sample_pops: "fixed_queue_pop sample_queued = (Some 0, sample_taken)"
  by (simp add: sample_taken_def sample_queued_def fixed_queue_pop_def fixed_queue_push_def fixed_queue_new_def MAX_OUTSTANDING_COMMANDS_def Let_def)

lemma sample_takes:
  "take_next (sys_ing run_queued) = (NextTaken sample_prepared 0 PriorityNormal BarrierGroup, sys_ing run_taken)"
  by (simp add: take_next_def run_defs sample_pops slot_at_def sample_slot_def new_slot_def Let_def)

lemma sample_taken_reachable: "sys_reachable run_taken"
  using stepped [OF sample_queued_reachable sys_step.taken] sample_takes by (simp add: run_queued_def run_taken_def)

lemma sample_candidate: "publication_candidate sample_admission = Some sample_published"
  by (simp add: sample_published_def publication_candidate_def sample_admission_def sample_envelope_def env_observations_def
      sample_observation_def Let_def)

lemma sample_stages:
  "prepare_publication 0 (publication_candidate sample_admission) (sys_ing run_taken) =
    (Inr (PreparedAdvance sample_base sample_next), sys_ing run_staged)"
  by (simp add: prepare_publication_def run_defs in_phase_def slot_at_def sample_candidate latest_plan_def latest_new_def snapshot_empty_def
      MAX_PUBLISHED_SERIES_def map_ok_def plan_stage_def stage_entries_def sample_base_def sample_next_def snapshot_from_entries_def)

lemma sample_staged_reachable: "sys_reachable run_staged"
  using stepped [OF sample_taken_reachable sys_step.staged [OF sample_stages]] by (simp add: run_taken_def run_staged_def)

lemma sample_handles:
  "complete_handled 0 sample_admission sample_append (PreparedAdvance sample_base sample_next) FaultNone (sys_ing run_staged) =
    (True, sys_ing run_handled)"
  by (simp add: complete_handled_def run_defs in_phase_def slot_at_def latest_can_complete_def latest_new_def shares_entries_with_def
      sample_base_def latest_commit_def Let_def resolve_handled_def sample_slot_def new_slot_def receipt_new_def handled_slot_def
      handled_receipt_def)

lemma sample_handled_step: "sys_step run_staged run_handled"
proof -
  have "PreparedAdvance sample_base sample_next \<in> set (sys_staged run_staged)" by (simp add: run_staged_def)
  from sys_step.handled [OF this, of 0 sample_admission sample_append FaultNone] show ?thesis
    using sample_handles by (simp add: run_staged_def run_handled_def)
qed

lemma sample_handled_reachable: "sys_reachable run_handled"
  by (rule stepped [OF sample_staged_reachable sample_handled_step])

lemma sample_verifies:
  "verifies_transition sample_installed sample_durable_retry (batch_transition [sample_entry]) (sample_commit 2 1 1 100)"
  by (simp add: verifies_transition_def sample_durable_retry_def batch_transition_def sample_entry_def sample_append_def sample_run_defs)

lemma sample_commits_batch:
  "complete_durable_batch [sample_entry] (sample_commit 2 1 1 100) sample_durable_retry (sys_ing run_handled) = (True, sys_ing run_durable)"
proof -
  have "batch_entry_ok (sys_ing run_handled) (sample_commit 2 1 1 100) sample_entry"
    by (simp add: batch_entry_ok_def run_defs slot_at_def sample_entry_def handled_slot_def sample_slot_def new_slot_def Let_def
        sample_append_def handled_receipt_def receipt_new_def sample_commit_def cutoff_from_manifest_def)
  then show ?thesis
    using sample_verifies
    by (simp add: complete_durable_batch_def)
      (simp add: run_defs sample_durable_retry_def sample_installed_def retry_empty_persisted_def sample_commit_def Let_def slot_at_def
        sample_entry_def handled_slot_def sample_slot_def new_slot_def resolve_durable_def handled_receipt_def receipt_new_def)
qed

lemma sample_durable_step: "sys_step run_handled run_durable"
  using sys_step.committed [of run_handled "[sample_entry]" "sample_commit 2 1 1 100" sample_durable_retry] sample_commits_batch
  by (simp add: run_handled_def run_durable_def)

lemma sample_durable_steps: "sys_steps run_handled run_durable"
  using sample_durable_step by (rule r_into_rtranclp)

lemma sample_durable_reachable: "sys_reachable run_durable"
  by (rule stepped [OF sample_handled_reachable sample_durable_step])

section \<open>Witnesses\<close>

theorem protected_reserve_honoured_witness:
  "ing_reserved_bytes (sys_ing run_reserved) = length sample_frame \<and> can_reserve (sys_ing run_reserved) PriorityProtected 8388632"
proof -
  have "slot_sum protected_bytes (ing_slots (sys_ing run_reserved)) = 0"
    "brl_protected_reserve (ing_byte_limits (sys_ing run_reserved)) = 8388632"
    "ing_reserved_bytes (sys_ing run_reserved) = length sample_frame"
    by (simp_all add: run_defs slot_sum_def protected_bytes_def sample_slot_def new_slot_def sum_list_replicate sample_reservation_def)
  then show ?thesis using protected_reserve_honoured [OF sample_reserved_reachable] by (simp add: Let_def)
qed

theorem retry_scopes_exclusive_witness:
  "slot_at (sys_ing run_handled) 0 \<noteq> None \<and> state_classify (ing_retry (sys_ing run_handled)) sample_retry = MatchFresh"
proof -
  obtain x where x: "slot_at (sys_ing run_handled) 0 = Some x" "slot_qualification x = sample_retry"
    by (simp add: run_defs slot_at_def handled_slot_def sample_slot_def new_slot_def)
  then show ?thesis using retry_scopes_exclusive [OF sample_handled_reachable x(1) x(1)] by simp
qed

theorem receipts_written_once_witness:
  "rcp_handled (ing_receipts (sys_ing run_durable) ! 0) = Some (WriterHandled sample_append) \<and>
   resolved (ing_receipts (ingress_stop (sys_ing run_durable)) ! 0)"
proof -
  have "0 < length (ing_receipts (sys_ing run_handled))" by (simp add: run_defs)
  moreover have "rcp_handled (ing_receipts (sys_ing run_handled) ! 0) = Some (WriterHandled sample_append)"
    by (simp add: run_defs handled_receipt_def)
  ultimately show ?thesis
    using receipts_written_once [OF sample_handled_reachable sample_durable_steps, of 0] by simp
qed

theorem durable_batch_atomic_witness:
  "batch_accepted [sample_entry] (sample_commit 2 1 1 100) sample_durable_retry (sys_ing run_handled) \<and>
   slot_at (sys_ing run_handled) 0 \<noteq> None \<and> slot_at (sys_ing run_durable) 0 = None"
  using durable_batch_atomic [OF sample_handled_reachable sample_commits_batch] by (auto simp: sample_entry_def)

lemma sample_queue_contents: "ring_contents (ing_queue (sys_ing run_queued)) = [0]"
  using ring.push_contents [OF ring.empty_ok, of 0] ring.empty_contents
  by (simp add: run_defs sample_queued_def fixed_queue_can_push_def fixed_queue_new_def MAX_OUTSTANDING_COMMANDS_def)

theorem take_next_in_order_witness:
  "\<exists>prepared priority barrier. fst (take_next (sys_ing run_queued)) = NextTaken prepared 0 priority barrier \<and>
     in_phase (snd (take_next (sys_ing run_queued))) 0 InFlight"
  using take_next_in_order [OF sample_queued_reachable _ sample_queue_contents] by (auto simp: run_defs)

theorem reservation_is_queued_witness:
  "\<exists>st. submit_finish 0 (length sample_frame) 0 sample_command (sys_ing run_reserved) =
     (Inr \<lparr>sub_disposition = DispositionQueued, sub_receipt = 0\<rparr>, st) \<and> in_phase st 0 SlotQueued"
proof -
  have "sample_ctx \<in> set (sys_submits run_reserved)" "\<not> ing_poisoned (sys_ing run_reserved)"
    "slot_at (sys_ing run_reserved) (ctx_slot sample_ctx) \<noteq> None" "admission_ok (cmd_admission (ctx_command sample_ctx))"
    by (simp_all add: run_defs slot_at_def sample_ctx_def)
  from reservation_is_queued [OF sample_reserved_reachable this] show ?thesis by (auto simp: sample_ctx_def)
qed

theorem latest_never_regresses_witness:
  "\<exists>f. snapshot_get sample_next (md_series_id (pub_series sample_published)) = Some f \<and>
     (pub_position sample_published < pub_position f \<or> f = sample_published)"
proof -
  have "lat_current (ing_latest (sys_ing run_handled)) = Some sample_next" "lat_current (ing_latest (sys_ing run_durable)) = Some sample_next"
    "sample_published \<in> set (ls_entries sample_next)"
    by (simp_all add: run_defs sample_next_def snapshot_from_entries_def)
  from latest_never_regresses [OF sample_handled_reachable sample_durable_steps this] show ?thesis by blast
qed

lemma sample_submits:
  "try_submit sample_command (sys_ing run_opened) = (Inr \<lparr>sub_disposition = DispositionQueued, sub_receipt = 0\<rparr>, sys_ing run_queued)"
proof -
  have "submit_precheck sample_command (sys_ing run_opened) = (Inr (), sys_ing run_opened)"
    by (simp add: submit_precheck_def run_defs)
  then show ?thesis using sample_reserves sample_queues by (simp add: try_submit_def)
qed

theorem resubmission_coalesces_witness:
  "try_submit sample_command (sys_ing run_queued) = (Inr \<lparr>sub_disposition = DispositionCoalesced, sub_receipt = 0\<rparr>, sys_ing run_queued)"
  using resubmission_coalesces [OF sample_submits] by simp

theorem committed_command_replayed_witness:
  "fst (try_submit sample_command (sys_ing run_durable)) = Inr \<lparr>sub_disposition = DispositionReplayed, sub_receipt = 1\<rparr>"
proof -
  let ?o = "replay_of (sample_commit 2 1 1 100) \<lparr>pro_qualification = sample_retry, pro_append_sequence = 1, pro_end_offset = 100\<rparr>"
  have "\<not> ing_poisoned (sys_ing run_durable)" "\<not> ing_closed (sys_ing run_durable)" "admission_ok (cmd_admission sample_command)"
    "adm_store_id (cmd_admission sample_command) = ing_store_id (sys_ing run_durable)"
    "?o \<in> set (rss_replay (ing_retry (sys_ing run_durable)))" "adm_retry (cmd_admission sample_command) = rro_qualification ?o"
    by (simp_all add: run_defs sample_durable_retry_def replay_of_def)
  from committed_command_replayed [OF sample_durable_reachable this] show ?thesis by (simp add: run_defs)
qed

end
