(* ===== verification/Och_Segment.thy ===== *)
theory Och_Segment
  imports Och_Generation Och_Artifact Och_BTreeMap
begin

text \<open>
  Native Segment V1 candidates (\<^verbatim>\<open>och-store/src/segment.rs\<close>): a sealed raw journal regrouped by series, with
  a series directory, a directory of appends and a directory of observations, newest first.  Building
  writes into one zeroed buffer, as the code does; parsing validates hostile bytes; a query selects
  observations of one series.
\<close>

section \<open>Constants\<close>

definition MAX_ACTIVE_JOURNAL_RECORDS :: nat where "MAX_ACTIVE_JOURNAL_RECORDS = 4096"
definition SEGMENT_V1_MAGIC :: bytes where
  "SEGMENT_V1_MAGIC = [0x4F, 0x43, 0x48, 0x53, 0x45, 0x47, 0x30, 0x31]"
definition SEGMENT_V1_VERSION :: u16 where "SEGMENT_V1_VERSION = 1"
definition SEGMENT_V1_HEADER_LEN :: nat where "SEGMENT_V1_HEADER_LEN = 192"
definition SEGMENT_V1_SERIES_ENTRY_LEN :: nat where "SEGMENT_V1_SERIES_ENTRY_LEN = 64"
definition SEGMENT_V1_APPEND_ENTRY_LEN :: nat where "SEGMENT_V1_APPEND_ENTRY_LEN = 48"
definition SEGMENT_V1_OBSERVATION_ENTRY_LEN :: nat where "SEGMENT_V1_OBSERVATION_ENTRY_LEN = 96"
definition SEGMENT_V1_CRC_LEN :: nat where "SEGMENT_V1_CRC_LEN = 4"
definition MAX_SEGMENT_V1_SERIES :: nat where "MAX_SEGMENT_V1_SERIES = MAX_ACTIVE_JOURNAL_RECORDS"
definition MAX_SEGMENT_V1_OBSERVATIONS :: nat where
  "MAX_SEGMENT_V1_OBSERVATIONS = MAX_ACTIVE_JOURNAL_RECORDS * MAX_SOURCE_OBSERVATION_CONTEXTS"
definition MAX_SEGMENT_V1_BYTES :: u64 where
  "MAX_SEGMENT_V1_BYTES = of_nat SEGMENT_V1_HEADER_LEN
     + of_nat SEGMENT_V1_SERIES_ENTRY_LEN * of_nat MAX_SEGMENT_V1_SERIES
     + (MAX_ACTIVE_JOURNAL_BYTES - of_nat JOURNAL_V1_HEADER_LEN)
     + of_nat SEGMENT_V1_APPEND_ENTRY_LEN * of_nat MAX_ACTIVE_JOURNAL_RECORDS
     + of_nat SEGMENT_V1_OBSERVATION_ENTRY_LEN * of_nat MAX_SEGMENT_V1_OBSERVATIONS
     + of_nat SEGMENT_V1_CRC_LEN"
definition MAX_SEGMENT_QUERY_RESULTS_V1 :: nat where "MAX_SEGMENT_QUERY_RESULTS_V1 = 16"
definition SEGMENT_FLAGS_NONE :: u32 where "SEGMENT_FLAGS_NONE = 0"

lemmas segment_consts = MAX_ACTIVE_JOURNAL_RECORDS_def SEGMENT_V1_VERSION_def SEGMENT_V1_HEADER_LEN_def
  SEGMENT_V1_SERIES_ENTRY_LEN_def SEGMENT_V1_APPEND_ENTRY_LEN_def SEGMENT_V1_OBSERVATION_ENTRY_LEN_def
  SEGMENT_V1_CRC_LEN_def MAX_SEGMENT_V1_SERIES_def MAX_SEGMENT_V1_OBSERVATIONS_def SEGMENT_FLAGS_NONE_def
  MAX_SOURCE_OBSERVATION_CONTEXTS_def MAX_OBSERVATIONS_def MAX_ACTIVE_JOURNAL_BYTES_def JOURNAL_V1_HEADER_LEN_def

section \<open>Data\<close>

text \<open>The variant \<open>Io\<close> is only built by the file-reading caller.\<close>

datatype SegmentV1Error = SegmentInvalidSource | SegmentInvalid | SegmentStoreMismatch | SegmentBounds

primrec segment_error_display :: "SegmentV1Error \<Rightarrow> string" where
  "segment_error_display SegmentInvalidSource = ''invalid sealed Journal V1 source''"
| "segment_error_display SegmentInvalid = ''invalid Native Segment V1 bytes''"
| "segment_error_display SegmentStoreMismatch = ''Native Segment V1 store identity mismatch''"
| "segment_error_display SegmentBounds = ''Native Segment V1 hard bound exceeded''"

datatype SegmentObservationQueryV1Error = QueryInvalidLimit | QueryInconsistentSegment

primrec query_error_display :: "SegmentObservationQueryV1Error \<Rightarrow> string" where
  "query_error_display QueryInvalidLimit = ''invalid Native Segment V1 query result limit''"
| "query_error_display QueryInconsistentSegment = ''inconsistent Native Segment V1 query evidence''"

record SegmentObservationQueryV1 =
  sq_series_id :: SeriesId
  sq_interval :: "TimeInterval option"
  sq_limit :: nat

definition segment_query_new ::
  "SeriesId \<Rightarrow> TimeInterval option \<Rightarrow> nat \<Rightarrow> (SegmentObservationQueryV1Error, SegmentObservationQueryV1) result" where
  "segment_query_new series_id interval limit =
     (if limit = 0 \<or> limit > MAX_SEGMENT_QUERY_RESULTS_V1 then Inl QueryInvalidLimit
      else Inr \<lparr>sq_series_id = series_id, sq_interval = interval, sq_limit = limit\<rparr>)"

record SegmentV1Inspection =
  ins_store_id :: StoreId
  ins_source_journal_generation :: u64
  ins_sequence_floor :: u64
  ins_sequence_cutoff :: u64
  ins_source_registry_generation :: u64
  ins_source_end_offset :: u64
  ins_source_artifact_length :: u64
  ins_source_artifact_checksum :: u32
  ins_frame_count :: nat
  ins_series_count :: nat
  ins_observation_count :: nat
  ins_series_directory_offset :: u64
  ins_series_directory_length :: u64
  ins_block_region_offset :: u64
  ins_block_region_length :: u64
  ins_append_directory_offset :: u64
  ins_append_directory_length :: u64
  ins_recent_directory_offset :: u64
  ins_recent_directory_length :: u64
  ins_artifact_length :: u64
  ins_artifact_checksum :: u32

record PreparedSegmentV1 =
  ps_bytes :: bytes
  ps_inspection :: SegmentV1Inspection

record SegmentSeriesEntryV1 =
  se_series_id :: SeriesId
  se_block_offset :: u64
  se_block_length :: u64
  se_frame_count :: u32
  se_observation_count :: u32
  se_recent_offset :: u64
  se_recent_length :: u64

record SegmentAppendEntryV1 =
  ae_append_sequence :: u64
  ae_series_id :: SeriesId
  ae_frame_offset :: u64
  ae_frame_length :: u64
  ae_frame_ordinal :: u32

record SegmentObservationEntryV1 =
  oe_series_id :: SeriesId
  oe_raw_order_key :: RawObservationOrderKey
  oe_append_sequence :: u64
  oe_observation_ordinal :: u32
  oe_frame_ordinal :: u32
  oe_frame_offset :: u64
  oe_frame_length :: u64

record SegmentV1 =
  seg_bytes :: bytes
  seg_inspection :: SegmentV1Inspection
  seg_series :: "SegmentSeriesEntryV1 list"
  seg_appends :: "SegmentAppendEntryV1 list"
  seg_observations :: "SegmentObservationEntryV1 list"

record SourceObservation =
  sob_raw_order_key :: RawObservationOrderKey
  sob_ordinal :: u32

record SourceFrame =
  sf_append_sequence :: u64
  sf_source_offset :: nat
  sf_length :: nat
  sf_observations :: "SourceObservation list"

record FrameLocation =
  fl_append_sequence :: u64
  fl_series_id :: SeriesId
  fl_frame_offset :: u64
  fl_frame_length :: u64
  fl_frame_ordinal :: u32

record ObservationLocation =
  ol_series_id :: SeriesId
  ol_raw_order_key :: RawObservationOrderKey
  ol_append_sequence :: u64
  ol_observation_ordinal :: u32
  ol_frame_ordinal :: u32
  ol_frame_offset :: u64
  ol_frame_length :: u64

record Layout =
  ly_series_offset :: nat
  ly_series_length :: nat
  ly_blocks_offset :: nat
  ly_blocks_length :: nat
  ly_append_offset :: nat
  ly_append_length :: nat
  ly_recent_offset :: nat
  ly_recent_length :: nat
  ly_artifact_length :: nat

section \<open>Conversions and fields\<close>

text \<open>\<open>usize\<close> and \<open>u64\<close> have the same range, so \<open>usize::try_from(u64)\<close> is \<open>unat\<close> and cannot fail.\<close>

definition usize_checked_mul :: "nat \<Rightarrow> nat \<Rightarrow> nat option" where
  "usize_checked_mul a b = (if a * b \<le> usize_max then Some (a * b) else None)"

definition to_u32 :: "nat \<Rightarrow> (SegmentV1Error, u32) result" where
  "to_u32 n = (if n < 2 ^ 32 then Inr (of_nat n) else Inl SegmentBounds)"

definition to_u64 :: "nat \<Rightarrow> (SegmentV1Error, u64) result" where
  "to_u64 n = (if n < 2 ^ 64 then Inr (of_nat n) else Inl SegmentBounds)"

definition field_at :: "nat \<Rightarrow> nat \<Rightarrow> bytes \<Rightarrow> bytes option" where
  "field_at n offset bs = Option.bind (usize_checked_add offset n) (\<lambda>stop.
     if stop \<le> length bs then Some (slice offset stop bs) else None)"

definition segment_read_u16 :: "bytes \<Rightarrow> nat \<Rightarrow> u16 option" where
  "segment_read_u16 bs offset = map_option (\<lambda>f. of_nat (be_decode f)) (field_at 2 offset bs)"
definition segment_read_u32 :: "bytes \<Rightarrow> nat \<Rightarrow> u32 option" where
  "segment_read_u32 bs offset = map_option (\<lambda>f. of_nat (be_decode f)) (field_at 4 offset bs)"
definition segment_read_u64 :: "bytes \<Rightarrow> nat \<Rightarrow> u64 option" where
  "segment_read_u64 bs offset = map_option (\<lambda>f. of_nat (be_decode f)) (field_at 8 offset bs)"
definition segment_read_i64 :: "bytes \<Rightarrow> nat \<Rightarrow> i64 option" where
  "segment_read_i64 bs offset = map_option (\<lambda>f. of_nat (be_decode f)) (field_at 8 offset bs)"

definition segment_read_count :: "bytes \<Rightarrow> nat \<Rightarrow> nat \<Rightarrow> (SegmentV1Error, nat) result" where
  "segment_read_count bs offset maximum =
     and_then (ok_or SegmentInvalid (map_option unat (segment_read_u32 bs offset))) (\<lambda>count.
       if count > maximum then Inl SegmentBounds else Inr count)"

definition put_u16 :: "nat \<Rightarrow> u16 \<Rightarrow> bytes \<Rightarrow> bytes" where
  "put_u16 offset v bs = write_at offset (be_encode 2 (unat v)) bs"
definition put_u32 :: "nat \<Rightarrow> u32 \<Rightarrow> bytes \<Rightarrow> bytes" where
  "put_u32 offset v bs = write_at offset (be_encode 4 (unat v)) bs"
definition put_u64 :: "nat \<Rightarrow> u64 \<Rightarrow> bytes \<Rightarrow> bytes" where
  "put_u64 offset v bs = write_at offset (be_encode 8 (unat v)) bs"

definition segment_checked_slice :: "bytes \<Rightarrow> u64 \<Rightarrow> u64 \<Rightarrow> bytes option" where
  "segment_checked_slice bs offset len = field_at (unat len) (unat offset) bs"

definition get_range :: "nat \<Rightarrow> nat \<Rightarrow> 'a list \<Rightarrow> 'a list option" where
  "get_range i j xs = (if i \<le> j \<and> j \<le> length xs then Some (slice i j xs) else None)"

section \<open>Sorting and searching\<close>

text \<open>\<open>sort_by\<close> is stable; \<open>le\<close> says that the comparison is not \<open>Greater\<close>.\<close>

fun insort_by :: "('a \<Rightarrow> 'a \<Rightarrow> bool) \<Rightarrow> 'a \<Rightarrow> 'a list \<Rightarrow> 'a list" where
  "insort_by le x [] = [x]"
| "insort_by le x (y # ys) = (if le x y then x # y # ys else y # insort_by le x ys)"

definition sort_by :: "('a \<Rightarrow> 'a \<Rightarrow> bool) \<Rightarrow> 'a list \<Rightarrow> 'a list" where
  "sort_by le xs = foldr (insort_by le) xs []"

definition recent_le :: "ObservationLocation \<Rightarrow> ObservationLocation \<Rightarrow> bool" where
  "recent_le l r \<longleftrightarrow> ol_raw_order_key r < ol_raw_order_key l \<or> ol_raw_order_key r = ol_raw_order_key l \<and>
     (ol_append_sequence r < ol_append_sequence l \<or> ol_append_sequence r = ol_append_sequence l \<and>
       ol_observation_ordinal l \<le> ol_observation_ordinal r)"

definition series_recent_le :: "ObservationLocation \<Rightarrow> ObservationLocation \<Rightarrow> bool" where
  "series_recent_le l r \<longleftrightarrow> ol_series_id l < ol_series_id r \<or> ol_series_id l = ol_series_id r \<and> recent_le l r"

text \<open>\<open>slice::binary_search_by_key\<close>, by halving a window of the given size.\<close>

function bsearch_base :: "('a \<Rightarrow> 'k::linorder) \<Rightarrow> 'k \<Rightarrow> 'a list \<Rightarrow> nat \<Rightarrow> nat \<Rightarrow> nat" where
  "bsearch_base f k xs base size' =
     (if size' > 1
      then let half = size' div 2; mid = base + half in
        bsearch_base f k xs (if f (xs ! mid) > k then base else mid) (size' - half)
      else base)"
  by pat_completeness auto
termination by (relation "measure (\<lambda>(f, k, xs, base, size'). size')") auto

declare bsearch_base.simps [simp del]

definition binary_search_by_key :: "('a \<Rightarrow> 'k::linorder) \<Rightarrow> 'k \<Rightarrow> 'a list \<Rightarrow> nat option" where
  "binary_search_by_key f k xs =
     (if xs = [] then None
      else let base = bsearch_base f k xs 0 (length xs) in
        if f (xs ! base) = k then Some base else None)"

section \<open>Layout and entries\<close>

definition layout_new :: "nat \<Rightarrow> nat \<Rightarrow> nat \<Rightarrow> nat \<Rightarrow> (SegmentV1Error, Layout) result" where
  "layout_new frame_count series_total observation_count blocks_length =
     (if frame_count = 0 \<or> frame_count > MAX_ACTIVE_JOURNAL_RECORDS \<or> series_total = 0
         \<or> series_total > MAX_SEGMENT_V1_SERIES \<or> series_total > frame_count
         \<or> observation_count > MAX_SEGMENT_V1_OBSERVATIONS \<or> blocks_length = 0
         \<or> blocks_length > unat (MAX_ACTIVE_JOURNAL_BYTES - of_nat JOURNAL_V1_HEADER_LEN)
      then Inl SegmentBounds
      else
        and_then (ok_or SegmentBounds (usize_checked_mul series_total SEGMENT_V1_SERIES_ENTRY_LEN)) (\<lambda>series_length.
        and_then (ok_or SegmentBounds (usize_checked_add SEGMENT_V1_HEADER_LEN series_length)) (\<lambda>blocks_offset.
        and_then (ok_or SegmentBounds (usize_checked_add blocks_offset blocks_length)) (\<lambda>append_offset.
        and_then (ok_or SegmentBounds (usize_checked_mul frame_count SEGMENT_V1_APPEND_ENTRY_LEN)) (\<lambda>append_length.
        and_then (ok_or SegmentBounds (usize_checked_add append_offset append_length)) (\<lambda>recent_offset.
        and_then (ok_or SegmentBounds (usize_checked_mul observation_count SEGMENT_V1_OBSERVATION_ENTRY_LEN)) (\<lambda>recent_length.
        and_then (ok_or SegmentBounds (Option.bind (usize_checked_add recent_offset recent_length)
            (\<lambda>n. usize_checked_add n SEGMENT_V1_CRC_LEN))) (\<lambda>artifact_length.
        if artifact_length > unat MAX_SEGMENT_V1_BYTES then Inl SegmentBounds
        else Inr \<lparr>ly_series_offset = SEGMENT_V1_HEADER_LEN, ly_series_length = series_length,
          ly_blocks_offset = blocks_offset, ly_blocks_length = blocks_length, ly_append_offset = append_offset,
          ly_append_length = append_length, ly_recent_offset = recent_offset, ly_recent_length = recent_length,
          ly_artifact_length = artifact_length\<rparr>))))))))"

definition segment_inspection ::
  "StoreId \<Rightarrow> SealedGeneration \<Rightarrow> nat \<Rightarrow> nat \<Rightarrow> nat \<Rightarrow> Layout \<Rightarrow> u32 \<Rightarrow> (SegmentV1Error, SegmentV1Inspection) result" where
  "segment_inspection store_id sealed frame_count series_total observation_count layout artifact_checksum =
     and_then (to_u64 (ly_series_offset layout)) (\<lambda>series_offset.
     and_then (to_u64 (ly_series_length layout)) (\<lambda>series_length.
     and_then (to_u64 (ly_blocks_offset layout)) (\<lambda>blocks_offset.
     and_then (to_u64 (ly_blocks_length layout)) (\<lambda>blocks_length.
     and_then (to_u64 (ly_append_offset layout)) (\<lambda>append_offset.
     and_then (to_u64 (ly_append_length layout)) (\<lambda>append_length.
     and_then (to_u64 (ly_recent_offset layout)) (\<lambda>recent_offset.
     and_then (to_u64 (ly_recent_length layout)) (\<lambda>recent_length.
     and_then (to_u64 (ly_artifact_length layout)) (\<lambda>artifact_length.
       Inr \<lparr>ins_store_id = store_id, ins_source_journal_generation = sealed_journal_generation sealed,
         ins_sequence_floor = sealed_sequence_floor sealed, ins_sequence_cutoff = sealed_sequence_cutoff sealed,
         ins_source_registry_generation = sealed_registry_generation sealed,
         ins_source_end_offset = sealed_end_offset sealed, ins_source_artifact_length = sealed_artifact_length sealed,
         ins_source_artifact_checksum = sealed_artifact_checksum sealed, ins_frame_count = frame_count,
         ins_series_count = series_total, ins_observation_count = observation_count,
         ins_series_directory_offset = series_offset, ins_series_directory_length = series_length,
         ins_block_region_offset = blocks_offset, ins_block_region_length = blocks_length,
         ins_append_directory_offset = append_offset, ins_append_directory_length = append_length,
         ins_recent_directory_offset = recent_offset, ins_recent_directory_length = recent_length,
         ins_artifact_length = artifact_length, ins_artifact_checksum = artifact_checksum\<rparr>)))))))))"

definition segment_encode_header ::
  "StoreId \<Rightarrow> SealedGeneration \<Rightarrow> nat \<Rightarrow> nat \<Rightarrow> nat \<Rightarrow> Layout \<Rightarrow> bytes \<Rightarrow> (SegmentV1Error, bytes) result" where
  "segment_encode_header store_id sealed frame_count series_total observation_count layout b0 =
     (let b1 = write_at 0 SEGMENT_V1_MAGIC b0;
          b2 = put_u16 8 SEGMENT_V1_VERSION b1;
          b3 = put_u16 10 (of_nat SEGMENT_V1_HEADER_LEN) b2;
          b4 = write_at 16 (id_bytes store_id) b3;
          b5 = put_u64 32 (sealed_journal_generation sealed) b4;
          b6 = put_u64 40 (sealed_sequence_floor sealed) b5;
          b7 = put_u64 48 (sealed_sequence_cutoff sealed) b6;
          b8 = put_u64 56 (sealed_registry_generation sealed) b7;
          b9 = put_u64 64 (sealed_end_offset sealed) b8;
          b10 = put_u64 72 (sealed_artifact_length sealed) b9;
          b11 = put_u32 80 (sealed_artifact_checksum sealed) b10 in
      and_then (to_u32 frame_count) (\<lambda>frames.
      and_then (to_u32 series_total) (\<lambda>series.
      and_then (to_u32 observation_count) (\<lambda>observations.
      and_then (to_u64 (ly_series_offset layout)) (\<lambda>series_offset.
      and_then (to_u64 (ly_series_length layout)) (\<lambda>series_length.
      and_then (to_u64 (ly_blocks_offset layout)) (\<lambda>blocks_offset.
      and_then (to_u64 (ly_blocks_length layout)) (\<lambda>blocks_length.
      and_then (to_u64 (ly_append_offset layout)) (\<lambda>append_offset.
      and_then (to_u64 (ly_append_length layout)) (\<lambda>append_length.
      and_then (to_u64 (ly_recent_offset layout)) (\<lambda>recent_offset.
      and_then (to_u64 (ly_recent_length layout)) (\<lambda>recent_length.
      and_then (to_u64 (ly_artifact_length layout)) (\<lambda>artifact_length.
      let b12 = put_u32 84 frames b11;
          b13 = put_u32 88 series b12;
          b14 = put_u32 92 observations b13;
          b15 = put_u64 96 series_offset b14;
          b16 = put_u64 104 series_length b15;
          b17 = put_u64 112 blocks_offset b16;
          b18 = put_u64 120 blocks_length b17;
          b19 = put_u64 128 append_offset b18;
          b20 = put_u64 136 append_length b19;
          b21 = put_u64 144 recent_offset b20;
          b22 = put_u64 152 recent_length b21
      in Inr (put_u64 160 artifact_length b22))))))))))))))"

definition encode_series_entry :: "SegmentSeriesEntryV1 \<Rightarrow> bytes \<Rightarrow> bytes" where
  "encode_series_entry entry b0 =
     (let b1 = write_at 0 (id_bytes (se_series_id entry)) b0;
          b2 = put_u64 16 (se_block_offset entry) b1;
          b3 = put_u64 24 (se_block_length entry) b2;
          b4 = put_u32 32 (se_frame_count entry) b3;
          b5 = put_u32 36 (se_observation_count entry) b4;
          b6 = put_u64 40 (se_recent_offset entry) b5
      in put_u64 48 (se_recent_length entry) b6)"

definition decode_series_entry :: "bytes \<Rightarrow> (SegmentV1Error, SegmentSeriesEntryV1) result" where
  "decode_series_entry bs =
     (if length bs \<noteq> SEGMENT_V1_SERIES_ENTRY_LEN \<or> list_ex (\<lambda>b. b \<noteq> 0) (slice 56 64 bs) then Inl SegmentInvalid
      else
        and_then (map_err (\<lambda>_. SegmentInvalid) (identity_from_bytes (slice 0 16 bs))) (\<lambda>series_id.
        and_then (ok_or SegmentInvalid (segment_read_u64 bs 16)) (\<lambda>block_offset.
        and_then (ok_or SegmentInvalid (segment_read_u64 bs 24)) (\<lambda>block_length.
        and_then (ok_or SegmentInvalid (segment_read_u32 bs 32)) (\<lambda>frame_count.
        and_then (ok_or SegmentInvalid (segment_read_u32 bs 36)) (\<lambda>observation_count.
        and_then (ok_or SegmentInvalid (segment_read_u64 bs 40)) (\<lambda>recent_offset.
        and_then (ok_or SegmentInvalid (segment_read_u64 bs 48)) (\<lambda>recent_length.
          Inr \<lparr>se_series_id = series_id, se_block_offset = block_offset, se_block_length = block_length,
            se_frame_count = frame_count, se_observation_count = observation_count,
            se_recent_offset = recent_offset, se_recent_length = recent_length\<rparr>))))))))"

definition encode_append_entry :: "FrameLocation \<Rightarrow> bytes \<Rightarrow> bytes" where
  "encode_append_entry entry b0 =
     (let b1 = put_u64 0 (fl_append_sequence entry) b0;
          b2 = write_at 8 (id_bytes (fl_series_id entry)) b1;
          b3 = put_u64 24 (fl_frame_offset entry) b2;
          b4 = put_u64 32 (fl_frame_length entry) b3
      in put_u32 40 (fl_frame_ordinal entry) b4)"

definition decode_append_entry :: "bytes \<Rightarrow> (SegmentV1Error, SegmentAppendEntryV1) result" where
  "decode_append_entry bs =
     (if length bs \<noteq> SEGMENT_V1_APPEND_ENTRY_LEN \<or> list_ex (\<lambda>b. b \<noteq> 0) (slice 44 48 bs) then Inl SegmentInvalid
      else
        and_then (ok_or SegmentInvalid (segment_read_u64 bs 0)) (\<lambda>append_sequence.
        and_then (map_err (\<lambda>_. SegmentInvalid) (identity_from_bytes (slice 8 24 bs))) (\<lambda>series_id.
        and_then (ok_or SegmentInvalid (segment_read_u64 bs 24)) (\<lambda>frame_offset.
        and_then (ok_or SegmentInvalid (segment_read_u64 bs 32)) (\<lambda>frame_length.
        and_then (ok_or SegmentInvalid (segment_read_u32 bs 40)) (\<lambda>frame_ordinal.
          Inr \<lparr>ae_append_sequence = append_sequence, ae_series_id = series_id, ae_frame_offset = frame_offset,
            ae_frame_length = frame_length, ae_frame_ordinal = frame_ordinal\<rparr>))))))"

definition encode_observation_entry :: "ObservationLocation \<Rightarrow> bytes \<Rightarrow> bytes" where
  "encode_observation_entry entry b0 =
     (let effective = key_effective (ol_raw_order_key entry);
          receive = key_receive (ol_raw_order_key entry);
          b1 = write_at 0 (id_bytes (ol_series_id entry)) b0;
          b2 = write_at 16 (be_encode 8 (unat (unix_seconds effective))) b1;
          b3 = put_u32 24 (nanosecond effective) b2;
          b4 = write_at 28 (be_encode 8 (unat (unix_seconds receive))) b3;
          b5 = put_u32 36 (nanosecond receive) b4;
          b6 = write_at 40 (id_bytes (key_observation_id (ol_raw_order_key entry))) b5;
          b7 = put_u64 56 (ol_append_sequence entry) b6;
          b8 = put_u32 64 (ol_observation_ordinal entry) b7;
          b9 = put_u32 68 (ol_frame_ordinal entry) b8;
          b10 = put_u64 72 (ol_frame_offset entry) b9
      in put_u64 80 (ol_frame_length entry) b10)"

definition decode_observation_entry ::
  "bytes \<Rightarrow> ObservationLocation \<Rightarrow> (SegmentV1Error, SegmentObservationEntryV1) result" where
  "decode_observation_entry bs expected =
     (if length bs \<noteq> SEGMENT_V1_OBSERVATION_ENTRY_LEN \<or> list_ex (\<lambda>b. b \<noteq> 0) (slice 88 96 bs) then Inl SegmentInvalid
      else
        and_then (map_err (\<lambda>_. SegmentInvalid) (identity_from_bytes (slice 0 16 bs))) (\<lambda>series_id.
        and_then (ok_or SegmentInvalid (segment_read_i64 bs 16)) (\<lambda>effective_seconds.
        and_then (ok_or SegmentInvalid (segment_read_u32 bs 24)) (\<lambda>effective_nanos.
        and_then (map_err (\<lambda>_. SegmentInvalid) (timestamp_new effective_seconds effective_nanos)) (\<lambda>effective.
        and_then (ok_or SegmentInvalid (segment_read_i64 bs 28)) (\<lambda>receive_seconds.
        and_then (ok_or SegmentInvalid (segment_read_u32 bs 36)) (\<lambda>receive_nanos.
        and_then (map_err (\<lambda>_. SegmentInvalid) (timestamp_new receive_seconds receive_nanos)) (\<lambda>receive.
        and_then (map_err (\<lambda>_. SegmentInvalid) (identity_from_bytes (slice 40 56 bs))) (\<lambda>observation_id.
        and_then (ok_or SegmentInvalid (segment_read_u64 bs 56)) (\<lambda>append_sequence.
        and_then (ok_or SegmentInvalid (segment_read_u32 bs 64)) (\<lambda>observation_ordinal.
        and_then (ok_or SegmentInvalid (segment_read_u32 bs 68)) (\<lambda>frame_ordinal.
        and_then (ok_or SegmentInvalid (segment_read_u64 bs 72)) (\<lambda>frame_offset.
        and_then (ok_or SegmentInvalid (segment_read_u64 bs 80)) (\<lambda>frame_length.
        let actual = \<lparr>oe_series_id = series_id, oe_raw_order_key = ol_raw_order_key expected,
              oe_append_sequence = append_sequence, oe_observation_ordinal = observation_ordinal,
              oe_frame_ordinal = frame_ordinal, oe_frame_offset = frame_offset, oe_frame_length = frame_length\<rparr> in
        if effective \<noteq> key_effective (ol_raw_order_key expected)
           \<or> receive \<noteq> key_receive (ol_raw_order_key expected)
           \<or> observation_id \<noteq> key_observation_id (ol_raw_order_key expected)
           \<or> oe_series_id actual \<noteq> ol_series_id expected
           \<or> oe_append_sequence actual \<noteq> ol_append_sequence expected
           \<or> oe_observation_ordinal actual \<noteq> ol_observation_ordinal expected
           \<or> oe_frame_ordinal actual \<noteq> ol_frame_ordinal expected
           \<or> oe_frame_offset actual \<noteq> ol_frame_offset expected
           \<or> oe_frame_length actual \<noteq> ol_frame_length expected
        then Inl SegmentInvalid else Inr actual))))))))))))))"

section \<open>Building\<close>

record SourceScan =
  ss_frames :: "SourceFrame list"
  ss_grouped :: "(SeriesId, nat list) btree_map"
  ss_offset :: nat
  ss_previous :: "AppendSequenceV1 option"
  ss_observations :: nat

fun source_observations :: "nat \<Rightarrow> Observation list \<Rightarrow> (SegmentV1Error, SourceObservation list) result" where
  "source_observations ordinal [] = Inr []"
| "source_observations ordinal (ob # obs) =
     and_then (to_u32 ordinal) (\<lambda>o'.
     and_then (source_observations (ordinal + 1) obs) (\<lambda>rest.
       Inr (\<lparr>sob_raw_order_key = raw_order_key ob, sob_ordinal = o'\<rparr> # rest)))"

text \<open>One turn of the scanning loop.\<close>

definition scan_frame :: "StoreId \<Rightarrow> bytes \<Rightarrow> SourceScan \<Rightarrow> (SegmentV1Error, SourceScan) result" where
  "scan_frame store_id source s =
     and_then (ok_or SegmentBounds (usize_checked_add (ss_offset s) JOURNAL_V1_FRAME_PREFIX_LEN)) (\<lambda>prefix_end.
     and_then (ok_or SegmentInvalidSource (get_range (ss_offset s) prefix_end source)) (\<lambda>prefix_bytes.
     and_then (map_err (\<lambda>_. SegmentInvalidSource) (frame_len_from_prefix_v1 prefix_bytes decode_limits_maximum)) (\<lambda>frame_length.
     and_then (ok_or SegmentBounds (usize_checked_add (ss_offset s) frame_length)) (\<lambda>frame_end.
     and_then (ok_or SegmentInvalidSource (get_range (ss_offset s) frame_end source)) (\<lambda>frame.
     and_then (map_err (\<lambda>_. SegmentInvalidSource) (decode_admission_frame_v1 frame decode_limits_maximum (ss_previous s))) (\<lambda>decoded.
     if da_store_id decoded \<noteq> store_id \<or> dd_store_id (da_declaration decoded) \<noteq> store_id then Inl SegmentStoreMismatch
     else
       let series_id = dd_series_id (da_declaration decoded) in
       if md_series_id (env_series (da_envelope decoded)) \<noteq> series_id \<or> rq_series_id (da_retry decoded) \<noteq> series_id
       then Inl SegmentInvalidSource
       else
         and_then (map_err (\<lambda>_. SegmentInvalidSource) (encode_decoded_admission_frame_v1 decoded)) (\<lambda>encoded.
         if encoded \<noteq> frame then Inl SegmentInvalidSource
         else
           and_then (source_observations 0 (env_observations (da_envelope decoded))) (\<lambda>observations.
           and_then (ok_or SegmentBounds (usize_checked_add (ss_observations s) (length observations))) (\<lambda>observation_count.
           if observation_count > MAX_SEGMENT_V1_OBSERVATIONS then Inl SegmentBounds
           else
             let index = length (ss_frames s);
                 group = (case bt_get (ss_grouped s) series_id of None \<Rightarrow> [] | Some g \<Rightarrow> g) in
             and_then (map_err (\<lambda>_. SegmentInvalidSource) (append_sequence_new (da_append_sequence decoded))) (\<lambda>previous.
               Inr \<lparr>ss_frames = ss_frames s @ [\<lparr>sf_append_sequence = da_append_sequence decoded,
                      sf_source_offset = ss_offset s, sf_length = frame_length, sf_observations = observations\<rparr>],
                    ss_grouped = bt_insert series_id (group @ [index]) (ss_grouped s),
                    ss_offset = frame_end, ss_previous = Some previous,
                    ss_observations = observation_count\<rparr>))))))))))"

text \<open>The loop; \<open>remaining\<close> is \<open>expected_count - source_frames.len()\<close>.\<close>

fun scan_source :: "StoreId \<Rightarrow> bytes \<Rightarrow> nat \<Rightarrow> SourceScan \<Rightarrow> (SegmentV1Error, SourceScan) result" where
  "scan_source store_id source remaining' s =
     (if \<not> ss_offset s < length source then Inr s
      else case remaining' of
        0 \<Rightarrow> Inl SegmentInvalidSource
      | Suc n \<Rightarrow> (case scan_frame store_id source s of
          Inl e \<Rightarrow> Inl e | Inr s' \<Rightarrow> scan_source store_id source n s'))"

declare scan_source.simps [simp del]

record SegmentWrite =
  sw_bytes :: bytes
  sw_block_cursor :: nat
  sw_recent_cursor :: nat
  sw_appends :: "FrameLocation list"

definition observation_locations ::
  "SeriesId \<Rightarrow> u64 \<Rightarrow> FrameLocation \<Rightarrow> SourceObservation list \<Rightarrow> ObservationLocation list" where
  "observation_locations series_id append_sequence location observations =
     map (\<lambda>ob. \<lparr>ol_series_id = series_id, ol_raw_order_key = sob_raw_order_key ob,
       ol_append_sequence = append_sequence, ol_observation_ordinal = sob_ordinal ob,
       ol_frame_ordinal = fl_frame_ordinal location, ol_frame_offset = fl_frame_offset location,
       ol_frame_length = fl_frame_length location\<rparr>) observations"

fun write_group_frames ::
  "bytes \<Rightarrow> SourceFrame list \<Rightarrow> SeriesId \<Rightarrow> nat \<Rightarrow> nat list \<Rightarrow> SegmentWrite \<times> ObservationLocation list \<Rightarrow>
   (SegmentV1Error, SegmentWrite \<times> ObservationLocation list) result" where
  "write_group_frames source frames series_id frame_ordinal [] (w, recent) = Inr (w, recent)"
| "write_group_frames source frames series_id frame_ordinal (index # indices) (w, recent) =
     (let source_frame = frames ! index;
          source_bytes = slice (sf_source_offset source_frame) (sf_source_offset source_frame + sf_length source_frame) source;
          frame_offset = sw_block_cursor w;
          bytes' = write_at frame_offset source_bytes (sw_bytes w) in
      case and_then (to_u64 frame_offset) (\<lambda>off.
           and_then (to_u64 (sf_length source_frame)) (\<lambda>len.
           and_then (to_u32 frame_ordinal) (\<lambda>ordinal.
             Inr \<lparr>fl_append_sequence = sf_append_sequence source_frame, fl_series_id = series_id,
               fl_frame_offset = off, fl_frame_length = len, fl_frame_ordinal = ordinal\<rparr>))) of
        Inl e \<Rightarrow> Inl e
      | Inr location \<Rightarrow>
          write_group_frames source frames series_id (frame_ordinal + 1) indices
            (w\<lparr>sw_bytes := bytes', sw_block_cursor := frame_offset + sf_length source_frame,
               sw_appends := sw_appends w @ [location]\<rparr>,
             recent @ observation_locations series_id (sf_append_sequence source_frame) location (sf_observations source_frame)))"

text \<open>\<open>encode_*(&mut bytes[i..i + n], ..)\<close>: encode into a sub-slice.\<close>

definition write_sub :: "nat \<Rightarrow> nat \<Rightarrow> (bytes \<Rightarrow> bytes) \<Rightarrow> bytes \<Rightarrow> bytes" where
  "write_sub i n f bs = write_at i (f (slice i (i + n) bs)) bs"

fun write_recent :: "ObservationLocation list \<Rightarrow> SegmentWrite \<Rightarrow> SegmentWrite" where
  "write_recent [] w = w"
| "write_recent (location # rest) w =
     write_recent rest
       (w\<lparr>sw_bytes := write_sub (sw_recent_cursor w) SEGMENT_V1_OBSERVATION_ENTRY_LEN (encode_observation_entry location) (sw_bytes w),
          sw_recent_cursor := sw_recent_cursor w + SEGMENT_V1_OBSERVATION_ENTRY_LEN\<rparr>)"

fun write_groups ::
  "bytes \<Rightarrow> SourceFrame list \<Rightarrow> Layout \<Rightarrow> nat \<Rightarrow> (SeriesId \<times> nat list) list \<Rightarrow> SegmentWrite \<Rightarrow>
   (SegmentV1Error, SegmentWrite) result" where
  "write_groups source frames layout series_index [] w = Inr w"
| "write_groups source frames layout series_index ((series_id, indices) # groups) w =
     (let directory_offset = ly_series_offset layout + series_index * SEGMENT_V1_SERIES_ENTRY_LEN;
          block_start = sw_block_cursor w;
          recent_start = sw_recent_cursor w in
      case write_group_frames source frames series_id 0 indices (w, []) of
        Inl e \<Rightarrow> Inl e
      | Inr (w1, unsorted) \<Rightarrow>
          let recent = sort_by recent_le unsorted;
              w2 = write_recent recent w1 in
          case and_then (to_u64 block_start) (\<lambda>block_offset.
               and_then (to_u64 (sw_block_cursor w2 - block_start)) (\<lambda>block_length.
               and_then (to_u32 (length indices)) (\<lambda>frame_count.
               and_then (to_u32 (length recent)) (\<lambda>observation_count.
               and_then (to_u64 recent_start) (\<lambda>recent_offset.
               and_then (to_u64 (sw_recent_cursor w2 - recent_start)) (\<lambda>recent_length.
                 Inr \<lparr>se_series_id = series_id, se_block_offset = block_offset, se_block_length = block_length,
                   se_frame_count = frame_count, se_observation_count = observation_count,
                   se_recent_offset = recent_offset, se_recent_length = recent_length\<rparr>)))))) of
            Inl e \<Rightarrow> Inl e
          | Inr entry \<Rightarrow>
              write_groups source frames layout (series_index + 1) groups
                (w2\<lparr>sw_bytes := write_sub directory_offset SEGMENT_V1_SERIES_ENTRY_LEN (encode_series_entry entry) (sw_bytes w2)\<rparr>))"

fun write_appends :: "Layout \<Rightarrow> nat \<Rightarrow> FrameLocation list \<Rightarrow> bytes \<Rightarrow> bytes" where
  "write_appends layout index [] bs = bs"
| "write_appends layout index (entry # entries) bs =
     write_appends layout (index + 1) entries
       (write_sub (ly_append_offset layout + index * SEGMENT_V1_APPEND_ENTRY_LEN) SEGMENT_V1_APPEND_ENTRY_LEN
          (encode_append_entry entry) bs)"

definition source_refused :: "SealedGeneration \<Rightarrow> bytes \<Rightarrow> bool" where
  "source_refused sealed source \<longleftrightarrow>
     sealed_journal_generation sealed = 0 \<or> sealed_registry_generation sealed = 0
     \<or> sealed_sequence_cutoff sealed \<le> sealed_sequence_floor sealed
     \<or> sealed_end_offset sealed \<noteq> sealed_artifact_length sealed
     \<or> sealed_artifact_length sealed \<noteq> of_nat (length source)
     \<or> sealed_end_offset sealed \<le> of_nat JOURNAL_V1_HEADER_LEN
     \<or> crc32c source \<noteq> sealed_artifact_checksum sealed"

text \<open>From the scanned source to the finished buffer.\<close>

definition write_segment ::
  "StoreId \<Rightarrow> SealedGeneration \<Rightarrow> bytes \<Rightarrow> SourceScan \<Rightarrow> Layout \<Rightarrow> (SegmentV1Error, PreparedSegmentV1) result" where
  "write_segment store_id sealed source s layout =
     (let frame_count = length (ss_frames s); series_total = bt_len (ss_grouped s) in
      and_then (segment_encode_header store_id sealed frame_count series_total (ss_observations s) layout
          (replicate (ly_artifact_length layout) 0)) (\<lambda>header_bytes.
      and_then (write_groups source (ss_frames s) layout 0 (ss_grouped s)
          \<lparr>sw_bytes = header_bytes, sw_block_cursor = ly_blocks_offset layout,
           sw_recent_cursor = ly_recent_offset layout, sw_appends = []\<rparr>) (\<lambda>w.
      if sw_block_cursor w \<noteq> ly_append_offset layout
         \<or> sw_recent_cursor w + SEGMENT_V1_CRC_LEN \<noteq> length (sw_bytes w)
      then Inl SegmentInvalidSource
      else
        let appends = sort_key fl_append_sequence (sw_appends w);
            body = write_appends layout 0 appends (sw_bytes w);
            checksum_offset = length body - SEGMENT_V1_CRC_LEN;
            artifact_checksum = crc32c (slice 0 checksum_offset body);
            final = write_at checksum_offset (be_encode 4 (unat artifact_checksum)) body in
        and_then (segment_inspection store_id sealed frame_count series_total (ss_observations s) layout artifact_checksum)
          (\<lambda>inspection. Inr \<lparr>ps_bytes = final, ps_inspection = inspection\<rparr>))))"

definition build_segment_v1 :: "StoreId \<Rightarrow> SealedGeneration \<Rightarrow> bytes \<Rightarrow> (SegmentV1Error, PreparedSegmentV1) result" where
  "build_segment_v1 store_id sealed source =
     (if length source > unat MAX_ACTIVE_JOURNAL_BYTES then Inl SegmentBounds
      else if source_refused sealed source then Inl SegmentInvalidSource
      else
        and_then (ok_or SegmentBounds (map_option unat (checked_sub (sealed_sequence_cutoff sealed) (sealed_sequence_floor sealed))))
          (\<lambda>expected_count.
        if expected_count = 0 \<or> expected_count > MAX_ACTIVE_JOURNAL_RECORDS then Inl SegmentBounds
        else
          and_then (ok_or SegmentInvalidSource (get_range 0 JOURNAL_V1_HEADER_LEN source)) (\<lambda>header.
          and_then (map_err (\<lambda>_. SegmentInvalidSource) (header_decode header)) (\<lambda>decoded_header.
          if header_store_id decoded_header \<noteq> store_id then Inl SegmentStoreMismatch
          else
            and_then (if sealed_sequence_floor sealed = 0 then Inr None
                else map_ok Some (map_err (\<lambda>_. SegmentInvalidSource) (append_sequence_new (sealed_sequence_floor sealed)))) (\<lambda>previous.
            and_then (scan_source store_id source expected_count
                \<lparr>ss_frames = [], ss_grouped = [], ss_offset = JOURNAL_V1_HEADER_LEN, ss_previous = previous, ss_observations = 0\<rparr>) (\<lambda>s.
            if ss_offset s \<noteq> length source \<or> length (ss_frames s) \<noteq> expected_count
               \<or> map_option append_get (ss_previous s) \<noteq> Some (sealed_sequence_cutoff sealed)
            then Inl SegmentInvalidSource
            else if length source < JOURNAL_V1_HEADER_LEN then Inl SegmentInvalidSource
            else
              and_then (layout_new (length (ss_frames s)) (bt_len (ss_grouped s)) (ss_observations s)
                  (length source - JOURNAL_V1_HEADER_LEN)) (\<lambda>layout.
                write_segment store_id sealed source s layout)))))))"

end
