(* ===== verification/Och_Segment_Read.thy ===== *)
theory Och_Segment_Read
  imports Och_Segment
begin

text \<open>
  Reading Native Segment V1 bytes (\<^verbatim>\<open>och-store/src/segment.rs\<close>, \<open>parse_segment_v1\<close> and the methods of \<open>SegmentV1\<close>):
  header, series directory, frames of every block, append directory, observation directory, and the
  bounded query.
\<close>

section \<open>Header\<close>

record SegmentHeader =
  sh_sealed :: SealedGeneration
  sh_frame_count :: nat
  sh_series_count :: nat
  sh_observation_count :: nat

definition segment_header_refused :: "SegmentHeader \<Rightarrow> bool" where
  "segment_header_refused h \<longleftrightarrow>
     (let s = sh_sealed h in
      sealed_journal_generation s = 0 \<or> sealed_registry_generation s = 0
      \<or> sealed_sequence_cutoff s \<le> sealed_sequence_floor s
      \<or> sealed_end_offset s \<noteq> sealed_artifact_length s
      \<or> sealed_end_offset s \<le> of_nat JOURNAL_V1_HEADER_LEN
      \<or> sealed_artifact_length s > MAX_ACTIVE_JOURNAL_BYTES
      \<or> sh_frame_count h = 0 \<or> sh_series_count h = 0 \<or> sh_series_count h > sh_frame_count h
      \<or> map_option unat (checked_sub (sealed_sequence_cutoff s) (sealed_sequence_floor s)) \<noteq> Some (sh_frame_count h))"

definition parse_segment_header :: "bytes \<Rightarrow> (SegmentV1Error, SegmentHeader) result" where
  "parse_segment_header bs =
     and_then (ok_or SegmentInvalid (segment_read_u64 bs 32)) (\<lambda>journal_generation.
     and_then (ok_or SegmentInvalid (segment_read_u64 bs 40)) (\<lambda>sequence_floor.
     and_then (ok_or SegmentInvalid (segment_read_u64 bs 48)) (\<lambda>sequence_cutoff.
     and_then (ok_or SegmentInvalid (segment_read_u64 bs 56)) (\<lambda>registry_generation.
     and_then (ok_or SegmentInvalid (segment_read_u64 bs 64)) (\<lambda>end_offset.
     and_then (ok_or SegmentInvalid (segment_read_u64 bs 72)) (\<lambda>artifact_length.
     and_then (ok_or SegmentInvalid (segment_read_u32 bs 80)) (\<lambda>artifact_checksum.
     and_then (segment_read_count bs 84 MAX_ACTIVE_JOURNAL_RECORDS) (\<lambda>frame_count.
     and_then (segment_read_count bs 88 MAX_SEGMENT_V1_SERIES) (\<lambda>series_total.
     and_then (segment_read_count bs 92 MAX_SEGMENT_V1_OBSERVATIONS) (\<lambda>observation_count.
     let header = \<lparr>sh_sealed = \<lparr>sealed_journal_generation = journal_generation, sealed_sequence_floor = sequence_floor,
             sealed_sequence_cutoff = sequence_cutoff, sealed_end_offset = end_offset,
             sealed_registry_generation = registry_generation, sealed_artifact_length = artifact_length,
             sealed_artifact_checksum = artifact_checksum\<rparr>,
           sh_frame_count = frame_count, sh_series_count = series_total, sh_observation_count = observation_count\<rparr> in
     if segment_header_refused header then Inl SegmentInvalid else Inr header))))))))))"

definition layout_fields :: "Layout \<Rightarrow> (nat \<times> nat) list" where
  "layout_fields layout =
     [(96, ly_series_offset layout), (104, ly_series_length layout), (112, ly_blocks_offset layout),
      (120, ly_blocks_length layout), (128, ly_append_offset layout), (136, ly_append_length layout),
      (144, ly_recent_offset layout), (152, ly_recent_length layout), (160, ly_artifact_length layout)]"

definition layout_matches :: "bytes \<Rightarrow> Layout \<Rightarrow> bool" where
  "layout_matches bs layout \<longleftrightarrow>
     list_all (\<lambda>(offset, expected). map_option unat (segment_read_u64 bs offset) = Some expected) (layout_fields layout)"

section \<open>Series directory\<close>

record SeriesScan =
  sc_series :: "SegmentSeriesEntryV1 list"
  sc_block_offset :: nat
  sc_recent_offset :: nat
  sc_frames :: nat
  sc_observations :: nat

definition series_entry_refused :: "SeriesScan \<Rightarrow> SegmentSeriesEntryV1 \<Rightarrow> bool" where
  "series_entry_refused s entry \<longleftrightarrow>
     (sc_series s \<noteq> [] \<and> se_series_id (last (sc_series s)) \<ge> se_series_id entry)
     \<or> se_frame_count entry = 0
     \<or> unat (se_block_offset entry) \<noteq> sc_block_offset s
     \<or> unat (se_recent_offset entry) \<noteq> sc_recent_offset s
     \<or> Some (unat (se_recent_length entry)) \<noteq> usize_checked_mul (unat (se_observation_count entry)) SEGMENT_V1_OBSERVATION_ENTRY_LEN"

fun parse_series :: "bytes \<Rightarrow> Layout \<Rightarrow> nat \<Rightarrow> nat \<Rightarrow> nat \<Rightarrow> SeriesScan \<Rightarrow> (SegmentV1Error, SeriesScan) result" where
  "parse_series bs layout checksum_offset 0 index s = Inr s"
| "parse_series bs layout checksum_offset (Suc n) index s =
     (let offset = ly_series_offset layout + index * SEGMENT_V1_SERIES_ENTRY_LEN;
          entry_bytes = slice offset (offset + SEGMENT_V1_SERIES_ENTRY_LEN) bs in
      case decode_series_entry entry_bytes of
        Inl e \<Rightarrow> Inl e
      | Inr entry \<Rightarrow>
          if series_entry_refused s entry then Inl SegmentInvalid
          else
            (case (usize_checked_add (sc_block_offset s) (unat (se_block_length entry)),
                   usize_checked_add (sc_recent_offset s) (unat (se_recent_length entry))) of
               (Some block_offset, Some recent_offset) \<Rightarrow>
                 if block_offset > ly_append_offset layout \<or> recent_offset > checksum_offset then Inl SegmentInvalid
                 else
                   (case (usize_checked_add (sc_frames s) (unat (se_frame_count entry)),
                          usize_checked_add (sc_observations s) (unat (se_observation_count entry))) of
                      (Some frames, Some observations) \<Rightarrow>
                        parse_series bs layout checksum_offset n (index + 1)
                          \<lparr>sc_series = sc_series s @ [entry], sc_block_offset = block_offset,
                           sc_recent_offset = recent_offset, sc_frames = frames, sc_observations = observations\<rparr>
                    | _ \<Rightarrow> Inl SegmentBounds)
             | _ \<Rightarrow> Inl SegmentBounds))"

section \<open>Blocks\<close>

record BlockScan =
  bs_frame_offset :: nat
  bs_prior :: "u64 option"
  bs_observation_count :: nat
  bs_proofs :: "FrameLocation list"
  bs_expected :: "ObservationLocation list"

fun expected_locations ::
  "SeriesId \<Rightarrow> FrameLocation \<Rightarrow> nat \<Rightarrow> Observation list \<Rightarrow> (SegmentV1Error, ObservationLocation list) result" where
  "expected_locations series_id proof' ordinal [] = Inr []"
| "expected_locations series_id proof' ordinal (ob # obs) =
     and_then (to_u32 ordinal) (\<lambda>o'.
     and_then (expected_locations series_id proof' (ordinal + 1) obs) (\<lambda>rest.
       Inr (\<lparr>ol_series_id = series_id, ol_raw_order_key = raw_order_key ob,
         ol_append_sequence = fl_append_sequence proof', ol_observation_ordinal = o',
         ol_frame_ordinal = fl_frame_ordinal proof', ol_frame_offset = fl_frame_offset proof',
         ol_frame_length = fl_frame_length proof'\<rparr> # rest)))"

definition frame_scope_refused :: "StoreId \<Rightarrow> SeriesId \<Rightarrow> u64 option \<Rightarrow> DecodedAdmissionV1 \<Rightarrow> bool" where
  "frame_scope_refused store_id series_id prior decoded \<longleftrightarrow>
     da_store_id decoded \<noteq> store_id \<or> dd_store_id (da_declaration decoded) \<noteq> store_id
     \<or> dd_series_id (da_declaration decoded) \<noteq> series_id
     \<or> md_series_id (env_series (da_envelope decoded)) \<noteq> series_id
     \<or> rq_series_id (da_retry decoded) \<noteq> series_id
     \<or> is_some_and (\<lambda>p. p \<ge> da_append_sequence decoded) prior"

definition parse_frame ::
  "bytes \<Rightarrow> StoreId \<Rightarrow> SeriesId \<Rightarrow> nat \<Rightarrow> u32 \<Rightarrow> BlockScan \<Rightarrow> (SegmentV1Error, BlockScan) result" where
  "parse_frame bs store_id series_id block_end frame_ordinal s =
     and_then (ok_or SegmentBounds (usize_checked_add (bs_frame_offset s) JOURNAL_V1_FRAME_PREFIX_LEN)) (\<lambda>prefix_end.
     and_then (ok_or SegmentInvalid (if prefix_end \<le> block_end then get_range (bs_frame_offset s) prefix_end bs else None)) (\<lambda>prefix_bytes.
     and_then (map_err (\<lambda>_. SegmentInvalid) (frame_len_from_prefix_v1 prefix_bytes decode_limits_maximum)) (\<lambda>frame_length.
     and_then (ok_or SegmentBounds (usize_checked_add (bs_frame_offset s) frame_length)) (\<lambda>frame_end.
     and_then (ok_or SegmentInvalid (if frame_end \<le> block_end then get_range (bs_frame_offset s) frame_end bs else None)) (\<lambda>frame.
     and_then (map_err (\<lambda>_. SegmentInvalid) (decode_admission_frame_v1 frame decode_limits_maximum None)) (\<lambda>decoded.
     if frame_scope_refused store_id series_id (bs_prior s) decoded then Inl SegmentInvalid
     else
       and_then (map_err (\<lambda>_. SegmentInvalid) (encode_decoded_admission_frame_v1 decoded)) (\<lambda>encoded.
       if encoded \<noteq> frame then Inl SegmentInvalid
       else
         and_then (to_u64 (bs_frame_offset s)) (\<lambda>off.
         and_then (to_u64 frame_length) (\<lambda>len.
         let proof' = \<lparr>fl_append_sequence = da_append_sequence decoded, fl_series_id = series_id,
               fl_frame_offset = off, fl_frame_length = len, fl_frame_ordinal = frame_ordinal\<rparr>;
             frame_observations = env_observations (da_envelope decoded) in
         and_then (ok_or SegmentBounds (usize_checked_add (bs_observation_count s) (length frame_observations))) (\<lambda>count.
         and_then (expected_locations series_id proof' 0 frame_observations) (\<lambda>locations.
           Inr \<lparr>bs_frame_offset = frame_end, bs_prior = Some (da_append_sequence decoded),
             bs_observation_count = count, bs_proofs = bs_proofs s @ [proof'],
             bs_expected = bs_expected s @ locations\<rparr>)))))))))))"

fun parse_frames ::
  "bytes \<Rightarrow> StoreId \<Rightarrow> SeriesId \<Rightarrow> nat \<Rightarrow> nat \<Rightarrow> nat \<Rightarrow> BlockScan \<Rightarrow> (SegmentV1Error, BlockScan) result" where
  "parse_frames bs store_id series_id block_end 0 ordinal s = Inr s"
| "parse_frames bs store_id series_id block_end (Suc n) ordinal s =
     (case parse_frame bs store_id series_id block_end (of_nat ordinal) s of
        Inl e \<Rightarrow> Inl e
      | Inr s' \<Rightarrow> parse_frames bs store_id series_id block_end n (ordinal + 1) s')"

fun parse_blocks ::
  "bytes \<Rightarrow> StoreId \<Rightarrow> SegmentSeriesEntryV1 list \<Rightarrow> FrameLocation list \<times> ObservationLocation list \<Rightarrow>
   (SegmentV1Error, FrameLocation list \<times> ObservationLocation list) result" where
  "parse_blocks bs store_id [] (proofs, expected) = Inr (proofs, expected)"
| "parse_blocks bs store_id (entry # entries) (proofs, expected) =
     (let frame_offset = unat (se_block_offset entry) in
      case usize_checked_add frame_offset (unat (se_block_length entry)) of
        None \<Rightarrow> Inl SegmentBounds
      | Some block_end \<Rightarrow>
          (case parse_frames bs store_id (se_series_id entry) block_end (unat (se_frame_count entry)) 0
              \<lparr>bs_frame_offset = frame_offset, bs_prior = None, bs_observation_count = 0,
               bs_proofs = proofs, bs_expected = expected\<rparr> of
             Inl e \<Rightarrow> Inl e
           | Inr s \<Rightarrow>
               if bs_frame_offset s \<noteq> block_end \<or> unat (se_observation_count entry) \<noteq> bs_observation_count s
               then Inl SegmentInvalid
               else parse_blocks bs store_id entries (bs_proofs s, bs_expected s)))"

section \<open>Append and observation directories\<close>

record AppendScan =
  as_expected_sequence :: u64
  as_checksum :: StreamingCrc32c
  as_source_length :: u64
  as_appends :: "SegmentAppendEntryV1 list"

definition append_entry_of :: "FrameLocation \<Rightarrow> SegmentAppendEntryV1" where
  "append_entry_of l = \<lparr>ae_append_sequence = fl_append_sequence l, ae_series_id = fl_series_id l,
     ae_frame_offset = fl_frame_offset l, ae_frame_length = fl_frame_length l, ae_frame_ordinal = fl_frame_ordinal l\<rparr>"

fun parse_appends ::
  "bytes \<Rightarrow> Layout \<Rightarrow> nat \<Rightarrow> FrameLocation list \<Rightarrow> AppendScan \<Rightarrow> (SegmentV1Error, AppendScan) result" where
  "parse_appends bs layout index [] s = Inr s"
| "parse_appends bs layout index (proof' # proofs) s =
     (if fl_append_sequence proof' \<noteq> as_expected_sequence s then Inl SegmentInvalid
      else
        let offset = ly_append_offset layout + index * SEGMENT_V1_APPEND_ENTRY_LEN in
        case decode_append_entry (slice offset (offset + SEGMENT_V1_APPEND_ENTRY_LEN) bs) of
          Inl e \<Rightarrow> Inl e
        | Inr entry \<Rightarrow>
            if entry \<noteq> append_entry_of proof' then Inl SegmentInvalid
            else
              (case segment_checked_slice bs (fl_frame_offset proof') (fl_frame_length proof') of
                 None \<Rightarrow> Inl SegmentInvalid
               | Some frame \<Rightarrow>
                   (case checked_add (as_source_length s) (fl_frame_length proof') of
                      None \<Rightarrow> Inl SegmentBounds
                    | Some source_length \<Rightarrow>
                        parse_appends bs layout (index + 1) proofs
                          \<lparr>as_expected_sequence = u64_saturating_add (as_expected_sequence s) 1,
                           as_checksum = stream_update frame (as_checksum s),
                           as_source_length = source_length, as_appends = as_appends s @ [entry]\<rparr>)))"

fun parse_observations ::
  "bytes \<Rightarrow> Layout \<Rightarrow> nat \<Rightarrow> ObservationLocation list \<Rightarrow> (SegmentV1Error, SegmentObservationEntryV1 list) result" where
  "parse_observations bs layout index [] = Inr []"
| "parse_observations bs layout index (expected # rest) =
     (let offset = ly_recent_offset layout + index * SEGMENT_V1_OBSERVATION_ENTRY_LEN in
      and_then (decode_observation_entry (slice offset (offset + SEGMENT_V1_OBSERVATION_ENTRY_LEN) bs) expected) (\<lambda>entry.
      and_then (parse_observations bs layout (index + 1) rest) (\<lambda>entries. Inr (entry # entries))))"

section \<open>Parsing\<close>

definition parse_directories ::
  "bytes \<Rightarrow> StoreId \<Rightarrow> SegmentHeader \<Rightarrow> Layout \<Rightarrow> u32 \<Rightarrow> (SegmentV1Error, SegmentV1) result" where
  "parse_directories bs store_id h layout artifact_checksum =
     (let checksum_offset = length bs - SEGMENT_V1_CRC_LEN; sealed = sh_sealed h in
      and_then (parse_series bs layout checksum_offset (sh_series_count h) 0
          \<lparr>sc_series = [], sc_block_offset = ly_blocks_offset layout, sc_recent_offset = ly_recent_offset layout,
           sc_frames = 0, sc_observations = 0\<rparr>) (\<lambda>sc.
      if sc_block_offset sc \<noteq> ly_append_offset layout \<or> sc_recent_offset sc \<noteq> checksum_offset
         \<or> sc_frames sc \<noteq> sh_frame_count h \<or> sc_observations sc \<noteq> sh_observation_count h
      then Inl SegmentInvalid
      else
        and_then (parse_blocks bs store_id (sc_series sc) ([], [])) (\<lambda>(unsorted, expected).
        if length unsorted \<noteq> sh_frame_count h \<or> length expected \<noteq> sh_observation_count h then Inl SegmentInvalid
        else
          let proofs = sort_key fl_append_sequence unsorted in
          and_then (ok_or SegmentInvalid (checked_add (sealed_sequence_floor sealed) 1)) (\<lambda>expected_sequence.
          and_then (parse_appends bs layout 0 proofs
              \<lparr>as_expected_sequence = expected_sequence,
               as_checksum = stream_update (header_encode \<lparr>header_store_id = store_id\<rparr>) stream_new,
               as_source_length = of_nat JOURNAL_V1_HEADER_LEN, as_appends = []\<rparr>) (\<lambda>a.
          if (if proofs = [] then None else Some (fl_append_sequence (last proofs))) \<noteq> Some (sealed_sequence_cutoff sealed)
             \<or> as_source_length a \<noteq> sealed_artifact_length sealed
             \<or> stream_finish (as_checksum a) \<noteq> sealed_artifact_checksum sealed
          then Inl SegmentInvalid
          else
            and_then (parse_observations bs layout 0 (sort_by series_recent_le expected)) (\<lambda>observations.
            and_then (segment_inspection store_id sealed (sh_frame_count h) (sh_series_count h) (sh_observation_count h)
                layout artifact_checksum) (\<lambda>inspection.
              Inr \<lparr>seg_bytes = bs, seg_inspection = inspection, seg_series = sc_series sc,
                seg_appends = as_appends a, seg_observations = observations\<rparr>)))))))"

definition parse_segment_v1 :: "bytes \<Rightarrow> StoreId \<Rightarrow> (SegmentV1Error, SegmentV1) result" where
  "parse_segment_v1 bs expected_store_id =
     (if length bs > unat MAX_SEGMENT_V1_BYTES then Inl SegmentBounds
      else if length bs < SEGMENT_V1_HEADER_LEN + SEGMENT_V1_CRC_LEN then Inl SegmentInvalid
      else if slice 0 8 bs \<noteq> SEGMENT_V1_MAGIC
         \<or> segment_read_u16 bs 8 \<noteq> Some SEGMENT_V1_VERSION
         \<or> segment_read_u16 bs 10 \<noteq> Some (of_nat SEGMENT_V1_HEADER_LEN)
         \<or> segment_read_u32 bs 12 \<noteq> Some SEGMENT_FLAGS_NONE
         \<or> list_ex (\<lambda>b. b \<noteq> 0) (slice 168 SEGMENT_V1_HEADER_LEN bs)
      then Inl SegmentInvalid
      else
        and_then (map_err (\<lambda>_. SegmentInvalid) (identity_from_bytes (slice 16 32 bs))) (\<lambda>store_id.
        if store_id \<noteq> expected_store_id then Inl SegmentStoreMismatch
        else
          and_then (parse_segment_header bs) (\<lambda>h.
          and_then (ok_or SegmentBounds (map_option unat (segment_read_u64 bs 120))) (\<lambda>blocks_length.
          and_then (layout_new (sh_frame_count h) (sh_series_count h) (sh_observation_count h) blocks_length) (\<lambda>layout.
          if \<not> layout_matches bs layout then Inl SegmentInvalid
          else if length bs \<noteq> ly_artifact_length layout then Inl SegmentInvalid
          else
            let checksum_offset = length bs - SEGMENT_V1_CRC_LEN in
            and_then (ok_or SegmentInvalid (segment_read_u32 bs checksum_offset)) (\<lambda>artifact_checksum.
            if crc32c (slice 0 checksum_offset bs) \<noteq> artifact_checksum then Inl SegmentInvalid
            else parse_directories bs store_id h layout artifact_checksum))))))"

definition segment_frame_bytes :: "SegmentV1 \<Rightarrow> SegmentAppendEntryV1 \<Rightarrow> (SegmentV1Error, bytes) result" where
  "segment_frame_bytes self entry =
     (if entry \<notin> set (seg_appends self) then Inl SegmentInvalid
      else ok_or SegmentInvalid (segment_checked_slice (seg_bytes self) (ae_frame_offset entry) (ae_frame_length entry)))"

definition segment_decode_frame :: "SegmentV1 \<Rightarrow> SegmentAppendEntryV1 \<Rightarrow> (SegmentV1Error, DecodedAdmissionV1) result" where
  "segment_decode_frame self entry =
     and_then (segment_frame_bytes self entry) (\<lambda>frame.
       map_err (\<lambda>_. SegmentInvalid) (decode_admission_frame_v1 frame decode_limits_maximum None))"

section \<open>Queries\<close>

record SegmentObservationQueryItemV1 =
  qi_entry :: SegmentObservationEntryV1
  qi_admission :: DecodedAdmissionV1
  qi_observation_index :: nat

record SegmentObservationQueryResultV1 =
  qr_series_id :: SeriesId
  qr_interval :: "TimeInterval option"
  qr_requested_limit :: nat
  qr_items :: "SegmentObservationQueryItemV1 list"
  qr_is_truncated :: bool

definition query_result ::
  "SegmentObservationQueryV1 \<Rightarrow> SegmentObservationQueryItemV1 list \<Rightarrow> bool \<Rightarrow> SegmentObservationQueryResultV1" where
  "query_result query items truncated = \<lparr>qr_series_id = sq_series_id query, qr_interval = sq_interval query,
     qr_requested_limit = sq_limit query, qr_items = items, qr_is_truncated = truncated\<rparr>"

text \<open>The decoded frame of an entry, from the frames decoded so far or from the bytes.\<close>

definition query_admission ::
  "SegmentV1 \<Rightarrow> (u64 \<times> DecodedAdmissionV1) list \<Rightarrow> SegmentAppendEntryV1 \<Rightarrow>
   (SegmentObservationQueryV1Error, DecodedAdmissionV1 \<times> (u64 \<times> DecodedAdmissionV1) list) result" where
  "query_admission self cache append' =
     (case find (\<lambda>(sq, _). sq = ae_append_sequence append') cache of
        Some (_, decoded) \<Rightarrow> Inr (decoded, cache)
      | None \<Rightarrow>
          and_then (ok_or QueryInconsistentSegment
              (segment_checked_slice (seg_bytes self) (ae_frame_offset append') (ae_frame_length append'))) (\<lambda>frame.
          and_then (map_err (\<lambda>_. QueryInconsistentSegment)
              (decode_admission_frame_v1 frame decode_limits_maximum None)) (\<lambda>decoded.
            Inr (decoded, cache @ [(ae_append_sequence append', decoded)]))))"

definition append_disagrees :: "SegmentAppendEntryV1 \<Rightarrow> SegmentObservationEntryV1 \<Rightarrow> bool" where
  "append_disagrees append' entry \<longleftrightarrow>
     ae_append_sequence append' \<noteq> oe_append_sequence entry \<or> ae_series_id append' \<noteq> oe_series_id entry
     \<or> ae_frame_offset append' \<noteq> oe_frame_offset entry \<or> ae_frame_length append' \<noteq> oe_frame_length entry
     \<or> ae_frame_ordinal append' \<noteq> oe_frame_ordinal entry"

definition admission_disagrees :: "StoreId \<Rightarrow> SeriesId \<Rightarrow> u64 \<Rightarrow> DecodedAdmissionV1 \<Rightarrow> bool" where
  "admission_disagrees store_id series_id append_sequence admission \<longleftrightarrow>
     da_append_sequence admission \<noteq> append_sequence \<or> da_store_id admission \<noteq> store_id
     \<or> dd_store_id (da_declaration admission) \<noteq> store_id
     \<or> dd_series_id (da_declaration admission) \<noteq> series_id
     \<or> md_series_id (env_series (da_envelope admission)) \<noteq> series_id
     \<or> rq_series_id (da_retry admission) \<noteq> series_id"

definition lineage_disagrees ::
  "SegmentObservationEntryV1 \<Rightarrow> DecodedAdmissionV1 \<Rightarrow> Observation \<Rightarrow> DecodedObservationLineageV1 \<Rightarrow> bool" where
  "lineage_disagrees entry admission observation lineage \<longleftrightarrow>
     raw_order_key observation \<noteq> oe_raw_order_key entry
     \<or> obs_id observation \<noteq> key_observation_id (oe_raw_order_key entry)
     \<or> dl_canonical_observation_id lineage \<noteq> obs_id observation
     \<or> raw_snapshot_id (dl_raw lineage) \<noteq> snapshot_evidence_id (lc_snapshot (da_lifecycle admission))
     \<or> norm_raw_record_id (dl_normalized lineage) \<noteq> raw_evidence_id (dl_raw lineage)
     \<or> norm_observation_evidence_id (dl_normalized lineage) \<noteq> so_evidence_id (dl_observation lineage)"

text \<open>One selected entry becomes an item.\<close>

definition query_item ::
  "SegmentV1 \<Rightarrow> SegmentObservationQueryV1 \<Rightarrow> (u64 \<times> DecodedAdmissionV1) list \<Rightarrow> SegmentObservationEntryV1 \<Rightarrow>
   (SegmentObservationQueryV1Error, SegmentObservationQueryItemV1 \<times> (u64 \<times> DecodedAdmissionV1) list) result" where
  "query_item self query cache entry =
     and_then (ok_or QueryInconsistentSegment (binary_search_by_key ae_append_sequence (oe_append_sequence entry) (seg_appends self)))
       (\<lambda>append_index.
     let append' = seg_appends self ! append_index in
     if append_disagrees append' entry then Inl QueryInconsistentSegment
     else
       and_then (query_admission self cache append') (\<lambda>(admission, cache').
       if admission_disagrees (ins_store_id (seg_inspection self)) (sq_series_id query) (ae_append_sequence append') admission
       then Inl QueryInconsistentSegment
       else if \<not> unat (oe_observation_ordinal entry) < 256 then Inl QueryInconsistentSegment
       else
         let observation_index = unat (oe_observation_ordinal entry);
             observations = env_observations (da_envelope admission);
             lineages = da_observations admission in
         if \<not> observation_index < length observations then Inl QueryInconsistentSegment
         else if \<not> observation_index < length lineages then Inl QueryInconsistentSegment
         else if lineage_disagrees entry admission (observations ! observation_index) (lineages ! observation_index)
         then Inl QueryInconsistentSegment
         else Inr (\<lparr>qi_entry = entry, qi_admission = admission, qi_observation_index = observation_index\<rparr>, cache')))"

fun query_loop ::
  "SegmentV1 \<Rightarrow> SegmentObservationQueryV1 \<Rightarrow> SegmentObservationEntryV1 list \<Rightarrow> SegmentObservationQueryItemV1 list \<Rightarrow>
   (u64 \<times> DecodedAdmissionV1) list \<Rightarrow> (SegmentObservationQueryV1Error, SegmentObservationQueryItemV1 list \<times> bool) result" where
  "query_loop self query [] items cache = Inr (items, False)"
| "query_loop self query (entry # entries) items cache =
     (if oe_series_id entry \<noteq> sq_series_id query then Inl QueryInconsistentSegment
      else if is_some_and (\<lambda>interval. \<not> time_interval_contains interval (key_effective (oe_raw_order_key entry))) (sq_interval query)
      then query_loop self query entries items cache
      else if length items = sq_limit query then Inr (items, True)
      else (case query_item self query cache entry of
          Inl e \<Rightarrow> Inl e
        | Inr (item, cache') \<Rightarrow> query_loop self query entries (items @ [item]) cache'))"

definition query_observations_v1 ::
  "SegmentV1 \<Rightarrow> SegmentObservationQueryV1 \<Rightarrow> (SegmentObservationQueryV1Error, SegmentObservationQueryResultV1) result" where
  "query_observations_v1 self query =
     (case binary_search_by_key se_series_id (sq_series_id query) (seg_series self) of
        None \<Rightarrow> Inr (query_result query [] False)
      | Some series_index \<Rightarrow>
          let series = seg_series self ! series_index in
          and_then (ok_or QueryInconsistentSegment
              (checked_sub (se_recent_offset series) (ins_recent_directory_offset (seg_inspection self)))) (\<lambda>relative_offset.
          if relative_offset mod of_nat SEGMENT_V1_OBSERVATION_ENTRY_LEN \<noteq> 0 then Inl QueryInconsistentSegment
          else
            let start = unat (relative_offset div of_nat SEGMENT_V1_OBSERVATION_ENTRY_LEN);
                count = unat (se_observation_count series) in
            and_then (ok_or QueryInconsistentSegment (usize_checked_mul count SEGMENT_V1_OBSERVATION_ENTRY_LEN)) (\<lambda>expected_length.
            if unat (se_recent_length series) \<noteq> expected_length then Inl QueryInconsistentSegment
            else
              and_then (ok_or QueryInconsistentSegment (usize_checked_add start count)) (\<lambda>stop.
              and_then (ok_or QueryInconsistentSegment (get_range start stop (seg_observations self))) (\<lambda>entries.
              if entries = [] then Inr (query_result query [] False)
              else and_then (query_loop self query entries [] []) (\<lambda>(items, truncated).
                Inr (query_result query items truncated)))))))"

end
