(* ===== verification/Och_Segment_Entries.thy ===== *)
theory Och_Segment_Entries
  imports Och_Segment_Read Och_Admission_Frame "HOL-Library.Multiset"
begin

text \<open>
  The fixed parts of a Native Segment V1: the layouts of the three kinds of directory entries with their
  exact codecs, the sorting and searching the code relies on, and the frames in a block.
\<close>

section \<open>Fields\<close>

lemma field_at_ok: "offset + n \<le> length bs \<Longrightarrow> length bs \<le> usize_max \<Longrightarrow> field_at n offset bs = Some (slice offset (offset + n) bs)"
  by (simp add: field_at_def usize_checked_add_def)

lemma segment_reads:
  assumes "length bs \<le> usize_max"
  shows "i + 8 \<le> length bs \<Longrightarrow> segment_read_u64 bs i = Some (read_u64 i bs)"
    and "i + 8 \<le> length bs \<Longrightarrow> segment_read_i64 bs i = Some (read_u64 i bs)"
    and "i + 4 \<le> length bs \<Longrightarrow> segment_read_u32 bs i = Some (read_u32 i bs)"
    and "i + 2 \<le> length bs \<Longrightarrow> segment_read_u16 bs i = Some (read_u16 i bs)"
  using assms by (simp_all add: segment_read_u64_def segment_read_i64_def segment_read_u32_def segment_read_u16_def field_at_ok
      read_u64_def read_u32_def read_u16_def)

lemma read_fields_sym:
  "i + 8 \<le> length bs \<Longrightarrow> w = read_u64 i bs \<longleftrightarrow> slice i (i + 8) bs = be_encode 8 (unat w)"
  "i + 4 \<le> length bs \<Longrightarrow> v = read_u32 i bs \<longleftrightarrow> slice i (i + 4) bs = be_encode 4 (unat v)"
  using read_fields(1) [of i bs w] read_fields(2) [of i bs v] by auto

lemma zero_bytes: "\<not> list_ex (\<lambda>b. b \<noteq> 0) xs \<longleftrightarrow> xs = replicate (length xs) (0::u8)"
  by (induction xs) auto

lemma put_pad:
  "length xs = i \<Longrightarrow> i + 2 \<le> n \<Longrightarrow> put_u16 i x (pad n xs) = pad n (xs @ be_encode 2 (unat x))"
  "length xs = i \<Longrightarrow> i + 4 \<le> n \<Longrightarrow> put_u32 i y (pad n xs) = pad n (xs @ be_encode 4 (unat y))"
  "length xs = i \<Longrightarrow> i + 8 \<le> n \<Longrightarrow> put_u64 i z (pad n xs) = pad n (xs @ be_encode 8 (unat z))"
  by (simp_all add: put_u16_def put_u32_def put_u64_def pad_write)

section \<open>Entries\<close>

definition wire_series_entry :: "SegmentSeriesEntryV1 \<Rightarrow> bytes" where
  "wire_series_entry e = id_bytes (se_series_id e) @ be_encode 8 (unat (se_block_offset e)) @
     be_encode 8 (unat (se_block_length e)) @ be_encode 4 (unat (se_frame_count e)) @
     be_encode 4 (unat (se_observation_count e)) @ be_encode 8 (unat (se_recent_offset e)) @
     be_encode 8 (unat (se_recent_length e)) @ replicate 8 0"

definition wire_append_entry :: "SegmentAppendEntryV1 \<Rightarrow> bytes" where
  "wire_append_entry e = be_encode 8 (unat (ae_append_sequence e)) @ id_bytes (ae_series_id e) @
     be_encode 8 (unat (ae_frame_offset e)) @ be_encode 8 (unat (ae_frame_length e)) @
     be_encode 4 (unat (ae_frame_ordinal e)) @ replicate 4 0"

definition wire_observation_entry :: "ObservationLocation \<Rightarrow> bytes" where
  "wire_observation_entry e =
     (let k = ol_raw_order_key e in
      id_bytes (ol_series_id e) @ be_encode 8 (unat (unix_seconds (key_effective k))) @
      be_encode 4 (unat (nanosecond (key_effective k))) @ be_encode 8 (unat (unix_seconds (key_receive k))) @
      be_encode 4 (unat (nanosecond (key_receive k))) @ id_bytes (key_observation_id k) @
      be_encode 8 (unat (ol_append_sequence e)) @ be_encode 4 (unat (ol_observation_ordinal e)) @
      be_encode 4 (unat (ol_frame_ordinal e)) @ be_encode 8 (unat (ol_frame_offset e)) @
      be_encode 8 (unat (ol_frame_length e)) @ replicate 8 0)"

definition observation_entry_of :: "ObservationLocation \<Rightarrow> SegmentObservationEntryV1" where
  "observation_entry_of l = \<lparr>oe_series_id = ol_series_id l, oe_raw_order_key = ol_raw_order_key l,
     oe_append_sequence = ol_append_sequence l, oe_observation_ordinal = ol_observation_ordinal l,
     oe_frame_ordinal = ol_frame_ordinal l, oe_frame_offset = ol_frame_offset l, oe_frame_length = ol_frame_length l\<rparr>"

definition key_ok :: "RawObservationOrderKey \<Rightarrow> bool" where
  "key_ok k \<longleftrightarrow> timestamp_ok (key_effective k) \<and> timestamp_ok (key_receive k) \<and> identity_ok (key_observation_id k)"

lemma id_length: "identity_ok i \<Longrightarrow> length (id_bytes i) = 16"
  by (simp add: identity_ok_length)

lemma length_wire_series_entry: "identity_ok (se_series_id e) \<Longrightarrow> length (wire_series_entry e) = 64"
  by (simp add: wire_series_entry_def id_length)

lemma length_wire_append_entry: "identity_ok (ae_series_id e) \<Longrightarrow> length (wire_append_entry e) = 48"
  by (simp add: wire_append_entry_def id_length)

lemma length_wire_observation_entry:
  "identity_ok (ol_series_id e) \<Longrightarrow> key_ok (ol_raw_order_key e) \<Longrightarrow> length (wire_observation_entry e) = 96"
  by (simp add: wire_observation_entry_def id_length Let_def key_ok_def)

lemma pad_rest: "length xs + k = n \<Longrightarrow> pad n xs = xs @ replicate k 0"
  by (auto simp: pad_def)

lemma encode_series_entry_wire:
  assumes "identity_ok (se_series_id e)"
  shows "encode_series_entry e (replicate 64 0) = wire_series_entry e"
  using id_length [OF assms]
  by (simp add: pad_empty [of 64] encode_series_entry_def pad_write put_pad Let_def wire_series_entry_def pad_rest [where k = 8])

lemma encode_append_entry_wire:
  assumes "identity_ok (fl_series_id l)"
  shows "encode_append_entry l (replicate 48 0) = wire_append_entry (append_entry_of l)"
  using id_length [OF assms]
  by (simp add: pad_empty [of 48] encode_append_entry_def pad_write put_pad Let_def wire_append_entry_def append_entry_of_def pad_rest [where k = 4])

lemma encode_observation_entry_wire:
  assumes "identity_ok (ol_series_id l)" "key_ok (ol_raw_order_key l)"
  shows "encode_observation_entry l (replicate 96 0) = wire_observation_entry l"
  using id_length [OF assms(1)] id_length [of "key_observation_id (ol_raw_order_key l)"] assms(2)
  by (simp add: pad_empty [of 96] encode_observation_entry_def pad_write put_pad Let_def wire_observation_entry_def key_ok_def pad_rest [where k = 8])

lemma drop_split:
  assumes "k + length xs \<le> length bs"
  shows "drop k bs = xs @ ys \<longleftrightarrow> slice k (k + length xs) bs = xs \<and> drop (k + length xs) bs = ys"
proof -
  have "drop k bs = slice k (k + length xs) bs @ drop (k + length xs) bs"
    using append_take_drop_id [of "length xs" "drop k bs"] by (simp add: slice_def add.commute)
  moreover have "length (slice k (k + length xs) bs) = length xs" using assms by simp
  ultimately show ?thesis by (metis append_eq_append_conv)
qed

lemma drop_slice: "length bs = n \<Longrightarrow> drop k bs = slice k n bs"
  by (simp add: slice_def)

lemma head_split:
  assumes "length xs \<le> length bs"
  shows "bs = xs @ ys \<longleftrightarrow> slice 0 (length xs) bs = xs \<and> drop (length xs) bs = ys"
  using drop_split [of 0 xs bs ys] assms by simp

lemma zero_tail: "length bs = n \<Longrightarrow> i + k = n \<Longrightarrow> \<not> list_ex (\<lambda>b. b \<noteq> 0) (slice i n bs) \<longleftrightarrow> drop i bs = replicate k (0::u8)"
  using zero_bytes [of "slice i n bs"] by (auto simp: drop_slice)

lemma decode_series_entry_iff:
  "decode_series_entry bs = Inr e \<longleftrightarrow> bs = wire_series_entry e \<and> identity_ok (se_series_id e)"
proof (cases "length bs = 64 \<and> identity_ok (se_series_id e)")
  case True
  then have len: "length bs = 64" and id: "length (id_bytes (se_series_id e)) = 16" by (simp_all add: id_length)
  have split: "bs = wire_series_entry e \<longleftrightarrow> slice 0 16 bs = id_bytes (se_series_id e) \<and>
      slice 16 24 bs = be_encode 8 (unat (se_block_offset e)) \<and> slice 24 32 bs = be_encode 8 (unat (se_block_length e)) \<and>
      slice 32 36 bs = be_encode 4 (unat (se_frame_count e)) \<and> slice 36 40 bs = be_encode 4 (unat (se_observation_count e)) \<and>
      slice 40 48 bs = be_encode 8 (unat (se_recent_offset e)) \<and> slice 48 56 bs = be_encode 8 (unat (se_recent_length e)) \<and>
      drop 56 bs = replicate 8 0"
    unfolding wire_series_entry_def using len id
    by (subst head_split) (simp_all add: drop_split)
  show ?thesis
    unfolding split using len True zero_tail [OF len, of 56 8]
    by (cases e) (auto simp: decode_series_entry_def SEGMENT_V1_SERIES_ENTRY_LEN_def result_convs segment_reads read_fields
        identity_from_bytes_iff)
next
  case False
  then show ?thesis using length_wire_series_entry [of e]
    by (auto simp: decode_series_entry_def SEGMENT_V1_SERIES_ENTRY_LEN_def result_convs identity_from_bytes_iff)
qed

lemma decode_append_entry_iff:
  "decode_append_entry bs = Inr e \<longleftrightarrow> bs = wire_append_entry e \<and> identity_ok (ae_series_id e)"
proof (cases "length bs = 48 \<and> identity_ok (ae_series_id e)")
  case True
  then have len: "length bs = 48" and id: "length (id_bytes (ae_series_id e)) = 16" by (simp_all add: id_length)
  have split: "bs = wire_append_entry e \<longleftrightarrow> slice 0 8 bs = be_encode 8 (unat (ae_append_sequence e)) \<and>
      slice 8 24 bs = id_bytes (ae_series_id e) \<and> slice 24 32 bs = be_encode 8 (unat (ae_frame_offset e)) \<and>
      slice 32 40 bs = be_encode 8 (unat (ae_frame_length e)) \<and> slice 40 44 bs = be_encode 4 (unat (ae_frame_ordinal e)) \<and>
      drop 44 bs = replicate 4 0"
    unfolding wire_append_entry_def using len id
    by (subst head_split) (simp_all add: drop_split)
  show ?thesis
    unfolding split using len True zero_tail [OF len, of 44 4]
    by (cases e) (auto simp: decode_append_entry_def SEGMENT_V1_APPEND_ENTRY_LEN_def result_convs segment_reads read_fields
        identity_from_bytes_iff)
next
  case False
  then show ?thesis using length_wire_append_entry [of e]
    by (auto simp: decode_append_entry_def SEGMENT_V1_APPEND_ENTRY_LEN_def result_convs identity_from_bytes_iff)
qed

lemma wire_observation_split:
  assumes len: "length bs = 96" and ok: "identity_ok (ol_series_id l)" "key_ok (ol_raw_order_key l)"
  shows "bs = wire_observation_entry l \<longleftrightarrow> slice 0 16 bs = id_bytes (ol_series_id l) \<and>
      slice 16 24 bs = be_encode 8 (unat (unix_seconds (key_effective (ol_raw_order_key l)))) \<and>
      slice 24 28 bs = be_encode 4 (unat (nanosecond (key_effective (ol_raw_order_key l)))) \<and>
      slice 28 36 bs = be_encode 8 (unat (unix_seconds (key_receive (ol_raw_order_key l)))) \<and>
      slice 36 40 bs = be_encode 4 (unat (nanosecond (key_receive (ol_raw_order_key l)))) \<and>
      slice 40 56 bs = id_bytes (key_observation_id (ol_raw_order_key l)) \<and>
      slice 56 64 bs = be_encode 8 (unat (ol_append_sequence l)) \<and>
      slice 64 68 bs = be_encode 4 (unat (ol_observation_ordinal l)) \<and>
      slice 68 72 bs = be_encode 4 (unat (ol_frame_ordinal l)) \<and>
      slice 72 80 bs = be_encode 8 (unat (ol_frame_offset l)) \<and>
      slice 80 88 bs = be_encode 8 (unat (ol_frame_length l)) \<and> drop 88 bs = replicate 8 0"
proof -
  have "length (id_bytes (ol_series_id l)) = 16" "length (id_bytes (key_observation_id (ol_raw_order_key l))) = 16"
    using ok by (simp_all add: id_length key_ok_def)
  with len show ?thesis
    unfolding wire_observation_entry_def Let_def by (subst head_split) (simp_all add: drop_split)
qed

lemma decode_observation_entry_iff:
  assumes ok: "identity_ok (ol_series_id l)" "key_ok (ol_raw_order_key l)"
  shows "decode_observation_entry bs l = Inr e \<longleftrightarrow> bs = wire_observation_entry l \<and> e = observation_entry_of l"
proof (cases "length bs = 96")
  case len: True
  have z: "list_ex (\<lambda>b. b \<noteq> 0) (slice 88 96 bs) \<longleftrightarrow> drop 88 bs \<noteq> replicate 8 0" using zero_tail [OF len, of 88 8] by auto
  have keys: "timestamp_ok (key_effective (ol_raw_order_key l))" "timestamp_ok (key_receive (ol_raw_order_key l))"
      "identity_ok (key_observation_id (ol_raw_order_key l))" using ok by (simp_all add: key_ok_def)
  show ?thesis
    unfolding wire_observation_split [OF len ok] using len keys ok(1)
    by (auto simp: decode_observation_entry_def SEGMENT_V1_OBSERVATION_ENTRY_LEN_def result_convs segment_reads read_fields
        read_fields_sym identity_from_bytes_iff timestamp_new_iff Let_def z observation_entry_of_def)
next
  case False
  then show ?thesis using length_wire_observation_entry [OF ok]
    by (auto simp: decode_observation_entry_def SEGMENT_V1_OBSERVATION_ENTRY_LEN_def)
qed

section \<open>Sorting\<close>

lemma mset_insort_by: "mset (insort_by le x xs) = add_mset x (mset xs)"
  by (induction xs) auto

lemma mset_sort_by [simp]: "mset (sort_by le xs) = mset xs"
  by (induction xs) (simp_all add: sort_by_def mset_insort_by)

lemma set_sort_by [simp]: "set (sort_by le xs) = set xs"
  using mset_eq_setD [OF mset_sort_by] .

lemma length_sort_by [simp]: "length (sort_by le xs) = length xs"
  using mset_eq_length [OF mset_sort_by] .

lemma insort_by_append: "list_all (le x) ys \<Longrightarrow> insort_by le x (xs @ ys) = insort_by le x xs @ ys"
proof (induction xs)
  case Nil
  then show ?case by (cases ys) auto
qed simp

lemma sort_by_append:
  "list_all (\<lambda>x. list_all (le x) ys) xs \<Longrightarrow> sort_by le (xs @ ys) = sort_by le xs @ sort_by le ys"
proof (induction xs)
  case Nil
  then show ?case by (simp add: sort_by_def)
next
  case (Cons x xs)
  have "list_all (le x) (sort_by le ys)" using Cons.prems by (simp add: list_all_iff)
  with Cons show ?case by (simp add: sort_by_def insort_by_append)
qed

lemma insort_by_cong: "(\<And>y. y \<in> set xs \<Longrightarrow> le x y = le' x y) \<Longrightarrow> insort_by le x xs = insort_by le' x xs"
  by (induction xs) auto

lemma sort_by_cong: "(\<And>x y. x \<in> set xs \<Longrightarrow> y \<in> set xs \<Longrightarrow> le x y = le' x y) \<Longrightarrow> sort_by le xs = sort_by le' xs"
proof (induction xs)
  case Nil
  show ?case by (simp add: sort_by_def)
next
  case (Cons x xs)
  have "insort_by le x (sort_by le' xs) = insort_by le' x (sort_by le' xs)" using Cons.prems by (intro insort_by_cong) auto
  with Cons show ?case by (simp add: sort_by_def)
qed

lemma sorted_insort_by:
  assumes "\<And>y. \<not> le x y \<Longrightarrow> le y x" "transp le" "sorted_wrt le xs"
  shows "sorted_wrt le (insort_by le x xs)"
  using assms(3)
proof (induction xs)
  case (Cons y ys)
  have "set (insort_by le x ys) = insert x (set ys)" using mset_insort_by [of le x ys] by (metis mset_insort_by set_mset_add_mset_insert set_mset_mset)
  with Cons assms(1) [of y] transpD [OF assms(2), of x y] show ?case by auto
qed simp

lemma sorted_sort_by:
  assumes "\<And>x y. \<not> le x y \<Longrightarrow> le y x" "transp le"
  shows "sorted_wrt le (sort_by le xs)"
  by (induction xs) (simp_all add: sort_by_def sorted_insort_by assms)

lemma sort_key_map: "sort_key f (map g xs) = map g (sort_key (\<lambda>x. f (g x)) xs)"
proof -
  have "insort_key f (g x) (map g ys) = map g (insort_key (\<lambda>x. f (g x)) x ys)" for x ys by (induction ys) auto
  then show ?thesis by (induction xs) simp_all
qed

section \<open>Searching\<close>

lemma bsearch_base_bound:
  "0 < size' \<Longrightarrow> base + size' \<le> n \<Longrightarrow> bsearch_base f k xs base size' < n"
proof (induction f k xs base size' rule: bsearch_base.induct)
  case (1 f k xs base size')
  show ?case
    using 1 by (subst bsearch_base.simps) (auto simp: Let_def)
qed

lemma bsearch_base_finds:
  "sorted_wrt (<) (map f xs) \<Longrightarrow> base \<le> j \<Longrightarrow> j < base + size' \<Longrightarrow> base + size' \<le> length xs \<Longrightarrow> f (xs ! j) = k \<Longrightarrow>
   bsearch_base f k xs base size' = j"
proof (induction f k xs base size' rule: bsearch_base.induct)
  case (1 f k xs base size')
  show ?case
  proof (cases "size' > 1")
    case True
    define mid where "mid = base + size' div 2"
    have mid: "mid < length xs" "base < mid" "mid < base + size'" using True 1 by (auto simp: mid_def)
    have order: "f (xs ! a) < f (xs ! b)" if "a < b" "b < length xs" for a b
      using 1(2) that by (simp add: sorted_wrt_iff_nth_less)
    have "f (xs ! mid) > k \<longleftrightarrow> j < mid"
      using order [of j mid] order [of mid j] 1 mid by (metis linorder_neqE_nat order.strict_trans1 less_irrefl order_less_imp_not_less)
    moreover have "bsearch_base f k xs (if f (xs ! mid) > k then base else mid) (size' - size' div 2) = j"
      using 1(1) [OF True refl refl] 1 True \<open>f (xs ! mid) > k \<longleftrightarrow> j < mid\<close> mid by (auto simp: mid_def)
    ultimately show ?thesis unfolding mid_def using True by (subst bsearch_base.simps) (simp add: Let_def)
  next
    case False
    with 1 show ?thesis by (subst bsearch_base.simps) simp
  qed
qed

lemma binary_search_iff:
  assumes "sorted_wrt (<) (map f xs)"
  shows "binary_search_by_key f k xs = Some i \<longleftrightarrow> i < length xs \<and> f (xs ! i) = k"
proof
  assume "binary_search_by_key f k xs = Some i"
  then show "i < length xs \<and> f (xs ! i) = k"
    using bsearch_base_bound [of "length xs" 0 "length xs" f k xs]
    by (auto simp: binary_search_by_key_def Let_def split: if_splits)
next
  assume "i < length xs \<and> f (xs ! i) = k"
  then show "binary_search_by_key f k xs = Some i"
    using bsearch_base_finds [OF assms, of 0 i "length xs" k] by (auto simp: binary_search_by_key_def Let_def)
qed

lemma binary_search_None:
  assumes "sorted_wrt (<) (map f xs)"
  shows "binary_search_by_key f k xs = None \<longleftrightarrow> k \<notin> f ` set xs"
proof -
  have "binary_search_by_key f k xs = None \<longleftrightarrow> \<not> (\<exists>i. binary_search_by_key f k xs = Some i)" by auto
  also have "\<dots> \<longleftrightarrow> k \<notin> f ` set xs" 
    unfolding binary_search_iff [OF assms] by (metis image_iff in_set_conv_nth)
  finally show ?thesis .
qed

end
