(* ===== verification/Och_Segment_Spec.thy ===== *)
theory Och_Segment_Spec
  imports Och_Segment_Entries
begin

text \<open>
  What a Native Segment V1 contains, stated over the frames themselves: the admissions of a sealed journal
  grouped by series, where each frame lies, and the observations every frame contributes.
\<close>

section \<open>Frames and blocks\<close>

type_synonym block = "SeriesId \<times> DecodedAdmissionV1 list"

definition frame_ok :: "StoreId \<Rightarrow> SeriesId \<Rightarrow> DecodedAdmissionV1 \<Rightarrow> bool" where
  "frame_ok store sid d \<longleftrightarrow> decoded_payload_ok d \<and> validate_decoded d = Inr () \<and> da_append_sequence d \<noteq> 0 \<and>
     da_store_id d = store \<and> dd_store_id (da_declaration d) = store \<and> dd_series_id (da_declaration d) = sid \<and>
     md_series_id (env_series (da_envelope d)) = sid \<and> rq_series_id (da_retry d) = sid"

definition frame_at :: "bytes \<Rightarrow> nat \<Rightarrow> DecodedAdmissionV1 \<Rightarrow> bool" where
  "frame_at bs off d \<longleftrightarrow> off + length (frame_of d) \<le> length bs \<and> slice off (off + length (frame_of d)) bs = frame_of d"

definition frames_bytes :: "DecodedAdmissionV1 list \<Rightarrow> bytes" where
  "frames_bytes ds = concat (map frame_of ds)"

definition observation_total :: "DecodedAdmissionV1 list \<Rightarrow> nat" where
  "observation_total ds = sum_list (map (\<lambda>d. length (env_observations (da_envelope d))) ds)"

definition frame_location :: "SeriesId \<Rightarrow> nat \<Rightarrow> nat \<Rightarrow> DecodedAdmissionV1 \<Rightarrow> FrameLocation" where
  "frame_location sid off n d = \<lparr>fl_append_sequence = da_append_sequence d, fl_series_id = sid, fl_frame_offset = of_nat off,
     fl_frame_length = of_nat (length (frame_of d)), fl_frame_ordinal = of_nat n\<rparr>"

fun locate :: "SeriesId \<Rightarrow> nat \<Rightarrow> nat \<Rightarrow> DecodedAdmissionV1 list \<Rightarrow> (FrameLocation \<times> DecodedAdmissionV1) list" where
  "locate sid off n [] = []"
| "locate sid off n (d # ds) = (frame_location sid off n d, d) # locate sid (off + length (frame_of d)) (n + 1) ds"

definition observed :: "FrameLocation \<Rightarrow> DecodedAdmissionV1 \<Rightarrow> ObservationLocation list" where
  "observed l d = map (\<lambda>i. \<lparr>ol_series_id = fl_series_id l, ol_raw_order_key = raw_order_key (env_observations (da_envelope d) ! i),
     ol_append_sequence = fl_append_sequence l, ol_observation_ordinal = of_nat i, ol_frame_ordinal = fl_frame_ordinal l,
     ol_frame_offset = fl_frame_offset l, ol_frame_length = fl_frame_length l\<rparr>) [0..<length (env_observations (da_envelope d))]"

definition observed_all :: "(FrameLocation \<times> DecodedAdmissionV1) list \<Rightarrow> ObservationLocation list" where
  "observed_all ps = concat (map (\<lambda>(l, d). observed l d) ps)"

lemma frames_bytes_simps [simp]: "frames_bytes [] = []" "frames_bytes (d # ds) = frame_of d @ frames_bytes ds"
  by (simp_all add: frames_bytes_def)

lemma observation_total_simps [simp]: "observation_total [] = 0"
  "observation_total (d # ds) = length (env_observations (da_envelope d)) + observation_total ds"
  by (simp_all add: observation_total_def)

lemma observed_all_simps [simp]: "observed_all [] = []" "observed_all ((l, d) # ps) = observed l d @ observed_all ps"
  "observed_all (ps @ qs) = observed_all ps @ observed_all qs"
  by (simp_all add: observed_all_def)

lemma length_observed [simp]: "length (observed l d) = length (env_observations (da_envelope d))"
  by (simp add: observed_def)

lemma map_snd_locate [simp]: "map snd (locate sid off n ds) = ds"
  by (induction ds arbitrary: off n) auto

lemma length_locate [simp]: "length (locate sid off n ds) = length ds"
  by (metis length_map map_snd_locate)

lemma length_observed_all: "length (observed_all ps) = observation_total (map snd ps)"
  by (induction ps) auto

lemma frame_length_bounds:
  assumes "decoded_payload_ok d"
  shows "24 \<le> length (frame_of d)" "length (frame_of d) \<le> 8388632" "length (frame_of d) \<le> usize_max"
  using wire_payload_bound [OF assms] by (simp_all add: length_frame_of frame_consts)

lemma observations_bound: "decoded_payload_ok d \<Longrightarrow> length (env_observations (da_envelope d)) \<le> 256"
  by (auto simp: decoded_payload_ok_def envelope_ok_def env_observations_def observed_spec_def MAX_OBSERVATIONS_def
      split: Evidence.splits)

lemma observation_keys_ok:
  "decoded_payload_ok d \<Longrightarrow> i < length (env_observations (da_envelope d)) \<Longrightarrow> key_ok (raw_order_key (env_observations (da_envelope d) ! i))"
  by (auto simp: decoded_payload_ok_def envelope_ok_def env_observations_def key_ok_def raw_order_key_def list_all_length
      observation_ok_def observation_times_ok_def split: Evidence.splits)

lemma decode_frame_at:
  assumes "length bs \<le> usize_max"
  shows "decode_admission_frame_v1 bs decode_limits_maximum prev = Inr d \<longleftrightarrow> bs = frame_of d \<and> decoded_payload_ok d \<and>
     validate_decoded d = Inr () \<and> da_append_sequence d \<noteq> 0 \<and> sequence_follows prev (da_append_sequence d)"
  using wire_payload_bound [of d] by (auto simp: decode_frame_iff [OF assms] frame_admissible_def decode_limits_maximum_def)


lemma slice_prefix: "i + k \<le> j \<Longrightarrow> slice i (i + k) bs = take k (slice i j bs)"
  by (simp add: slice_def)

lemma and_then_assoc: "and_then (and_then m f) g = and_then m (\<lambda>x. and_then (f x) g)"
  by (cases m) auto

text \<open>The steps by which both loops cut a frame out of a buffer: its prefix, its announced length, the frame.\<close>

definition read_frame ::
  "SegmentV1Error \<Rightarrow> bytes \<Rightarrow> nat \<Rightarrow> nat \<Rightarrow> AppendSequenceV1 option \<Rightarrow> (SegmentV1Error, nat \<times> nat \<times> bytes \<times> DecodedAdmissionV1) result" where
  "read_frame bad bs stop off prev =
     and_then (ok_or SegmentBounds (usize_checked_add off JOURNAL_V1_FRAME_PREFIX_LEN)) (\<lambda>prefix_end.
     and_then (ok_or bad (if prefix_end \<le> stop then get_range off prefix_end bs else None)) (\<lambda>prefix_bytes.
     and_then (map_err (\<lambda>_. bad) (frame_len_from_prefix_v1 prefix_bytes decode_limits_maximum)) (\<lambda>n.
     and_then (ok_or SegmentBounds (usize_checked_add off n)) (\<lambda>frame_end.
     and_then (ok_or bad (if frame_end \<le> stop then get_range off frame_end bs else None)) (\<lambda>frame.
     and_then (map_err (\<lambda>_. bad) (decode_admission_frame_v1 frame decode_limits_maximum prev)) (\<lambda>d.
       Inr (n, frame_end, frame, d)))))))"

lemma read_frame_iff:
  assumes len: "length bs \<le> usize_max" and stop: "stop \<le> length bs"
  shows "read_frame bad bs stop off prev = Inr (n, frame_end, frame, d) \<longleftrightarrow>
     n = length (frame_of d) \<and> frame_end = off + n \<and> frame = frame_of d \<and> frame_end \<le> stop \<and> frame_at bs off d \<and>
     decoded_payload_ok d \<and> validate_decoded d = Inr () \<and> da_append_sequence d \<noteq> 0 \<and>
     sequence_follows prev (da_append_sequence d)" (is "?L \<longleftrightarrow> ?R")
proof
  assume ?L
  then have n: "frame_end = off + n" "frame_end \<le> stop" "frame = slice off (off + n) bs"
    and dec: "decode_admission_frame_v1 frame decode_limits_maximum prev = Inr d"
    by (auto simp: read_frame_def result_convs usize_checked_add_def get_range_def split: if_splits)
  then have "length frame = n" using stop by simp
  moreover have "length frame \<le> usize_max" using n stop len by simp
  ultimately have "frame = frame_of d" "n = length (frame_of d)" "decoded_payload_ok d" "validate_decoded d = Inr ()"
    "da_append_sequence d \<noteq> 0" "sequence_follows prev (da_append_sequence d)"
    using dec decode_frame_at [of frame prev d] by auto
  then show ?R using n stop by (auto simp: frame_at_def)
next
  assume R: ?R
  then have n: "24 \<le> n" "n \<le> usize_max" "off + n \<le> stop" "slice off (off + n) bs = frame_of d"
    using frame_length_bounds [of d] by (auto simp: frame_at_def)
  have dec: "decode_admission_frame_v1 (frame_of d) decode_limits_maximum prev = Inr d"
    using R n by (simp add: decode_frame_at)
  have "frame_len_from_prefix_v1 (slice off (off + 20) bs) decode_limits_maximum = Inr n"
    using frame_len_from_prefix [OF _ dec] n R slice_prefix [of off 20 "off + n" bs] by simp
  then show ?L
    using R n dec stop len
    by (simp add: read_frame_def usize_checked_add_def get_range_def JOURNAL_V1_FRAME_PREFIX_LEN_def)
qed

section \<open>Frames of a block, as parsed\<close>

lemma expected_locations_observed:
  assumes "fl_series_id l = sid" "k + length obs \<le> 2 ^ 32"
  shows "expected_locations sid l k obs = Inr (map (\<lambda>i. \<lparr>ol_series_id = fl_series_id l, ol_raw_order_key = raw_order_key (obs ! i),
     ol_append_sequence = fl_append_sequence l, ol_observation_ordinal = of_nat (k + i), ol_frame_ordinal = fl_frame_ordinal l,
     ol_frame_offset = fl_frame_offset l, ol_frame_length = fl_frame_length l\<rparr>) [0..<length obs])"
  using assms(2)
proof (induction obs arbitrary: k)
  case (Cons ob obs)
  from Cons.prems Cons.IH [of "Suc k"] assms(1) show ?case
    by (simp add: to_u32_def map_upt_Suc del: upt_Suc)
qed simp

lemma parse_frame_read:
  "parse_frame bs store sid block_end ord s =
     and_then (read_frame SegmentInvalid bs block_end (bs_frame_offset s) None) (\<lambda>(frame_length, frame_end, frame, decoded).
       if frame_scope_refused store sid (bs_prior s) decoded then Inl SegmentInvalid
       else
         and_then (map_err (\<lambda>_. SegmentInvalid) (encode_decoded_admission_frame_v1 decoded)) (\<lambda>encoded.
         if encoded \<noteq> frame then Inl SegmentInvalid
         else
           and_then (to_u64 (bs_frame_offset s)) (\<lambda>off.
           and_then (to_u64 frame_length) (\<lambda>len.
           let proof' = \<lparr>fl_append_sequence = da_append_sequence decoded, fl_series_id = sid,
                 fl_frame_offset = off, fl_frame_length = len, fl_frame_ordinal = ord\<rparr>;
               frame_observations = env_observations (da_envelope decoded) in
           and_then (ok_or SegmentBounds (usize_checked_add (bs_observation_count s) (length frame_observations))) (\<lambda>count.
           and_then (expected_locations sid proof' 0 frame_observations) (\<lambda>locations.
             Inr \<lparr>bs_frame_offset = frame_end, bs_prior = Some (da_append_sequence decoded),
               bs_observation_count = count, bs_proofs = bs_proofs s @ [proof'],
               bs_expected = bs_expected s @ locations\<rparr>))))))"
  by (simp add: parse_frame_def read_frame_def and_then_assoc)

definition block_after :: "SeriesId \<Rightarrow> nat \<Rightarrow> DecodedAdmissionV1 \<Rightarrow> BlockScan \<Rightarrow> BlockScan" where
  "block_after sid n d s =
     (let l = frame_location sid (bs_frame_offset s) n d in
      \<lparr>bs_frame_offset = bs_frame_offset s + length (frame_of d), bs_prior = Some (da_append_sequence d),
       bs_observation_count = bs_observation_count s + length (env_observations (da_envelope d)),
       bs_proofs = bs_proofs s @ [l], bs_expected = bs_expected s @ observed l d\<rparr>)"

lemma block_after_fields [simp]:
  "bs_frame_offset (block_after sid n d s) = bs_frame_offset s + length (frame_of d)"
  "bs_prior (block_after sid n d s) = Some (da_append_sequence d)"
  "bs_observation_count (block_after sid n d s) = bs_observation_count s + length (env_observations (da_envelope d))"
  "bs_proofs (block_after sid n d s) = bs_proofs s @ [frame_location sid (bs_frame_offset s) n d]"
  "bs_expected (block_after sid n d s) = bs_expected s @ observed (frame_location sid (bs_frame_offset s) n d) d"
  by (simp_all add: block_after_def Let_def)

lemma frame_ok_payload: "frame_ok store sid d \<Longrightarrow> decoded_payload_ok d"
  by (simp add: frame_ok_def)

lemma parse_frame_iff:
  assumes len: "length bs \<le> usize_max" and stop: "block_end \<le> length bs" and count: "bs_observation_count s + 256 \<le> usize_max"
  shows "parse_frame bs store sid block_end (of_nat n) s = Inr s' \<longleftrightarrow>
     (\<exists>d. bs_frame_offset s + length (frame_of d) \<le> block_end \<and> frame_at bs (bs_frame_offset s) d \<and> frame_ok store sid d \<and>
        (\<forall>p. bs_prior s = Some p \<longrightarrow> p < da_append_sequence d) \<and> s' = block_after sid n d s)"
    (is "?L \<longleftrightarrow> (\<exists>d. ?R d)")
proof -
  have step: "?L \<longleftrightarrow> ?R d"
    if "read_frame SegmentInvalid bs block_end (bs_frame_offset s) None = Inr (m, frame_end, frame, d)" for m frame_end frame d
  proof -
    have d: "m = length (frame_of d)" "frame_end = bs_frame_offset s + m" "frame = frame_of d" "frame_end \<le> block_end"
      "frame_at bs (bs_frame_offset s) d" "decoded_payload_ok d" "validate_decoded d = Inr ()" "da_append_sequence d \<noteq> 0"
      using that unfolding read_frame_iff [OF len stop] by auto
    have "length (env_observations (da_envelope d)) \<le> 256" using d by (simp add: observations_bound)
    then show ?thesis
      using d that len stop count
      by (auto simp: parse_frame_read frame_scope_refused_def frame_ok_def block_after_def encode_decoded_frame_of to_u64_def
          usize_checked_add_def Let_def expected_locations_observed frame_location_def observed_def is_some_and_def
          split: option.splits if_splits)
  qed
  show ?thesis
  proof (cases "read_frame SegmentInvalid bs block_end (bs_frame_offset s) None")
    case (Inl e)
    then have "\<not> ?L" by (simp add: parse_frame_read)
    moreover have "\<not> ?R d" for d
    proof
      assume "?R d"
      then have "read_frame SegmentInvalid bs block_end (bs_frame_offset s) None =
          Inr (length (frame_of d), bs_frame_offset s + length (frame_of d), frame_of d, d)"
        unfolding read_frame_iff [OF len stop] by (auto simp: frame_ok_def sequence_follows_def)
      with Inl show False by simp
    qed
    ultimately show ?thesis by blast
  next
    case (Inr r)
    obtain m fe fr d where r: "r = (m, fe, fr, d)" by (cases r)
    have "d' = d" if "?R d'" for d'
    proof -
      from that have "read_frame SegmentInvalid bs block_end (bs_frame_offset s) None =
          Inr (length (frame_of d'), bs_frame_offset s + length (frame_of d'), frame_of d', d')"
        unfolding read_frame_iff [OF len stop] by (auto simp: frame_ok_def sequence_follows_def)
      with Inr r show ?thesis by simp
    qed
    with step [OF Inr [unfolded r]] show ?thesis by blast
  qed
qed

fun ascends :: "'k::linorder option \<Rightarrow> 'k list \<Rightarrow> bool" where
  "ascends p [] \<longleftrightarrow> True"
| "ascends p (x # xs) \<longleftrightarrow> (\<forall>q. p = Some q \<longrightarrow> q < x) \<and> ascends (Some x) xs"

lemma ascends_Some: "ascends (Some q) xs \<longleftrightarrow> sorted_wrt (<) (q # xs)"
  by (induction xs arbitrary: q) (auto intro: order.strict_trans)

lemma ascends_None: "ascends None xs \<longleftrightarrow> sorted_wrt (<) xs"
  by (cases xs) (auto simp: ascends_Some)

fun frames_after :: "SeriesId \<Rightarrow> nat \<Rightarrow> DecodedAdmissionV1 list \<Rightarrow> BlockScan \<Rightarrow> BlockScan" where
  "frames_after sid n [] s = s"
| "frames_after sid n (d # ds) s = frames_after sid (n + 1) ds (block_after sid n d s)"

lemma frames_after_fields:
  "bs_frame_offset (frames_after sid n ds s) = bs_frame_offset s + length (frames_bytes ds)"
  "bs_observation_count (frames_after sid n ds s) = bs_observation_count s + observation_total ds"
  "bs_proofs (frames_after sid n ds s) = bs_proofs s @ map fst (locate sid (bs_frame_offset s) n ds)"
  "bs_expected (frames_after sid n ds s) = bs_expected s @ observed_all (locate sid (bs_frame_offset s) n ds)"
  by (induction ds arbitrary: n s) simp_all

lemma slice_append_iff:
  assumes "i + length xs + length ys \<le> length bs"
  shows "slice i (i + length xs + length ys) bs = xs @ ys \<longleftrightarrow>
     slice i (i + length xs) bs = xs \<and> slice (i + length xs) (i + length xs + length ys) bs = ys"
proof -
  have "slice i (i + length xs + length ys) bs = slice i (i + length xs) bs @ slice (i + length xs) (i + length xs + length ys) bs"
    by (simp add: slice_join)
  moreover have "length (slice i (i + length xs) bs) = length xs" using assms by simp
  ultimately show ?thesis by (metis append_eq_append_conv)
qed

fun frames_at :: "bytes \<Rightarrow> nat \<Rightarrow> nat \<Rightarrow> DecodedAdmissionV1 list \<Rightarrow> bool" where
  "frames_at bs off stop [] \<longleftrightarrow> True"
| "frames_at bs off stop (d # ds) \<longleftrightarrow> off + length (frame_of d) \<le> stop \<and> frame_at bs off d \<and>
     frames_at bs (off + length (frame_of d)) stop ds"

lemma frames_at_slice:
  "off \<le> stop \<Longrightarrow> stop \<le> length bs \<Longrightarrow> frames_at bs off stop ds \<longleftrightarrow>
   off + length (frames_bytes ds) \<le> stop \<and> slice off (off + length (frames_bytes ds)) bs = frames_bytes ds"
proof (induction ds arbitrary: off)
  case Nil
  then show ?case by (simp add: slice_def)
next
  case (Cons d ds)
  show ?case
  proof (cases "off + length (frame_of d) + length (frames_bytes ds) \<le> stop")
    case True
    then show ?thesis
      using Cons slice_append_iff [of off "frame_of d" "frames_bytes ds" bs] by (auto simp: frame_at_def add.assoc)
  next
    case False
    then show ?thesis using Cons.IH [of "off + length (frame_of d)"] Cons.prems by auto
  qed
qed

lemma ex_length_Suc: "(\<exists>xs. length xs = Suc k \<and> Q xs) \<longleftrightarrow> (\<exists>x xs. length xs = k \<and> Q (x # xs))"
  by (metis length_Suc_conv)

lemma parse_frames_iff:
  assumes len: "length bs \<le> usize_max" and stop: "block_end \<le> length bs"
  shows "bs_observation_count s + 256 * k \<le> usize_max \<Longrightarrow> parse_frames bs store sid block_end k n s = Inr s' \<longleftrightarrow>
     (\<exists>ds. length ds = k \<and> list_all (frame_ok store sid) ds \<and> ascends (bs_prior s) (map da_append_sequence ds) \<and>
        frames_at bs (bs_frame_offset s) block_end ds \<and> s' = frames_after sid n ds s)"
proof (induction k arbitrary: n s)
  case 0
  then show ?case by auto
next
  case (Suc k)
  have "parse_frames bs store sid block_end (Suc k) n s = Inr s' \<longleftrightarrow>
      (\<exists>s1. parse_frame bs store sid block_end (of_nat n) s = Inr s1 \<and> parse_frames bs store sid block_end k (n + 1) s1 = Inr s')"
    by (auto split: sum.splits)
  also have "\<dots> \<longleftrightarrow> (\<exists>d. bs_frame_offset s + length (frame_of d) \<le> block_end \<and> frame_at bs (bs_frame_offset s) d \<and>
      frame_ok store sid d \<and> (\<forall>p. bs_prior s = Some p \<longrightarrow> p < da_append_sequence d) \<and>
      parse_frames bs store sid block_end k (n + 1) (block_after sid n d s) = Inr s')"
    using parse_frame_iff [OF len stop, of s store sid n] Suc.prems by auto
  also have "\<dots> \<longleftrightarrow> (\<exists>d ds. bs_frame_offset s + length (frame_of d) \<le> block_end \<and> frame_at bs (bs_frame_offset s) d \<and>
      frame_ok store sid d \<and> (\<forall>p. bs_prior s = Some p \<longrightarrow> p < da_append_sequence d) \<and>
      length ds = k \<and> list_all (frame_ok store sid) ds \<and> ascends (Some (da_append_sequence d)) (map da_append_sequence ds) \<and>
      frames_at bs (bs_frame_offset s + length (frame_of d)) block_end ds \<and> s' = frames_after sid n (d # ds) s)"
  proof -
    have "parse_frames bs store sid block_end k (n + 1) (block_after sid n d s) = Inr s' \<longleftrightarrow>
      (\<exists>ds. length ds = k \<and> list_all (frame_ok store sid) ds \<and> ascends (Some (da_append_sequence d)) (map da_append_sequence ds) \<and>
        frames_at bs (bs_frame_offset s + length (frame_of d)) block_end ds \<and> s' = frames_after sid n (d # ds) s)"
      if "frame_ok store sid d" for d
      using Suc.IH [of "block_after sid n d s" "n + 1"] Suc.prems observations_bound [OF frame_ok_payload [OF that]]
      by simp
    then show ?thesis by blast
  qed
  also have "\<dots> \<longleftrightarrow> (\<exists>ds. length ds = Suc k \<and> list_all (frame_ok store sid) ds \<and> ascends (bs_prior s) (map da_append_sequence ds) \<and>
        frames_at bs (bs_frame_offset s) block_end ds \<and> s' = frames_after sid n ds s)"
    unfolding ex_length_Suc list.map ascends.simps frames_at.simps list.pred_inject by blast
  finally show ?case .
qed

section \<open>Tables of fixed-size entries\<close>

fun table :: "bytes \<Rightarrow> nat \<Rightarrow> nat \<Rightarrow> ('a \<Rightarrow> bytes) \<Rightarrow> 'a list \<Rightarrow> bool" where
  "table bs off w f [] \<longleftrightarrow> True"
| "table bs off w f (x # xs) \<longleftrightarrow> slice off (off + w) bs = f x \<and> table bs (off + w) w f xs"

lemma length_table: "list_all (\<lambda>x. length (f x) = w) xs \<Longrightarrow> length (concat (map f xs)) = length xs * w"
  by (induction xs) auto

lemma table_slice:
  "list_all (\<lambda>x. length (f x) = w) xs \<Longrightarrow> off + length xs * w \<le> length bs \<Longrightarrow>
   table bs off w f xs \<longleftrightarrow> slice off (off + length xs * w) bs = concat (map f xs)"
proof (induction xs arbitrary: off)
  case Nil
  then show ?case by (simp add: slice_def)
next
  case (Cons x xs)
  then show ?case
    using slice_append_iff [of off "f x" "concat (map f xs)" bs] length_table [of f w xs] by (auto simp: add.assoc)
qed

section \<open>Blocks\<close>

definition block_ok :: "StoreId \<Rightarrow> block \<Rightarrow> bool" where
  "block_ok store b \<longleftrightarrow> snd b \<noteq> [] \<and> list_all (frame_ok store (fst b)) (snd b) \<and> sorted_wrt (<) (map da_append_sequence (snd b))"

definition block_small :: "block \<Rightarrow> bool" where
  "block_small b \<longleftrightarrow> length (snd b) < 2 ^ 32 \<and> observation_total (snd b) < 2 ^ 32"

definition blocks_bytes :: "block list \<Rightarrow> bytes" where
  "blocks_bytes bl = concat (map (\<lambda>b. frames_bytes (snd b)) bl)"

definition series_entry :: "nat \<Rightarrow> nat \<Rightarrow> block \<Rightarrow> SegmentSeriesEntryV1" where
  "series_entry boff roff b = \<lparr>se_series_id = fst b, se_block_offset = of_nat boff,
     se_block_length = of_nat (length (frames_bytes (snd b))), se_frame_count = of_nat (length (snd b)),
     se_observation_count = of_nat (observation_total (snd b)), se_recent_offset = of_nat roff,
     se_recent_length = of_nat (observation_total (snd b) * 96)\<rparr>"

fun series_entries :: "nat \<Rightarrow> nat \<Rightarrow> block list \<Rightarrow> SegmentSeriesEntryV1 list" where
  "series_entries boff roff [] = []"
| "series_entries boff roff (b # bl) = series_entry boff roff b #
     series_entries (boff + length (frames_bytes (snd b))) (roff + observation_total (snd b) * 96) bl"

fun place :: "nat \<Rightarrow> block list \<Rightarrow> (FrameLocation \<times> DecodedAdmissionV1) list list" where
  "place boff [] = []"
| "place boff (b # bl) = locate (fst b) boff 0 (snd b) # place (boff + length (frames_bytes (snd b))) bl"

definition block_frames :: "block list \<Rightarrow> DecodedAdmissionV1 list" where
  "block_frames bl = concat (map snd bl)"

lemma blocks_bytes_simps [simp]: "blocks_bytes [] = []" "blocks_bytes (b # bl) = frames_bytes (snd b) @ blocks_bytes bl"
  by (simp_all add: blocks_bytes_def)

lemma block_frames_simps [simp]: "block_frames [] = []" "block_frames (b # bl) = snd b @ block_frames bl"
  by (simp_all add: block_frames_def)

lemma map_snd_place [simp]: "map snd (concat (place boff bl)) = block_frames bl"
  by (induction bl arbitrary: boff) auto

lemma length_series_entries [simp]: "length (series_entries boff roff bl) = length bl"
  by (induction bl arbitrary: boff roff) auto

lemma series_entries_ids [simp]: "map se_series_id (series_entries boff roff bl) = map fst bl"
  by (induction bl arbitrary: boff roff) (auto simp: series_entry_def)

lemma frame_ok_series: "frame_ok store sid d \<Longrightarrow> identity_ok sid"
  by (auto simp: frame_ok_def decoded_payload_ok_def envelope_ok_def metadata_ok_def)

lemma block_ok_series: "block_ok store b \<Longrightarrow> identity_ok (fst b)"
  by (cases "snd b") (auto simp: block_ok_def dest: frame_ok_series)

lemma observation_total_bound: "list_all decoded_payload_ok ds \<Longrightarrow> observation_total ds \<le> 256 * length ds"
  by (induction ds) (auto dest: observations_bound)

lemma observation_total_append [simp]: "observation_total (xs @ ys) = observation_total xs + observation_total ys"
  by (simp add: observation_total_def)

end
