(* ===== verification/Och_Segment_Parse.thy ===== *)
theory Och_Segment_Parse
  imports Och_Segment_Spec
begin

text \<open>
  Parsing accepts exactly the canonical segments: the series directory, the blocks, the append directory and
  the observation directory are each characterised, then the whole buffer (\<open>parse_segment_iff\<close>).
\<close>

section \<open>The series directory\<close>

fun chained :: "nat \<Rightarrow> nat \<Rightarrow> nat \<Rightarrow> nat \<Rightarrow> SegmentSeriesEntryV1 list \<Rightarrow> bool" where
  "chained bmax rmax boff roff [] \<longleftrightarrow> True"
| "chained bmax rmax boff roff (e # es) \<longleftrightarrow> identity_ok (se_series_id e) \<and> se_frame_count e \<noteq> 0 \<and>
     unat (se_block_offset e) = boff \<and> unat (se_recent_offset e) = roff \<and>
     unat (se_recent_length e) = unat (se_observation_count e) * 96 \<and>
     boff + unat (se_block_length e) \<le> bmax \<and> roff + unat (se_recent_length e) \<le> rmax \<and>
     chained bmax rmax (boff + unat (se_block_length e)) (roff + unat (se_recent_length e)) es"

definition series_after1 :: "SegmentSeriesEntryV1 \<Rightarrow> SeriesScan \<Rightarrow> SeriesScan" where
  "series_after1 e s = \<lparr>sc_series = sc_series s @ [e], sc_block_offset = sc_block_offset s + unat (se_block_length e),
     sc_recent_offset = sc_recent_offset s + unat (se_recent_length e), sc_frames = sc_frames s + unat (se_frame_count e),
     sc_observations = sc_observations s + unat (se_observation_count e)\<rparr>"

lemma series_after1_fields [simp]:
  "sc_series (series_after1 e s) = sc_series s @ [e]"
  "sc_block_offset (series_after1 e s) = sc_block_offset s + unat (se_block_length e)"
  "sc_recent_offset (series_after1 e s) = sc_recent_offset s + unat (se_recent_length e)"
  "sc_frames (series_after1 e s) = sc_frames s + unat (se_frame_count e)"
  "sc_observations (series_after1 e s) = sc_observations s + unat (se_observation_count e)"
  by (simp_all add: series_after1_def)

definition last_id :: "SegmentSeriesEntryV1 list \<Rightarrow> SeriesId option" where
  "last_id es = (if es = [] then None else Some (se_series_id (last es)))"

lemma unat_u32_less: "unat (x::u32) < 4294967296"
  using unat_less_2p [of x] by simp

lemma parse_series_step:
  assumes max: "ly_append_offset layout \<le> usize_max" "checksum_offset \<le> usize_max"
    and room: "sc_frames s + 2 ^ 32 \<le> usize_max" "sc_observations s + 2 ^ 32 \<le> usize_max"
    and off: "offset = ly_series_offset layout + index * 64"
  shows "parse_series bs layout checksum_offset (Suc n) index s = Inr s' \<longleftrightarrow>
     (\<exists>e. slice offset (offset + 64) bs = wire_series_entry e \<and>
        chained (ly_append_offset layout) checksum_offset (sc_block_offset s) (sc_recent_offset s) [e] \<and>
        ascends (last_id (sc_series s)) [se_series_id e] \<and>
        parse_series bs layout checksum_offset n (index + 1) (series_after1 e s) = Inr s')"
proof -
  have mul: "usize_checked_mul (unat (se_observation_count e)) 96 = Some (unat (se_observation_count e) * 96)" for e
    using unat_u32_less [of "se_observation_count e"] by (simp add: usize_checked_mul_def)
  have add: "usize_checked_add (sc_frames s) (unat (se_frame_count e)) = Some (sc_frames s + unat (se_frame_count e))"
    "usize_checked_add (sc_observations s) (unat (se_observation_count e)) = Some (sc_observations s + unat (se_observation_count e))" for e
    using room unat_u32_less [of "se_frame_count e"] unat_u32_less [of "se_observation_count e"] by (simp_all add: usize_checked_add_def)
  have "parse_series bs layout checksum_offset (Suc n) index s = Inr s' \<longleftrightarrow>
     (\<exists>e. decode_series_entry (slice offset (offset + 64) bs) = Inr e \<and> \<not> series_entry_refused s e \<and>
        sc_block_offset s + unat (se_block_length e) \<le> ly_append_offset layout \<and>
        sc_recent_offset s + unat (se_recent_length e) \<le> checksum_offset \<and>
        parse_series bs layout checksum_offset n (index + 1) (series_after1 e s) = Inr s')"
    using max
    by (auto simp: Let_def off SEGMENT_V1_SERIES_ENTRY_LEN_def add usize_checked_add_def [of "sc_block_offset s"]
        usize_checked_add_def [of "sc_recent_offset s"] series_after1_def split: sum.splits option.splits if_splits)
  then show ?thesis
    unfolding decode_series_entry_iff
    by (auto simp: series_entry_refused_def SEGMENT_V1_OBSERVATION_ENTRY_LEN_def mul last_id_def not_le)
qed

fun series_after :: "SegmentSeriesEntryV1 list \<Rightarrow> SeriesScan \<Rightarrow> SeriesScan" where
  "series_after [] s = s"
| "series_after (e # es) s = series_after es (series_after1 e s)"

lemma series_after_fields:
  "sc_series (series_after es s) = sc_series s @ es"
  "sc_block_offset (series_after es s) = sc_block_offset s + sum_list (map (\<lambda>e. unat (se_block_length e)) es)"
  "sc_recent_offset (series_after es s) = sc_recent_offset s + sum_list (map (\<lambda>e. unat (se_recent_length e)) es)"
  "sc_frames (series_after es s) = sc_frames s + sum_list (map (\<lambda>e. unat (se_frame_count e)) es)"
  "sc_observations (series_after es s) = sc_observations s + sum_list (map (\<lambda>e. unat (se_observation_count e)) es)"
  by (induction es arbitrary: s) simp_all

lemma parse_series_iff:
  assumes max: "ly_append_offset layout \<le> usize_max" "checksum_offset \<le> usize_max"
  shows "sc_frames s + n * 2 ^ 32 \<le> usize_max \<Longrightarrow> sc_observations s + n * 2 ^ 32 \<le> usize_max \<Longrightarrow>
    parse_series bs layout checksum_offset n index s = Inr s' \<longleftrightarrow>
     (\<exists>es. length es = n \<and> table bs (ly_series_offset layout + index * 64) 64 wire_series_entry es \<and>
        chained (ly_append_offset layout) checksum_offset (sc_block_offset s) (sc_recent_offset s) es \<and>
        ascends (last_id (sc_series s)) (map se_series_id es) \<and> s' = series_after es s)"
proof (induction n arbitrary: index s)
  case 0
  then show ?case by auto
next
  case (Suc n)
  define off where "off = ly_series_offset layout + index * 64"
  have IH: "parse_series bs layout checksum_offset n (index + 1) (series_after1 e s) = Inr s' \<longleftrightarrow>
     (\<exists>es. length es = n \<and> table bs (off + 64) 64 wire_series_entry es \<and>
        chained (ly_append_offset layout) checksum_offset (sc_block_offset s + unat (se_block_length e))
          (sc_recent_offset s + unat (se_recent_length e)) es \<and>
        ascends (Some (se_series_id e)) (map se_series_id es) \<and> s' = series_after (e # es) s)" for e
    using Suc.IH [of "series_after1 e s" "index + 1"] Suc.prems unat_u32_less [of "se_frame_count e"]
      unat_u32_less [of "se_observation_count e"]
    by (simp add: last_id_def off_def add.assoc add.commute [of 64])
  have room: "sc_frames s + 2 ^ 32 \<le> usize_max" "sc_observations s + 2 ^ 32 \<le> usize_max" using Suc.prems by simp_all
  show ?case
    unfolding parse_series_step [OF max room off_def] IH ex_length_Suc off_def [symmetric] list.map table.simps chained.simps
      ascends.simps by blast
qed

section \<open>The blocks\<close>

lemma word_of_unat: "unat w = n \<Longrightarrow> w = of_nat n" for w :: "'a::len word"
  by auto

lemma unat_of_nat_64: "n < 2 ^ 64 \<Longrightarrow> unat (of_nat n :: u64) = n"
  by (simp add: unat_of_nat)

lemma series_entry_eq:
  assumes "unat (se_block_offset e) = boff" "unat (se_recent_offset e) = roff"
    "unat (se_recent_length e) = unat (se_observation_count e) * 96"
  shows "e = series_entry boff roff (sid, ds) \<and> block_small (sid, ds) \<and> length (frames_bytes ds) < 2 ^ 64 \<longleftrightarrow> se_series_id e = sid \<and>
     unat (se_frame_count e) = length ds \<and> unat (se_block_length e) = length (frames_bytes ds) \<and>
     unat (se_observation_count e) = observation_total ds" (is "?L \<longleftrightarrow> ?R")
proof
  assume ?L
  then show ?R by (auto simp: series_entry_def block_small_def unat_of_nat)
next
  assume R: ?R
  have "e = series_entry boff roff (sid, ds)"
    using R assms word_of_unat [OF assms(1)] word_of_unat [OF assms(2)] word_of_unat [OF assms(3)]
      word_of_unat [of "se_frame_count e"] word_of_unat [of "se_block_length e"] word_of_unat [of "se_observation_count e"]
    by (intro SegmentSeriesEntryV1.equality) (simp_all add: series_entry_def del: of_nat_mult)
  then show ?L using R unat_less_2p [of "se_frame_count e"] unat_less_2p [of "se_observation_count e"]
      unat_less_2p [of "se_block_length e"] by (simp add: block_small_def)
qed


lemma parse_block_iff:
  assumes len: "length bs \<le> usize_max" and fit: "boff + unat (se_block_length e) \<le> length bs"
    and e: "unat (se_block_offset e) = boff" "unat (se_recent_offset e) = roff"
      "unat (se_recent_length e) = unat (se_observation_count e) * 96" "se_frame_count e \<noteq> 0"
  shows "parse_blocks bs store (e # es) (p, x) = Inr r \<longleftrightarrow>
    (\<exists>ds. e = series_entry boff roff (se_series_id e, ds) \<and> block_small (se_series_id e, ds) \<and> block_ok store (se_series_id e, ds) \<and>
      boff + length (frames_bytes ds) \<le> length bs \<and> slice boff (boff + length (frames_bytes ds)) bs = frames_bytes ds \<and>
      parse_blocks bs store es (p @ map fst (locate (se_series_id e) boff 0 ds), x @ observed_all (locate (se_series_id e) boff 0 ds)) = Inr r)"
proof -
  define s0 where "s0 = \<lparr>bs_frame_offset = boff, bs_prior = None, bs_observation_count = 0, bs_proofs = p, bs_expected = x\<rparr>"
  define stop where "stop = boff + unat (se_block_length e)"
  have stop: "stop \<le> length bs" "boff \<le> stop" using fit by (simp_all add: stop_def)
  have room: "bs_observation_count s0 + 256 * unat (se_frame_count e) \<le> usize_max"
    using unat_u32_less [of "se_frame_count e"] by (simp add: s0_def)
  have "parse_blocks bs store (e # es) (p, x) = Inr r \<longleftrightarrow>
     (\<exists>s. parse_frames bs store (se_series_id e) stop (unat (se_frame_count e)) 0 s0 = Inr s \<and> bs_frame_offset s = stop \<and>
        unat (se_observation_count e) = bs_observation_count s \<and> parse_blocks bs store es (bs_proofs s, bs_expected s) = Inr r)"
    using len stop by (auto simp: e s0_def stop_def usize_checked_add_def Let_def split: sum.splits if_splits)
  also have "\<dots> \<longleftrightarrow> (\<exists>ds. length ds = unat (se_frame_count e) \<and> list_all (frame_ok store (se_series_id e)) ds \<and>
        sorted_wrt (<) (map da_append_sequence ds) \<and> frames_at bs boff stop ds \<and>
        length (frames_bytes ds) = unat (se_block_length e) \<and> unat (se_observation_count e) = observation_total ds \<and>
      parse_blocks bs store es (p @ map fst (locate (se_series_id e) boff 0 ds), x @ observed_all (locate (se_series_id e) boff 0 ds)) = Inr r)"
    unfolding parse_frames_iff [OF len stop(1) room]
    by (auto simp: s0_def frames_after_fields ascends_None stop_def) 
  also have "\<dots> \<longleftrightarrow> (\<exists>ds. e = series_entry boff roff (se_series_id e, ds) \<and> block_small (se_series_id e, ds) \<and> block_ok store (se_series_id e, ds) \<and>
      boff + length (frames_bytes ds) \<le> length bs \<and> slice boff (boff + length (frames_bytes ds)) bs = frames_bytes ds \<and>
      parse_blocks bs store es (p @ map fst (locate (se_series_id e) boff 0 ds), x @ observed_all (locate (se_series_id e) boff 0 ds)) = Inr r)"
  proof -
    have "length ds = unat (se_frame_count e) \<and> list_all (frame_ok store (se_series_id e)) ds \<and>
        sorted_wrt (<) (map da_append_sequence ds) \<and> frames_at bs boff stop ds \<and>
        length (frames_bytes ds) = unat (se_block_length e) \<and> unat (se_observation_count e) = observation_total ds \<longleftrightarrow>
      e = series_entry boff roff (se_series_id e, ds) \<and> block_small (se_series_id e, ds) \<and> block_ok store (se_series_id e, ds) \<and>
      boff + length (frames_bytes ds) \<le> length bs \<and> slice boff (boff + length (frames_bytes ds)) bs = frames_bytes ds" for ds
    proof -
      have "ds \<noteq> []" if "unat (se_frame_count e) = length ds" using that e(4) by (auto simp: unat_eq_0)
      moreover have "length (frames_bytes ds) < 2 ^ 64" if "boff + length (frames_bytes ds) \<le> length bs" using that len by simp
      moreover have "(frames_at bs boff stop ds \<longleftrightarrow> slice boff (boff + length (frames_bytes ds)) bs = frames_bytes ds) \<and>
          boff + length (frames_bytes ds) \<le> length bs" if "unat (se_block_length e) = length (frames_bytes ds)"
        using frames_at_slice [OF stop(2,1), of ds] stop that by (simp add: stop_def)
      moreover note series_entry_eq [OF e(1-3), of "se_series_id e" ds]
      ultimately show ?thesis
        unfolding block_ok_def fst_conv snd_conv by (metis (no_types, lifting))
    qed
    then show ?thesis by blast
  qed
  finally show ?thesis .
qed

lemma parse_blocks_iff:
  assumes len: "length bs \<le> usize_max" and max: "bmax \<le> length bs"
  shows "chained bmax rmax boff roff es \<Longrightarrow> boff \<le> bmax \<Longrightarrow> parse_blocks bs store es (p, x) = Inr (p', x') \<longleftrightarrow>
    (\<exists>bl. es = series_entries boff roff bl \<and> list_all (block_ok store) bl \<and> list_all block_small bl \<and>
      boff + length (blocks_bytes bl) \<le> length bs \<and> slice boff (boff + length (blocks_bytes bl)) bs = blocks_bytes bl \<and>
      p' = p @ map fst (concat (place boff bl)) \<and> x' = x @ observed_all (concat (place boff bl)))"
proof (induction es arbitrary: boff roff p x)
  case Nil
  have "[] = series_entries boff roff bl \<longleftrightarrow> bl = []" for bl by (cases bl) auto
  then show ?case using Nil max by (auto simp: slice_def)
next
  case (Cons e es)
  have e: "unat (se_block_offset e) = boff" "unat (se_recent_offset e) = roff"
      "unat (se_recent_length e) = unat (se_observation_count e) * 96" "se_frame_count e \<noteq> 0"
    and fit: "boff + unat (se_block_length e) \<le> bmax"
    and rest: "chained bmax rmax (boff + unat (se_block_length e)) (roff + unat (se_recent_length e)) es"
    using Cons.prems(1) unfolding chained.simps by blast+
  define sid where "sid = se_series_id e"
  define hd_ok where "hd_ok ds \<longleftrightarrow> e = series_entry boff roff (sid, ds) \<and> block_small (sid, ds) \<and> block_ok store (sid, ds) \<and>
      boff + length (frames_bytes ds) \<le> length bs \<and> slice boff (boff + length (frames_bytes ds)) bs = frames_bytes ds" for ds
  have lens: "unat (se_block_length e) = length (frames_bytes ds)" "unat (se_recent_length e) = observation_total ds * 96"
    if "hd_ok ds" for ds
    using series_entry_eq [OF e(1-3), of sid ds] that e(3) len by (auto simp: hd_ok_def)
  have "parse_blocks bs store (e # es) (p, x) = Inr (p', x') \<longleftrightarrow>
      (\<exists>ds. hd_ok ds \<and> parse_blocks bs store es (p @ map fst (locate sid boff 0 ds), x @ observed_all (locate sid boff 0 ds)) = Inr (p', x'))"
    using parse_block_iff [OF len _ e, of store es p x "(p', x')"] fit max by (auto simp: hd_ok_def sid_def)
  also have "\<dots> \<longleftrightarrow> (\<exists>ds bl. hd_ok ds \<and> es = series_entries (boff + length (frames_bytes ds)) (roff + observation_total ds * 96) bl \<and>
      list_all (block_ok store) bl \<and> list_all block_small bl \<and>
      boff + length (frames_bytes ds) + length (blocks_bytes bl) \<le> length bs \<and>
      slice (boff + length (frames_bytes ds)) (boff + length (frames_bytes ds) + length (blocks_bytes bl)) bs = blocks_bytes bl \<and>
      p' = p @ map fst (concat (place boff ((sid, ds) # bl))) \<and> x' = x @ observed_all (concat (place boff ((sid, ds) # bl))))"
  proof -
    have "parse_blocks bs store es (p @ map fst (locate sid boff 0 ds), x @ observed_all (locate sid boff 0 ds)) = Inr (p', x') \<longleftrightarrow>
      (\<exists>bl. es = series_entries (boff + length (frames_bytes ds)) (roff + observation_total ds * 96) bl \<and>
      list_all (block_ok store) bl \<and> list_all block_small bl \<and>
      boff + length (frames_bytes ds) + length (blocks_bytes bl) \<le> length bs \<and>
      slice (boff + length (frames_bytes ds)) (boff + length (frames_bytes ds) + length (blocks_bytes bl)) bs = blocks_bytes bl \<and>
      p' = p @ map fst (concat (place boff ((sid, ds) # bl))) \<and> x' = x @ observed_all (concat (place boff ((sid, ds) # bl))))"
      if "hd_ok ds" for ds
      using Cons.IH [OF rest fit] by (simp add: lens [OF that])
    then show ?thesis by blast
  qed
  also have "\<dots> \<longleftrightarrow> (\<exists>bl. e # es = series_entries boff roff bl \<and> list_all (block_ok store) bl \<and> list_all block_small bl \<and>
      boff + length (blocks_bytes bl) \<le> length bs \<and> slice boff (boff + length (blocks_bytes bl)) bs = blocks_bytes bl \<and>
      p' = p @ map fst (concat (place boff bl)) \<and> x' = x @ observed_all (concat (place boff bl)))"
    (is "(\<exists>ds bl. ?A ds bl) \<longleftrightarrow> (\<exists>bl. ?B bl)")
  proof -
    have cons: "?A ds bl \<longleftrightarrow> ?B ((sid, ds) # bl)" for ds bl
      using slice_append_iff [of boff "frames_bytes ds" "blocks_bytes bl" bs] by (auto simp: hd_ok_def add.assoc)
    have "\<exists>ds bl'. bl = (sid, ds) # bl'" if "?B bl" for bl
    proof (cases bl)
      case (Cons b bl')
      with that show ?thesis by (cases b) (auto simp: sid_def series_entry_def)
    qed (use that in simp)
    with cons show ?thesis by blast
  qed
  finally show ?case .
qed

definition chain_sums :: "SegmentSeriesEntryV1 list \<Rightarrow> nat \<times> nat \<times> nat \<times> nat" where
  "chain_sums es = (sum_list (map (\<lambda>e. unat (se_block_length e)) es), sum_list (map (\<lambda>e. unat (se_recent_length e)) es),
     sum_list (map (\<lambda>e. unat (se_frame_count e)) es), sum_list (map (\<lambda>e. unat (se_observation_count e)) es))"

lemma series_entry_fields:
  assumes "block_small b" "length (frames_bytes (snd b)) < 2 ^ 64" "boff < 2 ^ 64" "roff < 2 ^ 64"
  shows "unat (se_block_offset (series_entry boff roff b)) = boff" "unat (se_recent_offset (series_entry boff roff b)) = roff"
    "unat (se_block_length (series_entry boff roff b)) = length (frames_bytes (snd b))"
    "unat (se_recent_length (series_entry boff roff b)) = observation_total (snd b) * 96"
    "unat (se_frame_count (series_entry boff roff b)) = length (snd b)"
    "unat (se_observation_count (series_entry boff roff b)) = observation_total (snd b)"
    "se_series_id (series_entry boff roff b) = fst b"
  using assms by (simp_all add: series_entry_def block_small_def unat_of_nat del: of_nat_mult)

lemma chained_series_entries:
  assumes max: "bmax < 2 ^ 64" "rmax < 2 ^ 64"
  shows "list_all (block_ok store) bl \<Longrightarrow> list_all block_small bl \<Longrightarrow> boff + length (blocks_bytes bl) \<le> bmax \<Longrightarrow>
    roff + observation_total (block_frames bl) * 96 \<le> rmax \<Longrightarrow>
    chained bmax rmax boff roff (series_entries boff roff bl) \<and>
    chain_sums (series_entries boff roff bl) = (length (blocks_bytes bl), observation_total (block_frames bl) * 96,
      length (block_frames bl), observation_total (block_frames bl))"
proof (induction bl arbitrary: boff roff)
  case Nil
  then show ?case by (simp add: chain_sums_def)
next
  case (Cons b bl)
  have small: "block_small b" "length (frames_bytes (snd b)) < 2 ^ 64" "boff < 2 ^ 64" "roff < 2 ^ 64"
    using Cons.prems max by simp_all
  have "se_frame_count (series_entry boff roff b) \<noteq> 0"
    using Cons.prems(1) series_entry_fields(5) [OF small] by (auto simp: block_ok_def unat_eq_0 [symmetric])
  moreover have "identity_ok (fst b)" using Cons.prems(1) by (auto intro: block_ok_series)
  ultimately show ?case
    using Cons.IH [of "boff + length (frames_bytes (snd b))" "roff + observation_total (snd b) * 96"] Cons.prems
    by (simp add: series_entry_fields [OF small] chain_sums_def)
qed

section \<open>The append directory\<close>

fun consecutive :: "u64 \<Rightarrow> u64 list \<Rightarrow> bool" where
  "consecutive e [] \<longleftrightarrow> True"
| "consecutive e (x # xs) \<longleftrightarrow> x = e \<and> consecutive (u64_saturating_add e 1) xs"

lemma consecutive_iff:
  "unat e + length xs \<le> 2 ^ 64 \<Longrightarrow> consecutive e xs \<longleftrightarrow> map unat xs = [unat e..<unat e + length xs]"
proof (induction xs arbitrary: e)
  case (Cons x xs)
  show ?case
  proof (cases "xs = []")
    case True
    then show ?thesis by (auto simp: word_unat_eq_iff)
  next
    case False
    then have "unat e + 1 < 2 ^ 64" using Cons.prems by (cases xs) auto
    then have "unat (u64_saturating_add e 1) = unat e + 1"
      by (simp add: u64_saturating_add_def checked_add_def unat_word_ariths)
    then show ?thesis using Cons by (auto simp: word_unat_eq_iff upt_rec [of "unat e"])
  qed
qed simp

definition appends_after :: "(FrameLocation \<times> DecodedAdmissionV1) list \<Rightarrow> AppendScan \<Rightarrow> AppendScan" where
  "appends_after ps s = \<lparr>as_expected_sequence = ((\<lambda>e. u64_saturating_add e 1) ^^ length ps) (as_expected_sequence s),
     as_checksum = stream_update (frames_bytes (map snd ps)) (as_checksum s),
     as_source_length = as_source_length s + of_nat (length (frames_bytes (map snd ps))),
     as_appends = as_appends s @ map (\<lambda>(l, d). append_entry_of l) ps\<rparr>"

definition located :: "bytes \<Rightarrow> FrameLocation \<times> DecodedAdmissionV1 \<Rightarrow> bool" where
  "located bs p \<longleftrightarrow> segment_checked_slice bs (fl_frame_offset (fst p)) (fl_frame_length (fst p)) = Some (frame_of (snd p)) \<and>
     unat (fl_frame_length (fst p)) = length (frame_of (snd p)) \<and> identity_ok (fl_series_id (fst p))"

lemma parse_appends_iff:
  "list_all (located bs) ps \<Longrightarrow> unat (as_source_length s) + length (frames_bytes (map snd ps)) < 2 ^ 64 \<Longrightarrow>
   parse_appends bs layout index (map fst ps) s = Inr s' \<longleftrightarrow>
     consecutive (as_expected_sequence s) (map (\<lambda>p. fl_append_sequence (fst p)) ps) \<and>
     table bs (ly_append_offset layout + index * 48) 48 (\<lambda>p. wire_append_entry (append_entry_of (fst p))) ps \<and> s' = appends_after ps s"
proof (induction ps arbitrary: index s)
  case Nil
  then show ?case by (auto simp: appends_after_def stream_update_def)
next
  case (Cons p ps)
  obtain l d where p: "p = (l, d)" by (cases p)
  define s1 where "s1 = \<lparr>as_expected_sequence = u64_saturating_add (as_expected_sequence s) 1,
     as_checksum = stream_update (frame_of d) (as_checksum s), as_source_length = as_source_length s + fl_frame_length l,
     as_appends = as_appends s @ [append_entry_of l]\<rparr>"
  have loc: "segment_checked_slice bs (fl_frame_offset l) (fl_frame_length l) = Some (frame_of d)"
    "unat (fl_frame_length l) = length (frame_of d)" "identity_ok (fl_series_id l)"
    using Cons.prems(1) by (simp_all add: located_def p)
  have sum: "unat (as_source_length s + fl_frame_length l) = unat (as_source_length s) + length (frame_of d)"
    using Cons.prems(2) loc(2) by (simp add: p unat_word_ariths)
  have "checked_add (as_source_length s) (fl_frame_length l) = Some (as_source_length s + fl_frame_length l)"
    using sum loc(2) by (simp add: checked_add_iff)
  then have "parse_appends bs layout index (map fst (p # ps)) s = Inr s' \<longleftrightarrow>
      fl_append_sequence l = as_expected_sequence s \<and>
      decode_append_entry (slice (ly_append_offset layout + index * 48) (ly_append_offset layout + index * 48 + 48) bs)
        = Inr (append_entry_of l) \<and>
      parse_appends bs layout (index + 1) (map fst ps) s1 = Inr s'"
    using loc(1) by (auto simp: p Let_def SEGMENT_V1_APPEND_ENTRY_LEN_def s1_def split: sum.splits)
  moreover have "identity_ok (ae_series_id (append_entry_of l))" using loc(3) by (simp add: append_entry_of_def)
  moreover have "appends_after ps s1 = appends_after (p # ps) s"
    using loc funpow_swap1 [of "\<lambda>e. u64_saturating_add e 1" "length ps" "as_expected_sequence s"]
    by (simp add: appends_after_def s1_def p stream_update_def word_of_unat [OF loc(2)])
  moreover have "unat (as_source_length s1) + length (frames_bytes (map snd ps)) < 2 ^ 64"
    using Cons.prems(2) sum by (simp add: s1_def p)
  moreover have "ly_append_offset layout + (index + 1) * 48 = ly_append_offset layout + index * 48 + 48" by simp
  ultimately show ?case
    using Cons.IH [of s1 "index + 1"] Cons.prems(1) by (auto simp: p s1_def decode_append_entry_iff add.assoc add.commute [of 48])
qed

section \<open>The observation directory\<close>

definition location_ok :: "ObservationLocation \<Rightarrow> bool" where
  "location_ok l \<longleftrightarrow> identity_ok (ol_series_id l) \<and> key_ok (ol_raw_order_key l)"

lemma parse_observations_iff:
  "list_all location_ok ls \<Longrightarrow> parse_observations bs layout index ls = Inr es \<longleftrightarrow>
     table bs (ly_recent_offset layout + index * 96) 96 wire_observation_entry ls \<and> es = map observation_entry_of ls"
proof (induction ls arbitrary: index es)
  case Nil
  then show ?case by auto
next
  case (Cons l ls)
  have "ly_recent_offset layout + (index + 1) * 96 = ly_recent_offset layout + index * 96 + 96" by simp
  with Cons show ?case
    by (auto simp: Let_def SEGMENT_V1_OBSERVATION_ENTRY_LEN_def result_convs location_ok_def decode_observation_entry_iff
        add.assoc add.commute [of 96])
qed

definition recents :: "nat \<Rightarrow> block list \<Rightarrow> ObservationLocation list" where
  "recents boff bl = concat (map (\<lambda>ps. sort_by recent_le (observed_all ps)) (place boff bl))"

lemma locate_series: "(l, d) \<in> set (locate sid off n ds) \<Longrightarrow> fl_series_id l = sid \<and> fl_append_sequence l = da_append_sequence d"
  by (induction ds arbitrary: off n) (auto simp: frame_location_def)

lemma observed_series: "ol \<in> set (observed_all ps) \<Longrightarrow> \<exists>l d. (l, d) \<in> set ps \<and> ol_series_id ol = fl_series_id l"
  by (auto simp: observed_all_def observed_def)

lemma observed_locate_series: "ol \<in> set (observed_all (locate sid off n ds)) \<Longrightarrow> ol_series_id ol = sid"
  using observed_series locate_series by blast

lemma place_series: "(l, d) \<in> set (concat (place boff bl)) \<Longrightarrow> fl_series_id l \<in> fst ` set bl \<and> fl_append_sequence l = da_append_sequence d"
  by (induction bl arbitrary: boff) (auto dest: locate_series)

lemma sort_series_recent:
  "sorted_wrt (<) (map fst bl) \<Longrightarrow> sort_by series_recent_le (observed_all (concat (place boff bl))) = recents boff bl"
proof (induction bl arbitrary: boff)
  case Nil
  then show ?case by (simp add: recents_def sort_by_def)
next
  case (Cons b bl)
  define h where "h = observed_all (locate (fst b) boff 0 (snd b))"
  define t where "t = observed_all (concat (place (boff + length (frames_bytes (snd b))) bl))"
  have "ol_series_id x = fst b" if "x \<in> set h" for x using that observed_locate_series by (simp add: h_def)
  moreover have "ol_series_id y \<in> fst ` set bl" if "y \<in> set t" for y
    using that place_series observed_series unfolding t_def by metis
  ultimately have "list_all (\<lambda>x. list_all (series_recent_le x) t) h"
    using Cons.prems by (fastforce simp: list_all_iff series_recent_le_def)
  then have "sort_by series_recent_le (h @ t) = sort_by series_recent_le h @ sort_by series_recent_le t"
    by (rule sort_by_append)
  moreover have "sort_by series_recent_le h = sort_by recent_le h"
    using observed_locate_series by (intro sort_by_cong) (auto simp: series_recent_le_def h_def)
  ultimately show ?case using Cons by (simp add: recents_def h_def t_def)
qed

section \<open>Placed frames\<close>

lemma locate_located:
  "frames_at bs off stop ds \<Longrightarrow> list_all (frame_ok store sid) ds \<Longrightarrow> stop \<le> length bs \<Longrightarrow> length bs \<le> usize_max \<Longrightarrow>
   list_all (located bs) (locate sid off n ds)"
proof (induction ds arbitrary: off n)
  case (Cons d ds)
  have d: "frame_at bs off d" "frame_ok store sid d" "off + length (frame_of d) \<le> length bs" using Cons.prems by auto
  have "unat (of_nat off :: u64) = off" "unat (of_nat (length (frame_of d)) :: u64) = length (frame_of d)"
    using d(3) Cons.prems(4) by (simp_all add: unat_of_nat)
  then have "located bs (frame_location sid off n d, d)"
    using d Cons.prems(4) frame_ok_series [OF d(2)]
    by (simp add: located_def frame_location_def segment_checked_slice_def field_at_ok frame_at_def)
  with Cons show ?case by simp
qed simp

lemma place_located:
  assumes len: "length bs \<le> usize_max"
  shows "list_all (block_ok store) bl \<Longrightarrow> boff + length (blocks_bytes bl) \<le> length bs \<Longrightarrow>
    slice boff (boff + length (blocks_bytes bl)) bs = blocks_bytes bl \<Longrightarrow> list_all (located bs) (concat (place boff bl))"
proof (induction bl arbitrary: boff)
  case (Cons b bl)
  have fit: "boff + length (frames_bytes (snd b)) + length (blocks_bytes bl) \<le> length bs" using Cons.prems(2) by simp
  have parts: "slice boff (boff + length (frames_bytes (snd b))) bs = frames_bytes (snd b)"
    "slice (boff + length (frames_bytes (snd b))) (boff + length (frames_bytes (snd b)) + length (blocks_bytes bl)) bs = blocks_bytes bl"
    using slice_append_iff [OF fit] Cons.prems(3) by (simp_all add: add.assoc)
  have "frames_at bs boff (boff + length (frames_bytes (snd b))) (snd b)"
    using frames_at_slice [of boff "boff + length (frames_bytes (snd b))" bs "snd b"] parts(1) fit by simp
  then have "list_all (located bs) (locate (fst b) boff 0 (snd b))"
    using locate_located [of bs boff "boff + length (frames_bytes (snd b))" "snd b" store "fst b" 0] Cons.prems(1) fit len
    by (simp add: block_ok_def)
  with Cons.IH [of "boff + length (frames_bytes (snd b))"] Cons.prems(1) fit parts(2) show ?case by simp
qed simp

lemma observed_locations_ok:
  "list_all (frame_ok store sid) ds \<Longrightarrow> list_all location_ok (observed_all (locate sid off n ds))"
proof (induction ds arbitrary: off n)
  case (Cons d ds)
  then have "frame_ok store sid d" by simp
  then have "list_all location_ok (observed (frame_location sid off n d) d)"
    using frame_ok_series [of store sid d] observation_keys_ok [OF frame_ok_payload [of store sid d]]
    by (auto simp: list_all_iff observed_def location_ok_def frame_location_def)
  with Cons show ?case by simp
qed simp

lemma recents_ok: "list_all (block_ok store) bl \<Longrightarrow> list_all location_ok (recents boff bl)"
proof (induction bl arbitrary: boff)
  case (Cons b bl)
  have "list_all location_ok (sort_by recent_le (observed_all (locate (fst b) boff 0 (snd b))))"
    using Cons.prems observed_locations_ok [of store "fst b" "snd b" boff 0] by (auto simp: block_ok_def list_all_iff)
  with Cons show ?case by (simp add: recents_def)
qed (simp add: recents_def)

lemma length_recents: "length (recents boff bl) = observation_total (block_frames bl)"
  by (induction bl arbitrary: boff) (simp_all add: recents_def length_observed_all)

end
