(* ===== verification/Och_Segment_Canon.thy ===== *)
theory Och_Segment_Canon
  imports Och_Segment_Parse
begin

text \<open>
  The canonical Native Segment V1 of a list of blocks: its layout, header, bytes and decoded value, and the
  conditions under which it exists.  Parsing is exact for it (\<open>parse_segment_iff\<close>).
\<close>

section \<open>Layout\<close>

definition layout_of :: "nat \<Rightarrow> nat \<Rightarrow> nat \<Rightarrow> nat \<Rightarrow> Layout" where
  "layout_of frames series obs blocks = \<lparr>ly_series_offset = 192, ly_series_length = series * 64,
     ly_blocks_offset = 192 + series * 64, ly_blocks_length = blocks, ly_append_offset = 192 + series * 64 + blocks,
     ly_append_length = frames * 48, ly_recent_offset = 192 + series * 64 + blocks + frames * 48, ly_recent_length = obs * 96,
     ly_artifact_length = 192 + series * 64 + blocks + frames * 48 + obs * 96 + 4\<rparr>"

definition layout_ok :: "nat \<Rightarrow> nat \<Rightarrow> nat \<Rightarrow> nat \<Rightarrow> bool" where
  "layout_ok frames series obs blocks \<longleftrightarrow> 0 < frames \<and> frames \<le> 4096 \<and> 0 < series \<and> series \<le> frames \<and> obs \<le> 4096 * 256 \<and>
     0 < blocks \<and> blocks \<le> 536870884"

lemma layout_new_iff:
  "layout_new frames series obs blocks = Inr ly \<longleftrightarrow> layout_ok frames series obs blocks \<and> ly = layout_of frames series obs blocks"
  by (auto simp: layout_new_def layout_ok_def layout_of_def segment_consts usize_checked_mul_def usize_checked_add_def
      MAX_SEGMENT_V1_BYTES_def)

lemma layout_bounds:
  assumes "layout_ok frames series obs blocks"
  shows "ly_artifact_length (layout_of frames series obs blocks) \<le> unat MAX_SEGMENT_V1_BYTES"
    and "ly_artifact_length (layout_of frames series obs blocks) \<le> 2 ^ 32"
  using assms by (auto simp: layout_ok_def layout_of_def MAX_SEGMENT_V1_BYTES_def segment_consts)

definition inspection_of :: "StoreId \<Rightarrow> SealedGeneration \<Rightarrow> nat \<Rightarrow> nat \<Rightarrow> nat \<Rightarrow> Layout \<Rightarrow> u32 \<Rightarrow> SegmentV1Inspection" where
  "inspection_of store sealed frames series obs ly crc =
     \<lparr>ins_store_id = store, ins_source_journal_generation = sealed_journal_generation sealed,
      ins_sequence_floor = sealed_sequence_floor sealed, ins_sequence_cutoff = sealed_sequence_cutoff sealed,
      ins_source_registry_generation = sealed_registry_generation sealed,
      ins_source_end_offset = sealed_end_offset sealed, ins_source_artifact_length = sealed_artifact_length sealed,
      ins_source_artifact_checksum = sealed_artifact_checksum sealed, ins_frame_count = frames,
      ins_series_count = series, ins_observation_count = obs,
      ins_series_directory_offset = of_nat (ly_series_offset ly), ins_series_directory_length = of_nat (ly_series_length ly),
      ins_block_region_offset = of_nat (ly_blocks_offset ly), ins_block_region_length = of_nat (ly_blocks_length ly),
      ins_append_directory_offset = of_nat (ly_append_offset ly), ins_append_directory_length = of_nat (ly_append_length ly),
      ins_recent_directory_offset = of_nat (ly_recent_offset ly), ins_recent_directory_length = of_nat (ly_recent_length ly),
      ins_artifact_length = of_nat (ly_artifact_length ly), ins_artifact_checksum = crc\<rparr>"

definition layout_small :: "Layout \<Rightarrow> bool" where
  "layout_small ly \<longleftrightarrow> ly_series_offset ly < 2 ^ 64 \<and> ly_series_length ly < 2 ^ 64 \<and> ly_blocks_offset ly < 2 ^ 64 \<and>
     ly_blocks_length ly < 2 ^ 64 \<and> ly_append_offset ly < 2 ^ 64 \<and> ly_append_length ly < 2 ^ 64 \<and> ly_recent_offset ly < 2 ^ 64 \<and>
     ly_recent_length ly < 2 ^ 64 \<and> ly_artifact_length ly < 2 ^ 64"

lemma layout_small: "layout_ok frames series obs blocks \<Longrightarrow> layout_small (layout_of frames series obs blocks)"
  by (simp add: layout_ok_def layout_small_def layout_of_def)

lemma segment_inspection_of:
  "layout_small ly \<Longrightarrow> segment_inspection store sealed frames series obs ly crc = Inr (inspection_of store sealed frames series obs ly crc)"
  by (simp add: segment_inspection_def layout_small_def to_u64_def inspection_of_def)

section \<open>Header\<close>

definition segment_header :: "StoreId \<Rightarrow> SealedGeneration \<Rightarrow> nat \<Rightarrow> nat \<Rightarrow> nat \<Rightarrow> Layout \<Rightarrow> bytes" where
  "segment_header store sealed frames series obs ly =
     SEGMENT_V1_MAGIC @ be_encode 2 1 @ be_encode 2 192 @ replicate 4 0 @ id_bytes store @
     be_encode 8 (unat (sealed_journal_generation sealed)) @ be_encode 8 (unat (sealed_sequence_floor sealed)) @
     be_encode 8 (unat (sealed_sequence_cutoff sealed)) @ be_encode 8 (unat (sealed_registry_generation sealed)) @
     be_encode 8 (unat (sealed_end_offset sealed)) @ be_encode 8 (unat (sealed_artifact_length sealed)) @
     be_encode 4 (unat (sealed_artifact_checksum sealed)) @ be_encode 4 frames @ be_encode 4 series @ be_encode 4 obs @
     be_encode 8 (ly_series_offset ly) @ be_encode 8 (ly_series_length ly) @ be_encode 8 (ly_blocks_offset ly) @
     be_encode 8 (ly_blocks_length ly) @ be_encode 8 (ly_append_offset ly) @ be_encode 8 (ly_append_length ly) @
     be_encode 8 (ly_recent_offset ly) @ be_encode 8 (ly_recent_length ly) @ be_encode 8 (ly_artifact_length ly) @ replicate 24 0"

lemma length_segment_header: "identity_ok store \<Longrightarrow> length (segment_header store sealed frames series obs ly) = 192"
  by (simp add: segment_header_def id_length SEGMENT_V1_MAGIC_def)

text \<open>Building writes the header into a zeroed buffer.\<close>

lemma encode_header_pad:
  assumes "identity_ok store" "layout_small ly" "frames < 2 ^ 32" "series < 2 ^ 32" "obs < 2 ^ 32" "192 \<le> n"
  shows "segment_encode_header store sealed frames series obs ly (replicate n 0) =
     Inr (pad n (segment_header store sealed frames series obs ly))"
proof -
  have magic: "length SEGMENT_V1_MAGIC = 8" by (simp add: SEGMENT_V1_MAGIC_def)
  define fields where "fields = SEGMENT_V1_MAGIC @ be_encode 2 1 @ be_encode 2 192 @ replicate 4 0 @ id_bytes store @
     be_encode 8 (unat (sealed_journal_generation sealed)) @ be_encode 8 (unat (sealed_sequence_floor sealed)) @
     be_encode 8 (unat (sealed_sequence_cutoff sealed)) @ be_encode 8 (unat (sealed_registry_generation sealed)) @
     be_encode 8 (unat (sealed_end_offset sealed)) @ be_encode 8 (unat (sealed_artifact_length sealed)) @
     be_encode 4 (unat (sealed_artifact_checksum sealed)) @ be_encode 4 frames @ be_encode 4 series @ be_encode 4 obs @
     be_encode 8 (ly_series_offset ly) @ be_encode 8 (ly_series_length ly) @ be_encode 8 (ly_blocks_offset ly) @
     be_encode 8 (ly_blocks_length ly) @ be_encode 8 (ly_append_offset ly) @ be_encode 8 (ly_append_length ly) @
     be_encode 8 (ly_recent_offset ly) @ be_encode 8 (ly_recent_length ly) @ be_encode 8 (ly_artifact_length ly)"
  have "segment_encode_header store sealed frames series obs ly (replicate n 0) = Inr (pad n fields)"
    unfolding pad_empty [of n] fields_def
    using assms id_length [OF assms(1)] magic
    by (simp add: segment_encode_header_def Let_def layout_small_def to_u64_def to_u32_def pad_write put_pad pad_skip [where k = 4]
        SEGMENT_V1_VERSION_def SEGMENT_V1_HEADER_LEN_def unat_of_nat)
  moreover have "pad n fields = pad n (segment_header store sealed frames series obs ly)"
    using pad_zeros [of fields 24 n] assms(6) id_length [OF assms(1)] magic by (simp add: fields_def segment_header_def)
  ultimately show ?thesis by simp
qed

text \<open>Parsing reads it field by field.\<close>

lemma slice_of_prefix: "j \<le> n \<Longrightarrow> slice i j (slice 0 n bs) = slice i j bs"
  by (simp add: slice_def drop_take min_def)

lemma segment_header_split:
  assumes "identity_ok store" "192 \<le> length bs"
  shows "slice 0 192 bs = segment_header store sealed frames series obs ly \<longleftrightarrow>
     (slice 0 8 bs = SEGMENT_V1_MAGIC \<and> slice 8 10 bs = be_encode 2 1 \<and> slice 10 12 bs = be_encode 2 192 \<and>
      slice 12 16 bs = replicate 4 0 \<and> slice 16 32 bs = id_bytes store) \<and>
     (slice 32 40 bs = be_encode 8 (unat (sealed_journal_generation sealed)) \<and>
      slice 40 48 bs = be_encode 8 (unat (sealed_sequence_floor sealed)) \<and>
      slice 48 56 bs = be_encode 8 (unat (sealed_sequence_cutoff sealed)) \<and>
      slice 56 64 bs = be_encode 8 (unat (sealed_registry_generation sealed)) \<and>
      slice 64 72 bs = be_encode 8 (unat (sealed_end_offset sealed)) \<and>
      slice 72 80 bs = be_encode 8 (unat (sealed_artifact_length sealed)) \<and>
      slice 80 84 bs = be_encode 4 (unat (sealed_artifact_checksum sealed)) \<and>
      slice 84 88 bs = be_encode 4 frames \<and> slice 88 92 bs = be_encode 4 series \<and> slice 92 96 bs = be_encode 4 obs) \<and>
     (slice 96 104 bs = be_encode 8 (ly_series_offset ly) \<and> slice 104 112 bs = be_encode 8 (ly_series_length ly) \<and>
      slice 112 120 bs = be_encode 8 (ly_blocks_offset ly) \<and> slice 120 128 bs = be_encode 8 (ly_blocks_length ly) \<and>
      slice 128 136 bs = be_encode 8 (ly_append_offset ly) \<and> slice 136 144 bs = be_encode 8 (ly_append_length ly) \<and>
      slice 144 152 bs = be_encode 8 (ly_recent_offset ly) \<and> slice 152 160 bs = be_encode 8 (ly_recent_length ly) \<and>
      slice 160 168 bs = be_encode 8 (ly_artifact_length ly)) \<and> slice 168 192 bs = replicate 24 0"
proof -
  have magic: "length SEGMENT_V1_MAGIC = 8" by (simp add: SEGMENT_V1_MAGIC_def)
  define hb where "hb = slice 0 192 bs"
  have len: "length hb = 192" using assms(2) by (simp add: hb_def)
  have sl: "slice i j bs = slice i j hb" if "j \<le> 192" for i j using that by (simp add: hb_def slice_of_prefix)
  have "hb = segment_header store sealed frames series obs ly \<longleftrightarrow>
     (slice 0 8 hb = SEGMENT_V1_MAGIC \<and> slice 8 10 hb = be_encode 2 1 \<and> slice 10 12 hb = be_encode 2 192 \<and>
      slice 12 16 hb = replicate 4 0 \<and> slice 16 32 hb = id_bytes store) \<and>
     (slice 32 40 hb = be_encode 8 (unat (sealed_journal_generation sealed)) \<and>
      slice 40 48 hb = be_encode 8 (unat (sealed_sequence_floor sealed)) \<and>
      slice 48 56 hb = be_encode 8 (unat (sealed_sequence_cutoff sealed)) \<and>
      slice 56 64 hb = be_encode 8 (unat (sealed_registry_generation sealed)) \<and>
      slice 64 72 hb = be_encode 8 (unat (sealed_end_offset sealed)) \<and>
      slice 72 80 hb = be_encode 8 (unat (sealed_artifact_length sealed)) \<and>
      slice 80 84 hb = be_encode 4 (unat (sealed_artifact_checksum sealed)) \<and>
      slice 84 88 hb = be_encode 4 frames \<and> slice 88 92 hb = be_encode 4 series \<and> slice 92 96 hb = be_encode 4 obs) \<and>
     (slice 96 104 hb = be_encode 8 (ly_series_offset ly) \<and> slice 104 112 hb = be_encode 8 (ly_series_length ly) \<and>
      slice 112 120 hb = be_encode 8 (ly_blocks_offset ly) \<and> slice 120 128 hb = be_encode 8 (ly_blocks_length ly) \<and>
      slice 128 136 hb = be_encode 8 (ly_append_offset ly) \<and> slice 136 144 hb = be_encode 8 (ly_append_length ly) \<and>
      slice 144 152 hb = be_encode 8 (ly_recent_offset ly) \<and> slice 152 160 hb = be_encode 8 (ly_recent_length ly) \<and>
      slice 160 168 hb = be_encode 8 (ly_artifact_length ly)) \<and> slice 168 192 hb = replicate 24 0"
    unfolding segment_header_def using len magic id_length [OF assms(1)]
    by (subst head_split) (simp_all add: drop_split drop_slice [OF len, of 168])
  then show ?thesis by (simp add: sl hb_def [symmetric])
qed

lemma read_count_iff:
  assumes "length bs \<le> usize_max" "i + 4 \<le> length bs" "m < 2 ^ 32"
  shows "segment_read_count bs i m = Inr n \<longleftrightarrow> slice i (i + 4) bs = be_encode 4 n \<and> n \<le> m"
proof -
  have "slice i (i + 4) bs = be_encode 4 n \<longleftrightarrow> unat (read_u32 i bs) = n" if "n \<le> m"
  proof -
    have "unat (of_nat n :: u32) = n" using that assms(3) by (simp add: unat_of_nat)
    then show ?thesis using read_fields(2) [OF assms(2), of "of_nat n"] by (auto simp: word_unat_eq_iff)
  qed
  then show ?thesis
    using assms by (auto simp: segment_read_count_def segment_reads result_convs)
qed

lemma layout_field_iff:
  assumes "length bs \<le> usize_max" "i + 8 \<le> length bs" "v < 2 ^ 64"
  shows "map_option unat (segment_read_u64 bs i) = Some v \<longleftrightarrow> slice i (i + 8) bs = be_encode 8 v"
proof -
  have "unat (of_nat v :: u64) = v" using assms(3) by (simp add: unat_of_nat)
  then show ?thesis using read_fields(1) [OF assms(2), of "of_nat v"] assms by (auto simp: segment_reads word_unat_eq_iff)
qed

definition header_ok :: "SealedGeneration \<Rightarrow> nat \<Rightarrow> bool" where
  "header_ok sealed frames \<longleftrightarrow> sealed_journal_generation sealed \<noteq> 0 \<and> sealed_registry_generation sealed \<noteq> 0 \<and>
     sealed_end_offset sealed = sealed_artifact_length sealed \<and> 28 < unat (sealed_artifact_length sealed) \<and>
     unat (sealed_artifact_length sealed) \<le> 536870912 \<and> unat (sealed_sequence_cutoff sealed) = unat (sealed_sequence_floor sealed) + frames"

lemma segment_header_refused_iff:
  "segment_header_refused \<lparr>sh_sealed = sealed, sh_frame_count = frames, sh_series_count = series, sh_observation_count = obs\<rparr> \<longleftrightarrow>
     \<not> (header_ok sealed frames \<and> 0 < frames \<and> 0 < series \<and> series \<le> frames)"
proof -
  have "map_option unat (checked_sub c f) = Some frames \<longleftrightarrow> unat c = unat f + frames" for c f :: u64
    using checked_sub_iff [of c f] by (cases "checked_sub c f") (auto simp: checked_sub_def word_le_nat_alt unat_sub split: if_splits)
  then show ?thesis
    by (auto simp: segment_header_refused_def Let_def header_ok_def word_le_nat_alt word_less_nat_alt MAX_ACTIVE_JOURNAL_BYTES_def
        JOURNAL_V1_HEADER_LEN_def)
qed

lemma parse_segment_header_iff:
  assumes "length bs \<le> usize_max" "192 \<le> length bs"
  shows "parse_segment_header bs = Inr h \<longleftrightarrow>
     (slice 32 40 bs = be_encode 8 (unat (sealed_journal_generation (sh_sealed h))) \<and>
      slice 40 48 bs = be_encode 8 (unat (sealed_sequence_floor (sh_sealed h))) \<and>
      slice 48 56 bs = be_encode 8 (unat (sealed_sequence_cutoff (sh_sealed h))) \<and>
      slice 56 64 bs = be_encode 8 (unat (sealed_registry_generation (sh_sealed h))) \<and>
      slice 64 72 bs = be_encode 8 (unat (sealed_end_offset (sh_sealed h))) \<and>
      slice 72 80 bs = be_encode 8 (unat (sealed_artifact_length (sh_sealed h))) \<and>
      slice 80 84 bs = be_encode 4 (unat (sealed_artifact_checksum (sh_sealed h))) \<and>
      slice 84 88 bs = be_encode 4 (sh_frame_count h) \<and> slice 88 92 bs = be_encode 4 (sh_series_count h) \<and>
      slice 92 96 bs = be_encode 4 (sh_observation_count h)) \<and>
     sh_frame_count h \<le> 4096 \<and> sh_series_count h \<le> 4096 \<and> sh_observation_count h \<le> 1048576 \<and>
     header_ok (sh_sealed h) (sh_frame_count h) \<and> 0 < sh_frame_count h \<and> 0 < sh_series_count h \<and> sh_series_count h \<le> sh_frame_count h"
proof -
  have counts: "MAX_ACTIVE_JOURNAL_RECORDS = 4096" "MAX_SEGMENT_V1_SERIES = 4096" "MAX_SEGMENT_V1_OBSERVATIONS = 1048576"
    by (simp_all add: segment_consts)
  obtain sealed frames series obs where h: "h = \<lparr>sh_sealed = sealed, sh_frame_count = frames, sh_series_count = series,
      sh_observation_count = obs\<rparr>" by (cases h) auto
  obtain g f c e r l k where sealed: "sealed = \<lparr>sealed_journal_generation = g, sealed_sequence_floor = f, sealed_sequence_cutoff = c,
      sealed_end_offset = e, sealed_registry_generation = r, sealed_artifact_length = l, sealed_artifact_checksum = k\<rparr>"
    by (cases sealed) auto
  have reads: "segment_read_u64 bs i = Some (read_u64 i bs)" if "i \<le> 184" for i using assms that by (simp add: segment_reads)
  have "parse_segment_header bs = Inr h \<longleftrightarrow> read_u64 32 bs = g \<and> read_u64 40 bs = f \<and> read_u64 48 bs = c \<and> read_u64 56 bs = r \<and>
      read_u64 64 bs = e \<and> read_u64 72 bs = l \<and> read_u32 80 bs = k \<and> segment_read_count bs 84 4096 = Inr frames \<and>
      segment_read_count bs 88 4096 = Inr series \<and> segment_read_count bs 92 1048576 = Inr obs \<and> \<not> segment_header_refused h"
    using assms by (auto simp: parse_segment_header_def h sealed result_convs reads segment_reads counts Let_def)
  then show ?thesis
    using assms by (auto simp: h sealed read_fields read_count_iff segment_header_refused_iff)
qed

lemma layout_matches_iff:
  assumes "length bs \<le> usize_max" "192 \<le> length bs" "layout_small ly"
  shows "layout_matches bs ly \<longleftrightarrow> 
     (slice 96 104 bs = be_encode 8 (ly_series_offset ly) \<and> slice 104 112 bs = be_encode 8 (ly_series_length ly) \<and>
      slice 112 120 bs = be_encode 8 (ly_blocks_offset ly) \<and> slice 120 128 bs = be_encode 8 (ly_blocks_length ly) \<and>
      slice 128 136 bs = be_encode 8 (ly_append_offset ly) \<and> slice 136 144 bs = be_encode 8 (ly_append_length ly) \<and>
      slice 144 152 bs = be_encode 8 (ly_recent_offset ly) \<and> slice 152 160 bs = be_encode 8 (ly_recent_length ly) \<and>
      slice 160 168 bs = be_encode 8 (ly_artifact_length ly))"
  using assms(3) assms(1,2) unfolding layout_matches_def layout_fields_def layout_small_def
  by (simp add: layout_field_iff del: map_option_eq_Some)

section \<open>Directories\<close>

definition merged :: "block list \<Rightarrow> DecodedAdmissionV1 list" where
  "merged bl = sort_key da_append_sequence (block_frames bl)"

definition ordered :: "nat \<Rightarrow> block list \<Rightarrow> (FrameLocation \<times> DecodedAdmissionV1) list" where
  "ordered boff bl = sort_key (\<lambda>p. fl_append_sequence (fst p)) (concat (place boff bl))"

definition source_of :: "StoreId \<Rightarrow> block list \<Rightarrow> bytes" where
  "source_of store bl = header_encode \<lparr>header_store_id = store\<rparr> @ frames_bytes (merged bl)"

lemma sort_key_cong: "(\<And>x. x \<in> set xs \<Longrightarrow> f x = g x) \<Longrightarrow> sort_key f xs = sort_key g xs"
proof (induction xs)
  case (Cons x xs)
  have "insort_key f x ys = insort_key g x ys" if "set ys \<subseteq> set xs" for ys
    using that Cons.prems by (induction ys) auto
  from this [of "sort_key g xs"] show ?case using Cons by simp
qed simp

lemma ordered_fst: "sort_key fl_append_sequence (map fst (concat (place boff bl))) = map fst (ordered boff bl)"
  unfolding ordered_def by (rule sort_key_map)

lemma ordered_snd: "map snd (ordered boff bl) = merged bl"
proof -
  have "ordered boff bl = sort_key (\<lambda>p. da_append_sequence (snd p)) (concat (place boff bl))"
    unfolding ordered_def using place_series [of _ _ boff bl] by (intro sort_key_cong) (metis prod.collapse)
  then show ?thesis by (simp only: merged_def map_snd_place [of boff bl, symmetric] sort_key_map)
qed

lemma ordered_set [simp]: "set (ordered boff bl) = set (concat (place boff bl))"
  by (simp add: ordered_def)

lemma ordered_sequences: "map (\<lambda>p. fl_append_sequence (fst p)) (ordered boff bl) = map da_append_sequence (merged bl)"
proof -
  have "map (\<lambda>p. fl_append_sequence (fst p)) (ordered boff bl) = map (\<lambda>p. da_append_sequence (snd p)) (ordered boff bl)"
  proof (rule map_cong [OF refl])
    fix p assume "p \<in> set (ordered boff bl)"
    then show "fl_append_sequence (fst p) = da_append_sequence (snd p)"
      using place_series [of "fst p" "snd p" boff bl] by simp
  qed
  also have "\<dots> = map da_append_sequence (merged bl)" unfolding ordered_snd [of boff, symmetric] by simp
  finally show ?thesis .
qed

lemma length_merged [simp]: "length (merged bl) = length (block_frames bl)"
  by (simp add: merged_def)

lemma length_ordered [simp]: "length (ordered boff bl) = length (block_frames bl)"
  using arg_cong [OF ordered_snd [of boff bl], of length] by simp

lemma length_frames_sort: "length (frames_bytes (sort_key f ds)) = length (frames_bytes ds)"
proof -
  have sum: "length (frames_bytes xs) = sum_mset (image_mset (\<lambda>d. length (frame_of d)) (mset xs))" for xs
    by (induction xs) auto
  show ?thesis unfolding sum by simp
qed

lemma frames_bytes_append [simp]: "frames_bytes (xs @ ys) = frames_bytes xs @ frames_bytes ys"
  by (simp add: frames_bytes_def)

lemma frames_block_bytes: "frames_bytes (block_frames bl) = blocks_bytes bl"
  by (induction bl) auto

lemma length_merged_bytes [simp]: "length (frames_bytes (merged bl)) = length (blocks_bytes bl)"
  by (simp add: merged_def length_frames_sort frames_block_bytes)

definition directories :: "bytes \<Rightarrow> block list \<Rightarrow> bool" where
  "directories bs bl \<longleftrightarrow>
     (let ly = layout_of (length (block_frames bl)) (length bl) (observation_total (block_frames bl)) (length (blocks_bytes bl));
          boff = ly_blocks_offset ly; roff = ly_recent_offset ly in
      slice 192 boff bs = concat (map wire_series_entry (series_entries boff roff bl)) \<and>
      slice boff (ly_append_offset ly) bs = blocks_bytes bl \<and>
      slice (ly_append_offset ly) roff bs = concat (map (\<lambda>p. wire_append_entry (append_entry_of (fst p))) (ordered boff bl)) \<and>
      slice roff (ly_artifact_length ly - 4) bs = concat (map wire_observation_entry (recents boff bl)))"

definition blocks_ok :: "StoreId \<Rightarrow> block list \<Rightarrow> bool" where
  "blocks_ok store bl \<longleftrightarrow> sorted_wrt (<) (map fst bl) \<and> list_all (block_ok store) bl"

definition source_ok :: "StoreId \<Rightarrow> SealedGeneration \<Rightarrow> block list \<Rightarrow> bool" where
  "source_ok store sealed bl \<longleftrightarrow>
     map (\<lambda>d. unat (da_append_sequence d)) (merged bl) =
       [unat (sealed_sequence_floor sealed) + 1..<unat (sealed_sequence_cutoff sealed) + 1] \<and>
     unat (sealed_artifact_length sealed) = length (source_of store bl) \<and>
     sealed_artifact_checksum sealed = crc32c (source_of store bl)"

definition segment_value :: "bytes \<Rightarrow> StoreId \<Rightarrow> SealedGeneration \<Rightarrow> u32 \<Rightarrow> block list \<Rightarrow> SegmentV1" where
  "segment_value bs store sealed crc bl =
     (let frames = length (block_frames bl); obs = observation_total (block_frames bl);
          ly = layout_of frames (length bl) obs (length (blocks_bytes bl));
          boff = ly_blocks_offset ly; roff = ly_recent_offset ly in
      \<lparr>seg_bytes = bs, seg_inspection = inspection_of store sealed frames (length bl) obs ly crc,
       seg_series = series_entries boff roff bl, seg_appends = map (\<lambda>p. append_entry_of (fst p)) (ordered boff bl),
       seg_observations = map observation_entry_of (recents boff bl)\<rparr>)"

end
