(* ===== verification/Och_Segment_Exact.thy ===== *)
theory Och_Segment_Exact
  imports Och_Segment_Canon
begin

text \<open>
  Parsing is exact: it accepts precisely the canonical bytes of well-formed blocks and returns their value.
\<close>

lemma stream_source:
  "stream_finish (stream_update b (stream_update a stream_new)) = crc32c (a @ b)"
  by (simp add: stream_finish_def stream_update_def stream_new_def crc32c_def)

lemma length_header_encode: "identity_ok (header_store_id h) \<Longrightarrow> length (header_encode h) = 28"
  by (simp add: header_encode_def encode_header_layout id_length header_layout_def frame_consts)

lemma length_source_of: "identity_ok store \<Longrightarrow> length (source_of store bl) = 28 + length (blocks_bytes bl)"
  by (simp add: source_of_def length_header_encode)

lemma length_place: "length (concat (place boff bl)) = length (block_frames bl)"
  by (metis length_map map_snd_place)

lemma length_wire_series_entries:
  "list_all (block_ok store) bl \<Longrightarrow> list_all (\<lambda>e. length (wire_series_entry e) = 64) (series_entries boff roff bl)"
proof (induction bl arbitrary: boff roff)
  case (Cons b bl)
  then have "identity_ok (se_series_id (series_entry boff roff b))" using block_ok_series [of store b] by (simp add: series_entry_def)
  with Cons show ?case by (simp add: length_wire_series_entry)
qed simp

lemma length_wire_ordered:
  assumes "list_all (block_ok store) bl"
  shows "list_all (\<lambda>p. length (wire_append_entry (append_entry_of (fst p))) = 48) (ordered boff bl)"
  unfolding list_all_iff
proof
  fix p assume "p \<in> set (ordered boff bl)"
  then have "fl_series_id (fst p) \<in> fst ` set bl" using place_series [of "fst p" "snd p" boff bl] by simp
  then have "identity_ok (fl_series_id (fst p))" using assms block_ok_series by (fastforce simp: list_all_iff)
  then show "length (wire_append_entry (append_entry_of (fst p))) = 48"
    by (simp add: length_wire_append_entry append_entry_of_def)
qed

lemma length_wire_recents:
  "list_all (block_ok store) bl \<Longrightarrow> list_all (\<lambda>l. length (wire_observation_entry l) = 96) (recents boff bl)"
  using recents_ok [of store bl boff] by (auto simp: list_all_iff location_ok_def length_wire_observation_entry)

lemma blocks_small:
  assumes "list_all (block_ok store) bl" "length (block_frames bl) \<le> 4096"
  shows "list_all block_small bl"
  unfolding list_all_iff
proof
  fix b assume b: "b \<in> set bl"
  then have "length (snd b) \<le> length (block_frames bl)"
    by (induction bl) auto
  moreover have "list_all decoded_payload_ok (snd b)"
    using assms(1) b by (auto simp: list_all_iff block_ok_def frame_ok_def)
  then have "observation_total (snd b) \<le> 256 * length (snd b)" by (rule observation_total_bound)
  ultimately show "block_small b" using assms(2) by (simp add: block_small_def)
qed

text \<open>Reading the directories of a buffer with the announced layout.\<close>

lemma parse_directories_steps:
  assumes ok: "layout_ok frames series obs blocks" and ly: "ly = layout_of frames series obs blocks"
    and len: "length bs = ly_artifact_length ly" and h: "header_ok sealed frames"
  shows "parse_directories bs store \<lparr>sh_sealed = sealed, sh_frame_count = frames, sh_series_count = series, sh_observation_count = obs\<rparr>
      ly crc = Inr seg \<longleftrightarrow>
    (\<exists>es p x a entries. length es = series \<and> table bs 192 64 wire_series_entry es \<and>
       chained (ly_append_offset ly) (length bs - 4) (ly_blocks_offset ly) (ly_recent_offset ly) es \<and>
       sorted_wrt (<) (map se_series_id es) \<and> chain_sums es = (blocks, obs * 96, frames, obs) \<and>
       parse_blocks bs store es ([], []) = Inr (p, x) \<and> length p = frames \<and> length x = obs \<and>
       parse_appends bs ly 0 (sort_key fl_append_sequence p)
         \<lparr>as_expected_sequence = sealed_sequence_floor sealed + 1,
          as_checksum = stream_update (header_encode \<lparr>header_store_id = store\<rparr>) stream_new,
          as_source_length = 28, as_appends = []\<rparr> = Inr a \<and>
       fl_append_sequence (last (sort_key fl_append_sequence p)) = sealed_sequence_cutoff sealed \<and>
       as_source_length a = sealed_artifact_length sealed \<and> stream_finish (as_checksum a) = sealed_artifact_checksum sealed \<and>
       parse_observations bs ly 0 (sort_by series_recent_le x) = Inr entries \<and>
       seg = \<lparr>seg_bytes = bs, seg_inspection = inspection_of store sealed frames series obs ly crc, seg_series = es,
         seg_appends = as_appends a, seg_observations = entries\<rparr>)"
proof -
  define s0 where "s0 = \<lparr>sc_series = [], sc_block_offset = ly_blocks_offset ly, sc_recent_offset = ly_recent_offset ly,
    sc_frames = 0, sc_observations = 0\<rparr>"
  have small: "layout_small ly" using layout_small [OF ok] by (simp add: ly)
  have max: "ly_append_offset ly \<le> usize_max" "length bs - 4 \<le> usize_max" "series * 2 ^ 32 \<le> usize_max" "frames \<noteq> 0"
    using ok len by (auto simp: ly layout_of_def layout_ok_def)
  have co: "length bs - 4 = ly_recent_offset ly + obs * 96" "ly_append_offset ly = ly_blocks_offset ly + blocks" "ly_series_offset ly = 192"
    using len by (simp_all add: ly layout_of_def)
  have series: "parse_series bs ly (length bs - 4) series 0 s0 = Inr s \<longleftrightarrow>
     (\<exists>es. length es = series \<and> table bs 192 64 wire_series_entry es \<and>
        chained (ly_append_offset ly) (length bs - 4) (ly_blocks_offset ly) (ly_recent_offset ly) es \<and>
        sorted_wrt (<) (map se_series_id es) \<and> s = series_after es s0)" for s
    using parse_series_iff [OF max(1,2), of s0 series bs 0 s] max(3) by (simp add: s0_def co(3) last_id_def ascends_None)
  have sums: "sc_block_offset (series_after es s0) = ly_append_offset ly \<and> sc_recent_offset (series_after es s0) = length bs - 4 \<and>
      sc_frames (series_after es s0) = frames \<and> sc_observations (series_after es s0) = obs \<longleftrightarrow>
      chain_sums es = (blocks, obs * 96, frames, obs)" for es
    by (auto simp: series_after_fields s0_def chain_sums_def co)
  have next_seq: "checked_add (sealed_sequence_floor sealed) 1 = Some (sealed_sequence_floor sealed + 1)"
    using h max(4) unat_less_2p [of "sealed_sequence_cutoff sealed"] by (simp add: header_ok_def checked_add_def)
  define R where "R es \<longleftrightarrow> (\<exists>p x a entries. parse_blocks bs store es ([], []) = Inr (p, x) \<and> length p = frames \<and> length x = obs \<and>
       parse_appends bs ly 0 (sort_key fl_append_sequence p)
         \<lparr>as_expected_sequence = sealed_sequence_floor sealed + 1,
          as_checksum = stream_update (header_encode \<lparr>header_store_id = store\<rparr>) stream_new,
          as_source_length = 28, as_appends = []\<rparr> = Inr a \<and>
       fl_append_sequence (last (sort_key fl_append_sequence p)) = sealed_sequence_cutoff sealed \<and>
       as_source_length a = sealed_artifact_length sealed \<and> stream_finish (as_checksum a) = sealed_artifact_checksum sealed \<and>
       parse_observations bs ly 0 (sort_by series_recent_le x) = Inr entries \<and>
       seg = \<lparr>seg_bytes = bs, seg_inspection = inspection_of store sealed frames series obs ly crc, seg_series = es,
         seg_appends = as_appends a, seg_observations = entries\<rparr>)" for es
  have "parse_directories bs store \<lparr>sh_sealed = sealed, sh_frame_count = frames, sh_series_count = series, sh_observation_count = obs\<rparr>
      ly crc = Inr seg \<longleftrightarrow>
    (\<exists>s. parse_series bs ly (length bs - 4) series 0 s0 = Inr s \<and>
       (sc_block_offset s = ly_append_offset ly \<and> sc_recent_offset s = length bs - 4 \<and> sc_frames s = frames \<and> sc_observations s = obs) \<and>
       R (sc_series s))"
  proof -
    have ne: "sort_key fl_append_sequence p = [] \<longleftrightarrow> p = []" for p
      by (metis length_0_conv length_sort)
    show ?thesis
      unfolding parse_directories_def Let_def s0_def [symmetric] R_def using max(4)
      apply (auto simp: SEGMENT_V1_CRC_LEN_def JOURNAL_V1_HEADER_LEN_def s0_def [symmetric] next_seq result_convs
          segment_inspection_of [OF small] ne split: prod.splits)
      subgoal for s p x a entries by (rule exI [of _ p]) auto
      done
  qed
  also have "\<dots> \<longleftrightarrow> (\<exists>es. length es = series \<and> table bs 192 64 wire_series_entry es \<and>
       chained (ly_append_offset ly) (length bs - 4) (ly_blocks_offset ly) (ly_recent_offset ly) es \<and>
       sorted_wrt (<) (map se_series_id es) \<and> chain_sums es = (blocks, obs * 96, frames, obs) \<and> R es)"
  proof -
    have ser: "sc_series (series_after es s0) = es" for es by (simp add: series_after_fields s0_def)
    have "(\<exists>s. (\<exists>es. A es \<and> s = series_after es s0) \<and> C s \<and> R (sc_series s)) \<longleftrightarrow> (\<exists>es. A es \<and> C (series_after es s0) \<and> R es)"
      for A C by (auto simp: ser)
    from this [of "\<lambda>es. length es = series \<and> table bs 192 64 wire_series_entry es \<and>
       chained (ly_append_offset ly) (length bs - 4) (ly_blocks_offset ly) (ly_recent_offset ly) es \<and> sorted_wrt (<) (map se_series_id es)"
       "\<lambda>s. sc_block_offset s = ly_append_offset ly \<and> sc_recent_offset s = length bs - 4 \<and> sc_frames s = frames \<and>
        sc_observations s = obs"]
    show ?thesis unfolding series sums [symmetric] by (simp only: conj_assoc)
  qed
  finally show ?thesis unfolding R_def by blast
qed

lemma parse_tail_iff:
  assumes ok: "layout_ok frames series obs blocks" and ly: "ly = layout_of frames series obs blocks"
    and len: "length bs = ly_artifact_length ly" and h: "header_ok sealed frames" and store: "identity_ok store"
    and bl: "blocks_ok store bl" "length bl = series" "length (block_frames bl) = frames" "observation_total (block_frames bl) = obs"
      "length (blocks_bytes bl) = blocks" "slice (ly_blocks_offset ly) (ly_append_offset ly) bs = blocks_bytes bl"
  shows "(\<exists>a entries. parse_appends bs ly 0 (map fst (ordered (ly_blocks_offset ly) bl))
         \<lparr>as_expected_sequence = sealed_sequence_floor sealed + 1,
          as_checksum = stream_update (header_encode \<lparr>header_store_id = store\<rparr>) stream_new,
          as_source_length = 28, as_appends = []\<rparr> = Inr a \<and>
       fl_append_sequence (last (map fst (ordered (ly_blocks_offset ly) bl))) = sealed_sequence_cutoff sealed \<and>
       as_source_length a = sealed_artifact_length sealed \<and> stream_finish (as_checksum a) = sealed_artifact_checksum sealed \<and>
       parse_observations bs ly 0 (recents (ly_blocks_offset ly) bl) = Inr entries \<and>
       seg = \<lparr>seg_bytes = bs, seg_inspection = inspection_of store sealed frames series obs ly crc,
         seg_series = series_entries (ly_blocks_offset ly) (ly_recent_offset ly) bl,
         seg_appends = as_appends a, seg_observations = entries\<rparr>) \<longleftrightarrow>
    slice (ly_append_offset ly) (ly_recent_offset ly) bs =
       concat (map (\<lambda>p. wire_append_entry (append_entry_of (fst p))) (ordered (ly_blocks_offset ly) bl)) \<and>
    slice (ly_recent_offset ly) (ly_artifact_length ly - 4) bs = concat (map wire_observation_entry (recents (ly_blocks_offset ly) bl)) \<and>
    source_ok store sealed bl \<and> seg = segment_value bs store sealed crc bl"
proof -
  define boff where "boff = ly_blocks_offset ly"
  define s0 where "s0 = \<lparr>as_expected_sequence = sealed_sequence_floor sealed + 1,
          as_checksum = stream_update (header_encode \<lparr>header_store_id = store\<rparr>) stream_new,
          as_source_length = 28, as_appends = []\<rparr>"
  have blk: "list_all (block_ok store) bl" using bl(1) by (simp add: blocks_ok_def)
  have bounds: "length bs \<le> usize_max" "boff + length (blocks_bytes bl) \<le> length bs" "blocks < 2 ^ 32" "0 < frames"
    "ly_append_offset ly = boff + blocks" "ly_recent_offset ly = ly_append_offset ly + frames * 48"
    "ly_artifact_length ly - 4 = ly_recent_offset ly + obs * 96" "ly_artifact_length ly = ly_recent_offset ly + obs * 96 + 4"
    using ok len bl(5) by (auto simp: ly layout_of_def layout_ok_def boff_def)
  have loc: "list_all (located bs) (ordered boff bl)"
    using place_located [OF bounds(1) blk bounds(2)] bl(5,6) bounds(5) by (auto simp: list_all_iff boff_def)
  have floor: "unat (sealed_sequence_floor sealed + 1) = unat (sealed_sequence_floor sealed) + 1"
    using h bounds(4) unat_less_2p [of "sealed_sequence_cutoff sealed"] by (simp add: header_ok_def unat_word_ariths)
  have cutoff: "unat (sealed_sequence_cutoff sealed) = unat (sealed_sequence_floor sealed) + frames"
    using h by (simp add: header_ok_def)
  define seqs where "seqs = map da_append_sequence (merged bl)"
  have seqs: "map (\<lambda>p. fl_append_sequence (fst p)) (ordered boff bl) = seqs" "length seqs = frames" "seqs \<noteq> []"
    using bl(3) bounds(4) by (auto simp: seqs_def ordered_sequences simp flip: length_greater_0_conv)
  have consec: "consecutive (as_expected_sequence s0) seqs \<longleftrightarrow>
      map unat seqs = [unat (sealed_sequence_floor sealed) + 1..<unat (sealed_sequence_cutoff sealed) + 1]"
    using consecutive_iff [of "sealed_sequence_floor sealed + 1" seqs] floor cutoff seqs(2)
      unat_less_2p [of "sealed_sequence_cutoff sealed"] by (simp add: s0_def)
  have last: "fl_append_sequence (last (map fst (ordered boff bl))) = sealed_sequence_cutoff sealed"
    if "map unat seqs = [unat (sealed_sequence_floor sealed) + 1..<unat (sealed_sequence_cutoff sealed) + 1]"
  proof -
    have "fl_append_sequence (last (map fst (ordered boff bl))) = last seqs"
      unfolding seqs(1) [symmetric] using seqs(1,3) by (metis (no_types, lifting) last_map list.map_comp map_is_Nil_conv comp_apply)
    moreover have "unat (last seqs) = unat (sealed_sequence_cutoff sealed)"
      using that seqs(3) cutoff bounds(4) by (metis last_map last_upt Suc_eq_plus1 diff_Suc_1 less_add_same_cancel1 add_less_cancel_right)
    ultimately show ?thesis by (simp add: word_unat_eq_iff)
  qed
  have snd: "map snd (ordered boff bl) = merged bl" by (rule ordered_snd)
  have apps: "parse_appends bs ly 0 (map fst (ordered boff bl)) s0 = Inr a \<longleftrightarrow>
      map unat seqs = [unat (sealed_sequence_floor sealed) + 1..<unat (sealed_sequence_cutoff sealed) + 1] \<and>
      slice (ly_append_offset ly) (ly_recent_offset ly) bs = concat (map (\<lambda>p. wire_append_entry (append_entry_of (fst p))) (ordered boff bl)) \<and>
      a = appends_after (ordered boff bl) s0" for a
    using parse_appends_iff [OF loc, of s0 ly 0 a] bounds bl(3,5) len
      table_slice [OF length_wire_ordered [OF blk, of boff], of "ly_append_offset ly" bs]
    by (simp add: seqs(1) consec snd) (simp add: s0_def)
  have recs: "parse_observations bs ly 0 (recents boff bl) = Inr entries \<longleftrightarrow>
      slice (ly_recent_offset ly) (ly_artifact_length ly - 4) bs = concat (map wire_observation_entry (recents boff bl)) \<and>
      entries = map observation_entry_of (recents boff bl)" for entries
    using parse_observations_iff [OF recents_ok [OF blk, of boff], of bs ly 0 entries] bounds bl(4) len
      table_slice [OF length_wire_recents [OF blk, of boff], of "ly_recent_offset ly" bs]
    by (simp add: length_recents)
  have src: "as_source_length (appends_after (ordered boff bl) s0) = sealed_artifact_length sealed \<longleftrightarrow>
      unat (sealed_artifact_length sealed) = length (source_of store bl)"
    "stream_finish (as_checksum (appends_after (ordered boff bl) s0)) = crc32c (source_of store bl)"
    "as_appends (appends_after (ordered boff bl) s0) = map (\<lambda>p. append_entry_of (fst p)) (ordered boff bl)"
    using bounds(3) bl(5) store
    by (auto simp: appends_after_def s0_def snd length_header_encode stream_source source_of_def word_unat_eq_iff unat_word_ariths
        unat_of_nat split_def)
  show ?thesis
    unfolding boff_def [symmetric] s0_def [symmetric] apps recs
    using last src bl(2-5)
    by (auto simp: source_ok_def segment_value_def Let_def ly boff_def seqs_def comp_def)
qed

lemma parse_directories_iff:
  assumes ok: "layout_ok frames series obs blocks" and ly: "ly = layout_of frames series obs blocks"
    and len: "length bs = ly_artifact_length ly" and h: "header_ok sealed frames" and store: "identity_ok store"
  shows "parse_directories bs store \<lparr>sh_sealed = sealed, sh_frame_count = frames, sh_series_count = series, sh_observation_count = obs\<rparr>
      ly crc = Inr seg \<longleftrightarrow>
    (\<exists>bl. length bl = series \<and> length (block_frames bl) = frames \<and> observation_total (block_frames bl) = obs \<and>
       length (blocks_bytes bl) = blocks \<and> blocks_ok store bl \<and> directories bs bl \<and> source_ok store sealed bl \<and>
       seg = segment_value bs store sealed crc bl)" (is "?L \<longleftrightarrow> (\<exists>bl. ?R bl)")
proof -
  define boff roff aoff where "boff = ly_blocks_offset ly" and "roff = ly_recent_offset ly" and "aoff = ly_append_offset ly"
  have bounds: "length bs \<le> usize_max" "aoff \<le> length bs" "boff \<le> aoff" "aoff = boff + blocks" "length bs - 4 = roff + obs * 96"
    "boff = 192 + series * 64" "frames \<le> 4096" "boff \<le> length bs" "length bs < 2 ^ 64" "length bs - 4 < 2 ^ 64"
    using ok len by (auto simp: ly layout_of_def layout_ok_def boff_def roff_def aoff_def)
  have dirs: "directories bs bl \<longleftrightarrow> slice 192 boff bs = concat (map wire_series_entry (series_entries boff roff bl)) \<and>
      slice boff aoff bs = blocks_bytes bl \<and>
      slice aoff roff bs = concat (map (\<lambda>p. wire_append_entry (append_entry_of (fst p))) (ordered boff bl)) \<and>
      slice roff (ly_artifact_length ly - 4) bs = concat (map wire_observation_entry (recents boff bl))"
    if "length bl = series" "length (block_frames bl) = frames" "observation_total (block_frames bl) = obs"
      "length (blocks_bytes bl) = blocks" for bl
    using that by (simp add: directories_def Let_def boff_def roff_def aoff_def ly)
  define P where "P bl \<longleftrightarrow> (\<exists>a entries. parse_appends bs ly 0 (map fst (ordered boff bl))
         \<lparr>as_expected_sequence = sealed_sequence_floor sealed + 1,
          as_checksum = stream_update (header_encode \<lparr>header_store_id = store\<rparr>) stream_new,
          as_source_length = 28, as_appends = []\<rparr> = Inr a \<and>
       fl_append_sequence (last (map fst (ordered boff bl))) = sealed_sequence_cutoff sealed \<and>
       as_source_length a = sealed_artifact_length sealed \<and> stream_finish (as_checksum a) = sealed_artifact_checksum sealed \<and>
       parse_observations bs ly 0 (recents boff bl) = Inr entries \<and>
       seg = \<lparr>seg_bytes = bs, seg_inspection = inspection_of store sealed frames series obs ly crc,
         seg_series = series_entries boff roff bl, seg_appends = as_appends a, seg_observations = entries\<rparr>)" for bl
  have tail: "?R bl \<longleftrightarrow> length bl = series \<and> length (block_frames bl) = frames \<and> observation_total (block_frames bl) = obs \<and>
       length (blocks_bytes bl) = blocks \<and> blocks_ok store bl \<and>
       slice 192 boff bs = concat (map wire_series_entry (series_entries boff roff bl)) \<and>
       slice boff aoff bs = blocks_bytes bl \<and> P bl" for bl
    using dirs [of bl] parse_tail_iff [OF ok ly len h store, of bl seg crc]
    unfolding P_def boff_def [symmetric] roff_def [symmetric] aoff_def [symmetric] by blast
  have chain: "chained aoff (length bs - 4) boff roff (series_entries boff roff bl) \<and>
      chain_sums (series_entries boff roff bl) = (blocks, obs * 96, frames, obs)"
    if "length (block_frames bl) = frames" "observation_total (block_frames bl) = obs" "length (blocks_bytes bl) = blocks"
      "list_all (block_ok store) bl" for bl
    using chained_series_entries [of aoff "length bs - 4" store bl boff roff] that bounds blocks_small [of store bl] by simp
  have table: "table bs 192 64 wire_series_entry (series_entries boff roff bl) \<longleftrightarrow>
      slice 192 boff bs = concat (map wire_series_entry (series_entries boff roff bl))"
    if "length bl = series" "list_all (block_ok store) bl" for bl
    using table_slice [OF length_wire_series_entries [OF that(2), of boff roff], of 192 bs] bounds that by simp
  note steps = parse_directories_steps [OF ok ly len h, of store crc seg, folded boff_def roff_def aoff_def]
  show ?thesis
  proof
    assume ?L
    then obtain es p x a entries where es: "length es = series" "table bs 192 64 wire_series_entry es"
        "chained aoff (length bs - 4) boff roff es" "sorted_wrt (<) (map se_series_id es)" "chain_sums es = (blocks, obs * 96, frames, obs)"
      and px: "parse_blocks bs store es ([], []) = Inr (p, x)" "length p = frames" "length x = obs"
      and rest: "parse_appends bs ly 0 (sort_key fl_append_sequence p)
         \<lparr>as_expected_sequence = sealed_sequence_floor sealed + 1,
          as_checksum = stream_update (header_encode \<lparr>header_store_id = store\<rparr>) stream_new,
          as_source_length = 28, as_appends = []\<rparr> = Inr a"
       "fl_append_sequence (last (sort_key fl_append_sequence p)) = sealed_sequence_cutoff sealed"
       "as_source_length a = sealed_artifact_length sealed" "stream_finish (as_checksum a) = sealed_artifact_checksum sealed"
       "parse_observations bs ly 0 (sort_by series_recent_le x) = Inr entries"
       "seg = \<lparr>seg_bytes = bs, seg_inspection = inspection_of store sealed frames series obs ly crc, seg_series = es,
         seg_appends = as_appends a, seg_observations = entries\<rparr>"
      unfolding steps by blast
    obtain bl where bl: "es = series_entries boff roff bl" "list_all (block_ok store) bl" "list_all block_small bl"
        "boff + length (blocks_bytes bl) \<le> length bs" "slice boff (boff + length (blocks_bytes bl)) bs = blocks_bytes bl"
        "p = map fst (concat (place boff bl))" "x = observed_all (concat (place boff bl))"
      using px(1) parse_blocks_iff [OF bounds(1,2) es(3) bounds(3), of store "[]" "[]" p x] by auto
    have total: "observation_total (block_frames bl) = obs" "length (block_frames bl) = frames"
      using px(2,3) unfolding bl(6,7) by (simp_all only: length_observed_all length_map map_snd_place length_place)
    have "chain_sums es = (length (blocks_bytes bl), obs * 96, frames, obs)"
      using chained_series_entries [of "length bs" "length bs - 4" store bl boff roff] bl total bounds by simp
    then have blocks: "length (blocks_bytes bl) = blocks" using es(5) by simp
    have sorted: "sorted_wrt (<) (map fst bl)" using es(4) bl(1) by simp
    have "length bl = series" using es(1) bl(1) by simp
    moreover have "P bl"
      unfolding P_def ordered_fst [symmetric] sort_series_recent [OF sorted, symmetric]
      using rest unfolding bl(1,6,7) by blast
    ultimately have "?R bl"
      unfolding tail using table [of bl] es(2) bl blocks total sorted bounds(4) by (simp add: blocks_ok_def)
    then show "\<exists>bl. ?R bl" by blast
  next
    assume "\<exists>bl. ?R bl"
    then obtain bl where R: "?R bl" by blast
    then have bl: "length bl = series" "length (block_frames bl) = frames" "observation_total (block_frames bl) = obs"
       "length (blocks_bytes bl) = blocks" "sorted_wrt (<) (map fst bl)" "list_all (block_ok store) bl"
       "slice 192 boff bs = concat (map wire_series_entry (series_entries boff roff bl))" "slice boff aoff bs = blocks_bytes bl" "P bl"
      unfolding tail by (auto simp: blocks_ok_def)
    note ch = chain [OF bl(2-4,6)]
    have px: "parse_blocks bs store (series_entries boff roff bl) ([], []) =
        Inr (map fst (concat (place boff bl)), observed_all (concat (place boff bl)))"
      using parse_blocks_iff [OF bounds(1,2) conjunct1 [OF ch] bounds(3), of store "[]" "[]"] bl blocks_small [OF bl(6)] bounds
      by auto
    have lens: "length (map fst (concat (place boff bl))) = frames" "length (observed_all (concat (place boff bl))) = obs"
      using bl(2,3) by (simp_all only: length_observed_all length_map map_snd_place length_place)
    show ?L
      unfolding steps
      using bl(1,5,7,9) ch px lens table [OF bl(1,6)] unfolding P_def ordered_fst [symmetric] sort_series_recent [OF bl(5), symmetric]
      by (intro exI [of _ "series_entries boff roff bl"] exI [of _ "map fst (concat (place boff bl))"]
          exI [of _ "observed_all (concat (place boff bl))"]) auto
  qed
qed

section \<open>The whole buffer\<close>

definition segment_layout :: "block list \<Rightarrow> Layout" where
  "segment_layout bl = layout_of (length (block_frames bl)) (length bl) (observation_total (block_frames bl)) (length (blocks_bytes bl))"

definition segment_body :: "StoreId \<Rightarrow> SealedGeneration \<Rightarrow> block list \<Rightarrow> bytes" where
  "segment_body store sealed bl =
     (let ly = segment_layout bl; boff = ly_blocks_offset ly; roff = ly_recent_offset ly in
      segment_header store sealed (length (block_frames bl)) (length bl) (observation_total (block_frames bl)) ly @
      concat (map wire_series_entry (series_entries boff roff bl)) @ blocks_bytes bl @
      concat (map (\<lambda>p. wire_append_entry (append_entry_of (fst p))) (ordered boff bl)) @
      concat (map wire_observation_entry (recents boff bl)))"

definition segment_bytes :: "StoreId \<Rightarrow> SealedGeneration \<Rightarrow> block list \<Rightarrow> bytes" where
  "segment_bytes store sealed bl = seal (segment_body store sealed bl)"

definition segment_ok :: "StoreId \<Rightarrow> SealedGeneration \<Rightarrow> block list \<Rightarrow> bool" where
  "segment_ok store sealed bl \<longleftrightarrow> identity_ok store \<and> blocks_ok store bl \<and> bl \<noteq> [] \<and> length (block_frames bl) \<le> 4096 \<and>
     sealed_journal_generation sealed \<noteq> 0 \<and> sealed_registry_generation sealed \<noteq> 0 \<and>
     sealed_end_offset sealed = sealed_artifact_length sealed \<and> length (source_of store bl) \<le> 536870912 \<and> source_ok store sealed bl"

definition the_segment :: "StoreId \<Rightarrow> SealedGeneration \<Rightarrow> block list \<Rightarrow> SegmentV1" where
  "the_segment store sealed bl =
     segment_value (segment_bytes store sealed bl) store sealed (crc32c (segment_body store sealed bl)) bl"

lemma blocks_counts:
  assumes "list_all (block_ok store) bl"
  shows "length bl \<le> length (block_frames bl)" "24 * length (block_frames bl) \<le> length (blocks_bytes bl)"
    "observation_total (block_frames bl) \<le> 256 * length (block_frames bl)"
proof -
  have frames: "list_all decoded_payload_ok (block_frames bl)"
    using assms by (auto simp: list_all_iff block_frames_def block_ok_def frame_ok_def)
  show "length bl \<le> length (block_frames bl)"
    using assms by (induction bl) (auto simp: block_ok_def Suc_le_eq neq_Nil_conv)
  have "24 * length ds \<le> length (frames_bytes ds)" if "list_all decoded_payload_ok ds" for ds
    using that by (induction ds) (auto dest!: frame_length_bounds(1))
  then show "24 * length (block_frames bl) \<le> length (blocks_bytes bl)" using frames by (simp flip: frames_block_bytes)
  show "observation_total (block_frames bl) \<le> 256 * length (block_frames bl)" using frames by (rule observation_total_bound)
qed

lemma segment_ok_layout:
  assumes "segment_ok store sealed bl"
  shows "layout_ok (length (block_frames bl)) (length bl) (observation_total (block_frames bl)) (length (blocks_bytes bl))"
    and "header_ok sealed (length (block_frames bl))"
proof -
  have blk: "list_all (block_ok store) bl" "identity_ok store" "bl \<noteq> []" "length (block_frames bl) \<le> 4096"
    "length (source_of store bl) \<le> 536870912" and src: "source_ok store sealed bl"
    using assms by (simp_all add: segment_ok_def blocks_ok_def)
  have pos: "0 < length bl" using blk(3) by simp
  show "layout_ok (length (block_frames bl)) (length bl) (observation_total (block_frames bl)) (length (blocks_bytes bl))"
    using blocks_counts [OF blk(1)] blk pos by (auto simp: layout_ok_def length_source_of)
  have "map (\<lambda>d. unat (da_append_sequence d)) (merged bl) =
       [unat (sealed_sequence_floor sealed) + 1..<unat (sealed_sequence_cutoff sealed) + 1]"
    using src by (simp add: source_ok_def)
  from arg_cong [OF this, of length]
  have "length (block_frames bl) = unat (sealed_sequence_cutoff sealed) - unat (sealed_sequence_floor sealed)"
    by (simp del: upt_Suc)
  moreover have "0 < length (block_frames bl)" "0 < length (blocks_bytes bl)" using blocks_counts [OF blk(1)] pos by linarith+
  ultimately have "unat (sealed_sequence_cutoff sealed) = unat (sealed_sequence_floor sealed) + length (block_frames bl)"
    "28 < length (source_of store bl)" using length_source_of [OF blk(2), of bl] by linarith+
  with assms src show "header_ok sealed (length (block_frames bl))"
    by (simp add: header_ok_def segment_ok_def source_ok_def)
qed

lemma segment_okI:
  assumes "identity_ok store" "blocks_ok store bl" "source_ok store sealed bl"
    "layout_ok (length (block_frames bl)) (length bl) (observation_total (block_frames bl)) (length (blocks_bytes bl))"
    "header_ok sealed (length (block_frames bl))"
  shows "segment_ok store sealed bl"
  using assms by (auto simp: segment_ok_def layout_ok_def header_ok_def source_ok_def)

lemma length_segment_body:
  assumes "identity_ok store" "list_all (block_ok store) bl"
  shows "length (segment_body store sealed bl) + 4 = ly_artifact_length (segment_layout bl)"
  using length_table [OF length_wire_series_entries [OF assms(2)]] length_table [OF length_wire_ordered [OF assms(2)]]
    length_table [OF length_wire_recents [OF assms(2)]]
  by (simp add: segment_body_def Let_def length_segment_header [OF assms(1)] length_recents) (simp add: segment_layout_def layout_of_def)

lemma segment_bytes_iff:
  assumes len: "length bs = ly_artifact_length (segment_layout bl)" and ok: "identity_ok store" "list_all (block_ok store) bl"
  shows "bs = segment_bytes store sealed bl \<longleftrightarrow>
     slice 0 192 bs = segment_header store sealed (length (block_frames bl)) (length bl) (observation_total (block_frames bl)) (segment_layout bl) \<and>
     directories bs bl \<and> (\<exists>body. bs = seal body)" (is "?L \<longleftrightarrow> ?R")
proof -
  define ly where "ly = segment_layout bl"
  define boff roff aoff co where "boff = ly_blocks_offset ly" and "roff = ly_recent_offset ly" and "aoff = ly_append_offset ly"
    and "co = length bs - 4"
  have offs: "boff = 192 + length bl * 64" "aoff = boff + length (blocks_bytes bl)" "roff = aoff + length (block_frames bl) * 48"
    "co = roff + observation_total (block_frames bl) * 96" "length bs = co + 4" "ly_artifact_length ly = co + 4"
    using len by (simp_all add: ly_def segment_layout_def layout_of_def boff_def roff_def aoff_def co_def)
  define body where "body = slice 0 co bs"
  have blen: "length body = co" using offs by (simp add: body_def)
  have sl: "slice i j bs = slice i j body" if "j \<le> co" for i j using that by (simp add: body_def slice_of_prefix)
  have lens: "length (segment_header store sealed (length (block_frames bl)) (length bl) (observation_total (block_frames bl)) ly) = 192"
    "length (concat (map wire_series_entry (series_entries boff roff bl))) = length bl * 64"
    "length (concat (map (\<lambda>p. wire_append_entry (append_entry_of (fst p))) (ordered boff bl))) = length (block_frames bl) * 48"
    "length (concat (map wire_observation_entry (recents boff bl))) = observation_total (block_frames bl) * 96"
    using length_table [OF length_wire_series_entries [OF ok(2)]] length_table [OF length_wire_ordered [OF ok(2)]]
      length_table [OF length_wire_recents [OF ok(2)]] length_segment_header [OF ok(1)] by (simp_all add: length_recents)
  have "body = segment_body store sealed bl \<longleftrightarrow>
     slice 0 192 bs = segment_header store sealed (length (block_frames bl)) (length bl) (observation_total (block_frames bl)) ly \<and>
     directories bs bl"
    unfolding segment_body_def Let_def ly_def [symmetric] boff_def [symmetric] roff_def [symmetric]
    using lens blen offs
    apply (subst head_split)
     apply (simp_all add: drop_split directories_def Let_def segment_layout_def [symmetric]
        ly_def [symmetric] boff_def [symmetric] roff_def [symmetric] aoff_def [symmetric] sl)
    apply (simp add: slice_def)
    done
  moreover have "(\<exists>b. bs = seal b) \<longleftrightarrow> bs = seal body"
  proof
    assume "\<exists>b. bs = seal b"
    then obtain b where b: "bs = seal b" by blast
    then have "length b = co" using offs(5) by simp
    then have "body = b" using take_seal [of b] by (simp add: body_def slice_def b)
    with b show "bs = seal body" by simp
  qed blast
  moreover have "seal a = seal b \<longleftrightarrow> a = b" if "length a = length b" for a b
    using that by (auto simp: seal_def)
  moreover have "length (segment_body store sealed bl) = co" using length_segment_body [OF ok, of sealed] len offs by simp
  ultimately show ?thesis unfolding segment_bytes_def ly_def using blen by metis
qed

lemma identity_check: "length bs = 16 \<Longrightarrow> map_err f (identity_from_bytes bs) = Inr i \<longleftrightarrow> bs = id_bytes i \<and> identity_ok i"
  by (auto simp: map_err_Inr_conv identity_from_bytes_iff)

lemma be_zero: "be_encode n 0 = replicate n 0"
  by (induction n) (simp_all add: replicate_append_same)

lemma parse_segment_prefix:
  assumes len: "196 \<le> length bs" "length bs \<le> unat MAX_SEGMENT_V1_BYTES"
  shows "parse_segment_v1 bs store = Inr seg \<longleftrightarrow>
     (slice 0 8 bs = SEGMENT_V1_MAGIC \<and> slice 8 10 bs = be_encode 2 1 \<and> slice 10 12 bs = be_encode 2 192 \<and>
      slice 12 16 bs = replicate 4 0 \<and> slice 16 32 bs = id_bytes store) \<and> slice 168 192 bs = replicate 24 0 \<and> identity_ok store \<and>
     (\<exists>h n. parse_segment_header bs = Inr h \<and> n = unat (read_u64 120 bs) \<and>
        layout_ok (sh_frame_count h) (sh_series_count h) (sh_observation_count h) n \<and>
        layout_matches bs (layout_of (sh_frame_count h) (sh_series_count h) (sh_observation_count h) n) \<and>
        length bs = ly_artifact_length (layout_of (sh_frame_count h) (sh_series_count h) (sh_observation_count h) n) \<and>
        (\<exists>body. bs = seal body) \<and>
        parse_directories bs store h (layout_of (sh_frame_count h) (sh_series_count h) (sh_observation_count h) n)
          (crc32c (slice 0 (length bs - 4) bs)) = Inr seg)"
proof -
  have max: "length bs \<le> usize_max" using len(2) by (simp add: MAX_SEGMENT_V1_BYTES_def segment_consts)
  have fields: "segment_read_u16 bs 8 = Some 1 \<longleftrightarrow> slice 8 10 bs = be_encode 2 1"
    "segment_read_u16 bs 10 = Some 192 \<longleftrightarrow> slice 10 12 bs = be_encode 2 192"
    "segment_read_u32 bs 12 = Some 0 \<longleftrightarrow> slice 12 16 bs = replicate 4 0"
    using max len read_fields(3) [of 8 bs 1] read_fields(3) [of 10 bs 192] read_fields(2) [of 12 bs 0]
    by (simp_all add: segment_reads be_zero)
  have zeros: "\<not> list_ex (\<lambda>b. b \<noteq> 0) (slice 168 192 bs) \<longleftrightarrow> slice 168 192 bs = replicate 24 0" using len by (simp add: zero_bytes)
  have crc: "crc32c (slice 0 (length bs - 4) bs) = read_u32 (length bs - 4) bs \<longleftrightarrow> (\<exists>body. bs = seal body)"
    using trailer_test [of bs "length bs - 4"] len by simp
  show ?thesis
    unfolding parse_segment_v1_def crc [symmetric] zeros [symmetric] fields [symmetric]
    using len max
    by (auto simp: SEGMENT_V1_HEADER_LEN_def SEGMENT_V1_CRC_LEN_def SEGMENT_V1_VERSION_def SEGMENT_FLAGS_NONE_def result_convs
        identity_check segment_reads layout_new_iff Let_def simp del: map_err_Inr_conv)
qed

theorem parse_segment_iff:
  "parse_segment_v1 bs store = Inr seg \<longleftrightarrow>
     (\<exists>sealed bl. segment_ok store sealed bl \<and> bs = segment_bytes store sealed bl \<and> seg = the_segment store sealed bl)"
  (is "?L \<longleftrightarrow> ?R")
proof
  assume L: ?L
  then have len: "196 \<le> length bs" "length bs \<le> unat MAX_SEGMENT_V1_BYTES"
    by (auto simp: parse_segment_v1_def SEGMENT_V1_HEADER_LEN_def SEGMENT_V1_CRC_LEN_def split: if_splits)
  have max: "length bs \<le> usize_max" using len(2) by (simp add: MAX_SEGMENT_V1_BYTES_def segment_consts)
  from L obtain h n where fixed: "slice 0 8 bs = SEGMENT_V1_MAGIC \<and> slice 8 10 bs = be_encode 2 1 \<and> slice 10 12 bs = be_encode 2 192 \<and>
      slice 12 16 bs = replicate 4 0 \<and> slice 16 32 bs = id_bytes store" "slice 168 192 bs = replicate 24 0" and store: "identity_ok store"
    and h: "parse_segment_header bs = Inr h"
    and ok: "layout_ok (sh_frame_count h) (sh_series_count h) (sh_observation_count h) n"
    and ly: "layout_matches bs (layout_of (sh_frame_count h) (sh_series_count h) (sh_observation_count h) n)"
    and art: "length bs = ly_artifact_length (layout_of (sh_frame_count h) (sh_series_count h) (sh_observation_count h) n)"
    and sealed_bs: "\<exists>body. bs = seal body"
    and dir: "parse_directories bs store h (layout_of (sh_frame_count h) (sh_series_count h) (sh_observation_count h) n)
          (crc32c (slice 0 (length bs - 4) bs)) = Inr seg"
    unfolding parse_segment_prefix [OF len] by blast
  obtain sealed frames series obs where hv: "h = \<lparr>sh_sealed = sealed, sh_frame_count = frames, sh_series_count = series,
      sh_observation_count = obs\<rparr>" by (cases h) auto
  have len192: "192 \<le> length bs" using len by simp
  note hf = h [unfolded parse_segment_header_iff [OF max len192], unfolded hv, simplified]
  then have hok: "header_ok sealed frames" by simp
  obtain bl where bl: "length bl = series" "length (block_frames bl) = frames" "observation_total (block_frames bl) = obs"
      "length (blocks_bytes bl) = n" "blocks_ok store bl" "directories bs bl" "source_ok store sealed bl"
      and seg: "seg = segment_value bs store sealed (crc32c (slice 0 (length bs - 4) bs)) bl"
    using dir parse_directories_iff [OF _ refl _ hok store, of series obs n bs] ok art unfolding hv by auto
  have lyv: "segment_layout bl = layout_of frames series obs n" using bl by (simp add: segment_layout_def)
  have "slice 0 192 bs = segment_header store sealed frames series obs (segment_layout bl)"
    unfolding segment_header_split [OF store len192]
    using fixed hf ly layout_matches_iff [OF max len192, of "layout_of frames series obs n"] layout_small [of frames series obs n] ok
    unfolding lyv hv by simp
  then have bs: "bs = segment_bytes store sealed bl"
    using segment_bytes_iff [of bs bl store sealed] bl art store sealed_bs lyv by (simp add: hv blocks_ok_def)
  moreover have "segment_ok store sealed bl" using bl store ok hok by (intro segment_okI) (simp_all add: hv)
  moreover have "slice 0 (length bs - 4) bs = segment_body store sealed bl" unfolding bs segment_bytes_def by (simp add: slice_def)
  ultimately show ?R using seg by (auto simp: the_segment_def)
next
  assume ?R
  then obtain sealed bl where ok: "segment_ok store sealed bl" and bs: "bs = segment_bytes store sealed bl"
    and seg: "seg = the_segment store sealed bl" by blast
  define frames series obs n where "frames = length (block_frames bl)" and "series = length bl"
    and "obs = observation_total (block_frames bl)" and "n = length (blocks_bytes bl)"
  have store: "identity_ok store" and blk: "blocks_ok store bl" and src: "source_ok store sealed bl"
    using ok by (simp_all add: segment_ok_def)
  note lok = segment_ok_layout [OF ok, folded frames_def series_def obs_def n_def]
  have lyv: "segment_layout bl = layout_of frames series obs n" by (simp add: segment_layout_def frames_def series_def obs_def n_def)
  have art: "length bs = ly_artifact_length (layout_of frames series obs n)"
    using length_segment_body [OF store, of bl sealed] blk by (simp add: bs segment_bytes_def lyv blocks_ok_def)
  then have len: "196 \<le> length bs" "length bs \<le> unat MAX_SEGMENT_V1_BYTES" "192 \<le> length bs" "length bs \<le> usize_max"
    using layout_bounds [OF lok(1)] by (auto simp: layout_of_def MAX_SEGMENT_V1_BYTES_def segment_consts)
  have parts: "slice 0 192 bs = segment_header store sealed frames series obs (layout_of frames series obs n)" "directories bs bl"
      "\<exists>body. bs = seal body"
    using segment_bytes_iff [of bs bl store sealed] art store blk bs
    unfolding lyv frames_def [symmetric] series_def [symmetric] obs_def [symmetric] by (auto simp: blocks_ok_def)
  note split = parts(1) [unfolded segment_header_split [OF store len(3)]]
  have counts: "frames \<le> 4096" "series \<le> 4096" "obs \<le> 1048576" "0 < frames" "0 < series" "series \<le> frames" "n < 2 ^ 64"
    using lok(1) by (auto simp: layout_ok_def)
  have h: "parse_segment_header bs = Inr \<lparr>sh_sealed = sealed, sh_frame_count = frames, sh_series_count = series, sh_observation_count = obs\<rparr>"
    unfolding parse_segment_header_iff [OF len(4,3)] using split lok counts by simp
  have "slice 120 128 bs = be_encode 8 n" using split by (simp add: layout_of_def)
  then have n: "n = unat (read_u64 120 bs)"
    using read_fields(1) [of 120 bs "of_nat n"] counts(7) len(3) by (simp add: unat_of_nat)
  have dir: "parse_directories bs store \<lparr>sh_sealed = sealed, sh_frame_count = frames, sh_series_count = series, sh_observation_count = obs\<rparr>
      (layout_of frames series obs n) (crc32c (slice 0 (length bs - 4) bs)) = Inr seg"
  proof -
    have "slice 0 (length bs - 4) bs = segment_body store sealed bl" unfolding bs segment_bytes_def by (simp add: slice_def)
    then have "seg = segment_value bs store sealed (crc32c (slice 0 (length bs - 4) bs)) bl"
      using seg bs by (simp add: the_segment_def)
    then show ?thesis
      unfolding parse_directories_iff [OF lok(1) refl art lok(2) store]
      using blk parts src frames_def series_def obs_def n_def by blast
  qed
  show ?L
    unfolding parse_segment_prefix [OF len(1,2)]
    using split store h n lok(1) art parts(3) dir layout_matches_iff [OF len(4,3) layout_small [OF lok(1)]]
    by (intro conjI exI [of _ "\<lparr>sh_sealed = sealed, sh_frame_count = frames, sh_series_count = series, sh_observation_count = obs\<rparr>"]
        exI [of _ n]) simp_all
qed

end
