(* ===== verification/Och_Segment_Group.thy ===== *)
theory Och_Segment_Group
  imports Och_Segment_Exact
begin

text \<open>
  Building a segment scans the sealed journal once and groups its frames by series in a \<open>BTreeMap\<close>.  Both
  steps are characterised here: the scan reads exactly the frames of the journal in sequence order, and the
  groups are exactly the blocks whose merge is that sequence.
\<close>

section \<open>Grouping\<close>

definition d_series :: "DecodedAdmissionV1 \<Rightarrow> SeriesId" where
  "d_series d = dd_series_id (da_declaration d)"

definition bt_group :: "('k, 'v list) btree_map \<Rightarrow> 'k \<Rightarrow> 'v list" where
  "bt_group m k = (case bt_get m k of None \<Rightarrow> [] | Some g \<Rightarrow> g)"

definition group_add :: "DecodedAdmissionV1 \<Rightarrow> block list \<Rightarrow> block list" where
  "group_add d m = bt_insert (d_series d) (bt_group m (d_series d) @ [d]) m"

definition group_frames :: "DecodedAdmissionV1 list \<Rightarrow> block list" where
  "group_frames ds = fold group_add ds []"

lemma bt_ok_fold_group: "bt_ok m \<Longrightarrow> bt_ok (fold group_add ds m)"
  by (induction ds arbitrary: m) (simp_all add: group_add_def bt_ok_insert)

lemma bt_ok_group: "bt_ok (group_frames ds)"
  unfolding group_frames_def by (rule bt_ok_fold_group) (simp add: bt_ok_def)

lemma bt_group_fold: "bt_group (fold group_add ds m) k = bt_group m k @ filter (\<lambda>d. d_series d = k) ds"
  by (induction ds arbitrary: m) (auto simp: group_add_def bt_group_def bt_get_insert)

lemma bt_get_fold:
  "bt_get (fold group_add ds m) k = (if bt_get m k = None \<and> filter (\<lambda>d. d_series d = k) ds = [] then None
     else Some (bt_group (fold group_add ds m) k))"
proof -
  have "bt_get (fold group_add ds m) k = None \<longleftrightarrow> bt_get m k = None \<and> filter (\<lambda>d. d_series d = k) ds = []"
    by (induction ds arbitrary: m) (auto simp: group_add_def bt_get_insert)
  then show ?thesis by (auto simp: bt_group_def split: option.splits)
qed

lemma bt_get_group:
  "bt_get (group_frames ds) k = (if filter (\<lambda>d. d_series d = k) ds = [] then None else Some (filter (\<lambda>d. d_series d = k) ds))"
proof -
  have "bt_get [] k = (None :: DecodedAdmissionV1 list option)" "bt_group [] k = ([] :: DecodedAdmissionV1 list)"
    by (simp_all add: bt_get_def bt_group_def)
  then show ?thesis using bt_get_fold [of ds "[]" k] by (simp add: group_frames_def bt_group_fold)
qed

lemma bt_insert_frames:
  assumes "bt_ok m"
  shows "mset (block_frames (bt_insert k (bt_group m k @ [d]) m)) = add_mset d (mset (block_frames m))"
  using assms
proof (induction m)
  case Nil
  then show ?case by (simp add: bt_group_def bt_get_def)
next
  case (Cons jw m)
  obtain j w where jw: "jw = (j, w)" by (cases jw)
  have ok: "bt_ok m" using Cons.prems by (simp add: bt_ok_def jw)
  consider "k < j" | "k = j" | "j < k" by fastforce
  then show ?case
  proof cases
    case 1
    then have "bt_group (jw # m) k = []" using Cons.prems bt_get_below [of j w m k] by (simp add: bt_group_def jw)
    with 1 show ?thesis by (simp add: jw)
  next
    case 2
    then show ?thesis by (simp add: jw bt_group_def bt_get_def)
  next
    case 3
    then have "k \<noteq> j" by simp
    then have "bt_group (jw # m) k = bt_group m k" by (simp add: bt_group_def bt_get_def jw)
    with 3 Cons.IH [OF ok] \<open>k \<noteq> j\<close> show ?thesis by (simp add: jw)
  qed
qed

lemma mset_fold_group: "bt_ok m \<Longrightarrow> mset (block_frames (fold group_add ds m)) = mset (block_frames m) + mset ds"
  by (induction ds arbitrary: m) (simp_all add: group_add_def bt_ok_insert bt_insert_frames)

lemma mset_group: "mset (block_frames (group_frames ds)) = mset ds"
  using mset_fold_group [of "[]" ds] by (simp add: group_frames_def bt_ok_def)

lemma merged_group:
  assumes "sorted_wrt (<) (map da_append_sequence ds)"
  shows "merged (group_frames ds) = ds"
proof -
  have "inj_on da_append_sequence (set ds)" using assms by (simp add: strict_sorted_iff distinct_map)
  then show ?thesis
    unfolding merged_def using assms
    by (intro sort_key_inj_key_eq) (simp_all add: mset_group strict_sorted_iff mset_eq_setD [OF mset_group])
qed

lemma group_member: "(sid, fs) \<in> set (group_frames ds) \<Longrightarrow> fs = filter (\<lambda>d. d_series d = sid) ds \<and> fs \<noteq> []"
proof -
  assume "(sid, fs) \<in> set (group_frames ds)"
  then have "bt_get (group_frames ds) sid = Some fs"
    using bt_ok_group [of ds] by (simp add: bt_get_def bt_ok_def strict_sorted_iff)
  then show ?thesis by (auto simp: bt_get_group split: if_splits)
qed

lemma blocks_ok_group:
  assumes "list_all (\<lambda>d. frame_ok store (d_series d) d) ds" "sorted_wrt (<) (map da_append_sequence ds)"
  shows "blocks_ok store (group_frames ds)"
proof -
  have "block_ok store b" if "b \<in> set (group_frames ds)" for b
  proof -
    have b: "snd b = filter (\<lambda>d. d_series d = fst b) ds" "snd b \<noteq> []" using that group_member [of "fst b" "snd b" ds] by auto
    show ?thesis
      using assms b by (auto simp: block_ok_def list_all_iff intro: sorted_wrt_filter simp: sorted_wrt_map)
  qed
  then show ?thesis using bt_ok_group [of ds] by (simp add: blocks_ok_def bt_ok_def list_all_iff)
qed

lemma bt_eqI:
  assumes "bt_ok m" "bt_ok m'" "bt_get m = bt_get m'"
  shows "m = m'"
proof -
  have m: "sorted (map fst m)" "distinct (map fst m)" "sorted (map fst m')" "distinct (map fst m')"
    using assms by (simp_all add: bt_ok_def strict_sorted_iff)
  have "set (map fst m) = set (map fst m')" using assms(3) by (simp add: bt_get_def dom_map_of_conv_image_fst [symmetric] fun_eq_iff)
      (metis dom_map_of_conv_image_fst ext)
  then have keys: "map fst m = map fst m'" using m by (metis sorted_distinct_set_unique)
  have rebuild: "x = map (\<lambda>k. (k, the (map_of x k))) (map fst x)" if "distinct (map fst x)" for x :: "('a \<times> 'b) list"
  proof -
    have "map_of x (fst p) = Some (snd p)" if "p \<in> set x" for p using that \<open>distinct (map fst x)\<close> by simp
    then show ?thesis by (simp add: comp_def map_idI)
  qed
  have "map_of m = map_of m'" using assms(3) by (simp add: bt_get_def fun_eq_iff)
  then show ?thesis using rebuild [OF m(2)] rebuild [OF m(4)] keys by simp
qed

lemma filter_block_frames:
  assumes "blocks_ok store bl"
  shows "filter (\<lambda>d. d_series d = k) (block_frames bl) = bt_group bl k"
proof -
  have "filter (\<lambda>d. d_series d = k) (snd b) = (if fst b = k then snd b else [])" if "b \<in> set bl" for b
    using assms that by (auto simp: blocks_ok_def list_all_iff block_ok_def frame_ok_def d_series_def filter_id_conv filter_empty_conv)
  then have "filter (\<lambda>d. d_series d = k) (block_frames bl) = concat (map (\<lambda>b. if fst b = k then snd b else []) bl)"
    by (induction bl) auto
  moreover have "distinct (map fst bl)" using assms by (simp add: blocks_ok_def strict_sorted_iff)
  then have "concat (map (\<lambda>b. if fst b = k then snd b else []) bl) = bt_group bl k"
  proof (induction bl)
    case (Cons b bl)
    show ?case
    proof (cases "fst b = k")
      case True
      then have "concat (map (\<lambda>c. if fst c = k then snd c else []) bl) = []" using Cons.prems by (auto simp: image_iff)
      with True show ?thesis by (cases b) (simp add: bt_group_def bt_get_def)
    next
      case False
      with Cons show ?thesis by (cases b) (simp add: bt_group_def bt_get_def)
    qed
  qed (simp add: bt_group_def bt_get_def)
  ultimately show ?thesis by simp
qed

lemma group_merged:
  assumes "blocks_ok store bl"
  shows "group_frames (merged bl) = bl"
proof (rule bt_eqI)
  show "bt_ok (group_frames (merged bl))" by (rule bt_ok_group)
  show ok: "bt_ok bl" using assms by (simp add: blocks_ok_def bt_ok_def)
  show "bt_get (group_frames (merged bl)) = bt_get bl"
  proof
    fix k
    have "filter (\<lambda>d. d_series d = k) (merged bl) = sort_key da_append_sequence (bt_group bl k)"
      unfolding merged_def filter_sort filter_block_frames [OF assms] ..
    also have "\<dots> = bt_group bl k"
    proof (cases "bt_get bl k")
      case (Some g)
      then have "(k, g) \<in> set bl" by (simp add: bt_get_def map_of_SomeD)
      then have "sorted (map da_append_sequence g)"
        using assms by (auto simp: blocks_ok_def list_all_iff block_ok_def strict_sorted_iff)
      with Some show ?thesis by (simp add: bt_group_def sort_key_id_if_sorted)
    qed (simp add: bt_group_def)
    finally have f: "filter (\<lambda>d. d_series d = k) (merged bl) = bt_group bl k" .
    have "g \<noteq> []" if "bt_get bl k = Some g" for g
      using that assms by (auto simp: bt_get_def blocks_ok_def list_all_iff block_ok_def dest!: map_of_SomeD)
    then show "bt_get (group_frames (merged bl)) k = bt_get bl k"
      unfolding bt_get_group f by (auto simp: bt_group_def split: option.splits)
  qed
qed

section \<open>Scanning\<close>

definition source_frame :: "nat \<Rightarrow> DecodedAdmissionV1 \<Rightarrow> SourceFrame" where
  "source_frame off d = \<lparr>sf_append_sequence = da_append_sequence d, sf_source_offset = off, sf_length = length (frame_of d),
     sf_observations = map (\<lambda>i. \<lparr>sob_raw_order_key = raw_order_key (env_observations (da_envelope d) ! i), sob_ordinal = of_nat i\<rparr>)
       [0..<length (env_observations (da_envelope d))]\<rparr>"

definition scan_step :: "DecodedAdmissionV1 \<Rightarrow> SourceScan \<Rightarrow> SourceScan" where
  "scan_step d s = \<lparr>ss_frames = ss_frames s @ [source_frame (ss_offset s) d],
     ss_grouped = bt_insert (d_series d) (bt_group (ss_grouped s) (d_series d) @ [length (ss_frames s)]) (ss_grouped s),
     ss_offset = ss_offset s + length (frame_of d), ss_previous = Some (AppendSequenceV1 (da_append_sequence d)),
     ss_observations = ss_observations s + length (env_observations (da_envelope d))\<rparr>"

lemma source_observations_ok:
  "k + length obs \<le> 2 ^ 32 \<Longrightarrow> source_observations k obs =
     Inr (map (\<lambda>i. \<lparr>sob_raw_order_key = raw_order_key (obs ! i), sob_ordinal = of_nat (k + i)\<rparr>) [0..<length obs])"
proof (induction obs arbitrary: k)
  case (Cons ob obs)
  from Cons.prems Cons.IH [of "Suc k"] show ?case
    by (simp add: to_u32_def map_upt_Suc del: upt_Suc)
qed simp

lemma get_range_stop: "(if j \<le> length xs then get_range i j xs else None) = get_range i j xs"
  by (simp add: get_range_def)

lemma scan_frame_read:
  "scan_frame store source s =
     and_then (read_frame SegmentInvalidSource source (length source) (ss_offset s) (ss_previous s)) (\<lambda>(frame_length, frame_end, frame, decoded).
     if da_store_id decoded \<noteq> store \<or> dd_store_id (da_declaration decoded) \<noteq> store then Inl SegmentStoreMismatch
     else
       let series_id = dd_series_id (da_declaration decoded) in
       if md_series_id (env_series (da_envelope decoded)) \<noteq> series_id \<or> rq_series_id (da_retry decoded) \<noteq> series_id
       then Inl SegmentInvalidSource
       else
         and_then (map_err (\<lambda>_. SegmentInvalidSource) (encode_decoded_admission_frame_v1 decoded)) (\<lambda>encoded.
         if encoded \<noteq> frame then Inl SegmentInvalidSource
         else
           and_then (source_observations 0 (env_observations (da_envelope decoded))) (\<lambda>observations.
           and_then (ok_or SegmentBounds (usize_checked_add (ss_observations s) (length observations))) (\<lambda>observation_count.
           if observation_count > MAX_SEGMENT_V1_OBSERVATIONS then Inl SegmentBounds
           else
             let index = length (ss_frames s);
                 group = (case bt_get (ss_grouped s) series_id of None \<Rightarrow> [] | Some g \<Rightarrow> g) in
             and_then (map_err (\<lambda>_. SegmentInvalidSource) (append_sequence_new (da_append_sequence decoded))) (\<lambda>previous.
               Inr \<lparr>ss_frames = ss_frames s @ [\<lparr>sf_append_sequence = da_append_sequence decoded,
                      sf_source_offset = ss_offset s, sf_length = frame_length, sf_observations = observations\<rparr>],
                    ss_grouped = bt_insert series_id (group @ [index]) (ss_grouped s),
                    ss_offset = frame_end, ss_previous = Some previous,
                    ss_observations = observation_count\<rparr>)))))"
  by (simp add: scan_frame_def read_frame_def and_then_assoc get_range_stop)

definition scan_ok :: "StoreId \<Rightarrow> bytes \<Rightarrow> SourceScan \<Rightarrow> DecodedAdmissionV1 \<Rightarrow> bool" where
  "scan_ok store source s d \<longleftrightarrow> frame_at source (ss_offset s) d \<and> frame_ok store (d_series d) d \<and>
     sequence_follows (ss_previous s) (da_append_sequence d) \<and>
     ss_observations s + length (env_observations (da_envelope d)) \<le> 1048576"

lemma scan_frame_iff:
  assumes len: "length source \<le> usize_max"
  shows "scan_frame store source s = Inr s' \<longleftrightarrow> (\<exists>d. scan_ok store source s d \<and> s' = scan_step d s)"
proof -
  define rd where "rd = read_frame SegmentInvalidSource source (length source) (ss_offset s) (ss_previous s)"
  have valid: "rd = Inr (length (frame_of d), ss_offset s + length (frame_of d), frame_of d, d)" if "scan_ok store source s d" for d
    using that unfolding rd_def read_frame_iff [OF len order_refl] by (simp add: scan_ok_def frame_ok_def frame_at_def)
  have step: "scan_frame store source s = Inr s' \<longleftrightarrow> scan_ok store source s d \<and> s' = scan_step d s"
    if "rd = Inr (m, frame_end, frame, d)" for m frame_end frame d
  proof -
    have d: "m = length (frame_of d)" "frame_end = ss_offset s + m" "frame = frame_of d" "frame_at source (ss_offset s) d"
      "decoded_payload_ok d" "validate_decoded d = Inr ()" "da_append_sequence d \<noteq> 0" "sequence_follows (ss_previous s) (da_append_sequence d)"
      using that unfolding rd_def read_frame_iff [OF len order_refl] by auto
    have small: "length (env_observations (da_envelope d)) \<le> 256" using d by (simp add: observations_bound)
    have obs: "MAX_SEGMENT_V1_OBSERVATIONS = 1048576" by (simp add: segment_consts)
    show ?thesis
      unfolding scan_frame_read rd_def [symmetric] that
      using d small
      by (auto simp: scan_ok_def frame_ok_def scan_step_def d_series_def encode_decoded_frame_of source_observations_ok
          usize_checked_add_def obs Let_def source_frame_def bt_group_def append_sequence_new_def split: if_splits)
  qed
  show ?thesis
  proof (cases rd)
    case (Inl e)
    then have "scan_frame store source s = Inl e" unfolding scan_frame_read rd_def [symmetric] by simp
    with valid Inl show ?thesis by auto
  next
    case (Inr r)
    obtain m fe fr d where r: "r = (m, fe, fr, d)" by (cases r)
    then have "d' = d" if "scan_ok store source s d'" for d' using valid [OF that] Inr by simp
    with step [OF Inr [unfolded r]] show ?thesis by blast
  qed
qed

fun scan_all :: "StoreId \<Rightarrow> bytes \<Rightarrow> SourceScan \<Rightarrow> DecodedAdmissionV1 list \<Rightarrow> bool" where
  "scan_all store source s [] \<longleftrightarrow> True"
| "scan_all store source s (d # ds) \<longleftrightarrow> scan_ok store source s d \<and> scan_all store source (scan_step d s) ds"

lemma scan_step_fields [simp]:
  "ss_frames (scan_step d s) = ss_frames s @ [source_frame (ss_offset s) d]"
  "ss_grouped (scan_step d s) = bt_insert (d_series d) (bt_group (ss_grouped s) (d_series d) @ [length (ss_frames s)]) (ss_grouped s)"
  "ss_offset (scan_step d s) = ss_offset s + length (frame_of d)"
  "ss_previous (scan_step d s) = Some (AppendSequenceV1 (da_append_sequence d))"
  "ss_observations (scan_step d s) = ss_observations s + length (env_observations (da_envelope d))"
  by (simp_all add: scan_step_def)

lemma scan_ok_progress: "scan_ok store source s d \<Longrightarrow> ss_offset s + 24 \<le> ss_offset s + length (frame_of d) \<and> ss_offset s + length (frame_of d) \<le> length source"
  using frame_length_bounds(1) [of d] by (auto simp: scan_ok_def frame_at_def frame_ok_def)

lemma ex_list_cons: "(\<exists>xs. xs \<noteq> [] \<and> P xs) \<longleftrightarrow> (\<exists>x xs. P (x # xs))"
  by (metis list.distinct(1) neq_Nil_conv)

lemma scan_source_iff:
  assumes len: "length source \<le> usize_max"
  shows "ss_offset s \<le> length source \<Longrightarrow> scan_source store source k s = Inr s' \<longleftrightarrow>
     (\<exists>ds. length ds \<le> k \<and> scan_all store source s ds \<and> s' = fold scan_step ds s \<and> ss_offset s' = length source)"
proof (induction k arbitrary: s)
  case 0
  then show ?case by (subst scan_source.simps) auto
next
  case (Suc k)
  show ?case
  proof (cases "ss_offset s < length source")
    case True
    have ih: "scan_source store source k (scan_step d s) = Inr s' \<longleftrightarrow>
        (\<exists>ds. length ds \<le> k \<and> scan_all store source (scan_step d s) ds \<and> s' = fold scan_step ds (scan_step d s) \<and> ss_offset s' = length source)"
      if "scan_ok store source s d" for d
      using Suc.IH [of "scan_step d s"] scan_ok_progress [OF that] by simp
    have "scan_source store source (Suc k) s = Inr s' \<longleftrightarrow> (\<exists>s1. scan_frame store source s = Inr s1 \<and> scan_source store source k s1 = Inr s')"
      using True by (subst scan_source.simps) (auto split: sum.splits)
    also have "\<dots> \<longleftrightarrow> (\<exists>d ds. scan_ok store source s d \<and> length ds \<le> k \<and> scan_all store source (scan_step d s) ds \<and>
        s' = fold scan_step ds (scan_step d s) \<and> ss_offset s' = length source)"
      unfolding scan_frame_iff [OF len] using ih by blast
    also have "\<dots> \<longleftrightarrow> (\<exists>ds. ds \<noteq> [] \<and> length ds \<le> Suc k \<and> scan_all store source s ds \<and> s' = fold scan_step ds s \<and> ss_offset s' = length source)"
      unfolding ex_list_cons by auto
    also have "\<dots> \<longleftrightarrow> (\<exists>ds. length ds \<le> Suc k \<and> scan_all store source s ds \<and> s' = fold scan_step ds s \<and> ss_offset s' = length source)"
      using True by (metis fold_Nil id_apply less_irrefl)
    finally show ?thesis .
  next
    case False
    then have off: "ss_offset s = length source" using Suc.prems by simp
    then have "scan_all store source s ds \<longleftrightarrow> ds = []" for ds
      using scan_ok_progress [of store source s] by (cases ds) fastforce+
    with off False show ?thesis by (subst scan_source.simps) auto
  qed
qed

section \<open>What the scan returns\<close>

fun source_frames :: "nat \<Rightarrow> DecodedAdmissionV1 list \<Rightarrow> SourceFrame list" where
  "source_frames off [] = []"
| "source_frames off (d # ds) = source_frame off d # source_frames (off + length (frame_of d)) ds"

fun seq_chain :: "AppendSequenceV1 option \<Rightarrow> u64 list \<Rightarrow> bool" where
  "seq_chain p [] \<longleftrightarrow> True"
| "seq_chain p (x # xs) \<longleftrightarrow> sequence_follows p x \<and> seq_chain (Some (AppendSequenceV1 x)) xs"

lemma length_source_frames [simp]: "length (source_frames off ds) = length ds"
  by (induction ds arbitrary: off) auto

lemma fold_scan_fields:
  "ss_frames (fold scan_step ds s) = ss_frames s @ source_frames (ss_offset s) ds"
  "ss_offset (fold scan_step ds s) = ss_offset s + length (frames_bytes ds)"
  "ss_previous (fold scan_step ds s) = (if ds = [] then ss_previous s else Some (AppendSequenceV1 (da_append_sequence (last ds))))"
  "ss_observations (fold scan_step ds s) = ss_observations s + observation_total ds"
  by (induction ds arbitrary: s) simp_all

lemma scan_all_iff:
  "scan_all store source s ds \<longleftrightarrow> frames_at source (ss_offset s) (length source) ds \<and> list_all (\<lambda>d. frame_ok store (d_series d) d) ds \<and>
     seq_chain (ss_previous s) (map da_append_sequence ds) \<and> (ds = [] \<or> ss_observations s + observation_total ds \<le> 1048576)"
proof (induction ds arbitrary: s)
  case (Cons d ds)
  then show ?case by (cases "ds = []") (auto simp: scan_ok_def frame_at_def)
qed simp

lemma seq_chain_upt:
  assumes "xs \<noteq> []"
  shows "seq_chain p xs \<longleftrightarrow> sequence_follows p (hd xs) \<and> map unat xs = [unat (hd xs)..<unat (hd xs) + length xs]"
  using assms
proof (induction xs arbitrary: p)
  case (Cons x xs)
  show ?case
  proof (cases "xs = []")
    case False
    have "unat (hd xs) = unat x + 1" if "map unat xs = [unat x + 1..<unat x + 1 + length xs]"
      using arg_cong [OF that, of hd] False by (simp add: list.map_sel(1) hd_upt del: upt_Suc)
    moreover have "[unat x..<unat x + length (x # xs)] = unat x # [unat x + 1..<unat x + 1 + length xs]"
      by (simp add: upt_conv_Cons del: upt_Suc)
    ultimately show ?thesis using Cons.IH [OF False] by (auto simp: sequence_follows_def simp del: upt_Suc)
  qed simp
qed simp

definition floor_previous :: "u64 \<Rightarrow> AppendSequenceV1 option" where
  "floor_previous floor = (if floor = 0 then None else Some (AppendSequenceV1 floor))"

lemma scan_sequences:
  assumes n: "length xs = n" "0 < n" "unat cutoff = unat floor + n"
  shows "seq_chain (floor_previous floor) xs \<and> last xs = cutoff \<longleftrightarrow> map unat xs = [unat floor + 1..<unat cutoff + 1]"
proof -
  have ne: "xs \<noteq> []" using n by auto
  have last: "unat (last xs) = unat (hd xs) + n - 1" if "map unat xs = [unat (hd xs)..<unat (hd xs) + length xs]"
  proof -
    have "unat (last xs) = last (map unat xs)" using ne by (simp add: last_map)
    then show ?thesis unfolding that using n by simp
  qed
  have hd: "unat (hd xs) = unat floor + 1 \<and> last xs = cutoff" if "map unat xs = [unat floor + 1..<unat cutoff + 1]"
  proof -
    have "unat (hd xs) = hd (map unat xs)" "unat (last xs) = last (map unat xs)" using ne by (simp_all add: last_map list.map_sel)
    then show ?thesis unfolding that using n by (simp add: word_unat_eq_iff hd_upt last_upt del: upt_Suc)
  qed
  have upt: "[unat floor + 1..<unat cutoff + 1] = [unat floor + 1..<unat floor + 1 + length xs]" using n by simp
  show ?thesis
  proof
    assume L: "seq_chain (floor_previous floor) xs \<and> last xs = cutoff"
    then have m: "map unat xs = [unat (hd xs)..<unat (hd xs) + length xs]" using seq_chain_upt [OF ne] by blast
    from last [OF m] L n have "unat (hd xs) = unat floor + 1" by auto
    with m upt show "map unat xs = [unat floor + 1..<unat cutoff + 1]" by simp
  next
    assume R: "map unat xs = [unat floor + 1..<unat cutoff + 1]"
    from hd [OF R] have h: "unat (hd xs) = unat floor + 1" "last xs = cutoff" by auto
    then have "sequence_follows (floor_previous floor) (hd xs)" by (simp add: floor_previous_def sequence_follows_def)
    with R h upt show "seq_chain (floor_previous floor) xs \<and> last xs = cutoff" unfolding seq_chain_upt [OF ne] by simp
  qed
qed

section \<open>The groups of the scan\<close>

definition at_indices :: "'a list \<Rightarrow> (SeriesId \<times> nat list) list \<Rightarrow> (SeriesId \<times> 'a list) list" where
  "at_indices xs m = map (\<lambda>(k, is). (k, map ((!) xs) is)) m"

lemma at_indices_insert: "at_indices xs (bt_insert k is m) = bt_insert k (map ((!) xs) is) (at_indices xs m)"
  by (induction k "is" m rule: bt_insert.induct) (auto simp: at_indices_def)

lemma at_indices_group: "bt_group (at_indices xs m) k = map ((!) xs) (bt_group m k)"
proof -
  have "bt_get (at_indices xs m) k = map_option (map ((!) xs)) (bt_get m k)"
    by (induction m) (auto simp: at_indices_def bt_get_def)
  then show ?thesis by (simp add: bt_group_def split: option.splits)
qed

lemma scan_groups:
  "at_indices (xs @ ds @ ys) (ss_grouped s) = g \<Longrightarrow> length (ss_frames s) = length xs \<Longrightarrow>
   at_indices (xs @ ds @ ys) (ss_grouped (fold scan_step ds s)) = fold group_add ds g"
proof (induction ds arbitrary: xs s g)
  case (Cons d ds)
  have "at_indices (xs @ (d # ds) @ ys) (ss_grouped (scan_step d s)) = group_add d g"
    using Cons.prems by (simp add: at_indices_insert group_add_def flip: at_indices_group)
  with Cons.IH [of "xs @ [d]" "scan_step d s" "group_add d g"] Cons.prems(2) show ?case by simp
qed simp

lemma indices_bound:
  "\<forall>(k, is) \<in> set (ss_grouped s). \<forall>i \<in> set is. i < length (ss_frames s) \<Longrightarrow>
   \<forall>(k, is) \<in> set (ss_grouped (fold scan_step ds s)). \<forall>i \<in> set is. i < length (ss_frames s) + length ds"
proof (induction ds arbitrary: s)
  case (Cons d ds)
  have "set (bt_insert k v m) \<subseteq> insert (k, v) (set m)" for k :: SeriesId and v :: "nat list" and m
    by (induction k v m rule: bt_insert.induct) auto
  moreover have "i < length (ss_frames s)" if "i \<in> set (bt_group (ss_grouped s) k)" for i k
    using that Cons.prems by (fastforce simp: bt_group_def bt_get_def split: option.splits dest: map_of_SomeD)
  ultimately have "\<forall>(k, is) \<in> set (ss_grouped (scan_step d s)). \<forall>i \<in> set is. i < length (ss_frames (scan_step d s))"
    using Cons.prems by fastforce
  from Cons.IH [OF this] show ?case by simp
qed simp

end
