(* ===== verification/Och_Segment_Build.thy ===== *)
theory Och_Segment_Build
  imports Och_Segment_Group
begin

text \<open>
  Building writes the canonical bytes: every cursor of the writer fills its own region of the zeroed buffer, and
  the finished buffer is the canonical segment of the grouped frames (\<open>build_segment_iff\<close>).
\<close>

section \<open>Writing into a region\<close>

lemma write_region: "length X = a \<Longrightarrow> i + length src \<le> length Y \<Longrightarrow> write_at (a + i) src (X @ Y @ Z) = X @ write_at i src Y @ Z"
  by (auto simp: write_at_def)

lemma write_pad_region:
  "length X + length xs = c \<Longrightarrow> length xs + length src \<le> n \<Longrightarrow> write_at c src (X @ pad n xs @ Z) = X @ pad n (xs @ src) @ Z"
  using write_region [of X "length X" "length xs" src "pad n xs" Z] by (auto simp: length_pad pad_write)

lemma slice_pad: "length X + length xs = c \<Longrightarrow> length xs + k \<le> n \<Longrightarrow> slice c (c + k) (X @ pad n xs @ Z) = replicate k 0"
  by (auto simp: slice_def pad_def)

lemma write_sub_pad:
  "length X + length xs = c \<Longrightarrow> length xs + k \<le> n \<Longrightarrow> length (f (replicate k 0)) = k \<Longrightarrow>
   write_sub c k f (X @ pad n xs @ Z) = X @ pad n (xs @ f (replicate k 0)) @ Z"
  by (simp add: write_sub_def slice_pad write_pad_region)

section \<open>Frames of a group\<close>

definition sourced :: "bytes \<Rightarrow> SourceFrame list \<Rightarrow> DecodedAdmissionV1 list \<Rightarrow> bool" where
  "sourced source frames ds \<longleftrightarrow> length frames = length ds \<and>
     (\<forall>i < length ds. \<exists>off. frames ! i = source_frame off (ds ! i) \<and> slice off (off + length (frame_of (ds ! i))) source = frame_of (ds ! i))"

lemma source_frames_sourced:
  "frames_at source off stop ds \<Longrightarrow> sourced source (source_frames off ds) ds"
proof (induction ds arbitrary: off)
  case (Cons d ds)
  then have d: "slice off (off + length (frame_of d)) source = frame_of d" and
    ih: "sourced source (source_frames (off + length (frame_of d)) ds) ds" by (simp_all add: frame_at_def)
  show ?case unfolding sourced_def
  proof (intro conjI allI impI)
    fix i assume i: "i < length (d # ds)"
    show "\<exists>o'. source_frames off (d # ds) ! i = source_frame o' ((d # ds) ! i) \<and>
        slice o' (o' + length (frame_of ((d # ds) ! i))) source = frame_of ((d # ds) ! i)"
    proof (cases i)
      case 0
      with d show ?thesis by (intro exI [of _ off]) simp
    next
      case (Suc j)
      with ih i show ?thesis by (auto simp: sourced_def)
    qed
  qed simp
qed (simp add: sourced_def)

lemma observation_locations_observed:
  "observation_locations sid (da_append_sequence d) (frame_location sid off n d) (sf_observations (source_frame o' d)) =
     observed (frame_location sid off n d) d"
  by (simp add: observation_locations_def source_frame_def observed_def frame_location_def)

lemma write_group_frames_spec:
  assumes src: "sourced source frames full"
  shows "\<lbrakk>\<forall>i \<in> set is. i < length full; sw_bytes w = X @ pad n xs @ Z; sw_block_cursor w = length X + length xs;
      length xs + length (frames_bytes (map ((!) full) is)) \<le> n; length X + n < 2 ^ 64; ord + length is \<le> 2 ^ 32\<rbrakk> \<Longrightarrow>
    write_group_frames source frames sid ord is (w, recent) =
      (let ds = map ((!) full) is; ps = locate sid (sw_block_cursor w) ord ds in
       Inr (w\<lparr>sw_bytes := X @ pad n (xs @ frames_bytes ds) @ Z, sw_block_cursor := sw_block_cursor w + length (frames_bytes ds),
              sw_appends := sw_appends w @ map fst ps\<rparr>, recent @ observed_all ps))"
proof (induction "is" arbitrary: ord w recent xs)
  case Nil
  then show ?case by simp
next
  case (Cons i "is")
  define d where "d = full ! i"
  obtain o' where o': "frames ! i = source_frame o' d" "slice o' (o' + length (frame_of d)) source = frame_of d"
    using src Cons.prems(1) by (auto simp: sourced_def d_def)
  define w1 where "w1 = w\<lparr>sw_bytes := X @ pad n (xs @ frame_of d) @ Z, sw_block_cursor := sw_block_cursor w + length (frame_of d),
     sw_appends := sw_appends w @ [frame_location sid (sw_block_cursor w) ord d]\<rparr>"
  have fields: "sf_source_offset (source_frame o' d) = o'" "sf_length (source_frame o' d) = length (frame_of d)"
    "sf_append_sequence (source_frame o' d) = da_append_sequence d"
    by (simp_all add: source_frame_def)
  have written: "write_at (sw_block_cursor w) (frame_of d) (sw_bytes w) = X @ pad n (xs @ frame_of d) @ Z"
    using Cons.prems by (simp add: write_pad_region d_def)
  have loc: "and_then (to_u64 (sw_block_cursor w)) (\<lambda>off. and_then (to_u64 (length (frame_of d))) (\<lambda>len.
      and_then (to_u32 ord) (\<lambda>ordinal. Inr \<lparr>fl_append_sequence = da_append_sequence d, fl_series_id = sid,
        fl_frame_offset = off, fl_frame_length = len, fl_frame_ordinal = ordinal\<rparr>))) =
      (Inr (frame_location sid (sw_block_cursor w) ord d) :: (SegmentV1Error, _) result)"
    using Cons.prems by (simp add: to_u64_def to_u32_def frame_location_def d_def)
  have "write_group_frames source frames sid ord (i # is) (w, recent) =
      write_group_frames source frames sid (ord + 1) is (w1, recent @ observed (frame_location sid (sw_block_cursor w) ord d) d)"
    using loc written o'(2)
    by (simp add: Let_def fields w1_def observation_locations_observed o'(1))
  also have "\<dots> = (let ds = map ((!) full) is; ps = locate sid (sw_block_cursor w1) (ord + 1) ds in
       Inr (w1\<lparr>sw_bytes := X @ pad n ((xs @ frame_of d) @ frames_bytes ds) @ Z, sw_block_cursor := sw_block_cursor w1 + length (frames_bytes ds),
              sw_appends := sw_appends w1 @ map fst ps\<rparr>,
            (recent @ observed (frame_location sid (sw_block_cursor w) ord d) d) @ observed_all ps))"
    using Cons.prems by (intro Cons.IH) (simp_all add: w1_def d_def)
  finally show ?case by (simp add: Let_def w1_def d_def [symmetric])
qed

lemma write_recent_spec:
  "\<lbrakk>list_all location_ok ls; sw_bytes w = X @ pad n xs @ Z; sw_recent_cursor w = length X + length xs; length xs + length ls * 96 \<le> n\<rbrakk> \<Longrightarrow>
   write_recent ls w = w\<lparr>sw_bytes := X @ pad n (xs @ concat (map wire_observation_entry ls)) @ Z,
     sw_recent_cursor := sw_recent_cursor w + length ls * 96\<rparr>"
proof (induction ls arbitrary: w xs)
  case (Cons l ls)
  have l: "encode_observation_entry l (replicate 96 0) = wire_observation_entry l" "length (wire_observation_entry l) = 96"
    using Cons.prems(1) by (simp_all add: location_ok_def encode_observation_entry_wire length_wire_observation_entry)
  define w1 where "w1 = w\<lparr>sw_bytes := X @ pad n (xs @ wire_observation_entry l) @ Z, sw_recent_cursor := sw_recent_cursor w + 96\<rparr>"
  have "write_recent (l # ls) w = write_recent ls w1"
    using Cons.prems l by (simp add: w1_def SEGMENT_V1_OBSERVATION_ENTRY_LEN_def write_sub_pad)
  also have "\<dots> = w1\<lparr>sw_bytes := X @ pad n ((xs @ wire_observation_entry l) @ concat (map wire_observation_entry ls)) @ Z,
     sw_recent_cursor := sw_recent_cursor w1 + length ls * 96\<rparr>"
    using Cons.prems l by (intro Cons.IH) (simp_all add: w1_def)
  finally show ?case by (simp add: w1_def)
qed simp

lemma write_appends_spec:
  "\<lbrakk>list_all (\<lambda>l. identity_ok (fl_series_id l)) ls; length X + length xs = ly_append_offset layout + index * 48; length xs + length ls * 48 \<le> n\<rbrakk> \<Longrightarrow>
   write_appends layout index ls (X @ pad n xs @ Z) = X @ pad n (xs @ concat (map (\<lambda>l. wire_append_entry (append_entry_of l)) ls)) @ Z"
proof (induction ls arbitrary: index xs)
  case (Cons l ls)
  have l: "encode_append_entry l (replicate 48 0) = wire_append_entry (append_entry_of l)"
    "length (wire_append_entry (append_entry_of l)) = 48"
    using Cons.prems(1) by (simp_all add: encode_append_entry_wire length_wire_append_entry append_entry_of_def)
  have "write_appends layout index (l # ls) (X @ pad n xs @ Z) =
      write_appends layout (index + 1) ls (X @ pad n (xs @ wire_append_entry (append_entry_of l)) @ Z)"
    using Cons.prems l by (simp add: SEGMENT_V1_APPEND_ENTRY_LEN_def write_sub_pad)
  also have "\<dots> = X @ pad n ((xs @ wire_append_entry (append_entry_of l)) @ concat (map (\<lambda>l. wire_append_entry (append_entry_of l)) ls)) @ Z"
    using Cons.prems l by (intro Cons.IH) simp_all
  finally show ?case by simp
qed simp

section \<open>Groups\<close>

lemma recents_Cons: "recents boff (b # bl) = sort_by recent_le (observed_all (locate (fst b) boff 0 (snd b))) @
    recents (boff + length (frames_bytes (snd b))) bl"
  by (simp add: recents_def)

lemma write_groups_spec:
  assumes src: "sourced source frames full" and H: "length H = 192" "ly_series_offset layout = 192"
    and total: "length H + ns + nb + length A + nr + length C < 2 ^ 63"
  shows "\<lbrakk>\<forall>(k, is) \<in> set groups. \<forall>i \<in> set is. i < length full; bl = at_indices full groups; list_all (block_ok store) bl;
      list_all block_small bl; length S = index * 64; length S + length bl * 64 \<le> ns; length B + length (blocks_bytes bl) \<le> nb;
      length R + observation_total (block_frames bl) * 96 \<le> nr;
      w = \<lparr>sw_bytes = H @ pad ns S @ pad nb B @ A @ pad nr R @ C, sw_block_cursor = length H + ns + length B,
           sw_recent_cursor = length H + ns + nb + length A + length R, sw_appends = apps\<rparr>\<rbrakk> \<Longrightarrow>
    write_groups source frames layout index groups w =
      Inr \<lparr>sw_bytes = H @ pad ns (S @ concat (map wire_series_entry (series_entries (sw_block_cursor w) (sw_recent_cursor w) bl))) @
             pad nb (B @ blocks_bytes bl) @ A @
             pad nr (R @ concat (map wire_observation_entry (recents (sw_block_cursor w) bl))) @ C,
           sw_block_cursor = sw_block_cursor w + length (blocks_bytes bl),
           sw_recent_cursor = sw_recent_cursor w + observation_total (block_frames bl) * 96,
           sw_appends = apps @ map fst (concat (place (sw_block_cursor w) bl))\<rparr>"
proof (induction groups arbitrary: index bl S B R w apps)
  case Nil
  then show ?case by (simp add: at_indices_def recents_def)
next
  case (Cons g groups)
  obtain sid "is" where g: "g = (sid, is)" by (cases g)
  define ds where "ds = map ((!) full) is"
  define bl' where "bl' = at_indices full groups"
  have bl: "bl = (sid, ds) # bl'" using Cons.prems(2) by (simp add: at_indices_def g ds_def bl'_def)
  have blk: "block_ok store (sid, ds)" "list_all (block_ok store) bl'" and small: "block_small (sid, ds)" "list_all block_small bl'"
    using Cons.prems(3,4) by (simp_all add: bl)
  define bc rc where "bc = length H + ns + length B" and "rc = length H + ns + nb + length A + length R"
  have cur: "sw_block_cursor w = bc" "sw_recent_cursor w = rc" using Cons.prems(9) by (simp_all add: bc_def rc_def)
  have bounds: "length S + 64 \<le> ns" "length B + length (frames_bytes ds) \<le> nb" "length R + observation_total ds * 96 \<le> nr"
    "length ds < 2 ^ 32" "observation_total ds < 2 ^ 32" "length is = length ds"
    using Cons.prems(6,7,8) small(1) by (simp_all add: bl block_small_def ds_def)
  define ps where "ps = locate sid bc 0 ds"
  define recent where "recent = sort_by recent_le (observed_all ps)"
  define w1 where "w1 = \<lparr>sw_bytes = H @ pad ns S @ pad nb (B @ frames_bytes ds) @ A @ pad nr R @ C,
     sw_block_cursor = bc + length (frames_bytes ds), sw_recent_cursor = rc, sw_appends = apps @ map fst ps\<rparr>"
  have step1: "write_group_frames source frames sid 0 is (w, []) = Inr (w1, observed_all ps)"
  proof -
    have lp: "length (pad ns S) = ns" using Cons.prems(6) by (simp add: length_pad)
    have p1: "\<forall>i \<in> set is. i < length full" using Cons.prems(1) by (simp add: g)
    have p2: "sw_bytes w = (H @ pad ns S) @ pad nb B @ (A @ pad nr R @ C)" using Cons.prems(9) by simp
    have p3: "sw_block_cursor w = length (H @ pad ns S) + length B" by (simp add: cur bc_def lp)
    have p4: "length B + length (frames_bytes (map ((!) full) is)) \<le> nb" using bounds(2) by (simp add: ds_def)
    have p5: "length (H @ pad ns S) + nb < 2 ^ 64" using total by (simp add: lp)
    have p6: "0 + length is \<le> 2 ^ 32" using bounds by simp
    show ?thesis
      using write_group_frames_spec [OF src p1 p2 p3 p4 p5 p6, of sid "[]"] Cons.prems(9)
      by (simp add: Let_def ds_def [symmetric] ps_def w1_def bc_def rc_def)
  qed
  have rlen: "length recent = observation_total ds" by (simp add: recent_def ps_def length_observed_all)
  have rok: "list_all location_ok recent"
    using observed_locations_ok [of store sid ds bc 0] blk(1) by (auto simp: recent_def ps_def block_ok_def list_all_iff)
  define rb where "rb = concat (map wire_observation_entry recent)"
  have rblen: "length rb = observation_total ds * 96"
    using rok rlen length_table [of wire_observation_entry 96 recent]
    by (auto simp: rb_def list_all_iff location_ok_def length_wire_observation_entry)
  define w2 where "w2 = \<lparr>sw_bytes = H @ pad ns S @ pad nb (B @ frames_bytes ds) @ A @ pad nr (R @ rb) @ C,
     sw_block_cursor = bc + length (frames_bytes ds), sw_recent_cursor = rc + observation_total ds * 96, sw_appends = apps @ map fst ps\<rparr>"
  have step2: "write_recent recent w1 = w2"
  proof -
    have "write_recent recent w1 = w1\<lparr>sw_bytes := (H @ pad ns S @ pad nb (B @ frames_bytes ds) @ A) @ pad nr (R @ rb) @ C,
        sw_recent_cursor := sw_recent_cursor w1 + length recent * 96\<rparr>"
      unfolding rb_def using bounds rlen
      by (intro write_recent_spec [OF rok]) (auto simp: w1_def rc_def length_pad)
    then show ?thesis by (simp add: w1_def w2_def rlen)
  qed
  define e where "e = series_entry bc rc (sid, ds)"
  have fit: "bc < 2 ^ 64" "rc < 2 ^ 64" "length (frames_bytes ds) < 2 ^ 64" "observation_total ds * 96 < 2 ^ 64"
    using bounds total Cons.prems(7,8) by (auto simp: bc_def rc_def)
  have entry: "and_then (to_u64 bc) (\<lambda>block_offset. and_then (to_u64 (sw_block_cursor w2 - bc)) (\<lambda>block_length.
      and_then (to_u32 (length is)) (\<lambda>frame_count. and_then (to_u32 (length recent)) (\<lambda>observation_count.
      and_then (to_u64 rc) (\<lambda>recent_offset. and_then (to_u64 (sw_recent_cursor w2 - rc)) (\<lambda>recent_length.
        Inr \<lparr>se_series_id = sid, se_block_offset = block_offset, se_block_length = block_length,
          se_frame_count = frame_count, se_observation_count = observation_count,
          se_recent_offset = recent_offset, se_recent_length = recent_length\<rparr>)))))) = (Inr e :: (SegmentV1Error, _) result)"
    using fit bounds by (simp add: w2_def to_u64_def to_u32_def rlen e_def series_entry_def del: of_nat_mult)
  have sid: "identity_ok sid" using block_ok_series [OF blk(1)] by simp
  have ew: "encode_series_entry e (replicate 64 0) = wire_series_entry e" "length (wire_series_entry e) = 64"
    using sid by (simp_all add: e_def series_entry_def encode_series_entry_wire length_wire_series_entry)
  define w3 where "w3 = \<lparr>sw_bytes = H @ pad ns (S @ wire_series_entry e) @ pad nb (B @ frames_bytes ds) @ A @ pad nr (R @ rb) @ C,
     sw_block_cursor = bc + length (frames_bytes ds), sw_recent_cursor = rc + observation_total ds * 96, sw_appends = apps @ map fst ps\<rparr>"
  have step3: "w2\<lparr>sw_bytes := write_sub (192 + index * 64) 64 (encode_series_entry e) (sw_bytes w2)\<rparr> = w3"
    using write_sub_pad [of H S "192 + index * 64" 64 ns "encode_series_entry e"] H(1) Cons.prems(5) bounds(1) ew
    by (simp add: w2_def w3_def)
  have "write_groups source frames layout index (g # groups) w = write_groups source frames layout (index + 1) groups w3"
    using step1 step2 entry step3 by (simp add: g Let_def cur recent_def [symmetric] H(2) SEGMENT_V1_SERIES_ENTRY_LEN_def del: length_sort_by)
  also have "\<dots> = Inr \<lparr>sw_bytes = H @ pad ns ((S @ wire_series_entry e) @ concat (map wire_series_entry (series_entries (sw_block_cursor w3) (sw_recent_cursor w3) bl'))) @
             pad nb ((B @ frames_bytes ds) @ blocks_bytes bl') @ A @
             pad nr ((R @ rb) @ concat (map wire_observation_entry (recents (sw_block_cursor w3) bl'))) @ C,
           sw_block_cursor = sw_block_cursor w3 + length (blocks_bytes bl'),
           sw_recent_cursor = sw_recent_cursor w3 + observation_total (block_frames bl') * 96,
           sw_appends = (apps @ map fst ps) @ map fst (concat (place (sw_block_cursor w3) bl'))\<rparr>"
  proof (rule Cons.IH)
    show "\<forall>(k, is) \<in> set groups. \<forall>i \<in> set is. i < length full" using Cons.prems(1) by simp
    show "bl' = at_indices full groups" by (rule bl'_def)
    show "length (S @ wire_series_entry e) + length bl' * 64 \<le> ns" using Cons.prems(6) ew(2) by (simp add: bl)
    show "length (B @ frames_bytes ds) + length (blocks_bytes bl') \<le> nb" using Cons.prems(7) by (simp add: bl)
    show "length (R @ rb) + observation_total (block_frames bl') * 96 \<le> nr" using Cons.prems(8) rblen by (simp add: bl)
  qed (use blk(2) small(2) ew(2) rblen Cons.prems(5) in \<open>simp_all add: w3_def bc_def rc_def\<close>)
  finally show ?case
    by (simp add: bl w3_def cur e_def ps_def recents_Cons rb_def recent_def)
qed

section \<open>The finished buffer\<close>

definition scan_start :: "AppendSequenceV1 option \<Rightarrow> SourceScan" where
  "scan_start p = \<lparr>ss_frames = [], ss_grouped = [], ss_offset = 28, ss_previous = p, ss_observations = 0\<rparr>"

definition prepared :: "StoreId \<Rightarrow> SealedGeneration \<Rightarrow> block list \<Rightarrow> PreparedSegmentV1" where
  "prepared store sealed bl = \<lparr>ps_bytes = segment_bytes store sealed bl, ps_inspection = seg_inspection (the_segment store sealed bl)\<rparr>"

lemma at_indices_length [simp]: "length (at_indices xs m) = length m"
  by (simp add: at_indices_def)

lemma write_segment_spec:
  assumes ok: "segment_ok store sealed bl" and bl: "bl = group_frames ds" "length (block_frames bl) = length ds"
      "observation_total (block_frames bl) = observation_total ds"
    and fr: "frames_at source 28 (length source) ds"
  shows "write_segment store sealed source (fold scan_step ds (scan_start p)) (segment_layout bl) = Inr (prepared store sealed bl)"
proof -
  define s where "s = fold scan_step ds (scan_start p)"
  define ly where "ly = segment_layout bl"
  define frames series obs n where "frames = length (block_frames bl)" and "series = length bl"
    and "obs = observation_total (block_frames bl)" and "n = length (blocks_bytes bl)"
  have store: "identity_ok store" and blk: "list_all (block_ok store) bl"
    using ok by (simp_all add: segment_ok_def blocks_ok_def)
  note lok = segment_ok_layout [OF ok, folded frames_def series_def obs_def n_def]
  have lyv: "ly = layout_of frames series obs n" by (simp add: ly_def segment_layout_def frames_def series_def obs_def n_def)
  have counts: "frames < 2 ^ 32" "series < 2 ^ 32" "obs < 2 ^ 32" "frames \<le> 4096" "0 < frames" "n < 2 ^ 32" "frames < 2 ^ 13"
    using lok(1) by (auto simp: layout_ok_def)
  have small: "list_all block_small bl" using blocks_small [OF blk] counts(4) by (simp add: frames_def)
  have src: "sourced source (ss_frames s) ds"
    using source_frames_sourced [OF fr] by (simp add: s_def fold_scan_fields scan_start_def)
  have groups: "at_indices ds (ss_grouped s) = bl"
    using scan_groups [of "[]" ds "[]" "scan_start p" "[]"] by (simp add: s_def bl(1) group_frames_def scan_start_def at_indices_def)
  have idx: "\<forall>(k, is) \<in> set (ss_grouped s). \<forall>i \<in> set is. i < length ds"
    using indices_bound [of "scan_start p" ds] by (simp add: s_def scan_start_def)
  have nums: "length (ss_frames s) = frames" "bt_len (ss_grouped s) = series" "ss_observations s = obs"
    using bl arg_cong [OF groups, of length] by (simp_all add: s_def fold_scan_fields scan_start_def frames_def obs_def series_def bt_len_def)
  define hd where "hd = segment_header store sealed frames series obs ly"
  have hdl: "length hd = 192" by (simp add: hd_def length_segment_header [OF store])
  have offs: "ly_series_offset ly = 192" "ly_blocks_offset ly = 192 + series * 64" "ly_append_offset ly = 192 + series * 64 + n"
    "ly_recent_offset ly = 192 + series * 64 + n + frames * 48" "ly_artifact_length ly = 192 + series * 64 + n + frames * 48 + obs * 96 + 4"
    by (simp_all add: lyv layout_of_def)
  define zb where "zb = (\<lambda>k. replicate k (0 :: u8))"
  have header: "segment_encode_header store sealed frames series obs ly (replicate (ly_artifact_length ly) 0) =
      Inr (hd @ pad (series * 64) [] @ pad n [] @ zb (frames * 48) @ pad (obs * 96) [] @ zb 4)"
  proof -
    have "pad (ly_artifact_length ly) hd = hd @ zb (series * 64 + (n + (frames * 48 + (obs * 96 + 4))))"
      using hdl by (simp add: pad_def offs zb_def)
    also have "\<dots> = hd @ pad (series * 64) [] @ pad n [] @ zb (frames * 48) @ pad (obs * 96) [] @ zb 4"
      by (simp add: zb_def replicate_add pad_def)
    finally have padded: "pad (ly_artifact_length ly) hd = hd @ pad (series * 64) [] @ pad n [] @ zb (frames * 48) @ pad (obs * 96) [] @ zb 4" .
    have "layout_small ly" "192 \<le> ly_artifact_length ly" using layout_small [OF lok(1)] by (simp_all add: lyv layout_of_def)
    from encode_header_pad [OF store this(1) counts(1-3) this(2), of sealed]
    show ?thesis by (simp only: hd_def [symmetric] padded)
  qed
  define boff roff where "boff = ly_blocks_offset ly" and "roff = ly_recent_offset ly"
  define S B R where "S = concat (map wire_series_entry (series_entries boff roff bl))" and "B = blocks_bytes bl"
    and "R = concat (map wire_observation_entry (recents boff bl))"
  define Ap where "Ap = concat (map (\<lambda>p. wire_append_entry (append_entry_of (fst p))) (ordered boff bl))"
  have lens: "length S = series * 64" "length B = n" "length R = obs * 96" "length Ap = frames * 48"
    using length_table [OF length_wire_series_entries [OF blk]] length_table [OF length_wire_ordered [OF blk]]
      length_table [OF length_wire_recents [OF blk]]
    by (simp_all add: S_def B_def R_def Ap_def length_recents n_def series_def frames_def obs_def)
  define w0 where "w0 = \<lparr>sw_bytes = hd @ pad (series * 64) [] @ pad n [] @ zb (frames * 48) @ pad (obs * 96) [] @ zb 4,
     sw_block_cursor = ly_blocks_offset ly, sw_recent_cursor = ly_recent_offset ly, sw_appends = []\<rparr>"
  define w1 where "w1 = \<lparr>sw_bytes = hd @ S @ B @ zb (frames * 48) @ R @ zb 4,
     sw_block_cursor = boff + n, sw_recent_cursor = roff + obs * 96, sw_appends = map fst (concat (place boff bl))\<rparr>"
  have groups_written: "write_groups source (ss_frames s) ly 0 (ss_grouped s) w0 = Inr w1"
  proof -
    have tot: "length hd + series * 64 + n + length (zb (frames * 48)) + obs * 96 + length (zb 4) < 2 ^ 63"
      using counts hdl by (simp add: zb_def)
    have w0: "w0 = \<lparr>sw_bytes = hd @ pad (series * 64) [] @ pad n [] @ zb (frames * 48) @ pad (obs * 96) [] @ zb 4,
        sw_block_cursor = length hd + series * 64 + length ([] :: bytes),
        sw_recent_cursor = length hd + series * 64 + n + length (zb (frames * 48)) + length ([] :: bytes), sw_appends = []\<rparr>"
      by (simp add: w0_def hdl offs zb_def)
    have "write_groups source (ss_frames s) ly 0 (ss_grouped s) w0 =
      Inr \<lparr>sw_bytes = hd @ pad (series * 64) ([] @ concat (map wire_series_entry (series_entries (sw_block_cursor w0) (sw_recent_cursor w0) bl))) @
             pad n ([] @ blocks_bytes bl) @ zb (frames * 48) @
             pad (obs * 96) ([] @ concat (map wire_observation_entry (recents (sw_block_cursor w0) bl))) @ zb 4,
           sw_block_cursor = sw_block_cursor w0 + length (blocks_bytes bl),
           sw_recent_cursor = sw_recent_cursor w0 + observation_total (block_frames bl) * 96,
           sw_appends = [] @ map fst (concat (place (sw_block_cursor w0) bl))\<rparr>"
      by (rule write_groups_spec [OF src hdl offs(1) tot idx groups [symmetric] blk small _ _ _ _ w0])
        (simp_all add: series_def n_def obs_def)
    then show ?thesis
      using lens by (simp add: w0_def w1_def boff_def [symmetric] roff_def [symmetric] S_def [symmetric] R_def [symmetric] B_def [symmetric]
          pad_full n_def [symmetric] obs_def [symmetric])
  qed
  have sorted: "sort_key fl_append_sequence (sw_appends w1) = map fst (ordered boff bl)" by (simp only: w1_def SegmentWrite.simps ordered_fst)
  have ids: "list_all (\<lambda>l. identity_ok (fl_series_id l)) (map fst (ordered boff bl))"
    unfolding list_all_iff
  proof
    fix l assume "l \<in> set (map fst (ordered boff bl))"
    then obtain p where "p \<in> set (ordered boff bl)" "l = fst p" by auto
    then have "fl_series_id l \<in> fst ` set bl" using place_series [of "fst p" "snd p" boff bl] by simp
    then show "identity_ok (fl_series_id l)" using blk block_ok_series by (fastforce simp: list_all_iff)
  qed
  define body where "body = segment_body store sealed bl"
  have bodyv: "body = hd @ S @ B @ Ap @ R"
    by (simp add: body_def segment_body_def Let_def ly_def [symmetric] hd_def S_def B_def Ap_def R_def boff_def roff_def frames_def
        series_def obs_def)
  have appended: "write_appends ly 0 (map fst (ordered boff bl)) (sw_bytes w1) = body @ zb 4"
  proof -
    have "write_appends ly 0 (map fst (ordered boff bl)) ((hd @ S @ B) @ pad (frames * 48) [] @ (R @ zb 4)) =
        (hd @ S @ B) @ pad (frames * 48) ([] @ concat (map (\<lambda>l. wire_append_entry (append_entry_of l)) (map fst (ordered boff bl)))) @ (R @ zb 4)"
      by (rule write_appends_spec [OF ids]) (simp_all add: hdl lens offs frames_def)
    moreover have "concat (map (\<lambda>l. wire_append_entry (append_entry_of l)) (map fst (ordered boff bl))) = Ap"
      by (simp add: Ap_def comp_def)
    ultimately show ?thesis using lens by (simp add: w1_def zb_def pad_empty [symmetric] bodyv pad_full)
  qed
  have final: "write_at (length body) (be_encode 4 (unat (crc32c body))) (body @ zb 4) = segment_bytes store sealed bl"
    by (simp add: segment_bytes_def seal_def body_def [symmetric] write_at_def zb_def)
  have lz: "length (zb 4) = 4" by (simp add: zb_def)
  have insp: "segment_inspection store sealed frames series obs ly crc = Inr (inspection_of store sealed frames series obs ly crc)" for crc
    using layout_small [OF lok(1)] by (simp add: segment_inspection_of lyv)
  have "seg_inspection (the_segment store sealed bl) = inspection_of store sealed frames series obs ly (crc32c body)"
    by (simp add: the_segment_def segment_value_def Let_def ly_def segment_layout_def frames_def series_def obs_def body_def)
  moreover have "sw_block_cursor w1 = ly_append_offset ly" "sw_recent_cursor w1 + 4 = length (sw_bytes w1)"
    by (simp_all add: w1_def boff_def roff_def offs hdl lens zb_def)
  ultimately show ?thesis
    unfolding write_segment_def s_def [symmetric] ly_def [symmetric] nums Let_def
    using header groups_written appended final insp lz
    by (simp add: w0_def [symmetric] SEGMENT_V1_CRC_LEN_def sorted prepared_def slice_def)
qed

section \<open>Building\<close>

lemma header_decode_iff: "header_decode bs = Inr h \<longleftrightarrow> identity_ok (header_store_id h) \<and> bs = header_encode h"
proof -
  have "header_decode bs = Inr h \<longleftrightarrow> decode_header bs = Inr (header_store_id h)"
    by (cases h) (auto simp: header_decode_def result_convs)
  then show ?thesis
    unfolding decode_header_iff by (auto simp: header_encode_def encode_header_layout id_length)
qed

definition source_accepted :: "StoreId \<Rightarrow> SealedGeneration \<Rightarrow> bytes \<Rightarrow> bool" where
  "source_accepted store sealed source \<longleftrightarrow> identity_ok store \<and> slice 0 28 source = header_encode \<lparr>header_store_id = store\<rparr> \<and>
     28 < length source \<and> length source \<le> 536870912 \<and> sealed_journal_generation sealed \<noteq> 0 \<and> sealed_registry_generation sealed \<noteq> 0 \<and>
     sealed_end_offset sealed = sealed_artifact_length sealed \<and> unat (sealed_artifact_length sealed) = length source \<and>
     crc32c source = sealed_artifact_checksum sealed \<and> unat (sealed_sequence_floor sealed) < unat (sealed_sequence_cutoff sealed) \<and>
     unat (sealed_sequence_cutoff sealed) \<le> unat (sealed_sequence_floor sealed) + 4096"

lemma source_refused_iff:
  assumes "length source \<le> 536870912"
  shows "\<not> source_refused sealed source \<longleftrightarrow> sealed_journal_generation sealed \<noteq> 0 \<and> sealed_registry_generation sealed \<noteq> 0 \<and>
     unat (sealed_sequence_floor sealed) < unat (sealed_sequence_cutoff sealed) \<and> sealed_end_offset sealed = sealed_artifact_length sealed \<and>
     unat (sealed_artifact_length sealed) = length source \<and> 28 < length source \<and> crc32c source = sealed_artifact_checksum sealed"
proof -
  have "sealed_artifact_length sealed = of_nat (length source) \<longleftrightarrow> unat (sealed_artifact_length sealed) = length source"
    using assms by (auto simp: word_unat_eq_iff unat_of_nat)
  then show ?thesis
    by (auto simp: source_refused_def word_le_nat_alt JOURNAL_V1_HEADER_LEN_def)
qed

lemma build_segment_steps:
  "build_segment_v1 store sealed source = Inr ps \<longleftrightarrow> source_accepted store sealed source \<and>
     (\<exists>ds. length ds = unat (sealed_sequence_cutoff sealed) - unat (sealed_sequence_floor sealed) \<and>
        scan_all store source (scan_start (floor_previous (sealed_sequence_floor sealed))) ds \<and>
        28 + length (frames_bytes ds) = length source \<and> da_append_sequence (last ds) = sealed_sequence_cutoff sealed \<and>
        (\<exists>ly. layout_new (length ds) (bt_len (ss_grouped (fold scan_step ds (scan_start (floor_previous (sealed_sequence_floor sealed))))))
            (observation_total ds) (length source - 28) = Inr ly \<and>
          write_segment store sealed source (fold scan_step ds (scan_start (floor_previous (sealed_sequence_floor sealed)))) ly = Inr ps))"
  (is "?L \<longleftrightarrow> ?acc \<and> (\<exists>ds. ?R ds)")
proof (cases ?acc)
  case True
  define n where "n = unat (sealed_sequence_cutoff sealed) - unat (sealed_sequence_floor sealed)"
  define s0 where "s0 = scan_start (floor_previous (sealed_sequence_floor sealed))"
  have len: "length source \<le> usize_max" "\<not> length source > unat MAX_ACTIVE_JOURNAL_BYTES" "28 \<le> length source" "length source \<le> 536870912"
    using True by (simp_all add: source_accepted_def MAX_ACTIVE_JOURNAL_BYTES_def)
  have accepted: "\<not> source_refused sealed source"
    unfolding source_refused_iff [OF len(4)] using True by (simp add: source_accepted_def)
  have count: "map_option unat (checked_sub (sealed_sequence_cutoff sealed) (sealed_sequence_floor sealed)) = Some n" "0 < n" "n \<le> 4096"
    using True by (auto simp: source_accepted_def checked_sub_def word_le_nat_alt unat_sub n_def)
  have header: "header_decode (slice 0 28 source) = Inr \<lparr>header_store_id = store\<rparr>"
    using True by (simp add: header_decode_iff source_accepted_def)
  have prev: "(if sealed_sequence_floor sealed = 0 then Inr None
      else map_ok Some (map_err (\<lambda>_. SegmentInvalidSource) (append_sequence_new (sealed_sequence_floor sealed)))) =
      Inr (floor_previous (sealed_sequence_floor sealed))"
    by (simp add: floor_previous_def append_sequence_new_def)
  have "?L \<longleftrightarrow> (\<exists>s. scan_source store source n s0 = Inr s \<and> ss_offset s = length source \<and> length (ss_frames s) = n \<and>
      map_option append_get (ss_previous s) = Some (sealed_sequence_cutoff sealed) \<and>
      (\<exists>ly. layout_new (length (ss_frames s)) (bt_len (ss_grouped s)) (ss_observations s) (length source - 28) = Inr ly \<and>
        write_segment store sealed source s ly = Inr ps))"
    unfolding build_segment_v1_def using len accepted count header prev
    by (auto simp: get_range_def JOURNAL_V1_HEADER_LEN_def MAX_ACTIVE_JOURNAL_RECORDS_def result_convs s0_def scan_start_def)
  also have "\<dots> \<longleftrightarrow> (\<exists>ds. ?R ds)"
  proof -
    have off: "ss_offset s0 \<le> length source" using len(3) by (simp add: s0_def scan_start_def)
    have fields: "length (ss_frames (fold scan_step ds s0)) = length ds" "ss_offset (fold scan_step ds s0) = 28 + length (frames_bytes ds)"
      "ss_observations (fold scan_step ds s0) = observation_total ds"
      "0 < length ds \<Longrightarrow> ss_previous (fold scan_step ds s0) = Some (AppendSequenceV1 (da_append_sequence (last ds)))" for ds
      by (auto simp: fold_scan_fields s0_def scan_start_def)
    define C where "C s \<longleftrightarrow> map_option append_get (ss_previous s) = Some (sealed_sequence_cutoff sealed) \<and>
      (\<exists>ly. layout_new (length (ss_frames s)) (bt_len (ss_grouped s)) (ss_observations s) (length source - 28) = Inr ly \<and>
        write_segment store sealed source s ly = Inr ps)" for s
    have "(\<exists>s. scan_source store source n s0 = Inr s \<and> ss_offset s = length source \<and> length (ss_frames s) = n \<and> C s) \<longleftrightarrow>
      (\<exists>ds. length ds = n \<and> scan_all store source s0 ds \<and> ss_offset (fold scan_step ds s0) = length source \<and> C (fold scan_step ds s0))"
      unfolding scan_source_iff [OF len(1) off] using fields(1) by auto
    then have "(\<exists>s. scan_source store source n s0 = Inr s \<and> ss_offset s = length source \<and> length (ss_frames s) = n \<and>
      map_option append_get (ss_previous s) = Some (sealed_sequence_cutoff sealed) \<and>
      (\<exists>ly. layout_new (length (ss_frames s)) (bt_len (ss_grouped s)) (ss_observations s) (length source - 28) = Inr ly \<and>
        write_segment store sealed source s ly = Inr ps)) \<longleftrightarrow>
      (\<exists>ds. length ds = n \<and> scan_all store source s0 ds \<and> ss_offset (fold scan_step ds s0) = length source \<and>
        map_option append_get (ss_previous (fold scan_step ds s0)) = Some (sealed_sequence_cutoff sealed) \<and>
        (\<exists>ly. layout_new (length ds) (bt_len (ss_grouped (fold scan_step ds s0))) (observation_total ds) (length source - 28) = Inr ly \<and>
            write_segment store sealed source (fold scan_step ds s0) ly = Inr ps))"
      unfolding C_def fields(1,3) .
    moreover have "map_option append_get (ss_previous (fold scan_step ds s0)) = Some c \<longleftrightarrow> da_append_sequence (last ds) = c"
      if "length ds = n" for ds c using fields(4) [of ds] count(2) that by simp
    ultimately show ?thesis
      unfolding s0_def [symmetric] n_def [symmetric] fields(2) by blast
  qed
  finally show ?thesis using True by blast
next
  case False
  have "\<not> ?L"
  proof
    assume L: ?L
    then have len: "length source \<le> 536870912" by (auto simp: build_segment_v1_def MAX_ACTIVE_JOURNAL_BYTES_def split: if_splits)
    with L have ref: "\<not> source_refused sealed source"
      by (auto simp: build_segment_v1_def MAX_ACTIVE_JOURNAL_BYTES_def split: if_splits)
    note facts = ref [unfolded source_refused_iff [OF len]]
    from L len ref facts have "unat (sealed_sequence_cutoff sealed) \<le> unat (sealed_sequence_floor sealed) + 4096 \<and>
        identity_ok store \<and> slice 0 28 source = header_encode \<lparr>header_store_id = store\<rparr>"
      by (auto simp: build_segment_v1_def MAX_ACTIVE_JOURNAL_BYTES_def result_convs checked_sub_def word_le_nat_alt unat_sub
          MAX_ACTIVE_JOURNAL_RECORDS_def get_range_def JOURNAL_V1_HEADER_LEN_def header_decode_iff header_encode_def split: if_splits)
    with len facts have ?acc by (simp add: source_accepted_def)
    with False show False by simp
  qed
  with False show ?thesis by blast
qed

lemma map_unat_sorted: "map unat xs = [a..<b] \<Longrightarrow> sorted_wrt (<) (xs :: u64 list)"
proof -
  assume "map unat xs = [a..<b]"
  then have "sorted_wrt (<) (map unat xs)" by simp
  then have "sorted_wrt (\<lambda>x y. unat x < unat y) xs" by (simp add: sorted_wrt_map)
  then show ?thesis by (rule sorted_wrt_mono_rel [rotated]) (simp add: word_less_nat_alt)
qed

lemma scan_frames_iff:
  assumes acc: "source_accepted store sealed source"
  shows "length ds = unat (sealed_sequence_cutoff sealed) - unat (sealed_sequence_floor sealed) \<and>
        scan_all store source (scan_start (floor_previous (sealed_sequence_floor sealed))) ds \<and>
        28 + length (frames_bytes ds) = length source \<and> da_append_sequence (last ds) = sealed_sequence_cutoff sealed \<longleftrightarrow>
     list_all (\<lambda>d. frame_ok store (d_series d) d) ds \<and> source = header_encode \<lparr>header_store_id = store\<rparr> @ frames_bytes ds \<and>
     map (\<lambda>d. unat (da_append_sequence d)) ds = [unat (sealed_sequence_floor sealed) + 1..<unat (sealed_sequence_cutoff sealed) + 1]"
    (is "?L \<longleftrightarrow> ?R")
proof -
  define n where "n = unat (sealed_sequence_cutoff sealed) - unat (sealed_sequence_floor sealed)"
  have n: "0 < n" "n \<le> 4096" "unat (sealed_sequence_cutoff sealed) = unat (sealed_sequence_floor sealed) + n"
    using acc by (auto simp: source_accepted_def n_def)
  have src: "28 \<le> length source" "slice 0 28 source = header_encode \<lparr>header_store_id = store\<rparr>"
    using acc by (simp_all add: source_accepted_def)
  have split: "source = header_encode \<lparr>header_store_id = store\<rparr> @ frames_bytes ds \<longleftrightarrow> slice 28 (length source) source = frames_bytes ds"
    using src append_take_drop_id [of 28 source] by (auto simp: slice_def)
  have at: "28 + length (frames_bytes ds) = length source \<Longrightarrow>
      frames_at source 28 (length source) ds \<longleftrightarrow> slice 28 (length source) source = frames_bytes ds"
    using frames_at_slice [OF src(1) order_refl, of ds] by simp
  have fits: "28 + length (frames_bytes ds) = length source" if "slice 28 (length source) source = frames_bytes ds"
    using arg_cong [OF that, of length] src(1) by simp
  have seqs: "seq_chain (floor_previous (sealed_sequence_floor sealed)) (map da_append_sequence ds) \<and>
        da_append_sequence (last ds) = sealed_sequence_cutoff sealed \<longleftrightarrow>
      map (\<lambda>d. unat (da_append_sequence d)) ds = [unat (sealed_sequence_floor sealed) + 1..<unat (sealed_sequence_cutoff sealed) + 1]"
    if "length ds = n"
    using scan_sequences [of "map da_append_sequence ds" n "sealed_sequence_cutoff sealed" "sealed_sequence_floor sealed"] that n
    by (cases "ds = []") (auto simp: last_map comp_def simp del: upt_Suc)
  have len: "length ds = n"
    if "map (\<lambda>d. unat (da_append_sequence d)) ds = [unat (sealed_sequence_floor sealed) + 1..<unat (sealed_sequence_cutoff sealed) + 1]"
    using arg_cong [OF that, of length] by (simp add: n_def del: upt_Suc)
  have obs: "observation_total ds \<le> 1048576" if "list_all (\<lambda>d. frame_ok store (d_series d) d) ds" "length ds = n"
    using observation_total_bound [of ds] that n by (auto simp: list_all_iff frame_ok_def)
  show ?thesis
    unfolding scan_all_iff n_def [symmetric] scan_start_def SourceScan.simps
    using split at fits seqs len obs by auto
qed

lemma group_totals:
  shows "length (block_frames (group_frames ds)) = length ds" "observation_total (block_frames (group_frames ds)) = observation_total ds"
    "length (blocks_bytes (group_frames ds)) = length (frames_bytes ds)"
proof -
  have total: "observation_total xs = sum_mset (image_mset (\<lambda>d. length (env_observations (da_envelope d))) (mset xs))"
    "length (frames_bytes xs) = sum_mset (image_mset (\<lambda>d. length (frame_of d)) (mset xs))" for xs
    by (induction xs) auto
  show "length (block_frames (group_frames ds)) = length ds" using mset_eq_length [OF mset_group] .
  show "observation_total (block_frames (group_frames ds)) = observation_total ds" unfolding total mset_group ..
  show "length (blocks_bytes (group_frames ds)) = length (frames_bytes ds)" unfolding frames_block_bytes [symmetric] total mset_group ..
qed

lemma write_accepted:
  assumes ok: "segment_ok store sealed (group_frames ds)" and src: "source = header_encode \<lparr>header_store_id = store\<rparr> @ frames_bytes ds"
  shows "(\<exists>ly. layout_new (length ds) (bt_len (ss_grouped (fold scan_step ds (scan_start p)))) (observation_total ds) (length source - 28) = Inr ly \<and>
        write_segment store sealed source (fold scan_step ds (scan_start p)) ly = Inr ps) \<longleftrightarrow> ps = prepared store sealed (group_frames ds)"
proof -
  have hl: "length (header_encode \<lparr>header_store_id = store\<rparr>) = 28" using ok by (simp add: segment_ok_def length_header_encode)
  have fr: "frames_at source 28 (length source) ds"
    using frames_at_slice [of 28 "length source" source ds] hl by (simp add: src slice_def)
  have "at_indices ds (ss_grouped (fold scan_step ds (scan_start p))) = group_frames ds"
    using scan_groups [of "[]" ds "[]" "scan_start p" "[]"] by (simp add: group_frames_def scan_start_def at_indices_def)
  from arg_cong [OF this, of length]
  have series: "bt_len (ss_grouped (fold scan_step ds (scan_start p))) = length (group_frames ds)" by (simp add: bt_len_def)
  have ly: "segment_layout (group_frames ds) = layout_of (length ds) (length (group_frames ds)) (observation_total ds) (length source - 28)"
    by (simp add: segment_layout_def group_totals src hl)
  have "layout_ok (length ds) (length (group_frames ds)) (observation_total ds) (length source - 28)"
    using segment_ok_layout(1) [OF ok] by (simp add: group_totals src hl)
  then show ?thesis
    using write_segment_spec [OF ok refl group_totals(1,2) fr, of p] unfolding series layout_new_iff ly by auto
qed

theorem build_segment_iff:
  "build_segment_v1 store sealed source = Inr ps \<longleftrightarrow>
     (\<exists>bl. segment_ok store sealed bl \<and> source = source_of store bl \<and> ps = prepared store sealed bl)" (is "?L \<longleftrightarrow> ?R")
proof
  assume ?L
  then obtain ds where acc: "source_accepted store sealed source"
    and scan: "length ds = unat (sealed_sequence_cutoff sealed) - unat (sealed_sequence_floor sealed) \<and>
        scan_all store source (scan_start (floor_previous (sealed_sequence_floor sealed))) ds \<and>
        28 + length (frames_bytes ds) = length source \<and> da_append_sequence (last ds) = sealed_sequence_cutoff sealed"
    and w: "\<exists>ly. layout_new (length ds) (bt_len (ss_grouped (fold scan_step ds (scan_start (floor_previous (sealed_sequence_floor sealed))))))
            (observation_total ds) (length source - 28) = Inr ly \<and>
          write_segment store sealed source (fold scan_step ds (scan_start (floor_previous (sealed_sequence_floor sealed)))) ly = Inr ps"
    unfolding build_segment_steps by blast
  have ds: "list_all (\<lambda>d. frame_ok store (d_series d) d) ds" "source = header_encode \<lparr>header_store_id = store\<rparr> @ frames_bytes ds"
    "map (\<lambda>d. unat (da_append_sequence d)) ds = [unat (sealed_sequence_floor sealed) + 1..<unat (sealed_sequence_cutoff sealed) + 1]"
    using scan unfolding scan_frames_iff [OF acc] by blast+
  have sorted: "sorted_wrt (<) (map da_append_sequence ds)"
    using map_unat_sorted [of "map da_append_sequence ds"] ds(3) by (simp add: comp_def del: upt_Suc)
  define bl where "bl = group_frames ds"
  have m: "merged bl = ds" using merged_group [OF sorted] by (simp add: bl_def)
  have src: "source = source_of store bl" using ds(2) m by (simp add: source_of_def)
  have num: "length ds \<le> 4096" "ds \<noteq> []" using scan acc by (auto simp: source_accepted_def)
  have "bl \<noteq> []" using group_totals(1) [of ds] num(2) by (auto simp: bl_def)
  then have ok: "segment_ok store sealed bl"
    using acc blocks_ok_group [OF ds(1) sorted] num group_totals(1) [of ds] ds(3)
    by (simp add: segment_ok_def source_ok_def m src [symmetric] source_accepted_def bl_def [symmetric] del: upt_Suc)
  with w write_accepted [of store sealed ds source _ ps] ds(2) src show ?R by (auto simp: bl_def)
next
  assume ?R
  then obtain bl where ok: "segment_ok store sealed bl" and src: "source = source_of store bl" and ps: "ps = prepared store sealed bl" by blast
  define ds where "ds = merged bl"
  have g: "group_frames ds = bl" using group_merged [of store bl] ok by (simp add: ds_def segment_ok_def)
  have so: "source = header_encode \<lparr>header_store_id = store\<rparr> @ frames_bytes ds" by (simp add: src source_of_def ds_def)
  have h: "header_ok sealed (length (block_frames bl))" and l: "layout_ok (length (block_frames bl)) (length bl)
      (observation_total (block_frames bl)) (length (blocks_bytes bl))" using segment_ok_layout [OF ok] by auto
  have store: "identity_ok store" using ok by (simp add: segment_ok_def)
  have acc: "source_accepted store sealed source"
    using ok h l length_header_encode [of "\<lparr>header_store_id = store\<rparr>"] length_source_of [OF store, of bl]
    by (auto simp: source_accepted_def segment_ok_def source_ok_def header_ok_def layout_ok_def src source_of_def slice_def)
  have "frame_ok store (d_series d) d" if "d \<in> set ds" for d
    using that ok by (auto simp: ds_def merged_def block_frames_def segment_ok_def blocks_ok_def list_all_iff block_ok_def frame_ok_def d_series_def)
  then have frames: "list_all (\<lambda>d. frame_ok store (d_series d) d) ds" by (simp add: list_all_iff)
  have "map (\<lambda>d. unat (da_append_sequence d)) ds = [unat (sealed_sequence_floor sealed) + 1..<unat (sealed_sequence_cutoff sealed) + 1]"
    using ok by (simp add: segment_ok_def source_ok_def ds_def del: upt_Suc)
  with frames so have scan: "length ds = unat (sealed_sequence_cutoff sealed) - unat (sealed_sequence_floor sealed) \<and>
        scan_all store source (scan_start (floor_previous (sealed_sequence_floor sealed))) ds \<and>
        28 + length (frames_bytes ds) = length source \<and> da_append_sequence (last ds) = sealed_sequence_cutoff sealed"
    unfolding scan_frames_iff [OF acc] by blast
  have "segment_ok store sealed (group_frames ds)" using ok g by simp
  from write_accepted [OF this so, of "floor_previous (sealed_sequence_floor sealed)" ps] acc scan ps g
  show ?L unfolding build_segment_steps by blast
qed

end
