(* ===== verification/Och_Segment_Query.thy ===== *)
theory Och_Segment_Query
  imports Och_Segment_Build
begin

text \<open>
  Queries on parsed segments (\<open>SegmentV1::query_observations_v1\<close>).  The locale states what a query relies on: sorted
  directories and observation entries that resolve to a frame.  From these laws alone a query never reports an
  inconsistent segment and returns the newest matching observations.  Parsed segments satisfy the laws.
\<close>

section \<open>What a query selects\<close>

definition query_matches :: "SegmentObservationQueryV1 \<Rightarrow> SegmentObservationEntryV1 \<Rightarrow> bool" where
  "query_matches q e \<longleftrightarrow> oe_series_id e = sq_series_id q \<and>
     (case sq_interval q of None \<Rightarrow> True | Some i \<Rightarrow> time_interval_contains i (key_effective (oe_raw_order_key e)))"

definition query_selection :: "SegmentV1 \<Rightarrow> SegmentObservationQueryV1 \<Rightarrow> SegmentObservationEntryV1 list" where
  "query_selection seg q = filter (query_matches q) (seg_observations seg)"

text \<open>An item carries the entry, the admission its frame decodes to, and the position of the observation in it.\<close>

definition item_resolves :: "SegmentV1 \<Rightarrow> SegmentObservationEntryV1 \<Rightarrow> SegmentObservationQueryItemV1 \<Rightarrow> bool" where
  "item_resolves seg e item \<longleftrightarrow> qi_entry item = e \<and>
     (\<exists>a \<in> set (seg_appends seg). ae_append_sequence a = oe_append_sequence e \<and> segment_decode_frame seg a = Inr (qi_admission item)) \<and>
     qi_observation_index item < length (env_observations (da_envelope (qi_admission item))) \<and>
     raw_order_key (env_observations (da_envelope (qi_admission item)) ! qi_observation_index item) = oe_raw_order_key e"

definition entry_resolves :: "SegmentV1 \<Rightarrow> SegmentObservationEntryV1 \<Rightarrow> bool" where
  "entry_resolves seg e \<longleftrightarrow> (\<exists>a \<in> set (seg_appends seg). \<exists>d. \<not> append_disagrees a e \<and> segment_decode_frame seg a = Inr d \<and>
     \<not> admission_disagrees (ins_store_id (seg_inspection seg)) (oe_series_id e) (ae_append_sequence a) d \<and>
     unat (oe_observation_ordinal e) < 256 \<and> unat (oe_observation_ordinal e) < length (env_observations (da_envelope d)) \<and>
     unat (oe_observation_ordinal e) < length (da_observations d) \<and>
     \<not> lineage_disagrees e d (env_observations (da_envelope d) ! unat (oe_observation_ordinal e))
         (da_observations d ! unat (oe_observation_ordinal e)))"

definition series_slice :: "SegmentV1 \<Rightarrow> SegmentSeriesEntryV1 \<Rightarrow> bool" where
  "series_slice seg s \<longleftrightarrow> (\<exists>start. unat (se_recent_offset s) = unat (ins_recent_directory_offset (seg_inspection seg)) + start * 96 \<and>
     unat (se_recent_length s) = unat (se_observation_count s) * 96 \<and>
     start + unat (se_observation_count s) \<le> length (seg_observations seg) \<and> length (seg_observations seg) \<le> usize_max \<and>
     slice start (start + unat (se_observation_count s)) (seg_observations seg) =
       filter (\<lambda>e. oe_series_id e = se_series_id s) (seg_observations seg))"

section \<open>The laws of the directories\<close>

locale observation_index =
  fixes good :: "SegmentV1 \<Rightarrow> bool"
  assumes appends_sorted: "good seg \<Longrightarrow> sorted_wrt (<) (map ae_append_sequence (seg_appends seg))"
    and series_sorted: "good seg \<Longrightarrow> sorted_wrt (<) (map se_series_id (seg_series seg))"
    and slices: "good seg \<Longrightarrow> s \<in> set (seg_series seg) \<Longrightarrow> series_slice seg s"
    and covered: "good seg \<Longrightarrow> e \<in> set (seg_observations seg) \<Longrightarrow> oe_series_id e \<in> se_series_id ` set (seg_series seg)"
    and resolves: "good seg \<Longrightarrow> e \<in> set (seg_observations seg) \<Longrightarrow> entry_resolves seg e"
begin

definition cache_ok :: "SegmentV1 \<Rightarrow> (u64 \<times> DecodedAdmissionV1) list \<Rightarrow> bool" where
  "cache_ok seg cache \<longleftrightarrow>
     (\<forall>(sq, d) \<in> set cache. \<exists>a \<in> set (seg_appends seg). ae_append_sequence a = sq \<and> segment_decode_frame seg a = Inr d)"

lemma append_unique:
  "good seg \<Longrightarrow> a \<in> set (seg_appends seg) \<Longrightarrow> b \<in> set (seg_appends seg) \<Longrightarrow> ae_append_sequence a = ae_append_sequence b \<Longrightarrow> a = b"
  using appends_sorted [of seg] by (auto simp: strict_sorted_iff distinct_map inj_on_def)

lemma decode_frame_slice:
  "a \<in> set (seg_appends seg) \<Longrightarrow> segment_decode_frame seg a = Inr d \<longleftrightarrow>
   (\<exists>fr. segment_checked_slice (seg_bytes seg) (ae_frame_offset a) (ae_frame_length a) = Some fr \<and>
      decode_admission_frame_v1 fr decode_limits_maximum None = Inr d)"
  by (auto simp: segment_decode_frame_def segment_frame_bytes_def result_convs)

lemma admission_found:
  assumes "good seg" "cache_ok seg cache" "a \<in> set (seg_appends seg)" "segment_decode_frame seg a = Inr d"
  shows "\<exists>cache'. query_admission seg cache a = Inr (d, cache') \<and> cache_ok seg cache'"
proof (cases "find (\<lambda>(sq, _). sq = ae_append_sequence a) cache")
  case None
  from assms(3,4) obtain fr where "segment_checked_slice (seg_bytes seg) (ae_frame_offset a) (ae_frame_length a) = Some fr"
      "decode_admission_frame_v1 fr decode_limits_maximum None = Inr d"
    unfolding decode_frame_slice [OF assms(3)] by blast
  with None assms show ?thesis by (auto simp: query_admission_def cache_ok_def)
next
  case (Some p)
  obtain sq d' where p: "p = (sq, d')" by (cases p)
  from Some have "(sq, d') \<in> set cache" "sq = ae_append_sequence a" by (auto simp: find_Some_iff p) (metis nth_mem)
  then obtain b where "b \<in> set (seg_appends seg)" "ae_append_sequence b = ae_append_sequence a" "segment_decode_frame seg b = Inr d'"
    using assms(2) by (auto simp: cache_ok_def)
  with append_unique [OF assms(1)] assms(3,4) have "d' = d" by fastforce
  with Some p assms(2) show ?thesis by (auto simp: query_admission_def)
qed

lemma item_found:
  assumes "good seg" "cache_ok seg cache" "e \<in> set (seg_observations seg)" "oe_series_id e = sq_series_id q"
  shows "\<exists>item cache'. query_item seg q cache e = Inr (item, cache') \<and> cache_ok seg cache' \<and> item_resolves seg e item"
proof -
  from resolves [OF assms(1,3)] obtain a d where a: "a \<in> set (seg_appends seg)" "\<not> append_disagrees a e" "segment_decode_frame seg a = Inr d"
    "\<not> admission_disagrees (ins_store_id (seg_inspection seg)) (oe_series_id e) (ae_append_sequence a) d"
    and i: "unat (oe_observation_ordinal e) < 256" "unat (oe_observation_ordinal e) < length (env_observations (da_envelope d))"
     "unat (oe_observation_ordinal e) < length (da_observations d)"
    and l: "\<not> lineage_disagrees e d (env_observations (da_envelope d) ! unat (oe_observation_ordinal e))
         (da_observations d ! unat (oe_observation_ordinal e))"
    unfolding entry_resolves_def by blast
  from a(1) obtain n where n: "n < length (seg_appends seg)" "seg_appends seg ! n = a" by (auto simp: in_set_conv_nth)
  have seq: "ae_append_sequence a = oe_append_sequence e" using a(2) by (simp add: append_disagrees_def)
  with n have search: "binary_search_by_key ae_append_sequence (oe_append_sequence e) (seg_appends seg) = Some n"
    unfolding binary_search_iff [OF appends_sorted [OF assms(1)]] by simp
  obtain cache' where c: "query_admission seg cache a = Inr (d, cache')" "cache_ok seg cache'"
    using admission_found [OF assms(1,2) a(1,3)] by blast
  define item where "item = \<lparr>qi_entry = e, qi_admission = d, qi_observation_index = unat (oe_observation_ordinal e)\<rparr>"
  have "query_item seg q cache e = Inr (item, cache')"
    using search n a c i l assms(4) by (simp add: query_item_def Let_def item_def)
  moreover have "item_resolves seg e item"
    using a i l seq by (auto simp: item_resolves_def item_def lineage_disagrees_def)
  ultimately show ?thesis using c(2) by blast
qed

lemma loop_selects:
  assumes "good seg"
  shows "set es \<subseteq> set (seg_observations seg) \<Longrightarrow> list_all (\<lambda>e. oe_series_id e = sq_series_id q) es \<Longrightarrow> cache_ok seg cache \<Longrightarrow>
    length items \<le> sq_limit q \<Longrightarrow>
    \<exists>more. query_loop seg q es items cache = Inr (items @ more, length items + length (filter (query_matches q) es) > sq_limit q) \<and>
      list_all2 (item_resolves seg) (take (sq_limit q - length items) (filter (query_matches q) es)) more"
proof (induction es arbitrary: items cache)
  case (Cons e es)
  have e: "e \<in> set (seg_observations seg)" "oe_series_id e = sq_series_id q" using Cons.prems by auto
  show ?case
  proof (cases "query_matches q e")
    case False
    with e have "is_some_and (\<lambda>interval. \<not> time_interval_contains interval (key_effective (oe_raw_order_key e))) (sq_interval q)"
      by (auto simp: query_matches_def is_some_and_def split: option.splits)
    with Cons e False show ?thesis by simp
  next
    case True
    then have skip: "\<not> is_some_and (\<lambda>interval. \<not> time_interval_contains interval (key_effective (oe_raw_order_key e))) (sq_interval q)"
      by (auto simp: query_matches_def is_some_and_def split: option.splits)
    show ?thesis
    proof (cases "length items = sq_limit q")
      case True
      with e skip \<open>query_matches q e\<close> show ?thesis by simp
    next
      case False
      with Cons.prems(4) have room: "length items < sq_limit q" by simp
      obtain item cache' where item: "query_item seg q cache e = Inr (item, cache')" "cache_ok seg cache'" "item_resolves seg e item"
        using item_found [OF assms Cons.prems(3) e] by blast
      have "\<exists>more. query_loop seg q es (items @ [item]) cache' =
          Inr ((items @ [item]) @ more, length (items @ [item]) + length (filter (query_matches q) es) > sq_limit q) \<and>
          list_all2 (item_resolves seg) (take (sq_limit q - length (items @ [item])) (filter (query_matches q) es)) more"
        using Cons.prems item room by (intro Cons.IH) simp_all
      then obtain more where more: "query_loop seg q es (items @ [item]) cache' =
          Inr (items @ item # more, length items + length (filter (query_matches q) (e # es)) > sq_limit q)"
          "list_all2 (item_resolves seg) (take (sq_limit q - length (items @ [item])) (filter (query_matches q) es)) more"
        using \<open>query_matches q e\<close> by auto
      have "query_loop seg q (e # es) items cache = Inr (items @ item # more, length items + length (filter (query_matches q) (e # es)) > sq_limit q)"
        using e skip False item(1) more(1) by simp
      moreover have "sq_limit q - length items = Suc (sq_limit q - length (items @ [item]))" using room by simp
      ultimately show ?thesis using more(2) item(3) \<open>query_matches q e\<close> by (intro exI [of _ "item # more"]) simp
    qed
  qed
qed simp

theorem query_selects:
  assumes good: "good seg"
  shows "\<exists>items. query_observations_v1 seg q = Inr (query_result q items (length (query_selection seg q) > sq_limit q)) \<and>
    list_all2 (item_resolves seg) (take (sq_limit q) (query_selection seg q)) items"
proof (cases "binary_search_by_key se_series_id (sq_series_id q) (seg_series seg)")
  case None
  then have "sq_series_id q \<notin> se_series_id ` set (seg_series seg)" unfolding binary_search_None [OF series_sorted [OF good]] .
  then have "\<not> query_matches q e" if "e \<in> set (seg_observations seg)" for e
    using covered [OF good that] by (auto simp: query_matches_def)
  then have "query_selection seg q = []" by (simp add: query_selection_def)
  with None show ?thesis by (simp add: query_observations_v1_def)
next
  case (Some n)
  then have n: "n < length (seg_series seg)" "se_series_id (seg_series seg ! n) = sq_series_id q"
    unfolding binary_search_iff [OF series_sorted [OF good]] by auto
  define s where "s = seg_series seg ! n"
  define count where "count = unat (se_observation_count s)"
  obtain start where off: "unat (se_recent_offset s) = unat (ins_recent_directory_offset (seg_inspection seg)) + start * 96"
    and len: "unat (se_recent_length s) = count * 96" and fit: "start + count \<le> length (seg_observations seg)"
      "length (seg_observations seg) \<le> usize_max"
    and es: "slice start (start + count) (seg_observations seg) = filter (\<lambda>e. oe_series_id e = sq_series_id q) (seg_observations seg)"
    using slices [OF good nth_mem [OF n(1)]] n(2) by (auto simp: series_slice_def s_def count_def)
  define es where "es = filter (\<lambda>e. oe_series_id e = sq_series_id q) (seg_observations seg)"
  define rel where "rel = se_recent_offset s - ins_recent_directory_offset (seg_inspection seg)"
  have rel: "checked_sub (se_recent_offset s) (ins_recent_directory_offset (seg_inspection seg)) = Some rel" "unat rel = start * 96"
    using off by (auto simp: checked_sub_def rel_def word_le_nat_alt unat_sub)
  have dm: "rel mod 96 = 0" "unat (rel div 96) = start"
    using rel(2) by (simp_all add: word_unat_eq_iff unat_mod unat_div)
  have mul: "usize_checked_mul count 96 = Some (count * 96)" "usize_checked_add start count = Some (start + count)"
    using fit unat_less_2p [of "se_recent_length s"] len by (simp_all add: usize_checked_mul_def usize_checked_add_def)
  have range: "get_range start (start + count) (seg_observations seg) = Some es" using fit es by (simp add: get_range_def es_def)
  have sel: "filter (query_matches q) es = query_selection seg q"
    by (simp add: es_def query_selection_def) (rule filter_cong [OF refl], auto simp: query_matches_def)
  have query: "query_observations_v1 seg q = (if es = [] then Inr (query_result q [] False)
      else and_then (query_loop seg q es [] []) (\<lambda>(items, truncated). Inr (query_result q items truncated)))"
    using Some rel(1) dm mul range len
    by (simp add: query_observations_v1_def s_def [symmetric] Let_def SEGMENT_V1_OBSERVATION_ENTRY_LEN_def count_def)
  show ?thesis
  proof (cases "es = []")
    case True
    with sel query show ?thesis by simp
  next
    case False
    have "\<exists>more. query_loop seg q es [] [] = Inr ([] @ more, length ([] :: SegmentObservationQueryItemV1 list) +
        length (filter (query_matches q) es) > sq_limit q) \<and>
      list_all2 (item_resolves seg) (take (sq_limit q - length ([] :: SegmentObservationQueryItemV1 list)) (filter (query_matches q) es)) more"
      by (rule loop_selects [OF good]) (auto simp: es_def list_all_iff cache_ok_def)
    with False query sel show ?thesis by auto
  qed
qed

end

end
