(* ===== verification/Och_Segment_Index.thy ===== *)
theory Och_Segment_Index
  imports Och_Segment_Query
begin

text \<open>
  Parsed segments satisfy the laws of \<open>observation_index\<close>, so a query on one selects the newest matching
  observations and never finds the segment inconsistent.
\<close>

section \<open>The value of a segment\<close>

lemma the_segment_fields:
  "seg_bytes (the_segment store sealed bl) = segment_bytes store sealed bl"
  "seg_series (the_segment store sealed bl) = series_entries (ly_blocks_offset (segment_layout bl)) (ly_recent_offset (segment_layout bl)) bl"
  "seg_appends (the_segment store sealed bl) = map (\<lambda>p. append_entry_of (fst p)) (ordered (ly_blocks_offset (segment_layout bl)) bl)"
  "seg_observations (the_segment store sealed bl) = map observation_entry_of (recents (ly_blocks_offset (segment_layout bl)) bl)"
  "ins_store_id (seg_inspection (the_segment store sealed bl)) = store"
  "ins_recent_directory_offset (seg_inspection (the_segment store sealed bl)) = of_nat (ly_recent_offset (segment_layout bl))"
  by (simp_all add: the_segment_def segment_value_def Let_def segment_layout_def inspection_of_def)

lemma merged_sorted: "source_ok store sealed bl \<Longrightarrow> sorted_wrt (<) (map da_append_sequence (merged bl))"
  by (rule map_unat_sorted) (simp add: source_ok_def comp_def del: upt_Suc)

lemma segment_appends_sorted:
  "segment_ok store sealed bl \<Longrightarrow> sorted_wrt (<) (map ae_append_sequence (seg_appends (the_segment store sealed bl)))"
  using merged_sorted [of store sealed bl] ordered_sequences [of "ly_blocks_offset (segment_layout bl)" bl]
  by (simp add: the_segment_fields append_entry_of_def comp_def segment_ok_def)

section \<open>The recent directory, block by block\<close>

lemma recents_append: "recents boff (xs @ ys) = recents boff xs @ recents (boff + length (blocks_bytes xs)) ys"
  by (induction xs arbitrary: boff) (simp_all add: recents_def add.assoc)

lemma recents_series: "ol \<in> set (recents boff bl) \<Longrightarrow> ol_series_id ol \<in> fst ` set bl"
  by (induction bl arbitrary: boff) (auto simp: recents_def dest: observed_locate_series)

lemma series_entries_split:
  "s \<in> set (series_entries boff roff bl) \<Longrightarrow> \<exists>xs b ys. bl = xs @ b # ys \<and>
     s = series_entry (boff + length (blocks_bytes xs)) (roff + observation_total (block_frames xs) * 96) b"
proof (induction bl arbitrary: boff roff)
  case (Cons b bl)
  show ?case
  proof (cases "s = series_entry boff roff b")
    case True
    then show ?thesis by (intro exI [of _ "[]"] exI [of _ b] exI [of _ bl]) simp
  next
    case False
    with Cons.prems Cons.IH obtain xs b' ys where "bl = xs @ b' # ys"
      "s = series_entry (boff + length (frames_bytes (snd b)) + length (blocks_bytes xs))
         (roff + observation_total (snd b) * 96 + observation_total (block_frames xs) * 96) b'" by fastforce
    then show ?thesis by (intro exI [of _ "b # xs"] exI [of _ b'] exI [of _ ys]) (simp add: algebra_simps)
  qed
qed simp

text \<open>The observations of one series are one contiguous piece of the directory.\<close>

lemma recents_filter:
  assumes "distinct (map fst (xs @ b # ys))"
  shows "filter (\<lambda>ol. ol_series_id ol = fst b) (recents boff (xs @ b # ys)) =
    sort_by recent_le (observed_all (locate (fst b) (boff + length (blocks_bytes xs)) 0 (snd b)))"
proof -
  have none: "filter (\<lambda>ol. ol_series_id ol = fst b) (recents off zs) = []" if "fst b \<notin> fst ` set zs" for off zs
  proof -
    have "ol_series_id ol \<noteq> fst b" if "ol \<in> set (recents off zs)" for ol
      using recents_series [OF that] \<open>fst b \<notin> fst ` set zs\<close> by metis
    then show ?thesis by simp
  qed
  have "filter (\<lambda>ol. ol_series_id ol = fst b) (sort_by recent_le (observed_all (locate (fst b) off 0 (snd b)))) =
      sort_by recent_le (observed_all (locate (fst b) off 0 (snd b)))" for off
    by (rule filter_True) (auto dest: observed_locate_series)
  with assms show ?thesis by (simp add: recents_append recents_Cons none)
qed

lemma recents_slice:
  "slice (observation_total (block_frames xs)) (observation_total (block_frames xs) + observation_total (snd b)) (recents boff (xs @ b # ys)) =
    sort_by recent_le (observed_all (locate (fst b) (boff + length (blocks_bytes xs)) 0 (snd b)))"
  by (simp add: recents_append recents_Cons slice_def length_recents length_observed_all)

lemma slice_map: "slice i j (map f xs) = map f (slice i j xs)"
  by (simp add: slice_def take_map drop_map)

lemma layout_fits:
  assumes "segment_ok store sealed bl" "bl = xs @ b # ys"
  shows "unat (of_nat (ly_recent_offset (segment_layout bl)) :: u64) = ly_recent_offset (segment_layout bl)"
    and "ly_recent_offset (segment_layout bl) + observation_total (block_frames xs) * 96 < 2 ^ 64"
    and "observation_total (snd b) < 2 ^ 32" "observation_total (block_frames bl) \<le> usize_max"
proof -
  define roff where "roff = ly_recent_offset (segment_layout bl)"
  have bounds: "roff \<le> 2 ^ 32" "observation_total (block_frames bl) \<le> 1048576"
    using segment_ok_layout(1) [OF assms(1)] by (simp_all add: roff_def layout_ok_def segment_layout_def layout_of_def)
  moreover have "observation_total (block_frames bl) =
      observation_total (block_frames xs) + observation_total (snd b) + observation_total (block_frames ys)"
    by (simp add: assms(2) block_frames_def)
  ultimately show "unat (of_nat (ly_recent_offset (segment_layout bl)) :: u64) = ly_recent_offset (segment_layout bl)"
    "ly_recent_offset (segment_layout bl) + observation_total (block_frames xs) * 96 < 2 ^ 64"
    "observation_total (snd b) < 2 ^ 32" "observation_total (block_frames bl) \<le> usize_max"
    unfolding roff_def [symmetric] by (simp_all add: unat_of_nat)
qed

lemma segment_slices:
  assumes ok: "segment_ok store sealed bl" and s: "s \<in> set (seg_series (the_segment store sealed bl))"
  shows "series_slice (the_segment store sealed bl) s"
proof -
  define boff roff where "boff = ly_blocks_offset (segment_layout bl)" and "roff = ly_recent_offset (segment_layout bl)"
  obtain xs b ys where bl: "bl = xs @ b # ys"
    and se: "s = series_entry (boff + length (blocks_bytes xs)) (roff + observation_total (block_frames xs) * 96) b"
    using s series_entries_split unfolding the_segment_fields boff_def roff_def by blast
  note fits = layout_fits [OF ok bl, folded roff_def]
  have dist: "distinct (map fst (xs @ b # ys))"
    using ok strict_sorted_iff [of "map fst bl"] by (simp add: segment_ok_def blocks_ok_def bl)
  have count: "unat (se_observation_count s) = observation_total (snd b)" using fits(3) by (simp add: se series_entry_def unat_of_nat)
  have filt: "filter (\<lambda>e. oe_series_id e = fst b) (map observation_entry_of (recents boff bl)) =
      map observation_entry_of (filter (\<lambda>ol. ol_series_id ol = fst b) (recents boff bl))"
    by (simp add: filter_map comp_def observation_entry_of_def)
  have "slice (observation_total (block_frames xs)) (observation_total (block_frames xs) + observation_total (snd b))
      (map observation_entry_of (recents boff bl)) = filter (\<lambda>e. oe_series_id e = fst b) (map observation_entry_of (recents boff bl))"
    unfolding filt slice_map unfolding bl recents_filter [OF dist] recents_slice ..
  moreover have "unat (se_recent_offset s) = roff + observation_total (block_frames xs) * 96"
    "unat (se_recent_length s) = observation_total (snd b) * 96" "se_series_id s = fst b"
    using fits by (simp_all add: se series_entry_def unat_of_nat del: of_nat_add of_nat_mult)
  moreover have "observation_total (block_frames xs) + observation_total (snd b) \<le> length (recents boff bl)"
    by (simp add: length_recents bl block_frames_def)
  ultimately show ?thesis
    using fits by (simp add: series_slice_def the_segment_fields boff_def [symmetric] roff_def [symmetric] count length_recents)
qed

section \<open>Resolving an observation\<close>

lemma place_frame: "(l, d) \<in> set (concat (place boff bl)) \<Longrightarrow>
    \<exists>b \<in> set bl. d \<in> set (snd b) \<and> fl_series_id l = fst b \<and> fl_append_sequence l = da_append_sequence d"
proof (induction bl arbitrary: boff)
  case (Cons b bl)
  have "d \<in> set (snd b)" if "(l, d) \<in> set (locate (fst b) boff 0 (snd b))"
    using that map_snd_locate [of "fst b" boff 0 "snd b"] by (metis in_set_zipE list.set_map image_eqI snd_conv)
  with Cons show ?case by (auto dest: locate_series)
qed simp

lemma recents_observed: "ol \<in> set (recents boff bl) \<Longrightarrow> \<exists>l d. (l, d) \<in> set (concat (place boff bl)) \<and> ol \<in> set (observed l d)"
  by (fastforce simp: recents_def observed_all_def)

lemma segment_located:
  assumes ok: "segment_ok store sealed bl"
  shows "list_all (located (segment_bytes store sealed bl)) (concat (place (ly_blocks_offset (segment_layout bl)) bl))"
    "length (segment_bytes store sealed bl) \<le> usize_max"
proof -
  define bs where "bs = segment_bytes store sealed bl"
  have parts: "identity_ok store" "list_all (block_ok store) bl" using ok by (simp_all add: segment_ok_def blocks_ok_def)
  have len: "length bs = ly_artifact_length (segment_layout bl)"
    using length_segment_body [OF parts, of sealed] by (simp add: bs_def segment_bytes_def)
  show max: "length (segment_bytes store sealed bl) \<le> usize_max"
    using layout_bounds(2) [OF segment_ok_layout(1) [OF ok]] len by (simp add: bs_def segment_layout_def)
  have "directories bs bl" using segment_bytes_iff [OF len parts, of sealed] by (simp add: bs_def)
  then have "slice (ly_blocks_offset (segment_layout bl)) (ly_append_offset (segment_layout bl)) bs = blocks_bytes bl"
    by (simp add: directories_def Let_def segment_layout_def)
  then show "list_all (located (segment_bytes store sealed bl)) (concat (place (ly_blocks_offset (segment_layout bl)) bl))"
    using place_located [OF max parts(2), of "ly_blocks_offset (segment_layout bl)"] len
    by (simp add: bs_def segment_layout_def layout_of_def)
qed

lemma frame_lineage:
  assumes ok: "frame_ok store sid d" and i: "i < length (env_observations (da_envelope d))"
  shows "i < length (da_observations d)" "dl_canonical_observation_id (da_observations d ! i) = obs_id (env_observations (da_envelope d) ! i)"
    "decoded_lineage_linked (da_lifecycle d) (da_observations d ! i)"
proof -
  have "revision_ok (dd_revision (da_declaration d))"
    using ok by (simp add: frame_ok_def decoded_payload_ok_def decoded_declaration_ok_def)
  then have rel: "decoded_related d" using ok validate_decoded_iff [of d] by (simp add: frame_ok_def)
  then have m: "map dl_canonical_observation_id (da_observations d) = map obs_id (env_observations (da_envelope d))"
    and l: "list_all (decoded_lineage_linked (da_lifecycle d)) (da_observations d)"
    by (simp_all add: decoded_related_def Let_def)
  show n: "i < length (da_observations d)" using i map_eq_imp_length_eq [OF m] by simp
  show "dl_canonical_observation_id (da_observations d ! i) = obs_id (env_observations (da_envelope d) ! i)"
    using arg_cong [OF m, of "\<lambda>xs. xs ! i"] i n by simp
  show "decoded_lineage_linked (da_lifecycle d) (da_observations d ! i)" using l n by (simp add: list_all_length)
qed

lemma segment_resolves:
  assumes ok: "segment_ok store sealed bl" and e: "e \<in> set (seg_observations (the_segment store sealed bl))"
  shows "entry_resolves (the_segment store sealed bl) e"
proof -
  define seg where "seg = the_segment store sealed bl"
  define boff where "boff = ly_blocks_offset (segment_layout bl)"
  obtain ol where ol: "ol \<in> set (recents boff bl)" "e = observation_entry_of ol"
    using e by (auto simp: the_segment_fields boff_def)
  obtain l d where ld: "(l, d) \<in> set (concat (place boff bl))" "ol \<in> set (observed l d)" using recents_observed [OF ol(1)] by blast
  obtain b where b: "b \<in> set bl" "d \<in> set (snd b)" "fl_series_id l = fst b" "fl_append_sequence l = da_append_sequence d"
    using place_frame [OF ld(1)] by blast
  have fr: "frame_ok store (fst b) d" using ok b by (auto simp: segment_ok_def blocks_ok_def block_ok_def list_all_iff)
  obtain i where i: "i < length (env_observations (da_envelope d))" and oi: "ol = \<lparr>ol_series_id = fl_series_id l,
      ol_raw_order_key = raw_order_key (env_observations (da_envelope d) ! i), ol_append_sequence = fl_append_sequence l,
      ol_observation_ordinal = of_nat i, ol_frame_ordinal = fl_frame_ordinal l, ol_frame_offset = fl_frame_offset l,
      ol_frame_length = fl_frame_length l\<rparr>" using ld(2) by (auto simp: observed_def)
  have i256: "i < 256" using i observations_bound [OF frame_ok_payload [OF fr]] by simp
  then have ui: "unat (of_nat i :: u32) = i" by (simp add: unat_of_nat)
  have a: "append_entry_of l \<in> set (seg_appends seg)" using ld(1) by (force simp: seg_def the_segment_fields boff_def)
  have "located (seg_bytes seg) (l, d)" using segment_located(1) [OF ok] ld(1)
    unfolding list_all_iff seg_def the_segment_fields boff_def by blast
  then have sl: "segment_checked_slice (seg_bytes seg) (fl_frame_offset l) (fl_frame_length l) = Some (frame_of d)"
    by (simp add: located_def)
  have "decode_admission_frame_v1 (frame_of d) decode_limits_maximum None = Inr d"
    using fr frame_length_bounds(3) [OF frame_ok_payload [OF fr]] by (simp add: decode_frame_at frame_ok_def sequence_follows_def)
  with a sl have dec: "segment_decode_frame seg (append_entry_of l) = Inr d"
    by (simp add: segment_decode_frame_def segment_frame_bytes_def append_entry_of_def)
  note lin = frame_lineage [OF fr i]
  have "\<not> append_disagrees (append_entry_of l) e" "\<not> admission_disagrees store (oe_series_id e) (ae_append_sequence (append_entry_of l)) d"
    using fr b by (simp_all add: append_disagrees_def admission_disagrees_def ol(2) oi observation_entry_of_def append_entry_of_def frame_ok_def)
  moreover have "\<not> lineage_disagrees e d (env_observations (da_envelope d) ! i) (da_observations d ! i)"
    using lin by (simp add: lineage_disagrees_def ol(2) oi observation_entry_of_def decoded_lineage_linked_def raw_order_key_def)
  moreover have "oe_observation_ordinal e = of_nat i" by (simp add: ol(2) oi observation_entry_of_def)
  ultimately show ?thesis
    unfolding entry_resolves_def seg_def [symmetric] using a dec i i256 lin(1) ui
    by (intro bexI [of _ "append_entry_of l"] exI [of _ d]) (simp_all add: seg_def the_segment_fields)
qed

section \<open>Parsed segments\<close>

definition parsed_segment :: "SegmentV1 \<Rightarrow> bool" where
  "parsed_segment seg \<longleftrightarrow> (\<exists>bs store. parse_segment_v1 bs store = Inr seg)"

lemma parsed_segment_iff: "parsed_segment seg \<longleftrightarrow> (\<exists>store sealed bl. segment_ok store sealed bl \<and> seg = the_segment store sealed bl)"
  unfolding parsed_segment_def parse_segment_iff by blast

interpretation parsed: observation_index parsed_segment
proof
  fix seg s e assume "parsed_segment seg"
  then obtain store sealed bl where ok: "segment_ok store sealed bl" and seg: "seg = the_segment store sealed bl"
    unfolding parsed_segment_iff by blast
  show "sorted_wrt (<) (map ae_append_sequence (seg_appends seg))" unfolding seg by (rule segment_appends_sorted [OF ok])
  show "sorted_wrt (<) (map se_series_id (seg_series seg))"
    using ok by (simp add: seg the_segment_fields segment_ok_def blocks_ok_def)
  show "series_slice seg s" if "s \<in> set (seg_series seg)" using segment_slices [OF ok] that by (simp add: seg)
  show "entry_resolves seg e" if "e \<in> set (seg_observations seg)" using segment_resolves [OF ok] that by (simp add: seg)
  show "oe_series_id e \<in> se_series_id ` set (seg_series seg)" if "e \<in> set (seg_observations seg)"
  proof -
    have "oe_series_id e \<in> fst ` set bl"
      using that recents_series [of _ "ly_blocks_offset (segment_layout bl)" bl] by (auto simp: seg the_segment_fields observation_entry_of_def)
    also have "fst ` set bl = se_series_id ` set (seg_series seg)"
      unfolding seg the_segment_fields set_map [symmetric] series_entries_ids ..
    finally show ?thesis .
  qed
qed

end
