(* ===== verification/Och_Segment_Properties.thy ===== *)
theory Och_Segment_Properties
  imports Och_Segment_Index Och_Sample_Frame
begin

text \<open>
  What a Native Segment V1 promises: it keeps the sealed journal it was built from, its bytes are the only ones
  that mean it, its index lists every observation once, and a query returns the newest matching observations.
  The segment of the sample admission witnesses them.
\<close>

section \<open>The journal inside a segment\<close>

lemma segment_frames_kept:
  assumes ok: "segment_ok store sealed bl"
  shows "map (segment_frame_bytes (the_segment store sealed bl)) (seg_appends (the_segment store sealed bl)) =
    map Inr (map frame_of (merged bl))"
proof -
  define seg where "seg = the_segment store sealed bl"
  define boff where "boff = ly_blocks_offset (segment_layout bl)"
  have frame: "segment_frame_bytes seg (append_entry_of (fst p)) = Inr (frame_of (snd p))" if p: "p \<in> set (ordered boff bl)" for p
  proof -
    have "located (seg_bytes seg) p"
      using segment_located(1) [OF ok] p unfolding list_all_iff ordered_set seg_def the_segment_fields boff_def by blast
    moreover have "append_entry_of (fst p) \<in> set (seg_appends seg)" using p by (auto simp: seg_def the_segment_fields boff_def)
    ultimately show ?thesis by (simp add: segment_frame_bytes_def located_def append_entry_of_def)
  qed
  have "map (segment_frame_bytes seg) (seg_appends seg) = map (\<lambda>p. Inr (frame_of (snd p))) (ordered boff bl)"
    using frame by (simp add: seg_def the_segment_fields boff_def)
  also have "\<dots> = map Inr (map frame_of (merged bl))" unfolding ordered_snd [of boff, symmetric] by simp
  finally show ?thesis by (simp add: seg_def)
qed

lemma segment_frames_decode:
  assumes ok: "segment_ok store sealed bl"
  shows "map (segment_decode_frame (the_segment store sealed bl)) (seg_appends (the_segment store sealed bl)) = map Inr (merged bl)"
proof (rule nth_equalityI)
  define seg where "seg = the_segment store sealed bl"
  note kept = segment_frames_kept [OF ok, folded seg_def]
  show "length (map (segment_decode_frame seg) (seg_appends seg)) = length (map Inr (merged bl))"
    using arg_cong [OF kept, of length] by simp
  fix i assume "i < length (map (segment_decode_frame seg) (seg_appends seg))"
  then have i: "i < length (seg_appends seg)" "i < length (merged bl)" using arg_cong [OF kept, of length] by simp_all
  have d: "segment_frame_bytes seg (seg_appends seg ! i) = Inr (frame_of (merged bl ! i))"
    using arg_cong [OF kept, of "\<lambda>xs. xs ! i"] i by simp
  have "merged bl ! i \<in> set (block_frames bl)" using i(2) nth_mem [of i "merged bl"] by (simp add: merged_def)
  then obtain b where "b \<in> set bl" "merged bl ! i \<in> set (snd b)" by (auto simp: block_frames_def)
  then have fr: "frame_ok store (fst b) (merged bl ! i)" using ok by (auto simp: segment_ok_def blocks_ok_def block_ok_def list_all_iff)
  have "decode_admission_frame_v1 (frame_of (merged bl ! i)) decode_limits_maximum None = Inr (merged bl ! i)"
    using fr frame_length_bounds(3) [OF frame_ok_payload [OF fr]] by (simp add: decode_frame_at frame_ok_def sequence_follows_def)
  then show "map (segment_decode_frame seg) (seg_appends seg) ! i = map Inr (merged bl) ! i"
    using i d by (simp add: segment_decode_frame_def)
qed

section \<open>The observations of a segment\<close>

text \<open>What the observation directory records of one observation: its series, frame, position in the frame and order key.\<close>

definition entry_facts :: "SegmentObservationEntryV1 \<Rightarrow> SeriesId \<times> u64 \<times> nat \<times> RawObservationOrderKey" where
  "entry_facts e = (oe_series_id e, oe_append_sequence e, unat (oe_observation_ordinal e), oe_raw_order_key e)"

definition frame_facts :: "DecodedAdmissionV1 \<Rightarrow> (SeriesId \<times> u64 \<times> nat \<times> RawObservationOrderKey) list" where
  "frame_facts d = map (\<lambda>i. (dd_series_id (da_declaration d), da_append_sequence d, i, raw_order_key (env_observations (da_envelope d) ! i)))
     [0..<length (env_observations (da_envelope d))]"

lemma observed_facts:
  assumes "frame_ok store (fl_series_id l) d" "fl_append_sequence l = da_append_sequence d"
  shows "map (\<lambda>ol. entry_facts (observation_entry_of ol)) (observed l d) = frame_facts d"
proof -
  have "length (env_observations (da_envelope d)) \<le> 256" using observations_bound [OF frame_ok_payload [OF assms(1)]] .
  then have "unat (of_nat i :: u32) = i" if "i < length (env_observations (da_envelope d))" for i
    using that by (simp add: unat_of_nat)
  then show ?thesis
    using assms by (auto simp: observed_def frame_facts_def entry_facts_def observation_entry_of_def frame_ok_def intro!: map_cong)
qed

lemma observed_all_facts:
  "list_all (\<lambda>(l, d). frame_ok store (fl_series_id l) d \<and> fl_append_sequence l = da_append_sequence d) ps \<Longrightarrow>
   map (\<lambda>ol. entry_facts (observation_entry_of ol)) (observed_all ps) = concat (map frame_facts (map snd ps))"
  by (induction ps) (auto simp: observed_facts)

lemma mset_recents: "mset (recents boff bl) = mset (observed_all (concat (place boff bl)))"
  by (induction bl arbitrary: boff) (simp_all add: recents_def)

lemma mset_concat_map:
  assumes "mset xs = mset ys"
  shows "mset (concat (map f xs)) = mset (concat (map f ys))"
proof -
  have "mset (concat (map f zs)) = sum_mset (image_mset (\<lambda>z. mset (f z)) (mset zs))" for zs by (induction zs) simp_all
  with assms show ?thesis by simp
qed

lemma segment_index:
  assumes ok: "segment_ok store sealed bl"
  shows "mset (map entry_facts (seg_observations (the_segment store sealed bl))) = mset (concat (map frame_facts (merged bl)))"
proof -
  define boff where "boff = ly_blocks_offset (segment_layout bl)"
  have frames: "list_all (\<lambda>(l, d). frame_ok store (fl_series_id l) d \<and> fl_append_sequence l = da_append_sequence d) (concat (place boff bl))"
    unfolding list_all_iff
  proof
    fix p assume "p \<in> set (concat (place boff bl))"
    then obtain b where "b \<in> set bl" "snd p \<in> set (snd b)" "fl_series_id (fst p) = fst b" "fl_append_sequence (fst p) = da_append_sequence (snd p)"
      using place_frame [of "fst p" "snd p" boff bl] by auto
    with ok show "case p of (l, d) \<Rightarrow> frame_ok store (fl_series_id l) d \<and> fl_append_sequence l = da_append_sequence d"
      by (auto simp: segment_ok_def blocks_ok_def block_ok_def list_all_iff split: prod.splits)
  qed
  have "mset (map entry_facts (seg_observations (the_segment store sealed bl))) =
      image_mset (\<lambda>ol. entry_facts (observation_entry_of ol)) (mset (recents boff bl))"
    by (simp add: the_segment_fields boff_def image_mset.compositionality comp_def)
  also have "\<dots> = mset (concat (map frame_facts (block_frames bl)))"
    unfolding mset_recents mset_map [symmetric] observed_all_facts [OF frames] map_snd_place ..
  also have "\<dots> = mset (concat (map frame_facts (merged bl)))" by (rule mset_concat_map) (simp add: merged_def)
  finally show ?thesis .
qed

section \<open>Newest first\<close>

definition entry_newer :: "SegmentObservationEntryV1 \<Rightarrow> SegmentObservationEntryV1 \<Rightarrow> bool" where
  "entry_newer l r \<longleftrightarrow> oe_raw_order_key r < oe_raw_order_key l \<or> oe_raw_order_key r = oe_raw_order_key l \<and>
     (oe_append_sequence r < oe_append_sequence l \<or> oe_append_sequence r = oe_append_sequence l \<and>
       oe_observation_ordinal l \<le> oe_observation_ordinal r)"

lemma recent_le_total: "\<not> recent_le a b \<Longrightarrow> recent_le b a"
  unfolding recent_le_def by auto

lemma recent_le_trans: "transp recent_le"
  by (rule transpI) (auto simp: recent_le_def)

lemma entry_newer_of: "entry_newer (observation_entry_of l) (observation_entry_of r) = recent_le l r"
  by (simp add: entry_newer_def recent_le_def observation_entry_of_def)

lemma recents_newest_first:
  assumes "distinct (map fst bl)"
  shows "sorted_wrt recent_le (filter (\<lambda>ol. ol_series_id ol = sid) (recents boff bl))"
proof (cases "sid \<in> fst ` set bl")
  case True
  then obtain b where "b \<in> set bl" and sid: "sid = fst b" by auto
  then obtain xs ys where bl: "bl = xs @ b # ys" by (meson split_list)
  show ?thesis
    unfolding sid bl recents_filter [OF assms [unfolded bl]] by (rule sorted_sort_by [OF recent_le_total recent_le_trans])
next
  case False
  then have "filter (\<lambda>ol. ol_series_id ol = sid) (recents boff bl) = []"
    using recents_series [of _ boff bl] by (intro filter_False) blast
  then show ?thesis by simp
qed

lemma selection_newest_first:
  assumes ok: "segment_ok store sealed bl"
  shows "sorted_wrt entry_newer (query_selection (the_segment store sealed bl) q)"
proof -
  define boff where "boff = ly_blocks_offset (segment_layout bl)"
  have dist: "distinct (map fst bl)" using ok strict_sorted_iff [of "map fst bl"] by (simp add: segment_ok_def blocks_ok_def)
  have "query_selection (the_segment store sealed bl) q =
      filter (query_matches q) (map observation_entry_of (filter (\<lambda>ol. ol_series_id ol = sq_series_id q) (recents boff bl)))"
    by (auto simp: query_selection_def the_segment_fields boff_def filter_map comp_def query_matches_def observation_entry_of_def
        intro!: arg_cong [where f = "map _"] filter_cong)
  then show ?thesis
    using recents_newest_first [OF dist, of "sq_series_id q" boff]
    by (simp add: sorted_wrt_filter sorted_wrt_map entry_newer_of)
qed

section \<open>Uniqueness\<close>

lemma segment_source_unique:
  assumes ok: "segment_ok store sealed bl" "segment_ok store sealed' bl'" and eq: "the_segment store sealed bl = the_segment store sealed' bl'"
  shows "sealed = sealed' \<and> source_of store bl = source_of store bl'"
proof
  have "map Inr (map frame_of (merged bl)) = (map Inr (map frame_of (merged bl')) :: (SegmentV1Error, bytes) result list)"
    using segment_frames_kept [OF ok(1)] segment_frames_kept [OF ok(2)] unfolding eq by simp
  then have "map frame_of (merged bl) = map frame_of (merged bl')" by (simp only: inj_map_eq_map [OF inj_Inr])
  then show "source_of store bl = source_of store bl'" by (simp add: source_of_def frames_bytes_def)
  show "sealed = sealed'" using arg_cong [OF eq, of seg_inspection]
    by (cases sealed; cases sealed') (simp add: the_segment_def segment_value_def Let_def inspection_of_def)
qed

section \<open>Damage\<close>

interpretation segment: checksummed "\<lambda>bs. \<exists>seg. parse_segment_v1 bs store = Inr seg"
  by unfold_locales (auto simp: parse_segment_iff segment_bytes_def)

section \<open>The sample segment\<close>

definition sample_series :: SeriesId where
  "sample_series = dd_series_id (da_declaration sample_decoded)"

definition sample_blocks :: "block list" where
  "sample_blocks = [(sample_series, [sample_decoded])]"

definition sample_store :: StoreId where
  "sample_store = da_store_id sample_decoded"

definition sample_journal :: bytes where
  "sample_journal = source_of sample_store sample_blocks"

definition sample_sealed :: SealedGeneration where
  "sample_sealed = \<lparr>sealed_journal_generation = 1, sealed_sequence_floor = 4, sealed_sequence_cutoff = 5,
     sealed_end_offset = of_nat (length sample_journal), sealed_registry_generation = 1,
     sealed_artifact_length = of_nat (length sample_journal), sealed_artifact_checksum = crc32c sample_journal\<rparr>"

lemma sample_frame_ok: "frame_ok sample_store sample_series sample_decoded"
proof -
  have "revision_ok (dd_revision (da_declaration sample_decoded))"
    using sample_decoded_ok by (simp add: decoded_payload_ok_def decoded_declaration_ok_def)
  then have "validate_decoded sample_decoded = Inr ()" using sample_decoded_related by (simp add: validate_decoded_iff)
  moreover have "da_append_sequence sample_decoded \<noteq> 0" by (simp add: sample_decoded_def)
  ultimately show ?thesis
    using sample_decoded_ok sample_decoded_related
    by (simp add: frame_ok_def sample_store_def sample_series_def decoded_related_def Let_def payload_series_metadata_def)
qed

lemma sample_merged: "merged sample_blocks = [sample_decoded]"
  by (simp add: merged_def sample_blocks_def)

lemma sample_segment_ok: "segment_ok sample_store sample_sealed sample_blocks"
proof -
  have fr: "frame_ok sample_store sample_series sample_decoded" by (rule sample_frame_ok)
  have store: "identity_ok sample_store"
    by (simp add: sample_store_def sample_decoded_def sample_admission_def)
  have blk: "blocks_ok sample_store sample_blocks" using fr by (simp add: blocks_ok_def sample_blocks_def block_ok_def)
  have len: "length sample_journal = 28 + length (frame_of sample_decoded)"
    by (simp add: sample_journal_def length_source_of [OF store] sample_blocks_def)
  then have fit: "length sample_journal \<le> 536870912" using frame_length_bounds(2) [OF frame_ok_payload [OF fr]] by simp
  then have "unat (of_nat (length sample_journal) :: u64) = length sample_journal" by (simp add: unat_of_nat)
  moreover have "da_append_sequence sample_decoded = 5" by (simp add: sample_decoded_def)
  ultimately have "source_ok sample_store sample_sealed sample_blocks"
    by (simp add: source_ok_def sample_sealed_def sample_merged sample_journal_def [symmetric])
  then show ?thesis using store blk fit
    by (simp add: segment_ok_def sample_sealed_def sample_journal_def [symmetric]) (simp add: sample_blocks_def)
qed

lemma sample_builds: "build_segment_v1 sample_store sample_sealed sample_journal = Inr (prepared sample_store sample_sealed sample_blocks)"
  unfolding build_segment_iff sample_journal_def using sample_segment_ok by blast

lemma sample_parses:
  "parse_segment_v1 (segment_bytes sample_store sample_sealed sample_blocks) sample_store = Inr (the_segment sample_store sample_sealed sample_blocks)"
  unfolding parse_segment_iff using sample_segment_ok by blast

section \<open>Properties\<close>

text \<open>(C6) A segment built from a sealed journal parses under its store, with the inspection announced by the builder, and
  loses nothing: the journal is its header followed by the frames the append directory lists, in that order.\<close>
theorem segment_keeps_journal:
  assumes "build_segment_v1 store sealed source = Inr ps"
  shows "\<exists>seg frames. parse_segment_v1 (ps_bytes ps) store = Inr seg \<and> seg_inspection seg = ps_inspection ps \<and>
    map (segment_frame_bytes seg) (seg_appends seg) = map Inr frames \<and>
    source = header_encode \<lparr>header_store_id = store\<rparr> @ concat frames"
proof -
  obtain bl where ok: "segment_ok store sealed bl" and bl: "source = source_of store bl" "ps = prepared store sealed bl"
    using assms unfolding build_segment_iff by blast
  have "parse_segment_v1 (ps_bytes ps) store = Inr (the_segment store sealed bl)"
    unfolding parse_segment_iff using ok bl(2) by (auto simp: prepared_def)
  then show ?thesis
    using segment_frames_kept [OF ok] bl
    by (intro exI [of _ "the_segment store sealed bl"] exI [of _ "map frame_of (merged bl)"])
      (simp add: prepared_def source_of_def frames_bytes_def)
qed

text \<open>Witness: the segment of the sample admission.\<close>
theorem segment_keeps_journal_witness:
  "\<exists>seg. parse_segment_v1 (segment_bytes sample_store sample_sealed sample_blocks) sample_store = Inr seg \<and>
     seg_inspection seg = seg_inspection (the_segment sample_store sample_sealed sample_blocks)"
  using segment_keeps_journal [OF sample_builds] by (auto simp: prepared_def)

text \<open>(C4) The segment format is canonical: bytes parse exactly when the builder writes them for some sealed journal, and
  then the journal and its sealed generation are determined by the bytes.\<close>
theorem segment_bytes_canonical:
  "(\<exists>seg. parse_segment_v1 bs store = Inr seg) \<longleftrightarrow>
   (\<exists>!(sealed, source). \<exists>ps. build_segment_v1 store sealed source = Inr ps \<and> ps_bytes ps = bs)"
proof
  assume "\<exists>seg. parse_segment_v1 bs store = Inr seg"
  then obtain sealed bl where ok: "segment_ok store sealed bl" and bs: "bs = segment_bytes store sealed bl"
    unfolding parse_segment_iff by blast
  show "\<exists>!(sealed, source). \<exists>ps. build_segment_v1 store sealed source = Inr ps \<and> ps_bytes ps = bs"
  proof (rule ex1I [of _ "(sealed, source_of store bl)"])
    show "case (sealed, source_of store bl) of (sealed, source) \<Rightarrow> \<exists>ps. build_segment_v1 store sealed source = Inr ps \<and> ps_bytes ps = bs"
      using ok bs by (auto simp: build_segment_iff prepared_def)
    fix p assume "case p of (sealed, source) \<Rightarrow> \<exists>ps. build_segment_v1 store sealed source = Inr ps \<and> ps_bytes ps = bs"
    then obtain sealed' bl' where p: "p = (sealed', source_of store bl')" and ok': "segment_ok store sealed' bl'"
      and bs': "bs = segment_bytes store sealed' bl'"
      by (cases p) (auto simp: build_segment_iff prepared_def)
    have "parse_segment_v1 bs store = Inr (the_segment store sealed bl)" "parse_segment_v1 bs store = Inr (the_segment store sealed' bl')"
      using ok bs ok' bs' unfolding parse_segment_iff by blast+
    then have "the_segment store sealed bl = the_segment store sealed' bl'" by simp
    then show "p = (sealed, source_of store bl)" using segment_source_unique [OF ok ok'] p by simp
  qed
next
  assume "\<exists>!(sealed, source). \<exists>ps. build_segment_v1 store sealed source = Inr ps \<and> ps_bytes ps = bs"
  then obtain sealed source ps where "build_segment_v1 store sealed source = Inr ps" "ps_bytes ps = bs" by auto
  then show "\<exists>seg. parse_segment_v1 bs store = Inr seg" unfolding build_segment_iff parse_segment_iff by (fastforce simp: prepared_def)
qed

text \<open>(C35) The observation directory of a parsed segment is complete and exact: it lists every observation of every frame
  once, under its series, append sequence, position in the frame and order key, and nothing else.\<close>
theorem segment_index_exact:
  assumes "parse_segment_v1 bs store = Inr seg"
  shows "\<exists>ds. map (segment_decode_frame seg) (seg_appends seg) = map Inr ds \<and>
    mset (map entry_facts (seg_observations seg)) = mset (concat (map frame_facts ds))"
  using assms segment_frames_decode segment_index unfolding parse_segment_iff by blast

text \<open>Witness: the sample segment.\<close>
theorem segment_index_exact_witness:
  "\<exists>ds. map (segment_decode_frame (the_segment sample_store sample_sealed sample_blocks))
      (seg_appends (the_segment sample_store sample_sealed sample_blocks)) = map Inr ds \<and>
    mset (map entry_facts (seg_observations (the_segment sample_store sample_sealed sample_blocks))) = mset (concat (map frame_facts ds))"
  by (rule segment_index_exact [OF sample_parses])

text \<open>(C5) A query on a parsed segment always succeeds: it returns the first matching entries of the directory up to the
  limit, each with the admission its frame decodes to, says whether more match, and the matches are ordered newest first.\<close>
theorem segment_query_newest_first:
  assumes "parse_segment_v1 bs store = Inr seg"
  shows "\<exists>items. query_observations_v1 seg q = Inr (query_result q items (length (query_selection seg q) > sq_limit q)) \<and>
    list_all2 (item_resolves seg) (take (sq_limit q) (query_selection seg q)) items \<and>
    sorted_wrt entry_newer (query_selection seg q)"
proof -
  have "parsed_segment seg" using assms by (auto simp: parsed_segment_def)
  moreover have "sorted_wrt entry_newer (query_selection seg q)" using assms selection_newest_first unfolding parse_segment_iff by blast
  ultimately show ?thesis using parsed.query_selects [of seg q] by blast
qed

text \<open>Witness: the newest observation of the sample series.\<close>
theorem segment_query_newest_first_witness:
  "\<exists>items. query_observations_v1 (the_segment sample_store sample_sealed sample_blocks)
      \<lparr>sq_series_id = sample_series, sq_interval = None, sq_limit = 1\<rparr> =
    Inr (query_result \<lparr>sq_series_id = sample_series, sq_interval = None, sq_limit = 1\<rparr> items
      (length (query_selection (the_segment sample_store sample_sealed sample_blocks)
        \<lparr>sq_series_id = sample_series, sq_interval = None, sq_limit = 1\<rparr>) > 1))"
  using segment_query_newest_first [OF sample_parses, of "\<lparr>sq_series_id = sample_series, sq_interval = None, sq_limit = 1\<rparr>"] by auto

text \<open>A parsed segment damaged within any four consecutive bytes before its checksum is refused, and so is one whose
  checksum alone is changed.\<close>
theorem damaged_segment_refused:
  assumes "parse_segment_v1 (p @ u @ q @ t) store = Inr seg" "length t = 4" "length u \<le> 4"
    and "length v = length u" "length t' = 4" "v \<noteq> u" "t' \<noteq> t"
  shows "\<exists>e e'. parse_segment_v1 (p @ v @ q @ t) store = Inl e \<and> parse_segment_v1 (p @ u @ q @ t') store = Inl e'"
proof -
  have acc: "\<exists>seg. parse_segment_v1 (p @ u @ q @ t) store = Inr seg" using assms(1) by blast
  have "\<nexists>seg. parse_segment_v1 (p @ v @ q @ t) store = Inr seg"
    by (rule segment.burst_refused [OF acc assms(2,4,3,6)])
  moreover have "\<nexists>seg. parse_segment_v1 ((p @ u @ q) @ t') store = Inr seg"
    by (rule segment.trailer_refused [of "p @ u @ q" t]) (use acc assms in simp_all)
  ultimately show ?thesis by (metis append_assoc sumE)
qed

text \<open>Witness: the sample segment with its first byte, or its checksum, replaced.\<close>
theorem damaged_segment_refused_witness:
  "\<exists>rest e. segment_bytes sample_store sample_sealed sample_blocks = 0x4F # rest \<and> parse_segment_v1 (0 # rest) sample_store = Inl e"
proof -
  obtain c where c: "segment_body sample_store sample_sealed sample_blocks = 0x4F # c"
    by (simp add: segment_body_def Let_def segment_header_def SEGMENT_V1_MAGIC_def)
  define t where "t = be_encode 4 (unat (crc32c (segment_body sample_store sample_sealed sample_blocks)))"
  have bs: "segment_bytes sample_store sample_sealed sample_blocks = [] @ [0x4F] @ c @ t"
    by (simp add: segment_bytes_def seal_def c t_def)
  obtain t' where t': "length t' = 4" "t' \<noteq> t" by (metis Ex_list_of_length length_replicate replicate_eq_replicate zero_neq_one zero_neq_numeral)
  have t: "length t = 4" by (simp add: t_def)
  show ?thesis
    using damaged_segment_refused [OF sample_parses [unfolded bs] t _ _ t'(1) _ t'(2), of "[0]"] bs by auto
qed

end
