(* ===== verification/Och_Volume.thy ===== *)
theory Och_Volume
  imports Och_Prelude
begin

text \<open>
  The part of \<open>std::fs\<close> and \<open>std::io\<close> that the store uses, for the journal and the checkpoint of one generation: opening,
  reading, writing, resizing and synchronizing files, with the outcome of every call chosen by the environment.  A file has
  the bytes that reads see and the bytes that are known to survive a crash; only a successful synchronization makes them equal.
\<close>

section \<open>Errors and outcomes\<close>

text \<open>The kinds of \<open>std::io::ErrorKind\<close> that the code distinguishes; all others are numbered.\<close>

datatype ErrorKind = KindStorageFull | KindQuotaExceeded | KindNotFound | KindAlreadyExists | KindUnexpectedEof | KindOther nat

record IoError =
  ioe_kind :: ErrorKind
  ioe_raw_os_error :: "int option"

text \<open>What the environment does with one call: let it happen, or fail it; a failed write may have written some of its bytes.\<close>

datatype IoOutcome = IoDone | IoFail nat IoError

section \<open>Files\<close>

record FileNode =
  fn_data :: bytes
  fn_durable :: bytes
  fn_pos :: nat

datatype Artifact = JournalFile | CheckpointFile

text \<open>
  \<open>vol_slot_atomic\<close> says whether the device writes one checkpoint slot, a buffer well below its sector size, as a unit.
\<close>

record Volume =
  vol_is_directory :: bool
  vol_journal :: "FileNode option"
  vol_checkpoint :: "FileNode option"
  vol_locked :: bool
  vol_slot_atomic :: bool
  vol_outcomes :: "IoOutcome list"

type_synonym ('e, 'a) fs = "Volume \<Rightarrow> ('e, 'a) result \<times> Volume"

primrec vol_file :: "Artifact \<Rightarrow> Volume \<Rightarrow> FileNode option" where
  "vol_file JournalFile v = vol_journal v"
| "vol_file CheckpointFile v = vol_checkpoint v"

primrec vol_update :: "Artifact \<Rightarrow> FileNode \<Rightarrow> Volume \<Rightarrow> Volume" where
  "vol_update JournalFile f v = v\<lparr>vol_journal := Some f\<rparr>"
| "vol_update CheckpointFile f v = v\<lparr>vol_checkpoint := Some f\<rparr>"

text \<open>Bytes written at a position; a gap before the position reads as zeros.\<close>

definition splice :: "nat \<Rightarrow> bytes \<Rightarrow> bytes \<Rightarrow> bytes" where
  "splice pos bs d = take pos (d @ replicate (pos - length d) 0) @ bs @ drop (pos + length bs) d"

definition resize :: "nat \<Rightarrow> bytes \<Rightarrow> bytes" where
  "resize n d = take n d @ replicate (n - length d) 0"

section \<open>Sequencing\<close>

definition fs_return :: "'a \<Rightarrow> ('e, 'a) fs" where
  "fs_return x v = (Inr x, v)"

definition fs_fail :: "'e \<Rightarrow> ('e, 'a) fs" where
  "fs_fail e v = (Inl e, v)"

definition fs_lift :: "('e, 'a) result \<Rightarrow> ('e, 'a) fs" where
  "fs_lift r v = (r, v)"

definition fs_bind :: "('e, 'a) fs \<Rightarrow> ('a \<Rightarrow> ('e, 'b) fs) \<Rightarrow> ('e, 'b) fs" where
  "fs_bind m k v = (case m v of (Inl e, v') \<Rightarrow> (Inl e, v') | (Inr x, v') \<Rightarrow> k x v')"

definition fs_map_err :: "('e \<Rightarrow> 'f) \<Rightarrow> ('e, 'a) fs \<Rightarrow> ('f, 'a) fs" where
  "fs_map_err f m v = (case m v of (r, v') \<Rightarrow> (map_err f r, v'))"

section \<open>Calls\<close>

text \<open>The environment decides first; \<open>act\<close> runs when it lets the call happen, \<open>part\<close> says what a failed call leaves behind.\<close>

definition fs_call :: "(nat \<Rightarrow> Volume \<Rightarrow> Volume) \<Rightarrow> (IoError, 'a) fs \<Rightarrow> (IoError, 'a) fs" where
  "fs_call part act v =
     (case vol_outcomes v of
        [] \<Rightarrow> act v
      | IoDone # os \<Rightarrow> act (v\<lparr>vol_outcomes := os\<rparr>)
      | IoFail n e # os \<Rightarrow> (Inl e, part n (v\<lparr>vol_outcomes := os\<rparr>)))"

definition untouched :: "nat \<Rightarrow> Volume \<Rightarrow> Volume" where
  "untouched n v = v"

definition on_file :: "Artifact \<Rightarrow> (FileNode \<Rightarrow> (IoError, 'a) result \<times> FileNode) \<Rightarrow> (IoError, 'a) fs" where
  "on_file a f v =
     (case vol_file a v of
        None \<Rightarrow> (Inl \<lparr>ioe_kind = KindNotFound, ioe_raw_os_error = None\<rparr>, v)
      | Some n \<Rightarrow> (case f n of (r, n') \<Rightarrow> (r, vol_update a n' v)))"

definition fs_open :: "Artifact \<Rightarrow> (IoError, unit) fs" where
  "fs_open a = fs_call untouched (on_file a (\<lambda>f. (Inr (), f\<lparr>fn_pos := 0\<rparr>)))"

definition fs_create_new :: "Artifact \<Rightarrow> (IoError, unit) fs" where
  "fs_create_new a = fs_call untouched (\<lambda>v.
     case vol_file a v of
       Some _ \<Rightarrow> (Inl \<lparr>ioe_kind = KindAlreadyExists, ioe_raw_os_error = None\<rparr>, v)
     | None \<Rightarrow> (Inr (), vol_update a \<lparr>fn_data = [], fn_durable = [], fn_pos = 0\<rparr> v))"

definition fs_len :: "Artifact \<Rightarrow> (IoError, u64) fs" where
  "fs_len a = fs_call untouched (on_file a (\<lambda>f. (Inr (of_nat (length (fn_data f))), f)))"

definition fs_seek_start :: "Artifact \<Rightarrow> u64 \<Rightarrow> (IoError, unit) fs" where
  "fs_seek_start a offset = fs_call untouched (on_file a (\<lambda>f. (Inr (), f\<lparr>fn_pos := unat offset\<rparr>)))"

definition fs_seek_end :: "Artifact \<Rightarrow> (IoError, unit) fs" where
  "fs_seek_end a = fs_call untouched (on_file a (\<lambda>f. (Inr (), f\<lparr>fn_pos := length (fn_data f)\<rparr>)))"

definition fs_read_exact :: "Artifact \<Rightarrow> nat \<Rightarrow> (IoError, bytes) fs" where
  "fs_read_exact a n = fs_call untouched (on_file a (\<lambda>f.
     if fn_pos f + n \<le> length (fn_data f)
     then (Inr (slice (fn_pos f) (fn_pos f + n) (fn_data f)), f\<lparr>fn_pos := fn_pos f + n\<rparr>)
     else (Inl \<lparr>ioe_kind = KindUnexpectedEof, ioe_raw_os_error = None\<rparr>, f\<lparr>fn_pos := length (fn_data f)\<rparr>)))"

definition file_write :: "bytes \<Rightarrow> FileNode \<Rightarrow> FileNode" where
  "file_write bs f = f\<lparr>fn_data := splice (fn_pos f) bs (fn_data f), fn_pos := fn_pos f + length bs\<rparr>"

definition written :: "Artifact \<Rightarrow> nat \<Rightarrow> bytes \<Rightarrow> Volume \<Rightarrow> bytes" where
  "written a n bs v = (if a = CheckpointFile \<and> vol_slot_atomic v \<and> n < length bs then [] else take n bs)"

definition fs_write_all :: "Artifact \<Rightarrow> bytes \<Rightarrow> (IoError, unit) fs" where
  "fs_write_all a bs = fs_call
     (\<lambda>n v. case vol_file a v of None \<Rightarrow> v | Some f \<Rightarrow> vol_update a (file_write (written a n bs v) f) v)
     (on_file a (\<lambda>f. (Inr (), file_write bs f)))"

definition fs_set_len :: "Artifact \<Rightarrow> u64 \<Rightarrow> (IoError, unit) fs" where
  "fs_set_len a n = fs_call untouched (on_file a (\<lambda>f. (Inr (), f\<lparr>fn_data := resize (unat n) (fn_data f)\<rparr>)))"

definition fs_sync_all :: "Artifact \<Rightarrow> (IoError, unit) fs" where
  "fs_sync_all a = fs_call untouched (on_file a (\<lambda>f. (Inr (), f\<lparr>fn_durable := fn_data f\<rparr>)))"

definition fs_sync_directory :: "(IoError, unit) fs" where
  "fs_sync_directory = fs_call untouched (\<lambda>v. (Inr (), v))"

text \<open>\<open>File::try_lock\<close>: \<open>WouldBlock\<close> is a value of its own.\<close>

datatype TryLock = LockAcquired | LockWouldBlock

definition fs_try_lock :: "(IoError, TryLock) fs" where
  "fs_try_lock = fs_call untouched (\<lambda>v. (Inr (if vol_locked v then LockWouldBlock else LockAcquired), v))"

definition fs_directory_metadata :: "(IoError, bool) fs" where
  "fs_directory_metadata = fs_call untouched (\<lambda>v. (Inr (vol_is_directory v), v))"

section \<open>Rules\<close>

named_theorems fs_simps "how file-system programs run"

lemma fs_monad [fs_simps]:
  "fs_return x v = (Inr x, v)" "fs_fail e v = (Inl e, v)" "fs_lift r v = (r, v)"
  by (simp_all add: fs_return_def fs_fail_def fs_lift_def)

lemma fs_bind_Inr [fs_simps]: "m v = (Inr x, v') \<Longrightarrow> fs_bind m k v = k x v'"
  by (simp add: fs_bind_def)

lemma fs_bind_Inl [fs_simps]: "m v = (Inl e, v') \<Longrightarrow> fs_bind m k v = (Inl e, v')"
  by (simp add: fs_bind_def)

lemma fs_map_err_run [fs_simps]: "m v = (r, v') \<Longrightarrow> fs_map_err f m v = (map_err f r, v')"
  by (simp add: fs_map_err_def)

lemma fs_bind_laws:
  "fs_bind (fs_return x) k = k x" "fs_bind (fs_lift (Inr x)) k = k x" "fs_bind (fs_bind a b) h = fs_bind a (\<lambda>y. fs_bind (b y) h)"
  by (rule ext; auto simp: fs_simps fs_bind_def split: prod.splits sum.splits)+

lemma fs_bind_Inr_conv: "fs_bind m k v = (Inr y, w) \<longleftrightarrow> (\<exists>x v'. m v = (Inr x, v') \<and> k x v' = (Inr y, w))"
  by (auto simp: fs_bind_def split: prod.splits sum.splits)

lemma length_splice: "pos \<le> length d \<Longrightarrow> length (splice pos bs d) = max (length d) (pos + length bs)"
  by (auto simp: splice_def)

lemma splice_end [simp]: "splice (length d) bs d = d @ bs"
  by (simp add: splice_def)

end
