(* ===== verification/Och_Active.thy ===== *)
theory Och_Active
  imports Och_Volume Och_Segment Och_Rotation Och_Retry_State
begin

text \<open>
  The active journal (\<^verbatim>\<open>och-store/src/active.rs\<close>, with \<open>StoreWriteState\<close> of \<^verbatim>\<open>pressure.rs\<close>): configuration, the two-slot
  checkpoint, the scans of an existing journal, creating, opening, appending, synchronizing and recovering.  An operation on
  an open journal takes the handle and the volume and returns both; the environment decides which calls fail.  The volume
  holds the two files of the configured generation, so their names do not occur.
\<close>

section \<open>Errors and evidence\<close>

definition is_storage_pressure :: "ErrorKind \<Rightarrow> bool" where
  "is_storage_pressure kind \<longleftrightarrow> kind = KindStorageFull \<or> kind = KindQuotaExceeded"

datatype StoreWriteState = Writable | ReopenRequired | Faulted

datatype StoreIoOperation = OpOpenDirectory | OpCreateArtifact | OpOpenArtifact | OpLockJournal | OpRead | OpSeek | OpWrite
  | OpResize | OpTruncate | OpSyncJournal | OpSyncCheckpoint | OpSyncDirectory | OpMetadata

definition is_mutating :: "StoreIoOperation \<Rightarrow> bool" where
  "is_mutating op \<longleftrightarrow> op \<in> {OpCreateArtifact, OpWrite, OpResize, OpTruncate, OpSyncJournal, OpSyncCheckpoint, OpSyncDirectory}"

record StoreIoEvidence =
  sie_operation :: StoreIoOperation
  sie_kind :: ErrorKind
  sie_raw_os_error :: "int option"

datatype ActiveJournalError = AjInvalidOptions | AjAlreadyExists | AjAlreadyOpen | AjMissingArtifact | AjInvalidLayout
  | AjStoreMismatch | AjRotationRequired | AjFrameTooLarge | AjSequenceMismatch | AjFaulted | AjReopenRequired
  | AjJournal JournalV1Error | AjIo StoreIoEvidence | AjStoragePressure StoreIoEvidence

primrec active_error_display :: "ActiveJournalError \<Rightarrow> string" where
  "active_error_display AjInvalidOptions = ''invalid active journal options''"
| "active_error_display AjAlreadyExists = ''active journal artifacts already exist''"
| "active_error_display AjAlreadyOpen = ''active journal is already open''"
| "active_error_display AjMissingArtifact = ''active journal artifact is missing''"
| "active_error_display AjInvalidLayout = ''invalid active journal layout''"
| "active_error_display AjStoreMismatch = ''active journal store identity mismatch''"
| "active_error_display AjRotationRequired = ''active journal rotation is required''"
| "active_error_display AjFrameTooLarge = ''Journal V1 frame exceeds empty active generation capacity''"
| "active_error_display AjSequenceMismatch = ''active journal append sequence mismatch''"
| "active_error_display AjFaulted = ''active journal authority is faulted''"
| "active_error_display AjReopenRequired = ''active journal requires validated reopen''"
| "active_error_display (AjJournal _) = ''invalid Journal V1 evidence''"
| "active_error_display (AjIo _) = ''active journal I/O failed''"
| "active_error_display (AjStoragePressure _) = ''active journal storage pressure''"

definition classify_io :: "StoreIoOperation \<Rightarrow> ErrorKind \<Rightarrow> int option \<Rightarrow> ActiveJournalError" where
  "classify_io operation kind raw_os_error =
     (let evidence = \<lparr>sie_operation = operation, sie_kind = kind, sie_raw_os_error = raw_os_error\<rparr> in
      if is_mutating operation \<and> is_storage_pressure kind then AjStoragePressure evidence else AjIo evidence)"

definition io_error :: "StoreIoOperation \<Rightarrow> IoError \<Rightarrow> ActiveJournalError" where
  "io_error operation error = classify_io operation (ioe_kind error) (ioe_raw_os_error error)"

text \<open>The idiom \<open>call.map_err(|error| io_error(operation, error))?\<close>.\<close>

definition io :: "StoreIoOperation \<Rightarrow> (IoError, 'a) fs \<Rightarrow> (ActiveJournalError, 'a) fs" where
  "io operation = fs_map_err (io_error operation)"

section \<open>Configuration\<close>

definition MAX_STORE_DIRECTORY_BYTES :: nat where "MAX_STORE_DIRECTORY_BYTES = 4096"

datatype ActiveJournalOpenMode = CreateNew | OpenExisting

record ActiveJournalLimits =
  lim_payload :: nat
  lim_active_bytes :: u64
  lim_records :: nat

definition active_limits_new :: "nat \<Rightarrow> u64 \<Rightarrow> nat \<Rightarrow> (ActiveJournalError, ActiveJournalLimits) result" where
  "active_limits_new max_payload_len' max_active_bytes max_active_records =
     (if max_payload_len' > MAX_ADMISSION_PAYLOAD_V1 \<or> max_active_bytes < of_nat JOURNAL_V1_HEADER_LEN
         \<or> max_active_bytes > MAX_ACTIVE_JOURNAL_BYTES \<or> max_active_records > MAX_ACTIVE_JOURNAL_RECORDS
      then Inl AjInvalidOptions
      else Inr \<lparr>lim_payload = max_payload_len', lim_active_bytes = max_active_bytes, lim_records = max_active_records\<rparr>)"

datatype RecoveryPolicy = Converge | ManifestGenesis | Strict

record ActiveJournalConfig =
  cfg_directory :: bytes
  cfg_store_id :: StoreId
  cfg_mode :: ActiveJournalOpenMode
  cfg_limits :: ActiveJournalLimits
  cfg_recovery_policy :: RecoveryPolicy
  cfg_generation :: u64
  cfg_sequence_floor :: u64

definition active_config_new ::
  "bytes \<Rightarrow> StoreId \<Rightarrow> ActiveJournalOpenMode \<Rightarrow> ActiveJournalLimits \<Rightarrow> (ActiveJournalError, ActiveJournalConfig) result" where
  "active_config_new directory store_id mode limits =
     (if length directory = 0 \<or> length directory > MAX_STORE_DIRECTORY_BYTES then Inl AjInvalidOptions
      else Inr \<lparr>cfg_directory = directory, cfg_store_id = store_id, cfg_mode = mode, cfg_limits = limits,
        cfg_recovery_policy = Converge, cfg_generation = ACTIVE_JOURNAL_GENERATION, cfg_sequence_floor = 0\<rparr>)"

definition manifest_create :: "ActiveJournalConfig \<Rightarrow> ActiveJournalConfig" where
  "manifest_create self = self\<lparr>cfg_recovery_policy := Strict\<rparr>"

definition manifest_genesis :: "ActiveJournalConfig \<Rightarrow> ActiveJournalConfig" where
  "manifest_genesis self = self\<lparr>cfg_recovery_policy := ManifestGenesis\<rparr>"

definition manifest_existing :: "ActiveJournalConfig \<Rightarrow> ActiveJournalConfig" where
  "manifest_existing self = self\<lparr>cfg_recovery_policy := Strict\<rparr>"

definition manifest_generation :: "u64 \<Rightarrow> u64 \<Rightarrow> ActiveJournalConfig \<Rightarrow> (ActiveJournalError, ActiveJournalConfig) result" where
  "manifest_generation generation sequence_floor self =
     (if generation = 0 \<or> (generation = ACTIVE_JOURNAL_GENERATION \<and> sequence_floor \<noteq> 0) then Inl AjInvalidOptions
      else Inr (self\<lparr>cfg_generation := generation, cfg_sequence_floor := sequence_floor\<rparr>))"

section \<open>State\<close>

record RecoveredAdmissionV1 =
  rec_end_offset :: u64
  rec_admission :: DecodedAdmissionV1

definition recovered_retry :: "RecoveredAdmissionV1 \<Rightarrow> RetryQualification" where
  "recovered_retry self = da_retry (rec_admission self)"

record CheckpointState =
  cp_slot_generation :: u64
  cp_append_sequence :: u64
  cp_end_offset :: u64

record ActiveJournal =
  aj_identity :: JournalIdentity
  aj_limits :: ActiveJournalLimits
  aj_checkpoint_state :: CheckpointState
  aj_active_bytes :: u64
  aj_records :: "RecoveredAdmissionV1 list"
  aj_sync_count :: u64
  aj_write_state :: StoreWriteState

record ActiveJournalInspection =
  aji_journal :: JournalIdentity
  aji_active_bytes :: u64
  aji_active_records :: nat
  aji_last_append_sequence :: u64
  aji_durable_cutoff :: DurableCutoff
  aji_sync_count :: u64
  aji_write_state :: StoreWriteState

record ActiveRecoveryPlan =
  arp_identity :: JournalIdentity
  arp_cutoff :: DurableCutoff
  arp_original_length :: u64
  arp_classification :: RecoveryClassification

datatype ManifestRootOpenError = RootMismatch | RootActive ActiveJournalError

definition into_active :: "ManifestRootOpenError \<Rightarrow> ActiveJournalError" where
  "into_active e = (case e of RootMismatch \<Rightarrow> AjInvalidLayout | RootActive error \<Rightarrow> error)"

record ScanResult =
  sr_records :: "RecoveredAdmissionV1 list"
  sr_valid_end :: u64
  sr_truncate_to :: "u64 option"
  sr_recovery_plan :: "ActiveRecoveryPlan option"

section \<open>Checkpoint slots\<close>

definition CHECKPOINT_MAGIC :: bytes where
  "CHECKPOINT_MAGIC = [0x4F, 0x43, 0x48, 0x43, 0x50, 0x30, 0x30, 0x31]"
definition CHECKPOINT_VERSION :: u16 where "CHECKPOINT_VERSION = 1"
definition CHECKPOINT_SLOT_LEN :: nat where "CHECKPOINT_SLOT_LEN = 64"
definition CHECKPOINT_SLOT_LEN_U16 :: u16 where "CHECKPOINT_SLOT_LEN_U16 = 64"
definition CHECKPOINT_FILE_LEN :: nat where "CHECKPOINT_FILE_LEN = CHECKPOINT_SLOT_LEN * 2"

lemmas checkpoint_consts = CHECKPOINT_MAGIC_def CHECKPOINT_VERSION_def CHECKPOINT_SLOT_LEN_def CHECKPOINT_SLOT_LEN_U16_def
  CHECKPOINT_FILE_LEN_def

definition genesis_checkpoint_state :: "u64 \<Rightarrow> CheckpointState" where
  "genesis_checkpoint_state sequence_floor =
     \<lparr>cp_slot_generation = 1, cp_append_sequence = sequence_floor, cp_end_offset = of_nat JOURNAL_V1_HEADER_LEN\<rparr>"

definition encode_checkpoint :: "JournalIdentity \<Rightarrow> CheckpointState \<Rightarrow> bytes" where
  "encode_checkpoint identity state =
     (let b0 = replicate CHECKPOINT_SLOT_LEN 0;
          b1 = write_at 0 CHECKPOINT_MAGIC b0;
          b2 = write_at 8 (be_encode 2 (unat CHECKPOINT_VERSION)) b1;
          b3 = write_at 10 (be_encode 2 (unat CHECKPOINT_SLOT_LEN_U16)) b2;
          b4 = write_at 12 (id_bytes (ji_store_id identity)) b3;
          b5 = write_at 28 (be_encode 8 (unat (ji_generation identity))) b4;
          b6 = write_at 36 (be_encode 8 (unat (cp_slot_generation state))) b5;
          b7 = write_at 44 (be_encode 8 (unat (cp_append_sequence state))) b6;
          b8 = write_at 52 (be_encode 8 (unat (cp_end_offset state))) b7;
          checksum = crc32c (slice 0 60 b8) in
      write_at 60 (be_encode 4 (unat checksum)) b8)"

record PreparedCheckpointSlot =
  pcs_bytes :: bytes
  pcs_offset :: u64

definition prepare_checkpoint_slot ::
  "JournalIdentity \<Rightarrow> CheckpointState \<Rightarrow> (ActiveJournalError, PreparedCheckpointSlot) result" where
  "prepare_checkpoint_slot identity state =
     (let index = unat ((cp_slot_generation state - 1) mod 2) in
      Inr \<lparr>pcs_bytes = encode_checkpoint identity state, pcs_offset = of_nat (index * CHECKPOINT_SLOT_LEN)\<rparr>)"

definition write_prepared_checkpoint_slot :: "PreparedCheckpointSlot \<Rightarrow> (ActiveJournalError, unit) fs" where
  "write_prepared_checkpoint_slot prepared =
     fs_bind (io OpSeek (fs_seek_start CheckpointFile (pcs_offset prepared))) (\<lambda>_.
       io OpWrite (fs_write_all CheckpointFile (pcs_bytes prepared)))"

definition initialize_prepared_checkpoint :: "PreparedCheckpointSlot \<Rightarrow> (ActiveJournalError, unit) fs" where
  "initialize_prepared_checkpoint prepared =
     fs_bind (io OpResize (fs_set_len CheckpointFile (of_nat CHECKPOINT_FILE_LEN))) (\<lambda>_.
     fs_bind (write_prepared_checkpoint_slot prepared) (\<lambda>_.
     fs_bind (io OpSyncCheckpoint (fs_sync_all CheckpointFile)) (\<lambda>_.
     fs_bind (io OpSyncDirectory fs_sync_directory) (\<lambda>_. fs_return ()))))"

definition initialize_checkpoint :: "JournalIdentity \<Rightarrow> u64 \<Rightarrow> (ActiveJournalError, CheckpointState) fs" where
  "initialize_checkpoint identity sequence_floor =
     (let state = genesis_checkpoint_state sequence_floor in
      fs_bind (fs_lift (prepare_checkpoint_slot identity state)) (\<lambda>prepared.
      fs_bind (initialize_prepared_checkpoint prepared) (\<lambda>_. fs_return state)))"

datatype SlotDecode = SlotZero | SlotValid CheckpointState | SlotInvalidNonzero

definition slot_scope_refused :: "nat \<Rightarrow> JournalIdentity \<Rightarrow> u64 \<Rightarrow> u64 \<Rightarrow> bytes \<Rightarrow> CheckpointState \<Rightarrow> bool" where
  "slot_scope_refused slot_index identity sequence_floor journal_len bs state \<longleftrightarrow>
     identity_from_bytes (slice 12 28 bs) \<noteq> Inr (ji_store_id identity)
     \<or> read_u64 28 bs \<noteq> ji_generation identity
     \<or> cp_slot_generation state = 0
     \<or> unat ((cp_slot_generation state - 1) mod 2) \<noteq> slot_index
     \<or> cp_end_offset state < of_nat JOURNAL_V1_HEADER_LEN
     \<or> cp_end_offset state > journal_len
     \<or> (cp_append_sequence state = sequence_floor) \<noteq> (cp_end_offset state = of_nat JOURNAL_V1_HEADER_LEN)"

definition decode_checkpoint_slot :: "bytes \<Rightarrow> nat \<Rightarrow> JournalIdentity \<Rightarrow> u64 \<Rightarrow> u64 \<Rightarrow> SlotDecode" where
  "decode_checkpoint_slot bs slot_index identity sequence_floor journal_len =
     (if list_all (\<lambda>b. b = 0) bs then SlotZero
      else if length bs \<noteq> CHECKPOINT_SLOT_LEN \<or> slice 0 8 bs \<noteq> CHECKPOINT_MAGIC \<or> read_u16 8 bs \<noteq> CHECKPOINT_VERSION
         \<or> read_u16 10 bs \<noteq> CHECKPOINT_SLOT_LEN_U16 \<or> crc32c (slice 0 60 bs) \<noteq> read_u32 60 bs
      then SlotInvalidNonzero
      else
        let state = \<lparr>cp_slot_generation = read_u64 36 bs, cp_append_sequence = read_u64 44 bs, cp_end_offset = read_u64 52 bs\<rparr> in
        if slot_scope_refused slot_index identity sequence_floor journal_len bs state then SlotInvalidNonzero
        else SlotValid state)"

definition select_checkpoint :: "SlotDecode \<Rightarrow> SlotDecode \<Rightarrow> (ActiveJournalError, CheckpointState option) result" where
  "select_checkpoint first second =
     (case (first, second) of
        (SlotZero, SlotZero) \<Rightarrow> Inr None
      | (SlotInvalidNonzero, _) \<Rightarrow> Inl AjInvalidLayout
      | (_, SlotInvalidNonzero) \<Rightarrow> Inl AjInvalidLayout
      | (SlotValid state, SlotZero) \<Rightarrow> if cp_slot_generation state = 1 then Inr (Some state) else Inl AjInvalidLayout
      | (SlotZero, SlotValid state) \<Rightarrow> if cp_slot_generation state = 1 then Inr (Some state) else Inl AjInvalidLayout
      | (SlotValid a, SlotValid b) \<Rightarrow>
          let (older, newer) = (if cp_slot_generation a < cp_slot_generation b then (a, b) else (b, a)) in
          if cp_slot_generation newer \<noteq> cp_slot_generation older + 1
             \<or> cp_append_sequence newer \<le> cp_append_sequence older \<or> cp_end_offset newer \<le> cp_end_offset older
          then Inl AjInvalidLayout else Inr (Some newer))"

definition read_checkpoint :: "JournalIdentity \<Rightarrow> u64 \<Rightarrow> u64 \<Rightarrow> (ActiveJournalError, CheckpointState option) fs" where
  "read_checkpoint identity sequence_floor journal_len =
     fs_bind (io OpRead (fs_read_exact CheckpointFile CHECKPOINT_FILE_LEN)) (\<lambda>bs.
       fs_lift (select_checkpoint
         (decode_checkpoint_slot (slice 0 CHECKPOINT_SLOT_LEN bs) 0 identity sequence_floor journal_len)
         (decode_checkpoint_slot (slice CHECKPOINT_SLOT_LEN CHECKPOINT_FILE_LEN bs) 1 identity sequence_floor journal_len)))"

definition durable_cutoff_from_state :: "JournalIdentity \<Rightarrow> CheckpointState \<Rightarrow> DurableCutoff" where
  "durable_cutoff_from_state identity state =
     \<lparr>cut_journal = identity, cut_checkpoint_generation = cp_slot_generation state,
      cut_append_sequence = cp_append_sequence state, cut_end_offset = cp_end_offset state\<rparr>"

section \<open>Scanning an existing journal\<close>

record JournalScan =
  js_records :: "RecoveredAdmissionV1 list"
  js_offset :: u64
  js_previous :: "AppendSequenceV1 option"

definition scan_floor :: "u64 \<Rightarrow> (ActiveJournalError, AppendSequenceV1 option) result" where
  "scan_floor sequence_floor =
     (if sequence_floor = 0 then Inr None else map_ok Some (map_err AjJournal (append_sequence_new sequence_floor)))"

definition scan_limits :: "ActiveJournalLimits \<Rightarrow> (ActiveJournalError, DecodeLimitsV1) result" where
  "scan_limits limits = map_err AjJournal (decode_limits_new (lim_payload limits))"

text \<open>A decoded frame joins the records.\<close>

definition scan_accept ::
  "JournalIdentity \<Rightarrow> u64 \<Rightarrow> DecodedAdmissionV1 \<Rightarrow> JournalScan \<Rightarrow> (ActiveJournalError, JournalScan) result" where
  "scan_accept identity stop decoded s =
     (if da_store_id decoded \<noteq> ji_store_id identity \<or> dd_store_id (da_declaration decoded) \<noteq> ji_store_id identity
      then Inl AjStoreMismatch
      else and_then (map_err AjJournal (append_sequence_new (da_append_sequence decoded))) (\<lambda>previous.
        Inr \<lparr>js_records = js_records s @ [\<lparr>rec_end_offset = stop, rec_admission = decoded\<rparr>], js_offset = stop,
          js_previous = Some previous\<rparr>))"

text \<open>One turn of the loop of \<open>scan_journal\<close>: \<open>Inl\<close> is the offset to truncate to.\<close>

definition scan_journal_frame ::
  "JournalIdentity \<Rightarrow> ActiveJournalLimits \<Rightarrow> CheckpointState \<Rightarrow> u64 \<Rightarrow> JournalScan \<Rightarrow> (ActiveJournalError, u64 + JournalScan) fs" where
  "scan_journal_frame identity limits checkpoint journal_len s =
     (let offset = js_offset s; remaining' = journal_len - offset in
      fs_bind (io OpSeek (fs_seek_start JournalFile offset)) (\<lambda>_.
      if remaining' < of_nat JOURNAL_V1_FRAME_PREFIX_LEN
      then if offset < cp_end_offset checkpoint then fs_fail AjInvalidLayout else fs_return (Inl offset)
      else
        fs_bind (io OpRead (fs_read_exact JournalFile JOURNAL_V1_FRAME_PREFIX_LEN)) (\<lambda>prefix_bytes.
        fs_bind (fs_lift (scan_limits limits)) (\<lambda>decode_limits.
        case frame_len_from_prefix_v1 prefix_bytes decode_limits of
          Inl _ \<Rightarrow>
            if offset \<ge> cp_end_offset checkpoint \<and> remaining' = of_nat JOURNAL_V1_FRAME_PREFIX_LEN
            then fs_return (Inl offset) else fs_fail AjInvalidLayout
        | Inr frame_len \<Rightarrow>
            fs_bind (fs_lift (ok_or AjInvalidLayout (checked_add offset (of_nat frame_len)))) (\<lambda>stop.
            if stop > journal_len
            then if offset < cp_end_offset checkpoint then fs_fail AjInvalidLayout else fs_return (Inl offset)
            else if offset < cp_end_offset checkpoint \<and> stop > cp_end_offset checkpoint then fs_fail AjInvalidLayout
            else
              fs_bind (io OpRead (fs_read_exact JournalFile (frame_len - JOURNAL_V1_FRAME_PREFIX_LEN))) (\<lambda>rest.
              case decode_admission_frame_v1 (prefix_bytes @ rest) decode_limits (js_previous s) of
                Inl _ \<Rightarrow>
                  if offset \<ge> cp_end_offset checkpoint \<and> stop = journal_len
                  then fs_return (Inl offset) else fs_fail AjInvalidLayout
              | Inr decoded \<Rightarrow>
                  fs_bind (fs_lift (scan_accept identity stop decoded s)) (\<lambda>s'. fs_return (Inr s'))))))))"

text \<open>The loop; \<open>budget\<close> is \<open>record_limit - records.len()\<close>.\<close>

fun scan_journal_frames ::
  "JournalIdentity \<Rightarrow> ActiveJournalLimits \<Rightarrow> CheckpointState \<Rightarrow> u64 \<Rightarrow> nat \<Rightarrow> JournalScan \<Rightarrow>
   (ActiveJournalError, JournalScan \<times> u64 option) fs" where
  "scan_journal_frames identity limits checkpoint journal_len budget s =
     (if \<not> js_offset s < journal_len then fs_return (s, None)
      else case budget of
        0 \<Rightarrow> fs_fail AjInvalidLayout
      | Suc n \<Rightarrow> fs_bind (scan_journal_frame identity limits checkpoint journal_len s) (\<lambda>r.
          case r of Inl offset \<Rightarrow> fs_return (s, Some offset)
          | Inr s' \<Rightarrow> scan_journal_frames identity limits checkpoint journal_len n s'))"

declare scan_journal_frames.simps [simp del]

definition prefix_sequence :: "u64 \<Rightarrow> CheckpointState \<Rightarrow> RecoveredAdmissionV1 list \<Rightarrow> u64" where
  "prefix_sequence sequence_floor checkpoint records =
     (case find (\<lambda>r. rec_end_offset r = cp_end_offset checkpoint) records of
        None \<Rightarrow> sequence_floor | Some r \<Rightarrow> da_append_sequence (rec_admission r))"

definition scan_journal ::
  "JournalIdentity \<Rightarrow> ActiveJournalLimits \<Rightarrow> CheckpointState \<Rightarrow> u64 \<Rightarrow> u64 \<Rightarrow> (ActiveJournalError, ScanResult) fs" where
  "scan_journal identity limits checkpoint sequence_floor journal_len =
     fs_bind (fs_lift (scan_floor sequence_floor)) (\<lambda>previous.
     fs_bind (scan_journal_frames identity limits checkpoint journal_len (lim_records limits)
         \<lparr>js_records = [], js_offset = of_nat JOURNAL_V1_HEADER_LEN, js_previous = previous\<rparr>) (\<lambda>(s, truncate_to).
     if cp_end_offset checkpoint > js_offset s
        \<or> (cp_end_offset checkpoint = of_nat JOURNAL_V1_HEADER_LEN \<and> cp_append_sequence checkpoint \<noteq> sequence_floor)
     then fs_fail AjInvalidLayout
     else if cp_append_sequence checkpoint \<noteq> prefix_sequence sequence_floor checkpoint (js_records s) then fs_fail AjInvalidLayout
     else fs_return \<lparr>sr_records = js_records s, sr_valid_end = js_offset s, sr_truncate_to = truncate_to, sr_recovery_plan = None\<rparr>))"

text \<open>One turn of the loop of \<open>scan_manifest_root\<close>.\<close>

definition scan_root_frame ::
  "JournalIdentity \<Rightarrow> ActiveJournalLimits \<Rightarrow> u64 \<Rightarrow> JournalScan \<Rightarrow> (ActiveJournalError, JournalScan) fs" where
  "scan_root_frame identity limits root_end s =
     (let offset = js_offset s in
      if root_end - offset < of_nat JOURNAL_V1_FRAME_PREFIX_LEN then fs_fail AjInvalidLayout
      else
        fs_bind (io OpSeek (fs_seek_start JournalFile offset)) (\<lambda>_.
        fs_bind (io OpRead (fs_read_exact JournalFile JOURNAL_V1_FRAME_PREFIX_LEN)) (\<lambda>prefix_bytes.
        fs_bind (fs_lift (scan_limits limits)) (\<lambda>decode_limits.
        fs_bind (fs_lift (map_err (\<lambda>_. AjInvalidLayout) (frame_len_from_prefix_v1 prefix_bytes decode_limits))) (\<lambda>frame_len.
        fs_bind (fs_lift (ok_or AjInvalidLayout (checked_add offset (of_nat frame_len)))) (\<lambda>stop.
        if stop > root_end then fs_fail AjInvalidLayout
        else
          fs_bind (io OpRead (fs_read_exact JournalFile (frame_len - JOURNAL_V1_FRAME_PREFIX_LEN))) (\<lambda>rest.
          fs_bind (fs_lift (map_err (\<lambda>_. AjInvalidLayout)
              (decode_admission_frame_v1 (prefix_bytes @ rest) decode_limits (js_previous s)))) (\<lambda>decoded.
          fs_lift (scan_accept identity stop decoded s)))))))))"

fun scan_root_frames ::
  "JournalIdentity \<Rightarrow> ActiveJournalLimits \<Rightarrow> u64 \<Rightarrow> nat \<Rightarrow> JournalScan \<Rightarrow> (ActiveJournalError, JournalScan) fs" where
  "scan_root_frames identity limits root_end budget s =
     (if \<not> js_offset s < root_end then fs_return s
      else case budget of
        0 \<Rightarrow> fs_fail AjInvalidLayout
      | Suc n \<Rightarrow> fs_bind (scan_root_frame identity limits root_end s) (scan_root_frames identity limits root_end n))"

declare scan_root_frames.simps [simp del]

text \<open>The bytes a torn prefix of the next frame must start with.\<close>

definition required_prefix :: "u64 \<Rightarrow> bytes" where
  "required_prefix expected_sequence =
     JOURNAL_V1_FRAME_MAGIC @ be_encode 2 (unat JOURNAL_V1_VERSION) @ [1, 0] @ be_encode 8 (unat expected_sequence)"

definition classify_short_suffix ::
  "u64 \<Rightarrow> u64 \<Rightarrow> u64 \<Rightarrow> (ActiveJournalError, RecoveryClassification) fs" where
  "classify_short_suffix root_end suffix_length expected_sequence =
     fs_bind (io OpSeek (fs_seek_start JournalFile root_end)) (\<lambda>_.
     let suffix_len = unat suffix_length in
     fs_bind (io OpRead (fs_read_exact JournalFile suffix_len)) (\<lambda>suffix_bytes.
     let required = required_prefix expected_sequence; required_len = min suffix_len (length required) in
     if take required_len suffix_bytes \<noteq> take required_len required then fs_fail AjInvalidLayout
     else fs_return ShortFramePrefix))"

definition classify_framed_suffix ::
  "JournalIdentity \<Rightarrow> ActiveJournalLimits \<Rightarrow> u64 \<Rightarrow> u64 \<Rightarrow> u64 \<Rightarrow> u64 \<Rightarrow> AppendSequenceV1 option \<Rightarrow>
   (ActiveJournalError, RecoveryClassification) fs" where
  "classify_framed_suffix identity limits root_end journal_len suffix_length expected_sequence previous =
     fs_bind (io OpSeek (fs_seek_start JournalFile root_end)) (\<lambda>_.
     fs_bind (io OpRead (fs_read_exact JournalFile JOURNAL_V1_FRAME_PREFIX_LEN)) (\<lambda>prefix_bytes.
     if read_u64 8 prefix_bytes \<noteq> expected_sequence then fs_fail AjSequenceMismatch
     else
       fs_bind (fs_lift (scan_limits limits)) (\<lambda>decode_limits.
       case frame_len_from_prefix_v1 prefix_bytes decode_limits of
         Inl _ \<Rightarrow> if suffix_length = of_nat JOURNAL_V1_FRAME_PREFIX_LEN then fs_return InvalidFramePrefix else fs_fail AjInvalidLayout
       | Inr frame_len \<Rightarrow>
           fs_bind (fs_lift (ok_or AjInvalidLayout (checked_add root_end (of_nat frame_len)))) (\<lambda>stop.
           if stop > journal_len then fs_return TruncatedDeclaredFrame
           else if stop < journal_len then fs_fail AjInvalidLayout
           else
             fs_bind (io OpRead (fs_read_exact JournalFile (frame_len - JOURNAL_V1_FRAME_PREFIX_LEN))) (\<lambda>rest.
             case decode_admission_frame_v1 (prefix_bytes @ rest) decode_limits previous of
               Inr decoded \<Rightarrow>
                 if da_store_id decoded \<noteq> ji_store_id identity \<or> dd_store_id (da_declaration decoded) \<noteq> ji_store_id identity
                 then fs_fail AjStoreMismatch else fs_fail AjInvalidLayout
             | Inl _ \<Rightarrow> fs_return InvalidCompleteFrame)))))"

definition scan_manifest_root ::
  "JournalIdentity \<Rightarrow> ActiveJournalLimits \<Rightarrow> CheckpointState \<Rightarrow> u64 \<Rightarrow> u64 \<Rightarrow> DurableCutoff \<Rightarrow> (ActiveJournalError, ScanResult) fs" where
  "scan_manifest_root identity limits checkpoint sequence_floor journal_len root =
     (let root_end = cut_end_offset root in
      fs_bind (fs_lift (scan_floor sequence_floor)) (\<lambda>previous.
      fs_bind (scan_root_frames identity limits root_end (lim_records limits)
          \<lparr>js_records = [], js_offset = of_nat JOURNAL_V1_HEADER_LEN, js_previous = previous\<rparr>) (\<lambda>s.
      let last_sequence = (if js_records s = [] then sequence_floor else da_append_sequence (rec_admission (last (js_records s)))) in
      if js_offset s \<noteq> root_end \<or> cp_append_sequence checkpoint \<noteq> last_sequence \<or> cut_append_sequence root \<noteq> last_sequence
         \<or> cut_checkpoint_generation root \<noteq> cp_slot_generation checkpoint \<or> journal_len < root_end
      then fs_fail AjInvalidLayout
      else if journal_len = root_end
      then fs_return \<lparr>sr_records = js_records s, sr_valid_end = js_offset s, sr_truncate_to = None, sr_recovery_plan = None\<rparr>
      else
        let suffix_length = journal_len - root_end in
        fs_bind (fs_lift (ok_or AjInvalidLayout (checked_add last_sequence 1))) (\<lambda>expected_sequence.
        fs_bind (if suffix_length < of_nat JOURNAL_V1_FRAME_PREFIX_LEN
            then classify_short_suffix root_end suffix_length expected_sequence
            else classify_framed_suffix identity limits root_end journal_len suffix_length expected_sequence (js_previous s))
          (\<lambda>classification.
          fs_return \<lparr>sr_records = js_records s, sr_valid_end = js_offset s, sr_truncate_to = None,
            sr_recovery_plan = Some \<lparr>arp_identity = identity, arp_cutoff = root, arp_original_length = journal_len,
              arp_classification = classification\<rparr>\<rparr>)))))"

section \<open>Opening\<close>

definition open_directory :: "(ActiveJournalError, unit) fs" where
  "open_directory =
     fs_bind (io OpOpenDirectory fs_directory_metadata) (\<lambda>is_dir.
     if \<not> is_dir then fs_fail AjInvalidLayout else io OpOpenDirectory (fs_call untouched (fs_return ())))"

definition create_artifact :: "Artifact \<Rightarrow> (ActiveJournalError, unit) fs" where
  "create_artifact a = fs_map_err (\<lambda>e. if ioe_kind e = KindAlreadyExists then AjAlreadyExists else io_error OpCreateArtifact e)
     (fs_create_new a)"

definition open_artifact :: "Artifact \<Rightarrow> (ActiveJournalError, unit) fs" where
  "open_artifact a = fs_map_err (\<lambda>e. if ioe_kind e = KindNotFound then AjMissingArtifact else io_error OpOpenArtifact e) (fs_open a)"

definition lock_journal :: "(ActiveJournalError, unit) fs" where
  "lock_journal = fs_bind (io OpLockJournal fs_try_lock) (\<lambda>r.
     case r of LockAcquired \<Rightarrow> fs_return () | LockWouldBlock \<Rightarrow> fs_fail AjAlreadyOpen)"

definition create_new :: "JournalIdentity \<Rightarrow> u64 \<Rightarrow> ActiveJournalLimits \<Rightarrow> (ActiveJournalError, ActiveJournal) fs" where
  "create_new identity sequence_floor limits =
     (let checkpoint_state = genesis_checkpoint_state sequence_floor in
      fs_bind (fs_lift (prepare_checkpoint_slot identity checkpoint_state)) (\<lambda>checkpoint_slot.
      let header_bytes = header_encode \<lparr>header_store_id = ji_store_id identity\<rparr> in
      fs_bind (create_artifact JournalFile) (\<lambda>_.
      fs_bind lock_journal (\<lambda>_.
      fs_bind (io OpWrite (fs_write_all JournalFile header_bytes)) (\<lambda>_.
      fs_bind (io OpSyncJournal (fs_sync_all JournalFile)) (\<lambda>_.
      fs_bind (create_artifact CheckpointFile) (\<lambda>_.
      fs_bind (initialize_prepared_checkpoint checkpoint_slot) (\<lambda>_.
        fs_return \<lparr>aj_identity = identity, aj_limits = limits, aj_checkpoint_state = checkpoint_state,
          aj_active_bytes = of_nat JOURNAL_V1_HEADER_LEN, aj_records = [], aj_sync_count = 0, aj_write_state = Writable\<rparr>))))))))"

text \<open>The first part of \<open>open_existing\<close>: the journal, its lock, length and header.\<close>

definition open_journal :: "JournalIdentity \<Rightarrow> ActiveJournalLimits \<Rightarrow> RecoveryPolicy \<Rightarrow> (ActiveJournalError, u64) fs" where
  "open_journal identity limits recovery_policy =
     fs_bind (open_artifact JournalFile) (\<lambda>_.
     fs_bind lock_journal (\<lambda>_.
     fs_bind (io OpMetadata (fs_len JournalFile)) (\<lambda>journal_len.
     if journal_len < of_nat JOURNAL_V1_HEADER_LEN \<or> journal_len > lim_active_bytes limits then fs_fail AjInvalidLayout
     else if recovery_policy = ManifestGenesis \<and> journal_len \<noteq> of_nat JOURNAL_V1_HEADER_LEN then fs_fail AjInvalidLayout
     else
       fs_bind (io OpRead (fs_read_exact JournalFile JOURNAL_V1_HEADER_LEN)) (\<lambda>header_bytes.
       fs_bind (fs_lift (map_err AjJournal (header_decode header_bytes))) (\<lambda>header.
       if header_store_id header \<noteq> ji_store_id identity then fs_fail AjStoreMismatch
       else fs_return journal_len)))))"

text \<open>Its second part: the checkpoint file, created when it is missing beside an empty journal.\<close>

definition open_checkpoint_file ::
  "JournalIdentity \<Rightarrow> u64 \<Rightarrow> RecoveryPolicy \<Rightarrow> u64 \<Rightarrow> (ActiveJournalError, CheckpointState option) fs" where
  "open_checkpoint_file identity sequence_floor recovery_policy journal_len v =
     (case open_artifact CheckpointFile v of
        (Inr _, v') \<Rightarrow> (Inr None, v')
      | (Inl e, v') \<Rightarrow>
          if e = AjMissingArtifact \<and> recovery_policy \<noteq> Strict \<and> journal_len = of_nat JOURNAL_V1_HEADER_LEN
          then fs_bind (create_artifact CheckpointFile) (\<lambda>_.
            fs_bind (initialize_checkpoint identity sequence_floor) (\<lambda>state. fs_return (Some state))) v'
          else (Inl e, v'))"

definition load_checkpoint ::
  "JournalIdentity \<Rightarrow> u64 \<Rightarrow> RecoveryPolicy \<Rightarrow> u64 \<Rightarrow> (ActiveJournalError, CheckpointState option) fs" where
  "load_checkpoint identity sequence_floor recovery_policy journal_len =
     fs_bind (open_checkpoint_file identity sequence_floor recovery_policy journal_len) (\<lambda>initialized_state.
     fs_bind (io OpMetadata (fs_len CheckpointFile)) (\<lambda>checkpoint_len.
     fs_bind
       (if checkpoint_len = 0 \<and> recovery_policy \<noteq> Strict \<and> journal_len = of_nat JOURNAL_V1_HEADER_LEN
        then (case initialized_state of
            None \<Rightarrow> fs_bind (initialize_checkpoint identity sequence_floor) (\<lambda>state. fs_return (Some state))
          | Some state \<Rightarrow> fs_return (Some state))
        else if checkpoint_len \<noteq> of_nat CHECKPOINT_FILE_LEN then fs_fail AjInvalidLayout
        else fs_return initialized_state) (\<lambda>initialized_state.
     case initialized_state of
       Some state \<Rightarrow> fs_return (Some state)
     | None \<Rightarrow> read_checkpoint identity sequence_floor journal_len)))"

definition open_checkpoint ::
  "JournalIdentity \<Rightarrow> u64 \<Rightarrow> RecoveryPolicy \<Rightarrow> DurableCutoff option \<Rightarrow> u64 \<Rightarrow> (ActiveJournalError, CheckpointState) fs" where
  "open_checkpoint identity sequence_floor recovery_policy expected_root journal_len =
     fs_bind (load_checkpoint identity sequence_floor recovery_policy journal_len) (\<lambda>checkpoint_state.
     if recovery_policy = ManifestGenesis \<and> checkpoint_state \<noteq> Some (genesis_checkpoint_state sequence_floor)
     then fs_fail AjInvalidLayout
     else case checkpoint_state of
       Some state \<Rightarrow> fs_return state
     | None \<Rightarrow>
         if expected_root \<noteq> None \<or> journal_len \<noteq> of_nat JOURNAL_V1_HEADER_LEN then fs_fail AjInvalidLayout
         else initialize_checkpoint identity sequence_floor)"

text \<open>Its last part: truncation of a proven suffix, adoption of recovered records, and the synchronizations.\<close>

definition adopt_scan ::
  "JournalIdentity \<Rightarrow> u64 \<Rightarrow> bool \<Rightarrow> CheckpointState \<Rightarrow> ScanResult \<Rightarrow> (ActiveJournalError, CheckpointState) fs" where
  "adopt_scan identity sequence_floor rooted checkpoint_state scan =
     (let active_bytes = sr_valid_end scan;
          last_sequence = (if sr_records scan = [] then sequence_floor else da_append_sequence (rec_admission (last (sr_records scan)))) in
      fs_bind
        (if \<not> rooted \<and> active_bytes > cp_end_offset checkpoint_state
         then fs_bind (fs_lift (ok_or AjInvalidLayout (checked_add (cp_slot_generation checkpoint_state) 1))) (\<lambda>slot_generation.
           let next' = \<lparr>cp_slot_generation = slot_generation, cp_append_sequence = last_sequence, cp_end_offset = active_bytes\<rparr> in
           fs_bind (fs_lift (prepare_checkpoint_slot identity next')) (\<lambda>prepared. fs_return (Some (next', prepared))))
         else fs_return None) (\<lambda>adoption_checkpoint.
      fs_bind
        (case (rooted, sr_truncate_to scan) of
           (False, Some truncate_to) \<Rightarrow>
             fs_bind (io OpTruncate (fs_set_len JournalFile truncate_to)) (\<lambda>_. io OpSyncJournal (fs_sync_all JournalFile))
         | _ \<Rightarrow> fs_return ()) (\<lambda>_.
      if rooted then fs_return checkpoint_state
      else case adoption_checkpoint of
        Some (next', prepared) \<Rightarrow>
          fs_bind (io OpSyncJournal (fs_sync_all JournalFile)) (\<lambda>_.
          fs_bind (write_prepared_checkpoint_slot prepared) (\<lambda>_.
          fs_bind (io OpSyncCheckpoint (fs_sync_all CheckpointFile)) (\<lambda>_. fs_return next')))
      | None \<Rightarrow> fs_bind (io OpSyncCheckpoint (fs_sync_all CheckpointFile)) (\<lambda>_. fs_return checkpoint_state))))"

definition open_existing ::
  "JournalIdentity \<Rightarrow> u64 \<Rightarrow> ActiveJournalLimits \<Rightarrow> RecoveryPolicy \<Rightarrow> DurableCutoff option \<Rightarrow>
   (ManifestRootOpenError, ActiveJournal \<times> ActiveRecoveryPlan option) fs" where
  "open_existing identity sequence_floor limits recovery_policy expected_root =
     fs_bind (fs_map_err RootActive (open_journal identity limits recovery_policy)) (\<lambda>journal_len.
     fs_bind (fs_map_err RootActive (open_checkpoint identity sequence_floor recovery_policy expected_root journal_len)) (\<lambda>checkpoint_state.
     if is_some_and (\<lambda>root. root \<noteq> durable_cutoff_from_state identity checkpoint_state) expected_root then fs_fail RootMismatch
     else
       fs_bind (fs_map_err RootActive
           (case expected_root of
              Some root \<Rightarrow> scan_manifest_root identity limits checkpoint_state sequence_floor journal_len root
            | None \<Rightarrow> scan_journal identity limits checkpoint_state sequence_floor journal_len)) (\<lambda>scan.
       if recovery_policy = Strict \<and> (sr_truncate_to scan \<noteq> None \<or> sr_valid_end scan \<noteq> cp_end_offset checkpoint_state)
       then fs_fail (RootActive AjInvalidLayout)
       else
         fs_bind (fs_map_err RootActive (adopt_scan identity sequence_floor (expected_root \<noteq> None) checkpoint_state scan)) (\<lambda>checkpoint.
           fs_return (\<lparr>aj_identity = identity, aj_limits = limits, aj_checkpoint_state = checkpoint,
             aj_active_bytes = sr_valid_end scan, aj_records = sr_records scan, aj_sync_count = 0, aj_write_state = Writable\<rparr>,
             sr_recovery_plan scan)))))"

definition active_open :: "ActiveJournalConfig \<Rightarrow> (ActiveJournalError, ActiveJournal) fs" where
  "active_open config =
     (let identity = \<lparr>ji_store_id = cfg_store_id config, ji_generation = cfg_generation config\<rparr> in
      fs_bind open_directory (\<lambda>_.
      case cfg_mode config of
        CreateNew \<Rightarrow> create_new identity (cfg_sequence_floor config) (cfg_limits config)
      | OpenExisting \<Rightarrow>
          fs_map_err into_active
            (fs_bind (open_existing identity (cfg_sequence_floor config) (cfg_limits config) (cfg_recovery_policy config) None)
              (\<lambda>(journal, _). fs_return journal))))"

definition open_manifest_root ::
  "ActiveJournalConfig \<Rightarrow> DurableCutoff \<Rightarrow> (ManifestRootOpenError, ActiveJournal \<times> ActiveRecoveryPlan option) fs" where
  "open_manifest_root config root =
     (if cfg_mode config \<noteq> OpenExisting \<or> cfg_recovery_policy config \<noteq> Strict
         \<or> ji_store_id (cut_journal root) \<noteq> cfg_store_id config \<or> ji_generation (cut_journal root) \<noteq> cfg_generation config
      then fs_fail (RootActive AjInvalidOptions)
      else fs_bind (fs_map_err RootActive open_directory) (\<lambda>_.
        open_existing \<lparr>ji_store_id = cfg_store_id config, ji_generation = cfg_generation config\<rparr>
          (cfg_sequence_floor config) (cfg_limits config) (cfg_recovery_policy config) (Some root)))"

text \<open>\<open>preflight_manifest_genesis\<close> reads both files and changes neither.\<close>

definition preflight_manifest_genesis :: "StoreId \<Rightarrow> (ActiveJournalError, unit) fs" where
  "preflight_manifest_genesis store_id =
     (let identity = \<lparr>ji_store_id = store_id, ji_generation = ACTIVE_JOURNAL_GENERATION\<rparr> in
      fs_bind (open_artifact JournalFile) (\<lambda>_.
      fs_bind (io OpMetadata (fs_len JournalFile)) (\<lambda>journal_len.
      if journal_len \<noteq> of_nat JOURNAL_V1_HEADER_LEN then fs_fail AjInvalidLayout
      else
        fs_bind (io OpRead (fs_read_exact JournalFile JOURNAL_V1_HEADER_LEN)) (\<lambda>header_bytes.
        fs_bind (fs_lift (map_err AjJournal (header_decode header_bytes))) (\<lambda>header.
        if header_store_id header \<noteq> store_id then fs_fail AjStoreMismatch
        else (\<lambda>v. case open_artifact CheckpointFile v of
            (Inl e, v') \<Rightarrow> if e = AjMissingArtifact then (Inr (), v') else (Inl e, v')
          | (Inr _, v') \<Rightarrow>
              fs_bind (io OpMetadata (fs_len CheckpointFile)) (\<lambda>checkpoint_len.
              if checkpoint_len = 0 then fs_return ()
              else if checkpoint_len \<noteq> of_nat CHECKPOINT_FILE_LEN then fs_fail AjInvalidLayout
              else fs_bind (io OpRead (fs_read_exact CheckpointFile CHECKPOINT_FILE_LEN)) (\<lambda>bs.
                if slice 0 CHECKPOINT_SLOT_LEN bs \<noteq> encode_checkpoint identity (genesis_checkpoint_state 0)
                   \<or> list_ex (\<lambda>b. b \<noteq> 0) (slice CHECKPOINT_SLOT_LEN CHECKPOINT_FILE_LEN bs)
                then fs_fail AjInvalidLayout else fs_return ())) v'))))))"

section \<open>Operations on an open journal\<close>

definition ensure_usable :: "ActiveJournal \<Rightarrow> (ActiveJournalError, unit) result" where
  "ensure_usable self = (case aj_write_state self of
     Writable \<Rightarrow> Inr () | ReopenRequired \<Rightarrow> Inl AjReopenRequired | Faulted \<Rightarrow> Inl AjFaulted)"

definition record_mutation_error :: "ActiveJournalError \<Rightarrow> ActiveJournal \<Rightarrow> ActiveJournal" where
  "record_mutation_error error self =
     self\<lparr>aj_write_state := (case error of AjStoragePressure _ \<Rightarrow> ReopenRequired | _ \<Rightarrow> Faulted)\<rparr>"

definition active_durable_cutoff :: "ActiveJournal \<Rightarrow> DurableCutoff" where
  "active_durable_cutoff self = \<lparr>cut_journal = aj_identity self,
     cut_checkpoint_generation = cp_slot_generation (aj_checkpoint_state self),
     cut_append_sequence = cp_append_sequence (aj_checkpoint_state self), cut_end_offset = cp_end_offset (aj_checkpoint_state self)\<rparr>"

definition last_append_sequence :: "ActiveJournal \<Rightarrow> u64" where
  "last_append_sequence self = (if aj_records self = [] then cp_append_sequence (aj_checkpoint_state self)
     else da_append_sequence (rec_admission (last (aj_records self))))"

definition active_inspection :: "ActiveJournal \<Rightarrow> ActiveJournalInspection" where
  "active_inspection self = \<lparr>aji_journal = aj_identity self, aji_active_bytes = aj_active_bytes self,
     aji_active_records = length (aj_records self), aji_last_append_sequence = last_append_sequence self,
     aji_durable_cutoff = active_durable_cutoff self, aji_sync_count = aj_sync_count self, aji_write_state = aj_write_state self\<rparr>"

definition next_append_sequence :: "ActiveJournal \<Rightarrow> (ActiveJournalError, AppendSequenceV1) result" where
  "next_append_sequence self =
     and_then (ensure_usable self) (\<lambda>_.
     and_then (ok_or AjSequenceMismatch (checked_add (last_append_sequence self) 1)) (\<lambda>next'.
       map_err AjJournal (append_sequence_new next')))"

definition can_fit :: "nat \<Rightarrow> ActiveJournal \<Rightarrow> bool" where
  "can_fit frame_len self \<longleftrightarrow> length (aj_records self) < lim_records (aj_limits self)
     \<and> is_some_and (\<lambda>stop. stop \<le> lim_active_bytes (aj_limits self)) (checked_add (aj_active_bytes self) (of_nat frame_len))"

text \<open>Everything \<open>append\<close> checks before it touches the file.\<close>

definition append_checks :: "PreparedFrameV1 \<Rightarrow> ActiveJournal \<Rightarrow> (ActiveJournalError, DecodedAdmissionV1 \<times> u64) result" where
  "append_checks frame self =
     and_then (ensure_usable self) (\<lambda>_.
     and_then (next_append_sequence self) (\<lambda>next'.
     if pf_append_sequence frame \<noteq> next' then Inl AjSequenceMismatch
     else
       and_then (if aj_records self = [] then Inr None
           else map_ok Some (map_err AjJournal (append_sequence_new (da_append_sequence (rec_admission (last (aj_records self))))))) (\<lambda>previous.
       and_then (map_err AjJournal (decode_limits_new (lim_payload (aj_limits self)))) (\<lambda>limits.
       and_then (map_err AjJournal (decode_admission_frame_v1 (pf_bytes frame) limits previous)) (\<lambda>decoded.
       if da_store_id decoded \<noteq> ji_store_id (aj_identity self) \<or> dd_store_id (da_declaration decoded) \<noteq> ji_store_id (aj_identity self)
          \<or> adm_store_id (pf_admission frame) \<noteq> ji_store_id (aj_identity self)
          \<or> decl_store_id (adm_declaration (pf_admission frame)) \<noteq> ji_store_id (aj_identity self)
       then Inl AjStoreMismatch
       else
         and_then (ok_or AjRotationRequired (checked_add (aj_active_bytes self) (of_nat (length (pf_bytes frame))))) (\<lambda>end_offset.
         if end_offset > lim_active_bytes (aj_limits self) \<or> length (aj_records self) \<ge> lim_records (aj_limits self)
         then Inl AjRotationRequired
         else Inr (decoded, end_offset)))))))"

definition active_append ::
  "PreparedFrameV1 \<Rightarrow> ActiveJournal \<Rightarrow> Volume \<Rightarrow> (ActiveJournalError, u64) result \<times> ActiveJournal \<times> Volume" where
  "active_append frame self v =
     (case append_checks frame self of
        Inl e \<Rightarrow> (Inl e, self, v)
      | Inr (decoded, end_offset) \<Rightarrow>
          (case io OpSeek (fs_seek_end JournalFile) v of
             (Inl e, v1) \<Rightarrow> (Inl e, self, v1)
           | (Inr _, v1) \<Rightarrow>
               (case io OpWrite (fs_write_all JournalFile (pf_bytes frame)) v1 of
                  (Inl e, v2) \<Rightarrow> (Inl e, record_mutation_error e self, v2)
                | (Inr _, v2) \<Rightarrow>
                    (Inr end_offset,
                     self\<lparr>aj_active_bytes := end_offset,
                          aj_records := aj_records self @ [\<lparr>rec_end_offset = end_offset, rec_admission = decoded\<rparr>]\<rparr>, v2))))"

definition pending_checkpoint_state :: "u64 \<Rightarrow> ActiveJournal \<Rightarrow> (ActiveJournalError, CheckpointState) result" where
  "pending_checkpoint_state last_sequence self =
     and_then (ok_or AjInvalidLayout (checked_add (cp_slot_generation (aj_checkpoint_state self)) 1)) (\<lambda>slot_generation.
       Inr \<lparr>cp_slot_generation = slot_generation, cp_append_sequence = last_sequence, cp_end_offset = aj_active_bytes self\<rparr>)"

definition nothing_pending :: "ActiveJournal \<Rightarrow> bool" where
  "nothing_pending self \<longleftrightarrow> last_append_sequence self = cp_append_sequence (aj_checkpoint_state self)
     \<and> aj_active_bytes self = cp_end_offset (aj_checkpoint_state self)"

definition pending_durable_cutoff :: "ActiveJournal \<Rightarrow> (ActiveJournalError, DurableCutoff) result" where
  "pending_durable_cutoff self =
     and_then (ensure_usable self) (\<lambda>_.
     if nothing_pending self then Inr (active_durable_cutoff self)
     else and_then (pending_checkpoint_state (last_append_sequence self) self) (\<lambda>next'.
       and_then (prepare_checkpoint_slot (aj_identity self) next') (\<lambda>_.
         Inr (durable_cutoff_from_state (aj_identity self) next'))))"

text \<open>The three boundaries of \<open>sync_pending\<close>: journal content, checkpoint slot, checkpoint content.\<close>

definition sync_boundaries :: "PreparedCheckpointSlot \<Rightarrow> (ActiveJournalError, unit) fs" where
  "sync_boundaries checkpoint =
     fs_bind (io OpSyncJournal (fs_sync_all JournalFile)) (\<lambda>_.
     fs_bind (write_prepared_checkpoint_slot checkpoint) (\<lambda>_.
       io OpSyncCheckpoint (fs_sync_all CheckpointFile)))"

definition sync_pending :: "ActiveJournal \<Rightarrow> Volume \<Rightarrow> (ActiveJournalError, DurableCutoff) result \<times> ActiveJournal \<times> Volume" where
  "sync_pending self v =
     (case and_then (ensure_usable self) (\<lambda>_.
         if nothing_pending self then Inr None
         else and_then (pending_checkpoint_state (last_append_sequence self) self) (\<lambda>next'.
           and_then (prepare_checkpoint_slot (aj_identity self) next') (\<lambda>checkpoint. Inr (Some (next', checkpoint))))) of
        Inl e \<Rightarrow> (Inl e, self, v)
      | Inr None \<Rightarrow> (Inr (active_durable_cutoff self), self, v)
      | Inr (Some (next', checkpoint)) \<Rightarrow>
          (case sync_boundaries checkpoint v of
             (Inl e, v') \<Rightarrow> (Inl e, record_mutation_error e self, v')
           | (Inr _, v') \<Rightarrow>
               let self' = self\<lparr>aj_checkpoint_state := next', aj_sync_count := u64_saturating_add (aj_sync_count self) 1\<rparr> in
               (Inr (active_durable_cutoff self'), self', v')))"

definition apply_recovery ::
  "ActiveRecoveryPlan \<Rightarrow> ActiveJournal \<Rightarrow> Volume \<Rightarrow> (ActiveJournalError, unit) result \<times> ActiveJournal \<times> Volume" where
  "apply_recovery plan self v =
     (case ensure_usable self of
        Inl e \<Rightarrow> (Inl e, self, v)
      | Inr _ \<Rightarrow>
          (case io OpMetadata (fs_len JournalFile) v of
             (Inl e, v1) \<Rightarrow> (Inl e, self, v1)
           | (Inr actual_length, v1) \<Rightarrow>
               if arp_identity plan \<noteq> aj_identity self \<or> arp_cutoff plan \<noteq> active_durable_cutoff self
                  \<or> arp_original_length plan \<noteq> actual_length \<or> aj_active_bytes self \<noteq> cut_end_offset (arp_cutoff plan)
                  \<or> arp_original_length plan \<le> aj_active_bytes self
               then (Inl AjInvalidLayout, self, v1)
               else
                 (case io OpTruncate (fs_set_len JournalFile (aj_active_bytes self)) v1 of
                    (Inl e, v2) \<Rightarrow> (Inl e, record_mutation_error e self, v2)
                  | (Inr _, v2) \<Rightarrow>
                      (case io OpSyncJournal (fs_sync_all JournalFile) v2 of
                         (Inl e, v3) \<Rightarrow> (Inl e, record_mutation_error e self, v3)
                       | (Inr _, v3) \<Rightarrow> (Inr (), self, v3)))))"

definition synchronize_recovery_cutoff ::
  "DurableCutoff \<Rightarrow> ActiveJournal \<Rightarrow> Volume \<Rightarrow> (ActiveJournalError, unit) result \<times> ActiveJournal \<times> Volume" where
  "synchronize_recovery_cutoff cutoff self v =
     (case ensure_usable self of
        Inl e \<Rightarrow> (Inl e, self, v)
      | Inr _ \<Rightarrow>
          (case io OpMetadata (fs_len JournalFile) v of
             (Inl e, v1) \<Rightarrow> (Inl e, self, v1)
           | (Inr actual_length, v1) \<Rightarrow>
               if cutoff \<noteq> active_durable_cutoff self \<or> aj_active_bytes self \<noteq> cut_end_offset cutoff
                  \<or> actual_length \<noteq> cut_end_offset cutoff
               then (Inl AjInvalidLayout, self, v1)
               else
                 (case io OpSyncJournal (fs_sync_all JournalFile) v1 of
                    (Inl e, v2) \<Rightarrow> (Inl e, record_mutation_error e self, v2)
                  | (Inr _, v2) \<Rightarrow> (Inr (), self, v2))))"

end
