(* ===== verification/Och_Active_Checkpoint.thy ===== *)
theory Och_Active_Checkpoint
  imports Och_Active Och_Segment_Build
begin

text \<open>
  The checkpoint file: a slot decodes exactly when it is the encoding of an admissible state, and the two slots select the
  newer of two consecutive states.
\<close>

section \<open>One slot\<close>

definition checkpoint_body :: "JournalIdentity \<Rightarrow> CheckpointState \<Rightarrow> bytes" where
  "checkpoint_body identity st = CHECKPOINT_MAGIC @ be_encode 2 1 @ be_encode 2 64 @ id_bytes (ji_store_id identity) @
     be_encode 8 (unat (ji_generation identity)) @ be_encode 8 (unat (cp_slot_generation st)) @
     be_encode 8 (unat (cp_append_sequence st)) @ be_encode 8 (unat (cp_end_offset st))"

lemma length_magic [simp]: "length CHECKPOINT_MAGIC = 8"
  by (simp add: CHECKPOINT_MAGIC_def)

lemma length_checkpoint_body: "identity_ok (ji_store_id identity) \<Longrightarrow> length (checkpoint_body identity st) = 60"
  by (simp add: checkpoint_body_def id_length)

lemma encode_checkpoint_seal:
  assumes "identity_ok (ji_store_id identity)"
  shows "encode_checkpoint identity st = seal (checkpoint_body identity st)"
proof -
  have "write_at 52 (be_encode 8 (unat (cp_end_offset st))) (write_at 44 (be_encode 8 (unat (cp_append_sequence st)))
      (write_at 36 (be_encode 8 (unat (cp_slot_generation st))) (write_at 28 (be_encode 8 (unat (ji_generation identity)))
      (write_at 12 (id_bytes (ji_store_id identity)) (write_at 10 (be_encode 2 64) (write_at 8 (be_encode 2 1)
      (write_at 0 CHECKPOINT_MAGIC (pad 64 [])))))))) = pad 64 (checkpoint_body identity st)"
    using id_length [OF assms] by (simp add: pad_write checkpoint_body_def)
  then show ?thesis
    using length_checkpoint_body [OF assms, of st] pad_slice [of "checkpoint_body identity st" 0 60 64]
    by (simp add: encode_checkpoint_def Let_def CHECKPOINT_SLOT_LEN_def CHECKPOINT_VERSION_def CHECKPOINT_SLOT_LEN_U16_def
        pad_empty [of 64] pad_write pad_full seal_def)
qed

lemma length_encode_checkpoint: "identity_ok (ji_store_id identity) \<Longrightarrow> length (encode_checkpoint identity st) = 64"
  by (simp add: encode_checkpoint_seal length_checkpoint_body)

lemma encode_checkpoint_nonzero: "identity_ok (ji_store_id identity) \<Longrightarrow> \<not> list_all (\<lambda>b. b = 0) (encode_checkpoint identity st)"
  by (simp add: encode_checkpoint_seal seal_def checkpoint_body_def CHECKPOINT_MAGIC_def)

definition slot_ok :: "nat \<Rightarrow> u64 \<Rightarrow> u64 \<Rightarrow> CheckpointState \<Rightarrow> bool" where
  "slot_ok index floor' len st \<longleftrightarrow> cp_slot_generation st \<noteq> 0 \<and> unat ((cp_slot_generation st - 1) mod 2) = index \<and>
     28 \<le> cp_end_offset st \<and> cp_end_offset st \<le> len \<and> (cp_append_sequence st = floor' \<longleftrightarrow> cp_end_offset st = 28)"

lemma checkpoint_body_split:
  assumes "length bs = 60" "identity_ok (ji_store_id identity)"
  shows "bs = checkpoint_body identity st \<longleftrightarrow> slice 0 8 bs = CHECKPOINT_MAGIC \<and> slice 8 10 bs = be_encode 2 1 \<and>
     slice 10 12 bs = be_encode 2 64 \<and> slice 12 28 bs = id_bytes (ji_store_id identity) \<and>
     slice 28 36 bs = be_encode 8 (unat (ji_generation identity)) \<and> slice 36 44 bs = be_encode 8 (unat (cp_slot_generation st)) \<and>
     slice 44 52 bs = be_encode 8 (unat (cp_append_sequence st)) \<and> slice 52 60 bs = be_encode 8 (unat (cp_end_offset st))"
  unfolding checkpoint_body_def using assms id_length [OF assms(2)]
  by (subst head_split) (simp_all add: drop_split drop_slice [OF assms(1), of 52])

lemma decode_checkpoint_slot_iff:
  assumes id: "identity_ok (ji_store_id identity)"
  shows "decode_checkpoint_slot bs index identity floor' len = SlotValid st \<longleftrightarrow>
     bs = encode_checkpoint identity st \<and> slot_ok index floor' len st"
proof (cases "length bs = 64")
  case len64: True
  define body where "body = slice 0 60 bs"
  have lb: "length body = 60" using len64 by (simp add: body_def)
  have sl: "slice i j bs = slice i j body" if "j \<le> 60" for i j using that by (simp add: body_def slice_of_prefix)
  have crc: "crc32c body = read_u32 60 bs \<longleftrightarrow> bs = seal body"
  proof -
    define t where "t = slice 60 64 bs"
    have bs: "bs = body @ t" using len64 slice_join [of 0 60 64 bs] by (simp add: body_def t_def slice_full)
    have "read_u32 60 bs = crc32c body \<longleftrightarrow> t = be_encode 4 (unat (crc32c body))"
      using read_fields(2) [of 60 bs "crc32c body"] len64 by (simp add: t_def)
    also have "\<dots> \<longleftrightarrow> bs = seal body" unfolding bs by (simp add: seal_def)
    finally show ?thesis by auto
  qed
  have fields: "read_u16 8 bs = 1 \<longleftrightarrow> slice 8 10 body = be_encode 2 1" "read_u16 10 bs = 64 \<longleftrightarrow> slice 10 12 body = be_encode 2 64"
    "read_u64 28 bs = ji_generation identity \<longleftrightarrow> slice 28 36 body = be_encode 8 (unat (ji_generation identity))"
    "read_u64 36 bs = cp_slot_generation st \<longleftrightarrow> slice 36 44 body = be_encode 8 (unat (cp_slot_generation st))"
    "read_u64 44 bs = cp_append_sequence st \<longleftrightarrow> slice 44 52 body = be_encode 8 (unat (cp_append_sequence st))"
    "read_u64 52 bs = cp_end_offset st \<longleftrightarrow> slice 52 60 body = be_encode 8 (unat (cp_end_offset st))"
    using len64 read_fields(3) [of 8 bs 1] read_fields(3) [of 10 bs 64] read_fields(1) [of 28 bs] read_fields(1) [of 36 bs]
      read_fields(1) [of 44 bs] read_fields(1) [of 52 bs] by (simp_all add: sl)
  have ident: "identity_from_bytes (slice 12 28 bs) = Inr (ji_store_id identity) \<longleftrightarrow> slice 12 28 body = id_bytes (ji_store_id identity)"
    using id lb by (auto simp: sl identity_from_bytes_iff)
  have stv: "\<lparr>cp_slot_generation = read_u64 36 bs, cp_append_sequence = read_u64 44 bs, cp_end_offset = read_u64 52 bs\<rparr> = st \<longleftrightarrow>
      slice 36 44 body = be_encode 8 (unat (cp_slot_generation st)) \<and> slice 44 52 body = be_encode 8 (unat (cp_append_sequence st)) \<and>
      slice 52 60 body = be_encode 8 (unat (cp_end_offset st))"
    unfolding fields(4,5,6) [symmetric] by (cases st) auto
  have enc: "bs = encode_checkpoint identity st \<longleftrightarrow> bs = seal body \<and> body = checkpoint_body identity st"
    unfolding encode_checkpoint_seal [OF id] using length_checkpoint_body [OF id, of st] lb
    by (metis body_def slice_def take_seal diff_zero drop0)
  have nz: "\<not> list_all (\<lambda>b. b = 0) bs" if "bs = encode_checkpoint identity st" using encode_checkpoint_nonzero [OF id] that by simp
  have "decode_checkpoint_slot bs index identity floor' len = SlotValid st \<longleftrightarrow> \<not> list_all (\<lambda>b. b = 0) bs \<and>
      slice 0 8 body = CHECKPOINT_MAGIC \<and> slice 8 10 body = be_encode 2 1 \<and> slice 10 12 body = be_encode 2 64 \<and> bs = seal body \<and>
      \<lparr>cp_slot_generation = read_u64 36 bs, cp_append_sequence = read_u64 44 bs, cp_end_offset = read_u64 52 bs\<rparr> = st \<and>
      slice 12 28 body = id_bytes (ji_store_id identity) \<and> slice 28 36 body = be_encode 8 (unat (ji_generation identity)) \<and>
      slot_ok index floor' len st"
    unfolding fields(1,2,3) [symmetric] ident [symmetric] crc [symmetric]
    by (auto simp: decode_checkpoint_slot_def Let_def checkpoint_consts(2-4) len64 sl body_def [symmetric] slot_scope_refused_def slot_ok_def
        JOURNAL_V1_HEADER_LEN_def not_less split: if_splits)
  also have "\<dots> \<longleftrightarrow> \<not> list_all (\<lambda>b. b = 0) bs \<and> bs = encode_checkpoint identity st \<and> slot_ok index floor' len st"
    unfolding stv enc checkpoint_body_split [OF lb id] by blast
  also have "\<dots> \<longleftrightarrow> bs = encode_checkpoint identity st \<and> slot_ok index floor' len st" using nz by blast
  finally show ?thesis .
next
  case False
  then show ?thesis
    using length_encode_checkpoint [OF id, of st] by (auto simp: decode_checkpoint_slot_def CHECKPOINT_SLOT_LEN_def Let_def)
qed

lemma decode_zero_slot: "decode_checkpoint_slot (replicate 64 0) index identity floor' len = SlotZero"
  by (simp add: decode_checkpoint_slot_def list_all_iff)

section \<open>Two slots\<close>

definition slot_index :: "CheckpointState \<Rightarrow> nat" where
  "slot_index st = unat ((cp_slot_generation st - 1) mod 2)"

text \<open>The file with a state in its own slot and \<open>other\<close> in the other one.\<close>

definition checkpoint_file :: "JournalIdentity \<Rightarrow> CheckpointState \<Rightarrow> bytes \<Rightarrow> bytes" where
  "checkpoint_file identity st other =
     (if slot_index st = 0 then encode_checkpoint identity st @ other else other @ encode_checkpoint identity st)"

text \<open>One state follows another: the next slot generation, more records, more bytes.\<close>

definition state_follows :: "CheckpointState \<Rightarrow> CheckpointState \<Rightarrow> bool" where
  "state_follows st st' \<longleftrightarrow> unat (cp_slot_generation st') = unat (cp_slot_generation st) + 1 \<and>
     cp_append_sequence st < cp_append_sequence st' \<and> cp_end_offset st < cp_end_offset st'"

definition other_slot :: "JournalIdentity \<Rightarrow> u64 \<Rightarrow> u64 \<Rightarrow> CheckpointState \<Rightarrow> bytes \<Rightarrow> bool" where
  "other_slot identity floor' len st other \<longleftrightarrow>
     (if cp_slot_generation st = 1 then other = replicate 64 0
      else \<exists>older. other = encode_checkpoint identity older \<and> slot_ok (slot_index older) floor' len older \<and> state_follows older st)"

lemma slot_index_cases: "slot_index st = 0 \<or> slot_index st = 1"
proof -
  have "unat ((cp_slot_generation st - 1) mod 2) < 2" by (simp add: unat_mod)
  then show ?thesis by (auto simp: slot_index_def)
qed

lemma slot_index_follows:
  assumes "state_follows st st'" "cp_slot_generation st \<noteq> 0"
  shows "slot_index st' = 1 - slot_index st"
proof -
  define g where "g = unat (cp_slot_generation st)"
  have g: "0 < g" using assms(2) by (simp add: g_def unat_gt_0)
  have g': "unat (cp_slot_generation st') = g + 1" using assms(1) by (simp add: state_follows_def g_def)
  have "unat (cp_slot_generation st - 1) = g - 1" using assms(2) by (simp add: g_def unat_minus_one)
  moreover have "unat (cp_slot_generation st' - 1) = g" using g' unat_minus_one [of "cp_slot_generation st'"] by (cases "cp_slot_generation st' = 0") auto
  moreover have "g mod 2 = 1 - (g - 1) mod 2"
  proof -
    obtain h where "g = Suc h" using g by (cases g) auto
    then show ?thesis using mod_less_divisor [of 2 h] by (cases "h mod 2 = 0") (simp_all add: mod_Suc)
  qed
  ultimately show ?thesis by (simp add: slot_index_def unat_mod)
qed

lemma select_checkpoint_file:
  assumes id: "identity_ok (ji_store_id identity)" and st: "slot_ok (slot_index st) floor' len st"
    and other: "other_slot identity floor' len st other"
  shows "select_checkpoint
     (decode_checkpoint_slot (slice 0 64 (checkpoint_file identity st other)) 0 identity floor' len)
     (decode_checkpoint_slot (slice 64 128 (checkpoint_file identity st other)) 1 identity floor' len) = Inr (Some st)"
proof -
  have gen: "cp_slot_generation st \<noteq> 0" using st by (simp add: slot_ok_def)
  have len: "length (encode_checkpoint identity st) = 64" "length other = 64"
    using other by (auto simp: other_slot_def length_encode_checkpoint [OF id] split: if_splits)
  have dec: "decode_checkpoint_slot (encode_checkpoint identity st) (slot_index st) identity floor' len = SlotValid st"
    using st by (simp add: decode_checkpoint_slot_iff [OF id])
  show ?thesis
  proof (cases "cp_slot_generation st = 1")
    case True
    then have "slot_index st = 0" "other = replicate 64 0" using other by (auto simp: slot_index_def other_slot_def)
    with dec len True show ?thesis by (simp add: checkpoint_file_def slice_def decode_zero_slot select_checkpoint_def)
  next
    case False
    then obtain older where older: "other = encode_checkpoint identity older" "slot_ok (slot_index older) floor' len older"
      "state_follows older st" using other by (auto simp: other_slot_def)
    have idx: "slot_index st = 1 - slot_index older"
      using slot_index_follows [OF older(3)] older(2) by (simp add: slot_ok_def)
    have dold: "decode_checkpoint_slot other (slot_index older) identity floor' len = SlotValid older"
      using older by (simp add: decode_checkpoint_slot_iff [OF id])
    have gens: "cp_slot_generation older < cp_slot_generation st" "cp_slot_generation st = cp_slot_generation older + 1"
      using older(3) checked_succ_iff [of "cp_slot_generation older" "cp_slot_generation st"]
      by (auto simp: state_follows_def word_less_nat_alt checked_add_def split: if_splits)
    have ord: "cp_append_sequence older < cp_append_sequence st" "cp_end_offset older < cp_end_offset st"
      using older(3) by (simp_all add: state_follows_def)
    have neg: "\<not> cp_slot_generation st < cp_slot_generation older" using gens(1) by auto
    have slices: "slice 0 64 (checkpoint_file identity st other) = (if slot_index st = 0 then encode_checkpoint identity st else other)"
      "slice 64 128 (checkpoint_file identity st other) = (if slot_index st = 0 then other else encode_checkpoint identity st)"
      using len by (simp_all add: checkpoint_file_def slice_def)
    have pick: "select_checkpoint (SlotValid older) (SlotValid st) = Inr (Some st)"
      "select_checkpoint (SlotValid st) (SlotValid older) = Inr (Some st)"
      using gens(1) neg ord gens(2) unfolding select_checkpoint_def by (simp_all add: not_le)
    show ?thesis using slot_index_cases [of older] dec dold idx pick slices by auto
  qed
qed

end
