(* ===== verification/Och_Active_Scan.thy ===== *)
theory Och_Active_Scan
  imports Och_Active_Checkpoint
begin

text \<open>
  Scanning a journal on a volume where no call fails: whole frames become records, a torn frame at the end is reported for
  truncation, and nothing below the checkpoint is ever cut.
\<close>

section \<open>A volume on which no call fails\<close>

definition quiet :: "FileNode \<Rightarrow> FileNode \<Rightarrow> Volume" where
  "quiet j c = \<lparr>vol_is_directory = True, vol_journal = Some j, vol_checkpoint = Some c, vol_locked = False, vol_slot_atomic = True, vol_outcomes = []\<rparr>"

lemma quiet_journal [fs_simps]:
  "fs_open JournalFile (quiet j c) = (Inr (), quiet (j\<lparr>fn_pos := 0\<rparr>) c)"
  "fs_len JournalFile (quiet j c) = (Inr (of_nat (length (fn_data j))), quiet j c)"
  "fs_seek_start JournalFile off (quiet j c) = (Inr (), quiet (j\<lparr>fn_pos := unat off\<rparr>) c)"
  "fs_seek_end JournalFile (quiet j c) = (Inr (), quiet (j\<lparr>fn_pos := length (fn_data j)\<rparr>) c)"
  "fn_pos j + n \<le> length (fn_data j) \<Longrightarrow>
     fs_read_exact JournalFile n (quiet j c) = (Inr (slice (fn_pos j) (fn_pos j + n) (fn_data j)), quiet (j\<lparr>fn_pos := fn_pos j + n\<rparr>) c)"
  "fs_write_all JournalFile bs (quiet j c) = (Inr (), quiet (file_write bs j) c)"
  "fs_set_len JournalFile m (quiet j c) = (Inr (), quiet (j\<lparr>fn_data := resize (unat m) (fn_data j)\<rparr>) c)"
  "fs_sync_all JournalFile (quiet j c) = (Inr (), quiet (j\<lparr>fn_durable := fn_data j\<rparr>) c)"
  by (simp_all add: quiet_def fs_open_def fs_len_def fs_seek_start_def fs_seek_end_def fs_read_exact_def fs_write_all_def fs_set_len_def
      fs_sync_all_def fs_call_def on_file_def)

lemma quiet_checkpoint [fs_simps]:
  "fs_open CheckpointFile (quiet j c) = (Inr (), quiet j (c\<lparr>fn_pos := 0\<rparr>))"
  "fs_len CheckpointFile (quiet j c) = (Inr (of_nat (length (fn_data c))), quiet j c)"
  "fs_seek_start CheckpointFile off (quiet j c) = (Inr (), quiet j (c\<lparr>fn_pos := unat off\<rparr>))"
  "fn_pos c + n \<le> length (fn_data c) \<Longrightarrow>
     fs_read_exact CheckpointFile n (quiet j c) = (Inr (slice (fn_pos c) (fn_pos c + n) (fn_data c)), quiet j (c\<lparr>fn_pos := fn_pos c + n\<rparr>))"
  "fs_write_all CheckpointFile bs (quiet j c) = (Inr (), quiet j (file_write bs c))"
  "fs_sync_all CheckpointFile (quiet j c) = (Inr (), quiet j (c\<lparr>fn_durable := fn_data c\<rparr>))"
  by (simp_all add: quiet_def fs_open_def fs_len_def fs_seek_start_def fs_read_exact_def fs_write_all_def
      fs_sync_all_def fs_call_def on_file_def)

lemma quiet_lock [fs_simps]: "fs_try_lock (quiet j c) = (Inr LockAcquired, quiet j c)"
  by (simp add: quiet_def fs_try_lock_def fs_call_def)

lemma io_run [fs_simps]: "m v = (r, v') \<Longrightarrow> io op m v = (map_err (io_error op) r, v')"
  by (simp add: io_def fs_simps)

section \<open>Records\<close>

definition record_ok :: "StoreId \<Rightarrow> nat \<Rightarrow> AppendSequenceV1 option \<Rightarrow> DecodedAdmissionV1 \<Rightarrow> bool" where
  "record_ok sid lim prev d \<longleftrightarrow> decoded_payload_ok d \<and> validate_decoded d = Inr () \<and>
     frame_admissible \<lparr>max_payload_len = lim\<rparr> prev d \<and> da_store_id d = sid \<and> dd_store_id (da_declaration d) = sid"

definition after :: "DecodedAdmissionV1 \<Rightarrow> AppendSequenceV1 option" where
  "after d = Some (AppendSequenceV1 (da_append_sequence d))"

fun chain :: "StoreId \<Rightarrow> nat \<Rightarrow> AppendSequenceV1 option \<Rightarrow> DecodedAdmissionV1 list \<Rightarrow> bool" where
  "chain sid lim prev [] \<longleftrightarrow> True"
| "chain sid lim prev (d # ds) \<longleftrightarrow> record_ok sid lim prev d \<and> chain sid lim (after d) ds"

fun records_at :: "nat \<Rightarrow> DecodedAdmissionV1 list \<Rightarrow> RecoveredAdmissionV1 list" where
  "records_at off [] = []"
| "records_at off (d # ds) = \<lparr>rec_end_offset = of_nat (off + length (frame_of d)), rec_admission = d\<rparr> #
     records_at (off + length (frame_of d)) ds"

definition last_previous :: "AppendSequenceV1 option \<Rightarrow> DecodedAdmissionV1 list \<Rightarrow> AppendSequenceV1 option" where
  "last_previous prev ds = (if ds = [] then prev else after (last ds))"

lemma chain_append: "chain sid lim prev (xs @ ys) \<longleftrightarrow> chain sid lim prev xs \<and> chain sid lim (last_previous prev xs) ys"
  by (induction xs arbitrary: prev) (auto simp: last_previous_def)

lemma records_at_append: "records_at off (xs @ ys) = records_at off xs @ records_at (off + length (frames_bytes xs)) ys"
  by (induction xs arbitrary: off) (simp_all add: add.assoc)

lemma length_records_at [simp]: "length (records_at off ds) = length ds"
  by (induction ds arbitrary: off) auto

lemma map_records_at [simp]: "map rec_admission (records_at off ds) = ds"
  by (induction ds arbitrary: off) auto

lemma record_frame:
  assumes "record_ok sid lim prev d"
  shows "24 \<le> length (frame_of d)" "length (frame_of d) \<le> 8388632"
    "decode_admission_frame_v1 (frame_of d) \<lparr>max_payload_len = lim\<rparr> prev = Inr d"
    "frame_len_from_prefix_v1 (take 20 (frame_of d)) \<lparr>max_payload_len = lim\<rparr> = Inr (length (frame_of d))"
    "append_sequence_new (da_append_sequence d) = Inr (AppendSequenceV1 (da_append_sequence d))"
proof -
  have ok: "decoded_payload_ok d" using assms by (simp add: record_ok_def)
  note b = frame_length_bounds [OF ok]
  show "24 \<le> length (frame_of d)" "length (frame_of d) \<le> 8388632" using b by simp_all
  show dec: "decode_admission_frame_v1 (frame_of d) \<lparr>max_payload_len = lim\<rparr> prev = Inr d"
    using assms by (simp add: decode_frame_iff [OF b(3)] record_ok_def)
  show "frame_len_from_prefix_v1 (take 20 (frame_of d)) \<lparr>max_payload_len = lim\<rparr> = Inr (length (frame_of d))"
    by (rule frame_len_from_prefix [OF b(3) dec])
  show "append_sequence_new (da_append_sequence d) = Inr (AppendSequenceV1 (da_append_sequence d))"
    using assms by (simp add: record_ok_def frame_admissible_def append_sequence_new_def)
qed

lemma records_frames_bound: "chain sid lim prev ds \<Longrightarrow> 24 * length ds \<le> length (frames_bytes ds)"
proof (induction ds arbitrary: prev)
  case (Cons d ds)
  from Cons.prems record_frame(1) [of sid lim prev d] Cons.IH [of "after d"] show ?case by simp
qed simp

section \<open>One frame\<close>

lemma slice_frame:
  assumes "data = pre @ frame @ post" "off = length pre" "k \<le> length frame"
  shows "slice off (off + k) data = take k frame" "slice (off + k) (off + length frame) data = drop k frame"
  using assms by (simp_all add: slice_def)

definition accepted :: "JournalScan \<Rightarrow> u64 \<Rightarrow> DecodedAdmissionV1 \<Rightarrow> JournalScan" where
  "accepted s stop d = \<lparr>js_records = js_records s @ [\<lparr>rec_end_offset = stop, rec_admission = d\<rparr>], js_offset = stop, js_previous = after d\<rparr>"

lemma scan_accept_ok: "record_ok (ji_store_id identity) lim prev d \<Longrightarrow> scan_accept identity stop d s = Inr (accepted s stop d)"
  using record_frame(5) [of "ji_store_id identity" lim prev d] by (simp add: scan_accept_def record_ok_def accepted_def after_def)

lemma scan_limits_ok: "lim_payload limits \<le> 8388608 \<Longrightarrow> scan_limits limits = Inr \<lparr>max_payload_len = lim_payload limits\<rparr>"
  by (simp add: scan_limits_def decode_limits_new_def MAX_ADMISSION_PAYLOAD_V1_def)

lemma of_nat_u64_cmp:
  "m < 2 ^ 64 \<Longrightarrow> n < 2 ^ 64 \<Longrightarrow> (of_nat m < (of_nat n :: u64)) = (m < n)"
  "m < 2 ^ 64 \<Longrightarrow> n < 2 ^ 64 \<Longrightarrow> (of_nat m \<le> (of_nat n :: u64)) = (m \<le> n)"
  "m < 2 ^ 64 \<Longrightarrow> n < 2 ^ 64 \<Longrightarrow> (of_nat m = (of_nat n :: u64)) = (m = n)"
  by (simp_all add: word_less_nat_alt word_le_nat_alt word_unat_eq_iff unat_of_nat)

lemma of_nat_u64_sub: "n \<le> m \<Longrightarrow> (of_nat m - of_nat n :: u64) = of_nat (m - n)"
  by simp

lemma checked_add_of_nat: "m + n < 2 ^ 64 \<Longrightarrow> checked_add (of_nat m :: u64) (of_nat n) = Some (of_nat (m + n))"
  by (simp add: checked_add_def unat_of_nat)

lemma scan_whole_frame:
  assumes d: "record_ok (ji_store_id identity) (lim_payload limits) (js_previous s) d" and lim: "lim_payload limits \<le> 8388608"
    and data: "fn_data j = pre @ frame_of d @ post" "length (fn_data j) < 2 ^ 63"
    and s: "js_offset s = of_nat (length pre)"
    and cp: "\<not> (length pre < unat (cp_end_offset checkpoint) \<and> unat (cp_end_offset checkpoint) < length pre + length (frame_of d))"
  shows "\<exists>p. scan_journal_frame identity limits checkpoint (of_nat (length (fn_data j))) s (quiet j c) =
    (Inr (Inr (accepted s (of_nat (length pre + length (frame_of d))) d)), quiet (j\<lparr>fn_pos := p\<rparr>) c)"
proof -
  define off len jl where "off = length pre" and "len = length (frame_of d)" and "jl = length (fn_data j)"
  note f = record_frame [OF d]
  have n: "off + len \<le> jl" "jl < 2 ^ 63" "24 \<le> len" using data f(1) by (simp_all add: off_def len_def jl_def)
  have rem: "of_nat jl - of_nat off = (of_nat (jl - off) :: u64)" using n by simp
  have cmp: "\<not> (of_nat (jl - off) :: u64) < 20" using of_nat_u64_cmp(1) [of "jl - off" 20] n by simp
  have uoff: "unat (of_nat off :: u64) = off" using n by (simp add: unat_of_nat)
  have add: "checked_add (of_nat off :: u64) (of_nat len) = Some (of_nat (off + len))" using n by (intro checked_add_of_nat) simp
  have stop: "\<not> (of_nat jl :: u64) < of_nat (off + len)" using n by (subst of_nat_u64_cmp(1)) simp_all
  have straddle: "\<not> ((of_nat off :: u64) < cp_end_offset checkpoint \<and> cp_end_offset checkpoint < of_nat (off + len))"
    using cp n by (simp add: word_less_nat_alt unat_of_nat off_def len_def del: of_nat_add)
  have sl: "slice off (off + 20) (fn_data j) = take 20 (frame_of d)" "slice (off + 20) (off + len) (fn_data j) = drop 20 (frame_of d)"
    using slice_frame [OF data(1) off_def, of 20] n by (simp_all add: len_def)
  show ?thesis
    unfolding scan_journal_frame_def Let_def s jl_def [symmetric] off_def [symmetric] len_def [symmetric] rem
    using n uoff cmp sl f(3,4) add stop straddle scan_limits_ok [OF lim] scan_accept_ok [OF d, of "of_nat (off + len)" s]
    by (intro exI [of _ "off + len"])
      (simp add: fs_simps JOURNAL_V1_FRAME_PREFIX_LEN_def len_def [symmetric] jl_def [symmetric] del: of_nat_add of_nat_diff)
qed

lemma scan_torn_frame:
  assumes d: "record_ok (ji_store_id identity) (lim_payload limits) prev d" and lim: "lim_payload limits \<le> 8388608"
    and data: "fn_data j = pre @ take k (frame_of d)" "length (fn_data j) < 2 ^ 63" "0 < k" "k < length (frame_of d)"
    and s: "js_offset s = of_nat (length pre)" and cp: "unat (cp_end_offset checkpoint) \<le> length pre"
  shows "\<exists>p. scan_journal_frame identity limits checkpoint (of_nat (length (fn_data j))) s (quiet j c) =
    (Inr (Inl (of_nat (length pre))), quiet (j\<lparr>fn_pos := p\<rparr>) c)"
proof -
  define off len jl where "off = length pre" and "len = length (frame_of d)" and "jl = length (fn_data j)"
  note f = record_frame [OF d]
  have n: "jl = off + k" "jl < 2 ^ 63" "24 \<le> len" "k < len" "len \<le> 8388632"
    using data f(1,2) by (simp_all add: off_def len_def jl_def)
  have rem: "of_nat jl - of_nat off = (of_nat k :: u64)" using n by simp
  have uoff: "unat (of_nat off :: u64) = off" using n by (simp add: unat_of_nat)
  have below: "\<not> (of_nat off :: u64) < cp_end_offset checkpoint" using cp uoff by (simp add: word_less_nat_alt off_def)
  show ?thesis
  proof (cases "k < 20")
    case True
    then have "(of_nat k :: u64) < 20" using of_nat_u64_cmp(1) [of k 20] by simp
    then show ?thesis
      unfolding scan_journal_frame_def Let_def s jl_def [symmetric] off_def [symmetric] rem
      using uoff below by (intro exI [of _ off]) (simp add: fs_simps JOURNAL_V1_FRAME_PREFIX_LEN_def)
  next
    case False
    then have cmp: "\<not> (of_nat k :: u64) < 20" using of_nat_u64_cmp(1) [of k 20] n by simp
    have add: "checked_add (of_nat off :: u64) (of_nat len) = Some (of_nat (off + len))" using n by (intro checked_add_of_nat) simp
    have stop: "(of_nat jl :: u64) < of_nat (off + len)" using n by (subst of_nat_u64_cmp(1)) simp_all
    have sl: "slice off (off + 20) (fn_data j) = take 20 (frame_of d)"
      using data False by (simp add: slice_def off_def)
    show ?thesis
      unfolding scan_journal_frame_def Let_def s jl_def [symmetric] off_def [symmetric] len_def [symmetric] rem
      using n False uoff cmp sl f(4) add stop below scan_limits_ok [OF lim]
      by (intro exI [of _ "off + 20"])
        (simp add: fs_simps JOURNAL_V1_FRAME_PREFIX_LEN_def len_def [symmetric] jl_def [symmetric] del: of_nat_add of_nat_diff)
  qed
qed

section \<open>The whole journal\<close>

text \<open>What may follow the last whole frame: nothing, or the beginning of one more frame.\<close>

definition torn :: "StoreId \<Rightarrow> nat \<Rightarrow> bytes \<Rightarrow> bool" where
  "torn sid lim t \<longleftrightarrow> t = [] \<or> (\<exists>d prev k. record_ok sid lim prev d \<and> t = take k (frame_of d) \<and> 0 < k \<and> k < length (frame_of d))"

definition boundary :: "nat \<Rightarrow> DecodedAdmissionV1 list \<Rightarrow> nat \<Rightarrow> bool" where
  "boundary off ds n \<longleftrightarrow> n \<le> off \<or> (\<exists>m \<le> length ds. n = off + length (frames_bytes (take m ds)))"

lemma boundary_Cons:
  assumes "boundary off (d # ds) n"
  shows "\<not> (off < n \<and> n < off + length (frame_of d))" "boundary (off + length (frame_of d)) ds n"
proof -
  consider "n \<le> off" | k where "k \<le> length ds" "n = off + length (frame_of d) + length (frames_bytes (take k ds))"
  proof (cases "n \<le> off")
    case False
    then obtain m where m: "m \<le> Suc (length ds)" "n = off + length (frames_bytes (take m (d # ds)))"
      using assms by (auto simp: boundary_def)
    then obtain k where "m = Suc k" using False by (cases m) auto
    with m that(2) [of k] show thesis by simp
  qed
  note split = this
  from split show "\<not> (off < n \<and> n < off + length (frame_of d))" by cases auto
  from split show "boundary (off + length (frame_of d)) ds n" by cases (auto simp: boundary_def)
qed

lemma scan_frames_run:
  assumes lim: "lim_payload limits \<le> 8388608" and t: "torn (ji_store_id identity) (lim_payload limits) t"
  shows "length (fn_data j) < 2 ^ 63 \<Longrightarrow> chain (ji_store_id identity) (lim_payload limits) (js_previous s) ds \<Longrightarrow>
    fn_data j = pre @ frames_bytes ds @ t \<Longrightarrow>
    js_offset s = of_nat (length pre) \<Longrightarrow> boundary (length pre) ds (unat (cp_end_offset checkpoint)) \<Longrightarrow>
    length ds + (if t = [] then 0 else 1) \<le> budget \<Longrightarrow>
    \<exists>p. scan_journal_frames identity limits checkpoint (of_nat (length (fn_data j))) budget s (quiet j c) =
      (Inr (\<lparr>js_records = js_records s @ records_at (length pre) ds, js_offset = of_nat (length pre + length (frames_bytes ds)),
          js_previous = last_previous (js_previous s) ds\<rparr>,
        if t = [] then None else Some (of_nat (length pre + length (frames_bytes ds)))), quiet (j\<lparr>fn_pos := p\<rparr>) c)"
proof (induction ds arbitrary: s pre budget j)
  case Nil
  have fin: "s = \<lparr>js_records = js_records s, js_offset = of_nat (length pre), js_previous = js_previous s\<rparr>" using Nil.prems(4) by (cases s) simp
  show ?case
  proof (cases "t = []")
    case True
    then have "\<not> js_offset s < of_nat (length (fn_data j))" using Nil.prems by simp
    then show ?thesis using True fin
      by (subst scan_journal_frames.simps) (auto simp: fs_simps last_previous_def intro!: exI [of _ "fn_pos j"])
  next
    case False
    with t obtain d prev k where d: "record_ok (ji_store_id identity) (lim_payload limits) prev d" "t = take k (frame_of d)" "0 < k"
      "k < length (frame_of d)" by (auto simp: torn_def)
    have less: "js_offset s < of_nat (length (fn_data j))"
      using Nil.prems(1,3,4) False of_nat_u64_cmp(1) [of "length pre" "length (fn_data j)"] by simp
    obtain n where n: "budget = Suc n" using Nil.prems(6) False by (cases budget) auto
    have data: "fn_data j = pre @ take k (frame_of d)" and cp: "unat (cp_end_offset checkpoint) \<le> length pre"
      using Nil.prems(3,5) d(2) by (auto simp: boundary_def)
    obtain p where "scan_journal_frame identity limits checkpoint (of_nat (length (fn_data j))) s (quiet j c) =
        (Inr (Inl (of_nat (length pre))), quiet (j\<lparr>fn_pos := p\<rparr>) c)"
      using scan_torn_frame [OF d(1) lim data Nil.prems(1) d(3,4) Nil.prems(4) cp] by blast
    with less n False fin show ?thesis
      by (subst scan_journal_frames.simps) (auto simp: fs_simps last_previous_def intro!: exI [of _ p])
  qed
next
  case (Cons d ds)
  define off len where "off = length pre" and "len = length (frame_of d)"
  have d: "record_ok (ji_store_id identity) (lim_payload limits) (js_previous s) d"
    and ch: "chain (ji_store_id identity) (lim_payload limits) (after d) ds" using Cons.prems(2) by simp_all
  have data: "fn_data j = pre @ frame_of d @ frames_bytes ds @ t" using Cons.prems(3) by simp
  have less: "js_offset s < of_nat (length (fn_data j))"
    unfolding Cons.prems(4)
  proof (rule of_nat_u64_cmp(1) [THEN iffD2])
    show "length pre < length (fn_data j)" using data record_frame(1) [OF d] by auto
  qed (use Cons.prems(1) data in simp_all)
  obtain n where n: "budget = Suc n" "length ds + (if t = [] then 0 else 1) \<le> n" using Cons.prems(6) by (cases budget) auto
  define s' where "s' = accepted s (of_nat (off + len)) d"
  obtain p where step: "scan_journal_frame identity limits checkpoint (of_nat (length (fn_data j))) s (quiet j c) =
      (Inr (Inr s'), quiet (j\<lparr>fn_pos := p\<rparr>) c)"
    using scan_whole_frame [OF d lim data Cons.prems(1,4) boundary_Cons(1) [OF Cons.prems(5)]]
    by (auto simp: s'_def off_def len_def)
  have s': "js_previous s' = after d" "js_offset s' = of_nat (length (pre @ frame_of d))"
      "js_records s' = js_records s @ [\<lparr>rec_end_offset = of_nat (off + len), rec_admission = d\<rparr>]"
    by (simp_all add: s'_def accepted_def off_def len_def)
  obtain q where rest: "scan_journal_frames identity limits checkpoint (of_nat (length (fn_data j))) n s' (quiet (j\<lparr>fn_pos := p\<rparr>) c) =
      (Inr (\<lparr>js_records = js_records s' @ records_at (length (pre @ frame_of d)) ds,
          js_offset = of_nat (length (pre @ frame_of d) + length (frames_bytes ds)), js_previous = last_previous (js_previous s') ds\<rparr>,
        if t = [] then None else Some (of_nat (length (pre @ frame_of d) + length (frames_bytes ds)))), quiet (j\<lparr>fn_pos := q\<rparr>) c)"
    using Cons.IH [of "j\<lparr>fn_pos := p\<rparr>" s' "pre @ frame_of d" n] Cons.prems(1) ch data s' n(2) boundary_Cons(2) [OF Cons.prems(5)]
    by auto
  have eq: "js_records s' @ records_at (length (pre @ frame_of d)) ds = js_records s @ records_at (length pre) (d # ds)"
    "length (pre @ frame_of d) + length (frames_bytes ds) = length pre + length (frames_bytes (d # ds))"
    "last_previous (js_previous s') ds = last_previous (js_previous s) (d # ds)"
    by (simp_all add: s' off_def len_def last_previous_def)
  have "scan_journal_frames identity limits checkpoint (of_nat (length (fn_data j))) budget s (quiet j c) =
      scan_journal_frames identity limits checkpoint (of_nat (length (fn_data j))) n s' (quiet (j\<lparr>fn_pos := p\<rparr>) c)"
    using less n(1) step by (subst scan_journal_frames.simps) (simp add: fs_simps)
  then show ?case unfolding rest eq by blast
qed

end
