(* ===== verification/Och_Active_Open.thy ===== *)
theory Och_Active_Open
  imports Och_Active_Scan
begin

text \<open>
  Opening an existing journal on a volume where no call fails: with whole frames, at most one torn frame behind them and a
  checkpoint on a frame boundary, the open succeeds, keeps every whole frame and leaves a file without the torn one.
\<close>

section \<open>Sequences and boundaries\<close>

definition seq_at :: "u64 \<Rightarrow> DecodedAdmissionV1 list \<Rightarrow> u64" where
  "seq_at n ds = (if ds = [] then n else da_append_sequence (last ds))"

definition state_at :: "u64 \<Rightarrow> nat \<Rightarrow> DecodedAdmissionV1 list \<Rightarrow> CheckpointState" where
  "state_at n g ds = \<lparr>cp_slot_generation = of_nat g, cp_append_sequence = seq_at n ds, cp_end_offset = of_nat (28 + length (frames_bytes ds))\<rparr>"

definition journal_bytes :: "JournalIdentity \<Rightarrow> DecodedAdmissionV1 list \<Rightarrow> bytes" where
  "journal_bytes identity ds = header_encode \<lparr>header_store_id = ji_store_id identity\<rparr> @ frames_bytes ds"

abbreviation journal_chain :: "JournalIdentity \<Rightarrow> ActiveJournalLimits \<Rightarrow> u64 \<Rightarrow> DecodedAdmissionV1 list \<Rightarrow> bool" where
  "journal_chain identity limits n ds \<equiv> chain (ji_store_id identity) (lim_payload limits) (floor_previous n) ds"

lemma scan_floor_previous: "scan_floor n = Inr (floor_previous n)"
  by (simp add: scan_floor_def floor_previous_def append_sequence_new_def)

lemma length_journal_bytes: "identity_ok (ji_store_id identity) \<Longrightarrow> length (journal_bytes identity ds) = 28 + length (frames_bytes ds)"
  by (simp add: journal_bytes_def length_header_encode)

lemma journal_bytes_append [simp]: "journal_bytes identity (xs @ ys) = journal_bytes identity xs @ frames_bytes ys"
  by (simp add: journal_bytes_def)

lemma seq_at_step:
  assumes "record_ok sid lim (last_previous (floor_previous n) xs) d"
  shows "seq_at n xs < da_append_sequence d"
proof (cases "xs = [] \<and> n = 0")
  case True
  with assms show ?thesis by (simp add: seq_at_def record_ok_def frame_admissible_def word_gt_0)
next
  case False
  then have "last_previous (floor_previous n) xs = Some (AppendSequenceV1 (seq_at n xs))"
    by (auto simp: last_previous_def floor_previous_def seq_at_def after_def)
  with assms show ?thesis by (simp add: record_ok_def frame_admissible_def sequence_follows_def word_less_nat_alt)
qed

lemma seq_at_less: "chain sid lim (floor_previous n) (xs @ ys) \<Longrightarrow> ys \<noteq> [] \<Longrightarrow> seq_at n xs < seq_at n (xs @ ys)"
proof (induction ys rule: rev_induct)
  case (snoc d ys)
  have "record_ok sid lim (last_previous (floor_previous n) (xs @ ys)) d"
    using snoc.prems(1) by (simp add: chain_append [of sid lim _ "xs @ ys" "[d]", simplified])
  then have step: "seq_at n (xs @ ys) < seq_at n (xs @ ys @ [d])" by (auto simp: seq_at_def dest: seq_at_step)
  have "chain sid lim (floor_previous n) (xs @ ys)" using snoc.prems(1) chain_append [of sid lim _ "xs @ ys" "[d]"] by simp
  with snoc.IH have "ys \<noteq> [] \<Longrightarrow> seq_at n xs < seq_at n (xs @ ys)" by blast
  with step show ?case by (cases "ys = []") auto
qed simp

lemma seq_at_take:
  assumes "chain sid lim (floor_previous n) ds" "i < m" "m \<le> length ds"
  shows "seq_at n (take i ds) < seq_at n (take m ds)"
proof -
  have "take i ds = take i (take m ds)" using assms(2) by (simp add: min_def)
  then have split: "take i ds @ drop i (take m ds) = take m ds" by (metis append_take_drop_id)
  have "chain sid lim (floor_previous n) (take m ds)" using assms(1) chain_append [of sid lim _ "take m ds" "drop m ds"] by simp
  with seq_at_less [of sid lim n "take i ds" "drop i (take m ds)"] split assms(2,3) show ?thesis by simp
qed

lemma frames_take_less:
  assumes "chain sid lim prev ds" "i < m" "m \<le> length ds"
  shows "length (frames_bytes (take i ds)) < length (frames_bytes (take m ds))"
proof -
  have "take i ds = take i (take m ds)" using assms(2) by (simp add: min_def)
  then have split: "take i ds @ drop i (take m ds) = take m ds" by (metis append_take_drop_id)
  have "chain sid lim prev (take m ds)" using assms(1) chain_append [of sid lim _ "take m ds" "drop m ds"] by simp
  then have "chain sid lim (last_previous prev (take i ds)) (drop i (take m ds))" using chain_append [of sid lim prev "take i ds"] split by metis
  from records_frames_bound [OF this] assms have "0 < length (frames_bytes (drop i (take m ds)))" by (simp del: length_greater_0_conv)
  with split show ?thesis by (metis frames_bytes_append length_append less_add_same_cancel1)
qed

lemma unat_of_nat_u64: "k < 2 ^ 64 \<Longrightarrow> unat (of_nat k :: u64) = k"
  by (simp add: unat_of_nat)

lemma frames_take_le: "length (frames_bytes (take m ds)) \<le> length (frames_bytes ds)"
  by (metis append_take_drop_id frames_bytes_append length_append le_add1)

section \<open>The checkpoint on a boundary\<close>

lemma state_at_slot_ok:
  assumes "chain sid lim (floor_previous n) ds" "m \<le> length ds" "0 < g" "g < 2 ^ 64" "28 + length (frames_bytes ds) \<le> len" "len < 2 ^ 63"
  shows "slot_ok (slot_index (state_at n g (take m ds))) n (of_nat len) (state_at n g (take m ds))"
proof -
  let ?k = "28 + length (frames_bytes (take m ds))"
  have k: "?k \<le> len" "?k < 2 ^ 64" using frames_take_le [of m ds] assms by simp_all
  have "of_nat g \<noteq> (0 :: u64)" using of_nat_u64_cmp(3) [of g 0] assms by simp
  moreover have "28 \<le> (of_nat ?k :: u64)" using of_nat_u64_cmp(2) [of 28 ?k] k by simp
  moreover have "(of_nat ?k :: u64) \<le> of_nat len" using of_nat_u64_cmp(2) [of ?k len] k assms by simp
  moreover have "seq_at n (take m ds) = n \<longleftrightarrow> (of_nat ?k :: u64) = 28"
  proof -
    have "(of_nat ?k :: u64) = 28 \<longleftrightarrow> frames_bytes (take m ds) = []" using of_nat_u64_cmp(3) [of ?k 28] k by simp
    also have "\<dots> \<longleftrightarrow> m = 0" using frames_take_less [OF assms(1), of 0 m] assms(2) by (cases m) auto
    also have "\<dots> \<longleftrightarrow> seq_at n (take m ds) = n"
      using seq_at_take [OF assms(1), of 0 m] assms(2) by (cases m) (auto simp: seq_at_def)
    finally show ?thesis by simp
  qed
  ultimately show ?thesis by (simp add: slot_ok_def slot_index_def state_at_def)
qed

lemma state_at_follows:
  assumes "chain sid lim (floor_previous n) ds" "i < m" "m \<le> length ds" "g + 1 < 2 ^ 64" "28 + length (frames_bytes ds) < 2 ^ 63"
  shows "state_follows (state_at n g (take i ds)) (state_at n (g + 1) (take m ds))"
proof -
  have "(of_nat (28 + length (frames_bytes (take i ds))) :: u64) < of_nat (28 + length (frames_bytes (take m ds)))"
    using frames_take_less [OF assms(1-3)] frames_take_le [of m ds] assms(5) by (intro of_nat_u64_cmp(1) [THEN iffD2]) simp_all
  moreover have "unat (of_nat (g + 1) :: u64) = g + 1" "unat (of_nat g :: u64) = g" 
    using assms(4) unat_of_nat_u64 [of "g + 1"] unat_of_nat_u64 [of g] by simp_all
  ultimately show ?thesis using seq_at_take [OF assms(1-3)] by (simp add: state_follows_def state_at_def del: of_nat_add)
qed

lemma records_at_offsets:
  "chain sid lim prev ds \<Longrightarrow> off + length (frames_bytes ds) < 2 ^ 64 \<Longrightarrow> r \<in> set (records_at off ds) \<Longrightarrow>
   off < unat (rec_end_offset r) \<and> unat (rec_end_offset r) \<le> off + length (frames_bytes ds)"
proof (induction ds arbitrary: prev off)
  case (Cons d ds)
  have f: "24 \<le> length (frame_of d)" using Cons.prems(1) record_frame(1) [of sid lim prev d] by simp
  have ch: "chain sid lim (after d) ds" using Cons.prems(1) by simp
  consider "r = \<lparr>rec_end_offset = of_nat (off + length (frame_of d)), rec_admission = d\<rparr>"
    | "r \<in> set (records_at (off + length (frame_of d)) ds)" using Cons.prems(3) by auto
  then show ?case
  proof cases
    case 1
    then have "unat (rec_end_offset r) = off + length (frame_of d)" using Cons.prems(2) by (simp add: unat_of_nat_u64 del: of_nat_add)
    with f show ?thesis by (simp del: length_greater_0_conv)
  next
    case 2
    with Cons.IH [OF ch, of "off + length (frame_of d)"] Cons.prems(2) f show ?thesis by simp
  qed
qed simp

lemma find_none: "(\<And>x. x \<in> set xs \<Longrightarrow> \<not> P x) \<Longrightarrow> find P (xs @ ys) = find P ys"
  by (induction xs) auto

lemma prefix_sequence_at:
  assumes ch: "chain sid lim prev ds" and m: "m \<le> length ds" and len: "28 + length (frames_bytes ds) < 2 ^ 64"
  shows "prefix_sequence n (state_at n g (take m ds)) (records_at 28 ds) = seq_at n (take m ds)"
proof (cases m)
  case 0
  have "rec_end_offset r \<noteq> 28" if "r \<in> set (records_at 28 ds)" for r
    using records_at_offsets [OF ch len that] by (auto simp: word_unat_eq_iff)
  then have "find (\<lambda>r. rec_end_offset r = 28) (records_at 28 ds @ []) = None" by (subst find_none) auto
  with 0 show ?thesis by (simp add: prefix_sequence_def state_at_def seq_at_def)
next
  case (Suc k)
  define xs d ys where "xs = take k ds" and "d = ds ! k" and "ys = drop (Suc k) ds"
  have ds: "ds = xs @ d # ys" using m Suc by (simp add: xs_def d_def ys_def id_take_nth_drop)
  have tk: "take m ds = xs @ [d]" using m Suc by (simp add: xs_def d_def take_Suc_conv_app_nth)
  have chx: "chain sid lim prev xs" and f: "24 \<le> length (frame_of d)"
    using ch record_frame(1) [of sid lim "last_previous prev xs" d] by (simp_all add: ds chain_append)
  define T where "T = 28 + length (frames_bytes xs) + length (frame_of d)"
  have len_tk: "28 + length (frames_bytes (take m ds)) = T" by (simp add: tk T_def)
  have T2: "T + length (frames_bytes ys) < 2 ^ 64" using len by (simp add: ds T_def)
  then have "unat (of_nat T :: u64) = T" by (intro unat_of_nat_u64) simp
  note T = this T2
  have "rec_end_offset r \<noteq> of_nat T" if "r \<in> set (records_at 28 xs)" for r
    using records_at_offsets [OF chx _ that] T f unfolding word_unat_eq_iff T(1) by (simp add: T_def)
  then have "find (\<lambda>r. rec_end_offset r = of_nat T) (records_at 28 xs @ records_at (28 + length (frames_bytes xs)) (d # ys)) =
      Some \<lparr>rec_end_offset = of_nat T, rec_admission = d\<rparr>"
    by (subst find_none) (auto simp: T_def)
  then have "find (\<lambda>r. rec_end_offset r = of_nat (28 + length (frames_bytes (take m ds)))) (records_at 28 ds) =
      Some \<lparr>rec_end_offset = of_nat T, rec_admission = d\<rparr>"
    unfolding len_tk by (simp add: ds records_at_append)
  then show ?thesis by (simp add: prefix_sequence_def state_at_def seq_at_def tk)
qed

section \<open>Scanning\<close>

lemma scan_journal_quiet:
  assumes lim: "lim_payload limits \<le> 8388608" and id: "identity_ok (ji_store_id identity)"
    and ch: "journal_chain identity limits n ds" and t: "torn (ji_store_id identity) (lim_payload limits) t"
    and data: "fn_data j = journal_bytes identity ds @ t" "length (fn_data j) < 2 ^ 63"
    and m: "m \<le> length ds" and budget: "length ds + (if t = [] then 0 else 1) \<le> lim_records limits"
  shows "\<exists>p. scan_journal identity limits (state_at n g (take m ds)) n (of_nat (length (fn_data j))) (quiet j c) =
    (Inr \<lparr>sr_records = records_at 28 ds, sr_valid_end = of_nat (28 + length (frames_bytes ds)),
       sr_truncate_to = (if t = [] then None else Some (of_nat (28 + length (frames_bytes ds)))), sr_recovery_plan = None\<rparr>,
     quiet (j\<lparr>fn_pos := p\<rparr>) c)"
proof -
  let ?st = "state_at n g (take m ds)" and ?h = "header_encode \<lparr>header_store_id = ji_store_id identity\<rparr>"
  have hl: "length ?h = 28" using id by (simp add: length_header_encode)
  have big: "28 + length (frames_bytes ds) < 2 ^ 63" using data id by (simp add: length_journal_bytes)
  have le: "length (frames_bytes (take m ds)) \<le> length (frames_bytes ds)" by (rule frames_take_le)
  have u: "unat (cp_end_offset ?st) = 28 + length (frames_bytes (take m ds))"
    using big le by (simp add: state_at_def unat_of_nat del: of_nat_add)
  have "\<exists>p. scan_journal_frames identity limits ?st (of_nat (length (fn_data j))) (lim_records limits)
       \<lparr>js_records = [], js_offset = 28, js_previous = floor_previous n\<rparr> (quiet j c) =
      (Inr (\<lparr>js_records = records_at 28 ds, js_offset = of_nat (28 + length (frames_bytes ds)), js_previous = last_previous (floor_previous n) ds\<rparr>,
        if t = [] then None else Some (of_nat (28 + length (frames_bytes ds)))), quiet (j\<lparr>fn_pos := p\<rparr>) c)"
  proof -
    note run = scan_frames_run [OF lim t data(2), where s = "\<lparr>js_records = [], js_offset = 28, js_previous = floor_previous n\<rparr>"
        and pre = ?h and ds = ds and budget = "lim_records limits" and checkpoint = ?st and c = c]
    have "boundary 28 ds (unat (cp_end_offset ?st))" unfolding u boundary_def using m by blast
    with run show ?thesis using ch data(1) budget unfolding hl by (simp add: journal_bytes_def del: of_nat_add)
  qed
  then obtain p where run: "scan_journal_frames identity limits ?st (of_nat (length (fn_data j))) (lim_records limits)
       \<lparr>js_records = [], js_offset = 28, js_previous = floor_previous n\<rparr> (quiet j c) =
      (Inr (\<lparr>js_records = records_at 28 ds, js_offset = of_nat (28 + length (frames_bytes ds)), js_previous = last_previous (floor_previous n) ds\<rparr>,
        if t = [] then None else Some (of_nat (28 + length (frames_bytes ds)))), quiet (j\<lparr>fn_pos := p\<rparr>) c)" by blast
  have "\<not> cp_end_offset ?st > of_nat (28 + length (frames_bytes ds))"
    using big le by (simp add: word_less_nat_alt u unat_of_nat del: of_nat_add)
  moreover have "\<not> (cp_end_offset ?st = 28 \<and> cp_append_sequence ?st \<noteq> n)"
    using state_at_slot_ok [OF ch m, of 1 "28 + length (frames_bytes ds)"] big by (simp add: slot_ok_def state_at_def)
  moreover have "cp_append_sequence ?st = prefix_sequence n ?st (records_at 28 ds)"
    using prefix_sequence_at [OF ch m] big by (simp add: state_at_def)
  ultimately show ?thesis
    using run by (intro exI [of _ p])
      (simp add: scan_journal_def scan_floor_previous fs_simps JOURNAL_V1_HEADER_LEN_def del: of_nat_add)
qed

section \<open>Slots of a growing journal\<close>

text \<open>
  The checkpoint file of a journal \<open>ds\<close> whose checkpoint number \<open>g\<close> covers the first \<open>m\<close> records: its own slot, and the
  previous checkpoint or nothing in the other one.
\<close>

definition slots :: "JournalIdentity \<Rightarrow> u64 \<Rightarrow> DecodedAdmissionV1 list \<Rightarrow> nat \<Rightarrow> nat \<Rightarrow> bytes \<Rightarrow> bool" where
  "slots identity n ds m g bs \<longleftrightarrow> 0 < g \<and> g \<le> m + 1 \<and> m \<le> length ds \<and>
     (\<exists>other. bs = checkpoint_file identity (state_at n g (take m ds)) other \<and>
        (if g = 1 then other = replicate 64 0
         else \<exists>i < m. other = encode_checkpoint identity (state_at n (g - 1) (take i ds))))"

lemma slots_prefix:
  assumes "slots identity n ds m g bs" "take m ds = take m ds'" "m \<le> length ds'"
  shows "slots identity n ds' m g bs"
proof -
  have "take i ds = take i ds'" if "i < m" for i using assms(2) that by (metis min.strict_order_iff take_take)
  with assms show ?thesis by (auto simp: slots_def split: if_splits)
qed

lemma slots_length:
  assumes "identity_ok (ji_store_id identity)" "slots identity n ds m g bs"
  shows "length bs = 128"
  using assms by (auto simp: slots_def checkpoint_file_def length_encode_checkpoint split: if_splits)

lemma slots_select:
  assumes id: "identity_ok (ji_store_id identity)" and sl: "slots identity n ds m g bs" and ch: "journal_chain identity limits n ds"
    and len: "28 + length (frames_bytes ds) \<le> len" "len < 2 ^ 63" and cnt: "length ds < 2 ^ 32"
  shows "select_checkpoint (decode_checkpoint_slot (slice 0 64 bs) 0 identity n (of_nat len))
     (decode_checkpoint_slot (slice 64 128 bs) 1 identity n (of_nat len)) = Inr (Some (state_at n g (take m ds)))"
proof -
  let ?st = "state_at n g (take m ds)"
  obtain other where bs: "bs = checkpoint_file identity ?st other" and
    ot: "if g = 1 then other = replicate 64 0 else \<exists>i < m. other = encode_checkpoint identity (state_at n (g - 1) (take i ds))"
    using sl by (auto simp: slots_def)
  have g: "0 < g" "g < 2 ^ 63" "m \<le> length ds" "g \<le> m + 1" using sl cnt by (auto simp: slots_def)
  have ok: "slot_ok (slot_index ?st) n (of_nat len) ?st" using state_at_slot_ok [OF ch g(3,1) _ len] g by simp
  have g1: "cp_slot_generation ?st = 1 \<longleftrightarrow> g = 1" using of_nat_u64_cmp(3) [of g 1] g by (simp add: state_at_def)
  have "other_slot identity n (of_nat len) ?st other"
  proof (cases "g = 1")
    case False
    with ot obtain i where i: "i < m" "other = encode_checkpoint identity (state_at n (g - 1) (take i ds))" by auto
    have il: "i \<le> length ds" using i(1) g(3) by simp
    have "slot_ok (slot_index (state_at n (g - 1) (take i ds))) n (of_nat len) (state_at n (g - 1) (take i ds))"
      using state_at_slot_ok [OF ch il _ _ len, of "g - 1"] g False by simp
    moreover have "state_follows (state_at n (g - 1) (take i ds)) ?st"
      using state_at_follows [OF ch i(1) g(3), of "g - 1"] g False len by simp
    ultimately show ?thesis using i False g1 by (auto simp: other_slot_def)
  qed (use ot g1 in \<open>simp add: other_slot_def\<close>)
  from select_checkpoint_file [OF id ok this] show ?thesis unfolding bs .
qed

lemma splice_slot:
  assumes "identity_ok (ji_store_id identity)" "length other = 64" "slot_index st' = 1 - slot_index st"
  shows "splice (slot_index st' * 64) (encode_checkpoint identity st') (checkpoint_file identity st other) =
    checkpoint_file identity st' (encode_checkpoint identity st)"
  using slot_index_cases [of st] assms(2,3) length_encode_checkpoint [OF assms(1)]
  by (auto simp: checkpoint_file_def splice_def)

lemma slots_next:
  assumes id: "identity_ok (ji_store_id identity)" and sl: "slots identity n ds m g bs" and ch: "journal_chain identity limits n ds"
    and k: "m < k" "k \<le> length ds" and len: "28 + length (frames_bytes ds) < 2 ^ 63" and cnt: "length ds < 2 ^ 32"
  shows "slots identity n ds k (g + 1)
    (splice (slot_index (state_at n (g + 1) (take k ds)) * 64) (encode_checkpoint identity (state_at n (g + 1) (take k ds))) bs)"
proof -
  let ?st = "state_at n g (take m ds)" and ?st' = "state_at n (g + 1) (take k ds)"
  obtain other where bs: "bs = checkpoint_file identity ?st other" and
    ot: "if g = 1 then other = replicate 64 0 else \<exists>i < m. other = encode_checkpoint identity (state_at n (g - 1) (take i ds))"
    using sl by (auto simp: slots_def)
  have lo: "length other = 64" using ot id by (auto simp: length_encode_checkpoint split: if_splits)
  have g: "0 < g" "g < 2 ^ 63" "g \<le> m + 1" using sl cnt by (auto simp: slots_def)
  have "cp_slot_generation ?st \<noteq> 0" using of_nat_u64_cmp(3) [of g 0] g by (simp add: state_at_def)
  with slot_index_follows state_at_follows [OF ch k, of g] g len have "slot_index ?st' = 1 - slot_index ?st" by simp
  from splice_slot [OF id lo this] show ?thesis using k g unfolding bs
    by (simp only: slots_def) (intro conjI exI [of _ "encode_checkpoint identity ?st"]; auto)
qed

section \<open>Opening\<close>

definition active_limits_ok :: "ActiveJournalLimits \<Rightarrow> bool" where
  "active_limits_ok limits \<longleftrightarrow> lim_payload limits \<le> 8388608 \<and> 28 \<le> lim_active_bytes limits \<and> lim_active_bytes limits \<le> 536870912 \<and>
     lim_records limits \<le> 4096"

lemma active_limits_new_ok: "active_limits_new p b r = Inr limits \<Longrightarrow> active_limits_ok limits"
  by (auto simp: active_limits_new_def active_limits_ok_def MAX_ADMISSION_PAYLOAD_V1_def JOURNAL_V1_HEADER_LEN_def MAX_ACTIVE_JOURNAL_BYTES_def
      MAX_ACTIVE_JOURNAL_RECORDS_def split: if_splits)

lemma open_journal_quiet:
  assumes "identity_ok (ji_store_id identity)" "active_limits_ok limits" "fn_data j = journal_bytes identity ds @ t"
    "length (fn_data j) \<le> unat (lim_active_bytes limits)"
  shows "open_journal identity limits Converge (quiet j c) = (Inr (of_nat (length (fn_data j))), quiet (j\<lparr>fn_pos := 28\<rparr>) c)"
proof -
  have hl: "length (header_encode \<lparr>header_store_id = ji_store_id identity\<rparr>) = 28" using assms(1) by (simp add: length_header_encode)
  have long: "28 \<le> length (fn_data j)" using assms(1,3) by (simp add: length_journal_bytes)
  have small: "length (fn_data j) < 2 ^ 64" using assms(2,4) by (simp add: active_limits_ok_def word_le_nat_alt)
  have "\<not> (of_nat (length (fn_data j)) :: u64) < 28" using of_nat_u64_cmp(1) [of "length (fn_data j)" 28] long small by simp
  moreover have "\<not> lim_active_bytes limits < of_nat (length (fn_data j))"
    using assms(4) small by (simp add: word_less_nat_alt unat_of_nat_u64)
  moreover have "header_decode (slice 0 28 (fn_data j)) = Inr \<lparr>header_store_id = ji_store_id identity\<rparr>"
    using assms(1) hl by (simp add: header_decode_iff assms(3) journal_bytes_def slice_def)
  ultimately show ?thesis using long
    by (simp add: open_journal_def open_artifact_def lock_journal_def fs_simps JOURNAL_V1_HEADER_LEN_def)
qed

lemma open_checkpoint_quiet:
  assumes id: "identity_ok (ji_store_id identity)" and sl: "slots identity n ds m g (fn_data c)" and ch: "journal_chain identity limits n ds"
    and len: "28 + length (frames_bytes ds) \<le> len" "len < 2 ^ 63" and cnt: "length ds < 2 ^ 32"
  shows "open_checkpoint identity n Converge None (of_nat len) (quiet j c) =
    (Inr (state_at n g (take m ds)), quiet j (c\<lparr>fn_pos := 128\<rparr>))"
  using slots_select [OF id sl ch len cnt] slots_length [OF id sl]
  by (simp add: open_checkpoint_def load_checkpoint_def open_checkpoint_file_def read_checkpoint_def open_artifact_def fs_simps checkpoint_consts
      slice_full slice_def)

lemma write_slot_quiet:
  "prepare_checkpoint_slot identity st = Inr p \<Longrightarrow>
   write_prepared_checkpoint_slot p (quiet j c) = (Inr (), quiet j (c\<lparr>fn_data := splice (slot_index st * 64) (encode_checkpoint identity st) (fn_data c),
     fn_pos := slot_index st * 64 + length (encode_checkpoint identity st)\<rparr>))"
  using slot_index_cases [of st]
  by (auto simp: prepare_checkpoint_slot_def Let_def write_prepared_checkpoint_slot_def fs_simps file_write_def slot_index_def [symmetric]
      CHECKPOINT_SLOT_LEN_def)

section \<open>Adopting what was found\<close>

definition found :: "DecodedAdmissionV1 list \<Rightarrow> bytes \<Rightarrow> ScanResult" where
  "found ds t = \<lparr>sr_records = records_at 28 ds, sr_valid_end = of_nat (28 + length (frames_bytes ds)),
     sr_truncate_to = (if t = [] then None else Some (of_nat (28 + length (frames_bytes ds)))), sr_recovery_plan = None\<rparr>"

lemma records_at_Nil [simp]: "records_at off ds = [] \<longleftrightarrow> ds = []"
  by (cases ds) auto

lemma records_at_last: "ds \<noteq> [] \<Longrightarrow> rec_admission (last (records_at off ds)) = last ds"
  by (metis last_map map_records_at length_0_conv length_records_at)

lemma found_sequence:
  "(if sr_records (found ds t) = [] then n else da_append_sequence (rec_admission (last (sr_records (found ds t))))) = seq_at n ds"
  using length_records_at [of 28 ds] by (auto simp: found_def seq_at_def records_at_last simp del: length_records_at)

text \<open>The three synchronizing steps shared by \<open>sync_pending\<close> and the adoption of recovered records.\<close>

lemma adopt_scan_found:
  assumes "28 + length (frames_bytes ds) < 2 ^ 63" "m \<le> length ds" "chain sid lim prev ds" "g + 1 < 2 ^ 64"
  shows "adopt_scan identity n False (state_at n g (take m ds)) (found ds t) =
    fs_bind (if t = [] then fs_return ()
        else fs_bind (io OpTruncate (fs_set_len JournalFile (of_nat (28 + length (frames_bytes ds)))))
          (\<lambda>_. io OpSyncJournal (fs_sync_all JournalFile))) (\<lambda>_.
    if m < length ds
    then fs_bind (sync_boundaries (projr (prepare_checkpoint_slot identity (state_at n (g + 1) ds)))) (\<lambda>_. fs_return (state_at n (g + 1) ds))
    else fs_bind (io OpSyncCheckpoint (fs_sync_all CheckpointFile)) (\<lambda>_. fs_return (state_at n g (take m ds))))"
proof -
  have more: "cp_end_offset (state_at n g (take m ds)) < sr_valid_end (found ds t) \<longleftrightarrow> m < length ds"
  proof -
    have "cp_end_offset (state_at n g (take m ds)) < sr_valid_end (found ds t) \<longleftrightarrow>
        28 + length (frames_bytes (take m ds)) < 28 + length (frames_bytes ds)"
      unfolding state_at_def found_def CheckpointState.simps ScanResult.simps
      using assms(1) frames_take_le [of m ds] by (intro of_nat_u64_cmp(1)) simp_all
    also have "\<dots> \<longleftrightarrow> m < length ds" using frames_take_less [OF assms(3), of m "length ds"] assms(2) by (cases "m = length ds") auto
    finally show ?thesis .
  qed
  have gen: "checked_add (of_nat g :: u64) 1 = Some (of_nat (g + 1))" using checked_add_of_nat [of g 1] assms(4) by simp
  show ?thesis
  proof (cases "m < length ds")
    case True
    then show ?thesis
      unfolding adopt_scan_def Let_def found_sequence
      using more gen by (cases "t = []")
        (simp_all add: fs_bind_laws state_at_def found_def prepare_checkpoint_slot_def sync_boundaries_def Let_def
          del: of_nat_add)
  next
    case False
    then show ?thesis
      unfolding adopt_scan_def Let_def found_sequence
      using more by (cases "t = []") (simp_all add: fs_bind_laws found_def del: of_nat_add)
  qed
qed

end
