(* ===== verification/Och_Volume_Effects.thy ===== *)
theory Och_Volume_Effects
  imports Och_Active
begin

text \<open>
  What file-system programs do to the files whichever calls fail: programs that only read leave both files as they were,
  programs that catch no error return, when they succeed, what they return on a volume where no call fails, and each
  modifying call has one effect when it succeeds and another when it fails.
\<close>

named_theorems reading "programs that leave the files alone"
named_theorems settling "programs whose success does not depend on the faults"

section \<open>Reading\<close>

definition file_content :: "FileNode option \<Rightarrow> (bytes \<times> bytes) option" where
  "file_content f = map_option (\<lambda>f. (fn_data f, fn_durable f)) f"

definition same_files :: "Volume \<Rightarrow> Volume \<Rightarrow> bool" where
  "same_files v w \<longleftrightarrow> file_content (vol_journal v) = file_content (vol_journal w) \<and>
     file_content (vol_checkpoint v) = file_content (vol_checkpoint w) \<and> vol_is_directory v = vol_is_directory w \<and>
     vol_locked v = vol_locked w \<and> vol_slot_atomic v = vol_slot_atomic w"

definition reads_only :: "('e, 'a) fs \<Rightarrow> bool" where
  "reads_only m \<longleftrightarrow> (\<forall>v. same_files v (snd (m v)))"

lemma same_files_refl [simp]: "same_files v v"
  by (simp add: same_files_def)

lemma same_files_trans: "same_files u v \<Longrightarrow> same_files v w \<Longrightarrow> same_files u w"
  by (simp add: same_files_def)

lemma same_files_outcomes [simp]: "same_files (v\<lparr>vol_outcomes := os\<rparr>) w \<longleftrightarrow> same_files v w" "same_files w (v\<lparr>vol_outcomes := os\<rparr>) \<longleftrightarrow> same_files w v"
  by (simp_all add: same_files_def)

lemma reads_only_monad [reading]:
  "reads_only (fs_return x)" "reads_only (fs_fail e)" "reads_only (fs_lift r)"
  by (simp_all add: reads_only_def fs_simps)

lemma reads_only_bind [reading]: "reads_only m \<Longrightarrow> (\<And>x. reads_only (k x)) \<Longrightarrow> reads_only (fs_bind m k)"
  unfolding reads_only_def fs_bind_def
  by (auto split: prod.splits sum.splits) (metis same_files_trans snd_conv)+

lemma reads_only_map_err [reading]: "reads_only m \<Longrightarrow> reads_only (fs_map_err f m)"
  by (auto simp: reads_only_def fs_map_err_def split: prod.splits) (metis snd_conv)

lemma reads_only_io [reading]: "reads_only m \<Longrightarrow> reads_only (io operation m)"
  by (simp add: io_def reading)

lemma reads_only_call: "reads_only act \<Longrightarrow> reads_only (fs_call untouched act)"
  by (auto simp: reads_only_def fs_call_def untouched_def split: list.splits IoOutcome.splits)
    (metis same_files_outcomes(1))

lemma reads_only_on_file:
  assumes "\<And>f. fn_data (snd (step f)) = fn_data f \<and> fn_durable (snd (step f)) = fn_durable f"
  shows "reads_only (on_file a step)"
proof -
  have "file_content (Some g) = file_content (Some f)" if "step f = (r, g)" for f g r
    using assms [of f] that by (simp add: file_content_def)
  then show ?thesis
    by (cases a) (auto simp: reads_only_def on_file_def same_files_def split: option.splits prod.splits; metis)+
qed

lemma reads_only_calls [reading]:
  "reads_only (fs_open a)" "reads_only (fs_len a)" "reads_only (fs_seek_start a off)" "reads_only (fs_seek_end a)"
  "reads_only (fs_read_exact a n)" "reads_only fs_try_lock" "reads_only fs_directory_metadata"
  unfolding fs_open_def fs_len_def fs_seek_start_def fs_seek_end_def fs_read_exact_def fs_try_lock_def fs_directory_metadata_def
  by (intro reads_only_call reads_only_on_file; simp add: reads_only_def)+

lemma reads_only_if [reading]: "reads_only m \<Longrightarrow> reads_only k \<Longrightarrow> reads_only (if b then m else k)"
  by simp

section \<open>Success without faults\<close>

definition calm :: "Volume \<Rightarrow> Volume" where
  "calm v = v\<lparr>vol_outcomes := []\<rparr>"

definition settled :: "('e, 'a) fs \<Rightarrow> bool" where
  "settled m \<longleftrightarrow> (\<forall>v x w. m v = (Inr x, w) \<longrightarrow> m (calm v) = (Inr x, calm w))"

lemma settledD: "settled m \<Longrightarrow> m v = (Inr x, w) \<Longrightarrow> m (calm v) = (Inr x, calm w)"
  by (simp add: settled_def)

lemma settled_monad [settling]: "settled (fs_return x)" "settled (fs_fail e)" "settled (fs_lift r)"
  by (simp_all add: settled_def fs_simps)

lemma settled_bind [settling]: "settled m \<Longrightarrow> (\<And>x. settled (k x)) \<Longrightarrow> settled (fs_bind m k)"
  unfolding settled_def fs_bind_Inr_conv by blast

lemma settled_map_err [settling]: "settled m \<Longrightarrow> settled (fs_map_err f m)"
  by (auto simp: settled_def fs_map_err_def map_err_def split: prod.splits sum.splits)

lemma settled_io [settling]: "settled m \<Longrightarrow> settled (io operation m)"
  by (simp add: io_def settling)

lemma settled_call:
  assumes "\<And>v os. act (v\<lparr>vol_outcomes := os\<rparr>) = (case act (v\<lparr>vol_outcomes := []\<rparr>) of (r, w) \<Rightarrow> (r, w\<lparr>vol_outcomes := os\<rparr>))"
  shows "settled (fs_call part act)"
proof -
  have "act (v\<lparr>vol_outcomes := []\<rparr>) = (Inr x, w\<lparr>vol_outcomes := []\<rparr>)" if "act (v\<lparr>vol_outcomes := os\<rparr>) = (Inr x, w)" for v os x w
    using that assms [where v = v and os = os] assms [where v = v and os = "[]"] by (auto split: prod.splits)
  note act = this
  show ?thesis unfolding settled_def
  proof (intro allI impI)
    fix v x w assume run: "fs_call part act v = (Inr x, w)"
    have same: "act (v\<lparr>vol_outcomes := []\<rparr>) = act v" if "vol_outcomes v = []" using that by (cases v) simp
    from run have "\<exists>os. act (v\<lparr>vol_outcomes := os\<rparr>) = (Inr x, w)"
    proof (cases "vol_outcomes v")
      case Nil
      then have "act (v\<lparr>vol_outcomes := []\<rparr>) = (Inr x, w)" using run same by (simp add: fs_call_def)
      then show ?thesis by blast
    qed (auto simp: fs_call_def split: IoOutcome.splits)
    then have "act (calm v) = (Inr x, calm w)" using act by (auto simp: calm_def)
    then show "fs_call part act (calm v) = (Inr x, calm w)" by (simp add: fs_call_def calm_def)
  qed
qed

lemma settled_calls [settling]:
  "settled (fs_open a)" "settled (fs_len a)" "settled (fs_seek_start a off)" "settled (fs_seek_end a)"
  "settled (fs_read_exact a n)" "settled fs_try_lock" "settled fs_directory_metadata" "settled (fs_write_all a bs)" "settled (fs_set_len a len)"
  "settled (fs_sync_all a)"
  unfolding fs_open_def fs_len_def fs_seek_start_def fs_seek_end_def fs_read_exact_def fs_try_lock_def fs_directory_metadata_def
    fs_write_all_def fs_set_len_def fs_sync_all_def
  by (rule settled_call; cases a; auto simp: on_file_def split: option.splits prod.splits)+

lemma settled_if [settling]: "settled m \<Longrightarrow> settled k \<Longrightarrow> settled (if b then m else k)"
  by simp

lemma reads_only_cases [reading]:
  "(\<And>e. reads_only (f e)) \<Longrightarrow> (\<And>x. reads_only (g x)) \<Longrightarrow> reads_only (case r of Inl e \<Rightarrow> f e | Inr x \<Rightarrow> g x)"
  "reads_only k \<Longrightarrow> (\<And>y. reads_only (h y)) \<Longrightarrow> reads_only (case p of None \<Rightarrow> k | Some y \<Rightarrow> h y)"
  "(\<And>y z. reads_only (q y z)) \<Longrightarrow> reads_only (case t of (y, z) \<Rightarrow> q y z)"
  by (auto split: sum.splits option.splits prod.splits)

lemma settled_cases [settling]:
  "(\<And>e. settled (f e)) \<Longrightarrow> (\<And>x. settled (g x)) \<Longrightarrow> settled (case r of Inl e \<Rightarrow> f e | Inr x \<Rightarrow> g x)"
  "settled k \<Longrightarrow> (\<And>y. settled (h y)) \<Longrightarrow> settled (case p of None \<Rightarrow> k | Some y \<Rightarrow> h y)"
  "(\<And>y z. settled (q y z)) \<Longrightarrow> settled (case t of (y, z) \<Rightarrow> q y z)"
  by (auto split: sum.splits option.splits prod.splits)

section \<open>The scans\<close>

lemma scan_journal_frame_reads [reading]: "reads_only (scan_journal_frame identity limits checkpoint journal_len s)"
  unfolding scan_journal_frame_def Let_def by (intro reading)

lemma scan_journal_frame_settled [settling]: "settled (scan_journal_frame identity limits checkpoint journal_len s)"
  unfolding scan_journal_frame_def Let_def by (intro settling)

lemma scan_journal_frames_reads [reading]: "reads_only (scan_journal_frames identity limits checkpoint journal_len budget s)"
proof (induction budget arbitrary: s)
  case 0
  show ?case by (subst scan_journal_frames.simps) (simp add: reading)
next
  case (Suc n)
  show ?case by (subst scan_journal_frames.simps) (simp add: reading Suc)
qed

lemma scan_journal_frames_settled [settling]: "settled (scan_journal_frames identity limits checkpoint journal_len budget s)"
proof (induction budget arbitrary: s)
  case 0
  show ?case by (subst scan_journal_frames.simps) (simp add: settling)
next
  case (Suc n)
  show ?case by (subst scan_journal_frames.simps) (simp add: settling Suc)
qed

lemma scan_journal_reads [reading]: "reads_only (scan_journal identity limits checkpoint n journal_len)"
  unfolding scan_journal_def by (intro reading)

lemma scan_journal_settled [settling]: "settled (scan_journal identity limits checkpoint n journal_len)"
  unfolding scan_journal_def by (intro settling)

lemma scan_root_frame_reads [reading]: "reads_only (scan_root_frame identity limits root_end s)"
  unfolding scan_root_frame_def Let_def by (intro reading)

lemma scan_root_frames_reads [reading]: "reads_only (scan_root_frames identity limits root_end budget s)"
proof (induction budget arbitrary: s)
  case 0
  show ?case by (subst scan_root_frames.simps) (simp add: reading)
next
  case (Suc n)
  show ?case by (subst scan_root_frames.simps) (simp add: reading Suc)
qed

lemma scan_manifest_root_reads [reading]: "reads_only (scan_manifest_root identity limits checkpoint n journal_len root)"
  unfolding scan_manifest_root_def classify_short_suffix_def classify_framed_suffix_def Let_def by (intro reading)

lemma open_steps_reads [reading]:
  "reads_only open_directory" "reads_only (open_artifact a)" "reads_only lock_journal" "reads_only (open_journal identity limits policy)"
  "reads_only (read_checkpoint identity n journal_len)"
proof -
  show dir: "reads_only open_directory" unfolding open_directory_def by (intro reading reads_only_call)
  show art: "reads_only (open_artifact a)" for a unfolding open_artifact_def by (intro reading)
  show lock: "reads_only lock_journal" unfolding lock_journal_def by (intro reading) (simp add: reading split: TryLock.splits)
  show "reads_only (open_journal identity limits policy)" unfolding open_journal_def by (intro reading art lock)
  show "reads_only (read_checkpoint identity n journal_len)" unfolding read_checkpoint_def by (intro reading)
qed

lemma open_steps_settled [settling]:
  "settled (open_artifact a)" "settled lock_journal" "settled (open_journal identity limits policy)" "settled (read_checkpoint identity n journal_len)"
proof -
  show art: "settled (open_artifact a)" for a unfolding open_artifact_def by (intro settling)
  show lock: "settled lock_journal" unfolding lock_journal_def by (intro settling) (simp add: settling split: TryLock.splits)
  show "settled (open_journal identity limits policy)" unfolding open_journal_def by (intro settling art lock)
  show "settled (read_checkpoint identity n journal_len)" unfolding read_checkpoint_def by (intro settling)
qed

section \<open>A rooted open changes no file\<close>

lemma load_checkpoint_strict_reads: "reads_only (load_checkpoint identity n Strict journal_len)"
proof -
  have "reads_only (open_checkpoint_file identity n Strict journal_len)"
    using open_steps_reads(2) [of CheckpointFile]
    by (auto simp: reads_only_def open_checkpoint_file_def split: prod.splits sum.splits) (metis snd_conv)+
  then show ?thesis by (simp add: load_checkpoint_def reading)
qed

lemma open_checkpoint_rooted_reads: "reads_only (open_checkpoint identity n Strict (Some root) journal_len)"
  by (simp add: open_checkpoint_def reading load_checkpoint_strict_reads)

lemma adopt_scan_rooted_reads: "reads_only (adopt_scan identity n True checkpoint scan)"
  unfolding adopt_scan_def Let_def by (simp add: reading)

lemma open_manifest_root_reads: "reads_only (open_manifest_root config root)"
proof -
  have "reads_only (open_existing identity n limits Strict (Some root))" for identity n limits
    unfolding open_existing_def option.simps using adopt_scan_rooted_reads open_checkpoint_rooted_reads
    by (intro reading) simp_all
  then show ?thesis unfolding open_manifest_root_def by (cases "cfg_recovery_policy config") (auto intro!: reading)
qed

lemma preflight_reads: "reads_only (preflight_manifest_genesis sid)"
proof -
  have "reads_only (\<lambda>v. case open_artifact CheckpointFile v of
      (Inl e, v') \<Rightarrow> if e = AjMissingArtifact then (Inr (), v') else (Inl e, v')
    | (Inr _, v') \<Rightarrow> k v')" if k: "reads_only k" for k :: "(ActiveJournalError, unit) fs"
    unfolding reads_only_def
  proof
    fix v
    obtain r w where run: "open_artifact CheckpointFile v = (r, w)" by fastforce
    have "same_files v w" using open_steps_reads(2) [of CheckpointFile] run by (auto simp: reads_only_def) (metis snd_conv)
    moreover have "same_files w (snd (k w))" using k by (simp add: reads_only_def)
    ultimately show "same_files v (snd (case open_artifact CheckpointFile v of
      (Inl e, v') \<Rightarrow> if e = AjMissingArtifact then (Inr (), v') else (Inl e, v')
    | (Inr _, v') \<Rightarrow> k v'))" unfolding run by (auto split: sum.splits intro: same_files_trans)
  qed
  note catch = this
  show ?thesis unfolding preflight_manifest_genesis_def Let_def
    by (intro reading catch)
qed

section \<open>How many calls a program makes\<close>

text \<open>Every call consumes one outcome while there are any, so a program makes at most \<open>k\<close> calls when it never consumes more.\<close>

definition calls_within :: "nat \<Rightarrow> ('e, 'a) fs \<Rightarrow> bool" where
  "calls_within k m \<longleftrightarrow> (\<forall>v. length (vol_outcomes v) \<le> length (vol_outcomes (snd (m v))) + k)"

lemma calls_within_mono: "calls_within k m \<Longrightarrow> k \<le> l \<Longrightarrow> calls_within l m"
  unfolding calls_within_def by (meson add_left_mono le_trans)

named_theorems calling "how many calls the constructs make"

lemma calls_monad [calling]: "calls_within 0 (fs_return x)" "calls_within 0 (fs_fail e)" "calls_within 0 (fs_lift r)"
  by (simp_all add: calls_within_def fs_simps)

lemma calls_bind [calling]:
  assumes m: "calls_within k m" and f: "\<And>x. calls_within l (f x)"
  shows "calls_within (k + l) (fs_bind m f)"
  unfolding calls_within_def
proof
  fix v
  obtain r w where run: "m v = (r, w)" by fastforce
  have 1: "length (vol_outcomes v) \<le> length (vol_outcomes w) + k" using m [unfolded calls_within_def, rule_format, of v] run by simp
  show "length (vol_outcomes v) \<le> length (vol_outcomes (snd (fs_bind m f v))) + (k + l)"
  proof (cases r)
    case (Inr x)
    then show ?thesis using 1 run f [of x, unfolded calls_within_def, rule_format, of w] by (simp add: fs_bind_def)
  qed (use 1 run in \<open>simp add: fs_bind_def\<close>)
qed

lemma calls_map_err [calling]: "calls_within k m \<Longrightarrow> calls_within k (fs_map_err f m)"
  unfolding calls_within_def fs_map_err_def by (simp add: case_prod_unfold)

lemma calls_io [calling]: "calls_within k m \<Longrightarrow> calls_within k (io operation m)"
  by (simp add: io_def calls_map_err)

lemma calls_max: "calls_within k m \<Longrightarrow> calls_within (max k l) m" "calls_within k m \<Longrightarrow> calls_within (max l k) m"
  by (auto elim: calls_within_mono)

lemma calls_cases [calling]:
  "calls_within k a \<Longrightarrow> calls_within l b \<Longrightarrow> calls_within (max k l) (if c then a else b)"
  "(\<And>e. calls_within k (f e)) \<Longrightarrow> (\<And>x. calls_within l (g x)) \<Longrightarrow> calls_within (max k l) (case r of Inl e \<Rightarrow> f e | Inr x \<Rightarrow> g x)"
  "calls_within k a \<Longrightarrow> (\<And>y. calls_within l (h y)) \<Longrightarrow> calls_within (max k l) (case p of None \<Rightarrow> a | Some y \<Rightarrow> h y)"
  "(\<And>y z. calls_within k (q y z)) \<Longrightarrow> calls_within k (case t of (y, z) \<Rightarrow> q y z)"
  "calls_within k a \<Longrightarrow> calls_within l b \<Longrightarrow> calls_within (max k l) (case u of LockAcquired \<Rightarrow> a | LockWouldBlock \<Rightarrow> b)"
  "calls_within k a \<Longrightarrow> calls_within l b \<Longrightarrow> calls_within (max k l) (case md of CreateNew \<Rightarrow> a | OpenExisting \<Rightarrow> b)"
  "calls_within k a \<Longrightarrow> calls_within l b \<Longrightarrow> calls_within (max k l) (case c of True \<Rightarrow> a | False \<Rightarrow> b)"
  by (simp_all add: calls_max split: sum.splits option.splits prod.splits TryLock.splits ActiveJournalOpenMode.splits bool.splits)

lemma calls_call:
  assumes "\<And>v. vol_outcomes (snd (act v)) = vol_outcomes v" "\<And>k v. vol_outcomes (part k v) = vol_outcomes v"
  shows "calls_within 1 (fs_call part act)"
  using assms by (auto simp: calls_within_def fs_call_def split: list.splits IoOutcome.splits)

lemma calls_calls [calling]:
  "calls_within 1 (fs_open a)" "calls_within 1 (fs_len a)" "calls_within 1 (fs_seek_start a off)" "calls_within 1 (fs_seek_end a)"
  "calls_within 1 (fs_read_exact a n)" "calls_within 1 fs_try_lock" "calls_within 1 fs_directory_metadata" "calls_within 1 (fs_write_all a bs)"
  "calls_within 1 (fs_set_len a len)" "calls_within 1 (fs_sync_all a)" "calls_within 1 (fs_create_new a)" "calls_within 1 fs_sync_directory"
  "calls_within 1 (fs_call untouched (fs_return ()))"
  unfolding fs_open_def fs_len_def fs_seek_start_def fs_seek_end_def fs_read_exact_def fs_try_lock_def fs_directory_metadata_def
    fs_write_all_def fs_set_len_def fs_sync_all_def fs_create_new_def fs_sync_directory_def
  by (rule calls_call; cases a; auto simp: on_file_def untouched_def fs_return_def split: option.splits prod.splits)+

lemma calls_scan_frame: "calls_within 3 (scan_journal_frame identity limits checkpoint journal_len s)"
  unfolding scan_journal_frame_def Let_def by (rule calls_within_mono, (rule calling)+) simp

lemma calls_scan_frames [calling]: "calls_within (3 * budget) (scan_journal_frames identity limits checkpoint journal_len budget s)"
proof (induction budget arbitrary: s)
  case 0
  show ?case by (subst scan_journal_frames.simps) (simp add: calls_monad)
next
  case (Suc k)
  show ?case by (subst scan_journal_frames.simps) (simp only: nat.case, rule calls_within_mono, (rule calling calls_scan_frame Suc)+, simp)
qed

lemma calls_scan_journal [calling]: "calls_within (3 * lim_records limits) (scan_journal identity limits checkpoint n journal_len)"
  unfolding scan_journal_def by (rule calls_within_mono, (rule calling)+) simp

lemma calls_checkpoint [calling]:
  "calls_within 2 (write_prepared_checkpoint_slot p)" "calls_within 5 (initialize_checkpoint identity n)"
  "calls_within 5 (initialize_prepared_checkpoint p)" "calls_within 1 (read_checkpoint identity n journal_len)"
proof -
  show w: "calls_within 2 (write_prepared_checkpoint_slot p)" for p
    unfolding write_prepared_checkpoint_slot_def by (rule calls_within_mono, (rule calling)+) simp
  show i: "calls_within 5 (initialize_prepared_checkpoint p)" for p
    unfolding initialize_prepared_checkpoint_def by (rule calls_within_mono, (rule calling w)+) simp
  show "calls_within 5 (initialize_checkpoint identity n)"
    unfolding initialize_checkpoint_def Let_def by (rule calls_within_mono, (rule calling i)+) simp
  show "calls_within 1 (read_checkpoint identity n journal_len)" unfolding read_checkpoint_def by (rule calls_within_mono, (rule calling)+) simp
qed

lemma calls_artifacts [calling]:
  "calls_within 2 open_directory" "calls_within 1 (create_artifact a)" "calls_within 1 (open_artifact a)" "calls_within 1 lock_journal"
  unfolding open_directory_def create_artifact_def open_artifact_def lock_journal_def
  by (rule calls_within_mono, (rule calling)+, simp)+

lemma calls_create_new [calling]: "calls_within 10 (create_new identity n limits)"
  unfolding create_new_def Let_def by (rule calls_within_mono, (rule calling)+) simp

lemma calls_open_journal [calling]: "calls_within 4 (open_journal identity limits policy)"
  unfolding open_journal_def by (rule calls_within_mono, (rule calling)+) simp

lemma calls_open_checkpoint_file [calling]: "calls_within 7 (open_checkpoint_file identity n policy journal_len)"
  unfolding calls_within_def
proof
  fix v
  define create where "create = fs_bind (create_artifact CheckpointFile) (\<lambda>_. fs_bind (initialize_checkpoint identity n) (\<lambda>state. fs_return (Some state)))"
  have c: "calls_within 6 create" unfolding create_def by (rule calls_within_mono, (rule calling)+) simp
  obtain r w where run: "open_artifact CheckpointFile v = (r, w)" by fastforce
  have 1: "length (vol_outcomes v) \<le> length (vol_outcomes w) + 1"
    using calls_artifacts(3) [of CheckpointFile, unfolded calls_within_def, rule_format, of v] run by simp
  show "length (vol_outcomes v) \<le> length (vol_outcomes (snd (open_checkpoint_file identity n policy journal_len v))) + 7"
    using 1 c [unfolded calls_within_def, rule_format, of w] by (auto simp: open_checkpoint_file_def run create_def [symmetric] split: sum.splits)
qed

lemma calls_open_checkpoint [calling]: "calls_within 19 (open_checkpoint identity n policy root journal_len)"
  unfolding open_checkpoint_def load_checkpoint_def by (rule calls_within_mono, (rule calling)+) simp

lemma calls_scan_root_frame: "calls_within 3 (scan_root_frame identity limits root_end s)"
  unfolding scan_root_frame_def Let_def by (rule calls_within_mono, (rule calling)+) simp

lemma calls_scan_root_frames [calling]: "calls_within (3 * budget) (scan_root_frames identity limits root_end budget s)"
proof (induction budget arbitrary: s)
  case 0
  show ?case by (subst scan_root_frames.simps) (simp add: calls_monad)
next
  case (Suc k)
  show ?case by (subst scan_root_frames.simps) (simp only: nat.case, rule calls_within_mono, (rule calling calls_scan_root_frame Suc)+, simp)
qed

lemma calls_scan_root [calling]: "calls_within (3 * lim_records limits + 3) (scan_manifest_root identity limits checkpoint n journal_len root)"
  unfolding scan_manifest_root_def classify_short_suffix_def classify_framed_suffix_def Let_def
  by (rule calls_within_mono, (rule calling)+) simp

lemma calls_adopt [calling]: "calls_within 6 (adopt_scan identity n rooted checkpoint scan)"
  unfolding adopt_scan_def Let_def
  by (rule calls_within_mono, (rule calling)+) simp

lemma calls_open_existing [calling]: "calls_within (3 * lim_records limits + 32) (open_existing identity n limits policy root)"
  unfolding open_existing_def by (rule calls_within_mono, (rule calling)+) simp

end
