(* ===== verification/Och_Active_Disk.thy ===== *)
theory Och_Active_Disk
  imports Och_Active_Open Och_Volume_Effects
begin

text \<open>
  What the two files of an active journal may hold at any moment, whichever calls failed, and what a crash may leave of them.
\<close>

section \<open>Files on the volume\<close>

record Disk =
  dk_journal :: bytes
  dk_journal_durable :: bytes
  dk_checkpoint :: bytes
  dk_checkpoint_durable :: bytes

definition holds :: "Disk \<Rightarrow> Volume \<Rightarrow> bool" where
  "holds D v \<longleftrightarrow> vol_is_directory v \<and> \<not> vol_locked v \<and> vol_slot_atomic v \<and>
     file_content (vol_journal v) = Some (dk_journal D, dk_journal_durable D) \<and>
     file_content (vol_checkpoint v) = Some (dk_checkpoint D, dk_checkpoint_durable D)"

lemma holds_same_files: "holds D v \<Longrightarrow> same_files v w \<Longrightarrow> holds D w"
  by (simp add: holds_def same_files_def)

lemma holds_outcomes [simp]: "holds D (v\<lparr>vol_outcomes := os\<rparr>) \<longleftrightarrow> holds D v"
  by (simp add: holds_def)

lemma holds_reads: "reads_only m \<Longrightarrow> holds D v \<Longrightarrow> m v = (r, w) \<Longrightarrow> holds D w"
  unfolding reads_only_def by (metis holds_same_files snd_conv)

lemma holds_calm:
  assumes "holds D v"
  obtains j c where "calm v = quiet j c" "fn_data j = dk_journal D" "fn_durable j = dk_journal_durable D"
    "fn_data c = dk_checkpoint D" "fn_durable c = dk_checkpoint_durable D"
proof -
  obtain j c where "vol_journal v = Some j" "vol_checkpoint v = Some c" "fn_data j = dk_journal D" "fn_durable j = dk_journal_durable D"
    "fn_data c = dk_checkpoint D" "fn_durable c = dk_checkpoint_durable D"
    using assms by (auto simp: holds_def file_content_def)
  then show thesis using that assms by (cases v) (auto simp: calm_def quiet_def holds_def)
qed

lemma holds_quiet [simp]: "holds D (quiet j c) \<longleftrightarrow>
   fn_data j = dk_journal D \<and> fn_durable j = dk_journal_durable D \<and> fn_data c = dk_checkpoint D \<and> fn_durable c = dk_checkpoint_durable D"
  by (auto simp: holds_def quiet_def file_content_def)

text \<open>Calls that change the files; the outcome is the environment's choice.\<close>

lemma sync_journal_effect:
  assumes "holds D v" "io op (fs_sync_all JournalFile) v = (r, w)"
  shows "case r of Inl _ \<Rightarrow> holds D w | Inr _ \<Rightarrow> holds (D\<lparr>dk_journal_durable := dk_journal D\<rparr>) w"
  using assms by (auto simp: holds_def file_content_def io_def fs_map_err_def fs_sync_all_def fs_call_def on_file_def untouched_def
      map_err_def split: list.splits IoOutcome.splits)

lemma sync_checkpoint_effect:
  assumes "holds D v" "io op (fs_sync_all CheckpointFile) v = (r, w)"
  shows "case r of Inl _ \<Rightarrow> holds D w | Inr _ \<Rightarrow> holds (D\<lparr>dk_checkpoint_durable := dk_checkpoint D\<rparr>) w"
  using assms by (auto simp: holds_def file_content_def io_def fs_map_err_def fs_sync_all_def fs_call_def on_file_def untouched_def
      map_err_def split: list.splits IoOutcome.splits)

lemma truncate_effect:
  assumes "holds D v" "io op (fs_set_len JournalFile n) v = (r, w)"
  shows "case r of Inl _ \<Rightarrow> holds D w | Inr _ \<Rightarrow> holds (D\<lparr>dk_journal := resize (unat n) (dk_journal D)\<rparr>) w"
  using assms by (auto simp: holds_def file_content_def io_def fs_map_err_def fs_set_len_def fs_call_def on_file_def untouched_def
      map_err_def split: list.splits IoOutcome.splits)

lemma append_effect:
  assumes "holds D v" "fs_bind (io op (fs_seek_end JournalFile)) (\<lambda>_. io op' (fs_write_all JournalFile bs)) v = (r, w)"
  shows "case r of Inl _ \<Rightarrow> \<exists>k. holds (D\<lparr>dk_journal := dk_journal D @ take k bs\<rparr>) w | Inr _ \<Rightarrow> holds (D\<lparr>dk_journal := dk_journal D @ bs\<rparr>) w"
proof -
  have same: "holds D w \<Longrightarrow> \<exists>k. holds (D\<lparr>dk_journal := dk_journal D @ take k bs\<rparr>) w" for w by (intro exI [of _ 0]) simp
  obtain r1 v1 where seek: "io op (fs_seek_end JournalFile) v = (r1, v1)" by fastforce
  have h1: "holds D v1" using assms(1) seek by (rule holds_reads [rotated]) (intro reading)
  show ?thesis
  proof (cases r1)
    case (Inl e)
    then show ?thesis using assms(2) seek h1 same [of v1] by (auto simp: fs_bind_def)
  next
    case (Inr u)
    have pos: "\<exists>f. vol_journal v1 = Some f \<and> fn_pos f = length (fn_data f)"
      using seek Inr assms(1) by (auto simp: holds_def file_content_def io_def fs_map_err_def fs_seek_end_def fs_call_def on_file_def untouched_def
          map_err_def split: list.splits IoOutcome.splits)
    have "io op' (fs_write_all JournalFile bs) v1 = (r, w)" using assms(2) seek Inr by (simp add: fs_bind_def)
    with h1 pos show ?thesis
      by (auto simp: holds_def file_content_def io_def fs_map_err_def fs_write_all_def fs_call_def on_file_def file_write_def written_def
          map_err_def split: list.splits IoOutcome.splits)
  qed
qed

lemma write_slot_effect:
  assumes "holds D v" "prepare_checkpoint_slot identity st = Inr p" "write_prepared_checkpoint_slot p v = (r, w)"
    "length (dk_checkpoint D) = 128"
  shows "holds D w \<and> (\<exists>e. r = Inl e) \<or>
    holds (D\<lparr>dk_checkpoint := splice (slot_index st * 64) (encode_checkpoint identity st) (dk_checkpoint D)\<rparr>) w"
proof -
  have p: "p = \<lparr>pcs_bytes = encode_checkpoint identity st, pcs_offset = of_nat (slot_index st * 64)\<rparr>"
    using assms(2) by (simp add: prepare_checkpoint_slot_def Let_def slot_index_def CHECKPOINT_SLOT_LEN_def)
  have off: "unat (of_nat (slot_index st * 64) :: u64) = slot_index st * 64" using slot_index_cases [of st] by auto
  let ?seek = "io OpSeek (fs_seek_start CheckpointFile (pcs_offset p))"
  obtain r1 v1 where seek: "?seek v = (r1, v1)" by fastforce
  have h1: "holds D v1" using assms(1) seek by (rule holds_reads [rotated]) (intro reading)
  show ?thesis
  proof (cases r1)
    case (Inl e)
    then show ?thesis using assms(3) seek h1 by (auto simp: write_prepared_checkpoint_slot_def fs_bind_def)
  next
    case (Inr u)
    have pos: "\<exists>f. vol_checkpoint v1 = Some f \<and> fn_pos f = slot_index st * 64"
      using seek Inr assms(1) off by (auto simp: p holds_def file_content_def io_def fs_map_err_def fs_seek_start_def fs_call_def on_file_def untouched_def
          map_err_def split: list.splits IoOutcome.splits)
    have none: "splice (slot_index st * 64) [] (dk_checkpoint D) = dk_checkpoint D" using slot_index_cases [of st] assms(4) by (auto simp: splice_def)
    have "io OpWrite (fs_write_all CheckpointFile (encode_checkpoint identity st)) v1 = (r, w)"
      using assms(3) seek Inr by (simp add: write_prepared_checkpoint_slot_def fs_bind_def p)
    with h1 pos none show ?thesis
      by (auto simp: holds_def file_content_def io_def fs_map_err_def fs_write_all_def fs_call_def on_file_def file_write_def written_def
          map_err_def split: list.splits IoOutcome.splits if_splits)
  qed
qed

section \<open>Readable journals\<close>

text \<open>The first \<open>r\<close> records of \<open>app\<close>, whole, then nothing or one torn frame, within the limits.\<close>

definition readable_as :: "JournalIdentity \<Rightarrow> ActiveJournalLimits \<Rightarrow> DecodedAdmissionV1 list \<Rightarrow> nat \<Rightarrow> bytes \<Rightarrow> bool" where
  "readable_as identity limits app r bs \<longleftrightarrow> r \<le> length app \<and> (\<exists>t. bs = journal_bytes identity (take r app) @ t \<and>
     torn (ji_store_id identity) (lim_payload limits) t \<and> r + (if t = [] then 0 else 1) \<le> lim_records limits \<and>
     length bs \<le> unat (lim_active_bytes limits))"

definition readable :: "JournalIdentity \<Rightarrow> ActiveJournalLimits \<Rightarrow> DecodedAdmissionV1 list \<Rightarrow> nat \<Rightarrow> bytes \<Rightarrow> bool" where
  "readable identity limits app m bs \<longleftrightarrow> (\<exists>r \<ge> m. readable_as identity limits app r bs)"

lemma readable_mono: "readable identity limits app k bs \<Longrightarrow> m \<le> k \<Longrightarrow> readable identity limits app m bs"
  unfolding readable_def by (meson le_trans)

lemma readable_as_extend:
  assumes "readable_as identity limits (take k app) r bs" "r \<le> k"
  shows "readable_as identity limits app r bs"
  using assms by (simp add: readable_as_def min_def split: if_splits)

lemma readable_extend:
  assumes "readable identity limits (take k app) m bs"
  shows "readable identity limits app m bs"
proof -
  from assms obtain r where r: "m \<le> r" "readable_as identity limits (take k app) r bs" by (auto simp: readable_def)
  then have "r \<le> k" by (simp add: readable_as_def)
  from r(1) readable_as_extend [OF r(2) this] show ?thesis unfolding readable_def by blast
qed

lemma readable_self: "readable_as identity limits app r bs \<Longrightarrow> m \<le> r \<Longrightarrow> readable identity limits (take r app) m bs"
  unfolding readable_def by (intro exI [of _ r]) (simp add: readable_as_def)

lemma torn_take:
  assumes "record_ok sid lim prev d" "k < length (frame_of d)"
  shows "torn sid lim (take k (frame_of d))"
  using assms by (cases k) (auto simp: torn_def)

lemma torn_prefix: "torn sid lim t \<Longrightarrow> prefix x t \<Longrightarrow> torn sid lim x"
proof -
  assume t: "torn sid lim t" and x: "prefix x t"
  show "torn sid lim x"
  proof (cases "t = []")
    case False
    with t obtain d prev k where d: "record_ok sid lim prev d" "t = take k (frame_of d)" "k < length (frame_of d)" by (auto simp: torn_def)
    from x have "x = take (length x) t" "length x \<le> length t" by (auto simp: prefix_def)
    with d(2) have "x = take (length x) (frame_of d)" "length x < length (frame_of d)" using d(3) by (auto simp: min_def)
    with torn_take [OF d(1), of "length x"] show ?thesis by metis
  qed (use x in \<open>auto simp: torn_def\<close>)
qed

lemma cut_frames:
  "chain sid lim prev ds \<Longrightarrow> torn sid lim t \<Longrightarrow> prefix x (frames_bytes ds @ t) \<Longrightarrow>
   \<exists>r t'. r \<le> length ds \<and> x = frames_bytes (take r ds) @ t' \<and> torn sid lim t' \<and> (t' \<noteq> [] \<longrightarrow> r < length ds \<or> t \<noteq> [])"
proof (induction ds arbitrary: prev x)
  case Nil
  then show ?case using torn_prefix [OF Nil.prems(2), of x] by (intro exI [of _ 0] exI [of _ x]) auto
next
  case (Cons d ds)
  have d: "record_ok sid lim prev d" and ch: "chain sid lim (after d) ds" using Cons.prems(1) by simp_all
  show ?case
  proof (cases "length x < length (frame_of d)")
    case True
    then have "x = take (length x) (frame_of d)" using Cons.prems(3) by (auto simp: prefix_def append_eq_append_conv_if split: if_splits)
    with torn_take [OF d True] have "torn sid lim x" by metis
    then show ?thesis by (intro exI [of _ 0] exI [of _ x]) simp
  next
    case False
    have px: "prefix x (frame_of d @ frames_bytes ds @ t)" using Cons.prems(3) by simp
    have "prefix (frame_of d) x" by (rule prefix_length_prefix [OF _ px]) (use False in auto)
    then obtain y where y: "x = frame_of d @ y" by (auto simp: prefix_def)
    with px have x: "x = frame_of d @ y" "prefix y (frames_bytes ds @ t)" by simp_all
    from Cons.IH [OF ch Cons.prems(2) x(2)] obtain r t' where "r \<le> length ds" "y = frames_bytes (take r ds) @ t'" "torn sid lim t'"
      "t' \<noteq> [] \<longrightarrow> r < length ds \<or> t \<noteq> []" by blast
    then show ?thesis using x(1) by (intro exI [of _ "Suc r"] exI [of _ t']) auto
  qed
qed

lemma readable_cut:
  assumes id: "identity_ok (ji_store_id identity)" and ch: "journal_chain identity limits n app" and bs: "readable identity limits app m bs"
    and x: "prefix x bs" and m: "prefix (journal_bytes identity (take m app)) x"
  shows "readable identity limits app m x"
proof -
  obtain r t where r: "m \<le> r" "r \<le> length app" "bs = journal_bytes identity (take r app) @ t" "torn (ji_store_id identity) (lim_payload limits) t"
    "r + (if t = [] then 0 else 1) \<le> lim_records limits" "length bs \<le> unat (lim_active_bytes limits)"
    using bs unfolding readable_def readable_as_def by blast
  obtain z where z: "x = journal_bytes identity (take m app) @ z" using m by (auto simp: prefix_def)
  define ds where "ds = drop m (take r app)"
  have tr: "take r app = take m app @ ds" using r(1) by (simp add: ds_def) (metis append_take_drop_id min.absorb1 take_take)
  have "chain (ji_store_id identity) (lim_payload limits) (floor_previous n) (take r app)"
    using ch chain_append [of _ _ _ "take r app" "drop r app"] by simp
  then have chd: "chain (ji_store_id identity) (lim_payload limits) (last_previous (floor_previous n) (take m app)) ds"
    unfolding tr chain_append by blast
  have "prefix z (frames_bytes ds @ t)" using x by (simp add: z r(3) tr)
  from cut_frames [OF chd r(4) this] obtain q t' where q: "q \<le> length ds" "z = frames_bytes (take q ds) @ t'"
    "torn (ji_store_id identity) (lim_payload limits) t'" "t' \<noteq> [] \<longrightarrow> q < length ds \<or> t \<noteq> []" by blast
  have "length ds = r - m" using r by (simp add: ds_def)
  then have "take (m + q) app = take m app @ take q ds" using q(1) r by (simp add: ds_def take_add drop_take min_def)
  then have "x = journal_bytes identity (take (m + q) app) @ t'" by (simp add: z q(2))
  moreover have "length x \<le> length bs" using x by (rule prefix_length_le)
  ultimately have "readable_as identity limits app (m + q) x" unfolding readable_as_def
    using q r \<open>length ds = r - m\<close> by (intro conjI exI [of _ t']) (auto split: if_splits)
  then show ?thesis unfolding readable_def using le_add1 by blast
qed

lemma readable_start: "readable identity limits app m bs \<Longrightarrow> prefix (journal_bytes identity (take m app)) bs"
proof -
  assume "readable identity limits app m bs"
  then obtain r t where r: "m \<le> r" "bs = journal_bytes identity (take r app) @ t" by (auto simp: readable_def readable_as_def)
  have "take r app = take m app @ drop m (take r app)" using r(1) by (metis append_take_drop_id min.absorb1 take_take)
  then have "journal_bytes identity (take r app) = journal_bytes identity (take m app) @ frames_bytes (drop m (take r app))"
    by (metis journal_bytes_append)
  then show ?thesis by (simp add: r(2))
qed

section \<open>What the disk may hold\<close>

definition slot_written :: "JournalIdentity \<Rightarrow> CheckpointState \<Rightarrow> bytes \<Rightarrow> bytes" where
  "slot_written identity st bs = splice (slot_index st * 64) (encode_checkpoint identity st) bs"

text \<open>
  Records \<open>dur\<close> have been reported durable; records \<open>app\<close> have been handed to \<open>append\<close>, the last one perhaps in vain.
  Either the checkpoint on disk is settled and both images of the journal reach it, the durable one with no more whole
  frames than the current one, or a newer slot is waiting for its synchronization and the journal it describes is durable.
\<close>

definition checkpoint_settled ::
  "JournalIdentity \<Rightarrow> ActiveJournalLimits \<Rightarrow> u64 \<Rightarrow> DecodedAdmissionV1 list \<Rightarrow> nat \<Rightarrow> nat \<Rightarrow> Disk \<Rightarrow> bool" where
  "checkpoint_settled identity limits n app m g D \<longleftrightarrow> slots identity n app m g (dk_checkpoint D) \<and>
     dk_checkpoint_durable D = dk_checkpoint D \<and>
     (\<exists>r \<ge> m. readable_as identity limits app r (dk_journal D) \<and> readable identity limits (take r app) m (dk_journal_durable D))"

definition checkpoint_waiting ::
  "JournalIdentity \<Rightarrow> ActiveJournalLimits \<Rightarrow> u64 \<Rightarrow> DecodedAdmissionV1 list \<Rightarrow> nat \<Rightarrow> nat \<Rightarrow> nat \<Rightarrow> Disk \<Rightarrow> bool" where
  "checkpoint_waiting identity limits n app m k g D \<longleftrightarrow> m < k \<and> k \<le> length app \<and>
     slots identity n app m g (dk_checkpoint_durable D) \<and>
     dk_checkpoint D = slot_written identity (state_at n (g + 1) (take k app)) (dk_checkpoint_durable D) \<and>
     dk_journal D = journal_bytes identity (take k app) \<and> dk_journal_durable D = dk_journal D \<and>
     readable identity limits app k (dk_journal D)"

definition scope_ok :: "JournalIdentity \<Rightarrow> ActiveJournalLimits \<Rightarrow> u64 \<Rightarrow> DecodedAdmissionV1 list \<Rightarrow> bool" where
  "scope_ok identity limits n app \<longleftrightarrow> identity_ok (ji_store_id identity) \<and> active_limits_ok limits \<and> journal_chain identity limits n app \<and>
     length app \<le> lim_records limits"

definition disk_ok ::
  "JournalIdentity \<Rightarrow> ActiveJournalLimits \<Rightarrow> u64 \<Rightarrow> DecodedAdmissionV1 list \<Rightarrow> DecodedAdmissionV1 list \<Rightarrow> Disk \<Rightarrow> bool" where
  "disk_ok identity limits n dur app D \<longleftrightarrow> scope_ok identity limits n app \<and> prefix dur app \<and>
     (\<exists>m \<ge> length dur. (\<exists>g. checkpoint_settled identity limits n app m g D) \<or> (\<exists>k g. checkpoint_waiting identity limits n app m k g D))"

section \<open>Crashes\<close>

text \<open>
  After a crash a file has the bytes on which the durable and the current image agree, and goes on like one of them for a
  while; each checkpoint slot is the durable one or the current one.
\<close>

definition survives :: "bytes \<Rightarrow> bytes \<Rightarrow> bytes \<Rightarrow> bool" where
  "survives old new x \<longleftrightarrow> (prefix x old \<or> prefix x new) \<and> (\<forall>p. prefix p old \<longrightarrow> prefix p new \<longrightarrow> prefix p x)"

definition slot_survives :: "bytes \<Rightarrow> bytes \<Rightarrow> bytes \<Rightarrow> bool" where
  "slot_survives old new y \<longleftrightarrow> (take 64 y = take 64 old \<or> take 64 y = take 64 new) \<and> (drop 64 y = drop 64 old \<or> drop 64 y = drop 64 new)"

definition crashed :: "Disk \<Rightarrow> Disk \<Rightarrow> bool" where
  "crashed D D' \<longleftrightarrow> survives (dk_journal_durable D) (dk_journal D) (dk_journal D') \<and>
     slot_survives (dk_checkpoint_durable D) (dk_checkpoint D) (dk_checkpoint D') \<and>
     dk_journal_durable D' = dk_journal D' \<and> dk_checkpoint_durable D' = dk_checkpoint D'"

lemma survives_readable:
  assumes "identity_ok (ji_store_id identity)" "journal_chain identity limits n app" "readable identity limits app m old"
    "readable identity limits app m new" "survives old new x"
  shows "readable identity limits app m x"
  using assms readable_cut [OF assms(1,2)] readable_start by (auto simp: survives_def)

lemma slot_survives_same: "slot_survives bs bs y \<Longrightarrow> y = bs"
  by (metis append_take_drop_id slot_survives_def)

lemma slot_survives_written:
  assumes "length bs = 128" "length (encode_checkpoint identity st) = 64" "slot_survives bs (slot_written identity st bs) y"
  shows "y = bs \<or> y = slot_written identity st bs"
proof -
  have "take 64 (slot_written identity st bs) = take 64 bs \<or> drop 64 (slot_written identity st bs) = drop 64 bs"
    using slot_index_cases [of st] assms(1,2) by (auto simp: slot_written_def splice_def)
  then show ?thesis using assms(3) unfolding slot_survives_def by (metis append_take_drop_id)
qed

lemma settled_readable:
  assumes "checkpoint_settled identity limits n app m g D"
  shows "readable identity limits app m (dk_journal D)" "readable identity limits app m (dk_journal_durable D)"
proof -
  obtain r where r: "m \<le> r" "readable_as identity limits app r (dk_journal D)" "readable identity limits (take r app) m (dk_journal_durable D)"
    using assms by (auto simp: checkpoint_settled_def)
  then show "readable identity limits app m (dk_journal D)" by (auto simp: readable_def)
  show "readable identity limits app m (dk_journal_durable D)" using r(3) by (rule readable_extend)
qed

lemma settledI:
  assumes "slots identity n app m g (dk_checkpoint D)" "dk_checkpoint_durable D = dk_checkpoint D" "dk_journal_durable D = dk_journal D"
    "readable identity limits app m (dk_journal D)"
  shows "checkpoint_settled identity limits n app m g D"
proof -
  obtain r where "m \<le> r" "readable_as identity limits app r (dk_journal D)" using assms(4) by (auto simp: readable_def)
  then show ?thesis using assms(1-3) readable_self by (auto simp: checkpoint_settled_def)
qed

lemma waiting_slots:
  assumes "identity_ok (ji_store_id identity)" "active_limits_ok limits" "journal_chain identity limits n app" "length app \<le> lim_records limits"
    and w: "checkpoint_waiting identity limits n app m k g D"
  shows "slots identity n app k (g + 1) (dk_checkpoint D)"
proof -
  have bs: "slots identity n app m g (dk_checkpoint_durable D)" "m < k" "k \<le> length app"
      "dk_checkpoint D = slot_written identity (state_at n (g + 1) (take k app)) (dk_checkpoint_durable D)"
    using w by (simp_all add: checkpoint_waiting_def)
  have "length (journal_bytes identity (take k app)) \<le> unat (lim_active_bytes limits)"
    using w by (auto simp: checkpoint_waiting_def readable_def readable_as_def)
  then have fr: "28 + length (frames_bytes (take k app)) < 2 ^ 63" "length app < 2 ^ 32"
    using assms(1,2,4) by (simp_all add: length_journal_bytes active_limits_ok_def word_le_nat_alt)
  have chk: "journal_chain identity limits n (take k app)" using assms(3) chain_append [of _ _ _ "take k app" "drop k app"] by simp
  have "slots identity n (take k app) m g (dk_checkpoint_durable D)" using bs by (intro slots_prefix [OF bs(1)]) (simp_all add: min_def)
  from slots_next [OF assms(1) this chk, of k] bs fr have "slots identity n (take k app) k (g + 1) (dk_checkpoint D)"
    by (simp add: slot_written_def)
  then show ?thesis using bs by (auto intro: slots_prefix)
qed

lemma crash_ok:
  assumes "disk_ok identity limits n dur app D" "crashed D D'"
  shows "disk_ok identity limits n dur app D'"
proof -
  have st: "identity_ok (ji_store_id identity)" "active_limits_ok limits" "journal_chain identity limits n app" "length app \<le> lim_records limits" "prefix dur app"
    using assms(1) by (simp_all add: disk_ok_def scope_ok_def)
  from assms(1) obtain m where m: "length dur \<le> m" and
    alt: "(\<exists>g. checkpoint_settled identity limits n app m g D) \<or> (\<exists>k g. checkpoint_waiting identity limits n app m k g D)"
    by (auto simp: disk_ok_def)
  have "\<exists>i \<ge> m. \<exists>g. checkpoint_settled identity limits n app i g D'"
    using alt
  proof (elim disjE exE)
    fix g assume s: "checkpoint_settled identity limits n app m g D"
    have "readable identity limits app m (dk_journal D')"
      by (rule survives_readable [OF st(1,3) settled_readable(2,1) [OF s]]) (use assms(2) in \<open>simp add: crashed_def\<close>)
    moreover have "dk_checkpoint D' = dk_checkpoint D" using s assms(2) slot_survives_same by (auto simp: checkpoint_settled_def crashed_def)
    ultimately have "checkpoint_settled identity limits n app m g D'"
      using s assms(2) by (intro settledI) (auto simp: checkpoint_settled_def crashed_def)
    then show ?thesis by blast
  next
    fix k g assume w: "checkpoint_waiting identity limits n app m k g D"
    have jd: "dk_journal D' = dk_journal D"
      using w assms(2) by (auto simp: checkpoint_waiting_def crashed_def survives_def intro: prefix_order.antisym)
    have rk: "readable identity limits app k (dk_journal D')" using w unfolding jd checkpoint_waiting_def by blast
    have bs: "slots identity n app m g (dk_checkpoint_durable D)" "m < k"
      "dk_checkpoint D = slot_written identity (state_at n (g + 1) (take k app)) (dk_checkpoint_durable D)"
      using w by (simp_all add: checkpoint_waiting_def)
    have "dk_checkpoint D' = dk_checkpoint_durable D \<or> dk_checkpoint D' = dk_checkpoint D"
      using slot_survives_written [OF slots_length [OF st(1) bs(1)] length_encode_checkpoint [OF st(1)]] assms(2) bs(3)
      by (auto simp: crashed_def)
    then show ?thesis
    proof
      assume "dk_checkpoint D' = dk_checkpoint_durable D"
      then have "checkpoint_settled identity limits n app m g D'" 
        using bs(1,2) readable_mono [OF rk] assms(2) by (intro settledI) (auto simp: crashed_def)
      then show ?thesis by blast
    next
      assume "dk_checkpoint D' = dk_checkpoint D"
      then have "checkpoint_settled identity limits n app k (g + 1) D'" 
        using waiting_slots [OF st(1-4) w] rk assms(2) by (intro settledI) (auto simp: crashed_def)
      then show ?thesis using bs(2) less_imp_le by blast
    qed
  qed
  then show ?thesis using st m unfolding disk_ok_def scope_ok_def by (meson le_trans)
qed

end
