(* ===== verification/Och_Active_Writer.thy ===== *)
theory Och_Active_Writer
  imports Och_Active_Disk
begin

text \<open>
  The operations of an open journal on the disk, whichever calls fail: synchronizing, opening and appending keep the disk
  recoverable, and an open that succeeds hands out exactly what is on the disk.
\<close>

section \<open>Publishing a checkpoint\<close>

lemma publish_effect:
  assumes "holds D v" "prepare_checkpoint_slot identity st = Inr p" "length (dk_checkpoint D) = 128" "sync_boundaries p v = (r, w)"
  defines "D1 \<equiv> D\<lparr>dk_journal_durable := dk_journal D\<rparr>"
  defines "D2 \<equiv> D1\<lparr>dk_checkpoint := slot_written identity st (dk_checkpoint D)\<rparr>"
  shows "(\<exists>e. r = Inl e) \<and> (holds D w \<or> holds D1 w \<or> holds D2 w) \<or>
    (\<exists>u. r = Inr u) \<and> holds (D2\<lparr>dk_checkpoint_durable := dk_checkpoint D2\<rparr>) w"
proof -
  obtain r1 v1 where s1: "io OpSyncJournal (fs_sync_all JournalFile) v = (r1, v1)" by fastforce
  obtain r2 v2 where s2: "write_prepared_checkpoint_slot p v1 = (r2, v2)" by fastforce
  obtain r3 v3 where s3: "io OpSyncCheckpoint (fs_sync_all CheckpointFile) v2 = (r3, v3)" by fastforce
  have run: "sync_boundaries p v = (case r1 of Inl e \<Rightarrow> (Inl e, v1) | Inr _ \<Rightarrow> case r2 of Inl e \<Rightarrow> (Inl e, v2) | Inr _ \<Rightarrow> (r3, v3))"
    by (auto simp: sync_boundaries_def fs_bind_def s1 s2 s3 split: sum.splits)
  have e1: "case r1 of Inl _ \<Rightarrow> holds D v1 | Inr _ \<Rightarrow> holds D1 v1" unfolding D1_def by (rule sync_journal_effect [OF assms(1) s1])
  have e2: "holds D1 v2 \<and> (\<exists>e. r2 = Inl e) \<or> holds D2 v2" if "holds D1 v1"
    using write_slot_effect [OF that assms(2) s2] assms(3) by (simp add: D2_def D1_def slot_written_def)
  have e3: "case r3 of Inl _ \<Rightarrow> holds D2 v3 | Inr _ \<Rightarrow> holds (D2\<lparr>dk_checkpoint_durable := dk_checkpoint D2\<rparr>) v3" if "holds D2 v2"
    by (rule sync_checkpoint_effect [OF that s3])
  show ?thesis
  proof (cases r1)
    case (Inl e)
    then show ?thesis using run e1 assms(4) by auto
  next
    case r1: (Inr u)
    then have e2: "holds D1 v2 \<and> (\<exists>e. r2 = Inl e) \<or> holds D2 v2" using e1 e2 by simp
    show ?thesis
    proof (cases r2)
      case (Inl e)
      then show ?thesis using run r1 e2 assms(4) by auto
    next
      case (Inr u')
      then have "holds D2 v2" using e2 by auto
      from e3 [OF this] show ?thesis using run r1 Inr assms(4) by (cases r3) auto
    qed
  qed
qed

lemma readable_exact:
  assumes "readable identity limits app m bs" "bs = journal_bytes identity (take k app)" "k \<le> length app" "k \<le> lim_records limits"
  shows "readable_as identity limits app k bs"
  using assms by (auto simp: readable_def readable_as_def torn_def)

lemma settled_durable:
  assumes "checkpoint_settled identity limits n app m g D" "readable identity limits app m (dk_journal D)"
  shows "checkpoint_settled identity limits n app m g (D\<lparr>dk_journal_durable := dk_journal D\<rparr>)"
  using assms by (intro settledI) (simp_all add: checkpoint_settled_def)

lemma publish_ok:
  assumes st: "scope_ok identity limits n app" and D: "checkpoint_settled identity limits n app m g D"
    and jd: "dk_journal D = journal_bytes identity (take k app)" and k: "m < k" "k \<le> length app"
    and run: "holds D v" "prepare_checkpoint_slot identity (state_at n (g + 1) (take k app)) = Inr p" "sync_boundaries p v = (r, w)"
  shows "\<exists>D'. holds D' w \<and> dk_journal D' = dk_journal D \<and>
    (case r of Inl _ \<Rightarrow> checkpoint_settled identity limits n app m g D' \<or> checkpoint_waiting identity limits n app m k g D'
     | Inr _ \<Rightarrow> checkpoint_settled identity limits n app k (g + 1) D')"
proof -
  let ?st = "state_at n (g + 1) (take k app)"
  define D1 D2 where "D1 = D\<lparr>dk_journal_durable := dk_journal D\<rparr>" and
    "D2 = D1\<lparr>dk_checkpoint := slot_written identity ?st (dk_checkpoint D)\<rparr>"
  have sc: "identity_ok (ji_store_id identity)" "active_limits_ok limits" "journal_chain identity limits n app" "length app \<le> lim_records limits"
    using st by (simp_all add: scope_ok_def)
  have sl: "slots identity n app m g (dk_checkpoint D)" "dk_checkpoint_durable D = dk_checkpoint D" using D by (simp_all add: checkpoint_settled_def)
  have rk: "readable_as identity limits app k (dk_journal D)"
    using readable_exact [OF settled_readable(1) [OF D] jd] k sc by simp
  have S1: "checkpoint_settled identity limits n app m g D1" unfolding D1_def by (rule settled_durable [OF D settled_readable(1) [OF D]])
  have W2: "checkpoint_waiting identity limits n app m k g D2"
    using sl k jd rk by (auto simp: checkpoint_waiting_def D2_def D1_def readable_def)
  have S3: "checkpoint_settled identity limits n app k (g + 1) (D2\<lparr>dk_checkpoint_durable := dk_checkpoint D2\<rparr>)"
    using waiting_slots [OF sc W2] rk by (intro settledI) (auto simp: D2_def D1_def readable_def)
  from publish_effect [OF run(1,2) slots_length [OF sc(1) sl(1)] run(3)]
  consider e where "r = Inl e" "holds D w" | e where "r = Inl e" "holds D1 w" | e where "r = Inl e" "holds D2 w"
    | u where "r = Inr u" "holds (D2\<lparr>dk_checkpoint_durable := dk_checkpoint D2\<rparr>) w"
    by (auto simp: D1_def D2_def)
  then show ?thesis
  proof cases
    case 1
    then show ?thesis using D by (intro exI [of _ D]) simp
  next
    case 2
    then show ?thesis using S1 by (intro exI [of _ D1]) (simp add: D1_def)
  next
    case 3
    then show ?thesis using W2 by (intro exI [of _ D2]) (simp add: D1_def D2_def)
  next
    case 4
    then show ?thesis using S3 by (intro exI [of _ "D2\<lparr>dk_checkpoint_durable := dk_checkpoint D2\<rparr>"]) (simp add: D1_def D2_def)
  qed
qed

section \<open>An open journal\<close>

definition journal_ok ::
  "JournalIdentity \<Rightarrow> ActiveJournalLimits \<Rightarrow> u64 \<Rightarrow> DecodedAdmissionV1 list \<Rightarrow> nat \<Rightarrow> nat \<Rightarrow> ActiveJournal \<Rightarrow> Disk \<Rightarrow> bool" where
  "journal_ok identity limits n app m g j D \<longleftrightarrow> scope_ok identity limits n app \<and> checkpoint_settled identity limits n app m g D \<and>
     dk_journal D = journal_bytes identity app \<and> aj_identity j = identity \<and> aj_limits j = limits \<and>
     aj_checkpoint_state j = state_at n g (take m app) \<and> aj_active_bytes j = of_nat (28 + length (frames_bytes app)) \<and>
     aj_records j = records_at 28 app \<and> aj_write_state j = Writable"

lemma journal_ok_bounds:
  assumes "journal_ok identity limits n app m g j D"
  shows "28 + length (frames_bytes app) \<le> unat (lim_active_bytes limits)" "unat (lim_active_bytes limits) \<le> 536870912" "length app \<le> 4096"
    "m \<le> length app" "0 < g" "g \<le> m + 1"
proof -
  have s: "scope_ok identity limits n app" "checkpoint_settled identity limits n app m g D" "dk_journal D = journal_bytes identity app"
    using assms by (simp_all add: journal_ok_def)
  obtain r where "readable_as identity limits app r (dk_journal D)" using s(2) by (auto simp: checkpoint_settled_def)
  then have "length (journal_bytes identity app) \<le> unat (lim_active_bytes limits)" using s(3) by (auto simp: readable_as_def)
  then show "28 + length (frames_bytes app) \<le> unat (lim_active_bytes limits)" using s(1) by (simp add: length_journal_bytes scope_ok_def)
  show "unat (lim_active_bytes limits) \<le> 536870912" "length app \<le> 4096" using s(1) by (simp_all add: scope_ok_def active_limits_ok_def word_le_nat_alt)
  show "m \<le> length app" "0 < g" "g \<le> m + 1" using s(2) by (simp_all add: checkpoint_settled_def slots_def)
qed

lemma journal_ok_sequence:
  assumes "journal_ok identity limits n app m g j D"
  shows "last_append_sequence j = seq_at n app"
proof (cases "app = []")
  case True
  then show ?thesis using assms by (simp add: journal_ok_def last_append_sequence_def state_at_def seq_at_def)
next
  case False
  then have "records_at 28 app \<noteq> []" by (metis length_0_conv length_records_at)
  with False show ?thesis using assms by (simp add: journal_ok_def last_append_sequence_def seq_at_def records_at_last)
qed

lemma journal_ok_pending:
  assumes "journal_ok identity limits n app m g j D"
  shows "nothing_pending j \<longleftrightarrow> m = length app"
proof -
  note b = journal_ok_bounds [OF assms]
  have ch: "journal_chain identity limits n app" using assms by (simp add: journal_ok_def scope_ok_def)
  have st: "aj_checkpoint_state j = state_at n g (take m app)" "aj_active_bytes j = of_nat (28 + length (frames_bytes app))"
    using assms by (simp_all add: journal_ok_def)
  show ?thesis
  proof (cases "m = length app")
    case True
    then show ?thesis using st journal_ok_sequence [OF assms] by (simp add: nothing_pending_def state_at_def)
  next
    case False
    then have "seq_at n (take m app) < seq_at n (take (length app) app)" using seq_at_take [OF ch, of m "length app"] b by simp
    then show ?thesis using False st journal_ok_sequence [OF assms] by (auto simp: nothing_pending_def state_at_def)
  qed
qed

lemma sync_pending_ok:
  assumes J: "journal_ok identity limits n app m g j D" and h: "holds D v" and run: "sync_pending j v = (r, j', w)"
  shows "\<exists>D'. holds D' w \<and>
    (case r of Inl _ \<Rightarrow> aj_write_state j' \<noteq> Writable \<and> (checkpoint_settled identity limits n app m g D' \<or> checkpoint_waiting identity limits n app m (length app) g D')
     | Inr cutoff \<Rightarrow> (\<exists>g'. journal_ok identity limits n app (length app) g' j' D') \<and> cutoff = active_durable_cutoff j')"
proof -
  note b = journal_ok_bounds [OF J]
  have Jd: "scope_ok identity limits n app" "checkpoint_settled identity limits n app m g D" "dk_journal D = journal_bytes identity app"
    "aj_identity j = identity" "aj_checkpoint_state j = state_at n g (take m app)" "aj_active_bytes j = of_nat (28 + length (frames_bytes app))"
    "aj_write_state j = Writable" using J by (simp_all add: journal_ok_def)
  have use: "ensure_usable j = Inr ()" using Jd(7) by (simp add: ensure_usable_def)
  show ?thesis
  proof (cases "m = length app")
    case True
    then have "r = Inr (active_durable_cutoff j)" "j' = j" "w = v"
      using run use journal_ok_pending [OF J] by (auto simp: sync_pending_def)
    then show ?thesis using True J h by (intro exI [of _ D]) auto
  next
    case False
    define st p where "st = state_at n (g + 1) app" and "p = projr (prepare_checkpoint_slot identity (state_at n (g + 1) app))"
    have gen: "checked_add (of_nat g :: u64) 1 = Some (of_nat (g + 1))" using checked_add_of_nat [of g 1] b by simp
    have pend: "pending_checkpoint_state (last_append_sequence j) j = Inr st"
      using gen by (simp add: pending_checkpoint_state_def Jd(5,6) journal_ok_sequence [OF J] st_def state_at_def del: of_nat_add)
    have prep: "prepare_checkpoint_slot identity (state_at n (g + 1) (take (length app) app)) = Inr p"
      by (simp add: p_def prepare_checkpoint_slot_def Let_def)
    obtain r1 v1 where sb: "sync_boundaries p v = (r1, v1)" by fastforce
    have r: "(r, j', w) = (case r1 of Inl e \<Rightarrow> (Inl e, record_mutation_error e j, v1)
      | Inr _ \<Rightarrow> let k = j\<lparr>aj_checkpoint_state := st, aj_sync_count := u64_saturating_add (aj_sync_count j) 1\<rparr> in (Inr (active_durable_cutoff k), k, v1))"
      using run use False prep sb journal_ok_pending [OF J]
      by (simp add: sync_pending_def pend Jd(4) st_def split: sum.splits)
    have "m < length app" using False b by simp
    from publish_ok [OF Jd(1,2) _ this _ h prep sb] Jd(3) obtain D' where D': "holds D' v1" "dk_journal D' = dk_journal D"
      "case r1 of Inl _ \<Rightarrow> checkpoint_settled identity limits n app m g D' \<or> checkpoint_waiting identity limits n app m (length app) g D'
       | Inr _ \<Rightarrow> checkpoint_settled identity limits n app (length app) (g + 1) D'" by auto
    show ?thesis
    proof (cases r1)
      case (Inl e)
      with r D' show ?thesis by (intro exI [of _ D']) (auto simp: record_mutation_error_def split: ActiveJournalError.splits)
    next
      case (Inr u)
      have "journal_ok identity limits n app (length app) (g + 1) j' D'"
        using r Inr D' Jd(3) J by (simp add: journal_ok_def st_def Let_def)
      then show ?thesis using r Inr D'(1) by (intro exI [of _ D']) (auto simp: Let_def)
    qed
  qed
qed

section \<open>Appending\<close>

lemma frame_layout_sequence:
  assumes "frame_layout a p = frame_layout b q"
  shows "a = b"
proof -
  have "take 20 (frame_layout a p) = frame_prefix a (length p)" "take 20 (frame_layout b q) = frame_prefix b (length q)"
    by (simp_all add: frame_layout_def frame_body_def)
  with assms have "frame_prefix a (length p) = frame_prefix b (length q)" by simp
  then have "be_encode 8 (unat a) = be_encode 8 (unat b)" by (simp add: frame_prefix_def)
  then have "unat a = unat b" using be_encode_inj [of "unat a" 8 "unat b"] unat_less_2p [of a] unat_less_2p [of b] by simp
  then show ?thesis by (rule word_unat_eq_iff [THEN iffD2])
qed

lemma append_checks_sound:
  assumes J: "journal_ok identity limits n app m g j D" and fr: "into_frame p s = Inr frame" and chk: "append_checks frame j = Inr (d, stop)"
  shows "pf_bytes frame = frame_of d" "record_ok (ji_store_id identity) (lim_payload limits) (last_previous (floor_previous n) app) d"
    "stop = of_nat (28 + length (frames_bytes (app @ [d])))" "28 + length (frames_bytes (app @ [d])) \<le> unat (lim_active_bytes limits)"
    "length (app @ [d]) \<le> lim_records limits"
proof -
  note b = journal_ok_bounds [OF J]
  have Jd: "aj_limits j = limits" "aj_identity j = identity" "aj_active_bytes j = of_nat (28 + length (frames_bytes app))"
    "aj_records j = records_at 28 app" "active_limits_ok limits" using J by (simp_all add: journal_ok_def scope_ok_def)
  have seq: "last_append_sequence j = seq_at n app" by (rule journal_ok_sequence [OF J])
  have bytes: "pf_bytes frame = frame_layout (append_get s) (pa_payload p)" "pf_append_sequence frame = s" "length (pa_payload p) \<le> MAX_ADMISSION_PAYLOAD_V1"
    using fr by (auto simp: into_frame_def frame_bytes_layout split: if_splits sum.splits)
  have fits: "length (pf_bytes frame) \<le> usize_max" using bytes by (simp add: frame_consts)
  obtain previous where dec: "decode_admission_frame_v1 (pf_bytes frame) \<lparr>max_payload_len = lim_payload limits\<rparr> previous = Inr d"
    and scope: "da_store_id d = ji_store_id identity" "dd_store_id (da_declaration d) = ji_store_id identity"
    and nxt: "next_append_sequence j = Inr s"
    and stop: "checked_add (aj_active_bytes j) (of_nat (length (pf_bytes frame))) = Some stop" "stop \<le> lim_active_bytes limits"
      "length app < lim_records limits"
    using chk by (auto simp: append_checks_def and_then_Inr_conv not_less Jd(1,2,4) bytes(2) scan_limits_def decode_limits_new_def map_err_def ok_or_def
        split: if_splits sum.splits option.splits)
  show pf: "pf_bytes frame = frame_of d" using dec by (simp add: decode_frame_iff [OF fits])
  have ok: "decoded_payload_ok d" "validate_decoded d = Inr ()" "da_append_sequence d \<noteq> 0" "length (wire_payload d) \<le> MAX_ADMISSION_PAYLOAD_V1"
    "length (wire_payload d) \<le> lim_payload limits"
    using dec by (simp_all add: decode_frame_iff [OF fits] frame_admissible_def)
  have ds: "da_append_sequence d = append_get s" using pf bytes(1) frame_layout_sequence by (metis frame_of_def)
  have "checked_add (seq_at n app) 1 = Some (append_get s)"
    using nxt by (auto simp: next_append_sequence_def and_then_Inr_conv seq append_sequence_new_def ok_or_def map_err_def
        split: option.splits sum.splits if_splits)
  then have succ: "unat (append_get s) = unat (seq_at n app) + 1"
    using unat_word_ariths(1) [of "seq_at n app" 1] by (auto simp: checked_add_def split: if_splits)
  have "sequence_follows (last_previous (floor_previous n) app) (da_append_sequence d)"
    using succ by (auto simp: sequence_follows_def last_previous_def floor_previous_def seq_at_def after_def ds split: if_splits)
  then show "record_ok (ji_store_id identity) (lim_payload limits) (last_previous (floor_previous n) app) d"
    using ok scope by (simp add: record_ok_def frame_admissible_def)
  have "length (frame_of d) \<le> 8388632" using ok(4) by (simp add: length_frame_of frame_consts)
  then have tot: "28 + length (frames_bytes (app @ [d])) < 2 ^ 64" using b by simp
  then show eq: "stop = of_nat (28 + length (frames_bytes (app @ [d])))"
    using stop(1) checked_add_of_nat [of "28 + length (frames_bytes app)" "length (frame_of d)"]
    by (simp add: Jd(3) pf add.assoc del: of_nat_add)
  show "28 + length (frames_bytes (app @ [d])) \<le> unat (lim_active_bytes limits)"
    using stop(2) unfolding eq word_le_nat_alt unat_of_nat_u64 [OF tot] .
  show "length (app @ [d]) \<le> lim_records limits" using stop(3) by simp
qed

lemma settled_append:
  assumes S: "checkpoint_settled identity limits n app m g D" and jd: "dk_journal D = journal_bytes identity app"
    and d: "record_ok (ji_store_id identity) (lim_payload limits) prev d" and id: "identity_ok (ji_store_id identity)"
    and fits: "28 + length (frames_bytes (app @ [d])) \<le> unat (lim_active_bytes limits)" "length (app @ [d]) \<le> lim_records limits"
  shows "checkpoint_settled identity limits n (app @ [d]) m g (D\<lparr>dk_journal := dk_journal D @ take k (frame_of d)\<rparr>)"
proof -
  let ?app = "app @ [d]"
  have js: "readable identity limits app m (dk_journal_durable D)" by (rule settled_readable(2) [OF S])
  have sl: "slots identity n app m g (dk_checkpoint D)" "dk_checkpoint_durable D = dk_checkpoint D" "m \<le> length app"
    using S by (simp_all add: checkpoint_settled_def slots_def)
  have sl': "slots identity n ?app m g (dk_checkpoint D)" using sl by (intro slots_prefix [OF sl(1)]) auto
  have len: "length (journal_bytes identity app @ take k (frame_of d)) \<le> unat (lim_active_bytes limits)"
    using fits(1) id by (simp add: length_journal_bytes)
  have "\<exists>r \<ge> length app. readable_as identity limits ?app r (journal_bytes identity app @ take k (frame_of d))"
  proof (cases "length (frame_of d) \<le> k")
    case True
    then have "readable_as identity limits ?app (length ?app) (journal_bytes identity app @ take k (frame_of d))"
      using len fits(2) by (simp add: readable_as_def torn_def)
    then show ?thesis by (intro exI [of _ "length ?app"]) simp
  next
    case False
    then have "readable_as identity limits ?app (length app) (journal_bytes identity app @ take k (frame_of d))"
      using len fits(2) torn_take [OF d] by (auto simp: readable_as_def)
    then show ?thesis by blast
  qed
  then obtain r where r: "length app \<le> r" "readable_as identity limits ?app r (journal_bytes identity app @ take k (frame_of d))" by blast
  have "readable identity limits (take (length app) (take r ?app)) m (dk_journal_durable D)" using js r(1) by (simp add: min_def)
  then have "readable identity limits (take r ?app) m (dk_journal_durable D)" by (rule readable_extend)
  then show ?thesis using sl sl' r jd unfolding checkpoint_settled_def by (auto intro!: exI [of _ r])
qed

lemma append_ok:
  assumes J: "journal_ok identity limits n app m g j D" and h: "holds D v" and fr: "into_frame p s = Inr frame"
    and run: "active_append frame j v = (r, j', w)"
  shows "(\<exists>e. r = Inl e) \<and> j' = j \<and> holds D w \<or>
    (\<exists>d stop D'. append_checks frame j = Inr (d, stop) \<and> holds D' w \<and>
      (case r of Inl _ \<Rightarrow> aj_write_state j' \<noteq> Writable \<and> scope_ok identity limits n (app @ [d]) \<and> checkpoint_settled identity limits n (app @ [d]) m g D'
       | Inr off \<Rightarrow> off = stop \<and> journal_ok identity limits n (app @ [d]) m g j' D'))"
proof (cases "append_checks frame j")
  case (Inl e)
  then show ?thesis using run h by (auto simp: active_append_def)
next
  case (Inr ds)
  then obtain d stop where chk: "append_checks frame j = Inr (d, stop)" by (cases ds) auto
  note snd = append_checks_sound [OF J fr chk]
  have Jd: "scope_ok identity limits n app" "checkpoint_settled identity limits n app m g D" "dk_journal D = journal_bytes identity app"
    using J by (simp_all add: journal_ok_def)
  have id: "identity_ok (ji_store_id identity)" using Jd(1) by (simp add: scope_ok_def)
  have scope: "scope_ok identity limits n (app @ [d])"
    using Jd(1) snd(2,5) by (simp add: scope_ok_def chain_append)
  note app' = settled_append [OF Jd(2,3) snd(2) id snd(4,5)]
  obtain r1 v1 where seek: "io OpSeek (fs_seek_end JournalFile) v = (r1, v1)" by fastforce
  obtain r2 v2 where wr: "io OpWrite (fs_write_all JournalFile (pf_bytes frame)) v1 = (r2, v2)" by fastforce
  show ?thesis
  proof (cases r1)
    case (Inl e)
    have "holds D v1" using h seek by (rule holds_reads [rotated]) (intro reading)
    then show ?thesis using run chk seek Inl by (auto simp: active_append_def)
  next
    case r1: (Inr u)
    have "fs_bind (io OpSeek (fs_seek_end JournalFile)) (\<lambda>_. io OpWrite (fs_write_all JournalFile (pf_bytes frame))) v = (r2, v2)"
      using seek wr r1 by (simp add: fs_bind_def)
    note eff = append_effect [OF h this]
    show ?thesis
    proof (cases r2)
      case (Inl e)
      then obtain k where k: "holds (D\<lparr>dk_journal := dk_journal D @ take k (frame_of d)\<rparr>) v2" using eff snd(1) by auto
      have "r = Inl e" "j' = record_mutation_error e j" "w = v2" using run chk seek wr r1 Inl by (auto simp: active_append_def)
      then show ?thesis using chk k app' [of k] scope
        by (intro disjI2 exI [of _ d] exI [of _ stop] exI [of _ "D\<lparr>dk_journal := dk_journal D @ take k (frame_of d)\<rparr>"])
          (auto simp: record_mutation_error_def split: ActiveJournalError.splits)
    next
      case (Inr u')
      define D' where "D' = D\<lparr>dk_journal := dk_journal D @ frame_of d\<rparr>"
      have D': "holds D' v2" using eff Inr snd(1) by (simp add: D'_def)
      have r: "r = Inr stop" "w = v2"
        "j' = j\<lparr>aj_active_bytes := stop, aj_records := aj_records j @ [\<lparr>rec_end_offset = stop, rec_admission = d\<rparr>]\<rparr>"
        using run chk seek wr r1 Inr by (auto simp: active_append_def)
      have mtk: "take m (app @ [d]) = take m app" using journal_ok_bounds(4) [OF J] by simp
      have "journal_ok identity limits n (app @ [d]) m g j' D'"
        unfolding journal_ok_def
      proof (intro conjI)
        show "checkpoint_settled identity limits n (app @ [d]) m g D'" using app' [of "length (frame_of d)"] by (simp add: D'_def)
        show "aj_records j' = records_at 28 (app @ [d])" using J snd(3) by (simp add: r(3) journal_ok_def records_at_append add.assoc del: of_nat_add)
      qed (use J scope snd(3) mtk in \<open>simp_all add: r(3) journal_ok_def D'_def del: of_nat_add\<close>)
      then show ?thesis using chk r D' by (intro disjI2 exI [of _ d] exI [of _ stop] exI [of _ D']) simp
    qed
  qed
qed

end
