(* ===== verification/Och_Active_Recover.thy ===== *)
theory Och_Active_Recover
  imports Och_Active_Writer
begin

text \<open>
  Opening what is on the disk, whichever calls fail: a failed open leaves the disk recoverable, a successful one hands out
  a journal that agrees with the disk, and where no call fails the open succeeds.
\<close>

section \<open>Adopting\<close>

lemma settled_restrict:
  assumes S: "checkpoint_settled identity limits n app m g D" and jd: "dk_journal D = journal_bytes identity (take r app)" "r \<le> length app"
    and id: "identity_ok (ji_store_id identity)" and ch: "journal_chain identity limits n app"
  shows "checkpoint_settled identity limits n (take r app) m g D"
proof -
  obtain q where q: "m \<le> q" "readable_as identity limits app q (dk_journal D)" "readable identity limits (take q app) m (dk_journal_durable D)"
    using S by (auto simp: checkpoint_settled_def)
  obtain t where t: "q \<le> length app" "journal_bytes identity (take r app) = journal_bytes identity (take q app) @ t"
    using q(2) unfolding readable_as_def jd(1) by blast
  then have "length (journal_bytes identity (take q app)) \<le> length (journal_bytes identity (take r app))" by simp
  then have qr: "q \<le> r" using frames_take_less [OF ch, of r q] id t(1) by (cases "r < q") (simp_all add: length_journal_bytes)
  have sl: "slots identity n app m g (dk_checkpoint D)" using S unfolding checkpoint_settled_def by blast
  have "slots identity n (take r app) m g (dk_checkpoint D)"
    by (rule slots_prefix [OF sl]) (use qr q(1) jd(2) in \<open>simp_all add: min_def\<close>)
  moreover have "readable_as identity limits (take r app) q (dk_journal D)"
    using q(2) qr jd(2) unfolding readable_as_def by (simp add: min_def)
  moreover have "readable identity limits (take q (take r app)) m (dk_journal_durable D)" using q(3) qr by (simp add: min_def)
  ultimately show ?thesis using S q(1) unfolding checkpoint_settled_def by blast
qed

lemma settled_truncated:
  assumes S: "checkpoint_settled identity limits n app m g D" and r: "m \<le> r" "readable_as identity limits app r (dk_journal D)"
    "readable identity limits (take r app) m (dk_journal_durable D)"
  shows "checkpoint_settled identity limits n app m g (D\<lparr>dk_journal := journal_bytes identity (take r app)\<rparr>)"
proof -
  have "readable_as identity limits app r (journal_bytes identity (take r app))" using r(2) by (auto simp: readable_as_def torn_def)
  then show ?thesis using S r unfolding checkpoint_settled_def by auto
qed

text \<open>The truncating step.\<close>

definition truncation :: "DecodedAdmissionV1 list \<Rightarrow> bytes \<Rightarrow> (ActiveJournalError, unit) fs" where
  "truncation ds t = (if t = [] then fs_return ()
     else fs_bind (io OpTruncate (fs_set_len JournalFile (of_nat (28 + length (frames_bytes ds)))))
       (\<lambda>_. io OpSyncJournal (fs_sync_all JournalFile)))"

lemma truncation_ok:
  assumes st: "scope_ok identity limits n app" and S: "checkpoint_settled identity limits n app m g D"
    and r: "m \<le> r" "r \<le> length app" "readable_as identity limits app r (dk_journal D)" "readable identity limits (take r app) m (dk_journal_durable D)"
    and jd: "dk_journal D = journal_bytes identity (take r app) @ t"
    and h: "holds D v" and run: "truncation (take r app) t v = (x, w)"
  shows "\<exists>D'. holds D' w \<and> checkpoint_settled identity limits n app m g D' \<and>
    ((\<exists>u. x = Inr u) \<longrightarrow> dk_journal D' = journal_bytes identity (take r app))"
proof (cases "t = []")
  case True
  then show ?thesis using S h run jd by (intro exI [of _ D]) (auto simp: truncation_def fs_simps)
next
  case False
  define len D1 where "len = 28 + length (frames_bytes (take r app))" and "D1 = D\<lparr>dk_journal := journal_bytes identity (take r app)\<rparr>"
  have id: "identity_ok (ji_store_id identity)" and lim: "unat (lim_active_bytes limits) \<le> 536870912"
    using st by (simp_all add: scope_ok_def active_limits_ok_def word_le_nat_alt)
  have "len \<le> unat (lim_active_bytes limits)" using r(3) jd id by (auto simp: readable_as_def length_journal_bytes len_def)
  then have u: "unat (of_nat len :: u64) = len" using lim by (intro unat_of_nat_u64) simp
  have "resize len (dk_journal D) = journal_bytes identity (take r app)" using id by (simp add: resize_def jd len_def length_journal_bytes)
  then have D1: "D\<lparr>dk_journal := resize (unat (of_nat len :: u64)) (dk_journal D)\<rparr> = D1" by (simp add: D1_def u)
  have S1: "checkpoint_settled identity limits n app m g D1" unfolding D1_def by (rule settled_truncated [OF S r(1,3,4)])
  obtain x1 v1 where s1: "io OpTruncate (fs_set_len JournalFile (of_nat len)) v = (x1, v1)" by fastforce
  obtain x2 v2 where s2: "io OpSyncJournal (fs_sync_all JournalFile) v1 = (x2, v2)" by fastforce
  have e1: "case x1 of Inl _ \<Rightarrow> holds D v1 | Inr _ \<Rightarrow> holds D1 v1" using truncate_effect [OF h s1] unfolding D1 .
  have eq: "(x, w) = (case x1 of Inl e \<Rightarrow> (Inl e, v1) | Inr _ \<Rightarrow> (x2, v2))"
    using run False s1 s2 by (auto simp: truncation_def fs_bind_def len_def simp del: of_nat_add split: sum.splits)
  show ?thesis
  proof (cases x1)
    case (Inl e)
    then show ?thesis using e1 eq S by (intro exI [of _ D]) simp
  next
    case (Inr u')
    then have h1: "holds D1 v1" using e1 by simp
    note e2 = sync_journal_effect [OF h1 s2]
    show ?thesis
    proof (cases x2)
      case (Inl e)
      then show ?thesis using Inr eq e2 S1 by (intro exI [of _ D1]) simp
    next
      case x2: (Inr u'')
      then show ?thesis using Inr eq e2 settled_durable [OF S1 settled_readable(1) [OF S1]]
        by (intro exI [of _ "D1\<lparr>dk_journal_durable := dk_journal D1\<rparr>"]) (simp add: D1_def)
    qed
  qed
qed

text \<open>What one open sees: \<open>r\<close> whole frames and a torn rest, and a checkpoint number \<open>g\<close> over the first \<open>m\<close> of them.\<close>

definition sighted :: "JournalIdentity \<Rightarrow> ActiveJournalLimits \<Rightarrow> u64 \<Rightarrow> DecodedAdmissionV1 list \<Rightarrow> nat \<Rightarrow> nat \<Rightarrow> nat \<Rightarrow> bytes \<Rightarrow> Disk \<Rightarrow> bool" where
  "sighted identity limits n app m g r t D \<longleftrightarrow> m \<le> r \<and> r \<le> length app \<and> dk_journal D = journal_bytes identity (take r app) @ t \<and>
     readable_as identity limits app r (dk_journal D) \<and> torn (ji_store_id identity) (lim_payload limits) t \<and>
     r + (if t = [] then 0 else 1) \<le> lim_records limits \<and> slots identity n app m g (dk_checkpoint D) \<and>
     (checkpoint_settled identity limits n app m g D \<and> readable identity limits (take r app) m (dk_journal_durable D) \<or>
      (\<exists>i < m. checkpoint_waiting identity limits n app i m (g - 1) D) \<and> r = m \<and> t = [] \<and> 0 < g - 1)"

lemma disk_sighted:
  assumes "disk_ok identity limits n dur app D"
  shows "\<exists>m g r t. length dur \<le> m \<and> sighted identity limits n app m g r t D"
proof -
  have sc: "identity_ok (ji_store_id identity)" "active_limits_ok limits" "journal_chain identity limits n app" "length app \<le> lim_records limits"
    using assms by (simp_all add: disk_ok_def scope_ok_def)
  from assms obtain m where m: "length dur \<le> m" and
    alt: "(\<exists>g. checkpoint_settled identity limits n app m g D) \<or> (\<exists>k g. checkpoint_waiting identity limits n app m k g D)"
    by (auto simp: disk_ok_def)
  from alt show ?thesis
  proof (elim disjE exE)
    fix g assume S: "checkpoint_settled identity limits n app m g D"
    then obtain r where r: "m \<le> r" "readable_as identity limits app r (dk_journal D)" "readable identity limits (take r app) m (dk_journal_durable D)"
      by (auto simp: checkpoint_settled_def)
    then obtain t where "r \<le> length app" "dk_journal D = journal_bytes identity (take r app) @ t" "torn (ji_store_id identity) (lim_payload limits) t"
      "r + (if t = [] then 0 else 1) \<le> lim_records limits" unfolding readable_as_def by blast
    then have "sighted identity limits n app m g r t D" using S r by (auto simp: sighted_def checkpoint_settled_def)
    with m show ?thesis by blast
  next
    fix k g assume W: "checkpoint_waiting identity limits n app m k g D"
    have k: "m < k" "k \<le> length app" "dk_journal D = journal_bytes identity (take k app)" "readable identity limits app k (dk_journal D)"
      "slots identity n app m g (dk_checkpoint_durable D)" using W unfolding checkpoint_waiting_def by blast+
    have "readable_as identity limits app k (dk_journal D)" using readable_exact [OF k(4,3,2)] k(2) sc(4) by simp
    moreover have "0 < g" using k(5) by (simp add: slots_def)
    ultimately have "sighted identity limits n app k (g + 1) k [] D"
      using k(1-3) W waiting_slots [OF sc W] sc(4) unfolding sighted_def by (auto simp: torn_def)
    then show ?thesis using m k(1) by (intro exI conjI) (auto elim: less_imp_le [THEN [2] le_trans])
  qed
qed

lemma sync_checkpoint_ok:
  assumes sc: "scope_ok identity limits n app" and S: "sighted identity limits n app m g r t D" and full: "m = r" "dk_journal D = journal_bytes identity (take r app)"
    and h: "holds D v" and run: "io OpSyncCheckpoint (fs_sync_all CheckpointFile) v = (x, w)"
  shows "\<exists>D'. holds D' w \<and> (case x of Inl _ \<Rightarrow> D' = D
    | Inr _ \<Rightarrow> checkpoint_settled identity limits n app m g D' \<and> dk_journal D' = dk_journal D)"
proof -
  define D' where "D' = D\<lparr>dk_checkpoint_durable := dk_checkpoint D\<rparr>"
  have st: "identity_ok (ji_store_id identity)" "active_limits_ok limits" "journal_chain identity limits n app" "length app \<le> lim_records limits"
    using sc by (simp_all add: scope_ok_def)
  have S': "checkpoint_settled identity limits n app m g D'"
  proof (cases "checkpoint_settled identity limits n app m g D")
    case True
    then have "D' = D" by (simp add: D'_def checkpoint_settled_def)
    with True show ?thesis by simp
  next
    case False
    then obtain i where i: "checkpoint_waiting identity limits n app i m (g - 1) D" using S by (auto simp: sighted_def)
    have "readable identity limits app m (dk_journal D)" "dk_journal_durable D = dk_journal D" using i unfolding checkpoint_waiting_def by blast+
    moreover have "slots identity n app m g (dk_checkpoint D)" using S by (simp add: sighted_def)
    ultimately show ?thesis by (intro settledI) (simp_all add: D'_def)
  qed
  note e = sync_checkpoint_effect [OF h run]
  show ?thesis
  proof (cases x)
    case (Inl y)
    then show ?thesis using e by (intro exI [of _ D]) simp
  next
    case (Inr y)
    then show ?thesis using e S' by (intro exI [of _ D']) (simp add: D'_def)
  qed
qed

lemma truncation_sighted:
  assumes sc: "scope_ok identity limits n app" and pre: "prefix dur app" "length dur \<le> m" and S: "sighted identity limits n app m g r t D"
    and D: "disk_ok identity limits n dur app D" and h: "holds D v" and run: "truncation (take r app) t v = (x, w)"
  shows "\<exists>D'. holds D' w \<and> disk_ok identity limits n dur app D' \<and> ((\<exists>u. x = Inr u) \<longrightarrow> sighted identity limits n app m g r [] D')"
proof (cases "checkpoint_settled identity limits n app m g D \<and> readable identity limits (take r app) m (dk_journal_durable D)")
  case True
  have st: "identity_ok (ji_store_id identity)" "journal_chain identity limits n app" "length app \<le> lim_records limits"
    using sc by (simp_all add: scope_ok_def)
  have s: "m \<le> r" "r \<le> length app" "dk_journal D = journal_bytes identity (take r app) @ t" "readable_as identity limits app r (dk_journal D)"
    using S unfolding sighted_def by blast+
  obtain D1 where D1: "holds D1 w" "checkpoint_settled identity limits n app m g D1" "(\<exists>u. x = Inr u) \<longrightarrow> dk_journal D1 = journal_bytes identity (take r app)"
    using truncation_ok [OF sc _ s(1,2,4) _ s(3) h run] True by blast
  have "disk_ok identity limits n dur app D1" using D1(2) sc pre unfolding disk_ok_def by blast
  moreover have "sighted identity limits n app m g r [] D1" if j: "dk_journal D1 = journal_bytes identity (take r app)"
  proof -
    have "readable_as identity limits app r (dk_journal D1)" using readable_exact [OF settled_readable(1) [OF D1(2)] j s(2)] s(2) st(3) by simp
    moreover have "checkpoint_settled identity limits n (take r app) m g D1" by (rule settled_restrict [OF D1(2) j s(2) st(1,2)])
    then have "readable identity limits (take r app) m (dk_journal_durable D1)" by (rule settled_readable(2))
    moreover have "slots identity n app m g (dk_checkpoint D1)" using D1(2) unfolding checkpoint_settled_def by blast
    ultimately show ?thesis using D1(2) s(1,2) st(3) j by (simp add: sighted_def torn_def)
  qed
  ultimately show ?thesis using D1 by blast
next
  case False
  then have "t = []" using S by (auto simp: sighted_def)
  then have "w = v" "\<And>u. x = Inr u \<Longrightarrow> sighted identity limits n app m g r [] D" using run S by (auto simp: truncation_def fs_simps)
  then show ?thesis using h D by blast
qed

text \<open>What follows the truncation: a new checkpoint when there are records beyond the old one.\<close>

definition settlement :: "JournalIdentity \<Rightarrow> u64 \<Rightarrow> DecodedAdmissionV1 list \<Rightarrow> nat \<Rightarrow> nat \<Rightarrow> (ActiveJournalError, CheckpointState) fs" where
  "settlement identity n ds m g = (if m < length ds
     then fs_bind (sync_boundaries (projr (prepare_checkpoint_slot identity (state_at n (g + 1) ds)))) (\<lambda>_. fs_return (state_at n (g + 1) ds))
     else fs_bind (io OpSyncCheckpoint (fs_sync_all CheckpointFile)) (\<lambda>_. fs_return (state_at n g (take m ds))))"

lemma settlement_ok:
  assumes sc: "scope_ok identity limits n app" and pre: "prefix dur app" "length dur \<le> m" and S: "sighted identity limits n app m g r [] D"
    and D: "disk_ok identity limits n dur app D" and h: "holds D v" and run: "settlement identity n (take r app) m g v = (x, w)"
  shows "\<exists>D'. holds D' w \<and> (case x of Inl _ \<Rightarrow> disk_ok identity limits n dur app D'
    | Inr st \<Rightarrow> dk_journal D' = journal_bytes identity (take r app) \<and>
        (\<exists>g'. st = state_at n g' (take r app) \<and> checkpoint_settled identity limits n (take r app) r g' D'))"
proof -
  have st: "identity_ok (ji_store_id identity)" "journal_chain identity limits n app" using sc by (simp_all add: scope_ok_def)
  have s: "m \<le> r" "r \<le> length app" "dk_journal D = journal_bytes identity (take r app)" using S by (simp_all add: sighted_def)
  note restrict = settled_restrict [OF _ _ s(2) st]
  show ?thesis
  proof (cases "m < r")
    case True
    then have set1: "checkpoint_settled identity limits n app m g D" using S by (auto simp: sighted_def)
    define p where "p = projr (prepare_checkpoint_slot identity (state_at n (g + 1) (take r app)))"
    have prep: "prepare_checkpoint_slot identity (state_at n (g + 1) (take r app)) = Inr p" by (simp add: p_def prepare_checkpoint_slot_def Let_def)
    obtain y v2 where t2: "sync_boundaries p v = (y, v2)" by fastforce
    have eq: "(x, w) = (case y of Inl e \<Rightarrow> (Inl e, v2) | Inr _ \<Rightarrow> (Inr (state_at n (g + 1) (take r app)), v2))"
    proof -
      have "settlement identity n (take r app) m g = fs_bind (sync_boundaries p) (\<lambda>_. fs_return (state_at n (g + 1) (take r app)))"
        unfolding settlement_def p_def using True s(2) by simp
      with run t2 show ?thesis by (auto simp: fs_bind_def fs_simps split: sum.splits)
    qed
    from publish_ok [OF sc set1 s(3) True s(2) h prep t2] obtain D2 where D2: "holds D2 v2" "dk_journal D2 = dk_journal D"
      "case y of Inl _ \<Rightarrow> checkpoint_settled identity limits n app m g D2 \<or> checkpoint_waiting identity limits n app m r g D2
       | Inr _ \<Rightarrow> checkpoint_settled identity limits n app r (g + 1) D2" by blast
    show ?thesis
    proof (cases y)
      case (Inl e)
      then have "disk_ok identity limits n dur app D2" using D2(3) sc pre by (auto simp: disk_ok_def)
      then show ?thesis using Inl eq D2(1) by (intro exI [of _ D2]) simp
    next
      case (Inr u)
      then have "checkpoint_settled identity limits n (take r app) r (g + 1) D2" using restrict D2 s(3) by auto
      then show ?thesis using Inr eq D2 s(3) by (intro exI [of _ D2]) auto
    qed
  next
    case False
    then have mr: "m = r" using s(1) by simp
    obtain y v2 where t2: "io OpSyncCheckpoint (fs_sync_all CheckpointFile) v = (y, v2)" by fastforce
    have eq: "(x, w) = (case y of Inl e \<Rightarrow> (Inl e, v2) | Inr _ \<Rightarrow> (Inr (state_at n g (take r app)), v2))"
    proof -
      have "settlement identity n (take r app) m g = fs_bind (io OpSyncCheckpoint (fs_sync_all CheckpointFile)) (\<lambda>_. fs_return (state_at n g (take r app)))"
        unfolding settlement_def using mr s(2) by simp
      with run t2 show ?thesis by (auto simp: fs_bind_def fs_simps split: sum.splits)
    qed
    from sync_checkpoint_ok [OF sc S mr s(3) h t2] obtain D2 where D2: "holds D2 v2"
      "case y of Inl _ \<Rightarrow> D2 = D | Inr _ \<Rightarrow> checkpoint_settled identity limits n app m g D2 \<and> dk_journal D2 = dk_journal D" by blast
    show ?thesis
    proof (cases y)
      case (Inl e)
      then show ?thesis using eq D2 D by (intro exI [of _ D2]) auto
    next
      case (Inr u)
      then have "checkpoint_settled identity limits n (take r app) r g D2" using restrict D2 s(3) mr by auto
      then show ?thesis using Inr eq D2 s(3) by (intro exI [of _ D2]) auto
    qed
  qed
qed

lemma adopt_sighted:
  assumes sc: "scope_ok identity limits n app" and S: "sighted identity limits n app m g r t D"
  shows "adopt_scan identity n False (state_at n g (take m app)) (found (take r app) t) =
    fs_bind (truncation (take r app) t) (\<lambda>_. settlement identity n (take r app) m g)"
proof -
  let ?ds = "take r app"
  have st: "identity_ok (ji_store_id identity)" "active_limits_ok limits" "journal_chain identity limits n app" "length app \<le> lim_records limits"
    using sc by (simp_all add: scope_ok_def)
  have s: "m \<le> r" "r \<le> length app" "dk_journal D = journal_bytes identity ?ds @ t" "readable_as identity limits app r (dk_journal D)"
    "slots identity n app m g (dk_checkpoint D)" using S unfolding sighted_def by blast+
  have ch: "journal_chain identity limits n ?ds" using st(3) chain_append [of _ _ _ "take r app" "drop r app"] by simp
  have "length (dk_journal D) \<le> unat (lim_active_bytes limits)" using s(4) unfolding readable_as_def by blast
  then have len: "28 + length (frames_bytes ?ds) < 2 ^ 63" using s(3) st(1,2) by (simp add: length_journal_bytes active_limits_ok_def word_le_nat_alt)
  have tk: "take m app = take m ?ds" "length ?ds = r" using s(1,2) by (simp_all add: min_def)
  have gb: "g + 1 < 2 ^ 64" using s(5) st by (auto simp: slots_def active_limits_ok_def)
  show ?thesis
    using adopt_scan_found [OF len _ ch gb, of m identity n t] s(1) tk by (simp only: truncation_def settlement_def)
qed

lemma adopt_ok:
  assumes sc: "scope_ok identity limits n app" and pre: "prefix dur app" "length dur \<le> m" and S: "sighted identity limits n app m g r t D"
    and D: "disk_ok identity limits n dur app D"
    and h: "holds D v" and run: "adopt_scan identity n False (state_at n g (take m app)) (found (take r app) t) v = (x, w)"
  shows "\<exists>D'. holds D' w \<and> (case x of Inl _ \<Rightarrow> disk_ok identity limits n dur app D'
    | Inr st \<Rightarrow> dk_journal D' = journal_bytes identity (take r app) \<and>
        (\<exists>g'. st = state_at n g' (take r app) \<and> checkpoint_settled identity limits n (take r app) r g' D'))"
proof -
  note adopt = run [unfolded adopt_sighted [OF sc S]]
  obtain y v1 where t1: "truncation (take r app) t v = (y, v1)" by fastforce
  from truncation_sighted [OF sc pre S D h t1] obtain D1 where D1: "holds D1 v1" "disk_ok identity limits n dur app D1"
    "(\<exists>u. y = Inr u) \<longrightarrow> sighted identity limits n app m g r [] D1" by blast
  show ?thesis
  proof (cases y)
    case (Inl e)
    then show ?thesis using adopt t1 D1 by (intro exI [of _ D1]) (auto simp: fs_bind_def)
  next
    case (Inr u)
    with D1 have S1: "sighted identity limits n app m g r [] D1" by blast
    have "settlement identity n (take r app) m g v1 = (x, w)" using adopt t1 Inr by (simp add: fs_bind_def)
    from settlement_ok [OF sc pre S1 D1(2,1) this] show ?thesis .
  qed
qed

section \<open>Opening\<close>

lemma reading_run:
  assumes "reads_only prog" "settled prog" "holds D v" "prog v = (r, w)"
    and calm: "\<And>j c. fn_data j = dk_journal D \<Longrightarrow> fn_data c = dk_checkpoint D \<Longrightarrow> \<exists>q. prog (quiet j c) = (Inr x, q)"
  shows "holds D w" "r = Inr y \<Longrightarrow> y = x"
proof -
  show "holds D w" by (rule holds_reads [OF assms(1,3,4)])
  assume "r = Inr y"
  with settledD [OF assms(2)] assms(4) have run: "prog (calm v) = (Inr y, calm w)" by simp
  obtain j c where jc: "calm v = quiet j c" "fn_data j = dk_journal D" "fn_data c = dk_checkpoint D" using holds_calm [OF assms(3)] by metis
  from calm [OF jc(2,3)] run jc(1) show "y = x" by auto
qed

lemma open_checkpoint_file_faulty:
  assumes "holds D v" "open_checkpoint_file identity n policy len v = (r, w)"
  shows "holds D w" "r = Inr y \<Longrightarrow> y = None \<and> open_artifact CheckpointFile v = (Inr (), w)"
proof -
  obtain r1 v1 where o: "open_artifact CheckpointFile v = (r1, v1)" by fastforce
  have h1: "holds D v1" by (rule holds_reads [OF open_steps_reads(2) assms(1) o])
  have "holds D w \<and> (\<forall>y. r = Inr y \<longrightarrow> y = None \<and> open_artifact CheckpointFile v = (Inr (), w))"
  proof (cases r1)
    case (Inr u)
    then show ?thesis using assms(2) o h1 by (auto simp: open_checkpoint_file_def)
  next
    case (Inl e)
    obtain f where f: "vol_checkpoint v1 = Some f" using h1 by (auto simp: holds_def file_content_def)
    obtain r2 v2 where c: "create_artifact CheckpointFile v1 = (r2, v2)" by fastforce
    have "(\<exists>e. r2 = Inl e) \<and> holds D v2"
      using c f h1 by (auto simp: create_artifact_def fs_map_err_def fs_create_new_def fs_call_def untouched_def map_err_def
          split: list.splits IoOutcome.splits)
    then show ?thesis using assms(2) o Inl c h1 by (auto simp: open_checkpoint_file_def fs_bind_def split: if_splits)
  qed
  then show "holds D w" "r = Inr y \<Longrightarrow> y = None \<and> open_artifact CheckpointFile v = (Inr (), w)" by blast+
qed

lemma open_checkpoint_faulty:
  assumes id: "identity_ok (ji_store_id identity)" and sl: "slots identity n ds m g (dk_checkpoint D)" and ch: "journal_chain identity limits n ds"
    and len: "28 + length (frames_bytes ds) \<le> len" "len < 2 ^ 63" and cnt: "length ds < 2 ^ 32"
    and h: "holds D v" and run: "open_checkpoint identity n Converge None (of_nat len) v = (r, w)"
  shows "holds D w \<and> (\<forall>y. r = Inr y \<longrightarrow> y = state_at n g (take m ds))"
proof -
  let ?st = "state_at n g (take m ds)"
  define opened where "opened = fs_bind (open_artifact CheckpointFile) (\<lambda>_. io OpMetadata (fs_len CheckpointFile))"
  define loaded where "loaded = fs_bind opened (\<lambda>_. read_checkpoint identity n (of_nat len))"
  have c128: "length (dk_checkpoint D) = 128" by (rule slots_length [OF id sl])
  have rd: "reads_only opened" "settled opened" "reads_only loaded" "settled loaded"
    unfolding loaded_def opened_def by (intro reading settling)+
  have q: "\<exists>q. opened (quiet j c) = (Inr 128, q)" "\<exists>q. loaded (quiet j c) = (Inr (Some ?st), q)" if "fn_data c = dk_checkpoint D" for j c
    using slots_select [OF id sl ch len cnt] that c128
    by (simp_all add: loaded_def opened_def open_artifact_def read_checkpoint_def fs_simps checkpoint_consts slice_full slice_def)
  obtain r1 v1 where o: "open_checkpoint_file identity n Converge (of_nat len) v = (r1, v1)" by fastforce
  note h1 = open_checkpoint_file_faulty [OF h o]
  show ?thesis
  proof (cases r1)
    case (Inl e)
    then show ?thesis using run o h1(1) by (auto simp: open_checkpoint_def load_checkpoint_def fs_bind_def)
  next
    case r1: (Inr y1)
    then have y1: "y1 = None" "open_artifact CheckpointFile v = (Inr (), v1)" using h1(2) by auto
    obtain r2 v2 where l: "io OpMetadata (fs_len CheckpointFile) v1 = (r2, v2)" by fastforce
    have op: "opened v = (r2, v2)" using y1 l by (simp add: opened_def fs_bind_def)
    have h2: "holds D v2" "\<And>y. r2 = Inr y \<Longrightarrow> y = 128" by (rule reading_run [OF rd(1,2) h op]; use q(1) in blast)+
    show ?thesis
    proof (cases r2)
      case (Inl e)
      then show ?thesis using run o r1 l h2(1) by (auto simp: open_checkpoint_def load_checkpoint_def fs_bind_def)
    next
      case r2: (Inr y2)
      then have y2: "y2 = 128" using h2(2) by simp
      obtain r3 v3 where l3: "read_checkpoint identity n (of_nat len) v2 = (r3, v3)" by fastforce
      have ld: "loaded v = (r3, v3)" using op l3 r2 by (simp add: loaded_def fs_bind_def)
      have h3: "holds D v3" "\<And>y. r3 = Inr y \<Longrightarrow> y = Some ?st" by (rule reading_run [OF rd(3,4) h ld]; use q(2) in blast)+
      have ev: "open_checkpoint identity n Converge None (of_nat len) v = (case r3 of Inl e \<Rightarrow> (Inl e, v3) | Inr _ \<Rightarrow> (Inr ?st, v3))"
        using o r1 y1(1) l r2 y2 l3 h3(2)
        by (auto simp: open_checkpoint_def load_checkpoint_def fs_bind_def fs_simps CHECKPOINT_FILE_LEN_def CHECKPOINT_SLOT_LEN_def split: sum.splits)
      show ?thesis using run h3(1) unfolding ev by (auto split: sum.splits)
    qed
  qed
qed

definition opened_journal :: "JournalIdentity \<Rightarrow> ActiveJournalLimits \<Rightarrow> DecodedAdmissionV1 list \<Rightarrow> CheckpointState \<Rightarrow> ActiveJournal" where
  "opened_journal identity limits ds st = \<lparr>aj_identity = identity, aj_limits = limits, aj_checkpoint_state = st,
     aj_active_bytes = of_nat (28 + length (frames_bytes ds)), aj_records = records_at 28 ds, aj_sync_count = 0, aj_write_state = Writable\<rparr>"

text \<open>The facts about a sighted disk that every step of the open needs.\<close>

lemma sighted_facts:
  assumes sc: "scope_ok identity limits n app" and S: "sighted identity limits n app m g r t D"
  defines "ds \<equiv> take r app"
  shows "identity_ok (ji_store_id identity)" "active_limits_ok limits" "lim_payload limits \<le> 8388608" "journal_chain identity limits n ds"
    "torn (ji_store_id identity) (lim_payload limits) t" "dk_journal D = journal_bytes identity ds @ t"
    "slots identity n ds m g (dk_checkpoint D)" "length (dk_journal D) \<le> unat (lim_active_bytes limits)"
    "28 + length (frames_bytes ds) \<le> length (dk_journal D)" "length (dk_journal D) < 2 ^ 63" "length ds < 2 ^ 32" "m \<le> length ds"
    "length ds + (if t = [] then 0 else 1) \<le> lim_records limits" "take m app = take m ds"
proof -
  have s: "m \<le> r" "r \<le> length app" "dk_journal D = journal_bytes identity ds @ t" "torn (ji_store_id identity) (lim_payload limits) t"
    "r + (if t = [] then 0 else 1) \<le> lim_records limits" "slots identity n app m g (dk_checkpoint D)" "readable_as identity limits app r (dk_journal D)"
    using S unfolding sighted_def ds_def by blast+
  have st: "identity_ok (ji_store_id identity)" "active_limits_ok limits" "journal_chain identity limits n app" "length app \<le> lim_records limits"
    using sc by (simp_all add: scope_ok_def)
  show "identity_ok (ji_store_id identity)" "active_limits_ok limits" "lim_payload limits \<le> 8388608" using st by (simp_all add: active_limits_ok_def)
  show "journal_chain identity limits n ds" using st(3) chain_append [of _ _ _ "take r app" "drop r app"] by (simp add: ds_def)
  show "torn (ji_store_id identity) (lim_payload limits) t" "dk_journal D = journal_bytes identity ds @ t" by fact+
  show "slots identity n ds m g (dk_checkpoint D)" by (rule slots_prefix [OF s(6)]) (use s(1,2) in \<open>simp_all add: ds_def min_def\<close>)
  show len: "length (dk_journal D) \<le> unat (lim_active_bytes limits)" using s(7) unfolding readable_as_def by blast
  then show "28 + length (frames_bytes ds) \<le> length (dk_journal D)" "length (dk_journal D) < 2 ^ 63"
    using s(3) st(1,2) by (simp_all add: length_journal_bytes active_limits_ok_def word_le_nat_alt)
  show "length ds < 2 ^ 32" "m \<le> length ds" "length ds + (if t = [] then 0 else 1) \<le> lim_records limits"
    using s(1,2,5) st(2,4) by (simp_all add: ds_def active_limits_ok_def)
  show "take m app = take m ds" using s(1,2) by (simp add: ds_def min_def)
qed

lemma open_existing_cases:
  assumes sc: "scope_ok identity limits n app" and S: "sighted identity limits n app m g r t D"
    and h: "holds D v" and run: "open_existing identity n limits Converge None v = (x, w)"
  shows "(\<exists>e. x = Inl e) \<and> holds D w \<or>
    (\<exists>v' y. holds D v' \<and> adopt_scan identity n False (state_at n g (take m app)) (found (take r app) t) v' = (y, w) \<and>
      x = (case y of Inl e \<Rightarrow> Inl (RootActive e) | Inr st \<Rightarrow> Inr (opened_journal identity limits (take r app) st, None)))"
proof -
  define ds where "ds = take r app"
  note f = sighted_facts [OF sc S, folded ds_def]
  let ?len = "of_nat (length (dk_journal D)) :: u64" and ?st = "state_at n g (take m ds)"
  obtain r1 v1 where o1: "open_journal identity limits Converge v = (r1, v1)" by fastforce
  have h1: "holds D v1" "\<And>y. r1 = Inr y \<Longrightarrow> y = ?len"
    by (rule reading_run [OF open_steps_reads(4) open_steps_settled(3) h o1]; use open_journal_quiet [OF f(1,2)] f(6,8) in \<open>simp; blast\<close>)+
  obtain r2 v2 where o2: "open_checkpoint identity n Converge None ?len v1 = (r2, v2)" by fastforce
  note h2 = open_checkpoint_faulty [OF f(1,7,4,9,10,11) h1(1) o2]
  obtain r3 v3 where o3: "scan_journal identity limits ?st n ?len v2 = (r3, v3)" by fastforce
  have scan: "\<exists>q. scan_journal identity limits ?st n ?len (quiet j c) = (Inr (found ds t), q)" if "fn_data j = dk_journal D" for j c
    using scan_journal_quiet [OF f(3,1,4,5) _ _ f(12,13), of j g c] that f(6,10) by (auto simp: found_def)
  have h3: "holds D v3" "\<And>y. r3 = Inr y \<Longrightarrow> y = found ds t"
    by (rule reading_run [OF scan_journal_reads scan_journal_settled conjunct1 [OF h2] o3]; use scan in blast)+
  obtain r4 v4 where o4: "adopt_scan identity n False ?st (found ds t) v3 = (r4, v4)" by fastforce
  have me: "fs_map_err RootActive m' u = (case m' u of (Inl e, z) \<Rightarrow> (Inl (RootActive e), z) | (Inr y, z) \<Rightarrow> (Inr y, z))"
    for m' :: "(ActiveJournalError, 'a) fs" and u by (simp add: fs_map_err_def map_err_def split: prod.splits sum.splits)
  have ev: "open_existing identity n limits Converge None v =
      (case r1 of Inl e \<Rightarrow> (Inl (RootActive e), v1) | Inr _ \<Rightarrow> case r2 of Inl e \<Rightarrow> (Inl (RootActive e), v2) | Inr _ \<Rightarrow>
       case r3 of Inl e \<Rightarrow> (Inl (RootActive e), v3) | Inr _ \<Rightarrow>
       case r4 of Inl e \<Rightarrow> (Inl (RootActive e), v4) | Inr st \<Rightarrow> (Inr (opened_journal identity limits ds st, None), v4))"
    using o1 h1(2) o2 h2 o3 h3(2) o4
    by (auto simp: open_existing_def fs_bind_def me fs_simps opened_journal_def found_def split: sum.splits)
  have "(\<exists>e. x = Inl e) \<and> (w = v1 \<or> w = v2 \<or> w = v3) \<or>
      w = v4 \<and> x = (case r4 of Inl e \<Rightarrow> Inl (RootActive e) | Inr st \<Rightarrow> Inr (opened_journal identity limits ds st, None))"
    using run unfolding ev by (auto split: sum.splits)
  then show ?thesis using h1(1) h2 h3(1) o4 unfolding f(14) ds_def by blast
qed

lemma open_existing_ok:
  assumes D: "disk_ok identity limits n dur app D" and h: "holds D v" and run: "open_existing identity n limits Converge None v = (x, w)"
  shows "\<exists>D'. holds D' w \<and> (case x of Inl _ \<Rightarrow> disk_ok identity limits n dur app D'
    | Inr (j, plan) \<Rightarrow> plan = None \<and> (\<exists>r g. length dur \<le> r \<and> r \<le> length app \<and> journal_ok identity limits n (take r app) r g j D'))"
proof -
  obtain m g r t where m: "length dur \<le> m" and S: "sighted identity limits n app m g r t D" using disk_sighted [OF D] by blast
  have sc: "scope_ok identity limits n app" "prefix dur app" using D by (simp_all add: disk_ok_def)
  have mr: "m \<le> r" "r \<le> length app" using S by (simp_all add: sighted_def)
  from open_existing_cases [OF sc(1) S h run] show ?thesis
  proof (elim disjE conjE exE)
    fix e assume "x = Inl e" "holds D w"
    then show ?thesis using D by (intro exI [of _ D]) simp
  next
    fix v' y assume h': "holds D v'" and run': "adopt_scan identity n False (state_at n g (take m app)) (found (take r app) t) v' = (y, w)"
      and x: "x = (case y of Inl e \<Rightarrow> Inl (RootActive e) | Inr st \<Rightarrow> Inr (opened_journal identity limits (take r app) st, None))"
    from adopt_ok [OF sc m S D h' run'] obtain D' where D': "holds D' w" "case y of Inl _ \<Rightarrow> disk_ok identity limits n dur app D'
      | Inr st \<Rightarrow> dk_journal D' = journal_bytes identity (take r app) \<and>
          (\<exists>g'. st = state_at n g' (take r app) \<and> checkpoint_settled identity limits n (take r app) r g' D')" by blast
    show ?thesis
    proof (cases y)
      case (Inl e)
      then show ?thesis using D' x by (intro exI [of _ D']) simp
    next
      case (Inr st)
      then obtain g' where g': "dk_journal D' = journal_bytes identity (take r app)" "st = state_at n g' (take r app)"
        "checkpoint_settled identity limits n (take r app) r g' D'" using D'(2) by auto
      have "scope_ok identity limits n (take r app)"
        using sc(1) sighted_facts(4) [OF sc(1) S] mr(2) by (simp add: scope_ok_def)
      then have "journal_ok identity limits n (take r app) r g' (opened_journal identity limits (take r app) st) D'"
        using g' mr by (simp add: journal_ok_def opened_journal_def)
      then show ?thesis using D'(1) Inr x m mr by (intro exI [of _ D']) (auto intro: le_trans)
    qed
  qed
qed

section \<open>Opening without faults\<close>

lemma truncation_quiet: "\<exists>j' c'. truncation ds t (quiet j c) = (Inr (), quiet j' c')"
  by (auto simp: truncation_def fs_simps)

lemma settlement_quiet: "\<exists>st w. settlement identity n ds m g (quiet j c) = (Inr st, w)"
proof (cases "m < length ds")
  case True
  define p where "p = projr (prepare_checkpoint_slot identity (state_at n (g + 1) ds))"
  have prep: "prepare_checkpoint_slot identity (state_at n (g + 1) ds) = Inr p" by (simp add: p_def prepare_checkpoint_slot_def Let_def)
  have "sync_boundaries p (quiet j c) = (Inr (), snd (sync_boundaries p (quiet j c)))"
    using write_slot_quiet [OF prep] by (simp add: sync_boundaries_def fs_simps)
  then show ?thesis unfolding settlement_def p_def [symmetric] using True by (simp add: fs_simps)
next
  case False
  then show ?thesis by (simp add: settlement_def fs_simps)
qed

lemma open_existing_succeeds:
  assumes D: "disk_ok identity limits n dur app D" and h: "holds D v" and quiet: "vol_outcomes v = []"
  shows "\<exists>j w. open_existing identity n limits Converge None v = (Inr (j, None), w)"
proof -
  obtain m g r t where S: "sighted identity limits n app m g r t D" using disk_sighted [OF D] by blast
  have sc: "scope_ok identity limits n app" using D by (simp add: disk_ok_def)
  define ds where "ds = take r app"
  note f = sighted_facts [OF sc S, folded ds_def]
  let ?st = "state_at n g (take m ds)"
  have "calm v = v" using quiet by (cases v) (simp add: calm_def)
  with holds_calm [OF h] obtain j c where v: "v = quiet j c" and jd: "fn_data j = dk_journal D" and cd: "fn_data c = dk_checkpoint D" by metis
  have o1: "open_journal identity limits Converge v = (Inr (of_nat (length (fn_data j))), quiet (j\<lparr>fn_pos := 28\<rparr>) c)"
    unfolding v using open_journal_quiet [OF f(1,2), of j ds t] f(6,8) jd by simp
  have o2: "open_checkpoint identity n Converge None (of_nat (length (fn_data j))) (quiet (j\<lparr>fn_pos := 28\<rparr>) c) =
      (Inr ?st, quiet (j\<lparr>fn_pos := 28\<rparr>) (c\<lparr>fn_pos := 128\<rparr>))"
    using open_checkpoint_quiet [OF f(1) _ f(4,9,10,11)] f(7) cd jd by simp
  obtain p where o3: "scan_journal identity limits ?st n (of_nat (length (fn_data j))) (quiet (j\<lparr>fn_pos := 28\<rparr>) (c\<lparr>fn_pos := 128\<rparr>)) =
      (Inr (found ds t), quiet (j\<lparr>fn_pos := p\<rparr>) (c\<lparr>fn_pos := 128\<rparr>))"
    using scan_journal_quiet [OF f(3,1,4,5) _ _ f(12,13), of "j\<lparr>fn_pos := 28\<rparr>" g "c\<lparr>fn_pos := 128\<rparr>"] jd f(6,10) by (auto simp: found_def)
  obtain j' c' where t1: "truncation ds t (quiet (j\<lparr>fn_pos := p\<rparr>) (c\<lparr>fn_pos := 128\<rparr>)) = (Inr (), quiet j' c')" using truncation_quiet by blast
  obtain st w where t2: "settlement identity n ds m g (quiet j' c') = (Inr st, w)" using settlement_quiet by blast
  have "adopt_scan identity n False ?st (found ds t) (quiet (j\<lparr>fn_pos := p\<rparr>) (c\<lparr>fn_pos := 128\<rparr>)) = (Inr st, w)"
    using adopt_sighted [OF sc S] t1 t2 unfolding f(14) ds_def by (simp add: fs_simps)
  then show ?thesis using o1 o2 o3 by (simp add: open_existing_def fs_simps found_def)
qed

end
