(* ===== verification/Och_Active_System.thy ===== *)
theory Och_Active_System
  imports Och_Active_Recover
begin

text \<open>
  An active journal over its whole life: it is created, appended to and synchronized while calls fail, its process stops or
  the machine crashes, and it is opened again, perhaps several times in vain.  Every reachable state can be recovered without
  losing a record that was reported durable and without inventing one.
\<close>

section \<open>Creating\<close>

lemma settled_create [settling]: "settled (fs_create_new a)" "settled fs_sync_directory"
  unfolding fs_create_new_def fs_sync_directory_def
  by (rule settled_call; cases a; auto split: option.splits)+

lemma create_new_settled [settling]: "settled (create_new identity n limits)"
  unfolding create_new_def create_artifact_def lock_journal_def initialize_prepared_checkpoint_def write_prepared_checkpoint_slot_def Let_def
  by (intro settling; simp add: settling split: TryLock.splits)+

definition fresh :: "Volume \<Rightarrow> bool" where
  "fresh v \<longleftrightarrow> vol_is_directory v \<and> vol_journal v = None \<and> vol_checkpoint v = None \<and> \<not> vol_locked v \<and> vol_slot_atomic v"

lemma genesis_state: "genesis_checkpoint_state n = state_at n 1 []"
  by (simp add: genesis_checkpoint_state_def state_at_def seq_at_def JOURNAL_V1_HEADER_LEN_def)

definition empty_volume :: Volume where
  "empty_volume = \<lparr>vol_is_directory = True, vol_journal = None, vol_checkpoint = None, vol_locked = False, vol_slot_atomic = True, vol_outcomes = []\<rparr>"

text \<open>The files of an empty journal.\<close>

definition header_file :: "JournalIdentity \<Rightarrow> FileNode" where
  "header_file identity = (let h = header_encode \<lparr>header_store_id = ji_store_id identity\<rparr> in \<lparr>fn_data = h, fn_durable = h, fn_pos = length h\<rparr>)"

definition genesis_file :: "JournalIdentity \<Rightarrow> u64 \<Rightarrow> FileNode" where
  "genesis_file identity n = (let c = checkpoint_file identity (state_at n 1 []) (replicate 64 0) in \<lparr>fn_data = c, fn_durable = c, fn_pos = 64\<rparr>)"

lemma create_new_run:
  assumes id: "identity_ok (ji_store_id identity)"
  shows "create_new identity n limits empty_volume =
    (Inr (opened_journal identity limits [] (state_at n 1 [])), quiet (header_file identity) (genesis_file identity n))"
proof -
  define st where "st = state_at n 1 []"
  have gen: "genesis_checkpoint_state n = st" by (simp add: genesis_state st_def)
  have e64: "length (encode_checkpoint identity st) = 64" by (rule length_encode_checkpoint [OF id])
  have prep: "prepare_checkpoint_slot identity st = Inr \<lparr>pcs_bytes = encode_checkpoint identity st, pcs_offset = 0\<rparr>"
    by (simp add: prepare_checkpoint_slot_def st_def state_at_def)
  have sp: "splice 0 (encode_checkpoint identity st) (resize 128 []) = checkpoint_file identity st (replicate 64 0)" "splice 0 h [] = h" for h
    using e64 by (simp_all add: splice_def resize_def checkpoint_file_def slot_index_def st_def state_at_def)
  show ?thesis
    unfolding st_def [symmetric] genesis_file_def header_file_def Let_def
    using sp e64
    by (simp add: create_new_def gen prep create_artifact_def lock_journal_def initialize_prepared_checkpoint_def write_prepared_checkpoint_slot_def
        Let_def fs_bind_def io_def fs_map_err_def fs_create_new_def fs_call_def fs_try_lock_def fs_write_all_def on_file_def empty_volume_def
        fs_sync_all_def fs_set_len_def fs_seek_start_def fs_sync_directory_def fs_return_def fs_lift_def file_write_def map_err_def checkpoint_consts
        opened_journal_def JOURNAL_V1_HEADER_LEN_def quiet_def)
qed

lemma create_new_ok:
  assumes id: "identity_ok (ji_store_id identity)" and lim: "active_limits_ok limits" and v: "fresh v"
    and run: "create_new identity n limits v = (Inr j, w)"
  shows "\<exists>D. holds D w \<and> journal_ok identity limits n [] 0 1 j D"
proof -
  let ?h = "fn_data (header_file identity)" and ?c = "fn_data (genesis_file identity n)"
  define D where "D = \<lparr>dk_journal = ?h, dk_journal_durable = ?h, dk_checkpoint = ?c, dk_checkpoint_durable = ?c\<rparr>"
  have "calm v = empty_volume" using v by (cases v) (simp add: fresh_def calm_def empty_volume_def)
  with settledD [OF create_new_settled run] create_new_run [OF id, of n limits]
  have j: "j = opened_journal identity limits [] (state_at n 1 [])" and "calm w = quiet (header_file identity) (genesis_file identity n)" by simp_all
  then have "holds D (calm w)" by (simp add: D_def header_file_def genesis_file_def Let_def)
  then have "holds D w" by (simp add: calm_def)
  moreover have "checkpoint_settled identity limits n [] 0 1 D"
    using lim id by (intro settledI)
      (auto simp: D_def header_file_def genesis_file_def Let_def slots_def readable_def readable_as_def journal_bytes_def torn_def length_header_encode
        active_limits_ok_def word_le_nat_alt)
  ultimately show ?thesis using id lim j
    by (intro exI [of _ D]) (simp add: journal_ok_def scope_ok_def opened_journal_def D_def header_file_def Let_def journal_bytes_def)
qed

section \<open>The life of a journal\<close>

text \<open>
  \<open>life dur app h v\<close>: the volume \<open>v\<close> is reachable with the open handle \<open>h\<close>, if any; \<open>dur\<close> is what the last successful
  synchronization or open reported durable, \<open>app\<close> is what has been handed to \<open>append\<close> since, the last one perhaps in vain.
  The environment chooses the outcome of every call anew at any moment.
\<close>

definition crash_volume :: "Volume \<Rightarrow> Volume \<Rightarrow> bool" where
  "crash_volume v v' \<longleftrightarrow> (\<exists>D D'. holds D v \<and> crashed D D' \<and> holds D' v')"

inductive life ::
  "JournalIdentity \<Rightarrow> ActiveJournalLimits \<Rightarrow> u64 \<Rightarrow> DecodedAdmissionV1 list \<Rightarrow> DecodedAdmissionV1 list \<Rightarrow> ActiveJournal option \<Rightarrow> Volume \<Rightarrow> bool"
  for identity limits n where
  created: "fresh v \<Longrightarrow> create_new identity n limits v = (Inr j, w) \<Longrightarrow> life identity limits n [] [] (Some j) w"
| outcomes: "life identity limits n dur app h v \<Longrightarrow> life identity limits n dur app h (v\<lparr>vol_outcomes := os\<rparr>)"
| appended: "life identity limits n dur app (Some j) v \<Longrightarrow> into_frame p s = Inr frame \<Longrightarrow> append_checks frame j = Inr (d, stop) \<Longrightarrow>
    active_append frame j v = (Inr off, j', w) \<Longrightarrow> life identity limits n dur (app @ [d]) (Some j') w"
| torn_append: "life identity limits n dur app (Some j) v \<Longrightarrow> into_frame p s = Inr frame \<Longrightarrow> append_checks frame j = Inr (d, stop) \<Longrightarrow>
    active_append frame j v = (Inl e, j', w) \<Longrightarrow> aj_write_state j' \<noteq> aj_write_state j \<Longrightarrow> life identity limits n dur (app @ [d]) (Some j') w"
| refused_append: "life identity limits n dur app (Some j) v \<Longrightarrow> into_frame p s = Inr frame \<Longrightarrow>
    active_append frame j v = (Inl e, j', w) \<Longrightarrow> aj_write_state j' = aj_write_state j \<Longrightarrow> life identity limits n dur app (Some j') w"
| synced: "life identity limits n dur app (Some j) v \<Longrightarrow> sync_pending j v = (Inr cutoff, j', w) \<Longrightarrow> life identity limits n app app (Some j') w"
| failed_sync: "life identity limits n dur app (Some j) v \<Longrightarrow> sync_pending j v = (Inl e, j', w) \<Longrightarrow> life identity limits n dur app (Some j') w"
| stopped: "life identity limits n dur app h v \<Longrightarrow> life identity limits n dur app None v"
| crash: "life identity limits n dur app h v \<Longrightarrow> crash_volume v v' \<Longrightarrow> life identity limits n dur app None v'"
| opened: "life identity limits n dur app None v \<Longrightarrow> open_existing identity n limits Converge None v = (Inr (j, plan), w) \<Longrightarrow>
    life identity limits n (map rec_admission (aj_records j)) (map rec_admission (aj_records j)) (Some j) w"
| failed_open: "life identity limits n dur app None v \<Longrightarrow> open_existing identity n limits Converge None v = (Inl e, w) \<Longrightarrow>
    life identity limits n dur app None w"

definition life_ok :: "JournalIdentity \<Rightarrow> ActiveJournalLimits \<Rightarrow> u64 \<Rightarrow> DecodedAdmissionV1 list \<Rightarrow> DecodedAdmissionV1 list \<Rightarrow> ActiveJournal option \<Rightarrow> Volume \<Rightarrow> bool" where
  "life_ok identity limits n dur app h v \<longleftrightarrow> (\<exists>D. holds D v \<and> disk_ok identity limits n dur app D \<and>
     (\<forall>j. h = Some j \<longrightarrow> aj_write_state j = Writable \<longrightarrow> (\<exists>m g. length dur \<le> m \<and> journal_ok identity limits n app m g j D)))"

lemma journal_disk_ok:
  "journal_ok identity limits n app m g j D \<Longrightarrow> prefix dur app \<Longrightarrow> length dur \<le> m \<Longrightarrow> disk_ok identity limits n dur app D"
  by (auto simp: journal_ok_def disk_ok_def)

lemma life_okI:
  assumes "journal_ok identity limits n app m g j D" "holds D v" "prefix dur app" "length dur \<le> m"
  shows "life_ok identity limits n dur app (Some j) v"
  using assms journal_disk_ok [OF assms(1,3,4)] by (auto simp: life_ok_def)

lemma life_ok_down:
  "disk_ok identity limits n dur app D \<Longrightarrow> holds D v \<Longrightarrow> (\<And>j. h = Some j \<Longrightarrow> aj_write_state j \<noteq> Writable) \<Longrightarrow> life_ok identity limits n dur app h v"
  by (auto simp: life_ok_def)

lemma unusable:
  assumes "aj_write_state j \<noteq> Writable"
  shows "\<exists>e. ensure_usable j = Inl e" "append_checks frame j \<noteq> Inr y"
    "active_append frame j v = (r, j', w) \<Longrightarrow> j' = j \<and> w = v" "sync_pending j v = (q, j', w) \<Longrightarrow> (\<exists>e. q = Inl e) \<and> j' = j \<and> w = v"
proof -
  show e: "\<exists>e. ensure_usable j = Inl e" using assms by (cases "aj_write_state j") (simp_all add: ensure_usable_def)
  then show "append_checks frame j \<noteq> Inr y" by (auto simp: append_checks_def and_then_def)
  show "active_append frame j v = (r, j', w) \<Longrightarrow> j' = j \<and> w = v"
    using e by (auto simp: active_append_def append_checks_def and_then_def)
  show "sync_pending j v = (q, j', w) \<Longrightarrow> (\<exists>e. q = Inl e) \<and> j' = j \<and> w = v"
    using e by (auto simp: sync_pending_def and_then_def)
qed

lemma life_ok_append:
  assumes L: "life_ok identity limits n dur app (Some j) v" and fr: "into_frame p s = Inr frame" and run: "active_append frame j v = (r, j', w)"
  shows "r = Inr off \<or> aj_write_state j' \<noteq> aj_write_state j \<Longrightarrow> append_checks frame j = Inr (d, stop) \<Longrightarrow>
      life_ok identity limits n dur (app @ [d]) (Some j') w"
    "r = Inl e \<Longrightarrow> aj_write_state j' = aj_write_state j \<Longrightarrow> life_ok identity limits n dur app (Some j') w"
proof -
  obtain D where D: "holds D v" "disk_ok identity limits n dur app D"
    "aj_write_state j = Writable \<longrightarrow> (\<exists>m g. length dur \<le> m \<and> journal_ok identity limits n app m g j D)" using L by (auto simp: life_ok_def)
  have pre: "prefix dur app" using D(2) by (simp add: disk_ok_def)
  show "life_ok identity limits n dur (app @ [d]) (Some j') w" if alt: "r = Inr off \<or> aj_write_state j' \<noteq> aj_write_state j" and chk: "append_checks frame j = Inr (d, stop)"
  proof -
    have "aj_write_state j = Writable" using chk unusable(2) by blast
    then obtain m g where m: "length dur \<le> m" and J: "journal_ok identity limits n app m g j D" using D(3) by blast
    from append_ok [OF J D(1) fr run] alt chk obtain D' where D': "holds D' w"
      "case r of Inl _ \<Rightarrow> aj_write_state j' \<noteq> Writable \<and> scope_ok identity limits n (app @ [d]) \<and> checkpoint_settled identity limits n (app @ [d]) m g D'
       | Inr off \<Rightarrow> off = stop \<and> journal_ok identity limits n (app @ [d]) m g j' D'" by auto
    have pre': "prefix dur (app @ [d])" using pre by simp
    show ?thesis
    proof (cases r)
      case (Inl e)
      then have "disk_ok identity limits n dur (app @ [d]) D'" using D'(2) m pre' by (auto simp: disk_ok_def)
      then show ?thesis using D'(1) by (rule life_ok_down) (use D'(2) Inl in auto)
    next
      case (Inr off')
      then show ?thesis using D' m by (intro life_okI [OF _ D'(1) pre' m, of _ _ _ g]) simp
    qed
  qed
  show "life_ok identity limits n dur app (Some j') w" if r: "r = Inl e" and same: "aj_write_state j' = aj_write_state j"
  proof (cases "aj_write_state j = Writable")
    case True
    then obtain m g where m: "length dur \<le> m" and J: "journal_ok identity limits n app m g j D" using D(3) by blast
    from append_ok [OF J D(1) fr run] r same True have "j' = j" "holds D w" by auto
    then show ?thesis using life_okI [OF J _ pre m] by simp
  next
    case False
    from unusable(3) [OF this run] show ?thesis using L by simp
  qed
qed

lemma life_ok_sync:
  assumes L: "life_ok identity limits n dur app (Some j) v" and run: "sync_pending j v = (r, j', w)"
  shows "r = Inr cutoff \<Longrightarrow> life_ok identity limits n app app (Some j') w" "r = Inl e \<Longrightarrow> life_ok identity limits n dur app (Some j') w"
proof -
  obtain D where D: "holds D v" "disk_ok identity limits n dur app D"
    "aj_write_state j = Writable \<longrightarrow> (\<exists>m g. length dur \<le> m \<and> journal_ok identity limits n app m g j D)" using L by (auto simp: life_ok_def)
  have "(\<forall>cutoff. r = Inr cutoff \<longrightarrow> life_ok identity limits n app app (Some j') w) \<and> (\<forall>e. r = Inl e \<longrightarrow> life_ok identity limits n dur app (Some j') w)"
  proof (cases "aj_write_state j = Writable")
    case True
    then obtain m g where m: "length dur \<le> m" and J: "journal_ok identity limits n app m g j D" using D(3) by blast
    from sync_pending_ok [OF J D(1) run] obtain D' where D': "holds D' w"
      "case r of Inl _ \<Rightarrow> aj_write_state j' \<noteq> Writable \<and> (checkpoint_settled identity limits n app m g D' \<or> checkpoint_waiting identity limits n app m (length app) g D')
       | Inr cutoff \<Rightarrow> (\<exists>g'. journal_ok identity limits n app (length app) g' j' D') \<and> cutoff = active_durable_cutoff j'" by blast
    show ?thesis
    proof (cases r)
      case (Inl e)
      then have "disk_ok identity limits n dur app D'" using D'(2) m D(2) by (auto simp: disk_ok_def)
      then have "life_ok identity limits n dur app (Some j') w" using D'(1) by (rule life_ok_down) (use D'(2) Inl in auto)
      then show ?thesis using Inl by simp
    next
      case (Inr cutoff)
      then obtain g' where "journal_ok identity limits n app (length app) g' j' D'" using D'(2) by auto
      from life_okI [OF this D'(1)] show ?thesis using Inr by simp
    qed
  next
    case False
    from unusable(4) [OF this run] show ?thesis using L by auto
  qed
  then show "r = Inr cutoff \<Longrightarrow> life_ok identity limits n app app (Some j') w" "r = Inl e \<Longrightarrow> life_ok identity limits n dur app (Some j') w" by blast+
qed

lemma life_ok_open:
  assumes L: "life_ok identity limits n dur app None v" and run: "open_existing identity n limits Converge None v = (x, w)"
  shows "x = Inr (j, plan) \<Longrightarrow> life_ok identity limits n (map rec_admission (aj_records j)) (map rec_admission (aj_records j)) (Some j) w \<and>
      prefix dur (map rec_admission (aj_records j)) \<and> prefix (map rec_admission (aj_records j)) app \<and> aj_write_state j = Writable \<and>
      cut_end_offset (active_durable_cutoff j) = aj_active_bytes j"
    "x = Inl e \<Longrightarrow> life_ok identity limits n dur app None w"
proof -
  obtain D where D: "holds D v" "disk_ok identity limits n dur app D" using L by (auto simp: life_ok_def)
  obtain D' where D': "holds D' w" "case x of Inl _ \<Rightarrow> disk_ok identity limits n dur app D'
    | Inr (j, plan) \<Rightarrow> plan = None \<and> (\<exists>r g. length dur \<le> r \<and> r \<le> length app \<and> journal_ok identity limits n (take r app) r g j D')"
    using open_existing_ok [OF D(2,1) run] by blast
  show "x = Inl e \<Longrightarrow> life_ok identity limits n dur app None w" using D' by (auto intro: life_ok_down)
  assume "x = Inr (j, plan)"
  then obtain r g where r: "length dur \<le> r" "r \<le> length app" and J: "journal_ok identity limits n (take r app) r g j D'" using D'(2) by auto
  have recs: "map rec_admission (aj_records j) = take r app" using J by (simp add: journal_ok_def)
  have "prefix dur app" using D(2) by (simp add: disk_ok_def)
  then have "prefix dur (take r app)" by (rule prefix_length_prefix [OF _ take_is_prefix]) (use r in simp)
  moreover have "life_ok identity limits n (take r app) (take r app) (Some j) w" using life_okI [OF J D'(1), of "take r app"] by simp
  moreover have "aj_write_state j = Writable" "cut_end_offset (active_durable_cutoff j) = aj_active_bytes j"
    using J by (simp_all add: journal_ok_def active_durable_cutoff_def state_at_def)
  ultimately show "life_ok identity limits n (map rec_admission (aj_records j)) (map rec_admission (aj_records j)) (Some j) w \<and>
      prefix dur (map rec_admission (aj_records j)) \<and> prefix (map rec_admission (aj_records j)) app \<and> aj_write_state j = Writable \<and>
      cut_end_offset (active_durable_cutoff j) = aj_active_bytes j"
    unfolding recs by (simp add: take_is_prefix)
qed

lemma life_ok_crash: "life_ok identity limits n dur app h v \<Longrightarrow> crash_volume v v' \<Longrightarrow> life_ok identity limits n dur app None v'"
proof -
  assume "life_ok identity limits n dur app h v" "crash_volume v v'"
  then obtain D E E' where D: "holds D v" "disk_ok identity limits n dur app D" and E: "holds E v" "crashed E E'" "holds E' v'"
    by (auto simp: life_ok_def crash_volume_def)
  have "E = D" using D(1) E(1) by (cases D; cases E) (simp add: holds_def)
  with crash_ok [OF D(2)] E show ?thesis by (auto intro: life_ok_down)
qed

theorem life_invariant:
  assumes "identity_ok (ji_store_id identity)" "active_limits_ok limits"
  shows "life identity limits n dur app h v \<Longrightarrow> life_ok identity limits n dur app h v"
proof (induction rule: life.induct)
  case (created v j w)
  from create_new_ok [OF assms created] show ?case by (auto intro: life_okI)
next
  case (outcomes dur app h v os)
  then show ?case by (simp add: life_ok_def)
next
  case (appended dur app j v p s frame d stop off j' w)
  from life_ok_append(1) [OF appended.IH appended.hyps(2,4)] appended.hyps(3) show ?case by blast
next
  case (torn_append dur app j v p s frame d stop e j' w)
  from life_ok_append(1) [OF torn_append.IH torn_append.hyps(2,4)] torn_append.hyps(3,5) show ?case by blast
next
  case (refused_append dur app j v p s frame e j' w)
  from life_ok_append(2) [OF refused_append.IH refused_append.hyps(2,3)] refused_append.hyps(4) show ?case by blast
next
  case (synced dur app j v cutoff j' w)
  from life_ok_sync(1) [OF synced.IH synced.hyps(2)] show ?case by blast
next
  case (failed_sync dur app j v e j' w)
  from life_ok_sync(2) [OF failed_sync.IH failed_sync.hyps(2)] show ?case by blast
next
  case (stopped dur app h v)
  then show ?case by (auto simp: life_ok_def)
next
  case (crash dur app h v v')
  then show ?case by (blast intro: life_ok_crash)
next
  case (opened dur app v j plan w)
  from life_ok_open(1) [OF opened.IH opened.hyps(2)] show ?case by blast
next
  case (failed_open dur app v e w)
  from life_ok_open(2) [OF failed_open.IH failed_open.hyps(2)] show ?case by blast
qed

section \<open>A log that recovers\<close>

text \<open>
  What a store promises its clients: after a crash, recovery returns a list between what was reported durable and what was
  handed in, and from then on that list is durable.
\<close>

locale recoverable_log =
  fixes reach :: "'r list \<Rightarrow> 'r list \<Rightarrow> 's \<Rightarrow> bool" and crash :: "'s \<Rightarrow> 's \<Rightarrow> bool" and recover :: "'s \<Rightarrow> 'r list \<Rightarrow> 's \<Rightarrow> bool"
  assumes recovered: "reach dur app s \<Longrightarrow> crash s s' \<Longrightarrow> recover s' rs t \<Longrightarrow> prefix dur rs \<and> prefix rs app \<and> reach rs rs t"
begin

inductive recoveries :: "'s \<Rightarrow> 'r list \<Rightarrow> 's \<Rightarrow> bool" where
  once: "crash s s' \<Longrightarrow> recover s' rs t \<Longrightarrow> recoveries s rs t"
| again: "recoveries s qs t \<Longrightarrow> crash t t' \<Longrightarrow> recover t' rs u \<Longrightarrow> recoveries s rs u"

lemma recoveries_within: "recoveries s rs t \<Longrightarrow> reach dur app s \<Longrightarrow> prefix dur rs \<and> prefix rs app \<and> reach rs rs t"
proof (induction rule: recoveries.induct)
  case (once s s' rs t)
  then show ?case by (blast dest: recovered)
next
  case (again s qs t t' rs u)
  then have q: "prefix dur qs" "prefix qs app" "reach qs qs t" by blast+
  from recovered [OF q(3) again.hyps(2,3)] have "rs = qs" "reach rs rs u" by (auto intro: prefix_order.antisym)
  with q show ?case by simp
qed

lemma recoveries_agree:
  assumes "reach dur app s" "crash s s'" "recover s' rs t" "recoveries t qs u"
  shows "qs = rs"
proof -
  have "reach rs rs t" using recovered [OF assms(1-3)] by blast
  from recoveries_within [OF assms(4) this] show ?thesis by (auto intro: prefix_order.antisym)
qed

end

definition journal_reach ::
  "JournalIdentity \<Rightarrow> ActiveJournalLimits \<Rightarrow> u64 \<Rightarrow> DecodedAdmissionV1 list \<Rightarrow> DecodedAdmissionV1 list \<Rightarrow> Volume \<Rightarrow> bool" where
  "journal_reach identity limits n dur app v \<longleftrightarrow> identity_ok (ji_store_id identity) \<and> active_limits_ok limits \<and> (\<exists>h. life identity limits n dur app h v)"

definition journal_recover :: "JournalIdentity \<Rightarrow> ActiveJournalLimits \<Rightarrow> u64 \<Rightarrow> Volume \<Rightarrow> DecodedAdmissionV1 list \<Rightarrow> Volume \<Rightarrow> bool" where
  "journal_recover identity limits n v rs w \<longleftrightarrow>
     (\<exists>j plan. open_existing identity n limits Converge None v = (Inr (j, plan), w) \<and> rs = map rec_admission (aj_records j))"

interpretation active_log: recoverable_log "journal_reach identity limits n" crash_volume "journal_recover identity limits n"
proof
  fix dur app s s' rs t
  assume r: "journal_reach identity limits n dur app s" and c: "crash_volume s s'" and o: "journal_recover identity limits n s' rs t"
  then have ok: "identity_ok (ji_store_id identity)" "active_limits_ok limits" by (simp_all add: journal_reach_def)
  obtain h where l: "life identity limits n dur app h s" using r by (auto simp: journal_reach_def)
  obtain j plan where run: "open_existing identity n limits Converge None s' = (Inr (j, plan), t)" and rs: "rs = map rec_admission (aj_records j)"
    using o by (auto simp: journal_recover_def)
  have "prefix dur rs \<and> prefix rs app" unfolding rs using life_ok_open(1) [OF life_ok_crash [OF life_invariant [OF ok l] c] run] by blast
  moreover have "life identity limits n rs rs (Some j) t" unfolding rs by (rule life.opened [OF life.crash [OF l c] run])
  ultimately show "prefix dur rs \<and> prefix rs app \<and> journal_reach identity limits n rs rs t" using ok by (auto simp: journal_reach_def)
qed

end
