(* ===== verification/Och_Active_Sample.thy ===== *)
theory Och_Active_Sample
  imports Och_Active_System Och_Sample_Run
begin

text \<open>One life of an active journal: created, one admission appended and synchronized, then the machine crashes.\<close>

definition sample_active_identity :: JournalIdentity where
  "sample_active_identity = \<lparr>ji_store_id = sample_id 1, ji_generation = 2\<rparr>"

definition sample_active_limits :: ActiveJournalLimits where
  "sample_active_limits = \<lparr>lim_payload = 8388608, lim_active_bytes = 536870912, lim_records = 4096\<rparr>"

definition sample_pframe :: PreparedFrameV1 where
  "sample_pframe = \<lparr>pf_admission = sample_admission, pf_append_sequence = AppendSequenceV1 5, pf_bytes = sample_frame\<rparr>"

definition sample_new_journal :: ActiveJournal where
  "sample_new_journal = opened_journal sample_active_identity sample_active_limits [] (state_at 4 1 [])"

lemma sample_active_ok: "identity_ok (ji_store_id sample_active_identity)" "active_limits_ok sample_active_limits"
proof -
  show "identity_ok (ji_store_id sample_active_identity)"
    by (simp add: sample_active_identity_def)
  show "active_limits_ok sample_active_limits" by (simp add: active_limits_ok_def sample_active_limits_def)
qed

lemma sample_framed: "into_frame sample_prepared (AppendSequenceV1 5) = Inr sample_pframe"
  using into_frame_valid [OF sample_admission_ok sample_frame_len(3)] by (simp add: sample_pframe_def sample_frame_def sample_decoded_def)

lemma sample_stores: "da_store_id sample_decoded = sample_id 1" "dd_store_id (da_declaration sample_decoded) = sample_id 1"
    "decl_store_id (adm_declaration sample_admission) = sample_id 1"
  by (simp_all add: sample_decoded_def view_admission_def view_declaration_def sample_admission_def sample_declaration_def)

lemma sample_checked: "\<exists>stop. append_checks sample_pframe sample_new_journal = Inr (sample_decoded, stop)"
proof -
  have "checked_add (28 :: u64) (of_nat (length sample_frame)) = Some (of_nat (28 + length sample_frame))"
    using checked_add_of_nat [of 28 "length sample_frame"] sample_frame_len(2) by simp
  moreover have "\<not> (536870912 :: u64) < of_nat (28 + length sample_frame)"
    using of_nat_u64_cmp(1) [of 536870912 "28 + length sample_frame"] sample_frame_len(2) by simp
  ultimately show ?thesis
    using sample_frame_decodes sample_stores
    by (simp add: append_checks_def sample_new_journal_def opened_journal_def ensure_usable_def next_append_sequence_def last_append_sequence_def
        state_at_def seq_at_def checked_add_def append_sequence_new_def sample_pframe_def decode_limits_new_def sample_active_limits_def
        decode_limits_maximum_def MAX_ADMISSION_PAYLOAD_V1_def sample_active_identity_def del: of_nat_add)
qed

lemma append_quiet:
  assumes "append_checks frame j = Inr (d, stop)"
  shows "\<exists>j' jf'. active_append frame j (quiet jf cf) = (Inr stop, j', quiet jf' cf)"
proof -
  have "active_append frame j (quiet jf cf) =
      (Inr stop, j\<lparr>aj_active_bytes := stop, aj_records := aj_records j @ [\<lparr>rec_end_offset = stop, rec_admission = d\<rparr>]\<rparr>,
       quiet (file_write (pf_bytes frame) (jf\<lparr>fn_pos := length (fn_data jf)\<rparr>)) cf)"
    using assms by (simp add: active_append_def fs_simps)
  then show ?thesis by blast
qed

lemma sync_quiet:
  assumes "aj_write_state j = Writable" "pending_checkpoint_state (last_append_sequence j) j = Inr st"
  shows "\<exists>cutoff j' w. sync_pending j (quiet jf cf) = (Inr cutoff, j', w)"
proof -
  define p where "p = projr (prepare_checkpoint_slot (aj_identity j) st)"
  have prep: "prepare_checkpoint_slot (aj_identity j) st = Inr p" by (simp add: p_def prepare_checkpoint_slot_def Let_def)
  obtain w where "sync_boundaries p (quiet jf cf) = (Inr (), w)"
    using write_slot_quiet [OF prep] by (simp add: sync_boundaries_def fs_simps)
  then show ?thesis using assms prep by (cases "nothing_pending j") (auto simp: sync_pending_def ensure_usable_def Let_def)
qed

lemma sample_synchronized:
  "\<exists>j v cutoff j' w. life sample_active_identity sample_active_limits 4 [] [sample_decoded] (Some j) v \<and> sync_pending j v = (Inr cutoff, j', w)"
proof -
  let ?life = "life sample_active_identity sample_active_limits 4"
  have fresh: "fresh empty_volume" by (simp add: fresh_def empty_volume_def)
  note new = create_new_run [OF sample_active_ok(1), of 4 sample_active_limits, folded sample_new_journal_def]
  have l0: "?life [] [] (Some sample_new_journal) (quiet (header_file sample_active_identity) (genesis_file sample_active_identity 4))"
    by (rule life.created [OF fresh new])
  obtain stop where chk: "append_checks sample_pframe sample_new_journal = Inr (sample_decoded, stop)" using sample_checked by blast
  obtain j f where app: "active_append sample_pframe sample_new_journal (quiet (header_file sample_active_identity) (genesis_file sample_active_identity 4)) =
      (Inr stop, j, quiet f (genesis_file sample_active_identity 4))" using append_quiet [OF chk] by blast
  have l1: "?life [] [sample_decoded] (Some j) (quiet f (genesis_file sample_active_identity 4))"
    using life.appended [OF l0 sample_framed chk app] by simp
  have j: "aj_write_state j = Writable" "aj_checkpoint_state j = state_at 4 1 []"
    using app chk by (auto simp: active_append_def fs_simps sample_new_journal_def opened_journal_def)
  have "\<exists>st. pending_checkpoint_state (last_append_sequence j) j = Inr st"
    by (simp add: pending_checkpoint_state_def j(2) state_at_def checked_add_def)
  then obtain cutoff j' w where "sync_pending j (quiet f (genesis_file sample_active_identity 4)) = (Inr cutoff, j', w)"
    using sync_quiet [OF j(1)] by blast
  with l1 show ?thesis by blast
qed

lemma sample_life: "\<exists>h v. life sample_active_identity sample_active_limits 4 [sample_decoded] [sample_decoded] h v"
  using sample_synchronized life.synced by blast

text \<open>Some crash is always possible: the one that loses nothing.\<close>

lemma crash_possible:
  assumes "life_ok identity limits n dur app h v"
  shows "\<exists>v'. crash_volume v v' \<and> vol_outcomes v' = []"
proof -
  obtain D where D: "holds D v" using assms by (auto simp: life_ok_def)
  define D' where "D' = D\<lparr>dk_journal_durable := dk_journal D, dk_checkpoint_durable := dk_checkpoint D\<rparr>"
  define v' where "v' = quiet \<lparr>fn_data = dk_journal D, fn_durable = dk_journal D, fn_pos = 0\<rparr> \<lparr>fn_data = dk_checkpoint D, fn_durable = dk_checkpoint D, fn_pos = 0\<rparr>"
  have "crashed D D'" "holds D' v'" "vol_outcomes v' = []"
    by (simp_all add: crashed_def survives_def slot_survives_def D'_def v'_def) (simp add: quiet_def)
  then show ?thesis using D by (auto simp: crash_volume_def)
qed

end
