(* ===== verification/Och_Active_Properties.thy ===== *)
theory Och_Active_Properties
  imports Och_Active_Sample
begin

text \<open>The properties of the active journal, over every life of it and every choice of failing calls.\<close>

definition config_identity :: "ActiveJournalConfig \<Rightarrow> JournalIdentity" where
  "config_identity config = \<lparr>ji_store_id = cfg_store_id config, ji_generation = cfg_generation config\<rparr>"

abbreviation config_life ::
  "ActiveJournalConfig \<Rightarrow> DecodedAdmissionV1 list \<Rightarrow> DecodedAdmissionV1 list \<Rightarrow> ActiveJournal option \<Rightarrow> Volume \<Rightarrow> bool" where
  "config_life config \<equiv> life (config_identity config) (cfg_limits config) (cfg_sequence_floor config)"




definition sample_active_config :: ActiveJournalConfig where
  "sample_active_config = \<lparr>cfg_directory = [], cfg_store_id = sample_id 1, cfg_mode = OpenExisting, cfg_limits = sample_active_limits,
     cfg_recovery_policy = Converge, cfg_generation = 2, cfg_sequence_floor = 4\<rparr>"


text \<open>(C36) Recovery settles at once: however often the machine crashes and the journal is opened again after a first
  recovery, with no append in between, every open returns the list the first one returned.
\<close>

theorem recovery_settles:
  assumes "journal_reach identity limits n dur app v" "crash_volume v v'" "journal_recover identity limits n v' rs w"
    "active_log.recoveries identity limits n w qs u"
  shows "qs = rs"
  by (rule active_log.recoveries_agree [OF assms])

theorem recovery_settles_witness:
  "\<exists>v v' w u. journal_reach sample_active_identity sample_active_limits 4 [sample_decoded] [sample_decoded] v \<and> crash_volume v v' \<and>
    journal_recover sample_active_identity sample_active_limits 4 v' [sample_decoded] w \<and>
    active_log.recoveries sample_active_identity sample_active_limits 4 w [sample_decoded] u"
proof -
  let ?reach = "journal_reach sample_active_identity sample_active_limits 4" and ?recover = "journal_recover sample_active_identity sample_active_limits 4"
  have step: "\<exists>s' rs t. crash_volume s s' \<and> ?recover s' rs t" if reach: "?reach dur app s" for dur app s
  proof -
    obtain h where "life sample_active_identity sample_active_limits 4 dur app h s" using reach by (auto simp: journal_reach_def)
    note ok = life_invariant [OF sample_active_ok this]
    obtain s' where s': "crash_volume s s'" "vol_outcomes s' = []" using crash_possible [OF ok] by blast
    obtain D where "holds D s'" "disk_ok sample_active_identity sample_active_limits 4 dur app D"
      using life_ok_crash [OF ok s'(1)] by (auto simp: life_ok_def)
    then show ?thesis using open_existing_succeeds s' unfolding journal_recover_def by blast
  qed
  obtain v where v: "?reach [sample_decoded] [sample_decoded] v" using sample_life sample_active_ok by (auto simp: journal_reach_def)
  obtain v' rs w where w: "crash_volume v v'" "?recover v' rs w" using step [OF v] by blast
  have rs: "rs = [sample_decoded]" "?reach rs rs w" using active_log.recovered [OF v w] by (auto intro: prefix_order.antisym)
  obtain w' qs u where u: "crash_volume w w'" "?recover w' qs u" using step [OF rs(2)] by blast
  have cycle: "active_log.recoveries sample_active_identity sample_active_limits 4 w qs u" by (rule active_log.recoveries.once [OF u])
  have "qs = rs" by (rule recovery_settles [OF v w cycle])
  with v w cycle rs(1) show ?thesis by blast
qed

text \<open>(C9) When \<open>sync_pending\<close> of a usable journal returns a cutoff, the durable image of the journal starts with the header and
  every admission appended so far, and the cutoff names the end of the last of them and its append sequence.
\<close>

theorem sync_makes_durable:
  assumes "identity_ok (cfg_store_id config)" "active_limits_new p b r = Inr (cfg_limits config)"
    "config_life config dur app (Some j) v" "sync_pending j v = (Inr cutoff, j', w)"
  shows "\<exists>f. vol_journal w = Some f \<and> prefix (journal_bytes (config_identity config) app) (fn_durable f) \<and>
    unat (cut_end_offset cutoff) = length (journal_bytes (config_identity config) app) \<and>
    cut_append_sequence cutoff = seq_at (cfg_sequence_floor config) app \<and> cutoff = active_durable_cutoff j'"
proof -
  have id: "identity_ok (ji_store_id (config_identity config))" using assms(1) by (simp add: config_identity_def)
  have "life_ok (config_identity config) (cfg_limits config) (cfg_sequence_floor config) dur app (Some j) v"
    by (rule life_invariant [OF id active_limits_new_ok [OF assms(2)] assms(3)])
  then obtain D where D: "holds D v" "aj_write_state j = Writable \<longrightarrow>
      (\<exists>m g. length dur \<le> m \<and> journal_ok (config_identity config) (cfg_limits config) (cfg_sequence_floor config) app m g j D)"
    by (auto simp: life_ok_def)
  have "aj_write_state j = Writable" using unusable(4) [of j, OF _ assms(4)] by blast
  then obtain m g where J: "journal_ok (config_identity config) (cfg_limits config) (cfg_sequence_floor config) app m g j D" using D(2) by blast
  from sync_pending_ok [OF J D(1) assms(4)] obtain D' g' where D': "holds D' w"
    "journal_ok (config_identity config) (cfg_limits config) (cfg_sequence_floor config) app (length app) g' j' D'" "cutoff = active_durable_cutoff j'"
    by auto
  obtain f where f: "vol_journal w = Some f" "fn_durable f = dk_journal_durable D'" using D'(1) by (auto simp: holds_def file_content_def)
  have "checkpoint_settled (config_identity config) (cfg_limits config) (cfg_sequence_floor config) app (length app) g' D'"
    using D'(2) by (simp add: journal_ok_def)
  then have "prefix (journal_bytes (config_identity config) app) (fn_durable f)"
    using readable_start [OF settled_readable(2)] f(2) by fastforce
  moreover have "cp_end_offset (aj_checkpoint_state j') = of_nat (28 + length (frames_bytes app))"
    "cp_append_sequence (aj_checkpoint_state j') = seq_at (cfg_sequence_floor config) app"
    using D'(2) by (simp_all add: journal_ok_def state_at_def)
  moreover have "28 + length (frames_bytes app) < 2 ^ 64" using journal_ok_bounds(1,2) [OF J] by simp
  ultimately show ?thesis using f D'(3) id
    by (simp add: active_durable_cutoff_def length_journal_bytes unat_of_nat_u64 del: of_nat_add)
qed

theorem sync_makes_durable_witness:
  "\<exists>j v cutoff j' w. config_life sample_active_config [] [sample_decoded] (Some j) v \<and> sync_pending j v = (Inr cutoff, j', w) \<and>
    cut_append_sequence cutoff = 5"
proof -
  have cfg: "config_identity sample_active_config = sample_active_identity" "cfg_limits sample_active_config = sample_active_limits"
    "cfg_sequence_floor sample_active_config = 4"
    by (simp_all add: config_identity_def sample_active_config_def sample_active_identity_def)
  obtain j v cutoff j' w where s: "config_life sample_active_config [] [sample_decoded] (Some j) v" "sync_pending j v = (Inr cutoff, j', w)"
    using sample_synchronized unfolding cfg by blast
  have lim: "active_limits_new 8388608 536870912 4096 = Inr (cfg_limits sample_active_config)"
    by (simp add: active_limits_new_def sample_active_config_def sample_active_limits_def MAX_ADMISSION_PAYLOAD_V1_def JOURNAL_V1_HEADER_LEN_def
        MAX_ACTIVE_JOURNAL_BYTES_def MAX_ACTIVE_JOURNAL_RECORDS_def)
  have "cut_append_sequence cutoff = seq_at (cfg_sequence_floor sample_active_config) [sample_decoded]"
    using sync_makes_durable [OF _ lim s] by (auto simp: sample_active_config_def)
  then have "cut_append_sequence cutoff = 5" by (simp add: seq_at_def sample_decoded_def sample_active_config_def)
  with s show ?thesis by blast
qed

text \<open>(C38) A checkpoint slot is accepted, for one slot index, journal, sequence floor and journal length, exactly when it is the
  encoding of the state it yields and that state is admissible there: its slot generation belongs to the slot, its end lies
  in the journal, and it covers no record exactly when its end is the header.
\<close>

theorem checkpoint_slot_exact:
  assumes "identity_ok (ji_store_id identity)"
  shows "decode_checkpoint_slot bs index identity n len = SlotValid st \<longleftrightarrow> bs = encode_checkpoint identity st \<and> slot_ok index n len st"
  by (rule decode_checkpoint_slot_iff [OF assms])

theorem checkpoint_slot_exact_witness:
  "decode_checkpoint_slot (encode_checkpoint sample_active_identity (state_at 4 1 [])) 0 sample_active_identity 4 28 = SlotValid (state_at 4 1 [])"
  using checkpoint_slot_exact [OF sample_active_ok(1), of "encode_checkpoint sample_active_identity (state_at 4 1 [])" 0 4 28 "state_at 4 1 []"]
  by (simp add: slot_ok_def state_at_def seq_at_def)


text \<open>(C40) Opening always comes to an end, whatever is in the files and whichever calls fail: \<open>open\<close> and the open below a
  manifest root make at most 34 calls of the file system and three more for every record the limits allow.
\<close>

theorem opening_terminates:
  "length (vol_outcomes v) \<le> length (vol_outcomes (snd (active_open config v))) + (34 + 3 * lim_records (cfg_limits config)) \<and>
   length (vol_outcomes v) \<le> length (vol_outcomes (snd (open_manifest_root config root v))) + (34 + 3 * lim_records (cfg_limits config))"
proof
  have "calls_within (34 + 3 * lim_records (cfg_limits config)) (active_open config)"
    unfolding active_open_def Let_def by (rule calls_within_mono, (rule calling)+) simp
  then show "length (vol_outcomes v) \<le> length (vol_outcomes (snd (active_open config v))) + (34 + 3 * lim_records (cfg_limits config))"
    by (simp only: calls_within_def)
  have "calls_within (34 + 3 * lim_records (cfg_limits config)) (open_manifest_root config root)"
    unfolding open_manifest_root_def by (rule calls_within_mono, (rule calling)+) simp
  then show "length (vol_outcomes v) \<le> length (vol_outcomes (snd (open_manifest_root config root v))) + (34 + 3 * lim_records (cfg_limits config))"
    by (simp only: calls_within_def)
qed





end
