(* ===== verification/Och_Manifest.thy ===== *)
theory Och_Manifest
  imports Och_Active Och_Registry Och_Retry_Artifact
begin

text \<open>
  The manifest record and what surrounds it in memory (\<^verbatim>\<open>och-store/src/manifest.rs\<close>): errors and their classification,
  options, the store format marker, the 160-byte Manifest V1 slot, the rules by which one manifest may follow another, the
  selection of the current one, and the choice of slots for the next publication.
\<close>

section \<open>Errors\<close>

datatype ManifestIoOperation = MiOpenDirectory | MiReadInventory | MiOpenArtifact | MiCreateArtifact | MiLockStore | MiRead
  | MiWrite | MiSyncArtifact | MiPublish | MiRemove | MiSyncDirectory | MiMetadata

record ManifestIoEvidence =
  mie_operation :: ManifestIoOperation
  mie_kind :: ErrorKind
  mie_raw_os_error :: "int option"

datatype ManifestStoreError = MsInvalidOptions | MsUnsupportedStoreFormat | MsAlreadyOpen | MsInvalidInventory
  | MsInvalidManifest | MsInvalidRegistry | MsInvalidRetry | MsInvalidGeneration | MsGenerationCatalogFull
  | MsStoreMismatch | MsHistoricalDeclarationMismatch | MsInterruptedPublication | MsFaulted | MsReopenRequired
  | MsGenerationExhausted | MsModel ModelError | MsActive ActiveJournalError | MsIo ManifestIoEvidence
  | MsStoragePressure ManifestIoEvidence

primrec manifest_error_display :: "ManifestStoreError \<Rightarrow> string" where
  "manifest_error_display MsInvalidOptions = ''invalid manifest store options''"
| "manifest_error_display MsUnsupportedStoreFormat = ''unsupported store format''"
| "manifest_error_display MsAlreadyOpen = ''manifest store is already open''"
| "manifest_error_display MsInvalidInventory = ''invalid manifest store inventory''"
| "manifest_error_display MsInvalidManifest = ''invalid manifest evidence''"
| "manifest_error_display MsInvalidRegistry = ''invalid registry evidence''"
| "manifest_error_display MsInvalidRetry = ''invalid durable retry evidence''"
| "manifest_error_display MsInvalidGeneration = ''invalid journal generation evidence''"
| "manifest_error_display MsGenerationCatalogFull = ''sealed generation catalog is full''"
| "manifest_error_display MsStoreMismatch = ''manifest store identity mismatch''"
| "manifest_error_display MsHistoricalDeclarationMismatch = ''historical declaration mismatch''"
| "manifest_error_display MsInterruptedPublication = ''interrupted metadata publication''"
| "manifest_error_display MsFaulted = ''manifest store authority is faulted''"
| "manifest_error_display MsReopenRequired = ''manifest store requires validated reopen''"
| "manifest_error_display MsGenerationExhausted = ''manifest store generation exhausted''"
| "manifest_error_display (MsModel _) = ''canonical registry operation refused''"
| "manifest_error_display (MsActive _) = ''active journal operation refused''"
| "manifest_error_display (MsIo _) = ''manifest store I/O failed''"
| "manifest_error_display (MsStoragePressure _) = ''manifest store storage pressure''"

datatype ManifestOpenClassification = OcInvalidOptions | OcUnsupportedFormat | OcAlreadyOpen | OcInvalidInventory
  | OcCorruptAuthority | OcInterruptedPublication | OcCapacity | OcFaulted | OcReopenRequired | OcStoragePressure | OcModel | OcIo

definition open_classification :: "ManifestStoreError \<Rightarrow> ManifestOpenClassification" where
  "open_classification self =
     (case self of
        MsInvalidOptions \<Rightarrow> OcInvalidOptions
      | MsUnsupportedStoreFormat \<Rightarrow> OcUnsupportedFormat
      | MsAlreadyOpen \<Rightarrow> OcAlreadyOpen
      | MsInvalidInventory \<Rightarrow> OcInvalidInventory
      | MsInterruptedPublication \<Rightarrow> OcInterruptedPublication
      | MsGenerationCatalogFull \<Rightarrow> OcCapacity
      | MsGenerationExhausted \<Rightarrow> OcCapacity
      | MsFaulted \<Rightarrow> OcFaulted
      | MsReopenRequired \<Rightarrow> OcReopenRequired
      | MsStoragePressure _ \<Rightarrow> OcStoragePressure
      | MsModel _ \<Rightarrow> OcModel
      | MsIo _ \<Rightarrow> OcIo
      | MsActive e \<Rightarrow> (case e of
            AjAlreadyOpen \<Rightarrow> OcAlreadyOpen
          | AjFaulted \<Rightarrow> OcFaulted
          | AjReopenRequired \<Rightarrow> OcReopenRequired
          | AjStoragePressure _ \<Rightarrow> OcStoragePressure
          | AjIo _ \<Rightarrow> OcIo
          | _ \<Rightarrow> OcCorruptAuthority)
      | _ \<Rightarrow> OcCorruptAuthority)"

definition manifest_is_mutating :: "ManifestIoOperation \<Rightarrow> bool" where
  "manifest_is_mutating operation \<longleftrightarrow>
     operation \<in> {MiCreateArtifact, MiWrite, MiSyncArtifact, MiPublish, MiRemove, MiSyncDirectory}"

definition classify_manifest_io :: "ManifestIoOperation \<Rightarrow> ErrorKind \<Rightarrow> int option \<Rightarrow> ManifestStoreError" where
  "classify_manifest_io operation kind raw_os_error =
     (let evidence = \<lparr>mie_operation = operation, mie_kind = kind, mie_raw_os_error = raw_os_error\<rparr> in
      if manifest_is_mutating operation \<and> is_storage_pressure kind then MsStoragePressure evidence else MsIo evidence)"

definition manifest_io :: "ManifestIoOperation \<Rightarrow> IoError \<Rightarrow> ManifestStoreError" where
  "manifest_io operation error = classify_manifest_io operation (ioe_kind error) (ioe_raw_os_error error)"

primrec map_retry_codec :: "RetryStateCodecError \<Rightarrow> ManifestStoreError" where
  "map_retry_codec RetryInvalid = MsInvalidRetry"
| "map_retry_codec RetryOptionsMismatch = MsInvalidRetry"
| "map_retry_codec RetryStoreMismatch = MsStoreMismatch"

primrec map_recovery_codec :: "RecoveryCodecError \<Rightarrow> ManifestStoreError" where
  "map_recovery_codec RecoveryInvalid = MsInvalidManifest"
| "map_recovery_codec RecoveryStoreMismatch = MsStoreMismatch"

primrec map_generation_codec :: "GenerationCodecError \<Rightarrow> ManifestStoreError" where
  "map_generation_codec GenerationInvalid = MsInvalidGeneration"
| "map_generation_codec GenerationStoreMismatch = MsStoreMismatch"

definition map_manifest_genesis_preflight :: "ActiveJournalError \<Rightarrow> ManifestStoreError" where
  "map_manifest_genesis_preflight error =
     (case error of AjIo _ \<Rightarrow> MsActive error | AjStoragePressure _ \<Rightarrow> MsActive error | _ \<Rightarrow> MsUnsupportedStoreFormat)"

section \<open>Options\<close>

definition MAX_PERSISTED_REGISTRY_SERIES :: nat where "MAX_PERSISTED_REGISTRY_SERIES = 4096"
definition MAX_PERSISTED_REGISTRY_REVISIONS :: nat where "MAX_PERSISTED_REGISTRY_REVISIONS = 16384"
definition MAX_REGISTRY_SNAPSHOT_BYTES :: nat where "MAX_REGISTRY_SNAPSHOT_BYTES = 64 * 1024 * 1024"

record RegistryPersistenceOptions =
  rpo_limits :: SeriesRegistryLimits

definition registry_options_new :: "SeriesRegistryLimits \<Rightarrow> (ManifestStoreError, RegistryPersistenceOptions) result" where
  "registry_options_new limits =
     (if max_series limits > MAX_PERSISTED_REGISTRY_SERIES \<or> max_declaration_revisions limits > MAX_PERSISTED_REGISTRY_REVISIONS
      then Inl MsInvalidOptions else Inr \<lparr>rpo_limits = limits\<rparr>)"

record ManifestStoreConfig =
  msc_directory :: bytes
  msc_store_id :: StoreId
  msc_mode :: ActiveJournalOpenMode
  msc_journal_limits :: ActiveJournalLimits
  msc_registry :: RegistryPersistenceOptions
  msc_retry :: RetryPersistenceOptions

definition manifest_config_new ::
  "bytes \<Rightarrow> StoreId \<Rightarrow> ActiveJournalOpenMode \<Rightarrow> ActiveJournalLimits \<Rightarrow> RegistryPersistenceOptions \<Rightarrow>
   RetryPersistenceOptions \<Rightarrow> (ManifestStoreError, ManifestStoreConfig) result" where
  "manifest_config_new directory store_id mode journal_limits registry retry =
     and_then (map_err MsActive (active_config_new directory store_id mode journal_limits)) (\<lambda>_.
     if max_series (rpo_limits registry) > MAX_PERSISTED_REGISTRY_SERIES
        \<or> max_declaration_revisions (rpo_limits registry) > MAX_PERSISTED_REGISTRY_REVISIONS
     then Inl MsInvalidOptions
     else Inr \<lparr>msc_directory = directory, msc_store_id = store_id, msc_mode = mode, msc_journal_limits = journal_limits,
               msc_registry = registry, msc_retry = retry\<rparr>)"

section \<open>The store format marker\<close>

definition STORE_FORMAT_MAGIC :: bytes where "STORE_FORMAT_MAGIC = [0x4F, 0x43, 0x48, 0x46, 0x4D, 0x54, 0x30, 0x31]"
definition STORE_FORMAT_VERSION :: u16 where "STORE_FORMAT_VERSION = 1"
definition STORE_FORMAT_LEN :: nat where "STORE_FORMAT_LEN = 32"
definition STORE_FORMAT_RECORD_LEN :: u16 where "STORE_FORMAT_RECORD_LEN = 32"

definition encode_store_format_marker :: "StoreId \<Rightarrow> bytes" where
  "encode_store_format_marker store_id =
     (let b0 = replicate STORE_FORMAT_LEN 0;
          b1 = write_at 0 STORE_FORMAT_MAGIC b0;
          b2 = write_at 8 (be_encode 2 (unat STORE_FORMAT_VERSION)) b1;
          b3 = write_at 10 (be_encode 2 (unat STORE_FORMAT_RECORD_LEN)) b2;
          b4 = write_at 12 (id_bytes store_id) b3;
          checksum = crc32c (slice 0 28 b4) in
      write_at 28 (be_encode 4 (unat checksum)) b4)"

definition decode_store_format_marker :: "bytes \<Rightarrow> StoreId \<Rightarrow> (ManifestStoreError, unit) result" where
  "decode_store_format_marker bs expected_store =
     (if length bs \<noteq> STORE_FORMAT_LEN \<or> slice 0 8 bs \<noteq> STORE_FORMAT_MAGIC \<or> read_u16 8 bs \<noteq> STORE_FORMAT_VERSION
         \<or> read_u16 10 bs \<noteq> STORE_FORMAT_RECORD_LEN \<or> crc32c (slice 0 28 bs) \<noteq> read_u32 28 bs
         \<or> identity_from_bytes (slice 12 28 bs) \<noteq> Inr expected_store
      then Inl MsUnsupportedStoreFormat else Inr ())"

section \<open>The manifest slot\<close>

definition MANIFEST_MAGIC :: bytes where "MANIFEST_MAGIC = [0x4F, 0x43, 0x48, 0x4D, 0x41, 0x4E, 0x30, 0x31]"
definition MANIFEST_VERSION :: u16 where "MANIFEST_VERSION = 1"
definition MANIFEST_LEN :: nat where "MANIFEST_LEN = 160"

record RegistryReference =
  rr_slot :: u8
  rr_generation :: u64
  rr_length :: u64
  rr_checksum :: u32

record RecoveryReference =
  rcr_slot :: u8
  rcr_checksum :: u32

record RecoveryArtifact =
  rca_reference :: RecoveryReference
  rca_report :: RecoveryReport

record ManifestRecord =
  mr_generation :: u64
  mr_registry :: RegistryReference
  mr_cutoff :: DurableCutoff
  mr_retry :: RetryArtifactReference
  mr_recovery :: "RecoveryReference option"
  mr_sequence_floor :: u64
  mr_catalog :: "GenerationCatalogReference option"

definition from_generation_parts ::
  "u64 \<Rightarrow> u64 \<Rightarrow> u8 \<Rightarrow> DurableCutoff \<Rightarrow> RetryStateReference \<Rightarrow> u64 \<Rightarrow> GenerationCatalogReference option \<Rightarrow> ManifestCommit" where
  "from_generation_parts generation registry_generation registry_slot durable_cutoff retry_state sequence_floor catalog =
     \<lparr>mc_manifest_generation = generation, mc_registry_generation = registry_generation,
      mc_registry_slot = registry_slot, mc_durable_cutoff = durable_cutoff, mc_retry_state = retry_state,
      mc_sequence_floor = sequence_floor, mc_catalog = catalog\<rparr>"

definition record_commit :: "ManifestRecord \<Rightarrow> ManifestCommit" where
  "record_commit self = from_generation_parts (mr_generation self) (rr_generation (mr_registry self)) (rr_slot (mr_registry self))
     (mr_cutoff self) (rar_public (mr_retry self)) (mr_sequence_floor self) (mr_catalog self)"

definition encode_manifest :: "ManifestRecord \<Rightarrow> bytes" where
  "encode_manifest record =
     (let b0 = replicate MANIFEST_LEN 0;
          b1 = write_at 0 MANIFEST_MAGIC b0;
          b2 = write_at 8 (be_encode 2 (unat MANIFEST_VERSION)) b1;
          b3 = write_at 10 (be_encode 2 MANIFEST_LEN) b2;
          b4 = write_at 12 (id_bytes (ji_store_id (cut_journal (mr_cutoff record)))) b3;
          b5 = write_at 28 (be_encode 8 (unat (mr_generation record))) b4;
          b6 = write_at 36 (be_encode 8 (unat (ji_generation (cut_journal (mr_cutoff record))))) b5;
          b7 = write_at 44 (be_encode 8 (unat (cut_checkpoint_generation (mr_cutoff record)))) b6;
          b8 = write_at 52 (be_encode 8 (unat (cut_append_sequence (mr_cutoff record)))) b7;
          b9 = write_at 60 (be_encode 8 (unat (cut_end_offset (mr_cutoff record)))) b8;
          b10 = b9[68 := rr_slot (mr_registry record)];
          b11 = write_at 72 (be_encode 8 (unat (rr_generation (mr_registry record)))) b10;
          b12 = write_at 80 (be_encode 8 (unat (rr_length (mr_registry record)))) b11;
          b13 = write_at 88 (be_encode 4 (unat (rr_checksum (mr_registry record)))) b12;
          b14 = b13[92 := rsr_slot (rar_public (mr_retry record))];
          b15 = write_at 96 (be_encode 8 (unat (rsr_generation (rar_public (mr_retry record))))) b14;
          b16 = write_at 104 (be_encode 8 (unat (rar_length (mr_retry record)))) b15;
          b17 = write_at 112 (be_encode 4 (unat (rar_checksum (mr_retry record)))) b16;
          b18 = (case mr_recovery record of
              Some recovery \<Rightarrow> write_at 120 (be_encode 4 (unat (rcr_checksum recovery))) (b17[116 := 1, 117 := rcr_slot recovery])
            | None \<Rightarrow> b17);
          b19 = write_at 124 (be_encode 8 (unat (mr_sequence_floor record))) b18;
          b20 = (case mr_catalog record of
              Some catalog \<Rightarrow>
                write_at 152 (be_encode 4 (unat (gcr_checksum catalog)))
                  (write_at 144 (be_encode 8 (unat (gcr_length catalog)))
                    (write_at 136 (be_encode 8 (unat (gcr_generation catalog))) (b19[132 := gcr_slot catalog])))
            | None \<Rightarrow> b19);
          checksum = crc32c (slice 0 156 b20) in
      write_at 156 (be_encode 4 (unat checksum)) b20)"

text \<open>The parts of \<open>decode_manifest\<close>: the optional references, and the conditions on the record.\<close>

definition decode_recovery_reference :: "bytes \<Rightarrow> (ManifestStoreError, RecoveryReference option) result" where
  "decode_recovery_reference bs =
     (if bs ! 116 = 0 \<and> list_all (\<lambda>b. b = 0) (slice 117 124 bs) then Inr None
      else if bs ! 116 = 1 \<and> bs ! 117 < 3 \<and> list_all (\<lambda>b. b = 0) (slice 118 120 bs)
      then Inr (Some \<lparr>rcr_slot = bs ! 117, rcr_checksum = read_u32 120 bs\<rparr>)
      else Inl MsInvalidManifest)"

definition catalog_reference_refused :: "GenerationCatalogReference \<Rightarrow> bool" where
  "catalog_reference_refused reference \<longleftrightarrow> gcr_slot reference \<ge> 3 \<or> gcr_generation reference = 0 \<or> gcr_length reference = 0
     \<or> unat (gcr_length reference) > MAX_GENERATION_CATALOG_BYTES"

definition decode_catalog_reference :: "bytes \<Rightarrow> (ManifestStoreError, GenerationCatalogReference option) result" where
  "decode_catalog_reference bs =
     (if list_all (\<lambda>b. b = 0) (slice 132 156 bs) then Inr None
      else
        let reference = \<lparr>gcr_slot = bs ! 132, gcr_generation = read_u64 136 bs, gcr_length = read_u64 144 bs,
              gcr_checksum = read_u32 152 bs\<rparr> in
        if catalog_reference_refused reference then Inl MsInvalidManifest else Inr (Some reference))"

definition retry_reference_refused :: "RetryArtifactReference \<Rightarrow> bool" where
  "retry_reference_refused retry \<longleftrightarrow> rsr_slot (rar_public retry) \<ge> 3 \<or> rsr_generation (rar_public retry) = 0
     \<or> rar_length retry = 0 \<or> unat (rar_length retry) > MAX_RETRY_STATE_BYTES"

definition manifest_fields_refused :: "ManifestRecord \<Rightarrow> bool" where
  "manifest_fields_refused record \<longleftrightarrow>
     mr_generation record = 0
     \<or> ji_generation (cut_journal (mr_cutoff record)) = 0
     \<or> (ji_generation (cut_journal (mr_cutoff record)) = ACTIVE_JOURNAL_GENERATION
          \<and> (mr_sequence_floor record \<noteq> 0 \<or> mr_catalog record \<noteq> None))
     \<or> (ji_generation (cut_journal (mr_cutoff record)) > ACTIVE_JOURNAL_GENERATION
          \<and> (mr_sequence_floor record = 0 \<or> mr_catalog record = None))
     \<or> cut_checkpoint_generation (mr_cutoff record) = 0
     \<or> rr_slot (mr_registry record) \<ge> 3
     \<or> rr_generation (mr_registry record) = 0
     \<or> rr_generation (mr_registry record) > mr_generation record
     \<or> rr_length (mr_registry record) = 0
     \<or> unat (rr_length (mr_registry record)) > MAX_REGISTRY_SNAPSHOT_BYTES
     \<or> rsr_generation (rar_public (mr_retry record)) > mr_generation record
     \<or> cut_append_sequence (mr_cutoff record) < mr_sequence_floor record
     \<or> (cut_append_sequence (mr_cutoff record) = mr_sequence_floor record)
         \<noteq> (cut_end_offset (mr_cutoff record) = of_nat JOURNAL_V1_HEADER_LEN)"

definition decode_manifest :: "bytes \<Rightarrow> StoreId \<Rightarrow> (ManifestStoreError, ManifestRecord) result" where
  "decode_manifest bs store_id =
     (if length bs \<noteq> MANIFEST_LEN \<or> slice 0 8 bs \<noteq> MANIFEST_MAGIC \<or> read_u16 8 bs \<noteq> MANIFEST_VERSION
         \<or> read_u16 10 bs \<noteq> of_nat MANIFEST_LEN
         \<or> list_ex (\<lambda>b. b \<noteq> 0) (slice 69 72 bs) \<or> list_ex (\<lambda>b. b \<noteq> 0) (slice 93 96 bs)
         \<or> list_ex (\<lambda>b. b \<noteq> 0) (slice 133 136 bs)
         \<or> crc32c (slice 0 156 bs) \<noteq> read_u32 156 bs
      then Inl MsInvalidManifest
      else
        let retry = \<lparr>rar_public = \<lparr>rsr_slot = bs ! 92, rsr_generation = read_u64 96 bs\<rparr>,
              rar_length = read_u64 104 bs, rar_checksum = read_u32 112 bs\<rparr> in
        and_then (decode_recovery_reference bs) (\<lambda>recovery.
        if retry_reference_refused retry then Inl MsInvalidManifest
        else and_then (decode_catalog_reference bs) (\<lambda>catalog.
        and_then (map_err (\<lambda>_. MsInvalidManifest) (identity_from_bytes (slice 12 28 bs))) (\<lambda>decoded_store.
        if decoded_store \<noteq> store_id then Inl MsStoreMismatch
        else
          let record = \<lparr>mr_generation = read_u64 28 bs,
                mr_registry = \<lparr>rr_slot = bs ! 68, rr_generation = read_u64 72 bs, rr_length = read_u64 80 bs,
                  rr_checksum = read_u32 88 bs\<rparr>,
                mr_cutoff = cutoff_from_manifest store_id (read_u64 36 bs) (read_u64 44 bs) (read_u64 52 bs) (read_u64 60 bs),
                mr_retry = retry, mr_recovery = recovery, mr_sequence_floor = read_u64 124 bs, mr_catalog = catalog\<rparr> in
          if manifest_fields_refused record then Inl MsInvalidManifest else Inr record))))"

definition manifest_checksum :: "ManifestRecord \<Rightarrow> u32" where
  "manifest_checksum record = read_u32 156 (encode_manifest record)"

definition genesis_placeholder :: "StoreId \<Rightarrow> DurableCutoff" where
  "genesis_placeholder store_id = cutoff_from_manifest store_id ACTIVE_JOURNAL_GENERATION 1 0 (of_nat JOURNAL_V1_HEADER_LEN)"

section \<open>Progress from one manifest to the next\<close>

definition recovery_reference_progresses :: "RecoveryReference option \<Rightarrow> RecoveryReference option \<Rightarrow> bool" where
  "recovery_reference_progresses older newer =
     (case (older, newer) of
        (None, _) \<Rightarrow> True
      | (Some _, None) \<Rightarrow> False
      | (Some a, Some b) \<Rightarrow> if a = b then True else rcr_slot a \<noteq> rcr_slot b)"

definition catalog_reference_progresses :: "GenerationCatalogReference option \<Rightarrow> GenerationCatalogReference option \<Rightarrow> bool" where
  "catalog_reference_progresses older newer =
     (case (older, newer) of
        (None, None) \<Rightarrow> True
      | (None, Some b) \<Rightarrow> gcr_generation b = 1
      | (Some _, None) \<Rightarrow> False
      | (Some a, Some b) \<Rightarrow>
          if gcr_generation a = gcr_generation b then a = b
          else checked_add (gcr_generation a) 1 = Some (gcr_generation b) \<and> gcr_slot a \<noteq> gcr_slot b)"

definition retry_reference_progresses :: "RetryArtifactReference \<Rightarrow> RetryArtifactReference \<Rightarrow> bool" where
  "retry_reference_progresses older newer =
     (if rsr_generation (rar_public newer) = rsr_generation (rar_public older) then newer = older
      else checked_add (rsr_generation (rar_public older)) 1 = Some (rsr_generation (rar_public newer))
        \<and> rsr_slot (rar_public newer) \<noteq> rsr_slot (rar_public older))"

definition select_current_manifest ::
  "ManifestRecord option list \<Rightarrow> (ManifestStoreError, (nat \<times> ManifestRecord) option) result" where
  "select_current_manifest slots =
     (case (slots ! 0, slots ! 1) of
        (None, None) \<Rightarrow> Inr None
      | (Some record, None) \<Rightarrow> if mr_generation record \<noteq> 1 then Inl MsInvalidManifest else Inr (Some (0, record))
      | (None, Some record) \<Rightarrow> if mr_generation record \<noteq> 1 then Inl MsInvalidManifest else Inr (Some (1, record))
      | (Some first, Some second) \<Rightarrow>
          let (older, newer_index, newer) =
            (if mr_generation first < mr_generation second then (first, 1, second) else (second, 0, first)) in
          if checked_add (mr_generation older) 1 \<noteq> Some (mr_generation newer)
             \<or> \<not> retry_reference_progresses (mr_retry older) (mr_retry newer)
             \<or> \<not> catalog_reference_progresses (mr_catalog older) (mr_catalog newer)
             \<or> \<not> recovery_reference_progresses (mr_recovery older) (mr_recovery newer)
          then Inl MsInvalidManifest else Inr (Some (newer_index, newer)))"

definition manifest_authority_equal_for_recovery :: "ManifestRecord \<Rightarrow> ManifestRecord \<Rightarrow> bool" where
  "manifest_authority_equal_for_recovery older newer \<longleftrightarrow>
     checked_add (mr_generation older) 1 = Some (mr_generation newer) \<and> mr_registry older = mr_registry newer
     \<and> mr_cutoff older = mr_cutoff newer \<and> mr_retry older = mr_retry newer
     \<and> mr_sequence_floor older = mr_sequence_floor newer \<and> mr_catalog older = mr_catalog newer"

definition report_matches_source :: "RecoveryReport \<Rightarrow> ManifestRecord \<Rightarrow> u64 \<Rightarrow> bool" where
  "report_matches_source report source committing_generation \<longleftrightarrow>
     rep_source_manifest_generation report = mr_generation source
     \<and> rep_committing_manifest_generation report = committing_generation
     \<and> rep_source_manifest_checksum report = manifest_checksum source
     \<and> report_cutoff report = mr_cutoff source
     \<and> rep_sequence_floor report = mr_sequence_floor source"

end
