(* ===== verification/Och_Registry_Codec.thy ===== *)
theory Och_Registry_Codec
  imports Och_Manifest
begin

text \<open>
  The registry snapshot artifact of \<^verbatim>\<open>och-store/src/manifest.rs\<close>: its encoding, its decoding, which replays every
  retained declaration through the registry's own operations, and the restoration of a snapshot in memory.
\<close>

definition REGISTRY_MAGIC :: bytes where "REGISTRY_MAGIC = [0x4F, 0x43, 0x48, 0x52, 0x45, 0x47, 0x30, 0x31]"
definition REGISTRY_VERSION :: u16 where "REGISTRY_VERSION = 1"
definition REGISTRY_HEADER_LEN :: nat where "REGISTRY_HEADER_LEN = 64"
definition REGISTRY_HEADER_LEN_U16 :: u16 where "REGISTRY_HEADER_LEN_U16 = 64"
definition REGISTRY_CRC_LEN :: nat where "REGISTRY_CRC_LEN = 4"

lemmas registry_consts = REGISTRY_MAGIC_def REGISTRY_VERSION_def REGISTRY_HEADER_LEN_def REGISTRY_HEADER_LEN_U16_def
  REGISTRY_CRC_LEN_def MAX_REGISTRY_SNAPSHOT_BYTES_def MAX_PERSISTED_REGISTRY_SERIES_def MAX_PERSISTED_REGISTRY_REVISIONS_def

definition validate_snapshot_bounds :: "SeriesRegistrySnapshot \<Rightarrow> (ManifestStoreError, unit) result" where
  "validate_snapshot_bounds snapshot =
     (if max_series (snap_limits snapshot) > MAX_PERSISTED_REGISTRY_SERIES
         \<or> max_declaration_revisions (snap_limits snapshot) > MAX_PERSISTED_REGISTRY_REVISIONS
         \<or> length (snap_series snapshot) > max_series (snap_limits snapshot)
         \<or> snap_declaration_revision_count snapshot > max_declaration_revisions (snap_limits snapshot)
      then Inl MsInvalidRegistry else Inr ())"

section \<open>Encoding\<close>

definition encode_retirement :: "SeriesRetirement option \<Rightarrow> enc_step" where
  "encode_retirement retirement =
     (case retirement of
        Some r \<Rightarrow> enc_seq [enc_ok (enc_u8 1), enc_ok (enc_u128 (revision_get (ret_declaration_revision r))),
          encode_declaration_evidence (ret_evidence r)]
      | None \<Rightarrow> enc_ok (enc_u8 0))"

definition encode_history :: "SeriesHistory \<Rightarrow> enc_step" where
  "encode_history h = enc_seq
     [enc_ok (enc_bytes (id_bytes (hist_series_id h))),
      enc_count (length (hist_declarations h)),
      enc_each encode_declaration (hist_declarations h),
      encode_retirement (hist_retirement h)]"

definition encode_registry_payload :: "SeriesRegistrySnapshot \<Rightarrow> Encoder \<Rightarrow> (ManifestStoreError, Encoder) result" where
  "encode_registry_payload snapshot payload =
     map_err (\<lambda>_. MsInvalidRegistry) (enc_each encode_history (snap_series snapshot) payload)"

definition registry_u32 :: "nat \<Rightarrow> (ManifestStoreError, u32) result" where
  "registry_u32 n = (if n < 2 ^ 32 then Inr (of_nat n) else Inl MsInvalidRegistry)"

definition registry_u64 :: "nat \<Rightarrow> (ManifestStoreError, u64) result" where
  "registry_u64 n = (if n < 2 ^ 64 then Inr (of_nat n) else Inl MsInvalidRegistry)"

definition encode_registry_snapshot_with_limit ::
  "u64 \<Rightarrow> SeriesRegistrySnapshot \<Rightarrow> nat \<Rightarrow> (ManifestStoreError, bytes) result" where
  "encode_registry_snapshot_with_limit generation snapshot maximum =
     and_then (validate_snapshot_bounds snapshot) (\<lambda>_.
     if generation = 0 then Inl MsGenerationExhausted
     else and_then (encode_registry_payload snapshot encoder_counting) (\<lambda>counter.
     let payload_len = encoder_len counter in
     and_then (ok_or MsInvalidRegistry (Option.bind (usize_checked_add REGISTRY_HEADER_LEN payload_len)
        (\<lambda>n. usize_checked_add n REGISTRY_CRC_LEN))) (\<lambda>total.
     if total > maximum \<or> total > MAX_REGISTRY_SNAPSHOT_BYTES then Inl MsInvalidRegistry
     else and_then (encode_registry_payload snapshot encoder_new) (\<lambda>encoder.
       let payload = encoder_finish encoder in
       if length payload \<noteq> payload_len then Inl MsInvalidRegistry
       else
         and_then (registry_u32 (max_series (snap_limits snapshot))) (\<lambda>series_limit.
         and_then (registry_u32 (max_declaration_revisions (snap_limits snapshot))) (\<lambda>revision_limit.
         and_then (registry_u32 (length (snap_series snapshot))) (\<lambda>series_len.
         and_then (registry_u32 (snap_declaration_revision_count snapshot)) (\<lambda>revision_len.
         and_then (registry_u64 payload_len) (\<lambda>payload_size.
         let b0 = replicate total (0::u8);
             b1 = write_at 0 REGISTRY_MAGIC b0;
             b2 = write_at 8 (be_encode 2 (unat REGISTRY_VERSION)) b1;
             b3 = write_at 10 (be_encode 2 (unat REGISTRY_HEADER_LEN_U16)) b2;
             b4 = write_at 12 (id_bytes (snap_store_id snapshot)) b3;
             b5 = write_at 28 (be_encode 8 (unat generation)) b4;
             b6 = write_at 36 (be_encode 4 (unat series_limit)) b5;
             b7 = write_at 40 (be_encode 4 (unat revision_limit)) b6;
             b8 = write_at 44 (be_encode 4 (unat series_len)) b7;
             b9 = write_at 48 (be_encode 4 (unat revision_len)) b8;
             b10 = write_at 52 (be_encode 8 (unat payload_size)) b9;
             b11 = write_at REGISTRY_HEADER_LEN payload b10;
             checksum_offset = total - REGISTRY_CRC_LEN;
             checksum = crc32c (slice 0 checksum_offset b11)
         in Inr (write_at checksum_offset (be_encode 4 (unat checksum)) b11))))))))))"

definition encode_registry_snapshot :: "u64 \<Rightarrow> SeriesRegistrySnapshot \<Rightarrow> (ManifestStoreError, bytes) result" where
  "encode_registry_snapshot generation snapshot =
     encode_registry_snapshot_with_limit generation snapshot MAX_REGISTRY_SNAPSHOT_BYTES"

section \<open>Decoding\<close>

definition declaration_matches :: "SeriesDeclaration \<Rightarrow> DecodedDeclarationV1 \<Rightarrow> bool" where
  "declaration_matches declaration decoded \<longleftrightarrow>
     decl_store_id declaration = dd_store_id decoded \<and> decl_series_id declaration = dd_series_id decoded
     \<and> decl_revision declaration = dd_revision decoded \<and> decl_previous_revision declaration = dd_previous_revision decoded
     \<and> decl_binding declaration = dd_binding decoded \<and> decl_payload declaration = dd_payload decoded
     \<and> decl_evidence declaration = dd_evidence decoded"

definition invalid_registry_journal :: "JournalV1Error \<Rightarrow> ManifestStoreError" where
  "invalid_registry_journal e = MsInvalidRegistry"

type_synonym 'a registry_decoder = "(ManifestStoreError, 'a) decoder_with"

abbreviation registry_read :: "'a decoder \<Rightarrow> 'a registry_decoder" where
  "registry_read \<equiv> cur_err invalid_registry_journal"

text \<open>The result of an operation on the registry under \<open>map_err(|_| InvalidRegistry)?\<close>, with the registry it leaves.\<close>

definition replayed ::
  "(ModelError, 'a) result \<times> SeriesRegistry \<Rightarrow> (ManifestStoreError, 'a \<times> SeriesRegistry) result" where
  "replayed run = (case run of (Inl _, _) \<Rightarrow> Inl MsInvalidRegistry | (Inr x, reg) \<Rightarrow> Inr (x, reg))"

definition replay_declaration ::
  "SeriesId \<Rightarrow> nat \<Rightarrow> SeriesBinding \<Rightarrow> SeriesDeclarationPayload \<Rightarrow> DeclarationEvidence \<Rightarrow> DeclarationRevision option \<Rightarrow>
   SeriesRegistry \<Rightarrow> (ManifestStoreError, SeriesDeclaration \<times> SeriesRegistry) result" where
  "replay_declaration series_id index binding payload evidence previous_revision registry =
     (if index = 0 then replayed (register series_id binding payload evidence registry)
      else and_then (ok_or MsInvalidRegistry previous_revision) (\<lambda>expected.
        replayed (revise series_id expected payload evidence registry)))"

fun decode_declarations :: "StoreId \<Rightarrow> SeriesId \<Rightarrow> nat \<Rightarrow> nat \<Rightarrow> SeriesRegistry \<Rightarrow> SeriesRegistry registry_decoder" where
  "decode_declarations store_id series_id index 0 registry = cur_return registry"
| "decode_declarations store_id series_id index (Suc n) registry =
     cur_bind (registry_read decode_declaration) (\<lambda>declaration.
     if dd_store_id declaration \<noteq> store_id \<or> dd_series_id declaration \<noteq> series_id then cur_fail MsInvalidRegistry
     else cur_bind (cur_lift (replay_declaration series_id index (dd_binding declaration) (dd_payload declaration)
         (dd_evidence declaration) (dd_previous_revision declaration) registry)) (\<lambda>(actual, registry').
       if \<not> declaration_matches actual declaration then cur_fail MsInvalidRegistry
       else decode_declarations store_id series_id (index + 1) n registry'))"

definition decode_retirement :: "SeriesId \<Rightarrow> SeriesRegistry \<Rightarrow> SeriesRegistry registry_decoder" where
  "decode_retirement series_id registry =
     cur_bind (registry_read cur_u8) (\<lambda>tag.
     if tag = 0 then cur_return registry
     else if tag = 1 then
       cur_bind (registry_read cur_u128) (\<lambda>revision.
       cur_bind (cur_lift (map_err (\<lambda>_. MsInvalidRegistry) (declaration_revision_new revision))) (\<lambda>revision.
       cur_bind (registry_read decode_declaration_evidence) (\<lambda>evidence.
       cur_bind (cur_lift (replayed (retire series_id revision evidence registry))) (\<lambda>(_, registry'). cur_return registry'))))
     else cur_fail MsInvalidRegistry)"

fun decode_histories ::
  "StoreId \<Rightarrow> nat \<Rightarrow> nat \<Rightarrow> SeriesId option \<Rightarrow> nat \<Rightarrow> SeriesRegistry \<Rightarrow> (nat \<times> SeriesRegistry) registry_decoder" where
  "decode_histories store_id max_revisions 0 previous_series decoded_revisions registry = cur_return (decoded_revisions, registry)"
| "decode_histories store_id max_revisions (Suc n) previous_series decoded_revisions registry =
     cur_bind (registry_read (cur_take 16)) (\<lambda>bs.
     cur_bind (cur_lift (map_err (\<lambda>_. MsInvalidRegistry) (identity_from_bytes bs))) (\<lambda>series_id.
     if is_some_and (\<lambda>previous. previous \<ge> series_id) previous_series then cur_fail MsInvalidRegistry
     else cur_bind (registry_read cur_u32) (\<lambda>count.
       let declaration_count = unat count in
       if declaration_count = 0 \<or> declaration_count > max_revisions - decoded_revisions then cur_fail MsInvalidRegistry
       else cur_bind (decode_declarations store_id series_id 0 declaration_count registry) (\<lambda>registry'.
         cur_bind (decode_retirement series_id registry') (\<lambda>registry''.
           decode_histories store_id max_revisions n (Some series_id) (decoded_revisions + declaration_count) registry'')))))"

record DecodedRegistry =
  dr_reference :: RegistryReference
  dr_registry :: SeriesRegistry

definition decode_registry_snapshot :: "bytes \<Rightarrow> (ManifestStoreError, DecodedRegistry) result" where
  "decode_registry_snapshot bs =
     (if length bs < REGISTRY_HEADER_LEN + REGISTRY_CRC_LEN \<or> length bs > MAX_REGISTRY_SNAPSHOT_BYTES
         \<or> slice 0 8 bs \<noteq> REGISTRY_MAGIC \<or> read_u16 8 bs \<noteq> REGISTRY_VERSION \<or> read_u16 10 bs \<noteq> REGISTRY_HEADER_LEN_U16
         \<or> list_ex (\<lambda>b. b \<noteq> 0) (slice 60 64 bs)
      then Inl MsInvalidRegistry
      else
        let checksum_offset = length bs - REGISTRY_CRC_LEN in
        if crc32c (slice 0 checksum_offset bs) \<noteq> read_u32 checksum_offset bs then Inl MsInvalidRegistry
        else and_then (map_err (\<lambda>_. MsInvalidRegistry) (identity_from_bytes (slice 12 28 bs))) (\<lambda>store_id.
          let generation = read_u64 28 bs;
              max_series' = unat (read_u32 36 bs);
              max_revisions = unat (read_u32 40 bs);
              series_count' = unat (read_u32 44 bs);
              revision_count = unat (read_u32 48 bs);
              payload_len = unat (read_u64 52 bs) in
          if generation = 0 \<or> max_series' > MAX_PERSISTED_REGISTRY_SERIES \<or> max_revisions > MAX_PERSISTED_REGISTRY_REVISIONS
             \<or> series_count' > max_series' \<or> revision_count > max_revisions
             \<or> usize_checked_add REGISTRY_HEADER_LEN payload_len \<noteq> Some checksum_offset
          then Inl MsInvalidRegistry
          else
            let limits = \<lparr>max_series = max_series', max_declaration_revisions = max_revisions\<rparr> in
            and_then (decode_histories store_id max_revisions series_count' None 0 (registry_new store_id limits)
                (cursor_new (slice REGISTRY_HEADER_LEN checksum_offset bs))) (\<lambda>((decoded_revisions, registry), cursor).
            and_then (map_err invalid_registry_journal (cursor_finish cursor)) (\<lambda>_.
            if decoded_revisions \<noteq> revision_count then Inl MsInvalidRegistry
            else and_then (encode_registry_snapshot generation (registry_snapshot registry)) (\<lambda>canonical.
              if canonical \<noteq> bs then Inl MsInvalidRegistry
              else and_then (registry_u64 (length bs)) (\<lambda>len.
                Inr \<lparr>dr_reference = \<lparr>rr_slot = 255, rr_generation = generation, rr_length = len, rr_checksum = crc32c bs\<rparr>,
                     dr_registry = registry\<rparr>))))))"

definition decode_registry_snapshot_at_slot :: "bytes \<Rightarrow> u8 \<Rightarrow> (ManifestStoreError, DecodedRegistry) result" where
  "decode_registry_snapshot_at_slot bs slot =
     (if slot \<ge> 3 then Inl MsInvalidRegistry
      else and_then (decode_registry_snapshot bs) (\<lambda>decoded.
        Inr (decoded\<lparr>dr_reference := (dr_reference decoded)\<lparr>rr_slot := slot\<rparr>\<rparr>)))"

section \<open>Restoration in memory\<close>

fun restore_declarations ::
  "SeriesHistory \<Rightarrow> nat \<Rightarrow> SeriesDeclaration list \<Rightarrow> SeriesRegistry \<Rightarrow> (ManifestStoreError, SeriesRegistry) result" where
  "restore_declarations h index [] registry = Inr registry"
| "restore_declarations h index (declaration # ds) registry =
     and_then (replay_declaration (hist_series_id h) index (hist_binding h) (decl_payload declaration)
         (decl_evidence declaration) (decl_previous_revision declaration) registry) (\<lambda>(actual, registry').
       if actual \<noteq> declaration then Inl MsInvalidRegistry else restore_declarations h (index + 1) ds registry')"

definition restore_retirement :: "SeriesHistory \<Rightarrow> SeriesRegistry \<Rightarrow> (ManifestStoreError, SeriesRegistry) result" where
  "restore_retirement h registry =
     (case hist_retirement h of
        None \<Rightarrow> Inr registry
      | Some retirement \<Rightarrow>
          and_then (replayed (retire (hist_series_id h) (ret_declaration_revision retirement) (ret_evidence retirement) registry))
            (\<lambda>(actual, registry'). if actual \<noteq> retirement then Inl MsInvalidRegistry else Inr registry'))"

fun restore_histories :: "SeriesHistory list \<Rightarrow> SeriesRegistry \<Rightarrow> (ManifestStoreError, SeriesRegistry) result" where
  "restore_histories [] registry = Inr registry"
| "restore_histories (h # hs) registry =
     and_then (restore_declarations h 0 (hist_declarations h) registry) (\<lambda>registry'.
     and_then (restore_retirement h registry') (\<lambda>registry''. restore_histories hs registry''))"

definition restore_snapshot :: "SeriesRegistrySnapshot \<Rightarrow> (ManifestStoreError, SeriesRegistry) result" where
  "restore_snapshot snapshot =
     and_then (validate_snapshot_bounds snapshot) (\<lambda>_.
     and_then (restore_histories (snap_series snapshot) (registry_new (snap_store_id snapshot) (snap_limits snapshot))) (\<lambda>registry.
     if registry_snapshot registry \<noteq> snapshot then Inl MsInvalidRegistry else Inr registry))"

fun validate_recovered_declarations :: "SeriesRegistry \<Rightarrow> RecoveredAdmissionV1 list \<Rightarrow> (ManifestStoreError, unit) result" where
  "validate_recovered_declarations registry [] = Inr ()"
| "validate_recovered_declarations registry (record # records) =
     (let decoded = da_declaration (rec_admission record) in
      case resolve registry (dd_series_id decoded) (dd_revision decoded) of
        None \<Rightarrow> Inl MsHistoricalDeclarationMismatch
      | Some declaration \<Rightarrow>
          if \<not> declaration_matches declaration decoded then Inl MsHistoricalDeclarationMismatch
          else validate_recovered_declarations registry records)"

end
