(* ===== verification/Och_Registry_Restore.thy ===== *)
theory Och_Registry_Restore
  imports Och_Registry_Codec
begin

text \<open>
  Replaying the retained declarations of a registry in ascending series order rebuilds the registry.  This is what
  \<open>restore_snapshot\<close> does in memory and the decoder of the snapshot artifact does from bytes.
\<close>

section \<open>Registries under construction\<close>

abbreviation declared_total :: "(SeriesId, SeriesHistory) btree_map \<Rightarrow> nat" where
  "declared_total xs \<equiv> sum_list (map (\<lambda>h. length (hist_declarations h)) (bt_values xs))"

text \<open>The registry that holds the histories \<open>xs\<close> only, and a history whose first \<open>j\<close> declarations were replayed.\<close>

definition reg_at :: "SeriesRegistry \<Rightarrow> (SeriesId, SeriesHistory) btree_map \<Rightarrow> SeriesRegistry" where
  "reg_at reg xs = reg\<lparr>reg_series := xs, reg_declaration_revision_count := declared_total xs\<rparr>"

definition open_history :: "SeriesHistory \<Rightarrow> nat \<Rightarrow> SeriesHistory" where
  "open_history h j = h\<lparr>hist_declarations := take j (hist_declarations h), hist_retirement := None\<rparr>"

lemma bt_insert_end: "bt_ok (xs @ [(k, w)]) \<Longrightarrow> bt_insert k v xs = xs @ [(k, v)]"
  by (induction xs) (auto simp: bt_ok_def sorted_wrt_append)

lemma bt_insert_last: "bt_ok (xs @ [(k, w)]) \<Longrightarrow> bt_insert k v (xs @ [(k, w)]) = xs @ [(k, v)]"
  by (induction xs) (auto simp: bt_ok_def sorted_wrt_append)

lemma bt_get_end: "bt_ok (xs @ [(k, w)]) \<Longrightarrow> bt_get xs k = None \<and> bt_get (xs @ [(k, w)]) k = Some w"
  by (induction xs) (auto simp: bt_ok_def bt_get_def sorted_wrt_append)

lemma bt_ok_part: "bt_ok (xs @ (k, h) # ys) \<Longrightarrow> bt_ok (xs @ [(k, h)])"
  by (auto simp: bt_ok_def sorted_wrt_append)

text \<open>The setting of one history inside a valid registry.\<close>

lemma history_place:
  assumes ok: "registry_ok reg" and at: "reg_series reg = xs @ (k, h) # ys"
  shows "bt_ok (xs @ [(k, w)])" "history_ok (reg_store_id reg) k h" "declared_total xs + length (hist_declarations h) \<le> max_declaration_revisions (reg_limits reg)"
    "length xs < max_series (reg_limits reg)"
proof -
  have bt: "bt_ok (xs @ (k, h) # ys)" using ok at by (simp add: registry_ok_def)
  from bt_ok_part [OF bt] show "bt_ok (xs @ [(k, w)])" by (simp add: bt_ok_def)
  have "bt_get (reg_series reg) k = Some h"
    using bt.keys_sorted [OF bt] at map_of_eq_Some_iff [of "xs @ (k, h) # ys" k h] by (simp add: bt_get_def bt_keys_def del: map_of_append)
  with ok show "history_ok (reg_store_id reg) k h" by (rule registry_ok_history)
  have "declared_total (xs @ (k, h) # ys) \<le> max_declaration_revisions (reg_limits reg)" "bt_len (xs @ (k, h) # ys) \<le> max_series (reg_limits reg)"
    using ok unfolding registry_ok_def at by metis+
  then show "declared_total xs + length (hist_declarations h) \<le> max_declaration_revisions (reg_limits reg)"
    "length xs < max_series (reg_limits reg)"
    by (simp_all add: bt_values_def bt_len_def)
qed

lemma declaration_fields:
  assumes "history_ok store k h" "j < length (hist_declarations h)"
  shows "hist_declarations h ! j = \<lparr>decl_store_id = store, decl_series_id = k, decl_revision = revision_of (j + 1),
    decl_previous_revision = (if j = 0 then None else Some (revision_of j)), decl_binding = hist_binding h,
    decl_payload = decl_payload (hist_declarations h ! j), decl_evidence = decl_evidence (hist_declarations h ! j)\<rparr>"
  using history_declaration [OF assms] by (cases "hist_declarations h ! j") (simp add: declaration_at_ok_def)

lemma replay_first:
  assumes ok: "registry_ok reg" and at: "reg_series reg = xs @ (k, h) # ys"
  defines "d \<equiv> hist_declarations h ! 0"
  shows "replay_declaration k 0 (hist_binding h) (decl_payload d) (decl_evidence d) prev (reg_at reg xs) =
    Inr (d, reg_at reg (xs @ [(k, open_history h 1)]))"
proof -
  note place = history_place [OF ok at]
  have ne: "hist_declarations h \<noteq> []" using place(2) by (simp add: history_ok_def)
  then have len: "0 < length (hist_declarations h)" by simp
  have d: "d = \<lparr>decl_store_id = reg_store_id reg, decl_series_id = k, decl_revision = REVISION_FIRST, decl_previous_revision = None,
      decl_binding = hist_binding h, decl_payload = decl_payload d, decl_evidence = decl_evidence d\<rparr>"
    using declaration_fields [OF place(2) len] by (simp add: d_def revision_of_def REVISION_FIRST_def)
  have tk: "take 1 (hist_declarations h) = [d]" using ne by (cases "hist_declarations h") (simp_all add: d_def)
  have h: "\<lparr>hist_series_id = k, hist_binding = hist_binding h, hist_declarations = [d], hist_retirement = None\<rparr> = open_history h 1"
    using place(2) tk by (cases h) (simp add: open_history_def history_ok_def)
  have room: "\<not> max_declaration_revisions (reg_limits reg) \<le> declared_total xs" using place(3) len by linarith
  have "register k (hist_binding h) (decl_payload d) (decl_evidence d) (reg_at reg xs) =
      (Inr d, reg_at reg (xs @ [(k, open_history h 1)]))"
    using bt_get_end [OF place(1)] bt_insert_end [OF place(1)] place(4) room d [symmetric] h tk
    by (simp add: register_def reg_at_def Let_def bt_len_def bt_values_def open_history_def)
  then show ?thesis by (simp add: replay_declaration_def replayed_def)
qed

lemma replay_next:
  assumes ok: "registry_ok reg" and at: "reg_series reg = xs @ (k, h) # ys" and j: "0 < j" "j < length (hist_declarations h)"
  defines "d \<equiv> hist_declarations h ! j"
  shows "replay_declaration k j b (decl_payload d) (decl_evidence d) (decl_previous_revision d) (reg_at reg (xs @ [(k, open_history h j)])) =
    Inr (d, reg_at reg (xs @ [(k, open_history h (j + 1))]))"
proof -
  note place = history_place [OF ok at]
  define c where "c = hist_declarations h ! (j - 1)"
  have j1: "j - 1 < length (hist_declarations h)" "Suc (j - 1) = j" using j by auto
  have tj: "take j (hist_declarations h) = take (j - 1) (hist_declarations h) @ [c]"
    using take_Suc_conv_app_nth [OF j1(1)] j1(2) by (simp add: c_def)
  have tk: "take (j + 1) (hist_declarations h) = take j (hist_declarations h) @ [d]"
    using take_Suc_conv_app_nth [OF j(2)] by (simp add: d_def)
  have d: "d = \<lparr>decl_store_id = reg_store_id reg, decl_series_id = k, decl_revision = revision_of (j + 1),
      decl_previous_revision = Some (revision_of j), decl_binding = hist_binding h, decl_payload = decl_payload d,
      decl_evidence = decl_evidence d\<rparr>"
    using declaration_fields [OF place(2) j(2)] j(1) by (simp add: d_def)
  have c: "decl_revision c = revision_of j" using history_declaration [OF place(2) j1(1)] j1(2) by (simp add: c_def declaration_at_ok_def)
  have ne: "decl_payload c \<noteq> decl_payload d"
    using place(2) j(2) j1(2) unfolding history_ok_def c_def d_def by metis
  have prev: "decl_previous_revision d = Some (revision_of j)" by (subst d) simp
  let ?o = "open_history h j"
  have o: "latest_declaration ?o = Some c" "hist_retirement ?o = None" "hist_binding ?o = hist_binding h"
    "?o\<lparr>hist_declarations := hist_declarations ?o @ [d]\<rparr> = open_history h (j + 1)" "length (hist_declarations ?o) = j"
    "length (hist_declarations (open_history h (j + 1))) = j + 1"
    using j tk by (auto simp: open_history_def latest_declaration_def tj)
  have room: "\<not> max_declaration_revisions (reg_limits reg) \<le> declared_total xs + j" using place(3) j by linarith
  have "revise k (revision_of j) (decl_payload d) (decl_evidence d) (reg_at reg (xs @ [(k, ?o)])) =
      (Inr d, reg_at reg (xs @ [(k, open_history h (j + 1))]))"
    unfolding revise_def Let_def
    using bt_get_end [OF place(1), of ?o] bt_insert_last [OF place(1)] room c ne d [symmetric] o
    by (simp add: reg_at_def bt_values_def revision_next_of)
  then show ?thesis using j(1) by (simp add: replay_declaration_def replayed_def prev)
qed

lemma replay_retirement:
  assumes ok: "registry_ok reg" and at: "reg_series reg = xs @ (k, h) # ys" and r: "hist_retirement h = Some t"
  shows "retire k (ret_declaration_revision t) (ret_evidence t) (reg_at reg (xs @ [(k, open_history h (length (hist_declarations h)))])) =
    (Inr t, reg_at reg (xs @ [(k, h)]))"
proof -
  note place = history_place [OF ok at]
  have last: "latest_declaration h = Some (last (hist_declarations h))" by (rule history_ok_last(2) [OF place(2)])
  have o: "latest_declaration (open_history h (length (hist_declarations h))) = Some (last (hist_declarations h))"
    "hist_retirement (open_history h (length (hist_declarations h))) = None"
    "length (hist_declarations (open_history h (length (hist_declarations h)))) = length (hist_declarations h)"
    using last by (simp_all add: open_history_def latest_declaration_def split: if_splits)
  have t: "ret_declaration_revision t = decl_revision (last (hist_declarations h))" using place(2) r by (simp add: history_ok_def)
  have h: "(open_history h (length (hist_declarations h)))\<lparr>hist_retirement :=
      Some \<lparr>ret_declaration_revision = ret_declaration_revision t, ret_evidence = ret_evidence t\<rparr>\<rparr> = h"
    using r by (cases h) (simp add: open_history_def)
  show ?thesis
    unfolding retire_def Let_def
    using bt_get_end [OF place(1)] bt_insert_last [OF place(1)] o t [symmetric] h
    by (simp add: reg_at_def bt_values_def)
qed

text \<open>One declaration after the other, from none to all of them.\<close>

definition under_way :: "SeriesRegistry \<Rightarrow> (SeriesId, SeriesHistory) btree_map \<Rightarrow> SeriesId \<Rightarrow> SeriesHistory \<Rightarrow> nat \<Rightarrow> SeriesRegistry" where
  "under_way reg xs k h j = reg_at reg (if j = 0 then xs else xs @ [(k, open_history h j)])"

lemma replay_step:
  assumes ok: "registry_ok reg" and at: "reg_series reg = xs @ (k, h) # ys" and j: "j < length (hist_declarations h)"
  defines "d \<equiv> hist_declarations h ! j"
  shows "replay_declaration k j (hist_binding h) (decl_payload d) (decl_evidence d) (decl_previous_revision d) (under_way reg xs k h j) =
    Inr (d, under_way reg xs k h (j + 1))"
  using replay_first [OF ok at] replay_next [OF ok at _ j] by (cases "j = 0") (simp_all add: d_def under_way_def)

section \<open>Restoration\<close>

lemma restore_declarations_from:
  assumes ok: "registry_ok reg" and at: "reg_series reg = xs @ (k, h) # ys" and j: "j \<le> length (hist_declarations h)"
  shows "restore_declarations h j (drop j (hist_declarations h)) (under_way reg xs k h j) =
    Inr (under_way reg xs k h (length (hist_declarations h)))"
  using j
proof (induction "length (hist_declarations h) - j" arbitrary: j)
  case 0
  then show ?case by simp
next
  case (Suc n)
  then have j: "j < length (hist_declarations h)" by simp
  have "hist_series_id h = k" using history_place(2) [OF ok at] by (simp add: history_ok_def)
  then show ?case
    using Suc.hyps(1) [of "j + 1"] Suc.hyps(2) j replay_step [OF ok at j]
    by (simp add: Cons_nth_drop_Suc [OF j, symmetric])
qed

lemma complete_history:
  assumes ok: "registry_ok reg" and at: "reg_series reg = xs @ (k, h) # ys"
  defines "st \<equiv> under_way reg xs k h (length (hist_declarations h))"
  shows "hist_retirement h = None \<Longrightarrow> st = reg_at reg (xs @ [(k, h)])"
    and "hist_retirement h = Some t \<Longrightarrow>
      retire k (ret_declaration_revision t) (ret_evidence t) st = (Inr t, reg_at reg (xs @ [(k, h)]))"
proof -
  have ne: "hist_declarations h \<noteq> []" using history_place(2) [OF ok at] by (simp add: history_ok_def)
  then show "hist_retirement h = None \<Longrightarrow> st = reg_at reg (xs @ [(k, h)])"
    by (cases h) (simp add: st_def under_way_def open_history_def)
  show "hist_retirement h = Some t \<Longrightarrow> retire k (ret_declaration_revision t) (ret_evidence t) st = (Inr t, reg_at reg (xs @ [(k, h)]))"
    using replay_retirement [OF ok at] ne by (simp add: st_def under_way_def)
qed

lemma restore_history:
  assumes ok: "registry_ok reg" and at: "reg_series reg = xs @ (k, h) # ys"
  shows "and_then (restore_declarations h 0 (hist_declarations h) (reg_at reg xs)) (restore_retirement h) = Inr (reg_at reg (xs @ [(k, h)]))"
proof -
  have k: "hist_series_id h = k" using history_place(2) [OF ok at] by (simp add: history_ok_def)
  have run: "restore_declarations h 0 (hist_declarations h) (reg_at reg xs) = Inr (under_way reg xs k h (length (hist_declarations h)))"
    using restore_declarations_from [OF ok at, of 0] by (simp add: under_way_def)
  show ?thesis
    using run complete_history [OF ok at] k by (cases "hist_retirement h") (simp_all add: restore_retirement_def replayed_def)
qed

lemma restore_histories_all:
  assumes ok: "registry_ok reg" and at: "reg_series reg = xs @ ys"
  shows "restore_histories (map snd ys) (reg_at reg xs) = Inr reg"
  using at
proof (induction ys arbitrary: xs)
  case Nil
  then show ?case using ok by (cases reg) (simp add: reg_at_def registry_ok_def)
next
  case (Cons y ys)
  obtain k h where y: "y = (k, h)" by (cases y)
  have "restore_histories (map snd (y # ys)) (reg_at reg xs) =
      and_then (and_then (restore_declarations h 0 (hist_declarations h) (reg_at reg xs)) (restore_retirement h)) (restore_histories (map snd ys))"
    by (cases "restore_declarations h 0 (hist_declarations h) (reg_at reg xs)") (simp_all add: y)
  also have "\<dots> = restore_histories (map snd ys) (reg_at reg (xs @ [(k, h)]))"
    using restore_history [OF ok, of xs k h ys] Cons.prems y by simp
  also have "\<dots> = Inr reg" using Cons.IH [of "xs @ [(k, h)]"] Cons.prems y by simp
  finally show ?case .
qed

definition persistable :: "SeriesRegistryLimits \<Rightarrow> bool" where
  "persistable limits \<longleftrightarrow> max_series limits \<le> MAX_PERSISTED_REGISTRY_SERIES \<and>
     max_declaration_revisions limits \<le> MAX_PERSISTED_REGISTRY_REVISIONS"

lemma reg_at_new: "reg_at reg [] = registry_new (reg_store_id reg) (reg_limits reg)"
  by (cases reg) (simp add: reg_at_def registry_new_def bt_values_def)

lemma snapshot_bounds: "registry_ok reg \<Longrightarrow> validate_snapshot_bounds (registry_snapshot reg) = Inr () \<longleftrightarrow> persistable (reg_limits reg)"
  by (auto simp: validate_snapshot_bounds_def registry_snapshot_def registry_ok_def persistable_def bt_values_def bt_len_def)

lemma restore_snapshot_identity:
  assumes "registry_ok reg" "persistable (reg_limits reg)"
  shows "restore_snapshot (registry_snapshot reg) = Inr reg"
  using restore_histories_all [OF assms(1), of "[]"] snapshot_bounds [OF assms(1)] assms(2)
  by (simp add: restore_snapshot_def reg_at_new registry_snapshot_def bt_values_def)

end
