(* ===== verification/Och_Registry_Artifact.thy ===== *)
theory Och_Registry_Artifact
  imports Och_Registry_Restore
begin

text \<open>
  The registry snapshot artifact is exact: it decodes to a registry if and only if that registry is sound and the encoder
  writes these bytes for its snapshot.
\<close>

section \<open>The layout\<close>

fun wire_retirement :: "SeriesRetirement option \<Rightarrow> bytes" where
  "wire_retirement None = [0]"
| "wire_retirement (Some t) = 1 # be_encode 16 (unat (revision_get (ret_declaration_revision t))) @ wire_declaration_evidence (ret_evidence t)"

abbreviation wire_declared :: "SeriesDeclaration \<Rightarrow> bytes" where
  "wire_declared d \<equiv> wire_declaration (view_declaration d)"

definition wire_history :: "SeriesHistory \<Rightarrow> bytes" where
  "wire_history h = id_bytes (hist_series_id h) @ be_encode 4 (length (hist_declarations h)) @
     concat (map wire_declared (hist_declarations h)) @ wire_retirement (hist_retirement h)"

definition history_wire_ok :: "SeriesHistory \<Rightarrow> bool" where
  "history_wire_ok h \<longleftrightarrow> identity_ok (hist_series_id h) \<and> length (hist_declarations h) < 2 ^ 32 \<and>
     (\<forall>d \<in> set (hist_declarations h). decoded_declaration_ok (view_declaration d)) \<and>
     pred_option (\<lambda>t. revision_get (ret_declaration_revision t) \<noteq> 0 \<and> declaration_evidence_ok (ret_evidence t)) (hist_retirement h)"

lemma encode_history_wire:
  assumes "encoder_ok e" "history_wire_ok h"
  shows "encode_history h e = Inr (enc_bytes (wire_history h) e)"
proof -
  have each: "enc_each encode_declaration (hist_declarations h) e' = Inr (enc_bytes (concat (map wire_declared (hist_declarations h))) e')"
    if "encoder_ok e'" for e'
    using assms(2) that by (intro enc_each_wire) (auto simp: history_wire_ok_def encode_declaration_view enc_simps)
  have ret: "encode_retirement (hist_retirement h) e' = Inr (enc_bytes (wire_retirement (hist_retirement h)) e')" if "encoder_ok e'" for e'
    using assms(2) that by (cases "hist_retirement h") (auto simp: encode_retirement_def history_wire_ok_def enc_simps)
  show ?thesis
    using assms each ret by (simp add: encode_history_def wire_history_def history_wire_ok_def enc_simps)
qed

definition registry_header :: "u64 \<Rightarrow> SeriesRegistrySnapshot \<Rightarrow> nat \<Rightarrow> bytes" where
  "registry_header generation snap n = REGISTRY_MAGIC @ be_encode 2 1 @ be_encode 2 64 @ id_bytes (snap_store_id snap) @
     be_encode 8 (unat generation) @ be_encode 4 (max_series (snap_limits snap)) @ be_encode 4 (max_declaration_revisions (snap_limits snap)) @
     be_encode 4 (length (snap_series snap)) @ be_encode 4 (snap_declaration_revision_count snap) @ be_encode 8 n @ replicate 4 0"

definition registry_payload :: "SeriesRegistrySnapshot \<Rightarrow> bytes" where
  "registry_payload snap = concat (map wire_history (snap_series snap))"

definition registry_bytes :: "u64 \<Rightarrow> SeriesRegistrySnapshot \<Rightarrow> bytes" where
  "registry_bytes generation snap = seal (registry_header generation snap (length (registry_payload snap)) @ registry_payload snap)"

lemma length_registry_header: "identity_ok (snap_store_id snap) \<Longrightarrow> length (registry_header generation snap n) = 64"
  by (simp add: registry_header_def REGISTRY_MAGIC_def identity_ok_length)

lemma length_registry_bytes:
  "identity_ok (snap_store_id snap) \<Longrightarrow> length (registry_bytes generation snap) = 68 + length (registry_payload snap)"
  by (simp add: registry_bytes_def length_registry_header)

text \<open>What a snapshot of a sound registry satisfies.\<close>

definition snapshot_ok :: "SeriesRegistrySnapshot \<Rightarrow> bool" where
  "snapshot_ok snap \<longleftrightarrow> identity_ok (snap_store_id snap) \<and> validate_snapshot_bounds snap = Inr () \<and>
     (\<forall>h \<in> set (snap_series snap). history_wire_ok h)"

lemma snapshot_okD:
  assumes "snapshot_ok snap"
  shows "identity_ok (snap_store_id snap)" "max_series (snap_limits snap) < 2 ^ 32" "max_declaration_revisions (snap_limits snap) < 2 ^ 32"
    "length (snap_series snap) < 2 ^ 32" "snap_declaration_revision_count snap < 2 ^ 32"
  using assms by (auto simp: snapshot_ok_def validate_snapshot_bounds_def registry_consts split: if_splits)

lemma registry_payload_wire:
  "snapshot_ok snap \<Longrightarrow> encoder_ok e \<Longrightarrow> encode_registry_payload snap e = Inr (enc_bytes (registry_payload snap) e)"
  by (subst encode_registry_payload_def, subst enc_each_wire [where w = wire_history])
    (auto simp: encode_history_wire snapshot_ok_def registry_payload_def)

lemma encode_registry_snapshot_bytes:
  assumes ok: "snapshot_ok snap" and g: "generation \<noteq> 0" and n: "length (registry_bytes generation snap) \<le> MAX_REGISTRY_SNAPSHOT_BYTES"
  shows "encode_registry_snapshot generation snap = Inr (registry_bytes generation snap)"
proof -
  let ?p = "registry_payload snap" and ?h = "registry_header generation snap (length (registry_payload snap))"
  note D = snapshot_okD [OF ok]
  have id: "length (id_bytes (snap_store_id snap)) = 16" using D(1) by (simp add: identity_ok_length)
  have len: "length ?p + 68 \<le> 67108864"
    using n length_registry_bytes [OF D(1)] by (simp add: registry_consts)
  have count: "encoder_len (enc_bytes ?p encoder_counting) = length ?p"
    using len by (simp add: encoder_counting_def usize_saturating_add_def usize_max_eq)
  have total: "Option.bind (usize_checked_add 64 (length ?p)) (\<lambda>n. usize_checked_add n 4) = Some (length ?p + 68)"
    using len by (simp add: usize_checked_add_def usize_max_eq)
  have unats: "unat (of_nat (max_series (snap_limits snap)) :: u32) = max_series (snap_limits snap)"
    "unat (of_nat (max_declaration_revisions (snap_limits snap)) :: u32) = max_declaration_revisions (snap_limits snap)"
    "unat (of_nat (length (snap_series snap)) :: u32) = length (snap_series snap)"
    "unat (of_nat (snap_declaration_revision_count snap) :: u32) = snap_declaration_revision_count snap"
    "unat (of_nat (length ?p) :: u64) = length ?p"
    using D(2-5) len by (simp_all add: unat_of_nat)
  have body: "write_at 64 ?p (write_at 52 (be_encode 8 (length ?p)) (write_at 48 (be_encode 4 (snap_declaration_revision_count snap))
      (write_at 44 (be_encode 4 (length (snap_series snap))) (write_at 40 (be_encode 4 (max_declaration_revisions (snap_limits snap)))
      (write_at 36 (be_encode 4 (max_series (snap_limits snap))) (write_at 28 (be_encode 8 (unat generation))
      (write_at 12 (id_bytes (snap_store_id snap)) (write_at 10 (be_encode 2 64) (write_at 8 (be_encode 2 1)
      (write_at 0 REGISTRY_MAGIC (pad (length ?p + 68) []))))))))))) = pad (length ?p + 68) (?h @ ?p)"
    using id by (simp add: pad_write pad_skip [where k = 4] registry_header_def REGISTRY_MAGIC_def)
  have hl: "length ?h = 64" using D(1) by (rule length_registry_header)
  have fixed: "unat REGISTRY_VERSION = 1" "unat REGISTRY_HEADER_LEN_U16 = 64" by (simp_all add: registry_consts)
  show ?thesis
    unfolding encode_registry_snapshot_def encode_registry_snapshot_with_limit_def
    using ok g len count D unats body hl fixed pad_slice [of "?h @ ?p" 0 "length ?p + 64" "length ?p + 68"]
    by (simp add: snapshot_ok_def registry_payload_wire [OF ok] encoder_new_def encoder_counting_def Let_def registry_u32_def registry_u64_def
        total REGISTRY_HEADER_LEN_def REGISTRY_CRC_LEN_def MAX_REGISTRY_SNAPSHOT_BYTES_def
        pad_empty pad_write pad_full registry_bytes_def seal_def add.commute)
qed

lemma encode_registry_snapshot_large:
  assumes ok: "snapshot_ok snap" and r: "encode_registry_snapshot generation snap = Inr bs"
  shows "generation \<noteq> 0 \<and> length (registry_bytes generation snap) \<le> MAX_REGISTRY_SNAPSHOT_BYTES \<and> bs = registry_bytes generation snap"
proof -
  let ?p = "registry_payload snap"
  have g: "generation \<noteq> 0"
    using r by (auto simp: encode_registry_snapshot_def encode_registry_snapshot_with_limit_def result_convs split: if_splits)
  have "length ?p + 68 \<le> MAX_REGISTRY_SNAPSHOT_BYTES"
  proof (rule ccontr)
    assume "\<not> ?thesis"
    then have "\<not> (\<exists>total. Option.bind (usize_checked_add REGISTRY_HEADER_LEN (encoder_len (enc_bytes ?p encoder_counting)))
        (\<lambda>n. usize_checked_add n REGISTRY_CRC_LEN) = Some total \<and> total \<le> MAX_REGISTRY_SNAPSHOT_BYTES)"
      by (auto simp: encoder_counting_def usize_saturating_add_def usize_checked_add_def usize_max_eq registry_consts split: if_splits)
    then show False
      using r registry_payload_wire [OF ok, of encoder_counting]
      by (auto simp: encode_registry_snapshot_def encode_registry_snapshot_with_limit_def result_convs encoder_counting_def Let_def
          split: if_splits)
  qed
  then have n: "length (registry_bytes generation snap) \<le> MAX_REGISTRY_SNAPSHOT_BYTES"
    using length_registry_bytes [OF snapshot_okD(1) [OF ok]] by simp
  with encode_registry_snapshot_bytes [OF ok g n] r g show ?thesis by simp
qed

section \<open>Reading an encoded registry back\<close>

text \<open>\<open>reads d bs x\<close>: wherever \<open>bs\<close> lies next, \<open>d\<close> returns \<open>x\<close> and consumes it.\<close>

definition reads :: "('e, 'a) decoder_with \<Rightarrow> bytes \<Rightarrow> 'a \<Rightarrow> bool" where
  "reads d bs x \<longleftrightarrow> (\<forall>c rest. cursor_ok c \<longrightarrow> remaining c = bs @ rest \<longrightarrow> d c = Inr (x, advance (length bs) c))"

lemma reads_decodes: "decodes d R \<Longrightarrow> R x bs \<Longrightarrow> reads d bs x"
  unfolding reads_def decodes_def by blast

lemma reads_return: "reads (cur_return x) [] x"
  by (simp add: reads_def cur_return_def)

lemma reads_bind:
  assumes "reads m b1 x" "reads (k x) b2 y"
  shows "reads (cur_bind m k) (b1 @ b2) y"
  unfolding reads_def
proof (intro allI impI)
  fix c rest
  assume c: "cursor_ok c" "remaining c = (b1 @ b2) @ rest"
  then have "m c = Inr (x, advance (length b1) c)" using assms(1) by (simp add: reads_def)
  moreover have "k x (advance (length b1) c) = Inr (y, advance (length b2) (advance (length b1) c))"
    using assms(2) c cursor_ok_advance [of c "length b1"] unfolding reads_def by auto
  ultimately show "cur_bind m k c = Inr (y, advance (length (b1 @ b2)) c)" by (simp add: cur_bind_def)
qed

lemma reads_lift_bind: "r = Inr x \<Longrightarrow> reads (k x) bs y \<Longrightarrow> reads (cur_bind (cur_lift r) k) bs y"
  using reads_bind [of "cur_lift r" "[]" x k bs y] by (simp add: reads_def cur_lift_def)

lemma registry_read_bind:
  assumes "decodes d (\<lambda>x bs. P x \<and> bs = w x)" "P x" "reads (k x) b2 y"
  shows "reads (cur_bind (registry_read d) k) (w x @ b2) y"
  by (rule reads_bind [of _ _ x], rule reads_decodes [OF decodes_err [OF assms(1)]]) (simp_all add: assms(2,3))

lemma matches_view: "declaration_matches d (view_declaration d)"
  by (simp add: declaration_matches_def view_declaration_def)

lemma view_fields:
  "dd_store_id (view_declaration d) = decl_store_id d" "dd_series_id (view_declaration d) = decl_series_id d"
  "dd_binding (view_declaration d) = decl_binding d" "dd_payload (view_declaration d) = decl_payload d"
  "dd_evidence (view_declaration d) = decl_evidence d" "dd_previous_revision (view_declaration d) = decl_previous_revision d"
  by (simp_all add: view_declaration_def)

lemma read_declarations:
  assumes ok: "registry_ok reg" and at: "reg_series reg = xs @ (k, h) # ys" and w: "history_wire_ok h"
    and j: "j \<le> length (hist_declarations h)"
  shows "reads (decode_declarations (reg_store_id reg) k j (length (hist_declarations h) - j) (under_way reg xs k h j))
    (concat (map wire_declared (drop j (hist_declarations h)))) (under_way reg xs k h (length (hist_declarations h)))"
  using j
proof (induction "length (hist_declarations h) - j" arbitrary: j)
  case 0
  then have "j = length (hist_declarations h)" by simp
  then show ?case by (simp add: reads_return)
next
  case (Suc n)
  then have j: "j < length (hist_declarations h)" by simp
  let ?d = "hist_declarations h ! j"
  have valid: "decoded_declaration_ok (view_declaration ?d)" using w j by (simp add: history_wire_ok_def)
  have at': "declaration_at_ok (reg_store_id reg) k (hist_binding h) j ?d" by (rule history_declaration [OF history_place(2) [OF ok at] j])
  have n: "n = length (hist_declarations h) - (j + 1)" using Suc.hyps(2) by simp
  have tail: "reads (decode_declarations (reg_store_id reg) k (j + 1) n (under_way reg xs k h (j + 1)))
      (concat (map wire_declared (drop (j + 1) (hist_declarations h)))) (under_way reg xs k h (length (hist_declarations h)))"
    using Suc.hyps(1) [OF n] j n by simp
  have run: "reads (decode_declarations (reg_store_id reg) k j (Suc n) (under_way reg xs k h j))
      (wire_declared ?d @ concat (map wire_declared (drop (j + 1) (hist_declarations h)))) (under_way reg xs k h (length (hist_declarations h)))"
    unfolding decode_declarations.simps
    by (rule registry_read_bind [OF declaration_codec.decode_wire valid])
      (use at' tail replay_step [OF ok at j] in \<open>simp add: view_fields declaration_at_ok_def matches_view reads_lift_bind\<close>)
  have "drop j (hist_declarations h) = ?d # drop (j + 1) (hist_declarations h)" using Cons_nth_drop_Suc [OF j] by simp
  with run Suc.hyps(2) show ?case by simp
qed

lemma read_retirement:
  assumes ok: "registry_ok reg" and at: "reg_series reg = xs @ (k, h) # ys" and w: "history_wire_ok h"
  shows "reads (decode_retirement k (under_way reg xs k h (length (hist_declarations h)))) (wire_retirement (hist_retirement h))
    (reg_at reg (xs @ [(k, h)]))"
proof (cases "hist_retirement h")
  case None
  have tag: "reads (registry_read cur_u8) [0] 0" by (rule reads_decodes [OF decodes_err [OF decodes_u8]]) simp
  have "reads (decode_retirement k (under_way reg xs k h (length (hist_declarations h)))) ([0] @ []) (reg_at reg (xs @ [(k, h)]))"
    unfolding decode_retirement_def
    by (rule reads_bind [OF tag]) (simp add: complete_history(1) [OF ok at None] reads_return)
  then show ?thesis by (simp add: None)
next
  case (Some t)
  have tag: "reads (registry_read cur_u8) [1] 1" by (rule reads_decodes [OF decodes_err [OF decodes_u8]]) simp
  have rev: "reads (registry_read cur_u128) (be_encode 16 (unat (revision_get (ret_declaration_revision t)))) (revision_get (ret_declaration_revision t))"
    by (rule reads_decodes [OF decodes_err [OF decodes_u128]]) simp
  have t: "declaration_revision_new (revision_get (ret_declaration_revision t)) = Inr (ret_declaration_revision t)"
    "declaration_evidence_ok (ret_evidence t)"
    using w Some by (cases "ret_declaration_revision t"; simp add: declaration_revision_new_def history_wire_ok_def)+
  have ret: "replayed (retire k (ret_declaration_revision t) (ret_evidence t) (under_way reg xs k h (length (hist_declarations h)))) =
      Inr (t, reg_at reg (xs @ [(k, h)]))"
    using complete_history(2) [OF ok at Some] by (simp add: replayed_def)
  have "reads (decode_retirement k (under_way reg xs k h (length (hist_declarations h))))
      ([1] @ be_encode 16 (unat (revision_get (ret_declaration_revision t))) @ wire_declaration_evidence (ret_evidence t) @ [])
      (reg_at reg (xs @ [(k, h)]))"
    unfolding decode_retirement_def
    apply (rule reads_bind [OF tag])
    apply (simp del: append_Nil2)
    apply (rule reads_bind [OF rev])
    apply (rule reads_lift_bind [OF arg_cong [OF t(1), of "map_err (\<lambda>_. MsInvalidRegistry)", unfolded map_err_simps]])
    apply (rule registry_read_bind [OF decodes_declaration_evidence t(2)])
    apply (rule reads_lift_bind [OF ret])
    apply (simp add: reads_return)
    done
  then show ?thesis by (simp add: Some)
qed

lemma read_history:
  assumes ok: "registry_ok reg" and at: "reg_series reg = xs @ (k, h) # ys" and w: "history_wire_ok h"
    and tail: "reads (decode_histories (reg_store_id reg) (max_declaration_revisions (reg_limits reg)) n (Some k)
      (declared_total (xs @ [(k, h)])) (reg_at reg (xs @ [(k, h)]))) bs x"
    and prev: "\<not> is_some_and (\<lambda>p. p \<ge> k) prev"
  shows "reads (decode_histories (reg_store_id reg) (max_declaration_revisions (reg_limits reg)) (Suc n) prev (declared_total xs) (reg_at reg xs))
    (wire_history h @ bs) x"
proof -
  let ?n = "length (hist_declarations h)"
  note place = history_place [OF ok at]
  have k: "hist_series_id h = k" "hist_declarations h \<noteq> []" using place(2) by (simp_all add: history_ok_def)
  have id: "identity_ok k" using w k(1) by (simp add: history_wire_ok_def)
  have ident: "map_err (\<lambda>_. MsInvalidRegistry) (identity_from_bytes (id_bytes k)) = Inr k"
    using id identity_from_bytes_iff [of "id_bytes k" k] by (simp add: identity_ok_length)
  have take16: "reads (registry_read (cur_take 16)) (id_bytes k) (id_bytes k)"
    by (rule reads_decodes [OF decodes_err [OF decodes_take]]) (simp add: id identity_ok_length)
  have cnt: "unat (of_nat ?n :: u32) = ?n" using w by (simp add: history_wire_ok_def unat_of_nat_u32)
  have count: "reads (registry_read cur_u32) (be_encode 4 ?n) (of_nat ?n)"
    by (rule reads_decodes [OF decodes_err [OF decodes_u32]]) (simp add: cnt)
  have room: "\<not> (?n = 0 \<or> ?n > max_declaration_revisions (reg_limits reg) - declared_total xs)" using place(3) k(2) by simp
  have decls: "reads (decode_declarations (reg_store_id reg) k 0 ?n (reg_at reg xs)) (concat (map wire_declared (hist_declarations h)))
      (under_way reg xs k h ?n)"
    using read_declarations [OF ok at w, of 0] by (simp add: under_way_def)
  have total: "declared_total (xs @ [(k, h)]) = declared_total xs + ?n" by (simp add: bt_values_def)
  have rest: "reads (cur_bind (decode_declarations (reg_store_id reg) k 0 ?n (reg_at reg xs)) (\<lambda>registry'.
         cur_bind (decode_retirement k registry') (\<lambda>registry''.
           decode_histories (reg_store_id reg) (max_declaration_revisions (reg_limits reg)) n (Some k) (declared_total xs + ?n) registry'')))
      (concat (map wire_declared (hist_declarations h)) @ wire_retirement (hist_retirement h) @ bs) x"
    using tail unfolding total by (intro reads_bind [OF decls] reads_bind [OF read_retirement [OF ok at w]])
  have "reads (decode_histories (reg_store_id reg) (max_declaration_revisions (reg_limits reg)) (Suc n) prev (declared_total xs) (reg_at reg xs))
    (id_bytes k @ be_encode 4 ?n @ concat (map wire_declared (hist_declarations h)) @ wire_retirement (hist_retirement h) @ bs) x"
    unfolding decode_histories.simps Let_def
    by (rule reads_bind [OF take16], rule reads_lift_bind [OF ident], subst if_not_P [OF prev], rule reads_bind [OF count])
      (use rest room in \<open>simp only: cnt if_False\<close>)
  then show ?thesis by (simp add: wire_history_def k(1))
qed

lemma read_histories:
  assumes ok: "registry_ok reg" and w: "\<And>h. h \<in> set (bt_values (reg_series reg)) \<Longrightarrow> history_wire_ok h"
    and at: "reg_series reg = xs @ ys" and prev: "\<And>k p. k \<in> fst ` set ys \<Longrightarrow> prev = Some p \<Longrightarrow> p < k"
  shows "reads (decode_histories (reg_store_id reg) (max_declaration_revisions (reg_limits reg)) (length ys) prev (declared_total xs) (reg_at reg xs))
    (concat (map wire_history (bt_values ys))) (reg_declaration_revision_count reg, reg)"
  using at prev
proof (induction ys arbitrary: xs prev)
  case Nil
  then have "declared_total xs = reg_declaration_revision_count reg" "reg_at reg xs = reg"
    using ok by (simp_all add: reg_at_def registry_ok_def)
  then show ?case using reads_return by (simp add: bt_values_def)
next
  case (Cons y ys)
  obtain k h where y: "y = (k, h)" by (cases y)
  have at: "reg_series reg = xs @ (k, h) # ys" using Cons.prems(1) y by simp
  have bt: "bt_ok (xs @ (k, h) # ys)" using ok at by (simp add: registry_ok_def)
  have h: "history_wire_ok h" using w [of h] at by (simp add: bt_values_def)
  have below: "k < k'" if "k' \<in> fst ` set ys" for k' using bt that by (auto simp: bt_ok_def sorted_wrt_append)
  have p: "\<not> is_some_and (\<lambda>p. p \<ge> k) prev" using Cons.prems(2) [of k] y by (cases prev) force+
  have tail: "reads (decode_histories (reg_store_id reg) (max_declaration_revisions (reg_limits reg)) (length ys) (Some k)
      (declared_total (xs @ [(k, h)])) (reg_at reg (xs @ [(k, h)]))) (concat (map wire_history (bt_values ys))) (reg_declaration_revision_count reg, reg)"
    using Cons.IH [of "xs @ [(k, h)]" "Some k"] at below by (simp del: decode_histories.simps) blast
  show ?case
    using read_history [OF ok at h tail p] by (simp add: bt_values_def y del: decode_histories.simps)
qed

section \<open>The round trip\<close>

definition registry_reference :: "u8 \<Rightarrow> u64 \<Rightarrow> bytes \<Rightarrow> RegistryReference" where
  "registry_reference slot generation bs = \<lparr>rr_slot = slot, rr_generation = generation, rr_length = of_nat (length bs), rr_checksum = crc32c bs\<rparr>"

lemma sound_history_wire:
  assumes sound: "registry_sound reg" and lim: "persistable (reg_limits reg)" and k: "bt_get (reg_series reg) k = Some h"
  shows "history_wire_ok h"
proof -
  have ok: "history_ok (reg_store_id reg) k h" using registry_ok_history sound k by (auto simp: registry_sound_def)
  have c: "history_content_ok h" using sound k by (auto simp: registry_sound_def registry_content_ok_def)
  have len: "length (hist_declarations h) < 2 ^ 32"
    using history_length_bound [of reg k h] sound lim k by (auto simp: registry_sound_def history_def persistable_def registry_consts)
  have d: "declaration_ok (hist_declarations h ! i)" if "i < length (hist_declarations h)" for i
    using registry_sound_declaration [OF sound, of k h i] k that by (simp add: history_def)
  then have "declaration_ok d" if "d \<in> set (hist_declarations h)" for d using that by (metis in_set_conv_nth)
  then have all: "decoded_declaration_ok (view_declaration d)" if "d \<in> set (hist_declarations h)" for d
    using that by (auto simp: declaration_ok_def decoded_declaration_ok_def view_declaration_def revision_ok_def pred_option_def)
  have "revision_get (decl_revision (last (hist_declarations h))) \<noteq> 0"
    using d [of "length (hist_declarations h) - 1"] ok by (simp add: history_ok_def last_conv_nth declaration_ok_def)
  then show ?thesis
    using ok c len all by (cases "hist_retirement h") (auto simp: history_wire_ok_def history_content_ok_def history_ok_def)
qed

lemma sound_snapshot:
  assumes "registry_sound reg" "persistable (reg_limits reg)"
  shows "snapshot_ok (registry_snapshot reg)"
proof -
  have "history_wire_ok h" if hm: "h \<in> set (bt_values (reg_series reg))" for h
  proof -
    obtain k where "(k, h) \<in> set (reg_series reg)" using hm by (force simp: bt_values_def)
    then have "bt_get (reg_series reg) k = Some h"
      using bt.keys_sorted [of "reg_series reg"] assms(1) by (auto simp: registry_sound_def registry_ok_def bt_get_def bt_keys_def)
    then show ?thesis by (rule sound_history_wire [OF assms])
  qed
  then show ?thesis
    using assms snapshot_bounds [of reg] by (auto simp: snapshot_ok_def registry_sound_def registry_content_ok_def registry_snapshot_def)
qed

lemma registry_bytes_fields:
  fixes generation :: u64
  assumes id: "identity_ok (snap_store_id snap)" and D: "max_series (snap_limits snap) < 2 ^ 32" "max_declaration_revisions (snap_limits snap) < 2 ^ 32"
    "length (snap_series snap) < 2 ^ 32" "snap_declaration_revision_count snap < 2 ^ 32" and len: "length (registry_payload snap) < 2 ^ 64"
  defines "bs \<equiv> registry_bytes generation snap"
  shows "slice 0 8 bs = REGISTRY_MAGIC" "read_u16 8 bs = 1" "read_u16 10 bs = 64" "slice 60 64 bs = replicate 4 0"
    "slice 12 28 bs = id_bytes (snap_store_id snap)" "read_u64 28 bs = generation"
    "unat (read_u32 36 bs) = max_series (snap_limits snap)" "unat (read_u32 40 bs) = max_declaration_revisions (snap_limits snap)"
    "unat (read_u32 44 bs) = length (snap_series snap)" "unat (read_u32 48 bs) = snap_declaration_revision_count snap"
    "unat (read_u64 52 bs) = length (registry_payload snap)"
    "slice 64 (length bs - 4) bs = registry_payload snap"
    "crc32c (slice 0 (length bs - 4) bs) = read_u32 (length bs - 4) bs"
proof -
  let ?h = "registry_header generation snap (length (registry_payload snap))" and ?p = "registry_payload snap"
  have bs: "bs = ?h @ ?p @ be_encode 4 (unat (crc32c (?h @ ?p)))" by (simp add: bs_def registry_bytes_def seal_def)
  have idl: "length (id_bytes (snap_store_id snap)) = 16" using id by (simp add: identity_ok_length)
  have hl: "length ?h = 64" using id by (rule length_registry_header)
  have sl: "slice i j bs = slice i j ?h" if "j \<le> 64" for i j using that hl by (simp add: bs slice_def)
  have parts: "slice 0 8 ?h = REGISTRY_MAGIC" "slice 8 10 ?h = be_encode 2 1" "slice 10 12 ?h = be_encode 2 64" "slice 60 64 ?h = replicate 4 0"
    "slice 12 28 ?h = id_bytes (snap_store_id snap)" "slice 28 36 ?h = be_encode 8 (unat generation)"
    "slice 36 40 ?h = be_encode 4 (max_series (snap_limits snap))" "slice 40 44 ?h = be_encode 4 (max_declaration_revisions (snap_limits snap))"
    "slice 44 48 ?h = be_encode 4 (length (snap_series snap))" "slice 48 52 ?h = be_encode 4 (snap_declaration_revision_count snap)"
    "slice 52 60 ?h = be_encode 8 (length ?p)"
    by (simp_all add: registry_header_def slice_def REGISTRY_MAGIC_def idl)
  show "slice 0 8 bs = REGISTRY_MAGIC" "slice 60 64 bs = replicate 4 0" "slice 12 28 bs = id_bytes (snap_store_id snap)"
    by (simp_all add: sl parts)
  show "read_u16 8 bs = 1" "read_u16 10 bs = 64" "read_u64 28 bs = generation"
    using be_decode_encode [of 1 2] be_decode_encode [of 64 2] by (simp_all add: read_u16_def read_u64_def sl parts be_field)
  show "unat (read_u32 36 bs) = max_series (snap_limits snap)" "unat (read_u32 40 bs) = max_declaration_revisions (snap_limits snap)"
    "unat (read_u32 44 bs) = length (snap_series snap)" "unat (read_u32 48 bs) = snap_declaration_revision_count snap"
    "unat (read_u64 52 bs) = length (registry_payload snap)"
    using D len be_decode_encode [of _ 4] be_decode_encode [of _ 8] by (simp_all add: read_u32_def read_u64_def sl parts unat_of_nat)
  have bl: "length bs - 4 = 64 + length ?p" using hl by (simp add: bs)
  show "slice 64 (length bs - 4) bs = registry_payload snap" unfolding bl using hl by (simp add: bs slice_def)
  have "length bs = (64 + length ?p) + 4" using hl by (simp add: bs)
  from trailer_test [OF this] show "crc32c (slice 0 (length bs - 4) bs) = read_u32 (length bs - 4) bs"
    unfolding bl by (auto simp: bs_def registry_bytes_def)
qed

lemma read_registry_payload:
  assumes regok: "registry_ok reg" and ok: "snapshot_ok (registry_snapshot reg)"
  defines "p \<equiv> registry_payload (registry_snapshot reg)"
  assumes small: "length p \<le> usize_max"
  shows "decode_histories (reg_store_id reg) (max_declaration_revisions (reg_limits reg)) (length (reg_series reg)) None 0
      (registry_new (reg_store_id reg) (reg_limits reg)) (cursor_new p) = Inr ((reg_declaration_revision_count reg, reg), advance (length p) (cursor_new p))"
proof -
  have w: "history_wire_ok h" if "h \<in> set (bt_values (reg_series reg))" for h
    using ok that by (simp add: snapshot_ok_def registry_snapshot_def)
  have "reads (decode_histories (reg_store_id reg) (max_declaration_revisions (reg_limits reg)) (length (reg_series reg)) None 0
      (registry_new (reg_store_id reg) (reg_limits reg))) p (reg_declaration_revision_count reg, reg)"
    using read_histories [OF regok w, of "[]" "reg_series reg" None]
    by (simp add: p_def reg_at_new registry_payload_def registry_snapshot_def bt_values_def)
  then show ?thesis using small unfolding reads_def by (auto simp: cursor_ok_def cursor_new_def remaining_def)
qed

lemma decode_registry_bytes:
  assumes sound: "registry_sound reg" and lim: "persistable (reg_limits reg)"
    and enc: "encode_registry_snapshot generation (registry_snapshot reg) = Inr bs"
  shows "decode_registry_snapshot bs = Inr \<lparr>dr_reference = registry_reference 255 generation bs, dr_registry = reg\<rparr>"
proof -
  let ?snap = "registry_snapshot reg"
  have ok: "snapshot_ok ?snap" by (rule sound_snapshot [OF sound lim])
  have g: "generation \<noteq> 0" and bs: "bs = registry_bytes generation ?snap" and n: "length bs \<le> MAX_REGISTRY_SNAPSHOT_BYTES"
    using encode_registry_snapshot_large [OF ok enc] by auto
  note D = snapshot_okD [OF ok]
  have len: "length bs = 68 + length (registry_payload ?snap)" using length_registry_bytes [OF D(1)] bs by simp
  have small: "length (registry_payload ?snap) < 2 ^ 64" "length (registry_payload ?snap) \<le> usize_max" "length bs < 2 ^ 64"
    using n len by (simp_all add: registry_consts usize_max_eq)
  note F = registry_bytes_fields [OF D small(1), of generation, folded bs]
  have ident: "identity_from_bytes (id_bytes (reg_store_id reg)) = Inr (reg_store_id reg)"
    using D(1) identity_from_bytes_iff [of "id_bytes (reg_store_id reg)" "reg_store_id reg"] by (simp add: identity_ok_length registry_snapshot_def)
  have regok: "registry_ok reg" using sound by (simp add: registry_sound_def)
  have run: "decode_histories (reg_store_id reg) (max_declaration_revisions (reg_limits reg)) (length (reg_series reg)) None 0
      (registry_new (reg_store_id reg) (reg_limits reg)) (cursor_new (registry_payload ?snap)) =
      Inr ((reg_declaration_revision_count reg, reg), advance (length (registry_payload ?snap)) (cursor_new (registry_payload ?snap)))"
    by (rule read_registry_payload [OF regok ok small(2)])
  have fin: "cursor_finish (advance (length (registry_payload ?snap)) (cursor_new (registry_payload ?snap))) = Inr ()"
    by (simp add: cursor_finish_def advance_def cursor_new_def)
  have limits: "\<lparr>max_series = max_series (reg_limits reg), max_declaration_revisions = max_declaration_revisions (reg_limits reg)\<rparr> = reg_limits reg"
    by simp
  have run': "decode_histories (reg_store_id reg) (max_declaration_revisions (reg_limits reg)) (length (reg_series reg)) None 0
      (registry_new (reg_store_id reg) \<lparr>max_series = max_series (reg_limits reg), max_declaration_revisions = max_declaration_revisions (reg_limits reg)\<rparr>)
      (cursor_new (registry_payload ?snap)) =
      Inr ((reg_declaration_revision_count reg, reg), advance (length (registry_payload ?snap)) (cursor_new (registry_payload ?snap)))"
    unfolding limits by (rule run)
  have bounds: "bt_len (reg_series reg) \<le> max_series (reg_limits reg)" "reg_declaration_revision_count reg \<le> max_declaration_revisions (reg_limits reg)"
    using regok by (simp_all add: registry_ok_def)
  have snap: "snap_store_id ?snap = reg_store_id reg" "snap_limits ?snap = reg_limits reg" "length (snap_series ?snap) = length (reg_series reg)"
    "snap_declaration_revision_count ?snap = reg_declaration_revision_count reg"
    by (simp_all add: registry_snapshot_def bt_values_def)
  note F' = F [unfolded snap]
  have size: "\<not> length bs < REGISTRY_HEADER_LEN + REGISTRY_CRC_LEN" "\<not> length bs > MAX_REGISTRY_SNAPSHOT_BYTES"
    "usize_checked_add REGISTRY_HEADER_LEN (length (registry_payload ?snap)) = Some (length bs - REGISTRY_CRC_LEN)"
    using len n by (simp_all add: usize_checked_add_def usize_max_eq registry_consts)
  have zeros: "\<not> list_ex (\<lambda>b. b \<noteq> 0) (replicate 4 (0::u8))" by (simp add: list_ex_iff)
  have cs: "REGISTRY_VERSION = 1" "REGISTRY_HEADER_LEN_U16 = 64" "REGISTRY_HEADER_LEN = 64" "REGISTRY_CRC_LEN = 4" by (simp_all add: registry_consts)
  show ?thesis
    using size g lim bounds run' fin enc ident small(3) zeros unfolding decode_registry_snapshot_def Let_def cs
    by (simp add: F' persistable_def bt_len_def registry_u64_def registry_reference_def not_less)
qed

section \<open>What the decoder accepts is sound\<close>

definition keeps_sound :: "SeriesRegistry \<Rightarrow> SeriesRegistry \<Rightarrow> bool" where
  "keeps_sound reg reg' \<longleftrightarrow> registry_sound reg' \<and> reg_limits reg' = reg_limits reg \<and> reg_store_id reg' = reg_store_id reg"

lemma keeps_sound_trans: "keeps_sound a b \<Longrightarrow> keeps_sound b c \<Longrightarrow> keeps_sound a c"
  by (simp add: keeps_sound_def)

lemma keeps_sound_run: "registry_sound reg \<Longrightarrow> command_ok c \<Longrightarrow> keeps_sound reg (reg_run c reg)"
  using registry_sound_run [of c reg] reg_step_contract [OF reg_run_step, of reg c]
  by (simp add: keeps_sound_def registry_sound_def registry_extends_def)

lemma replayed_Inr: "replayed run = Inr (x, reg') \<longleftrightarrow> run = (Inr x, reg')"
  by (auto simp: replayed_def split: sum.splits prod.splits)

lemma cur_bind_Inr: "cur_bind m k c = Inr r \<longleftrightarrow> (\<exists>x c1. m c = Inr (x, c1) \<and> k x c1 = Inr r)"
  by (auto simp: cur_bind_def result_convs)

lemma cur_lift_Inr: "cur_lift r c = Inr (x, c') \<longleftrightarrow> r = Inr x \<and> c' = c"
  by (auto simp: cur_lift_def map_ok_Inr_conv)

lemma registry_read_step:
  assumes "decodes d R" "cursor_ok c" "registry_read d c = Inr (x, c')"
  shows "cursor_ok c'" "\<exists>bs. R x bs"
  using assms decodesD [OF decodes_err [OF assms(1)], of c invalid_registry_journal x c'] cursor_ok_advance by fastforce+

lemma replay_declaration_sound:
  assumes "registry_sound reg" "identity_ok k" "binding_ok b" "payload_ok p" "declaration_evidence_ok e"
    "replay_declaration k i b p e prev reg = Inr (d, reg')"
  shows "keeps_sound reg reg'"
  using assms keeps_sound_run [of reg "Register k b p e"] keeps_sound_run [of reg "Revise k (the prev) p e"]
  by (cases prev) (auto simp: replay_declaration_def replayed_Inr split: if_splits)

lemma decode_declarations_sound:
  "decode_declarations store k i n reg c = Inr (reg', c') \<Longrightarrow> cursor_ok c \<Longrightarrow> registry_sound reg \<Longrightarrow> identity_ok k \<Longrightarrow>
   cursor_ok c' \<and> keeps_sound reg reg'"
proof (induction n arbitrary: i reg c)
  case 0
  then show ?case by (simp add: cur_return_def keeps_sound_def)
next
  case (Suc n)
  from Suc.prems(1) obtain d c1 actual reg1 where d: "registry_read decode_declaration c = Inr (d, c1)"
    and r: "replay_declaration k i (dd_binding d) (dd_payload d) (dd_evidence d) (dd_previous_revision d) reg = Inr (actual, reg1)"
    and t: "decode_declarations store k (i + 1) n reg1 c1 = Inr (reg', c')"
    by (auto simp: cur_bind_Inr cur_lift_Inr cur_fail_def split: if_splits)
  note step = registry_read_step [OF declaration_codec.decode_wire Suc.prems(2) d]
  have "keeps_sound reg reg1"
    using replay_declaration_sound [OF Suc.prems(3,4) _ _ _ r] step(2) by (auto simp: decoded_declaration_ok_def)
  then show ?case using Suc.IH [OF t step(1) _ Suc.prems(4)] keeps_sound_trans by (auto simp: keeps_sound_def)
qed

lemma decode_retirement_sound:
  assumes "decode_retirement k reg c = Inr (reg', c')" "cursor_ok c" "registry_sound reg"
  shows "cursor_ok c' \<and> keeps_sound reg reg'"
proof -
  from assms(1) obtain tag c1 where tag: "registry_read cur_u8 c = Inr (tag, c1)"
    and rest: "reg' = reg \<and> c' = c1 \<or> (\<exists>v c2 r e c3 t. registry_read cur_u128 c1 = Inr (v, c2) \<and>
      registry_read decode_declaration_evidence c2 = Inr (e, c3) \<and> retire k r e reg = (Inr t, reg') \<and> c' = c3)"
    by (fastforce simp: decode_retirement_def cur_bind_Inr cur_lift_Inr cur_fail_def cur_return_def replayed_Inr split: if_splits)
  note c1 = registry_read_step(1) [OF decodes_u8 assms(2) tag]
  from rest show ?thesis
  proof
    assume "reg' = reg \<and> c' = c1"
    then show ?thesis using c1 assms(3) by (simp add: keeps_sound_def)
  next
    assume "\<exists>v c2 r e c3 t. registry_read cur_u128 c1 = Inr (v, c2) \<and> registry_read decode_declaration_evidence c2 = Inr (e, c3) \<and>
      retire k r e reg = (Inr t, reg') \<and> c' = c3"
    then obtain v c2 r e t where c2: "registry_read cur_u128 c1 = Inr (v, c2)"
      and e: "registry_read decode_declaration_evidence c2 = Inr (e, c')" and t: "retire k r e reg = (Inr t, reg')" by blast
    note ev = registry_read_step [OF decodes_declaration_evidence registry_read_step(1) [OF decodes_u128 c1 c2] e]
    show ?thesis using keeps_sound_run [of reg "Retire k r e"] t ev assms(3) by auto
  qed
qed

lemma decode_histories_sound:
  "decode_histories store m n prev i reg c = Inr ((i', reg'), c') \<Longrightarrow> cursor_ok c \<Longrightarrow> registry_sound reg \<Longrightarrow> keeps_sound reg reg'"
proof (induction n arbitrary: prev i reg c)
  case 0
  then show ?case by (simp add: cur_return_def keeps_sound_def)
next
  case (Suc n)
  from Suc.prems(1) obtain bs c1 k v c2 reg1 c3 reg2 c4 p j where bs: "registry_read (cur_take 16) c = Inr (bs, c1)"
    and k: "identity_from_bytes bs = Inr k" and v: "registry_read cur_u32 c1 = Inr (v, c2)"
    and d: "decode_declarations store k 0 (unat v) reg c2 = Inr (reg1, c3)"
    and r: "decode_retirement k reg1 c3 = Inr (reg2, c4)" and t: "decode_histories store m n p j reg2 c4 = Inr ((i', reg'), c')"
    by (fastforce simp: cur_bind_Inr cur_lift_Inr cur_fail_def map_err_Inr_conv Let_def split: if_splits)
  note b = registry_read_step [OF decodes_take Suc.prems(2) bs]
  have idk: "identity_ok k" using k b(2) by (auto simp: identity_from_bytes_iff)
  note d' = decode_declarations_sound [OF d registry_read_step(1) [OF decodes_u32 b(1) v] Suc.prems(3) idk]
  then have s1: "registry_sound reg1" by (simp add: keeps_sound_def)
  note r' = decode_retirement_sound [OF r conjunct1 [OF d'] s1]
  then have s2: "registry_sound reg2" by (simp add: keeps_sound_def)
  from Suc.IH [OF t conjunct1 [OF r'] s2] d' r' show ?case using keeps_sound_trans by blast
qed

text \<open>The artifact is exact.\<close>

lemma decode_registry_snapshot_iff:
  "decode_registry_snapshot bs = Inr decoded \<longleftrightarrow>
   registry_sound (dr_registry decoded) \<and> persistable (reg_limits (dr_registry decoded)) \<and>
   (\<exists>generation. encode_registry_snapshot generation (registry_snapshot (dr_registry decoded)) = Inr bs \<and>
     dr_reference decoded = registry_reference 255 generation bs)"
proof
  assume dec: "decode_registry_snapshot bs = Inr decoded"
  then have len: "length bs \<le> usize_max" by (auto simp: decode_registry_snapshot_def registry_consts usize_max_eq split: if_splits)
  define limits where "limits = \<lparr>max_series = unat (read_u32 36 bs), max_declaration_revisions = unat (read_u32 40 bs)\<rparr>"
  define generation where "generation = read_u64 28 bs"
  from dec obtain store r cur where store: "identity_from_bytes (slice 12 28 bs) = Inr store"
    and lim: "persistable limits"
    and run: "decode_histories store (unat (read_u32 40 bs)) (unat (read_u32 44 bs)) None 0 (registry_new store limits)
      (cursor_new (slice REGISTRY_HEADER_LEN (length bs - REGISTRY_CRC_LEN) bs)) = Inr ((r, dr_registry decoded), cur)"
    and enc: "encode_registry_snapshot generation (registry_snapshot (dr_registry decoded)) = Inr bs"
    and ref: "dr_reference decoded = registry_reference 255 generation bs"
    by (auto simp: decode_registry_snapshot_def Let_def result_convs registry_u64_def registry_reference_def persistable_def not_less
        limits_def generation_def split: if_splits)
  have sid: "identity_ok store" using dec store identity_from_bytes_iff [of "slice 12 28 bs" store]
    by (auto simp: decode_registry_snapshot_def registry_consts split: if_splits)
  have sound: "registry_sound (registry_new store limits)"
    using lim sid by (intro registry_sound_new) (simp_all add: persistable_def registry_consts usize_max_eq)
  have cur: "cursor_ok (cursor_new (slice REGISTRY_HEADER_LEN (length bs - REGISTRY_CRC_LEN) bs))"
    using len by (simp add: cursor_ok_def cursor_new_def)
  from decode_histories_sound [OF run cur sound] lim enc ref
  show "registry_sound (dr_registry decoded) \<and> persistable (reg_limits (dr_registry decoded)) \<and>
   (\<exists>generation. encode_registry_snapshot generation (registry_snapshot (dr_registry decoded)) = Inr bs \<and>
     dr_reference decoded = registry_reference 255 generation bs)"
    by (auto simp: keeps_sound_def registry_new_def)
next
  assume "registry_sound (dr_registry decoded) \<and> persistable (reg_limits (dr_registry decoded)) \<and>
   (\<exists>generation. encode_registry_snapshot generation (registry_snapshot (dr_registry decoded)) = Inr bs \<and>
     dr_reference decoded = registry_reference 255 generation bs)"
  then show "decode_registry_snapshot bs = Inr decoded" using decode_registry_bytes [of "dr_registry decoded" _ bs] by (cases decoded) auto
qed

end
