(* ===== verification/Och_Manifest_Codec.thy ===== *)
theory Och_Manifest_Codec
  imports Och_Manifest Och_Segment_Entries
begin

text \<open>
  The manifest slot and the store format marker are exact: the decoder accepts exactly the encodings of the admissible
  values of the expected store.
\<close>

section \<open>The optional references\<close>

fun recovery_field :: "RecoveryReference option \<Rightarrow> bytes" where
  "recovery_field None = replicate 8 0"
| "recovery_field (Some r) = [1, rcr_slot r, 0, 0] @ be_encode 4 (unat (rcr_checksum r))"

fun catalog_field :: "GenerationCatalogReference option \<Rightarrow> bytes" where
  "catalog_field None = replicate 24 0"
| "catalog_field (Some c) = [gcr_slot c, 0, 0, 0] @ be_encode 8 (unat (gcr_generation c)) @ be_encode 8 (unat (gcr_length c)) @
     be_encode 4 (unat (gcr_checksum c))"

lemma length_fields [simp]: "length (recovery_field v) = 8" "length (catalog_field w) = 24"
  by (cases v; simp) (cases w; simp)

lemma zero_list: "list_all (\<lambda>b. b = 0) xs \<longleftrightarrow> xs = replicate (length xs) (0::u8)"
  by (induction xs) auto

lemma split_bytes:
  assumes "length bs = 160"
  shows "slice 116 124 bs = bs ! 116 # bs ! 117 # slice 118 120 bs @ slice 120 124 bs" "slice 117 124 bs = bs ! 117 # slice 118 120 bs @ slice 120 124 bs"
    "slice 132 156 bs = bs ! 132 # slice 133 136 bs @ slice 136 144 bs @ slice 144 152 bs @ slice 152 156 bs"
proof -
  have one: "slice i j bs = bs ! i # slice (i + 1) j bs" if "i < j" "j \<le> 160" for i j
    using slice_single [of i bs] slice_join [of i "i + 1" j bs] assms that by simp
  show "slice 116 124 bs = bs ! 116 # bs ! 117 # slice 118 120 bs @ slice 120 124 bs"
    "slice 117 124 bs = bs ! 117 # slice 118 120 bs @ slice 120 124 bs"
    using one [of 116 124] one [of 117 124] slice_join [of 118 120 124 bs] by simp_all
  show "slice 132 156 bs = bs ! 132 # slice 133 136 bs @ slice 136 144 bs @ slice 144 152 bs @ slice 152 156 bs"
    using one [of 132 156] slice_join [of 133 136 156 bs] slice_join [of 136 144 156 bs] slice_join [of 144 152 156 bs] by simp
qed

lemma be_encode_0: "be_encode n 0 = replicate n 0"
  by (induction n) (simp_all add: replicate_append_same)

lemma append_pieces: "length a = length b \<Longrightarrow> a @ c = b @ d \<longleftrightarrow> a = b \<and> c = d"
  by simp

lemma decode_recovery_reference_iff:
  assumes len: "length bs = 160"
  shows "decode_recovery_reference bs = Inr v \<longleftrightarrow> slice 116 124 bs = recovery_field v \<and> pred_option (\<lambda>r. rcr_slot r < 3) v"
proof (cases v)
  case None
  have "slice 116 124 bs = recovery_field None \<longleftrightarrow> bs ! 116 = 0 \<and> list_all (\<lambda>b. b = 0) (slice 117 124 bs)"
    using len split_bytes(1,2) [OF len] zero_list [of "slice 117 124 bs"] by (simp add: numeral_eq_Suc)
  then show ?thesis by (auto simp: None decode_recovery_reference_def)
next
  case (Some r)
  have "[0, 0] = replicate 2 (0::u8)" by (simp add: numeral_eq_Suc)
  then have z: "slice 118 120 bs = [0, 0] \<longleftrightarrow> list_all (\<lambda>b. b = 0) (slice 118 120 bs)" using zero_list [of "slice 118 120 bs"] len by simp
  have c: "slice 120 124 bs = be_encode 4 (unat (rcr_checksum r)) \<longleftrightarrow> read_u32 120 bs = rcr_checksum r" using read_fields(2) [of 120 bs] len by simp
  have "slice 116 124 bs = recovery_field (Some r) \<longleftrightarrow> bs ! 116 = 1 \<and> bs ! 117 = rcr_slot r \<and> slice 118 120 bs @ slice 120 124 bs = [0, 0] @ be_encode 4 (unat (rcr_checksum r))"
    unfolding split_bytes(1) [OF len] by simp
  also have "\<dots> \<longleftrightarrow> bs ! 116 = 1 \<and> bs ! 117 = rcr_slot r \<and> list_all (\<lambda>b. b = 0) (slice 118 120 bs) \<and> read_u32 120 bs = rcr_checksum r"
    using len by (subst append_pieces) (simp_all add: z c del: append.simps)
  finally show ?thesis by (cases r) (auto simp: Some decode_recovery_reference_def)
qed

lemma decode_catalog_reference_iff:
  assumes len: "length bs = 160"
  shows "decode_catalog_reference bs = Inr v \<and> list_all (\<lambda>b. b = 0) (slice 133 136 bs) \<longleftrightarrow>
    slice 132 156 bs = catalog_field v \<and> pred_option (\<lambda>c. \<not> catalog_reference_refused c) v"
proof (cases v)
  case None
  have "slice 132 156 bs = catalog_field None \<longleftrightarrow> list_all (\<lambda>b. b = 0) (slice 132 156 bs)"
    using len zero_list [of "slice 132 156 bs"] by simp
  moreover have "list_all (\<lambda>b. b = 0) (slice 132 156 bs) \<longrightarrow> list_all (\<lambda>b. b = 0) (slice 133 136 bs)"
    unfolding split_bytes(3) [OF len] by simp
  ultimately show ?thesis by (auto simp: None decode_catalog_reference_def Let_def)
next
  case (Some c)
  have "[0, 0, 0] = replicate 3 (0::u8)" by (simp add: numeral_eq_Suc)
  then have z: "slice 133 136 bs = [0, 0, 0] \<longleftrightarrow> list_all (\<lambda>b. b = 0) (slice 133 136 bs)" using zero_list [of "slice 133 136 bs"] len by simp
  have f: "slice 136 144 bs = be_encode 8 (unat (gcr_generation c)) \<longleftrightarrow> read_u64 136 bs = gcr_generation c"
    "slice 144 152 bs = be_encode 8 (unat (gcr_length c)) \<longleftrightarrow> read_u64 144 bs = gcr_length c"
    "slice 152 156 bs = be_encode 4 (unat (gcr_checksum c)) \<longleftrightarrow> read_u32 152 bs = gcr_checksum c"
    using read_fields(1) [of 136 bs] read_fields(1) [of 144 bs] read_fields(2) [of 152 bs] len by simp_all
  have "slice 132 156 bs = catalog_field (Some c) \<longleftrightarrow> bs ! 132 = gcr_slot c \<and> slice 133 136 bs @ slice 136 144 bs @ slice 144 152 bs @ slice 152 156 bs =
      [0, 0, 0] @ be_encode 8 (unat (gcr_generation c)) @ be_encode 8 (unat (gcr_length c)) @ be_encode 4 (unat (gcr_checksum c))"
    unfolding split_bytes(3) [OF len] by simp
  also have "\<dots> \<longleftrightarrow> bs ! 132 = gcr_slot c \<and> list_all (\<lambda>b. b = 0) (slice 133 136 bs) \<and> read_u64 136 bs = gcr_generation c \<and>
      read_u64 144 bs = gcr_length c \<and> read_u32 152 bs = gcr_checksum c"
    using len by (simp add: append_pieces z f del: append.simps)
  finally have eq: "slice 132 156 bs = catalog_field (Some c) \<longleftrightarrow> list_all (\<lambda>b. b = 0) (slice 133 136 bs) \<and>
      c = \<lparr>gcr_slot = bs ! 132, gcr_generation = read_u64 136 bs, gcr_length = read_u64 144 bs, gcr_checksum = read_u32 152 bs\<rparr>"
    by (cases c) auto
  have nz: "\<not> list_all (\<lambda>b. b = 0) (slice 132 156 bs)" if "read_u64 136 bs \<noteq> 0"
  proof
    assume "list_all (\<lambda>b. b = 0) (slice 132 156 bs)"
    then have "slice 136 144 bs = replicate 8 0" using zero_list [of "slice 136 144 bs"] len unfolding split_bytes(3) [OF len] by simp
    then have "read_u64 136 bs = 0" using read_fields(1) [of 136 bs 0] len by (simp add: be_encode_0)
    with that show False by simp
  qed
  show ?thesis unfolding Some eq using nz
    by (auto simp: decode_catalog_reference_def Let_def catalog_reference_refused_def)
qed

section \<open>The slot\<close>

definition manifest_body :: "ManifestRecord \<Rightarrow> bytes" where
  "manifest_body r = MANIFEST_MAGIC @ be_encode 2 1 @ be_encode 2 160 @ id_bytes (ji_store_id (cut_journal (mr_cutoff r))) @
     be_encode 8 (unat (mr_generation r)) @ be_encode 8 (unat (ji_generation (cut_journal (mr_cutoff r)))) @
     be_encode 8 (unat (cut_checkpoint_generation (mr_cutoff r))) @ be_encode 8 (unat (cut_append_sequence (mr_cutoff r))) @
     be_encode 8 (unat (cut_end_offset (mr_cutoff r))) @
     [rr_slot (mr_registry r)] @ replicate 3 0 @ be_encode 8 (unat (rr_generation (mr_registry r))) @ be_encode 8 (unat (rr_length (mr_registry r))) @
     be_encode 4 (unat (rr_checksum (mr_registry r))) @
     [rsr_slot (rar_public (mr_retry r))] @ replicate 3 0 @ be_encode 8 (unat (rsr_generation (rar_public (mr_retry r)))) @
     be_encode 8 (unat (rar_length (mr_retry r))) @ be_encode 4 (unat (rar_checksum (mr_retry r))) @
     recovery_field (mr_recovery r) @ be_encode 8 (unat (mr_sequence_floor r)) @ catalog_field (mr_catalog r)"

abbreviation manifest_store :: "ManifestRecord \<Rightarrow> StoreId" where
  "manifest_store r \<equiv> ji_store_id (cut_journal (mr_cutoff r))"

lemma length_manifest_body: "identity_ok (manifest_store r) \<Longrightarrow> length (manifest_body r) = 156"
  by (simp add: manifest_body_def MANIFEST_MAGIC_def id_length)

lemma write_recovery:
  assumes "length xs = 116"
  shows "(case v of Some recovery \<Rightarrow> write_at 120 (be_encode 4 (unat (rcr_checksum recovery))) ((pad 160 xs)[116 := 1, 117 := rcr_slot recovery])
      | None \<Rightarrow> pad 160 xs) = pad 160 (xs @ recovery_field v)"
proof (cases v)
  case None
  then show ?thesis using assms pad_zeros [of xs 8 160] by simp
next
  case (Some r)
  have z: "replicate 2 (0::u8) = [0, 0]" by (simp add: numeral_eq_Suc)
  show ?thesis using assms by (simp add: Some pad_update pad_skip [where k = 2] z)
qed

lemma write_catalog:
  assumes "length xs = 132"
  shows "(case v of Some catalog \<Rightarrow> write_at 152 (be_encode 4 (unat (gcr_checksum catalog))) (write_at 144 (be_encode 8 (unat (gcr_length catalog)))
        (write_at 136 (be_encode 8 (unat (gcr_generation catalog))) ((pad 160 xs)[132 := gcr_slot catalog])))
      | None \<Rightarrow> pad 160 xs) = pad 160 (xs @ catalog_field v)"
proof (cases v)
  case None
  then show ?thesis using assms pad_zeros [of xs 24 160] by simp
next
  case (Some r)
  have z: "replicate 3 (0::u8) = [0, 0, 0]" by (simp add: numeral_eq_Suc)
  show ?thesis using assms by (simp add: Some pad_update pad_write pad_skip [where k = 3] z)
qed

lemma encode_manifest_seal:
  assumes "identity_ok (manifest_store r)"
  shows "encode_manifest r = seal (manifest_body r)"
proof -
  define xs where "xs = MANIFEST_MAGIC @ be_encode 2 1 @ be_encode 2 160 @ id_bytes (manifest_store r) @
     be_encode 8 (unat (mr_generation r)) @ be_encode 8 (unat (ji_generation (cut_journal (mr_cutoff r)))) @
     be_encode 8 (unat (cut_checkpoint_generation (mr_cutoff r))) @ be_encode 8 (unat (cut_append_sequence (mr_cutoff r))) @
     be_encode 8 (unat (cut_end_offset (mr_cutoff r))) @
     [rr_slot (mr_registry r)] @ replicate 3 0 @ be_encode 8 (unat (rr_generation (mr_registry r))) @ be_encode 8 (unat (rr_length (mr_registry r))) @
     be_encode 4 (unat (rr_checksum (mr_registry r))) @
     [rsr_slot (rar_public (mr_retry r))] @ replicate 3 0 @ be_encode 8 (unat (rsr_generation (rar_public (mr_retry r)))) @
     be_encode 8 (unat (rar_length (mr_retry r))) @ be_encode 4 (unat (rar_checksum (mr_retry r)))"
  have id: "length (id_bytes (manifest_store r)) = 16" using assms by (rule id_length)
  have v: "unat MANIFEST_VERSION = 1" by (simp add: MANIFEST_VERSION_def)
  have xl: "length xs = 116" by (simp add: xs_def MANIFEST_MAGIC_def id)
  have body: "manifest_body r = ((xs @ recovery_field (mr_recovery r)) @ be_encode 8 (unat (mr_sequence_floor r))) @ catalog_field (mr_catalog r)"
    by (simp add: manifest_body_def xs_def)
  have front: "write_at 112 (be_encode 4 (unat (rar_checksum (mr_retry r)))) (write_at 104 (be_encode 8 (unat (rar_length (mr_retry r))))
     (write_at 96 (be_encode 8 (unat (rsr_generation (rar_public (mr_retry r))))) ((write_at 88 (be_encode 4 (unat (rr_checksum (mr_registry r))))
     (write_at 80 (be_encode 8 (unat (rr_length (mr_registry r)))) (write_at 72 (be_encode 8 (unat (rr_generation (mr_registry r))))
     ((write_at 60 (be_encode 8 (unat (cut_end_offset (mr_cutoff r)))) (write_at 52 (be_encode 8 (unat (cut_append_sequence (mr_cutoff r))))
     (write_at 44 (be_encode 8 (unat (cut_checkpoint_generation (mr_cutoff r)))) (write_at 36 (be_encode 8 (unat (ji_generation (cut_journal (mr_cutoff r)))))
     (write_at 28 (be_encode 8 (unat (mr_generation r))) (write_at 12 (id_bytes (manifest_store r)) (write_at 10 (be_encode 2 160)
     (write_at 8 (be_encode 2 1) (write_at 0 MANIFEST_MAGIC (pad 160 []))))))))))[68 := rr_slot (mr_registry r)]))))
     [92 := rsr_slot (rar_public (mr_retry r))]))) = pad 160 xs"
    using id by (simp add: xs_def pad_write pad_update pad_skip [where k = 3] MANIFEST_MAGIC_def)
  have bl: "length (manifest_body r) = 156" using assms by (rule length_manifest_body)
  have sl: "slice 0 156 (pad 160 (manifest_body r)) = manifest_body r" using pad_slice [of "manifest_body r" 0 156 160] bl by simp
  have step: "write_at 124 (be_encode 8 (unat (mr_sequence_floor r))) (pad 160 (xs @ recovery_field (mr_recovery r))) =
      pad 160 ((xs @ recovery_field (mr_recovery r)) @ be_encode 8 (unat (mr_sequence_floor r)))"
    by (rule pad_write) (simp_all add: xl)
  have cat: "length ((xs @ recovery_field (mr_recovery r)) @ be_encode 8 (unat (mr_sequence_floor r))) = 132" by (simp add: xl)
  show ?thesis
    unfolding encode_manifest_def Let_def MANIFEST_LEN_def v pad_empty [of 160] front write_recovery [OF xl] step write_catalog [OF cat] body [symmetric] sl
    using bl by (simp add: pad_write pad_full seal_def)
qed

lemma manifest_body_split:
  assumes len: "length b = 156" and id: "identity_ok (manifest_store r)"
  shows "b = manifest_body r \<longleftrightarrow> slice 0 8 b = MANIFEST_MAGIC \<and> slice 8 10 b = be_encode 2 1 \<and> slice 10 12 b = be_encode 2 160 \<and>
     slice 12 28 b = id_bytes (manifest_store r) \<and> slice 28 36 b = be_encode 8 (unat (mr_generation r)) \<and>
     slice 36 44 b = be_encode 8 (unat (ji_generation (cut_journal (mr_cutoff r)))) \<and>
     slice 44 52 b = be_encode 8 (unat (cut_checkpoint_generation (mr_cutoff r))) \<and> slice 52 60 b = be_encode 8 (unat (cut_append_sequence (mr_cutoff r))) \<and>
     slice 60 68 b = be_encode 8 (unat (cut_end_offset (mr_cutoff r))) \<and> slice 68 69 b = [rr_slot (mr_registry r)] \<and> slice 69 72 b = replicate 3 0 \<and>
     slice 72 80 b = be_encode 8 (unat (rr_generation (mr_registry r))) \<and> slice 80 88 b = be_encode 8 (unat (rr_length (mr_registry r))) \<and>
     slice 88 92 b = be_encode 4 (unat (rr_checksum (mr_registry r))) \<and> slice 92 93 b = [rsr_slot (rar_public (mr_retry r))] \<and> slice 93 96 b = replicate 3 0 \<and>
     slice 96 104 b = be_encode 8 (unat (rsr_generation (rar_public (mr_retry r)))) \<and> slice 104 112 b = be_encode 8 (unat (rar_length (mr_retry r))) \<and>
     slice 112 116 b = be_encode 4 (unat (rar_checksum (mr_retry r))) \<and> slice 116 124 b = recovery_field (mr_recovery r) \<and>
     slice 124 132 b = be_encode 8 (unat (mr_sequence_floor r)) \<and> slice 132 156 b = catalog_field (mr_catalog r)"
proof -
  have m: "length MANIFEST_MAGIC = 8" by (simp add: MANIFEST_MAGIC_def)
  show ?thesis unfolding manifest_body_def using assms id_length [OF id]
    by (subst head_split) (simp_all add: m drop_split drop_slice [OF len, of 132] del: append_Cons)
qed

definition manifest_ok :: "ManifestRecord \<Rightarrow> bool" where
  "manifest_ok r \<longleftrightarrow> identity_ok (manifest_store r) \<and> \<not> retry_reference_refused (mr_retry r) \<and> pred_option (\<lambda>x. rcr_slot x < 3) (mr_recovery r) \<and>
     pred_option (\<lambda>c. \<not> catalog_reference_refused c) (mr_catalog r) \<and> \<not> manifest_fields_refused r"

text \<open>The record that the decoder reads off the fixed fields.\<close>

definition manifest_read :: "StoreId \<Rightarrow> bytes \<Rightarrow> RecoveryReference option \<Rightarrow> GenerationCatalogReference option \<Rightarrow> ManifestRecord" where
  "manifest_read store bs recovery catalog = \<lparr>mr_generation = read_u64 28 bs,
     mr_registry = \<lparr>rr_slot = bs ! 68, rr_generation = read_u64 72 bs, rr_length = read_u64 80 bs, rr_checksum = read_u32 88 bs\<rparr>,
     mr_cutoff = cutoff_from_manifest store (read_u64 36 bs) (read_u64 44 bs) (read_u64 52 bs) (read_u64 60 bs),
     mr_retry = \<lparr>rar_public = \<lparr>rsr_slot = bs ! 92, rsr_generation = read_u64 96 bs\<rparr>, rar_length = read_u64 104 bs, rar_checksum = read_u32 112 bs\<rparr>,
     mr_recovery = recovery, mr_sequence_floor = read_u64 124 bs, mr_catalog = catalog\<rparr>"

lemma manifest_read_iff:
  assumes len: "length bs = 160"
  shows "r = manifest_read store bs (mr_recovery r) (mr_catalog r) \<longleftrightarrow> manifest_store r = store \<and>
     slice 28 36 bs = be_encode 8 (unat (mr_generation r)) \<and>
     slice 36 44 bs = be_encode 8 (unat (ji_generation (cut_journal (mr_cutoff r)))) \<and>
     slice 44 52 bs = be_encode 8 (unat (cut_checkpoint_generation (mr_cutoff r))) \<and> slice 52 60 bs = be_encode 8 (unat (cut_append_sequence (mr_cutoff r))) \<and>
     slice 60 68 bs = be_encode 8 (unat (cut_end_offset (mr_cutoff r))) \<and> slice 68 69 bs = [rr_slot (mr_registry r)] \<and>
     slice 72 80 bs = be_encode 8 (unat (rr_generation (mr_registry r))) \<and> slice 80 88 bs = be_encode 8 (unat (rr_length (mr_registry r))) \<and>
     slice 88 92 bs = be_encode 4 (unat (rr_checksum (mr_registry r))) \<and> slice 92 93 bs = [rsr_slot (rar_public (mr_retry r))] \<and>
     slice 96 104 bs = be_encode 8 (unat (rsr_generation (rar_public (mr_retry r)))) \<and> slice 104 112 bs = be_encode 8 (unat (rar_length (mr_retry r))) \<and>
     slice 112 116 bs = be_encode 4 (unat (rar_checksum (mr_retry r))) \<and> slice 124 132 bs = be_encode 8 (unat (mr_sequence_floor r))"
proof -
  have f: "slice i (i + 8) bs = be_encode 8 (unat w) \<longleftrightarrow> read_u64 i bs = w" if "i + 8 \<le> 160" for i w using read_fields(1) [of i bs w] len that by simp
  have g: "slice i (i + 4) bs = be_encode 4 (unat w) \<longleftrightarrow> read_u32 i bs = w" if "i + 4 \<le> 160" for i w using read_fields(2) [of i bs w] len that by simp
  have o: "slice i (i + 1) bs = [x] \<longleftrightarrow> bs ! i = x" if "i < 160" for i x using slice_single [of i bs] len that by simp
  note fs = f [of 28] f [of 36] f [of 44] f [of 52] f [of 60] f [of 72] f [of 80] f [of 96] f [of 104] f [of 124] g [of 88] g [of 112] o [of 68] o [of 92]
  obtain ge rg cu rt rv fl ca where r: "r = \<lparr>mr_generation = ge, mr_registry = rg, mr_cutoff = cu, mr_retry = rt, mr_recovery = rv, mr_sequence_floor = fl, mr_catalog = ca\<rparr>"
    by (cases r)
  obtain jr cg sq eo where cu: "cu = \<lparr>cut_journal = jr, cut_checkpoint_generation = cg, cut_append_sequence = sq, cut_end_offset = eo\<rparr>" by (cases cu)
  show ?thesis using fs
    by (cases rg; cases rt; cases "rar_public rt"; cases jr) (auto simp: r cu manifest_read_def cutoff_from_manifest_def)
qed

lemma not_zero_ex: "\<not> list_ex (\<lambda>b. b \<noteq> 0) xs \<longleftrightarrow> list_all (\<lambda>b. b = (0::u8)) xs"
  by (induction xs) auto

lemma decode_manifest_read:
  assumes len: "length bs = 160"
  shows "decode_manifest bs store = Inr r \<longleftrightarrow> (\<exists>body. bs = seal body) \<and> slice 0 8 bs = MANIFEST_MAGIC \<and> slice 8 10 bs = be_encode 2 1 \<and>
     slice 10 12 bs = be_encode 2 160 \<and> slice 69 72 bs = replicate 3 0 \<and> slice 93 96 bs = replicate 3 0 \<and> slice 12 28 bs = id_bytes store \<and>
     slice 116 124 bs = recovery_field (mr_recovery r) \<and> slice 132 156 bs = catalog_field (mr_catalog r) \<and>
     r = manifest_read store bs (mr_recovery r) (mr_catalog r) \<and> manifest_ok r"
proof -
  have z: "slice 69 72 bs = replicate 3 0 \<longleftrightarrow> list_all (\<lambda>b. b = 0) (slice 69 72 bs)" "slice 93 96 bs = replicate 3 0 \<longleftrightarrow> list_all (\<lambda>b. b = 0) (slice 93 96 bs)"
    using zero_list [of "slice 69 72 bs"] zero_list [of "slice 93 96 bs"] len by simp_all
  have h: "slice 8 10 bs = be_encode 2 1 \<longleftrightarrow> read_u16 8 bs = 1" "slice 10 12 bs = be_encode 2 160 \<longleftrightarrow> read_u16 10 bs = 160"
    using read_fields(3) [of 8 bs 1] read_fields(3) [of 10 bs 160] len by simp_all
  have i: "identity_from_bytes (slice 12 28 bs) = Inr store \<longleftrightarrow> slice 12 28 bs = id_bytes store \<and> identity_ok store"
    using identity_from_bytes_iff [of "slice 12 28 bs" store] len by auto
  have crc: "(\<exists>body. bs = seal body) \<longleftrightarrow> crc32c (slice 0 156 bs) = read_u32 156 bs" using trailer_test [of bs 156] len by simp
  have st: "manifest_store (manifest_read store bs v w) = store" for v w by (simp add: manifest_read_def cutoff_from_manifest_def)
  have "decode_manifest bs store = Inr r \<longleftrightarrow> crc32c (slice 0 156 bs) = read_u32 156 bs \<and> slice 0 8 bs = MANIFEST_MAGIC \<and> read_u16 8 bs = 1 \<and> read_u16 10 bs = 160 \<and>
     list_all (\<lambda>b. b = 0) (slice 69 72 bs) \<and> list_all (\<lambda>b. b = 0) (slice 93 96 bs) \<and> list_all (\<lambda>b. b = 0) (slice 133 136 bs) \<and>
     identity_from_bytes (slice 12 28 bs) = Inr store \<and> (\<exists>v w. decode_recovery_reference bs = Inr v \<and> decode_catalog_reference bs = Inr w \<and>
       r = manifest_read store bs v w \<and> \<not> retry_reference_refused (mr_retry r) \<and> \<not> manifest_fields_refused r)"
    using len unfolding decode_manifest_def Let_def MANIFEST_LEN_def MANIFEST_VERSION_def manifest_read_def not_zero_ex [symmetric]
    by (auto simp: result_convs split: if_splits)
  also have "\<dots> \<longleftrightarrow> crc32c (slice 0 156 bs) = read_u32 156 bs \<and> slice 0 8 bs = MANIFEST_MAGIC \<and> read_u16 8 bs = 1 \<and> read_u16 10 bs = 160 \<and>
     list_all (\<lambda>b. b = 0) (slice 69 72 bs) \<and> list_all (\<lambda>b. b = 0) (slice 93 96 bs) \<and> identity_from_bytes (slice 12 28 bs) = Inr store \<and>
     decode_recovery_reference bs = Inr (mr_recovery r) \<and>
     (decode_catalog_reference bs = Inr (mr_catalog r) \<and> list_all (\<lambda>b. b = 0) (slice 133 136 bs)) \<and>
     r = manifest_read store bs (mr_recovery r) (mr_catalog r) \<and> \<not> retry_reference_refused (mr_retry r) \<and> \<not> manifest_fields_refused r"
    by (auto simp: manifest_read_def)
  also have "\<dots> \<longleftrightarrow> (\<exists>body. bs = seal body) \<and> slice 0 8 bs = MANIFEST_MAGIC \<and> slice 8 10 bs = be_encode 2 1 \<and>
     slice 10 12 bs = be_encode 2 160 \<and> slice 69 72 bs = replicate 3 0 \<and> slice 93 96 bs = replicate 3 0 \<and> slice 12 28 bs = id_bytes store \<and>
     slice 116 124 bs = recovery_field (mr_recovery r) \<and> slice 132 156 bs = catalog_field (mr_catalog r) \<and>
     r = manifest_read store bs (mr_recovery r) (mr_catalog r) \<and> manifest_ok r"
    unfolding decode_recovery_reference_iff [OF len] decode_catalog_reference_iff [OF len] crc h z i manifest_ok_def
    by (metis st)
  finally show ?thesis .
qed

lemma seal_take: "length body = n \<Longrightarrow> bs = seal body \<Longrightarrow> take n bs = body"
  using take_seal by blast

lemma seal_prefix: "length bs = n + 4 \<Longrightarrow> (\<exists>body. bs = seal body) \<longleftrightarrow> bs = seal (take n bs)"
  using seal_take by fastforce

lemma decode_manifest_iff:
  "decode_manifest bs store = Inr r \<longleftrightarrow> bs = encode_manifest r \<and> manifest_store r = store \<and> manifest_ok r"
proof (cases "length bs = 160")
  case len: True
  have sealed: "(\<exists>body. bs = seal body) \<longleftrightarrow> bs = seal (take 156 bs)" using seal_prefix [of bs 156] len by simp
  show ?thesis
  proof (cases "identity_ok (manifest_store r)")
    case id: True
    define b where "b = take 156 bs"
    have bl: "length b = 156" using len by (simp add: b_def)
    have sl: "slice i j bs = slice i j b" if "j \<le> 156" for i j using that by (simp add: b_def slice_take)
    have "bs = encode_manifest r \<longleftrightarrow> bs = seal b \<and> b = manifest_body r"
      unfolding encode_manifest_seal [OF id] using seal_take [of "manifest_body r" 156 bs] length_manifest_body [OF id] by (auto simp: b_def)
    then show ?thesis
      unfolding decode_manifest_read [OF len] manifest_read_iff [OF len] sealed b_def [symmetric] manifest_body_split [OF bl id]
      by (auto simp: sl)
  qed (simp add: decode_manifest_read [OF len] manifest_ok_def)
next
  case False
  have "length (encode_manifest r) = 160" if "manifest_ok r"
    using that length_manifest_body [of r] encode_manifest_seal [of r] by (simp add: manifest_ok_def)
  with False show ?thesis by (auto simp: decode_manifest_def MANIFEST_LEN_def)
qed

section \<open>The store format marker\<close>

lemma decode_store_format_marker_iff:
  assumes id: "identity_ok store"
  shows "decode_store_format_marker bs store = Inr () \<longleftrightarrow> bs = encode_store_format_marker store"
proof -
  define m where "m = STORE_FORMAT_MAGIC @ be_encode 2 1 @ be_encode 2 32 @ id_bytes store"
  have il: "length (id_bytes store) = 16" using id by (rule id_length)
  have ml: "length m = 28" "length STORE_FORMAT_MAGIC = 8" by (simp_all add: m_def STORE_FORMAT_MAGIC_def il)
  have v: "unat STORE_FORMAT_VERSION = 1" "unat STORE_FORMAT_RECORD_LEN = 32" by (simp_all add: STORE_FORMAT_VERSION_def STORE_FORMAT_RECORD_LEN_def)
  have "write_at 12 (id_bytes store) (write_at 10 (be_encode 2 32) (write_at 8 (be_encode 2 1) (write_at 0 STORE_FORMAT_MAGIC (pad 32 [])))) = pad 32 m"
    using il by (simp add: pad_write m_def STORE_FORMAT_MAGIC_def)
  then have enc: "encode_store_format_marker store = seal m"
    unfolding encode_store_format_marker_def Let_def STORE_FORMAT_LEN_def v pad_empty [of 32]
    using ml pad_slice [of m 0 28 32] by (simp add: pad_write pad_full seal_def)
  show ?thesis
  proof (cases "length bs = 32")
    case len: True
    define b where "b = take 28 bs"
    have bl: "length b = 28" using len by (simp add: b_def)
    have sl: "slice i j bs = slice i j b" if "j \<le> 28" for i j using that by (simp add: b_def slice_take)
    have body: "b = m \<longleftrightarrow> slice 0 8 b = STORE_FORMAT_MAGIC \<and> slice 8 10 b = be_encode 2 1 \<and> slice 10 12 b = be_encode 2 32 \<and> slice 12 28 b = id_bytes store"
      unfolding m_def using bl il ml by (subst head_split) (simp_all add: drop_split drop_slice [OF bl, of 12])
    have fields: "read_u16 8 bs = 1 \<longleftrightarrow> slice 8 10 b = be_encode 2 1" "read_u16 10 bs = 32 \<longleftrightarrow> slice 10 12 b = be_encode 2 32"
      using read_fields(3) [of 8 bs 1] read_fields(3) [of 10 bs 32] len by (simp_all add: sl)
    have i: "identity_from_bytes (slice 12 28 bs) = Inr store \<longleftrightarrow> slice 12 28 b = id_bytes store"
      using identity_from_bytes_iff [of "slice 12 28 bs" store] id bl by (auto simp: sl)
    have crc: "crc32c (slice 0 28 bs) = read_u32 28 bs \<longleftrightarrow> bs = seal b"
      using trailer_test [of bs 28] seal_prefix [of bs 28] len by (simp add: b_def)
    have "bs = seal m \<longleftrightarrow> bs = seal b \<and> b = m" using seal_take [of m 28 bs] ml by (auto simp: b_def)
    then show ?thesis
      unfolding enc using len body fields i crc
      by (auto simp: decode_store_format_marker_def STORE_FORMAT_LEN_def STORE_FORMAT_VERSION_def STORE_FORMAT_RECORD_LEN_def sl split: if_splits)
  next
    case False
    then show ?thesis unfolding enc using ml by (auto simp: decode_store_format_marker_def STORE_FORMAT_LEN_def)
  qed
qed

end
