(* ===== verification/Och_Manifest_Properties.thy ===== *)
theory Och_Manifest_Properties
  imports Och_Registry_Artifact Och_Manifest_Codec Och_Samples
begin

text \<open>
  What the manifest slot and the registry snapshot artifact guarantee: both formats are exact, a damaged slot is refused,
  and a registry is the same after a restart.
\<close>

section \<open>The manifest slot\<close>

text \<open>(C18) The manifest format is exact: bytes decode to a record for a store exactly when they are the encoding of that
  record, the record belongs to the store and every field is admissible.  So two records never share bytes, and no other
  bytes, padding or reserved fields included, are accepted.\<close>
theorem manifest_slot_exact:
  "decode_manifest bs store = Inr record \<longleftrightarrow> bs = encode_manifest record \<and> manifest_store record = store \<and> manifest_ok record"
  by (rule decode_manifest_iff)

section \<open>The registry artifact\<close>

text \<open>(C17) The registry artifact is exact: bytes decode to a registry exactly when the registry is one that well-formed
  commands can build within the persistable limits and the encoder writes these bytes for its snapshot at some
  generation, which the returned reference names with the length and the checksum of the bytes.\<close>
theorem registry_artifact_exact:
  "decode_registry_snapshot bs = Inr decoded \<longleftrightarrow>
   registry_sound (dr_registry decoded) \<and> persistable (reg_limits (dr_registry decoded)) \<and>
   (\<exists>generation. encode_registry_snapshot generation (registry_snapshot (dr_registry decoded)) = Inr bs \<and>
     dr_reference decoded = registry_reference 255 generation bs)"
  by (rule decode_registry_snapshot_iff)

text \<open>The registry that commands build is sound and keeps the limits of the empty one.\<close>

lemma built_registry:
  assumes "identity_ok store" "persistable limits" "list_all command_ok cs"
  defines "reg \<equiv> fold reg_run cs (registry_new store limits)"
  shows "registry_sound reg" "persistable (reg_limits reg)"
proof -
  have new: "registry_sound (registry_new store limits)"
    using assms(1,2) by (intro registry_sound_new) (simp_all add: persistable_def registry_consts usize_max_eq)
  then show "registry_sound reg" unfolding reg_def by (rule registry_sound_fold [OF assms(3)])
  have "registry_sound r \<Longrightarrow> reg_limits (fold reg_run cs r) = reg_limits r" for r
    using assms(3)
  proof (induction cs arbitrary: r)
    case (Cons c cs)
    then show ?case using keeps_sound_run [of r c] by (auto simp: keeps_sound_def)
  qed simp
  from this [OF new] show "persistable (reg_limits reg)" using assms(2) by (simp add: reg_def registry_new_def)
qed

text \<open>(C16) A registry survives a restart: whatever commands built it, accepted or refused, replaying its snapshot in
  memory gives it back, its snapshot is encoded at every generation but zero as long as the artifact fits its limit, and
  decoding the artifact replays every declaration and retirement into the same registry.\<close>
theorem registry_survives_restart:
  assumes "identity_ok store" "persistable limits" "list_all command_ok cs" "generation \<noteq> 0"
  defines "reg \<equiv> fold reg_run cs (registry_new store limits)"
  shows "restore_snapshot (registry_snapshot reg) = Inr reg \<and>
    (length (registry_bytes generation (registry_snapshot reg)) \<le> MAX_REGISTRY_SNAPSHOT_BYTES \<longrightarrow>
      (\<exists>bs. encode_registry_snapshot generation (registry_snapshot reg) = Inr bs \<and>
        decode_registry_snapshot bs = Inr \<lparr>dr_reference = registry_reference 255 generation bs, dr_registry = reg\<rparr>))"
proof -
  note built = built_registry [OF assms(1-3), folded reg_def]
  show ?thesis
    using restore_snapshot_identity built encode_registry_snapshot_bytes [OF sound_snapshot [OF built] assms(4)] decode_registry_bytes [OF built]
    by (auto simp: registry_sound_def)
qed

text \<open>Witness: the sample registry with two declarations of one series, stored at generation one.\<close>
theorem registry_survives_restart_witness:
  "\<exists>bs. encode_registry_snapshot 1 (registry_snapshot sample_registry) = Inr bs \<and>
    decode_registry_snapshot bs = Inr \<lparr>dr_reference = registry_reference 255 1 bs, dr_registry = sample_registry\<rparr>"
proof -
  have limits: "persistable sample_limits" by (simp add: persistable_def sample_limits_def registry_consts)
  have "history_wire_ok sample_history"
    using sound_history_wire [OF sample_registry_sound] limits by (simp add: sample_registry_def bt_get_def)
  then have "length (wire_declared sample_first) \<le> 24832" "length (wire_declared sample_declaration) \<le> 24832"
    using wire_declaration_bound by (simp_all add: history_wire_ok_def sample_history_def)
  then have fits: "length (registry_bytes 1 (registry_snapshot sample_registry)) \<le> MAX_REGISTRY_SNAPSHOT_BYTES"
    by (simp add: length_registry_bytes registry_consts registry_payload_def registry_snapshot_def sample_registry_def bt_values_def
        wire_history_def sample_history_def identity_ok_length)
  from registry_survives_restart [of "sample_id 1" sample_limits sample_commands 1] limits fits
  show ?thesis by (simp add: sample_empty_def [symmetric] sample_reached)
qed

end
