(* ===== verification/Spec2Isabelle.thy ===== *)
theory Spec2Isabelle
  imports Och_Recovery Och_Catalog Och_Rotation Och_Retry_Artifact Och_Sample_Run Och_Segment_Properties Och_Active_Properties
    Och_Manifest_Properties
begin

text \<open>
  \<^bold>\<open>OpenControl Historian: canonical model, series registry, admission and Journal V1, active journal, store artifacts and ingress\<close>

  The program is a bounded historian.  \<^verbatim>\<open>crates/och-core\<close> is the canonical model: identities, exact
  values, times and quality, collection envelopes, the series registry with its declaration history,
  and the declaration-authorized canonical admission that is the only thing the store accepts.
  \<^verbatim>\<open>crates/och-store\<close> encodes admissions as Journal V1 frames, appends them to a journal file and
  publishes their durability in a two-slot checkpoint file, decodes and revalidates them after a restart,
  records terminal-suffix recovery in a fixed artifact, keeps a catalog of sealed journal
  generations and a bounded window of committed retry outcomes, and rewrites sealed generations as
  segments that can be queried.  \<^verbatim>\<open>crates/och-runtime\<close> admits commands from
  many threads into sixteen slots, hands them to the writer in order, publishes the latest values and
  resolves receipts when a batch is durable.

  \<^bold>\<open>Theories and sources.\<close>
  \<^item> \<^verbatim>\<open>Och_Prelude\<close>: word synonyms, checked arithmetic, \<open>Result\<close> plumbing, slices, big-endian bytes.
  \<^item> \<^verbatim>\<open>Och_Model_Error\<close>: \<^verbatim>\<open>och-core/src/error.rs\<close>.  \<^verbatim>\<open>Och_Str\<close>: UTF-8 strings as byte lists, as \<open>str\<close> has them.
  \<^item> \<^verbatim>\<open>Och_Bounded\<close>, \<^verbatim>\<open>Och_Identity\<close>, \<^verbatim>\<open>Och_Position\<close>, \<^verbatim>\<open>Och_Time\<close>, \<^verbatim>\<open>Och_Value\<close>, \<^verbatim>\<open>Och_Quality\<close>,
    \<^verbatim>\<open>Och_Observation\<close>: the files of the same names in \<^verbatim>\<open>och-core/src\<close> (\<^verbatim>\<open>value.rs\<close> and \<^verbatim>\<open>retry.rs\<close> share
    \<^verbatim>\<open>Och_Value\<close>).  Structs are records or one-constructor datatypes, enums are datatypes, constructors
    that can refuse return \<open>error + value\<close>.
  \<^item> \<^verbatim>\<open>Och_Collection\<close>: \<^verbatim>\<open>collection.rs\<close>, the envelope validator with its merge loop over gaps.
  \<^item> \<^verbatim>\<open>Och_BTreeMap\<close>: the interface of an ordered map as a locale, interpreted on sorted association lists.
  \<^item> \<^verbatim>\<open>Och_Series\<close> and \<^verbatim>\<open>Och_Registry\<close>: \<^verbatim>\<open>series.rs\<close>; the registry is a record, each operation returns its result
    and the next registry on every branch; \<^verbatim>\<open>Och_Registry\<close> holds the invariant, the contract of a mutating
    operation (locales \<open>registry_op\<close> and \<open>replayable_op\<close>) and the reachable states.
  \<^item> \<^verbatim>\<open>Och_Source\<close>: \<^verbatim>\<open>source.rs\<close>, source evidence and the two admission constructors.
  \<^item> \<^verbatim>\<open>Och_Wire\<close>, \<^verbatim>\<open>Och_Encode\<close>, \<^verbatim>\<open>Och_Decode\<close>: the encoder, the cursor and every \<open>encode_*\<close> and \<open>decode_*\<close> function of
    \<^verbatim>\<open>och-store/src/codec.rs\<close> with the types of \<^verbatim>\<open>decoded.rs\<close>; locale \<open>wire_codec\<close> states what a codec pair
    promises.  \<^verbatim>\<open>Och_Crc32c\<close>: the checksum.  \<^verbatim>\<open>Och_Frame\<close>: headers, frames, the prepared path and the frame decoder.
  \<^item> \<^verbatim>\<open>Och_Journal\<close>, \<^verbatim>\<open>Och_Bounds\<close>, \<^verbatim>\<open>Och_Admission_Frame\<close>: what the frame decoder accepts, the size bounds of every
    wire layout, and the contract for authorized admissions.
  \<^item> \<^verbatim>\<open>Och_Recovery\<close>: \<^verbatim>\<open>recovery.rs\<close>, the recovery report and its 128-byte artifact.
  \<^item> \<^verbatim>\<open>Och_Artifact\<close>: locale \<open>checksummed\<close>, what the store's checksummed artifacts share; interpreted for the
    recovery state, the catalog, the rotation intent, the retry state and segments.
  \<^item> \<^verbatim>\<open>Och_Generation\<close>, \<^verbatim>\<open>Och_Catalog\<close>, \<^verbatim>\<open>Och_Rotation\<close>: \<^verbatim>\<open>generation.rs\<close>, the catalog of sealed generations with its chain
    invariant, its artifact, the rotation intent, the streaming checksum and the file names.
  \<^item> \<^verbatim>\<open>Och_Retry_State\<close>, \<^verbatim>\<open>Och_Retry_Window\<close>, \<^verbatim>\<open>Och_Retry_Codec\<close>, \<^verbatim>\<open>Och_Retry_Artifact\<close>: \<^verbatim>\<open>och-store/src/retry.rs\<close> and \<open>ManifestCommit\<close>,
    the retry projection, its refinement of a two-tier queue, and the Retry State V1 artifact.
  \<^item> \<^verbatim>\<open>Och_Segment\<close> and \<^verbatim>\<open>Och_Segment_Read\<close>: \<^verbatim>\<open>segment.rs\<close>, building a Native Segment V1 from a sealed journal, parsing and
    querying it.  \<^verbatim>\<open>Och_Segment_Entries\<close>: the entry codecs, sorting and binary search.  \<^verbatim>\<open>Och_Segment_Spec\<close>, \<^verbatim>\<open>Och_Segment_Parse\<close>,
    \<^verbatim>\<open>Och_Segment_Canon\<close>, \<^verbatim>\<open>Och_Segment_Exact\<close>: the canonical segment of a list of blocks, and that parsing accepts exactly
    those.  \<^verbatim>\<open>Och_Segment_Group\<close>, \<^verbatim>\<open>Och_Segment_Build\<close>: that building writes exactly those.  \<^verbatim>\<open>Och_Segment_Query\<close>: queries against
    the laws of locale \<open>observation_index\<close>; \<^verbatim>\<open>Och_Segment_Index\<close> interprets it for parsed segments.  \<^verbatim>\<open>Och_Segment_Properties\<close>:
    the resulting properties and the segment of the sample admission.
  \<^item> \<^verbatim>\<open>Och_Volume\<close>: the directory of a journal, two files with their current bytes, durable bytes and position, and the
    standard-library calls on them; a list of outcomes decides which calls fail and how far a failing write got.
    \<^verbatim>\<open>Och_Active\<close>: every operation of \<^verbatim>\<open>active.rs\<close> and \<^verbatim>\<open>pressure.rs\<close> on such a volume.  \<^verbatim>\<open>Och_Volume_Effects\<close>: three calculi over
    these programs, for what leaves the files alone, what does not depend on the faults, and the number of calls.
    \<^verbatim>\<open>Och_Active_Checkpoint\<close>, \<^verbatim>\<open>Och_Active_Scan\<close>, \<^verbatim>\<open>Och_Active_Open\<close>: the slot codec, the scan of a journal with a torn tail,
    and opening.  \<^verbatim>\<open>Och_Active_Disk\<close>, \<^verbatim>\<open>Och_Active_Writer\<close>, \<^verbatim>\<open>Och_Active_Recover\<close>: the invariant of the two files and that
    writing, crashing and opening keep it.  \<^verbatim>\<open>Och_Active_System\<close>: the lives of a journal as an inductive predicate, and
    locale \<open>recoverable_log\<close>, the contract of a log that survives crashes, interpreted for the journal.
    \<^verbatim>\<open>Och_Active_Properties\<close>: the resulting properties; \<^verbatim>\<open>Och_Active_Sample\<close>: a life on which their hypotheses hold.
  \<^item> \<^verbatim>\<open>Och_Manifest\<close>: \<^verbatim>\<open>manifest.rs\<close>, errors and their classification, options, the store format marker, the manifest record
    with its slot codec, the choice of the current manifest and the progress of one manifest over another.
    \<^verbatim>\<open>Och_Manifest_Codec\<close>: that both codecs are exact.  \<^verbatim>\<open>Och_Registry_Codec\<close>: the registry snapshot artifact, which is decoded by
    replaying every declaration, and the restoration of a snapshot.  \<^verbatim>\<open>Och_Registry_Restore\<close>, \<^verbatim>\<open>Och_Registry_Artifact\<close>: that replay
    rebuilds the registry and that the artifact is exact.  \<^verbatim>\<open>Och_Manifest_Properties\<close>: the resulting properties.
  \<^item> \<^verbatim>\<open>Och_Latest\<close>: \<^verbatim>\<open>och-runtime/src/latest.rs\<close>.  \<^verbatim>\<open>Och_Fixed_Queue\<close>: the ring of \<^verbatim>\<open>ingress.rs\<close> behind locale \<open>fifo_queue\<close>.
  \<^item> \<^verbatim>\<open>Och_Ingress\<close>: the operations of \<^verbatim>\<open>ingress.rs\<close>, one function per critical section.  \<^verbatim>\<open>Och_Ingress_Slots\<close>,
    \<^verbatim>\<open>Och_Ingress_Inv\<close>, \<^verbatim>\<open>Och_Ingress_Commit\<close>: the invariant of the ingress and that every operation keeps it (locale
    \<open>ingress_op\<close>).  \<^verbatim>\<open>Och_Ingress_System\<close>: the step relation of concurrent submitters, writer, stops and panics,
    with locale \<open>bystander_op\<close> for the operations that leave reserved slots alone.
    \<^verbatim>\<open>Och_Ingress_Properties\<close>: what holds in every reachable state.
  \<^item> \<^verbatim>\<open>Och_Samples\<close>, \<^verbatim>\<open>Och_Sample_Frame\<close>, \<^verbatim>\<open>Och_Sample_Run\<close>: concrete values and a run of the ingress on which the
    hypotheses of the properties hold.

  \<^bold>\<open>What is shown.\<close>  Text forms and conversions are exact in both directions; the collection and admission
  validators decide declarative contracts; the registry keeps its invariant in every reachable state, its
  history only grows, retirement is final, and commands are idempotent; a valid admission always has a
  frame, the frame decodes to the same admission, the decoder accepts nothing but canonical encodings of
  consistent admissions, and damage within four consecutive bytes is refused; the recovery, catalog,
  rotation and retry artifacts, the manifest slot and the registry artifact are canonical, and a registry is the
  same after a restart; sealed ranges partition the append sequences; the retry
  window is dense and refines a bounded queue; a segment keeps its journal, its bytes are canonical, its index is
  complete and a query returns the newest matches; whatever calls fail and wherever a crash falls, an undisturbed
  open of an active journal recovers what was durable and nothing that was not appended, a synchronization
  makes every appended record durable, a failed write spends its handle, an open below a manifest root
  writes nothing, and opening makes a bounded number of calls; and under every interleaving the ingress keeps exact byte
  accounts, exclusive retry scopes, write-once receipts, service in order, all-or-nothing durable
  batches and monotone published positions.

  \<^bold>\<open>Bounds.\<close>  \<open>usize\<close> is 64 bits wide: lengths are natural numbers compared with \<open>usize_max\<close>, and the arithmetic that
  the code checks is checked here.  All loops are structural or have a measure, so no fuel is used;
  the two scans of the journal count down the record limit, which is the bound the code checks in each round.
  Hash sets are sets, the B-tree map is its sorted list of entries, and spare allocation capacity
  (\<^verbatim>\<open>compact.rs\<close>) is invisible because a string or vector is its contents.

  A step of the ingress is one critical section; a poisoned lock is a flag that any step may set.  A shared
  receipt is an index into a heap of receipts, a snapshot allocation is a number.

  A call on a volume fails as its list of outcomes says, a failing write keeps any prefix of its bytes, and a
  synchronization that succeeds makes the durable bytes the current ones.  After a crash a file holds the bytes
  on which its durable and its current image agree and continues like one of the two; a 64-byte checkpoint slot
  is written as a unit (\<open>vol_slot_atomic\<close>), since the code refuses a file with a torn slot.

  \<^bold>\<open>Not modelled.\<close>  The publication of manifests, registry, retry and catalog slots and segment files on disk and the
  convergence of interrupted publications (the rest of \<^verbatim>\<open>manifest.rs\<close>), typed value blocks
  (compiled for tests only), wake-ups and waiting futures, the store worker's thread and the runtime's life
  cycle, the native harness and the repository tooling.
\<close>

section \<open>Authority to bytes and back\<close>

text \<open>(C2) The whole write and read path.  Take a registry reached from an empty one by well-formed commands,
  an envelope the collection validator accepts, the binding of that envelope, and an observed
  admission built from it with well-formed source evidence.  Then the admission is framed without an
  error, and decoding the frame under the default limits after a predecessor one below gives back the
  admission: declaration, envelope, retry, batch, lifecycle and lineage, field by field.\<close>
theorem admission_journal_round_trip:
  assumes registry: "identity_ok store" "max_declaration_revisions limits \<le> usize_max" "list_all command_ok cs"
      "reg = fold reg_run cs (registry_new store limits)"
    and envelope: "metadata_ok md" "list_all observation_ok obs" "list_all gap_ok gaps"
      "envelope_observed md obs gaps = Inr env" "registry_bind env reg = Inr declared"
    and source: "retry_ok retry" "batch_ok batch" "lifecycle_ok lc" "list_all context_ok ctxs"
      "list_all source_gap_ok sgaps"
      "admission_observed declared retry batch lc ctxs sgaps = Inr a"
    and sequence: "append_sequence_new n = Inr s" "sequence_follows prev n"
  shows "\<exists>frame. encode_admission_frame_v1 s a = Inr frame \<and>
    decode_admission_frame_v1 frame decode_limits_maximum prev = Inr (view_admission n a)"
proof -
  have sound: "registry_sound reg"
    unfolding registry(4) by (rule registry_sound_fold [OF registry(3) registry_sound_new [OF registry(1,2)]])
  have ok: "admission_ok a"
    using envelope_observed_ok [OF envelope(4,1-3)] source(1-5)
    by (intro admission_observed_ok [OF sound envelope(5) _ _ _ _ _ _ source(6)])
  have s: "append_get s = n" "n \<noteq> 0" using sequence(1) by (auto simp: append_sequence_new_def split: if_splits)
  have "length (wire_payload (view_admission n a)) \<le> max_payload_len decode_limits_maximum"
    using wire_payload_bound [OF admission_payload_ok [OF ok]] by (simp add: decode_limits_maximum_def)
  then show ?thesis
    using encode_frame_valid [OF ok, of s] decode_frame_valid [OF ok s(2) sequence(2)] by (simp add: s(1))
qed

text \<open>Witness: one series registered and revised, one positioned observation and one gap.\<close>
theorem admission_journal_round_trip_witness:
  "\<exists>frame. encode_admission_frame_v1 (AppendSequenceV1 5) sample_admission = Inr frame \<and>
     decode_admission_frame_v1 frame decode_limits_maximum (Some (AppendSequenceV1 4)) =
       Inr (view_admission 5 sample_admission)"
  by (rule admission_journal_round_trip [of "sample_id 1" sample_limits sample_commands sample_registry
        sample_metadata "[sample_observation]" "[sample_gap]" sample_envelope sample_declared sample_retry
        sample_batch sample_lifecycle "[sample_context]" "[sample_source_gap]" sample_admission])
     (simp_all add: sample_reached [symmetric, unfolded sample_empty_def] sample_enveloped sample_bound [unfolded sample_reached [symmetric, unfolded sample_empty_def]] sample_admitted
       append_sequence_new_def sequence_follows_def, simp add: sample_limits_def)

text \<open>(C3) The decoder's language, exactly: bytes are accepted as an admission if and only if they are the encoding
  of a well-formed admission whose parts are mutually consistent, whose append sequence is nonzero
  and follows the previous one, and whose payload respects the decode limits.\<close>
theorem frame_language_exact:
  assumes "length bs \<le> usize_max"
  shows "decode_admission_frame_v1 bs limits prev = Inr d \<longleftrightarrow>
    encode_decoded_admission_frame_v1 d = Inr bs \<and> decoded_payload_ok d \<and> decoded_related d \<and>
    frame_admissible limits prev d"
proof (cases "decoded_payload_ok d")
  case True
  then have "revision_ok (dd_revision (da_declaration d))"
    by (simp add: decoded_payload_ok_def decoded_declaration_ok_def)
  then show ?thesis
    unfolding decode_frame_iff [OF assms]
    using encode_decoded_frame_of [OF True] True by (auto simp: validate_decoded_iff)
next
  case False
  then show ?thesis by (simp add: decode_frame_iff [OF assms])
qed

text \<open>Witness: the frame of the sample admission.\<close>
theorem frame_language_witness:
  "encode_decoded_admission_frame_v1 sample_decoded = Inr sample_frame \<and>
   decode_admission_frame_v1 sample_frame decode_limits_maximum None = Inr sample_decoded"
  using frame_language_exact [OF sample_frame_fits] sample_frame_decodes by blast

text \<open>(C11) Framing an authorized admission cannot fail: every valid admission has a frame, the counting pass
  announces its exact length before it is built, and the length never exceeds the payload limit plus
  the fixed prefix and checksum.\<close>
theorem admission_framing_total:
  assumes "admission_ok a"
  shows "\<exists>frame. encode_admission_frame_v1 s a = Inr frame \<and> admission_frame_len_v1 a = Inr (length frame) \<and>
    length frame \<le> JOURNAL_V1_FRAME_PREFIX_LEN + MAX_ADMISSION_PAYLOAD_V1 + JOURNAL_V1_FRAME_CRC_LEN"
  using encode_frame_valid [OF assms, of s] admission_frame_len_valid [OF assms, of "append_get s"]
    wire_payload_bound [OF admission_payload_ok [OF assms, of "append_get s"]]
  by (simp add: length_frame_of frame_consts)

text \<open>Witness: the sample admission at append sequence 5.\<close>
theorem admission_framing_total_witness:
  "\<exists>frame. encode_admission_frame_v1 (AppendSequenceV1 5) sample_admission = Inr frame \<and>
     admission_frame_len_v1 sample_admission = Inr (length frame) \<and> length frame \<le> 8388632"
  using admission_framing_total [OF sample_admission_ok, of "AppendSequenceV1 5"] by (simp add: frame_consts)

text \<open>The prepared path is the direct path: preparing a valid admission succeeds, sealing the prepared
  payload under an append sequence succeeds, returns the same admission and sequence, and produces the
  bytes that direct encoding produces, of the length announced at preparation.\<close>
theorem prepared_path_equals_direct:
  assumes "admission_ok a"
  shows "\<exists>p f. prepared_admission_new a = Inr p \<and> into_frame p s = Inr f \<and>
    pf_admission f = a \<and> pf_append_sequence f = s \<and> encode_admission_frame_v1 s a = Inr (pf_bytes f) \<and>
    length (pf_bytes f) = pa_frame_len p"
  using into_frame_valid [OF assms, of _ s] prepared_admission_valid [OF assms, of "append_get s"]
    encode_frame_valid [OF assms, of s]
  by simp

text \<open>Witness: the sample admission.\<close>
theorem prepared_path_witness:
  "\<exists>p f. prepared_admission_new sample_admission = Inr p \<and> into_frame p (AppendSequenceV1 5) = Inr f \<and>
     encode_admission_frame_v1 (AppendSequenceV1 5) sample_admission = Inr (pf_bytes f)"
  using prepared_path_equals_direct [OF sample_admission_ok, of "AppendSequenceV1 5"] by blast

section \<open>Damage to journal bytes\<close>

text \<open>(C13) An accepted frame whose bytes before the checksum are changed within any window of four consecutive
  bytes is refused, under any limits and after any previous sequence.\<close>
theorem damaged_frame_refused:
  assumes "decode_admission_frame_v1 (p @ u @ q @ t) limits prev = Inr d"
    and "length (p @ u @ q @ t) \<le> usize_max" "length t = 4" "length v = length u" "length u \<le> 4" "v \<noteq> u"
  shows "\<exists>e. decode_admission_frame_v1 (p @ v @ q @ t) limits' prev' = Inl e"
  by (rule corrupted_body_refused [OF assms])

text \<open>Witness: the sample frame with its first byte replaced.\<close>
theorem damaged_frame_refused_witness:
  "\<exists>rest e. sample_frame = 0x4F # rest \<and>
     decode_admission_frame_v1 (0 # rest) decode_limits_maximum None = Inl e"
proof -
  obtain q t where f: "sample_frame = 0x4F # q @ t" and t: "length t = 4" using sample_frame_split by blast
  show ?thesis
    using damaged_frame_refused [of "[]" "[0x4F]" q t decode_limits_maximum None sample_decoded "[0]"
        decode_limits_maximum None] sample_frame_decodes sample_frame_fits t
    by (simp add: f)
qed

text \<open>Truncation and extension never look like another admission: no accepted frame is a proper prefix of
  an accepted frame, so the next frame of a journal starts where the previous one ends.\<close>
lemma frames_prefix_free:
  assumes "length (f @ g) \<le> usize_max" "decode_admission_frame_v1 f limits prev = Inr d"
    and "decode_admission_frame_v1 (f @ g) limits' prev' = Inr d'"
  shows "g = []"
  by (rule frame_prefix_free [OF assms])

text \<open>Witness: the sample frame extends itself by nothing.\<close>
theorem frames_prefix_free_witness:
  "decode_admission_frame_v1 (sample_frame @ []) decode_limits_maximum None = Inr sample_decoded \<and>
   drop (length sample_frame) sample_frame = []"
  using frames_prefix_free [of sample_frame "[]" decode_limits_maximum None sample_decoded decode_limits_maximum None
      sample_decoded] sample_frame_fits sample_frame_decodes
  by simp

text \<open>The first twenty bytes announce the extent: for every accepted frame the prefix reader returns the
  frame's whole length, which is what the scanner skips by.\<close>
lemma prefix_announces_length:
  assumes "length bs \<le> usize_max" "decode_admission_frame_v1 bs limits prev = Inr d"
  shows "frame_len_from_prefix_v1 (take JOURNAL_V1_FRAME_PREFIX_LEN bs) limits = Inr (length bs)"
  using frame_len_from_prefix [OF assms] by (simp add: JOURNAL_V1_FRAME_PREFIX_LEN_def)

text \<open>Witness: the prefix of the sample frame.\<close>
theorem prefix_announces_length_witness:
  "frame_len_from_prefix_v1 (take 20 sample_frame) decode_limits_maximum = Inr (length sample_frame)"
  using prefix_announces_length [OF sample_frame_fits sample_frame_decodes] by (simp add: JOURNAL_V1_FRAME_PREFIX_LEN_def)

text \<open>(C24) Append sequences are consecutive: a frame is accepted after a predecessor exactly when it is accepted
  alone and its sequence number is the predecessor's plus one, compared as numbers so that the last
  sequence has no successor.\<close>
theorem append_sequence_consecutive:
  assumes "length bs \<le> usize_max"
  shows "decode_admission_frame_v1 bs limits (Some s) = Inr d \<longleftrightarrow>
    decode_admission_frame_v1 bs limits None = Inr d \<and> unat (da_append_sequence d) = unat (append_get s) + 1"
  by (auto simp: decode_frame_iff [OF assms] frame_admissible_def sequence_follows_def)

text \<open>Witness: the sample frame, of sequence 5, after 4 and after the last sequence.\<close>
theorem append_sequence_consecutive_witness:
  "decode_admission_frame_v1 sample_frame decode_limits_maximum (Some (AppendSequenceV1 4)) = Inr sample_decoded \<and>
   decode_admission_frame_v1 sample_frame decode_limits_maximum (Some (AppendSequenceV1 0xFFFFFFFFFFFFFFFF)) \<noteq> Inr sample_decoded"
  using append_sequence_consecutive [OF sample_frame_fits] sample_frame_decodes
  by (simp add: sample_decoded_def)

text \<open>The file header is canonical: bytes decode to a header exactly when they are what the encoder writes for a
  valid store identity.\<close>
lemma header_exact:
  "header_decode bs = Inr h \<longleftrightarrow> identity_ok (header_store_id h) \<and> bs = header_encode h"
proof -
  have "header_decode bs = Inr h \<longleftrightarrow> decode_header bs = Inr (header_store_id h)"
    by (cases h) (auto simp: header_decode_def result_convs)
  then show ?thesis
    using encode_header_layout [of "header_store_id h"]
    by (auto simp: decode_header_iff header_encode_def identity_ok_def)
qed

section \<open>The series registry\<close>

text \<open>(C7) The registry invariant holds in every state reachable from an empty registry by any commands, accepted
  or refused: keys sorted and unique, every history nonempty with dense revisions chained to their
  predecessors under one store and one binding, consecutive payloads different, a retirement naming the
  last revision, and both capacity counters exact and within the limits.\<close>
theorem registry_invariant_reachable:
  "reg_reachable (registry_new store limits) reg \<Longrightarrow> registry_ok reg"
  using reg_reachable_contract registry_new_ok by blast

text \<open>Witness: the registry after a registration and a revision.\<close>
theorem registry_invariant_reachable_witness: "registry_ok sample_registry"
  by (rule registry_invariant_reachable [of "sample_id 1" sample_limits])
     (use reg_run_reachable [of sample_empty sample_commands] in \<open>simp add: sample_reached sample_empty_def [symmetric]\<close>)

text \<open>(C15) Registry history is append-only: whatever commands run later, a declaration revision once resolved
  resolves to the same declaration, a retired series keeps its complete history, and the store identity
  and limits never change.\<close>
theorem registry_append_only:
  assumes "registry_ok reg" "reg_reachable reg reg'"
  shows "reg_store_id reg' = reg_store_id reg \<and> reg_limits reg' = reg_limits reg \<and>
    (\<forall>sid rv d. resolve reg sid rv = Some d \<longrightarrow> resolve reg' sid rv = Some d) \<and>
    (\<forall>sid h. history reg sid = Some h \<and> lifecycle h = Retired \<longrightarrow> history reg' sid = Some h)"
proof -
  have e: "registry_extends reg reg'" using reg_reachable_contract [OF assms(2,1)] by simp
  then show ?thesis
    using resolve_extends [OF e] retired_extends [OF e]
    by (auto simp: registry_extends_def lifecycle_def split: if_splits)
qed

text \<open>Witness: the first declaration stays resolvable after the series is revised and retired.\<close>
theorem registry_append_only_witness:
  "resolve sample_registered (sample_id 2) (DeclarationRevision 1) = Some sample_first \<and>
   resolve sample_retired (sample_id 2) (DeclarationRevision 1) = Some sample_first"
proof -
  have r: "resolve sample_registered (sample_id 2) (DeclarationRevision 1) = Some sample_first"
    by (simp add: resolve_def sample_registered_def bt_get_def sample_first_def)
  have "reg_reachable sample_registered sample_registry"
    by (rule reach_step [OF reach_refl step_revise [OF sample_revises]])
  then have "reg_reachable sample_registered sample_retired"
    by (rule reach_step [OF _ step_retire [OF sample_retires]])
  then show ?thesis using registry_append_only [OF sample_registered_ok] r by blast
qed

text \<open>(C26) Retirement is final: a retired series refuses registration, revision and binding with
  \<open>SeriesRetired\<close>, and any retirement other than a repetition of the recorded one, leaving the registry as
  it was.\<close>
theorem retirement_final:
  assumes "history reg sid = Some h" "hist_retirement h = Some t"
  shows "register sid b p e reg = (Inl SeriesRetired, reg) \<and> revise sid r p e reg = (Inl SeriesRetired, reg) \<and>
    retire sid r e reg =
      (if t = \<lparr>ret_declaration_revision = r, ret_evidence = e\<rparr> then Inr t else Inl SeriesRetired, reg) \<and>
    registry_bind \<lparr>env_series = \<lparr>md_series_id = sid, md_producer_id = pid, md_collection_mode = m\<rparr>,
      env_evidence = ev\<rparr> reg = Inl SeriesRetired"
  using retired_refuses [OF assms] retired_replay [OF assms] by auto

text \<open>Witness: the retired sample registry.\<close>
theorem retirement_final_witness:
  "register (sample_id 2) sample_binding (sample_payload UnitAbsent) sample_evidence sample_retired =
     (Inl SeriesRetired, sample_retired) \<and>
   retire (sample_id 2) (DeclarationRevision 2) sample_evidence sample_retired =
     (Inr sample_retirement, sample_retired)"
  using retirement_final [of sample_retired "sample_id 2" _ sample_retirement sample_binding
      "sample_payload UnitAbsent" sample_evidence "DeclarationRevision 2"]
  by (simp add: history_def sample_retired_def bt_get_def sample_retirement_def)

text \<open>Revisions are dense and never wrap: in an invariant registry whose revision limit fits a \<open>usize\<close>,
  position \<open>i\<close> of a history is what \<open>resolve\<close> returns for revision \<open>i + 1\<close>, and the 128-bit revision
  number of that declaration is \<open>i + 1\<close>.\<close>
lemma revisions_dense:
  assumes "registry_ok reg" "max_declaration_revisions (reg_limits reg) \<le> usize_max" "history reg sid = Some h"
    and "i < length (hist_declarations h)"
  shows "resolve reg sid (revision_of (i + 1)) = Some (hist_declarations h ! i) \<and>
    unat (revision_get (decl_revision (hist_declarations h ! i))) = i + 1"
proof -
  have "decl_revision (hist_declarations h ! i) = revision_of (i + 1)"
    using history_declaration [OF registry_ok_history [OF assms(1)] assms(4)] assms(3)
    by (simp add: history_def declaration_at_ok_def)
  moreover have "i + 1 \<le> usize_max"
    using history_length_bound [OF assms(1,3)] assms(2,4) by simp
  ultimately show ?thesis using resolve_nth [OF assms] revision_of_get [of "i + 1"] by simp
qed

text \<open>(C25) Repeating a registry command is harmless: a second run of the same registration, revision or retirement
  returns what the first run returned, the retained record or the refusal, and leaves the registry as the
  first run left it.\<close>
theorem registry_commands_idempotent:
  assumes "registry_ok reg"
  shows "register sid b p e (snd (register sid b p e reg)) = register sid b p e reg \<and>
    revise sid r p e (snd (revise sid r p e reg)) = revise sid r p e reg \<and>
    retire sid r e (snd (retire sid r e reg)) = retire sid r e reg"
  using register_replayable.rerun [OF assms] revise_replayable.rerun [OF assms] retire_replayable.rerun [OF assms]
  by simp

text \<open>Witness: the sample revision repeated.\<close>
theorem registry_commands_idempotent_witness:
  "revise (sample_id 2) (DeclarationRevision 1) (sample_payload sample_unit) sample_evidence sample_registry =
     (Inr sample_declaration, sample_registry)"
  using registry_commands_idempotent [OF sample_registered_ok] sample_revises by (metis snd_conv)

text \<open>A refused command changes nothing: when registration, revision or retirement returns an error the
  registry is the one it was given.\<close>
lemma registry_refusal_no_effect:
  "(register sid b p e reg = (Inl err, reg') \<longrightarrow> reg' = reg) \<and>
   (revise sid r p e reg = (Inl err, reg') \<longrightarrow> reg' = reg) \<and>
   (retire sid r e reg = (Inl err, reg') \<longrightarrow> reg' = reg)"
  using register_op.refusal revise_op.refusal retire_op.refusal by blast

text \<open>Witness: a stale revision of the sample series is refused.\<close>
theorem registry_refusal_no_effect_witness:
  "revise (sample_id 2) (DeclarationRevision 7) (sample_payload UnitAbsent) sample_evidence sample_registry =
     (Inl StaleDeclarationRevision, sample_registry)"
proof -
  let ?run = "revise (sample_id 2) (DeclarationRevision 7) (sample_payload UnitAbsent) sample_evidence sample_registry"
  have "fst ?run = Inl StaleDeclarationRevision"
    by (simp add: revise_def sample_registry_def bt_get_def sample_history_def latest_declaration_def
        sample_declaration_def)
  then have "?run = (Inl StaleDeclarationRevision, snd ?run)" by (simp add: prod_eq_iff)
  then show ?thesis using registry_refusal_no_effect by metis
qed

text \<open>An accepted revision becomes the authority: in the new registry the returned declaration is the latest of
  an active history, carries the requested payload and evidence, names the expected revision as its
  predecessor, and resolves under its own revision number.\<close>
theorem revise_takes_effect:
  assumes "registry_ok reg" "max_declaration_revisions (reg_limits reg) \<le> usize_max"
    and "revise sid r p e reg = (Inr d, reg')"
  shows "\<exists>h. history reg' sid = Some h \<and> latest_declaration h = Some d \<and> lifecycle h = Active \<and>
    decl_previous_revision d = Some r \<and> decl_payload d = p \<and> decl_evidence d = e \<and>
    resolve reg' sid (decl_revision d) = Some d"
proof -
  obtain h where h: "history reg' sid = Some h" and l: "latest_declaration h = Some d"
    and rest: "lifecycle h = Active" "decl_previous_revision d = Some r" "decl_payload d = p" "decl_evidence d = e"
    using revise_latest [OF assms(1,3)] by blast
  have ok: "registry_ok reg'" and lim: "max_declaration_revisions (reg_limits reg') \<le> usize_max"
    using revise_op.preserves [OF assms(1)] revise_op.keeps_authority [OF assms(1)] assms(2,3)
    by (metis snd_conv)+
  have "resolve reg' sid (decl_revision d) = Some d" using resolve_latest [OF ok lim h l] .
  with h l rest show ?thesis by blast
qed

text \<open>Witness: the sample revision.\<close>
theorem revise_takes_effect_witness:
  "\<exists>h. history sample_registry (sample_id 2) = Some h \<and> latest_declaration h = Some sample_declaration \<and>
     resolve sample_registry (sample_id 2) (decl_revision sample_declaration) = Some sample_declaration"
  using revise_takes_effect [OF sample_registered_ok _ sample_revises]
  by (simp add: sample_registered_def sample_limits_def) blast

text \<open>Binding decides authority: an envelope is bound exactly when its series is active and its metadata is
  that of the latest declaration, every observed value belonging to the declared family; the bound envelope
  carries that declaration and the registry's store.\<close>
theorem binding_exact:
  "registry_bind envelope reg = Inr bound \<longleftrightarrow>
   (\<exists>h d. history reg (md_series_id (env_series envelope)) = Some h \<and> lifecycle h = Active \<and>
      latest_declaration h = Some d \<and>
      env_series envelope = payload_series_metadata (decl_payload d) (md_series_id (env_series envelope)) \<and>
      list_all (\<lambda>ob. admits (pl_value_family (decl_payload d)) (obs_value ob)) (env_observations envelope) \<and>
      bound = \<lparr>dce_store_id = reg_store_id reg, dce_declaration = d, dce_envelope = envelope\<rparr>)"
  unfolding registry_bind_iff list_all_iff by (rule refl)

section \<open>Admission and evidence codecs\<close>


text \<open>(C28) A no-change admission through the sanctioned route satisfies the full admission contract, in particular
  it carries no observations and no gaps, its series is change-only, and its four lifecycle identities
  are distinct.\<close>
theorem no_change_admission_valid:
  assumes "registry_sound reg" "registry_bind env reg = Inr declared" "envelope_ok env"
    and "retry_ok retry" "batch_ok batch" "lifecycle_ok lc"
    and "admission_no_change declared retry batch lc = Inr a"
  shows "admission_ok a \<and> adm_observations a = [] \<and> adm_gaps a = [] \<and> env_observations env = [] \<and>
    md_collection_mode (env_series env) = ChangeOnly \<and> distinct (lifecycle_ids lc)"
proof -
  have ok: "admission_ok a" by (rule admission_no_change_ok [OF assms])
  have n: "interval_of_evidence (env_evidence_kind env) = SourceNoChange" "distinct (lifecycle_ids lc)"
      "adm_evidence a = AdmissionNoChange"
    using assms(7) registry_bind_declaration(4) [OF assms(1,2)]
    by (auto simp: admission_no_change_iff validate_common_iff)
  then show ?thesis
    using ok assms(3)
    by (auto simp: adm_observations_def adm_gaps_def env_observations_def interval_of_evidence_def
        env_evidence_kind_def envelope_ok_def split: Evidence.splits)
qed

text \<open>Witness: a change-only series with one interval of no change.\<close>
theorem no_change_admission_witness:
  "\<exists>a. admission_no_change sample_quiet_declared sample_retry sample_quiet_batch sample_lifecycle = Inr a \<and>
     admission_ok a \<and> adm_observations a = []"
proof -
  obtain a where a: "admission_no_change sample_quiet_declared sample_retry sample_quiet_batch sample_lifecycle = Inr a"
    using sample_quiet_admitted by blast
  then show ?thesis
    using no_change_admission_valid [OF sample_quiet_sound sample_quiet_bound _ _ _ _ a] by simp
qed

end
